(* ===== verification/Logtab.thy ===== *)
theory Logtab
  imports Prelude "HOL-Library.Product_Lexorder"
begin

text \<open>
  \<^verbatim>\<open>kelso/lib/logtab.py\<close>: the append-only table under every store of kelso. The state is
  the file's text; every operation is modelled on that text (rendering, line splitting and
  parsing included), and the lemmas show that the text refines a finite map. The parameter
  \<open>fromiso\<close> is the clock reading of \<^verbatim>\<open>datetime.fromisoformat\<close> (\<open>None\<close> where it raises) and
  \<open>now\<close> the value of \<^verbatim>\<open>now_ts()\<close> at the call; the lemmas hold for every such function.
\<close>

abbreviation LF :: char where "LF \<equiv> CHR 0x0A"
abbreviation CR :: char where "CR \<equiv> CHR 0x0D"
abbreviation TAB :: char where "TAB \<equiv> CHR 0x09"

datatype log_op = OpSet | OpDel | OpClr

record log_entry =
  le_ts :: string
  le_value :: string

record log_rec =
  lr_ts :: string
  lr_op :: log_op
  lr_key :: string
  lr_value :: string

datatype log_error =
    InvalidKey string
  | InvalidValue string
  | InvalidOperation string
  | MalformedRecord nat string
  | KeyNotFound string
  | BadHistory int
  | BadTimestamp string

record logtab =
  lt_file :: string
  lt_strict :: bool
  lt_compact_size :: nat
  lt_compact_history :: int

section \<open>Validation and rendering of one record\<close>

definition MAX_KEY_LENGTH :: nat where "MAX_KEY_LENGTH = 512"
definition MAX_VAL_LENGTH :: nat where "MAX_VAL_LENGTH = 2048"

definition key_char :: "char \<Rightarrow> bool" where
  "key_char c \<longleftrightarrow> is_alnum c \<or> c \<in> set ''_/.-''"

definition validate_key :: "string \<Rightarrow> log_error + unit" where
  "validate_key key =
     (if key = [] \<or> length key > MAX_KEY_LENGTH \<or> \<not> list_all key_char key
      then Inl (InvalidKey key) else Inr ())"

definition validate_value :: "string \<Rightarrow> log_error + unit" where
  "validate_value val =
     (if length val > MAX_VAL_LENGTH \<or> LF \<in> set val then Inl (InvalidValue val) else Inr ())"

fun op_text :: "log_op \<Rightarrow> string" where
  "op_text OpSet = ''set''"
| "op_text OpDel = ''del''"
| "op_text OpClr = ''clr''"

definition parse_op :: "string \<Rightarrow> log_op option" where
  "parse_op s =
     (if s = ''set'' then Some OpSet else if s = ''del'' then Some OpDel
      else if s = ''clr'' then Some OpClr else None)"

definition validate_operation :: "string \<Rightarrow> log_error + unit" where
  "validate_operation s = (if parse_op s = None then Inl (InvalidOperation s) else Inr ())"

definition render_fields :: "string \<Rightarrow> string \<Rightarrow> string \<Rightarrow> string \<Rightarrow> string" where
  "render_fields ts op key value = join [TAB] [ts, op, key, value]"

definition render_rec :: "log_rec \<Rightarrow> string" where
  "render_rec r = render_fields (lr_ts r) (op_text (lr_op r)) (lr_key r) (lr_value r)"

text \<open>\<^verbatim>\<open>write_entry\<close> appends one line; the loop over \<^verbatim>\<open>os.write\<close> ends with all of it written.\<close>

definition write_entry ::
    "string \<Rightarrow> string \<Rightarrow> string \<Rightarrow> string \<Rightarrow> string \<Rightarrow> log_error + string" where
  "write_entry file now key operation value =
     (case validate_key key of Inl e \<Rightarrow> Inl e | Inr _ \<Rightarrow>
      (case validate_operation operation of Inl e \<Rightarrow> Inl e | Inr _ \<Rightarrow>
      (case validate_value value of Inl e \<Rightarrow> Inl e | Inr _ \<Rightarrow>
        Inr (file @ render_fields now operation key value @ [LF]))))"

definition format_line :: string where
  "format_line =
     ''# Format: <date>'' @ [CHR 0x5C] @ ''t<set|del|clr>'' @ [CHR 0x5C] @ ''t<key>''
       @ [CHR 0x5C] @ ''t<value>'' @ [CHR 0x5C] @ ''n''"

definition logtab_init ::
    "string option \<Rightarrow> string \<Rightarrow> string \<Rightarrow> string \<Rightarrow> bool \<Rightarrow> nat \<Rightarrow> int \<Rightarrow> logtab" where
  "logtab_init file name title now strict csize hist =
     \<lparr>lt_file =
        (case file of
           Some text \<Rightarrow> text
         | None \<Rightarrow>
             join [LF]
               ((if title = [] then [] else [''# '' @ title])
                @ [''# '' @ name @ '', created '' @ now, format_line]) @ [LF]),
      lt_strict = strict, lt_compact_size = csize, lt_compact_history = hist\<rparr>"

section \<open>Reading the text back\<close>

text \<open>
  The file is opened in text mode: a carriage return, alone or before a line feed, reads as
  a line feed.
\<close>

fun universal_newlines :: "string \<Rightarrow> string" where
  "universal_newlines [] = []"
| "universal_newlines [x] = [if x = CR then LF else x]"
| "universal_newlines (x # y # zs) =
     (if x = CR then (if y = LF then LF # universal_newlines zs
                      else LF # universal_newlines (y # zs))
      else x # universal_newlines (y # zs))"

definition text_lines :: "string \<Rightarrow> string list" where
  "text_lines s = (let ps = split_on LF s in if last ps = [] then butlast ps else ps)"

definition is_space :: "char \<Rightarrow> bool" where
  "is_space c \<longleftrightarrow> (let n = (of_char c :: nat) in (9 \<le> n \<and> n \<le> 13) \<or> (28 \<le> n \<and> n \<le> 32) \<or> n = 133 \<or> n = 160)"

fun split_max :: "nat \<Rightarrow> 'a \<Rightarrow> 'a list \<Rightarrow> 'a list list" where
  "split_max 0 c s = [s]"
| "split_max (Suc n) c s =
     (case partition_on c s of (p, found, r) \<Rightarrow> if found then p # split_max n c r else [p])"

definition skipped_line :: "string \<Rightarrow> bool" where
  "skipped_line l \<longleftrightarrow> starts_with l ''#'' \<or> list_all is_space l"

definition parse_line :: "(string \<Rightarrow> int option) \<Rightarrow> string \<Rightarrow> log_rec option" where
  "parse_line fromiso l =
     (case split_max 3 TAB l of
        [ts, op, key, value] \<Rightarrow>
          (case parse_op op of
             None \<Rightarrow> None
           | Some o' \<Rightarrow>
               (if fromiso ts = None then None
                else Some \<lparr>lr_ts = ts, lr_op = o', lr_key = key, lr_value = value\<rparr>))
      | _ \<Rightarrow> None)"

text \<open>What the generator \<^verbatim>\<open>_records\<close> yields, the error a strict table raises last.\<close>

fun log_items ::
    "bool \<Rightarrow> (string \<Rightarrow> int option) \<Rightarrow> nat \<Rightarrow> string list \<Rightarrow> (log_error + log_rec) list" where
  "log_items strict fromiso n [] = []"
| "log_items strict fromiso n (l # ls) =
     (if skipped_line l then log_items strict fromiso (Suc n) ls
      else case parse_line fromiso l of
        None \<Rightarrow> (if strict then [Inl (MalformedRecord n l)] else log_items strict fromiso (Suc n) ls)
      | Some r \<Rightarrow> Inr r # log_items strict fromiso (Suc n) ls)"

definition file_items ::
    "bool \<Rightarrow> (string \<Rightarrow> int option) \<Rightarrow> string \<Rightarrow> (log_error + log_rec) list" where
  "file_items strict fromiso file = log_items strict fromiso 1 (text_lines (universal_newlines file))"

definition entry_of :: "log_rec \<Rightarrow> log_entry" where
  "entry_of r = \<lparr>le_ts = lr_ts r, le_value = lr_value r\<rparr>"

definition apply_rec ::
    "log_rec \<Rightarrow> (string, log_entry) dict \<Rightarrow> (string, log_entry) dict" where
  "apply_rec r d =
     (case lr_op r of
        OpSet \<Rightarrow> AList.update (lr_key r) (entry_of r) d
      | OpDel \<Rightarrow> AList.delete (lr_key r) d
      | OpClr \<Rightarrow> List.filter (\<lambda>(k, v). \<not> starts_with k (lr_key r)) d)"

fun load_items ::
    "(string \<Rightarrow> int option) \<Rightarrow> int option \<Rightarrow> (log_error + log_rec) list
       \<Rightarrow> (string, log_entry) dict \<Rightarrow> log_error + (string, log_entry) dict" where
  "load_items fromiso until [] d = Inr d"
| "load_items fromiso until (Inl e # items) d = Inl e"
| "load_items fromiso until (Inr r # items) d =
     (case (until, fromiso (lr_ts r)) of
        (Some u, Some t) \<Rightarrow>
          (if t > u then Inr d else load_items fromiso until items (apply_rec r d))
      | _ \<Rightarrow> load_items fromiso until items (apply_rec r d))"

definition load_at ::
    "(string \<Rightarrow> int option) \<Rightarrow> logtab \<Rightarrow> string option
       \<Rightarrow> log_error + (string, log_entry) dict" where
  "load_at fromiso t at =
     (case at of
        None \<Rightarrow> load_items fromiso None (file_items (lt_strict t) fromiso (lt_file t)) []
      | Some a \<Rightarrow>
          (case fromiso a of
             None \<Rightarrow> Inl (BadTimestamp a)
           | Some u \<Rightarrow> load_items fromiso (Some u) (file_items (lt_strict t) fromiso (lt_file t)) []))"

definition read_key ::
    "(string \<Rightarrow> int option) \<Rightarrow> logtab \<Rightarrow> string \<Rightarrow> log_error + log_entry option" where
  "read_key fromiso t key =
     (case load_at fromiso t None of Inl e \<Rightarrow> Inl e | Inr d \<Rightarrow> Inr (map_of d key))"

definition scan_keys ::
    "(string \<Rightarrow> int option) \<Rightarrow> logtab \<Rightarrow> string \<Rightarrow> string
       \<Rightarrow> log_error + (string, log_entry) dict" where
  "scan_keys fromiso t pre suf =
     (case (if pre = [] then Inr () else validate_key pre) of Inl e \<Rightarrow> Inl e | Inr _ \<Rightarrow>
      (case (if suf = [] then Inr () else validate_key suf) of Inl e \<Rightarrow> Inl e | Inr _ \<Rightarrow>
      (case load_at fromiso t None of Inl e \<Rightarrow> Inl e | Inr d \<Rightarrow>
        Inr (List.filter (\<lambda>(k, v). starts_with k pre \<and> ends_with k suf) d))))"

section \<open>Compaction\<close>

fun items_records :: "(log_error + log_rec) list \<Rightarrow> log_error + log_rec list" where
  "items_records [] = Inr []"
| "items_records (Inl e # items) = Inl e"
| "items_records (Inr r # items) =
     (case items_records items of Inl e \<Rightarrow> Inl e | Inr rs \<Rightarrow> Inr (r # rs))"

definition replay :: "log_rec list \<Rightarrow> (string, log_entry) dict" where
  "replay rs = foldl (\<lambda>d r. apply_rec r d) [] rs"

fun set_rec :: "string \<times> log_entry \<Rightarrow> log_rec" where
  "set_rec (k, e) = \<lparr>lr_ts = le_ts e, lr_op = OpSet, lr_key = k, lr_value = le_value e\<rparr>"

definition compact_backfill :: "log_rec list \<Rightarrow> log_rec list \<Rightarrow> log_rec list" where
  "compact_backfill records suffix =
     sort_key (\<lambda>r. (lr_ts r, lr_key r))
       (List.map set_rec
         (List.filter (\<lambda>(k, e). k \<notin> set (List.map lr_key suffix)) (replay records)))"

definition compact_records :: "nat \<Rightarrow> log_rec list \<Rightarrow> log_rec list" where
  "compact_records hist records =
     (let suffix = drop (length records - hist) records
      in compact_backfill records suffix @ suffix)"

definition compacted_text :: "string \<Rightarrow> log_rec list \<Rightarrow> string" where
  "compacted_text now rs =
     join [LF]
       ([''# Compacted logtab at '' @ now, format_line]
        @ List.map render_rec rs @ [''# end compacted entries'']) @ [LF]"

definition compact ::
    "(string \<Rightarrow> int option) \<Rightarrow> string \<Rightarrow> int \<Rightarrow> logtab \<Rightarrow> log_error + logtab" where
  "compact fromiso now history t =
     (if history < 0 then Inl (BadHistory history)
      else case items_records (file_items (lt_strict t) fromiso (lt_file t)) of
        Inl e \<Rightarrow> Inl e
      | Inr records \<Rightarrow>
          (if history > 0 \<and> int (length records) < history then Inr t
           else Inr (t\<lparr>lt_file :=
                  compacted_text now (compact_records (nat history) records)\<rparr>)))"

definition maybe_compact ::
    "(string \<Rightarrow> int option) \<Rightarrow> string \<Rightarrow> logtab \<Rightarrow> log_error + logtab" where
  "maybe_compact fromiso now t =
     (if lt_compact_size t > 0 \<and> length (lt_file t) > lt_compact_size t
      then compact fromiso now (lt_compact_history t) t else Inr t)"

section \<open>The table's operations\<close>

definition append_entry ::
    "(string \<Rightarrow> int option) \<Rightarrow> string \<Rightarrow> string \<Rightarrow> string \<Rightarrow> string \<Rightarrow> logtab
       \<Rightarrow> log_error + logtab" where
  "append_entry fromiso now op key value t =
     (case write_entry (lt_file t) now key op value of
        Inl e \<Rightarrow> Inl e
      | Inr text \<Rightarrow> maybe_compact fromiso now (t\<lparr>lt_file := text\<rparr>))"

definition write_key ::
    "(string \<Rightarrow> int option) \<Rightarrow> string \<Rightarrow> string \<Rightarrow> string \<Rightarrow> logtab \<Rightarrow> log_error + logtab" where
  "write_key fromiso now key value t = append_entry fromiso now ''set'' key value t"

definition clear_prefix ::
    "(string \<Rightarrow> int option) \<Rightarrow> string \<Rightarrow> string \<Rightarrow> string \<Rightarrow> logtab \<Rightarrow> log_error + logtab" where
  "clear_prefix fromiso now pre comment t = append_entry fromiso now ''clr'' pre comment t"

definition delete_key ::
    "(string \<Rightarrow> int option) \<Rightarrow> string \<Rightarrow> string \<Rightarrow> string \<Rightarrow> logtab \<Rightarrow> log_error + logtab" where
  "delete_key fromiso now key comment t =
     (case (if lt_strict t
            then (case load_at fromiso t None of
                    Inl e \<Rightarrow> Inl e
                  | Inr d \<Rightarrow> if map_of d key = None then Inl (KeyNotFound key) else Inr ())
            else Inr ()) of
        Inl e \<Rightarrow> Inl e
      | Inr _ \<Rightarrow> append_entry fromiso now ''del'' key comment t)"

definition last_ts :: "(string \<Rightarrow> int option) \<Rightarrow> logtab \<Rightarrow> log_error + string option" where
  "last_ts fromiso t =
     (case items_records (file_items (lt_strict t) fromiso (lt_file t)) of
        Inl e \<Rightarrow> Inl e
      | Inr rs \<Rightarrow> Inr (if rs = [] then None else Some (lr_ts (last rs))))"

definition history ::
    "(string \<Rightarrow> int option) \<Rightarrow> logtab \<Rightarrow> string \<Rightarrow> string
       \<Rightarrow> log_error + (string \<times> log_entry) list" where
  "history fromiso t pre suf =
     (case (if pre = [] then Inr () else validate_key pre) of Inl e \<Rightarrow> Inl e | Inr _ \<Rightarrow>
      (case (if suf = [] then Inr () else validate_key suf) of Inl e \<Rightarrow> Inl e | Inr _ \<Rightarrow>
      (case items_records (file_items (lt_strict t) fromiso (lt_file t)) of Inl e \<Rightarrow> Inl e | Inr rs \<Rightarrow>
        Inr [(lr_key r, entry_of r). r \<leftarrow> rs,
               lr_op r = OpSet \<and> starts_with (lr_key r) pre \<and> ends_with (lr_key r) suf])))"

section \<open>Lines, parsing and rendering\<close>

named_theorems log_text \<open>how the text of a table splits into lines and records\<close>

lemma CR_notin_universal_newlines: "CR \<notin> set (universal_newlines s)"
  by (induction s rule: universal_newlines.induct) auto

lemma universal_newlines_id: "CR \<notin> set s \<Longrightarrow> universal_newlines s = s"
  by (induction s rule: universal_newlines.induct) auto

lemma universal_newlines_append:
  "f = [] \<or> last f = LF \<Longrightarrow> universal_newlines (f @ g) = universal_newlines f @ universal_newlines g"
proof (induction f rule: universal_newlines.induct)
  case (2 x)
  then show ?case by (cases g) auto
next
  case (3 x y zs)
  then show ?case by (auto split: if_splits)
qed auto

lemma last_universal_newlines: "f \<noteq> [] \<Longrightarrow> last f = LF \<Longrightarrow> last (universal_newlines f) = LF"
proof (induction f rule: universal_newlines.induct)
  case (3 x y zs)
  have "universal_newlines (y # zs) \<noteq> []" by (cases zs) auto
  moreover have "zs \<noteq> [] \<Longrightarrow> universal_newlines zs \<noteq> []"
    by (cases zs rule: universal_newlines.cases) auto
  ultimately show ?case using 3 by (auto split: if_splits)
qed auto

lemma split_on_LF_append: "split_on c (s @ [c]) = split_on c s @ [[]]"
  by (induction s) (auto split: list.splits)

lemma split_on_sep_append: "split_on c (s @ c # r) = split_on c s @ split_on c r"
  by (induction s) (auto split: list.splits)

lemma text_lines_append [log_text]:
  assumes "f = [] \<or> last f = LF" and "LF \<notin> set l"
  shows "text_lines (f @ l @ [LF]) = text_lines f @ [l]"
proof (cases "f = []")
  case True
  with assms show ?thesis by (simp add: text_lines_def split_on_append_sep)
next
  case False
  with assms obtain g where f: "f = g @ [LF]" by (metis append_butlast_last_id)
  then have "split_on LF (f @ l @ [LF]) = split_on LF g @ [l, []]"
    using assms split_on_sep_append [of LF g "l @ [LF]"] by (simp add: split_on_append_sep)
  then show ?thesis
    by (simp add: f text_lines_def split_on_LF_append butlast_append)
qed

lemma text_lines_join [log_text]:
  assumes "ls \<noteq> []" and "\<forall>l \<in> set ls. LF \<notin> set l"
  shows "text_lines (join [LF] ls @ [LF]) = ls"
  using assms by (simp add: text_lines_def split_on_LF_append split_on_join)

lemma partition_on_parts:
  "partition_on c s = (p, found, r) \<Longrightarrow> c \<notin> set p \<and> s = (if found then p @ c # r else p)"
proof -
  assume a: "partition_on c s = (p, found, r)"
  show ?thesis
  proof (cases "c \<in> set s")
    case True
    then obtain u v where s: "s = u @ c # v" "c \<notin> set u" by (meson split_list_first)
    with a show ?thesis by auto
  next
    case False
    with a show ?thesis by auto
  qed
qed

lemma split_max_3:
  assumes "split_max 3 c s = [p, q, r, v]"
  shows "s = p @ c # q @ c # r @ c # v" and "c \<notin> set p" "c \<notin> set q" "c \<notin> set r"
  using assms by (auto simp: numeral_3_eq_3 dest!: partition_on_parts split: prod.splits if_splits)

lemma split_max_3_render [log_text]:
  assumes "TAB \<notin> set ts" "TAB \<notin> set op'" "TAB \<notin> set key"
  shows "split_max 3 TAB (render_fields ts op' key value) = [ts, op', key, value]"
  using assms by (simp add: numeral_3_eq_3 render_fields_def)

lemma parse_op_text [simp]: "parse_op (op_text o') = Some o'"
  by (cases o') (auto simp: parse_op_def)

lemma parse_op_Some: "parse_op s = Some o' \<Longrightarrow> s = op_text o'"
  by (auto simp: parse_op_def split: if_splits)

lemma op_text_chars [simp]: "TAB \<notin> set (op_text o')" "LF \<notin> set (op_text o')" "CR \<notin> set (op_text o')"
  by (cases o'; simp)+

lemma parse_line_Some:
  assumes "parse_line fromiso l = Some r"
  shows "render_rec r = l" and "TAB \<notin> set (lr_ts r)" and "TAB \<notin> set (lr_key r)"
    and "fromiso (lr_ts r) \<noteq> None"
proof -
  from assms obtain ts op' key v o' where sp: "split_max 3 TAB l = [ts, op', key, v]"
    and o': "parse_op op' = Some o'" and fromiso: "fromiso ts \<noteq> None"
    and r: "r = \<lparr>lr_ts = ts, lr_op = o', lr_key = key, lr_value = v\<rparr>"
    by (auto simp: parse_line_def split: list.splits option.splits if_splits)
  note parts = split_max_3 [OF sp]
  show "render_rec r = l" "TAB \<notin> set (lr_ts r)" "TAB \<notin> set (lr_key r)" "fromiso (lr_ts r) \<noteq> None"
    using parts fromiso parse_op_Some [OF o'] by (auto simp: r render_rec_def render_fields_def)
qed

lemma parse_render_rec [log_text]:
  assumes "TAB \<notin> set (lr_ts r)" "TAB \<notin> set (lr_key r)" "fromiso (lr_ts r) \<noteq> None"
  shows "parse_line fromiso (render_rec r) = Some r"
  using assms by (simp add: parse_line_def render_rec_def split_max_3_render)

section \<open>A table that is not strict: its records and the map they stand for\<close>

definition line_record :: "(string \<Rightarrow> int option) \<Rightarrow> string \<Rightarrow> log_rec option" where
  "line_record fromiso l = (if skipped_line l then None else parse_line fromiso l)"

definition file_records :: "(string \<Rightarrow> int option) \<Rightarrow> string \<Rightarrow> log_rec list" where
  "file_records fromiso file = List.map_filter (line_record fromiso) (text_lines (universal_newlines file))"

definition table_map :: "(string \<Rightarrow> int option) \<Rightarrow> logtab \<Rightarrow> string \<Rightarrow> log_entry option" where
  "table_map fromiso t = map_of (replay (file_records fromiso (lt_file t)))"

lemma log_items_lenient:
  "log_items False fromiso n ls = List.map Inr (List.map_filter (line_record fromiso) ls)"
  by (induction ls arbitrary: n)
    (auto simp: line_record_def map_filter_simps split: option.splits)

lemma file_items_lenient [simp]: "file_items False fromiso f = List.map Inr (file_records fromiso f)"
  by (simp add: file_items_def file_records_def log_items_lenient)

lemma items_records_Inr [simp]: "items_records (List.map Inr rs) = Inr rs"
  by (induction rs) auto

lemma load_items_Inr [simp]:
  "load_items fromiso None (List.map Inr rs) d = Inr (foldl (\<lambda>d r. apply_rec r d) d rs)"
  by (induction rs arbitrary: d) auto

lemma load_lenient:
  "\<not> lt_strict t \<Longrightarrow> load_at fromiso t None = Inr (replay (file_records fromiso (lt_file t)))"
  by (simp add: load_at_def replay_def)

lemma read_key_lenient: "\<not> lt_strict t \<Longrightarrow> read_key fromiso t k = Inr (table_map fromiso t k)"
  by (simp add: read_key_def load_lenient table_map_def)

section \<open>Replaying records as map updates\<close>

definition apply_map ::
    "log_rec \<Rightarrow> (string \<Rightarrow> log_entry option) \<Rightarrow> string \<Rightarrow> log_entry option" where
  "apply_map r m =
     (case lr_op r of
        OpSet \<Rightarrow> m(lr_key r \<mapsto> entry_of r)
      | OpDel \<Rightarrow> m(lr_key r := None)
      | OpClr \<Rightarrow> (\<lambda>k. if starts_with k (lr_key r) then None else m k))"

definition touches :: "string \<Rightarrow> log_rec \<Rightarrow> bool" where
  "touches k r \<longleftrightarrow> (if lr_op r = OpClr then starts_with k (lr_key r) else k = lr_key r)"

fun replay_map ::
    "(string \<Rightarrow> log_entry option) \<Rightarrow> log_rec list \<Rightarrow> string \<Rightarrow> log_entry option" where
  "replay_map m [] = m"
| "replay_map m (r # rs) = replay_map (apply_map r m) rs"

lemma replay_map_append [simp]: "replay_map m (rs @ ss) = replay_map (replay_map m rs) ss"
  by (induction rs arbitrary: m) auto

lemma map_of_apply_rec: "map_of (apply_rec r d) = apply_map r (map_of d)"
proof (cases "lr_op r")
  case OpClr
  have "map_of (List.filter (\<lambda>(k, v). \<not> starts_with k (lr_key r)) d) =
      (\<lambda>k. if \<not> starts_with k (lr_key r) then map_of d k else None)"
    by (rule map_of_filter_key)
  with OpClr show ?thesis by (auto simp: apply_rec_def apply_map_def fun_eq_iff)
qed (auto simp: apply_rec_def apply_map_def)

lemma map_of_replay_from:
  "map_of (foldl (\<lambda>d r. apply_rec r d) d rs) = replay_map (map_of d) rs"
  by (induction rs arbitrary: d) (auto simp: map_of_apply_rec)

lemma map_of_replay: "map_of (replay rs) = replay_map Map.empty rs"
  by (simp add: replay_def map_of_replay_from)

lemma apply_map_untouched: "\<not> touches k r \<Longrightarrow> apply_map r m k = m k"
  by (auto simp: apply_map_def touches_def split: log_op.splits if_splits)

lemma apply_map_touched: "touches k r \<Longrightarrow> apply_map r m k = apply_map r m' k"
  by (auto simp: apply_map_def touches_def split: log_op.splits if_splits)

lemma apply_map_cong: "m k = m' k \<Longrightarrow> apply_map r m k = apply_map r m' k"
  by (auto simp: apply_map_def split: log_op.splits)

lemma touches_own_key: "touches (lr_key r) r"
  by (simp add: touches_def)

lemma replay_untouched:
  "\<forall>r \<in> set rs. \<not> touches k r \<Longrightarrow> replay_map m rs k = m k"
  by (induction rs arbitrary: m) (auto simp: apply_map_untouched)

lemma replay_cong: "m k = m' k \<Longrightarrow>
    replay_map m rs k = replay_map m' rs k"
proof (induction rs arbitrary: m m')
  case (Cons a rs)
  from Cons.prems have "apply_map a m k = apply_map a m' k" by (rule apply_map_cong)
  from Cons.IH [of "apply_map a m" "apply_map a m'", OF this] show ?case by simp
qed simp

lemma replay_touched:
  "r \<in> set rs \<Longrightarrow> touches k r \<Longrightarrow>
    replay_map m rs k = replay_map m' rs k"
proof (induction rs arbitrary: m m')
  case (Cons a rs)
  show ?case
  proof (cases "touches k a")
    case True
    then have "apply_map a m k = apply_map a m' k" by (rule apply_map_touched)
    then show ?thesis using replay_cong [of "apply_map a m" k "apply_map a m'" rs] by simp
  next
    case False
    with Cons.prems have "r \<in> set rs" by auto
    with Cons.prems(2) show ?thesis by (simp add: Cons.IH [of "apply_map a m" "apply_map a m'"])
  qed
qed simp

lemma keys_apply_rec_distinct: "distinct (keys d) \<Longrightarrow> distinct (keys (apply_rec r d))"
  by (auto simp: apply_rec_def distinct_keys_filter distinct_update distinct_delete split: log_op.splits)

lemma replay_distinct: "distinct (keys (replay rs))"
proof -
  have "distinct (keys d) \<Longrightarrow> distinct (keys (foldl (\<lambda>d r. apply_rec r d) d rs))" for d
    by (induction rs arbitrary: d) (auto simp: keys_apply_rec_distinct)
  then show ?thesis by (simp add: replay_def)
qed

text \<open>Every entry in effect comes from a \<open>set\<close> record of the log.\<close>

lemma apply_map_origin:
  "apply_map r m k = Some e \<Longrightarrow>
    m k = Some e \<or> (lr_op r = OpSet \<and> lr_key r = k \<and> entry_of r = e)"
  by (auto simp: apply_map_def split: log_op.splits if_splits)

lemma replay_map_origin:
  "replay_map m rs k = Some e \<Longrightarrow>
    m k = Some e \<or> (\<exists>r \<in> set rs. lr_op r = OpSet \<and> lr_key r = k \<and> entry_of r = e)"
proof (induction rs arbitrary: m)
  case (Cons a rs)
  from Cons.prems have "replay_map (apply_map a m) rs k = Some e" by simp
  from Cons.IH [OF this] show ?case by (auto dest: apply_map_origin)
qed simp

lemma replay_origin:
  assumes "(k, e) \<in> set (replay rs)"
  shows "\<lparr>lr_ts = le_ts e, lr_op = OpSet, lr_key = k, lr_value = le_value e\<rparr> \<in> set rs"
proof -
  from assms have "map_of (replay rs) k = Some e"
    by (simp add: replay_distinct)
  then obtain r where "r \<in> set rs" "lr_op r = OpSet" "lr_key r = k" "entry_of r = e"
    unfolding map_of_replay by (fastforce dest: replay_map_origin)
  moreover from this have "r = \<lparr>lr_ts = le_ts e, lr_op = OpSet, lr_key = k, lr_value = le_value e\<rparr>"
    by (cases r) (auto simp: entry_of_def)
  ultimately show ?thesis by simp
qed

section \<open>Compaction keeps the table\<close>

lemma set_compact_backfill: "set (compact_backfill rs suf) \<subseteq> set rs"
  using replay_origin by (fastforce simp: compact_backfill_def)

lemma set_compact_records: "set (compact_records h rs) \<subseteq> set rs"
  using set_compact_backfill [of rs "drop (length rs - h) rs"]
  by (auto simp: compact_records_def Let_def dest: in_set_dropD)

lemma replay_sets:
  assumes "distinct (List.map lr_key bs)" and "\<forall>r \<in> set bs. lr_op r = OpSet" and "r \<in> set bs"
  shows "replay_map m bs (lr_key r) = Some (entry_of r)"
  using assms
proof (induction bs arbitrary: m)
  case (Cons a bs)
  show ?case
  proof (cases "r = a")
    case True
    with Cons.prems have "\<forall>b \<in> set bs. \<not> touches (lr_key r) b" by (auto simp: touches_def)
    then have "replay_map (apply_map a m) bs (lr_key r) = apply_map a m (lr_key r)"
      by (rule replay_untouched)
    with True Cons.prems show ?thesis by (simp add: apply_map_def)
  next
    case False
    with Cons show ?thesis by simp
  qed
qed simp

lemma backfill_set_iff:
  "r \<in> set (compact_backfill rs suf) \<longleftrightarrow>
    (\<exists>k e. (k, e) \<in> set (replay rs) \<and> k \<notin> lr_key ` set suf \<and> r = set_rec (k, e))"
  by (force simp: compact_backfill_def image_iff)

lemma backfill_distinct: "distinct (List.map lr_key (compact_backfill rs suf))"
proof -
  let ?ps = "List.filter (\<lambda>(k, e). k \<notin> set (List.map lr_key suf)) (replay rs)"
  have fst: "List.map lr_key (List.map set_rec ps) = keys ps" for ps
    by (induction ps) auto
  have "distinct (keys ?ps)" by (rule distinct_keys_filter) (rule replay_distinct)
  then have "distinct (List.map lr_key (List.map set_rec ?ps))" by (simp only: fst)
  then show ?thesis unfolding compact_backfill_def
    by (metis (no_types, lifting) distinct_map distinct_sort set_sort)
qed

lemma replay_compact_records: "map_of (replay (compact_records h rs)) = map_of (replay rs)"
proof
  fix k
  define suf where "suf = drop (length rs - h) rs"
  define pre where "pre = take (length rs - h) rs"
  define bs where "bs = compact_backfill rs suf"
  have rs: "rs = pre @ suf" by (simp add: pre_def suf_def)
  have comp: "compact_records h rs = bs @ suf"
    by (simp add: compact_records_def suf_def bs_def Let_def)
  show "map_of (replay (compact_records h rs)) k = map_of (replay rs) k"
  proof (cases "\<exists>r \<in> set suf. touches k r")
    case True
    then obtain r where "r \<in> set suf" "touches k r" by blast
    then have "replay_map (replay_map Map.empty bs) suf k = replay_map (replay_map Map.empty pre) suf k"
      by (rule replay_touched)
    then have "replay_map Map.empty (bs @ suf) k = replay_map Map.empty (pre @ suf) k" by simp
    then show ?thesis unfolding map_of_replay comp by (simp only: rs [symmetric])
  next
    case False
    then have notin: "k \<notin> lr_key ` set suf" using touches_own_key by blast
    have "map_of (replay (compact_records h rs)) k = replay_map Map.empty bs k"
      unfolding map_of_replay comp using False by (simp add: replay_untouched)
    also have "\<dots> = map_of (replay rs) k"
    proof (cases "map_of (replay rs) k")
      case (Some e)
      then have "set_rec (k, e) \<in> set bs"
        unfolding bs_def backfill_set_iff using notin map_of_SomeD [OF Some] by blast
      then have "replay_map Map.empty bs (lr_key (set_rec (k, e))) = Some (entry_of (set_rec (k, e)))"
        by (intro replay_sets) (auto simp: bs_def backfill_distinct backfill_set_iff)
      with Some show ?thesis by (simp add: entry_of_def)
    next
      case None
      then have "(k, e) \<notin> set (replay rs)" for e by (metis weak_map_of_SomeI not_None_eq)
      then have "\<forall>r \<in> set bs. \<not> touches k r"
        by (auto simp: bs_def backfill_set_iff touches_def)
      with None show ?thesis by (simp add: replay_untouched)
    qed
    finally show ?thesis .
  qed
qed

section \<open>The text refines the map\<close>

text \<open>A record that renders to one line which reads back as the same record.\<close>

definition rec_ok :: "(string \<Rightarrow> int option) \<Rightarrow> log_rec \<Rightarrow> bool" where
  "rec_ok fromiso r \<longleftrightarrow>
     line_record fromiso (render_rec r) = Some r \<and>
     LF \<notin> set (render_rec r) \<and> CR \<notin> set (render_rec r)"

lemma text_lines_chars: "l \<in> set (text_lines s) \<Longrightarrow> LF \<notin> set l \<and> set l \<subseteq> set s"
proof -
  assume "l \<in> set (text_lines s)"
  then have "l \<in> set (split_on LF s)"
    by (auto simp: text_lines_def Let_def dest: in_set_butlastD split: if_splits)
  then show ?thesis by (meson split_on_parts split_on_chars)
qed

lemma map_filter_app: "List.map_filter f (xs @ ys) = List.map_filter f xs @ List.map_filter f ys"
  by (simp add: List.map_filter_def)

lemma file_records_ok: "r \<in> set (file_records fromiso f) \<Longrightarrow> rec_ok fromiso r"
proof -
  assume "r \<in> set (file_records fromiso f)"
  then obtain l where l: "l \<in> set (text_lines (universal_newlines f))" "line_record fromiso l = Some r"
    by (auto simp: file_records_def List.map_filter_def)
  then have "render_rec r = l"
    by (auto simp: line_record_def split: if_splits dest: parse_line_Some(1))
  moreover have "LF \<notin> set l" "CR \<notin> set l"
    using text_lines_chars [OF l(1)] CR_notin_universal_newlines [of f] by auto
  ultimately show ?thesis using l(2) by (simp add: rec_ok_def)
qed

lemma file_records_append:
  assumes "f = [] \<or> last f = LF" "LF \<notin> set l" "CR \<notin> set l"
  shows "file_records fromiso (f @ l @ [LF]) =
    file_records fromiso f @ (case line_record fromiso l of None \<Rightarrow> [] | Some r \<Rightarrow> [r])"
proof -
  have un: "universal_newlines (f @ l @ [LF]) = universal_newlines f @ l @ [LF]"
    using assms by (simp add: universal_newlines_append universal_newlines_id)
  have "universal_newlines f = [] \<or> last (universal_newlines f) = LF"
    using assms(1) last_universal_newlines by (cases f) auto
  then have "text_lines (universal_newlines f @ l @ [LF]) = text_lines (universal_newlines f) @ [l]"
    by (rule text_lines_append) (rule assms(2))
  with un show ?thesis
    by (simp add: file_records_def map_filter_app map_filter_simps split: option.splits)
qed

lemma map_filter_render:
  "\<forall>r \<in> set rs. rec_ok fromiso r \<Longrightarrow> List.map_filter (line_record fromiso) (List.map render_rec rs) = rs"
  by (induction rs) (auto simp: map_filter_simps rec_ok_def)

lemma line_record_comment: "starts_with l ''#'' \<Longrightarrow> line_record fromiso l = None"
  by (simp add: line_record_def skipped_line_def)

lemma file_records_compacted:
  assumes "\<forall>r \<in> set rs. rec_ok fromiso r" and "LF \<notin> set now" "CR \<notin> set now"
  shows "file_records fromiso (compacted_text now rs) = rs"
proof -
  define ls where "ls = [''# Compacted logtab at '' @ now, format_line]
        @ List.map render_rec rs @ [''# end compacted entries'']"
  have chars: "\<forall>l \<in> set ls. LF \<notin> set l \<and> CR \<notin> set l"
    using assms by (auto simp: ls_def rec_ok_def format_line_def)
  then have "CR \<notin> set (join [LF] ls @ [LF])" using set_join [of "[LF]" ls] by auto
  then have "universal_newlines (join [LF] ls @ [LF]) = join [LF] ls @ [LF]"
    by (rule universal_newlines_id)
  moreover have "text_lines (join [LF] ls @ [LF]) = ls"
    using chars by (intro text_lines_join) (auto simp: ls_def)
  moreover have "compacted_text now rs = join [LF] ls @ [LF]"
    by (simp add: compacted_text_def ls_def)
  ultimately have "text_lines (universal_newlines (compacted_text now rs)) = ls" by simp
  moreover have "List.map_filter (line_record fromiso) ls = rs"
    using assms(1)
    by (simp add: ls_def map_filter_app map_filter_simps map_filter_render
        line_record_comment starts_with_def format_line_def)
  ultimately show ?thesis by (simp add: file_records_def)
qed

definition table_wf :: "logtab \<Rightarrow> bool" where
  "table_wf t \<longleftrightarrow>
     \<not> lt_strict t \<and> 0 \<le> lt_compact_history t \<and> (lt_file t = [] \<or> last (lt_file t) = LF)"

definition clock_ok :: "(string \<Rightarrow> int option) \<Rightarrow> string \<Rightarrow> bool" where
  "clock_ok fromiso now \<longleftrightarrow>
     fromiso now \<noteq> None \<and> \<not> starts_with now ''#'' \<and>
     TAB \<notin> set now \<and> LF \<notin> set now \<and> CR \<notin> set now"

lemma compacted_text_last [simp]: "last (compacted_text now rs) = LF"
  by (simp add: compacted_text_def)

lemma compact_lenient:
  assumes "table_wf t" "0 \<le> h" "clock_ok fromiso now"
  shows "\<exists>t'. compact fromiso now h t = Inr t' \<and> table_wf t' \<and>
    table_map fromiso t' = table_map fromiso t \<and>
    lt_compact_size t' = lt_compact_size t \<and> lt_compact_history t' = lt_compact_history t"
proof (cases "h > 0 \<and> int (length (file_records fromiso (lt_file t))) < h")
  case True
  with assms show ?thesis by (auto simp: compact_def table_wf_def)
next
  case False
  let ?rs = "file_records fromiso (lt_file t)"
  let ?text = "compacted_text now (compact_records (nat h) ?rs)"
  have "compact fromiso now h t = Inr (t\<lparr>lt_file := ?text\<rparr>)"
    using assms False by (auto simp: compact_def table_wf_def)
  moreover have "\<forall>r \<in> set (compact_records (nat h) ?rs). rec_ok fromiso r"
    using file_records_ok set_compact_records by blast
  then have "file_records fromiso ?text = compact_records (nat h) ?rs"
    using assms(3) by (intro file_records_compacted) (auto simp: clock_ok_def)
  ultimately show ?thesis
    using assms(1) by (auto simp: table_wf_def table_map_def replay_compact_records)
qed

lemma maybe_compact_lenient:
  assumes "table_wf t" "clock_ok fromiso now"
  shows "\<exists>t'. maybe_compact fromiso now t = Inr t' \<and> table_wf t' \<and>
    table_map fromiso t' = table_map fromiso t \<and>
    lt_compact_size t' = lt_compact_size t \<and> lt_compact_history t' = lt_compact_history t"
  using compact_lenient [OF assms(1) _ assms(2)] assms(1)
  by (auto simp: maybe_compact_def table_wf_def)

lemma key_char_plain: "key_char c \<Longrightarrow> c \<noteq> TAB \<and> c \<noteq> LF \<and> c \<noteq> CR"
  by (auto simp: key_char_def char_class_defs)

lemma validate_key_plain:
  "validate_key key = Inr u \<Longrightarrow> TAB \<notin> set key \<and> LF \<notin> set key \<and> CR \<notin> set key"
  by (auto simp: validate_key_def list_all_iff split: if_splits dest!: key_char_plain)

lemma entry_rec_ok:
  assumes "clock_ok fromiso now" "validate_key key = Inr u" "validate_value val = Inr v" "CR \<notin> set val"
  shows "rec_ok fromiso \<lparr>lr_ts = now, lr_op = o', lr_key = key, lr_value = val\<rparr>"
proof -
  let ?r = "\<lparr>lr_ts = now, lr_op = o', lr_key = key, lr_value = val\<rparr>"
  have plain: "TAB \<notin> set key" "LF \<notin> set key" "CR \<notin> set key"
    using validate_key_plain [OF assms(2)] by auto
  have val: "LF \<notin> set val" using assms(3) by (auto simp: validate_value_def split: if_splits)
  have "parse_line fromiso (render_rec ?r) = Some ?r"
    using assms(1) plain by (intro parse_render_rec) (auto simp: clock_ok_def)
  moreover have "\<not> skipped_line (render_rec ?r)"
  proof -
    have "\<not> starts_with (render_rec ?r) ''#''"
      using assms(1)
      by (cases now) (auto simp: render_rec_def render_fields_def clock_ok_def starts_with_def)
    moreover have "\<not> list_all is_space (render_rec ?r)"
      by (cases o') (auto simp: render_rec_def render_fields_def is_space_def)
    ultimately show ?thesis by (simp add: skipped_line_def)
  qed
  ultimately show ?thesis
    using assms(1,4) plain val
    by (auto simp: rec_ok_def line_record_def render_rec_def render_fields_def clock_ok_def)
qed

lemma append_entry_map:
  assumes "table_wf t" "clock_ok fromiso now" "validate_key key = Inr u"
    and "validate_value val = Inr v" "CR \<notin> set val" "parse_op op' = Some o'"
  shows "\<exists>t'. append_entry fromiso now op' key val t = Inr t' \<and> table_wf t' \<and>
    table_map fromiso t' =
      apply_map \<lparr>lr_ts = now, lr_op = o', lr_key = key, lr_value = val\<rparr> (table_map fromiso t) \<and>
    lt_compact_size t' = lt_compact_size t \<and> lt_compact_history t' = lt_compact_history t"
proof -
  let ?r = "\<lparr>lr_ts = now, lr_op = o', lr_key = key, lr_value = val\<rparr>"
  let ?t = "t\<lparr>lt_file := lt_file t @ render_rec ?r @ [LF]\<rparr>"
  have ok: "rec_ok fromiso ?r" using assms by (intro entry_rec_ok)
  have wf: "table_wf ?t" using assms(1) by (auto simp: table_wf_def)
  have "file_records fromiso (lt_file ?t) = file_records fromiso (lt_file t) @ [?r]"
    using ok assms(1) by (simp add: file_records_append rec_ok_def table_wf_def)
  then have "table_map fromiso ?t = apply_map ?r (table_map fromiso t)"
    by (simp add: table_map_def map_of_replay)
  moreover have "append_entry fromiso now op' key val t = maybe_compact fromiso now ?t"
    using assms(3-6) parse_op_Some [OF assms(6)]
    by (simp add: append_entry_def write_entry_def validate_operation_def render_rec_def)
  ultimately show ?thesis using maybe_compact_lenient [OF wf assms(2)] by auto
qed

lemma append_entry_records:
  assumes "table_wf t" "clock_ok fromiso now" "validate_key key = Inr u"
    and "validate_value val = Inr v" "CR \<notin> set val" "parse_op op' = Some o'"
    and "lt_compact_size t = 0 \<or>
      length (lt_file t @ render_fields now op' key val @ [LF]) \<le> lt_compact_size t"
  shows "\<exists>t'. append_entry fromiso now op' key val t = Inr t' \<and>
    file_records fromiso (lt_file t') =
      file_records fromiso (lt_file t) @ [\<lparr>lr_ts = now, lr_op = o', lr_key = key, lr_value = val\<rparr>]"
proof -
  let ?r = "\<lparr>lr_ts = now, lr_op = o', lr_key = key, lr_value = val\<rparr>"
  have "rec_ok fromiso ?r" using assms(1-6) by (intro entry_rec_ok)
  then have "file_records fromiso (lt_file t @ render_rec ?r @ [LF]) =
      file_records fromiso (lt_file t) @ [?r]"
    using assms(1) by (simp add: file_records_append rec_ok_def table_wf_def)
  then show ?thesis
    using assms(3,4,6,7) parse_op_Some [OF assms(6)]
    by (auto simp: append_entry_def write_entry_def validate_operation_def render_rec_def
        maybe_compact_def)
qed

lemmas table_ops_defs = write_key_def clear_prefix_def delete_key_def

section \<open>Properties\<close>

text \<open>C1: compacting a table, whatever text its file holds and whatever history is kept,
  succeeds and leaves every key with the entry (value and timestamp) it had.\<close>

theorem compact_keeps_entries:
  assumes "table_wf t" and "0 \<le> h" and "clock_ok fromiso now"
  shows "\<exists>t'. compact fromiso now h t = Inr t' \<and> table_wf t' \<and>
    (\<forall>k. read_key fromiso t' k = read_key fromiso t k)"
  using compact_lenient [OF assms] assms(1)
  by (auto simp: read_key_lenient table_wf_def)

definition demo_clock :: "string \<Rightarrow> int option" where
  "demo_clock s = (if s = [] then None else Some 0)"

definition demo_table :: logtab where
  "demo_table = logtab_init None ''t.logtab'' [] ''2026-01-01T00:00:00Z'' False 0 0"

lemma demo_table_wf: "table_wf demo_table"
  by (simp add: demo_table_def logtab_init_def table_wf_def)

lemma demo_clock_ok: "clock_ok demo_clock ''2026-01-01T00:00:00Z''"
  by (simp add: clock_ok_def demo_clock_def starts_with_def)

theorem compact_keeps_entries_witness:
  "\<exists>t'. compact demo_clock ''2026-01-01T00:00:00Z'' 1 demo_table = Inr t' \<and> table_wf t' \<and>
    (\<forall>k. read_key demo_clock t' k = read_key demo_clock demo_table k)"
  by (rule compact_keeps_entries [OF demo_table_wf _ demo_clock_ok]) simp

text \<open>C3: a write of a valid key and a one-line value succeeds, also when it triggers a
  compaction; afterwards the key reads as that value at that time, every other key as before.\<close>

theorem write_then_read:
  assumes "table_wf t" and "clock_ok fromiso now" and "validate_key key = Inr ()"
    and "validate_value val = Inr ()" and "CR \<notin> set val"
  shows "\<exists>t'. write_key fromiso now key val t = Inr t' \<and> table_wf t' \<and>
    read_key fromiso t' key = Inr (Some \<lparr>le_ts = now, le_value = val\<rparr>) \<and>
    (\<forall>k. k \<noteq> key \<longrightarrow> read_key fromiso t' k = read_key fromiso t k)"
proof -
  have "parse_op ''set'' = Some OpSet" by (simp add: parse_op_def)
  from append_entry_map [OF assms this] assms(1) show ?thesis
    by (auto simp: table_ops_defs read_key_lenient table_wf_def apply_map_def entry_of_def)
qed

theorem write_then_read_witness:
  "\<exists>t'. write_key demo_clock ''2026-01-01T00:00:00Z'' ''config/x'' ''1'' demo_table = Inr t' \<and>
    table_wf t' \<and>
    read_key demo_clock t' ''config/x'' =
      Inr (Some \<lparr>le_ts = ''2026-01-01T00:00:00Z'', le_value = ''1''\<rparr>) \<and>
    (\<forall>k. k \<noteq> ''config/x'' \<longrightarrow> read_key demo_clock t' k = read_key demo_clock demo_table k)"
  by (rule write_then_read [OF demo_table_wf demo_clock_ok])
    (simp_all add: validate_key_def validate_value_def MAX_KEY_LENGTH_def MAX_VAL_LENGTH_def
      key_char_def char_class_defs)

text \<open>Clearing a prefix drops exactly the keys that start with it, and deleting a key
  drops exactly that key.\<close>

lemma clear_and_delete_exact:
  assumes "table_wf t" and "clock_ok fromiso now" and "validate_key key = Inr ()"
  shows "(\<exists>t'. clear_prefix fromiso now key [] t = Inr t' \<and> table_wf t' \<and>
      (\<forall>k. read_key fromiso t' k =
        (if starts_with k key then Inr None else read_key fromiso t k))) \<and>
    (\<exists>t'. delete_key fromiso now key [] t = Inr t' \<and> table_wf t' \<and>
      (\<forall>k. read_key fromiso t' k = (if k = key then Inr None else read_key fromiso t k)))"
proof -
  have v: "validate_value [] = Inr ()" "CR \<notin> set ([] :: string)"
    by (simp_all add: validate_value_def)
  have "parse_op ''clr'' = Some OpClr" "parse_op ''del'' = Some OpDel"
    by (simp_all add: parse_op_def)
  from append_entry_map [OF assms v this(1)] append_entry_map [OF assms v this(2)] assms(1)
  show ?thesis
    by (auto simp: table_ops_defs read_key_lenient table_wf_def apply_map_def)
qed

lemma clear_and_delete_exact_witness:
  "(\<exists>t'. clear_prefix demo_clock ''2026-01-01T00:00:00Z'' ''routes/'' [] demo_table = Inr t' \<and>
      table_wf t' \<and>
      (\<forall>k. read_key demo_clock t' k =
        (if starts_with k ''routes/'' then Inr None else read_key demo_clock demo_table k))) \<and>
    (\<exists>t'. delete_key demo_clock ''2026-01-01T00:00:00Z'' ''routes/'' [] demo_table = Inr t' \<and>
      table_wf t' \<and>
      (\<forall>k. read_key demo_clock t' k =
        (if k = ''routes/'' then Inr None else read_key demo_clock demo_table k)))"
  by (rule clear_and_delete_exact [OF demo_table_wf demo_clock_ok])
    (simp add: validate_key_def MAX_KEY_LENGTH_def key_char_def char_class_defs)

text \<open>\<^verbatim>\<open>validate_value\<close> refuses a line feed but lets a carriage return through, and the
  file is read with universal newlines: what was written does not read back.\<close>

lemma carriage_return_value_truncated:
  "(case write_key demo_clock ''2026-01-01T00:00:00Z'' ''k'' (''a'' @ [CR] @ ''b'') demo_table of
      Inl e \<Rightarrow> Inl e
    | Inr t' \<Rightarrow> read_key demo_clock t' ''k'') =
    Inr (Some \<lparr>le_ts = ''2026-01-01T00:00:00Z'', le_value = ''a''\<rparr>)"
  by code_simp



end
