(* ===== verification/Cronexpr.thy ===== *)
theory Cronexpr
  imports Prelude "HOL-Library.Product_Lexorder"
begin

text \<open>
  \<^verbatim>\<open>kelso/lib/cronexpr.py\<close>: five-field cron schedules. The first section is the part of
  Python's \<^verbatim>\<open>datetime\<close> it uses: naive times of the proleptic Gregorian calendar, to the
  minute, compared field by field; adding days past year 9999 raises \<^verbatim>\<open>OverflowError\<close>. The
  search loop is a \<^theory_text>\<open>partial_function\<close>, so that returning is something to prove.
\<close>

section \<open>The calendar\<close>

type_synonym date = "nat \<times> nat \<times> nat"
type_synonym moment = "nat \<times> nat \<times> nat \<times> nat \<times> nat"

datatype cron_error =
    FieldCount nat
  | NotANumber string string
  | BadStep string string
  | OutsideRange string string nat nat
  | NeverMatches
  | DateOverflow

definition is_leap :: "nat \<Rightarrow> bool" where
  "is_leap y \<longleftrightarrow> y mod 4 = 0 \<and> (y mod 100 \<noteq> 0 \<or> y mod 400 = 0)"

definition days_in_month :: "nat \<Rightarrow> nat \<Rightarrow> nat" where
  "days_in_month y m =
     (if m = 2 then (if is_leap y then 29 else 28)
      else if m \<in> {4, 6, 9, 11} then 30 else 31)"

definition MAXYEAR :: nat where "MAXYEAR = 9999"

fun valid_date :: "date \<Rightarrow> bool" where
  "valid_date (y, m, d) \<longleftrightarrow>
     1 \<le> y \<and> y \<le> MAXYEAR \<and> 1 \<le> m \<and> m \<le> 12 \<and> 1 \<le> d \<and> d \<le> days_in_month y m"

fun valid_moment :: "moment \<Rightarrow> bool" where
  "valid_moment (y, m, d, h, mi) \<longleftrightarrow> valid_date (y, m, d) \<and> h < 24 \<and> mi < 60"

text \<open>\<^verbatim>\<open>date + timedelta(days=1)\<close>, and \<open>n\<close> days as \<open>n\<close> times one day.\<close>

fun next_day :: "date \<Rightarrow> date option" where
  "next_day (y, m, d) =
     (if d < days_in_month y m then Some (y, m, d + 1)
      else if m < 12 then Some (y, m + 1, 1)
      else if y < MAXYEAR then Some (y + 1, 1, 1) else None)"

fun add_days :: "nat \<Rightarrow> date \<Rightarrow> date option" where
  "add_days 0 dt = Some dt"
| "add_days (Suc n) dt = (case next_day dt of None \<Rightarrow> None | Some dt' \<Rightarrow> add_days n dt')"

fun add_minute :: "moment \<Rightarrow> moment option" where
  "add_minute (y, m, d, h, mi) =
     (if mi < 59 then Some (y, m, d, h, mi + 1)
      else if h < 23 then Some (y, m, d, h + 1, 0)
      else case next_day (y, m, d) of None \<Rightarrow> None | Some (y', m', d') \<Rightarrow> Some (y', m', d', 0, 0))"

text \<open>\<^verbatim>\<open>date.toordinal\<close> and \<^verbatim>\<open>date.weekday\<close> (Monday is 0).\<close>

definition days_before_year :: "nat \<Rightarrow> nat" where
  "days_before_year y =
     (let p = y - 1 in p * 365 + p div 4 - p div 100 + p div 400)"

fun days_before_month :: "nat \<Rightarrow> nat \<Rightarrow> nat" where
  "days_before_month y 0 = 0"
| "days_before_month y (Suc m) = (if m = 0 then 0 else days_before_month y m + days_in_month y m)"

fun ordinal :: "date \<Rightarrow> nat" where
  "ordinal (y, m, d) = days_before_year y + days_before_month y m + d"

definition weekday :: "date \<Rightarrow> nat" where
  "weekday dt = (ordinal dt + 6) mod 7"

section \<open>Schedules\<close>

record cron_schedule =
  cs_text :: string
  cs_minutes :: "nat list"
  cs_hours :: "nat list"
  cs_days :: "nat list"
  cs_months :: "nat list"
  cs_weekdays :: "nat list"
  cs_any_day :: bool
  cs_any_weekday :: bool

definition CRON_FIELDS :: "(string \<times> nat \<times> nat) list" where
  "CRON_FIELDS =
     [(''minute'', 0, 59), (''hour'', 0, 23), (''day of month'', 1, 31), (''month'', 1, 12),
      (''day of week'', 0, 7)]"

definition SEARCH_DAYS :: nat where "SEARCH_DAYS = 366 * 5"

definition cron_number :: "string \<Rightarrow> string \<Rightarrow> cron_error + nat" where
  "cron_number s name =
     (if str_isdigit s then Inr (nat_of_str s) else Inl (NotANumber name s))"

definition py_range :: "nat \<Rightarrow> nat \<Rightarrow> nat \<Rightarrow> nat list" where
  "py_range start stop step =
     (if start < stop then List.map (\<lambda>k. start + k * step) [0 ..< (stop - start - 1) div step + 1]
      else [])"

text \<open>One item of a field's comma list: where it starts and ends, and its step.\<close>

definition parse_item :: "string \<Rightarrow> string \<Rightarrow> nat \<Rightarrow> nat \<Rightarrow> cron_error + nat \<times> nat \<times> nat" where
  "parse_item item name low high =
     (case partition_on (CHR ''/'') item of (span, _, step_text) \<Rightarrow>
      (case (if step_text \<noteq> [] then cron_number step_text name else Inr 1) of
         Inl e \<Rightarrow> Inl e
       | Inr step \<Rightarrow>
          if step < 1 then Inl (BadStep name item)
          else case
            (if span = ''*'' then Inr (low, high)
             else if CHR ''-'' \<in> set span then
               (case partition_on (CHR ''-'') span of (start_text, _, end_text) \<Rightarrow>
                 (case cron_number start_text name of Inl e \<Rightarrow> Inl e | Inr s \<Rightarrow>
                  (case cron_number end_text name of Inl e \<Rightarrow> Inl e | Inr e \<Rightarrow> Inr (s, e))))
             else (case cron_number span name of Inl e \<Rightarrow> Inl e
                   | Inr s \<Rightarrow> Inr (s, if step_text \<noteq> [] then high else s))) of
              Inl e \<Rightarrow> Inl e
            | Inr (start, stop) \<Rightarrow>
                if \<not> (low \<le> start \<and> start \<le> stop \<and> stop \<le> high)
                then Inl (OutsideRange name item low high) else Inr (start, stop, step)))"

fun parse_items :: "string list \<Rightarrow> string \<Rightarrow> nat \<Rightarrow> nat \<Rightarrow> cron_error + nat list" where
  "parse_items [] name low high = Inr []"
| "parse_items (item # items) name low high =
     (case parse_item item name low high of
        Inl e \<Rightarrow> Inl e
      | Inr (start, stop, step) \<Rightarrow>
          (case parse_items items name low high of
             Inl e \<Rightarrow> Inl e
           | Inr vs \<Rightarrow> Inr (py_range start (stop + 1) step @ vs)))"

definition parse_field :: "string \<Rightarrow> string \<Rightarrow> nat \<Rightarrow> nat \<Rightarrow> cron_error + nat list" where
  "parse_field s name low high = parse_items (split_on (CHR '','') s) name low high"

text \<open>\<^verbatim>\<open>str.split()\<close>: the runs of non-blank characters.\<close>

definition blank :: "char \<Rightarrow> bool" where
  "blank c \<longleftrightarrow> (let n = (of_char c :: nat) in (9 \<le> n \<and> n \<le> 13) \<or> (28 \<le> n \<and> n \<le> 32))"

fun split_ws_acc :: "string \<Rightarrow> string \<Rightarrow> string list" where
  "split_ws_acc acc [] = (if acc = [] then [] else [rev acc])"
| "split_ws_acc acc (c # cs) =
     (if blank c then (if acc = [] then [] else [rev acc]) @ split_ws_acc [] cs
      else split_ws_acc (c # acc) cs)"

definition split_ws :: "string \<Rightarrow> string list" where
  "split_ws s = split_ws_acc [] s"

definition parse_schedule :: "string \<Rightarrow> cron_error + cron_schedule" where
  "parse_schedule s =
     (let parts = split_ws s in
      if length parts \<noteq> 5 then Inl (FieldCount (length parts))
      else case traverse (\<lambda>(part, name, low, high). parse_field part name low high)
                  (zip parts CRON_FIELDS) of
        Inr [minutes, hours, days, months, weekdays] \<Rightarrow>
          Inr \<lparr>cs_text = s, cs_minutes = minutes, cs_hours = hours, cs_days = days,
               cs_months = months,
               cs_weekdays = List.map (\<lambda>day. if day = 7 then 0 else day) weekdays,
               cs_any_day = (parts ! 2 = ''*''), cs_any_weekday = (parts ! 4 = ''*'')\<rparr>
      | Inr _ \<Rightarrow> Inl (FieldCount (length parts))
      | Inl e \<Rightarrow> Inl e)"

fun day_matches :: "cron_schedule \<Rightarrow> date \<Rightarrow> bool" where
  "day_matches s (y, m, d) =
     (let in_days = d \<in> set (cs_days s);
          in_weekdays = (weekday (y, m, d) + 1) mod 7 \<in> set (cs_weekdays s)
      in if cs_any_day s \<and> cs_any_weekday s then True
         else if cs_any_day s then in_weekdays
         else if cs_any_weekday s then in_days
         else in_days \<or> in_weekdays)"

fun schedule_matches :: "cron_schedule \<Rightarrow> moment \<Rightarrow> bool" where
  "schedule_matches s (y, m, d, h, mi) \<longleftrightarrow>
     m \<in> set (cs_months s) \<and> day_matches s (y, m, d) \<and> h \<in> set (cs_hours s) \<and> mi \<in> set (cs_minutes s)"

text \<open>One turn of the search loop at a time that is before the limit: done, or where to look next.\<close>

datatype search = Found moment | LookAt moment | Overflow

fun at_midnight :: "date option \<Rightarrow> search" where
  "at_midnight None = Overflow"
| "at_midnight (Some (y, m, d)) = LookAt (y, m, d, 0, 0)"

fun search_step :: "cron_schedule \<Rightarrow> moment \<Rightarrow> search" where
  "search_step s (y, m, d, h, mi) =
     (if m \<notin> set (cs_months s) then
        at_midnight (map_option (\<lambda>(y', m', d'). (y', m', 1)) (add_days 32 (y, m, 1)))
      else if \<not> day_matches s (y, m, d) then at_midnight (next_day (y, m, d))
      else if h \<notin> set (cs_hours s) then
        (if h < 23 then LookAt (y, m, d, h + 1, 0) else at_midnight (next_day (y, m, d)))
      else if mi \<notin> set (cs_minutes s) then
        (case add_minute (y, m, d, h, mi) of None \<Rightarrow> Overflow | Some at \<Rightarrow> LookAt at)
      else Found (y, m, d, h, mi))"

partial_function (option) search_from ::
    "cron_schedule \<Rightarrow> moment \<Rightarrow> moment \<Rightarrow> (cron_error + moment) option" where
  "search_from s limit at =
     (if at < limit then
        (case search_step s at of
           Found r \<Rightarrow> Some (Inr r)
         | Overflow \<Rightarrow> Some (Inl DateOverflow)
         | LookAt at' \<Rightarrow> search_from s limit at')
      else Some (Inl NeverMatches))"

fun search_limit :: "moment \<Rightarrow> moment option" where
  "search_limit (y, m, d, h, mi) =
     map_option (\<lambda>(y', m', d'). (y', m', d', h, mi)) (add_days SEARCH_DAYS (y, m, d))"

text \<open>\<open>after\<close> is the caller's time to the minute; its seconds are dropped first.\<close>

definition next_after :: "cron_schedule \<Rightarrow> moment \<Rightarrow> (cron_error + moment) option" where
  "next_after s after =
     (case add_minute after of
        None \<Rightarrow> Some (Inl DateOverflow)
      | Some at \<Rightarrow>
          (case search_limit at of
             None \<Rightarrow> Some (Inl DateOverflow)
           | Some limit \<Rightarrow> search_from s limit at))"

section \<open>The calendar's order\<close>

lemma days_in_month_bounds: "28 \<le> days_in_month y m" "days_in_month y m \<le> 31"
  by (auto simp: days_in_month_def)

lemma next_day_Some:
  assumes "valid_date dt" "next_day dt = Some dt'"
  shows "valid_date dt'" and "dt < dt'" and "\<And>x. valid_date x \<Longrightarrow> dt < x \<Longrightarrow> dt' \<le> x"
proof -
  obtain y m d where dt: "dt = (y, m, d)" by (cases dt)
  have dim: "28 \<le> days_in_month y' m'" for y' m' by (rule days_in_month_bounds)
  then have one: "1 \<le> days_in_month y' m'" for y' m' by (meson one_le_numeral order_trans)
  show "valid_date dt'" using assms one by (auto simp: dt split: if_splits)
  show "dt < dt'" using assms by (auto simp: dt split: if_splits)
  show "dt' \<le> x" if "valid_date x" "dt < x" for x
  proof -
    obtain y2 m2 d2 where xx: "x = (y2, m2, d2)" by (cases x)
    have "y2 = y \<Longrightarrow> m2 = m \<Longrightarrow> d2 \<le> days_in_month y m" using that(1) by (simp add: xx)
    then show ?thesis
      using assms that by (auto simp: dt xx less_eq_Suc_le split: if_splits)
  qed
qed

lemma next_day_None: "valid_date dt \<Longrightarrow> next_day dt = None \<Longrightarrow> valid_date x \<Longrightarrow> x \<le> dt"
proof -
  assume a: "valid_date dt" "next_day dt = None" "valid_date x"
  obtain y m d where dt: "dt = (y, m, d)" by (cases dt)
  obtain y2 m2 d2 where xx: "x = (y2, m2, d2)" by (cases x)
  have "y2 = y \<Longrightarrow> m2 = m \<Longrightarrow> d2 \<le> days_in_month y m" using a(3) by (simp add: xx)
  moreover have "y = MAXYEAR" "m = 12" "d = days_in_month y m"
    using a(1,2) by (auto simp: dt split: if_splits)
  moreover have "y2 < MAXYEAR \<or> y2 = MAXYEAR" "m2 < 12 \<or> m2 = 12" using a(3) by (auto simp: xx)
  ultimately show "x \<le> dt" by (auto simp: dt xx)
qed

lemma add_days_in_month:
  "d + n \<le> days_in_month y m \<Longrightarrow> add_days n (y, m, d) = Some (y, m, d + n)"
  by (induction n arbitrary: d) auto

lemma add_days_add:
  "add_days (n + k) dt = (case add_days n dt of None \<Rightarrow> None | Some dt' \<Rightarrow> add_days k dt')"
  by (induction n arbitrary: dt) (auto split: option.splits)

definition next_month :: "nat \<Rightarrow> nat \<Rightarrow> date option" where
  "next_month y m =
     (if m < 12 then Some (y, m + 1, 1) else if y < MAXYEAR then Some (y + 1, 1, 1) else None)"

text \<open>Thirty-two days after the first of a month is a day of the next one.\<close>

lemma add_32_days:
  "map_option (\<lambda>(y', m', d'). (y', m', 1)) (add_days 32 (y, m, 1)) = next_month y m"
proof -
  let ?k = "days_in_month y m"
  have k: "28 \<le> ?k" "?k \<le> 31" by (rule days_in_month_bounds)+
  have first: "add_days (?k - 1) (y, m, 1) = Some (y, m, ?k)"
    using add_days_in_month [of 1 "?k - 1" y m] k by simp
  have "add_days 32 (y, m, 1) = add_days ((?k - 1) + Suc (32 - ?k)) (y, m, 1)"
    using k by (intro arg_cong [where f = "\<lambda>n. add_days n (y, m, 1)"]) simp
  also have "\<dots> =
      (case next_day (y, m, ?k) of None \<Rightarrow> None | Some dt' \<Rightarrow> add_days (32 - ?k) dt')"
    by (simp only: add_days_add first option.case add_days.simps)
  also have "next_day (y, m, ?k) = next_month y m" by (simp add: next_month_def)
  finally have step: "add_days 32 (y, m, 1) =
      (case next_month y m of None \<Rightarrow> None | Some dt' \<Rightarrow> add_days (32 - ?k) dt')" .
  have "add_days (32 - ?k) (y', m', 1) = Some (y', m', 1 + (32 - ?k))" for y' m'
    using k days_in_month_bounds(1) [of y' m'] by (intro add_days_in_month) simp
  with step show ?thesis by (auto simp: next_month_def)
qed

lemma add_minute_Some:
  assumes "valid_moment at" "add_minute at = Some at'"
  shows "valid_moment at'" and "at < at'" and "\<And>x. valid_moment x \<Longrightarrow> at < x \<Longrightarrow> at' \<le> x"
proof -
  obtain y m d h mi where at: "at = (y, m, d, h, mi)" by (cases at)
  show "valid_moment at'"
    using assms next_day_Some(1) [of "(y, m, d)"]
    by (auto simp: at simp del: next_day.simps valid_date.simps split: if_splits option.splits)
  show "at < at'"
    using assms next_day_Some(2) [of "(y, m, d)"]
    by (auto simp: at simp del: next_day.simps valid_date.simps split: if_splits option.splits)
  show "at' \<le> x" if x: "valid_moment x" "at < x" for x
  proof -
    obtain y2 m2 d2 h2 mi2 where xx: "x = (y2, m2, d2, h2, mi2)" by (cases x)
    show ?thesis
      using assms x next_day_Some(3) [of "(y, m, d)" _ "(y2, m2, d2)"]
      by (auto simp: at xx simp del: next_day.simps valid_date.simps split: if_splits option.splits)
  qed
qed

lemma add_minute_None: "valid_moment at \<Longrightarrow> add_minute at = None \<Longrightarrow> valid_moment x \<Longrightarrow> x \<le> at"
proof -
  assume a: "valid_moment at" "add_minute at = None" "valid_moment x"
  obtain y m d h mi where at: "at = (y, m, d, h, mi)" by (cases at)
  obtain y2 m2 d2 h2 mi2 where xx: "x = (y2, m2, d2, h2, mi2)" by (cases x)
  show "x \<le> at"
    using a next_day_None [of "(y, m, d)" "(y2, m2, d2)"]
    by (auto simp: at xx simp del: next_day.simps valid_date.simps split: if_splits option.splits)
qed

section \<open>One turn of the search\<close>

definition no_match :: "cron_schedule \<Rightarrow> moment \<Rightarrow> moment \<Rightarrow> bool" where
  "no_match s a b \<longleftrightarrow> (\<forall>x. valid_moment x \<longrightarrow> a \<le> x \<longrightarrow> x < b \<longrightarrow> \<not> schedule_matches s x)"

lemma no_match_trans: "no_match s a b \<Longrightarrow> no_match s b c \<Longrightarrow> no_match s a c"
  by (auto simp: no_match_def) (metis leI)

lemma skip_to_midnight:
  assumes "valid_moment (y, m, d, h, mi)" and "next_day (y, m, d) = Some (y', m', d')"
    and "\<And>h2 mi2. (h, mi) \<le> (h2, mi2) \<Longrightarrow> h2 < 24 \<Longrightarrow> \<not> schedule_matches s (y, m, d, h2, mi2)"
  shows "valid_moment (y', m', d', 0, 0) \<and> (y, m, d, h, mi) < (y', m', d', 0, 0) \<and>
    no_match s (y, m, d, h, mi) (y', m', d', 0, 0)"
proof -
  have v: "valid_date (y, m, d)" using assms(1) by simp
  note nd = next_day_Some [OF v assms(2)]
  have "\<not> schedule_matches s x"
    if x: "valid_moment x" "(y, m, d, h, mi) \<le> x" "x < (y', m', d', 0, 0)" for x
  proof -
    obtain y2 m2 d2 h2 mi2 where xx: "x = (y2, m2, d2, h2, mi2)" by (cases x)
    have "(y2, m2, d2) < (y', m', d')" using x(3) by (auto simp: xx)
    then have "\<not> (y, m, d) < (y2, m2, d2)" using nd(3) [of "(y2, m2, d2)"] x(1) by (auto simp: xx)
    moreover have "(y, m, d) \<le> (y2, m2, d2)" using x(2) by (auto simp: xx)
    ultimately have eq: "(y2, m2, d2) = (y, m, d)" by simp
    with x(1,2) show ?thesis using assms(3) [of h2 mi2] by (auto simp: xx)
  qed
  moreover have "(y, m, d, h, mi) < (y', m', d', 0, 0)" using nd(2) by auto
  ultimately show ?thesis using nd(1) by (simp add: no_match_def)
qed

lemma skip_to_next_month:
  assumes "valid_moment (y, m, d, h, mi)" and "next_month y m = Some (y', m', d')"
    and "\<And>d2 h2 mi2. \<not> schedule_matches s (y, m, d2, h2, mi2)"
  shows "valid_moment (y', m', d', 0, 0) \<and> (y, m, d, h, mi) < (y', m', d', 0, 0) \<and>
    no_match s (y, m, d, h, mi) (y', m', d', 0, 0)"
proof -
  have "\<not> schedule_matches s x"
    if x: "valid_moment x" "(y, m, d, h, mi) \<le> x" "x < (y', m', d', 0, 0)" for x
  proof -
    obtain y2 m2 d2 h2 mi2 where xx: "x = (y2, m2, d2, h2, mi2)" by (cases x)
    have "y2 = y \<and> m2 = m"
      using x assms(1,2) by (auto simp: xx next_month_def split: if_splits)
    with assms(3) show ?thesis by (simp add: xx)
  qed
  moreover have "valid_date (y', m', d')"
    using assms(1,2) days_in_month_bounds(1) [of y' m']
    by (auto simp: next_month_def split: if_splits)
  moreover have "(y, m, d, h, mi) < (y', m', d', 0, 0)"
    using assms(2) by (auto simp: next_month_def split: if_splits)
  ultimately show ?thesis by (auto simp: no_match_def)
qed

lemma overflow_day:
  assumes "valid_moment (y, m, d, h, mi)" "next_day (y, m, d) = None"
    and "\<And>h2 mi2. (h, mi) \<le> (h2, mi2) \<Longrightarrow> h2 < 24 \<Longrightarrow> \<not> schedule_matches s (y, m, d, h2, mi2)"
    and "valid_moment x" "(y, m, d, h, mi) \<le> x"
  shows "\<not> schedule_matches s x"
proof -
  obtain y2 m2 d2 h2 mi2 where xx: "x = (y2, m2, d2, h2, mi2)" by (cases x)
  have "(y2, m2, d2) \<le> (y, m, d)"
    using assms(1,2,4) by (intro next_day_None) (simp_all add: xx)
  moreover have "(y, m, d) \<le> (y2, m2, d2)" using assms(5) by (auto simp: xx)
  ultimately have "(y2, m2, d2) = (y, m, d)" by (rule order_antisym)
  with assms(3,4,5) show ?thesis by (auto simp: xx)
qed

lemma overflow_month:
  assumes "valid_moment (y, m, d, h, mi)" "next_month y m = None"
    and "\<And>d2 h2 mi2. \<not> schedule_matches s (y, m, d2, h2, mi2)"
    and "valid_moment x" "(y, m, d, h, mi) \<le> x"
  shows "\<not> schedule_matches s x"
proof -
  obtain y2 m2 d2 h2 mi2 where xx: "x = (y2, m2, d2, h2, mi2)" by (cases x)
  have "y2 = y \<and> m2 = m"
    using assms(1,2,4,5) by (auto simp: xx next_month_def split: if_splits)
  with assms(3) show ?thesis by (simp add: xx)
qed

definition step_ok :: "cron_schedule \<Rightarrow> moment \<Rightarrow> search \<Rightarrow> bool" where
  "step_ok s at r \<longleftrightarrow>
     (case r of
        Found m \<Rightarrow> m = at \<and> schedule_matches s at
      | LookAt at' \<Rightarrow> valid_moment at' \<and> at < at' \<and> no_match s at at'
      | Overflow \<Rightarrow> (\<forall>x. valid_moment x \<longrightarrow> at \<le> x \<longrightarrow> \<not> schedule_matches s x))"

lemma step_ok_day:
  assumes "valid_moment (y, m, d, h, mi)"
    and "\<And>h2 mi2. (h, mi) \<le> (h2, mi2) \<Longrightarrow> h2 < 24 \<Longrightarrow> \<not> schedule_matches s (y, m, d, h2, mi2)"
  shows "step_ok s (y, m, d, h, mi) (at_midnight (next_day (y, m, d)))"
proof (cases "next_day (y, m, d)")
  case None
  with overflow_day [OF assms(1) None assms(2)] show ?thesis by (simp add: step_ok_def)
next
  case (Some dt')
  obtain y' m' d' where dt': "dt' = (y', m', d')" by (cases dt')
  from skip_to_midnight [OF assms(1) Some [unfolded dt'] assms(2)] show ?thesis
    by (simp only: Some dt' step_ok_def at_midnight.simps search.case)
qed

lemma step_ok_month:
  assumes "valid_moment (y, m, d, h, mi)" and "m \<notin> set (cs_months s)"
  shows "step_ok s (y, m, d, h, mi) (at_midnight (next_month y m))"
proof -
  have nm: "\<And>d2 h2 mi2. \<not> schedule_matches s (y, m, d2, h2, mi2)" using assms(2) by simp
  show ?thesis
  proof (cases "next_month y m")
    case None
    with overflow_month [OF assms(1) None nm] show ?thesis by (simp add: step_ok_def)
  next
    case (Some dt')
    obtain y' m' d' where dt': "dt' = (y', m', d')" by (cases dt')
    from skip_to_next_month [OF assms(1) Some [unfolded dt'] nm] show ?thesis
      by (simp only: Some dt' step_ok_def at_midnight.simps search.case)
  qed
qed

lemma search_step_ok:
  assumes "valid_moment at"
  shows "step_ok s at (search_step s at)"
proof -
  obtain y m d h mi where at: "at = (y, m, d, h, mi)" by (cases at)
  have v: "valid_moment (y, m, d, h, mi)" using assms at by simp
  consider (month) "m \<notin> set (cs_months s)"
    | (day) "m \<in> set (cs_months s)" "\<not> day_matches s (y, m, d)"
    | (hour) "m \<in> set (cs_months s)" "day_matches s (y, m, d)" "h \<notin> set (cs_hours s)"
    | (minute) "m \<in> set (cs_months s)" "day_matches s (y, m, d)" "h \<in> set (cs_hours s)"
        "mi \<notin> set (cs_minutes s)"
    | (found) "schedule_matches s (y, m, d, h, mi)"
    by auto
  then show ?thesis
  proof cases
    case month
    with step_ok_month [OF v month] show ?thesis by (simp add: at add_32_days [unfolded One_nat_def])
  next
    case day
    then have "step_ok s (y, m, d, h, mi) (at_midnight (next_day (y, m, d)))"
      by (intro step_ok_day [OF v]) simp
    with day show ?thesis by (simp add: at del: next_day.simps day_matches.simps)
  next
    case hour
    show ?thesis
    proof (cases "h < 23")
      case True
      have "no_match s (y, m, d, h, mi) (y, m, d, h + 1, 0)"
        unfolding no_match_def
      proof (intro allI impI)
        fix x :: moment
        assume x: "valid_moment x" "(y, m, d, h, mi) \<le> x" "x < (y, m, d, h + 1, 0)"
        obtain y2 m2 d2 h2 mi2 where xx: "x = (y2, m2, d2, h2, mi2)" by (cases x)
        have "h2 = h" using x(2,3) by (auto simp: xx)
        with hour(3) show "\<not> schedule_matches s x" by (simp add: xx)
      qed
      moreover have "search_step s at = LookAt (y, m, d, h + 1, 0)"
        using hour True by (simp add: at del: next_day.simps day_matches.simps)
      moreover have "valid_moment (y, m, d, h + 1, 0)" using v True by simp
      ultimately show ?thesis by (simp add: step_ok_def at del: valid_moment.simps)
    next
      case False
      have "step_ok s (y, m, d, h, mi) (at_midnight (next_day (y, m, d)))"
        using hour False v by (intro step_ok_day [OF v]) (auto dest: le_antisym)
      with hour False show ?thesis by (simp add: at del: next_day.simps day_matches.simps)
    qed
  next
    case minute
    have nm: "\<not> schedule_matches s at" using minute(4) by (simp add: at)
    show ?thesis
    proof (cases "add_minute at")
      case None
      have "\<not> schedule_matches s x" if "valid_moment x" "at \<le> x" for x
        using add_minute_None [OF assms None that(1)] that(2) nm by (metis order_antisym)
      with minute None show ?thesis
        by (simp add: at step_ok_def del: add_minute.simps day_matches.simps)
    next
      case (Some at')
      note am = add_minute_Some [OF assms Some]
      have "\<not> schedule_matches s x" if "valid_moment x" "at \<le> x" "x < at'" for x
        using am(3) [OF that(1)] that(2,3) nm by (metis leD le_neq_trans)
      with minute Some am(1,2) show ?thesis
        by (simp add: at step_ok_def no_match_def del: add_minute.simps day_matches.simps)
    qed
  next
    case found
    then show ?thesis by (simp add: at step_ok_def)
  qed
qed

section \<open>The search returns, with the first match\<close>

lemma finite_moments: "finite {x. valid_moment x \<and> a \<le> x}"
proof (rule finite_subset)
  show "{x. valid_moment x \<and> a \<le> x} \<subseteq>
      {..MAXYEAR} \<times> {..12} \<times> {..31} \<times> {..24} \<times> {..60}"
    using days_in_month_bounds(2) by (auto intro: order_trans)
  show "finite ({..MAXYEAR} \<times> {..12::nat} \<times> {..31::nat} \<times> {..24::nat} \<times> {..60::nat})" by simp
qed

definition search_spec ::
    "cron_schedule \<Rightarrow> moment \<Rightarrow> moment \<Rightarrow> cron_error + moment \<Rightarrow> bool" where
  "search_spec s at limit r \<longleftrightarrow>
     (case r of
        Inr m \<Rightarrow> valid_moment m \<and> at \<le> m \<and> m < limit \<and> schedule_matches s m \<and> no_match s at m
      | Inl NeverMatches \<Rightarrow> no_match s at limit
      | Inl DateOverflow \<Rightarrow> (\<forall>x. valid_moment x \<longrightarrow> at \<le> x \<longrightarrow> \<not> schedule_matches s x)
      | Inl _ \<Rightarrow> False)"

lemma search_spec_skip:
  assumes "no_match s at at'" "at < at'" "search_spec s at' limit r"
  shows "search_spec s at limit r"
proof (cases r)
  case (Inr m)
  with assms show ?thesis
    by (auto simp: search_spec_def intro: no_match_trans less_imp_le order_trans)
next
  case (Inl e)
  with assms show ?thesis
    by (cases e) (auto simp: search_spec_def no_match_def, (metis leI)+)
qed

lemma search_from_total:
  "valid_moment at \<Longrightarrow> \<exists>r. search_from s limit at = Some r \<and> search_spec s at limit r"
proof (induction "card {x. valid_moment x \<and> at \<le> x}" arbitrary: at rule: less_induct)
  case less
  show ?case
  proof (cases "at < limit")
    case False
    then have "no_match s at limit" by (auto simp: no_match_def)
    with False show ?thesis by (simp add: search_from.simps [of s limit at] search_spec_def)
  next
    case True
    note ok = search_step_ok [OF less.prems, of s]
    show ?thesis
    proof (cases "search_step s at")
      case (Found m)
      with ok True less.prems show ?thesis
        by (auto simp: search_from.simps [of s limit at] search_spec_def step_ok_def no_match_def)
    next
      case Overflow
      with ok True show ?thesis
        by (auto simp: search_from.simps [of s limit at] search_spec_def step_ok_def)
    next
      case (LookAt at')
      with ok have at': "valid_moment at'" "at < at'" "no_match s at at'"
        by (auto simp: step_ok_def)
      have "{x. valid_moment x \<and> at' \<le> x} \<subset> {x. valid_moment x \<and> at \<le> x}"
        using at' less.prems by (auto simp: psubset_eq) (use leD in blast)
      then have "card {x. valid_moment x \<and> at' \<le> x} < card {x. valid_moment x \<and> at \<le> x}"
        by (intro psubset_card_mono finite_moments)
      from less.hyps [OF this at'(1)] obtain r
        where "search_from s limit at' = Some r" "search_spec s at' limit r" by blast
      with LookAt True at' show ?thesis
        by (auto simp: search_from.simps [of s limit at] intro: search_spec_skip)
    qed
  qed
qed

section \<open>The values of a field\<close>

lemma parse_item_bounds:
  "parse_item item name low high = Inr (start, stop, step) \<Longrightarrow>
    low \<le> start \<and> start \<le> stop \<and> stop \<le> high \<and> 1 \<le> step"
  by (auto simp: parse_item_def cron_number_def Let_def split: prod.splits sum.splits if_splits)

lemma set_py_range:
  assumes "start \<le> stop" "1 \<le> step"
  shows "v \<in> set (py_range start (stop + 1) step) \<longleftrightarrow>
    start \<le> v \<and> v \<le> stop \<and> (v - start) mod step = 0"
proof
  assume "v \<in> set (py_range start (stop + 1) step)"
  then obtain k where k: "v = start + k * step" "k \<le> (stop - start) div step"
    using assms by (auto simp: py_range_def)
  then have "k * step \<le> stop - start"
    using div_times_less_eq_dividend [of "stop - start" step] mult_le_mono1 order_trans by blast
  with k assms show "start \<le> v \<and> v \<le> stop \<and> (v - start) mod step = 0" by auto
next
  assume v: "start \<le> v \<and> v \<le> stop \<and> (v - start) mod step = 0"
  define k where "k = (v - start) div step"
  have "v - start = k * step" using v by (auto simp: k_def)
  then have "v = start + k * step" using v by (metis le_add_diff_inverse)
  moreover have "k \<le> (stop - start) div step" using v by (auto simp: k_def intro!: div_le_mono)
  ultimately show "v \<in> set (py_range start (stop + 1) step)"
    using assms by (auto simp: py_range_def image_iff intro!: bexI [of _ k])
qed

lemma py_range_nonempty: "start \<le> stop \<Longrightarrow> py_range start (stop + 1) step \<noteq> []"
  by (simp add: py_range_def)

lemma parse_items_values:
  assumes "parse_items items name low high = Inr vs"
  shows "v \<in> set vs \<longleftrightarrow> (\<exists>item start stop step. item \<in> set items \<and>
      parse_item item name low high = Inr (start, stop, step) \<and>
      start \<le> v \<and> v \<le> stop \<and> (v - start) mod step = 0)"
  using assms
proof (induction items arbitrary: vs)
  case (Cons item items)
  then obtain start stop step vs' where
    it: "parse_item item name low high = Inr (start, stop, step)"
    and its: "parse_items items name low high = Inr vs'"
    and vs: "vs = py_range start (stop + 1) step @ vs'"
    by (auto split: sum.splits)
  have "v \<in> set (py_range start (stop + 1) step) \<longleftrightarrow>
      start \<le> v \<and> v \<le> stop \<and> (v - start) mod step = 0"
    using parse_item_bounds [OF it] by (intro set_py_range) auto
  with Cons.IH [OF its] it show ?case by (auto simp: vs)
qed simp

lemma parse_items_nonempty: "parse_items items name low high = Inr vs \<Longrightarrow> items \<noteq> [] \<Longrightarrow> vs \<noteq> []"
  by (cases items)
    (auto split: sum.splits dest!: parse_item_bounds simp: py_range_nonempty [simplified])

lemma parse_field_bounds:
  assumes "parse_field f name low high = Inr vs"
  shows "vs \<noteq> []" and "\<forall>v \<in> set vs. low \<le> v \<and> v \<le> high"
proof -
  show "vs \<noteq> []"
    using parse_items_nonempty [OF assms [unfolded parse_field_def]] by simp
  show "\<forall>v \<in> set vs. low \<le> v \<and> v \<le> high"
    using parse_items_values [OF assms [unfolded parse_field_def]] parse_item_bounds
    by (fastforce intro: order_trans)
qed

lemma parse_schedule_fields:
  assumes "parse_schedule txt0 = Inr s"
  obtains f1 f2 f3 f4 f5 days7 where "split_ws txt0 = [f1, f2, f3, f4, f5]"
    and "parse_field f1 ''minute'' 0 59 = Inr (cs_minutes s)"
    and "parse_field f2 ''hour'' 0 23 = Inr (cs_hours s)"
    and "parse_field f3 ''day of month'' 1 31 = Inr (cs_days s)"
    and "parse_field f4 ''month'' 1 12 = Inr (cs_months s)"
    and "parse_field f5 ''day of week'' 0 7 = Inr days7"
    and "cs_weekdays s = List.map (\<lambda>day. if day = 7 then 0 else day) days7"
    and "cs_any_day s = (f3 = ''*'')" and "cs_any_weekday s = (f5 = ''*'')"
proof -
  from assms have "length (split_ws txt0) = 5"
    by (auto simp: parse_schedule_def Let_def split: if_splits)
  then obtain f1 f2 f3 f4 f5 where sp: "split_ws txt0 = [f1, f2, f3, f4, f5]"
    by (auto simp: numeral_eq_Suc length_Suc_conv)
  show thesis
    using assms that [OF sp]
    by (auto simp: parse_schedule_def sp CRON_FIELDS_def split: sum.splits)
qed

section \<open>Properties\<close>

lemma next_after_returns:
  assumes "valid_moment after"
  shows "\<exists>r. next_after s after = Some r"
proof (cases "add_minute after")
  case (Some at)
  show ?thesis
  proof (cases "search_limit at")
    case lim: (Some limit)
    from search_from_total [OF add_minute_Some(1) [OF assms Some]] obtain r
      where "search_from s limit at = Some r" by blast
    with Some lim show ?thesis by (simp add: next_after_def)
  qed (simp add: next_after_def Some)
qed (simp add: next_after_def)

lemma next_after_finds:
  assumes "valid_moment after" and "next_after s after = Some (Inr m)"
  shows "valid_moment m \<and> after < m \<and> schedule_matches s m \<and>
    (\<forall>x. valid_moment x \<longrightarrow> after < x \<longrightarrow> x < m \<longrightarrow> \<not> schedule_matches s x)"
proof -
  obtain at limit where at: "add_minute after = Some at" and found: "search_from s limit at = Some (Inr m)"
    using assms(2) by (auto simp: next_after_def split: option.splits)
  note from_at = add_minute_Some [OF assms(1) at]
  have "search_spec s at limit (Inr m)" using search_from_total [OF from_at(1), of s limit] found by auto
  then have m: "valid_moment m" "at \<le> m" "schedule_matches s m" and nm: "no_match s at m"
    by (auto simp: search_spec_def)
  have "after < m" using from_at(2) m(2) by (rule less_le_trans)
  moreover have "\<forall>x. valid_moment x \<longrightarrow> after < x \<longrightarrow> x < m \<longrightarrow> \<not> schedule_matches s x"
    using nm from_at(3) unfolding no_match_def by blast
  ultimately show ?thesis using m by blast
qed

text \<open>C2: for a time in the calendar \<^verbatim>\<open>next_after\<close> returns, whatever the schedule. A time it
  returns is a real one strictly after \<open>after\<close> that matches, and no time in between matches;
  when it gives up, no time before the search limit matches; it overflows only when the limit
  lies past year 9999 or no later time of the calendar matches.\<close>

theorem next_after_first_match:
  assumes "valid_moment after"
  shows "\<exists>r. next_after s after = Some r \<and>
    (\<forall>m. r = Inr m \<longrightarrow> valid_moment m \<and> after < m \<and> schedule_matches s m \<and>
      (\<forall>x. valid_moment x \<longrightarrow> after < x \<longrightarrow> x < m \<longrightarrow> \<not> schedule_matches s x)) \<and>
    (\<forall>at limit x. r = Inl NeverMatches \<longrightarrow> add_minute after = Some at \<longrightarrow>
      search_limit at = Some limit \<longrightarrow> valid_moment x \<longrightarrow> after < x \<longrightarrow> x < limit \<longrightarrow>
      \<not> schedule_matches s x) \<and>
    (\<forall>at x. r = Inl DateOverflow \<longrightarrow> add_minute after = Some at \<longrightarrow> search_limit at \<noteq> None \<longrightarrow>
      valid_moment x \<longrightarrow> after < x \<longrightarrow> \<not> schedule_matches s x)"
proof (cases "add_minute after")
  case None
  then show ?thesis by (simp add: next_after_def)
next
  case (Some at)
  note at = add_minute_Some [OF assms Some]
  show ?thesis
  proof (cases "search_limit at")
    case None
    with Some show ?thesis by (simp add: next_after_def)
  next
    case lim: (Some limit)
    obtain r where r: "search_from s limit at = Some r" "search_spec s at limit r"
      using search_from_total [OF at(1)] by blast
    have na: "next_after s after = Some r" using Some lim r(1) by (simp add: next_after_def)
    have ge: "at \<le> x" if "valid_moment x" "after < x" for x using at(3) that by blast
    show ?thesis
    proof (cases r)
      case (Inr m)
      then have "next_after s after = Some (Inr m)" using na by simp
      with Inr next_after_finds [OF assms this] show ?thesis by blast
    next
      case (Inl e)
      then have "e = NeverMatches \<and> no_match s at limit \<or>
          e = DateOverflow \<and> (\<forall>x. valid_moment x \<longrightarrow> at \<le> x \<longrightarrow> \<not> schedule_matches s x)"
        using r(2) by (cases e) (simp_all add: search_spec_def)
      then show ?thesis
        using na Inl ge Some lim unfolding no_match_def by (intro exI [of _ r]) force
    qed
  qed
qed

definition nightly :: cron_schedule where
  "nightly = \<lparr>cs_text = ''30 4 * * *'', cs_minutes = [30], cs_hours = [4], cs_days = [1 ..< 32],
     cs_months = [1 ..< 13], cs_weekdays = [0 ..< 7] @ [0], cs_any_day = True, cs_any_weekday = True\<rparr>"

theorem next_after_first_match_witness:
  "\<exists>r. next_after nightly (2026, 2, 28, 5, 0) = Some r \<and>
    (\<forall>m. r = Inr m \<longrightarrow> valid_moment m \<and> (2026, 2, 28, 5, 0) < m \<and> schedule_matches nightly m \<and>
      (\<forall>x. valid_moment x \<longrightarrow> (2026, 2, 28, 5, 0) < x \<longrightarrow> x < m \<longrightarrow> \<not> schedule_matches nightly x)) \<and>
    (\<forall>at limit x. r = Inl NeverMatches \<longrightarrow> add_minute (2026, 2, 28, 5, 0) = Some at \<longrightarrow>
      search_limit at = Some limit \<longrightarrow> valid_moment x \<longrightarrow> (2026, 2, 28, 5, 0) < x \<longrightarrow> x < limit \<longrightarrow>
      \<not> schedule_matches nightly x) \<and>
    (\<forall>at x. r = Inl DateOverflow \<longrightarrow> add_minute (2026, 2, 28, 5, 0) = Some at \<longrightarrow>
      search_limit at \<noteq> None \<longrightarrow> valid_moment x \<longrightarrow> (2026, 2, 28, 5, 0) < x \<longrightarrow>
      \<not> schedule_matches nightly x)"
  by (rule next_after_first_match) (simp add: MAXYEAR_def days_in_month_def is_leap_def)

text \<open>C5: what \<^verbatim>\<open>CronSchedule.parse\<close> accepts has no empty field and every value of a field
  is in that field's range, Sunday written as 0 or 7 being 0.\<close>

theorem parse_schedule_in_range:
  assumes "parse_schedule txt0 = Inr s"
  shows "(\<forall>v \<in> set (cs_minutes s). v \<le> 59) \<and> (\<forall>v \<in> set (cs_hours s). v \<le> 23) \<and>
    (\<forall>v \<in> set (cs_days s). 1 \<le> v \<and> v \<le> 31) \<and> (\<forall>v \<in> set (cs_months s). 1 \<le> v \<and> v \<le> 12) \<and>
    (\<forall>v \<in> set (cs_weekdays s). v \<le> 6) \<and>
    cs_minutes s \<noteq> [] \<and> cs_hours s \<noteq> [] \<and> cs_days s \<noteq> [] \<and> cs_months s \<noteq> [] \<and> cs_weekdays s \<noteq> []"
proof -
  obtain f1 f2 f3 f4 f5 days7 where "parse_field f1 ''minute'' 0 59 = Inr (cs_minutes s)"
    and "parse_field f2 ''hour'' 0 23 = Inr (cs_hours s)"
    and "parse_field f3 ''day of month'' 1 31 = Inr (cs_days s)"
    and "parse_field f4 ''month'' 1 12 = Inr (cs_months s)"
    and "parse_field f5 ''day of week'' 0 7 = Inr days7"
    and w: "cs_weekdays s = List.map (\<lambda>day. if day = 7 then 0 else day) days7"
    by (rule parse_schedule_fields [OF assms])
  note this(1-5) [THEN parse_field_bounds(1)] and this(1-5) [THEN parse_field_bounds(2)]
  then show ?thesis by (fastforce simp: w)
qed

theorem parse_schedule_in_range_witness:
  "set (cs_minutes nightly) \<subseteq> {..59} \<and> set (cs_hours nightly) \<subseteq> {..23} \<and>
    set (cs_days nightly) \<subseteq> {1..31} \<and> set (cs_months nightly) \<subseteq> {1..12} \<and>
    set (cs_weekdays nightly) \<subseteq> {..6}"
proof -
  have "parse_schedule ''30 4 * * *'' = Inr nightly"
    by code_simp
  from parse_schedule_in_range [OF this] show ?thesis
    by auto
qed



end
