(* ===== verification/Identifiers.thy ===== *)
theory Identifiers
  imports Prelude
begin

text \<open>
  Names: the identifier rule of \<^verbatim>\<open>kelso/lib/util.py\<close>, app ids (\<^verbatim>\<open>kelso/lib/apps.py\<close>), the
  options every app has (\<^verbatim>\<open>kelso/lib/options.py\<close>) and the addresses of app repositories
  (\<^verbatim>\<open>kelso/lib/repo.py\<close>). Each \<open>raise ValueError\<close> is a constructor of the error type.
\<close>

section \<open>Identifiers and GitHub segments\<close>

datatype name_error =
    InvalidIdentifier string
  | InvalidGithub string string

definition IDENTIFIER_MAX_LEN :: nat where "IDENTIFIER_MAX_LEN = 64"
definition GITHUB_SEGMENT_MAX_LEN :: nat where "GITHUB_SEGMENT_MAX_LEN = 100"

definition ident_char :: "char \<Rightarrow> bool" where
  "ident_char c \<longleftrightarrow> is_alnum c \<or> c = CHR ''_'' \<or> c = CHR ''-''"

definition is_identifier :: "string \<Rightarrow> bool" where
  "is_identifier v \<longleftrightarrow> v \<noteq> [] \<and> length v \<le> IDENTIFIER_MAX_LEN \<and> list_all ident_char v"

definition validate_identifier :: "string \<Rightarrow> name_error + string" where
  "validate_identifier v = (if is_identifier v then Inr v else Inl (InvalidIdentifier v))"

definition github_char :: "char \<Rightarrow> bool" where
  "github_char c \<longleftrightarrow> is_alnum c \<or> c \<in> set ''._-''"

definition github_user_re :: "string \<Rightarrow> bool" where
  "github_user_re v \<longleftrightarrow> v \<noteq> [] \<and> is_alnum (hd v) \<and> is_alnum (last v) \<and> list_all github_char v"

definition github_repo_re :: "string \<Rightarrow> bool" where
  "github_repo_re v \<longleftrightarrow> v \<noteq> [] \<and> list_all github_char v"

definition validate_github_segment :: "string \<Rightarrow> string \<Rightarrow> name_error + string" where
  "validate_github_segment v kind =
     (if v = [] \<or> length v > GITHUB_SEGMENT_MAX_LEN
         \<or> (kind = ''repo'' \<and> (v = ''.'' \<or> v = ''..''))
         \<or> \<not> (if kind = ''repo'' then github_repo_re v else github_user_re v)
      then Inl (InvalidGithub kind v) else Inr v)"

section \<open>App ids\<close>

definition is_app_id :: "string \<Rightarrow> bool" where
  "is_app_id v \<longleftrightarrow> list_all is_identifier (split_on (CHR ''.'') v)"

definition app_id :: "string \<Rightarrow> name_error + string" where
  "app_id v =
     (case traverse validate_identifier (split_on (CHR ''.'') v) of
        Inl e \<Rightarrow> Inl e | Inr _ \<Rightarrow> Inr v)"

definition app_parts :: "string \<Rightarrow> string list" where
  "app_parts app = split_on (CHR ''.'') app"

definition app_stem :: "string \<Rightarrow> string" where
  "app_stem app = last (app_parts app)"

lemma ident_char_plain:
  "ident_char c \<Longrightarrow> c \<noteq> CHR ''/'' \<and> c \<noteq> CHR ''.'' \<and> c \<noteq> CHR '','' \<and> c \<noteq> CHR '' ''"
  by (auto simp: ident_char_def char_class_defs)

lemma is_identifier_plain:
  "is_identifier v \<Longrightarrow> CHR ''/'' \<notin> set v \<and> CHR ''.'' \<notin> set v \<and> CHR '','' \<notin> set v \<and> CHR '' '' \<notin> set v"
  by (auto simp: is_identifier_def list_all_iff dest!: ident_char_plain)

lemma validate_identifier_Inr [simp]:
  "validate_identifier v = Inr w \<longleftrightarrow> is_identifier v \<and> w = v"
  by (auto simp: validate_identifier_def)

lemma traverse_validate_identifier:
  "(\<exists>ws. traverse validate_identifier vs = Inr ws) \<longleftrightarrow> list_all is_identifier vs"
  by (induction vs) (auto simp: validate_identifier_def split: sum.splits)

lemma app_id_Inr [simp]: "app_id v = Inr w \<longleftrightarrow> is_app_id v \<and> w = v"
  using traverse_validate_identifier [of "split_on (CHR ''.'') v"]
  by (auto simp: app_id_def is_app_id_def split: sum.splits)

lemma case_app_id: "is_app_id app \<Longrightarrow> (case app_id app of Inl e \<Rightarrow> f e | Inr a \<Rightarrow> g a) = g app"
  by (metis app_id_Inr sum.case(2))

lemma app_stem_identifier: "is_app_id app \<Longrightarrow> is_identifier (app_stem app)"
  by (simp add: is_app_id_def app_stem_def app_parts_def list_all_iff)

lemma app_id_no_slash: "is_app_id app \<Longrightarrow> CHR ''/'' \<notin> set app"
proof -
  assume "is_app_id app"
  then have parts: "\<forall>p \<in> set (split_on (CHR ''.'') app). CHR ''/'' \<notin> set p"
    using is_identifier_plain by (auto simp: is_app_id_def list_all_iff)
  have "set app \<subseteq> set ''.'' \<union> (\<Union>p \<in> set (split_on (CHR ''.'') app). set p)"
    using set_join [of "''.''" "split_on (CHR ''.'') app"] by (simp add: join_split_on)
  with parts show ?thesis by auto
qed

section \<open>App options\<close>

datatype option_reason =
    BadLabel
  | BadLiteral string
  | OutOfBounds int "int option"

datatype option_error = OptionError string string option_reason

record app_option =
  opt_name :: string
  opt_desc :: string
  opt_default :: "string \<Rightarrow> string"
  opt_check :: "string \<Rightarrow> option_reason + unit"

definition check_subdomain :: "string \<Rightarrow> option_reason + unit" where
  "check_subdomain v = (case validate_identifier v of Inl _ \<Rightarrow> Inl BadLabel | Inr _ \<Rightarrow> Inr ())"

text \<open>\<open>int(text)\<close> on text whose only non-digits are leading minus signs.\<close>

definition py_int :: "string \<Rightarrow> int option" where
  "py_int v =
     (if str_isdigit v then Some (int (nat_of_str v))
      else if v \<noteq> [] \<and> hd v = CHR ''-'' \<and> str_isdigit (tl v)
      then Some (- int (nat_of_str (tl v))) else None)"

definition int_between :: "int \<Rightarrow> int option \<Rightarrow> string \<Rightarrow> option_reason + unit" where
  "int_between low high v =
     (if str_isdigit (dropWhile (\<lambda>c. c = CHR ''-'') v)
      then (case py_int v of
              None \<Rightarrow> Inl (BadLiteral v)
            | Some n \<Rightarrow>
                (if n < low \<or> (case high of None \<Rightarrow> False | Some h \<Rightarrow> n > h)
                 then Inl (OutOfBounds low high) else Inr ()))
      else Inl (OutOfBounds low high))"

definition START_GROUPS :: "(int, string) dict" where
  "START_GROUPS =
     [(0, ''init''), (2, ''support services''), (4, ''routing & connections''),
      (6, ''applications''), (8, ''lazy applications'')]"

definition start_group_name :: "int \<Rightarrow> string" where
  "start_group_name order =
     (case map_of START_GROUPS order of
        Some name \<Rightarrow> str_of_int order @ '' - '' @ name
      | None \<Rightarrow> str_of_int order)"

definition APP_OPTIONS :: "(string, app_option) dict" where
  "APP_OPTIONS =
     [(''subdomain'',
        \<lparr>opt_name = ''subdomain'',
         opt_desc = ''DNS label this app'' @ [CHR 0x27] @ ''s routes are published under'',
         opt_default = app_stem, opt_check = check_subdomain\<rparr>),
      (''start_order'',
        \<lparr>opt_name = ''start_order'',
         opt_desc = ''Start group, 0 to 9: ''
           @ join '', '' (List.map (\<lambda>(n, name). str_of_int n @ '' '' @ name) START_GROUPS)
           @ ''. Group 0 runs while kelsod does; '' @ [CHR 0x60] @ ''kelso up'' @ [CHR 0x60]
           @ '' starts the rest in order'',
         opt_default = (\<lambda>app. ''6''),
         opt_check = int_between 0 (Some 9)\<rparr>)]"

definition option_validate :: "app_option \<Rightarrow> string \<Rightarrow> option_error + unit" where
  "option_validate opt v =
     (case opt_check opt v of
        Inl reason \<Rightarrow> Inl (OptionError (opt_name opt) v reason) | Inr _ \<Rightarrow> Inr ())"

definition validate_option :: "string \<Rightarrow> string \<Rightarrow> option_error + unit" where
  "validate_option name v =
     (case map_of APP_OPTIONS name of None \<Rightarrow> Inr () | Some opt \<Rightarrow> option_validate opt v)"

lemma start_order_accepted:
  "validate_option ''start_order'' v = Inr () \<Longrightarrow> \<exists>n. py_int v = Some n \<and> 0 \<le> n \<and> n \<le> 9"
  by (auto simp: validate_option_def APP_OPTIONS_def option_validate_def int_between_def
      split: sum.splits option.splits if_splits)

section \<open>GitHub folders\<close>

record github_folder =
  gf_user :: string
  gf_repo :: string
  gf_ref :: string
  gf_path :: "string list"

datatype url_error =
    UnsupportedUrl string
  | MalformedUrl string
  | BadSegmentName name_error
  | EmptyRef string
  | BadRef string string
  | BadPathSegment string
  | UnprintableSegment string
  | UnusableName string

definition GITHUB_SCHEME :: string where "GITHUB_SCHEME = ''github://''"

definition check_segment :: "string \<Rightarrow> url_error + unit" where
  "check_segment segment =
     (if segment = [] \<or> segment = ''.'' \<or> segment = ''..'' then Inl (BadPathSegment segment)
      else if \<exists>c \<in> set segment. (of_char c :: nat) < 32 \<or> c = CHR 0x7F
      then Inl (UnprintableSegment segment) else Inr ())"

definition ref_re :: "string \<Rightarrow> bool" where
  "ref_re v \<longleftrightarrow> v \<noteq> [] \<and> list_all github_char v"

definition parse_github_url :: "string \<Rightarrow> url_error + github_folder" where
  "parse_github_url raw =
     (if \<not> starts_with raw GITHUB_SCHEME then Inl (UnsupportedUrl raw)
      else case split_on (CHR ''/'') (drop (length GITHUB_SCHEME) raw) of
        user # repo # ref # path \<Rightarrow>
          (case validate_github_segment user ''user'' of Inl e \<Rightarrow> Inl (BadSegmentName e) | Inr user' \<Rightarrow>
          (case validate_github_segment repo ''repo'' of Inl e \<Rightarrow> Inl (BadSegmentName e) | Inr repo' \<Rightarrow>
            if ref = [] then Inl (EmptyRef raw)
            else if \<not> ref_re ref \<or> starts_with ref ''-'' \<or> contains ref ''..''
            then Inl (BadRef raw ref)
            else case traverse check_segment path of
              Inl e \<Rightarrow> Inl e
            | Inr _ \<Rightarrow> Inr \<lparr>gf_user = user', gf_repo = repo', gf_ref = ref, gf_path = path\<rparr>))
      | _ \<Rightarrow> Inl (MalformedUrl raw))"

definition gf_url :: "github_folder \<Rightarrow> string" where
  "gf_url g = join ''/'' ((GITHUB_SCHEME @ gf_user g) # gf_repo g # gf_ref g # gf_path g)"

definition gf_clone_url :: "github_folder \<Rightarrow> string" where
  "gf_clone_url g = ''https://github.com/'' @ gf_user g @ ''/'' @ gf_repo g @ ''.git''"

definition gf_repo_path :: "github_folder \<Rightarrow> string" where
  "gf_repo_path g = join ''/'' (gf_path g)"

definition gf_describe :: "github_folder \<Rightarrow> string \<Rightarrow> string" where
  "gf_describe g sha =
     gf_user g @ ''/'' @ gf_repo g @ ''@'' @ take 8 sha
       @ (if gf_path g = [] then [] else '' '' @ gf_repo_path g)"

definition name_from_url :: "string \<Rightarrow> url_error + string" where
  "name_from_url raw =
     (case parse_github_url raw of Inl e \<Rightarrow> Inl e
      | Inr g \<Rightarrow> (case validate_identifier (gf_repo g) of
                   Inl _ \<Rightarrow> Inl (UnusableName (gf_repo g)) | Inr _ \<Rightarrow> Inr (gf_repo g)))"

text \<open>What the parser promises of the folder it returns.\<close>

definition folder_ok :: "github_folder \<Rightarrow> bool" where
  "folder_ok g \<longleftrightarrow>
     validate_github_segment (gf_user g) ''user'' = Inr (gf_user g) \<and>
     validate_github_segment (gf_repo g) ''repo'' = Inr (gf_repo g) \<and>
     ref_re (gf_ref g) \<and> \<not> starts_with (gf_ref g) ''-'' \<and> \<not> contains (gf_ref g) ''..'' \<and>
     (\<forall>s \<in> set (gf_path g). check_segment s = Inr () \<and> CHR ''/'' \<notin> set s)"

lemma github_char_no_slash: "list_all github_char v \<Longrightarrow> CHR ''/'' \<notin> set v"
  by (auto simp: list_all_iff github_char_def char_class_defs)

lemma github_segment_no_slash:
  "validate_github_segment v kind = Inr w \<Longrightarrow> w = v \<and> CHR ''/'' \<notin> set v"
  by (auto simp: validate_github_segment_def github_repo_re_def github_user_re_def
      dest: github_char_no_slash split: if_splits)

lemma traverse_check_segment:
  "(\<exists>us. traverse check_segment path = Inr us) \<longleftrightarrow> (\<forall>s \<in> set path. check_segment s = Inr ())"
  by (induction path) (auto split: sum.splits)

lemma parse_github_url_Inr:
  assumes "parse_github_url raw = Inr g"
  shows "split_on (CHR ''/'') (drop (length GITHUB_SCHEME) raw) =
      gf_user g # gf_repo g # gf_ref g # gf_path g"
    and "raw = GITHUB_SCHEME @ drop (length GITHUB_SCHEME) raw" and "folder_ok g"
proof -
  let ?rest = "drop (length GITHUB_SCHEME) raw"
  from assms have st: "starts_with raw GITHUB_SCHEME"
    by (auto simp: parse_github_url_def split: if_splits)
  from assms obtain user repo ref path where sp: "split_on (CHR ''/'') ?rest = user # repo # ref # path"
    by (auto simp: parse_github_url_def split: if_splits list.splits)
  with assms st have u: "validate_github_segment user ''user'' = Inr (gf_user g)"
    and r: "validate_github_segment repo ''repo'' = Inr (gf_repo g)"
    and ref: "ref_re ref" "\<not> starts_with ref ''-''" "\<not> contains ref ''..''"
    and path: "\<exists>us. traverse check_segment path = Inr us"
    and g: "gf_ref g = ref" "gf_path g = path"
    by (auto simp: parse_github_url_def split: if_splits sum.splits)
  have eqs: "gf_user g = user" "gf_repo g = repo"
    using github_segment_no_slash [OF u] github_segment_no_slash [OF r] by auto
  have "\<forall>s \<in> set path. CHR ''/'' \<notin> set s"
    using split_on_parts [of _ "CHR ''/''" ?rest] by (simp add: sp)
  then show "folder_ok g"
    using u r ref path g eqs by (auto simp: folder_ok_def traverse_check_segment)
  show "split_on (CHR ''/'') ?rest = gf_user g # gf_repo g # gf_ref g # gf_path g"
    by (simp add: sp g eqs)
  show "raw = GITHUB_SCHEME @ ?rest"
    using st by (metis append_take_drop_id starts_with_def)
qed

lemma gf_url_join:
  "gf_url g = GITHUB_SCHEME @ join ''/'' (gf_user g # gf_repo g # gf_ref g # gf_path g)"
  by (simp add: gf_url_def)

lemma parse_gf_url: "folder_ok g \<Longrightarrow> parse_github_url (gf_url g) = Inr g"
proof -
  assume ok: "folder_ok g"
  let ?parts = "gf_user g # gf_repo g # gf_ref g # gf_path g"
  have "\<forall>p \<in> set ?parts. CHR ''/'' \<notin> set p"
    using ok github_segment_no_slash [of "gf_user g"] github_segment_no_slash [of "gf_repo g"]
      github_char_no_slash [of "gf_ref g"]
    by (auto simp: folder_ok_def ref_re_def)
  then have "split_on (CHR ''/'') (join ''/'' ?parts) = ?parts" by (intro split_on_join) auto
  then have "split_on (CHR ''/'') (drop (length GITHUB_SCHEME) (gf_url g)) = ?parts"
    by (simp add: gf_url_join del: join.simps)
  moreover have "\<exists>us. traverse check_segment (gf_path g) = Inr us"
    using ok by (auto simp: folder_ok_def traverse_check_segment)
  ultimately show ?thesis
    using ok by (auto simp: parse_github_url_def folder_ok_def gf_url_join ref_re_def)
qed

section \<open>Properties\<close>

lemma option_default_accepted:
  assumes "is_app_id app" and "map_of APP_OPTIONS name = Some opt"
  shows "validate_option name (opt_default opt app) = Inr ()"
proof -
  have "check_subdomain (app_stem app) = Inr ()"
    using app_stem_identifier [OF assms(1)] by (simp add: check_subdomain_def validate_identifier_def)
  moreover have "int_between 0 (Some 9) ''6'' = Inr ()" by code_simp
  ultimately show ?thesis
    using assms(2)
    by (auto simp: validate_option_def APP_OPTIONS_def option_validate_def split: if_splits)
qed

text \<open>The default of every app option is a value the option itself accepts, for every app id.\<close>

lemma option_defaults_valid:
  assumes "is_app_id app" and "map_of APP_OPTIONS name = Some opt"
  shows "validate_option name (opt_default opt app) = Inr ()"
  by (rule option_default_accepted [OF assms])

lemma option_defaults_valid_witness:
  "validate_option ''subdomain''
     (opt_default \<lparr>opt_name = ''subdomain'',
         opt_desc = ''DNS label this app'' @ [CHR 0x27] @ ''s routes are published under'',
         opt_default = app_stem, opt_check = check_subdomain\<rparr> ''net.klso.immich'') = Inr ()"
  by (rule option_defaults_valid)
    (simp_all add: APP_OPTIONS_def is_app_id_def is_identifier_def IDENTIFIER_MAX_LEN_def
      ident_char_def char_class_defs)

text \<open>The folders \<^verbatim>\<open>parse_github_url\<close> accepts and their urls are in one-to-one
  correspondence: a parsed url prints as the very text it was parsed from, and a folder whose
  parts pass the checks parses back from its url. No accepted segment is empty, \<open>.\<close>, \<open>..\<close> or
  holds a slash, so the folder stays inside the checkout.\<close>

lemma github_url_roundtrip:
  "(parse_github_url raw = Inr g) \<longleftrightarrow> (folder_ok g \<and> raw = gf_url g)"
proof
  assume a: "parse_github_url raw = Inr g"
  have "drop (length GITHUB_SCHEME) raw = join ''/'' (gf_user g # gf_repo g # gf_ref g # gf_path g)"
    using parse_github_url_Inr(1) [OF a] by (metis join_split_on)
  with parse_github_url_Inr(2,3) [OF a] show "folder_ok g \<and> raw = gf_url g"
    by (metis gf_url_join)
next
  assume "folder_ok g \<and> raw = gf_url g"
  then show "parse_github_url raw = Inr g" by (simp add: parse_gf_url)
qed

end
