(* ===== verification/Json.thy ===== *)
theory Json
  imports Prelude
begin

text \<open>
  The JSON values the stores hold and what \<^verbatim>\<open>json.dumps(value, separators=(",", ":"))\<close> and
  \<^verbatim>\<open>json.loads\<close> of the standard library do with them, as \<^verbatim>\<open>kelso/lib/store.py\<close> uses them. A
  string is a list of code points below 256, \<^verbatim>\<open>dumps\<close> escapes everything outside printable
  ASCII (\<^verbatim>\<open>ensure_ascii\<close>), and a text whose value is not of the type below (a float, a code
  point above 255) reads as \<open>None\<close>, as a malformed text does. The parser has fuel twice
  the length of the text: each nesting step takes at most two calls for a character.
\<close>

datatype json =
    JNull
  | JBool bool
  | JInt int
  | JStr string
  | JArr "json list"
  | JObj "(string \<times> json) list"

named_theorems json_text \<open>how dumped values are read again\<close>

section \<open>Writing\<close>

definition hex_digit :: "nat \<Rightarrow> char" where
  "hex_digit d = (if d < 10 then char_of (48 + d) else char_of (87 + d))"

abbreviation BSLASH :: char where "BSLASH \<equiv> CHR 0x5C"
abbreviation QUOTE :: char where "QUOTE \<equiv> CHR 0x22"

definition esc_letter :: "char \<Rightarrow> char option" where
  "esc_letter c =
     (if c = QUOTE then Some QUOTE else if c = BSLASH then Some BSLASH
      else if c = CHR 0x0A then Some CHR ''n'' else if c = CHR 0x0D then Some CHR ''r''
      else if c = CHR 0x09 then Some CHR ''t'' else if c = CHR 0x0C then Some CHR ''f''
      else if c = CHR 0x08 then Some CHR ''b'' else None)"

definition esc_char :: "char \<Rightarrow> string" where
  "esc_char c =
     (case esc_letter c of
        Some e \<Rightarrow> [BSLASH, e]
      | None \<Rightarrow>
          (let n = (of_char c :: nat) in
           if 32 \<le> n \<and> n \<le> 126 then [c]
           else [BSLASH, CHR ''u'', CHR ''0'', CHR ''0'', hex_digit (n div 16), hex_digit (n mod 16)]))"

definition json_string :: "string \<Rightarrow> string" where
  "json_string s = QUOTE # concat (List.map esc_char s) @ [QUOTE]"

fun dumps :: "json \<Rightarrow> string" where
  "dumps JNull = ''null''"
| "dumps (JBool b) = (if b then ''true'' else ''false'')"
| "dumps (JInt i) = str_of_int i"
| "dumps (JStr s) = json_string s"
| "dumps (JArr xs) = CHR ''['' # join '','' (List.map dumps xs) @ '']''"
| "dumps (JObj ms) =
     CHR ''{'' # join '','' (List.map (\<lambda>(k, v). json_string k @ '':'' @ dumps v) ms) @ ''}''"

section \<open>Reading\<close>

definition json_ws :: "char \<Rightarrow> bool" where
  "json_ws c \<longleftrightarrow> c \<in> {CHR 0x20, CHR 0x09, CHR 0x0A, CHR 0x0D}"

definition skip_ws :: "string \<Rightarrow> string" where
  "skip_ws s = dropWhile json_ws s"

definition hex_val :: "char \<Rightarrow> nat option" where
  "hex_val c =
     (let n = (of_char c :: nat) in
      if 48 \<le> n \<and> n \<le> 57 then Some (n - 48)
      else if 97 \<le> n \<and> n \<le> 102 then Some (n - 87)
      else if 65 \<le> n \<and> n \<le> 70 then Some (n - 55) else None)"

definition unesc_letter :: "char \<Rightarrow> char option" where
  "unesc_letter e =
     (if e = QUOTE then Some QUOTE else if e = BSLASH then Some BSLASH
      else if e = CHR 0x2F then Some CHR 0x2F
      else if e = CHR ''n'' then Some CHR 0x0A else if e = CHR ''r'' then Some CHR 0x0D
      else if e = CHR ''t'' then Some CHR 0x09 else if e = CHR ''f'' then Some CHR 0x0C
      else if e = CHR ''b'' then Some CHR 0x08 else None)"

definition unesc_u :: "char \<Rightarrow> char \<Rightarrow> char \<Rightarrow> char \<Rightarrow> char option" where
  "unesc_u a b c d =
     (case (hex_val a, hex_val b, hex_val c, hex_val d) of
        (Some w, Some x, Some y, Some z) \<Rightarrow>
          (if w = 0 \<and> x = 0 then Some (char_of (16 * y + z)) else None)
      | _ \<Rightarrow> None)"

definition push_char :: "char \<Rightarrow> (string \<times> string) option \<Rightarrow> (string \<times> string) option" where
  "push_char c r = (case r of None \<Rightarrow> None | Some (s, rest) \<Rightarrow> Some (c # s, rest))"

fun parse_chars :: "string \<Rightarrow> (string \<times> string) option" where
  "parse_chars [] = None"
| "parse_chars (c # r) =
     (if c = QUOTE then Some ([], r)
      else if c = BSLASH then
        (case r of
           [] \<Rightarrow> None
         | e # r' \<Rightarrow>
             (if e = CHR ''u'' then
                (case r' of
                   w # x # y # z # r'' \<Rightarrow>
                     (case unesc_u w x y z of None \<Rightarrow> None | Some d \<Rightarrow> push_char d (parse_chars r''))
                 | _ \<Rightarrow> None)
              else (case unesc_letter e of None \<Rightarrow> None | Some d \<Rightarrow> push_char d (parse_chars r'))))
      else if (of_char c :: nat) < 32 then None
      else push_char c (parse_chars r))"

definition parse_number :: "string \<Rightarrow> (json \<times> string) option" where
  "parse_number s =
     (let neg = starts_with s ''-'';
          t = (if neg then drop 1 s else s);
          ds = takeWhile is_digit t;
          rest = dropWhile is_digit t
      in if ds = [] \<or> (1 < length ds \<and> hd ds = CHR ''0'')
            \<or> (case rest of [] \<Rightarrow> False | c # _ \<Rightarrow> c \<in> set ''.eE'')
         then None
         else Some (JInt (if neg then - int (nat_of_str ds) else int (nat_of_str ds)), rest))"

definition dict_of_pairs :: "(string \<times> json) list \<Rightarrow> (string \<times> json) list" where
  "dict_of_pairs ps = foldl (\<lambda>d (k, v). AList.update k v d) [] ps"

fun parse_json :: "nat \<Rightarrow> string \<Rightarrow> (json \<times> string) option"
and parse_elems :: "nat \<Rightarrow> string \<Rightarrow> (json list \<times> string) option"
and parse_members :: "nat \<Rightarrow> string \<Rightarrow> ((string \<times> json) list \<times> string) option" where
  "parse_json 0 s = None"
| "parse_json (Suc n) s =
     (case skip_ws s of
        [] \<Rightarrow> None
      | c # r \<Rightarrow>
          (if c = QUOTE then
             (case parse_chars r of None \<Rightarrow> None | Some (x, q) \<Rightarrow> Some (JStr x, q))
           else if c = CHR ''['' then
             (case skip_ws r of
                [] \<Rightarrow> None
              | d # q \<Rightarrow>
                  (if d = CHR '']'' then Some (JArr [], q)
                   else case parse_elems n (d # q) of
                     None \<Rightarrow> None | Some (xs, p) \<Rightarrow> Some (JArr xs, p)))
           else if c = CHR ''{'' then
             (case skip_ws r of
                [] \<Rightarrow> None
              | d # q \<Rightarrow>
                  (if d = CHR ''}'' then Some (JObj [], q)
                   else case parse_members n (d # q) of
                     None \<Rightarrow> None | Some (ms, p) \<Rightarrow> Some (JObj (dict_of_pairs ms), p)))
           else if starts_with (c # r) ''null'' then Some (JNull, drop 4 (c # r))
           else if starts_with (c # r) ''true'' then Some (JBool True, drop 4 (c # r))
           else if starts_with (c # r) ''false'' then Some (JBool False, drop 5 (c # r))
           else parse_number (c # r)))"
| "parse_elems 0 s = None"
| "parse_elems (Suc n) s =
     (case parse_json n s of
        None \<Rightarrow> None
      | Some (x, r) \<Rightarrow>
          (case skip_ws r of
             [] \<Rightarrow> None
           | c # q \<Rightarrow>
               (if c = CHR '']'' then Some ([x], q)
                else if c = CHR '','' then
                  (case parse_elems n q of None \<Rightarrow> None | Some (xs, p) \<Rightarrow> Some (x # xs, p))
                else None)))"
| "parse_members 0 s = None"
| "parse_members (Suc n) s =
     (case skip_ws s of
        [] \<Rightarrow> None
      | c # r \<Rightarrow>
          (if c \<noteq> QUOTE then None
           else case parse_chars r of
             None \<Rightarrow> None
           | Some (k, r1) \<Rightarrow>
               (case skip_ws r1 of
                  [] \<Rightarrow> None
                | c1 # r2 \<Rightarrow>
                    (if c1 \<noteq> CHR '':'' then None
                     else case parse_json n r2 of
                       None \<Rightarrow> None
                     | Some (v, r3) \<Rightarrow>
                         (case skip_ws r3 of
                            [] \<Rightarrow> None
                          | c2 # q \<Rightarrow>
                              (if c2 = CHR ''}'' then Some ([(k, v)], q)
                               else if c2 = CHR '','' then
                                 (case parse_members n q of
                                    None \<Rightarrow> None | Some (ms, p) \<Rightarrow> Some ((k, v) # ms, p))
                               else None))))))"

definition loads :: "string \<Rightarrow> json option" where
  "loads s =
     (case parse_json (2 * length s) s of
        Some (v, r) \<Rightarrow> if skip_ws r = [] then Some v else None
      | None \<Rightarrow> None)"

section \<open>Strings and numbers read back\<close>

lemma hex_val_digit: "d < 16 \<Longrightarrow> hex_val (hex_digit d) = Some d"
  unfolding hex_val_def hex_digit_def by (auto simp: of_char_of Let_def)

lemma unesc_esc_letter: "esc_letter c = Some e \<Longrightarrow> unesc_letter e = Some c \<and> e \<noteq> CHR ''u''"
  unfolding esc_letter_def unesc_letter_def by (auto split: if_splits)

lemma esc_letter_plain:
  "esc_letter c = None \<Longrightarrow> c \<noteq> QUOTE \<and> c \<noteq> BSLASH"
  unfolding esc_letter_def by (auto split: if_splits)

lemma unesc_u_hex:
  "unesc_u CHR ''0'' CHR ''0'' (hex_digit (of_char c div 16)) (hex_digit (of_char c mod 16)) = Some c"
proof -
  have "(of_char c :: nat) < 256" by (rule nat_of_char_less_256)
  then have d: "(of_char c :: nat) div 16 < 16" by linarith
  have d2: "(of_char c :: nat) mod 16 < 16" by simp
  have z: "hex_val CHR ''0'' = Some 0" by (simp add: hex_val_def)
  have "16 * (of_char c div 16) + of_char c mod 16 = (of_char c :: nat)" by simp
  then have "char_of (16 * (of_char c div 16) + of_char c mod 16 :: nat) = c"
    by (metis char_of_char)
  then show ?thesis
    unfolding unesc_u_def z hex_val_digit [OF d] hex_val_digit [OF d2]
    by simp
qed

lemma parse_esc_char: "parse_chars (esc_char c @ r) = push_char c (parse_chars r)"
proof (cases "esc_letter c")
  case (Some e)
  with unesc_esc_letter [OF Some] show ?thesis by (simp add: esc_char_def)
next
  case None
  with esc_letter_plain [OF None] show ?thesis
    by (auto simp: esc_char_def Let_def unesc_u_hex)
qed

lemma parse_chars_body: "parse_chars (concat (List.map esc_char s) @ QUOTE # r) = Some (s, r)"
  by (induction s) (simp_all add: parse_esc_char push_char_def)

lemma esc_char_printable: "c' \<in> set (esc_char c) \<Longrightarrow> 32 \<le> (of_char c' :: nat) \<and> (of_char c' :: nat) \<le> 126"
proof (cases "esc_letter c")
  case (Some e)
  assume "c' \<in> set (esc_char c)"
  with Some have "c' = BSLASH \<or> c' = e" by (simp add: esc_char_def)
  moreover from Some have "e \<in> set (QUOTE # BSLASH # ''nrtfb'')"
    by (auto simp: esc_letter_def split: if_splits)
  ultimately show ?thesis by auto
next
  case None
  assume "c' \<in> set (esc_char c)"
  moreover have hex: "d < 16 \<Longrightarrow> 48 \<le> (of_char (hex_digit d) :: nat) \<and> (of_char (hex_digit d) :: nat) \<le> 102" for d
    by (auto simp: hex_digit_def of_char_of)
  have d1: "(of_char c :: nat) div 16 < 16" using nat_of_char_less_256 [of c] by linarith
  have d2: "(of_char c :: nat) mod 16 < 16" by simp
  note hex [OF d1] hex [OF d2]
  ultimately show ?thesis using None by (auto simp: esc_char_def Let_def split: if_splits)
qed

lemma takeWhile_digits:
  assumes "list_all is_digit ds" and "rest = [] \<or> \<not> is_digit (hd rest)"
  shows "takeWhile is_digit (ds @ rest) = ds" and "dropWhile is_digit (ds @ rest) = rest"
proof -
  from assms(1) have d: "\<And>x. x \<in> set ds \<Longrightarrow> is_digit x" by (simp add: list_all_iff)
  have "takeWhile is_digit rest = []" "dropWhile is_digit rest = rest"
    using assms(2) by (cases rest; simp)+
  then show "takeWhile is_digit (ds @ rest) = ds" and "dropWhile is_digit (ds @ rest) = rest"
    using takeWhile_append2 [of ds is_digit rest] dropWhile_append2 [of ds is_digit rest] d by simp_all
qed

lemma str_of_nat_zero: "\<exists>r. str_of_nat n = CHR ''0'' # r \<Longrightarrow> n = 0"
proof (induction n rule: str_of_nat.induct)
  case (1 n)
  show ?case
  proof (cases "n < 10")
    case True
    have "n = 0" if "digit_char n = CHR ''0''"
    proof -
      from that have "digit_val (digit_char n) = digit_val CHR ''0''" by simp
      moreover have "digit_val CHR ''0'' = 0" by (simp add: digit_val_def)
      ultimately show ?thesis by (simp add: digit_val_char [OF True])
    qed
    with 1 True show ?thesis by (auto simp: str_of_nat.simps [of n])
  next
    case False
    have "str_of_nat (n div 10) \<noteq> []"
      using str_of_nat_isdigit [of "n div 10"] by (simp add: str_isdigit_def)
    with 1(2) False have "\<exists>r. str_of_nat (n div 10) = CHR ''0'' # r"
      by (auto simp: str_of_nat.simps [of n] append_eq_Cons_conv)
    from 1(1) [OF False this] False show ?thesis by simp
  qed
qed

section \<open>The round trip\<close>

fun json_ok :: "json \<Rightarrow> bool" where
  "json_ok (JArr xs) = list_all json_ok xs"
| "json_ok (JObj ms) = (distinct (keys ms) \<and> list_all (\<lambda>(k, v). json_ok v) ms)"
| "json_ok _ = True"

definition json_stop :: "string \<Rightarrow> bool" where
  "json_stop rest \<longleftrightarrow> (case rest of [] \<Rightarrow> True | c # _ \<Rightarrow> c \<in> set '',]}'')"

lemma json_stop_Cons [simp]: "json_stop (c # r) = (c \<in> set '',]}'')"
  by (simp add: json_stop_def)

lemma json_stop_Nil [simp]: "json_stop []"
  by (simp add: json_stop_def)

lemma json_stop_hd:
  assumes "json_stop rest"
  shows "rest = [] \<or> \<not> is_digit (hd rest)" and "case rest of [] \<Rightarrow> True | c # _ \<Rightarrow> c \<notin> set ''.eE''"
  using assms by (cases rest; auto simp: is_digit_def)+

lemma str_of_nat_head: "\<exists>c r. str_of_nat n = c # r \<and> is_digit c"
  using str_of_nat_isdigit [of n] by (cases "str_of_nat n") (auto simp: str_isdigit_def)

lemma parse_number_int:
  assumes "json_stop rest"
  shows "parse_number (str_of_int i @ rest) = Some (JInt i, rest)"
proof -
  define m where "m = nat (if i < 0 then - i else i)"
  have dig: "list_all is_digit (str_of_nat m)" and ne: "str_of_nat m \<noteq> []"
    using str_of_nat_isdigit [of m] by (auto simp: str_isdigit_def)
  note tw = takeWhile_digits [OF dig json_stop_hd(1) [OF assms]]
  have z: "\<not> (1 < length (str_of_nat m) \<and> hd (str_of_nat m) = CHR ''0'')"
  proof
    assume a: "1 < length (str_of_nat m) \<and> hd (str_of_nat m) = CHR ''0''"
    then have "\<exists>r. str_of_nat m = CHR ''0'' # r" by (cases "str_of_nat m") auto
    then have "m = 0" by (rule str_of_nat_zero)
    with a show False by (simp add: str_of_nat.simps)
  qed
  have stop: "\<not> (case rest of [] \<Rightarrow> False | c # _ \<Rightarrow> c \<in> set ''.eE'')"
    using json_stop_hd(2) [OF assms] by (auto split: list.splits)
  show ?thesis
  proof (cases "i < 0")
    case True
    then have s: "str_of_int i = CHR ''-'' # str_of_nat m" by (simp add: str_of_int_def m_def)
    have neg: "starts_with (CHR ''-'' # str_of_nat m @ rest) ''-''" by (simp add: starts_with_def)
    have "- int m = i" using True by (simp add: m_def)
    with neg z stop ne show ?thesis
      unfolding parse_number_def s by (simp add: tw Let_def del: set_simps)
  next
    case False
    then have s: "str_of_int i = str_of_nat m" by (simp add: str_of_int_def m_def)
    obtain c r where c: "str_of_nat m = c # r" "is_digit c" using str_of_nat_head by blast
    then have neg: "\<not> starts_with (str_of_nat m @ rest) ''-''"
      by (auto simp: starts_with_def is_digit_def)
    have "int m = i" using False by (simp add: m_def)
    with neg z stop ne show ?thesis
      unfolding parse_number_def s by (simp add: tw Let_def del: set_simps)
  qed
qed

lemma skip_ws_Cons [json_text]: "\<not> json_ws c \<Longrightarrow> skip_ws (c # r) = c # r"
  by (simp add: skip_ws_def)

lemma json_string_append: "json_string s @ r = QUOTE # concat (List.map esc_char s) @ QUOTE # r"
  by (simp add: json_string_def)

lemma dumps_nonempty: "0 < length (dumps v)"
proof (cases v)
  case (JInt i)
  obtain c r where "str_of_nat (nat i) = c # r" using str_of_nat_head by blast
  with JInt show ?thesis by (simp add: str_of_int_def)
qed (simp_all add: json_string_def)

lemma parse_json_string: "parse_json (Suc n) (json_string s @ rest) = Some (JStr s, rest)"
  by (simp add: json_string_append skip_ws_Cons json_ws_def parse_chars_body)

lemma parse_json_int:
  assumes "json_stop rest"
  shows "parse_json (Suc n) (str_of_int i @ rest) = Some (JInt i, rest)"
proof -
  obtain c r where c: "str_of_int i = c # r" "is_digit c \<or> c = CHR ''-''"
    using str_of_nat_head [of "nat i"] by (cases "i < 0") (auto simp: str_of_int_def)
  then have "\<not> json_ws c" "c \<noteq> QUOTE" "c \<noteq> CHR ''[''" "c \<noteq> CHR ''{''"
      "c \<noteq> CHR ''n''" "c \<noteq> CHR ''t''" "c \<noteq> CHR ''f''"
    by (auto simp: json_ws_def is_digit_def)
  moreover have "parse_number (c # r @ rest) = Some (JInt i, rest)"
    using parse_number_int [OF assms, of i] c by simp
  ultimately show ?thesis
    using c(1) by (simp add: skip_ws_Cons starts_with_def)
qed

lemma dumps_head: "\<exists>c r. dumps v = c # r \<and> \<not> json_ws c \<and> c \<noteq> CHR '']''"
proof (cases v)
  case (JInt i)
  obtain c r where "str_of_int i = c # r" "is_digit c \<or> c = CHR ''-''"
    using str_of_nat_head [of "nat i"] by (cases "i < 0") (auto simp: str_of_int_def)
  with JInt show ?thesis by (auto simp: json_ws_def is_digit_def)
qed (auto simp: json_string_def json_ws_def)

lemma parse_elems_dumps:
  assumes "\<And>x n rest. x \<in> set xs \<Longrightarrow> 2 * length (dumps x) \<le> n \<Longrightarrow> json_stop rest \<Longrightarrow>
      parse_json n (dumps x @ rest) = Some (x, rest)"
    and "xs \<noteq> []" and "2 * length (join '','' (List.map dumps xs)) + 2 \<le> n"
  shows "parse_elems n (join '','' (List.map dumps xs) @ CHR '']'' # rest) = Some (xs, rest)"
  using assms
proof (induction xs arbitrary: n rule: induct_list012)
  case (2 x)
  then obtain m where n: "n = Suc m" "2 * length (dumps x) \<le> m" by (cases n) auto
  show ?case
    using 2(1) [of x m "CHR '']'' # rest"] n by (simp add: skip_ws_Cons json_ws_def)
next
  case (3 x y zs)
  let ?t = "join '','' (List.map dumps (y # zs)) @ CHR '']'' # rest"
  from 3(5) obtain m where n: "n = Suc m" "2 * length (dumps x) \<le> m"
      "2 * length (join '','' (List.map dumps (y # zs))) + 2 \<le> m"
    by (cases n) auto
  have "parse_json m (dumps x @ CHR '','' # ?t) = Some (x, CHR '','' # ?t)"
    using 3(3) [of x m "CHR '','' # ?t"] n(2) by simp
  moreover have "parse_elems m ?t = Some (y # zs, rest)"
    using 3(2) [OF 3(3) _ n(3)] by simp
  ultimately show ?case
    using n(1) by (simp add: skip_ws_Cons json_ws_def)
qed simp

abbreviation dump_member :: "string \<times> json \<Rightarrow> string" where
  "dump_member \<equiv> (\<lambda>(k, v). json_string k @ '':'' @ dumps v)"

lemma parse_members_dumps:
  assumes "\<And>v n rest. v \<in> snd ` set ms \<Longrightarrow> 2 * length (dumps v) \<le> n \<Longrightarrow> json_stop rest \<Longrightarrow>
      parse_json n (dumps v @ rest) = Some (v, rest)"
    and "ms \<noteq> []" and "2 * length (join '','' (List.map dump_member ms)) + 2 \<le> n"
  shows "parse_members n (join '','' (List.map dump_member ms) @ CHR ''}'' # rest) = Some (ms, rest)"
  using assms
proof (induction ms arbitrary: n rule: induct_list012)
  case (2 kv)
  obtain k v where kv: "kv = (k, v)" by (cases kv)
  from 2(3) kv obtain m where n: "n = Suc m" "2 * length (dumps v) \<le> m" by (cases n) auto
  show ?case
    using 2(1) [of v m "CHR ''}'' # rest"] n kv
    by (simp add: json_string_append skip_ws_Cons json_ws_def parse_chars_body)
next
  case (3 kv y zs)
  obtain k v where kv: "kv = (k, v)" by (cases kv)
  let ?t = "join '','' (List.map dump_member (y # zs)) @ CHR ''}'' # rest"
  from 3(5) kv obtain m where n: "n = Suc m" "2 * length (dumps v) \<le> m"
      "2 * length (join '','' (List.map dump_member (y # zs))) + 2 \<le> m"
    by (cases n) auto
  have "parse_json m (dumps v @ CHR '','' # ?t) = Some (v, CHR '','' # ?t)"
    by (rule 3(3)) (use n(2) kv in simp_all)
  moreover have "parse_members m ?t = Some (y # zs, rest)"
    by (rule 3(2) [OF 3(3) _ n(3)]) simp_all
  ultimately show ?case
    using n(1) kv by (simp add: json_string_append skip_ws_Cons json_ws_def parse_chars_body)
qed simp

lemma dict_of_pairs_distinct: "distinct (keys ms) \<Longrightarrow> dict_of_pairs ms = ms"
proof (induction ms rule: rev_induct)
  case (snoc m ms)
  obtain k v where m: "m = (k, v)" by (cases m)
  have "AList.update k v d = d @ [(k, v)]" if "k \<notin> set (keys d)" for d :: "(string \<times> json) list"
    using that by (induction d) auto
  with snoc m show ?case by (simp add: dict_of_pairs_def)
qed (simp add: dict_of_pairs_def)

lemma parse_json_dumps:
  "json_ok v \<Longrightarrow> 2 * length (dumps v) \<le> n \<Longrightarrow> json_stop rest \<Longrightarrow>
    parse_json n (dumps v @ rest) = Some (v, rest)"
proof (induction v arbitrary: n rest)
  case JNull
  then show ?case by (cases n) (auto simp: skip_ws_Cons json_ws_def starts_with_def)
next
  case (JBool b)
  then show ?case
    by (cases n; cases b) (simp_all add: skip_ws_Cons json_ws_def starts_with_def)
next
  case (JInt i)
  then obtain m where "n = Suc m" using dumps_nonempty [of "JInt i"] by (cases n) auto
  with JInt show ?case by (simp add: parse_json_int del: parse_json.simps)
next
  case (JStr s)
  then obtain m where "n = Suc m" by (cases n) (auto simp: json_string_def)
  then show ?case by (simp add: parse_json_string del: parse_json.simps)
next
  case (JArr xs)
  then obtain m where n: "n = Suc m" "2 * length (join '','' (List.map dumps xs)) + 2 \<le> m"
    by (cases n) auto
  show ?case
  proof (cases "xs = []")
    case True
    with n show ?thesis by (simp add: skip_ws_Cons json_ws_def)
  next
    case False
    then obtain x ys where xs: "xs = x # ys" by (cases xs) auto
    obtain c r where c: "dumps x = c # r" "\<not> json_ws c" "c \<noteq> CHR '']''" using dumps_head by blast
    have j: "join '','' (List.map dumps xs) @ CHR '']'' # rest =
        c # r @ drop (length (dumps x)) (join '','' (List.map dumps xs)) @ CHR '']'' # rest"
      by (cases ys) (simp_all add: xs c(1))
    have "parse_elems m (join '','' (List.map dumps xs) @ CHR '']'' # rest) = Some (xs, rest)"
    proof (rule parse_elems_dumps [OF _ False n(2)])
      fix x n' and rest' :: string
      assume "x \<in> set xs" "2 * length (dumps x) \<le> n'" "json_stop rest'"
      with JArr(1,2) show "parse_json n' (dumps x @ rest') = Some (x, rest')"
        by (simp add: list_all_iff)
    qed
    with c(2,3) n(1) show ?thesis
      by (simp add: j skip_ws_Cons json_ws_def)
  qed
next
  case (JObj ms)
  then obtain m where n: "n = Suc m" "2 * length (join '','' (List.map dump_member ms)) + 2 \<le> m"
    by (cases n) auto
  show ?case
  proof (cases "ms = []")
    case True
    with n show ?thesis by (simp add: skip_ws_Cons json_ws_def dict_of_pairs_def)
  next
    case False
    then obtain k v ys where ms: "ms = (k, v) # ys" by (cases ms) auto
    define t where "t = join '','' (List.map dump_member ms) @ CHR ''}'' # rest"
    obtain r where j: "t = QUOTE # r"
      by (cases ys) (simp_all add: t_def ms json_string_append)
    have "parse_members m t = Some (ms, rest)"
      unfolding t_def
    proof (rule parse_members_dumps [OF _ False n(2)])
      fix v n' and rest' :: string
      assume "v \<in> snd ` set ms" and h: "2 * length (dumps v) \<le> n'" "json_stop rest'"
      then obtain k where kv: "(k, v) \<in> set ms" by auto
      from kv JObj(2) have ok: "json_ok v" by (auto simp: list_all_iff)
      show "parse_json n' (dumps v @ rest') = Some (v, rest')"
        by (rule JObj(1) [OF kv _ ok h]) simp
    qed
    moreover have "dumps (JObj ms) @ rest = CHR ''{'' # t" by (simp add: t_def)
    ultimately show ?thesis
      using JObj(2) n(1) by (simp add: j skip_ws_Cons json_ws_def dict_of_pairs_distinct del: dumps.simps)
  qed
qed

lemma loads_dumps [simp]: "json_ok v \<Longrightarrow> loads (dumps v) = Some v"
  using parse_json_dumps [of v "2 * length (dumps v)" "[]"]
  by (simp add: loads_def skip_ws_def)

definition printable :: "string \<Rightarrow> bool" where
  "printable s \<longleftrightarrow> list_all (\<lambda>c. 32 \<le> (of_char c :: nat) \<and> (of_char c :: nat) \<le> 126) s"

lemma printable_append [simp]: "printable (s @ t) \<longleftrightarrow> printable s \<and> printable t"
  by (simp add: printable_def)

lemma printable_Cons [simp]:
  "printable (c # s) \<longleftrightarrow> 32 \<le> (of_char c :: nat) \<and> (of_char c :: nat) \<le> 126 \<and> printable s"
  by (simp add: printable_def)

lemma printable_Nil [simp]: "printable []"
  by (simp add: printable_def)

lemma printable_json_string: "printable (json_string s)"
proof -
  have "printable (concat (List.map esc_char s))"
    by (auto simp: printable_def list_all_iff dest: esc_char_printable)
  then show ?thesis by (simp add: json_string_def)
qed

lemma printable_str_of_int: "printable (str_of_int i)"
proof -
  have "printable (str_of_nat n)" for n
    using str_of_nat_isdigit [of n]
    by (auto simp: printable_def str_isdigit_def is_digit_def list_all_iff)
  then show ?thesis by (simp add: str_of_int_def)
qed

lemma printable_join: "printable sep \<Longrightarrow> \<forall>x \<in> set xs. printable x \<Longrightarrow> printable (join sep xs)"
  by (induction sep xs rule: join.induct) auto

lemma printable_dumps: "printable (dumps v)"
proof (induction v)
  case (JArr xs)
  then show ?case by (simp add: printable_join)
next
  case (JObj ms)
  then have "\<forall>x \<in> set (List.map dump_member ms). printable x"
    by (auto simp: printable_json_string)
  from printable_join [OF _ this, of "'',''"] show ?case by simp
qed (simp_all add: printable_json_string printable_str_of_int)

lemma printable_plain: "printable s \<Longrightarrow> CHR 0x0A \<notin> set s \<and> CHR 0x0D \<notin> set s \<and> CHR 0x09 \<notin> set s"
  by (auto simp: printable_def list_all_iff)


text \<open>What \<^verbatim>\<open>loads\<close> returns is a value Python can hold: an object's keys are distinct.\<close>

lemma dict_of_pairs_ok:
  assumes "list_all (\<lambda>(k, v). json_ok v) ps"
  shows "json_ok (JObj (dict_of_pairs ps))"
  using assms
proof (induction ps rule: rev_induct)
  case (snoc m ms)
  obtain k v where m: "m = (k, v)" by (cases m)
  have "list_all (\<lambda>(k, v). json_ok v) (AList.update k v d)"
    if "list_all (\<lambda>(k, v). json_ok v) d" "json_ok v" for d
    using that by (induction d) auto
  with snoc m show ?case
    by (simp add: dict_of_pairs_def distinct_update)
qed (simp add: dict_of_pairs_def)

lemma json_ok_empty: "json_ok (JObj [])"
  by simp

lemma parse_number_ok: "parse_number s = Some (v, r) \<Longrightarrow> json_ok v"
  by (auto simp: parse_number_def Let_def split: if_splits)

lemma parse_json_ok:
  "\<And>v r. parse_json n s = Some (v, r) \<Longrightarrow> json_ok v"
  "\<And>vs r. parse_elems n s = Some (vs, r) \<Longrightarrow> list_all json_ok vs"
  "\<And>ms r. parse_members n s = Some (ms, r) \<Longrightarrow> list_all (\<lambda>(k, v). json_ok v) ms"
proof (induction n arbitrary: s)
  case (Suc n)
  {
    case 1
    then show ?case
      by (auto simp del: json_ok.simps(2) split: list.splits if_splits option.splits
          dest: parse_number_ok Suc(2,3) intro: dict_of_pairs_ok json_ok_empty)
  next
    case 2
    then show ?case
      by (auto split: list.splits if_splits option.splits) (rule Suc.IH, assumption)+
  next
    case 3
    then show ?case
      by (auto split: list.splits if_splits option.splits) (rule Suc.IH, assumption)+
  }
qed simp_all

lemma loads_ok: "loads s = Some v \<Longrightarrow> json_ok v"
  by (auto simp: loads_def split: option.splits if_splits dest: parse_json_ok)

end
