(* ===== verification/Store.thy ===== *)
theory Store
  imports Json Logtab Identifiers
begin

text \<open>
  \<^verbatim>\<open>kelso/lib/store.py\<close> and the engines of \<^verbatim>\<open>kelso/lib/crypto.py\<close>: the protocol \<^verbatim>\<open>ConfigStore\<close> as a
  record of operations, its implementation on a logtab, and the two clients \<^verbatim>\<open>KelsoStore\<close>
  (kelso-wide state) and \<^verbatim>\<open>AppStore\<close> (one app's state). The locale \<open>config_store\<close> states what a
  store promises; the clients' lemmas are proved from it and rest, through its
  interpretation, on the text-level table of \<^theory_text>\<open>Logtab\<close>. Encryption is a parameter: an engine
  draws a nonce for each encryption, counted by the caller's state.
\<close>

section \<open>The protocol and the store on a logtab\<close>

datatype store_error =
    LogFailed log_error
  | NotJson string
  | ClearNeedsSlash string
  | WrongType
  | MissingField string
  | InvalidToken
  | CryptoRefused string
  | BadInt string
  | NoFreePorts int

record 's store_ops =
  st_write :: "'s \<Rightarrow> string \<Rightarrow> json \<Rightarrow> store_error + 's"
  st_read :: "'s \<Rightarrow> string \<Rightarrow> store_error + json"
  st_scan :: "'s \<Rightarrow> string \<Rightarrow> string \<Rightarrow> store_error + (string, json) dict"
  st_clear :: "'s \<Rightarrow> string \<Rightarrow> store_error + 's"
  st_delete :: "'s \<Rightarrow> string \<Rightarrow> store_error + 's"

text \<open>
  The state of a \<^verbatim>\<open>JsonLogtabStore\<close> is its table and how often the clock was read; \<open>now n\<close> is
  the clock's reading number \<open>n\<close>. Each table operation reads it twice at most (the record and
  a compaction's comment); the model gives both the same reading, which no operation compares.
\<close>

record json_store =
  js_table :: logtab
  js_ticks :: nat

definition STORE_MAX_BYTES :: nat where "STORE_MAX_BYTES = 1 * 1024 * 1024"

definition lift_log :: "log_error + 'a \<Rightarrow> store_error + 'a" where
  "lift_log r = (case r of Inl e \<Rightarrow> Inl (LogFailed e) | Inr x \<Rightarrow> Inr x)"

definition js_step ::
    "(string \<Rightarrow> logtab \<Rightarrow> log_error + logtab) \<Rightarrow> (nat \<Rightarrow> string) \<Rightarrow> json_store
       \<Rightarrow> store_error + json_store" where
  "js_step f now s =
     andthen (lift_log (f (now (js_ticks s)) (js_table s)))
       (\<lambda>t. Inr \<lparr>js_table = t, js_ticks = Suc (js_ticks s)\<rparr>)"

definition json_loads :: "string \<Rightarrow> store_error + json" where
  "json_loads s = (case loads s of None \<Rightarrow> Inl (NotJson s) | Some v \<Rightarrow> Inr v)"

definition js_init :: "string option \<Rightarrow> string \<Rightarrow> (nat \<Rightarrow> string) \<Rightarrow> json_store" where
  "js_init file name now =
     \<lparr>js_table = logtab_init file name [] (now 0) False STORE_MAX_BYTES 0, js_ticks = 1\<rparr>"

definition js_write ::
    "(string \<Rightarrow> int option) \<Rightarrow> (nat \<Rightarrow> string) \<Rightarrow> json_store \<Rightarrow> string \<Rightarrow> json
       \<Rightarrow> store_error + json_store" where
  "js_write fromiso now s key v = js_step (\<lambda>at. write_key fromiso at key (dumps v)) now s"

definition js_read ::
    "(string \<Rightarrow> int option) \<Rightarrow> json_store \<Rightarrow> string \<Rightarrow> store_error + json" where
  "js_read fromiso s key =
     andthen (lift_log (read_key fromiso (js_table s) key))
       (\<lambda>e. case e of None \<Rightarrow> Inr JNull | Some entry \<Rightarrow> json_loads (le_value entry))"

definition js_scan ::
    "(string \<Rightarrow> int option) \<Rightarrow> json_store \<Rightarrow> string \<Rightarrow> string
       \<Rightarrow> store_error + (string, json) dict" where
  "js_scan fromiso s pre suf =
     andthen (lift_log (scan_keys fromiso (js_table s) pre suf))
       (traverse (\<lambda>(k, e). andthen (json_loads (le_value e)) (\<lambda>v. Inr (remove_prefix k pre, v))))"

definition js_clear ::
    "(string \<Rightarrow> int option) \<Rightarrow> (nat \<Rightarrow> string) \<Rightarrow> json_store \<Rightarrow> string
       \<Rightarrow> store_error + json_store" where
  "js_clear fromiso now s pre =
     (if ends_with pre ''/'' then js_step (\<lambda>at. clear_prefix fromiso at pre []) now s
      else Inl (ClearNeedsSlash pre))"

definition js_delete ::
    "(string \<Rightarrow> int option) \<Rightarrow> (nat \<Rightarrow> string) \<Rightarrow> json_store \<Rightarrow> string
       \<Rightarrow> store_error + json_store" where
  "js_delete fromiso now s key = js_step (\<lambda>at. delete_key fromiso at key []) now s"

definition json_logtab_store ::
    "(string \<Rightarrow> int option) \<Rightarrow> (nat \<Rightarrow> string) \<Rightarrow> json_store store_ops" where
  "json_logtab_store fromiso now =
     \<lparr>st_write = js_write fromiso now, st_read = js_read fromiso, st_scan = js_scan fromiso,
      st_clear = js_clear fromiso now, st_delete = js_delete fromiso now\<rparr>"

section \<open>What a store promises\<close>

definition storable :: "json \<Rightarrow> bool" where
  "storable v \<longleftrightarrow> json_ok v \<and> length (dumps v) \<le> MAX_VAL_LENGTH"

definition key_ok :: "string \<Rightarrow> bool" where
  "key_ok k \<longleftrightarrow> validate_key k = Inr ()"

locale config_store =
  fixes ops :: "'s store_ops"
    and inv :: "'s \<Rightarrow> bool"
    and obs :: "'s \<Rightarrow> string \<Rightarrow> json option"
  assumes obs_ok: "inv s \<Longrightarrow> obs s k = Some v \<Longrightarrow> key_ok k \<and> json_ok v"
    and write_law: "inv s \<Longrightarrow> key_ok k \<Longrightarrow> storable v \<Longrightarrow>
      \<exists>s'. st_write ops s k v = Inr s' \<and> inv s' \<and> obs s' = (obs s)(k \<mapsto> v)"
    and read_law: "inv s \<Longrightarrow> st_read ops s k = Inr (case obs s k of None \<Rightarrow> JNull | Some v \<Rightarrow> v)"
    and scan_law: "inv s \<Longrightarrow> pre = [] \<or> key_ok pre \<Longrightarrow>
      \<exists>d. st_scan ops s pre [] = Inr d \<and> distinct (keys d) \<and> (\<forall>k. map_of d k = obs s (pre @ k))"
    and clear_law: "inv s \<Longrightarrow> key_ok pre \<Longrightarrow> ends_with pre ''/'' \<Longrightarrow>
      \<exists>s'. st_clear ops s pre = Inr s' \<and> inv s' \<and>
        obs s' = (\<lambda>k. if starts_with k pre then None else obs s k)"
    and delete_law: "inv s \<Longrightarrow> key_ok k \<Longrightarrow>
      \<exists>s'. st_delete ops s k = Inr s' \<and> inv s' \<and> obs s' = (obs s)(k := None)"
    and write_checked: "st_write ops s k v = Inr s' \<Longrightarrow> key_ok k \<and> length (dumps v) \<le> MAX_VAL_LENGTH"
    and clear_checked: "st_clear ops s pre = Inr s' \<Longrightarrow> key_ok pre"

section \<open>The logtab store keeps the promise\<close>

definition js_inv :: "(string \<Rightarrow> int option) \<Rightarrow> (nat \<Rightarrow> string) \<Rightarrow> json_store \<Rightarrow> bool" where
  "js_inv fromiso now s \<longleftrightarrow>
     table_wf (js_table s) \<and> (\<forall>n. clock_ok fromiso (now n)) \<and>
     (\<forall>k e. table_map fromiso (js_table s) k = Some e \<longrightarrow> key_ok k \<and> loads (le_value e) \<noteq> None)"

definition js_obs :: "(string \<Rightarrow> int option) \<Rightarrow> json_store \<Rightarrow> string \<Rightarrow> json option" where
  "js_obs fromiso s k =
     (case table_map fromiso (js_table s) k of None \<Rightarrow> None | Some e \<Rightarrow> loads (le_value e))"

lemma lift_log_Inr [simp]: "lift_log (Inr x) = Inr x"
  by (simp add: lift_log_def)

lemma table_wf_lenient: "table_wf t \<Longrightarrow> \<not> lt_strict t"
  by (simp add: table_wf_def)

lemma validate_value_dumps:
  "validate_value (dumps v) = Inr () \<longleftrightarrow> length (dumps v) \<le> MAX_VAL_LENGTH"
  using printable_plain [OF printable_dumps [of v]] by (auto simp: validate_value_def)

lemma dumps_no_CR: "CR \<notin> set (dumps v)"
  using printable_plain [OF printable_dumps [of v]] by simp

text \<open>One record appended through \<^const>\<open>js_step\<close>: the table's map changes as the record says.\<close>

lemma js_append:
  assumes inv: "js_inv fromiso now s" and k: "key_ok k"
    and v: "validate_value val = Inr ()" "CR \<notin> set val" and op: "parse_op op' = Some o'"
  shows "\<exists>s'. js_step (\<lambda>at. append_entry fromiso at op' k val) now s = Inr s' \<and>
    table_wf (js_table s') \<and>
    table_map fromiso (js_table s') =
      apply_map \<lparr>lr_ts = now (js_ticks s), lr_op = o', lr_key = k, lr_value = val\<rparr>
        (table_map fromiso (js_table s))"
proof -
  have "table_wf (js_table s)" "clock_ok fromiso (now (js_ticks s))" "validate_key k = Inr ()"
    using inv k by (simp_all add: js_inv_def key_ok_def)
  from append_entry_map [OF this v op] show ?thesis
    by (auto simp: js_step_def)
qed

lemma js_obs_after:
  assumes "table_map fromiso (js_table s') = m"
  shows "js_obs fromiso s' = (\<lambda>k. case m k of None \<Rightarrow> None | Some e \<Rightarrow> loads (le_value e))"
  using assms by (auto simp: js_obs_def fun_eq_iff)

lemma js_write_law:
  assumes inv: "js_inv fromiso now s" and k: "key_ok k" and v: "storable v"
  shows "\<exists>s'. js_write fromiso now s k v = Inr s' \<and> js_inv fromiso now s' \<and>
    js_obs fromiso s' = (js_obs fromiso s)(k \<mapsto> v)"
proof -
  have val: "validate_value (dumps v) = Inr ()" and ok: "json_ok v"
    using v by (simp_all add: storable_def validate_value_dumps)
  obtain s' where s': "js_write fromiso now s k v = Inr s'" "table_wf (js_table s')"
    and m: "table_map fromiso (js_table s') =
      apply_map \<lparr>lr_ts = now (js_ticks s), lr_op = OpSet, lr_key = k, lr_value = dumps v\<rparr>
        (table_map fromiso (js_table s))"
    using js_append [OF inv k val dumps_no_CR, of "''set''" OpSet]
    by (auto simp: js_write_def write_key_def [abs_def] parse_op_def)
  have "js_obs fromiso s' = (js_obs fromiso s)(k \<mapsto> v)"
    using ok by (auto simp: js_obs_after [OF m] apply_map_def entry_of_def fun_eq_iff js_obs_def)
  moreover have "js_inv fromiso now s'"
    using inv s'(2) k ok by (auto simp: js_inv_def m apply_map_def entry_of_def split: if_splits)
  ultimately show ?thesis using s'(1) by blast
qed

lemma js_read_law:
  assumes "js_inv fromiso now s"
  shows "js_read fromiso s k = Inr (case js_obs fromiso s k of None \<Rightarrow> JNull | Some v \<Rightarrow> v)"
proof -
  have "read_key fromiso (js_table s) k = Inr (table_map fromiso (js_table s) k)"
    using assms by (simp add: js_inv_def read_key_lenient table_wf_lenient)
  moreover have "table_map fromiso (js_table s) k = Some e \<Longrightarrow> loads (le_value e) \<noteq> None" for e
    using assms by (simp add: js_inv_def)
  ultimately show ?thesis
    by (auto simp: js_read_def js_obs_def json_loads_def split: option.splits)
qed

lemma js_scan_law:
  assumes inv: "js_inv fromiso now s" and pre: "pre = [] \<or> key_ok pre"
  shows "\<exists>d. js_scan fromiso s pre [] = Inr d \<and> distinct (keys d) \<and>
    (\<forall>k. map_of d k = js_obs fromiso s (pre @ k))"
proof -
  define rs where "rs = replay (file_records fromiso (lt_file (js_table s)))"
  define es where "es = List.filter (\<lambda>(k, v). starts_with k pre) rs"
  define d where "d = List.map (\<lambda>(k, e). (remove_prefix k pre, the (loads (le_value e)))) es"
  have nd: "distinct (keys rs)" unfolding rs_def by (rule replay_distinct)
  have tm: "table_map fromiso (js_table s) = map_of rs" by (simp add: table_map_def rs_def)
  have scan: "scan_keys fromiso (js_table s) pre [] = Inr es"
    using inv pre
    by (auto simp: scan_keys_def es_def rs_def js_inv_def load_lenient table_wf_lenient key_ok_def)
  have ok: "(k, e) \<in> set es \<Longrightarrow> loads (le_value e) \<noteq> None" for k e
  proof -
    assume "(k, e) \<in> set es"
    then have "map_of rs k = Some e" using nd by (auto simp: es_def)
    with inv show ?thesis by (simp add: js_inv_def tm)
  qed
  have "traverse (\<lambda>(k, e). andthen (json_loads (le_value e)) (\<lambda>v. Inr (remove_prefix k pre, v))) es
      = Inr d"
    unfolding d_def
  proof (rule traverse_total)
    fix x assume x: "x \<in> set es"
    obtain k e where ke: "x = (k, e)" by (cases x)
    with x ok obtain v where "loads (le_value e) = Some v" by blast
    with ke show "(case x of (k, e) \<Rightarrow> andthen (json_loads (le_value e)) (\<lambda>v. Inr (remove_prefix k pre, v))) =
        Inr (case x of (k, e) \<Rightarrow> (remove_prefix k pre, the (loads (le_value e))))"
      by (simp add: json_loads_def)
  qed
  then have scanned: "js_scan fromiso s pre [] = Inr d"
    by (simp add: js_scan_def scan)
  have pes: "\<forall>k \<in> set (keys es). starts_with k pre"
    by (auto simp: es_def)
  then have "inj_on (\<lambda>k. remove_prefix k pre) (set (keys es))"
    by (blast intro!: inj_onI remove_prefix_inj)
  moreover have "distinct (keys es)"
    unfolding es_def by (rule distinct_keys_filter [OF nd])
  moreover have "keys d = List.map (\<lambda>k. remove_prefix k pre) (keys es)"
    by (simp add: d_def comp_def case_prod_beta)
  ultimately have "distinct (keys d)"
    by (simp only: distinct_map simp_thms)
  moreover have "map_of d k = js_obs fromiso s (pre @ k)" for k
  proof -
    have "map_of d k = map_option (\<lambda>e. the (loads (le_value e))) (map_of es (pre @ k))"
      unfolding d_def using pes
    proof (induction es)
      case (Cons x es)
      obtain k' e where x: "x = (k', e)" by (cases x)
      with Cons(2) obtain r where r: "k' = pre @ r" by (auto simp: starts_with_iff)
      with Cons x show ?case by auto
    qed simp
    also have "map_of es (pre @ k) = map_of rs (pre @ k)"
      unfolding es_def by (simp add: map_of_filter_key [of "\<lambda>k. starts_with k pre"])
    finally show ?thesis
      using inv by (auto simp: js_obs_def tm js_inv_def split: option.splits)
  qed
  ultimately show ?thesis using scanned by blast
qed

lemma js_clear_law:
  assumes inv: "js_inv fromiso now s" and k: "key_ok pre" and "ends_with pre ''/''"
  shows "\<exists>s'. js_clear fromiso now s pre = Inr s' \<and> js_inv fromiso now s' \<and>
    js_obs fromiso s' = (\<lambda>k. if starts_with k pre then None else js_obs fromiso s k)"
proof -
  have nil: "validate_value [] = Inr ()" by (simp add: validate_value_def)
  obtain s' where s': "js_clear fromiso now s pre = Inr s'" "table_wf (js_table s')"
    and m: "table_map fromiso (js_table s') =
      apply_map \<lparr>lr_ts = now (js_ticks s), lr_op = OpClr, lr_key = pre, lr_value = []\<rparr>
        (table_map fromiso (js_table s))"
    using js_append [OF inv k nil, of "''clr''" OpClr] assms(3)
    by (auto simp: js_clear_def clear_prefix_def [abs_def] parse_op_def)
  have "js_obs fromiso s' = (\<lambda>k. if starts_with k pre then None else js_obs fromiso s k)"
    by (auto simp: js_obs_after [OF m] apply_map_def fun_eq_iff js_obs_def)
  moreover have "js_inv fromiso now s'"
    using inv s'(2) by (auto simp: js_inv_def m apply_map_def split: if_splits)
  ultimately show ?thesis using s'(1) by blast
qed

lemma js_delete_law:
  assumes inv: "js_inv fromiso now s" and k: "key_ok key"
  shows "\<exists>s'. js_delete fromiso now s key = Inr s' \<and> js_inv fromiso now s' \<and>
    js_obs fromiso s' = (js_obs fromiso s)(key := None)"
proof -
  have nil: "validate_value [] = Inr ()" by (simp add: validate_value_def)
  have step: "js_delete fromiso now s key = js_step (\<lambda>at. append_entry fromiso at ''del'' key []) now s"
    using inv by (simp add: js_delete_def delete_key_def js_inv_def table_wf_lenient js_step_def)
  obtain s' where s': "js_delete fromiso now s key = Inr s'" "table_wf (js_table s')"
    and m: "table_map fromiso (js_table s') =
      apply_map \<lparr>lr_ts = now (js_ticks s), lr_op = OpDel, lr_key = key, lr_value = []\<rparr>
        (table_map fromiso (js_table s))"
    using js_append [OF inv k nil, of "''del''" OpDel] by (auto simp: step parse_op_def)
  have "js_obs fromiso s' = (js_obs fromiso s)(key := None)"
    by (auto simp: js_obs_after [OF m] apply_map_def fun_eq_iff js_obs_def)
  moreover have "js_inv fromiso now s'"
    using inv s'(2) by (auto simp: js_inv_def m apply_map_def split: if_splits)
  ultimately show ?thesis using s'(1) by blast
qed

lemma js_obs_law:
  "js_inv fromiso now s \<Longrightarrow> js_obs fromiso s k = Some v \<Longrightarrow> key_ok k \<and> json_ok v"
  by (auto simp: js_inv_def js_obs_def split: option.splits dest: loads_ok)

text \<open>What a store accepts it has checked.\<close>

lemma append_entry_checked:
  assumes "append_entry fromiso at op' key val t = Inr t'"
  shows "validate_key key = Inr () \<and> validate_value val = Inr ()"
  using assms by (auto simp: append_entry_def write_entry_def split: sum.splits if_splits)

lemma js_write_checked:
  assumes "js_write fromiso now s k v = Inr s'"
  shows "key_ok k \<and> length (dumps v) \<le> MAX_VAL_LENGTH"
  using assms validate_value_dumps [of v]
  by (auto simp: js_write_def js_step_def write_key_def key_ok_def lift_log_def dest!: append_entry_checked
      split: sum.splits)

lemma js_clear_checked:
  assumes "js_clear fromiso now s pre = Inr s'"
  shows "key_ok pre"
  using assms
  by (auto simp: js_clear_def js_step_def clear_prefix_def key_ok_def lift_log_def dest!: append_entry_checked
      split: sum.splits if_splits)

interpretation js: config_store
  "json_logtab_store fromiso now" "js_inv fromiso now" "js_obs fromiso" for fromiso now
proof
  fix s k v assume "js_inv fromiso now s" "js_obs fromiso s k = Some v"
  then show "key_ok k \<and> json_ok v" by (rule js_obs_law)
qed (simp_all add: json_logtab_store_def js_write_law js_read_law js_scan_law js_clear_law
      js_delete_law js_write_checked js_clear_checked)

section \<open>Encryption engines\<close>

record crypto_engine =
  ce_encrypt :: "nat \<Rightarrow> string \<Rightarrow> store_error + string"
  ce_decrypt :: "string \<Rightarrow> store_error + string"

definition missing_key_engine :: "string \<Rightarrow> crypto_engine" where
  "missing_key_engine keyfile =
     \<lparr>ce_encrypt = (\<lambda>_ _. Inl (CryptoRefused keyfile)), ce_decrypt = (\<lambda>_. Inl (CryptoRefused keyfile))\<rparr>"

definition noop_engine :: crypto_engine where
  "noop_engine = \<lparr>ce_encrypt = (\<lambda>_ p. Inr p), ce_decrypt = Inr\<rparr>"

text \<open>The engine kelso runs with: \<open>fernet\<close> builds the third-party engine of a master key.\<close>

definition crypto_from_config ::
    "(string \<Rightarrow> crypto_engine) \<Rightarrow> string \<Rightarrow> string \<Rightarrow> crypto_engine" where
  "crypto_from_config fernet master_key keyfile =
     (if master_key = [] then missing_key_engine keyfile else fernet master_key)"

definition decrypt_json :: "crypto_engine \<Rightarrow> json \<Rightarrow> store_error + string" where
  "decrypt_json c blob = (case blob of JStr b \<Rightarrow> ce_decrypt c b | _ \<Rightarrow> Inl WrongType)"

definition decrypt_or_none :: "crypto_engine \<Rightarrow> json \<Rightarrow> store_error + string option" where
  "decrypt_or_none c blob =
     (case decrypt_json c blob of
        Inr p \<Rightarrow> Inr (Some p)
      | Inl InvalidToken \<Rightarrow> Inr None
      | Inl (CryptoRefused k) \<Rightarrow> Inr None
      | Inl e \<Rightarrow> Inl e)"

section \<open>Reading Python values out of JSON\<close>

definition json_field :: "string \<Rightarrow> json \<Rightarrow> store_error + json" where
  "json_field k v =
     (case v of
        JObj ms \<Rightarrow> (case map_of ms k of None \<Rightarrow> Inl (MissingField k) | Some x \<Rightarrow> Inr x)
      | _ \<Rightarrow> Inl WrongType)"

definition json_int :: "json \<Rightarrow> store_error + int" where
  "json_int v =
     (case v of
        JInt i \<Rightarrow> Inr i
      | JBool b \<Rightarrow> Inr (if b then 1 else 0)
      | JStr s \<Rightarrow> (case py_int s of None \<Rightarrow> Inl (BadInt s) | Some i \<Rightarrow> Inr i)
      | _ \<Rightarrow> Inl WrongType)"

definition truthy :: "json \<Rightarrow> bool" where
  "truthy v \<longleftrightarrow> v \<notin> {JNull, JBool False, JInt 0, JStr [], JArr [], JObj []}"

definition json_get :: "string \<Rightarrow> json \<Rightarrow> store_error + json" where
  "json_get k v =
     (case v of
        JObj ms \<Rightarrow> Inr (case map_of ms k of None \<Rightarrow> JNull | Some x \<Rightarrow> x)
      | _ \<Rightarrow> Inl WrongType)"

fun str_of_json :: "json \<Rightarrow> string option" where
  "str_of_json (JStr s) = Some s"
| "str_of_json _ = None"

section \<open>KelsoStore\<close>

definition PORT_RANGE_SIZE :: int where "PORT_RANGE_SIZE = 1000"
definition KELSO_ID_KEY :: string where "KELSO_ID_KEY = ''system/kelso_id''"
definition BACKUP_RUN_KEY :: string where "BACKUP_RUN_KEY = ''system/backup/last_run''"
definition REKEY_FIELD :: string where "REKEY_FIELD = ''rekey''"

definition routes_prefix :: "string \<Rightarrow> string" where
  "routes_prefix app = ''routes/'' @ app @ ''/''"

definition list_routes ::
    "'s store_ops \<Rightarrow> 's \<Rightarrow> string \<Rightarrow> store_error + (string, json) dict" where
  "list_routes ops s app = st_scan ops s (routes_prefix app) []"

definition set_route ::
    "'s store_ops \<Rightarrow> 's \<Rightarrow> string \<Rightarrow> string \<Rightarrow> (string, json) dict \<Rightarrow> store_error + 's" where
  "set_route ops s app route entry = st_write ops s (routes_prefix app @ route) (JObj entry)"

definition clear_routes :: "'s store_ops \<Rightarrow> 's \<Rightarrow> string \<Rightarrow> store_error + 's" where
  "clear_routes ops s app = st_clear ops s (routes_prefix app)"

function first_free :: "int list \<Rightarrow> int \<Rightarrow> int" where
  "first_free occupied port =
     (if port \<in> set occupied then first_free occupied (port + 1) else port)"
  by pat_completeness auto
termination
proof (relation "measure (\<lambda>(occupied, port). card (set occupied \<inter> {port..}))")
  fix occupied :: "int list" and port :: int
  assume p: "port \<in> set occupied"
  have "set occupied \<inter> {port + 1..} \<subset> set occupied \<inter> {port..}"
  proof
    show "set occupied \<inter> {port + 1..} \<subseteq> set occupied \<inter> {port..}" by auto
    have "port \<in> set occupied \<inter> {port..}" using p by simp
    then show "set occupied \<inter> {port + 1..} \<noteq> set occupied \<inter> {port..}" by (metis IntD2 add_le_same_cancel1 atLeast_iff not_one_le_zero)
  qed
  then show "((occupied, port + 1), occupied, port)
      \<in> measure (\<lambda>(occupied, port). card (set occupied \<inter> {port..}))"
    by (simp add: psubset_card_mono)
qed simp

declare first_free.simps [simp del]

definition occupied_ports ::
    "'s store_ops \<Rightarrow> 's \<Rightarrow> store_error + int list" where
  "occupied_ports ops s =
     andthen (st_scan ops s ''routes/'' [])
       (traverse (\<lambda>(k, entry). andthen (json_field ''host_port'' entry) json_int))"

definition next_free_port :: "'s store_ops \<Rightarrow> int \<Rightarrow> 's \<Rightarrow> store_error + int" where
  "next_free_port ops port_base s =
     andthen (occupied_ports ops s) (\<lambda>occupied.
       let port = first_free occupied port_base; max_port = port_base + PORT_RANGE_SIZE
       in if port > max_port then Inl (NoFreePorts PORT_RANGE_SIZE) else Inr port)"

text \<open>\<open>made\<close> is what \<^verbatim>\<open>secrets.token_hex(4)\<close> returns.\<close>

definition kelso_id :: "'s store_ops \<Rightarrow> string \<Rightarrow> 's \<Rightarrow> store_error + string \<times> 's" where
  "kelso_id ops made s =
     andthen (st_read ops s KELSO_ID_KEY) (\<lambda>found.
       case found of
         JStr (c # cs) \<Rightarrow> Inr (c # cs, s)
       | _ \<Rightarrow> andthen (st_write ops s KELSO_ID_KEY (JStr made)) (\<lambda>s'. Inr (made, s')))"

text \<open>The reason of a backup run is a string for every caller of \<^verbatim>\<open>record_backup_run\<close>.\<close>

definition record_backup_run ::
    "'s store_ops \<Rightarrow> 's \<Rightarrow> (string, json) dict \<Rightarrow> store_error + 's" where
  "record_backup_run ops s run =
     andthen (st_write ops s BACKUP_RUN_KEY (JObj run)) (\<lambda>s'.
     andthen (json_field ''reason'' (JObj run)) (\<lambda>reason.
       case reason of
         JStr r \<Rightarrow> st_write ops s' (BACKUP_RUN_KEY @ ''/'' @ r) (JObj run)
       | _ \<Rightarrow> Inl WrongType))"

definition last_backup_run ::
    "'s store_ops \<Rightarrow> 's \<Rightarrow> string option \<Rightarrow> store_error + (string, json) dict option" where
  "last_backup_run ops s reason =
     andthen
       (st_read ops s (case reason of None \<Rightarrow> BACKUP_RUN_KEY | Some r \<Rightarrow> BACKUP_RUN_KEY @ ''/'' @ r))
       (\<lambda>found. case found of JObj run \<Rightarrow> Inr (Some run) | _ \<Rightarrow> Inr None)"

definition set_token ::
    "'s store_ops \<Rightarrow> crypto_engine \<Rightarrow> nat \<Rightarrow> 's \<Rightarrow> string \<Rightarrow> string \<Rightarrow> int \<Rightarrow> store_error + 's" where
  "set_token ops c nonce s key value expires =
     andthen (ce_encrypt c nonce value) (\<lambda>tok.
       st_write ops s (''system/tokens/'' @ key) (JObj [(''tok'', JStr tok), (''exp'', JInt expires)]))"

definition get_token ::
    "'s store_ops \<Rightarrow> crypto_engine \<Rightarrow> int \<Rightarrow> 's \<Rightarrow> string \<Rightarrow> store_error + (string \<times> int) option" where
  "get_token ops c epoch s key =
     andthen (st_read ops s (''system/tokens/'' @ key)) (\<lambda>found.
       if \<not> truthy found then Inr None
       else andthen (andthen (json_field ''exp'' found)
                (\<lambda>e. case e of JInt i \<Rightarrow> Inr i | _ \<Rightarrow> Inl WrongType)) (\<lambda>expires.
         if expires > 0 \<and> epoch > expires then Inr None
         else andthen (andthen (json_field ''tok'' found) (decrypt_json c)) (\<lambda>value.
           Inr (Some (value, expires)))))"

definition secret_key :: "string \<Rightarrow> string" where
  "secret_key name = ''system/secrets/'' @ name"

definition set_secret ::
    "'s store_ops \<Rightarrow> crypto_engine \<Rightarrow> nat \<Rightarrow> 's \<Rightarrow> string \<Rightarrow> string \<Rightarrow> store_error + 's" where
  "set_secret ops c nonce s name value =
     andthen (ce_encrypt c nonce value) (\<lambda>blob. st_write ops s (secret_key name) (JStr blob))"

definition get_secret ::
    "'s store_ops \<Rightarrow> crypto_engine \<Rightarrow> 's \<Rightarrow> string \<Rightarrow> store_error + string option" where
  "get_secret ops c s name =
     andthen (st_read ops s (secret_key name)) (\<lambda>raw.
       if raw = JNull then Inr None
       else andthen (decrypt_json c raw) (\<lambda>value. Inr (Some value)))"

definition list_secrets :: "'s store_ops \<Rightarrow> 's \<Rightarrow> store_error + string list" where
  "list_secrets ops s = andthen (st_scan ops s ''system/secrets/'' []) (\<lambda>d. Inr (sort (keys d)))"

definition del_secret :: "'s store_ops \<Rightarrow> 's \<Rightarrow> string \<Rightarrow> store_error + 's" where
  "del_secret ops s name = st_delete ops s (secret_key name)"

definition set_repo_state ::
    "'s store_ops \<Rightarrow> 's \<Rightarrow> string \<Rightarrow> string \<Rightarrow> string \<Rightarrow> store_error + 's" where
  "set_repo_state ops s name sha at =
     st_write ops s (''repo/'' @ name) (JObj [(''sha'', JStr sha), (''at'', JStr at)])"

definition get_repo_state ::
    "'s store_ops \<Rightarrow> 's \<Rightarrow> string \<Rightarrow> store_error + (string \<times> string) option" where
  "get_repo_state ops s name =
     andthen (st_read ops s (''repo/'' @ name)) (\<lambda>found.
       case found of
         JObj ms \<Rightarrow>
           (case (map_of ms ''sha'', map_of ms ''at'') of
              (Some (JStr sha), Some (JStr at)) \<Rightarrow> Inr (Some (sha, at))
            | _ \<Rightarrow> Inr None)
       | _ \<Rightarrow> Inr None)"

definition del_repo_state :: "'s store_ops \<Rightarrow> 's \<Rightarrow> string \<Rightarrow> store_error + 's" where
  "del_repo_state ops s name = st_delete ops s (''repo/'' @ name)"

definition store_app_ids :: "'s store_ops \<Rightarrow> 's \<Rightarrow> store_error + string list" where
  "store_app_ids ops s =
     andthen (st_scan ops s ''routes/'' [])
       (\<lambda>d. Inr (sort (remdups (List.map (\<lambda>k. hd (split_on (CHR ''/'') k)) (keys d)))))"

definition purge_app :: "'s store_ops \<Rightarrow> 's \<Rightarrow> string \<Rightarrow> store_error + bool \<times> 's" where
  "purge_app ops s app =
     andthen (st_scan ops s (routes_prefix app) []) (\<lambda>d.
     andthen (clear_routes ops s app) (\<lambda>s'. Inr (d \<noteq> [], s')))"

section \<open>AppStore\<close>

definition NONE_ROUTE_PROVIDER_TAG :: string where "NONE_ROUTE_PROVIDER_TAG = ''none''"

definition config_key :: "string \<Rightarrow> string" where
  "config_key name = ''config/'' @ name"

text \<open>The stored flag and the plaintext; a value not marked secret is returned as it is.\<close>

definition get_config ::
    "'s store_ops \<Rightarrow> crypto_engine \<Rightarrow> 's \<Rightarrow> string \<Rightarrow> store_error + (json \<times> json) option" where
  "get_config ops c s name =
     andthen (st_read ops s (config_key name)) (\<lambda>entry.
       if entry = JNull then Inr None
       else andthen (json_field ''secret'' entry) (\<lambda>secret.
            andthen (json_field ''value'' entry) (\<lambda>raw.
              if truthy secret
              then andthen (decrypt_json c raw) (\<lambda>p. Inr (Some (secret, JStr p)))
              else Inr (Some (secret, raw)))))"

definition config_is ::
    "'s store_ops \<Rightarrow> crypto_engine \<Rightarrow> 's \<Rightarrow> string \<Rightarrow> bool \<Rightarrow> string \<Rightarrow> store_error + bool" where
  "config_is ops c s name secret value =
     (case get_config ops c s name of
        Inr r \<Rightarrow> Inr (r = Some (JBool secret, JStr value))
      | Inl InvalidToken \<Rightarrow> Inr False
      | Inl e \<Rightarrow> Inl e)"

definition config_entry :: "bool \<Rightarrow> string \<Rightarrow> json" where
  "config_entry secret stored = JObj [(''secret'', JBool secret), (''value'', JStr stored)]"

definition set_config ::
    "'s store_ops \<Rightarrow> crypto_engine \<Rightarrow> nat \<Rightarrow> 's \<Rightarrow> string \<Rightarrow> bool \<Rightarrow> string \<Rightarrow> store_error + 's" where
  "set_config ops c nonce s name secret value =
     andthen (config_is ops c s name secret value) (\<lambda>same.
       if same then Inr s
       else andthen (if secret then ce_encrypt c nonce value else Inr value) (\<lambda>stored.
         st_write ops s (config_key name) (config_entry secret stored)))"

definition has_config :: "'s store_ops \<Rightarrow> 's \<Rightarrow> string \<Rightarrow> store_error + bool" where
  "has_config ops s name =
     andthen (st_read ops s (config_key name)) (\<lambda>v. Inr (v \<noteq> JNull))"

definition set_bind :: "'s store_ops \<Rightarrow> 's \<Rightarrow> string \<Rightarrow> string \<Rightarrow> store_error + 's" where
  "set_bind ops s volume host_volume =
     andthen (st_read ops s (''binds/'' @ volume)) (\<lambda>found.
       if found = JStr host_volume then Inr s
       else st_write ops s (''binds/'' @ volume) (JStr host_volume))"

definition list_binds :: "'s store_ops \<Rightarrow> 's \<Rightarrow> store_error + (string, string) dict" where
  "list_binds ops s =
     andthen (st_scan ops s ''binds/'' []) (\<lambda>raw.
       Inr (List.map_filter (\<lambda>(name, tag). map_option (Pair name) (str_of_json tag)) raw))"

definition route_tags :: "json \<Rightarrow> string list option" where
  "route_tags v =
     (case v of
        JStr tag \<Rightarrow> Some (if tag = NONE_ROUTE_PROVIDER_TAG then [] else [tag])
      | JArr xs \<Rightarrow> those (List.map str_of_json xs)
      | _ \<Rightarrow> None)"

definition get_route_assignment ::
    "'s store_ops \<Rightarrow> 's \<Rightarrow> string \<Rightarrow> store_error + string list option" where
  "get_route_assignment ops s route =
     andthen (st_read ops s (''routes/'' @ route)) (\<lambda>v. Inr (route_tags v))"

definition set_route_assignment ::
    "'s store_ops \<Rightarrow> 's \<Rightarrow> string \<Rightarrow> string list \<Rightarrow> store_error + 's" where
  "set_route_assignment ops s route tags =
     andthen (get_route_assignment ops s route) (\<lambda>found.
       if found = Some tags then Inr s
       else st_write ops s (''routes/'' @ route) (JArr (List.map JStr tags)))"

definition has_route_assignment :: "'s store_ops \<Rightarrow> 's \<Rightarrow> string \<Rightarrow> store_error + bool" where
  "has_route_assignment ops s route =
     andthen (st_read ops s (''routes/'' @ route)) (\<lambda>v. Inr (v \<noteq> JNull))"

definition list_route_assignments ::
    "'s store_ops \<Rightarrow> 's \<Rightarrow> store_error + (string, string list) dict" where
  "list_route_assignments ops s =
     andthen (st_scan ops s ''routes/'' []) (\<lambda>raw.
       Inr (List.map_filter (\<lambda>(name, v). map_option (Pair name) (route_tags v)) raw))"

definition set_backup_bulk :: "'s store_ops \<Rightarrow> 's \<Rightarrow> string \<Rightarrow> bool \<Rightarrow> store_error + 's" where
  "set_backup_bulk ops s volume on = st_write ops s (''backup/'' @ volume) (JBool on)"

definition backed_up_bulk :: "'s store_ops \<Rightarrow> 's \<Rightarrow> store_error + string list" where
  "backed_up_bulk ops s =
     andthen (st_scan ops s ''backup/'' []) (\<lambda>raw.
       Inr (keys (List.filter (\<lambda>(name, on). on = JBool True) raw)))"

definition set_meta :: "'s store_ops \<Rightarrow> 's \<Rightarrow> string \<Rightarrow> json \<Rightarrow> store_error + 's" where
  "set_meta ops s name v = st_write ops s (''meta/'' @ name) v"

definition get_meta :: "'s store_ops \<Rightarrow> 's \<Rightarrow> string \<Rightarrow> store_error + json" where
  "get_meta ops s name = st_read ops s (''meta/'' @ name)"

section \<open>Rekeying\<close>

text \<open>
  The three loops of the two \<^verbatim>\<open>rekey_secrets\<close> differ in their bodies: what a body says of one
  entry, given the nonce its encryption would use. The driver carries the store, the next
  nonce, how many were written and the names that could not be read.
\<close>

datatype rekey_step = RkSkip | RkUnreadable | RkWrite json

definition rekey_secret_body ::
    "crypto_engine \<Rightarrow> crypto_engine \<Rightarrow> nat \<Rightarrow> json \<Rightarrow> store_error + rekey_step" where
  "rekey_secret_body old new nonce blob =
     andthen (decrypt_or_none old blob) (\<lambda>plain.
       case plain of
         None \<Rightarrow> Inr RkUnreadable
       | Some p \<Rightarrow> andthen (ce_encrypt new nonce p) (\<lambda>e. Inr (RkWrite (JStr e))))"

definition rekey_token_body ::
    "crypto_engine \<Rightarrow> crypto_engine \<Rightarrow> nat \<Rightarrow> json \<Rightarrow> store_error + rekey_step" where
  "rekey_token_body old new nonce token =
     andthen (json_field ''tok'' token) (\<lambda>tok.
     andthen (decrypt_or_none old tok) (\<lambda>plain.
       case plain of
         None \<Rightarrow> Inr RkUnreadable
       | Some p \<Rightarrow> andthen (ce_encrypt new nonce p) (\<lambda>e.
           case token of
             JObj ms \<Rightarrow> Inr (RkWrite (JObj (AList.update ''tok'' (JStr e) ms)))
           | _ \<Rightarrow> Inl WrongType)))"

definition rekey_config_body ::
    "crypto_engine \<Rightarrow> crypto_engine \<Rightarrow> nat \<Rightarrow> json \<Rightarrow> store_error + rekey_step" where
  "rekey_config_body old new nonce entry =
     andthen (json_get ''secret'' entry) (\<lambda>secret.
       if \<not> truthy secret then Inr RkSkip
       else andthen (json_field ''value'' entry) (\<lambda>v.
            andthen (decrypt_or_none old v) (\<lambda>plain.
              case plain of
                None \<Rightarrow> Inr RkUnreadable
              | Some p \<Rightarrow> andthen (ce_encrypt new nonce p) (\<lambda>e.
                  Inr (RkWrite (JObj [(''secret'', JBool True), (''value'', JStr e),
                                      (REKEY_FIELD, JBool True)]))))))"

fun rekey_loop ::
    "'s store_ops \<Rightarrow> string \<Rightarrow> (nat \<Rightarrow> json \<Rightarrow> store_error + rekey_step)
       \<Rightarrow> (string \<times> json) list \<Rightarrow> 's \<times> nat \<times> nat \<times> string list
       \<Rightarrow> store_error + 's \<times> nat \<times> nat \<times> string list" where
  "rekey_loop ops pre body [] acc = Inr acc"
| "rekey_loop ops pre body ((name, v) # items) (s, nonce, written, unreadable) =
     andthen (body nonce v) (\<lambda>step.
       case step of
         RkSkip \<Rightarrow> rekey_loop ops pre body items (s, nonce, written, unreadable)
       | RkUnreadable \<Rightarrow>
           rekey_loop ops pre body items (s, nonce, written, unreadable @ [pre @ name])
       | RkWrite v' \<Rightarrow>
           andthen (st_write ops s (pre @ name) v') (\<lambda>s'.
             rekey_loop ops pre body items (s', Suc nonce, Suc written, unreadable)))"

definition rekey_kelso_secrets ::
    "'s store_ops \<Rightarrow> crypto_engine \<Rightarrow> crypto_engine \<Rightarrow> 's
       \<Rightarrow> store_error + 's \<times> nat \<times> nat \<times> string list" where
  "rekey_kelso_secrets ops old new s =
     andthen (st_scan ops s ''system/secrets/'' []) (\<lambda>secrets.
     andthen (rekey_loop ops ''system/secrets/'' (rekey_secret_body old new) secrets (s, 0, 0, []))
       (\<lambda>(s', nonce, written, unreadable).
     andthen (st_scan ops s' ''system/tokens/'' []) (\<lambda>tokens.
       rekey_loop ops ''system/tokens/'' (rekey_token_body old new) tokens
         (s', nonce, written, unreadable))))"

definition rekey_app_secrets ::
    "'s store_ops \<Rightarrow> crypto_engine \<Rightarrow> crypto_engine \<Rightarrow> 's
       \<Rightarrow> store_error + 's \<times> nat \<times> nat \<times> string list" where
  "rekey_app_secrets ops old new s =
     andthen (st_scan ops s ''config/'' []) (\<lambda>entries.
       rekey_loop ops ''config/'' (rekey_config_body old new) entries (s, 0, 0, []))"

section \<open>What the clients do, from the store's promise alone\<close>

definition crypto_ok :: "crypto_engine \<Rightarrow> bool" where
  "crypto_ok c \<longleftrightarrow> (\<forall>n p. \<exists>b. ce_encrypt c n p = Inr b \<and> ce_decrypt c b = Inr p)"

text \<open>What an engine raises on a blob it cannot read: the two errors the callers expect.\<close>

definition decrypt_tame :: "crypto_engine \<Rightarrow> bool" where
  "decrypt_tame c \<longleftrightarrow> (\<forall>b e. ce_decrypt c b = Inl e \<longrightarrow> e = InvalidToken \<or> (\<exists>k. e = CryptoRefused k))"

lemma config_key_inj: "config_key a = config_key b \<longleftrightarrow> a = b"
  by (simp add: config_key_def)

lemma first_free_least:
  "port \<le> first_free occ port \<and> first_free occ port \<notin> set occ \<and>
    (\<forall>q. port \<le> q \<and> q < first_free occ port \<longrightarrow> q \<in> set occ)"
proof (induction occ port rule: first_free.induct)
  case (1 occ port)
  show ?case
  proof (cases "port \<in> set occ")
    case True
    then have step: "first_free occ port = first_free occ (port + 1)"
      by (simp add: first_free.simps [of occ port])
    have "port \<le> q \<Longrightarrow> q = port \<or> port + 1 \<le> q" for q :: int by arith
    with True step 1 [OF True] show ?thesis by (metis add_le_same_cancel1 dual_order.trans le_cases not_one_le_zero)
  next
    case False
    then show ?thesis by (auto simp: first_free.simps [of occ port])
  qed
qed

definition unreadable_names ::
    "string \<Rightarrow> (nat \<Rightarrow> json \<Rightarrow> store_error + rekey_step) \<Rightarrow> (string, json) dict \<Rightarrow> string list" where
  "unreadable_names pre body items =
     List.map (\<lambda>(k, v). pre @ k) (List.filter (\<lambda>(k, v). body 0 v = Inr RkUnreadable) items)"

text \<open>What the value \<open>v\<close> of a key has become, given what was and is stored there.\<close>

definition rekeyed ::
    "(nat \<Rightarrow> json \<Rightarrow> store_error + rekey_step) \<Rightarrow> json \<Rightarrow> json option \<Rightarrow> json option \<Rightarrow> bool" where
  "rekeyed body v old cur \<longleftrightarrow>
     (\<exists>n. case body n v of
        Inr (RkWrite v') \<Rightarrow> cur = Some v'
      | _ \<Rightarrow> cur = old)"

definition body_ok :: "(nat \<Rightarrow> json \<Rightarrow> store_error + rekey_step) \<Rightarrow> json \<Rightarrow> bool" where
  "body_ok body v \<longleftrightarrow>
     (\<forall>n. \<exists>step. body n v = Inr step \<and> (\<forall>v'. step = RkWrite v' \<longrightarrow> storable v') \<and>
       (step = RkUnreadable \<longleftrightarrow> body 0 v = Inr RkUnreadable))"

context config_store
begin

lemma read_obs: "inv s \<Longrightarrow> st_read ops s k = Inr (case_option JNull id (obs s k))"
  using read_law [of s k] by (simp add: option.case_eq_if id_def)

lemma get_config_obs:
  assumes "inv s"
  shows "get_config ops c s name =
    (case obs s (config_key name) of
       None \<Rightarrow> Inr None
     | Some entry \<Rightarrow>
         if entry = JNull then Inr None
         else andthen (json_field ''secret'' entry) (\<lambda>secret.
              andthen (json_field ''value'' entry) (\<lambda>raw.
                if truthy secret
                then andthen (decrypt_json c raw) (\<lambda>p. Inr (Some (secret, JStr p)))
                else Inr (Some (secret, raw)))))"
  using assms by (simp add: get_config_def read_obs split: option.split)

lemma get_config_cong:
  "inv s \<Longrightarrow> inv s' \<Longrightarrow> obs s' (config_key name) = obs s (config_key name) \<Longrightarrow>
    get_config ops c s' name = get_config ops c s name"
  by (simp add: get_config_obs)

lemma set_config_spec:
  assumes s: "inv s" "key_ok (config_key name)"
    and crypto: "crypto_ok c"
    and readable: "\<And>e. get_config ops c s name = Inl e \<Longrightarrow> e = InvalidToken"
    and fits: "\<And>stored. (if secret then ce_encrypt c nonce value else Inr value) = Inr stored \<Longrightarrow>
      storable (config_entry secret stored)"
  shows "\<exists>s'. set_config ops c nonce s name secret value = Inr s' \<and> inv s' \<and>
    get_config ops c s' name = Inr (Some (JBool secret, JStr value)) \<and>
    (\<forall>k. k \<noteq> config_key name \<longrightarrow> obs s' k = obs s k) \<and>
    (\<forall>n. set_config ops c n s' name secret value = Inr s')"
proof -
  have again: "set_config ops c n s' name secret value = Inr s'"
    if "get_config ops c s' name = Inr (Some (JBool secret, JStr value))" for n s'
    using that by (simp add: set_config_def config_is_def)
  show ?thesis
  proof (cases "get_config ops c s name = Inr (Some (JBool secret, JStr value))")
    case True
    with s again show ?thesis by blast
  next
    case False
    obtain stored where st: "(if secret then ce_encrypt c nonce value else Inr value) = Inr stored"
      and dec: "secret \<Longrightarrow> ce_decrypt c stored = Inr value" "\<not> secret \<Longrightarrow> stored = value"
      using crypto by (cases secret) (auto simp: crypto_ok_def)
    from False readable have "config_is ops c s name secret value = Inr False"
      by (cases "get_config ops c s name") (auto simp: config_is_def)
    moreover obtain s' where s': "st_write ops s (config_key name) (config_entry secret stored) = Inr s'"
        "inv s'" "obs s' = (obs s)(config_key name \<mapsto> config_entry secret stored)"
      using write_law [OF s fits [OF st]] by blast
    ultimately have "set_config ops c nonce s name secret value = Inr s'"
      using st by (simp add: set_config_def)
    moreover have "get_config ops c s' name = Inr (Some (JBool secret, JStr value))"
      using s' dec by (simp add: get_config_obs config_entry_def json_field_def truthy_def decrypt_json_def)
    ultimately show ?thesis using s' again by auto
  qed
qed

lemma rekey_loop_step:
  assumes "inv s" and "key_ok (pre @ k)" and "body_ok body v"
  shows "\<exists>s1 n1 w1. inv s1 \<and>
    rekey_loop ops pre body ((k, v) # items) (s, n, w, u) =
      rekey_loop ops pre body items (s1, n1, w1, u @ unreadable_names pre body [(k, v)]) \<and>
    (\<forall>k'. k' \<noteq> pre @ k \<longrightarrow> obs s1 k' = obs s k') \<and>
    rekeyed body v (obs s (pre @ k)) (obs s1 (pre @ k))"
proof -
  obtain step where step: "body n v = Inr step" "\<forall>v'. step = RkWrite v' \<longrightarrow> storable v'"
      "step = RkUnreadable \<longleftrightarrow> body 0 v = Inr RkUnreadable"
    using assms(3) unfolding body_ok_def by metis
  show ?thesis
  proof (cases step)
    case (RkWrite v')
    then obtain s1 where "st_write ops s (pre @ k) v' = Inr s1" "inv s1"
        "obs s1 = (obs s)(pre @ k \<mapsto> v')"
      using write_law [OF assms(1,2)] step(2) by blast
    moreover from this step RkWrite have "rekeyed body v (obs s (pre @ k)) (obs s1 (pre @ k))"
      unfolding rekeyed_def by (intro exI [of _ n]) simp
    ultimately show ?thesis
      using step RkWrite by (intro exI [of _ s1] exI [of _ "Suc n"] exI [of _ "Suc w"])
        (simp add: unreadable_names_def)
  next
    case RkSkip
    then have "rekeyed body v (obs s (pre @ k)) (obs s (pre @ k))"
      unfolding rekeyed_def using step by (intro exI [of _ n]) simp
    with assms(1) step RkSkip show ?thesis
      by (intro exI [of _ s] exI [of _ n] exI [of _ w]) (simp add: unreadable_names_def)
  next
    case RkUnreadable
    then have "rekeyed body v (obs s (pre @ k)) (obs s (pre @ k))"
      unfolding rekeyed_def using step by (intro exI [of _ n]) simp
    with assms(1) step RkUnreadable show ?thesis
      by (intro exI [of _ s] exI [of _ n] exI [of _ w]) (simp add: unreadable_names_def)
  qed
qed

lemma rekey_loop_spec:
  assumes "inv s" and "distinct (keys items)"
    and "\<forall>k \<in> set (keys items). key_ok (pre @ k)" and "\<forall>v \<in> snd ` set items. body_ok body v"
  shows "\<exists>s' n' w'. rekey_loop ops pre body items (s, n, w, u) =
      Inr (s', n', w', u @ unreadable_names pre body items) \<and> inv s' \<and>
    (\<forall>k. k \<notin> (@) pre ` set (keys items) \<longrightarrow> obs s' k = obs s k) \<and>
    (\<forall>k v. (k, v) \<in> set items \<longrightarrow> rekeyed body v (obs s (pre @ k)) (obs s' (pre @ k)))"
  using assms
proof (induction items arbitrary: s n w u)
  case Nil
  then show ?case by (simp add: unreadable_names_def)
next
  case (Cons it items)
  obtain k v where it: "it = (k, v)" by (cases it)
  have k: "key_ok (pre @ k)" "body_ok body v" and fresh: "k \<notin> set (keys items)"
    and rest: "distinct (keys items)" "\<forall>k \<in> set (keys items). key_ok (pre @ k)"
      "\<forall>v \<in> snd ` set items. body_ok body v"
    using Cons.prems(2,3,4) it by auto
  obtain s1 n1 w1 where s1: "inv s1"
    and l1: "rekey_loop ops pre body ((k, v) # items) (s, n, w, u) =
      rekey_loop ops pre body items (s1, n1, w1, u @ unreadable_names pre body [(k, v)])"
    and o1: "\<forall>k'. k' \<noteq> pre @ k \<longrightarrow> obs s1 k' = obs s k'"
    and r1: "rekeyed body v (obs s (pre @ k)) (obs s1 (pre @ k))"
    using rekey_loop_step [OF Cons.prems(1) k] by blast
  obtain s' n' w' where l2: "rekey_loop ops pre body items (s1, n1, w1, u @ unreadable_names pre body [(k, v)])
      = Inr (s', n', w', (u @ unreadable_names pre body [(k, v)]) @ unreadable_names pre body items)"
    and s': "inv s'"
    and o2: "\<forall>k. k \<notin> (@) pre ` set (keys items) \<longrightarrow> obs s' k = obs s1 k"
    and r2: "\<forall>k v. (k, v) \<in> set items \<longrightarrow> rekeyed body v (obs s1 (pre @ k)) (obs s' (pre @ k))"
    using Cons.IH [OF s1 rest] by blast
  have un: "(u @ unreadable_names pre body [(k, v)]) @ unreadable_names pre body items =
      u @ unreadable_names pre body (it # items)"
    by (simp add: unreadable_names_def it)
  have "obs s' (pre @ k) = obs s1 (pre @ k)" using o2 fresh by auto
  with r1 have "rekeyed body v (obs s (pre @ k)) (obs s' (pre @ k))" by simp
  moreover have "rekeyed body v' (obs s (pre @ k')) (obs s' (pre @ k'))" if "(k', v') \<in> set items" for k' v'
  proof -
    from that have "k' \<in> set (keys items)" by (force simp: image_iff)
    with fresh have "k' \<noteq> k" by blast
    with o1 have "obs s1 (pre @ k') = obs s (pre @ k')" by simp
    with r2 that show ?thesis by metis
  qed
  moreover have "obs s' k' = obs s k'" if "k' \<notin> (@) pre ` set (keys (it # items))" for k'
    using that o1 o2 it by auto
  ultimately show ?case
    using l1 l2 s' un it by auto
qed

end

definition config_shape :: "json \<Rightarrow> bool" where
  "config_shape v \<longleftrightarrow>
     (case v of
        JObj ms \<Rightarrow>
          (case map_of ms ''secret'' of
             Some (JBool b) \<Rightarrow> (case map_of ms ''value'' of Some (JStr x) \<Rightarrow> True | _ \<Rightarrow> False)
           | _ \<Rightarrow> False)
      | _ \<Rightarrow> False)"

definition rekey_entry :: "string \<Rightarrow> json" where
  "rekey_entry e =
     JObj [(''secret'', JBool True), (''value'', JStr e), (REKEY_FIELD, JBool True)]"

lemma config_shapeE:
  assumes "config_shape v"
  obtains ms b x where "v = JObj ms" "map_of ms ''secret'' = Some (JBool b)"
    "map_of ms ''value'' = Some (JStr x)"
  using assms unfolding config_shape_def
  by (auto split: json.splits option.splits)

lemma truthy_JBool [simp]: "truthy (JBool b) = b"
  by (simp add: truthy_def)

lemma decrypt_or_none_tame:
  assumes "decrypt_tame c"
  shows "decrypt_or_none c (JStr b) =
    Inr (case ce_decrypt c b of Inl e \<Rightarrow> None | Inr p \<Rightarrow> Some p)"
proof (cases "ce_decrypt c b")
  case (Inl e)
  with assms have "e = InvalidToken \<or> (\<exists>k. e = CryptoRefused k)" by (auto simp: decrypt_tame_def)
  with Inl show ?thesis by (auto simp: decrypt_or_none_def decrypt_json_def)
qed (simp add: decrypt_or_none_def decrypt_json_def)

lemma rekey_config_body_shape:
  assumes "decrypt_tame old" and "map_of ms ''secret'' = Some (JBool b)"
    and "map_of ms ''value'' = Some (JStr x)"
  shows "rekey_config_body old new n (JObj ms) =
    (if \<not> b then Inr RkSkip
     else case ce_decrypt old x of
       Inl e \<Rightarrow> Inr RkUnreadable
     | Inr p \<Rightarrow> andthen (ce_encrypt new n p) (\<lambda>e. Inr (RkWrite (rekey_entry e))))"
  using assms
  by (auto simp: rekey_config_body_def json_get_def json_field_def decrypt_or_none_tame
      rekey_entry_def split: sum.split)

lemmas key_ok_defs = key_ok_def validate_key_def MAX_KEY_LENGTH_def key_char_def char_class_defs

lemma config_prefix_ok: "key_ok ''config/''"
  by (simp add: key_ok_defs)

context config_store
begin

lemma get_config_shape:
  assumes "inv s" and "obs s (config_key name) = Some (JObj ms)"
    and "map_of ms ''secret'' = Some (JBool b)" and "map_of ms ''value'' = Some (JStr x)"
  shows "get_config ops c s name =
    (if b then andthen (ce_decrypt c x) (\<lambda>p. Inr (Some (JBool True, JStr p)))
     else Inr (Some (JBool False, JStr x)))"
  using assms by (simp add: get_config_obs json_field_def decrypt_json_def)

lemma rekey_app_spec:
  assumes s: "inv s" and crypto: "crypto_ok new" "decrypt_tame old"
    and shape: "\<And>name v. obs s (config_key name) = Some v \<Longrightarrow> config_shape v"
    and fits: "\<And>name ms b p n e. obs s (config_key name) = Some (JObj ms) \<Longrightarrow>
      map_of ms ''value'' = Some (JStr b) \<Longrightarrow> ce_decrypt old b = Inr p \<Longrightarrow>
      ce_encrypt new n p = Inr e \<Longrightarrow> storable (rekey_entry e)"
  shows "\<exists>s' n w u. rekey_app_secrets ops old new s = Inr (s', n, w, u) \<and> inv s' \<and>
    (\<forall>k. (\<forall>name. k \<noteq> config_key name) \<longrightarrow> obs s' k = obs s k) \<and>
    (\<forall>name. case get_config ops old s name of
        Inr r \<Rightarrow> get_config ops new s' name = Inr r \<and> config_key name \<notin> set u
      | Inl e \<Rightarrow> obs s' (config_key name) = obs s (config_key name) \<and> config_key name \<in> set u)"
proof -
  let ?body = "rekey_config_body old new" and ?pre = "''config/''"
  have pre: "?pre @ k = config_key k" for k by (simp add: config_key_def)
  have image: "(@) ?pre ` A = config_key ` A" for A by (auto simp: config_key_def)
  obtain d where d: "st_scan ops s ?pre [] = Inr d" "distinct (keys d)"
      "\<And>k. map_of d k = obs s (config_key k)"
    using scan_law [OF s disjI2 [OF config_prefix_ok]] unfolding pre by blast
  have in_d: "(k, v) \<in> set d \<longleftrightarrow> obs s (config_key k) = Some v" for k v
    using d(2,3) by (metis map_of_eq_Some_iff)
  have keys_ok: "\<forall>k \<in> set (keys d). key_ok (?pre @ k)"
    unfolding pre using in_d obs_ok [OF s] by auto
  have "body_ok ?body v" if v: "obs s (config_key k) = Some v" for k v
  proof -
    from shape [OF v] obtain ms b x where m: "v = JObj ms" "map_of ms ''secret'' = Some (JBool b)"
      "map_of ms ''value'' = Some (JStr x)" by (rule config_shapeE)
    note body = rekey_config_body_shape [OF crypto(2) m(2,3)]
    show ?thesis
    proof (cases "\<not> b \<or> (\<exists>e. ce_decrypt old x = Inl e)")
      case True
      then show ?thesis by (auto simp: body_ok_def m(1) body split: sum.split)
    next
      case False
      then obtain p where p: "b" "ce_decrypt old x = Inr p" by (cases "ce_decrypt old x") auto
      have "\<exists>e. ce_encrypt new n p = Inr e \<and> storable (rekey_entry e)" for n
        using crypto(1) fits [OF v [unfolded m(1)] m(3) p(2)] unfolding crypto_ok_def by blast
      note enc = this
      show ?thesis
        unfolding body_ok_def m(1) body
      proof
        fix n
        obtain e where "ce_encrypt new n p = Inr e" "storable (rekey_entry e)" using enc by blast
        moreover obtain e0 where "ce_encrypt new 0 p = Inr e0" using enc by blast
        ultimately show "\<exists>step. (if \<not> b then Inr RkSkip
             else case ce_decrypt old x of Inl e \<Rightarrow> Inr RkUnreadable
               | Inr p \<Rightarrow> andthen (ce_encrypt new n p) (\<lambda>e. Inr (RkWrite (rekey_entry e)))) = Inr step \<and>
            (\<forall>v'. step = RkWrite v' \<longrightarrow> storable v') \<and>
            (step = RkUnreadable \<longleftrightarrow> (if \<not> b then Inr RkSkip
               else case ce_decrypt old x of Inl e \<Rightarrow> Inr RkUnreadable
                 | Inr p \<Rightarrow> andthen (ce_encrypt new 0 p) (\<lambda>e. Inr (RkWrite (rekey_entry e)))) = Inr RkUnreadable)"
          using p by simp
      qed
    qed
  qed
  then have bodies: "\<forall>v \<in> snd ` set d. body_ok ?body v"
    using in_d by auto
  obtain s' n w where loop: "rekey_loop ops ?pre ?body d (s, 0, 0, []) =
      Inr (s', n, w, unreadable_names ?pre ?body d)" and s': "inv s'"
    and others: "\<forall>k. k \<notin> config_key ` set (keys d) \<longrightarrow> obs s' k = obs s k"
    and these: "\<forall>k v. (k, v) \<in> set d \<longrightarrow> rekeyed ?body v (obs s (config_key k)) (obs s' (config_key k))"
    using rekey_loop_spec [OF s d(2) keys_ok bodies, of 0 0 "[]"] unfolding pre image by auto
  let ?u = "unreadable_names ?pre ?body d"
  have run: "rekey_app_secrets ops old new s = Inr (s', n, w, ?u)"
    by (simp add: rekey_app_secrets_def d(1) loop)
  have in_u: "config_key name \<in> set ?u \<longleftrightarrow>
      (\<exists>v. obs s (config_key name) = Some v \<and> ?body 0 v = Inr RkUnreadable)" for name
    unfolding unreadable_names_def pre by (auto simp: config_key_inj in_d)
  have far: "obs s' k = obs s k" if "\<forall>name. k \<noteq> config_key name" for k
    using that others by auto
  have "case get_config ops old s name of
        Inr r \<Rightarrow> get_config ops new s' name = Inr r \<and> config_key name \<notin> set ?u
      | Inl e \<Rightarrow> obs s' (config_key name) = obs s (config_key name) \<and> config_key name \<in> set ?u" for name
  proof (cases "obs s (config_key name)")
    case None
    then have "name \<notin> set (keys d)" using d(3) by (metis map_of_eq_None_iff set_map)
    then have "config_key name \<notin> config_key ` set (keys d)"
      by (simp add: inj_image_mem_iff inj_def config_key_inj)
    then have "obs s' (config_key name) = None"
      using others None by simp
    with None s s' show ?thesis by (simp add: get_config_obs in_u)
  next
    case (Some v)
    from shape [OF Some] obtain ms b x where m: "v = JObj ms" "map_of ms ''secret'' = Some (JBool b)"
      "map_of ms ''value'' = Some (JStr x)" by (rule config_shapeE)
    note body = rekey_config_body_shape [OF crypto(2) m(2,3)]
    have was: "get_config ops c s name =
      (if b then andthen (ce_decrypt c x) (\<lambda>p. Inr (Some (JBool True, JStr p)))
       else Inr (Some (JBool False, JStr x)))" for c
      by (rule get_config_shape [OF s Some [unfolded m(1)] m(2,3)])
    have now: "rekeyed ?body v (Some v) (obs s' (config_key name))"
      using these Some in_d by metis
    show ?thesis
    proof (cases "\<not> b \<or> (\<exists>e. ce_decrypt old x = Inl e)")
      case True
      then have same: "obs s' (config_key name) = Some v"
        using now unfolding rekeyed_def m(1) body by (cases b) auto
      have "get_config ops c s' name = get_config ops c s name" for c
        by (rule get_config_cong [OF s s']) (simp add: same Some)
      with True same Some show ?thesis
        by (auto simp: was in_u m(1) body)
    next
      case False
      then obtain p where p: "b" "ce_decrypt old x = Inr p" by (cases "ce_decrypt old x") auto
      from now obtain k where k: "case andthen (ce_encrypt new k p) (\<lambda>e. Inr (RkWrite (rekey_entry e))) of
            Inr (RkWrite v') \<Rightarrow> obs s' (config_key name) = Some v'
          | _ \<Rightarrow> obs s' (config_key name) = Some v"
        unfolding rekeyed_def m(1) body using p by auto
      obtain e where e0: "ce_encrypt new k p = Inr e" using crypto(1) unfolding crypto_ok_def by blast
      with k have e: "ce_encrypt new k p = Inr e" "obs s' (config_key name) = Some (rekey_entry e)"
        by simp_all
      have "ce_decrypt new e = Inr p" using crypto(1) e(1) unfolding crypto_ok_def by (metis Inr_inject)
      then have "get_config ops new s' name = Inr (Some (JBool True, JStr p))"
        using get_config_shape [OF s' e(2) [unfolded rekey_entry_def]] by simp
      moreover have "config_key name \<notin> set ?u"
        using p Some by (simp add: in_u m(1) body andthen_def split: sum.split)
      ultimately show ?thesis using p by (simp add: was)
    qed
  qed
  with run s' far show ?thesis by blast
qed

end

text \<open>The host ports a store's routes hold.\<close>

definition entry_port :: "json \<Rightarrow> store_error + int" where
  "entry_port entry = andthen (json_field ''host_port'' entry) json_int"

definition port_held :: "(string \<Rightarrow> json option) \<Rightarrow> int \<Rightarrow> bool" where
  "port_held m p \<longleftrightarrow> (\<exists>k entry. m (''routes/'' @ k) = Some entry \<and> entry_port entry = Inr p)"

lemma routes_key_ok: "key_ok ''routes/''"
  by (simp add: key_ok_defs)

lemma routes_prefix_ends: "ends_with (routes_prefix app) ''/''"
  using ends_with_append [of "''routes/'' @ app" "''/''"] by (simp add: routes_prefix_def)

lemma routes_prefix_other:
  assumes "is_app_id app" "is_app_id other" "app \<noteq> other"
  shows "\<not> starts_with (routes_prefix other @ k) (routes_prefix app)"
proof
  assume "starts_with (routes_prefix other @ k) (routes_prefix app)"
  then obtain r where r: "other @ ''/'' @ k = app @ ''/'' @ r"
    by (auto simp: routes_prefix_def starts_with_iff)
  have "takeWhile (\<lambda>c. c \<noteq> CHR ''/'') (a @ ''/'' @ t) = a" if "is_app_id a" for a t
    using app_id_no_slash [OF that] by (subst takeWhile_append2) auto
  with assms r show False by metis
qed

context config_store
begin

lemma occupied_ports_spec:
  assumes "inv s"
    and "\<And>k entry. obs s (''routes/'' @ k) = Some entry \<Longrightarrow> \<exists>p. entry_port entry = Inr p"
  shows "\<exists>occ. occupied_ports ops s = Inr occ \<and> (\<forall>p. p \<in> set occ \<longleftrightarrow> port_held (obs s) p)"
proof -
  obtain d where d: "st_scan ops s ''routes/'' [] = Inr d" "distinct (keys d)"
      "\<And>k. map_of d k = obs s (''routes/'' @ k)"
    using scan_law [OF assms(1) disjI2 [OF routes_key_ok]] by blast
  have in_d: "(k, v) \<in> set d \<longleftrightarrow> obs s (''routes/'' @ k) = Some v" for k v
    unfolding d(3) [symmetric] using d(2) by (rule map_of_eq_Some_iff [symmetric])
  define port where "port = (\<lambda>(k :: string, v). case entry_port v of Inl e \<Rightarrow> 0 | Inr p \<Rightarrow> p)"
  have "traverse (\<lambda>(k, entry). andthen (json_field ''host_port'' entry) json_int) d = Inr (List.map port d)"
  proof (rule traverse_total)
    fix x assume x: "x \<in> set d"
    obtain k v where kv: "x = (k, v)" by (cases x)
    with x in_d have "obs s (''routes/'' @ k) = Some v" by blast
    with assms(2) obtain p where "entry_port v = Inr p" by blast
    with kv show "(case x of (k, entry) \<Rightarrow> andthen (json_field ''host_port'' entry) json_int) = Inr (port x)"
      by (simp add: port_def entry_port_def)
  qed
  then have occ: "occupied_ports ops s = Inr (List.map port d)"
    by (simp add: occupied_ports_def d(1))
  have "p \<in> set (List.map port d) \<longleftrightarrow> port_held (obs s) p" for p
  proof
    assume "p \<in> set (List.map port d)"
    then obtain k v where kv: "(k, v) \<in> set d" "p = port (k, v)" by auto
    then have "obs s (''routes/'' @ k) = Some v" using in_d by blast
    moreover from this assms(2) have "entry_port v = Inr p" using kv(2) by (fastforce simp: port_def)
    ultimately show "port_held (obs s) p" unfolding port_held_def by blast
  next
    assume "port_held (obs s) p"
    then obtain k v where "obs s (''routes/'' @ k) = Some v" and v: "entry_port v = Inr p"
      unfolding port_held_def by blast
    then have "(k, v) \<in> set d" using in_d by blast
    moreover have "port (k, v) = p" using v by (simp add: port_def)
    ultimately show "p \<in> set (List.map port d)" by force
  qed
  with occ show ?thesis by blast
qed

lemma next_free_port_spec:
  assumes "inv s"
    and "\<And>k entry. obs s (''routes/'' @ k) = Some entry \<Longrightarrow> \<exists>p. entry_port entry = Inr p"
  shows "case next_free_port ops base s of
      Inr p \<Rightarrow> base \<le> p \<and> p \<le> base + PORT_RANGE_SIZE \<and> \<not> port_held (obs s) p \<and>
        (\<forall>q. base \<le> q \<and> q < p \<longrightarrow> port_held (obs s) q)
    | Inl e \<Rightarrow> e = NoFreePorts PORT_RANGE_SIZE \<and>
        (\<forall>q. base \<le> q \<and> q \<le> base + PORT_RANGE_SIZE \<longrightarrow> port_held (obs s) q)"
proof -
  have "\<exists>occ. occupied_ports ops s = Inr occ \<and> (\<forall>p. p \<in> set occ \<longleftrightarrow> port_held (obs s) p)"
    by (rule occupied_ports_spec [OF assms(1)]) (rule assms(2))
  then obtain occ where occ: "occupied_ports ops s = Inr occ" "\<And>p. p \<in> set occ \<longleftrightarrow> port_held (obs s) p"
    by blast
  note ff = first_free_least [of base occ]
  show ?thesis
    using ff by (auto simp: next_free_port_def occ Let_def)
qed

lemma purge_app_spec:
  assumes "inv s" "is_app_id app" "key_ok (routes_prefix app)"
  shows "\<exists>s'. purge_app ops s app = Inr (\<exists>k. obs s (routes_prefix app @ k) \<noteq> None, s') \<and> inv s' \<and>
    (\<forall>k. obs s' k = (if starts_with k (routes_prefix app) then None else obs s k))"
proof -
  obtain d where d: "st_scan ops s (routes_prefix app) [] = Inr d"
      "\<And>k. map_of d k = obs s (routes_prefix app @ k)"
    using scan_law [OF assms(1) disjI2 [OF assms(3)]] by blast
  have "d \<noteq> [] \<longleftrightarrow> (\<exists>k. obs s (routes_prefix app @ k) \<noteq> None)"
    unfolding d(2) [symmetric] by (cases d) auto
  moreover obtain s' where "st_clear ops s (routes_prefix app) = Inr s'" "inv s'"
      "obs s' = (\<lambda>k. if starts_with k (routes_prefix app) then None else obs s k)"
    using clear_law [OF assms(1,3) routes_prefix_ends] by blast
  ultimately show ?thesis by (simp add: purge_app_def d(1) clear_routes_def)
qed

lemma list_routes_obs:
  assumes "inv s" "key_ok (routes_prefix app)"
  shows "\<exists>d. list_routes ops s app = Inr d \<and> map_of d = (\<lambda>k. obs s (routes_prefix app @ k))"
  using scan_law [OF assms(1) disjI2 [OF assms(2)]] by (auto simp: list_routes_def fun_eq_iff)

lemma kelso_id_spec:
  assumes "inv s" "made \<noteq> []" "storable (JStr made)"
  shows "\<exists>made' s'. kelso_id ops made s = Inr (made', s') \<and> inv s' \<and> made' \<noteq> [] \<and>
    (\<forall>other. kelso_id ops other s' = Inr (made', s')) \<and>
    (\<forall>k. k \<noteq> KELSO_ID_KEY \<longrightarrow> obs s' k = obs s k)"
proof (cases "\<exists>c cs. obs s KELSO_ID_KEY = Some (JStr (c # cs))")
  case True
  with assms(1) show ?thesis by (auto simp: kelso_id_def read_obs)
next
  case False
  obtain c cs where m: "made = c # cs" using assms(2) by (cases made) auto
  have "key_ok KELSO_ID_KEY" by (simp add: KELSO_ID_KEY_def key_ok_defs)
  from write_law [OF assms(1) this assms(3)] obtain s' where
    s': "st_write ops s KELSO_ID_KEY (JStr made) = Inr s'" "inv s'"
      "obs s' = (obs s)(KELSO_ID_KEY \<mapsto> JStr made)" by blast
  have "kelso_id ops made s = Inr (made, s')"
    using False s'(1) assms(1)
    by (auto simp: kelso_id_def read_obs split: option.split json.split list.split)
  moreover have "kelso_id ops other s' = Inr (made, s')" for other
    using s' m by (simp add: kelso_id_def read_obs)
  ultimately show ?thesis using s' assms(2) by auto
qed

lemma set_then_get_secret:
  assumes "inv s" "key_ok (secret_key name)" "crypto_ok c"
    and "\<And>b. ce_encrypt c n value = Inr b \<Longrightarrow> storable (JStr b)"
  shows "\<exists>s'. set_secret ops c n s name value = Inr s' \<and> inv s' \<and>
    get_secret ops c s' name = Inr (Some value) \<and>
    (\<forall>k. k \<noteq> secret_key name \<longrightarrow> obs s' k = obs s k)"
proof -
  obtain b where b: "ce_encrypt c n value = Inr b" "ce_decrypt c b = Inr value"
    using assms(3) unfolding crypto_ok_def by blast
  obtain s' where "st_write ops s (secret_key name) (JStr b) = Inr s'" "inv s'"
      "obs s' = (obs s)(secret_key name \<mapsto> JStr b)"
    using write_law [OF assms(1,2) assms(4) [OF b(1)]] by blast
  with b show ?thesis
    by (simp add: set_secret_def get_secret_def read_obs decrypt_json_def)
qed

text \<open>Recording an assignment twice writes once; what is read back is the list that was set.\<close>

lemma set_route_assignment_spec:
  assumes "inv s" "key_ok (''routes/'' @ route)" "storable (JArr (List.map JStr tags))"
  shows "\<exists>s'. set_route_assignment ops s route tags = Inr s' \<and> inv s' \<and>
    get_route_assignment ops s' route = Inr (Some tags) \<and>
    set_route_assignment ops s' route tags = Inr s'"
proof (cases "get_route_assignment ops s route = Inr (Some tags)")
  case True
  with assms(1) show ?thesis by (auto simp: set_route_assignment_def)
next
  case False
  have those: "those (List.map str_of_json (List.map JStr tags)) = Some tags"
    by (induction tags) auto
  obtain s' where s': "st_write ops s (''routes/'' @ route) (JArr (List.map JStr tags)) = Inr s'"
      "inv s'" "obs s' = (obs s)(''routes/'' @ route \<mapsto> JArr (List.map JStr tags))"
    using write_law [OF assms] by blast
  from False have "set_route_assignment ops s route tags = Inr s'"
    using s'(1) assms(1) by (simp add: set_route_assignment_def get_route_assignment_def read_obs)
  moreover have get: "get_route_assignment ops s' route = Inr (Some tags)"
    using s' those by (simp add: get_route_assignment_def read_obs route_tags_def)
  moreover have "set_route_assignment ops s' route tags = Inr s'"
    using get by (simp add: set_route_assignment_def)
  ultimately show ?thesis using s'(2) by blast
qed

end

section \<open>Properties\<close>

definition demo_now :: "nat \<Rightarrow> string" where
  "demo_now n = ''2026-01-01T00:00:00Z''"

definition demo_store :: json_store where
  "demo_store = js_init None ''app.logtab'' demo_now"

lemma demo_store_file:
  "file_records demo_clock (lt_file (js_table demo_store)) = []"
  unfolding demo_store_def js_init_def demo_now_def logtab_init_def logtab.simps json_store.simps
  by code_simp

lemma demo_store_map: "table_map demo_clock (js_table demo_store) = Map.empty"
  by (simp add: table_map_def demo_store_file replay_def)

lemma demo_store_inv: "js_inv demo_clock demo_now demo_store"
proof -
  have "table_wf (js_table demo_store)"
    by (simp add: demo_store_def js_init_def logtab_init_def table_wf_def)
  then show ?thesis
    using demo_clock_ok by (simp add: js_inv_def demo_store_map demo_now_def)
qed

lemma noop_engine_ok: "crypto_ok noop_engine" "decrypt_tame noop_engine"
  by (simp_all add: crypto_ok_def decrypt_tame_def noop_engine_def)

text \<open>C4: \<^verbatim>\<open>AppStore.set_config\<close> on a readable store stores the value, encrypted when it is a secret,
  and \<^verbatim>\<open>get_config\<close> gives back the flag and the plaintext; nothing else in the store changes, and
  setting the same value again, with whatever nonce, leaves the store as it is (not one byte is
  appended to the file).\<close>

theorem set_config_then_get:
  assumes "js_inv fromiso now s" and "key_ok (config_key name)" and "crypto_ok c"
    and "\<And>e. get_config (json_logtab_store fromiso now) c s name = Inl e \<Longrightarrow> e = InvalidToken"
    and "\<And>stored. (if secret then ce_encrypt c nonce value else Inr value) = Inr stored \<Longrightarrow>
      storable (config_entry secret stored)"
  shows "\<exists>s'. set_config (json_logtab_store fromiso now) c nonce s name secret value = Inr s' \<and>
    js_inv fromiso now s' \<and>
    get_config (json_logtab_store fromiso now) c s' name = Inr (Some (JBool secret, JStr value)) \<and>
    (\<forall>k. k \<noteq> config_key name \<longrightarrow> js_obs fromiso s' k = js_obs fromiso s k) \<and>
    (\<forall>n. set_config (json_logtab_store fromiso now) c n s' name secret value = Inr s')"
  by (rule js.set_config_spec [OF assms]) 

lemma demo_config_fits:
  "(if secret then ce_encrypt noop_engine n ''hunter2'' else Inr ''hunter2'') = Inr stored \<Longrightarrow>
    storable (config_entry secret stored)"
  by (cases secret) (auto simp: noop_engine_def storable_def config_entry_def MAX_VAL_LENGTH_def
      json_string_def esc_char_def esc_letter_def Let_def)

lemma demo_config_key_ok: "key_ok (config_key ''password'')"
  by (simp add: config_key_def key_ok_defs)

lemma demo_get_config:
  "get_config (json_logtab_store demo_clock demo_now) noop_engine demo_store ''password'' = Inr None"
  using js.get_config_obs [OF demo_store_inv] by (simp add: js_obs_def demo_store_map)

theorem set_config_then_get_witness:
  "\<exists>s'. set_config (json_logtab_store demo_clock demo_now) noop_engine 0 demo_store ''password'' True ''hunter2''
      = Inr s' \<and> js_inv demo_clock demo_now s' \<and>
    get_config (json_logtab_store demo_clock demo_now) noop_engine s' ''password'' =
      Inr (Some (JBool True, JStr ''hunter2'')) \<and>
    (\<forall>k. k \<noteq> config_key ''password'' \<longrightarrow> js_obs demo_clock s' k = js_obs demo_clock demo_store k) \<and>
    (\<forall>n. set_config (json_logtab_store demo_clock demo_now) noop_engine n s' ''password'' True ''hunter2'' = Inr s')"
  by (rule set_config_then_get [OF demo_store_inv demo_config_key_ok noop_engine_ok(1)])
    (simp add: demo_get_config, rule demo_config_fits)

text \<open>Every value under \<^verbatim>\<open>config/\<close> has the shape \<^verbatim>\<open>set_config\<close> writes, and each secret fits into a
  record again once it is encrypted under the new key.\<close>

definition configs_shaped :: "(string \<Rightarrow> json option) \<Rightarrow> bool" where
  "configs_shaped m \<longleftrightarrow> (\<forall>name v. m (config_key name) = Some v \<longrightarrow> config_shape v)"

definition rekey_fits :: "crypto_engine \<Rightarrow> crypto_engine \<Rightarrow> (string \<Rightarrow> json option) \<Rightarrow> bool" where
  "rekey_fits old new m \<longleftrightarrow>
     (\<forall>name ms b p n e. m (config_key name) = Some (JObj ms) \<longrightarrow> map_of ms ''value'' = Some (JStr b) \<longrightarrow>
        ce_decrypt old b = Inr p \<longrightarrow> ce_encrypt new n p = Inr e \<longrightarrow> storable (rekey_entry e))"

definition ports_shaped :: "(string \<Rightarrow> json option) \<Rightarrow> bool" where
  "ports_shaped m \<longleftrightarrow>
     (\<forall>k entry. m (''routes/'' @ k) = Some entry \<longrightarrow> (\<exists>p. entry_port entry = Inr p))"

text \<open>After \<^verbatim>\<open>AppStore.rekey_secrets\<close> every value the old key could read reads under the new key
  as it did under the old one, secret or not; what the old key could not read is named in
  the result and left as it was; nothing outside \<^verbatim>\<open>config/\<close> changes.\<close>

lemma rekey_keeps_every_readable_value:
  assumes "js_inv fromiso now s" and "crypto_ok new" and "decrypt_tame old"
    and "configs_shaped (js_obs fromiso s)" and "rekey_fits old new (js_obs fromiso s)"
  shows "\<exists>s' n w u. rekey_app_secrets (json_logtab_store fromiso now) old new s = Inr (s', n, w, u) \<and>
    js_inv fromiso now s' \<and>
    (\<forall>k. (\<forall>name. k \<noteq> config_key name) \<longrightarrow> js_obs fromiso s' k = js_obs fromiso s k) \<and>
    (\<forall>name. case get_config (json_logtab_store fromiso now) old s name of
        Inr r \<Rightarrow> get_config (json_logtab_store fromiso now) new s' name = Inr r \<and>
          config_key name \<notin> set u
      | Inl e \<Rightarrow> js_obs fromiso s' (config_key name) = js_obs fromiso s (config_key name) \<and>
          config_key name \<in> set u)"
  by (rule js.rekey_app_spec [OF assms(1-3)])
    (use assms(4,5) in \<open>auto simp: configs_shaped_def rekey_fits_def\<close>)

text \<open>An engine that marks what it encrypts, to show the hypotheses hold somewhere.\<close>

definition mark_engine :: crypto_engine where
  "mark_engine =
     \<lparr>ce_encrypt = (\<lambda>_ p. Inr (CHR ''+'' # p)),
      ce_decrypt = (\<lambda>b. case b of [] \<Rightarrow> Inl InvalidToken
         | c # p \<Rightarrow> if c = CHR ''+'' then Inr p else Inl InvalidToken)\<rparr>"

lemma mark_engine_ok: "crypto_ok mark_engine" "decrypt_tame mark_engine"
  by (auto simp: crypto_ok_def decrypt_tame_def mark_engine_def split: list.splits if_splits)

lemma demo_secret_store:
  "\<exists>s. js_inv demo_clock demo_now s \<and>
    js_obs demo_clock s = [config_key ''password'' \<mapsto> config_entry True ''+hunter2'']"
proof -
  have "storable (config_entry True ''+hunter2'')"
    by (simp add: storable_def config_entry_def MAX_VAL_LENGTH_def json_string_def esc_char_def
        esc_letter_def Let_def)
  from js.write_law [OF demo_store_inv demo_config_key_ok this] obtain s where
    "js_inv demo_clock demo_now s"
    and o: "js_obs demo_clock s = (js_obs demo_clock demo_store)
        (config_key ''password'' \<mapsto> config_entry True ''+hunter2'')"
    by blast
  moreover have "js_obs demo_clock demo_store = Map.empty"
    by (simp add: js_obs_def demo_store_map fun_eq_iff)
  ultimately show ?thesis by auto
qed

lemma rekey_keeps_every_readable_value_witness:
  "\<exists>s s' n w u. get_config (json_logtab_store demo_clock demo_now) mark_engine s ''password'' =
      Inr (Some (JBool True, JStr ''hunter2'')) \<and>
    rekey_app_secrets (json_logtab_store demo_clock demo_now) mark_engine noop_engine s =
      Inr (s', n, w, u) \<and>
    get_config (json_logtab_store demo_clock demo_now) noop_engine s' ''password'' =
      Inr (Some (JBool True, JStr ''hunter2'')) \<and> config_key ''password'' \<notin> set u"
proof -
  obtain s where s: "js_inv demo_clock demo_now s"
    and o: "js_obs demo_clock s = [config_key ''password'' \<mapsto> config_entry True ''+hunter2'']"
    using demo_secret_store by blast
  have shape: "configs_shaped (js_obs demo_clock s)"
    by (auto simp: configs_shaped_def o config_shape_def config_entry_def split: if_splits)
  have "storable (rekey_entry e)"
    if "js_obs demo_clock s (config_key name) = Some (JObj ms)" "map_of ms ''value'' = Some (JStr b)"
      "ce_decrypt mark_engine b = Inr p" "ce_encrypt noop_engine n p = Inr e" for name ms b p n e
  proof -
    from that have "e = ''hunter2''"
      by (auto simp: o config_entry_def mark_engine_def noop_engine_def split: if_splits)
    then show ?thesis
      by (simp add: storable_def rekey_entry_def REKEY_FIELD_def MAX_VAL_LENGTH_def json_string_def
          esc_char_def esc_letter_def Let_def)
  qed
  then have fits: "rekey_fits mark_engine noop_engine (js_obs demo_clock s)"
    unfolding rekey_fits_def by blast
  have was: "get_config (json_logtab_store demo_clock demo_now) mark_engine s ''password'' =
      Inr (Some (JBool True, JStr ''hunter2''))"
    using js.get_config_obs [OF s] by (simp add: o config_entry_def json_field_def decrypt_json_def
        mark_engine_def)
  obtain s' n w u where
    "rekey_app_secrets (json_logtab_store demo_clock demo_now) mark_engine noop_engine s =
      Inr (s', n, w, u)"
    and "case get_config (json_logtab_store demo_clock demo_now) mark_engine s ''password'' of
        Inr r \<Rightarrow> get_config (json_logtab_store demo_clock demo_now) noop_engine s' ''password'' = Inr r \<and>
          config_key ''password'' \<notin> set u
      | Inl e \<Rightarrow> js_obs demo_clock s' (config_key ''password'') = js_obs demo_clock s (config_key ''password'') \<and>
          config_key ''password'' \<in> set u"
    using rekey_keeps_every_readable_value [OF s noop_engine_ok(1) mark_engine_ok(2) shape fits]
    by blast
  with was show ?thesis by auto
qed

text \<open>The port \<^verbatim>\<open>next_free_port\<close> hands out is the least one from the base on that no route of
  any app holds; it raises only when every port of the range is held.\<close>

lemma next_free_port_least:
  assumes "js_inv fromiso now s"
    and "ports_shaped (js_obs fromiso s)"
  shows "case next_free_port (json_logtab_store fromiso now) base s of
      Inr p \<Rightarrow> base \<le> p \<and> p \<le> base + PORT_RANGE_SIZE \<and> \<not> port_held (js_obs fromiso s) p \<and>
        (\<forall>q. base \<le> q \<and> q < p \<longrightarrow> port_held (js_obs fromiso s) q)
    | Inl e \<Rightarrow> e = NoFreePorts PORT_RANGE_SIZE \<and>
        (\<forall>q. base \<le> q \<and> q \<le> base + PORT_RANGE_SIZE \<longrightarrow> port_held (js_obs fromiso s) q)"
  by (rule js.next_free_port_spec [OF assms(1)]) (use assms(2) in \<open>simp add: ports_shaped_def\<close>)

lemma demo_route_store:
  "\<exists>s. js_inv demo_clock demo_now s \<and>
    js_obs demo_clock s = [''routes/a.b/web'' \<mapsto> JObj [(''host_port'', JInt 20000)]]"
proof -
  have "storable (JObj [(''host_port'', JInt 20000)])" and "key_ok ''routes/a.b/web''"
    by (simp_all add: storable_def MAX_VAL_LENGTH_def json_string_def esc_char_def
        esc_letter_def Let_def str_of_int_def str_of_nat.simps key_ok_defs)
  from js.write_law [OF demo_store_inv this(2,1)] obtain s where
    "js_inv demo_clock demo_now s"
    and o: "js_obs demo_clock s = (js_obs demo_clock demo_store)
        (''routes/a.b/web'' \<mapsto> JObj [(''host_port'', JInt 20000)])"
    by blast
  moreover have "js_obs demo_clock demo_store = Map.empty"
    by (simp add: js_obs_def demo_store_map fun_eq_iff)
  ultimately show ?thesis by auto
qed

lemma next_free_port_least_witness:
  "\<exists>s. port_held (js_obs demo_clock s) 20000 \<and>
    next_free_port (json_logtab_store demo_clock demo_now) 20000 s = Inr 20001"
proof -
  obtain s where s: "js_inv demo_clock demo_now s"
    and o: "js_obs demo_clock s = [''routes/a.b/web'' \<mapsto> JObj [(''host_port'', JInt 20000)]]"
    using demo_route_store by blast
  have port: "ports_shaped (js_obs demo_clock s)"
    by (auto simp: ports_shaped_def o entry_port_def json_field_def json_int_def split: if_splits)
  have held: "port_held (js_obs demo_clock s) q \<longleftrightarrow> q = 20000" for q
    unfolding port_held_def o
    by (auto simp: entry_port_def json_field_def json_int_def split: if_splits)
  let ?r = "next_free_port (json_logtab_store demo_clock demo_now) 20000 s"
  note free = next_free_port_least [OF s port, of 20000]
  have "?r = Inr 20001"
  proof (cases ?r)
    case (Inl e)
    with free have "\<forall>q. 20000 \<le> q \<and> q \<le> 20000 + PORT_RANGE_SIZE \<longrightarrow> q = 20000"
      by (simp add: held)
    from spec [OF this, of 20001] show ?thesis by (simp add: PORT_RANGE_SIZE_def)
  next
    case (Inr p)
    with free have p: "20000 \<le> p" "p \<noteq> 20000" "\<forall>q. 20000 \<le> q \<and> q < p \<longrightarrow> q = 20000"
      by (simp_all add: held)
    from spec [OF p(3), of 20001] p(1,2) have "p = 20001" by auto
    with Inr show ?thesis by simp
  qed
  with held show ?thesis by blast
qed

text \<open>\<^verbatim>\<open>KelsoStore.purge_app\<close> reports whether the app held routes, leaves it with none, and leaves
  every route of every other app as it was, apps whose id begins with this one's included.\<close>

lemma purge_removes_only_this_app:
  assumes "js_inv fromiso now s" and "is_app_id app" and "key_ok (routes_prefix app)"
  shows "\<exists>s'. purge_app (json_logtab_store fromiso now) s app =
      Inr (\<exists>k. js_obs fromiso s (routes_prefix app @ k) \<noteq> None, s') \<and> js_inv fromiso now s' \<and>
    list_routes (json_logtab_store fromiso now) s' app = Inr [] \<and>
    (\<forall>other k. is_app_id other \<and> other \<noteq> app \<longrightarrow>
      js_obs fromiso s' (routes_prefix other @ k) = js_obs fromiso s (routes_prefix other @ k))"
proof -
  obtain s' where s': "purge_app (json_logtab_store fromiso now) s app =
      Inr (\<exists>k. js_obs fromiso s (routes_prefix app @ k) \<noteq> None, s')" "js_inv fromiso now s'"
    and o: "\<And>k. js_obs fromiso s' k =
      (if starts_with k (routes_prefix app) then None else js_obs fromiso s k)"
    using js.purge_app_spec [OF assms] by blast
  obtain d where d: "list_routes (json_logtab_store fromiso now) s' app = Inr d"
      "map_of d = (\<lambda>k. js_obs fromiso s' (routes_prefix app @ k))"
    using js.list_routes_obs [OF s'(2) assms(3)] by blast
  from d(2) have "map_of d = Map.empty" unfolding o by simp
  then have "d = []" by simp
  moreover have "js_obs fromiso s' (routes_prefix other @ k) = js_obs fromiso s (routes_prefix other @ k)"
    if "is_app_id other" "other \<noteq> app" for other k
    using routes_prefix_other [OF assms(2) that(1)] that(2) unfolding o by metis
  ultimately show ?thesis using d(1) s' by blast
qed

lemma purge_removes_only_this_app_witness:
  "\<exists>s s'. purge_app (json_logtab_store demo_clock demo_now) s ''a.b'' = Inr (True, s') \<and>
    list_routes (json_logtab_store demo_clock demo_now) s' ''a.b'' = Inr []"
proof -
  obtain s where s: "js_inv demo_clock demo_now s"
    and o: "js_obs demo_clock s = [''routes/a.b/web'' \<mapsto> JObj [(''host_port'', JInt 20000)]]"
    using demo_route_store by blast
  have "is_app_id ''a.b''" by code_simp
  moreover have "key_ok (routes_prefix ''a.b'')" by (simp add: routes_prefix_def key_ok_defs)
  moreover have "\<exists>k. js_obs demo_clock s (routes_prefix ''a.b'' @ k) \<noteq> None"
    by (rule exI [of _ "''web''"]) (simp add: o routes_prefix_def)
  ultimately show ?thesis
    using purge_removes_only_this_app [OF s, of "''a.b''"] by auto
qed

text \<open>The range holds one port more than \<^const>\<open>PORT_RANGE_SIZE\<close>: with its 1000 ports held the next
  one is still handed out.\<close>

lemma port_range_has_one_more:
  assumes "occupied_ports ops s = Inr occ" and "set occ = {base..base + PORT_RANGE_SIZE - 1}"
  shows "next_free_port ops base s = Inr (base + PORT_RANGE_SIZE)"
proof -
  note ff = first_free_least [of base occ]
  have "first_free occ base = base + PORT_RANGE_SIZE"
  proof (rule antisym)
    show "first_free occ base \<le> base + PORT_RANGE_SIZE"
    proof (rule ccontr)
      assume "\<not> first_free occ base \<le> base + PORT_RANGE_SIZE"
      with ff have "base + PORT_RANGE_SIZE \<in> set occ" by (simp add: PORT_RANGE_SIZE_def)
      with assms(2) show False by simp
    qed
    show "base + PORT_RANGE_SIZE \<le> first_free occ base" using ff assms(2) by auto
  qed
  then show ?thesis using assms(1) by (simp add: next_free_port_def)
qed



end
