(* ===== verification/Observations.thy ===== *)
theory Observations
  imports Store
begin

text \<open>
  \<^verbatim>\<open>kelso/lib/observations.py\<close> and what it reads of \<^verbatim>\<open>kelso/lib/docker.py\<close>: where an app stands
  (loaded, unloaded, available), how its run units are doing as one word, and which changes
  wait for the next start, read off the order of an app store's log.
\<close>

section \<open>Containers\<close>

record unit_status =
  us_app_id :: string
  us_run_unit :: string
  us_container_id :: string
  us_name :: string
  us_state :: string
  us_status :: string

definition us_running :: "unit_status \<Rightarrow> bool" where
  "us_running u \<longleftrightarrow> str_lower (us_state u) = ''running''"

definition us_finished :: "unit_status \<Rightarrow> bool" where
  "us_finished u \<longleftrightarrow>
     str_lower (us_state u) = ''exited'' \<and> starts_with (us_status u) ''Exited (0)''"

definition us_health :: "unit_status \<Rightarrow> string" where
  "us_health u =
     (if contains (us_status u) ''(health: starting)'' then ''starting''
      else if contains (us_status u) ''(unhealthy)'' then ''unhealthy''
      else if contains (us_status u) ''(healthy)'' then ''healthy'' else '''')"

definition KELSO_APP_ID_LABEL :: string where "KELSO_APP_ID_LABEL = ''kelso.app_id''"
definition KELSO_RUN_UNIT_LABEL :: string where "KELSO_RUN_UNIT_LABEL = ''kelso.run_unit''"

definition parse_docker_labels :: "string \<Rightarrow> (string, string) dict" where
  "parse_docker_labels raw =
     foldl (\<lambda>labels part.
         case partition_on (CHR ''='') part of (key, sep, val) \<Rightarrow>
           if sep then AList.update key val labels else labels)
       [] (split_on (CHR '','') raw)"

text \<open>One row of \<^verbatim>\<open>docker ps\<close>: its columns, each a string, a missing one read as empty.\<close>

definition column :: "string \<Rightarrow> (string, string) dict \<Rightarrow> string" where
  "column name row = (case map_of row name of None \<Rightarrow> '''' | Some v \<Rightarrow> v)"

definition add_row ::
    "(string, unit_status list) dict \<Rightarrow> (string, string) dict \<Rightarrow> (string, unit_status list) dict" where
  "add_row statuses row =
     (let labels = parse_docker_labels (column ''Labels'' row);
          app = column KELSO_APP_ID_LABEL labels;
          unit = \<lparr>us_app_id = app, us_run_unit = column KELSO_RUN_UNIT_LABEL labels,
                  us_container_id = column ''ID'' row, us_name = column ''Names'' row,
                  us_state = column ''State'' row, us_status = column ''Status'' row\<rparr>
      in if app = '''' then statuses
         else AList.update app
           ((case map_of statuses app of None \<Rightarrow> [] | Some us \<Rightarrow> us) @ [unit]) statuses)"

definition load_run_unit_status ::
    "(string, string) dict list \<Rightarrow> (string, unit_status list) dict" where
  "load_run_unit_status rows = foldl add_row [] rows"

section \<open>Where an app stands\<close>

datatype app_state_word = LOADED | UNLOADED | AVAILABLE
datatype app_status_word = HEALTHY | OK | DEGRADED | STOPPED | FINISHED

definition app_state :: "bool \<Rightarrow> bool \<Rightarrow> bool \<Rightarrow> bool \<Rightarrow> app_state_word" where
  "app_state run_dir_exists config_exists volumes_exist has_containers =
     (if run_dir_exists \<or> has_containers then LOADED
      else if config_exists \<or> volumes_exist then UNLOADED
      else AVAILABLE)"

record app_observation =
  ob_app_id :: string
  ob_bundle_path :: "string option"
  ob_run_dir_exists :: bool
  ob_compose_exists :: bool
  ob_config_exists :: bool
  ob_volumes_exist :: bool
  ob_containers :: "unit_status list"
  ob_db_present :: bool
  ob_last_action :: "string option"
  ob_changes_pending :: bool
  ob_routes_pending :: bool
  ob_loaded_version :: "string option"
  ob_source_version :: "string option"

definition running_count :: "app_observation \<Rightarrow> nat" where
  "running_count ob = length (List.filter us_running (ob_containers ob))"

definition ob_state :: "app_observation \<Rightarrow> app_state_word" where
  "ob_state ob =
     app_state (ob_run_dir_exists ob) (ob_config_exists ob) (ob_volumes_exist ob)
       (ob_containers ob \<noteq> [])"

definition ob_loaded :: "app_observation \<Rightarrow> bool" where
  "ob_loaded ob \<longleftrightarrow> ob_state ob = LOADED"

definition update_version :: "app_observation \<Rightarrow> string option" where
  "update_version ob =
     (if \<not> ob_loaded ob \<or> ob_source_version ob = None \<or> ob_source_version ob = ob_loaded_version ob
      then None else ob_source_version ob)"

definition ob_known :: "app_observation \<Rightarrow> bool" where
  "ob_known ob \<longleftrightarrow> ob_state ob \<noteq> AVAILABLE \<or> ob_db_present ob"

definition orphaned_routes :: "app_observation \<Rightarrow> bool" where
  "orphaned_routes ob \<longleftrightarrow>
     ob_db_present ob \<and> ob_bundle_path ob = None \<and> \<not> ob_run_dir_exists ob \<and> ob_containers ob = []"

definition unit_active :: "unit_status \<Rightarrow> bool" where
  "unit_active u \<longleftrightarrow> (if us_running u then us_health u \<noteq> ''unhealthy'' else us_finished u)"

text \<open>The containers by run unit, a later one of the same unit in place of an earlier.\<close>

definition by_unit :: "app_observation \<Rightarrow> (string, unit_status) dict" where
  "by_unit ob = foldl (\<lambda>d c. AList.update (us_run_unit c) c d) [] (ob_containers ob)"

definition unit_names :: "string list \<Rightarrow> (string, unit_status) dict \<Rightarrow> string list" where
  "unit_names units cs = remdups (units @ keys cs)"

definition app_status :: "app_observation \<Rightarrow> string list \<Rightarrow> app_status_word" where
  "app_status ob units =
     (let containers = by_unit ob;
          names = unit_names units containers;
          holds = (\<lambda>P unit. case map_of containers unit of None \<Rightarrow> False | Some c \<Rightarrow> P c)
      in if running_count ob = 0
         then (if containers \<noteq> [] \<and> list_all (holds us_finished) names then FINISHED else STOPPED)
         else if \<not> list_all (holds unit_active) names then DEGRADED
         else (let checked = List.filter (\<lambda>h. h \<noteq> '''')
                     (List.map us_health (List.filter us_running (List.map snd containers)))
               in if checked \<noteq> [] \<and> list_all (\<lambda>h. h = ''healthy'') checked then HEALTHY else OK))"

section \<open>Changes the next start applies\<close>

definition APPLIED_AT :: "string list" where "APPLIED_AT = [''meta/loaded_at'', ''meta/started_at'']"
definition CONFIG_KEYS :: "string list" where "CONFIG_KEYS = [''config/'', ''binds/'']"
definition ROUTE_KEYS :: "string list" where "ROUTE_KEYS = [''config/subdomain'', ''routes/'']"

definition rekeyed_entry :: "string \<Rightarrow> bool" where
  "rekeyed_entry raw \<longleftrightarrow>
     (case loads raw of Some (JObj ms) \<Rightarrow> map_of ms REKEY_FIELD = Some (JBool True) | _ \<Rightarrow> False)"

record pending_changes =
  pc_config :: bool
  pc_routes :: bool

definition pc_any :: "pending_changes \<Rightarrow> bool" where
  "pc_any p \<longleftrightarrow> pc_config p \<or> pc_routes p"

definition starts_with_any :: "string \<Rightarrow> string list \<Rightarrow> bool" where
  "starts_with_any key prefixes \<longleftrightarrow> list_ex (starts_with key) prefixes"

definition pending_step :: "pending_changes \<Rightarrow> string \<times> log_entry \<Rightarrow> pending_changes" where
  "pending_step p item =
     (case item of (key, entry) \<Rightarrow>
        if key \<in> set APPLIED_AT then \<lparr>pc_config = False, pc_routes = False\<rparr>
        else if rekeyed_entry (le_value entry) then p
        else if starts_with_any key ROUTE_KEYS then p\<lparr>pc_routes := True\<rparr>
        else if starts_with_any key CONFIG_KEYS then p\<lparr>pc_config := True\<rparr>
        else p)"

definition changes_since_start ::
    "(string \<Rightarrow> int option) \<Rightarrow> logtab \<Rightarrow> log_error + pending_changes" where
  "changes_since_start fromiso t =
     andthen (history fromiso t [] [])
       (\<lambda>items. Inr (foldl pending_step \<lparr>pc_config = False, pc_routes = False\<rparr> items))"

section \<open>One pass over every source\<close>

text \<open>
  What the pass reads: the resolved bundles, the directories under the run root, docker's
  containers, the ids the kelso-wide store and the config directory hold, and, per app, what
  the disk and the app's store say.
\<close>

record observe_sources =
  sr_bundles :: "(string, string) dict"
  sr_run_ids :: "string list"
  sr_docker :: "(string, unit_status list) dict"
  sr_db_ids :: "string list"
  sr_config_ids :: "string list"
  sr_run_dir_exists :: "string \<Rightarrow> bool"
  sr_compose_exists :: "string \<Rightarrow> bool"
  sr_volumes_exist :: "string \<Rightarrow> bool"
  sr_last_action :: "string \<Rightarrow> string option"
  sr_loaded_from :: "string \<Rightarrow> string option"
  sr_versions :: "string \<Rightarrow> string option \<times> string option"
  sr_pending :: "string \<Rightarrow> pending_changes"

definition observed_ids :: "observe_sources \<Rightarrow> string option \<Rightarrow> string list" where
  "observed_ids sr only =
     (let ids = remdups (keys (sr_bundles sr) @ sr_run_ids sr @ keys (sr_docker sr)
                         @ sr_db_ids sr @ sr_config_ids sr)
      in case only of None \<Rightarrow> ids | Some app \<Rightarrow> List.filter (\<lambda>i. i = app) ids)"

definition observation_of :: "observe_sources \<Rightarrow> string \<Rightarrow> app_observation" where
  "observation_of sr app =
     (let run_dir = sr_run_dir_exists sr app;
          in_config = app \<in> set (sr_config_ids sr);
          versions = (if run_dir \<and> in_config then sr_versions sr app else (None, None));
          pending = (if run_dir \<and> in_config then sr_pending sr app
                     else \<lparr>pc_config = False, pc_routes = False\<rparr>)
      in \<lparr>ob_app_id = app,
          ob_bundle_path = (case map_of (sr_bundles sr) app of
             Some p \<Rightarrow> Some p | None \<Rightarrow> sr_loaded_from sr app),
          ob_run_dir_exists = run_dir,
          ob_compose_exists = sr_compose_exists sr app,
          ob_config_exists = in_config,
          ob_volumes_exist = sr_volumes_exist sr app,
          ob_containers = (case map_of (sr_docker sr) app of None \<Rightarrow> [] | Some cs \<Rightarrow> cs),
          ob_db_present = app \<in> set (sr_db_ids sr),
          ob_last_action = sr_last_action sr app,
          ob_changes_pending = pc_any pending,
          ob_routes_pending = pc_routes pending,
          ob_loaded_version = fst versions,
          ob_source_version = snd versions\<rparr>)"

definition collect_observations ::
    "observe_sources \<Rightarrow> string option \<Rightarrow> name_error + (string, app_observation) dict" where
  "collect_observations sr only =
     traverse (\<lambda>raw. andthen (app_id raw) (\<lambda>app. Inr (app, observation_of sr app)))
       (observed_ids sr only)"

section \<open>What the words mean\<close>

lemma by_unit_map:
  "map_of (by_unit ob) u =
    (case List.filter (\<lambda>c. us_run_unit c = u) (rev (ob_containers ob)) of
       [] \<Rightarrow> None | c # cs \<Rightarrow> Some c)"
proof -
  have "map_of (foldl (\<lambda>d c. AList.update (us_run_unit c) c d) [] cs) u =
      (case List.filter (\<lambda>c. us_run_unit c = u) (rev cs) of [] \<Rightarrow> None | c # cs \<Rightarrow> Some c)" for cs
    by (induction cs rule: rev_induct) auto
  then show ?thesis by (simp add: by_unit_def)
qed

lemma pending_step_snoc:
  "foldl pending_step p (items @ [it]) = pending_step (foldl pending_step p items) it"
  by simp

text \<open>A record of the log that the next start has to apply, of each kind.\<close>

definition config_change :: "string \<times> log_entry \<Rightarrow> bool" where
  "config_change it \<longleftrightarrow> fst it \<notin> set APPLIED_AT \<and> \<not> rekeyed_entry (le_value (snd it)) \<and>
     starts_with_any (fst it) CONFIG_KEYS \<and> \<not> starts_with_any (fst it) ROUTE_KEYS"

definition route_change :: "string \<times> log_entry \<Rightarrow> bool" where
  "route_change it \<longleftrightarrow> fst it \<notin> set APPLIED_AT \<and> \<not> rekeyed_entry (le_value (snd it)) \<and>
     starts_with_any (fst it) ROUTE_KEYS"

text \<open>What was recorded after the last load or start.\<close>

definition since_applied :: "(string \<times> log_entry) list \<Rightarrow> (string \<times> log_entry) list" where
  "since_applied items = rev (takeWhile (\<lambda>it. fst it \<notin> set APPLIED_AT) (rev items))"

lemma since_applied_snoc:
  "since_applied (items @ [it]) =
    (if fst it \<in> set APPLIED_AT then [] else since_applied items @ [it])"
  by (simp add: since_applied_def)

lemma pending_fold:
  "foldl pending_step \<lparr>pc_config = False, pc_routes = False\<rparr> items =
    \<lparr>pc_config = list_ex config_change (since_applied items),
     pc_routes = list_ex route_change (since_applied items)\<rparr>"
proof (induction items rule: rev_induct)
  case Nil
  show ?case by (simp add: since_applied_def)
next
  case (snoc it items)
  obtain key e where it: "it = (key, e)" by (cases it)
  show ?case
    unfolding pending_step_snoc snoc since_applied_snoc
    by (auto simp: it pending_step_def config_change_def [of "(key, e)"] route_change_def [of "(key, e)"])
qed

lemma since_applied_split:
  assumes P: "\<And>it. P it \<Longrightarrow> fst it \<notin> set APPLIED_AT"
  shows "list_ex P (since_applied items) \<longleftrightarrow>
    (\<exists>before it after. items = before @ it # after \<and> P it \<and> (\<forall>a \<in> set after. fst a \<notin> set APPLIED_AT))"
proof (induction items rule: rev_induct)
  case Nil
  show ?case by (simp add: since_applied_def)
next
  case (snoc last items)
  let ?split = "\<lambda>items before it after. items = before @ it # after \<and> P it \<and>
      (\<forall>a \<in> set after. fst a \<notin> set APPLIED_AT)"
  have keep: "?split (items @ [last]) before it (after @ [last])"
    if "?split items before it after" "fst last \<notin> set APPLIED_AT" for before it after
    using that by simp
  have new: "?split (items @ [last]) items last []" if "P last"
    using that by simp
  have old: "P last \<or> fst last \<notin> set APPLIED_AT \<and> (\<exists>ys. ?split items before it ys)"
    if "?split (items @ [last]) before it after" for before it after
    using that by (cases after rule: rev_cases) auto
  have "(\<exists>before it after. ?split (items @ [last]) before it after) \<longleftrightarrow>
      P last \<or> fst last \<notin> set APPLIED_AT \<and> (\<exists>before it after. ?split items before it after)"
  proof
    assume "\<exists>before it after. ?split (items @ [last]) before it after"
    then obtain before it after where "?split (items @ [last]) before it after" by (elim exE)
    from old [OF this] show "P last \<or> fst last \<notin> set APPLIED_AT \<and>
        (\<exists>before it after. ?split items before it after)" by blast
  next
    assume "P last \<or> fst last \<notin> set APPLIED_AT \<and> (\<exists>before it after. ?split items before it after)"
    then show "\<exists>before it after. ?split (items @ [last]) before it after"
    proof
      assume "P last"
      from new [OF this] show ?thesis by (intro exI)
    next
      assume "fst last \<notin> set APPLIED_AT \<and> (\<exists>before it after. ?split items before it after)"
      then obtain before it after where "fst last \<notin> set APPLIED_AT" "?split items before it after"
        by blast
      from keep [OF this(2,1)] show ?thesis by (intro exI)
    qed
  qed
  moreover have "list_ex P (since_applied (items @ [last])) \<longleftrightarrow>
      P last \<or> fst last \<notin> set APPLIED_AT \<and> list_ex P (since_applied items)"
    using P [of last] by (auto simp: since_applied_snoc)
  ultimately show ?case using snoc by simp
qed

section \<open>Properties\<close>

text \<open>The pending changes of an app are exactly what its log records after the last load or
  start, a rekeyed secret excepted: of the config kind when some such record is of config or a
  bind, of the route kind when some such record is of the subdomain or a route assignment.\<close>

lemma pending_changes_by_log_order:
  assumes "history fromiso t [] [] = Inr items"
  shows "\<exists>p. changes_since_start fromiso t = Inr p \<and>
    (pc_config p \<longleftrightarrow> (\<exists>before it after. items = before @ it # after \<and> config_change it \<and>
       (\<forall>a \<in> set after. fst a \<notin> set APPLIED_AT))) \<and>
    (pc_routes p \<longleftrightarrow> (\<exists>before it after. items = before @ it # after \<and> route_change it \<and>
       (\<forall>a \<in> set after. fst a \<notin> set APPLIED_AT)))"
proof -
  have "config_change it \<Longrightarrow> fst it \<notin> set APPLIED_AT" "route_change it \<Longrightarrow> fst it \<notin> set APPLIED_AT" for it
    by (simp_all add: config_change_def route_change_def)
  note since_applied_split [of config_change, OF this(1)] since_applied_split [of route_change, OF this(2)]
  then show ?thesis
    by (simp only: changes_since_start_def assms pending_fold andthen_simps) auto
qed

text \<open>An app's log: loaded, then a config value changed within the same second.\<close>

definition demo_log_record :: "string \<Rightarrow> string" where
  "demo_log_record key = render_fields ''2026-01-01T00:00:00Z'' ''set'' key ''1'' @ [LF]"

definition demo_app_log :: logtab where
  "demo_app_log =
     \<lparr>lt_file = demo_log_record ''meta/loaded_at'' @ demo_log_record ''config/port'',
      lt_strict = False, lt_compact_size = 0, lt_compact_history = 0\<rparr>"

definition demo_entry :: log_entry where
  "demo_entry = \<lparr>le_ts = ''2026-01-01T00:00:00Z'', le_value = ''1''\<rparr>"

lemma demo_app_history:
  "history demo_clock demo_app_log [] [] =
    Inr [(''meta/loaded_at'', demo_entry), (''config/port'', demo_entry)]"
  by code_simp

lemma pending_changes_by_log_order_witness:
  "\<exists>p. changes_since_start demo_clock demo_app_log = Inr p \<and> pc_config p \<and> \<not> pc_routes p"
proof -
  have port: "config_change (''config/port'', demo_entry)" "\<not> route_change (''config/port'', demo_entry)"
    and load: "\<not> route_change (''meta/loaded_at'', demo_entry)"
    by code_simp+
  obtain p where p: "changes_since_start demo_clock demo_app_log = Inr p"
    and c: "pc_config p \<longleftrightarrow> (\<exists>before it after.
        [(''meta/loaded_at'', demo_entry), (''config/port'', demo_entry)] = before @ it # after \<and>
        config_change it \<and> (\<forall>a \<in> set after. fst a \<notin> set APPLIED_AT))"
    and r: "pc_routes p \<longleftrightarrow> (\<exists>before it after.
        [(''meta/loaded_at'', demo_entry), (''config/port'', demo_entry)] = before @ it # after \<and>
        route_change it \<and> (\<forall>a \<in> set after. fst a \<notin> set APPLIED_AT))"
    using pending_changes_by_log_order [OF demo_app_history] by blast
  have "pc_config p"
    unfolding c using port(1)
    by (intro exI [of _ "[(''meta/loaded_at'', demo_entry)]"] exI [of _ "(''config/port'', demo_entry)"]
        exI [of _ "[]"]) simp
  moreover have "\<not> pc_routes p"
    unfolding r using port(2) load
    by (auto simp: Cons_eq_append_conv append_eq_Cons_conv)
  ultimately show ?thesis using p by blast
qed

text \<open>Compaction orders the records of one second by their key, so a change written in the
  second of the load, after it, is no longer pending once the log is compacted.\<close>

lemma compaction_loses_pending_change:
  "changes_since_start demo_clock demo_app_log = Inr \<lparr>pc_config = True, pc_routes = False\<rparr> \<and>
    (case compact demo_clock ''2026-01-01T00:00:01Z'' 0 demo_app_log of
       Inl e \<Rightarrow> False
     | Inr t \<Rightarrow> changes_since_start demo_clock t = Inr \<lparr>pc_config = False, pc_routes = False\<rparr>)"
  by code_simp

lemma by_unit_keys: "set (keys (by_unit ob)) = us_run_unit ` set (ob_containers ob)"
proof -
  have "set (keys (foldl (\<lambda>d c. AList.update (us_run_unit c) c d) [] cs)) = us_run_unit ` set cs" for cs
    by (induction cs rule: rev_induct) (auto simp: keys_update)
  then show ?thesis by (simp add: by_unit_def)
qed

lemma by_unit_distinct: "distinct (keys (by_unit ob))"
proof -
  have "distinct (keys (foldl (\<lambda>d c. AList.update (us_run_unit c) c d) [] cs))" for cs
    by (induction cs rule: rev_induct) (simp_all add: distinct_update)
  then show ?thesis by (simp add: by_unit_def)
qed

lemma by_unit_values: "c \<in> set (List.map snd (by_unit ob)) \<longleftrightarrow> (\<exists>u. map_of (by_unit ob) u = Some c)"
  using by_unit_distinct [of ob] by (force simp: map_of_eq_Some_iff)

lemma app_status_cases:
  "app_status ob units =
    (if running_count ob = 0
     then (if by_unit ob \<noteq> [] \<and> (\<forall>u \<in> set units \<union> us_run_unit ` set (ob_containers ob).
              \<exists>c. map_of (by_unit ob) u = Some c \<and> us_finished c) then FINISHED else STOPPED)
     else if \<not> (\<forall>u \<in> set units \<union> us_run_unit ` set (ob_containers ob).
              \<exists>c. map_of (by_unit ob) u = Some c \<and> unit_active c) then DEGRADED
     else if (\<exists>u c. map_of (by_unit ob) u = Some c \<and> us_running c \<and> us_health c \<noteq> []) \<and>
             (\<forall>u c. map_of (by_unit ob) u = Some c \<and> us_running c \<longrightarrow> us_health c \<in> {[], ''healthy''})
     then HEALTHY else OK)"
proof -
  have holds: "list_all (\<lambda>unit. case map_of (by_unit ob) unit of None \<Rightarrow> False | Some c \<Rightarrow> P c)
        (unit_names units (by_unit ob)) \<longleftrightarrow>
      (\<forall>u \<in> set units \<union> us_run_unit ` set (ob_containers ob).
        \<exists>c. map_of (by_unit ob) u = Some c \<and> P c)" for P
  proof -
    have "set (unit_names units (by_unit ob)) = set units \<union> us_run_unit ` set (ob_containers ob)"
      using by_unit_keys [of ob] by (simp add: unit_names_def)
    moreover have "(case x of None \<Rightarrow> False | Some c \<Rightarrow> P c) \<longleftrightarrow> (\<exists>c. x = Some c \<and> P c)" for x
      by (cases x) auto
    ultimately show ?thesis by (simp add: list_all_iff)
  qed
  let ?checked = "List.filter (\<lambda>h. h \<noteq> [])
      (List.map us_health (List.filter us_running (List.map snd (by_unit ob))))"
  have in_checked: "h \<in> set ?checked \<longleftrightarrow>
      h \<noteq> [] \<and> (\<exists>u c. map_of (by_unit ob) u = Some c \<and> us_running c \<and> us_health c = h)" for h
    using by_unit_values [of _ ob] by auto
  have "?checked \<noteq> [] \<longleftrightarrow> (\<exists>h. h \<in> set ?checked)" by (cases ?checked) auto
  then have ne: "?checked \<noteq> [] \<longleftrightarrow>
      (\<exists>u c. map_of (by_unit ob) u = Some c \<and> us_running c \<and> us_health c \<noteq> [])"
    unfolding in_checked by blast
  have all: "list_all (\<lambda>h. h = ''healthy'') ?checked \<longleftrightarrow>
      (\<forall>u c. map_of (by_unit ob) u = Some c \<and> us_running c \<longrightarrow> us_health c \<in> {[], ''healthy''})"
    unfolding list_all_iff Ball_def in_checked by blast
  show ?thesis
    unfolding app_status_def Let_def holds ne all by simp
qed

text \<open>The status of an app in one word. It is \<open>healthy\<close> exactly when something runs, every unit
  declared or present is up (or a finished one-shot) and not unhealthy, and some running unit
  has a health check, all of them passing; with something running and some unit down it is
  degraded; with nothing running it is finished or stopped.\<close>

lemma app_status_meaning:
  "(app_status ob units = HEALTHY \<longleftrightarrow> running_count ob > 0 \<and>
      list_all (\<lambda>u. \<exists>c. map_of (by_unit ob) u = Some c \<and> unit_active c)
        (units @ List.map us_run_unit (ob_containers ob)) \<and>
      (\<exists>u c. map_of (by_unit ob) u = Some c \<and> us_running c \<and> us_health c \<noteq> []) \<and>
      \<not> (\<exists>u c. map_of (by_unit ob) u = Some c \<and> us_running c \<and> us_health c \<notin> {[], ''healthy''})) \<and>
    (app_status ob units = DEGRADED \<longleftrightarrow> running_count ob > 0 \<and>
      list_ex (\<lambda>u. \<nexists>c. map_of (by_unit ob) u = Some c \<and> unit_active c)
        (units @ List.map us_run_unit (ob_containers ob))) \<and>
    (app_status ob units \<in> {FINISHED, STOPPED} \<longleftrightarrow> running_count ob = 0)"
  unfolding app_status_cases list_all_iff list_ex_iff by auto

end
