(* ===== verification/Config.thy ===== *)
theory Config
  imports Store Cronexpr
begin

text \<open>
  \<^verbatim>\<open>kelso/lib/config.py\<close>, the repos of \<^verbatim>\<open>kelso/lib/repo.py\<close> and the edits of
  \<^verbatim>\<open>kelso/lib/config_edit.py\<close>. \<open>config_file\<close> is the file after pydantic's per-table validation
  (third-party, so its result is an input here); the cross-cutting checks, the soft-failing
  \<^verbatim>\<open>[repo]\<close> section, the route-provider lists and the derived paths are modelled whole. The
  path expansion \<open>ep\<close>, which resolves links on disk, is a parameter.
\<close>

section \<open>Strings and paths\<close>

definition strip :: "string \<Rightarrow> string" where
  "strip s = rev (dropWhile is_space (rev (dropWhile is_space s)))"

text \<open>\<open>a / b\<close> of two POSIX paths.\<close>

definition path_join :: "string \<Rightarrow> string \<Rightarrow> string" where
  "path_join a b =
     (if starts_with b ''/'' then b
      else if b = [] then a
      else if ends_with a ''/'' then a @ b else a @ ''/'' @ b)"

definition path_joins :: "string \<Rightarrow> string list \<Rightarrow> string" where
  "path_joins a bs = foldl path_join a bs"

section \<open>The route providers of one route\<close>

definition PLACEHOLDER_DOMAIN :: string where "PLACEHOLDER_DOMAIN = ''kelso.localhost''"
definition SECRET_ARG_SUFFIX :: string where "SECRET_ARG_SUFFIX = ''_secret''"

datatype provider_error =
    NoneCombined string string
  | EmptyProviderTag string string
  | RepeatedTags string "string list"

definition repeated_tags :: "string list \<Rightarrow> string list" where
  "repeated_tags tags = sort (remdups (List.filter (\<lambda>t. count_list tags t > 1) tags))"

definition parse_route_providers :: "string \<Rightarrow> string \<Rightarrow> provider_error + string list" where
  "parse_route_providers route raw =
     (let tags = List.map strip (split_on (CHR '','') raw)
      in if tags = [NONE_ROUTE_PROVIDER_TAG] then Inr []
         else if NONE_ROUTE_PROVIDER_TAG \<in> set tags then Inl (NoneCombined route raw)
         else if [] \<in> set tags then Inl (EmptyProviderTag route raw)
         else if repeated_tags tags \<noteq> [] then Inl (RepeatedTags route (repeated_tags tags))
         else Inr tags)"

definition format_route_providers :: "string list \<Rightarrow> string" where
  "format_route_providers tags =
     (let joined = join '','' tags in if joined = [] then NONE_ROUTE_PROVIDER_TAG else joined)"

section \<open>The file\<close>

datatype provider_kind = NginxProxyManager | Pangolin | CloudflareTunnel | NoopProvider

record route_provider_entry =
  rp_kind :: provider_kind
  rp_domain :: string
  rp_args :: "(string, string) dict"

record repo_entry =
  re_path :: "string option"
  re_url :: "string option"

record host_volume_entry =
  hve_path :: string
  hve_readonly :: bool
  hve_require_mount :: bool

record backup_keep =
  bk_daily :: nat
  bk_weekly :: nat
  bk_monthly :: nat
  bk_manual :: nat

definition default_keep :: backup_keep where
  "default_keep = \<lparr>bk_daily = 3, bk_weekly = 2, bk_monthly = 1, bk_manual = 5\<rparr>"

record backup_entry =
  be_schedule :: "string option"
  be_require_mount :: bool
  be_keep :: backup_keep

record config_file =
  cf_repos_root :: string
  cf_port_base :: int
  cf_kelso_address :: string
  cf_default_route_provider :: string
  cf_route_provider :: "(string, route_provider_entry) dict"
  cf_host_volume :: "(string, host_volume_entry) dict"
  cf_backup :: backup_entry

definition default_config_file :: config_file where
  "default_config_file =
     \<lparr>cf_repos_root = ''repos'', cf_port_base = 41000, cf_kelso_address = [],
      cf_default_route_provider = NONE_ROUTE_PROVIDER_TAG, cf_route_provider = [],
      cf_host_volume = [],
      cf_backup = \<lparr>be_schedule = None, be_require_mount = False, be_keep = default_keep\<rparr>\<rparr>"

record host_volume =
  hv_tag :: string
  hv_path :: string
  hv_readonly :: bool
  hv_require_mount :: bool

datatype repo_kind = LocalRepo | GithubRepo

record repo =
  repo_name :: string
  repo_path :: string
  repo_kind_of :: repo_kind
  repo_remote :: "github_folder option"
  repo_checkout :: "string option"

definition LOCAL_REPO :: string where "LOCAL_REPO = ''local''"

definition mirrored :: "repo \<Rightarrow> bool" where
  "mirrored r \<longleftrightarrow> repo_remote r \<noteq> None"

definition repo_describe :: "repo \<Rightarrow> string" where
  "repo_describe r = (case repo_remote r of Some g \<Rightarrow> gf_url g | None \<Rightarrow> repo_path r)"

record config =
  cfg_config_path :: string
  cfg_kelso_root :: string
  cfg_repos_root :: string
  cfg_repos :: "(string, repo) dict"
  cfg_master_key :: string
  cfg_port_base :: int
  cfg_kelso_address :: string
  cfg_default_route_provider :: string
  cfg_route_providers :: "(string, route_provider_entry) dict"
  cfg_host_volumes :: "(string, host_volume) dict"
  cfg_backup :: backup_entry

definition local_repo :: "string \<Rightarrow> repo" where
  "local_repo repos_root =
     \<lparr>repo_name = LOCAL_REPO, repo_path = path_join repos_root LOCAL_REPO, repo_kind_of = LocalRepo,
      repo_remote = None, repo_checkout = None\<rparr>"

section \<open>Cross-cutting checks\<close>

datatype config_problem =
    ReservedTag
  | BadSchedule cron_error
  | BadProviderTag string
  | NeedsAddress "string list"
  | BadVolumeTag string
  | EmptyDefaultProvider
  | UnknownDefaultProvider string

definition validate_config :: "config_file \<Rightarrow> config_problem list" where
  "validate_config p =
     (if NONE_ROUTE_PROVIDER_TAG \<in> set (keys (cf_route_provider p)) then [ReservedTag] else [])
     @ (case be_schedule (cf_backup p) of
          None \<Rightarrow> []
        | Some s \<Rightarrow> (case parse_schedule s of Inl e \<Rightarrow> [BadSchedule e] | Inr _ \<Rightarrow> []))
     @ List.map BadProviderTag
         (List.filter (\<lambda>tag. \<not> is_identifier tag) (keys (cf_route_provider p)))
     @ (if cf_kelso_address p = []
        then (let proxying = sort (keys (List.filter (\<lambda>(tag, e). rp_kind e \<noteq> NoopProvider)
                  (cf_route_provider p)))
              in if proxying = [] then [] else [NeedsAddress proxying])
        else [])
     @ List.map BadVolumeTag (List.filter (\<lambda>tag. \<not> is_identifier tag) (keys (cf_host_volume p)))
     @ (let default = cf_default_route_provider p
        in if default = [] then [EmptyDefaultProvider]
           else if default \<in> set (NONE_ROUTE_PROVIDER_TAG # keys (cf_route_provider p)) then []
           else [UnknownDefaultProvider default])"

section \<open>The \<open>[repo]\<close> section, which fails softly\<close>

datatype repo_problem =
    NotATable
  | BadRepoEntry string
  | NeedsExactlyOne string
  | BadRepoName string
  | CollidesWithLocal string
  | UnusableUrl string url_error
  | AlreadyARepo string string

text \<open>
  The loop carries the repos so far and the names by location. An entry is \<open>None\<close> where
  pydantic refuses it. The caller turns a problem into no extra repos at all.
\<close>

fun resolve_repos_loop ::
    "string \<Rightarrow> (string \<Rightarrow> string) \<Rightarrow> (string \<times> repo_entry option) list
       \<Rightarrow> (string, repo) dict \<Rightarrow> (string, string) dict \<Rightarrow> repo_problem + (string, repo) dict" where
  "resolve_repos_loop repos_root ep [] repos names = Inr repos"
| "resolve_repos_loop repos_root ep ((name, None) # rest) repos names = Inl (BadRepoEntry name)"
| "resolve_repos_loop repos_root ep ((name, Some entry) # rest) repos names =
     (if (re_path entry = None) = (re_url entry = None) then Inl (NeedsExactlyOne name)
      else if \<not> is_identifier name then Inl (BadRepoName name)
      else if name = LOCAL_REPO then Inl (CollidesWithLocal name)
      else case re_url entry of
        Some url \<Rightarrow>
          (case parse_github_url url of
             Inl e \<Rightarrow> Inl (UnusableUrl name e)
           | Inr remote \<Rightarrow>
               (let checkout = path_join repos_root name
                in resolve_repos_loop repos_root ep rest
                     (AList.update name
                       \<lparr>repo_name = name, repo_path = path_joins checkout (gf_path remote),
                        repo_kind_of = GithubRepo, repo_remote = Some remote,
                        repo_checkout = Some checkout\<rparr> repos)
                     (AList.update (path_join repos_root name) name names)))
      | None \<Rightarrow>
          (case re_path entry of
             None \<Rightarrow> Inl (NeedsExactlyOne name)
           | Some raw \<Rightarrow>
               (let path = ep raw
                in case map_of names path of
                     Some other \<Rightarrow> Inl (AlreadyARepo name other)
                   | None \<Rightarrow>
                       resolve_repos_loop repos_root ep rest
                         (AList.update name
                           \<lparr>repo_name = name, repo_path = path, repo_kind_of = LocalRepo,
                            repo_remote = None, repo_checkout = None\<rparr> repos)
                         (AList.update path name names))))"

definition resolve_repos ::
    "(string \<times> repo_entry option) list option \<Rightarrow> string \<Rightarrow> (string \<Rightarrow> string) \<Rightarrow> (string, repo) dict" where
  "resolve_repos entries repos_root ep =
     (case entries of
        None \<Rightarrow> []
      | Some es \<Rightarrow>
          (case resolve_repos_loop repos_root ep es [] [(path_join repos_root LOCAL_REPO, LOCAL_REPO)] of
             Inl problem \<Rightarrow> []
           | Inr repos \<Rightarrow> repos))"

section \<open>Loading\<close>

definition noop_entry :: route_provider_entry where
  "noop_entry = \<lparr>rp_kind = NoopProvider, rp_domain = PLACEHOLDER_DOMAIN, rp_args = []\<rparr>"

definition load_config_file ::
    "string \<Rightarrow> string \<Rightarrow> (string \<Rightarrow> string) \<Rightarrow> string \<Rightarrow> config_file
       \<Rightarrow> (string \<times> repo_entry option) list option \<Rightarrow> config_problem list + config" where
  "load_config_file config_path kelso_root ep master_key parsed repo_raw =
     (let errors = validate_config parsed
      in if errors \<noteq> [] then Inl errors
         else (let repos_root = ep (cf_repos_root parsed)
               in Inr \<lparr>cfg_config_path = config_path, cfg_kelso_root = kelso_root,
                    cfg_repos_root = repos_root,
                    cfg_repos = dict_merge [(LOCAL_REPO, local_repo repos_root)]
                      (resolve_repos repo_raw repos_root ep),
                    cfg_master_key = master_key, cfg_port_base = cf_port_base parsed,
                    cfg_kelso_address = cf_kelso_address parsed,
                    cfg_default_route_provider = cf_default_route_provider parsed,
                    cfg_route_providers =
                      dict_merge [(NONE_ROUTE_PROVIDER_TAG, noop_entry)] (cf_route_provider parsed),
                    cfg_host_volumes = List.map (\<lambda>(tag, e).
                      (tag, \<lparr>hv_tag = tag, hv_path = ep (hve_path e), hv_readonly = hve_readonly e,
                             hv_require_mount = hve_require_mount e\<rparr>)) (cf_host_volume parsed),
                    cfg_backup = cf_backup parsed\<rparr>))"

definition provider_domain :: "config \<Rightarrow> string \<Rightarrow> string" where
  "provider_domain cfg tag =
     (if tag = [] \<or> tag = NONE_ROUTE_PROVIDER_TAG then PLACEHOLDER_DOMAIN
      else case map_of (cfg_route_providers cfg) tag of
        None \<Rightarrow> PLACEHOLDER_DOMAIN
      | Some conf \<Rightarrow> rp_domain conf)"

definition secret_references :: "config \<Rightarrow> (string, string list) dict" where
  "secret_references cfg =
     foldl (\<lambda>refs (name, where_named).
         AList.update name ((case map_of refs name of None \<Rightarrow> [] | Some ws \<Rightarrow> ws) @ [where_named]) refs)
       []
       [(name, ''route_provider.'' @ tag @ ''.args.'' @ arg).
          (tag, entry) \<leftarrow> sort_key fst (cfg_route_providers cfg),
          (arg, name) \<leftarrow> sort_key fst (rp_args entry),
          ends_with arg SECRET_ARG_SUFFIX]"

section \<open>Where things are\<close>

definition VOLUME_KINDS :: "string list" where
  "VOLUME_KINDS = [''data'', ''temp'', ''bulk'', ''logs'']"
definition VAR_DIRS :: "string list" where
  "VAR_DIRS = [''run'', ''conn'', ''logs'', ''temp'', ''lock'']"
definition CONF_DIR :: string where "CONF_DIR = ''conf''"
definition MASTER_KEYFILE :: string where "MASTER_KEYFILE = ''master.key''"

definition var_root :: "config \<Rightarrow> string" where
  "var_root cfg = path_join (cfg_kelso_root cfg) ''var''"
definition lock_root :: "config \<Rightarrow> string" where
  "lock_root cfg = path_join (var_root cfg) ''lock''"
definition kelso_lockfile_path :: "config \<Rightarrow> string" where
  "kelso_lockfile_path cfg = path_join (lock_root cfg) ''kelso.lock''"
definition app_lockfile_path :: "config \<Rightarrow> string \<Rightarrow> string" where
  "app_lockfile_path cfg app = path_join (lock_root cfg) (app @ ''.lock'')"
definition temp_root :: "config \<Rightarrow> string" where
  "temp_root cfg = path_join (var_root cfg) ''temp''"
definition volume_roots :: "config \<Rightarrow> (string, string) dict" where
  "volume_roots cfg =
     List.map (\<lambda>kind. (kind, path_joins (cfg_kelso_root cfg) [''volumes'', kind])) VOLUME_KINDS"
definition backups_root :: "config \<Rightarrow> string" where
  "backups_root cfg = path_join (cfg_kelso_root cfg) ''backups''"
definition run_root :: "config \<Rightarrow> string" where
  "run_root cfg = path_join (var_root cfg) ''run''"
definition conf_root :: "config \<Rightarrow> string" where
  "conf_root cfg = path_join (cfg_kelso_root cfg) CONF_DIR"
definition master_keyfile :: "config \<Rightarrow> string" where
  "master_keyfile cfg = path_join (conf_root cfg) MASTER_KEYFILE"
definition kelsodb_path :: "config \<Rightarrow> string" where
  "kelsodb_path cfg = path_join (conf_root cfg) ''kelsodb.logtab''"
definition activity_log :: "config \<Rightarrow> string" where
  "activity_log cfg = path_join (var_root cfg) ''activity.logtab''"
definition metrics_log :: "config \<Rightarrow> string" where
  "metrics_log cfg = path_join (var_root cfg) ''metrics.logtab''"
definition activity_root :: "config \<Rightarrow> string" where
  "activity_root cfg = path_join (var_root cfg) ''logs''"
definition app_run_path :: "config \<Rightarrow> string \<Rightarrow> string" where
  "app_run_path cfg app = path_join (run_root cfg) app"
definition conn_root :: "config \<Rightarrow> string" where
  "conn_root cfg = path_join (var_root cfg) ''conn''"
definition admin_socket_path :: "config \<Rightarrow> string" where
  "admin_socket_path cfg = path_join (conn_root cfg) ''admin.sock''"
definition app_config_root :: "config \<Rightarrow> string" where
  "app_config_root cfg = path_join (conf_root cfg) ''apps''"
definition app_config_path :: "config \<Rightarrow> string \<Rightarrow> string" where
  "app_config_path cfg app = path_join (app_config_root cfg) (app @ ''.logtab'')"

text \<open>\<open>entries\<close> are the names in the app config directory, each with whether it is a file.\<close>

definition app_config_ids :: "(string \<times> bool) list \<Rightarrow> string list" where
  "app_config_ids entries =
     List.map_filter (\<lambda>(name, is_file).
         if \<not> ends_with name ''.logtab'' \<or> name = ''.logtab'' \<or> \<not> is_file then None
         else (let app = remove_suffix name ''.logtab'' in if is_app_id app then Some app else None))
       entries"

section \<open>Route-provider lists\<close>

lemma dropWhile_idem [simp]: "dropWhile P (dropWhile P s) = dropWhile P s"
  by (induction s) auto

lemma dropWhile_rev_dropWhile:
  "dropWhile P s = s \<Longrightarrow> dropWhile P (rev (dropWhile P (rev s))) = rev (dropWhile P (rev s))"
proof -
  assume s: "dropWhile P s = s"
  have "rev (dropWhile P (rev s)) = [] \<or> hd (rev (dropWhile P (rev s))) = hd s"
  proof (cases "dropWhile P (rev s) = []")
    case False
    have "s = rev (dropWhile P (rev s)) @ rev (takeWhile P (rev s))"
      by (metis rev_append rev_rev_ident takeWhile_dropWhile_id)
    with False show ?thesis by (metis hd_append2 rev_is_Nil_conv)
  qed simp
  moreover have "s = [] \<or> \<not> P (hd s)" using s by (metis hd_dropWhile)
  ultimately show ?thesis
    by (cases "rev (dropWhile P (rev s))") (auto simp: dropWhile_eq_self_iff)
qed

lemma strip_strip [simp]: "strip (strip s) = strip s"
proof -
  let ?t = "dropWhile is_space s"
  have "dropWhile is_space (rev (dropWhile is_space (rev ?t))) = rev (dropWhile is_space (rev ?t))"
    by (rule dropWhile_rev_dropWhile) simp
  then show ?thesis by (simp add: strip_def)
qed

lemma set_strip: "set (strip s) \<subseteq> set s"
  unfolding strip_def by (auto dest!: set_dropWhileD)

lemma repeated_tags_Nil: "repeated_tags tags = [] \<longleftrightarrow> distinct tags"
proof -
  have "repeated_tags tags = [] \<longleftrightarrow> (\<forall>t \<in> set tags. count_list tags t \<le> 1)"
    by (simp add: repeated_tags_def filter_empty_conv not_less)
  also have "\<dots> \<longleftrightarrow> distinct tags"
  proof (induction tags)
    case (Cons t tags)
    have "count_list tags t = 0 \<longleftrightarrow> t \<notin> set tags" by (simp add: count_list_0_iff)
    with Cons show ?case by (auto split: if_splits)
  qed simp
  finally show ?thesis .
qed

lemma parse_route_providers_Inr:
  assumes "parse_route_providers route raw = Inr tags"
  shows "NONE_ROUTE_PROVIDER_TAG \<notin> set tags" "[] \<notin> set tags" "distinct tags"
    "\<forall>t \<in> set tags. strip t = t \<and> CHR '','' \<notin> set t"
proof -
  let ?tags = "List.map strip (split_on (CHR '','') raw)"
  from assms have t: "tags = [] \<or> tags = ?tags \<and> NONE_ROUTE_PROVIDER_TAG \<notin> set ?tags \<and>
      [] \<notin> set ?tags \<and> repeated_tags ?tags = []"
    unfolding parse_route_providers_def Let_def by (simp split: if_splits)
  then show "NONE_ROUTE_PROVIDER_TAG \<notin> set tags" "[] \<notin> set tags" "distinct tags"
    using repeated_tags_Nil [of ?tags] by auto
  have "strip t = t \<and> CHR '','' \<notin> set t" if tin: "t \<in> set ?tags" for t
  proof -
    from tin obtain p where "p \<in> set (split_on (CHR '','') raw)" "t = strip p" by auto
    then show ?thesis using split_on_parts [of p "CHR '',''" raw] set_strip [of p] by auto
  qed
  then have all: "\<forall>t \<in> set ?tags. strip t = t \<and> CHR '','' \<notin> set t" by blast
  show "\<forall>t \<in> set tags. strip t = t \<and> CHR '','' \<notin> set t"
  proof (cases "tags = []")
    case False
    with t have "tags = ?tags" by blast
    with all show ?thesis by (simp only:)
  qed simp
qed

lemma parse_format_route_providers:
  assumes "NONE_ROUTE_PROVIDER_TAG \<notin> set tags" "[] \<notin> set tags" "distinct tags"
    and "\<forall>t \<in> set tags. strip t = t \<and> CHR '','' \<notin> set t"
  shows "parse_route_providers route (format_route_providers tags) = Inr tags"
proof (cases "tags = []")
  case True
  have "List.map strip (split_on (CHR '','') NONE_ROUTE_PROVIDER_TAG) = [NONE_ROUTE_PROVIDER_TAG]"
    by code_simp
  with True show ?thesis
    by (simp add: format_route_providers_def parse_route_providers_def)
next
  case False
  then obtain t ts where "tags = t # ts" by (cases tags) auto
  then have "join '','' tags \<noteq> []" using assms(2) by (cases ts) auto
  moreover have "split_on (CHR '','') (join '','' tags) = tags"
    using split_on_join [OF False, of "CHR '',''"] assms(4) by simp
  moreover have "List.map strip tags = tags" using assms(4) by (simp add: map_idI)
  ultimately show ?thesis
    using assms repeated_tags_Nil [of tags]
    by (auto simp: format_route_providers_def parse_route_providers_def Let_def)
qed

section \<open>What an accepted file guarantees\<close>

lemma validate_config_ok:
  assumes "validate_config p = []"
  shows "NONE_ROUTE_PROVIDER_TAG \<notin> set (keys (cf_route_provider p))"
    and "\<And>s. be_schedule (cf_backup p) = Some s \<Longrightarrow> \<exists>c. parse_schedule s = Inr c"
    and "\<And>tag e. (tag, e) \<in> set (cf_route_provider p) \<Longrightarrow> is_identifier tag"
    and "\<And>tag e. (tag, e) \<in> set (cf_host_volume p) \<Longrightarrow> is_identifier tag"
    and "\<And>tag e. cf_kelso_address p = [] \<Longrightarrow> (tag, e) \<in> set (cf_route_provider p) \<Longrightarrow>
      rp_kind e = NoopProvider"
    and "cf_default_route_provider p \<noteq> []"
    and "cf_default_route_provider p \<in> set (NONE_ROUTE_PROVIDER_TAG # keys (cf_route_provider p))"
proof -
  note e = assms [unfolded validate_config_def Let_def]
  show "NONE_ROUTE_PROVIDER_TAG \<notin> set (keys (cf_route_provider p))"
    using e by (simp split: if_splits)
  show "\<exists>c. parse_schedule s = Inr c" if "be_schedule (cf_backup p) = Some s" for s
    using e that by (cases "parse_schedule s") auto
  have r: "List.filter (\<lambda>tag. \<not> is_identifier tag) (keys (cf_route_provider p)) = []"
    and v: "List.filter (\<lambda>tag. \<not> is_identifier tag) (keys (cf_host_volume p)) = []"
    using e by simp_all
  show "is_identifier tag" if "(tag, e) \<in> set (cf_route_provider p)" for tag e
    using r that unfolding filter_empty_conv by (metis fst_conv image_eqI set_map)
  show "is_identifier tag" if "(tag, e) \<in> set (cf_host_volume p)" for tag e
    using v that unfolding filter_empty_conv by (metis fst_conv image_eqI set_map)
  show "rp_kind en = NoopProvider" if "cf_kelso_address p = []" "(tag, en) \<in> set (cf_route_provider p)"
    for tag en
  proof -
    from e that(1) have "sort (keys (List.filter (\<lambda>(tag, e). rp_kind e \<noteq> NoopProvider)
        (cf_route_provider p))) = []"
      by (simp split: if_splits)
    then have "List.filter (\<lambda>(tag, e). rp_kind e \<noteq> NoopProvider) (cf_route_provider p) = []"
      by simp
    with that(2) show ?thesis by (auto simp: filter_empty_conv)
  qed
  show "cf_default_route_provider p \<noteq> []"
    using e by (simp split: if_splits)
  show "cf_default_route_provider p \<in> set (NONE_ROUTE_PROVIDER_TAG # keys (cf_route_provider p))"
    using e by (simp split: if_splits)
qed

section \<open>The repos\<close>

definition repos_inv :: "(string, repo) dict \<Rightarrow> (string, string) dict \<Rightarrow> bool" where
  "repos_inv repos names \<longleftrightarrow>
     (\<forall>n r. map_of repos n = Some r \<longrightarrow> is_identifier n \<and> n \<noteq> LOCAL_REPO \<and> repo_name r = n \<and>
        (repo_kind_of r = LocalRepo \<longrightarrow> repo_path r \<in> set (keys names))) \<and>
     (\<forall>n n' r r'. map_of repos n = Some r \<longrightarrow> map_of repos n' = Some r' \<longrightarrow>
        repo_kind_of r = LocalRepo \<longrightarrow> repo_kind_of r' = LocalRepo \<longrightarrow>
        repo_path r = repo_path r' \<longrightarrow> n = n')"

lemma repos_inv_github:
  assumes "repos_inv repos names" "is_identifier name" "name \<noteq> LOCAL_REPO"
    "repo_name r = name" "repo_kind_of r = GithubRepo"
  shows "repos_inv (AList.update name r repos) (AList.update loc name names)"
  using assms unfolding repos_inv_def by (simp add: dom_update)

lemma repos_inv_local:
  assumes "repos_inv repos names" "is_identifier name" "name \<noteq> LOCAL_REPO"
    "repo_name r = name" "map_of names (repo_path r) = None"
  shows "repos_inv (AList.update name r repos) (AList.update (repo_path r) name names)"
proof -
  have "repo_path r \<notin> set (keys names)" using assms(5) by (simp add: map_of_eq_None_iff)
  then have "repo_path r' \<noteq> repo_path r" if "map_of repos n = Some r'" "repo_kind_of r' = LocalRepo" for n r'
    using assms(1) that unfolding repos_inv_def by metis
  with assms(1-4) show ?thesis
    unfolding repos_inv_def by (simp add: dom_update) metis
qed

lemma resolve_repos_loop_inv:
  "resolve_repos_loop root ep es repos names = Inr result \<Longrightarrow> repos_inv repos names \<Longrightarrow>
    \<exists>names'. repos_inv result names' \<and> set (keys names) \<subseteq> set (keys names')"
proof (induction root ep es repos names rule: resolve_repos_loop.induct)
  case (3 root ep name entry rest repos names)
  let ?r = "\<lambda>path kind rem chk. \<lparr>repo_name = name, repo_path = path, repo_kind_of = kind,
      repo_remote = rem, repo_checkout = chk\<rparr>"
  have ok: "(re_path entry = None) \<noteq> (re_url entry = None)" "is_identifier name" "name \<noteq> LOCAL_REPO"
    using 3(3) by (auto split: if_splits)
  show ?case
  proof (cases "re_url entry")
    case (Some url)
    with 3(3) ok obtain remote where g: "parse_github_url url = Inr remote"
      by (auto split: sum.splits)
    let ?repos = "AList.update name (?r (path_joins (path_join root name) (gf_path remote)) GithubRepo
        (Some remote) (Some (path_join root name))) repos"
    let ?names = "AList.update (path_join root name) name names"
    have "repos_inv ?repos ?names"
      by (rule repos_inv_github [OF 3(4) ok(2,3)]) simp_all
    moreover have "resolve_repos_loop root ep rest ?repos ?names = Inr result"
      using 3(3) ok Some g by (simp add: Let_def)
    ultimately have "\<exists>names'. repos_inv result names' \<and> set (keys ?names) \<subseteq> set (keys names')"
      using 3(2) [OF _ _ _ Some g refl] ok by simp
    then show ?thesis by (auto simp: dom_update)
  next
    case None
    with ok obtain raw where raw: "re_path entry = Some raw" by auto
    with 3(3) ok None have fresh: "map_of names (ep raw) = None"
      by (auto simp: Let_def split: option.splits)
    let ?repos = "AList.update name (?r (ep raw) LocalRepo None None) repos"
    let ?names = "AList.update (ep raw) name names"
    have "repos_inv ?repos ?names"
      using repos_inv_local [OF 3(4) ok(2,3), of "?r (ep raw) LocalRepo None None"] fresh by simp
    moreover have "resolve_repos_loop root ep rest ?repos ?names = Inr result"
      using 3(3) ok None raw fresh by (simp add: Let_def)
    ultimately have "\<exists>names'. repos_inv result names' \<and> set (keys ?names) \<subseteq> set (keys names')"
      using 3(1) [OF _ _ _ None raw refl fresh] ok by simp
    then show ?thesis by (auto simp: dom_update)
  qed
qed auto

lemma map_of_rev_distinct: "distinct (keys d) \<Longrightarrow> map_of (rev d) = map_of d"
proof -
  assume d: "distinct (keys d)"
  then have r: "distinct (keys (rev d))" by (simp add: rev_map [symmetric])
  have "map_of (rev d) k = Some v \<longleftrightarrow> map_of d k = Some v" for k v
    using map_of_eq_Some_iff [OF d] map_of_eq_Some_iff [OF r] by simp
  then show ?thesis by (metis ext option.exhaust)
qed

lemma resolve_repos_loop_distinct:
  "resolve_repos_loop root ep es repos names = Inr result \<Longrightarrow> distinct (keys repos) \<Longrightarrow>
    distinct (keys result)"
proof (induction root ep es repos names rule: resolve_repos_loop.induct)
  case (3 root ep name entry rest repos names)
  from 3(3) show ?case
    by (auto simp: Let_def distinct_update 3(4) split: if_splits option.splits sum.splits
        intro: 3(1,2))
qed auto

lemma resolve_repos_inv:
  "\<exists>names. repos_inv (resolve_repos entries root ep) names"
  "distinct (keys (resolve_repos entries root ep))"
proof -
  have empty: "repos_inv [] names" for names by (simp add: repos_inv_def)
  show "\<exists>names. repos_inv (resolve_repos entries root ep) names"
    using resolve_repos_loop_inv [OF _ empty] empty
    by (auto simp: resolve_repos_def split: option.split sum.split) blast
  show "distinct (keys (resolve_repos entries root ep))"
    using resolve_repos_loop_distinct [of root ep _ "[]"]
    by (auto simp: resolve_repos_def split: option.split sum.split)
qed

section \<open>Properties\<close>

text \<open>The provider lists an operator can write for a route are exactly the lists of distinct,
  non-empty, trimmed tags without \<open>none\<close>, and each of them is read back from the text
  \<^verbatim>\<open>format_route_providers\<close> prints for it.\<close>

lemma route_provider_list_roundtrip:
  "((\<exists>raw. parse_route_providers route raw = Inr tags) \<longleftrightarrow>
      parse_route_providers route (format_route_providers tags) = Inr tags) \<and>
    ((\<exists>raw. parse_route_providers route raw = Inr tags) \<longleftrightarrow>
      NONE_ROUTE_PROVIDER_TAG \<notin> set tags \<and> [] \<notin> set tags \<and> distinct tags \<and>
      list_all (\<lambda>t. strip t = t \<and> CHR '','' \<notin> set t) tags)"
  using parse_route_providers_Inr [of route _ tags] parse_format_route_providers [of tags route]
  unfolding list_all_iff by blast

text \<open>A config file that loads names a default provider that exists, has only identifiers as
  provider and host-volume tags, gives every proxying provider an address to point at, keeps
  \<open>none\<close> the built-in provider of the placeholder domain, and has a schedule that parses.\<close>

lemma loaded_config_is_consistent:
  assumes "load_config_file path root ep key parsed repos = Inr cfg"
  shows "cfg_default_route_provider cfg \<in> set (keys (cfg_route_providers cfg)) \<and>
    (\<forall>tag \<in> set (keys (cfg_route_providers cfg)). is_identifier tag) \<and>
    (\<forall>tag \<in> set (keys (cfg_host_volumes cfg)). is_identifier tag) \<and>
    (\<forall>tag e. map_of (cfg_route_providers cfg) tag = Some e \<longrightarrow>
      rp_kind e = NoopProvider \<or> cfg_kelso_address cfg \<noteq> []) \<and>
    provider_domain cfg NONE_ROUTE_PROVIDER_TAG = PLACEHOLDER_DOMAIN \<and>
    map_of (cfg_route_providers cfg) NONE_ROUTE_PROVIDER_TAG = Some noop_entry \<and>
    (\<forall>s. be_schedule (cfg_backup cfg) = Some s \<longrightarrow> (\<exists>c. parse_schedule s = Inr c))"
proof -
  have v: "validate_config parsed = []"
    and providers: "cfg_route_providers cfg =
      dict_merge [(NONE_ROUTE_PROVIDER_TAG, noop_entry)] (cf_route_provider parsed)"
    and rest: "cfg_default_route_provider cfg = cf_default_route_provider parsed"
      "keys (cfg_host_volumes cfg) = keys (cf_host_volume parsed)"
      "cfg_kelso_address cfg = cf_kelso_address parsed" "cfg_backup cfg = cf_backup parsed"
    using assms by (auto simp: load_config_file_def Let_def comp_def case_prod_beta split: if_splits)
  note ok = validate_config_ok [OF v]
  have none_id: "is_identifier NONE_ROUTE_PROVIDER_TAG" by code_simp
  have ks: "set (keys (cfg_route_providers cfg)) =
      insert NONE_ROUTE_PROVIDER_TAG (set (keys (cf_route_provider parsed)))"
    unfolding providers dict_merge_keys by simp
  have lookup: "map_of (cfg_route_providers cfg) tag =
      (case map_of (rev (cf_route_provider parsed)) tag of
         Some e \<Rightarrow> Some e
       | None \<Rightarrow> if tag = NONE_ROUTE_PROVIDER_TAG then Some noop_entry else None)" for tag
    unfolding providers map_of_dict_merge by (auto simp: map_add_def split: option.split)
  have none: "map_of (rev (cf_route_provider parsed)) NONE_ROUTE_PROVIDER_TAG = None"
    using ok(1) by (simp add: map_of_eq_None_iff)
  have "rp_kind e = NoopProvider \<or> cfg_kelso_address cfg \<noteq> []"
    if "map_of (cfg_route_providers cfg) tag = Some e" for tag e
  proof (cases "map_of (rev (cf_route_provider parsed)) tag")
    case None
    with that have "e = noop_entry" by (simp add: lookup split: if_splits)
    then show ?thesis by (simp add: noop_entry_def)
  next
    case (Some e')
    with that have "(tag, e) \<in> set (cf_route_provider parsed)"
      using map_of_SomeD [of "rev (cf_route_provider parsed)" tag e] by (simp add: lookup)
    from ok(5) [OF _ this] show ?thesis by (auto simp: rest)
  qed
  moreover have "\<forall>tag \<in> set (keys (cfg_route_providers cfg)). is_identifier tag"
    unfolding ks using ok(3) none_id by auto
  moreover have "\<forall>tag \<in> set (keys (cfg_host_volumes cfg)). is_identifier tag"
    unfolding rest using ok(4) by auto
  moreover have "cfg_default_route_provider cfg \<in> set (keys (cfg_route_providers cfg))"
    unfolding ks rest using ok(7) by simp
  moreover have "map_of (cfg_route_providers cfg) NONE_ROUTE_PROVIDER_TAG = Some noop_entry"
    using none by (simp add: lookup)
  ultimately show ?thesis using ok(2) by (simp add: provider_domain_def rest)
qed


definition demo_entries :: "(string \<times> repo_entry option) list" where
  "demo_entries =
     [(''mine'', Some \<lparr>re_path = Some ''/k/repos/team'', re_url = None\<rparr>),
      (''team'', Some \<lparr>re_path = None, re_url = Some ''github://org/apps/main''\<rparr>)]"

definition demo_config_file :: config_file where
  "demo_config_file = default_config_file\<lparr>
     cf_kelso_address := ''10.0.0.2'', cf_default_route_provider := ''web'',
     cf_route_provider := [(''web'', \<lparr>rp_kind = Pangolin, rp_domain = ''example.org'', rp_args = []\<rparr>)]\<rparr>"

definition demo_config :: config where
  "demo_config =
     (case load_config_file ''/k/config.toml'' ''/k'' (path_join ''/k'') [] demo_config_file (Some demo_entries) of
        Inr cfg \<Rightarrow> cfg)"

lemma demo_config_valid: "validate_config demo_config_file = []"
  by code_simp

lemma demo_config_loads:
  "load_config_file ''/k/config.toml'' ''/k'' (path_join ''/k'') [] demo_config_file (Some demo_entries) =
    Inr demo_config"
  by (simp add: demo_config_def load_config_file_def demo_config_valid Let_def)

lemma loaded_config_is_consistent_witness:
  "''web'' \<in> set (keys (cfg_route_providers demo_config)) \<and> cfg_kelso_address demo_config = ''10.0.0.2'' \<and>
    provider_domain demo_config NONE_ROUTE_PROVIDER_TAG = PLACEHOLDER_DOMAIN"
proof -
  have "cfg_default_route_provider demo_config = ''web''" "cfg_kelso_address demo_config = ''10.0.0.2''"
    by (simp_all add: demo_config_def load_config_file_def demo_config_valid Let_def,
        simp_all add: demo_config_file_def)
  with loaded_config_is_consistent [OF demo_config_loads] show ?thesis by simp
qed

text \<open>However the \<^verbatim>\<open>[repo]\<close> section reads, the built-in repo is there, every other repo is kept
  under an identifier that is its name, and no two of the operator's local repos stand for one
  directory.\<close>

lemma loaded_repos_distinct:
  assumes "load_config_file path root ep key parsed repos = Inr cfg"
  shows "map_of (cfg_repos cfg) LOCAL_REPO = Some (local_repo (cfg_repos_root cfg)) \<and>
    (\<forall>n r. map_of (cfg_repos cfg) n = Some r \<longrightarrow> is_identifier n \<and> repo_name r = n) \<and>
    (\<forall>n n' r r'. map_of (cfg_repos cfg) n = Some r \<and> map_of (cfg_repos cfg) n' = Some r' \<and>
      n \<noteq> LOCAL_REPO \<and> n' \<noteq> LOCAL_REPO \<and> repo_kind_of r = LocalRepo \<and> repo_kind_of r' = LocalRepo \<and>
      repo_path r = repo_path r' \<longrightarrow> n = n')"
proof -
  let ?root = "cfg_repos_root cfg" and ?extra = "resolve_repos repos (cfg_repos_root cfg) ep"
  have repos: "cfg_repos cfg = dict_merge [(LOCAL_REPO, local_repo ?root)] ?extra"
    using assms by (auto simp: load_config_file_def Let_def split: if_splits)
  obtain names where inv: "repos_inv ?extra names" using resolve_repos_inv(1) by blast
  have lookup: "map_of (cfg_repos cfg) n =
      (case map_of ?extra n of Some r \<Rightarrow> Some r
       | None \<Rightarrow> if n = LOCAL_REPO then Some (local_repo ?root) else None)" for n
    unfolding repos map_of_dict_merge map_of_rev_distinct [OF resolve_repos_inv(2)]
    by (auto simp: map_add_def split: option.split)
  have extra: "map_of ?extra n = Some r \<Longrightarrow> is_identifier n \<and> n \<noteq> LOCAL_REPO \<and> repo_name r = n" for n r
    using inv unfolding repos_inv_def by blast
  then have none: "map_of ?extra LOCAL_REPO = None" by (metis option.exhaust)
  have "is_identifier LOCAL_REPO" by code_simp
  then have names_ok: "is_identifier n \<and> repo_name r = n" if "map_of (cfg_repos cfg) n = Some r" for n r
    using that extra [of n r] by (auto simp: lookup local_repo_def split: option.splits if_splits)
  have "n = n'" if "map_of (cfg_repos cfg) n = Some r" "map_of (cfg_repos cfg) n' = Some r'"
      "n \<noteq> LOCAL_REPO" "n' \<noteq> LOCAL_REPO" "repo_kind_of r = LocalRepo" "repo_kind_of r' = LocalRepo"
      "repo_path r = repo_path r'" for n n' r r'
  proof -
    have "map_of ?extra n = Some r" "map_of ?extra n' = Some r'"
      using that(1-4) by (auto simp: lookup split: option.splits)
    with inv that(5-7) show ?thesis unfolding repos_inv_def by blast
  qed
  moreover have "map_of (cfg_repos cfg) LOCAL_REPO = Some (local_repo ?root)"
    by (simp add: lookup none)
  ultimately show ?thesis using names_ok by blast
qed

lemma loaded_repos_distinct_witness:
  "map_of (cfg_repos demo_config) LOCAL_REPO = Some (local_repo (cfg_repos_root demo_config))"
  using loaded_repos_distinct [OF demo_config_loads] by blast

lemma demo_url:
  "parse_github_url ''github://org/apps/main'' =
    Inr \<lparr>gf_user = ''org'', gf_repo = ''apps'', gf_ref = ''main'', gf_path = []\<rparr>"
  by code_simp

lemma demo_names: "is_identifier ''mine''" "is_identifier ''team''"
  by code_simp+


lemma demo_paths: "path_join ''/k/repos'' ''local'' = ''/k/repos/local''"
  "path_join ''/k'' ''/k/repos/team'' = ''/k/repos/team''"
  "path_join ''/k/repos'' ''team'' = ''/k/repos/team''"
  by code_simp+

lemma demo_loop: "resolve_repos_loop ''/k/repos'' (path_join ''/k'') demo_entries [] [(''/k/repos/local'', ''local'')] =
  Inr [(''mine'', \<lparr>repo_name = ''mine'', repo_path = ''/k/repos/team'', repo_kind_of = LocalRepo,
          repo_remote = None, repo_checkout = None\<rparr>),
       (''team'', \<lparr>repo_name = ''team'', repo_path = ''/k/repos/team'', repo_kind_of = GithubRepo,
          repo_remote = Some \<lparr>gf_user = ''org'', gf_repo = ''apps'', gf_ref = ''main'', gf_path = []\<rparr>,
          repo_checkout = Some ''/k/repos/team''\<rparr>)]"
  unfolding demo_entries_def
  by (simp add: demo_url demo_names demo_paths Let_def path_joins_def LOCAL_REPO_def)

text \<open>A mirrored repo is not checked against the local ones before it: \<open>mine\<close>, a directory, and
  \<open>team\<close>, a mirror under the repos root, are accepted with one location.\<close>

lemma mirror_may_share_a_location:
  "(case (map_of (resolve_repos (Some demo_entries) ''/k/repos'' (path_join ''/k'')) ''mine'',
          map_of (resolve_repos (Some demo_entries) ''/k/repos'' (path_join ''/k'')) ''team'') of
      (Some mine, Some team) \<Rightarrow>
        repo_path mine = ''/k/repos/team'' \<and> repo_path team = repo_path mine \<and>
        repo_kind_of mine = LocalRepo \<and> mirrored team
    | _ \<Rightarrow> False)"
  using demo_loop by (simp add: resolve_repos_def demo_paths mirrored_def LOCAL_REPO_def)

end
