(* ===== verification/ConfigEdit.thy ===== *)
theory ConfigEdit
  imports Config
begin

text \<open>
  \<^verbatim>\<open>kelso/lib/config_edit.py\<close> and the repo verbs of \<^verbatim>\<open>kelso/lib/repo.py\<close>. The document of tomlkit is
  its value, tables as JSON objects (the operator's comments and spacing, which tomlkit keeps,
  are not part of it). \<open>loads_ok\<close> is the check \<^verbatim>\<open>_commit\<close> makes, that the new text loads through
  \<^verbatim>\<open>load_config_file\<close>; the directory checks of a host volume are parameters.
\<close>

datatype edit_error =
    RefusedWrite
  | BadName string
  | VolumeExists string
  | NoSuchVolume string "string list"
  | NoSuchDirectory string
  | NotADirectory string
  | OneOfPathOrUrl
  | BuiltInRepo
  | RepoExists string
  | NoSuchRepo string
  | NoSuchProvider string
  | EmptyAddress

type_synonym document = "(string, json) dict"

text \<open>The file is the document; an edit replaces it only by one that loads.\<close>

definition edit_config ::
    "(document \<Rightarrow> bool) \<Rightarrow> (document \<Rightarrow> edit_error + document) \<Rightarrow> document \<Rightarrow> edit_error + document" where
  "edit_config loads_ok edit file =
     andthen (edit file) (\<lambda>document. if loads_ok document then Inr document else Inl RefusedWrite)"

definition doc_table :: "string \<Rightarrow> document \<Rightarrow> (string, json) dict" where
  "doc_table name document = (case map_of document name of Some (JObj t) \<Rightarrow> t | _ \<Rightarrow> [])"

definition set_in_table :: "string \<Rightarrow> string \<Rightarrow> json \<Rightarrow> document \<Rightarrow> document" where
  "set_in_table name key v document =
     AList.update name (JObj (AList.update key v (doc_table name document))) document"

definition del_in_table :: "string \<Rightarrow> string \<Rightarrow> document \<Rightarrow> document" where
  "del_in_table name key document =
     AList.update name (JObj (AList.delete key (doc_table name document))) document"

definition check_name :: "string \<Rightarrow> edit_error + unit" where
  "check_name name = ensure (is_identifier name) (BadName name)"

definition volume_entry :: "string \<Rightarrow> bool \<Rightarrow> bool \<Rightarrow> json" where
  "volume_entry path readonly require_mount =
     JObj ([(''path'', JStr path)]
           @ [(name, JBool True). (name, on) \<leftarrow> [(''readonly'', readonly), (''require_mount'', require_mount)], on])"

definition check_path ::
    "(string \<Rightarrow> string) \<Rightarrow> (string \<Rightarrow> bool) \<Rightarrow> (string \<Rightarrow> bool) \<Rightarrow> string \<Rightarrow> edit_error + unit" where
  "check_path ep exists_at is_dir raw =
     (let resolved = ep raw
      in if \<not> exists_at resolved then Inl (NoSuchDirectory resolved)
         else if \<not> is_dir resolved then Inl (NotADirectory resolved) else Inr ())"

definition add_host_volume ::
    "(document \<Rightarrow> bool) \<Rightarrow> (string \<Rightarrow> edit_error + unit) \<Rightarrow> config \<Rightarrow> string \<Rightarrow> string \<Rightarrow> bool \<Rightarrow> bool
       \<Rightarrow> document \<Rightarrow> edit_error + document" where
  "add_host_volume loads_ok path_ok cfg tag path readonly require_mount file =
     andthen (check_name tag) (\<lambda>_.
     andthen (ensure (tag \<notin> set (keys (cfg_host_volumes cfg))) (VolumeExists tag)) (\<lambda>_.
     andthen (path_ok path) (\<lambda>_.
       edit_config loads_ok
         (\<lambda>d. Inr (set_in_table ''host_volume'' tag (volume_entry path readonly require_mount) d)) file)))"

definition set_host_volume ::
    "(document \<Rightarrow> bool) \<Rightarrow> (string \<Rightarrow> edit_error + unit) \<Rightarrow> config \<Rightarrow> string \<Rightarrow> string \<Rightarrow> bool \<Rightarrow> bool
       \<Rightarrow> document \<Rightarrow> edit_error + document" where
  "set_host_volume loads_ok path_ok cfg tag path readonly require_mount file =
     andthen (ensure (tag \<in> set (keys (cfg_host_volumes cfg)))
                (NoSuchVolume tag (sort (keys (cfg_host_volumes cfg))))) (\<lambda>_.
     andthen (path_ok path) (\<lambda>_.
       edit_config loads_ok
         (\<lambda>d. Inr (set_in_table ''host_volume'' tag (volume_entry path readonly require_mount) d)) file))"

definition remove_host_volume ::
    "(document \<Rightarrow> bool) \<Rightarrow> config \<Rightarrow> string \<Rightarrow> document \<Rightarrow> edit_error + document" where
  "remove_host_volume loads_ok cfg tag file =
     andthen (ensure (tag \<in> set (keys (cfg_host_volumes cfg)))
                (NoSuchVolume tag (sort (keys (cfg_host_volumes cfg))))) (\<lambda>_.
       edit_config loads_ok (\<lambda>d. Inr (del_in_table ''host_volume'' tag d)) file)"

definition add_repo ::
    "(document \<Rightarrow> bool) \<Rightarrow> string \<Rightarrow> string \<Rightarrow> string \<Rightarrow> document \<Rightarrow> edit_error + document" where
  "add_repo loads_ok name path url file =
     andthen (check_name name) (\<lambda>_.
     andthen (ensure ((path \<noteq> []) \<noteq> (url \<noteq> [])) OneOfPathOrUrl) (\<lambda>_.
     andthen (ensure (name \<noteq> LOCAL_REPO) BuiltInRepo) (\<lambda>_.
       edit_config loads_ok
         (\<lambda>d. if name \<in> set (keys (doc_table ''repo'' d)) then Inl (RepoExists name)
              else Inr (set_in_table ''repo'' name
                (JObj [if path \<noteq> [] then (''path'', JStr path) else (''url'', JStr url)]) d)) file)))"

definition remove_repo ::
    "(document \<Rightarrow> bool) \<Rightarrow> string \<Rightarrow> document \<Rightarrow> edit_error + document" where
  "remove_repo loads_ok name file =
     edit_config loads_ok
       (\<lambda>d. if name \<notin> set (keys (doc_table ''repo'' d)) then Inl (NoSuchRepo name)
            else Inr (del_in_table ''repo'' name d)) file"

definition set_route_provider ::
    "(document \<Rightarrow> bool) \<Rightarrow> string \<Rightarrow> string \<Rightarrow> string \<Rightarrow> (string, string) dict
       \<Rightarrow> document \<Rightarrow> edit_error + document" where
  "set_route_provider loads_ok tag kind domain args file =
     andthen (check_name tag) (\<lambda>_.
       edit_config loads_ok
         (\<lambda>d. Inr (set_in_table ''route_provider'' tag
           (JObj ([(''kind'', JStr kind), (''domain'', JStr domain)]
                  @ (if args = [] then []
                     else [(''args'', JObj (List.map (\<lambda>(k, v). (k, JStr v)) args))]))) d)) file)"

definition remove_route_provider ::
    "(document \<Rightarrow> bool) \<Rightarrow> string \<Rightarrow> document \<Rightarrow> edit_error + document" where
  "remove_route_provider loads_ok tag file =
     edit_config loads_ok
       (\<lambda>d. if tag \<notin> set (keys (doc_table ''route_provider'' d)) then Inl (NoSuchProvider tag)
            else Inr (del_in_table ''route_provider'' tag d)) file"

definition set_kelso_address ::
    "(document \<Rightarrow> bool) \<Rightarrow> string \<Rightarrow> document \<Rightarrow> edit_error + document" where
  "set_kelso_address loads_ok address file =
     andthen (ensure (address \<noteq> []) EmptyAddress) (\<lambda>_.
       edit_config loads_ok (\<lambda>d. Inr (AList.update ''kelso_address'' (JStr address) d)) file)"

section \<open>Mirroring and the repo verbs\<close>

datatype repo_error =
    LocalNotMirrored string
  | FetchFailed string
  | NoSuchFolder string
  | TooLarge nat nat
  | CannotRemoveLocal
  | UnknownRepo string "string list"
  | NeedsName string
  | BadUrl url_error
  | EditFailed edit_error

definition MAX_BUNDLES :: nat where "MAX_BUNDLES = 128"
definition MAX_REPO_BYTES :: nat where "MAX_REPO_BYTES = 64 * 1024 * 1024"

record mirror_result =
  mr_name :: string
  mr_sha :: string
  mr_previous_sha :: "string option"
  mr_bundles :: "string list"
  mr_total_bytes :: nat

definition mirror_unchanged :: "mirror_result \<Rightarrow> bool" where
  "mirror_unchanged r \<longleftrightarrow> Some (mr_sha r) = mr_previous_sha r"

text \<open>
  What mirroring does to the disk and the store: the copy at the repo's checkout is brought to
  a commit, kept or removed, and its state recorded or dropped. \<open>fetch\<close> is what git reports,
  \<open>folder\<close> what the copy then holds: its app ids and bytes, none when the folder is not there.
\<close>

record mirror_world =
  mw_checkouts :: "(string, string) dict"
  mw_repo_state :: "(string, string) dict"

definition mirror ::
    "repo \<Rightarrow> string option \<Rightarrow> (string list \<times> nat) option \<Rightarrow> mirror_world
       \<Rightarrow> (repo_error + mirror_result) \<times> mirror_world" where
  "mirror r fetch folder w =
     (case (repo_remote r, repo_checkout r) of
        (Some remote, Some checkout) \<Rightarrow>
          (let previous = map_of (mw_checkouts w) checkout
           in case fetch of
             None \<Rightarrow> (Inl (FetchFailed (repo_name r)), w)
           | Some sha \<Rightarrow>
               (let w1 = w\<lparr>mw_checkouts := AList.update checkout sha (mw_checkouts w)\<rparr>
                in case folder of
                  None \<Rightarrow> (Inl (NoSuchFolder (gf_repo_path remote)), w1)
                | Some (ids, bytes) \<Rightarrow>
                    (if length ids > MAX_BUNDLES \<or> bytes > MAX_REPO_BYTES
                     then (Inl (TooLarge (length ids) bytes),
                           w1\<lparr>mw_checkouts := AList.delete checkout (mw_checkouts w1),
                              mw_repo_state := AList.delete (repo_name r) (mw_repo_state w1)\<rparr>)
                     else (Inr \<lparr>mr_name = repo_name r, mr_sha = sha, mr_previous_sha = previous,
                                mr_bundles = sort ids, mr_total_bytes = bytes\<rparr>,
                           w1\<lparr>mw_repo_state := AList.update (repo_name r) sha (mw_repo_state w1)\<rparr>))))
      | _ \<Rightarrow> (Inl (LocalNotMirrored (repo_name r)), w))"

definition get_repo :: "config \<Rightarrow> string \<Rightarrow> repo_error + repo" where
  "get_repo cfg name =
     (case map_of (cfg_repos cfg) name of
        None \<Rightarrow> Inl (UnknownRepo name (sort (keys (cfg_repos cfg))))
      | Some r \<Rightarrow> Inr r)"

text \<open>The first failing mirror stops the rest; what the ones before it did stays done.\<close>

fun mirror_all ::
    "(repo \<Rightarrow> string option) \<Rightarrow> (repo \<Rightarrow> (string list \<times> nat) option) \<Rightarrow> repo list \<Rightarrow> mirror_world
       \<Rightarrow> (repo_error + mirror_result list) \<times> mirror_world" where
  "mirror_all fetch folder [] w = (Inr [], w)"
| "mirror_all fetch folder (r # rs) w =
     (case mirror r (fetch r) (folder r) w of
        (Inl e, w') \<Rightarrow> (Inl e, w')
      | (Inr m, w') \<Rightarrow>
          (case mirror_all fetch folder rs w' of
             (Inl e, w'') \<Rightarrow> (Inl e, w'')
           | (Inr ms, w'') \<Rightarrow> (Inr (m # ms), w'')))"

definition update_repos ::
    "config \<Rightarrow> (repo \<Rightarrow> string option) \<Rightarrow> (repo \<Rightarrow> (string list \<times> nat) option) \<Rightarrow> string \<Rightarrow> mirror_world
       \<Rightarrow> (repo_error + mirror_result list) \<times> mirror_world" where
  "update_repos cfg fetch folder name w =
     (case (if name \<noteq> [] then andthen (get_repo cfg name) (\<lambda>r. Inr [r])
            else Inr (List.map snd (cfg_repos cfg))) of
        Inl e \<Rightarrow> (Inl e, w)
      | Inr wanted \<Rightarrow>
          (let ms = List.filter mirrored wanted
           in if name \<noteq> [] \<and> ms = [] then (Inl (LocalNotMirrored name), w)
              else mirror_all fetch folder ms w))"

definition remove_repo_verb ::
    "(document \<Rightarrow> bool) \<Rightarrow> config \<Rightarrow> string \<Rightarrow> document \<times> mirror_world
       \<Rightarrow> repo_error + document \<times> mirror_world" where
  "remove_repo_verb loads_ok cfg name st =
     (case st of (file, w) \<Rightarrow>
       andthen (get_repo cfg name) (\<lambda>r.
       if repo_name r = LOCAL_REPO then Inl CannotRemoveLocal
       else case remove_repo loads_ok (repo_name r) file of
         Inl e \<Rightarrow> Inl (EditFailed e)
       | Inr file' \<Rightarrow>
           Inr (file', case repo_checkout r of
             None \<Rightarrow> w
           | Some checkout \<Rightarrow>
               w\<lparr>mw_checkouts := AList.delete checkout (mw_checkouts w),
                 mw_repo_state := AList.delete (repo_name r) (mw_repo_state w)\<rparr>)))"

text \<open>The name and the entry \<^verbatim>\<open>repo add\<close> writes; a url is mirrored right after.\<close>

definition add_repo_verb ::
    "(document \<Rightarrow> bool) \<Rightarrow> string \<Rightarrow> string \<Rightarrow> document \<Rightarrow> repo_error + string \<times> bool \<times> document" where
  "add_repo_verb loads_ok location name file =
     (let remote = starts_with location GITHUB_SCHEME
      in andthen
        (if name \<noteq> [] then Inr name
         else if remote then (case name_from_url location of Inl e \<Rightarrow> Inl (BadUrl e) | Inr n \<Rightarrow> Inr n)
         else Inr []) (\<lambda>n.
      if n = [] then Inl (NeedsName location)
      else case (if remote then add_repo loads_ok n [] location file
                 else add_repo loads_ok n location [] file) of
        Inl e \<Rightarrow> Inl (EditFailed e)
      | Inr file' \<Rightarrow> Inr (n, remote, file')))"

definition contested_lines :: "(string, string list) dict \<Rightarrow> (string \<times> nat \<times> string list) list" where
  "contested_lines contested =
     List.map (\<lambda>(app, repos). (app, length repos, sort repos)) (sort_key fst contested)"

section \<open>Lemmas\<close>

named_theorems edit_doc \<open>how an edit changes the document's tables\<close>

lemma doc_table_set [edit_doc]:
  "doc_table n (set_in_table n k v d) = AList.update k v (doc_table n d)"
  "n' \<noteq> n \<Longrightarrow> map_of (set_in_table n k v d) n' = map_of d n'"
  by (simp_all add: doc_table_def set_in_table_def)

lemma doc_table_del [edit_doc]:
  "doc_table n (del_in_table n k d) = AList.delete k (doc_table n d)"
  "n' \<noteq> n \<Longrightarrow> map_of (del_in_table n k d) n' = map_of d n'"
  by (simp_all add: doc_table_def del_in_table_def)

lemma delete_update_fresh: "k \<notin> set (keys d) \<Longrightarrow> AList.delete k (AList.update k v d) = d"
  by (induction d) auto

lemma edit_config_Inr:
  "edit_config ok f d = Inr d' \<longleftrightarrow> f d = Inr d' \<and> ok d'"
  by (cases "f d") (auto simp: edit_config_def)

text \<open>\<^verbatim>\<open>add_repo\<close> writes one new table into a file that loads and touches nothing else, and
  removing the repo again gives the repos the file had.\<close>

lemma add_then_remove_repo:
  assumes "add_repo loads_ok name path url file = Inr file'"
  shows "is_identifier name \<and> name \<noteq> LOCAL_REPO \<and> loads_ok file' \<and>
    name \<notin> set (keys (doc_table ''repo'' file)) \<and>
    map_of (doc_table ''repo'' file') name =
      Some (JObj [if path \<noteq> [] then (''path'', JStr path) else (''url'', JStr url)]) \<and>
    (\<forall>other. other \<noteq> name \<longrightarrow>
      map_of (doc_table ''repo'' file') other = map_of (doc_table ''repo'' file) other) \<and>
    (\<forall>t. t \<noteq> ''repo'' \<longrightarrow> map_of file' t = map_of file t) \<and>
    (\<forall>file''. remove_repo loads_ok name file' = Inr file'' \<longrightarrow>
      doc_table ''repo'' file'' = doc_table ''repo'' file)"
proof -
  have name: "is_identifier name" "name \<noteq> LOCAL_REPO"
    and f: "loads_ok file'" "name \<notin> set (keys (doc_table ''repo'' file))"
      "file' = set_in_table ''repo'' name
        (JObj [if path \<noteq> [] then (''path'', JStr path) else (''url'', JStr url)]) file"
    using assms
    by (auto simp: add_repo_def andthen_Inr check_name_def edit_config_Inr split: if_splits)
  have "doc_table ''repo'' file'' = doc_table ''repo'' file" if "remove_repo loads_ok name file' = Inr file''" for file''
    using that f(2) by (auto simp: remove_repo_def edit_config_Inr f(3) edit_doc delete_update_fresh split: if_splits)
  with name f(1,2) show ?thesis by (auto simp: f(3) edit_doc)
qed

lemma add_then_remove_repo_witness:
  "case add_repo (\<lambda>_. True) ''dev'' ''/code/apps'' [] [(''port_base'', JInt 41000)] of
     Inl e \<Rightarrow> False
   | Inr file' \<Rightarrow> map_of file' ''port_base'' = Some (JInt 41000) \<and>
       doc_table ''repo'' file' = [(''dev'', JObj [(''path'', JStr ''/code/apps'')])]"
proof -
  have "is_identifier ''dev''" by code_simp
  then have a: "add_repo (\<lambda>_. True) ''dev'' ''/code/apps'' [] [(''port_base'', JInt 41000)] =
      Inr (set_in_table ''repo'' ''dev'' (JObj [(''path'', JStr ''/code/apps'')]) [(''port_base'', JInt 41000)])"
    by (simp add: add_repo_def check_name_def LOCAL_REPO_def edit_config_def doc_table_def)
  from add_then_remove_repo [OF a] show ?thesis
    by (simp add: a edit_doc) (simp add: doc_table_def)
qed

end
