(* ===== verification/Template.thy ===== *)
theory Template
  imports Prelude
begin

text \<open>
  The text formats manifests are written in: \<^verbatim>\<open>EnvTemplate\<close> of \<^verbatim>\<open>kelso/lib/util.py\<close> (the
  standard library's \<^verbatim>\<open>string.Template\<close> with kelso's identifier pattern), \<^verbatim>\<open>shlex.split\<close> and
  \<^verbatim>\<open>posixpath.normpath\<close> as the code uses them.
\<close>

section \<open>Environment templates\<close>

definition id_start :: "char \<Rightarrow> bool" where
  "id_start c \<longleftrightarrow> is_upper c \<or> is_lower c \<or> c = CHR ''_''"

definition id_char :: "char \<Rightarrow> bool" where
  "id_char c \<longleftrightarrow> is_alnum c \<or> c = CHR ''_'' \<or> c = CHR ''-''"

text \<open>
  Up to \<open>n\<close> dotted parts more. The pattern takes as much as it can; nothing after an identifier
  could match what a shorter one leaves, so the regular expression never backtracks here.
\<close>

fun dotted_parts :: "nat \<Rightarrow> string \<Rightarrow> string \<times> string" where
  "dotted_parts 0 s = ([], s)"
| "dotted_parts (Suc n) s =
     (case s of
        [] \<Rightarrow> ([], s)
      | c # r \<Rightarrow>
          (let part = takeWhile id_char r; rest = dropWhile id_char r
           in if c = CHR ''.'' \<and> part \<noteq> []
              then (case dotted_parts n rest of (more, rest') \<Rightarrow> (c # part @ more, rest'))
              else ([], s)))"

definition match_identifier :: "string \<Rightarrow> (string \<times> string) option" where
  "match_identifier s =
     (case s of
        [] \<Rightarrow> None
      | c # r \<Rightarrow>
          (if \<not> id_start c then None
           else (case dotted_parts 2 (dropWhile id_char r) of
             (more, rest) \<Rightarrow> Some (c # takeWhile id_char r @ more, rest))))"

datatype token =
    TLit char
  | TEscaped
  | TRef string string \<comment> \<open>the identifier and the placeholder as written\<close>

lemma dotted_parts_split: "dotted_parts n s = (more, rest) \<Longrightarrow> s = more @ rest"
proof (induction n arbitrary: s more rest)
  case (Suc n)
  show ?case
  proof (cases s)
    case (Cons c r)
    with Suc show ?thesis
      by (auto simp: Let_def split: if_splits prod.splits)
  qed (use Suc in simp)
qed simp

lemma match_identifier_split:
  "match_identifier s = Some (name, rest) \<Longrightarrow> s = name @ rest \<and> name \<noteq> []"
proof -
  assume m: "match_identifier s = Some (name, rest)"
  then obtain c r where s: "s = c # r" by (auto simp: match_identifier_def split: list.splits)
  obtain more where more: "dotted_parts 2 (dropWhile id_char r) = (more, rest)"
    and name: "name = c # takeWhile id_char r @ more"
    using m by (auto simp: match_identifier_def s split: if_splits prod.splits)
  from dotted_parts_split [OF more] have "r = takeWhile id_char r @ more @ rest"
    by (metis takeWhile_dropWhile_id)
  then show ?thesis by (simp add: s name)
qed

lemma match_identifier_shorter:
  "match_identifier s = Some (name, rest) \<Longrightarrow> length rest < length s"
  using match_identifier_split [of s name rest] by auto

text \<open>What the pattern matches at one character and what is left.\<close>

definition next_token :: "char \<Rightarrow> string \<Rightarrow> token \<times> string" where
  "next_token c r =
     (if c \<noteq> CHR ''$'' then (TLit c, r)
      else case r of
        [] \<Rightarrow> (TLit c, [])
      | d # q \<Rightarrow>
          (if d = CHR ''$'' then (TEscaped, q)
           else if d = CHR ''{'' then
             (case match_identifier q of
                Some (name, e # rest) \<Rightarrow>
                  if e = CHR ''}'' then (TRef name (c # d # name @ [e]), rest) else (TLit c, r)
              | _ \<Rightarrow> (TLit c, r))
           else
             (case match_identifier r of
                Some (name, rest) \<Rightarrow> (TRef name (c # name), rest)
              | None \<Rightarrow> (TLit c, r))))"

lemma next_token_shorter: "next_token c r = (t, rest) \<Longrightarrow> length rest < Suc (length r)"
  unfolding next_token_def
  by (auto split: if_splits list.splits option.splits prod.splits dest!: match_identifier_shorter)

function tokens :: "string \<Rightarrow> token list" where
  "tokens [] = []"
| "tokens (c # r) = (case next_token c r of (t, rest) \<Rightarrow> t # tokens rest)"
  by pat_completeness auto
termination
  by (relation "measure length") (auto dest!: next_token_shorter [OF sym])

text \<open>\<^verbatim>\<open>get_identifiers\<close> (as the set of the list) and \<^verbatim>\<open>safe_substitute\<close>.\<close>

definition identifiers :: "string \<Rightarrow> string list" where
  "identifiers s = remdups (List.map_filter (\<lambda>t. case t of TRef name raw \<Rightarrow> Some name | _ \<Rightarrow> None) (tokens s))"

fun render_token :: "(string \<Rightarrow> string option) \<Rightarrow> token \<Rightarrow> string" where
  "render_token m (TLit c) = [c]"
| "render_token m TEscaped = ''$''"
| "render_token m (TRef name raw) = (case m name of Some v \<Rightarrow> v | None \<Rightarrow> raw)"

definition safe_substitute :: "(string \<Rightarrow> string option) \<Rightarrow> string \<Rightarrow> string" where
  "safe_substitute m s = concat (List.map (render_token m) (tokens s))"

fun token_text :: "token \<Rightarrow> string" where
  "token_text (TLit c) = [c]"
| "token_text TEscaped = ''$$''"
| "token_text (TRef name raw) = raw"

text \<open>The tokens are the text cut up, so what a substitution leaves alone stays as written.\<close>

lemma next_token_text: "next_token c r = (t, rest) \<Longrightarrow> token_text t @ rest = c # r"
  unfolding next_token_def
  by (auto split: if_splits list.splits option.splits prod.splits dest!: match_identifier_split)

lemma tokens_text: "concat (List.map token_text (tokens s)) = s"
proof (induction s rule: tokens.induct)
  case (2 c r)
  obtain t rest where t: "next_token c r = (t, rest)" by (cases "next_token c r")
  with 2 next_token_text [OF t] show ?case by simp
qed simp

lemma identifiers_iff: "name \<in> set (identifiers s) \<longleftrightarrow> (\<exists>raw. TRef name raw \<in> set (tokens s))"
proof -
  have "(case t of TRef n raw \<Rightarrow> Some n | _ \<Rightarrow> None) = Some name \<longleftrightarrow> (\<exists>raw. t = TRef name raw)" for t
    by (cases t) auto
  then show ?thesis by (auto simp: identifiers_def in_map_filter)
qed

text \<open>A substitution covers a template when it has a value for every placeholder that holds.\<close>

lemma safe_substitute_covered:
  assumes "\<And>name. name \<in> set (identifiers s) \<Longrightarrow> m name \<noteq> None"
  shows "safe_substitute m s =
    concat (List.map (\<lambda>t. case t of TLit c \<Rightarrow> [c] | TEscaped \<Rightarrow> ''$'' | TRef name raw \<Rightarrow> the (m name))
      (tokens s))"
proof -
  have "render_token m t = (case t of TLit c \<Rightarrow> [c] | TEscaped \<Rightarrow> ''$'' | TRef name raw \<Rightarrow> the (m name))"
    if "t \<in> set (tokens s)" for t
  proof (cases t)
    case (TRef name raw)
    with that have "name \<in> set (identifiers s)" by (auto simp: identifiers_iff)
    with assms TRef show ?thesis by fastforce
  qed simp_all
  then show ?thesis unfolding safe_substitute_def by (intro arg_cong [of _ _ concat] map_cong) auto
qed

lemma safe_substitute_cong:
  "(\<And>name. name \<in> set (identifiers s) \<Longrightarrow> m name = m' name) \<Longrightarrow> safe_substitute m s = safe_substitute m' s"
proof -
  assume a: "\<And>name. name \<in> set (identifiers s) \<Longrightarrow> m name = m' name"
  have "render_token m t = render_token m' t" if "t \<in> set (tokens s)" for t
  proof (cases t)
    case (TRef name raw)
    with that have "name \<in> set (identifiers s)" by (auto simp: identifiers_iff)
    with a TRef show ?thesis by simp
  qed simp_all
  then show ?thesis unfolding safe_substitute_def by (intro arg_cong [of _ _ concat] map_cong) auto
qed

section \<open>Shell words\<close>

datatype lex_state = LexSpace | LexWord | LexQuote char | LexEscape lex_state

datatype lex_error = NoClosingQuotation | NoEscapedCharacter

text \<open>
  \<^verbatim>\<open>shlex.split\<close> in its default posix mode: the state, the word so far (\<open>None\<close> before one
  begins) and the rest of the text. Within double quotes a backslash escapes only itself and
  the quote.
\<close>

definition shell_space :: "char \<Rightarrow> bool" where
  "shell_space c \<longleftrightarrow> c \<in> {CHR '' '', CHR 0x09, CHR 0x0D, CHR 0x0A}"

definition word_so_far :: "string option \<Rightarrow> string" where
  "word_so_far w = (case w of None \<Rightarrow> [] | Some t \<Rightarrow> t)"

definition emit_word :: "string option \<Rightarrow> string list" where
  "emit_word w = (case w of None \<Rightarrow> [] | Some t \<Rightarrow> [t])"

fun lex_words :: "lex_state \<Rightarrow> string option \<Rightarrow> string \<Rightarrow> lex_error + string list" where
  "lex_words (LexQuote q) w [] = Inl NoClosingQuotation"
| "lex_words (LexEscape st) w [] = Inl NoEscapedCharacter"
| "lex_words LexSpace w [] = Inr (emit_word w)"
| "lex_words LexWord w [] = Inr (emit_word w)"
| "lex_words (LexQuote q) w (c # r) =
     (if c = q then lex_words LexWord w r
      else if c = CHR 0x5C \<and> q = CHR 0x22 then lex_words (LexEscape (LexQuote q)) w r
      else lex_words (LexQuote q) (Some (word_so_far w @ [c])) r)"
| "lex_words (LexEscape st) w (c # r) =
     (case st of
        LexQuote q \<Rightarrow>
          (if c \<noteq> CHR 0x5C \<and> c \<noteq> q
           then lex_words st (Some (word_so_far w @ [CHR 0x5C, c])) r
           else lex_words st (Some (word_so_far w @ [c])) r)
      | _ \<Rightarrow> lex_words st (Some (word_so_far w @ [c])) r)"
| "lex_words st w (c # r) =
     (if shell_space c then
        (case w of
           None \<Rightarrow> lex_words LexSpace None r
         | Some t \<Rightarrow> andthen (lex_words LexSpace None r) (\<lambda>ws. Inr (t # ws)))
      else if c = CHR 0x5C then lex_words (LexEscape LexWord) w r
      else if c = CHR 0x27 \<or> c = CHR 0x22 then lex_words (LexQuote c) (Some (word_so_far w)) r
      else lex_words LexWord (Some (word_so_far w @ [c])) r)"

definition shlex_split :: "string \<Rightarrow> lex_error + string list" where
  "shlex_split s = lex_words LexSpace None s"

section \<open>Normalised paths\<close>

fun norm_parts :: "bool \<Rightarrow> string list \<Rightarrow> string list \<Rightarrow> string list" where
  "norm_parts rooted acc [] = acc"
| "norm_parts rooted acc (p # ps) =
     (if p = [] \<or> p = ''.'' then norm_parts rooted acc ps
      else if p \<noteq> ''..'' \<or> (\<not> rooted \<and> acc = []) \<or> (acc \<noteq> [] \<and> last acc = ''..'')
      then norm_parts rooted (acc @ [p]) ps
      else norm_parts rooted (butlast acc) ps)"

text \<open>
  Two leading slashes, and only two, are kept: POSIX lets such a path mean something else.
\<close>

definition normpath :: "string \<Rightarrow> string" where
  "normpath path =
     (if path = [] then ''.''
      else
        (let slashes = (if \<not> starts_with path ''/'' then 0
                        else if starts_with path ''//'' \<and> \<not> starts_with path ''///'' then 2 else 1);
             body = replicate slashes (CHR ''/'')
                    @ join ''/'' (norm_parts (slashes > 0) [] (split_on (CHR ''/'') path))
         in if body = [] then ''.'' else body))"

end
