(* ===== verification/Manifest.thy ===== *)
theory Manifest
  imports Template Cronexpr Identifiers Json
begin

text \<open>
  \<^verbatim>\<open>kelso/lib/manifest.py\<close> and the kinds of \<^verbatim>\<open>kelso/lib/connections.py\<close>. A \<open>manifest\<close> is the TOML
  file as pydantic's models hold it; the validators the classes attach (\<open>section_problems\<close>) and
  the checks that span sections (\<open>validate_manifest\<close>) are modelled whole, every message as a
  constructor with what it names.
\<close>

section \<open>The sections\<close>

datatype network_mode = NormalNetwork | HostNetwork
datatype volume_kind = AppVolumeKind | DataKind | TempKind | BulkKind | LogsKind | HostKind
datatype scheme = Http | Https
datatype proto = Tcp | Udp
datatype healthcheck = HealthString string | HealthArgv "string list"

record app_section =
  as_app_id :: "string option"
  as_version :: string
  as_network_mode :: network_mode
  as_display_name :: string
  as_description :: string
  as_author :: string
  as_url :: string
  as_main :: string

text \<open>\<open>mv_readonly_set\<close>: the file says \<open>readonly\<close> itself (pydantic's \<open>model_fields_set\<close>).\<close>

record manifest_volume =
  mv_kind :: volume_kind
  mv_src :: "string option"
  mv_desc :: string
  mv_readonly :: bool
  mv_readonly_set :: bool

record config_decl =
  cd_desc :: string
  cd_default :: "string option"
  cd_secret :: bool

record route_decl =
  rd_port :: string
  rd_private :: bool
  rd_scheme :: scheme
  rd_desc :: string

record run_entry =
  re_image :: string
  re_cmd :: "string list option"
  re_volumes :: "(string, string) dict"
  re_env :: "(string, string) dict"
  re_routes :: "(string, route_decl) dict"
  re_restart :: bool
  re_shell :: "string list"
  re_healthcheck :: "healthcheck option"
  re_connections :: "string list"
  re_compose :: "(string, json) dict"

record command_entry =
  ce_cmd :: string
  ce_run_unit :: string
  ce_desc :: string

record connection_entry =
  cn_kind :: string
  cn_desc :: string

record cron_entry =
  cr_schedule :: string
  cr_command :: string
  cr_args :: string

record manifest =
  m_app :: app_section
  m_run :: "(string, run_entry) dict"
  m_config :: "(string, config_decl) dict"
  m_adv_config :: "(string, config_decl) dict"
  m_volumes :: "(string, manifest_volume) dict"
  m_commands :: "(string, command_entry) dict"
  m_cron :: "(string, cron_entry) dict"
  m_connections :: "(string, connection_entry) dict"

section \<open>Ports\<close>

datatype port_error =
    MissingContainerPort string
  | NotAPort string string
  | UnknownProto string string

record port_spec =
  ps_host_port :: int
  ps_container_port :: int
  ps_proto :: proto

definition port_number :: "string \<Rightarrow> string \<Rightarrow> port_error + int" where
  "port_number val txt =
     (if \<not> str_isdigit txt \<or> \<not> (1 \<le> nat_of_str txt \<and> nat_of_str txt \<le> 65535)
      then Inl (NotAPort val txt) else Inr (int (nat_of_str txt)))"

definition parse_port :: "string \<Rightarrow> port_error + port_spec" where
  "parse_port val =
     (case partition_on (CHR ''/'') val of (ports, _, prot) \<Rightarrow>
     (case partition_on (CHR '':'') ports of (port1, separator, port2) \<Rightarrow>
       andthen
         (if separator
          then (if port2 = [] then Inl (MissingContainerPort val)
                else andthen (port_number val port1) (\<lambda>h.
                     andthen (port_number val port2) (\<lambda>c. Inr (h, c))))
          else andthen (port_number val port1) (\<lambda>c. Inr (- 1, c)))
         (\<lambda>(host_port, container_port).
           if prot \<noteq> [] \<and> prot \<notin> {''tcp'', ''udp''} then Inl (UnknownProto val prot)
           else Inr \<lparr>ps_host_port = host_port, ps_container_port = container_port,
                     ps_proto = (if prot = ''udp'' then Udp else Tcp)\<rparr>)))"

section \<open>Connections\<close>

record connection_kind =
  ck_name :: string
  ck_desc :: string
  ck_host_path :: "string \<Rightarrow> string" \<comment> \<open>given the directory of kelsod's sockets\<close>
  ck_properties :: "string \<Rightarrow> (string, string) dict" \<comment> \<open>given where it is mounted\<close>
  ck_property_names :: "string list"

definition conn_guest_path :: "string \<Rightarrow> string" where
  "conn_guest_path name = ''/run/kelso/conn/'' @ name"

definition CONN_KEY_PREFIX :: string where "CONN_KEY_PREFIX = ''conn.''"

definition CONNECTION_KINDS :: "(string, connection_kind) dict" where
  "CONNECTION_KINDS =
     [(''kelso.admin'',
        \<lparr>ck_name = ''kelso.admin'', ck_desc = ''kelsod'' @ [CHR 0x27] @ ''s admin API: full control of kelso'',
         ck_host_path = (\<lambda>conn_root. conn_root),
         ck_properties = (\<lambda>mounted. [(''socket'', mounted @ ''/admin.sock'')]),
         ck_property_names = [''socket'']\<rparr>),
      (''docker.admin'',
        \<lparr>ck_name = ''docker.admin'', ck_desc = ''the docker daemon: full control of the host'',
         ck_host_path = (\<lambda>conn_root. ''/var/run/docker.sock''),
         ck_properties = (\<lambda>mounted. [(''socket'', mounted), (''host'', ''unix://'' @ mounted)]),
         ck_property_names = [''socket'', ''host'']\<rparr>)]"

section \<open>Compose passthrough\<close>

definition COMPOSE_MANAGED_KEYS :: "string list" where
  "COMPOSE_MANAGED_KEYS =
     [''image'', ''hostname'', ''command'', ''environment'', ''volumes'', ''ports'', ''labels'',
      ''restart'', ''network_mode'', ''healthcheck'']"

definition COMPOSE_ALLOWED_KEYS :: "string list" where
  "COMPOSE_ALLOWED_KEYS =
     [''depends_on'', ''stop_grace_period'', ''stop_signal'', ''init'', ''pull_policy'', ''platform'',
      ''profiles'', ''deploy'', ''cpus'', ''cpu_shares'', ''cpu_period'', ''cpu_quota'', ''mem_limit'',
      ''mem_reservation'', ''memswap_limit'', ''shm_size'', ''oom_score_adj'', ''pids_limit'', ''ulimits'',
      ''user'', ''working_dir'', ''entrypoint'', ''read_only'', ''tmpfs'', ''tty'', ''stdin_open'', ''dns'',
      ''dns_search'', ''extra_hosts'', ''expose'', ''logging'', ''labels_file'']"

definition unlisted_compose_options :: "(string, json) dict \<Rightarrow> (string, json) dict" where
  "unlisted_compose_options compose =
     List.filter (\<lambda>(k, v). k \<notin> set COMPOSE_ALLOWED_KEYS) (sort_key fst compose)"

section \<open>What is wrong with a manifest\<close>

datatype manifest_problem =
    BadUrlScheme string
  | SrcOnNonApp string
  | BadPort string port_error
  | ManagedComposeKeys string "string list"
  | EmptyShell string
  | EmptyHealthcheck string
  | UnknownKind string string
  | NotIdentifier string
  | AppIdMismatch string string
  | MainNotFound string
  | DeclaredTwice string
  | SecretOption string
  | BadOptionDefault option_error
  | CommandUnitUnknown string string
  | ConnectionUndeclared string string
  | CronCommandUnknown string string
  | CronBad string cron_error
  | CronArgsBad string lex_error
  | ConnectionNotAttached string string string
  | UnknownSubstitution string string string
  | WritableAppVolume string
  | VolumeUndeclared string string
  | ReservedMount string string string
  | RouteDeclaredTwice string "string list"
  | HostNetworkRoutes

text \<open>The validators attached to the classes, with the identifiers their keys have to be.\<close>

definition check_url :: "string \<Rightarrow> manifest_problem list" where
  "check_url url =
     (if url \<noteq> [] \<and> \<not> starts_with url ''https://'' \<and> \<not> starts_with url ''http://''
      then [BadUrlScheme url] else [])"

definition check_src :: "string \<times> manifest_volume \<Rightarrow> manifest_problem list" where
  "check_src nv =
     (case nv of (name, v) \<Rightarrow>
        if mv_src v \<noteq> None \<and> mv_src v \<noteq> Some [] \<and> mv_kind v \<noteq> AppVolumeKind
        then [SrcOnNonApp name] else [])"

definition check_route_port :: "string \<times> route_decl \<Rightarrow> manifest_problem list" where
  "check_route_port nr =
     (case nr of (name, r) \<Rightarrow>
        (case parse_port (rd_port r) of Inl e \<Rightarrow> [BadPort name e] | Inr _ \<Rightarrow> []))"

definition check_compose_keys :: "string \<times> run_entry \<Rightarrow> manifest_problem list" where
  "check_compose_keys nu =
     (case nu of (name, u) \<Rightarrow>
        (let clashes = sort (List.filter (\<lambda>k. k \<in> set COMPOSE_MANAGED_KEYS) (keys (re_compose u)))
         in if clashes \<noteq> [] then [ManagedComposeKeys name clashes] else []))"

definition check_min_length :: "string \<times> run_entry \<Rightarrow> manifest_problem list" where
  "check_min_length nu =
     (case nu of (name, u) \<Rightarrow>
        (if re_shell u = [] then [EmptyShell name] else [])
        @ (case re_healthcheck u of
             Some (HealthString []) \<Rightarrow> [EmptyHealthcheck name]
           | Some (HealthArgv []) \<Rightarrow> [EmptyHealthcheck name]
           | _ \<Rightarrow> []))"

definition check_kind :: "string \<times> connection_entry \<Rightarrow> manifest_problem list" where
  "check_kind nc =
     (case nc of (name, c) \<Rightarrow>
        if cn_kind c \<in> set (keys CONNECTION_KINDS) then [] else [UnknownKind name (cn_kind c)])"

definition manifest_identifiers :: "manifest \<Rightarrow> string list" where
  "manifest_identifiers m =
     as_main (m_app m) # keys (m_run m) @ keys (m_config m) @ keys (m_adv_config m)
     @ keys (m_volumes m) @ keys (m_commands m) @ keys (m_cron m) @ keys (m_connections m)
     @ concat (List.map (\<lambda>(n, u). keys (re_volumes u) @ keys (re_env u) @ keys (re_routes u)
                                  @ re_connections u) (m_run m))
     @ List.map (\<lambda>(n, c). ce_run_unit c) (m_commands m)
     @ List.map (\<lambda>(n, c). cr_command c) (m_cron m)"

definition section_problems :: "manifest \<Rightarrow> manifest_problem list" where
  "section_problems m =
     List.map NotIdentifier (List.filter (\<lambda>i. \<not> is_identifier i) (manifest_identifiers m))
     @ check_url (as_url (m_app m))
     @ concat (List.map check_src (m_volumes m))
     @ concat (List.map (\<lambda>(n, u). concat (List.map check_route_port (re_routes u))) (m_run m))
     @ concat (List.map check_compose_keys (m_run m))
     @ concat (List.map check_min_length (m_run m))
     @ concat (List.map check_kind (m_connections m))"

section \<open>Checks that span sections\<close>

definition validate_option_decls :: "(string, config_decl) dict \<Rightarrow> manifest_problem list" where
  "validate_option_decls entries =
     concat (List.map (\<lambda>(name, entry).
       case map_of APP_OPTIONS name of
         None \<Rightarrow> []
       | Some opt \<Rightarrow>
           (if cd_secret entry then [SecretOption name]
            else case cd_default entry of
              None \<Rightarrow> []
            | Some d \<Rightarrow> (case option_validate opt d of Inl e \<Rightarrow> [BadOptionDefault e] | Inr _ \<Rightarrow> [])))
       entries)"

definition validate_config_decls :: "manifest \<Rightarrow> manifest_problem list" where
  "validate_config_decls m =
     List.map DeclaredTwice
       (sort (List.filter (\<lambda>n. n \<in> set (keys (m_adv_config m))) (keys (m_config m))))
     @ validate_option_decls (m_config m) @ validate_option_decls (m_adv_config m)"

definition validate_volumes :: "manifest \<Rightarrow> manifest_problem list" where
  "validate_volumes m =
     concat (List.map (\<lambda>(name, v).
       if mv_kind v = AppVolumeKind \<and> mv_readonly_set v \<and> \<not> mv_readonly v
       then [WritableAppVolume name] else []) (m_volumes m))"

definition KELSO_GUEST_DIR :: string where "KELSO_GUEST_DIR = ''/kelso''"

definition validate_run_volumes :: "manifest \<Rightarrow> manifest_problem list" where
  "validate_run_volumes m =
     concat (List.map (\<lambda>(unit, u). concat (List.map (\<lambda>(volume, guest).
       (if volume \<in> set (keys (m_volumes m)) then [] else [VolumeUndeclared unit volume])
       @ (let target = normpath guest
          in if target = KELSO_GUEST_DIR \<or> starts_with target (KELSO_GUEST_DIR @ ''/'')
             then [ReservedMount unit volume guest] else [])) (re_volumes u))) (m_run m))"

definition declared_routes :: "manifest \<Rightarrow> (string \<times> string) list" where
  "declared_routes m =
     concat (List.map (\<lambda>(unit, u). List.map (\<lambda>r. (r, unit)) (keys (re_routes u))) (m_run m))"

definition route_owners :: "manifest \<Rightarrow> (string, string list) dict" where
  "route_owners m = foldl (\<lambda>owners (route, unit). group_add route unit owners) [] (declared_routes m)"

definition validate_routes :: "manifest \<Rightarrow> manifest_problem list" where
  "validate_routes m =
     concat (List.map (\<lambda>(route, owners).
       if length owners > 1 then [RouteDeclaredTwice route owners] else []) (route_owners m))
     @ (if as_network_mode (m_app m) = HostNetwork \<and> list_ex (\<lambda>(n, u). re_routes u \<noteq> []) (m_run m)
        then [HostNetworkRoutes] else [])"

definition ROUTE_KEY_PREFIX :: string where "ROUTE_KEY_PREFIX = ''routes.''"
definition KLSO_KEY_PREFIX :: string where "KLSO_KEY_PREFIX = ''klso.''"
definition KLSO_KEYS :: "string list" where
  "KLSO_KEYS = [''domain'', ''volumes'', ''cmd'', ''routes'']"

definition known_keys :: "manifest \<Rightarrow> string list" where
  "known_keys m =
     keys (m_config m) @ keys (m_adv_config m) @ keys APP_OPTIONS
     @ concat (List.map (\<lambda>(n, u). List.map (\<lambda>r. ROUTE_KEY_PREFIX @ r) (keys (re_routes u))) (m_run m))
     @ List.map (\<lambda>k. KLSO_KEY_PREFIX @ k) KLSO_KEYS"

definition attached_keys :: "manifest \<Rightarrow> run_entry \<Rightarrow> string list" where
  "attached_keys m u =
     known_keys m
     @ concat (List.map (\<lambda>name.
         case map_of (m_connections m) name of
           None \<Rightarrow> []
         | Some c \<Rightarrow>
             (case map_of CONNECTION_KINDS (cn_kind c) of
                None \<Rightarrow> []
              | Some k \<Rightarrow> List.map (\<lambda>p. CONN_KEY_PREFIX @ name @ ''.'' @ p) (ck_property_names k)))
         (re_connections u))"

definition validate_env_refs :: "manifest \<Rightarrow> manifest_problem list" where
  "validate_env_refs m =
     concat (List.map (\<lambda>(unit, u).
       (let attached = attached_keys m u
        in concat (List.map (\<lambda>(var, val). concat (List.map (\<lambda>ref.
             if ref \<in> set attached then []
             else if CHR ''.'' \<notin> set ref then []
             else (let conn = hd (split_on (CHR ''.'') (remove_prefix ref CONN_KEY_PREFIX))
                   in if starts_with ref CONN_KEY_PREFIX \<and> conn \<notin> set (re_connections u)
                      then [ConnectionNotAttached unit var ref]
                      else [UnknownSubstitution unit var ref])) (sort (identifiers val)))) (re_env u))))
       (m_run m))"

definition validate_commands :: "manifest \<Rightarrow> manifest_problem list" where
  "validate_commands m =
     concat (List.map (\<lambda>(name, c).
       if ce_run_unit c \<in> set (keys (m_run m)) then [] else [CommandUnitUnknown name (ce_run_unit c)])
       (m_commands m))"

definition cron_problem :: "string \<Rightarrow> cron_error option" where
  "cron_problem schedule =
     (case parse_schedule schedule of
        Inl e \<Rightarrow> Some e
      | Inr s \<Rightarrow>
          (case next_after s (2000, 1, 1, 0, 0) of
             Some (Inl e) \<Rightarrow> Some e
           | _ \<Rightarrow> None))"

definition validate_cron :: "manifest \<Rightarrow> manifest_problem list" where
  "validate_cron m =
     concat (List.map (\<lambda>(name, c).
       (if cr_command c \<in> set (keys (m_commands m)) then [] else [CronCommandUnknown name (cr_command c)])
       @ (case cron_problem (cr_schedule c) of None \<Rightarrow> [] | Some e \<Rightarrow> [CronBad name e])
       @ (case shlex_split (cr_args c) of Inl e \<Rightarrow> [CronArgsBad name e] | Inr _ \<Rightarrow> []))
       (m_cron m))"

definition validate_connections :: "manifest \<Rightarrow> manifest_problem list" where
  "validate_connections m =
     concat (List.map (\<lambda>(unit, u). concat (List.map (\<lambda>name.
       if name \<in> set (keys (m_connections m)) then [] else [ConnectionUndeclared unit name])
       (re_connections u))) (m_run m))"

definition validate_manifest :: "string \<Rightarrow> manifest \<Rightarrow> manifest_problem list" where
  "validate_manifest app m =
     (case as_app_id (m_app m) of
        Some claimed \<Rightarrow> if claimed \<noteq> app then [AppIdMismatch claimed app] else []
      | None \<Rightarrow> [])
     @ (if as_main (m_app m) \<in> set (keys (m_run m)) then [] else [MainNotFound (as_main (m_app m))])
     @ validate_config_decls m @ validate_volumes m @ validate_run_volumes m @ validate_routes m
     @ validate_env_refs m @ validate_commands m @ validate_cron m @ validate_connections m"

definition parse_manifest :: "string \<Rightarrow> manifest \<Rightarrow> manifest_problem list + manifest" where
  "parse_manifest app m =
     (if section_problems m \<noteq> [] then Inl (section_problems m)
      else if validate_manifest app m \<noteq> [] then Inl (validate_manifest app m)
      else Inr m)"

section \<open>What an accepted manifest guarantees\<close>

lemma parse_manifest_Inr:
  "parse_manifest app m = Inr m' \<longleftrightarrow> m' = m \<and> section_problems m = [] \<and> validate_manifest app m = []"
  by (auto simp: parse_manifest_def)

lemma port_number_Inr:
  "port_number v txt = Inr n \<Longrightarrow> 1 \<le> n \<and> n \<le> 65535"
  by (auto simp: port_number_def split: if_splits)

lemma parse_port_bounds:
  assumes "parse_port v = Inr p"
  shows "(ps_host_port p = - 1 \<or> 1 \<le> ps_host_port p \<and> ps_host_port p \<le> 65535) \<and>
    1 \<le> ps_container_port p \<and> ps_container_port p \<le> 65535"
  using assms
  by (auto simp: parse_port_def andthen_Inr split: prod.splits if_splits dest!: port_number_Inr)

lemma values_of_two:
  "(a, x) \<in> set kvs \<Longrightarrow> (a, y) \<in> set kvs \<Longrightarrow> x \<noteq> y \<Longrightarrow> length (values_of a kvs) > 1"
proof (induction kvs)
  case (Cons kv kvs)
  have one: "(a, z) \<in> set kvs \<Longrightarrow> values_of a kvs \<noteq> []" for z
    by (induction kvs) (auto simp: values_of_def)
  show ?case
  proof (cases "(a, x) \<in> set kvs \<and> (a, y) \<in> set kvs")
    case True
    with Cons show ?thesis by (cases kv) (auto simp: values_of_def)
  next
    case False
    with Cons.prems have "kv = (a, x) \<and> (a, y) \<in> set kvs \<or> kv = (a, y) \<and> (a, x) \<in> set kvs"
      by auto
    with one show ?thesis by (auto simp: values_of_def)
  qed
qed simp

lemma route_unit_unique:
  assumes "validate_routes m = []" "(r, unit) \<in> set (declared_routes m)" "(r, unit') \<in> set (declared_routes m)"
  shows "unit = unit'"
proof (rule ccontr)
  assume "unit \<noteq> unit'"
  then have two: "length (values_of r (declared_routes m)) > 1"
    using values_of_two assms(2,3) by metis
  then have "map_of (route_owners m) r = Some (values_of r (declared_routes m))"
    unfolding route_owners_def map_of_groups by (cases "values_of r (declared_routes m)") auto
  then have "(r, values_of r (declared_routes m)) \<in> set (route_owners m)" by (rule map_of_SomeD)
  with assms(1) two show False by (fastforce simp: validate_routes_def)
qed

lemma env_ref_known:
  assumes "validate_env_refs m = []" "(unit, u) \<in> set (m_run m)" "(var, v) \<in> set (re_env u)"
    "ref \<in> set (identifiers v)" "CHR ''.'' \<in> set ref"
  shows "ref \<in> set (attached_keys m u)"
proof (rule ccontr)
  assume n: "ref \<notin> set (attached_keys m u)"
  let ?bad = "\<lambda>ref. if ref \<in> set (attached_keys m u) then []
             else if CHR ''.'' \<notin> set ref then []
             else (let conn = hd (split_on (CHR ''.'') (remove_prefix ref CONN_KEY_PREFIX))
                   in if starts_with ref CONN_KEY_PREFIX \<and> conn \<notin> set (re_connections u)
                      then [ConnectionNotAttached unit var ref]
                      else [UnknownSubstitution unit var ref])"
  from n assms(5) have "?bad ref \<noteq> []" by (simp add: Let_def)
  moreover have "?bad ref = []"
  proof -
    note concat_map_NilD [OF assms(1) [unfolded validate_env_refs_def] assms(2), unfolded case_prod_conv Let_def]
    note refs = concat_map_NilD [OF this assms(3), unfolded case_prod_conv]
    have "ref \<in> set (sort (identifiers v))" using assms(4) by simp
    from concat_map_NilD [OF refs this] show ?thesis unfolding Let_def .
  qed
  ultimately show False by contradiction
qed

lemma run_volume_allowed:
  assumes "validate_run_volumes m = []" "(unit, u) \<in> set (m_run m)" "(v, guest) \<in> set (re_volumes u)"
  shows "v \<in> set (keys (m_volumes m)) \<and> normpath guest \<noteq> KELSO_GUEST_DIR \<and>
    \<not> starts_with (normpath guest) (KELSO_GUEST_DIR @ ''/'')"
proof -
  have "(if v \<in> set (keys (m_volumes m)) then [] else [VolumeUndeclared unit v])
       @ (let target = normpath guest
          in if target = KELSO_GUEST_DIR \<or> starts_with target (KELSO_GUEST_DIR @ ''/'')
             then [ReservedMount unit v guest] else []) = []"
  proof -
    note concat_map_NilD [OF assms(1) [unfolded validate_run_volumes_def] assms(2), unfolded case_prod_conv]
    from concat_map_NilD [OF this assms(3), unfolded case_prod_conv] show ?thesis .
  qed
  then show ?thesis by (simp add: Let_def split: if_splits)
qed


lemma cron_entry_runs:
  assumes "validate_cron m = []" "(name, c) \<in> set (m_cron m)"
  shows "cr_command c \<in> set (keys (m_commands m)) \<and>
    (\<exists>s at. parse_schedule (cr_schedule c) = Inr s \<and> next_after s (2000, 1, 1, 0, 0) = Some (Inr at)) \<and>
    (\<exists>ws. shlex_split (cr_args c) = Inr ws)"
proof -
  note e = concat_map_NilD [OF assms(1) [unfolded validate_cron_def] assms(2), unfolded case_prod_conv]
  have "cron_problem (cr_schedule c) = None" using e by (simp split: option.splits)
  then obtain s where s: "parse_schedule (cr_schedule c) = Inr s"
    and n: "\<And>x. next_after s (2000, 1, 1, 0, 0) \<noteq> Some (Inl x)"
    by (auto simp: cron_problem_def split: sum.splits option.splits)
  have "valid_moment (2000, 1, 1, 0, 0)" by code_simp
  then obtain r where r: "next_after s (2000, 1, 1, 0, 0) = Some r"
    using next_after_returns by blast
  with n obtain at where "r = Inr at" by (cases r) auto
  moreover have "cr_command c \<in> set (keys (m_commands m))" using e by (simp split: if_splits)
  moreover have "\<exists>ws. shlex_split (cr_args c) = Inr ws" using e by (cases "shlex_split (cr_args c)") auto
  ultimately show ?thesis using s r by blast
qed

lemma section_problems_ok:
  assumes "section_problems m = []"
  shows "\<forall>i \<in> set (manifest_identifiers m). is_identifier i"
    and "\<And>unit u r d. (unit, u) \<in> set (m_run m) \<Longrightarrow> (r, d) \<in> set (re_routes u) \<Longrightarrow>
      \<exists>p. parse_port (rd_port d) = Inr p"
    and "\<And>unit u k. (unit, u) \<in> set (m_run m) \<Longrightarrow> k \<in> set COMPOSE_MANAGED_KEYS \<Longrightarrow>
      k \<notin> set (keys (re_compose u))"
    and "\<And>name c. (name, c) \<in> set (m_connections m) \<Longrightarrow> cn_kind c \<in> set (keys CONNECTION_KINDS)"
    and "\<And>unit u. (unit, u) \<in> set (m_run m) \<Longrightarrow> re_shell u \<noteq> []"
proof -
  note all = assms [unfolded section_problems_def append_is_Nil_conv]
  show "\<forall>i \<in> set (manifest_identifiers m). is_identifier i"
    using all by (simp add: filter_empty_conv)
  show "\<exists>p. parse_port (rd_port d) = Inr p" if u: "(unit, u) \<in> set (m_run m)" "(r, d) \<in> set (re_routes u)"
    for unit u r d
  proof -
    from all have "concat (List.map (\<lambda>(n, u). concat (List.map check_route_port (re_routes u))) (m_run m)) = []"
      by blast
    note concat_map_NilD [OF this u(1), unfolded case_prod_conv]
    from concat_map_NilD [OF this u(2)] show ?thesis
      by (simp add: check_route_port_def split: sum.splits)
  qed
  show "k \<notin> set (keys (re_compose u))" if u: "(unit, u) \<in> set (m_run m)" "k \<in> set COMPOSE_MANAGED_KEYS" for unit u k
  proof -
    from all have "concat (List.map check_compose_keys (m_run m)) = []" by blast
    from concat_map_NilD [OF this u(1)]
    have "List.filter (\<lambda>k. k \<in> set COMPOSE_MANAGED_KEYS) (keys (re_compose u)) = []"
      by (simp add: check_compose_keys_def Let_def split: if_splits)
    with u(2) show ?thesis unfolding filter_empty_conv by blast
  qed
  show "cn_kind c \<in> set (keys CONNECTION_KINDS)" if c: "(name, c) \<in> set (m_connections m)" for name c
  proof -
    from all have "concat (List.map check_kind (m_connections m)) = []" by blast
    from concat_map_NilD [OF this c] show ?thesis by (simp add: check_kind_def split: if_splits)
  qed
  show "re_shell u \<noteq> []" if u: "(unit, u) \<in> set (m_run m)" for unit u
  proof -
    from all have "concat (List.map check_min_length (m_run m)) = []" by blast
    from concat_map_NilD [OF this u] show ?thesis by (simp add: check_min_length_def split: if_splits)
  qed
qed

lemma validate_manifest_parts:
  assumes "validate_manifest app m = []"
  shows "as_main (m_app m) \<in> set (keys (m_run m))" "validate_config_decls m = []"
    "validate_volumes m = []" "validate_run_volumes m = []" "validate_routes m = []"
    "validate_env_refs m = []" "validate_commands m = []" "validate_cron m = []"
    "validate_connections m = []" "as_app_id (m_app m) \<in> {None, Some app}"
  using assms [unfolded validate_manifest_def append_is_Nil_conv]
  by (simp_all split: if_splits option.splits)

lemma command_unit_known:
  assumes "validate_commands m = []" "(name, c) \<in> set (m_commands m)"
  shows "ce_run_unit c \<in> set (keys (m_run m))"
  using concat_map_NilD [OF assms(1) [unfolded validate_commands_def] assms(2), unfolded case_prod_conv]
  by (simp split: if_splits)

lemma connection_declared:
  assumes "validate_connections m = []" "(unit, u) \<in> set (m_run m)" "name \<in> set (re_connections u)"
  shows "name \<in> set (keys (m_connections m))"
proof -
  note concat_map_NilD [OF assms(1) [unfolded validate_connections_def] assms(2), unfolded case_prod_conv]
  from concat_map_NilD [OF this assms(3)] show ?thesis by (simp split: if_splits)
qed

section \<open>Properties\<close>


text \<open>A manifest with one unit, a route it refers to and a volume mounted at a given place.\<close>

definition demo_manifest :: "string \<Rightarrow> manifest" where
  "demo_manifest guest =
     \<lparr>m_app = \<lparr>as_app_id = Some ''org.demo'', as_version = ''1'', as_network_mode = NormalNetwork,
        as_display_name = [], as_description = [], as_author = [], as_url = ''https://demo.org'',
        as_main = ''main''\<rparr>,
      m_run = [(''main'',
        \<lparr>re_image = ''demo:1'', re_cmd = None, re_volumes = [(''db'', guest)],
         re_env = [(''URL'', ''at ${routes.web}'')],
         re_routes = [(''web'', \<lparr>rd_port = ''8080:80'', rd_private = False, rd_scheme = Http, rd_desc = []\<rparr>)],
         re_restart = True, re_shell = [''/bin/sh'', ''-c''], re_healthcheck = None,
         re_connections = [], re_compose = [(''init'', JBool True)]\<rparr>)],
      m_config = [], m_adv_config = [],
      m_volumes = [(''db'', \<lparr>mv_kind = DataKind, mv_src = None, mv_desc = [], mv_readonly = False,
         mv_readonly_set = False\<rparr>)],
      m_commands = [(''backup'', \<lparr>ce_cmd = ''dump'', ce_run_unit = ''main'', ce_desc = []\<rparr>)],
      m_cron = [], m_connections = []\<rparr>"

lemmas section_eval = section_problems_def manifest_identifiers_def check_url_def check_src_def
  check_route_port_def check_compose_keys_def check_min_length_def check_kind_def
  is_identifier_def IDENTIFIER_MAX_LEN_def ident_char_def char_class_defs COMPOSE_MANAGED_KEYS_def
  parse_port_def port_number_def partition_on_def str_isdigit_def nat_of_str_def digit_val_def
  starts_with_def

lemmas validate_eval = validate_manifest_def validate_config_decls_def validate_option_decls_def
  validate_volumes_def validate_run_volumes_def validate_routes_def route_owners_def
  declared_routes_def group_add_def validate_env_refs_def attached_keys_def known_keys_def
  identifiers_def next_token_def match_identifier_def id_start_def id_char_def char_class_defs
  map_filter_simps ROUTE_KEY_PREFIX_def KLSO_KEY_PREFIX_def validate_commands_def
  validate_cron_def validate_connections_def normpath_def KELSO_GUEST_DIR_def starts_with_def
  numeral_2_eq_2

lemma demo_manifest_accepted: "parse_manifest ''org.demo'' (demo_manifest ''/var/db'') = Inr (demo_manifest ''/var/db'')"
proof -
  have "section_problems (demo_manifest ''/var/db'') = []"
    by (simp add: section_eval demo_manifest_def)
  moreover have "validate_manifest ''org.demo'' (demo_manifest ''/var/db'') = []"
    by (simp add: validate_eval demo_manifest_def)
  ultimately show ?thesis by (simp add: parse_manifest_def)
qed


text \<open>No unit of an accepted manifest mounts a volume at a path that normalises to \<^verbatim>\<open>/kelso\<close> or to
  something below it.\<close>

lemma kelso_dir_not_mounted_over:
  assumes "parse_manifest app m = Inr m'" and "(unit, u) \<in> set (m_run m)"
    and "(volume, guest) \<in> set (re_volumes u)"
  shows "normpath guest \<noteq> KELSO_GUEST_DIR \<and> \<not> starts_with (normpath guest) (KELSO_GUEST_DIR @ ''/'')"
proof -
  from assms(1) have "validate_manifest app m = []" by (simp add: parse_manifest_Inr)
  from run_volume_allowed [OF validate_manifest_parts(4) [OF this] assms(2,3)] show ?thesis by blast
qed

lemma demo_manifest_unit:
  "\<exists>u. (''main'', u) \<in> set (m_run (demo_manifest guest)) \<and> (''db'', guest) \<in> set (re_volumes u) \<and>
    (''URL'', ''at ${routes.web}'') \<in> set (re_env u)"
  by (simp add: demo_manifest_def)

lemma kelso_dir_not_mounted_over_witness:
  "normpath ''/var/db'' \<noteq> KELSO_GUEST_DIR \<and> \<not> starts_with (normpath ''/var/db'') (KELSO_GUEST_DIR @ ''/'')"
proof -
  obtain u where "(''main'', u) \<in> set (m_run (demo_manifest ''/var/db''))" "(''db'', ''/var/db'') \<in> set (re_volumes u)"
    using demo_manifest_unit by blast
  from kelso_dir_not_mounted_over [OF demo_manifest_accepted this] show ?thesis .
qed

text \<open>The check is made on a path \<^verbatim>\<open>posixpath.normpath\<close> leaves two leading slashes in, so a volume
  at \<^verbatim>\<open>//kelso\<close>, which names the same directory, is accepted.\<close>

lemma double_slash_evades_reserved_dir:
  "parse_manifest ''org.demo'' (demo_manifest ''//kelso/bin'') = Inr (demo_manifest ''//kelso/bin'')"
proof -
  have "section_problems (demo_manifest ''//kelso/bin'') = []"
    by (simp add: section_eval demo_manifest_def)
  moreover have "validate_manifest ''org.demo'' (demo_manifest ''//kelso/bin'') = []"
    by (simp add: validate_eval demo_manifest_def)
  ultimately show ?thesis by (simp add: parse_manifest_def)
qed

text \<open>In an accepted manifest every dotted placeholder of a unit's environment is one of the keys
  kelso substitutes for that unit: a declared route, one of kelso's own keys, or a property of a
  connection attached to the unit.\<close>

lemma accepted_env_refs_known:
  assumes "parse_manifest app m = Inr m'" and "(unit, u) \<in> set (m_run m)"
    and "(var, v) \<in> set (re_env u)" and "ref \<in> set (identifiers v)" and "CHR ''.'' \<in> set ref"
  shows "ref \<in> set (attached_keys m u)"
proof -
  from assms(1) have "validate_manifest app m = []" by (simp add: parse_manifest_Inr)
  from env_ref_known [OF validate_manifest_parts(6) [OF this] assms(2-5)] show ?thesis .
qed

lemma accepted_env_refs_known_witness:
  "\<exists>u. (''main'', u) \<in> set (m_run (demo_manifest ''/var/db'')) \<and>
    ''routes.web'' \<in> set (attached_keys (demo_manifest ''/var/db'') u)"
proof -
  obtain u where u: "(''main'', u) \<in> set (m_run (demo_manifest ''/var/db''))"
      "(''URL'', ''at ${routes.web}'') \<in> set (re_env u)"
    using demo_manifest_unit by blast
  have "''routes.web'' \<in> set (identifiers ''at ${routes.web}'')"
    by (simp add: identifiers_def next_token_def match_identifier_def id_start_def id_char_def
        char_class_defs map_filter_simps numeral_2_eq_2)
  moreover have "CHR ''.'' \<in> set ''routes.web''" by simp
  ultimately show ?thesis using accepted_env_refs_known [OF demo_manifest_accepted u] u(1) by blast
qed

end
