(* ===== verification/Spec.thy ===== *)
theory Spec
  imports Manifest Observations
begin

text \<open>
  \<^verbatim>\<open>kelso/lib/spec.py\<close>: the immutable definition of an app built from an accepted manifest: its
  config entries with kelso's own options among them, its volumes, run units, routes and
  commands, and the warnings about compose options kelso does not model.
\<close>

definition KELSO_VERSION_LABEL :: string where "KELSO_VERSION_LABEL = ''kelso.version''"
definition KELSO_SUBDOMAIN_LABEL :: string where "KELSO_SUBDOMAIN_LABEL = ''kelso.app_subdomain''"
definition KELSO_CONFIG_ENV_PREFIX :: string where "KELSO_CONFIG_ENV_PREFIX = ''__KELSO_CONFIG_''"
definition PRIMARY_ROUTE_NAME :: string where "PRIMARY_ROUTE_NAME = ''main''"

datatype config_section = ConfigSection | AdvancedSection | OptionSection

record app_config =
  ac_name :: string
  ac_secret :: bool
  ac_default :: "string option"
  ac_desc :: string
  ac_section :: config_section

definition has_default :: "app_config \<Rightarrow> bool" where
  "has_default c \<longleftrightarrow> \<not> ac_secret c \<and> ac_default c \<noteq> None"

definition env_name :: "app_config \<Rightarrow> string" where
  "env_name c = KELSO_CONFIG_ENV_PREFIX @ ''_'' @ ac_name c"

record app_volume =
  av_name :: string
  av_kind :: volume_kind
  av_readonly :: bool
  av_src :: "string option"
  av_desc :: string

fun kind_name :: "volume_kind \<Rightarrow> string" where
  "kind_name AppVolumeKind = ''app''"
| "kind_name DataKind = ''data''"
| "kind_name TempKind = ''temp''"
| "kind_name BulkKind = ''bulk''"
| "kind_name LogsKind = ''logs''"
| "kind_name HostKind = ''host''"

definition run_rel_path :: "app_volume \<Rightarrow> string" where
  "run_rel_path v = ''./volumes/'' @ kind_name (av_kind v) @ ''/'' @ av_name v"

text \<open>\<open>a or b\<close> of an optional string: \<open>None\<close> and the empty string are false.\<close>

definition or_else :: "string option \<Rightarrow> string \<Rightarrow> string" where
  "or_else a b = (case a of Some (c # cs) \<Rightarrow> c # cs | _ \<Rightarrow> b)"

definition in_bundle :: "app_volume \<Rightarrow> string" where
  "in_bundle v = ''$app/'' @ or_else (av_src v) (av_name v)"

record bound_volume =
  bv_volume :: app_volume
  bv_guest_path :: string

definition bv_readonly :: "bound_volume \<Rightarrow> bool" where
  "bv_readonly b = av_readonly (bv_volume b)"

record app_route =
  ar_route_name :: string
  ar_run_unit_name :: string
  ar_host_port :: int
  ar_container_port :: int
  ar_proto :: proto
  ar_private :: bool
  ar_scheme :: scheme
  ar_desc :: string

definition route_subdomain :: "app_route \<Rightarrow> string \<Rightarrow> string" where
  "route_subdomain r app_subdomain =
     (if ar_route_name r = PRIMARY_ROUTE_NAME then [] else ar_route_name r @ ''-'') @ app_subdomain"

definition needs_allocation :: "app_route \<Rightarrow> bool" where
  "needs_allocation r \<longleftrightarrow> ar_host_port r = - 1"

record app_run_unit =
  au_hostname :: string
  au_image :: string
  au_command :: "string list option"
  au_environment :: "(string, string) dict"
  au_volumes :: "(string, bound_volume) dict"
  au_routes :: "(string, app_route) dict"
  au_labels :: "(string, string) dict"
  au_restart :: bool
  au_shell :: "string list"
  au_healthcheck :: "string list option"
  au_connections :: "string list"
  au_compose_extra :: "(string, json) dict"

record compose_warning =
  cw_run_unit :: string
  cw_options :: "(string, json) dict"

record app_command =
  cmd_name :: string
  cmd_cmd :: string
  cmd_run_unit :: string
  cmd_desc :: string

record app_spec =
  sp_app :: string
  sp_manifest :: manifest
  sp_run_units :: "(string, app_run_unit) dict"
  sp_routes :: "(string, app_route) dict"
  sp_config :: "(string, app_config) dict"
  sp_volumes :: "(string, app_volume) dict"
  sp_commands :: "(string, app_command) dict"

definition compose_warnings :: "app_spec \<Rightarrow> compose_warning list" where
  "compose_warnings spec =
     List.map_filter (\<lambda>(name, u).
         let options = unlisted_compose_options (au_compose_extra u)
         in if options \<noteq> [] then Some \<lparr>cw_run_unit = name, cw_options = options\<rparr> else None)
       (sp_run_units spec)"

definition healthcheck_argv :: "run_entry \<Rightarrow> string list option" where
  "healthcheck_argv u =
     (case re_healthcheck u of
        None \<Rightarrow> None
      | Some (HealthString check) \<Rightarrow> Some (re_shell u @ [check])
      | Some (HealthArgv argv) \<Rightarrow> Some argv)"

datatype spec_error = Undeclared string | BadRoutePort port_error

definition unit_environment :: "manifest \<Rightarrow> string \<Rightarrow> string \<Rightarrow> run_entry \<Rightarrow> (string, string) dict" where
  "unit_environment m app name u =
     dict_merge
       [(''KLSO_ID'', app), (''KLSO_VERSION'', as_version (m_app m)), (''KLSO_RUN_UNIT'', name)] (re_env u)"

definition unit_route :: "string \<Rightarrow> string \<times> route_decl \<Rightarrow> spec_error + (string \<times> app_route)" where
  "unit_route unit nr =
     (case nr of (name, r) \<Rightarrow>
        (case parse_port (rd_port r) of
           Inl e \<Rightarrow> Inl (BadRoutePort e)
         | Inr p \<Rightarrow>
             Inr (name, \<lparr>ar_route_name = name, ar_run_unit_name = unit, ar_host_port = ps_host_port p,
                ar_container_port = ps_container_port p, ar_proto = ps_proto p,
                ar_private = rd_private r, ar_scheme = rd_scheme r, ar_desc = rd_desc r\<rparr>)))"

definition bind_volume ::
    "(string, app_volume) dict \<Rightarrow> string \<times> string \<Rightarrow> spec_error + (string \<times> bound_volume)" where
  "bind_volume volumes ng =
     (case ng of (name, guest) \<Rightarrow>
        (case map_of volumes name of
           None \<Rightarrow> Inl (Undeclared name)
         | Some v \<Rightarrow> Inr (name, \<lparr>bv_volume = v, bv_guest_path = guest\<rparr>)))"

definition resolve_run_unit ::
    "manifest \<Rightarrow> string \<Rightarrow> (string, app_volume) dict \<Rightarrow> string \<times> run_entry
       \<Rightarrow> spec_error + (string \<times> app_run_unit)" where
  "resolve_run_unit m app volumes nu =
     (case nu of (name, u) \<Rightarrow>
       andthen (traverse (bind_volume volumes) (re_volumes u)) (\<lambda>bound.
       andthen (traverse (unit_route name) (re_routes u)) (\<lambda>routes.
         Inr (name,
           \<lparr>au_hostname = name, au_image = re_image u,
            au_command = (case re_cmd u of Some (c # cs) \<Rightarrow> Some (c # cs) | _ \<Rightarrow> None),
            au_environment = unit_environment m app name u,
            au_volumes = bound, au_routes = routes,
            au_labels = [(KELSO_APP_ID_LABEL, app), (KELSO_VERSION_LABEL, as_version (m_app m)),
                         (KELSO_RUN_UNIT_LABEL, name)],
            au_restart = re_restart u, au_shell = re_shell u, au_healthcheck = healthcheck_argv u,
            au_connections = re_connections u, au_compose_extra = re_compose u\<rparr>))))"

definition resolve_run_units ::
    "manifest \<Rightarrow> string \<Rightarrow> (string, app_volume) dict \<Rightarrow> spec_error + (string, app_run_unit) dict" where
  "resolve_run_units m app volumes = traverse (resolve_run_unit m app volumes) (m_run m)"

definition declared_config ::
    "config_section \<Rightarrow> (string, config_decl) dict \<Rightarrow> (string \<times> app_config) list" where
  "declared_config section entries =
     List.map (\<lambda>(name, e).
       (name, \<lparr>ac_name = name, ac_secret = cd_secret e, ac_default = cd_default e,
               ac_desc = (if cd_desc e \<noteq> [] then cd_desc e
                          else case map_of APP_OPTIONS name of None \<Rightarrow> [] | Some opt \<Rightarrow> opt_desc opt),
               ac_section = section\<rparr>)) entries"

text \<open>\<open>d.setdefault(k, v)\<close>.\<close>

definition set_default :: "'k \<Rightarrow> 'v \<Rightarrow> ('k, 'v) dict \<Rightarrow> ('k, 'v) dict" where
  "set_default k v d = (if k \<in> set (keys d) then d else d @ [(k, v)])"

definition build_config :: "manifest \<Rightarrow> string \<Rightarrow> (string, app_config) dict" where
  "build_config m app =
     foldl (\<lambda>d (name, opt). set_default name
         \<lparr>ac_name = name, ac_secret = False, ac_default = Some (opt_default opt app),
          ac_desc = opt_desc opt, ac_section = OptionSection\<rparr> d)
       (dict_merge []
         (declared_config ConfigSection (m_config m) @ declared_config AdvancedSection (m_adv_config m)))
       APP_OPTIONS"

definition build_volumes :: "manifest \<Rightarrow> (string, app_volume) dict" where
  "build_volumes m =
     List.map (\<lambda>(name, v).
       (name, \<lparr>av_name = name, av_kind = mv_kind v,
               av_readonly = (if mv_kind v = AppVolumeKind then True else mv_readonly v),
               av_src = mv_src v, av_desc = mv_desc v\<rparr>)) (m_volumes m)"

definition build_spec :: "manifest \<Rightarrow> string \<Rightarrow> spec_error + app_spec" where
  "build_spec m app =
     andthen (resolve_run_units m app (build_volumes m)) (\<lambda>units.
       Inr \<lparr>sp_app = app, sp_manifest = m, sp_run_units = units,
            sp_routes = dict_merge []
              (concat (List.map (\<lambda>(n, u). au_routes u) units)),
            sp_config = build_config m app, sp_volumes = build_volumes m,
            sp_commands = List.map (\<lambda>(name, c).
              (name, \<lparr>cmd_name = name, cmd_cmd = ce_cmd c, cmd_run_unit = ce_run_unit c, cmd_desc = ce_desc c\<rparr>))
              (m_commands m)\<rparr>)"

definition spec_from_manifest :: "manifest \<Rightarrow> string \<Rightarrow> (manifest_problem list + spec_error) + app_spec" where
  "spec_from_manifest m app =
     (case parse_manifest app m of
        Inl ps \<Rightarrow> Inl (Inl ps)
      | Inr m' \<Rightarrow> (case build_spec m' app of Inl e \<Rightarrow> Inl (Inr e) | Inr s \<Rightarrow> Inr s))"

definition sp_network_mode :: "app_spec \<Rightarrow> network_mode" where
  "sp_network_mode spec = as_network_mode (m_app (sp_manifest spec))"

definition sp_version :: "app_spec \<Rightarrow> string" where
  "sp_version spec = as_version (m_app (sp_manifest spec))"

section \<open>What is built from an accepted manifest\<close>

lemma build_volumes_map:
  "map_of (build_volumes m) name = map_option (\<lambda>v. \<lparr>av_name = name, av_kind = mv_kind v,
      av_readonly = (if mv_kind v = AppVolumeKind then True else mv_readonly v),
      av_src = mv_src v, av_desc = mv_desc v\<rparr>) (map_of (m_volumes m) name)"
  unfolding build_volumes_def by (rule map_of_map_value)

lemma resolve_run_unit_ok:
  assumes "validate_run_volumes m = []" "section_problems m = []" "(name, u) \<in> set (m_run m)"
  shows "\<exists>r. resolve_run_unit m app (build_volumes m) (name, u) = Inr (name, r) \<and>
    au_compose_extra r = re_compose u \<and> keys (au_routes r) = keys (re_routes u) \<and>
    keys (au_volumes r) = keys (re_volumes u)"
proof -
  have "\<exists>y. bind_volume (build_volumes m) x = Inr y" if "x \<in> set (re_volumes u)" for x
  proof -
    obtain v guest where x: "x = (v, guest)" by (cases x)
    with that run_volume_allowed [OF assms(1,3), of v guest] have "v \<in> set (keys (m_volumes m))" by simp
    then obtain mv where "map_of (m_volumes m) v = Some mv"
      by (metis map_of_eq_None_iff not_None_eq set_map)
    with x show ?thesis by (simp add: bind_volume_def build_volumes_map)
  qed
  then obtain bound where b: "traverse (bind_volume (build_volumes m)) (re_volumes u) = Inr bound"
    using traverse_exists by blast
  have "\<exists>y. unit_route name x = Inr y" if "x \<in> set (re_routes u)" for x
  proof -
    obtain r d where x: "x = (r, d)" by (cases x)
    with that section_problems_ok(2) [OF assms(2,3)] obtain p where "parse_port (rd_port d) = Inr p" by blast
    with x show ?thesis by (simp add: unit_route_def)
  qed
  then obtain routes where r: "traverse (unit_route name) (re_routes u) = Inr routes"
    using traverse_exists by blast
  have same: "traverse f xs = Inr ys \<Longrightarrow> (\<And>x y. f x = Inr y \<Longrightarrow> fst y = fst x) \<Longrightarrow> keys ys = keys xs"
    for f :: "string \<times> 'x \<Rightarrow> spec_error + string \<times> 'y" and xs ys
    by (induction xs arbitrary: ys) (auto split: sum.splits)
  have "keys bound = keys (re_volumes u)"
    by (rule same [OF b]) (auto simp: bind_volume_def split: option.splits prod.splits)
  moreover have "keys routes = keys (re_routes u)"
    by (rule same [OF r]) (auto simp: unit_route_def split: sum.splits prod.splits)
  ultimately show ?thesis by (simp add: resolve_run_unit_def b r)
qed

lemma set_default_map: "map_of (set_default k v d) = (map_of d)(k := (case map_of d k of None \<Rightarrow> Some v | Some x \<Rightarrow> Some x))"
proof (cases "k \<in> set (keys d)")
  case True
  then obtain x where "map_of d k = Some x" by (metis map_of_eq_None_iff not_None_eq set_map)
  with True show ?thesis by (simp add: set_default_def fun_upd_idem)
next
  case False
  then have "map_of d k = None" by (simp add: map_of_eq_None_iff)
  with False show ?thesis by (auto simp: set_default_def map_add_def fun_eq_iff split: option.split)
qed

lemma option_decl_ok:
  assumes "validate_option_decls entries = []" "(name, e) \<in> set entries"
    and "map_of APP_OPTIONS name = Some opt"
  shows "\<not> cd_secret e \<and> (\<forall>d. cd_default e = Some d \<longrightarrow> validate_option name d = Inr ())"
proof -
  note concat_map_NilD [OF assms(1) [unfolded validate_option_decls_def] assms(2), unfolded case_prod_conv]
  with assms(3) show ?thesis
    by (auto simp: validate_option_def split: if_splits option.splits sum.splits)
qed

lemma declared_config_ok:
  assumes "validate_option_decls entries = []" "(name, c) \<in> set (declared_config section entries)"
    and "map_of APP_OPTIONS name = Some opt"
  shows "\<not> ac_secret c \<and> (\<forall>d. ac_default c = Some d \<longrightarrow> validate_option name d = Inr ())"
proof -
  from assms(2) obtain e where "(name, e) \<in> set entries"
    "ac_secret c = cd_secret e" "ac_default c = cd_default e"
    by (auto simp: declared_config_def)
  with option_decl_ok [OF assms(1) _ assms(3)] show ?thesis by simp
qed

lemma build_config_option:
  assumes v: "validate_config_decls m = []" and app: "is_app_id app"
    and opt: "map_of APP_OPTIONS name = Some opt"
  shows "\<exists>c. map_of (build_config m app) name = Some c \<and> \<not> ac_secret c \<and>
    (\<forall>d. ac_default c = Some d \<longrightarrow> validate_option name d = Inr ())"
proof -
  let ?decls = "declared_config ConfigSection (m_config m) @ declared_config AdvancedSection (m_adv_config m)"
  define base where "base = dict_merge [] ?decls"
  have v': "validate_option_decls (m_config m) = []" "validate_option_decls (m_adv_config m) = []"
    using v by (simp_all add: validate_config_decls_def)
  have b: "map_of base name = map_of (rev ?decls) name"
    unfolding base_def map_of_dict_merge by simp
  define dflt where "dflt = \<lparr>ac_name = name, ac_secret = False, ac_default = Some (opt_default opt app),
          ac_desc = opt_desc opt, ac_section = OptionSection\<rparr>"
  have c: "map_of (build_config m app) name = (case map_of base name of None \<Rightarrow> Some dflt | Some c \<Rightarrow> Some c)"
    using opt unfolding build_config_def base_def [symmetric] dflt_def
    by (auto simp: APP_OPTIONS_def set_default_map split: option.split if_splits)
  show ?thesis
  proof (cases "map_of base name")
    case None
    have "validate_option name (opt_default opt app) = Inr ()"
      using option_default_accepted [OF app opt] .
    then show ?thesis using c None by (simp add: dflt_def)
  next
    case (Some e)
    then have "(name, e) \<in> set ?decls" using b map_of_SomeD [of "rev ?decls" name e] by auto
    then have "\<not> ac_secret e \<and> (\<forall>d. ac_default e = Some d \<longrightarrow> validate_option name d = Inr ())"
      using declared_config_ok [OF v'(1) _ opt] declared_config_ok [OF v'(2) _ opt] by auto
    with c Some show ?thesis by simp
  qed
qed

lemma build_spec_ok:
  assumes "parse_manifest app m = Inr m'"
  shows "\<exists>spec. build_spec m app = Inr spec \<and> keys (sp_run_units spec) = keys (m_run m) \<and>
    (\<forall>name r. (name, r) \<in> set (sp_run_units spec) \<longrightarrow> (\<exists>u. (name, u) \<in> set (m_run m) \<and>
      resolve_run_unit m app (build_volumes m) (name, u) = Inr (name, r) \<and>
      au_compose_extra r = re_compose u \<and> keys (au_routes r) = keys (re_routes u) \<and>
      keys (au_volumes r) = keys (re_volumes u)))"
proof -
  have m: "section_problems m = []" "validate_run_volumes m = []"
    using assms validate_manifest_parts(4) by (auto simp: parse_manifest_Inr)
  have unit: "\<exists>r. resolve_run_unit m app (build_volumes m) x = Inr (fst x, r)" if "x \<in> set (m_run m)" for x
    using resolve_run_unit_ok [OF m(2,1), of "fst x" "snd x"] that by (cases x) auto
  then obtain units where units: "traverse (resolve_run_unit m app (build_volumes m)) (m_run m) = Inr units"
    using traverse_exists [of "m_run m" "resolve_run_unit m app (build_volumes m)"] by blast
  have rel: "list_all2 (\<lambda>x y. resolve_run_unit m app (build_volumes m) x = Inr y) (m_run m) units"
    by (rule traverse_Inr_list_all2 [OF units])
  have "list_all2 (\<lambda>x y. fst y = fst x) (m_run m) units"
  proof (rule list.rel_mono_strong [OF rel])
    fix x y assume "x \<in> set (m_run m)" "resolve_run_unit m app (build_volumes m) x = Inr y"
    with unit [of x] show "fst y = fst x" by auto
  qed
  then have "keys units = keys (m_run m)"
    by (auto simp: list_all2_conv_all_nth intro!: nth_equalityI)
  moreover have "\<exists>u. (name, u) \<in> set (m_run m) \<and> resolve_run_unit m app (build_volumes m) (name, u) = Inr (name, r) \<and>
      au_compose_extra r = re_compose u \<and> keys (au_routes r) = keys (re_routes u) \<and>
      keys (au_volumes r) = keys (re_volumes u)"
    if inu: "(name, r) \<in> set units" for name r
  proof -
    obtain x where x: "x \<in> set (m_run m)" "resolve_run_unit m app (build_volumes m) x = Inr (name, r)"
      using traverse_Inr_set [OF units inu] by blast
    obtain n u where nu: "x = (n, u)" by (cases x)
    from resolve_run_unit_ok [OF m(2,1) x(1) [unfolded nu], of app] x(2) nu have "n = name" by auto
    with resolve_run_unit_ok [OF m(2,1) x(1) [unfolded nu], of app] x nu show ?thesis by auto
  qed
  ultimately show ?thesis
    by (simp add: build_spec_def resolve_run_units_def units)
qed

section \<open>Properties\<close>

text \<open>C7: an accepted manifest builds: no lookup of the construction fails. In the result every volume of
  the bundle itself is read-only, whatever the manifest says; no unit's compose options name a
  key kelso manages; and each of kelso's app options is there, not secret, with a default that
  passes the option's own check if it has one.\<close>

theorem accepted_manifest_builds:
  assumes "parse_manifest app m = Inr m'" and "is_app_id app"
  shows "\<exists>spec. build_spec m app = Inr spec \<and> keys (sp_run_units spec) = keys (m_run m) \<and>
    (\<forall>name v. map_of (sp_volumes spec) name = Some v \<and> av_kind v = AppVolumeKind \<longrightarrow> av_readonly v) \<and>
    (\<forall>name u k. (name, u) \<in> set (sp_run_units spec) \<and> k \<in> set COMPOSE_MANAGED_KEYS \<longrightarrow>
      k \<notin> set (keys (au_compose_extra u))) \<and>
    (\<forall>name opt. map_of APP_OPTIONS name = Some opt \<longrightarrow>
      (\<exists>c. map_of (sp_config spec) name = Some c \<and> \<not> ac_secret c \<and>
        (\<forall>d. ac_default c = Some d \<longrightarrow> validate_option name d = Inr ())))"
proof -
  obtain spec where spec: "build_spec m app = Inr spec" "keys (sp_run_units spec) = keys (m_run m)"
    and units: "\<And>name r. (name, r) \<in> set (sp_run_units spec) \<Longrightarrow>
      \<exists>u. (name, u) \<in> set (m_run m) \<and> au_compose_extra r = re_compose u"
    using build_spec_ok [OF assms(1)] by blast
  have v: "sp_volumes spec = build_volumes m" "sp_config spec = build_config m app"
    using spec(1) by (auto simp: build_spec_def andthen_Inr)
  have "av_readonly v" if "map_of (sp_volumes spec) name = Some v" "av_kind v = AppVolumeKind" for name v
    using that unfolding v(1) build_volumes_map by (auto split: if_splits)
  moreover have "k \<notin> set (keys (au_compose_extra u))"
    if u: "(name, u) \<in> set (sp_run_units spec)" and k: "k \<in> set COMPOSE_MANAGED_KEYS" for name u k
  proof -
    obtain ua where ua: "(name, ua) \<in> set (m_run m)" "au_compose_extra u = re_compose ua"
      using units [OF u] by blast
    have "section_problems m = []"
      using assms(1) validate_manifest_parts(4) by (auto simp: parse_manifest_Inr)
    from section_problems_ok(3) [OF this ua(1) k] ua(2) show ?thesis by simp
  qed
  moreover have "\<exists>c. map_of (sp_config spec) name = Some c \<and> \<not> ac_secret c \<and>
        (\<forall>d. ac_default c = Some d \<longrightarrow> validate_option name d = Inr ())"
    if "map_of APP_OPTIONS name = Some opt" for name opt
    using build_config_option [OF _ assms(2) that, of m] validate_manifest_parts(2) assms(1) v(2)
    by (auto simp: parse_manifest_Inr)
  ultimately show ?thesis using spec by blast
qed

theorem accepted_manifest_builds_witness:
  "\<exists>spec. build_spec (demo_manifest ''/var/db'') ''org.demo'' = Inr spec \<and>
    keys (sp_run_units spec) = [''main''] \<and>
    (\<exists>c. map_of (sp_config spec) ''start_order'' = Some c \<and> \<not> ac_secret c)"
proof -
  have "is_app_id ''org.demo''" by (simp add: is_app_id_def section_eval)
  note * = accepted_manifest_builds [OF demo_manifest_accepted this]
  from * obtain spec where
    s: "build_spec (demo_manifest ''/var/db'') ''org.demo'' = Inr spec"
      "keys (sp_run_units spec) = keys (m_run (demo_manifest ''/var/db''))"
    and o: "\<forall>name opt. map_of APP_OPTIONS name = Some opt \<longrightarrow>
      (\<exists>c. map_of (sp_config spec) name = Some c \<and> \<not> ac_secret c \<and>
        (\<forall>d. ac_default c = Some d \<longrightarrow> validate_option name d = Inr ()))"
    by (elim exE conjE)
  have "\<exists>opt. map_of APP_OPTIONS ''start_order'' = Some opt" by (simp add: APP_OPTIONS_def)
  with o have "\<exists>c. map_of (sp_config spec) ''start_order'' = Some c \<and> \<not> ac_secret c" by blast
  with s show ?thesis by (simp add: demo_manifest_def)
qed

end
