(* ===== verification/RunLayout.thy ===== *)
theory RunLayout
  imports Spec Store Config
begin

text \<open>
  \<^verbatim>\<open>kelso/lib/run_layout.py\<close>: from an app's spec and what this machine holds for it, the data a
  load works with (config values, volume links, connections, routes and the issues that are
  still open) and the compose file written from it.
\<close>

section \<open>Names, mounts and commands\<close>

definition LOCALTIME_PATH :: string where "LOCALTIME_PATH = ''/etc/localtime''"

definition project_name :: "string \<Rightarrow> string" where
  "project_name app =
     List.map (\<lambda>c. if is_lower c \<or> is_digit c \<or> c = CHR ''_'' \<or> c = CHR ''-'' then c else CHR ''_'')
       (str_lower app)"

definition mount_entry :: "string \<Rightarrow> string \<Rightarrow> bool \<Rightarrow> json" where
  "mount_entry source guest readonly =
     JObj ([(''type'', JStr ''bind''), (''source'', JStr source), (''target'', JStr guest)]
           @ (if readonly then [(''read_only'', JBool True)] else [])
           @ [(''bind'', JObj [(''create_host_path'', JBool False)])])"

definition unit_commands :: "app_spec \<Rightarrow> string \<Rightarrow> app_command list" where
  "unit_commands spec unit =
     List.filter (\<lambda>c. cmd_run_unit c = unit) (List.map snd (sort_key fst (sp_commands spec)))"

text \<open>Why a layout cannot be made; \<open>NotLaidOut\<close> is Python's \<^verbatim>\<open>KeyError\<close> of a lookup in one of its dicts.\<close>

datatype layout_error =
    StoreFailed store_error
  | NotLaidOut string
  | BadRouteRecord string
  | NoShell

definition lift_store :: "store_error + 'a \<Rightarrow> layout_error + 'a" where
  "lift_store r = (case r of Inl e \<Rightarrow> Inl (StoreFailed e) | Inr x \<Rightarrow> Inr x)"

definition lookup :: "string \<Rightarrow> (string, 'v) dict \<Rightarrow> layout_error + 'v" where
  "lookup k d = (case map_of d k of None \<Rightarrow> Inl (NotLaidOut k) | Some v \<Rightarrow> Inr v)"

lemma lookup_Inr: "lookup k d = Inr v \<longleftrightarrow> map_of d k = Some v"
  by (simp add: lookup_def split: option.splits)

definition ljust :: "nat \<Rightarrow> string \<Rightarrow> string" where
  "ljust n s = s @ replicate (n - length s) (CHR '' '')"

definition NL :: string where "NL = [CHR 0x0A]"
definition DQ :: string where "DQ = [CHR 0x22]"
definition SQ :: string where "SQ = [CHR 0x27]"

text \<open>\<open>"$@"\<close>, and the text of \<^verbatim>\<open>KELSO_CMD_TEMPLATE\<close> with its placeholders filled.\<close>

definition ALL_ARGS :: string where "ALL_ARGS = DQ @ ''$@'' @ DQ"

definition kelso_cmd_text :: "string \<Rightarrow> string \<Rightarrow> string \<Rightarrow> string \<Rightarrow> string \<Rightarrow> string" where
  "kelso_cmd_text shell app unit cases listing =
     join NL
       [''#!'' @ shell,
        ''# Written by kelso for '' @ app @ '', unit '' @ unit @ ''. Rewritten on load.'',
        ''case '' @ DQ @ ''$1'' @ DQ @ '' in'',
        cases,
        ''  '' @ SQ @ SQ @ '') cat <<'' @ SQ @ ''KELSO_COMMANDS'' @ SQ,
        listing,
        ''KELSO_COMMANDS'',
        ''    ;;'',
        ''  *) echo '' @ DQ @ ''kelso_cmd: no command $1 in '' @ unit
          @ ''; run kelso_cmd to list them'' @ DQ @ '' >&2'',
        ''     exit 127 ;;'',
        ''esac'',
        []]"

definition kelso_cmd :: "app_spec \<Rightarrow> string \<Rightarrow> layout_error + string" where
  "kelso_cmd spec unit =
     (let commands = unit_commands spec unit
      in if commands = [] then Inl (NotLaidOut unit)
         else
           (let width = Max (set (List.map (\<lambda>c. length (cmd_name c)) commands));
                cases = List.map (\<lambda>c. ''  '' @ cmd_name c @ '') shift; '' @ cmd_cmd c @ '' '' @ ALL_ARGS @ '' ;;'') commands;
                listing = (sp_app spec @ '' ('' @ unit @ '') commands, run as: kelso_cmd <name> [args]'')
                  # List.map (\<lambda>c. ''  '' @ ljust width (cmd_name c) @ ''  '' @ cmd_cmd c) commands
            in andthen (lookup unit (sp_run_units spec)) (\<lambda>u.
                 case au_shell u of
                   [] \<Rightarrow> Inl NoShell
                 | sh # _ \<Rightarrow> Inr (kelso_cmd_text sh (sp_app spec) unit (join NL cases) (join NL listing)))))"

definition command_argv :: "app_run_unit \<Rightarrow> app_command \<Rightarrow> string list \<Rightarrow> string list" where
  "command_argv u c args = au_shell u @ [cmd_cmd c @ '' '' @ ALL_ARGS, cmd_name c] @ args"

definition env_kvpair :: "string \<Rightarrow> string \<Rightarrow> string" where
  "env_kvpair k v = k @ '':'' @ v"

definition port_string :: "int \<Rightarrow> int \<Rightarrow> string \<Rightarrow> string" where
  "port_string host container prot =
     (let both = str_of_int host @ '':'' @ str_of_int container
      in if prot = ''udp'' then both @ ''/udp''
         else if prot \<in> {''tcp'', ''all''} then both
         else both @ ''/'' @ prot)"

section \<open>What a load works with\<close>

text \<open>
  An issue names its requirement by a constructor; the source renders it as the text of the
  problem and of its fix.
\<close>

datatype issue_problem =
    SecretMismatch string bool json
  | ConfigUnset string
  | ConnectionMissing string string string
  | NotBound string
  | UnknownHostVolume string string
  | HostVolumeReadonly string string
  | HostPathMissing string string string
  | NotMounted string string string
  | DanglingRoot string string string
  | SourceMissing string string
  | RouteMismatch string string
  | PortNotAllocated string
  | RouteNotAllocated string
  | RouteNotDeclared string

record config_issue =
  ci_problem :: issue_problem
  ci_load_blocking :: bool
  ci_self_healing :: bool

definition issue :: "issue_problem \<Rightarrow> config_issue" where
  "issue p = \<lparr>ci_problem = p, ci_load_blocking = False, ci_self_healing = False\<rparr>"
definition blocking :: "issue_problem \<Rightarrow> config_issue" where
  "blocking p = \<lparr>ci_problem = p, ci_load_blocking = True, ci_self_healing = False\<rparr>"
definition healing :: "issue_problem \<Rightarrow> config_issue" where
  "healing p = \<lparr>ci_problem = p, ci_load_blocking = False, ci_self_healing = True\<rparr>"

record resolved_connection =
  rc_kind :: string
  rc_host_path :: string
  rc_guest_path :: string
  rc_properties :: "(string, string) dict"

record volume_link =
  vl_source :: string
  vl_target :: string
  vl_destination :: string
  vl_mkdir :: bool

record config_value =
  cv_config :: app_config
  cv_value :: "string option"

definition env_val :: "config_value \<Rightarrow> string" where
  "env_val v = (case cv_value v of None \<Rightarrow> [] | Some s \<Rightarrow> s)"

record assigned_route =
  asg_name :: string
  asg_subdomain :: string
  asg_run_unit_name :: string
  asg_host_port :: int
  asg_container_port :: int
  asg_proto :: string
  asg_scheme :: string
  asg_providers :: "string list"

definition primary_provider :: "assigned_route \<Rightarrow> string" where
  "primary_provider r = (case asg_providers r of [] \<Rightarrow> NONE_ROUTE_PROVIDER_TAG | p # _ \<Rightarrow> p)"

definition route_record :: "assigned_route \<Rightarrow> (string, json) dict" where
  "route_record r =
     [(''name'', JStr (asg_name r)), (''subdomain'', JStr (asg_subdomain r)),
      (''run_unit_name'', JStr (asg_run_unit_name r)), (''host_port'', JInt (asg_host_port r)),
      (''container_port'', JInt (asg_container_port r)), (''proto'', JStr (asg_proto r)),
      (''scheme'', JStr (asg_scheme r)), (''providers'', JArr (List.map JStr (asg_providers r)))]"

definition ROUTE_FIELDS :: "string list" where
  "ROUTE_FIELDS =
     [''name'', ''subdomain'', ''run_unit_name'', ''host_port'', ''container_port'', ''proto'', ''scheme'',
      ''providers'']"

definition str_field :: "string \<Rightarrow> (string, json) dict \<Rightarrow> layout_error + string" where
  "str_field k d = (case map_of d k of Some (JStr s) \<Rightarrow> Inr s | _ \<Rightarrow> Inl (BadRouteRecord k))"

definition int_field :: "string \<Rightarrow> (string, json) dict \<Rightarrow> layout_error + int" where
  "int_field k d = (case map_of d k of Some (JInt i) \<Rightarrow> Inr i | _ \<Rightarrow> Inl (BadRouteRecord k))"

text \<open>
  The legacy key \<^verbatim>\<open>provider\<close> becomes \<open>providers\<close> unless the record has both. A missing field and
  one the class does not have are Python's \<^verbatim>\<open>TypeError\<close>; a field of another type, which a
  dataclass does not check, is refused here too, as no writer stores one.
\<close>

definition legacy_providers :: "(string, json) dict \<Rightarrow> (string, json) dict" where
  "legacy_providers entry =
     (case map_of entry ''provider'' of
        None \<Rightarrow> entry
      | Some legacy \<Rightarrow>
          set_default ''providers''
            (if legacy = JStr NONE_ROUTE_PROVIDER_TAG then JArr [] else JArr [legacy])
            (AList.delete ''provider'' entry))"

definition route_from_record :: "(string, json) dict \<Rightarrow> layout_error + assigned_route" where
  "route_from_record entry =
     (let fields = legacy_providers entry
      in andthen (case map_of fields ''providers'' of
            None \<Rightarrow> Inr []
          | Some (JArr xs) \<Rightarrow>
              (case those (List.map str_of_json xs) of
                 None \<Rightarrow> Inl (BadRouteRecord ''providers'') | Some tags \<Rightarrow> Inr tags)
          | Some _ \<Rightarrow> Inl (BadRouteRecord ''providers'')) (\<lambda>providers.
         andthen (case List.filter (\<lambda>k. k \<notin> set ROUTE_FIELDS) (keys fields) of
                    [] \<Rightarrow> Inr () | k # _ \<Rightarrow> Inl (BadRouteRecord k)) (\<lambda>_.
         andthen (str_field ''name'' fields) (\<lambda>name.
         andthen (str_field ''subdomain'' fields) (\<lambda>subdomain.
         andthen (str_field ''run_unit_name'' fields) (\<lambda>unit.
         andthen (int_field ''host_port'' fields) (\<lambda>host.
         andthen (int_field ''container_port'' fields) (\<lambda>container.
         andthen (str_field ''proto'' fields) (\<lambda>prot.
         andthen (str_field ''scheme'' fields) (\<lambda>sch.
           Inr \<lparr>asg_name = name, asg_subdomain = subdomain, asg_run_unit_name = unit,
                asg_host_port = host, asg_container_port = container, asg_proto = prot,
                asg_scheme = sch, asg_providers = providers\<rparr>))))))))))"

record app_run_data =
  rd_app :: string
  rd_run_path :: string
  rd_app_domain :: "string option"
  rd_volume_links :: "(string, volume_link) dict"
  rd_config_values :: "(string, config_value) dict"
  rd_routes :: "(string, assigned_route) dict"
  rd_route_urls :: "(string, string) dict"
  rd_host_mounts :: "json list"
  rd_issues :: "config_issue list"
  rd_connections :: "(string, resolved_connection) dict"

definition load_blockers :: "app_run_data \<Rightarrow> config_issue list" where
  "load_blockers d = List.filter ci_load_blocking (rd_issues d)"

definition start_blockers :: "app_run_data \<Rightarrow> config_issue list" where
  "start_blockers d = List.filter (\<lambda>i. \<not> ci_self_healing i) (rd_issues d)"

definition config_env :: "app_run_data \<Rightarrow> (string, string) dict" where
  "config_env d = dict_merge [] (List.map (\<lambda>(n, c). (env_name (cv_config c), env_val c)) (rd_config_values d))"

section \<open>Reading what the machine holds\<close>

text \<open>
  The file system as the code asks it: whether a path exists (links followed), whether it is a
  mount point, and where a link that leads nowhere points.
\<close>

record fs_view =
  fs_exists :: "string \<Rightarrow> bool"
  fs_is_mount :: "string \<Rightarrow> bool"
  fs_dangling :: "string \<Rightarrow> string option"

text \<open>The context of one app: the config, the operations and states of its store and of kelsodb.\<close>

record 's run_ctx =
  rx_config :: config
  rx_ops :: "'s store_ops"
  rx_crypto :: crypto_engine
  rx_app :: 's
  rx_db :: 's
  rx_fs :: fs_view

text \<open>Python's \<^verbatim>\<open>==\<close> between a stored flag and a bool.\<close>

definition py_eq_bool :: "json \<Rightarrow> bool \<Rightarrow> bool" where
  "py_eq_bool v b \<longleftrightarrow> v = JBool b \<or> v = JInt (if b then 1 else 0)"

text \<open>A stored flag and value as the callers use them: a value kelso stores is a string.\<close>

definition stored_pair :: "(json \<times> json) option \<Rightarrow> store_error + (json \<times> string) option" where
  "stored_pair found =
     (case found of
        None \<Rightarrow> Inr None
      | Some (flag, JNull) \<Rightarrow> Inr None
      | Some (flag, JStr s) \<Rightarrow> Inr (Some (flag, s))
      | Some _ \<Rightarrow> Inl WrongType)"

definition config_value_of ::
    "string \<Rightarrow> app_config \<Rightarrow> (json \<times> string) option \<Rightarrow> config_value \<times> config_issue list" where
  "config_value_of name c stored =
     (case stored of
        Some (is_secret, v) \<Rightarrow>
          if py_eq_bool is_secret (ac_secret c) then (\<lparr>cv_config = c, cv_value = Some v\<rparr>, [])
          else (\<lparr>cv_config = c, cv_value = None\<rparr>, [issue (SecretMismatch name (ac_secret c) is_secret)])
      | None \<Rightarrow>
          if has_default c then (\<lparr>cv_config = c, cv_value = ac_default c\<rparr>, [])
          else (\<lparr>cv_config = c, cv_value = None\<rparr>, [issue (ConfigUnset name)]))"

definition load_config_value ::
    "'s run_ctx \<Rightarrow> string \<times> app_config \<Rightarrow> store_error + (string \<times> config_value) \<times> config_issue list" where
  "load_config_value ctx nc =
     (case nc of (name, c) \<Rightarrow>
       andthen (andthen (get_config (rx_ops ctx) (rx_crypto ctx) (rx_app ctx) name) stored_pair) (\<lambda>stored.
         case config_value_of name c stored of (v, raised) \<Rightarrow> Inr ((name, v), raised)))"

definition load_config_values ::
    "'s run_ctx \<Rightarrow> app_spec \<Rightarrow> layout_error + (string, config_value) dict \<times> config_issue list" where
  "load_config_values ctx spec =
     andthen (lift_store (traverse (load_config_value ctx) (sp_config spec))) (\<lambda>found.
       Inr (List.map fst found, concat (List.map snd found)))"

definition load_connection ::
    "'s run_ctx \<Rightarrow> string \<times> connection_entry
       \<Rightarrow> layout_error + (string \<times> resolved_connection) option \<times> config_issue list" where
  "load_connection ctx ne =
     (case ne of (name, e) \<Rightarrow>
       andthen (lookup (cn_kind e) CONNECTION_KINDS) (\<lambda>kind.
         let host = ck_host_path kind (conn_root (rx_config ctx)); mounted = conn_guest_path name
         in if \<not> fs_exists (rx_fs ctx) host
            then Inr (None, [blocking (ConnectionMissing name (cn_kind e) host)])
            else Inr (Some (name, \<lparr>rc_kind = cn_kind e, rc_host_path = host, rc_guest_path = mounted,
                                   rc_properties = ck_properties kind mounted\<rparr>), [])))"

definition load_connections ::
    "'s run_ctx \<Rightarrow> app_spec \<Rightarrow> layout_error + (string, resolved_connection) dict \<times> config_issue list" where
  "load_connections ctx spec =
     andthen (traverse (load_connection ctx) (m_connections (sp_manifest spec))) (\<lambda>found.
       Inr (List.map_filter fst found, concat (List.map snd found)))"

definition volume_paths ::
    "string \<Rightarrow> string \<Rightarrow> app_volume \<Rightarrow> (string, string) dict \<Rightarrow> config \<Rightarrow> layout_error + (string \<times> string) option" where
  "volume_paths run_path app v binds cfg =
     (case av_kind v of
        AppVolumeKind \<Rightarrow>
          (let src = or_else (av_src v) (av_name v)
           in Inr (Some (path_joins run_path [''app_bundle'', src], path_joins ''../..'' [''app_bundle'', src])))
      | HostKind \<Rightarrow>
          Inr (case map_of binds (av_name v) of
             None \<Rightarrow> None
           | Some tag \<Rightarrow> map_option (\<lambda>hv. (hv_path hv, hv_path hv)) (map_of (cfg_host_volumes cfg) tag))
      | kind \<Rightarrow>
          andthen (lookup (kind_name kind) (volume_roots cfg)) (\<lambda>root.
            let path = path_joins root [app, av_name v] in Inr (Some (path, path))))"

definition makes_dir :: "volume_kind \<Rightarrow> bool" where
  "makes_dir k \<longleftrightarrow> k \<notin> {AppVolumeKind, HostKind}"

definition host_volume_link ::
    "'s run_ctx \<Rightarrow> (string, string) dict \<Rightarrow> string \<Rightarrow> app_volume \<Rightarrow> config_issue + string" where
  "host_volume_link ctx binds name v =
     (case map_of binds name of
        None \<Rightarrow> Inl (issue (NotBound name))
      | Some tag \<Rightarrow>
          (case map_of (cfg_host_volumes (rx_config ctx)) tag of
             None \<Rightarrow> Inl (issue (UnknownHostVolume name tag))
           | Some hv \<Rightarrow>
               if hv_readonly hv \<and> \<not> av_readonly v then Inl (issue (HostVolumeReadonly name tag))
               else if \<not> fs_exists (rx_fs ctx) (hv_path hv)
               then Inl (blocking (HostPathMissing name tag (hv_path hv)))
               else if hv_require_mount hv \<and> \<not> fs_is_mount (rx_fs ctx) (hv_path hv)
               then Inl (blocking (NotMounted name tag (hv_path hv)))
               else Inr (hv_path hv)))"

definition load_volume_link ::
    "'s run_ctx \<Rightarrow> string \<Rightarrow> string \<Rightarrow> (string, string) dict \<Rightarrow> string \<times> app_volume
       \<Rightarrow> layout_error + (string \<times> volume_link) option \<times> config_issue list" where
  "load_volume_link ctx app run_path binds nv =
     (case nv of (name, v) \<Rightarrow>
       let mkdir = makes_dir (av_kind v);
           link = (\<lambda>source target.
             (Some (name, \<lparr>vl_source = source, vl_target = target,
                           vl_destination = path_join run_path (run_rel_path v), vl_mkdir = mkdir\<rparr>), []))
       in if av_kind v = HostKind then
            Inr (case host_volume_link ctx binds name v of
                   Inl i \<Rightarrow> (None, [i]) | Inr path \<Rightarrow> link path path)
          else
            (case (case map_of (volume_roots (rx_config ctx)) (kind_name (av_kind v)) of
                     None \<Rightarrow> None
                   | Some root \<Rightarrow> map_option (Pair root) (fs_dangling (rx_fs ctx) root)) of
               Some (root, target) \<Rightarrow> Inr (None, [blocking (DanglingRoot name root target)])
             | None \<Rightarrow>
                 andthen (volume_paths run_path app v binds (rx_config ctx)) (\<lambda>paths.
                   case paths of
                     None \<Rightarrow> Inr (None, [])
                   | Some (source, target) \<Rightarrow>
                       if \<not> fs_exists (rx_fs ctx) source \<and> \<not> mkdir
                       then Inr (None, [issue (SourceMissing name source)])
                       else Inr (link source target))))"

definition load_volume_links ::
    "'s run_ctx \<Rightarrow> app_spec \<Rightarrow> layout_error + (string, volume_link) dict \<times> config_issue list" where
  "load_volume_links ctx spec =
     andthen (lift_store (list_binds (rx_ops ctx) (rx_app ctx))) (\<lambda>binds.
     andthen (traverse (load_volume_link ctx (sp_app spec)
                (path_join (run_root (rx_config ctx)) (sp_app spec)) binds) (sp_volumes spec)) (\<lambda>found.
       Inr (List.map_filter fst found, concat (List.map snd found))))"

section \<open>Routes\<close>

definition proto_name :: "proto \<Rightarrow> string" where
  "proto_name p = (case p of Tcp \<Rightarrow> ''tcp'' | Udp \<Rightarrow> ''udp'')"
definition scheme_name :: "scheme \<Rightarrow> string" where
  "scheme_name s = (case s of Http \<Rightarrow> ''http'' | Https \<Rightarrow> ''https'')"

definition compare_route :: "app_route \<Rightarrow> assigned_route \<Rightarrow> config_issue list" where
  "compare_route spec conf =
     (let mismatch = (\<lambda>field differs. if differs then [healing (RouteMismatch (ar_route_name spec) field)] else [])
      in mismatch ''name'' (ar_route_name spec \<noteq> asg_name conf)
         @ mismatch ''run unit'' (ar_run_unit_name spec \<noteq> asg_run_unit_name conf)
         @ (if needs_allocation spec
            then if asg_host_port conf = - 1 then [healing (PortNotAllocated (ar_route_name spec))] else []
            else mismatch ''host port'' (ar_host_port spec \<noteq> asg_host_port conf))
         @ mismatch ''container port'' (ar_container_port spec \<noteq> asg_container_port conf)
         @ mismatch ''proto'' (proto_name (ar_proto spec) \<noteq> asg_proto conf)
         @ mismatch ''scheme'' (scheme_name (ar_scheme spec) \<noteq> asg_scheme conf))"

definition loaded_routes :: "'s run_ctx \<Rightarrow> string \<Rightarrow> layout_error + (string, assigned_route) dict" where
  "loaded_routes ctx app =
     andthen (lift_store (list_routes (rx_ops ctx) (rx_db ctx) app)) (\<lambda>found.
       traverse (\<lambda>(name, entry). case entry of
           JObj members \<Rightarrow> andthen (route_from_record members) (\<lambda>r. Inr (name, r))
         | _ \<Rightarrow> Inl (BadRouteRecord name)) found)"

definition load_routes ::
    "'s run_ctx \<Rightarrow> app_spec \<Rightarrow> layout_error + (string, assigned_route) dict \<times> config_issue list" where
  "load_routes ctx spec =
     andthen (loaded_routes ctx (sp_app spec)) (\<lambda>found.
       let missing = List.filter (\<lambda>n. n \<notin> set (keys found)) (keys (sp_routes spec));
           extra = List.filter (\<lambda>n. n \<notin> set (keys (sp_routes spec))) (keys found);
           both = List.filter (\<lambda>(n, r). n \<in> set (keys (sp_routes spec))) found
       in Inr (both,
            List.map (\<lambda>n. healing (RouteNotAllocated n)) (sort missing)
            @ List.map (\<lambda>n. healing (RouteNotDeclared n)) (sort extra)
            @ concat (List.map (\<lambda>(n, r). case map_of (sp_routes spec) n of
                 None \<Rightarrow> [] | Some s \<Rightarrow> compare_route s r) both)))"

definition host_mounts :: "fs_view \<Rightarrow> json list" where
  "host_mounts fs =
     (if \<not> fs_exists fs LOCALTIME_PATH then [] else [mount_entry LOCALTIME_PATH LOCALTIME_PATH True])"

definition PUBLIC_ROUTE_SCHEME :: string where "PUBLIC_ROUTE_SCHEME = ''https''"

definition route_url :: "string \<Rightarrow> string \<Rightarrow> string" where
  "route_url subdomain domain = PUBLIC_ROUTE_SCHEME @ ''://'' @ subdomain @ ''.'' @ domain"

definition route_urls :: "(string, assigned_route) dict \<Rightarrow> config \<Rightarrow> (string, string) dict" where
  "route_urls routes cfg =
     List.map (\<lambda>(name, r). (name, route_url (asg_subdomain r) (provider_domain cfg (primary_provider r))))
       (List.filter (\<lambda>(name, r). asg_subdomain r \<noteq> []) routes)"

definition provider_route_urls :: "assigned_route \<Rightarrow> config \<Rightarrow> (string, string) dict" where
  "provider_route_urls r cfg =
     (if asg_subdomain r = [] then []
      else dict_merge []
        (List.map (\<lambda>tag. (tag, route_url (asg_subdomain r) (provider_domain cfg tag))) (asg_providers r)))"

definition resolved_subdomain :: "app_spec \<Rightarrow> 's run_ctx \<Rightarrow> layout_error + string option" where
  "resolved_subdomain spec ctx =
     andthen (lift_store (andthen
       (get_config (rx_ops ctx) (rx_crypto ctx) (rx_app ctx) ''subdomain'') stored_pair)) (\<lambda>value.
       case map_option snd value of
         Some (c # cs) \<Rightarrow> Inr (Some (c # cs))
       | _ \<Rightarrow> andthen (lookup ''subdomain'' (sp_config spec)) (\<lambda>c. Inr (ac_default c)))"

definition app_domain ::
    "(string, assigned_route) dict \<Rightarrow> config \<Rightarrow> string option \<Rightarrow> string option" where
  "app_domain routes cfg subdomain =
     map_option (\<lambda>sub. sub @ ''.'' @ provider_domain cfg
         (case map_of routes PRIMARY_ROUTE_NAME of None \<Rightarrow> [] | Some main \<Rightarrow> primary_provider main))
       subdomain"

definition load_run_data :: "app_spec \<Rightarrow> 's run_ctx \<Rightarrow> layout_error + app_run_data" where
  "load_run_data spec ctx =
     andthen (load_config_values ctx spec) (\<lambda>(values, issues1).
     andthen (load_routes ctx spec) (\<lambda>(routes, issues2).
     andthen (load_volume_links ctx spec) (\<lambda>(links, issues3).
     andthen (resolved_subdomain spec ctx) (\<lambda>subdomain.
     andthen (load_connections ctx spec) (\<lambda>(connections, issues4).
       Inr \<lparr>rd_app = sp_app spec, rd_run_path = app_run_path (rx_config ctx) (sp_app spec),
            rd_app_domain = app_domain routes (rx_config ctx) subdomain,
            rd_volume_links = links, rd_config_values = values, rd_routes = routes,
            rd_route_urls = route_urls routes (rx_config ctx),
            rd_host_mounts = host_mounts (rx_fs ctx),
            rd_issues = issues1 @ issues2 @ issues3 @ issues4,
            rd_connections = connections\<rparr>)))))"

section \<open>The compose file\<close>

definition unit_route_ports :: "app_run_data \<Rightarrow> app_run_unit \<Rightarrow> layout_error + (string \<times> assigned_route) list" where
  "unit_route_ports data u =
     traverse (\<lambda>name. andthen (lookup name (rd_routes data)) (\<lambda>r. Inr (name, r))) (keys (au_routes u))"

definition connection_pairs :: "app_run_data \<Rightarrow> app_run_unit \<Rightarrow> (string \<times> string) list" where
  "connection_pairs data u =
     concat (List.map (\<lambda>name. case map_of (rd_connections data) name of
         None \<Rightarrow> []
       | Some c \<Rightarrow> List.map (\<lambda>(p, v). (CONN_KEY_PREFIX @ name @ ''.'' @ p, v)) (rc_properties c))
       (au_connections u))"

definition env_substitutions ::
    "app_spec \<Rightarrow> app_run_unit \<Rightarrow> app_run_data \<Rightarrow> layout_error + (string, string) dict" where
  "env_substitutions spec u data =
     andthen (unit_route_ports data u) (\<lambda>ports.
       let volumes = join '','' (List.map (\<lambda>(n, b). env_kvpair n (bv_guest_path b)) (au_volumes u));
           cmd = (case au_command u of None \<Rightarrow> [] | Some argv \<Rightarrow> join '' '' argv);
           routes = join '','' (List.map (\<lambda>(n, r). env_kvpair n (str_of_int (asg_container_port r))) ports)
       in Inr (dict_merge []
         (connection_pairs data u
          @ List.map (\<lambda>(n, c). (n, ''${'' @ env_name c @ ''}'')) (sp_config spec)
          @ List.map (\<lambda>(n, url). (ROUTE_KEY_PREFIX @ n, url)) (rd_route_urls data)
          @ [(KLSO_KEY_PREFIX @ ''domain'', case rd_app_domain data of None \<Rightarrow> [] | Some d \<Rightarrow> d),
             (KLSO_KEY_PREFIX @ ''volumes'', volumes),
             (KLSO_KEY_PREFIX @ ''cmd'', cmd),
             (KLSO_KEY_PREFIX @ ''routes'', routes)])))"

definition SECRET_SHOWN :: string where "SECRET_SHOWN = ''<secret>''"

definition shown_value :: "app_run_data \<Rightarrow> string \<times> app_config \<Rightarrow> string \<times> string" where
  "shown_value data nc =
     (case nc of (name, c) \<Rightarrow>
        (name, if ac_secret c then SECRET_SHOWN
               else case map_of (rd_config_values data) name of None \<Rightarrow> [] | Some v \<Rightarrow> env_val v))"

definition substituted_env :: "(string, string) dict \<Rightarrow> app_run_unit \<Rightarrow> (string, string) dict" where
  "substituted_env subs u =
     List.map (\<lambda>(k, v). (k, safe_substitute (map_of subs) v)) (au_environment u)"

definition shown_environment ::
    "app_spec \<Rightarrow> app_run_unit \<Rightarrow> app_run_data \<Rightarrow> layout_error + (string, string) dict" where
  "shown_environment spec u data =
     andthen (env_substitutions spec u data) (\<lambda>subs.
       Inr (substituted_env (dict_merge subs (List.map (shown_value data) (sp_config spec))) u))"

definition HEALTHCHECK_TIMING :: "(string, json) dict" where
  "HEALTHCHECK_TIMING =
     [(''interval'', JStr ''60s''), (''start_period'', JStr ''2m''), (''start_interval'', JStr ''5s'')]"

text \<open>\<open>arg.replace("$", "$$")\<close>.\<close>

definition escape_dollars :: "string \<Rightarrow> string" where
  "escape_dollars s = concat (List.map (\<lambda>c. if c = CHR ''$'' then ''$$'' else [c]) s)"

definition strings :: "(string, string) dict \<Rightarrow> json" where
  "strings d = JObj (List.map (\<lambda>(k, v). (k, JStr v)) d)"

definition unit_mounts :: "app_spec \<Rightarrow> app_run_data \<Rightarrow> string \<Rightarrow> app_run_unit \<Rightarrow> json list" where
  "unit_mounts spec data name u =
     List.map (\<lambda>(n, b). mount_entry (run_rel_path (bv_volume b)) (bv_guest_path b) (bv_readonly b)) (au_volumes u)
     @ (if unit_commands spec name \<noteq> [] then [mount_entry (''./kelso/'' @ name) KELSO_GUEST_DIR True] else [])
     @ List.map_filter (\<lambda>n. map_option (\<lambda>c. mount_entry (rc_host_path c) (rc_guest_path c) False)
         (map_of (rd_connections data) n)) (au_connections u)
     @ rd_host_mounts data"

definition managed_service ::
    "app_spec \<Rightarrow> app_run_data \<Rightarrow> string \<Rightarrow> app_run_unit \<Rightarrow> layout_error + (string, json) dict" where
  "managed_service spec data name u =
     andthen (env_substitutions spec u data) (\<lambda>subs.
     andthen (unit_route_ports data u) (\<lambda>ports.
       let labels = (case rd_app_domain data of
              Some (c # cs) \<Rightarrow> AList.update KELSO_SUBDOMAIN_LABEL (c # cs) (au_labels u)
            | _ \<Rightarrow> au_labels u);
           mounts = unit_mounts spec data name u
       in Inr
         ([(''image'', JStr (au_image u)), (''hostname'', JStr (au_hostname u))]
          @ (case au_healthcheck u of
               None \<Rightarrow> []
             | Some argv \<Rightarrow>
                 [(''healthcheck'',
                   JObj ((''test'', JArr (JStr ''CMD'' # List.map (\<lambda>a. JStr (escape_dollars a)) argv))
                         # HEALTHCHECK_TIMING))])
          @ [(''restart'', JStr (if au_restart u then ''on-failure'' else ''no'')),
             (''logging'', JObj [(''driver'', JStr ''json-file''),
                (''options'', JObj [(''max-size'', JStr ''10m''), (''max-file'', JStr ''3'')])])]
          @ (if mounts \<noteq> [] then [(''volumes'', JArr mounts)] else [])
          @ (case au_command u of
               None \<Rightarrow> []
             | Some argv \<Rightarrow> [(''command'', JArr (List.map (\<lambda>a. JStr (escape_dollars a)) argv))])
          @ (if au_routes u \<noteq> []
             then [(''ports'', JArr (List.map (\<lambda>(n, r).
                     JStr (port_string (asg_host_port r) (asg_container_port r) (asg_proto r))) ports))]
             else [])
          @ (if sp_network_mode spec = HostNetwork then [(''network_mode'', JStr ''host'')] else [])
          @ (if labels \<noteq> [] then [(''labels'', strings labels)] else [])
          @ [(''environment'', strings (substituted_env subs u))])))"

definition service_dict ::
    "app_spec \<Rightarrow> app_run_data \<Rightarrow> string \<times> app_run_unit \<Rightarrow> layout_error + string \<times> json" where
  "service_dict spec data nu =
     (case nu of (name, u) \<Rightarrow>
        andthen (managed_service spec data name u) (\<lambda>s. Inr (name, JObj (dict_merge s (au_compose_extra u)))))"

definition make_compose_dict :: "app_spec \<Rightarrow> app_run_data \<Rightarrow> layout_error + json" where
  "make_compose_dict spec data =
     andthen (traverse (service_dict spec data) (sp_run_units spec)) (\<lambda>services.
       Inr (JObj [(''name'', JStr (project_name (sp_app spec))), (''services'', JObj services)]))"

section \<open>What a layout is made of\<close>

lemma traverse_Inr_mem: "traverse f xs = Inr ys \<Longrightarrow> x \<in> set xs \<Longrightarrow> \<exists>y \<in> set ys. f x = Inr y"
  by (induction xs arbitrary: ys) (auto split: sum.splits)

lemma issue_simps [simp]:
  "\<not> ci_load_blocking (issue p)" "ci_load_blocking (blocking p)" "\<not> ci_load_blocking (healing p)"
  "\<not> ci_self_healing (issue p)" "\<not> ci_self_healing (blocking p)" "ci_self_healing (healing p)"
  by (simp_all add: issue_def blocking_def healing_def)

text \<open>The parts of the data a load works with, and the issues each part raised.\<close>

lemma load_run_data_parts:
  assumes "load_run_data spec ctx = Inr d"
  obtains issues1 issues2 issues3 issues4 subdomain where
    "load_config_values ctx spec = Inr (rd_config_values d, issues1)"
    "load_routes ctx spec = Inr (rd_routes d, issues2)"
    "load_volume_links ctx spec = Inr (rd_volume_links d, issues3)"
    "load_connections ctx spec = Inr (rd_connections d, issues4)"
    "resolved_subdomain spec ctx = Inr subdomain"
    "rd_route_urls d = route_urls (rd_routes d) (rx_config ctx)"
    "rd_issues d = issues1 @ issues2 @ issues3 @ issues4"
  using assms by (auto simp: load_run_data_def andthen_Inr split: prod.splits)

definition connection_of :: "'s run_ctx \<Rightarrow> string \<Rightarrow> connection_entry \<Rightarrow> connection_kind \<Rightarrow> resolved_connection" where
  "connection_of ctx name e k =
     \<lparr>rc_kind = cn_kind e, rc_host_path = ck_host_path k (conn_root (rx_config ctx)),
      rc_guest_path = conn_guest_path name, rc_properties = ck_properties k (conn_guest_path name)\<rparr>"

lemma load_connection_unblocked:
  assumes "load_connection ctx (name, e) = Inr (r, is)" and "\<forall>i \<in> set is. \<not> ci_load_blocking i"
  shows "\<exists>k. map_of CONNECTION_KINDS (cn_kind e) = Some k \<and> r = Some (name, connection_of ctx name e k)"
  using assms by (auto simp: load_connection_def andthen_Inr lookup_Inr connection_of_def Let_def split: if_splits)

lemma load_connections_map:
  assumes "traverse (load_connection ctx) es = Inr found"
    and "\<forall>i \<in> set (concat (List.map snd found)). \<not> ci_load_blocking i" and "map_of es name = Some e"
  shows "\<exists>k. map_of CONNECTION_KINDS (cn_kind e) = Some k \<and>
    map_of (List.map_filter fst found) name = Some (connection_of ctx name e k)"
  using assms
proof (induction es arbitrary: found)
  case (Cons x es)
  obtain n e' where x: "x = (n, e')" by (cases x)
  from Cons.prems(1) obtain r "is" found' where
    f: "load_connection ctx (n, e') = Inr (r, is)" "traverse (load_connection ctx) es = Inr found'"
      "found = (r, is) # found'"
    by (auto simp: x split: sum.splits)
  have "\<forall>i \<in> set is. \<not> ci_load_blocking i" and rest: "\<forall>i \<in> set (concat (List.map snd found')). \<not> ci_load_blocking i"
    using Cons.prems(2) by (auto simp: f(3))
  with load_connection_unblocked [OF f(1)] obtain k where
    k: "map_of CONNECTION_KINDS (cn_kind e') = Some k" "r = Some (n, connection_of ctx n e' k)" by blast
  show ?case
  proof (cases "n = name")
    case True
    with Cons.prems(3) k f(3) show ?thesis by (auto simp: x map_filter_simps)
  next
    case False
    with Cons.prems(3) have "map_of es name = Some e" by (simp add: x)
    from Cons.IH [OF f(2) rest this] k(2) False show ?thesis by (simp add: f(3) map_filter_simps)
  qed
qed simp

lemma kind_property_names:
  "map_of CONNECTION_KINDS kind = Some k \<Longrightarrow> keys (ck_properties k mounted) = ck_property_names k"
  by (auto simp: CONNECTION_KINDS_def split: if_splits)

section \<open>What an app starts with\<close>

lemma load_config_value_ready:
  assumes "load_config_value ctx (name, c) = Inr ((n, v), is)" and "\<forall>i \<in> set is. ci_self_healing i"
  shows "n = name \<and> cv_config v = c \<and> cv_value v \<noteq> None"
proof -
  have d: "has_default c \<Longrightarrow> ac_default c \<noteq> None" by (simp add: has_default_def)
  have "config_value_of name c stored = (v', is) \<Longrightarrow> cv_config v' = c \<and> cv_value v' \<noteq> None" for v' stored
    using d assms(2) by (auto simp: config_value_of_def split: option.splits if_splits)
  moreover obtain stored where "n = name" "config_value_of name c stored = (v, is)"
    using assms(1) by (auto simp: load_config_value_def andthen_Inr case_prod_beta)
  ultimately show ?thesis by blast
qed

lemma load_config_values_ready:
  assumes "load_config_values ctx spec = Inr (values, raised)" and "\<forall>i \<in> set raised. ci_self_healing i"
    and "(name, c) \<in> set (sp_config spec)"
  shows "\<exists>v. (name, v) \<in> set values \<and> cv_config v = c \<and> cv_value v \<noteq> None"
proof -
  from assms(1) obtain found where found: "traverse (load_config_value ctx) (sp_config spec) = Inr found"
      "values = List.map fst found" "raised = concat (List.map snd found)"
    by (auto simp: load_config_values_def andthen_Inr lift_store_def split: sum.splits)
  from traverse_Inr_mem [OF found(1) assms(3)] obtain n v "is" where
    y: "((n, v), is) \<in> set found" "load_config_value ctx (name, c) = Inr ((n, v), is)" by (metis prod.collapse)
  have "\<forall>i \<in> set is. ci_self_healing i" using assms(2) y(1) by (force simp: found(3))
  from load_config_value_ready [OF y(2) this] y(1) show ?thesis by (force simp: found(2))
qed

text \<open>A link is ready when its host volume, if it has one, is bound, known, there and not less writable.\<close>

definition link_ready :: "'s run_ctx \<Rightarrow> (string, string) dict \<Rightarrow> string \<Rightarrow> app_volume \<Rightarrow> volume_link \<Rightarrow> bool" where
  "link_ready ctx binds name v l \<longleftrightarrow>
     (av_kind v = HostKind \<longrightarrow>
       (case map_of binds name of None \<Rightarrow> False | Some tag \<Rightarrow>
         (case map_of (cfg_host_volumes (rx_config ctx)) tag of None \<Rightarrow> False | Some hv \<Rightarrow>
            vl_source l = hv_path hv \<and> (hv_readonly hv \<longrightarrow> av_readonly v) \<and>
            fs_exists (rx_fs ctx) (hv_path hv) \<and>
            (hv_require_mount hv \<longrightarrow> fs_is_mount (rx_fs ctx) (hv_path hv)))))"

lemma volume_paths_Some:
  "av_kind v \<noteq> HostKind \<Longrightarrow> volume_paths run_path app v binds cfg = Inr p \<Longrightarrow> p \<noteq> None"
  by (auto simp: volume_paths_def andthen_Inr Let_def split: volume_kind.splits)

lemma load_volume_link_linked:
  assumes "load_volume_link ctx app run_path binds (name, v) = Inr (r, is)"
    and "\<forall>i \<in> set is. ci_self_healing i"
  shows "\<exists>l. r = Some (name, l) \<and> link_ready ctx binds name v l"
proof (cases "av_kind v = HostKind")
  case True
  then show ?thesis using assms
    by (auto simp: load_volume_link_def host_volume_link_def link_ready_def Let_def
        split: sum.splits option.splits if_splits)
next
  case False
  then show ?thesis using assms volume_paths_Some [OF False, of run_path app binds "rx_config ctx"]
    by (auto simp: load_volume_link_def link_ready_def Let_def andthen_Inr split: sum.splits option.splits if_splits)
qed

lemma load_volume_links_ready:
  assumes "load_volume_links ctx spec = Inr (links, raised)" and "\<forall>i \<in> set raised. ci_self_healing i"
    and "list_binds (rx_ops ctx) (rx_app ctx) = Inr binds" and "(name, v) \<in> set (sp_volumes spec)"
  shows "\<exists>l. (name, l) \<in> set links \<and> link_ready ctx binds name v l"
proof -
  let ?run = "path_join (run_root (rx_config ctx)) (sp_app spec)"
  from assms(1,3) obtain found where found:
      "traverse (load_volume_link ctx (sp_app spec) ?run binds) (sp_volumes spec) = Inr found"
      "links = List.map_filter fst found" "raised = concat (List.map snd found)"
    by (auto simp: load_volume_links_def andthen_Inr lift_store_def)
  from traverse_Inr_mem [OF found(1) assms(4)] obtain r "is" where
    y: "(r, is) \<in> set found" "load_volume_link ctx (sp_app spec) ?run binds (name, v) = Inr (r, is)"
    by (metis prod.collapse)
  have "\<forall>i \<in> set is. ci_self_healing i" using assms(2) y(1) by (force simp: found(3))
  from load_volume_link_linked [OF y(2) this] obtain l where "r = Some (name, l)" "link_ready ctx binds name v l"
    by blast
  with y(1) show ?thesis by (force simp: found(2) in_map_filter)
qed

lemma load_connections_ready:
  assumes "load_connections ctx spec = Inr (conns, raised)" and "\<forall>i \<in> set raised. ci_self_healing i"
    and "map_of (m_connections (sp_manifest spec)) name = Some e"
  shows "\<exists>k. map_of CONNECTION_KINDS (cn_kind e) = Some k \<and> map_of conns name = Some (connection_of ctx name e k)"
proof -
  from assms(1) obtain found where
    found: "traverse (load_connection ctx) (m_connections (sp_manifest spec)) = Inr found"
      "conns = List.map_filter fst found" "raised = concat (List.map snd found)"
    by (auto simp: load_connections_def andthen_Inr)
  have only: "load_connection ctx x = Inr (r, is) \<Longrightarrow> i \<in> set is \<Longrightarrow> \<not> ci_self_healing i" for x r "is" i
    by (auto simp: load_connection_def andthen_Inr Let_def split: prod.splits if_splits)
  have "\<not> ci_self_healing i" if "i \<in> set raised" for i
  proof -
    from that obtain r "is" where y: "(r, is) \<in> set found" "i \<in> set is" by (auto simp: found(3))
    from traverse_Inr_set [OF found(1) y(1)] only y(2) show ?thesis by blast
  qed
  with assms(2) have "raised = []" by (cases raised) auto
  with load_connections_map [OF found(1) _ assms(3)] show ?thesis by (simp add: found(2,3))
qed

lemma compare_route_Nil:
  assumes "compare_route s r = []"
  shows "asg_name r = ar_route_name s \<and> asg_run_unit_name r = ar_run_unit_name s \<and>
    asg_container_port r = ar_container_port s \<and> asg_proto r = proto_name (ar_proto s) \<and>
    asg_scheme r = scheme_name (ar_scheme s) \<and> asg_host_port r \<noteq> - 1 \<and>
    (\<not> needs_allocation s \<longrightarrow> asg_host_port r = ar_host_port s)"
  using assms by (auto simp: compare_route_def needs_allocation_def Let_def split: if_splits)

lemma load_routes_exact:
  assumes "load_routes ctx spec = Inr (routes, [])"
  shows "set (keys routes) = set (keys (sp_routes spec))"
    and "(n, r) \<in> set routes \<Longrightarrow> \<exists>s. map_of (sp_routes spec) n = Some s \<and> compare_route s r = []"
proof -
  obtain found where
    missing: "List.filter (\<lambda>n. n \<notin> set (keys found)) (keys (sp_routes spec)) = []" and
    extra: "List.filter (\<lambda>n. n \<notin> set (keys (sp_routes spec))) (keys found) = []" and
    both: "routes = List.filter (\<lambda>(n, r). n \<in> set (keys (sp_routes spec))) found" and
    same: "concat (List.map (\<lambda>(n, r). case map_of (sp_routes spec) n of
                 None \<Rightarrow> [] | Some s \<Rightarrow> compare_route s r) routes) = []"
    using assms by (auto simp: load_routes_def andthen_Inr Let_def)
  from extra have "\<forall>(n, r) \<in> set found. n \<in> set (keys (sp_routes spec))"
    unfolding filter_empty_conv by force
  then have "routes = found" unfolding both by (intro filter_True) auto
  with missing extra show keys: "set (keys routes) = set (keys (sp_routes spec))"
    by (auto simp: filter_empty_conv)
  show "\<exists>s. map_of (sp_routes spec) n = Some s \<and> compare_route s r = []" if m: "(n, r) \<in> set routes"
  proof -
    from m keys have "n \<in> set (keys (sp_routes spec))" by force
    then obtain s where s: "map_of (sp_routes spec) n = Some s"
      by (metis map_of_eq_None_iff not_None_eq set_map)
    with concat_map_NilD [OF same m] show ?thesis by simp
  qed
qed

section \<open>A machine to run the demonstration app on\<close>

text \<open>A store that is a dict in memory: what the laws of \<^verbatim>\<open>ConfigStore\<close> say, with nothing behind it.\<close>

definition memory_store :: "(string, json) dict store_ops" where
  "memory_store =
     \<lparr>st_write = (\<lambda>s k v. Inr (AList.update k v s)),
      st_read = (\<lambda>s k. Inr (case map_of s k of None \<Rightarrow> JNull | Some v \<Rightarrow> v)),
      st_scan = (\<lambda>s pre suf. Inr (List.map (\<lambda>(k, v). (remove_prefix k pre, v))
         (List.filter (\<lambda>(k, v). starts_with k pre \<and> ends_with k suf) s))),
      st_clear = (\<lambda>s pre. Inr (List.filter (\<lambda>(k, v). \<not> starts_with k pre) s)),
      st_delete = (\<lambda>s k. Inr (AList.delete k s))\<rparr>"

definition demo_spec :: app_spec where
  "demo_spec = (case build_spec (demo_manifest ''/var/db'') ''org.demo'' of Inr s \<Rightarrow> s)"

definition demo_route :: assigned_route where
  "demo_route = \<lparr>asg_name = ''web'', asg_subdomain = ''web-demo'', asg_run_unit_name = ''main'',
     asg_host_port = 8080, asg_container_port = 80, asg_proto = ''tcp'', asg_scheme = ''http'',
     asg_providers = []\<rparr>"

definition demo_machine :: config where
  "demo_machine = \<lparr>cfg_config_path = ''/k/conf/config.toml'', cfg_kelso_root = ''/k'', cfg_repos_root = ''/k/repos'',
     cfg_repos = [], cfg_master_key = [], cfg_port_base = 9000, cfg_kelso_address = [],
     cfg_default_route_provider = ''none'', cfg_route_providers = [], cfg_host_volumes = [],
     cfg_backup = \<lparr>be_schedule = None, be_require_mount = False, be_keep = default_keep\<rparr>\<rparr>"

definition demo_ctx :: "(string, json) dict run_ctx" where
  "demo_ctx = \<lparr>rx_config = demo_machine, rx_ops = memory_store, rx_crypto = noop_engine,
     rx_app = [],
     rx_db = [(''routes/org.demo/web'', JObj (route_record demo_route))],
     rx_fs = \<lparr>fs_exists = (\<lambda>p. True), fs_is_mount = (\<lambda>p. True), fs_dangling = (\<lambda>p. None)\<rparr>\<rparr>"

lemma load_config_values_defaults:
  assumes "\<And>n c. (n, c) \<in> set (sp_config spec) \<Longrightarrow>
    get_config (rx_ops ctx) (rx_crypto ctx) (rx_app ctx) n = Inr None \<and> has_default c"
  shows "load_config_values ctx spec =
    Inr (List.map (\<lambda>(n, c). (n, \<lparr>cv_config = c, cv_value = ac_default c\<rparr>)) (sp_config spec), [])"
proof -
  have "traverse (load_config_value ctx) (sp_config spec) =
      Inr (List.map (\<lambda>(n, c). ((n, \<lparr>cv_config = c, cv_value = ac_default c\<rparr>), [])) (sp_config spec))"
    by (rule traverse_total)
      (use assms in \<open>auto simp: load_config_value_def stored_pair_def config_value_of_def\<close>)
  then show ?thesis
    by (auto simp: load_config_values_def lift_store_def case_prod_beta comp_def)
qed

lemma demo_spec_build: "build_spec (demo_manifest ''/var/db'') ''org.demo'' = Inr demo_spec"
  using build_spec_ok [OF demo_manifest_accepted] by (auto simp: demo_spec_def)

lemma build_spec_parts:
  assumes "build_spec m app = Inr s"
  shows "sp_app s = app" "sp_manifest s = m" "sp_config s = build_config m app" "sp_volumes s = build_volumes m"
    "traverse (resolve_run_unit m app (build_volumes m)) (m_run m) = Inr (sp_run_units s)"
    "sp_routes s = dict_merge [] (concat (List.map (\<lambda>(n, u). au_routes u) (sp_run_units s)))"
  using assms by (auto simp: build_spec_def andthen_Inr resolve_run_units_def)

lemmas demo_spec_parts = build_spec_parts [OF demo_spec_build]

lemma demo_spec_routes:
  "sp_routes demo_spec = [(''web'', \<lparr>ar_route_name = ''web'', ar_run_unit_name = ''main'', ar_host_port = 8080,
     ar_container_port = 80, ar_proto = Tcp, ar_private = False, ar_scheme = Http, ar_desc = []\<rparr>)]"
proof -
  have "traverse (resolve_run_unit (demo_manifest ''/var/db'') ''org.demo'' (build_volumes (demo_manifest ''/var/db'')))
      (m_run (demo_manifest ''/var/db'')) = Inr us \<Longrightarrow> List.map (\<lambda>(n, u). au_routes u) us =
    [[(''web'', \<lparr>ar_route_name = ''web'', ar_run_unit_name = ''main'', ar_host_port = 8080,
     ar_container_port = 80, ar_proto = Tcp, ar_private = False, ar_scheme = Http, ar_desc = []\<rparr>)]]" for us
    by (auto simp: demo_manifest_def resolve_run_unit_def andthen_Inr unit_route_def parse_port_def
      port_number_def partition_on_def str_isdigit_def nat_of_str_def digit_val_def char_class_defs
      split: sum.splits)
  from this [OF demo_spec_parts(5)] show ?thesis by (simp add: demo_spec_parts(6) dict_merge_def)
qed

lemma demo_config_values: "\<exists>vs. load_config_values demo_ctx demo_spec = Inr (vs, [])"
proof -
  have "has_default c" if "(n, c) \<in> set (sp_config demo_spec)" for n c
    using that
    by (auto simp: demo_spec_parts build_config_def demo_manifest_def declared_config_def dict_merge_def
        APP_OPTIONS_def set_default_def has_default_def)
  moreover have "get_config (rx_ops demo_ctx) (rx_crypto demo_ctx) (rx_app demo_ctx) n = Inr None" for n
    by (simp add: get_config_def demo_ctx_def memory_store_def)
  ultimately show ?thesis using load_config_values_defaults by blast
qed

lemma demo_load_routes: "load_routes demo_ctx demo_spec = Inr ([(''web'', demo_route)], [])"
  by (simp add: load_routes_def loaded_routes_def list_routes_def demo_ctx_def memory_store_def
      demo_spec_parts(1) demo_spec_routes routes_prefix_def starts_with_def remove_prefix_def lift_store_def
      route_from_record_def route_record_def legacy_providers_def demo_route_def str_field_def int_field_def
      ROUTE_FIELDS_def compare_route_def needs_allocation_def proto_name_def scheme_name_def)

lemma demo_run_data:
  "\<exists>d. load_run_data demo_spec demo_ctx = Inr d \<and> rd_issues d = [] \<and> rd_routes d = [(''web'', demo_route)]"
proof -
  obtain vs where v: "load_config_values demo_ctx demo_spec = Inr (vs, [])" using demo_config_values by blast
  have l: "\<exists>ls. load_volume_links demo_ctx demo_spec = Inr (ls, [])"
    by (simp add: load_volume_links_def load_volume_link_def demo_spec_parts(1,4) build_volumes_def
        demo_manifest_def demo_ctx_def demo_machine_def memory_store_def list_binds_def lift_store_def
        map_filter_simps volume_paths_def lookup_def volume_roots_def VOLUME_KINDS_def makes_dir_def Let_def)
  have c: "load_connections demo_ctx demo_spec = Inr ([], [])"
    by (simp add: load_connections_def demo_spec_parts(2) demo_manifest_def map_filter_simps)
  have s: "\<exists>x. resolved_subdomain demo_spec demo_ctx = Inr x"
    by (simp add: resolved_subdomain_def get_config_def demo_ctx_def memory_store_def stored_pair_def
        lift_store_def lookup_def demo_spec_parts(3) build_config_def demo_manifest_def declared_config_def
        dict_merge_def APP_OPTIONS_def set_default_def)
  from v l c s demo_load_routes show ?thesis by (auto simp: load_run_data_def)
qed

section \<open>Substitutions\<close>

lemma image_keys_dict_merge [simp]: "fst ` set (dict_merge a b) = fst ` set a \<union> fst ` set b"
  using dict_merge_keys [of a b] by simp

lemma env_substitutions_keys:
  assumes "env_substitutions spec r d = Inr subs"
  shows "set (keys subs) = set (keys (connection_pairs d r)) \<union> set (keys (sp_config spec))
    \<union> (\<lambda>n. ROUTE_KEY_PREFIX @ n) ` set (keys (rd_route_urls d))
    \<union> (\<lambda>k. KLSO_KEY_PREFIX @ k) ` set KLSO_KEYS"
proof -
  from assms obtain volumes cmd routes where
    "subs = dict_merge [] (connection_pairs d r
          @ List.map (\<lambda>(n, c). (n, ''${'' @ env_name c @ ''}'')) (sp_config spec)
          @ List.map (\<lambda>(n, url). (ROUTE_KEY_PREFIX @ n, url)) (rd_route_urls d)
          @ [(KLSO_KEY_PREFIX @ ''domain'', case rd_app_domain d of None \<Rightarrow> [] | Some d \<Rightarrow> d),
             (KLSO_KEY_PREFIX @ ''volumes'', volumes),
             (KLSO_KEY_PREFIX @ ''cmd'', cmd),
             (KLSO_KEY_PREFIX @ ''routes'', routes)])"
    by (auto simp: env_substitutions_def andthen_Inr Let_def)
  then show ?thesis
    by (simp add: KLSO_KEYS_def image_Un image_image case_prod_beta Un_assoc)
qed

lemma build_config_keys:
  "set (keys (build_config m app)) = set (keys (m_config m)) \<union> set (keys (m_adv_config m)) \<union> set (keys APP_OPTIONS)"
proof -
  have one: "fst ` set (set_default k v d) = insert k (fst ` set d)" for k d and v :: app_config
    by (auto simp: set_default_def)
  have sd: "fst ` set (foldl (\<lambda>d (name, opt). set_default name (f name opt) d) d0 opts) =
      fst ` set d0 \<union> fst ` set opts" for f :: "string \<Rightarrow> app_option \<Rightarrow> app_config" and d0 opts
    by (induction opts arbitrary: d0) (simp_all add: case_prod_beta one)
  have dk: "fst ` set (declared_config sec es) = fst ` set es" for sec es
    by (simp add: declared_config_def image_image case_prod_beta)
  show ?thesis by (simp add: build_config_def sd dk image_Un)
qed

lemma built_routes:
  assumes "parse_manifest app m = Inr m'" and "build_spec m app = Inr spec"
    and "(unit, u) \<in> set (m_run m)" and "n \<in> set (keys (re_routes u))"
  shows "n \<in> set (keys (sp_routes spec))"
proof -
  have m: "section_problems m = []" "validate_run_volumes m = []"
    using assms(1) validate_manifest_parts(4) by (auto simp: parse_manifest_Inr)
  obtain r where r: "resolve_run_unit m app (build_volumes m) (unit, u) = Inr (unit, r)"
      "keys (au_routes r) = keys (re_routes u)"
    using resolve_run_unit_ok [OF m(2,1) assms(3)] by blast
  with traverse_Inr_mem [OF build_spec_parts(5) [OF assms(2)] assms(3)]
  have "(unit, r) \<in> set (sp_run_units spec)" by auto
  moreover have "n \<in> fst ` set (au_routes r)" using r(2) assms(4) by (metis set_map)
  ultimately have "n \<in> fst ` set (concat (List.map (\<lambda>(n, u). au_routes u) (sp_run_units spec)))"
    by (auto intro!: bexI [of _ "(unit, r)"])
  then show ?thesis by (simp add: build_spec_parts(6) [OF assms(2)] del: set_concat)
qed

lemma known_keysE:
  assumes "ref \<in> set (known_keys m)"
  obtains (config) "ref \<in> set (keys (m_config m)) \<union> set (keys (m_adv_config m)) \<union> set (keys APP_OPTIONS)"
    | (route) unit' u' n where "(unit', u') \<in> set (m_run m)" "n \<in> set (keys (re_routes u'))" "ref = ROUTE_KEY_PREFIX @ n"
    | (klso) k where "k \<in> set KLSO_KEYS" "ref = KLSO_KEY_PREFIX @ k"
proof -
  from assms consider "ref \<in> set (keys (m_config m)) \<union> set (keys (m_adv_config m)) \<union> set (keys APP_OPTIONS)"
    | "ref \<in> set (concat (List.map (\<lambda>(n, u). List.map (\<lambda>r. ROUTE_KEY_PREFIX @ r) (keys (re_routes u))) (m_run m)))"
    | "ref \<in> (\<lambda>k. KLSO_KEY_PREFIX @ k) ` set KLSO_KEYS"
    unfolding known_keys_def set_append set_map by blast
  then show ?thesis
  proof cases
    case 2
    then obtain x where "x \<in> set (m_run m)" "ref \<in> (\<lambda>r. ROUTE_KEY_PREFIX @ r) ` set (keys (re_routes (snd x)))"
      by (auto simp: case_prod_beta)
    then show ?thesis using route [of "fst x" "snd x"] by auto
  qed (use config klso in blast)+
qed

lemma attached_keysE:
  assumes "ref \<in> set (attached_keys m u)"
  obtains (known) "ref \<in> set (known_keys m)"
    | (conn) n c k p where "n \<in> set (re_connections u)" "map_of (m_connections m) n = Some c"
        "map_of CONNECTION_KINDS (cn_kind c) = Some k" "p \<in> set (ck_property_names k)"
        "ref = CONN_KEY_PREFIX @ n @ ''.'' @ p"
proof -
  let ?props = "\<lambda>name. case map_of (m_connections m) name of
           None \<Rightarrow> []
         | Some c \<Rightarrow>
             (case map_of CONNECTION_KINDS (cn_kind c) of
                None \<Rightarrow> []
              | Some k \<Rightarrow> List.map (\<lambda>p. CONN_KEY_PREFIX @ name @ ''.'' @ p) (ck_property_names k))"
  from assms consider "ref \<in> set (known_keys m)" | n where "n \<in> set (re_connections u)" "ref \<in> set (?props n)"
    unfolding attached_keys_def set_append set_concat set_map by blast
  then show ?thesis
  proof cases
    case 2
    then show ?thesis using conn [OF 2(1)] by (force split: option.splits)
  qed (use known in blast)
qed

lemma connection_pair_key:
  assumes "map_of (rd_connections d) n = Some c" and "n \<in> set (au_connections r)"
    and "p \<in> set (keys (rc_properties c))"
  shows "CONN_KEY_PREFIX @ n @ ''.'' @ p \<in> set (keys (connection_pairs d r))"
proof -
  from assms(3) obtain v where "(p, v) \<in> set (rc_properties c)" by auto
  with assms(1,2) have "(CONN_KEY_PREFIX @ n @ ''.'' @ p, v) \<in> set (connection_pairs d r)"
    by (force simp: connection_pairs_def)
  then show ?thesis by force
qed

lemma attached_key_substituted:
  assumes m: "parse_manifest app m = Inr m'" and spec: "build_spec m app = Inr spec"
    and u: "(unit, u) \<in> set (m_run m)" "resolve_run_unit m app (build_volumes m) (unit, u) = Inr (unit, r)"
    and d: "load_run_data spec ctx = Inr d" "start_blockers d = []"
    and urls: "set (keys (sp_routes spec)) \<subseteq> set (keys (rd_route_urls d))"
    and subs: "env_substitutions spec r d = Inr subs" and ref: "ref \<in> set (attached_keys m u)"
  shows "ref \<in> set (keys subs)"
proof -
  note ks = env_substitutions_keys [OF subs] build_spec_parts [OF spec] build_config_keys
  obtain issues where conns: "load_connections ctx spec = Inr (rd_connections d, issues)"
      "\<forall>i \<in> set issues. ci_self_healing i"
    using load_run_data_parts [OF d(1)] d(2)
    by (metis (no_types, lifting) filter_none_iff start_blockers_def UnCI set_append)
  have au: "au_connections r = re_connections u"
    using u(2) by (auto simp: resolve_run_unit_def andthen_Inr)
  from ref show ?thesis
  proof (cases rule: attached_keysE)
    case known
    then show ?thesis
    proof (cases rule: known_keysE)
      case config
      then show ?thesis unfolding ks(1) ks(4) build_config_keys by blast
    next
      case route
      with built_routes [OF m spec route(1,2)] urls show ?thesis unfolding ks(1) by blast
    next
      case klso
      then show ?thesis unfolding ks(1) by blast
    qed
  next
    case (conn n c k p)
    have "map_of (rd_connections d) n = Some (connection_of ctx n c k)"
      using load_connections_ready [OF conns, of n c] conn(2,3) by (simp add: ks(3))
    from connection_pair_key [OF this, of r p] conn(1,4) kind_property_names [OF conn(3)]
    have "ref \<in> set (keys (connection_pairs d r))" by (simp add: au conn(5) connection_of_def del: set_map)
    then show ?thesis unfolding ks(1) by blast
  qed
qed

section \<open>Properties\<close>

text \<open>C8: when nothing but what a load repairs itself stands in the way of a start, the layout is
  complete: every config entry has a value, every volume a link (a host volume's is bound, known,
  there, mounted if it must be, and not readonly under a writable volume), every connection its
  socket. When no issue is open at all, the routes are exactly the declared ones, each as declared
  and with a host port.\<close>

theorem startable_layout_is_complete:
  assumes "load_run_data spec ctx = Inr d" and "start_blockers d = []"
    and "list_binds (rx_ops ctx) (rx_app ctx) = Inr binds"
  shows "(\<forall>name c. (name, c) \<in> set (sp_config spec) \<longrightarrow>
      (\<exists>v. (name, v) \<in> set (rd_config_values d) \<and> cv_config v = c \<and> cv_value v \<noteq> None)) \<and>
    (\<forall>name v. (name, v) \<in> set (sp_volumes spec) \<longrightarrow>
      (\<exists>l. (name, l) \<in> set (rd_volume_links d) \<and> link_ready ctx binds name v l)) \<and>
    (\<forall>name e. map_of (m_connections (sp_manifest spec)) name = Some e \<longrightarrow>
      (\<exists>k. map_of (rd_connections d) name = Some (connection_of ctx name e k))) \<and>
    (rd_issues d = [] \<longrightarrow> set (keys (rd_routes d)) = set (keys (sp_routes spec)) \<and>
      (\<forall>name r. (name, r) \<in> set (rd_routes d) \<longrightarrow>
        (\<exists>s. map_of (sp_routes spec) name = Some s \<and> compare_route s r = [] \<and> asg_host_port r \<noteq> - 1)))"
proof -
  obtain issues1 issues2 issues3 issues4 sub where
    vals: "load_config_values ctx spec = Inr (rd_config_values d, issues1)" and
    routes: "load_routes ctx spec = Inr (rd_routes d, issues2)" and
    links: "load_volume_links ctx spec = Inr (rd_volume_links d, issues3)" and
    conns: "load_connections ctx spec = Inr (rd_connections d, issues4)" and
    all: "rd_issues d = issues1 @ issues2 @ issues3 @ issues4"
    by (rule load_run_data_parts [OF assms(1)])
  have heal: "\<forall>i \<in> set issues1. ci_self_healing i" "\<forall>i \<in> set issues3. ci_self_healing i"
      "\<forall>i \<in> set issues4. ci_self_healing i"
    using assms(2) by (auto simp: start_blockers_def filter_none_iff all)
  have "set (keys (rd_routes d)) = set (keys (sp_routes spec)) \<and>
      (\<forall>name r. (name, r) \<in> set (rd_routes d) \<longrightarrow>
        (\<exists>s. map_of (sp_routes spec) name = Some s \<and> compare_route s r = [] \<and> asg_host_port r \<noteq> - 1))"
    if "rd_issues d = []"
  proof -
    from that all routes have "load_routes ctx spec = Inr (rd_routes d, [])" by simp
    from load_routes_exact [OF this] show ?thesis by (blast dest: compare_route_Nil)
  qed
  moreover have "\<exists>v. (name, v) \<in> set (rd_config_values d) \<and> cv_config v = c \<and> cv_value v \<noteq> None"
    if "(name, c) \<in> set (sp_config spec)" for name c
    by (rule load_config_values_ready [OF vals heal(1) that])
  moreover have "\<exists>l. (name, l) \<in> set (rd_volume_links d) \<and> link_ready ctx binds name v l"
    if "(name, v) \<in> set (sp_volumes spec)" for name v
    by (rule load_volume_links_ready [OF links heal(2) assms(3) that])
  moreover have "\<exists>k. map_of (rd_connections d) name = Some (connection_of ctx name e k)"
    if "map_of (m_connections (sp_manifest spec)) name = Some e" for name e
    using load_connections_ready [OF conns heal(3) that] by blast
  ultimately show ?thesis by (intro conjI allI impI) simp_all
qed

theorem startable_layout_is_complete_witness:
  "\<exists>d. load_run_data demo_spec demo_ctx = Inr d \<and>
    set (keys (rd_routes d)) = set (keys (sp_routes demo_spec)) \<and> (\<exists>l. (''db'', l) \<in> set (rd_volume_links d))"
proof -
  obtain d where d: "load_run_data demo_spec demo_ctx = Inr d" "rd_issues d = []" using demo_run_data by blast
  then have s: "start_blockers d = []" by (simp add: start_blockers_def)
  have b: "list_binds (rx_ops demo_ctx) (rx_app demo_ctx) = Inr []"
    by (simp add: list_binds_def demo_ctx_def memory_store_def map_filter_simps)
  have "\<exists>v. (''db'', v) \<in> set (sp_volumes demo_spec)"
    by (simp add: demo_spec_parts(4) build_volumes_def demo_manifest_def)
  with startable_layout_is_complete [OF d(1) s b] d show ?thesis by blast
qed

text \<open>In the compose file of an accepted app that can start, and whose declared routes all have a
  domain, no dotted placeholder of a unit's environment is left as it was written: each is one of
  the keys substituted for that unit.\<close>

lemma dotted_placeholders_substituted:
  assumes "parse_manifest app m = Inr m'" and "build_spec m app = Inr spec"
    and "(unit, u) \<in> set (m_run m)" and "resolve_run_unit m app (build_volumes m) (unit, u) = Inr (unit, r)"
    and "load_run_data spec ctx = Inr d" and "start_blockers d = []"
    and "set (keys (sp_routes spec)) \<subseteq> set (keys (rd_route_urls d))"
    and "env_substitutions spec r d = Inr subs"
    and "(var, v) \<in> set (re_env u)" and "ref \<in> set (identifiers v)" and "CHR ''.'' \<in> set ref"
  shows "map_of subs ref \<noteq> None"
proof -
  from assms(1) have "validate_manifest app m = []" by (simp add: parse_manifest_Inr)
  from env_ref_known [OF validate_manifest_parts(6) [OF this] assms(3,9-11)]
  have "ref \<in> set (attached_keys m u)" .
  from attached_key_substituted [OF assms(1-8) this] show ?thesis by (simp add: map_of_eq_None_iff)
qed

lemma dotted_placeholders_substituted_witness:
  "\<exists>u r d subs. resolve_run_unit (demo_manifest ''/var/db'') ''org.demo'' (build_volumes (demo_manifest ''/var/db''))
      (''main'', u) = Inr (''main'', r) \<and> env_substitutions demo_spec r d = Inr subs \<and> map_of subs ''routes.web'' \<noteq> None"
proof -
  obtain d where d: "load_run_data demo_spec demo_ctx = Inr d" "rd_issues d = []" "rd_routes d = [(''web'', demo_route)]"
    using demo_run_data by blast
  then have s: "start_blockers d = []" by (simp add: start_blockers_def)
  obtain u where u: "(''main'', u) \<in> set (m_run (demo_manifest ''/var/db''))"
      "(''URL'', ''at ${routes.web}'') \<in> set (re_env u)"
    using demo_manifest_unit by blast
  have m: "section_problems (demo_manifest ''/var/db'') = []" "validate_run_volumes (demo_manifest ''/var/db'') = []"
    using demo_manifest_accepted validate_manifest_parts(4) by (auto simp: parse_manifest_Inr)
  obtain r where r: "resolve_run_unit (demo_manifest ''/var/db'') ''org.demo'' (build_volumes (demo_manifest ''/var/db''))
      (''main'', u) = Inr (''main'', r)" "keys (au_routes r) = keys (re_routes u)"
    using resolve_run_unit_ok [OF m(2,1) u(1)] by blast
  have "keys (re_routes u) = [''web'']" using u(1) by (auto simp: demo_manifest_def)
  then obtain subs where subs: "env_substitutions demo_spec r d = Inr subs"
    by (auto simp: env_substitutions_def unit_route_ports_def r(2) d(3) lookup_def)
  have urls: "set (keys (sp_routes demo_spec)) \<subseteq> set (keys (rd_route_urls d))"
    by (rule load_run_data_parts [OF d(1)]) (simp add: demo_spec_routes d(3) route_urls_def demo_route_def)
  have ref: "''routes.web'' \<in> set (identifiers ''at ${routes.web}'')" "CHR ''.'' \<in> set ''routes.web''"
    by (simp_all add: identifiers_def next_token_def match_identifier_def id_start_def id_char_def
        char_class_defs map_filter_simps numeral_2_eq_2)
  from dotted_placeholders_substituted
    [OF demo_manifest_accepted demo_spec_build u(1) r(1) d(1) s urls subs u(2) ref] r(1) subs
  show ?thesis by blast
qed

text \<open>What a load records for a route reads back as the route, and a record written before routes
  could have several providers, with its one tag under \<^verbatim>\<open>provider\<close>, reads as a route published
  there, or nowhere for the tag \<^verbatim>\<open>none\<close>.\<close>

lemma route_record_roundtrip:
  "route_from_record (route_record r) = Inr r \<and>
   route_from_record (AList.delete ''providers'' (route_record r) @ [(''provider'', JStr tag)]) =
     Inr (r\<lparr>asg_providers := (if tag = NONE_ROUTE_PROVIDER_TAG then [] else [tag])\<rparr>)"
proof -
  have "those (List.map str_of_json (List.map JStr xs)) = Some xs" for xs
    by (induction xs) simp_all
  then show ?thesis
    by (simp add: route_from_record_def route_record_def legacy_providers_def str_field_def int_field_def
        ROUTE_FIELDS_def set_default_def NONE_ROUTE_PROVIDER_TAG_def)
qed


definition demo_entry_config :: "string \<Rightarrow> bool \<Rightarrow> app_config" where
  "demo_entry_config name secret =
     \<lparr>ac_name = name, ac_secret = secret, ac_default = None, ac_desc = [], ac_section = ConfigSection\<rparr>"


text \<open>Two apps can have one compose project: the name keeps letters, digits, \<^verbatim>\<open>_\<close> and \<^verbatim>\<open>-\<close> and writes
  everything else as \<^verbatim>\<open>_\<close>, in lower case, while the ids of apps may differ in just that.\<close>

lemma project_names_collide:
  "is_app_id ''a.b'' \<and> is_app_id ''a_b'' \<and> ''a.b'' \<noteq> ''a_b'' \<and> project_name ''a.b'' = project_name ''a_b''"
  by (simp add: is_app_id_def is_identifier_def IDENTIFIER_MAX_LEN_def ident_char_def project_name_def
      str_lower_def char_class_defs)

end
