(* ===== verification/Effects.thy ===== *)
theory Effects
  imports Prelude
begin

text \<open>
  Operations that raise with their effects kept: an operation is a function from the state to its
  result, an error or a value, and the state it leaves behind, whether it raised or not.
\<close>

type_synonym ('w, 'e, 'a) act = "'w \<Rightarrow> ('e + 'a) \<times> 'w"

definition ret :: "'a \<Rightarrow> ('w, 'e, 'a) act" where
  "ret x w = (Inr x, w)"

definition raise :: "'e \<Rightarrow> ('w, 'e, 'a) act" where
  "raise e w = (Inl e, w)"

definition bindA :: "('w, 'e, 'a) act \<Rightarrow> ('a \<Rightarrow> ('w, 'e, 'b) act) \<Rightarrow> ('w, 'e, 'b) act" where
  "bindA m f w = (case m w of (Inl e, w') \<Rightarrow> (Inl e, w') | (Inr x, w') \<Rightarrow> f x w')"

definition update :: "('w \<Rightarrow> 'w) \<Rightarrow> ('w, 'e, unit) act" where
  "update f w = (Inr (), f w)"

definition askA :: "('w \<Rightarrow> 'e + 'a) \<Rightarrow> ('w, 'e, 'a) act" where
  "askA f w = (f w, w)"

definition whenA :: "bool \<Rightarrow> ('w, 'e, unit) act \<Rightarrow> ('w, 'e, unit) act" where
  "whenA b m = (if b then m else ret ())"

fun eachA :: "('a \<Rightarrow> ('w, 'e, unit) act) \<Rightarrow> 'a list \<Rightarrow> ('w, 'e, unit) act" where
  "eachA f [] = ret ()"
| "eachA f (x # xs) = bindA (f x) (\<lambda>_. eachA f xs)"

text \<open>\<open>except Exception: undo(); raise\<close>.\<close>

definition on_error :: "('w, 'e, 'a) act \<Rightarrow> ('w \<Rightarrow> 'w) \<Rightarrow> ('w, 'e, 'a) act" where
  "on_error m undo w = (case m w of (Inl e, w') \<Rightarrow> (Inl e, undo w') | r \<Rightarrow> r)"

lemma act_simps [simp]:
  "ret x w = (Inr x, w)" "raise e w = (Inl e, w)" "update f w = (Inr (), f w)" "askA g w = (g w, w)"
  "whenA True m = m" "whenA False m = ret ()"
  by (simp_all add: ret_def raise_def update_def askA_def whenA_def)

lemma bindA_Inr: "m w = (Inr x, w') \<Longrightarrow> bindA m f w = f x w'"
  by (simp add: bindA_def)

lemma bindA_Inl: "m w = (Inl e, w') \<Longrightarrow> bindA m f w = (Inl e, w')"
  by (simp add: bindA_def)

lemma bindA_ret [simp]: "bindA (ret x) f w = f x w"
  by (simp add: bindA_def)

lemma bindA_result:
  "bindA m f w = (Inr y, w'') \<longleftrightarrow> (\<exists>x w'. m w = (Inr x, w') \<and> f x w' = (Inr y, w''))"
  by (auto simp: bindA_def split: prod.splits sum.splits)

lemma bindA_E:
  assumes "bindA m f w = (r, w')"
  obtains (raised) e where "m w = (Inl e, w')" "r = Inl e"
    | (went_on) x w1 where "m w = (Inr x, w1)" "f x w1 = (r, w')"
  using assms by (auto simp: bindA_def split: prod.splits sum.splits)

text \<open>What a step keeps, whether it raises or not, a sequence of such steps keeps.\<close>

definition keeps :: "('w \<Rightarrow> 'w \<Rightarrow> bool) \<Rightarrow> ('w, 'e, 'a) act \<Rightarrow> bool" where
  "keeps R m \<longleftrightarrow> (\<forall>w. R w (snd (m w)))"

lemma keepsD: "keeps R m \<Longrightarrow> m w = (r, w') \<Longrightarrow> R w w'"
  unfolding keeps_def by (metis snd_conv)

lemma keeps_bindA:
  assumes "keeps R m" "\<And>x. keeps R (f x)" "transp R"
  shows "keeps R (bindA m f)"
  unfolding keeps_def
proof
  fix w
  obtain r w' where m: "m w = (r, w')" by (cases "m w")
  with assms(1) have R: "R w w'" by (rule keepsD)
  show "R w (snd (bindA m f w))"
  proof (cases r)
    case (Inl e)
    with m R show ?thesis by (simp add: bindA_def)
  next
    case (Inr x)
    obtain r2 w2 where f: "f x w' = (r2, w2)" by (cases "f x w'")
    from keepsD [OF assms(2) f] R assms(3) have "R w w2" by (blast dest: transpD)
    with m f Inr show ?thesis by (simp add: bindA_def)
  qed
qed

lemma keeps_askA: "reflp R \<Longrightarrow> keeps R (askA f)"
  by (simp add: keeps_def reflp_def)

lemma keeps_ret: "reflp R \<Longrightarrow> keeps R (ret x)"
  by (simp add: keeps_def reflp_def)

lemma keeps_eachA: "(\<And>x. keeps R (f x)) \<Longrightarrow> reflp R \<Longrightarrow> transp R \<Longrightarrow> keeps R (eachA f xs)"
  by (induction xs) (simp_all add: keeps_ret keeps_bindA)

lemma keeps_if: "(b \<Longrightarrow> keeps R m) \<Longrightarrow> (\<not> b \<Longrightarrow> keeps R n) \<Longrightarrow> keeps R (if b then m else n)"
  by simp

lemma keeps_whenA: "keeps R m \<Longrightarrow> reflp R \<Longrightarrow> keeps R (whenA b m)"
  by (cases b) (simp_all add: keeps_ret)

lemma bindA_assoc: "bindA (bindA m f) g = bindA m (\<lambda>x. bindA (f x) g)"
  by (auto simp: bindA_def fun_eq_iff split: prod.split sum.split)

end
