(* ===== verification/Routes.thy ===== *)
theory Routes
  imports RunLayout Effects
begin

text \<open>
  \<^verbatim>\<open>kelso/lib/lifecycle/routes.py\<close> with the provider interface of \<^verbatim>\<open>kelso/lib/routes/base.py\<close>: what
  is published for an app, and the loops that check, publish and unpublish its routes. The
  locale \<open>route_provider\<close> states what a provider that keeps its routes promises; the noop
  provider of the same file keeps the promise.
\<close>

section \<open>The interface\<close>

datatype route_error =
    ForeignRoute string "string option"
  | ProviderFailed string
  | NoProvider string
  | NoHostPort string
  | Unexpected string
  | NoSuchRoute string
  | NotKelsos string
  | LayoutFailed layout_error

text \<open>Which of them are a \<^verbatim>\<open>RouteProviderError\<close>.\<close>

fun provider_error :: "route_error \<Rightarrow> bool" where
  "provider_error (ForeignRoute d owner) \<longleftrightarrow> True"
| "provider_error (ProviderFailed e) \<longleftrightarrow> True"
| "provider_error (NoProvider tag) \<longleftrightarrow> True"
| "provider_error (NoHostPort r) \<longleftrightarrow> True"
| "provider_error e \<longleftrightarrow> False"

text \<open>
  The operations of every provider, by its tag, on the state \<open>'w\<close> of all the services behind them.
  Each may raise after it changed something there. \<open>po_get\<close> is whether \<^verbatim>\<open>get_route_provider\<close> builds
  the provider at all.
\<close>

record 'w provider_ops =
  po_get :: "string \<Rightarrow> 'w \<Rightarrow> route_error + unit"
  po_owners :: "string \<Rightarrow> ('w, route_error, (string, string option) dict) act"
  po_register :: "string \<Rightarrow> string \<Rightarrow> int \<Rightarrow> string \<Rightarrow> string \<Rightarrow> string \<Rightarrow> ('w, route_error, unit) act"
  po_unregister :: "string \<Rightarrow> string \<Rightarrow> string \<Rightarrow> ('w, route_error, unit) act"

text \<open>
  \<open>owner w tag\<close> is who holds each subdomain at a tag: nobody, kelso's app, or something else.
  \<open>names tag sub domain\<close> are the names the provider can keep apart from every other.
  A registration or a removal touches one name only, whether it succeeds or not, and a
  registration never touches the name of another; kelso asks for a removal only where one of
  its apps holds the name.
\<close>

locale route_provider =
  fixes ops :: "'w provider_ops"
    and inv :: "'w \<Rightarrow> bool"
    and owner :: "'w \<Rightarrow> string \<Rightarrow> string \<Rightarrow> string option option"
    and names :: "string \<Rightarrow> string \<Rightarrow> string \<Rightarrow> bool"
  assumes owners_law: "inv w \<Longrightarrow> po_owners ops tag w = (r, w') \<Longrightarrow>
      inv w' \<and> owner w' = owner w \<and> (\<forall>d. r = Inr d \<longrightarrow> map_of d = owner w tag)"
    and register_law: "inv w \<Longrightarrow> names tag sub domain \<Longrightarrow> po_register ops tag app port sub domain sch w = (u, w') \<Longrightarrow>
      inv w' \<and> (\<forall>t s. (t, s) \<noteq> (tag, sub) \<longrightarrow> owner w' t s = owner w t s) \<and>
      (owner w tag sub \<notin> {None, Some (Some app)} \<longrightarrow> isl u \<and> owner w' tag sub = owner w tag sub) \<and>
      (\<not> isl u \<longrightarrow> owner w' tag sub = Some (Some app))"
    and unregister_law: "inv w \<Longrightarrow> names tag sub domain \<Longrightarrow> owner w tag sub \<noteq> Some None \<Longrightarrow>
      po_unregister ops tag sub domain w = (u, w') \<Longrightarrow>
      inv w' \<and> (\<forall>t s. (t, s) \<noteq> (tag, sub) \<longrightarrow> owner w' t s = owner w t s) \<and>
      owner w' tag sub \<in> {None, owner w tag sub} \<and> (\<not> isl u \<longrightarrow> owner w' tag sub = None)"

section \<open>The noop provider\<close>

record noop_provider =
  np_routes :: "(string, string) dict"
  np_owners :: "(string, string) dict"

definition noop_register ::
    "noop_provider \<Rightarrow> string \<Rightarrow> int \<Rightarrow> string \<Rightarrow> string \<Rightarrow> route_error + noop_provider" where
  "noop_register p app port sub domain =
     (case map_of (np_owners p) sub of
        Some owner \<Rightarrow>
          if owner \<noteq> app then Inl (ForeignRoute (sub @ ''.'' @ domain) (Some owner))
          else Inr \<lparr>np_routes = AList.update sub ('':'' @ str_of_int port) (np_routes p),
                    np_owners = AList.update sub app (np_owners p)\<rparr>
      | None \<Rightarrow>
          Inr \<lparr>np_routes = AList.update sub ('':'' @ str_of_int port) (np_routes p),
               np_owners = AList.update sub app (np_owners p)\<rparr>)"

definition noop_unregister :: "noop_provider \<Rightarrow> string \<Rightarrow> noop_provider" where
  "noop_unregister p sub =
     \<lparr>np_routes = AList.delete sub (np_routes p), np_owners = AList.delete sub (np_owners p)\<rparr>"

definition noop_list_routes :: "noop_provider \<Rightarrow> (string \<times> string) list" where
  "noop_list_routes p = sort_key fst (np_routes p)"

definition noop_route_owners :: "noop_provider \<Rightarrow> (string, string option) dict" where
  "noop_route_owners p = List.map (\<lambda>(sub, d). (sub, map_of (np_owners p) sub)) (np_routes p)"

text \<open>A world with one noop provider at each tag. The two dicts of an instance have the same keys.\<close>

definition noop_ops :: "(string \<Rightarrow> noop_provider) provider_ops" where
  "noop_ops =
     \<lparr>po_get = (\<lambda>tag w. Inr ()),
      po_owners = (\<lambda>tag. askA (\<lambda>w. Inr (noop_route_owners (w tag)))),
      po_register = (\<lambda>tag app port sub domain sch w.
        case noop_register (w tag) app port sub domain of Inl e \<Rightarrow> (Inl e, w) | Inr p \<Rightarrow> (Inr (), w(tag := p))),
      po_unregister = (\<lambda>tag sub domain. update (\<lambda>w. w(tag := noop_unregister (w tag) sub)))\<rparr>"

definition noop_owner :: "(string \<Rightarrow> noop_provider) \<Rightarrow> string \<Rightarrow> string \<Rightarrow> string option option" where
  "noop_owner w tag sub =
     (case map_of (np_routes (w tag)) sub of None \<Rightarrow> None | Some d \<Rightarrow> Some (map_of (np_owners (w tag)) sub))"

section \<open>What is published\<close>

definition published_tags :: "assigned_route \<Rightarrow> string list" where
  "published_tags r = List.filter (\<lambda>tag. tag \<noteq> [] \<and> tag \<noteq> NONE_ROUTE_PROVIDER_TAG) (asg_providers r)"

definition assigned_routes :: "app_run_data \<Rightarrow> (string \<times> assigned_route \<times> string) list" where
  "assigned_routes d =
     concat (List.map (\<lambda>(name, r). List.map (\<lambda>tag. (name, r, tag)) (published_tags r)) (rd_routes d))"

definition refuse_foreign :: "config \<Rightarrow> string \<Rightarrow> string \<Rightarrow> string option \<Rightarrow> route_error" where
  "refuse_foreign cfg sub tag owner = ForeignRoute (sub @ ''.'' @ provider_domain cfg tag) owner"

definition preflight_route ::
    "'w provider_ops \<Rightarrow> config \<Rightarrow> string \<Rightarrow> string \<times> assigned_route \<times> string \<Rightarrow> ('w, route_error, unit) act" where
  "preflight_route ops cfg app a =
     (case a of (name, r, tag) \<Rightarrow>
       bindA (askA (po_get ops tag)) (\<lambda>_.
       bindA (po_owners ops tag) (\<lambda>owners.
         case map_of owners (asg_subdomain r) of
           None \<Rightarrow> ret ()
         | Some owner \<Rightarrow>
             if owner = Some app then ret ()
             else raise (refuse_foreign cfg (asg_subdomain r) tag owner))))"

definition preflight_app_routes ::
    "'w provider_ops \<Rightarrow> config \<Rightarrow> app_run_data \<Rightarrow> ('w, route_error, unit) act" where
  "preflight_app_routes ops cfg d = eachA (preflight_route ops cfg (rd_app d)) (assigned_routes d)"

definition register_route ::
    "'w provider_ops \<Rightarrow> config \<Rightarrow> app_run_data \<Rightarrow> string \<times> assigned_route \<times> string \<Rightarrow> ('w, route_error, unit) act" where
  "register_route ops cfg d a =
     (case a of (name, r, tag) \<Rightarrow>
       bindA (askA (\<lambda>w. case map_of (rd_routes d) name of
           None \<Rightarrow> Inl (LayoutFailed (NotLaidOut name)) | Some own \<Rightarrow> Inr (asg_host_port own))) (\<lambda>port.
         if port < 0 then raise (NoHostPort name)
         else bindA (askA (po_get ops tag)) (\<lambda>_.
           po_register ops tag (rd_app d) port (asg_subdomain r) (provider_domain cfg tag) (asg_scheme r))))"

definition register_app_routes ::
    "'w provider_ops \<Rightarrow> config \<Rightarrow> app_run_data \<Rightarrow> ('w, route_error, unit) act" where
  "register_app_routes ops cfg d = eachA (register_route ops cfg d) (assigned_routes d)"

text \<open>
  The unpublishing loop works on the services and the owners fetched so far, one answer per tag.
\<close>

type_synonym 'w unpublishing = "'w \<times> (string, (string, string option) dict) dict"

definition owners_once :: "'w provider_ops \<Rightarrow> string \<Rightarrow> ('w unpublishing, route_error, (string, string option) dict) act" where
  "owners_once ops tag st =
     (case map_of (snd st) tag of
        Some owners \<Rightarrow> (Inr owners, st)
      | None \<Rightarrow> (case po_owners ops tag (fst st) of
            (Inl e, w) \<Rightarrow> (Inl e, (w, snd st))
          | (Inr owners, w) \<Rightarrow> (Inr owners, (w, AList.update tag owners (snd st)))))"

text \<open>A failed removal of one route is logged and passed over; any other error stops the loop.\<close>

definition unregister_logged :: "'w provider_ops \<Rightarrow> string \<Rightarrow> string \<Rightarrow> string \<Rightarrow> ('w unpublishing, route_error, unit) act" where
  "unregister_logged ops tag sub domain st =
     (case po_unregister ops tag sub domain (fst st) of
        (Inl e, w) \<Rightarrow> (if provider_error e then Inr () else Inl e, (w, snd st))
      | (Inr u, w) \<Rightarrow> (Inr (), (w, snd st)))"

definition unregister_one ::
    "'w provider_ops \<Rightarrow> config \<Rightarrow> string \<Rightarrow> assigned_route \<times> string \<Rightarrow> ('w unpublishing, route_error, unit) act" where
  "unregister_one ops cfg app rt =
     (case rt of (r, tag) \<Rightarrow>
       bindA (askA (\<lambda>st. po_get ops tag (fst st))) (\<lambda>_.
       bindA (owners_once ops tag) (\<lambda>owners.
         case map_of owners (asg_subdomain r) of
           None \<Rightarrow> ret ()
         | Some owner \<Rightarrow>
             if owner \<noteq> Some app then ret ()
             else unregister_logged ops tag (asg_subdomain r) (provider_domain cfg tag))))"

definition published :: "(string, assigned_route) dict \<Rightarrow> (assigned_route \<times> string) list" where
  "published routes = concat (List.map (\<lambda>(n, r). List.map (Pair r) (published_tags r)) routes)"

text \<open>
  \<^verbatim>\<open>unregister_app_routes\<close>: malformed records stop it with a log line, the state as it was; every
  other error of reading them is raised.
\<close>

definition unregister_app_routes ::
    "'w provider_ops \<Rightarrow> 's run_ctx \<Rightarrow> string \<Rightarrow> ('w, route_error, unit) act" where
  "unregister_app_routes ops ctx app w =
     (case loaded_routes ctx app of
        Inl (BadRouteRecord k) \<Rightarrow> (Inr (), w)
      | Inl e \<Rightarrow> (Inl (LayoutFailed e), w)
      | Inr routes \<Rightarrow>
          (case eachA (unregister_one ops (rx_config ctx) app) (published routes) (w, []) of
             (r, (w', cache)) \<Rightarrow> (r, w')))"

text \<open>\<^verbatim>\<open>take_down_routes\<close> swallows every error. What was unpublished before it stays unpublished.\<close>

definition take_down_routes :: "'w provider_ops \<Rightarrow> 's run_ctx \<Rightarrow> string \<Rightarrow> 'w \<Rightarrow> 'w" where
  "take_down_routes ops ctx app w = snd (unregister_app_routes ops ctx app w)"

definition remove_published_route ::
    "'w provider_ops \<Rightarrow> config \<Rightarrow> string \<Rightarrow> string \<Rightarrow> ('w, route_error, unit) act" where
  "remove_published_route ops cfg tag sub =
     bindA (askA (po_get ops tag)) (\<lambda>_.
     bindA (po_owners ops tag) (\<lambda>owners.
       case map_of owners sub of
         None \<Rightarrow> raise (NoSuchRoute sub)
       | Some None \<Rightarrow> raise (NotKelsos sub)
       | Some (Some owner) \<Rightarrow> po_unregister ops tag sub (provider_domain cfg tag)))"

section \<open>The noop provider keeps the promise\<close>

definition noop_inv :: "(string \<Rightarrow> noop_provider) \<Rightarrow> bool" where
  "noop_inv w \<longleftrightarrow> (\<forall>tag sub. map_of (np_routes (w tag)) sub = None \<longleftrightarrow> map_of (np_owners (w tag)) sub = None)"

lemma noop_route_owners_map: "map_of (noop_route_owners p) sub =
    (case map_of (np_routes p) sub of None \<Rightarrow> None | Some d \<Rightarrow> Some (map_of (np_owners p) sub))"
  unfolding noop_route_owners_def map_of_map_value by (simp split: option.split)

lemma noop_owner_free: "noop_inv w \<Longrightarrow> map_of (np_owners (w tag)) sub = None \<longleftrightarrow> noop_owner w tag sub = None"
  unfolding noop_inv_def noop_owner_def by (auto split: option.split) (metis option.exhaust option.distinct(1))

lemma noop_owner_held: "noop_inv w \<Longrightarrow> map_of (np_owners (w tag)) sub = Some a \<longleftrightarrow> noop_owner w tag sub = Some (Some a)"
  unfolding noop_inv_def noop_owner_def by (auto split: option.split)

lemma noop_register_ok:
  assumes "noop_inv w" and "noop_register (w tag) app port sub domain = Inr p"
  shows "noop_inv (w(tag := p)) \<and> noop_owner w tag sub \<in> {None, Some (Some app)} \<and>
    noop_owner (w(tag := p)) = (noop_owner w)(tag := (noop_owner w tag)(sub \<mapsto> Some app))"
proof -
  have p: "p = \<lparr>np_routes = AList.update sub ('':'' @ str_of_int port) (np_routes (w tag)),
      np_owners = AList.update sub app (np_owners (w tag))\<rparr>" and own: "map_of (np_owners (w tag)) sub \<in> {None, Some app}"
    using assms(2) by (auto simp: noop_register_def split: option.splits if_splits)
  have "noop_owner w tag sub \<in> {None, Some (Some app)}"
    using own noop_owner_free [OF assms(1)] noop_owner_held [OF assms(1)] by blast
  moreover have "noop_owner (w(tag := p)) = (noop_owner w)(tag := (noop_owner w tag)(sub \<mapsto> Some app))"
    by (auto simp: noop_owner_def fun_eq_iff p split: option.split)
  moreover have "noop_inv (w(tag := p))"
    using assms(1) by (simp add: noop_inv_def p)
  ultimately show ?thesis by blast
qed

lemma noop_register_refuses:
  assumes "noop_register p app port sub domain = Inl e"
  shows "\<exists>a. map_of (np_owners p) sub = Some a \<and> a \<noteq> app"
  using assms by (auto simp: noop_register_def split: option.splits if_splits)

lemma noop_unregister_ok:
  assumes "noop_inv w"
  shows "noop_inv (w(tag := noop_unregister (w tag) sub)) \<and>
    noop_owner (w(tag := noop_unregister (w tag) sub)) = (noop_owner w)(tag := (noop_owner w tag)(sub := None))"
proof
  show "noop_inv (w(tag := noop_unregister (w tag) sub))"
    using assms by (simp add: noop_inv_def noop_unregister_def)
  show "noop_owner (w(tag := noop_unregister (w tag) sub)) = (noop_owner w)(tag := (noop_owner w tag)(sub := None))"
    by (auto simp: noop_unregister_def noop_owner_def fun_eq_iff split: option.split)
qed

interpretation noop: route_provider noop_ops noop_inv noop_owner "\<lambda>tag sub domain. True"
proof
  fix w w' :: "string \<Rightarrow> noop_provider" and tag r assume "noop_inv w" "po_owners noop_ops tag w = (r, w')"
  then have "w' = w" "r = Inr (noop_route_owners (w tag))" "noop_inv w" by (auto simp: noop_ops_def)
  moreover have "map_of (noop_route_owners (w tag)) = noop_owner w tag"
    by (rule ext) (simp add: noop_route_owners_map noop_owner_def)
  ultimately show "noop_inv w' \<and> noop_owner w' = noop_owner w \<and> (\<forall>d. r = Inr d \<longrightarrow> map_of d = noop_owner w tag)" by simp
next
  fix w w' :: "string \<Rightarrow> noop_provider" and tag app port sub domain sch r
  assume i: "noop_inv w" and "po_register noop_ops tag app port sub domain sch w = (r, w')"
  then consider (refused) e where "noop_register (w tag) app port sub domain = Inl e" "r = Inl e" "w' = w"
    | (kept) p where "noop_register (w tag) app port sub domain = Inr p" "r = Inr ()" "w' = w(tag := p)"
    by (auto simp: noop_ops_def split: sum.splits)
  then show "noop_inv w' \<and> (\<forall>t s. (t, s) \<noteq> (tag, sub) \<longrightarrow> noop_owner w' t s = noop_owner w t s) \<and>
      (noop_owner w tag sub \<notin> {None, Some (Some app)} \<longrightarrow> isl r \<and> noop_owner w' tag sub = noop_owner w tag sub) \<and>
      (\<not> isl r \<longrightarrow> noop_owner w' tag sub = Some (Some app))"
  proof cases
    case refused
    from noop_register_refuses [OF refused(1)] i noop_owner_held [OF i] show ?thesis by (auto simp: refused)
  next
    case kept
    from noop_register_ok [OF i kept(1)] show ?thesis by (auto simp: kept)
  qed
next
  fix w w' :: "string \<Rightarrow> noop_provider" and tag sub domain r
  assume i: "noop_inv w" and "po_unregister noop_ops tag sub domain w = (r, w')"
  then have "r = Inr ()" "w' = w(tag := noop_unregister (w tag) sub)" by (simp_all add: noop_ops_def)
  with noop_unregister_ok [OF i] show "noop_inv w' \<and> (\<forall>t s. (t, s) \<noteq> (tag, sub) \<longrightarrow> noop_owner w' t s = noop_owner w t s) \<and>
      noop_owner w' tag sub \<in> {None, noop_owner w tag sub} \<and> (\<not> isl r \<longrightarrow> noop_owner w' tag sub = None)" by auto
qed

section \<open>The loops over a provider that keeps its promise\<close>

text \<open>Who holds a subdomain after an app's routes were published there.\<close>

definition published_at :: "(string \<times> assigned_route \<times> string) list \<Rightarrow> string \<Rightarrow> string \<Rightarrow> bool" where
  "published_at as tag sub \<longleftrightarrow> (\<exists>(name, r, t) \<in> set as. t = tag \<and> asg_subdomain r = sub)"

lemma published_at_Cons:
  "published_at ((name, r, t) # as) tag sub \<longleftrightarrow> (tag = t \<and> sub = asg_subdomain r) \<or> published_at as tag sub"
  by (auto simp: published_at_def)

context route_provider
begin

lemma register_route_step:
  assumes "inv w" and "names tag (asg_subdomain r) (provider_domain cfg tag)"
    and "register_route ops cfg d (name, r, tag) w = (res, w')"
  shows "inv w' \<and> (\<forall>t s. (t, s) \<noteq> (tag, asg_subdomain r) \<longrightarrow> owner w' t s = owner w t s) \<and>
    (owner w tag (asg_subdomain r) \<notin> {None, Some (Some (rd_app d))} \<longrightarrow>
       isl res \<and> owner w' tag (asg_subdomain r) = owner w tag (asg_subdomain r)) \<and>
    (\<not> isl res \<longrightarrow> owner w' tag (asg_subdomain r) = Some (Some (rd_app d)))"
proof -
  consider "isl res" "w' = w" | port where
    "po_register ops tag (rd_app d) port (asg_subdomain r) (provider_domain cfg tag) (asg_scheme r) w = (res, w')"
  proof (cases "po_get ops tag w")
    case (Inl e)
    with assms(3) have "isl res \<and> w' = w"
      by (cases res) (auto simp: register_route_def bindA_def split: if_splits option.splits)
    with that(1) show ?thesis by blast
  next
    case (Inr u)
    with assms(3) that show ?thesis by (auto simp: register_route_def bindA_def split: if_splits option.splits)
  qed
  then show ?thesis
  proof cases
    case 1
    with assms(1) show ?thesis by simp
  next
    case 2
    from register_law [OF assms(1,2) this] show ?thesis .
  qed
qed

lemma register_each:
  assumes "inv w" and "eachA (register_route ops cfg d) as w = (res, w')"
    and "\<And>name r tag. (name, r, tag) \<in> set as \<Longrightarrow> names tag (asg_subdomain r) (provider_domain cfg tag)"
  shows "inv w' \<and> (\<forall>tag sub. \<not> published_at as tag sub \<or> owner w tag sub \<notin> {None, Some (Some (rd_app d))} \<longrightarrow>
      owner w' tag sub = owner w tag sub) \<and>
    (\<not> isl res \<longrightarrow> (\<forall>tag sub. published_at as tag sub \<longrightarrow>
      owner w' tag sub = Some (Some (rd_app d)) \<and> owner w tag sub \<in> {None, Some (Some (rd_app d))}))"
  using assms
proof (induction as arbitrary: w)
  case (Cons a as)
  obtain name r tag where a: "a = (name, r, tag)" by (cases a)
  let ?own = "{None, Some (Some (rd_app d))}"
  obtain r1 w1 where one: "register_route ops cfg d (name, r, tag) w = (r1, w1)"
    by (cases "register_route ops cfg d (name, r, tag) w")
  note step = register_route_step [OF Cons.prems(1) Cons.prems(3) [unfolded a, OF list.set_intros(1)] one]
  show ?case
  proof (cases r1)
    case (Inl e)
    with Cons.prems(2) have "res = Inl e" "w' = w1" by (simp_all add: a one bindA_def)
    moreover have "owner w1 t s = owner w t s" if "\<not> published_at (a # as) t s \<or> owner w t s \<notin> ?own" for t s
      using that step by (cases "(t, s) = (tag, asg_subdomain r)") (auto simp: a published_at_Cons)
    ultimately show ?thesis using step by simp
  next
    case (Inr u)
    then have rest: "eachA (register_route ops cfg d) as w1 = (res, w')"
      using Cons.prems(2) by (simp add: a one bindA_def)
    have IH: "inv w'" "\<And>t s. \<not> published_at as t s \<or> owner w1 t s \<notin> ?own \<Longrightarrow> owner w' t s = owner w1 t s"
      "\<And>t s. \<not> isl res \<Longrightarrow> published_at as t s \<Longrightarrow> owner w' t s = Some (Some (rd_app d)) \<and> owner w1 t s \<in> ?own"
    proof -
      have "inv w1" using step by blast
      from Cons.IH [OF this rest] Cons.prems(3) have "inv w' \<and> (\<forall>t s. \<not> published_at as t s \<or> owner w1 t s \<notin> ?own \<longrightarrow>
          owner w' t s = owner w1 t s) \<and> (\<not> isl res \<longrightarrow> (\<forall>t s. published_at as t s \<longrightarrow>
          owner w' t s = Some (Some (rd_app d)) \<and> owner w1 t s \<in> ?own))" by (meson list.set_intros(2))
      then show "inv w'" "\<And>t s. \<not> published_at as t s \<or> owner w1 t s \<notin> ?own \<Longrightarrow> owner w' t s = owner w1 t s"
        "\<And>t s. \<not> isl res \<Longrightarrow> published_at as t s \<Longrightarrow> owner w' t s = Some (Some (rd_app d)) \<and> owner w1 t s \<in> ?own" by blast+
    qed
    have head: "owner w tag (asg_subdomain r) \<in> ?own" "owner w1 tag (asg_subdomain r) = Some (Some (rd_app d))"
      and other: "\<And>t s. (t, s) \<noteq> (tag, asg_subdomain r) \<Longrightarrow> owner w1 t s = owner w t s"
      using step Inr by auto
    have "owner w' t s = owner w t s" if "\<not> published_at (a # as) t s \<or> owner w t s \<notin> ?own" for t s
    proof -
      from that head(1) have "(t, s) \<noteq> (tag, asg_subdomain r)" by (auto simp: a published_at_Cons)
      from other [OF this] that IH(2) [of t s] show ?thesis by (auto simp: a published_at_Cons)
    qed
    moreover have "owner w' t s = Some (Some (rd_app d)) \<and> owner w t s \<in> ?own"
      if "\<not> isl res" "published_at (a # as) t s" for t s
    proof (cases "(t, s) = (tag, asg_subdomain r)")
      case True
      with head IH(2) [of t s] IH(3) [OF that(1), of t s] show ?thesis by (cases "published_at as t s") auto
    next
      case False
      with that(2) have "published_at as t s" by (auto simp: a published_at_Cons)
      from IH(3) [OF that(1) this] show ?thesis unfolding other [OF False] .
    qed
    ultimately show ?thesis using IH(1) by blast
  qed
qed (simp add: published_at_def)

text \<open>The state of the unpublishing loop: the answers kept are those of the beginning.\<close>

definition unpublished_from :: "string \<Rightarrow> 'w \<Rightarrow> (assigned_route \<times> string) set \<Rightarrow> 'w unpublishing \<Rightarrow> bool" where
  "unpublished_from app w0 pubs st \<longleftrightarrow> (case st of (w, cache) \<Rightarrow>
     inv w \<and>
     (\<forall>tag. case map_of cache tag of None \<Rightarrow> owner w tag = owner w0 tag | Some d \<Rightarrow> map_of d = owner w0 tag) \<and>
     (\<forall>tag sub. owner w tag sub = owner w0 tag sub \<or>
       (owner w0 tag sub = Some (Some app) \<and> owner w tag sub = None \<and>
         (\<exists>r. (r, tag) \<in> pubs \<and> asg_subdomain r = sub))))"

lemma unpublished_fromD:
  assumes "unpublished_from app w0 pubs st"
  shows "inv (fst st)"
    and "case map_of (snd st) tag of None \<Rightarrow> owner (fst st) tag = owner w0 tag | Some d \<Rightarrow> map_of d = owner w0 tag"
    and "owner (fst st) tag sub = owner w0 tag sub \<or> (owner w0 tag sub = Some (Some app) \<and> owner (fst st) tag sub = None \<and>
      (\<exists>r. (r, tag) \<in> pubs \<and> asg_subdomain r = sub))"
  using assms unfolding unpublished_from_def case_prod_beta by blast+

lemma unpublished_from_mono:
  "unpublished_from app w0 A st \<Longrightarrow> A \<subseteq> B \<Longrightarrow> unpublished_from app w0 B st"
  unfolding unpublished_from_def by (cases st) (simp, blast)

lemma unpublished_from_start: "inv w \<Longrightarrow> unpublished_from app w {} (w, [])"
  by (simp add: unpublished_from_def)

lemma owners_once_step:
  assumes "unpublished_from app w0 pubs st" and "owners_once ops tag st = (res, st')"
  shows "unpublished_from app w0 pubs st' \<and> owner (fst st') = owner (fst st) \<and>
    (\<forall>d. res = Inr d \<longrightarrow> map_of d = owner w0 tag \<and> map_of (snd st') tag \<noteq> None)"
proof (cases "map_of (snd st) tag")
  case (Some owners)
  with unpublished_fromD(2) [OF assms(1), of tag] assms show ?thesis by (auto simp: owners_once_def)
next
  case None
  obtain w cache where st: "st = (w, cache)" by (cases st)
  obtain r w1 where q: "po_owners ops tag w = (r, w1)" by (cases "po_owners ops tag w")
  have i: "inv w" and c: "\<And>t. case map_of cache t of None \<Rightarrow> owner w t = owner w0 t | Some d \<Rightarrow> map_of d = owner w0 t"
    using assms(1) unfolding unpublished_from_def st by auto
  from owners_law [OF i q] have law: "inv w1" "owner w1 = owner w" "\<And>d. r = Inr d \<Longrightarrow> map_of d = owner w tag" by blast+
  from c [of tag] None have same: "owner w tag = owner w0 tag" by (simp add: st)
  have o: "\<And>t s. owner w t s = owner w0 t s \<or> (owner w0 t s = Some (Some app) \<and> owner w t s = None \<and>
      (\<exists>r. (r, t) \<in> pubs \<and> asg_subdomain r = s))" using unpublished_fromD(3) [OF assms(1)] by (simp add: st)
  show ?thesis
  proof (cases r)
    case (Inl e)
    have "unpublished_from app w0 pubs (w1, cache)"
      unfolding unpublished_from_def prod.case law(2) using law(1) c o by blast
    with assms(2) None Inl law(2) show ?thesis by (auto simp: owners_once_def st q)
  next
    case (Inr d)
    have d: "map_of d = owner w0 tag" using law(3) [OF Inr] same by simp
    have "case map_of (AList.update tag d cache) t of None \<Rightarrow> owner w t = owner w0 t | Some d \<Rightarrow> map_of d = owner w0 t" for t
      using c [of t] d by simp
    then have "unpublished_from app w0 pubs (w1, AList.update tag d cache)"
      unfolding unpublished_from_def prod.case law(2) using law(1) o by blast
    with assms(2) None Inr law(2) d show ?thesis by (auto simp: owners_once_def st q)
  qed
qed

lemma unregister_logged_step:
  assumes "unpublished_from app w0 pubs st" and "map_of (snd st) tag \<noteq> None" and "owner w0 tag (asg_subdomain r) = Some (Some app)"
    and "names tag (asg_subdomain r) domain" and "unregister_logged ops tag (asg_subdomain r) domain st = (res, st')"
  shows "unpublished_from app w0 (insert (r, tag) pubs) st'"
    and "\<forall>t s. owner (fst st') t s \<in> {owner (fst st) t s, None}"
proof -
  let ?sub = "asg_subdomain r"
  obtain w cache where st: "st = (w, cache)" by (cases st)
  obtain x w1 where u: "po_unregister ops tag ?sub domain w = (x, w1)" by (cases "po_unregister ops tag ?sub domain w")
  have st': "st' = (w1, cache)" using assms(5) by (auto simp: unregister_logged_def st u split: sum.splits)
  have i: "inv w" and c: "\<And>t. case map_of cache t of None \<Rightarrow> owner w t = owner w0 t | Some d \<Rightarrow> map_of d = owner w0 t"
    and o: "\<And>t s. owner w t s = owner w0 t s \<or> (owner w0 t s = Some (Some app) \<and>
      owner w t s = None \<and> (\<exists>r. (r, t) \<in> pubs \<and> asg_subdomain r = s))"
    using assms(1) unfolding unpublished_from_def st by auto
  from o [of tag ?sub] assms(3) have "owner w tag ?sub \<noteq> Some None" by auto
  from unregister_law [OF i assms(4) this u] have law: "inv w1" "\<And>t s. (t, s) \<noteq> (tag, ?sub) \<Longrightarrow> owner w1 t s = owner w t s"
    "owner w1 tag ?sub \<in> {None, owner w tag ?sub}" by blast+
  have "owner w1 t s \<in> {owner w t s, None}" for t s
    using law(2) [of t s] law(3) by (cases "(t, s) = (tag, ?sub)") auto
  then show "\<forall>t s. owner (fst st') t s \<in> {owner (fst st) t s, None}" by (simp add: st st')
  have "case map_of cache t of None \<Rightarrow> owner w1 t = owner w0 t | Some d \<Rightarrow> map_of d = owner w0 t" for t
  proof (cases "t = tag")
    case True
    with c [of t] assms(2) show ?thesis by (auto simp: st split: option.splits)
  next
    case False
    with law(2) have same: "owner w1 t = owner w t" by (simp add: fun_eq_iff)
    from c [of t] show ?thesis unfolding same .
  qed
  moreover have "owner w1 t s = owner w0 t s \<or> (owner w0 t s = Some (Some app) \<and> owner w1 t s = None \<and>
      (\<exists>q. (q, t) \<in> insert (r, tag) pubs \<and> asg_subdomain q = s))" for t s
  proof (cases "(t, s) = (tag, ?sub)")
    case True
    with law(3) assms(3) o [of t s] show ?thesis by auto
  next
    case False
    with law(2) [OF this] o [of t s] show ?thesis by auto
  qed
  ultimately show "unpublished_from app w0 (insert (r, tag) pubs) st'"
    using law(1) unfolding unpublished_from_def st' prod.case by blast
qed

lemma unregister_one_step:
  assumes "unpublished_from app w0 pubs st" and "names tag (asg_subdomain r) (provider_domain cfg tag)"
    and "unregister_one ops cfg app (r, tag) st = (res, st')"
  shows "unpublished_from app w0 (insert (r, tag) pubs) st'" and "\<forall>t s. owner (fst st') t s \<in> {owner (fst st) t s, None}"
proof -
  obtain q st1 where once: "owners_once ops tag st = (q, st1)" by (cases "owners_once ops tag st")
  note step = owners_once_step [OF assms(1) once]
  from assms(3) consider (same) "st' = st" | (asked) "st' = st1"
    | (removed) owners where "q = Inr owners" "map_of owners (asg_subdomain r) = Some (Some app)"
        "unregister_logged ops tag (asg_subdomain r) (provider_domain cfg tag) st1 = (res, st')"
    by (auto simp: unregister_one_def bindA_def once split: sum.splits option.splits if_splits)
  then have "unpublished_from app w0 (insert (r, tag) pubs) st' \<and> (\<forall>t s. owner (fst st') t s \<in> {owner (fst st) t s, None})"
  proof cases
    case same
    with assms(1) show ?thesis by (auto intro: unpublished_from_mono)
  next
    case asked
    with step show ?thesis by (auto intro: unpublished_from_mono)
  next
    case removed
    with step have "map_of (snd st1) tag \<noteq> None" "owner w0 tag (asg_subdomain r) = Some (Some app)" by auto
    with unregister_logged_step [OF _ this assms(2) removed(3)] step show ?thesis by metis
  qed
  then show "unpublished_from app w0 (insert (r, tag) pubs) st'" "\<forall>t s. owner (fst st') t s \<in> {owner (fst st) t s, None}" by blast+
qed

lemma unregister_each:
  assumes "unpublished_from app w0 pubs st" and "eachA (unregister_one ops cfg app) rts st = (res, st')"
    and "\<And>r tag. (r, tag) \<in> set rts \<Longrightarrow> names tag (asg_subdomain r) (provider_domain cfg tag)"
  shows "unpublished_from app w0 (pubs \<union> set rts) st'"
  using assms
proof (induction rts arbitrary: st pubs)
  case (Cons rt rts)
  obtain r tag where rt: "rt = (r, tag)" by (cases rt)
  obtain x st1 where one: "unregister_one ops cfg app (r, tag) st = (x, st1)" by (cases "unregister_one ops cfg app (r, tag) st")
  note step = unregister_one_step(1) [OF Cons.prems(1) Cons.prems(3) [unfolded rt, OF list.set_intros(1)] one]
  show ?case
  proof (cases x)
    case (Inl e)
    with Cons.prems(2) step show ?thesis by (auto simp: rt one bindA_def intro: unpublished_from_mono)
  next
    case (Inr u)
    with Cons.prems(2) have "eachA (unregister_one ops cfg app) rts st1 = (res, st')" by (simp add: rt one bindA_def)
    from Cons.IH [OF step this Cons.prems(3)] show ?thesis by (simp add: rt)
  qed
qed simp

lemma take_down_only_own:
  assumes "inv w" and "loaded_routes ctx app = Inr routes"
    and "\<And>r tag. (r, tag) \<in> set (published routes) \<Longrightarrow> names tag (asg_subdomain r) (provider_domain (rx_config ctx) tag)"
  shows "owner (take_down_routes ops ctx app w) tag sub = owner w tag sub \<or>
    (owner w tag sub = Some (Some app) \<and> owner (take_down_routes ops ctx app w) tag sub = None \<and>
      (\<exists>r. (r, tag) \<in> set (published routes) \<and> asg_subdomain r = sub))"
proof -
  obtain res w' cache where run: "eachA (unregister_one ops (rx_config ctx) app) (published routes) (w, []) = (res, (w', cache))"
    by (metis prod.exhaust)
  have "unpublished_from app w ({} \<union> set (published routes)) (w', cache)"
    by (rule unregister_each [OF unpublished_from_start [OF assms(1)] run assms(3)])
  then show ?thesis by (auto simp: take_down_routes_def unregister_app_routes_def assms(2) run unpublished_from_def)
qed

end

text \<open>A provider that answers every call.\<close>

definition reliable :: "'w provider_ops \<Rightarrow> bool" where
  "reliable ops \<longleftrightarrow> (\<forall>tag w. po_get ops tag w = Inr ()) \<and> (\<forall>w tag. \<not> isl (fst (po_owners ops tag w))) \<and>
     (\<forall>w tag sub domain. \<not> isl (fst (po_unregister ops tag sub domain w)))"

context route_provider
begin

lemma unregister_one_clears:
  assumes "unpublished_from app w0 pubs st" and rel: "reliable ops" and "names tag (asg_subdomain r) (provider_domain cfg tag)"
    and "unregister_one ops cfg app (r, tag) st = (res, st')"
  shows "res = Inr () \<and> owner (fst st') tag (asg_subdomain r) \<noteq> Some (Some app)"
proof -
  let ?sub = "asg_subdomain r"
  obtain q st1 where once: "owners_once ops tag st = (q, st1)" by (cases "owners_once ops tag st")
  have g: "po_get ops tag w = Inr ()" for w using rel by (simp add: reliable_def)
  have "\<not> isl (fst (po_owners ops tag (fst st)))" using rel by (simp add: reliable_def)
  with once obtain owners where q: "q = Inr owners"
    by (auto simp: owners_once_def split: option.splits prod.splits sum.splits)
  note step = owners_once_step [OF assms(1) once]
  have o: "owner (fst st1) tag ?sub = owner w0 tag ?sub \<or> owner (fst st1) tag ?sub = None"
    using unpublished_fromD(3) [OF conjunct1 [OF step], of tag ?sub] by auto
  have run: "unregister_one ops cfg app (r, tag) st = (case map_of owners ?sub of
      None \<Rightarrow> (Inr (), st1)
    | Some own \<Rightarrow> if own \<noteq> Some app then (Inr (), st1) else unregister_logged ops tag ?sub (provider_domain cfg tag) st1)"
    by (simp add: unregister_one_def bindA_def g once q split: option.split)
  show ?thesis
  proof (cases "map_of owners ?sub = Some (Some app)")
    case True
    obtain x w1 where u: "po_unregister ops tag ?sub (provider_domain cfg tag) (fst st1) = (x, w1)"
      by (cases "po_unregister ops tag ?sub (provider_domain cfg tag) (fst st1)")
    have "\<not> isl (fst (po_unregister ops tag ?sub (provider_domain cfg tag) (fst st1)))" using rel by (simp add: reliable_def)
    with u obtain v where v: "x = Inr v" by (cases x) auto
    have i: "inv (fst st1)" by (rule unpublished_fromD(1) [OF conjunct1 [OF step]])
    have "owner (fst st1) tag ?sub \<noteq> Some None" using o True step q by auto
    from unregister_law [OF i assms(3) this u] v have "owner w1 tag ?sub = None" by simp
    with True u v assms(4) run show ?thesis by (auto simp: unregister_logged_def)
  next
    case False
    then have "unregister_one ops cfg app (r, tag) st = (Inr (), st1)" unfolding run by (auto split: option.split)
    with assms(4) False o step q show ?thesis by auto
  qed
qed

lemma unregister_each_clears:
  assumes "unpublished_from app w0 pubs st" and "reliable ops"
    and "\<And>r tag. (r, tag) \<in> pubs \<Longrightarrow> owner (fst st) tag (asg_subdomain r) \<noteq> Some (Some app)"
    and "(r, tag) \<in> pubs \<union> set rts" and "eachA (unregister_one ops cfg app) rts st = (res, st')"
    and "\<And>r tag. (r, tag) \<in> set rts \<Longrightarrow> names tag (asg_subdomain r) (provider_domain cfg tag)"
  shows "owner (fst st') tag (asg_subdomain r) \<noteq> Some (Some app)"
  using assms(1,3,4,5,6)
proof (induction rts arbitrary: st pubs)
  case (Cons rt rts)
  obtain r1 t1 where rt: "rt = (r1, t1)" by (cases rt)
  obtain x st1 where one: "unregister_one ops cfg app (r1, t1) st = (x, st1)" by (cases "unregister_one ops cfg app (r1, t1) st")
  have n: "names t1 (asg_subdomain r1) (provider_domain cfg t1)" using Cons.prems(5) by (simp add: rt)
  note step = unregister_one_step [OF Cons.prems(1) n one]
  note clears = unregister_one_clears [OF Cons.prems(1) assms(2) n one]
  have clear: "owner (fst st1) t (asg_subdomain q) \<noteq> Some (Some app)" if q: "(q, t) \<in> insert rt pubs" for q t
  proof (cases "(q, t) = rt")
    case True
    with clears show ?thesis by (simp add: rt)
  next
    case False
    with q Cons.prems(2) [of q t] have "owner (fst st) t (asg_subdomain q) \<noteq> Some (Some app)" by simp
    with step(2) [rule_format, of t "asg_subdomain q"] show ?thesis by auto
  qed
  have "(r, tag) \<in> insert rt pubs \<union> set rts" using Cons.prems(3) by auto
  from Cons.IH [OF step(1) [folded rt] clear this] Cons.prems(4,5) clears show ?case by (simp add: rt one bindA_def)
qed simp

lemma take_down_clears:
  assumes "inv w" and "loaded_routes ctx app = Inr routes" and "reliable ops" and "(r, tag) \<in> set (published routes)"
    and "\<And>r tag. (r, tag) \<in> set (published routes) \<Longrightarrow> names tag (asg_subdomain r) (provider_domain (rx_config ctx) tag)"
  shows "owner (take_down_routes ops ctx app w) tag (asg_subdomain r) \<noteq> Some (Some app)"
proof -
  obtain res st where run: "eachA (unregister_one ops (rx_config ctx) app) (published routes) (w, []) = (res, st)"
    by (metis prod.exhaust)
  have "owner (fst st) tag (asg_subdomain r) \<noteq> Some (Some app)"
    by (rule unregister_each_clears [OF unpublished_from_start [OF assms(1)] assms(3) _ _ run assms(5)]) (use assms(4) in auto)
  then show ?thesis by (cases st) (simp add: take_down_routes_def unregister_app_routes_def assms(2) run)
qed

end

section \<open>Properties\<close>

text \<open>Publishing an app's routes touches no name but those of its published routes, and none that
  somebody else holds, whether it succeeds or raises half way; when it succeeds every one of
  them is the app's at its tag, and was free or already the app's. The hypotheses are what a
  provider promises, for names it can tell apart.\<close>

lemma publishing_takes_no_foreign_route:
  assumes "route_provider ops ok owner names" and "ok w" and "register_app_routes ops cfg d w = (res, w')"
    and "\<And>name r tag. (name, r, tag) \<in> set (assigned_routes d) \<Longrightarrow> names tag (asg_subdomain r) (provider_domain cfg tag)"
  shows "(\<forall>tag sub. \<not> published_at (assigned_routes d) tag sub \<or> owner w tag sub \<notin> {None, Some (Some (rd_app d))} \<longrightarrow>
      owner w' tag sub = owner w tag sub) \<and>
    (res = Inr () \<longrightarrow> (\<forall>tag sub. published_at (assigned_routes d) tag sub \<longrightarrow>
      owner w' tag sub = Some (Some (rd_app d)) \<and> owner w tag sub \<in> {None, Some (Some (rd_app d))}))"
  using route_provider.register_each [OF assms(1,2) assms(3) [unfolded register_app_routes_def] assms(4)] by simp

definition demo_published :: app_run_data where
  "demo_published =
     \<lparr>rd_app = ''org.demo'', rd_run_path = [], rd_app_domain = None, rd_volume_links = [],
      rd_config_values = [], rd_routes = [(''web'', demo_route\<lparr>asg_providers := [''home'']\<rparr>)],
      rd_route_urls = [], rd_host_mounts = [], rd_issues = [], rd_connections = []\<rparr>"

definition demo_providers :: "string \<Rightarrow> noop_provider" where
  "demo_providers tag =
     (if tag = ''home'' then \<lparr>np_routes = [(''blog'', '':1'')], np_owners = [(''blog'', ''org.blog'')]\<rparr>
      else \<lparr>np_routes = [], np_owners = []\<rparr>)"

lemma demo_providers_inv: "noop_inv demo_providers"
  by (simp add: noop_inv_def demo_providers_def)

lemma demo_register:
  "\<exists>w'. register_app_routes noop_ops demo_machine demo_published demo_providers = (Inr (), w')"
  by (simp add: register_app_routes_def assigned_routes_def demo_published_def published_tags_def
      demo_route_def NONE_ROUTE_PROVIDER_TAG_def register_route_def noop_ops_def noop_register_def demo_providers_def bindA_def)

lemma publishing_takes_no_foreign_route_witness:
  "\<exists>w'. register_app_routes noop_ops demo_machine demo_published demo_providers = (Inr (), w') \<and>
    noop_owner w' ''home'' ''web-demo'' = Some (Some ''org.demo'') \<and>
    noop_owner w' ''home'' ''blog'' = Some (Some ''org.blog'')"
proof -
  obtain w' where w': "register_app_routes noop_ops demo_machine demo_published demo_providers = (Inr (), w')"
    using demo_register by blast
  have "published_at (assigned_routes demo_published) ''home'' sub \<longleftrightarrow> sub = ''web-demo''" for sub
    by (auto simp: published_at_def assigned_routes_def demo_published_def published_tags_def demo_route_def
        NONE_ROUTE_PROVIDER_TAG_def)
  moreover have "noop_owner demo_providers ''home'' ''blog'' = Some (Some ''org.blog'')"
    by (simp add: noop_owner_def demo_providers_def)
  moreover have "rd_app demo_published = ''org.demo''" by (simp add: demo_published_def)
  ultimately show ?thesis
    using publishing_takes_no_foreign_route [OF noop.route_provider_axioms, OF demo_providers_inv, OF w' TrueI] w' by auto
qed





end
