(* ===== verification/Kelso.thy ===== *)
theory Kelso
  imports RunLayout Observations
begin

text \<open>
  \<^verbatim>\<open>kelso/lib/kelso.py\<close> and the parts of \<^verbatim>\<open>kelso/lib/bundle.py\<close> that name bundles: the catalog of the
  repos, which ids there are, and how what an operator typed is resolved to one of them.
\<close>

section \<open>Bundles by their path\<close>

definition KLSO_SUFFIX :: string where "KLSO_SUFFIX = ''.klso''"
definition KLSO_MD_SUFFIX :: string where "KLSO_MD_SUFFIX = ''.klso.md''"
definition KLSO_TAR_SUFFIX :: string where "KLSO_TAR_SUFFIX = ''.klso.tar.gz''"

text \<open>What is on disk: directories, files, and the names directly in a directory.\<close>

record disk =
  dk_is_dir :: "string \<Rightarrow> bool"
  dk_is_file :: "string \<Rightarrow> bool"
  dk_names :: "string \<Rightarrow> string list"

datatype find_error =
    NotAFile string
  | NotADirectory string
  | NotABundle string
  | BadAppId name_error
  | NoAppFound string
  | SeveralApps string
  | Ambiguous string
  | NoAppState string
  | RepoLacks string string
  | FindStore store_error

definition lift_id :: "name_error + 'a \<Rightarrow> find_error + 'a" where
  "lift_id r = (case r of Inl e \<Rightarrow> Inl (BadAppId e) | Inr x \<Rightarrow> Inr x)"

text \<open>The last component of a path, its suffix from the last dot (none when the name only begins
  with a dot or ends with one), and the name without it.\<close>

definition path_name :: "string \<Rightarrow> string" where
  "path_name p = last (split_on (CHR ''/'') p)"

definition path_suffix :: "string \<Rightarrow> string" where
  "path_suffix p =
     (let name = path_name p; ext = takeWhile (\<lambda>c. c \<noteq> CHR ''.'') (rev name)
      in if CHR ''.'' \<in> set name \<and> ext \<noteq> [] \<and> length ext + 1 < length name
         then CHR ''.'' # rev ext else [])"

definition path_stem :: "string \<Rightarrow> string" where
  "path_stem p = remove_suffix (path_name p) (path_suffix p)"

definition app_id_from_path :: "disk \<Rightarrow> string \<Rightarrow> find_error + string" where
  "app_id_from_path dk p =
     (if ends_with (path_name p) KLSO_MD_SUFFIX
      then if \<not> dk_is_file dk p then Inl (NotAFile p)
           else lift_id (app_id (remove_suffix (path_name p) KLSO_MD_SUFFIX))
      else if \<not> dk_is_dir dk p then Inl (NotADirectory p)
      else if path_suffix p \<noteq> KLSO_SUFFIX then Inl (NotABundle p)
      else if \<not> dk_is_file dk (path_join p ''manifest.toml'') then Inl (NotABundle p)
      else lift_id (app_id (path_stem p)))"

definition is_pathlike :: "string \<Rightarrow> bool" where
  "is_pathlike raw \<longleftrightarrow>
     CHR ''/'' \<in> set raw \<or> starts_with raw ''~'' \<or> starts_with raw ''.''
     \<or> ends_with raw KLSO_SUFFIX \<or> ends_with raw KLSO_MD_SUFFIX"

definition could_be_bundle :: "disk \<Rightarrow> string \<Rightarrow> bool" where
  "could_be_bundle dk p =
     (if dk_is_dir dk p
      then ends_with (path_name p) KLSO_SUFFIX \<and> dk_is_file dk (path_join p ''manifest.toml'')
      else if dk_is_file dk p
      then ends_with (path_name p) KLSO_MD_SUFFIX \<or> ends_with (path_name p) KLSO_TAR_SUFFIX
      else False)"

text \<open>The id a bundle's name carries: the longest suffix first.\<close>

definition bundle_id :: "string \<Rightarrow> string option" where
  "bundle_id name =
     (if ends_with name KLSO_TAR_SUFFIX then Some (remove_suffix name KLSO_TAR_SUFFIX)
      else if ends_with name KLSO_MD_SUFFIX then Some (remove_suffix name KLSO_MD_SUFFIX)
      else if ends_with name KLSO_SUFFIX then Some (remove_suffix name KLSO_SUFFIX)
      else None)"

definition scan_bundles :: "disk \<Rightarrow> string \<Rightarrow> (string \<times> string) list" where
  "scan_bundles dk p =
     (if \<not> dk_is_dir dk p then []
      else List.map_filter (\<lambda>name.
             if could_be_bundle dk (path_join p name)
             then map_option (\<lambda>i. (i, name)) (bundle_id name) else None)
           (sort (dk_names dk p)))"

section \<open>The catalog\<close>

record catalog_entry =
  ca_app_id :: string
  ca_path :: string
  ca_source :: string

definition repo_entries :: "disk \<Rightarrow> string \<times> repo \<Rightarrow> (string \<times> catalog_entry) list" where
  "repo_entries dk nr =
     (case nr of (name, r) \<Rightarrow>
       List.map (\<lambda>(i, rel). (i, \<lparr>ca_app_id = i, ca_path = path_join (repo_path r) rel, ca_source = name\<rparr>))
         (scan_bundles dk (repo_path r)))"

definition app_catalog :: "disk \<Rightarrow> config \<Rightarrow> (string, catalog_entry list) dict" where
  "app_catalog dk cfg =
     foldl (\<lambda>found (i, e). group_add i e found) [] (concat (List.map (repo_entries dk) (cfg_repos cfg)))"

definition entries_of :: "disk \<Rightarrow> config \<Rightarrow> string \<Rightarrow> catalog_entry list" where
  "entries_of dk cfg app = (case map_of (app_catalog dk cfg) app of None \<Rightarrow> [] | Some es \<Rightarrow> es)"

definition bundle_path :: "disk \<Rightarrow> config \<Rightarrow> string \<Rightarrow> find_error + string" where
  "bundle_path dk cfg app =
     (case entries_of dk cfg app of
        [] \<Rightarrow> Inl (NoAppFound app)
      | [e] \<Rightarrow> Inr (ca_path e)
      | _ \<Rightarrow> Inl (Ambiguous app))"

definition resolved_bundles :: "disk \<Rightarrow> config \<Rightarrow> (string, string) dict" where
  "resolved_bundles dk cfg =
     List.map_filter (\<lambda>(i, es). case es of [e] \<Rightarrow> Some (i, ca_path e) | _ \<Rightarrow> None) (app_catalog dk cfg)"

definition contested_app_ids :: "disk \<Rightarrow> config \<Rightarrow> (string, string list) dict" where
  "contested_app_ids dk cfg =
     List.map_filter (\<lambda>(i, es). if length es > 1 then Some (i, List.map ca_source es) else None)
       (app_catalog dk cfg)"

section \<open>Loaded apps\<close>

definition bundle_path_in_run :: "string \<Rightarrow> string" where
  "bundle_path_in_run run_path = path_join run_path ''app_bundle''"
definition manifest_path :: "string \<Rightarrow> string" where
  "manifest_path run_path = path_join (bundle_path_in_run run_path) ''manifest.toml''"
definition compose_path :: "string \<Rightarrow> string" where
  "compose_path run_path = path_join run_path ''compose.yml''"

definition is_loaded :: "disk \<Rightarrow> config \<Rightarrow> string \<Rightarrow> bool" where
  "is_loaded dk cfg app = dk_is_file dk (manifest_path (app_run_path cfg app))"

definition loaded_app_ids :: "disk \<Rightarrow> config \<Rightarrow> string list" where
  "loaded_app_ids dk cfg =
     (if \<not> dk_is_dir dk (run_root cfg) then []
      else List.filter (\<lambda>name. is_app_id name \<and> dk_is_file dk (manifest_path (path_join (run_root cfg) name)))
             (dk_names dk (run_root cfg)))"

text \<open>\<^verbatim>\<open>known_apps\<close>: the catalog's ids in order, then the loaded ones that are not in it.\<close>

definition known_apps :: "disk \<Rightarrow> config \<Rightarrow> find_error + string list" where
  "known_apps dk cfg =
     (let ids = keys (app_catalog dk cfg)
      in lift_id (traverse app_id
           (ids @ List.filter (\<lambda>i. i \<notin> set ids) (sort (remdups (loaded_app_ids dk cfg))))))"

definition without_repo :: "string \<Rightarrow> string" where
  "without_repo query = fst (partition_on (CHR ''@'') query)"

definition resolve_app_query :: "string list \<Rightarrow> string \<Rightarrow> string list" where
  "resolve_app_query candidates query =
     (let q = without_repo query; found = List.filter (\<lambda>a. a = q) candidates
      in if found \<noteq> [] then found else List.filter (\<lambda>a. app_stem a = q) candidates)"

definition resolve_app :: "disk \<Rightarrow> config \<Rightarrow> string \<Rightarrow> find_error + string" where
  "resolve_app dk cfg query =
     andthen (known_apps dk cfg) (\<lambda>candidates.
       case resolve_app_query candidates query of
         [] \<Rightarrow> Inl (NoAppFound query)
       | [app] \<Rightarrow> Inr app
       | _ \<Rightarrow> Inl (SeveralApps query))"

text \<open>
  Every id that has left a trace: in the catalog, as a run directory, in the containers' labels, in
  kelsodb and among the app stores.
\<close>

definition observed_app_ids ::
    "disk \<Rightarrow> config \<Rightarrow> string list \<Rightarrow> string list \<Rightarrow> string list \<Rightarrow> string list" where
  "observed_app_ids dk cfg containers db_ids config_ids =
     keys (app_catalog dk cfg)
     @ (if dk_is_dir dk (run_root cfg)
        then List.filter (\<lambda>n. dk_is_dir dk (path_join (run_root cfg) n)) (dk_names dk (run_root cfg)) else [])
     @ containers @ db_ids @ config_ids"

definition resolve_state_id :: "string list \<Rightarrow> string \<Rightarrow> find_error + string" where
  "resolve_state_id ids app =
     (let q = without_repo app
      in if q \<in> set ids then Inr q
         else (case sort (remdups (List.filter (\<lambda>i. last (split_on (CHR ''.'') i) = q) ids)) of
                 [] \<Rightarrow> Inl (NoAppState app)
               | [i] \<Rightarrow> Inr i
               | _ \<Rightarrow> Inl (SeveralApps app)))"

text \<open>
  \<^verbatim>\<open>KelsoCtx.app_option\<close>: as configured, else the loaded manifest's default, else kelso's. The spec
  is \<open>None\<close> when there is no loaded copy or it does not parse.
\<close>

definition ctx_app_option ::
    "'s run_ctx \<Rightarrow> app_spec option \<Rightarrow> string \<Rightarrow> string \<Rightarrow> layout_error + string" where
  "ctx_app_option ctx spec app name =
     andthen (lift_store (andthen (get_config (rx_ops ctx) (rx_crypto ctx) (rx_app ctx) name) stored_pair)) (\<lambda>stored.
     andthen (case stored of
         Some (flag, v) \<Rightarrow> Inr (Some v)
       | None \<Rightarrow> (case spec of None \<Rightarrow> Inr None
                  | Some s \<Rightarrow> andthen (lookup name (sp_config s)) (\<lambda>c. Inr (ac_default c)))) (\<lambda>value.
       case value of
         Some (c # cs) \<Rightarrow> Inr (c # cs)
       | _ \<Rightarrow> andthen (lookup name APP_OPTIONS) (\<lambda>opt. Inr (opt_default opt app))))"

section \<open>What a query finds\<close>

lemma traverse_app_id: "traverse app_id ids = Inr out \<Longrightarrow> out = ids"
  by (induction ids arbitrary: out) (auto split: sum.splits)

lemma traverse_first_error: "x \<in> set xs \<Longrightarrow> f x = Inl e \<Longrightarrow> \<exists>e'. traverse f xs = Inl e'"
  by (induction xs) (auto split: sum.splits)

lemma app_catalog_distinct: "distinct (keys (app_catalog dk cfg))"
  unfolding app_catalog_def by (rule distinct_groups)

lemma known_apps_Inr:
  assumes "known_apps dk cfg = Inr ids"
  shows "distinct ids" and "set (keys (app_catalog dk cfg)) \<subseteq> set ids" and "set (loaded_app_ids dk cfg) \<subseteq> set ids"
proof -
  let ?cat = "keys (app_catalog dk cfg)"
  have "ids = ?cat @ List.filter (\<lambda>i. i \<notin> set ?cat) (sort (remdups (loaded_app_ids dk cfg)))"
    using assms by (auto simp: known_apps_def lift_id_def Let_def dest: traverse_app_id split: sum.splits)
  then show "distinct ids" "set ?cat \<subseteq> set ids" "set (loaded_app_ids dk cfg) \<subseteq> set ids"
    using app_catalog_distinct [of dk cfg] by auto
qed

lemma filter_eq_singleton: "distinct xs \<Longrightarrow> x \<in> set xs \<Longrightarrow> List.filter (\<lambda>a. a = x) xs = [x]"
  by (induction xs) (auto simp: filter_empty_conv)

lemma resolve_app_query_exact:
  "distinct ids \<Longrightarrow> without_repo q \<in> set ids \<Longrightarrow> resolve_app_query ids q = [without_repo q]"
  by (simp add: resolve_app_query_def filter_eq_singleton)

lemma resolve_app_query_stem:
  "without_repo q \<notin> set ids \<Longrightarrow> resolve_app_query ids q = List.filter (\<lambda>a. app_stem a = without_repo q) ids"
  by (auto simp: resolve_app_query_def filter_empty_conv)

section \<open>Properties\<close>

text \<open>What an operator types for an app, with or without \<^verbatim>\<open>@repo\<close>, is resolved to the id it spells
  whenever there is such an id, even one that is loaded and in no repo; otherwise to the only
  known id with that last component, and to nothing when there are several or none.\<close>

lemma resolve_app_finds:
  assumes "known_apps dk cfg = Inr ids"
  shows "(\<forall>app. resolve_app dk cfg q = Inr app \<longleftrightarrow>
      app \<in> set ids \<and> (app = without_repo q \<or>
        (without_repo q \<notin> set ids \<and> app_stem app = without_repo q \<and>
          (\<forall>other \<in> set ids. app_stem other = without_repo q \<longrightarrow> other = app)))) \<and>
    set (loaded_app_ids dk cfg) \<union> set (keys (app_catalog dk cfg)) \<subseteq> set ids"
proof (intro conjI allI)
  note known = known_apps_Inr [OF assms]
  fix app
  show "resolve_app dk cfg q = Inr app \<longleftrightarrow>
      app \<in> set ids \<and> (app = without_repo q \<or>
        (without_repo q \<notin> set ids \<and> app_stem app = without_repo q \<and>
          (\<forall>other \<in> set ids. app_stem other = without_repo q \<longrightarrow> other = app)))"
  proof (cases "without_repo q \<in> set ids")
    case True
    then have "resolve_app dk cfg q = Inr (without_repo q)"
      using resolve_app_query_exact [OF known(1) True] by (simp add: resolve_app_def assms)
    with True show ?thesis by auto
  next
    case False
    let ?f = "List.filter (\<lambda>a. app_stem a = without_repo q) ids"
    have r: "resolve_app dk cfg q = (case ?f of [] \<Rightarrow> Inl (NoAppFound q) | [app] \<Rightarrow> Inr app | _ \<Rightarrow> Inl (SeveralApps q))"
      using resolve_app_query_stem [OF False] by (simp add: resolve_app_def assms)
    have in_f: "a \<in> set ?f \<longleftrightarrow> a \<in> set ids \<and> app_stem a = without_repo q" for a by auto
    have d: "distinct ?f" using known(1) by simp
    show ?thesis
    proof (cases ?f)
      case Nil
      then have "a \<in> set ids \<Longrightarrow> app_stem a \<noteq> without_repo q" for a using in_f by (metis empty_iff list.set(1))
      with Nil False show ?thesis by (auto simp: r)
    next
      case (Cons x xs)
      show ?thesis
      proof (cases xs)
        case Nil
        with Cons have "a \<in> set ids \<and> app_stem a = without_repo q \<longleftrightarrow> a = x" for a using in_f [of a] by auto
        with Cons Nil False show ?thesis unfolding r by auto
      next
        case (Cons y ys)
        with \<open>?f = x # xs\<close> d have "x \<noteq> y" "x \<in> set ?f" "y \<in> set ?f" by auto
        then have "\<not> (\<forall>other \<in> set ids. app_stem other = without_repo q \<longrightarrow> other = app)"
          using in_f by metis
        with Cons \<open>?f = x # xs\<close> False show ?thesis unfolding r by auto
      qed
    qed
  qed
next
  show "set (loaded_app_ids dk cfg) \<union> set (keys (app_catalog dk cfg)) \<subseteq> set ids"
    using known_apps_Inr [OF assms] by blast
qed

text \<open>A disk with one repo of the given bundles.\<close>

definition demo_disk :: "string list \<Rightarrow> disk" where
  "demo_disk names =
     \<lparr>dk_is_dir = (\<lambda>p. p \<in> set (''/r'' # List.map (\<lambda>n. ''/r/'' @ n) names)),
      dk_is_file = (\<lambda>p. p \<in> set (List.map (\<lambda>n. ''/r/'' @ n @ ''/manifest.toml'') names)),
      dk_names = (\<lambda>p. if p = ''/r'' then names else [])\<rparr>"

definition demo_repos :: config where
  "demo_repos = demo_machine\<lparr>cfg_repos := [(''local'', \<lparr>repo_name = ''local'', repo_path = ''/r'',
     repo_kind_of = LocalRepo, repo_remote = None, repo_checkout = None\<rparr>)]\<rparr>"

lemmas demo_disk_eval = demo_disk_def demo_repos_def app_catalog_def repo_entries_def scan_bundles_def
  could_be_bundle_def path_join_def starts_with_def ends_with_def path_name_def KLSO_SUFFIX_def
  KLSO_MD_SUFFIX_def KLSO_TAR_SUFFIX_def bundle_id_def remove_suffix_def map_filter_simps group_add_def

lemma demo_catalog_keys:
  "keys (app_catalog (demo_disk [''a.b.klso'']) demo_repos) = [''a.b'']"
  "keys (app_catalog (demo_disk [''my app.klso'']) demo_repos) = [''my app'']"
  by (simp_all add: demo_disk_eval)

lemma demo_known: "known_apps (demo_disk [''a.b.klso'']) demo_repos = Inr [''a.b'']"
proof -
  have "loaded_app_ids (demo_disk [''a.b.klso'']) demo_repos = []"
    by (simp add: loaded_app_ids_def demo_disk_def demo_repos_def run_root_def var_root_def demo_machine_def
        path_join_def starts_with_def ends_with_def)
  moreover have id: "app_id ''a.b'' = Inr ''a.b''"
    by (simp add: is_app_id_def is_identifier_def IDENTIFIER_MAX_LEN_def ident_char_def char_class_defs)
  ultimately show ?thesis by (simp add: known_apps_def demo_catalog_keys lift_id_def id)
qed

lemma resolve_app_finds_witness:
  "resolve_app (demo_disk [''a.b.klso'']) demo_repos ''b@local'' = Inr ''a.b''"
proof -
  have "app_stem ''a.b'' = ''b''" "without_repo ''b@local'' = ''b''"
    by (simp_all add: app_stem_def app_parts_def without_repo_def partition_on_def)
  with resolve_app_finds [OF demo_known, of "''b@local''"] show ?thesis by simp
qed

text \<open>One bundle in a repo whose name is not an app id stops every resolution: whatever id is asked
  for, also that of a loaded app, the answer is the bad name's error.\<close>

lemma badly_named_bundle_stops_resolution:
  assumes "bad \<in> set (keys (app_catalog dk cfg))" and "\<not> is_app_id bad"
  shows "\<exists>e. resolve_app dk cfg q = Inl (BadAppId e)"
proof -
  have "\<exists>e. app_id bad = Inl e" using assms(2) is_error_cases [of "app_id bad"] by auto
  with assms(1) obtain e where "traverse app_id (keys (app_catalog dk cfg) @
      List.filter (\<lambda>i. i \<notin> set (keys (app_catalog dk cfg))) (sort (remdups (loaded_app_ids dk cfg)))) = Inl e"
    using traverse_first_error [of bad] by (metis UnI1 set_append)
  then show ?thesis by (simp add: resolve_app_def known_apps_def lift_id_def Let_def)
qed

lemma badly_named_bundle_stops_resolution_witness:
  "\<exists>e. resolve_app (demo_disk [''my app.klso'']) demo_repos ''org.demo'' = Inl (BadAppId e)"
  by (rule badly_named_bundle_stops_resolution [of "''my app''"])
    (simp_all only: demo_catalog_keys,
     simp_all add: is_app_id_def is_identifier_def IDENTIFIER_MAX_LEN_def ident_char_def char_class_defs)

end
