(* ===== verification/Secrets.thy ===== *)
theory Secrets
  imports Config Logtab
begin

text \<open>
  \<^verbatim>\<open>kelso/lib/secrets.py\<close>: a secret generated from the pattern its manifest gives. The random source
  is a parameter: \<open>rand n\<close> is the number its draw \<open>n\<close> gives, taken modulo the alphabet.
\<close>

datatype secret_error =
    NotGenerable
  | UnknownDirective string
  | NotALength string

definition ASCII_LETTERS :: string where
  "ASCII_LETTERS = ''abcdefghijklmnopqrstuvwxyzABCDEFGHIJKLMNOPQRSTUVWXYZ''"
definition DIGITS :: string where "DIGITS = ''0123456789''"
definition PUNCTUATION :: string where
  "PUNCTUATION = List.map char_of ([33..<48] @ [58..<65] @ [91..<97] @ [123..<127] :: nat list)"

definition ALNUM :: string where "ALNUM = ASCII_LETTERS @ DIGITS"
definition PASSWORD :: string where "PASSWORD = ASCII_LETTERS @ DIGITS @ PUNCTUATION"
definition HEX :: string where "HEX = DIGITS @ ''abcdef''"

definition DEFAULT_PASS_LENGTH :: int where "DEFAULT_PASS_LENGTH = 16"
definition DEFAULT_HEX_LENGTH :: int where "DEFAULT_HEX_LENGTH = 16"

text \<open>\<^verbatim>\<open>_DIRECTIVE_SPLIT.split\<close>: the text between directives, and what each pair of braces holds.\<close>

datatype segment = Literal string | Directive string

function segments :: "string \<Rightarrow> segment list" where
  "segments [] = []"
| "segments (c # cs) =
     (if c = CHR ''{'' \<and> CHR ''}'' \<in> set cs
      then Directive (takeWhile (\<lambda>x. x \<noteq> CHR ''}'') cs)
           # segments (drop 1 (dropWhile (\<lambda>x. x \<noteq> CHR ''}'') cs))
      else (case segments cs of
              Literal t # ss \<Rightarrow> Literal (c # t) # ss
            | ss \<Rightarrow> Literal [c] # ss))"
  by pat_completeness auto
termination
  by (relation "measure length") (auto simp: less_Suc_eq_le length_dropWhile_le le_diff_conv intro: le_trans [OF length_dropWhile_le])

text \<open>Python's \<open>int(s)\<close>: surrounding space, a sign, digits with single underscores between them.\<close>

definition int_literal :: "string \<Rightarrow> int option" where
  "int_literal v =
     (let t = strip v;
          signed = t \<noteq> [] \<and> (hd t = CHR ''-'' \<or> hd t = CHR ''+'');
          body = (if signed then tl t else t);
          n = int (nat_of_str (List.filter (\<lambda>c. c \<noteq> CHR ''_'') body))
      in if list_all str_isdigit (split_on (CHR ''_'') body)
         then Some (if signed \<and> hd t = CHR ''-'' then - n else n) else None)"

text \<open>One directive: the alphabet it draws from and how many times.\<close>

definition expand_directive :: "string \<Rightarrow> secret_error + string \<times> nat" where
  "expand_directive d =
     (let parts = split_on (CHR '':'') (strip d);
          keyword = hd parts;
          arg = (if length parts > 1 then parts ! 1 else []);
          draw = (\<lambda>alphabet default.
            if arg = [] then Inr (alphabet, nat default)
            else (case int_literal arg of
                    None \<Rightarrow> Inl (NotALength arg)
                  | Some n \<Rightarrow> Inr (alphabet, nat n)))
      in if keyword = ''alnum'' then draw ALNUM DEFAULT_PASS_LENGTH
         else if keyword = ''password'' then draw PASSWORD DEFAULT_PASS_LENGTH
         else if keyword = ''hex'' then draw HEX DEFAULT_HEX_LENGTH
         else Inl (UnknownDirective keyword))"

definition choices :: "(nat \<Rightarrow> nat) \<Rightarrow> nat \<Rightarrow> string \<Rightarrow> nat \<Rightarrow> string" where
  "choices rand n alphabet len = List.map (\<lambda>i. alphabet ! (rand (n + i) mod length alphabet)) [0..<len]"

fun render_segments :: "(nat \<Rightarrow> nat) \<Rightarrow> nat \<Rightarrow> segment list \<Rightarrow> secret_error + string" where
  "render_segments rand n [] = Inr []"
| "render_segments rand n (Literal t # ss) =
     andthen (render_segments rand n ss) (\<lambda>rest. Inr (t @ rest))"
| "render_segments rand n (Directive d # ss) =
     andthen (expand_directive d) (\<lambda>(alphabet, len).
     andthen (render_segments rand (n + len) ss) (\<lambda>rest. Inr (choices rand n alphabet len @ rest)))"

definition generate_secret :: "(nat \<Rightarrow> nat) \<Rightarrow> nat \<Rightarrow> string \<Rightarrow> secret_error + string" where
  "generate_secret rand n pattern =
     andthen (render_segments rand n (segments (if pattern = ''auto'' then ''{alnum:32}'' else pattern)))
       (\<lambda>s. if s = pattern then Inl NotGenerable else Inr s)"

text \<open>A \<^verbatim>\<open>SecretGenerationError\<close>, as against the plain \<^verbatim>\<open>ValueError\<close> of \<^verbatim>\<open>int()\<close>.\<close>

fun is_generation_error :: "secret_error \<Rightarrow> bool" where
  "is_generation_error (NotALength arg) = False"
| "is_generation_error _ = True"

section \<open>What a generated secret looks like\<close>

text \<open>A string of the shape a pattern asks for: its literal text, and runs of its alphabets.\<close>

fun shaped :: "segment list \<Rightarrow> string \<Rightarrow> bool" where
  "shaped [] s \<longleftrightarrow> s = []"
| "shaped (Literal t # ss) s \<longleftrightarrow> (\<exists>rest. s = t @ rest \<and> shaped ss rest)"
| "shaped (Directive d # ss) s \<longleftrightarrow>
     (\<exists>alphabet len run rest. expand_directive d = Inr (alphabet, len) \<and> s = run @ rest \<and>
        length run = len \<and> set run \<subseteq> set alphabet \<and> shaped ss rest)"

lemma choices_length [simp]: "length (choices rand n alphabet len) = len"
  by (simp add: choices_def)

lemma choices_set: "alphabet \<noteq> [] \<Longrightarrow> set (choices rand n alphabet len) \<subseteq> set alphabet"
  by (auto simp: choices_def)

lemma expand_directive_alphabet: "expand_directive d = Inr (alphabet, len) \<Longrightarrow> alphabet \<noteq> []"
  by (auto simp: expand_directive_def Let_def ALNUM_def PASSWORD_def HEX_def ASCII_LETTERS_def DIGITS_def
      split: if_splits option.splits)

lemma render_segments_shaped: "render_segments rand n ss = Inr s \<Longrightarrow> shaped ss s"
proof (induction rand n ss arbitrary: s rule: render_segments.induct)
  case (3 rand n d ss)
  then obtain alphabet len rest where r: "expand_directive d = Inr (alphabet, len)"
      "render_segments rand (n + len) ss = Inr rest" "s = choices rand n alphabet len @ rest"
    by (auto simp: andthen_Inr)
  have "shaped ss rest" using 3(1) [OF r(1) refl r(2)] by simp
  with r(1,3) choices_set [OF expand_directive_alphabet [OF r(1)]] show ?case by force
qed (auto simp: andthen_Inr)

text \<open>The text of a pattern, put back together.\<close>

fun segment_text :: "segment \<Rightarrow> string" where
  "segment_text (Literal t) = t"
| "segment_text (Directive d) = ''{'' @ d @ ''}''"

lemma render_no_directive:
  "\<forall>s \<in> set ss. \<exists>t. s = Literal t \<Longrightarrow> render_segments rand n ss = Inr (concat (List.map segment_text ss))"
  by (induction ss) auto

lemma takeWhile_close: "c \<in> set s \<Longrightarrow> takeWhile (\<lambda>x. x \<noteq> c) s @ c # drop 1 (dropWhile (\<lambda>x. x \<noteq> c) s) = s"
  by (induction s) auto

lemma segments_text: "concat (List.map segment_text (segments s)) = s"
proof (induction s rule: segments.induct)
  case (2 c cs)
  show ?case
  proof (cases "c = CHR ''{'' \<and> CHR ''}'' \<in> set cs")
    case True
    with 2(1) takeWhile_close [of "CHR ''}''" cs] show ?thesis by simp
  next
    case False
    with 2(2) show ?thesis by (auto split: list.splits segment.splits)
  qed
qed simp

section \<open>Properties\<close>

text \<open>A generated secret has the shape its pattern asks for (\<^verbatim>\<open>auto\<close> asks for 32 letters and digits)
  and is never the pattern itself; a pattern without a directive, which is a secret written into
  the manifest, is refused whatever the random source gives.\<close>

lemma generated_secret_shape:
  "(generate_secret rand n pattern = Inr s \<longrightarrow> s \<noteq> pattern \<and>
     shaped (segments (if pattern = ''auto'' then ''{alnum:32}'' else pattern)) s) \<and>
   (generate_secret rand n ''auto'' = Inr s \<longrightarrow> length s = 32 \<and> set s \<subseteq> set ALNUM) \<and>
   (pattern \<noteq> ''auto'' \<and> (\<forall>x \<in> set (segments pattern). \<exists>t. x = Literal t) \<longrightarrow>
     generate_secret rand n pattern = Inl NotGenerable)"
proof (intro conjI impI)
  assume "generate_secret rand n pattern = Inr s"
  then show "s \<noteq> pattern" "shaped (segments (if pattern = ''auto'' then ''{alnum:32}'' else pattern)) s"
    by (auto simp: generate_secret_def andthen_Inr simp del: segments.simps dest: render_segments_shaped split: if_splits)
next
  assume "generate_secret rand n ''auto'' = Inr s"
  then have "render_segments rand n (segments ''{alnum:32}'') = Inr s"
    by (auto simp: generate_secret_def andthen_Inr simp del: segments.simps split: if_splits)
  then have sh: "shaped (segments ''{alnum:32}'') s" by (rule render_segments_shaped)
  have seg: "segments ''{alnum:32}'' = [Directive ''alnum:32'']" by simp
  have "expand_directive ''alnum:32'' = Inr (ALNUM, 32)" by code_simp
  with sh show "length s = 32" "set s \<subseteq> set ALNUM" unfolding seg by auto
next
  assume a: "pattern \<noteq> ''auto'' \<and> (\<forall>x \<in> set (segments pattern). \<exists>t. x = Literal t)"
  then have "render_segments rand n (segments pattern) = Inr pattern"
    using render_no_directive [of "segments pattern" rand n] a by (simp add: segments_text)
  with a show "generate_secret rand n pattern = Inl NotGenerable" by (simp add: generate_secret_def)
qed

lemma generated_secret_shape_witness:
  "generate_secret (\<lambda>_. 0) 0 ''hunter2'' = Inl NotGenerable"
proof -
  have "\<forall>x \<in> set (segments ''hunter2''). \<exists>t. x = Literal t" by simp
  with generated_secret_shape [of "\<lambda>_. 0" 0 "''hunter2''"] show ?thesis by simp
qed

text \<open>A directive whose length is no number is not one of the errors the load passes over: it is the
  plain error that stops it, after the new copy is in place.\<close>

theorem bad_length_is_not_a_generation_error:
  "generate_secret rand n ''{hex:ten}'' = Inl (NotALength ''ten'') \<and> \<not> is_generation_error (NotALength ''ten'')"
proof -
  have "expand_directive ''hex:ten'' = Inl (NotALength ''ten'')" by code_simp
  then show ?thesis by (simp add: generate_secret_def)
qed



end
