(* ===== verification/Load.thy ===== *)
theory Load
  imports Kelso Routes Secrets
begin

text \<open>
  \<^verbatim>\<open>kelso/lib/lifecycle/load.py\<close>: bringing a bundle into its run directory. Every step may raise
  after it changed something, so an operation is a function from the state to its result and the
  state it leaves behind, whether it raised or not.
\<close>

section \<open>The state of a load\<close>

text \<open>
  A run directory: the copies of a bundle in it, \<open>'b\<close>, the links under \<^verbatim>\<open>volumes/<kind>/<name>\<close> in
  the order a listing gives them, the unit scripts, and the compose file.
\<close>

record 'b run_dir =
  rn_exists :: bool
  rn_incoming :: "'b option"
  rn_outgoing :: "'b option"
  rn_bundle :: "'b option"
  rn_links :: "((string \<times> string) \<times> string) list"
  rn_kelso :: "(string, string) dict"
  rn_compose :: "json option"

record ('s, 'w, 'b) load_state =
  ld_ctx :: "'s run_ctx"
  ld_nonce :: nat
  ld_run :: "'b run_dir"
  ld_providers :: 'w
  ld_actions :: "(string \<times> string) list"

datatype load_error =
    LoadStore store_error
  | LoadLayout layout_error
  | LoadFind find_error
  | NotValidBundle string
  | BadManifest "manifest_problem list + spec_error"
  | StillRunning nat
  | DataWithoutConfig
  | VersionChange string string
  | NeedsSubdomain
  | LoadBlocked "config_issue list"
  | KindChanged string string string
  | VolumeSourceMissing string
  | UnknownConfig string
  | EmptyConfigValue string
  | BadSecretPattern string
  | BadOption string option_error
  | UnknownRoute string
  | BadProviders provider_error
  | UnknownProvider string
  | UnknownVolume string
  | NotAHostVolume string
  | UnknownHostTag string
  | ReadonlyHostVolume string
  | HostPathGone string
  | HostNotMounted string
  | BoundElsewhere string string

text \<open>
  What is outside \<^verbatim>\<open>src/\<close>: the contents of a bundle (\<open>en_open\<close>, a bundle at a path read into
  memory), its manifest as the TOML parser gives it, the numbers the random
  source draws, the providers, and whether two paths are one file (\<open>same_path\<close>).
\<close>

record ('w, 'b) load_env =
  en_open :: "string \<Rightarrow> load_error + 'b"
  en_manifest :: "'b \<Rightarrow> load_error + manifest"
  en_rand :: "nat \<Rightarrow> nat"
  en_ops :: "'w provider_ops"
  en_same_file :: "string \<Rightarrow> string \<Rightarrow> bool"

definition spec_of :: "('w, 'b) load_env \<Rightarrow> string \<Rightarrow> 'b \<Rightarrow> load_error + app_spec" where
  "spec_of env app b =
     andthen (en_manifest env b) (\<lambda>m.
       case spec_from_manifest m app of Inl e \<Rightarrow> Inl (BadManifest e) | Inr s \<Rightarrow> Inr s)"

section \<open>Reaching the stores\<close>

definition upd_ctx :: "('s run_ctx \<Rightarrow> 's run_ctx) \<Rightarrow> ('s, 'w, 'b) load_state \<Rightarrow> ('s, 'w, 'b) load_state" where
  "upd_ctx f st = st\<lparr>ld_ctx := f (ld_ctx st)\<rparr>"

definition on_app ::
    "('s store_ops \<Rightarrow> crypto_engine \<Rightarrow> nat \<Rightarrow> 's \<Rightarrow> store_error + 's)
       \<Rightarrow> (('s, 'w, 'b) load_state, load_error, unit) act" where
  "on_app f st =
     (case f (rx_ops (ld_ctx st)) (rx_crypto (ld_ctx st)) (ld_nonce st) (rx_app (ld_ctx st)) of
        Inl e \<Rightarrow> (Inl (LoadStore e), st)
      | Inr s \<Rightarrow> (Inr (), (upd_ctx (rx_app_update (\<lambda>_. s)) st)\<lparr>ld_nonce := Suc (ld_nonce st)\<rparr>))"

definition on_db ::
    "('s store_ops \<Rightarrow> 's \<Rightarrow> store_error + 's) \<Rightarrow> (('s, 'w, 'b) load_state, load_error, unit) act" where
  "on_db f st =
     (case f (rx_ops (ld_ctx st)) (rx_db (ld_ctx st)) of
        Inl e \<Rightarrow> (Inl (LoadStore e), st)
      | Inr s \<Rightarrow> (Inr (), upd_ctx (rx_db_update (\<lambda>_. s)) st))"

definition lift_load :: "store_error + 'a \<Rightarrow> load_error + 'a" where
  "lift_load r = (case r of Inl e \<Rightarrow> Inl (LoadStore e) | Inr x \<Rightarrow> Inr x)"

definition lift_layout :: "layout_error + 'a \<Rightarrow> load_error + 'a" where
  "lift_layout r = (case r of Inl e \<Rightarrow> Inl (LoadLayout e) | Inr x \<Rightarrow> Inr x)"

definition ask_app ::
    "('s store_ops \<Rightarrow> 's \<Rightarrow> store_error + 'a) \<Rightarrow> (('s, 'w, 'b) load_state, load_error, 'a) act" where
  "ask_app f = askA (\<lambda>st. lift_load (f (rx_ops (ld_ctx st)) (rx_app (ld_ctx st))))"

section \<open>The run directory\<close>

text \<open>
  \<^verbatim>\<open>_load_incoming\<close> clears both scratch names before it extracts; the two renames of
  \<^verbatim>\<open>_commit_incoming\<close>; \<^verbatim>\<open>_discard_incoming\<close> also drops a run directory it leaves empty.
\<close>

definition load_incoming :: "('w, 'b) load_env \<Rightarrow> string \<Rightarrow> (('s, 'w, 'b) load_state, load_error, 'b) act" where
  "load_incoming env source =
     bindA (askA (\<lambda>st. en_open env source)) (\<lambda>b.
     bindA (update (\<lambda>st. st\<lparr>ld_run := (ld_run st)\<lparr>rn_incoming := Some b, rn_outgoing := None\<rparr>\<rparr>)) (\<lambda>_.
     ret b))"

definition commit_incoming :: "'b run_dir \<Rightarrow> 'b run_dir" where
  "commit_incoming rd = rd\<lparr>rn_bundle := rn_incoming rd, rn_incoming := None, rn_outgoing := None\<rparr>"

definition run_dir_empty :: "'b run_dir \<Rightarrow> bool" where
  "run_dir_empty rd \<longleftrightarrow> rn_incoming rd = None \<and> rn_outgoing rd = None \<and> rn_bundle rd = None \<and>
     rn_links rd = [] \<and> rn_kelso rd = [] \<and> rn_compose rd = None"

definition discard_incoming :: "'b run_dir \<Rightarrow> 'b run_dir" where
  "discard_incoming rd =
     (let rd' = rd\<lparr>rn_incoming := None\<rparr>
      in if run_dir_empty rd' then rd'\<lparr>rn_exists := False\<rparr> else rd')"

definition on_run :: "('b run_dir \<Rightarrow> 'b run_dir) \<Rightarrow> ('s, 'w, 'b) load_state \<Rightarrow> ('s, 'w, 'b) load_state" where
  "on_run f st = st\<lparr>ld_run := f (ld_run st)\<rparr>"

section \<open>Config, routes and binds\<close>

text \<open>
  \<^verbatim>\<open>_generate_missing_config\<close>: one entry. A pattern that generates no secret is logged and passed
  over; the \<^verbatim>\<open>ValueError\<close> of a bad length is not.
\<close>

definition generate_config ::
    "('w, 'b) load_env \<Rightarrow> string \<times> app_config \<Rightarrow> (('s, 'w, 'b) load_state, load_error, unit) act" where
  "generate_config env nc =
     (case nc of (name, c) \<Rightarrow> case ac_default c of
        None \<Rightarrow> ret ()
      | Some dflt \<Rightarrow>
          bindA (ask_app (\<lambda>ops s. has_config ops s name)) (\<lambda>present.
            if present then ret ()
            else bindA (askA (\<lambda>st. Inr (ld_nonce st))) (\<lambda>n.
              case (if ac_secret c then generate_secret (en_rand env) n dflt else Inr dflt) of
                Inr v \<Rightarrow> on_app (\<lambda>ops cr k s. set_config ops cr k s name (ac_secret c) v)
              | Inl e \<Rightarrow> if is_generation_error e then ret () else raise (BadSecretPattern name))))"

definition generate_missing_config ::
    "('w, 'b) load_env \<Rightarrow> app_spec \<Rightarrow> (('s, 'w, 'b) load_state, load_error, unit) act" where
  "generate_missing_config env spec = eachA (generate_config env) (sp_config spec)"

definition host_port_for ::
    "app_route \<Rightarrow> ('s, 'w, 'b) load_state \<Rightarrow> load_error + int" where
  "host_port_for r st =
     (if needs_allocation r
      then lift_load (next_free_port (rx_ops (ld_ctx st)) (cfg_port_base (rx_config (ld_ctx st))) (rx_db (ld_ctx st)))
      else Inr (ar_host_port r))"

definition allocated ::
    "string \<Rightarrow> string \<times> app_route \<Rightarrow> int \<Rightarrow> string list option \<Rightarrow> assigned_route" where
  "allocated app_subdomain nr port tags =
     (case nr of (name, r) \<Rightarrow>
        \<lparr>asg_name = name, asg_subdomain = route_subdomain r app_subdomain,
         asg_run_unit_name = ar_run_unit_name r, asg_host_port = port,
         asg_container_port = ar_container_port r, asg_proto = proto_name (ar_proto r),
         asg_scheme = scheme_name (ar_scheme r),
         asg_providers = (case tags of None \<Rightarrow> [] | Some ts \<Rightarrow> ts)\<rparr>)"

definition allocate_route ::
    "string \<Rightarrow> string \<Rightarrow> string \<times> app_route \<Rightarrow> (('s, 'w, 'b) load_state, load_error, unit) act" where
  "allocate_route app app_subdomain nr =
     bindA (askA (host_port_for (snd nr))) (\<lambda>port.
     bindA (ask_app (\<lambda>ops s. get_route_assignment ops s (fst nr))) (\<lambda>tags.
     on_db (\<lambda>ops s. set_route ops s app (fst nr) (route_record (allocated app_subdomain nr port tags)))))"

definition clear_and_reallocate_ports :: "app_spec \<Rightarrow> (('s, 'w, 'b) load_state, load_error, unit) act" where
  "clear_and_reallocate_ports spec =
     (if sp_network_mode spec = HostNetwork \<or> sp_routes spec = [] then ret ()
      else bindA (askA (\<lambda>st. lift_layout (resolved_subdomain spec (ld_ctx st)))) (\<lambda>sub.
        case sub of
          Some (c # cs) \<Rightarrow>
            bindA (on_db (\<lambda>ops s. clear_routes ops s (sp_app spec))) (\<lambda>_.
              eachA (allocate_route (sp_app spec) (c # cs)) (sp_routes spec))
        | _ \<Rightarrow> raise NeedsSubdomain))"

definition default_assignment ::
    "string \<times> app_route \<Rightarrow> (('s, 'w, 'b) load_state, load_error, unit) act" where
  "default_assignment nr =
     bindA (ask_app (\<lambda>ops s. has_route_assignment ops s (fst nr))) (\<lambda>present.
       if present \<or> ar_private (snd nr) then ret ()
       else bindA (askA (\<lambda>st. Inr (cfg_default_route_provider (rx_config (ld_ctx st))))) (\<lambda>dflt.
         on_app (\<lambda>ops cr k s. set_route_assignment ops s (fst nr)
           (if dflt = NONE_ROUTE_PROVIDER_TAG then [] else [dflt]))))"

definition apply_default_route_assignments :: "app_spec \<Rightarrow> (('s, 'w, 'b) load_state, load_error, unit) act" where
  "apply_default_route_assignments spec = eachA default_assignment (sp_routes spec)"

definition apply_config_set ::
    "app_spec \<Rightarrow> string \<times> string \<Rightarrow> (('s, 'w, 'b) load_state, load_error, unit) act" where
  "apply_config_set spec nv =
     (case nv of (name, value) \<Rightarrow> case map_of (sp_config spec) name of
        None \<Rightarrow> raise (UnknownConfig name)
      | Some c \<Rightarrow>
          if value = [] then raise (EmptyConfigValue name)
          else (case validate_option name value of
                  Inl e \<Rightarrow> raise (BadOption name e)
                | Inr _ \<Rightarrow> on_app (\<lambda>ops cr k s. set_config ops cr k s name (ac_secret c) value)))"

definition apply_config_sets ::
    "app_spec \<Rightarrow> (string \<times> string) list \<Rightarrow> (('s, 'w, 'b) load_state, load_error, unit) act" where
  "apply_config_sets spec sets = eachA (apply_config_set spec) sets"

definition check_bind :: "app_spec \<Rightarrow> string \<Rightarrow> string \<Rightarrow> 's run_ctx \<Rightarrow> load_error + unit" where
  "check_bind spec volname tag ctx =
     (case map_of (sp_volumes spec) volname of
        None \<Rightarrow> Inl (UnknownVolume volname)
      | Some v \<Rightarrow>
          if av_kind v \<noteq> HostKind then Inl (NotAHostVolume volname)
          else (case map_of (cfg_host_volumes (rx_config ctx)) tag of
                  None \<Rightarrow> Inl (UnknownHostTag tag)
                | Some hv \<Rightarrow>
                    if hv_readonly hv \<and> \<not> av_readonly v then Inl (ReadonlyHostVolume volname)
                    else if \<not> fs_exists (rx_fs ctx) (hv_path hv) then Inl (HostPathGone (hv_path hv))
                    else if hv_require_mount hv \<and> \<not> fs_is_mount (rx_fs ctx) (hv_path hv)
                    then Inl (HostNotMounted (hv_path hv)) else Inr ()))"

definition bind_host_volume ::
    "app_spec \<Rightarrow> string \<times> string \<Rightarrow> (('s, 'w, 'b) load_state, load_error, unit) act" where
  "bind_host_volume spec vt =
     bindA (askA (\<lambda>st. check_bind spec (fst vt) (snd vt) (ld_ctx st))) (\<lambda>_.
       on_app (\<lambda>ops cr k s. set_bind ops s (fst vt) (snd vt)))"

section \<open>Links, scripts and the compose file\<close>

definition existing_volume_kinds :: "'b run_dir \<Rightarrow> (string, string) dict" where
  "existing_volume_kinds rd = dict_merge [] (List.map (\<lambda>((kind, name), target). (name, kind)) (rn_links rd))"

definition check_kinds :: "app_spec \<Rightarrow> (string, string) dict \<Rightarrow> load_error + unit" where
  "check_kinds spec existing =
     andthen (traverse (\<lambda>(name, kind). case map_of (sp_volumes spec) name of
         None \<Rightarrow> Inr ()
       | Some v \<Rightarrow> if kind_name (av_kind v) \<noteq> kind
                   then Inl (KindChanged name kind (kind_name (av_kind v))) else Inr ()) existing)
       (\<lambda>_. Inr ())"

definition make_dir :: "string \<Rightarrow> fs_view \<Rightarrow> fs_view" where
  "make_dir path fs = fs\<lparr>fs_exists := (\<lambda>p. p = path \<or> fs_exists fs p)\<rparr>"

text \<open>One link of the rebuilt tree. \<^verbatim>\<open>host\<close> volumes are linked when the app starts.\<close>

definition rebuild_link ::
    "app_spec \<Rightarrow> string \<times> volume_link \<Rightarrow> (('s, 'w, 'b) load_state, load_error, unit) act" where
  "rebuild_link spec nl =
     (case nl of (name, l) \<Rightarrow> case map_of (sp_volumes spec) name of
        None \<Rightarrow> raise (LoadLayout (NotLaidOut name))
      | Some v \<Rightarrow>
          if av_kind v = HostKind then ret ()
          else bindA (whenA (vl_mkdir l) (update (upd_ctx (\<lambda>c. c\<lparr>rx_fs := make_dir (vl_source l) (rx_fs c)\<rparr>)))) (\<lambda>_.
               bindA (askA (\<lambda>st. Inr (fs_exists (rx_fs (ld_ctx st)) (vl_source l)))) (\<lambda>there.
                 if \<not> there then raise (VolumeSourceMissing (vl_source l))
                 else update (on_run (\<lambda>rd. rd\<lparr>rn_links :=
                        rn_links rd @ [((kind_name (av_kind v), av_name v), vl_target l)]\<rparr>)))))"

definition rebuild_volume_links ::
    "app_spec \<Rightarrow> app_run_data \<Rightarrow> (('s, 'w, 'b) load_state, load_error, string list) act" where
  "rebuild_volume_links spec data =
     bindA (askA (\<lambda>st. Inr (existing_volume_kinds (ld_run st)))) (\<lambda>existing.
     bindA (askA (\<lambda>st. check_kinds spec existing)) (\<lambda>_.
     bindA (update (on_run (\<lambda>rd. rd\<lparr>rn_links := []\<rparr>))) (\<lambda>_.
     bindA (eachA (rebuild_link spec) (rd_volume_links data)) (\<lambda>_.
       ret (sort (List.filter (\<lambda>n. n \<notin> set (keys (sp_volumes spec))) (keys existing)))))))"

definition unlink_host_volumes :: "'b run_dir \<Rightarrow> 'b run_dir" where
  "unlink_host_volumes rd = rd\<lparr>rn_links := List.filter (\<lambda>((kind, name), target). kind \<noteq> ''host'') (rn_links rd)\<rparr>"

definition link_host_volumes ::
    "app_spec \<Rightarrow> app_run_data \<Rightarrow> (('s, 'w, 'b) load_state, load_error, unit) act" where
  "link_host_volumes spec data =
     bindA (update (on_run unlink_host_volumes)) (\<lambda>_.
       eachA (\<lambda>(name, l). case map_of (sp_volumes spec) name of
           None \<Rightarrow> raise (LoadLayout (NotLaidOut name))
         | Some v \<Rightarrow> whenA (av_kind v = HostKind)
             (update (on_run (\<lambda>rd. rd\<lparr>rn_links := rn_links rd @ [((kind_name (av_kind v), av_name v), vl_target l)]\<rparr>))))
         (rd_volume_links data))"

definition rebuild_kelso_dirs :: "app_spec \<Rightarrow> (('s, 'w, 'b) load_state, load_error, unit) act" where
  "rebuild_kelso_dirs spec =
     bindA (update (on_run (\<lambda>rd. rd\<lparr>rn_kelso := []\<rparr>))) (\<lambda>_.
       eachA (\<lambda>(name, u). if unit_commands spec name = [] then ret ()
         else bindA (askA (\<lambda>st. lift_layout (kelso_cmd spec name))) (\<lambda>script.
           update (on_run (\<lambda>rd. rd\<lparr>rn_kelso := rn_kelso rd @ [(name, script)]\<rparr>))))
         (sp_run_units spec))"

text \<open>The file is emptied when it is opened, before the dict is made.\<close>

definition write_compose ::
    "app_spec \<Rightarrow> (('s, 'w, 'b) load_state \<Rightarrow> load_error + app_run_data)
       \<Rightarrow> (('s, 'w, 'b) load_state, load_error, unit) act" where
  "write_compose spec data =
     bindA (update (on_run (\<lambda>rd. rd\<lparr>rn_compose := Some JNull\<rparr>))) (\<lambda>_.
     bindA (askA (\<lambda>st. andthen (data st) (\<lambda>d. lift_layout (make_compose_dict spec d)))) (\<lambda>dict.
       update (on_run (\<lambda>rd. rd\<lparr>rn_compose := Some dict\<rparr>))))"

definition materialize ::
    "app_spec \<Rightarrow> (('s, 'w, 'b) load_state, load_error, app_run_data \<times> string list) act" where
  "materialize spec =
     bindA (clear_and_reallocate_ports spec) (\<lambda>_.
     bindA (askA (\<lambda>st. lift_layout (load_run_data spec (ld_ctx st)))) (\<lambda>data.
       if load_blockers data \<noteq> [] then raise (LoadBlocked (load_blockers data))
       else bindA (rebuild_volume_links spec data) (\<lambda>dropped.
            bindA (rebuild_kelso_dirs spec) (\<lambda>_.
            bindA (write_compose spec (\<lambda>st. Inr data)) (\<lambda>_.
              ret (data, dropped))))))"

definition assign_route ::
    "app_spec \<Rightarrow> string \<Rightarrow> string \<Rightarrow> (('s, 'w, 'b) load_state, load_error, string list) act" where
  "assign_route spec route raw =
     (if route \<notin> set (keys (sp_routes spec)) then raise (UnknownRoute route)
      else bindA (askA (\<lambda>st. case parse_route_providers route raw of Inl e \<Rightarrow> Inl (BadProviders e) | Inr ts \<Rightarrow> Inr ts)) (\<lambda>tags.
           bindA (askA (\<lambda>st. case List.filter (\<lambda>t. t \<notin> set (keys (cfg_route_providers (rx_config (ld_ctx st))))) tags of
               [] \<Rightarrow> Inr () | t # _ \<Rightarrow> Inl (UnknownProvider t))) (\<lambda>_.
           bindA (on_app (\<lambda>ops cr k s. set_route_assignment ops s route tags)) (\<lambda>_.
           bindA (askA (\<lambda>st. Inr (rn_bundle (ld_run st) \<noteq> None))) (\<lambda>loaded.
           bindA (whenA loaded (write_compose spec (\<lambda>st. lift_layout (load_run_data spec (ld_ctx st))))) (\<lambda>_.
             ret tags))))))"

section \<open>What a target names\<close>

record load_target =
  lt_app_id :: string
  lt_bundle :: "string option"
  lt_repo :: "string option"

definition target_bound_to :: "load_target \<Rightarrow> string option" where
  "target_bound_to t =
     (case lt_repo t of
        Some (c # cs) \<Rightarrow> Some (''repo '' @ c # cs)
      | _ \<Rightarrow> lt_bundle t)"

text \<open>What an app is recorded as loaded from: nothing when it has no config file, or no record.\<close>

definition app_bound_to :: "bool \<Rightarrow> 's run_ctx \<Rightarrow> store_error + string option" where
  "app_bound_to config_exists ctx =
     (if \<not> config_exists then Inr None
      else andthen (get_meta (rx_ops ctx) (rx_app ctx) ''bound_to'') (\<lambda>v. Inr (str_of_json v)))"

definition bound_entry :: "string option \<Rightarrow> catalog_entry list \<Rightarrow> catalog_entry option" where
  "bound_entry was entries = List.find (\<lambda>e. was = Some (''repo '' @ ca_source e)) entries"

definition catalog_target ::
    "disk \<Rightarrow> config \<Rightarrow> (string \<Rightarrow> store_error + string option) \<Rightarrow> string \<Rightarrow> string option
       \<Rightarrow> find_error + load_target" where
  "catalog_target dk cfg bound name repo =
     andthen (resolve_app dk cfg name) (\<lambda>app.
       let entries = entries_of dk cfg app;
           named = (\<lambda>e. \<lparr>lt_app_id = app, lt_bundle = Some (ca_path e), lt_repo = Some (ca_source e)\<rparr>)
       in case repo of
            Some rp \<Rightarrow>
              (case List.find (\<lambda>e. ca_source e = rp) entries of
                 Some e \<Rightarrow> Inr (named e) | None \<Rightarrow> Inl (RepoLacks rp app))
          | None \<Rightarrow>
              (case entries of
                 [] \<Rightarrow> if is_loaded dk cfg app
                        then Inr \<lparr>lt_app_id = app, lt_bundle = None, lt_repo = None\<rparr>
                        else Inl (NoAppFound app)
               | [e] \<Rightarrow> Inr (named e)
               | _ \<Rightarrow> (case bound app of
                         Inl e \<Rightarrow> Inl (FindStore e)
                       | Inr was \<Rightarrow> (case bound_entry was entries of
                            None \<Rightarrow> Inl (Ambiguous app) | Some e \<Rightarrow> Inr (named e)))))"

definition same_source :: "(string \<Rightarrow> string \<Rightarrow> bool) \<Rightarrow> string \<Rightarrow> string \<Rightarrow> bool" where
  "same_source same_file was now \<longleftrightarrow>
     was = now \<or> (starts_with was ''/'' \<and> starts_with now ''/'' \<and> same_file was now)"

definition check_binding ::
    "(string \<Rightarrow> string \<Rightarrow> bool) \<Rightarrow> string option \<Rightarrow> load_target \<Rightarrow> bool \<Rightarrow> load_error + unit" where
  "check_binding same_file was t force =
     (case (was, target_bound_to t) of
        (Some (a # was'), Some (b # now')) \<Rightarrow>
          if force \<or> same_source same_file (a # was') (b # now') then Inr ()
          else Inl (BoundElsewhere (a # was') (b # now'))
      | _ \<Rightarrow> Inr ())"

text \<open>
  \<^verbatim>\<open>load_target\<close>: \<open>expand\<close> is \<^verbatim>\<open>expanduser().resolve()\<close>, \<open>bound\<close> what each app is recorded as
  loaded from.
\<close>

definition load_target ::
    "disk \<Rightarrow> config \<Rightarrow> (string \<Rightarrow> string) \<Rightarrow> (string \<Rightarrow> string \<Rightarrow> bool)
       \<Rightarrow> (string \<Rightarrow> store_error + string option) \<Rightarrow> string \<Rightarrow> bool \<Rightarrow> load_error + load_target" where
  "load_target dk cfg expand same_file bound target force =
     andthen
       (case (if is_pathlike target
              then andthen (app_id_from_path dk (expand target)) (\<lambda>app.
                Inr \<lparr>lt_app_id = app, lt_bundle = Some (expand target), lt_repo = None\<rparr>)
              else (case partition_on (CHR ''@'') target of (name, sep, repo) \<Rightarrow>
                catalog_target dk cfg bound name (if repo = [] then None else Some repo))) of
          Inl e \<Rightarrow> Inl (LoadFind e) | Inr t \<Rightarrow> Inr t) (\<lambda>t.
     andthen (lift_load (bound (lt_app_id t))) (\<lambda>was.
     andthen (check_binding same_file was t force) (\<lambda>_. Inr t)))"

section \<open>The load\<close>

text \<open>What a load is given: its arguments, and what it asks docker and the file system at the start.\<close>

record load_args =
  la_app :: string
  la_bundle :: string
  la_sets :: "(string \<times> string) list"
  la_binds :: "(string \<times> string) list"
  la_bound :: "string option"
  la_version_change :: bool
  la_running :: nat
  la_config_exists :: bool
  la_has_data :: bool
  la_now :: string

text \<open>\<^verbatim>\<open>loaded_spec\<close> of the copy in the run directory; a copy that no longer parses raises.\<close>

definition loaded_spec :: "('w, 'b) load_env \<Rightarrow> string \<Rightarrow> 'b run_dir \<Rightarrow> load_error + app_spec option" where
  "loaded_spec env app rd =
     (case rn_bundle rd of
        None \<Rightarrow> Inr None
      | Some b \<Rightarrow> (case spec_of env app b of Inl e \<Rightarrow> Inl e | Inr s \<Rightarrow> Inr (Some s)))"

definition refuse_version_change ::
    "('w, 'b) load_env \<Rightarrow> string \<Rightarrow> app_spec \<Rightarrow> 'b run_dir \<Rightarrow> load_error + unit" where
  "refuse_version_change env app spec rd =
     (case loaded_spec env app rd of
        Inr (Some s) \<Rightarrow> if sp_version s \<noteq> sp_version spec
                        then Inl (VersionChange (sp_version s) (sp_version spec)) else Inr ()
      | _ \<Rightarrow> Inr ())"

definition check_same_version ::
    "('w, 'b) load_env \<Rightarrow> string \<Rightarrow> string \<Rightarrow> 'b run_dir \<Rightarrow> load_error + unit" where
  "check_same_version env app bundle rd =
     (case andthen (en_open env bundle) (spec_of env app) of
        Inl e \<Rightarrow> Inr () | Inr spec \<Rightarrow> refuse_version_change env app spec rd)"

definition record_action :: "string \<Rightarrow> string \<Rightarrow> ('s, 'w, 'b) load_state \<Rightarrow> ('s, 'w, 'b) load_state" where
  "record_action verb app st = st\<lparr>ld_actions := ld_actions st @ [(app, verb)]\<rparr>"

definition load_preconditions :: "load_args \<Rightarrow> load_error + unit" where
  "load_preconditions a =
     (if la_running a \<noteq> 0 then Inl (StillRunning (la_running a))
      else if \<not> la_config_exists a \<and> la_has_data a then Inl DataWithoutConfig else Inr ())"

text \<open>The new copy, read, checked and still beside the loaded one.\<close>

definition stage_incoming ::
    "('w, 'b) load_env \<Rightarrow> load_args \<Rightarrow> (('s, 'w, 'b) load_state, load_error, app_spec) act" where
  "stage_incoming env a =
     on_error
       (bindA (load_incoming env (la_bundle a)) (\<lambda>b.
        bindA (askA (\<lambda>st. spec_of env (la_app a) b)) (\<lambda>spec.
        bindA (askA (\<lambda>st. if la_version_change a then Inr ()
                          else refuse_version_change env (la_app a) spec (ld_run st))) (\<lambda>_.
          ret spec))))
       (on_run discard_incoming)"

definition apply_arguments ::
    "load_args \<Rightarrow> app_spec \<Rightarrow> (('s, 'w, 'b) load_state, load_error, unit) act" where
  "apply_arguments a spec =
     bindA (on_app (\<lambda>ops cr k s. set_meta ops s ''origin'' (JStr (la_bundle a)))) (\<lambda>_.
     bindA (case la_bound a of
              None \<Rightarrow> ret ()
            | Some b \<Rightarrow> on_app (\<lambda>ops cr k s. set_meta ops s ''bound_to'' (JStr b))) (\<lambda>_.
     bindA (apply_config_sets spec (la_sets a)) (\<lambda>_.
       eachA (bind_host_volume spec) (la_binds a))))"

definition unpublish ::
    "('w, 'b) load_env \<Rightarrow> string \<Rightarrow> ('s, 'w, 'b) load_state \<Rightarrow> ('s, 'w, 'b) load_state" where
  "unpublish env app st =
     st\<lparr>ld_providers := take_down_routes (en_ops env) (ld_ctx st) app (ld_providers st)\<rparr>"

definition after_commit ::
    "('w, 'b) load_env \<Rightarrow> load_args \<Rightarrow> bool \<Rightarrow> app_spec
       \<Rightarrow> (('s, 'w, 'b) load_state, load_error, app_run_data \<times> string list) act" where
  "after_commit env a was_loaded spec =
     bindA (apply_arguments a spec) (\<lambda>_.
     bindA (whenA was_loaded (update (unpublish env (la_app a)))) (\<lambda>_.
     bindA (generate_missing_config env spec) (\<lambda>_.
     bindA (apply_default_route_assignments spec) (\<lambda>_.
     bindA (on_error (materialize spec) (record_action ''load-failed'' (la_app a))) (\<lambda>r.
     bindA (on_app (\<lambda>ops cr k s. set_meta ops s ''loaded_at'' (JStr (la_now a)))) (\<lambda>_.
     bindA (on_app (\<lambda>ops cr k s. set_meta ops s ''loaded_version'' (JStr (sp_version spec)))) (\<lambda>_.
     bindA (update (record_action ''loaded'' (la_app a))) (\<lambda>_. ret r))))))))"

record load_result =
  lo_spec :: app_spec
  lo_run_data :: app_run_data
  lo_dropped :: "string list"

definition load ::
    "('w, 'b) load_env \<Rightarrow> load_args \<Rightarrow> (('s, 'w, 'b) load_state, load_error, load_result) act" where
  "load env a =
     bindA (askA (\<lambda>st. load_preconditions a)) (\<lambda>_.
     bindA (askA (\<lambda>st. Inr (rn_bundle (ld_run st) \<noteq> None))) (\<lambda>was_loaded.
     bindA (update (on_run (\<lambda>rd. rd\<lparr>rn_exists := True\<rparr>))) (\<lambda>_.
     bindA (stage_incoming env a) (\<lambda>spec.
     bindA (update (on_run commit_incoming)) (\<lambda>_.
     bindA (after_commit env a was_loaded spec) (\<lambda>(data, dropped).
       ret \<lparr>lo_spec = spec, lo_run_data = data, lo_dropped = dropped\<rparr>))))))"

section \<open>Where each step works\<close>

text \<open>The copies in the run directory: what every step after the commit leaves alone.\<close>

definition same_copies :: "('s, 'w, 'b) load_state \<Rightarrow> ('s, 'w, 'b) load_state \<Rightarrow> bool" where
  "same_copies st st' \<longleftrightarrow> rn_bundle (ld_run st') = rn_bundle (ld_run st) \<and>
     rn_incoming (ld_run st') = rn_incoming (ld_run st) \<and> rn_outgoing (ld_run st') = rn_outgoing (ld_run st)"

lemma same_copies_order: "reflp same_copies" "transp same_copies"
  by (auto simp: same_copies_def intro!: reflpI transpI)

named_theorems copies

lemmas copies_intros = keeps_bindA [OF _ _ same_copies_order(2)] keeps_askA [OF same_copies_order(1)]
  keeps_ret [OF same_copies_order(1)] keeps_eachA [OF _ same_copies_order]

lemma copies_raise [copies]: "keeps same_copies (raise e)"
  by (simp add: keeps_def same_copies_def)

lemma copies_on_app [copies]: "keeps same_copies (on_app f)"
  by (simp add: keeps_def on_app_def same_copies_def upd_ctx_def split: sum.split)

lemma copies_on_db [copies]: "keeps same_copies (on_db f)"
  by (simp add: keeps_def on_db_def same_copies_def upd_ctx_def split: sum.split)

lemma copies_update [copies]: "(\<And>st. same_copies st (f st)) \<Longrightarrow> keeps same_copies (update f)"
  by (simp add: keeps_def)

lemma copies_on_error [copies]:
  assumes "keeps same_copies m" "\<And>st. same_copies st (f st)"
  shows "keeps same_copies (on_error m f)"
  unfolding keeps_def
proof
  fix w
  obtain r w' where m: "m w = (r, w')" by (cases "m w")
  with assms(1) have "same_copies w w'" by (rule keepsD)
  with m assms(2) [of w'] same_copies_order(2) show "same_copies w (snd (on_error m f w))"
    by (cases r) (auto simp: on_error_def dest: transpD)
qed

lemma copies_whenA [copies]: "keeps same_copies m \<Longrightarrow> keeps same_copies (whenA b m)"
  using copies_intros(3) by (cases b) simp_all

lemma copies_materialize: "keeps same_copies (materialize spec)"
  unfolding materialize_def clear_and_reallocate_ports_def allocate_route_def rebuild_volume_links_def
    rebuild_link_def rebuild_kelso_dirs_def write_compose_def ask_app_def
  by (auto intro!: copies_intros copies split: option.split list.split prod.split
      simp: same_copies_def on_run_def upd_ctx_def)

lemma copies_after_commit: "keeps same_copies (after_commit env a was_loaded spec)"
  unfolding after_commit_def apply_arguments_def apply_config_sets_def apply_config_set_def
    bind_host_volume_def generate_missing_config_def generate_config_def apply_default_route_assignments_def
    default_assignment_def ask_app_def
  by (auto intro!: copies_intros copies copies_materialize
      split: option.split list.split prod.split sum.split
      simp: same_copies_def unpublish_def record_action_def)

lemma stage_incoming_cases:
  assumes "stage_incoming env a st = (r, st')"
  obtains (refused) e where "r = Inl e" "rn_bundle (ld_run st') = rn_bundle (ld_run st)"
      "rn_incoming (ld_run st') = None"
    | (staged) b spec where "r = Inr spec" "en_open env (la_bundle a) = Inr b"
      "spec_of env (la_app a) b = Inr spec"
      "la_version_change a \<or> refuse_version_change env (la_app a) spec (ld_run st) = Inr ()"
      "st' = on_run (\<lambda>rd. rd\<lparr>rn_incoming := Some b, rn_outgoing := None\<rparr>) st"
proof (cases "en_open env (la_bundle a)")
  case (Inl e)
  with assms have "(r, st') = (Inl e, on_run discard_incoming st)"
    by (simp add: stage_incoming_def on_error_def load_incoming_def bindA_def)
  moreover have "rn_bundle (ld_run (on_run discard_incoming st)) = rn_bundle (ld_run st)"
    "rn_incoming (ld_run (on_run discard_incoming st)) = None"
    by (simp_all add: on_run_def discard_incoming_def Let_def)
  ultimately show ?thesis using refused by simp
next
  case (Inr b)
  let ?st = "on_run (\<lambda>rd. rd\<lparr>rn_incoming := Some b, rn_outgoing := None\<rparr>) st"
  have copy: "rn_bundle (ld_run (on_run discard_incoming ?st)) = rn_bundle (ld_run st)"
    "rn_incoming (ld_run (on_run discard_incoming ?st)) = None"
    by (simp_all add: on_run_def discard_incoming_def Let_def)
  have version: "refuse_version_change env (la_app a) spec (ld_run ?st) = refuse_version_change env (la_app a) spec (ld_run st)" for spec
    by (simp add: refuse_version_change_def loaded_spec_def on_run_def)
  have opened: "load_incoming env (la_bundle a) st = (Inr b, ?st)"
    using Inr by (simp add: load_incoming_def bindA_def on_run_def)
  show ?thesis
  proof (cases "spec_of env (la_app a) b")
    case (Inl e)
    with assms have "(r, st') = (Inl e, on_run discard_incoming ?st)"
      by (simp add: stage_incoming_def on_error_def bindA_def opened)
    with copy refused show ?thesis by simp
  next
    case spec: (Inr spec)
    show ?thesis
    proof (cases "la_version_change a \<or> refuse_version_change env (la_app a) spec (ld_run st) = Inr ()")
      case True
      with assms spec have "(r, st') = (Inr spec, ?st)"
        by (auto simp: stage_incoming_def on_error_def bindA_def opened version split: if_splits)
      with True Inr spec staged show ?thesis by simp
    next
      case False
      then obtain e where "refuse_version_change env (la_app a) spec (ld_run st) = Inl e"
        using is_error_cases [of "refuse_version_change env (la_app a) spec (ld_run st)"] by auto
      with False assms spec have "(r, st') = (Inl e, on_run discard_incoming ?st)"
        by (simp add: stage_incoming_def on_error_def bindA_def opened version)
      with copy refused show ?thesis by simp
    qed
  qed
qed

section \<open>Properties\<close>

lemma load_copies:
  assumes "load env a st = (r, st')"
  shows "(rn_incoming (ld_run st) = None \<longrightarrow> rn_incoming (ld_run st') = None) \<and>
    ((\<exists>e. r = Inl e \<and> rn_bundle (ld_run st') = rn_bundle (ld_run st)) \<or>
     (\<exists>b spec. en_open env (la_bundle a) = Inr b \<and> spec_of env (la_app a) b = Inr spec \<and>
       (la_version_change a \<or> refuse_version_change env (la_app a) spec (ld_run st) = Inr ()) \<and>
       rn_bundle (ld_run st') = Some b \<and> (\<forall>res. r = Inr res \<longrightarrow> lo_spec res = spec)))"
proof (cases "load_preconditions a")
  case (Inl e)
  with assms show ?thesis by (auto simp: load_def bindA_def)
next
  case (Inr u)
  let ?st = "on_run (\<lambda>rd. rd\<lparr>rn_exists := True\<rparr>) st"
  have run: "load env a st = bindA (stage_incoming env a) (\<lambda>spec.
     bindA (update (on_run commit_incoming)) (\<lambda>_.
     bindA (after_commit env a (rn_bundle (ld_run st) \<noteq> None) spec) (\<lambda>(data, dropped).
       ret \<lparr>lo_spec = spec, lo_run_data = data, lo_dropped = dropped\<rparr>))) ?st"
    using Inr by (simp add: load_def bindA_def)
  have same: "rn_bundle (ld_run ?st) = rn_bundle (ld_run st)"
    "refuse_version_change env (la_app a) spec (ld_run ?st) = refuse_version_change env (la_app a) spec (ld_run st)" for spec
    by (simp_all add: on_run_def refuse_version_change_def loaded_spec_def)
  obtain rs st1 where stage: "stage_incoming env a ?st = (rs, st1)" by (cases "stage_incoming env a ?st")
  from stage show ?thesis
  proof (cases rule: stage_incoming_cases)
    case (refused e)
    with assms show ?thesis by (auto simp: run bindA_Inl [where m = "stage_incoming env a", OF stage [unfolded refused(1)]] same(1))
  next
    case (staged b spec)
    let ?st2 = "on_run commit_incoming st1"
    have st2: "rn_bundle (ld_run ?st2) = Some b" "rn_incoming (ld_run ?st2) = None"
      by (simp_all add: staged(5) on_run_def commit_incoming_def)
    obtain ra st3 where after: "after_commit env a (rn_bundle (ld_run st) \<noteq> None) spec ?st2 = (ra, st3)"
      by (cases "after_commit env a (rn_bundle (ld_run st) \<noteq> None) spec ?st2")
    have kept: "rn_bundle (ld_run st3) = Some b" "rn_incoming (ld_run st3) = None"
      using keepsD [OF copies_after_commit after] st2 by (simp_all add: same_copies_def)
    have "load env a st = (case ra of Inl e \<Rightarrow> (Inl e, st3)
        | Inr (data, dropped) \<Rightarrow> (Inr \<lparr>lo_spec = spec, lo_run_data = data, lo_dropped = dropped\<rparr>, st3))"
      unfolding run bindA_Inr [where m = "stage_incoming env a", OF stage [unfolded staged(1)]]
      by (simp only: bindA_def act_simps prod.case sum.case after) (auto split: sum.split)
    with assms have "st' = st3" "\<forall>res. r = Inr res \<longrightarrow> lo_spec res = spec"
      by (auto split: sum.splits prod.splits)
    with kept staged(2-4) show ?thesis by (auto simp: same(2))
  qed
qed


definition demo_env :: "(string \<Rightarrow> noop_provider, string) load_env" where
  "demo_env = \<lparr>en_open = (\<lambda>p. if p = ''/r/bad.klso'' then Inr ''bad'' else Inl (NotValidBundle p)),
     en_manifest = (\<lambda>b. Inl (NotValidBundle b)), en_rand = id, en_ops = noop_ops, en_same_file = (=)\<rparr>"

definition demo_load_state :: "((string, json) dict, string \<Rightarrow> noop_provider, string) load_state" where
  "demo_load_state = \<lparr>ld_ctx = demo_ctx, ld_nonce = 0,
     ld_run = \<lparr>rn_exists = True, rn_incoming = None, rn_outgoing = None, rn_bundle = Some ''v1'', rn_links = [],
               rn_kelso = [], rn_compose = None\<rparr>,
     ld_providers = demo_providers, ld_actions = []\<rparr>"

definition demo_load_args :: load_args where
  "demo_load_args = \<lparr>la_app = ''org.demo'', la_bundle = ''/r/bad.klso'', la_sets = [], la_binds = [],
     la_bound = None, la_version_change = False, la_running = 0, la_config_exists = True, la_has_data = False,
     la_now = ''2026-01-01T00:00:00Z''\<rparr>"




end
