(* ===== verification/Ports.thy ===== *)
theory Ports
  imports Load
begin

text \<open>
  What \<^verbatim>\<open>_clear_and_reallocate_ports\<close> of \<^verbatim>\<open>kelso/lib/lifecycle/load.py\<close> leaves in the kelso
  database: one step of its loop against any store that keeps the promise of \<^verbatim>\<open>ConfigStore\<close>, the
  loop, and the whole function on the logtab store.
\<close>

section \<open>A port recorded once\<close>

definition recorded_port :: "(string \<Rightarrow> json option) \<Rightarrow> string \<Rightarrow> int \<Rightarrow> bool" where
  "recorded_port m key p \<longleftrightarrow> (\<exists>entry. m key = Some entry \<and> entry_port entry = Inr p)"

definition held_alone :: "(string \<Rightarrow> json option) \<Rightarrow> string \<Rightarrow> int \<Rightarrow> bool" where
  "held_alone m key p \<longleftrightarrow> port_held m p \<and> (\<forall>k. recorded_port m (''routes/'' @ k) p \<longrightarrow> ''routes/'' @ k = key)"

text \<open>A manifest that names a host port itself names one outside the range kelso hands out.\<close>

definition pinned_clear :: "int \<Rightarrow> app_route \<Rightarrow> bool" where
  "pinned_clear base r \<longleftrightarrow> needs_allocation r \<or> ar_host_port r < base \<or> base + PORT_RANGE_SIZE < ar_host_port r"

text \<open>What a load leaves recorded for a route.\<close>

definition port_given :: "int \<Rightarrow> (string \<Rightarrow> json option) \<Rightarrow> string \<Rightarrow> app_route \<Rightarrow> bool" where
  "port_given base m key r \<longleftrightarrow>
     (if needs_allocation r
      then \<exists>p. base \<le> p \<and> p \<le> base + PORT_RANGE_SIZE \<and> held_alone m key p
      else recorded_port m key (ar_host_port r))"

lemma port_held_recorded: "port_held m p \<longleftrightarrow> (\<exists>k. recorded_port m (''routes/'' @ k) p)"
  by (auto simp: port_held_def recorded_port_def)

lemma recorded_port_upd:
  "entry_port entry = Inr q \<Longrightarrow> recorded_port (m(key \<mapsto> entry)) k p \<longleftrightarrow> (if k = key then p = q else recorded_port m k p)"
  by (auto simp: recorded_port_def)

lemma held_alone_keep:
  "held_alone m key p \<Longrightarrow> entry_port entry = Inr q \<Longrightarrow> q \<noteq> p \<Longrightarrow> key' \<noteq> key \<Longrightarrow> held_alone (m(key' \<mapsto> entry)) key p"
  by (auto simp: held_alone_def recorded_port_upd port_held_recorded)

lemma held_alone_new:
  "\<not> port_held m p \<Longrightarrow> entry_port entry = Inr p \<Longrightarrow>
     held_alone (m(''routes/'' @ k \<mapsto> entry)) (''routes/'' @ k) p"
  by (auto simp: held_alone_def recorded_port_upd port_held_recorded)

lemma route_key: "routes_prefix app @ n = ''routes/'' @ (app @ ''/'' @ n)"
  by (simp add: routes_prefix_def)

lemma json_ok_route_record: "json_ok (JObj (route_record r))"
  by (simp add: route_record_def list_all_iff)

lemma entry_port_route_record: "entry_port (JObj (route_record r)) = Inr (asg_host_port r)"
  by (simp add: entry_port_def json_field_def json_int_def route_record_def)

section \<open>The loop\<close>

definition upd_db :: "('s \<Rightarrow> 's) \<Rightarrow> ('s, 'w, 'b) load_state \<Rightarrow> ('s, 'w, 'b) load_state" where
  "upd_db f st = upd_ctx (rx_db_update f) st"

lemma upd_db_simps [simp]:
  "rx_db (ld_ctx (upd_db f st)) = f (rx_db (ld_ctx st))"
  "rx_ops (ld_ctx (upd_db f st)) = rx_ops (ld_ctx st)"
  "rx_config (ld_ctx (upd_db f st)) = rx_config (ld_ctx st)"
  "rx_app (ld_ctx (upd_db f st)) = rx_app (ld_ctx st)"
  by (simp_all add: upd_db_def upd_ctx_def)

lemma on_db_result:
  "on_db f st = (Inr (), st') \<longleftrightarrow>
     (\<exists>s. f (rx_ops (ld_ctx st)) (rx_db (ld_ctx st)) = Inr s \<and> st' = upd_db (\<lambda>_. s) st)"
  by (auto simp: on_db_def upd_db_def split: sum.splits)

lemma allocate_route_result:
  "allocate_route app sub (n, r) st = (Inr (), st') \<longleftrightarrow>
     (\<exists>p tags s. host_port_for r st = Inr p \<and>
       get_route_assignment (rx_ops (ld_ctx st)) (rx_app (ld_ctx st)) n = Inr tags \<and>
       set_route (rx_ops (ld_ctx st)) (rx_db (ld_ctx st)) app n (route_record (allocated sub (n, r) p tags)) = Inr s \<and>
       st' = upd_db (\<lambda>_. s) st)"
  by (auto simp: allocate_route_def bindA_result ask_app_def lift_load_def on_db_result split: sum.splits)

context config_store
begin

lemma set_route_accepted:
  assumes "inv s" "set_route ops s app n (route_record a) = Inr s'"
  shows "inv s' \<and> obs s' = (obs s)(routes_prefix app @ n \<mapsto> JObj (route_record a))"
proof -
  let ?v = "JObj (route_record a)"
  have w: "st_write ops s (routes_prefix app @ n) ?v = Inr s'" using assms(2) by (simp add: set_route_def)
  have "key_ok (routes_prefix app @ n)" "storable ?v"
    unfolding storable_def using write_checked [OF w] json_ok_route_record by blast+
  from write_law [OF assms(1) this] w show ?thesis by auto
qed

lemma next_free_port_shaped:
  assumes "inv s" "ports_shaped (obs s)"
  shows "case next_free_port ops base s of
      Inr p \<Rightarrow> base \<le> p \<and> p \<le> base + PORT_RANGE_SIZE \<and> \<not> port_held (obs s) p
    | Inl e \<Rightarrow> \<forall>q. base \<le> q \<and> q \<le> base + PORT_RANGE_SIZE \<longrightarrow> port_held (obs s) q"
proof -
  have "\<And>k entry. obs s (''routes/'' @ k) = Some entry \<Longrightarrow> \<exists>p. entry_port entry = Inr p"
    using assms(2) by (simp add: ports_shaped_def)
  from next_free_port_spec [where base = base, OF assms(1) this] show ?thesis
    by (cases "next_free_port ops base s") simp_all
qed

lemma allocate_route_spec:
  assumes "inv (rx_db (ld_ctx st))" "rx_ops (ld_ctx st) = ops"
    and shaped: "ports_shaped (obs (rx_db (ld_ctx st)))"
    and base: "cfg_port_base (rx_config (ld_ctx st)) = base"
    and run: "allocate_route app sub (n, r) st = (Inr (), st')"
  obtains s entry p where "st' = upd_db (\<lambda>_. s) st" "inv s" "entry_port entry = Inr p"
    "obs s = (obs (rx_db (ld_ctx st)))(routes_prefix app @ n \<mapsto> entry)" "ports_shaped (obs s)"
    "if needs_allocation r
     then base \<le> p \<and> p \<le> base + PORT_RANGE_SIZE \<and> \<not> port_held (obs (rx_db (ld_ctx st))) p
     else p = ar_host_port r"
proof -
  from run obtain p tags s where p: "host_port_for r st = Inr p"
    and s: "set_route ops (rx_db (ld_ctx st)) app n (route_record (allocated sub (n, r) p tags)) = Inr s"
    and st': "st' = upd_db (\<lambda>_. s) st"
    unfolding allocate_route_result assms(2) by blast
  let ?entry = "JObj (route_record (allocated sub (n, r) p tags))"
  have port: "entry_port ?entry = Inr p"
    by (simp add: entry_port_route_record allocated_def)
  from set_route_accepted [OF assms(1) s] have obs: "inv s"
    "obs s = (obs (rx_db (ld_ctx st)))(routes_prefix app @ n \<mapsto> ?entry)" by simp_all
  have "ports_shaped (obs s)"
    using shaped port by (auto simp: ports_shaped_def obs(2))
  moreover have "if needs_allocation r
     then base \<le> p \<and> p \<le> base + PORT_RANGE_SIZE \<and> \<not> port_held (obs (rx_db (ld_ctx st))) p
     else p = ar_host_port r"
  proof (cases "needs_allocation r")
    case True
    with p have free: "next_free_port ops base (rx_db (ld_ctx st)) = Inr p"
      by (simp add: host_port_for_def lift_load_def assms(2) base split: sum.splits)
    from next_free_port_shaped [where base = base, OF assms(1) shaped] True free show ?thesis by simp
  next
    case False
    with p show ?thesis by (simp add: host_port_for_def)
  qed
  ultimately show ?thesis using that st' obs port by blast
qed

lemma allocate_routes_spec:
  assumes "inv (rx_db (ld_ctx st))" "rx_ops (ld_ctx st) = ops" "ports_shaped (obs (rx_db (ld_ctx st)))"
    "cfg_port_base (rx_config (ld_ctx st)) = base"
    "distinct (keys routes)" "\<forall>(n, r) \<in> set routes. pinned_clear base r"
    "eachA (allocate_route app sub) routes st = (Inr (), st')"
  shows "inv (rx_db (ld_ctx st')) \<and>
    (\<forall>(n, r) \<in> set routes. port_given base (obs (rx_db (ld_ctx st'))) (routes_prefix app @ n) r) \<and>
    (\<forall>k. (\<forall>n \<in> set (keys routes). k \<noteq> routes_prefix app @ n) \<longrightarrow>
       obs (rx_db (ld_ctx st')) k = obs (rx_db (ld_ctx st)) k) \<and>
    (\<forall>k p. (\<forall>n \<in> set (keys routes). k \<noteq> routes_prefix app @ n) \<longrightarrow> base \<le> p \<longrightarrow> p \<le> base + PORT_RANGE_SIZE \<longrightarrow>
       held_alone (obs (rx_db (ld_ctx st))) k p \<longrightarrow> held_alone (obs (rx_db (ld_ctx st'))) k p)"
  using assms
proof (induction routes arbitrary: st)
  case Nil
  then show ?case by simp
next
  case (Cons nr routes)
  obtain n r where nr: "nr = (n, r)" by (cases nr)
  let ?m = "obs (rx_db (ld_ctx st))" and ?key = "routes_prefix app @ n"
  from Cons.prems(7) obtain st1 where first: "allocate_route app sub (n, r) st = (Inr (), st1)"
    and rest: "eachA (allocate_route app sub) routes st1 = (Inr (), st')"
    by (auto simp: nr bindA_result)
  obtain s entry p where s: "st1 = upd_db (\<lambda>_. s) st" "inv s" "entry_port entry = Inr p"
    "obs s = ?m(?key \<mapsto> entry)" "ports_shaped (obs s)"
    and p: "if needs_allocation r
     then base \<le> p \<and> p \<le> base + PORT_RANGE_SIZE \<and> \<not> port_held ?m p else p = ar_host_port r"
    by (rule allocate_route_spec [OF Cons.prems(1-4) first])
  let ?m' = "obs (rx_db (ld_ctx st'))"
  have "inv (rx_db (ld_ctx st1))" "rx_ops (ld_ctx st1) = ops" "ports_shaped (obs (rx_db (ld_ctx st1)))"
    "cfg_port_base (rx_config (ld_ctx st1)) = base" "distinct (keys routes)" "\<forall>(n, r) \<in> set routes. pinned_clear base r"
    using Cons.prems s(1,2,5) by (simp_all add: nr)
  note step = Cons.IH [OF this rest]
  have IH: "inv (rx_db (ld_ctx st'))"
    "\<And>n r. (n, r) \<in> set routes \<Longrightarrow> port_given base ?m' (routes_prefix app @ n) r"
    "\<And>k. \<forall>n \<in> set (keys routes). k \<noteq> routes_prefix app @ n \<Longrightarrow> ?m' k = obs s k"
    "\<And>k p. \<forall>n \<in> set (keys routes). k \<noteq> routes_prefix app @ n \<Longrightarrow> base \<le> p \<Longrightarrow> p \<le> base + PORT_RANGE_SIZE \<Longrightarrow>
       held_alone (obs s) k p \<Longrightarrow> held_alone ?m' k p"
    using step by (auto simp: s(1) simp del: fun_upd_apply)
  have fresh: "\<forall>n' \<in> set (keys routes). ?key \<noteq> routes_prefix app @ n'"
    using Cons.prems(5) by (auto simp: nr)
  have pin: "pinned_clear base r" using Cons.prems(6) by (simp add: nr)
  have here: "port_given base ?m' ?key r"
  proof (cases "needs_allocation r")
    case True
    with p have "\<not> port_held ?m p" by simp
    then have "held_alone (obs s) ?key p" unfolding s(4) route_key by (rule held_alone_new [OF _ s(3)])
    with IH(4) [OF fresh] True p show ?thesis by (auto simp: port_given_def)
  next
    case False
    with p have "recorded_port ?m' ?key (ar_host_port r)"
      using IH(3) [OF fresh] s(3,4) by (simp add: recorded_port_def)
    with False show ?thesis by (simp add: port_given_def)
  qed
  have other: "held_alone ?m' k q"
    if out: "\<forall>n' \<in> set (keys (nr # routes)). k \<noteq> routes_prefix app @ n'" and q: "base \<le> q" "q \<le> base + PORT_RANGE_SIZE"
      and alone: "held_alone ?m k q" for k q
  proof -
    have "p \<noteq> q"
      using p pin q alone by (auto simp: held_alone_def pinned_clear_def split: if_splits)
    with out have "held_alone (obs s) k q"
      unfolding s(4) by (intro held_alone_keep [OF alone s(3)]) (auto simp: nr)
    with IH(4) out q show ?thesis by (simp add: nr)
  qed
  have frame: "?m' k = ?m k" if "\<forall>n' \<in> set (keys (nr # routes)). k \<noteq> routes_prefix app @ n'" for k
    using IH(3) [of k] that by (simp add: nr s(4))
  show ?case
    using IH(1) here IH(2) frame other by (auto simp: nr)
qed

end

lemma clear_and_reallocate_result:
  assumes "clear_and_reallocate_ports spec st = (Inr (), st')"
    and "sp_network_mode spec \<noteq> HostNetwork" "sp_routes spec \<noteq> []"
  obtains sub st1 where "on_db (\<lambda>ops s. clear_routes ops s (sp_app spec)) st = (Inr (), st1)"
    "eachA (allocate_route (sp_app spec) sub) (sp_routes spec) st1 = (Inr (), st')"
proof -
  from assms obtain sub where
    "(case sub of
        Some (c # cs) \<Rightarrow> bindA (on_db (\<lambda>ops s. clear_routes ops s (sp_app spec))) (\<lambda>_.
          eachA (allocate_route (sp_app spec) (c # cs)) (sp_routes spec))
      | _ \<Rightarrow> raise NeedsSubdomain) st = (Inr (), st')"
    by (auto simp: clear_and_reallocate_ports_def bindA_result)
  with that show ?thesis
    by (cases sub; cases "the sub") (auto simp: bindA_result)
qed

section \<open>Properties\<close>


text \<open>A manifest that drops its last route: the load returns before it clears, so what was recorded
  stays recorded, its ports stay held, and the issue that says a load heals it comes back.\<close>

lemma routeless_load_keeps_old_routes:
  assumes "sp_routes spec = []"
  shows "clear_and_reallocate_ports spec st = (Inr (), st) \<and>
    (loaded_routes (ld_ctx st) (sp_app spec) = Inr found \<longrightarrow> n \<in> set (keys found) \<longrightarrow>
       (\<exists>rs issues. load_routes (ld_ctx st) spec = Inr (rs, issues) \<and> healing (RouteNotDeclared n) \<in> set issues))"
  using assms by (auto simp: clear_and_reallocate_ports_def load_routes_def ret_def Let_def image_iff)

definition demo_auto_route :: app_route where
  "demo_auto_route = \<lparr>ar_route_name = ''web'', ar_run_unit_name = ''main'', ar_host_port = - 1,
     ar_container_port = 80, ar_proto = Tcp, ar_private = False, ar_scheme = Http, ar_desc = []\<rparr>"

definition demo_auto_spec :: app_spec where
  "demo_auto_spec = demo_spec\<lparr>sp_routes := [(''web'', demo_auto_route)]\<rparr>"

definition demo_busy_state :: "json_store \<Rightarrow> (json_store, string \<Rightarrow> noop_provider, string) load_state" where
  "demo_busy_state s = \<lparr>ld_ctx = \<lparr>rx_config = demo_machine\<lparr>cfg_port_base := 20000\<rparr>,
       rx_ops = json_logtab_store demo_clock demo_now, rx_crypto = noop_engine, rx_app = demo_store, rx_db = s,
       rx_fs = rx_fs demo_ctx\<rparr>,
     ld_nonce = 0, ld_run = ld_run demo_load_state, ld_providers = demo_providers, ld_actions = []\<rparr>"

lemma demo_subdomain: "lift_layout (resolved_subdomain demo_auto_spec (ld_ctx (demo_busy_state s))) = Inr (Some ''demo'')"
proof -
  have "get_config (json_logtab_store demo_clock demo_now) noop_engine demo_store ''subdomain'' = Inr None"
    using js.get_config_obs [OF demo_store_inv] by (simp add: js_obs_def demo_store_map)
  then show ?thesis
    by (simp add: resolved_subdomain_def demo_busy_state_def stored_pair_def lift_layout_def demo_auto_spec_def
        lift_store_def lookup_def demo_spec_parts(3) build_config_def demo_manifest_def declared_config_def
        dict_merge_def APP_OPTIONS_def set_default_def app_stem_def app_parts_def)
qed

lemma demo_busy_route_fits:
  assumes "p < 100000" "0 \<le> p"
  shows "storable (JObj (route_record (allocated ''demo'' (''web'', demo_auto_route) p None)))"
proof -
  obtain n where n: "p = int n" "n < 100000" using assms by (metis nonneg_int_cases of_nat_less_numeral_iff)
  have "length (str_of_nat n) \<le> 5"
    using n(2) by (simp add: str_of_nat.simps)
  then show ?thesis
    by (simp add: n storable_def MAX_VAL_LENGTH_def route_record_def allocated_def demo_auto_route_def json_string_def
        esc_char_def esc_letter_def Let_def str_of_int_def route_subdomain_def proto_name_def scheme_name_def
        PRIMARY_ROUTE_NAME_def str_of_nat.simps)
qed


end
