(* ===== verification/Jobs.thy ===== *)
theory Jobs
  imports Load
begin

text \<open>
  \<^verbatim>\<open>kelso/jobs/job.py\<close> and \<^verbatim>\<open>kelso/jobs/runner.py\<close>: verbs asked for over the wire, the queue they wait in
  and the one worker that runs them. The arguments a verb takes and what its \<^verbatim>\<open>init\<close> refuses
  come first; then one job, the history of jobs, and the runner as a step relation whose
  steps are what its threads do, in any order.
\<close>

section \<open>What a verb may be asked\<close>

datatype job_error =
    UnknownVerb string
  | TakesNoArgument string string
  | RequiresArgument string string
  | PathNotApp string
  | TargetRefused load_error
  | AppRefused find_error
  | NotATier string
  | NotGithub string
  | UrlRefused url_error

type_synonym job_args = "(string, string) dict"

text \<open>
  A subclass of \<^verbatim>\<open>Job\<close>: its class attributes, and its \<^verbatim>\<open>init\<close>, which returns the app a run
  is recorded under.
\<close>

record verb_class =
  vc_required :: "string list"
  vc_optional :: "string list"
  vc_record :: bool
  vc_init :: "job_args \<Rightarrow> job_error + string option"

definition arg :: "job_args \<Rightarrow> string \<Rightarrow> string" where
  "arg args name = (case map_of args name of None \<Rightarrow> [] | Some v \<Rightarrow> v)"

definition bool_arg :: "job_args \<Rightarrow> string \<Rightarrow> bool" where
  "bool_arg args name \<longleftrightarrow> arg args name \<in> {''1'', ''true'', ''yes''}"

definition check_args :: "string \<Rightarrow> verb_class \<Rightarrow> job_args \<Rightarrow> job_error + unit" where
  "check_args verb c args =
     (case List.find (\<lambda>n. n \<notin> set (vc_required c) \<union> set (vc_optional c)) (keys args) of
        Some n \<Rightarrow> Inl (TakesNoArgument verb n)
      | None \<Rightarrow> (case List.find (\<lambda>n. arg args n = []) (vc_required c) of
           Some n \<Rightarrow> Inl (RequiresArgument verb n) | None \<Rightarrow> Inr ()))"

text \<open>What the verbs look an app up in.\<close>

record job_env =
  je_disk :: disk
  je_config :: config
  je_expand :: "string \<Rightarrow> string"
  je_same_file :: "string \<Rightarrow> string \<Rightarrow> bool"
  je_bound :: "string \<Rightarrow> store_error + string option"

definition app_target :: "job_env \<Rightarrow> string \<Rightarrow> bool \<Rightarrow> job_error + load_target" where
  "app_target env raw force =
     (if is_pathlike raw then Inl (PathNotApp raw)
      else (case load_target (je_disk env) (je_config env) (je_expand env) (je_same_file env) (je_bound env) raw force of
              Inl e \<Rightarrow> Inl (TargetRefused e) | Inr t \<Rightarrow> Inr t))"

definition resolved_arg :: "job_env \<Rightarrow> string \<Rightarrow> job_error + string" where
  "resolved_arg env raw =
     (case resolve_app (je_disk env) (je_config env) raw of
        Inl e \<Rightarrow> Inl (AppRefused e) | Inr app \<Rightarrow> Inr app)"

text \<open>\<^verbatim>\<open>LoadJob.init\<close> and \<^verbatim>\<open>StartJob.init\<close>.\<close>

definition target_init :: "job_env \<Rightarrow> job_args \<Rightarrow> job_error + string option" where
  "target_init env args =
     andthen (app_target env (arg args ''app'') (bool_arg args ''force'')) (\<lambda>t. Inr (Some (lt_app_id t)))"

text \<open>\<^verbatim>\<open>init\<close> of \<^verbatim>\<open>stop\<close>, \<^verbatim>\<open>restart\<close>, \<^verbatim>\<open>update\<close> and \<^verbatim>\<open>unload\<close>.\<close>

definition app_init :: "job_env \<Rightarrow> job_args \<Rightarrow> job_error + string option" where
  "app_init env args = andthen (resolved_arg env (arg args ''app'')) (\<lambda>app. Inr (Some app))"

definition backup_init :: "job_env \<Rightarrow> job_args \<Rightarrow> job_error + string option" where
  "backup_init env args = (if arg args ''app'' = [] then Inr None else app_init env args)"

datatype removal_mode = Unload | Remove | ClearTemp | ClearData | Purge

definition TIERS :: "(string \<times> removal_mode) list" where
  "TIERS = [([], Remove), (''temp'', ClearTemp), (''data'', ClearData), (''purge'', Purge)]"

definition tier_mode :: "job_args \<Rightarrow> job_error + removal_mode" where
  "tier_mode args =
     (case map_of TIERS (arg args ''tier'') of None \<Rightarrow> Inl (NotATier (arg args ''tier'')) | Some m \<Rightarrow> Inr m)"

definition rm_init :: "job_env \<Rightarrow> job_args \<Rightarrow> job_error + string option" where
  "rm_init env args =
     andthen (app_init env args) (\<lambda>app. andthen (tier_mode args) (\<lambda>_. Inr app))"

definition repo_add_init :: "job_args \<Rightarrow> job_error + string option" where
  "repo_add_init args =
     (let url = strip (arg args ''url'')
      in if \<not> starts_with url GITHUB_SCHEME then Inl (NotGithub url)
         else (case parse_github_url url of Inl e \<Rightarrow> Inl (UrlRefused e) | Inr _ \<Rightarrow> Inr None))"

section \<open>One job\<close>

datatype job_state = Queued | Running | Finished | Failed

record job =
  jb_id :: string
  jb_verb :: string
  jb_record :: bool
  jb_args :: job_args
  jb_app :: "string option"
  jb_state :: job_state
  jb_error :: "string option"
  jb_created :: string
  jb_started :: "string option"
  jb_finished :: "string option"
  jb_log :: "string option"
  jb_started_by :: string

definition settled :: "job \<Rightarrow> bool" where
  "settled j \<longleftrightarrow> jb_state j \<in> {Finished, Failed}"

definition prepare ::
    "string \<Rightarrow> string \<Rightarrow> string \<Rightarrow> verb_class \<Rightarrow> job_args \<Rightarrow> string \<Rightarrow> job_error + job" where
  "prepare new_id now verb c args started_by =
     andthen (check_args verb c args) (\<lambda>_.
     andthen (vc_init c args) (\<lambda>app.
       Inr \<lparr>jb_id = new_id, jb_verb = verb, jb_record = vc_record c, jb_args = args, jb_app = app,
            jb_state = Queued, jb_error = None, jb_created = now, jb_started = None, jb_finished = None,
            jb_log = None, jb_started_by = started_by\<rparr>))"

text \<open>
  How the work of a job ends: \<open>Known\<close> is a \<^verbatim>\<open>ValueError\<close> or a \<^verbatim>\<open>RuntimeError\<close>, \<open>Unforeseen\<close> any other
  exception, by its type and message. \<open>NoLogFile\<close>: the run file could not be made, so the
  work never began.
\<close>

datatype raised = Known string | Unforeseen string string

datatype ending = Returns | Detaches string | Raises raised | NoLogFile raised

fun message_of :: "raised \<Rightarrow> string" where
  "message_of (Known m) = m"
| "message_of (Unforeseen t m) = m"

fun describe :: "raised \<Rightarrow> string" where
  "describe (Known m) = m"
| "describe (Unforeseen t m) = t @ '': '' @ m"

definition begin_job :: "string \<Rightarrow> job \<Rightarrow> job" where
  "begin_job now j = j\<lparr>jb_state := Running, jb_started := Some now\<rparr>"

definition end_job :: "string \<Rightarrow> string \<Rightarrow> ending \<Rightarrow> job \<Rightarrow> job" where
  "end_job now log e j =
     (if jb_record j
      then j\<lparr>jb_log := (case e of NoLogFile _ \<Rightarrow> None | _ \<Rightarrow> Some log),
             jb_error := (case e of Raises r \<Rightarrow> Some (describe r) | _ \<Rightarrow> None),
             jb_state := (case e of Returns \<Rightarrow> Finished | Detaches _ \<Rightarrow> Finished | _ \<Rightarrow> Failed),
             jb_finished := Some now\<rparr>
      else j\<lparr>jb_error := (case e of Returns \<Rightarrow> jb_error j | Detaches m \<Rightarrow> Some m | Raises r \<Rightarrow> Some (message_of r)
                            | NoLogFile r \<Rightarrow> Some (message_of r)),
             jb_state := (case e of Returns \<Rightarrow> Finished | _ \<Rightarrow> Failed),
             jb_finished := Some now\<rparr>)"

section \<open>The history\<close>

definition MAX_HISTORY :: nat where "MAX_HISTORY = 200"

type_synonym history = "(string, job) dict"

text \<open>\<^verbatim>\<open>_trim\<close>: the loop over a copy of the keys, which stops as soon as the table fits.\<close>

fun trim_loop :: "string list \<Rightarrow> history \<Rightarrow> history" where
  "trim_loop [] jobs = jobs"
| "trim_loop (i # ids) jobs =
     (if length jobs \<le> MAX_HISTORY then jobs
      else trim_loop ids
        (case map_of jobs i of
           Some j \<Rightarrow> if settled j then AList.delete i jobs else jobs
         | None \<Rightarrow> jobs))"

definition trim :: "history \<Rightarrow> history" where
  "trim jobs = (if length jobs \<le> MAX_HISTORY then jobs else trim_loop (keys jobs) jobs)"

definition busy_with :: "string \<Rightarrow> history \<Rightarrow> bool" where
  "busy_with verb jobs \<longleftrightarrow> list_ex (\<lambda>(i, j). jb_verb j = verb \<and> jb_state j \<in> {Queued, Running}) jobs"

definition list_jobs :: "history \<Rightarrow> job list" where
  "list_jobs jobs = List.map snd (rev jobs)"

section \<open>The runner\<close>

record runner =
  jr_jobs :: history
  jr_queue :: "string list"
  jr_worker :: "string option"

definition submit ::
    "(string, verb_class) dict \<Rightarrow> string \<Rightarrow> string \<Rightarrow> string \<Rightarrow> job_args \<Rightarrow> string \<Rightarrow> runner
       \<Rightarrow> job_error + job \<times> runner" where
  "submit verbs new_id now verb args started_by r =
     (case map_of verbs verb of
        None \<Rightarrow> Inl (UnknownVerb verb)
      | Some c \<Rightarrow> andthen (prepare new_id now verb c args started_by) (\<lambda>j.
          Inr (j, r\<lparr>jr_jobs := trim (AList.update new_id j (jr_jobs r)), jr_queue := jr_queue r @ [new_id]\<rparr>)))"

text \<open>A scheduled verb is not asked for again while one is waiting; a refusal is only logged.\<close>

definition submit_scheduled ::
    "(string, verb_class) dict \<Rightarrow> string \<Rightarrow> string \<Rightarrow> string \<Rightarrow> runner \<Rightarrow> runner" where
  "submit_scheduled verbs new_id now verb r =
     (if busy_with verb (jr_jobs r) then r
      else (case submit verbs new_id now verb [] ''kelsod'' r of Inl e \<Rightarrow> r | Inr (j, r') \<Rightarrow> r'))"

definition on_job :: "string \<Rightarrow> (job \<Rightarrow> job) \<Rightarrow> runner \<Rightarrow> runner" where
  "on_job i f r = r\<lparr>jr_jobs := List.map (\<lambda>(k, j). (k, if k = i then f j else j)) (jr_jobs r)\<rparr>"

text \<open>The handler of an exception \<^verbatim>\<open>_run\<close> does not expect, raised before \<^verbatim>\<open>execute\<close> settled the job.\<close>

definition give_up :: "raised \<Rightarrow> job \<Rightarrow> job" where
  "give_up e j =
     (case e of
        Known m \<Rightarrow> j
      | Unforeseen t m \<Rightarrow>
          if jb_state j \<noteq> Failed
          then j\<lparr>jb_state := Failed,
                 jb_error := Some (case jb_error j of Some (c # cs) \<Rightarrow> c # cs | _ \<Rightarrow> ''job failed'')\<rparr>
          else j)"

text \<open>\<^verbatim>\<open>_run\<close> on one id taken off the queue: what becomes of the job, by how its context and work go.\<close>

datatype fate = NoContext raised | Works string string string ending

fun run_fate :: "fate \<Rightarrow> job \<Rightarrow> job" where
  "run_fate (NoContext e) j = give_up e j"
| "run_fate (Works began done' log e) j = end_job done' log e (begin_job began j)"

fun run_pending :: "(string \<Rightarrow> fate) \<Rightarrow> string list \<Rightarrow> runner \<Rightarrow> nat \<times> runner" where
  "run_pending fates [] r = (0, r\<lparr>jr_queue := []\<rparr>)"
| "run_pending fates (i # queue) r =
     (let r' = on_job i (run_fate (fates i)) r;
          (n, r'') = run_pending fates queue r'
      in (Suc n, r''))"

text \<open>
  The steps of the threads. \<open>new_id\<close> is what \<^verbatim>\<open>uuid4\<close> returns, taken to be new; the worker
  takes an id, makes a context, runs the job and settles it, and other threads submit in between.
\<close>

inductive runner_step :: "(string, verb_class) dict \<Rightarrow> runner \<Rightarrow> runner \<Rightarrow> bool" for verbs where
  submitted: "submit verbs new_id now verb args started_by r = Inr (j, r') \<Longrightarrow>
      new_id \<notin> set (keys (jr_jobs r)) \<Longrightarrow> new_id \<notin> set (jr_queue r) \<Longrightarrow> jr_worker r \<noteq> Some new_id \<Longrightarrow>
      runner_step verbs r r'"
| taken: "jr_queue r = i # queue \<Longrightarrow> jr_worker r = None \<Longrightarrow> i \<in> set (keys (jr_jobs r)) \<Longrightarrow>
      runner_step verbs r (r\<lparr>jr_queue := queue, jr_worker := Some i\<rparr>)"
| skipped: "jr_queue r = i # queue \<Longrightarrow> jr_worker r = None \<Longrightarrow> i \<notin> set (keys (jr_jobs r)) \<Longrightarrow>
      runner_step verbs r (r\<lparr>jr_queue := queue\<rparr>)"
| no_context: "jr_worker r = Some i \<Longrightarrow> map_of (jr_jobs r) i = Some j \<Longrightarrow> jb_state j = Queued \<Longrightarrow>
      runner_step verbs r ((on_job i (give_up e) r)\<lparr>jr_worker := None\<rparr>)"
| began: "jr_worker r = Some i \<Longrightarrow> map_of (jr_jobs r) i = Some j \<Longrightarrow> jb_state j = Queued \<Longrightarrow>
      runner_step verbs r (on_job i (begin_job now) r)"
| ended: "jr_worker r = Some i \<Longrightarrow> map_of (jr_jobs r) i = Some j \<Longrightarrow> jb_state j = Running \<Longrightarrow>
      runner_step verbs r ((on_job i (end_job now log e) r)\<lparr>jr_worker := None\<rparr>)"

inductive_cases runner_stepE: "runner_step verbs r r'"

definition new_runner :: runner where
  "new_runner = \<lparr>jr_jobs = [], jr_queue = [], jr_worker = None\<rparr>"

inductive runner_reach :: "(string, verb_class) dict \<Rightarrow> runner \<Rightarrow> bool" for verbs where
  start: "runner_reach verbs new_runner"
| step: "runner_reach verbs r \<Longrightarrow> runner_step verbs r r' \<Longrightarrow> runner_reach verbs r'"

section \<open>The history keeps what is not settled\<close>

text \<open>What \<^const>\<open>trim\<close> should do: drop the first \<open>n\<close> settled jobs.\<close>

fun drop_settled :: "nat \<Rightarrow> history \<Rightarrow> history" where
  "drop_settled 0 jobs = jobs"
| "drop_settled (Suc n) [] = []"
| "drop_settled (Suc n) ((i, j) # jobs) =
     (if settled j then drop_settled n jobs else (i, j) # drop_settled (Suc n) jobs)"

lemma drop_settled_0 [simp]: "drop_settled n [] = []"
  by (cases n) simp_all

lemma delete_append:
  "i \<notin> set (keys a) \<Longrightarrow> AList.delete i (a @ (i, j) # b) = a @ AList.delete i b"
  by (induction a) (auto simp: AList.delete_eq)

lemma delete_absent: "i \<notin> set (keys b) \<Longrightarrow> AList.delete i b = b"
  by (induction b) (auto simp: AList.delete_eq)

lemma trim_loop_drops:
  assumes "distinct (keys (a @ b))" "\<forall>(i, j) \<in> set a. \<not> settled j"
  shows "trim_loop (keys b) (a @ b) = a @ drop_settled (length (a @ b) - MAX_HISTORY) b"
  using assms
proof (induction b arbitrary: a)
  case Nil
  then show ?case by simp
next
  case (Cons x b)
  obtain i j where x: "x = (i, j)" by (cases x)
  have new: "i \<notin> set (keys a)" "i \<notin> set (keys b)" using Cons.prems(1) by (auto simp: x)
  then have found: "map_of (a @ (i, j) # b) i = Some j"
    by (simp add: map_add_def iffD2 [OF map_of_eq_None_iff])
  show ?case
  proof (cases "length (a @ x # b) \<le> MAX_HISTORY")
    case True
    then show ?thesis by (simp add: x)
  next
    case big: False
    then obtain n where n: "length (a @ x # b) - MAX_HISTORY = Suc n" by (metis Suc_diff_Suc not_le)
    show ?thesis
    proof (cases "settled j")
      case True
      have "trim_loop (keys (x # b)) (a @ x # b) = trim_loop (keys b) (a @ b)"
        using big True found new by (simp add: x delete_append delete_absent)
      also have "\<dots> = a @ drop_settled (length (a @ b) - MAX_HISTORY) b"
        using Cons.prems by (intro Cons.IH) (auto simp: x)
      also have "length (a @ b) - MAX_HISTORY = n" using n by simp
      finally show ?thesis using True unfolding n by (simp add: x)
    next
      case False
      have "trim_loop (keys (x # b)) (a @ x # b) = trim_loop (keys b) ((a @ [x]) @ b)"
        using big False found by (simp add: x)
      also have "\<dots> = (a @ [x]) @ drop_settled (length ((a @ [x]) @ b) - MAX_HISTORY) b"
        using Cons.prems False by (intro Cons.IH) (auto simp: x)
      also have "length ((a @ [x]) @ b) - MAX_HISTORY = Suc n" using n by simp
      finally show ?thesis using False unfolding n by (simp add: x)
    qed
  qed
qed

lemma trim_drop_settled:
  "distinct (keys jobs) \<Longrightarrow> trim jobs = drop_settled (length jobs - MAX_HISTORY) jobs"
  using trim_loop_drops [of "[]" jobs] by (simp add: trim_def)

lemma drop_settled_keys: "set (keys (drop_settled n jobs)) \<subseteq> set (keys jobs)"
  by (induction n jobs rule: drop_settled.induct) auto

lemma drop_settled_distinct: "distinct (keys jobs) \<Longrightarrow> distinct (keys (drop_settled n jobs))"
proof (induction n jobs rule: drop_settled.induct)
  case (3 n i j jobs)
  then show ?case using drop_settled_keys [of "Suc n" jobs] by auto
qed simp_all

lemma drop_settled_sub: "set (drop_settled n jobs) \<subseteq> set jobs"
  by (induction n jobs rule: drop_settled.induct) auto

lemma drop_settled_keeps: "x \<in> set jobs \<Longrightarrow> \<not> settled (snd x) \<Longrightarrow> x \<in> set (drop_settled n jobs)"
  by (induction n jobs rule: drop_settled.induct) auto

lemma drop_settled_length:
  "length (drop_settled n jobs) = length jobs - min n (length (List.filter (\<lambda>(i, j). settled j) jobs))"
proof (induction n jobs rule: drop_settled.induct)
  case (3 n i j jobs)
  have le: "length (List.filter (\<lambda>(i, j). settled j) jobs) \<le> length jobs" by (rule length_filter_le)
  show ?case
  proof (cases "settled j")
    case True
    with 3 le show ?thesis by (auto simp: min_def)
  next
    case False
    have "min (Suc n) (length (List.filter (\<lambda>(i, j). settled j) jobs)) \<le> length jobs"
      by (rule le_trans [OF min.cobounded2 le])
    with 3 False show ?thesis by (simp add: Suc_diff_le)
  qed
qed auto

lemma trim_keys: "distinct (keys jobs) \<Longrightarrow> distinct (keys (trim jobs))"
  by (simp add: trim_drop_settled drop_settled_distinct)

lemma map_of_trim:
  assumes "distinct (keys jobs)"
  shows "map_of (trim jobs) i = Some j \<Longrightarrow> map_of jobs i = Some j"
    and "map_of jobs i = Some j \<Longrightarrow> \<not> settled j \<Longrightarrow> map_of (trim jobs) i = Some j"
proof -
  assume "map_of (trim jobs) i = Some j"
  then have "(i, j) \<in> set jobs"
    using drop_settled_sub by (fastforce simp: trim_drop_settled [OF assms] dest: map_of_SomeD)
  then show "map_of jobs i = Some j" by (rule map_of_is_SomeI [OF assms])
next
  assume "map_of jobs i = Some j" "\<not> settled j"
  then have "(i, j) \<in> set (trim jobs)"
    using drop_settled_keeps by (fastforce simp: trim_drop_settled [OF assms] dest: map_of_SomeD)
  then show "map_of (trim jobs) i = Some j" by (rule map_of_is_SomeI [OF trim_keys [OF assms]])
qed

section \<open>What every step keeps\<close>

lemma map_of_on_job:
  "map_of (jr_jobs (on_job i f r)) k = (if k = i then map_option f (map_of (jr_jobs r) i) else map_of (jr_jobs r) k)"
proof -
  have "map_of (List.map (\<lambda>(k, j). (k, if k = i then f j else j)) d) k =
      (if k = i then map_option f (map_of d i) else map_of d k)" for d
    by (induction d) auto
  then show ?thesis by (simp add: on_job_def)
qed

lemma on_job_parts [simp]:
  "keys (jr_jobs (on_job i f r)) = keys (jr_jobs r)" "jr_queue (on_job i f r) = jr_queue r"
  "jr_worker (on_job i f r) = jr_worker r"
  by (simp_all add: on_job_def case_prod_beta comp_def)

definition waits :: "string \<Rightarrow> runner \<Rightarrow> bool" where
  "waits i r \<longleftrightarrow> (\<exists>j. map_of (jr_jobs r) i = Some j \<and> jb_state j = Queued)"

text \<open>
  Ids wait once, each a job that has not begun; the worker holds a job that is neither waiting
  nor settled; and a job that runs is the worker's.
\<close>

definition runner_ok :: "runner \<Rightarrow> bool" where
  "runner_ok r \<longleftrightarrow> distinct (keys (jr_jobs r)) \<and> distinct (jr_queue r) \<and>
     (\<forall>i \<in> set (jr_queue r). waits i r) \<and>
     (\<forall>i. jr_worker r = Some i \<longrightarrow> i \<notin> set (jr_queue r) \<and>
        (\<exists>j. map_of (jr_jobs r) i = Some j \<and> jb_state j \<in> {Queued, Running})) \<and>
     (\<forall>i j. map_of (jr_jobs r) i = Some j \<longrightarrow> jb_state j = Running \<longrightarrow> jr_worker r = Some i)"

lemma unsettled: "jb_state j \<in> {Queued, Running} \<longleftrightarrow> \<not> settled j"
  by (cases "jb_state j") (auto simp: settled_def)

text \<open>What a submit leaves: the new job queued last, every unsettled job as it was, and nothing new.\<close>

lemma submit_spec:
  assumes "submit verbs new_id now verb args started_by r = Inr (j, r')"
    and "distinct (keys (jr_jobs r))" and "new_id \<notin> set (keys (jr_jobs r))"
  shows "jr_queue r' = jr_queue r @ [new_id] \<and> jr_worker r' = jr_worker r \<and> jb_state j = Queued \<and>
    distinct (keys (jr_jobs r')) \<and> map_of (jr_jobs r') new_id = Some j \<and>
    (\<forall>i k. map_of (jr_jobs r) i = Some k \<longrightarrow> \<not> settled k \<longrightarrow> map_of (jr_jobs r') i = Some k) \<and>
    (\<forall>i k. map_of (jr_jobs r') i = Some k \<longrightarrow> i = new_id \<and> k = j \<or> map_of (jr_jobs r) i = Some k)"
proof -
  let ?jobs = "AList.update new_id j (jr_jobs r)"
  from assms(1) have r': "r' = r\<lparr>jr_jobs := trim ?jobs, jr_queue := jr_queue r @ [new_id]\<rparr>"
    and j: "jb_state j = Queued"
    by (auto simp: submit_def prepare_def andthen_Inr split: option.splits)
  have d: "distinct (keys ?jobs)" using assms(2) by (rule distinct_update)
  have new: "map_of ?jobs i = (if i = new_id then Some j else map_of (jr_jobs r) i)" for i
    by (simp add: update_conv)
  have "\<not> settled j" using j by (simp add: settled_def)
  then have m1: "map_of (trim ?jobs) new_id = Some j" by (intro map_of_trim(2) [OF d]) (simp add: new)
  have m2: "map_of (trim ?jobs) i = Some k" if "map_of (jr_jobs r) i = Some k" "\<not> settled k" for i k
  proof -
    have "i \<noteq> new_id" using that(1) assms(3) by (force dest: map_of_SomeD)
    with that show ?thesis by (intro map_of_trim(2) [OF d]) (simp_all add: new)
  qed
  have m3: "i = new_id \<and> k = j \<or> map_of (jr_jobs r) i = Some k" if "map_of (trim ?jobs) i = Some k" for i k
    using map_of_trim(1) [OF d that] by (simp add: new split: if_splits)
  show ?thesis
    using m1 m2 m3 by (simp add: r' j trim_keys [OF d])
qed

lemma worker_job_ok:
  assumes ok: "runner_ok r" and w: "jr_worker r = Some i" and j: "map_of (jr_jobs r) i = Some j"
    and r': "jr_jobs r' = jr_jobs (on_job i f r)" "jr_queue r' = jr_queue r"
    and after: "if jb_state (f j) = Running then jr_worker r' = Some i else jr_worker r' = None"
  shows "runner_ok r'"
proof -
  have out: "i \<notin> set (jr_queue r)" and q: "\<forall>k \<in> set (jr_queue r). waits k r"
    and run: "\<And>k x. map_of (jr_jobs r) k = Some x \<Longrightarrow> jb_state x = Running \<Longrightarrow> k = i"
    and d: "distinct (keys (jr_jobs r))" "distinct (jr_queue r)"
    using ok w unfolding runner_ok_def by auto
  have m: "map_of (jr_jobs r') k = (if k = i then Some (f j) else map_of (jr_jobs r) k)" for k
    using map_of_on_job [of i f r k] j by (simp add: r'(1))
  have "waits k r'" if "k \<in> set (jr_queue r')" for k
    using that q out unfolding waits_def by (simp add: r'(2) m) (metis)
  moreover have "distinct (keys (jr_jobs r'))" using d(1) by (simp only: r'(1) on_job_parts)
  moreover have "k \<notin> set (jr_queue r') \<and> (\<exists>x. map_of (jr_jobs r') k = Some x \<and> jb_state x \<in> {Queued, Running})"
    if "jr_worker r' = Some k" for k
    using that after out by (simp add: r'(2) m split: if_splits)
  moreover have "jr_worker r' = Some k" if "map_of (jr_jobs r') k = Some x" "jb_state x = Running" for k x
    using that after run [of k x] by (cases "k = i") (auto simp: m)
  ultimately show ?thesis using d(2) unfolding runner_ok_def r'(2) by blast
qed

lemma runner_step_ok:
  assumes "runner_step verbs r r'" "runner_ok r"
  shows "runner_ok r'"
  using assms(1)
proof cases
  case (submitted new_id now verb args started_by j)
  have d: "distinct (keys (jr_jobs r))" using assms(2) by (simp add: runner_ok_def)
  note s = submit_spec [OF submitted(1) d submitted(2)]
  have keep: "map_of (jr_jobs r) i = Some k \<Longrightarrow> jb_state k \<in> {Queued, Running} \<Longrightarrow> map_of (jr_jobs r') i = Some k" for i k
    using s unsettled by blast
  have "waits i r'" if "i \<in> set (jr_queue r')" for i
  proof (cases "i = new_id")
    case True
    with s show ?thesis by (auto simp: waits_def)
  next
    case False
    with that s assms(2) obtain k where "map_of (jr_jobs r) i = Some k" "jb_state k = Queued"
      by (auto simp: runner_ok_def waits_def)
    with keep show ?thesis by (auto simp: waits_def)
  qed
  moreover have "i \<notin> set (jr_queue r') \<and> (\<exists>k. map_of (jr_jobs r') i = Some k \<and> jb_state k \<in> {Queued, Running})"
    if "jr_worker r' = Some i" for i
  proof -
    have w: "jr_worker r = Some i" using that s by simp
    with assms(2) have "i \<notin> set (jr_queue r)" "\<exists>k. map_of (jr_jobs r) i = Some k \<and> jb_state k \<in> {Queued, Running}"
      unfolding runner_ok_def by blast+
    with s submitted(4) w keep show ?thesis by auto
  qed
  moreover have "jr_worker r' = Some i" if "map_of (jr_jobs r') i = Some k" "jb_state k = Running" for i k
  proof -
    have "map_of (jr_jobs r) i = Some k" using s that by force
    with that(2) assms(2) s show ?thesis unfolding runner_ok_def by simp
  qed
  moreover have "distinct (jr_queue r')" using s submitted(3) assms(2) by (auto simp: runner_ok_def)
  ultimately show ?thesis using s unfolding runner_ok_def by blast
next
  case (taken i queue)
  with assms(2) show ?thesis by (auto simp: runner_ok_def waits_def)
next
  case (skipped i queue)
  with assms(2) show ?thesis by (auto simp: runner_ok_def waits_def)
next
  case (no_context i j e)
  then have "jb_state (give_up e j) \<noteq> Running" by (auto simp: give_up_def split: raised.split)
  with no_context show ?thesis by (intro worker_job_ok [OF assms(2) no_context(2,3)]) simp_all
next
  case (began i j now)
  have "jb_state (begin_job now j) = Running" by (simp add: begin_job_def)
  with began show ?thesis by (intro worker_job_ok [OF assms(2) began(2,3), where f = "begin_job now"]) simp_all
next
  case (ended i j now log e)
  have "jb_state (end_job now log e j) \<noteq> Running" by (cases e) (simp_all add: end_job_def)
  with ended show ?thesis by (intro worker_job_ok [OF assms(2) ended(2,3)]) simp_all
qed

lemma runner_reach_ok: "runner_reach verbs r \<Longrightarrow> runner_ok r"
proof (induction rule: runner_reach.induct)
  case start
  show ?case by (simp add: runner_ok_def new_runner_def)
qed (rule runner_step_ok)

section \<open>Draining the queue\<close>

lemma run_pending_spec:
  assumes "\<forall>i \<in> set queue. \<exists>began now log e. fates i = Works began now log e"
    and "run_pending fates queue r = (n, r')" and "distinct queue"
  shows "n = length queue \<and> jr_queue r' = [] \<and> keys (jr_jobs r') = keys (jr_jobs r) \<and>
    (\<forall>i j. i \<in> set queue \<longrightarrow> map_of (jr_jobs r) i = Some j \<longrightarrow>
       (\<exists>j'. map_of (jr_jobs r') i = Some j' \<and> settled j' \<and> jb_id j' = jb_id j)) \<and>
    (\<forall>i. i \<notin> set queue \<longrightarrow> map_of (jr_jobs r') i = map_of (jr_jobs r) i)"
  using assms
proof (induction queue arbitrary: r n r')
  case Nil
  then show ?case by auto
next
  case (Cons i queue)
  let ?r1 = "on_job i (run_fate (fates i)) r"
  obtain m where rest: "run_pending fates queue ?r1 = (m, r')" and n: "n = Suc m"
    using Cons.prems(2) by (cases "run_pending fates queue ?r1") auto
  have IH: "m = length queue" "jr_queue r' = []" "keys (jr_jobs r') = keys (jr_jobs ?r1)"
    "\<And>k j. k \<in> set queue \<Longrightarrow> map_of (jr_jobs ?r1) k = Some j \<Longrightarrow>
       \<exists>j'. map_of (jr_jobs r') k = Some j' \<and> settled j' \<and> jb_id j' = jb_id j"
    "\<And>k. k \<notin> set queue \<Longrightarrow> map_of (jr_jobs r') k = map_of (jr_jobs ?r1) k"
    using Cons.IH [OF _ rest] Cons.prems(1,3) by auto
  obtain began now log e where f: "fates i = Works began now log e" using Cons.prems(1) by auto
  have done': "settled (run_fate (fates i) j) \<and> jb_id (run_fate (fates i) j) = jb_id j" for j
    unfolding f by (cases e) (auto simp: settled_def end_job_def begin_job_def)
  have i: "i \<notin> set queue" using Cons.prems(3) by simp
  have "\<exists>j'. map_of (jr_jobs r') k = Some j' \<and> settled j' \<and> jb_id j' = jb_id j"
    if k: "k \<in> set (i # queue)" and j: "map_of (jr_jobs r) k = Some j" for k j
  proof (cases "k = i")
    case True
    with j have "map_of (jr_jobs r') i = Some (run_fate (fates i) j)" by (simp add: IH(5) [OF i] map_of_on_job)
    with True done' show ?thesis by blast
  next
    case False
    with k j show ?thesis by (intro IH(4)) (simp_all add: map_of_on_job)
  qed
  moreover have "map_of (jr_jobs r') k = map_of (jr_jobs r) k" if "k \<notin> set (i # queue)" for k
    using that IH(5) [of k] by (simp add: map_of_on_job)
  moreover have "keys (jr_jobs r') = keys (jr_jobs r)" using IH(3) by (simp only: on_job_parts)
  ultimately show ?case using IH(1,2) n by simp
qed

section \<open>A job nobody holds\<close>

definition stranded :: "string \<Rightarrow> runner \<Rightarrow> bool" where
  "stranded i r \<longleftrightarrow> waits i r \<and> i \<notin> set (jr_queue r) \<and> jr_worker r \<noteq> Some i \<and> distinct (keys (jr_jobs r))"

lemma stranded_on_job:
  assumes "stranded i r" "jr_worker r = Some k"
    and r': "jr_jobs r' = jr_jobs (on_job k f r)" "jr_queue r' = jr_queue r" "jr_worker r' \<in> {None, Some k}"
  shows "stranded i r'"
proof -
  have i: "k \<noteq> i" using assms(1,2) by (auto simp: stranded_def)
  then have m: "map_of (jr_jobs r') i = map_of (jr_jobs r) i" by (subst r'(1), subst map_of_on_job) auto
  have d: "keys (jr_jobs r') = keys (jr_jobs r)" by (simp only: r'(1) on_job_parts)
  from assms(1) i r'(3) show ?thesis unfolding stranded_def waits_def m d r'(2) by auto
qed

lemma stranded_step:
  assumes "runner_step verbs r r'" "stranded i r"
  shows "stranded i r'"
  using assms(1)
proof cases
  case (submitted new_id now verb args started_by j)
  obtain k where k: "map_of (jr_jobs r) i = Some k" "jb_state k = Queued" using assms(2) by (auto simp: stranded_def waits_def)
  have d: "distinct (keys (jr_jobs r))" using assms(2) by (simp add: stranded_def)
  note s = submit_spec [OF submitted(1) d submitted(2)]
  have "\<not> settled k" using k(2) by (simp add: settled_def)
  with s k have "map_of (jr_jobs r') i = Some k" by blast
  moreover have "i \<noteq> new_id" using k(1) submitted(2) by (force dest: map_of_SomeD)
  ultimately show ?thesis using s k assms(2) by (simp add: stranded_def waits_def)
next
  case (taken j queue)
  then show ?thesis using assms(2) by (auto simp: stranded_def waits_def)
next
  case (skipped j queue)
  then show ?thesis using assms(2) by (auto simp: stranded_def waits_def)
next
  case (no_context k j e)
  then show ?thesis by (intro stranded_on_job [OF assms(2) no_context(2)]) simp_all
next
  case (began k j now)
  then show ?thesis by (intro stranded_on_job [OF assms(2) began(2), where f = "begin_job now"]) simp_all
next
  case (ended k j now log e)
  then show ?thesis by (intro stranded_on_job [OF assms(2) ended(2)]) simp_all
qed

section \<open>Properties\<close>


definition demo_verb :: verb_class where
  "demo_verb = \<lparr>vc_required = [''app''], vc_optional = [], vc_record = True, vc_init = (\<lambda>args. Inr (Some (arg args ''app'')))\<rparr>"

definition demo_queued :: "string \<Rightarrow> job" where
  "demo_queued i = \<lparr>jb_id = i, jb_verb = ''stop'', jb_record = True, jb_args = [(''app'', ''org.demo'')],
     jb_app = Some ''org.demo'', jb_state = Queued, jb_error = None, jb_created = ''t0'', jb_started = None,
     jb_finished = None, jb_log = None, jb_started_by = ''cli''\<rparr>"

lemma demo_submit:
  "submit [(''stop'', demo_verb)] ''a'' ''t0'' ''stop'' [(''app'', ''org.demo'')] ''cli'' new_runner =
     Inr (demo_queued ''a'', \<lparr>jr_jobs = [(''a'', demo_queued ''a'')], jr_queue = [''a''], jr_worker = None\<rparr>)"
  by (simp add: submit_def prepare_def check_args_def demo_verb_def new_runner_def arg_def trim_def MAX_HISTORY_def
      demo_queued_def)

lemma demo_running:
  "runner_reach [(''stop'', demo_verb)]
     \<lparr>jr_jobs = [(''a'', begin_job ''t1'' (demo_queued ''a''))], jr_queue = [], jr_worker = Some ''a''\<rparr>"
proof -
  let ?verbs = "[(''stop'', demo_verb)]" and ?q = "demo_queued ''a''"
  have "runner_reach ?verbs \<lparr>jr_jobs = [(''a'', ?q)], jr_queue = [''a''], jr_worker = None\<rparr>"
    by (rule runner_reach.step [OF runner_reach.start]) (rule runner_step.submitted [OF demo_submit]; simp add: new_runner_def)
  then have "runner_reach ?verbs \<lparr>jr_jobs = [(''a'', ?q)], jr_queue = [], jr_worker = Some ''a''\<rparr>"
    by (rule runner_reach.step) (use runner_step.taken [of "\<lparr>jr_jobs = [(''a'', ?q)], jr_queue = [''a''], jr_worker = None\<rparr>" "''a''" "[]"] in simp)
  then show ?thesis
    by (rule runner_reach.step)
      (use runner_step.began [of "\<lparr>jr_jobs = [(''a'', ?q)], jr_queue = [], jr_worker = Some ''a''\<rparr>" "''a''" ?q ?verbs "''t1''"]
       in \<open>simp add: on_job_def demo_queued_def\<close>)
qed


text \<open>A runner with no worker that drains its queue returns, having run every id that waited: each of
  those jobs is settled whatever its work did, nothing waits any more, and no other job changed.\<close>

lemma run_pending_settles_all:
  assumes "runner_reach verbs r"
    and "\<forall>i \<in> set (jr_queue r). \<exists>began now log e. fates i = Works began now log e"
  shows "\<exists>r'. run_pending fates (jr_queue r) r = (length (jr_queue r), r') \<and> jr_queue r' = [] \<and>
    (\<forall>i \<in> set (jr_queue r). \<exists>j. map_of (jr_jobs r') i = Some j \<and> settled j) \<and>
    (\<forall>i. i \<notin> set (jr_queue r) \<longrightarrow> map_of (jr_jobs r') i = map_of (jr_jobs r) i)"
proof -
  have ok: "distinct (jr_queue r)" "\<forall>i \<in> set (jr_queue r). \<exists>j. map_of (jr_jobs r) i = Some j"
    using runner_reach_ok [OF assms(1)] unfolding runner_ok_def waits_def by blast+
  obtain n r' where run: "run_pending fates (jr_queue r) r = (n, r')" by (cases "run_pending fates (jr_queue r) r")
  from run_pending_spec [OF assms(2) run ok(1)] ok(2) run show ?thesis by blast
qed

lemma demo_waiting:
  "runner_reach [(''stop'', demo_verb)] \<lparr>jr_jobs = [(''a'', demo_queued ''a'')], jr_queue = [''a''], jr_worker = None\<rparr>"
  by (rule runner_reach.step [OF runner_reach.start]) (rule runner_step.submitted [OF demo_submit]; simp add: new_runner_def)

lemma run_pending_settles_all_witness:
  "\<exists>r r'. runner_reach [(''stop'', demo_verb)] r \<and> jr_queue r = [''a''] \<and>
    run_pending (\<lambda>i. Works ''t1'' ''t2'' ''stop.log'' (Raises (Known ''docker is down''))) [''a''] r = (1, r') \<and> jr_queue r' = []"
  using run_pending_settles_all [OF demo_waiting, of "\<lambda>i. Works ''t1'' ''t2'' ''stop.log'' (Raises (Known ''docker is down''))"]
    demo_waiting by fastforce

text \<open>A job whose context could not be made -- a config file that does not load when its turn comes -- was
  taken off the queue and is settled by nothing: it stays queued in every state
  the runner can reach from there, and its verb is never scheduled again.\<close>

lemma unmade_context_strands_a_job:
  assumes "runner_ok r" and "jr_worker r = Some i"
    and "map_of (jr_jobs r) i = Some j" and "jb_state j = Queued"
    and "rtranclp (runner_step verbs) ((on_job i (give_up (Known m)) r)\<lparr>jr_worker := None\<rparr>) r'"
  shows "(\<exists>k. map_of (jr_jobs r') i = Some k \<and> jb_state k = Queued) \<and> i \<notin> set (jr_queue r') \<and> jr_worker r' \<noteq> Some i"
proof -
  let ?r1 = "(on_job i (give_up (Known m)) r)\<lparr>jr_worker := None\<rparr>"
  have "map_of (jr_jobs ?r1) i = Some j"
    using assms(3) by (simp add: map_of_on_job give_up_def)
  moreover have "i \<notin> set (jr_queue r)" "distinct (keys (jr_jobs r))" using assms(1,2) by (simp_all add: runner_ok_def)
  ultimately have "stranded i ?r1"
    using assms(4) unfolding stranded_def waits_def by (simp only: on_job_parts runner.simps) auto
  with assms(5) have "stranded i r'"
    by (induction rule: rtranclp_induct) (auto intro: stranded_step)
  then show ?thesis unfolding stranded_def waits_def by blast
qed

lemma unmade_context_strands_a_job_witness:
  "\<exists>r. jr_worker r = Some ''a'' \<and> runner_ok r \<and>
    (\<exists>k. map_of (jr_jobs ((on_job ''a'' (give_up (Known ''bad toml'')) r)\<lparr>jr_worker := None\<rparr>)) ''a'' = Some k \<and> jb_state k = Queued)"
proof -
  let ?r = "\<lparr>jr_jobs = [(''a'', demo_queued ''a'')], jr_queue = [], jr_worker = Some ''a''\<rparr>"
  have ok: "runner_ok ?r" by (simp add: runner_ok_def demo_queued_def)
  from unmade_context_strands_a_job [OF ok _ _ _ rtranclp.rtrancl_refl, of "''a''" "demo_queued ''a''" "''bad toml''"] ok
  show ?thesis by (auto simp: demo_queued_def intro!: exI [of _ ?r])
qed

text \<open>Over its budget, the history drops the oldest settled jobs and as many as it is over -- all of them
  if there are fewer -- and keeps every job that waits or runs.\<close>

lemma trim_drops_oldest_settled:
  assumes "distinct (keys jobs)"
  shows "trim jobs = drop_settled (length jobs - MAX_HISTORY) jobs \<and>
    (\<forall>(i, j) \<in> set jobs. \<not> settled j \<longrightarrow> (i, j) \<in> set (trim jobs)) \<and>
    length (trim jobs) \<le> max MAX_HISTORY (length (List.filter (\<lambda>(i, j). \<not> settled j) jobs))"
proof -
  note t = trim_drop_settled [OF assms]
  have "length (List.filter (\<lambda>(i, j). settled j) jobs) + length (List.filter (\<lambda>(i, j). \<not> settled j) jobs) = length jobs"
    unfolding case_prod_beta by (rule sum_length_filter_compl)
  then have "length (trim jobs) \<le> max MAX_HISTORY (length (List.filter (\<lambda>(i, j). \<not> settled j) jobs))"
    unfolding t drop_settled_length by (auto simp: min_def max_def)
  moreover have "\<forall>(i, j) \<in> set jobs. \<not> settled j \<longrightarrow> (i, j) \<in> set (trim jobs)"
    unfolding t using drop_settled_keeps by fastforce
  ultimately show ?thesis using t by blast
qed

lemma trim_drops_oldest_settled_witness:
  "trim [(''a'', demo_queued ''a'')] = [(''a'', demo_queued ''a'')]"
  using trim_drops_oldest_settled [of "[(''a'', demo_queued ''a'')]"] by (simp add: MAX_HISTORY_def)

section \<open>What a wire target can name\<close>

lemma entries_of_source:
  assumes "e \<in> set (entries_of dk cfg app)"
  obtains r name where "(ca_source e, r) \<in> set (cfg_repos cfg)" "name \<in> set (dk_names dk (repo_path r))"
    "could_be_bundle dk (path_join (repo_path r) name)" "ca_path e = path_join (repo_path r) name"
proof -
  have "(app, e) \<in> set (concat (List.map (repo_entries dk) (cfg_repos cfg)))"
    using assms by (auto simp: entries_of_def app_catalog_def map_of_groups values_of_def split: option.splits if_splits)
  then show ?thesis
    using that by (auto simp: repo_entries_def scan_bundles_def map_filter_def split: if_splits)
qed

lemma catalog_target_named:
  assumes "catalog_target dk cfg bound name repo = Inr t"
  shows "resolve_app dk cfg name = Inr (lt_app_id t) \<and>
    (lt_bundle t = None \<and> is_loaded dk cfg (lt_app_id t) \<or>
     (\<exists>e \<in> set (entries_of dk cfg (lt_app_id t)). lt_bundle t = Some (ca_path e) \<and> lt_repo t = Some (ca_source e)))"
proof -
  obtain app where app: "resolve_app dk cfg name = Inr app" using assms by (auto simp: catalog_target_def andthen_Inr)
  show ?thesis
  proof (cases repo)
    case (Some rp)
    with assms app obtain e where "List.find (\<lambda>e. ca_source e = rp) (entries_of dk cfg app) = Some e"
        "t = \<lparr>lt_app_id = app, lt_bundle = Some (ca_path e), lt_repo = Some (ca_source e)\<rparr>"
      by (auto simp: catalog_target_def Let_def split: option.splits)
    with app show ?thesis by (auto simp: find_Some_iff)
  next
    case None
    show ?thesis
    proof (cases "entries_of dk cfg app" rule: remdups_adj.cases)
      case 1
      with None assms app show ?thesis by (auto simp: catalog_target_def Let_def split: if_splits)
    next
      case (2 e)
      with None assms app show ?thesis by (auto simp: catalog_target_def Let_def)
    next
      case (3 e1 e2 es)
      with None assms app obtain was e where "bound_entry was (entries_of dk cfg app) = Some e"
          "t = \<lparr>lt_app_id = app, lt_bundle = Some (ca_path e), lt_repo = Some (ca_source e)\<rparr>"
        by (auto simp: catalog_target_def Let_def split: sum.splits option.splits)
      with app show ?thesis by (auto simp: bound_entry_def find_Some_iff)
    qed
  qed
qed

text \<open>A load or a start asked for over the wire never names a path: what it would load is the bundle a
  configured repo lists for an app kelso knows -- or the loaded copy -- and, unless forced, comes from
  the source the app is bound to.\<close>

lemma wire_targets_come_from_repos:
  assumes "app_target env raw force = Inr t"
  shows "\<not> is_pathlike raw \<and>
    (lt_bundle t = None \<and> is_loaded (je_disk env) (je_config env) (lt_app_id t) \<or>
     (\<exists>repo r name. lt_repo t = Some repo \<and> (repo, r) \<in> set (cfg_repos (je_config env)) \<and>
        name \<in> set (dk_names (je_disk env) (repo_path r)) \<and>
        could_be_bundle (je_disk env) (path_join (repo_path r) name) \<and>
        lt_bundle t = Some (path_join (repo_path r) name))) \<and>
    (\<exists>was. je_bound env (lt_app_id t) = Inr was \<and>
       (force \<or> (\<forall>a b. was = Some a \<longrightarrow> a \<noteq> [] \<longrightarrow> target_bound_to t = Some b \<longrightarrow> b \<noteq> [] \<longrightarrow>
          same_source (je_same_file env) a b)))"
proof -
  let ?dk = "je_disk env" and ?cfg = "je_config env"
  have np: "\<not> is_pathlike raw"
    and lt: "load_target ?dk ?cfg (je_expand env) (je_same_file env) (je_bound env) raw force = Inr t"
    using assms by (auto simp: app_target_def split: if_splits sum.splits)
  obtain name sep repo where p: "partition_on (CHR ''@'') raw = (name, sep, repo)" by (cases "partition_on (CHR ''@'') raw")
  from lt np p obtain was where
    c: "catalog_target ?dk ?cfg (je_bound env) name (if repo = [] then None else Some repo) = Inr t"
    and w: "je_bound env (lt_app_id t) = Inr was" and ok: "check_binding (je_same_file env) was t force = Inr ()"
    by (auto simp: load_target_def andthen_Inr lift_load_def split: sum.splits)
  have "force \<or> same_source (je_same_file env) a b"
    if "was = Some a" "a \<noteq> []" "target_bound_to t = Some b" "b \<noteq> []" for a b
    using ok that by (cases a; cases b) (auto simp: check_binding_def split: if_splits)
  moreover have "lt_bundle t = None \<and> is_loaded ?dk ?cfg (lt_app_id t) \<or>
     (\<exists>repo r name. lt_repo t = Some repo \<and> (repo, r) \<in> set (cfg_repos ?cfg) \<and>
        name \<in> set (dk_names ?dk (repo_path r)) \<and> could_be_bundle ?dk (path_join (repo_path r) name) \<and>
        lt_bundle t = Some (path_join (repo_path r) name))"
  proof (cases "lt_bundle t = None \<and> is_loaded ?dk ?cfg (lt_app_id t)")
    case False
    with catalog_target_named [OF c] obtain e where e: "e \<in> set (entries_of ?dk ?cfg (lt_app_id t))"
        "lt_bundle t = Some (ca_path e)" "lt_repo t = Some (ca_source e)" by blast
    from entries_of_source [OF e(1)] e(2,3) show ?thesis by metis
  qed simp
  ultimately show ?thesis using np w by blast
qed

definition demo_job_env :: job_env where
  "demo_job_env = \<lparr>je_disk = demo_disk [''a.b.klso''], je_config = demo_repos, je_expand = id, je_same_file = (=),
     je_bound = (\<lambda>app. Inr None)\<rparr>"

lemma wire_targets_come_from_repos_witness:
  "app_target demo_job_env ''b'' False = Inr \<lparr>lt_app_id = ''a.b'', lt_bundle = Some ''/r/a.b.klso'', lt_repo = Some ''local''\<rparr> \<and>
   \<not> is_pathlike ''b''"
proof -
  have "app_stem ''a.b'' = ''b''" "without_repo ''b'' = ''b''"
    by (simp_all add: app_stem_def app_parts_def without_repo_def partition_on_def)
  then have "resolve_app (demo_disk [''a.b.klso'']) demo_repos ''b'' = Inr ''a.b''"
    by (simp add: resolve_app_def demo_known resolve_app_query_def app_stem_def app_parts_def)
  moreover have "entries_of (demo_disk [''a.b.klso'']) demo_repos ''a.b'' =
      [\<lparr>ca_app_id = ''a.b'', ca_path = ''/r/a.b.klso'', ca_source = ''local''\<rparr>]"
    by (simp add: entries_of_def demo_disk_eval)
  ultimately have t: "app_target demo_job_env ''b'' False =
      Inr \<lparr>lt_app_id = ''a.b'', lt_bundle = Some ''/r/a.b.klso'', lt_repo = Some ''local''\<rparr>"
    by (simp add: app_target_def demo_job_env_def is_pathlike_def starts_with_def ends_with_def KLSO_SUFFIX_def
        KLSO_MD_SUFFIX_def load_target_def partition_on_def catalog_target_def lift_load_def check_binding_def)
  with wire_targets_come_from_repos [OF t] show ?thesis by simp
qed

end
