(* ===== verification/Bundle.thy ===== *)
theory Bundle
  imports Kelso
begin

text \<open>
  \<^verbatim>\<open>kelso/lib/bundle.py\<close>: an app kept as one markdown file. The scan for its file blocks, what a load
  refuses, and what extracting it writes. Text is Python text: a character is a code point below 256.
\<close>

section \<open>Lines\<close>

text \<open>\<^verbatim>\<open>str.splitlines\<close> ends a line at more than the line feed.\<close>

definition VT :: char where "VT = CHR 0x0B"
definition FF :: char where "FF = CHR 0x0C"

definition is_line_break :: "char \<Rightarrow> bool" where
  "is_line_break c \<longleftrightarrow> c \<in> {LF, CR, VT, FF, CHR 0x1C, CHR 0x1D, CHR 0x1E, CHR 0x85}"

function split_lines :: "string \<Rightarrow> string list" where
  "split_lines [] = []"
| "split_lines (c # cs) =
     (if is_line_break c
      then [] # split_lines (if c = CR \<and> cs \<noteq> [] \<and> hd cs = LF then tl cs else cs)
      else (case split_lines cs of [] \<Rightarrow> [[c]] | l # ls \<Rightarrow> (c # l) # ls))"
  by pat_completeness auto
termination
  by (relation "measure length") (auto simp: less_Suc_eq_le)

declare split_lines.simps(2) [simp del]

section \<open>File blocks\<close>

record md_file =
  md_path :: string
  md_exec :: bool
  md_content :: string

text \<open>\<^verbatim>\<open>\w\<close> of a text pattern: letters and numbers of any script, and the underscore.\<close>

definition is_word :: "char \<Rightarrow> bool" where
  "is_word c \<longleftrightarrow> is_alnum c \<or> c = CHR ''_'' \<or>
     (let n = (of_char c :: nat) in n \<in> {170, 178, 179, 181, 185, 186, 188, 189, 190} \<or>
        192 \<le> n \<and> n \<noteq> 215 \<and> n \<noteq> 247)"

definition FENCE :: string where "FENCE = ''```''"
definition PATH_ATTR :: string where "PATH_ATTR = ''klso_path='' @ [CHR 0x22]"
definition EXEC_MARK :: string where "EXEC_MARK = '':+x''"

text \<open>\<^verbatim>\<open>KLSO_MD_FILE_PATTERN.match\<close>: the path group is lazy, so it leaves a \<^verbatim>\<open>:+x\<close> after it to the mark.\<close>

definition match_header :: "string \<Rightarrow> (string \<times> bool) option" where
  "match_header line =
     (let after = dropWhile is_word (drop 3 line);
          attr = dropWhile is_space after;
          body = drop (length PATH_ATTR) attr;
          t = takeWhile (\<lambda>c. c \<noteq> CHR 0x22) body;
          rest = dropWhile (\<lambda>c. c \<noteq> CHR 0x22) body
      in if starts_with line FENCE \<and> after \<noteq> [] \<and> is_space (hd after) \<and> starts_with attr PATH_ATTR
            \<and> t \<noteq> [] \<and> rest \<noteq> [] \<and> list_all is_space (tl rest)
         then Some (if length t > 3 \<and> ends_with t EXEC_MARK then (remove_suffix t EXEC_MARK, True) else (t, False))
         else None)"

text \<open>The loop of \<^verbatim>\<open>extract_md_files\<close>: the block it is in, if any, and the lines of it so far.\<close>

definition block_file :: "string \<Rightarrow> bool \<Rightarrow> string list \<Rightarrow> md_file" where
  "block_file p ex ls = \<lparr>md_path = p, md_exec = ex, md_content = join [LF] ls\<rparr>"

fun scan_md :: "(string \<times> bool \<times> string list) option \<Rightarrow> string list \<Rightarrow> md_file list \<times> bool" where
  "scan_md None [] = ([], False)"
| "scan_md (Some (p, ex, content)) [] = ([block_file p ex content], True)"
| "scan_md None (l # ls) =
     (case match_header l of
        None \<Rightarrow> scan_md None ls
      | Some (p, ex) \<Rightarrow> scan_md (Some (p, ex, [])) ls)"
| "scan_md (Some (p, ex, content)) (l # ls) =
     (if strip l = FENCE
      then (case scan_md None ls of (files, unclosed) \<Rightarrow> (block_file p ex content # files, unclosed))
      else scan_md (Some (p, ex, content @ [l])) ls)"

definition extract_md_files :: "string \<Rightarrow> md_file list \<times> bool" where
  "extract_md_files content = scan_md None (split_lines content)"

section \<open>What a load refuses\<close>

definition KLSO_MD_CUTOFF_KB :: nat where "KLSO_MD_CUTOFF_KB = 128"

definition MANIFEST :: string where "MANIFEST = ''manifest.toml''"

datatype md_problem =
    UnclosedBlock string
  | NoFiles
  | NoManifest
  | AbsolutePath string
  | TraversesUp string
  | EmptyFile string

datatype md_error = TooLarge nat | InvalidMd "md_problem list"

text \<open>The length of the UTF-8 encoding.\<close>

definition utf8_length :: "string \<Rightarrow> nat" where
  "utf8_length s = sum_list (List.map (\<lambda>c. if (of_char c :: nat) < 128 then 1 else 2) s)"

text \<open>\<^verbatim>\<open>Path(p).parts\<close> of a relative path.\<close>

definition path_parts :: "string \<Rightarrow> string list" where
  "path_parts p = List.filter (\<lambda>x. x \<noteq> [] \<and> x \<noteq> ''.'') (split_on (CHR ''/'') p)"

definition file_problems :: "md_file \<Rightarrow> md_problem list" where
  "file_problems f =
     (if starts_with (md_path f) ''/'' then [AbsolutePath (md_path f)] else [])
     @ (if ''..'' \<in> set (path_parts (md_path f)) then [TraversesUp (md_path f)] else [])
     @ (if md_content f = [] then [EmptyFile (md_path f)] else [])"

definition md_bundle_files :: "string \<Rightarrow> md_error + md_file list" where
  "md_bundle_files content =
     (let size = utf8_length content in
      if size > KLSO_MD_CUTOFF_KB * 1024 then Inl (TooLarge size)
      else (case extract_md_files content of (files, unclosed) \<Rightarrow>
        let problems =
          (if unclosed then [UnclosedBlock (md_path (last files))] else [])
          @ (if files = [] then [NoFiles] else [])
          @ (if list_ex (\<lambda>f. md_path f = MANIFEST) files then [] else [NoManifest])
          @ concat (List.map file_problems files)
        in if problems \<noteq> [] then Inl (InvalidMd problems) else Inr files))"

section \<open>What extracting writes\<close>

text \<open>
  Files by their components, with what they hold and whether they may be run; a directory is what a
  file lies below. Writing makes the parents; it raises where one of them is a file, or where the
  destination is a directory. Rewriting a file keeps its mode.
\<close>

type_synonym tree = "(string list, string \<times> bool) dict"

datatype write_error = ParentIsAFile "string list" | IsADirectory "string list"

definition dest_parts :: "string list \<Rightarrow> string \<Rightarrow> string list" where
  "dest_parts target p = (if starts_with p ''/'' then path_parts p else target @ path_parts p)"

definition below :: "string list \<Rightarrow> string list \<Rightarrow> bool" where
  "below d k \<longleftrightarrow> starts_with k d \<and> k \<noteq> d"

definition write_md :: "string list \<Rightarrow> md_file \<Rightarrow> tree \<Rightarrow> write_error + tree" where
  "write_md target f tree =
     (let d = dest_parts target (md_path f) in
      if list_ex (\<lambda>k. below k d) (keys tree) then Inl (ParentIsAFile d)
      else if d = target \<or> list_ex (\<lambda>k. below d k) (keys tree) then Inl (IsADirectory d)
      else Inr (AList.update d
        (md_content f @ [LF], md_exec f \<or> (case map_of tree d of None \<Rightarrow> False | Some (c, ex) \<Rightarrow> ex)) tree))"

fun extract_to :: "string list \<Rightarrow> md_file list \<Rightarrow> tree \<Rightarrow> write_error + tree" where
  "extract_to target [] tree = Inr tree"
| "extract_to target (f # fs) tree = andthen (write_md target f tree) (extract_to target fs)"

section \<open>Opening a bundle\<close>

datatype bundle_error =
    NotAKelsoApp string
  | BundleFind find_error
  | BundleMd md_error
  | TarNotSupported
  | MissingManifest string
  | Unreadable string

datatype kelso_app = FolderApp string string | MdApp string string "md_file list"

text \<open>\<open>read\<close> is the text of the file at a path, as \<^verbatim>\<open>open(path)\<close> gives it; None an \<^verbatim>\<open>OSError\<close>.\<close>

definition md_text :: "(string \<Rightarrow> string option) \<Rightarrow> string \<Rightarrow> string" where
  "md_text read path = (case read path of None \<Rightarrow> [] | Some t \<Rightarrow> t)"

definition manifest_of :: "md_file list \<Rightarrow> string option" where
  "manifest_of fs = map_option md_content (List.find (\<lambda>f. md_path f = MANIFEST) fs)"

definition manifest_text :: "disk \<Rightarrow> (string \<Rightarrow> string option) \<Rightarrow> string \<Rightarrow> string" where
  "manifest_text dk read path =
     (if dk_is_dir dk path then md_text read (path_join path MANIFEST)
      else if ends_with (path_name path) KLSO_MD_SUFFIX
      then (case read path of
              None \<Rightarrow> []
            | Some t \<Rightarrow> (case manifest_of (fst (extract_md_files t)) of None \<Rightarrow> [] | Some m \<Rightarrow> m))
      else [])"

definition bundle_text :: "disk \<Rightarrow> (string \<Rightarrow> string option) \<Rightarrow> string \<Rightarrow> string" where
  "bundle_text dk read path =
     (if ends_with (path_name path) KLSO_MD_SUFFIX then md_text read path else manifest_text dk read path)"

definition load_bundle :: "disk \<Rightarrow> (string \<Rightarrow> string option) \<Rightarrow> string \<Rightarrow> bundle_error + kelso_app" where
  "load_bundle dk read path =
     (let name = path_name path in
      if \<not> could_be_bundle dk path then Inl (NotAKelsoApp name)
      else if ends_with name KLSO_SUFFIX
      then (case lift_id (app_id (remove_suffix name KLSO_SUFFIX)) of
              Inl e \<Rightarrow> Inl (BundleFind e)
            | Inr app \<Rightarrow> if dk_is_dir dk path then Inr (FolderApp path app) else Inl (NotAKelsoApp name))
      else if ends_with name KLSO_MD_SUFFIX
      then (case lift_id (app_id (remove_suffix name KLSO_MD_SUFFIX)) of
              Inl e \<Rightarrow> Inl (BundleFind e)
            | Inr app \<Rightarrow> (case read path of
                None \<Rightarrow> Inl (Unreadable path)
              | Some t \<Rightarrow> (case md_bundle_files t of
                  Inl e \<Rightarrow> Inl (BundleMd e) | Inr fs \<Rightarrow> Inr (MdApp path app fs))))
      else (case lift_id (app_id (remove_suffix name KLSO_TAR_SUFFIX)) of
              Inl e \<Rightarrow> Inl (BundleFind e) | Inr app \<Rightarrow> Inl TarNotSupported))"

text \<open>The manifest \<^verbatim>\<open>BundleMdFile.app_spec\<close> parses: the first block of that path.\<close>

definition md_manifest :: "md_file list \<Rightarrow> bundle_error + string" where
  "md_manifest fs = (case manifest_of fs of None \<Rightarrow> Inl (MissingManifest MANIFEST) | Some m \<Rightarrow> Inr m)"

section \<open>Blocks as they are written\<close>

definition render_file :: "md_file \<Rightarrow> string" where
  "render_file f =
     FENCE @ '' '' @ PATH_ATTR @ md_path f @ (if md_exec f then EXEC_MARK else []) @ [CHR 0x22, LF]
     @ md_content f @ [LF] @ FENCE @ [LF]"

definition render_md :: "md_file list \<Rightarrow> string" where
  "render_md fs = concat (List.map render_file fs)"

text \<open>What a block can carry.\<close>

definition renderable :: "md_file \<Rightarrow> bool" where
  "renderable f \<longleftrightarrow>
     md_path f \<noteq> [] \<and> CHR 0x22 \<notin> set (md_path f) \<and> (\<forall>c \<in> set (md_path f). \<not> is_line_break c) \<and>
     (md_exec f \<or> length (md_path f) \<le> 3 \<or> \<not> ends_with (md_path f) EXEC_MARK) \<and>
     (\<forall>c \<in> set (md_content f). is_line_break c \<longrightarrow> c = LF) \<and>
     (\<forall>l \<in> set (split_on LF (md_content f)). strip l \<noteq> FENCE)"

lemma line_break_simps [simp]:
  "is_line_break LF" "is_line_break FF" "\<not> is_line_break (CHR 0x22)" "\<not> is_line_break (CHR ''`'')"
  "\<not> is_line_break (CHR '' '')"
  by (simp_all add: is_line_break_def FF_def VT_def)

lemma split_lines_line:
  assumes "\<forall>c \<in> set l. \<not> is_line_break c" and "b = LF \<or> b = FF"
  shows "split_lines (l @ b # rest) = l # split_lines rest"
  using assms(1)
proof (induction l)
  case Nil
  have "is_line_break b" "b \<noteq> CR" using assms(2) line_break_simps(1,2) by (auto simp: FF_def)
  then show ?case by (simp add: split_lines.simps(2))
qed (simp add: split_lines.simps(2))

text \<open>A form feed inside a block ends a line, and what is written has a line feed there.\<close>

lemma form_feed_becomes_line_feed:
  assumes "\<forall>c \<in> set a \<union> set b. \<not> is_line_break c"
  shows "join [LF] (split_lines (a @ [FF] @ b @ [LF])) = a @ [LF] @ b"
  using assms by (simp add: split_lines_line)

lemma split_lines_no_break: "l \<in> set (split_lines s) \<Longrightarrow> c \<in> set l \<Longrightarrow> \<not> is_line_break c"
proof (induction s arbitrary: l rule: split_lines.induct)
  case (2 x cs)
  show ?case
  proof (cases "is_line_break x")
    case True
    with 2 show ?thesis by (auto simp: split_lines.simps(2))
  next
    case False
    show ?thesis
    proof (cases "split_lines cs")
      case Nil
      with 2(3,4) False show ?thesis by (simp add: split_lines.simps(2))
    next
      case (Cons m ms)
      with 2(3) False have "l = x # m \<or> l \<in> set ms" by (simp add: split_lines.simps(2))
      with 2(2) [OF False] 2(4) False Cons show ?thesis by fastforce
    qed
  qed
qed simp

lemma split_lines_text:
  assumes "\<forall>c \<in> set t. is_line_break c \<longrightarrow> c = LF"
  shows "split_lines (t @ LF # rest) = split_on LF t @ split_lines rest"
proof -
  have "split_lines (join [LF] ls @ LF # rest) = ls @ split_lines rest"
    if "ls \<noteq> []" "\<forall>l \<in> set ls. \<forall>c \<in> set l. \<not> is_line_break c" for ls
    using that
  proof (induction ls rule: join.induct)
    case (2 sep l)
    then show ?case by (simp add: split_lines_line)
  next
    case (3 sep l m ms)
    then show ?case by (simp add: split_lines_line)
  qed simp
  moreover have "\<not> is_line_break c" if "l \<in> set (split_on LF t)" "c \<in> set l" for l c
    using that assms split_on_parts [of l LF t] split_on_chars [of l LF t] by blast
  ultimately show ?thesis using join_split_on [of LF t] by (metis split_on_nonempty)
qed

section \<open>The scan inverts the writing\<close>

lemma takeWhile_sep: "x \<notin> set t \<Longrightarrow> takeWhile (\<lambda>c. c \<noteq> x) (t @ [x]) = t"
  by (induction t) auto

lemma dropWhile_sep: "x \<notin> set t \<Longrightarrow> dropWhile (\<lambda>c. c \<noteq> x) (t @ [x]) = [x]"
  by (induction t) auto

lemma match_header_line:
  assumes q: "CHR 0x22 \<notin> set t" and "t \<noteq> []"
  shows "match_header (FENCE @ '' '' @ PATH_ATTR @ t @ [CHR 0x22]) =
    Some (if length t > 3 \<and> ends_with t EXEC_MARK then (remove_suffix t EXEC_MARK, True) else (t, False))"
proof -
  have space: "\<not> is_word (CHR '' '')" "is_space (CHR '' '')" "\<not> is_space (CHR ''k'')"
    by (simp_all add: is_word_def is_space_def char_class_defs)
  have d: "dropWhile is_word (drop 3 (FENCE @ '' '' @ PATH_ATTR @ t @ [CHR 0x22])) = '' '' @ PATH_ATTR @ t @ [CHR 0x22]"
    using space by (simp add: FENCE_def)
  have a: "dropWhile is_space ('' '' @ PATH_ATTR @ t @ [CHR 0x22]) = PATH_ATTR @ t @ [CHR 0x22]"
    using space by (simp add: PATH_ATTR_def)
  show ?thesis
    unfolding match_header_def Let_def d a
    using space assms(2) by (simp add: takeWhile_sep [OF q] dropWhile_sep [OF q])
qed

lemma match_header_render:
  assumes "renderable f"
  shows "match_header (FENCE @ '' '' @ PATH_ATTR @ md_path f @ (if md_exec f then EXEC_MARK else []) @ [CHR 0x22])
    = Some (md_path f, md_exec f)"
proof -
  let ?t = "md_path f @ (if md_exec f then EXEC_MARK else [])"
  have q: "CHR 0x22 \<notin> set ?t" "?t \<noteq> []" using assms by (auto simp: renderable_def EXEC_MARK_def)
  have len: "length ?t > 3 \<and> ends_with ?t EXEC_MARK \<longleftrightarrow> md_exec f"
    using assms by (auto simp: renderable_def EXEC_MARK_def)
  have "remove_suffix ?t EXEC_MARK = md_path f" if "md_exec f" using that by simp
  with match_header_line [OF q] show ?thesis unfolding len by (cases "md_exec f") simp_all
qed

lemma scan_block:
  "\<forall>l \<in> set ls. strip l \<noteq> FENCE \<Longrightarrow> scan_md (Some (p, ex, acc)) (ls @ FENCE # rest) =
     (block_file p ex (acc @ ls) # fst (scan_md None rest), snd (scan_md None rest))"
proof (induction ls arbitrary: acc)
  case Nil
  have "strip FENCE = FENCE" by (simp add: strip_def FENCE_def is_space_def)
  then show ?case by (simp add: case_prod_beta)
qed simp

lemma split_lines_render:
  assumes "renderable f"
  shows "split_lines (render_file f @ rest) =
    (FENCE @ '' '' @ PATH_ATTR @ md_path f @ (if md_exec f then EXEC_MARK else []) @ [CHR 0x22])
      # split_on LF (md_content f) @ FENCE # split_lines rest"
proof -
  let ?head = "FENCE @ '' '' @ PATH_ATTR @ md_path f @ (if md_exec f then EXEC_MARK else []) @ [CHR 0x22]"
  have h: "\<forall>c \<in> set ?head. \<not> is_line_break c"
    using assms by (auto simp: renderable_def FENCE_def PATH_ATTR_def EXEC_MARK_def is_line_break_def FF_def VT_def)
  have f: "\<forall>c \<in> set FENCE. \<not> is_line_break c" by (simp add: FENCE_def)
  have t: "\<forall>c \<in> set (md_content f). is_line_break c \<longrightarrow> c = LF" using assms by (simp add: renderable_def)
  have "split_lines (render_file f @ rest) = split_lines (?head @ LF # (md_content f @ LF # (FENCE @ LF # rest)))"
    by (simp add: render_file_def)
  also have "\<dots> = ?head # split_lines (md_content f @ LF # (FENCE @ LF # rest))"
    by (rule split_lines_line [OF h]) simp
  also have "split_lines (md_content f @ LF # (FENCE @ LF # rest)) = split_on LF (md_content f) @ split_lines (FENCE @ LF # rest)"
    by (rule split_lines_text [OF t])
  also have "split_lines (FENCE @ LF # rest) = FENCE # split_lines rest"
    by (rule split_lines_line [OF f]) simp
  finally show ?thesis .
qed

lemma extract_render: "list_all renderable fs \<Longrightarrow> extract_md_files (render_md fs) = (fs, False)"
proof (induction fs)
  case (Cons f fs)
  then have f: "renderable f" and IH: "scan_md None (split_lines (render_md fs)) = (fs, False)"
    by (simp_all add: extract_md_files_def)
  have "\<forall>l \<in> set (split_on LF (md_content f)). strip l \<noteq> FENCE" using f by (simp add: renderable_def)
  from scan_block [OF this] match_header_render [OF f]
  have "scan_md None (split_lines (render_file f @ render_md fs)) = (f # fs, False)"
    unfolding split_lines_render [OF f] by (simp add: IH block_file_def join_split_on)
  then show ?case by (simp add: extract_md_files_def render_md_def)
qed (simp add: extract_md_files_def render_md_def)

definition header_ok :: "string \<Rightarrow> bool \<Rightarrow> bool" where
  "header_ok p ex \<longleftrightarrow> p \<noteq> [] \<and> CHR 0x22 \<notin> set p \<and> (\<forall>c \<in> set p. \<not> is_line_break c) \<and>
     (ex \<or> length p \<le> 3 \<or> \<not> ends_with p EXEC_MARK)"

lemma match_header_ok:
  assumes "match_header l = Some (p, ex)" "\<forall>c \<in> set l. \<not> is_line_break c"
  shows "header_ok p ex"
proof -
  obtain u where t: "if length (takeWhile (\<lambda>c. c \<noteq> CHR 0x22) u) > 3 \<and> ends_with (takeWhile (\<lambda>c. c \<noteq> CHR 0x22) u) EXEC_MARK
      then p = remove_suffix (takeWhile (\<lambda>c. c \<noteq> CHR 0x22) u) EXEC_MARK \<and> ex
      else p = takeWhile (\<lambda>c. c \<noteq> CHR 0x22) u \<and> \<not> ex" "takeWhile (\<lambda>c. c \<noteq> CHR 0x22) u \<noteq> []"
    and u: "set u \<subseteq> set l"
  proof
    let ?u = "drop (length PATH_ATTR) (dropWhile is_space (dropWhile is_word (drop 3 l)))"
    show "set ?u \<subseteq> set l" by (meson order_trans set_drop_subset set_dropWhileD subsetI)
    show "if length (takeWhile (\<lambda>c. c \<noteq> CHR 0x22) ?u) > 3 \<and> ends_with (takeWhile (\<lambda>c. c \<noteq> CHR 0x22) ?u) EXEC_MARK
      then p = remove_suffix (takeWhile (\<lambda>c. c \<noteq> CHR 0x22) ?u) EXEC_MARK \<and> ex
      else p = takeWhile (\<lambda>c. c \<noteq> CHR 0x22) ?u \<and> \<not> ex" "takeWhile (\<lambda>c. c \<noteq> CHR 0x22) ?u \<noteq> []"
      using assms(1) by (auto simp: match_header_def Let_def split: if_splits)
  qed
  let ?t = "takeWhile (\<lambda>c. c \<noteq> CHR 0x22) u"
  have tq: "CHR 0x22 \<notin> set ?t" by (auto dest: set_takeWhileD)
  have tb: "\<forall>c \<in> set ?t. \<not> is_line_break c" using assms(2) u by (auto dest!: set_takeWhileD)
  show ?thesis
  proof (cases "length ?t > 3 \<and> ends_with ?t EXEC_MARK")
    case True
    then have "drop (length ?t - length EXEC_MARK) ?t = EXEC_MARK" by (simp add: ends_with_def)
    then obtain r where r: "?t = r @ EXEC_MARK" by (metis append_take_drop_id)
    with t(1) True have "p = r" "ex" by auto
    moreover have "r \<noteq> []" using True r by (auto simp: EXEC_MARK_def)
    ultimately show ?thesis using tq tb r by (auto simp: header_ok_def)
  next
    case False
    with t tq tb show ?thesis by (auto simp: header_ok_def)
  qed
qed

lemma block_file_renderable:
  assumes "header_ok p ex" "\<forall>l \<in> set ls. strip l \<noteq> FENCE \<and> (\<forall>c \<in> set l. \<not> is_line_break c)"
  shows "renderable (block_file p ex ls)"
proof -
  have nolf: "LF \<notin> set l" if "l \<in> set ls" for l using assms(2) that line_break_simps(1) by blast
  have "strip l \<noteq> FENCE" if "l \<in> set (split_on LF (join [LF] ls))" for l
  proof (cases "ls = []")
    case True
    with that show ?thesis by (simp add: strip_def FENCE_def)
  next
    case False
    with nolf have "split_on LF (join [LF] ls) = ls" by (intro split_on_join) auto
    with that assms(2) show ?thesis by simp
  qed
  moreover have "c = LF" if "c \<in> set (join [LF] ls)" "is_line_break c" for c
    using set_join [of "[LF]" ls] that assms(2) by auto
  ultimately show ?thesis using assms(1) by (auto simp: renderable_def header_ok_def block_file_def)
qed

lemma scan_md_renderable:
  assumes "\<forall>l \<in> set lines. \<forall>c \<in> set l. \<not> is_line_break c"
    and "\<forall>p ex ls. st = Some (p, ex, ls) \<longrightarrow> header_ok p ex \<and> (\<forall>l \<in> set ls. strip l \<noteq> FENCE \<and> (\<forall>c \<in> set l. \<not> is_line_break c))"
  shows "list_all renderable (fst (scan_md st lines))"
  using assms
proof (induction st lines rule: scan_md.induct)
  case (2 p ex content)
  then show ?case by (simp add: block_file_renderable)
next
  case (3 l ls)
  show ?case
  proof (cases "match_header l")
    case None
    with 3 show ?thesis by simp
  next
    case (Some h)
    obtain p ex where h: "h = (p, ex)" by (cases h)
    have "header_ok p ex" using match_header_ok [of l p ex] Some h 3(3) by simp
    with 3(2) [OF Some h [symmetric]] 3(3) Some h show ?thesis by simp
  qed
next
  case (4 p ex content l ls)
  show ?case
  proof (cases "strip l = FENCE")
    case True
    with 4 show ?thesis by (simp add: case_prod_beta block_file_renderable)
  next
    case False
    with 4 show ?thesis by auto
  qed
qed simp

lemma extract_renderable: "list_all renderable (fst (extract_md_files t))"
  unfolding extract_md_files_def using split_lines_no_break by (intro scan_md_renderable) auto

section \<open>Where the files go\<close>

lemma write_md_spec:
  assumes "write_md target f tree = Inr tree'"
  shows "map_of tree' = (map_of tree)(dest_parts target (md_path f) \<mapsto>
      (md_content f @ [LF], md_exec f \<or> (case map_of tree (dest_parts target (md_path f)) of None \<Rightarrow> False | Some (c, ex) \<Rightarrow> ex)))"
  using assms by (auto simp: write_md_def Let_def split: if_splits)

lemma find_append:
  "List.find P (xs @ ys) = (case List.find P xs of None \<Rightarrow> List.find P ys | Some x \<Rightarrow> Some x)"
  by (induction xs) simp_all

lemma extract_to_spec:
  "extract_to target fs tree = Inr tree' \<Longrightarrow>
     (\<forall>d. map_of tree' d =
        (case List.find (\<lambda>f. dest_parts target (md_path f) = d) (rev fs) of
           None \<Rightarrow> map_of tree d
         | Some f \<Rightarrow> Some (md_content f @ [LF],
             list_ex (\<lambda>g. dest_parts target (md_path g) = d \<and> md_exec g) fs \<or>
             (case map_of tree d of None \<Rightarrow> False | Some (c, ex) \<Rightarrow> ex))))"
proof (induction fs arbitrary: tree)
  case (Cons f fs)
  from Cons.prems obtain t1 where t1: "write_md target f tree = Inr t1" and rest: "extract_to target fs t1 = Inr tree'"
    by (auto simp: andthen_Inr)
  have find: "List.find P (rev (f # fs)) = (case List.find P (rev fs) of None \<Rightarrow> if P f then Some f else None | Some g \<Rightarrow> Some g)" for P
    by (simp add: find_append split: option.split)
  show ?case
  proof
    fix d
    note IH = Cons.IH [OF rest, THEN spec, of d]
    show "map_of tree' d = (case List.find (\<lambda>f. dest_parts target (md_path f) = d) (rev (f # fs)) of
           None \<Rightarrow> map_of tree d
         | Some g \<Rightarrow> Some (md_content g @ [LF],
             list_ex (\<lambda>g. dest_parts target (md_path g) = d \<and> md_exec g) (f # fs) \<or>
             (case map_of tree d of None \<Rightarrow> False | Some (c, ex) \<Rightarrow> ex)))"
    proof (cases "dest_parts target (md_path f) = d")
      case True
      show ?thesis
      proof (cases "List.find (\<lambda>f. dest_parts target (md_path f) = d) (rev fs)")
        case None
        then have "\<not> list_ex (\<lambda>g. dest_parts target (md_path g) = d \<and> md_exec g) fs"
          by (auto simp: find_None_iff list_ex_iff)
        with None True show ?thesis unfolding find IH write_md_spec [OF t1] by simp
      next
        case (Some g)
        with True show ?thesis unfolding find IH write_md_spec [OF t1] by auto
      qed
    next
      case False
      then show ?thesis unfolding find IH write_md_spec [OF t1] by (simp split: option.split)
    qed
  qed
qed simp

lemma find_in: "List.find P xs = Some x \<Longrightarrow> x \<in> set xs \<and> P x"
  by (induction xs) (auto split: if_splits)

lemma extract_to_leaves_target:
  "extract_to target gs t = Inr t' \<Longrightarrow> map_of t target = None \<Longrightarrow> map_of t' target = None"
proof (induction gs arbitrary: t)
  case (Cons g gs)
  then obtain t1 where t1: "write_md target g t = Inr t1" and rest: "extract_to target gs t1 = Inr t'"
    by (auto simp: andthen_Inr)
  have "dest_parts target (md_path g) \<noteq> target" using t1 by (auto simp: write_md_def Let_def split: if_splits)
  then have "map_of t1 target = None" using write_md_spec [OF t1] Cons.prems(2) by simp
  with Cons.IH [OF rest] show ?case .
qed simp

section \<open>Properties\<close>

text \<open>Writing files as blocks and scanning the text gives the same files back exactly when each of
  them can be carried -- a path without quotes, contents broken by line feeds only and with no
  fence line -- and whatever the scan finds in any text can be, so a bundle that was read
  survives being written and read again.\<close>

lemma md_blocks_roundtrip:
  "(extract_md_files (render_md fs) = (fs, False) \<longleftrightarrow> list_all renderable fs) \<and>
   extract_md_files (render_md (fst (extract_md_files t))) = (fst (extract_md_files t), False)"
  using extract_render extract_renderable by (metis fst_conv)

text \<open>C15: a markdown bundle that is accepted and extracts writes nothing outside its target: every file
  it leaves is below the target without a step up, a manifest is among them, no file is empty, and each
  holds what the last block of that path says.\<close>

theorem accepted_md_stays_inside:
  assumes "md_bundle_files content = Inr fs" and "extract_to target fs [] = Inr tree"
  shows "(\<forall>d x. map_of tree d = Some x \<longrightarrow> (\<exists>ps. d = target @ ps \<and> ''..'' \<notin> set ps \<and> ps \<noteq> [])) \<and>
    (\<exists>m ex. map_of tree (target @ [MANIFEST]) = Some (m, ex)) \<and>
    (\<forall>d x ex. map_of tree d = Some (x, ex) \<longrightarrow> (\<exists>f \<in> set fs. x = md_content f @ [LF] \<and> md_content f \<noteq> [] \<and>
       dest_parts target (md_path f) = d)) \<and>
    (\<forall>pre f post. fs = pre @ f # post \<longrightarrow> (\<forall>g \<in> set post. dest_parts target (md_path g) \<noteq> dest_parts target (md_path f)) \<longrightarrow>
       (\<exists>ex. map_of tree (dest_parts target (md_path f)) = Some (md_content f @ [LF], ex) \<and> (md_exec f \<longrightarrow> ex)))"
proof -
  have ok: "file_problems f = []" if "f \<in> set fs" for f
    using assms(1) that
    by (auto simp: md_bundle_files_def Let_def split: if_splits prod.splits)
  have m: "list_ex (\<lambda>f. md_path f = MANIFEST) fs"
    using assms(1) by (auto simp: md_bundle_files_def Let_def split: if_splits prod.splits)
  have inside: "dest_parts target (md_path f) = target @ path_parts (md_path f)" "''..'' \<notin> set (path_parts (md_path f))"
    "md_content f \<noteq> []" if "f \<in> set fs" for f
    using ok [OF that] by (auto simp: file_problems_def dest_parts_def split: if_splits)
  note spec = extract_to_spec [OF assms(2), THEN spec]
  have found: "\<exists>f \<in> set fs. dest_parts target (md_path f) = d \<and> fst x = md_content f @ [LF]" if "map_of tree d = Some x" for d x
  proof (cases "List.find (\<lambda>f. dest_parts target (md_path f) = d) (rev fs)")
    case None
    with that spec [of d] show ?thesis by simp
  next
    case (Some f)
    from find_in [OF this] have "f \<in> set fs" "dest_parts target (md_path f) = d" by simp_all
    moreover have "fst x = md_content f @ [LF]" using that spec [of d] Some by auto
    ultimately show ?thesis by blast
  qed
  have last: "\<exists>ex. map_of tree (dest_parts target (md_path f)) = Some (md_content f @ [LF], ex) \<and> (md_exec f \<longrightarrow> ex)"
    if "fs = pre @ f # post" "\<forall>g \<in> set post. dest_parts target (md_path g) \<noteq> dest_parts target (md_path f)" for pre f post
  proof -
    have "List.find (\<lambda>g. dest_parts target (md_path g) = dest_parts target (md_path f)) (rev post) = None"
      using that(2) by (simp add: find_None_iff)
    then have "List.find (\<lambda>g. dest_parts target (md_path g) = dest_parts target (md_path f)) (rev fs) = Some f"
      by (simp add: that(1) find_append)
    then show ?thesis using spec [of "dest_parts target (md_path f)"] that(1) by auto
  qed
  have nonempty: "d \<noteq> target" if "map_of tree d = Some x" for d x
  proof -
    have "map_of tree target = None" by (rule extract_to_leaves_target [OF assms(2)]) simp
    with that show ?thesis by auto
  qed
  have "\<exists>ps. d = target @ ps \<and> ''..'' \<notin> set ps \<and> ps \<noteq> []" if "map_of tree d = Some x" for d x
    using found [OF that] inside nonempty [OF that] by fastforce
  moreover have "\<exists>x ex. map_of tree (target @ [MANIFEST]) = Some (x, ex)"
  proof -
    obtain f where f: "f \<in> set fs" "md_path f = MANIFEST" using m by (auto simp: list_ex_iff)
    then have d: "dest_parts target (md_path f) = target @ [MANIFEST]"
      by (simp add: dest_parts_def path_parts_def MANIFEST_def starts_with_def)
    with f(1) have "List.find (\<lambda>g. dest_parts target (md_path g) = target @ [MANIFEST]) (rev fs) \<noteq> None"
      by (auto simp: find_None_iff)
    with spec [of "target @ [MANIFEST]"] show ?thesis by (auto split: option.splits)
  qed
  moreover have "\<exists>f \<in> set fs. x = md_content f @ [LF] \<and> md_content f \<noteq> [] \<and> dest_parts target (md_path f) = d"
    if "map_of tree d = Some (x, ex)" for d x ex
    using found [OF that] inside(3) by fastforce
  ultimately show ?thesis using last by (intro conjI allI impI) blast+
qed

definition demo_md_files :: "md_file list" where
  "demo_md_files =
     [\<lparr>md_path = MANIFEST, md_exec = False, md_content = ''[app]''\<rparr>,
      \<lparr>md_path = ''bin/run'', md_exec = True, md_content = ''echo''\<rparr>]"

lemma demo_md_renderable: "list_all renderable demo_md_files"
  by (simp add: demo_md_files_def renderable_def MANIFEST_def is_line_break_def FF_def VT_def strip_def FENCE_def
      is_space_def ends_with_def EXEC_MARK_def)

lemma demo_md_accepted: "md_bundle_files (render_md demo_md_files) = Inr demo_md_files"
proof -
  have "utf8_length (render_md demo_md_files) \<le> KLSO_MD_CUTOFF_KB * 1024"
    by (simp add: utf8_length_def render_md_def render_file_def demo_md_files_def MANIFEST_def FENCE_def PATH_ATTR_def
        EXEC_MARK_def KLSO_MD_CUTOFF_KB_def)
  then show ?thesis
    unfolding md_bundle_files_def extract_render [OF demo_md_renderable]
    by (simp add: demo_md_files_def MANIFEST_def file_problems_def path_parts_def starts_with_def)
qed

theorem accepted_md_stays_inside_witness:
  "\<exists>tree m ex. extract_to [''k'', ''run''] demo_md_files [] = Inr tree \<and>
    map_of tree [''k'', ''run'', ''manifest.toml''] = Some (m, ex)"
proof -
  obtain tree where t: "extract_to [''k'', ''run''] demo_md_files [] = Inr tree"
    by (simp add: demo_md_files_def MANIFEST_def write_md_def dest_parts_def path_parts_def starts_with_def below_def)
  from accepted_md_stays_inside [OF demo_md_accepted t] t show ?thesis
    by (simp add: MANIFEST_def)
qed

end
