(* ===== verification/Backup.thy ===== *)
theory Backup
  imports Kelso Cronexpr
begin

text \<open>
  \<^verbatim>\<open>kelso/lib/backup.py\<close>: what a backup holds, when the scheduled one is due, how snapshots
  make up backups, and which of them a run forgets. Restic itself is third-party: its snapshots
  are what a listing of the repository returns.
\<close>

section \<open>Backups out of snapshots\<close>

record snapshot =
  sn_id :: string
  sn_time :: string
  sn_tags :: "(string, string) dict"
  sn_size :: int

record backup =
  bu_app :: "string option"
  bu_run :: string
  bu_time :: string
  bu_reason :: string
  bu_version :: string
  bu_kelso_id :: string
  bu_snapshots :: "(string, string) dict"
  bu_size :: int

datatype backup_error =
    BadTime string
  | BackupStore store_error
  | BackupSchedule cron_error
  | BackupApp name_error

definition SCHEDULED :: string where "SCHEDULED = ''scheduled''"
definition MANUAL :: string where "MANUAL = ''manual''"
definition UPDATE :: string where "UPDATE = ''update''"
definition PRE_RESTORE :: string where "PRE_RESTORE = ''pre-restore''"
definition DATA :: string where "DATA = ''data''"
definition BULK :: string where "BULK = ''bulk''"
definition STATE :: string where "STATE = ''state''"
definition APP_ROOT :: string where "APP_ROOT = ''/kelso/app''"
definition STATE_ROOT :: string where "STATE_ROOT = ''/kelso/state''"

definition tag :: "snapshot \<Rightarrow> string \<Rightarrow> string \<Rightarrow> string" where
  "tag s name otherwise = (case map_of (sn_tags s) name of None \<Rightarrow> otherwise | Some v \<Rightarrow> v)"

text \<open>\<^verbatim>\<open>restic.snapshots(tags)\<close>: the ones that carry every tag asked for.\<close>

definition with_tags :: "(string, string) dict \<Rightarrow> snapshot list \<Rightarrow> snapshot list" where
  "with_tags tags = List.filter (\<lambda>s. list_all (\<lambda>(k, v). map_of (sn_tags s) k = Some v) tags)"

definition backup_of :: "string \<Rightarrow> snapshot \<Rightarrow> backup" where
  "backup_of app s =
     \<lparr>bu_app = Some app, bu_run = tag s ''run'' (take 8 (sn_id s)), bu_time = sn_time s,
      bu_reason = tag s ''reason'' [], bu_version = tag s ''version'' [], bu_kelso_id = tag s ''kelso_id'' [],
      bu_snapshots = [], bu_size = 0\<rparr>"

definition add_snapshot ::
    "snapshot \<Rightarrow> (string \<times> string, backup) dict \<Rightarrow> backup_error + (string \<times> string, backup) dict" where
  "add_snapshot s found =
     (case map_of (sn_tags s) ''app'' of
        None \<Rightarrow> Inr found
      | Some app \<Rightarrow>
          let key = (app, tag s ''run'' (sn_id s));
              put = (\<lambda>b. AList.update key
                (b\<lparr>bu_snapshots := AList.update (tag s ''part'' DATA) (sn_id s) (bu_snapshots b),
                   bu_size := bu_size b + sn_size s\<rparr>) found)
          in (case map_of found key of
                Some b \<Rightarrow> Inr (put b)
              | None \<Rightarrow> (case app_id app of
                  Inl e \<Rightarrow> Inl (BackupApp e) | Inr a \<Rightarrow> Inr (put (backup_of a s)))))"

fun gather :: "snapshot list \<Rightarrow> (string \<times> string, backup) dict \<Rightarrow> backup_error + (string \<times> string, backup) dict" where
  "gather [] found = Inr found"
| "gather (s # ss) found = andthen (add_snapshot s found) (gather ss)"

definition backups :: "snapshot list \<Rightarrow> string option \<Rightarrow> backup_error + backup list" where
  "backups snaps app =
     andthen (gather (case app of None \<Rightarrow> snaps | Some a \<Rightarrow> with_tags [(''app'', a)] snaps) []) (\<lambda>found.
       Inr (sort_key bu_run (List.map snd found)))"

definition state_backup_of :: "snapshot \<Rightarrow> backup" where
  "state_backup_of s =
     \<lparr>bu_app = None, bu_run = tag s ''run'' (sn_id s), bu_time = sn_time s, bu_reason = tag s ''reason'' [],
      bu_version = [], bu_kelso_id = tag s ''kelso_id'' [], bu_snapshots = [(STATE, sn_id s)], bu_size = 0\<rparr>"

definition state_backups :: "snapshot list \<Rightarrow> snapshot list" where
  "state_backups snaps = with_tags [(STATE, ''kelso'')] snaps"

section \<open>Retention\<close>

text \<open>
  \<^verbatim>\<open>fromisoformat\<close> of a time as \<^verbatim>\<open>_timestamp\<close> prints it, to the day, and \<^verbatim>\<open>strftime\<close> of the three
  periods: the day, the ISO year and week, the month.
\<close>

definition date_of :: "string \<Rightarrow> date option" where
  "date_of t =
     (let y = take 4 t; m = take 2 (drop 5 t); d = take 2 (drop 8 t) in
      if length t \<ge> 10 \<and> t ! 4 = CHR ''-'' \<and> t ! 7 = CHR ''-'' \<and> str_isdigit y \<and> str_isdigit m \<and> str_isdigit d
         \<and> valid_date (nat_of_str y, nat_of_str m, nat_of_str d)
      then Some (nat_of_str y, nat_of_str m, nat_of_str d) else None)"

datatype period = Day | Week | Month

definition weeks_in :: "nat \<Rightarrow> nat" where
  "weeks_in y = (if weekday (y, 1, 1) = 3 \<or> (is_leap y \<and> weekday (y, 1, 1) = 2) then 53 else 52)"

fun iso_week :: "date \<Rightarrow> nat \<times> nat" where
  "iso_week (y, m, d) =
     (let doy = days_before_month y m + d; w = (doy + 9 - weekday (y, m, d)) div 7
      in if w = 0 then (y - 1, weeks_in (y - 1)) else if w > weeks_in y then (y + 1, 1) else (y, w))"

fun bucket :: "period \<Rightarrow> date \<Rightarrow> nat \<times> nat \<times> nat" where
  "bucket Day (y, m, d) = (y, m, d)"
| "bucket Week (y, m, d) = (case iso_week (y, m, d) of (g, v) \<Rightarrow> (g, v, 0))"
| "bucket Month (y, m, d) = (y, m, 0)"

definition newest_first :: "backup list \<Rightarrow> backup list" where
  "newest_first bs = rev (sort_key bu_run (rev bs))"

fun keep_buckets :: "period \<Rightarrow> nat \<Rightarrow> (nat \<times> nat \<times> nat) list \<Rightarrow> backup list \<Rightarrow> backup_error + string list" where
  "keep_buckets p count seen [] = Inr []"
| "keep_buckets p count seen (b # bs) =
     (case date_of (bu_time b) of
        None \<Rightarrow> Inl (BadTime (bu_time b))
      | Some d \<Rightarrow>
          if bucket p d \<in> set seen then keep_buckets p count seen bs
          else if length seen = count then Inr []
          else andthen (keep_buckets p count (seen @ [bucket p d]) bs) (\<lambda>runs. Inr (bu_run b # runs)))"

definition keep_count :: "string \<Rightarrow> nat \<Rightarrow> backup list \<Rightarrow> string list" where
  "keep_count reason count newest =
     List.map bu_run (take count (List.filter (\<lambda>b. bu_reason b = reason) newest))"

definition expired :: "backup list \<Rightarrow> backup_keep \<Rightarrow> backup_error + backup list" where
  "expired bs keep =
     (let newest = newest_first bs; scheduled = List.filter (\<lambda>b. bu_reason b = SCHEDULED) newest in
      andthen (keep_buckets Day (bk_daily keep) [] scheduled) (\<lambda>days.
      andthen (keep_buckets Week (bk_weekly keep) [] scheduled) (\<lambda>weeks.
      andthen (keep_buckets Month (bk_monthly keep) [] scheduled) (\<lambda>months.
        let kept = days @ weeks @ months @ keep_count MANUAL (bk_manual keep) newest
              @ keep_count UPDATE 1 newest @ keep_count PRE_RESTORE 1 newest
        in Inr (List.filter (\<lambda>b. bu_run b \<notin> set kept) bs)))))"

section \<open>When the scheduled run is due\<close>

text \<open>\<open>localtime\<close> is \<^verbatim>\<open>fromisoformat(t).astimezone()\<close> without its zone, as the machine's clock is set.\<close>

definition due_anchor ::
    "(string \<Rightarrow> moment) \<Rightarrow> 's store_ops \<Rightarrow> 's \<Rightarrow> moment \<Rightarrow> store_error + moment" where
  "due_anchor localtime ops s since =
     andthen (last_backup_run ops s (Some SCHEDULED)) (\<lambda>last. case last of
         None \<Rightarrow> Inr since
       | Some run \<Rightarrow> andthen (json_field ''time'' (JObj run)) (\<lambda>t. case t of
           JStr x \<Rightarrow> Inr (localtime x) | _ \<Rightarrow> Inl WrongType))"

definition backup_due ::
    "(string \<Rightarrow> moment) \<Rightarrow> 's store_ops \<Rightarrow> 's \<Rightarrow> backup_entry \<Rightarrow> moment \<Rightarrow> moment
       \<Rightarrow> (backup_error + bool) option" where
  "backup_due localtime ops s entry since now =
     (case be_schedule entry of
        None \<Rightarrow> Some (Inr False)
      | Some txt' \<Rightarrow>
          (case due_anchor localtime ops s since of
             Inl e \<Rightarrow> Some (Inl (BackupStore e))
           | Inr anchor \<Rightarrow>
               (case parse_schedule txt' of
                  Inl e \<Rightarrow> Some (Inl (BackupSchedule e))
                | Inr schedule \<Rightarrow> (case next_after schedule anchor of
                    None \<Rightarrow> None
                  | Some (Inl e) \<Rightarrow> Some (Inl (BackupSchedule e))
                  | Some (Inr at) \<Rightarrow> Some (Inr (at \<le> now))))))"

section \<open>What a backup holds\<close>

definition volume_dirs :: "disk \<Rightarrow> config \<Rightarrow> string \<Rightarrow> string \<Rightarrow> (string, string) dict" where
  "volume_dirs dk cfg app kind =
     (let root = path_joins (cfg_kelso_root cfg) [''volumes'', kind, app] in
      if \<not> dk_is_dir dk root then []
      else List.map (\<lambda>n. (n, path_join root n)) (List.filter (\<lambda>n. dk_is_dir dk (path_join root n)) (sort (dk_names dk root))))"

definition app_sources :: "disk \<Rightarrow> config \<Rightarrow> string \<Rightarrow> (string, string) dict" where
  "app_sources dk cfg app =
     (let base = APP_ROOT @ ''/'' @ app;
          bundle = bundle_path_in_run (app_run_path cfg app);
          config = app_config_path cfg app
      in List.map (\<lambda>(n, path). (path, base @ ''/'' @ DATA @ ''/'' @ n)) (volume_dirs dk cfg app DATA)
         @ (if dk_is_dir dk bundle then [(bundle, base @ ''/app_bundle'')] else [])
         @ (if dk_is_file dk config then [(config, base @ ''/config.logtab'')] else []))"

definition bulk_sources ::
    "disk \<Rightarrow> config \<Rightarrow> 's store_ops \<Rightarrow> 's \<Rightarrow> string \<Rightarrow> store_error + (string, string) dict" where
  "bulk_sources dk cfg ops s app =
     (if \<not> dk_is_file dk (app_config_path cfg app) then Inr []
      else andthen (backed_up_bulk ops s) (\<lambda>wanted.
        Inr (List.map (\<lambda>(n, path). (path, APP_ROOT @ ''/'' @ app @ ''/'' @ BULK @ ''/'' @ n))
               (List.filter (\<lambda>(n, path). n \<in> set wanted) (volume_dirs dk cfg app BULK)))))"

definition state_sources :: "disk \<Rightarrow> config \<Rightarrow> store_error + (string, string) dict" where
  "state_sources dk cfg =
     (case map_of (cfg_repos cfg) ''local'' of
        None \<Rightarrow> Inl (MissingField ''local'')
      | Some local \<Rightarrow> Inr (List.filter (\<lambda>(host, guest). dk_is_file dk host \<or> dk_is_dir dk host)
          [(cfg_config_path cfg, STATE_ROOT @ ''/config.toml''),
           (kelsodb_path cfg, STATE_ROOT @ ''/kelsodb.logtab''),
           (app_config_root cfg, STATE_ROOT @ ''/apps''),
           (repo_path local, STATE_ROOT @ ''/repos/local'')]))"

text \<open>Every app kelso holds anything for. \<open>configured\<close> are the ids with a config file.\<close>

definition backed_up_apps :: "disk \<Rightarrow> config \<Rightarrow> string list \<Rightarrow> name_error + string list" where
  "backed_up_apps dk cfg configured =
     (let root = path_joins (cfg_kelso_root cfg) [''volumes'', DATA];
          kept = (if \<not> dk_is_dir dk root then []
                  else List.filter (\<lambda>a. dk_is_dir dk (path_join root a) \<and>
                         list_ex (\<lambda>v. dk_is_dir dk (path_joins root [a, v])) (dk_names dk (path_join root a)))
                       (dk_names dk root))
      in traverse app_id (sort (remdups (configured @ kept))))"

definition root_links :: "disk \<Rightarrow> config \<Rightarrow> (string \<Rightarrow> string option) \<Rightarrow> (string, string) dict" where
  "root_links dk cfg readlink =
     (let root = cfg_kelso_root cfg;
          named = List.map (\<lambda>k. ''volumes/'' @ k) (keys (volume_roots cfg)) @ [''backups''];
          more = sort (List.filter (\<lambda>n. readlink (path_join root n) \<noteq> None \<and> n \<notin> set named) (dk_names dk root))
      in List.map (\<lambda>n. (n, case readlink (path_join root n) of None \<Rightarrow> [] | Some t \<Rightarrow> t))
           (List.filter (\<lambda>n. dk_is_dir dk (path_join root n) \<or> dk_is_file dk (path_join root n)
              \<or> readlink (path_join root n) \<noteq> None) (named @ more)))"

definition destination_problem ::
    "disk \<Rightarrow> config \<Rightarrow> (string \<Rightarrow> string option) \<Rightarrow> bool \<Rightarrow> (string \<times> bool) option" where
  "destination_problem dk cfg readlink same_disk =
     (let root = backups_root cfg in
      if readlink root \<noteq> None \<and> \<not> dk_is_dir dk root \<and> \<not> dk_is_file dk root then Some (root, False)
      else if be_require_mount (cfg_backup cfg) \<and> same_disk then Some (root, True)
      else None)"

section \<open>What retention keeps\<close>

definition period_of :: "period \<Rightarrow> backup \<Rightarrow> (nat \<times> nat \<times> nat) option" where
  "period_of p b = map_option (bucket p) (date_of (bu_time b))"

text \<open>The backups taken for the same reason and later, and when one is wanted.\<close>

definition later :: "backup list \<Rightarrow> backup \<Rightarrow> backup set" where
  "later bs b = {c \<in> set bs. bu_reason c = bu_reason b \<and> bu_run b < bu_run c}"

definition wanted_for :: "backup list \<Rightarrow> period \<Rightarrow> nat \<Rightarrow> backup \<Rightarrow> bool" where
  "wanted_for bs p count b \<longleftrightarrow>
     (\<forall>c \<in> later bs b. period_of p c \<noteq> period_of p b) \<and> card (period_of p ` later bs b) < count"

definition wanted :: "backup list \<Rightarrow> backup_keep \<Rightarrow> backup \<Rightarrow> bool" where
  "wanted bs keep b \<longleftrightarrow>
     (bu_reason b = SCHEDULED \<and>
        (wanted_for bs Day (bk_daily keep) b \<or> wanted_for bs Week (bk_weekly keep) b \<or> wanted_for bs Month (bk_monthly keep) b)) \<or>
     (bu_reason b = MANUAL \<and> card (later bs b) < bk_manual keep) \<or>
     (bu_reason b \<in> {UPDATE, PRE_RESTORE} \<and> later bs b = {})"

lemma newest_first_set [simp]: "set (newest_first bs) = set bs"
  by (simp add: newest_first_def)

lemma newest_first_desc:
  assumes "distinct (List.map bu_run bs)"
  shows "sorted_wrt (\<lambda>a b. bu_run b < bu_run a) (newest_first bs)"
proof -
  let ?s = "sort_key bu_run (rev bs)"
  have "distinct (List.map bu_run ?s)"
    using assms by (simp add: distinct_map)
  moreover have "sorted (List.map bu_run ?s)" by simp
  ultimately have "sorted_wrt (<) (List.map bu_run ?s)" by (simp add: strict_sorted_iff)
  then show ?thesis by (simp add: newest_first_def sorted_wrt_rev sorted_wrt_map)
qed

lemma keep_buckets_runs: "keep_buckets p count seen bs = Inr runs \<Longrightarrow> set runs \<subseteq> bu_run ` set bs"
proof (induction bs arbitrary: seen runs)
  case (Cons b bs)
  from Cons.prems obtain d where d: "date_of (bu_time b) = Some d" by (auto split: option.splits)
  show ?case
  proof (cases "bucket p d \<in> set seen")
    case True
    with Cons d show ?thesis by fastforce
  next
    case False
    show ?thesis
    proof (cases "length seen = count")
      case True
      with Cons.prems False d show ?thesis by simp
    next
      case more: False
      with Cons.prems False d obtain rs where rs: "keep_buckets p count (seen @ [bucket p d]) bs = Inr rs" "runs = bu_run b # rs"
        by (auto simp: andthen_Inr)
      with Cons.IH [OF rs(1)] show ?thesis by auto
    qed
  qed
qed simp

text \<open>When the loop keeps a run, given the periods it has seen.\<close>

definition keeps_run :: "period \<Rightarrow> nat \<Rightarrow> (nat \<times> nat \<times> nat) list \<Rightarrow> backup list \<Rightarrow> backup \<Rightarrow> bool" where
  "keeps_run p count seen bs b \<longleftrightarrow>
     period_of p b \<notin> Some ` set seen \<and>
     (\<forall>c \<in> set bs. bu_run b < bu_run c \<longrightarrow> period_of p c \<noteq> period_of p b) \<and>
     card (Some ` set seen \<union> period_of p ` {c \<in> set bs. bu_run b < bu_run c}) < count"

lemma later_Cons:
  assumes "bu_run b < bu_run x"
  shows "{c \<in> set (x # bs). bu_run b < bu_run c} = insert x {c \<in> set bs. bu_run b < bu_run c}"
    "(\<forall>c \<in> set (x # bs). bu_run b < bu_run c \<longrightarrow> Q c) \<longleftrightarrow> Q x \<and> (\<forall>c \<in> set bs. bu_run b < bu_run c \<longrightarrow> Q c)"
  using assms by auto

lemma keeps_run_seen:
  assumes "bu_run b < bu_run x" "period_of p x \<in> Some ` set seen"
  shows "keeps_run p count seen (x # bs) b \<longleftrightarrow> keeps_run p count seen bs b"
proof -
  have "Some ` set seen \<union> period_of p ` insert x A = Some ` set seen \<union> period_of p ` A" for A
    using assms(2) by auto
  with assms(2) show ?thesis unfolding keeps_run_def later_Cons [OF assms(1)] by metis
qed

lemma keeps_run_new:
  assumes "bu_run b < bu_run x" "period_of p x = Some k"
  shows "keeps_run p count seen (x # bs) b \<longleftrightarrow> keeps_run p count (seen @ [k]) bs b"
proof -
  have u: "Some ` set seen \<union> period_of p ` insert x A = Some ` set (seen @ [k]) \<union> period_of p ` A" for A
    using assms(2) by auto
  have m: "period_of p b \<notin> Some ` set (seen @ [k]) \<longleftrightarrow> period_of p b \<notin> Some ` set seen \<and> period_of p x \<noteq> period_of p b"
    using assms(2) by auto
  show ?thesis unfolding keeps_run_def later_Cons [OF assms(1)] u m by blast
qed

lemma keeps_run_newest:
  assumes "\<forall>b \<in> set bs. bu_run b < bu_run x" "distinct seen"
  shows "keeps_run p count seen (x # bs) x \<longleftrightarrow> period_of p x \<notin> Some ` set seen \<and> length seen < count"
proof -
  have none: "\<not> bu_run x < bu_run c" if "c \<in> set (x # bs)" for c using that assms(1) by (auto dest: less_asym)
  then have e: "{c \<in> set (x # bs). bu_run x < bu_run c} = {}" by blast
  have c: "card (Some ` set seen) = length seen" using assms(2) by (simp add: card_image distinct_card)
  show ?thesis unfolding keeps_run_def e image_empty Un_empty_right c using none by blast
qed

lemma keeps_run_full:
  assumes "length seen = count" "distinct seen"
  shows "\<not> keeps_run p count seen bs b"
proof -
  have "card (Some ` set seen) = count" using assms by (simp add: card_image distinct_card)
  moreover have "card (Some ` set seen) \<le> card (Some ` set seen \<union> period_of p ` {c \<in> set bs. bu_run b < bu_run c})"
    by (rule card_mono) auto
  ultimately show ?thesis unfolding keeps_run_def by simp
qed

lemma keep_buckets_spec:
  assumes "sorted_wrt (\<lambda>a b. bu_run b < bu_run a) bs" "\<forall>b \<in> set bs. date_of (bu_time b) \<noteq> None"
    and "distinct seen" "length seen \<le> count"
  shows "\<exists>runs. keep_buckets p count seen bs = Inr runs \<and>
    (\<forall>b \<in> set bs. bu_run b \<in> set runs \<longleftrightarrow> keeps_run p count seen bs b)"
  using assms
proof (induction bs arbitrary: seen)
  case (Cons x bs)
  obtain d where d: "date_of (bu_time x) = Some d" using Cons.prems(2) by auto
  let ?k = "bucket p d"
  have k: "period_of p x = Some ?k" by (simp add: period_of_def d)
  have less: "\<forall>b \<in> set bs. bu_run b < bu_run x" using Cons.prems(1) by simp
  have prems: "sorted_wrt (\<lambda>a b. bu_run b < bu_run a) bs" "\<forall>b \<in> set bs. date_of (bu_time b) \<noteq> None"
    using Cons.prems(1,2) by simp_all
  show ?case
  proof (cases "?k \<in> set seen")
    case True
    obtain runs where runs: "keep_buckets p count seen bs = Inr runs"
      and IH: "\<forall>b \<in> set bs. bu_run b \<in> set runs \<longleftrightarrow> keeps_run p count seen bs b"
      using Cons.IH [OF prems Cons.prems(3,4)] by blast
    have in_seen: "period_of p x \<in> Some ` set seen" using True k by simp
    have "bu_run x \<notin> set runs" using keep_buckets_runs [OF runs] less by fastforce
    moreover have "\<not> keeps_run p count seen (x # bs) x" using in_seen by (simp add: keeps_run_def)
    moreover have "\<forall>b \<in> set bs. bu_run b \<in> set runs \<longleftrightarrow> keeps_run p count seen (x # bs) b"
      using IH less keeps_run_seen [OF _ in_seen] by blast
    ultimately show ?thesis using runs True by (simp add: d)
  next
    case fresh: False
    show ?thesis
    proof (cases "length seen = count")
      case True
      then show ?thesis using fresh keeps_run_full [OF True Cons.prems(3)] by (simp add: d)
    next
      case False
      have "distinct (seen @ [?k])" "length (seen @ [?k]) \<le> count" using fresh False Cons.prems(3,4) by auto
      from Cons.IH [OF prems this] obtain runs where runs: "keep_buckets p count (seen @ [?k]) bs = Inr runs"
        and IH: "\<forall>b \<in> set bs. bu_run b \<in> set runs \<longleftrightarrow> keeps_run p count (seen @ [?k]) bs b"
        by blast
      have all: "keep_buckets p count seen (x # bs) = Inr (bu_run x # runs)" using fresh False runs by (simp add: d)
      have "keeps_run p count seen (x # bs) x"
        unfolding keeps_run_newest [OF less Cons.prems(3)] using fresh False Cons.prems(4) k by auto
      moreover have "\<forall>b \<in> set bs. bu_run b \<in> set (bu_run x # runs) \<longleftrightarrow> keeps_run p count seen (x # bs) b"
        using IH less keeps_run_new [OF _ k] by fastforce
      ultimately show ?thesis unfolding all by simp
    qed
  qed
qed simp

lemma take_rank:
  "sorted_wrt (\<lambda>a b. bu_run b < bu_run a) xs \<Longrightarrow> b \<in> set xs \<Longrightarrow>
     bu_run b \<in> set (List.map bu_run (take n xs)) \<longleftrightarrow> card {c \<in> set xs. bu_run b < bu_run c} < n"
proof (induction xs arbitrary: n)
  case (Cons x xs)
  have less: "\<forall>b \<in> set xs. bu_run b < bu_run x" using Cons.prems(1) by simp
  show ?case
  proof (cases n)
    case (Suc m)
    show ?thesis
    proof (cases "b = x")
      case True
      have "{c \<in> set (x # xs). bu_run b < bu_run c} = {}" using less True by (auto dest: less_asym)
      with True Suc show ?thesis by (simp only: card.empty) simp
    next
      case False
      then have b: "b \<in> set xs" "bu_run b < bu_run x" using Cons.prems(2) less by simp_all
      let ?A = "{c \<in> set xs. bu_run b < bu_run c}"
      have "x \<notin> ?A" using less by auto
      then have "card (insert x ?A) = Suc (card ?A)" by simp
      moreover have "bu_run b \<in> set (List.map bu_run (take n (x # xs))) \<longleftrightarrow> bu_run b \<in> set (List.map bu_run (take m xs))"
        using b(2) Suc by auto
      ultimately show ?thesis
        unfolding later_Cons(1) [OF b(2)] using Cons.IH [OF _ b(1), of m] Cons.prems(1) Suc by simp
    qed
  qed simp
qed simp

text \<open>The runs of one reason, newest first, and what a part of them says of one backup.\<close>

lemma of_reason:
  assumes "distinct (List.map bu_run bs)"
  defines "mine \<equiv> \<lambda>r. List.filter (\<lambda>b. bu_reason b = r) (newest_first bs)"
  shows "sorted_wrt (\<lambda>a b. bu_run b < bu_run a) (mine r)"
    and "b \<in> set bs \<Longrightarrow> set ks \<subseteq> bu_run ` set (mine r) \<Longrightarrow> bu_run b \<in> set ks \<Longrightarrow> bu_reason b = r"
    and "bu_reason b = r \<Longrightarrow> {c \<in> set (mine r). bu_run b < bu_run c} = later bs b"
proof -
  show "sorted_wrt (\<lambda>a b. bu_run b < bu_run a) (mine r)"
    unfolding mine_def by (rule sorted_wrt_filter [OF newest_first_desc [OF assms(1)]])
  show "{c \<in> set (mine r). bu_run b < bu_run c} = later bs b" if "bu_reason b = r"
    using that by (auto simp: mine_def later_def)
  show "bu_reason b = r" if b: "b \<in> set bs" and ks: "set ks \<subseteq> bu_run ` set (mine r)" "bu_run b \<in> set ks"
  proof -
    obtain c where c: "c \<in> set (mine r)" "bu_run c = bu_run b" using ks by fastforce
    then have "c \<in> set bs" "bu_reason c = r" by (simp_all add: mine_def)
    with c(2) b assms(1) have "c = b" by (simp add: distinct_map inj_on_def)
    with \<open>bu_reason c = r\<close> show ?thesis by simp
  qed
qed

lemma keep_count_spec:
  assumes "distinct (List.map bu_run bs)" "b \<in> set bs"
  shows "bu_run b \<in> set (keep_count r n (newest_first bs)) \<longleftrightarrow> bu_reason b = r \<and> card (later bs b) < n"
proof (cases "bu_reason b = r")
  case True
  let ?mine = "List.filter (\<lambda>b. bu_reason b = r) (newest_first bs)"
  have "b \<in> set ?mine" using assms(2) True by simp
  from take_rank [OF of_reason(1) [OF assms(1)] this] of_reason(3) [OF assms(1) True] True show ?thesis
    by (simp add: keep_count_def)
next
  case False
  have "set (keep_count r n (newest_first bs)) \<subseteq> bu_run ` set (List.filter (\<lambda>b. bu_reason b = r) (newest_first bs))"
    unfolding keep_count_def by (simp only: set_map) (rule image_mono [OF set_take_subset])
  with of_reason(2) [OF assms] False show ?thesis by blast
qed

lemma keep_period_spec:
  assumes "distinct (List.map bu_run bs)" "\<forall>b \<in> set bs. bu_reason b = SCHEDULED \<longrightarrow> date_of (bu_time b) \<noteq> None"
  shows "\<exists>ks. keep_buckets p count [] (List.filter (\<lambda>b. bu_reason b = SCHEDULED) (newest_first bs)) = Inr ks \<and>
    (\<forall>b \<in> set bs. bu_run b \<in> set ks \<longleftrightarrow> bu_reason b = SCHEDULED \<and> wanted_for bs p count b)"
proof -
  let ?mine = "List.filter (\<lambda>b. bu_reason b = SCHEDULED) (newest_first bs)"
  have dates: "\<forall>b \<in> set ?mine. date_of (bu_time b) \<noteq> None" using assms(2) by simp
  from keep_buckets_spec [OF of_reason(1) [OF assms(1)] dates, of "[]" count p]
  obtain ks where ks: "keep_buckets p count [] ?mine = Inr ks"
    and kept: "\<forall>b \<in> set ?mine. bu_run b \<in> set ks \<longleftrightarrow> keeps_run p count [] ?mine b" by auto
  have "bu_run b \<in> set ks \<longleftrightarrow> bu_reason b = SCHEDULED \<and> wanted_for bs p count b" if b: "b \<in> set bs" for b
  proof (cases "bu_reason b = SCHEDULED")
    case True
    note l = of_reason(3) [OF assms(1) True]
    have "(\<forall>c \<in> set ?mine. bu_run b < bu_run c \<longrightarrow> period_of p c \<noteq> period_of p b) \<longleftrightarrow>
        (\<forall>c \<in> later bs b. period_of p c \<noteq> period_of p b)"
      unfolding l [symmetric] by blast
    then have "keeps_run p count [] ?mine b \<longleftrightarrow> wanted_for bs p count b"
      unfolding keeps_run_def wanted_for_def l by simp
    moreover have "b \<in> set ?mine" using b True by simp
    ultimately show ?thesis using kept True by blast
  next
    case False
    with of_reason(2) [OF assms(1) b keep_buckets_runs [OF ks]] show ?thesis by blast
  qed
  with ks show ?thesis by blast
qed

section \<open>Properties\<close>

text \<open>C14: the retention loops forget exactly what the policy does not want. A scheduled backup is wanted
  when it is the newest of its day, week or month and fewer than that many periods have a newer one; a
  manual one when fewer than that many are newer; of those kelso takes on its own the newest only.
  Each reason is counted by itself, and a backup of no known reason is not wanted.\<close>

theorem expired_is_what_nobody_wants:
  assumes "distinct (List.map bu_run bs)"
    and "\<forall>b \<in> set bs. bu_reason b = SCHEDULED \<longrightarrow> date_of (bu_time b) \<noteq> None"
  shows "expired bs keep = Inr (List.filter (\<lambda>b. \<not> wanted bs keep b) bs)"
proof -
  let ?mine = "List.filter (\<lambda>b. bu_reason b = SCHEDULED) (newest_first bs)"
  note kept = keep_period_spec [OF assms]
  obtain days where d: "keep_buckets Day (bk_daily keep) [] ?mine = Inr days"
      "\<forall>b \<in> set bs. bu_run b \<in> set days \<longleftrightarrow> bu_reason b = SCHEDULED \<and> wanted_for bs Day (bk_daily keep) b"
    using kept [of Day "bk_daily keep"] by (elim exE conjE)
  obtain weeks where w: "keep_buckets Week (bk_weekly keep) [] ?mine = Inr weeks"
      "\<forall>b \<in> set bs. bu_run b \<in> set weeks \<longleftrightarrow> bu_reason b = SCHEDULED \<and> wanted_for bs Week (bk_weekly keep) b"
    using kept [of Week "bk_weekly keep"] by (elim exE conjE)
  obtain months where m: "keep_buckets Month (bk_monthly keep) [] ?mine = Inr months"
      "\<forall>b \<in> set bs. bu_run b \<in> set months \<longleftrightarrow> bu_reason b = SCHEDULED \<and> wanted_for bs Month (bk_monthly keep) b"
    using kept [of Month "bk_monthly keep"] by (elim exE conjE)
  have one: "card (later bs b) < 1 \<longleftrightarrow> later bs b = {}" for b
    by (simp add: later_def)
  have "bu_run b \<notin> set (days @ weeks @ months @ keep_count MANUAL (bk_manual keep) (newest_first bs)
      @ keep_count UPDATE 1 (newest_first bs) @ keep_count PRE_RESTORE 1 (newest_first bs)) \<longleftrightarrow> \<not> wanted bs keep b"
    if b: "b \<in> set bs" for b
  proof -
    note r = d(2) [rule_format, OF b] w(2) [rule_format, OF b] m(2) [rule_format, OF b]
    show ?thesis
      unfolding set_append Un_iff keep_count_spec [OF assms(1) b] wanted_def one r
      by (simp add: disj_assoc conj_disj_distribL [symmetric]) blast
  qed
  then show ?thesis
    by (simp add: expired_def Let_def d(1) w(1) m(1) cong: filter_cong)
qed

definition demo_backup :: "string \<Rightarrow> string \<Rightarrow> backup" where
  "demo_backup run reason = \<lparr>bu_app = Some ''org.demo'', bu_run = run, bu_time = ''2026-01-01T00:00:00Z'', bu_reason = reason,
     bu_version = ''1'', bu_kelso_id = ''k'', bu_snapshots = [(DATA, run)], bu_size = 0\<rparr>"

theorem expired_is_what_nobody_wants_witness:
  "expired [demo_backup ''1'' SCHEDULED, demo_backup ''2'' SCHEDULED, demo_backup ''3'' ''other''] default_keep =
    Inr [demo_backup ''1'' SCHEDULED, demo_backup ''3'' ''other'']"
proof -
  let ?bs = "[demo_backup ''1'' SCHEDULED, demo_backup ''2'' SCHEDULED, demo_backup ''3'' ''other'']"
  have reasons: "SCHEDULED \<noteq> ''other''" "''other'' \<notin> {SCHEDULED, MANUAL, UPDATE, PRE_RESTORE}"
    by (simp_all add: SCHEDULED_def MANUAL_def UPDATE_def PRE_RESTORE_def)
  have less: "''1'' < ''2''" "\<not> ''2'' < ''1''" "\<not> ''2'' < ''2''" "\<not> ''1'' < ''1''"
    by (simp_all add: less_char_def)
  have l2: "later ?bs (demo_backup ''2'' SCHEDULED) = {}"
    using reasons less by (auto simp: later_def demo_backup_def)
  have l1: "later ?bs (demo_backup ''1'' SCHEDULED) = {demo_backup ''2'' SCHEDULED}"
    using reasons less by (auto simp: later_def demo_backup_def)
  have p: "period_of q (demo_backup ''2'' SCHEDULED) = period_of q (demo_backup ''1'' SCHEDULED)" for q
    by (simp add: period_of_def demo_backup_def)
  have "wanted ?bs default_keep (demo_backup ''2'' SCHEDULED)"
    using l2 by (simp add: wanted_def wanted_for_def demo_backup_def default_keep_def)
  moreover have "\<not> wanted ?bs default_keep (demo_backup ''1'' SCHEDULED)"
    unfolding wanted_def wanted_for_def l1 using p
    by (simp add: demo_backup_def SCHEDULED_def MANUAL_def UPDATE_def PRE_RESTORE_def)
  moreover have "\<not> wanted ?bs default_keep (demo_backup ''3'' ''other'')"
    using reasons by (simp add: wanted_def demo_backup_def)
  moreover have "distinct (List.map bu_run ?bs)" by (simp add: demo_backup_def)
  moreover have "\<forall>b \<in> set ?bs. bu_reason b = SCHEDULED \<longrightarrow> date_of (bu_time b) \<noteq> None"
    by (simp add: demo_backup_def date_of_def str_isdigit_def nat_of_str_def digit_val_def is_digit_def
        MAXYEAR_def days_in_month_def)
  ultimately show ?thesis using expired_is_what_nobody_wants [of ?bs default_keep] by simp
qed

lemma next_after_found:
  assumes "valid_moment after" "next_after s after = Some (Inr m)"
  shows "valid_moment m \<and> after < m \<and> schedule_matches s m \<and>
    (\<forall>x. valid_moment x \<longrightarrow> after < x \<longrightarrow> x < m \<longrightarrow> \<not> schedule_matches s x)"
proof -
  from assms(2) obtain at limit where at: "add_minute after = Some at" and "search_limit at = Some limit"
    and s: "search_from s limit at = Some (Inr m)"
    by (auto simp: next_after_def split: option.splits)
  note a = add_minute_Some [OF assms(1) at]
  have "search_spec s at limit (Inr m)"
    using search_from_total [OF a(1)] s by (metis option.inject)
  then show ?thesis using a unfolding search_spec_def no_match_def by (auto dest: less_le_trans)
qed

lemma due_anchor_valid:
  assumes "due_anchor localtime ops s since = Inr anchor"
    and "\<And>t. valid_moment (localtime t)" and "valid_moment since"
  shows "valid_moment anchor"
proof -
  from assms(1) obtain last where l: "last_backup_run ops s (Some SCHEDULED) = Inr last"
    by (auto simp: due_anchor_def andthen_Inr)
  show ?thesis
  proof (cases last)
    case None
    with assms(1,3) l show ?thesis by (simp add: due_anchor_def)
  next
    case (Some run)
    with assms(1) l obtain t where t: "(case t of JStr x \<Rightarrow> Inr (localtime x) | _ \<Rightarrow> Inl WrongType) = Inr anchor"
      by (auto simp: due_anchor_def andthen_Inr)
    with assms(2) show ?thesis by (cases t) auto
  qed
qed

text \<open>When \<^verbatim>\<open>backup_due\<close> answers, the scheduled run is due exactly when the schedule has a minute after the
  last scheduled run -- after the daemon's start when there was none -- and not after now: a run missed
  while the machine was off is due at the next check, and one that ran is not due again for the same
  minute. Without a schedule it is never due.\<close>

lemma backup_due_when_schedule_came_round:
  assumes "backup_due localtime ops s entry since now = Some (Inr due)"
    and "\<And>t. valid_moment (localtime t)" and "valid_moment since"
  shows "case be_schedule entry of
      None \<Rightarrow> \<not> due
    | Some written \<Rightarrow> \<exists>anchor schedule. due_anchor localtime ops s since = Inr anchor \<and> parse_schedule written = Inr schedule \<and>
        (due \<longleftrightarrow> (\<exists>m. valid_moment m \<and> anchor < m \<and> m \<le> now \<and> schedule_matches schedule m))"
proof (cases "be_schedule entry")
  case None
  with assms(1) show ?thesis by (simp add: backup_due_def)
next
  case (Some written)
  from assms(1) Some obtain anchor schedule at where a: "due_anchor localtime ops s since = Inr anchor"
      "parse_schedule written = Inr schedule" and at: "next_after schedule anchor = Some (Inr at)" "due = (at \<le> now)"
    by (auto simp: backup_due_def split: sum.splits option.splits)
  have "valid_moment anchor" by (rule due_anchor_valid [OF a(1) assms(2,3)])
  note found = next_after_found [OF this at(1)]
  have "due \<longleftrightarrow> (\<exists>m. valid_moment m \<and> anchor < m \<and> m \<le> now \<and> schedule_matches schedule m)"
    unfolding at(2) using found by (meson le_less_trans not_le)
  with a Some show ?thesis by simp
qed

lemma add_days_grows:
  "y + n \<le> MAXYEAR \<Longrightarrow> \<exists>dt. add_days n (y, m, d) = Some dt \<and> (y, m, d) \<le> dt \<and> (n > 0 \<longrightarrow> (y, m, d) < dt)"
proof (induction n arbitrary: y m d)
  case (Suc n)
  have "\<exists>y2 m2 d2. next_day (y, m, d) = Some (y2, m2, d2) \<and> y2 \<le> Suc y \<and> (y, m, d) < (y2, m2, d2)"
    using Suc.prems by (cases "d < days_in_month y m"; cases "m < 12") auto
  then obtain y2 m2 d2 where nd: "next_day (y, m, d) = Some (y2, m2, d2)" "y2 \<le> Suc y" "(y, m, d) < (y2, m2, d2)"
    by blast
  moreover have "y2 + n \<le> MAXYEAR" using nd(2) Suc.prems by simp
  ultimately show ?case using Suc.IH [of y2 m2 d2] by (auto intro: less_le_trans)
qed simp

definition every_minute :: cron_schedule where
  "every_minute = \<lparr>cs_text = ''* * * * *'', cs_minutes = [0..<60], cs_hours = [0..<24], cs_days = [1..<32],
     cs_months = [1..<13], cs_weekdays = List.map (\<lambda>day. if day = 7 then 0 else day) [0..<8],
     cs_any_day = True, cs_any_weekday = True\<rparr>"

lemma parse_every_minute: "parse_schedule ''* * * * *'' = Inr every_minute"
proof -
  have "split_ws ''* * * * *'' = [''*'', ''*'', ''*'', ''*'', ''*'']" by code_simp
  moreover have "parse_item ''*'' n l h = (if l \<le> h then Inr (l, h, 1) else Inl (OutsideRange n ''*'' l h))" for n l h
    by (simp add: parse_item_def partition_on_def)
  moreover have "py_range l h 1 = [l..<h]" for l h
  proof (cases "l < h")
    case True
    then have "py_range l h 1 = List.map (\<lambda>k. k + l) [0..<h - l]" by (simp add: py_range_def add.commute Suc_diff_Suc del: upt_Suc)
    also have "\<dots> = [l..<h]" using map_add_upt [of l "h - l"] True by simp
    finally show ?thesis .
  qed (simp add: py_range_def)
  ultimately show ?thesis
    by (simp add: parse_schedule_def parse_field_def CRON_FIELDS_def every_minute_def)
qed

lemma next_every_minute: "next_after every_minute (2026, 2, 28, 5, 0) = Some (Inr (2026, 2, 28, 5, 1))"
proof -
  obtain y m d where l: "add_days SEARCH_DAYS (2026, 2, 28) = Some (y, m, d)" "(2026, 2, 28) < (y, m, d)"
    using add_days_grows [of 2026 SEARCH_DAYS 2 28] by (auto simp: SEARCH_DAYS_def MAXYEAR_def)
  have "search_step every_minute (2026, 2, 28, 5, 1) = Found (2026, 2, 28, 5, 1)"
    by (simp add: every_minute_def)
  moreover have "(2026, 2, 28, 5, 1) < (y, m, d, 5 :: nat, 1 :: nat)" using l(2) by auto
  moreover have "search_limit (2026, 2, 28, 5, 1) = Some (y, m, d, 5, 1)" using l(1) by simp
  ultimately show ?thesis
    by (simp add: next_after_def search_from.simps)
qed

lemma backup_due_when_schedule_came_round_witness:
  "backup_due (\<lambda>t. (2026, 2, 28, 5, 0)) memory_store [] \<lparr>be_schedule = Some ''* * * * *'', be_require_mount = False, be_keep = default_keep\<rparr>
     (2026, 2, 28, 5, 0) (2026, 2, 28, 6, 0) = Some (Inr True) \<and>
   (\<exists>m. valid_moment m \<and> (2026, 2, 28, 5, 0) < m \<and> m \<le> (2026, 2, 28, 6, 0) \<and> schedule_matches every_minute m)"
proof -
  let ?entry = "\<lparr>be_schedule = Some ''* * * * *'', be_require_mount = False, be_keep = default_keep\<rparr>"
  let ?due = "backup_due (\<lambda>t. (2026, 2, 28, 5, 0)) memory_store [] ?entry (2026, 2, 28, 5, 0) (2026, 2, 28, 6, 0)"
  have anchor: "due_anchor (\<lambda>t. (2026, 2, 28, 5, 0)) memory_store [] (2026, 2, 28, 5, 0) = Inr (2026, 2, 28, 5, 0)"
    by (simp add: due_anchor_def last_backup_run_def memory_store_def)
  have due: "?due = Some (Inr True)"
    by (simp add: backup_due_def anchor parse_every_minute next_every_minute)
  have "valid_moment (2026, 2, 28, 5, 0)" by (simp add: MAXYEAR_def days_in_month_def is_leap_def)
  from backup_due_when_schedule_came_round [OF due this this] due anchor show ?thesis
    by (simp add: parse_every_minute)
qed

end
