(* ===== verification/Run.thy ===== *)
theory Run
  imports Load
begin

text \<open>
  \<^verbatim>\<open>kelso/lib/lifecycle/run.py\<close>: starting, stopping, restarting and reloading an app, and running one of
  its commands. Docker is outside \<^verbatim>\<open>src/\<close>: a state \<open>'d\<close> with
  the operations the code calls on it.
\<close>

section \<open>Docker\<close>

text \<open>
  How a \<^verbatim>\<open>docker\<close> client ended: with an exit code, or killed when its timeout passed. A compose
  command runs in the run directory of an app: it is given the app, the compose file there, its
  arguments, the environment and the timeout.
\<close>

datatype docker_answer = Exited int | TimedOut

record 'd docker_ops =
  do_containers :: "'d \<Rightarrow> string \<Rightarrow> unit_status list"
  do_compose :: "'d \<Rightarrow> string \<Rightarrow> json option \<Rightarrow> string list \<Rightarrow> (string, string) dict \<Rightarrow> nat option
    \<Rightarrow> docker_answer \<times> 'd"

datatype run_error =
    LoadFailed load_error
  | CannotStart "config_issue list"
  | NotLoadedYet
  | NoState
  | OrphanContainers "string list"
  | RoutesRefused route_error
  | DockerFailed int
  | DockerTimeout
  | UnknownCommand string "string list"
  | StillRunningDetached string

record ('s, 'w, 'b, 'd) world =
  wd_load :: "('s, 'w, 'b) load_state"
  wd_docker :: 'd

text \<open>
  What else the code asks: whether kelso holds a trace of the app other than a run directory or a
  container, whether its config file and volume data exist, what its log says is
  pending, the YAML text of a compose file, and the clock.
\<close>

record ('s, 'w, 'b, 'd) run_env =
  re_load :: "('w, 'b) load_env"
  re_docker :: "'d docker_ops"
  re_traced :: "'s run_ctx \<Rightarrow> bool"
  re_config_exists :: "'s run_ctx \<Rightarrow> bool"
  re_has_data :: "'s run_ctx \<Rightarrow> bool"
  re_pending :: "'s run_ctx \<Rightarrow> store_error + pending_changes"
  re_yaml :: "json \<Rightarrow> string"
  re_now :: string

section \<open>Steps\<close>

definition in_load ::
    "(('s, 'w, 'b) load_state, load_error, 'a) act \<Rightarrow> (('s, 'w, 'b, 'd) world, run_error, 'a) act" where
  "in_load m w =
     (case m (wd_load w) of (r, st) \<Rightarrow>
        (case r of Inl e \<Rightarrow> Inl (LoadFailed e) | Inr x \<Rightarrow> Inr x, w\<lparr>wd_load := st\<rparr>))"

definition run_of :: "('s, 'w, 'b, 'd) world \<Rightarrow> 'b run_dir" where
  "run_of w = ld_run (wd_load w)"

definition recorded :: "string \<Rightarrow> string \<Rightarrow> ('s, 'w, 'b, 'd) world \<Rightarrow> ('s, 'w, 'b, 'd) world" where
  "recorded verb app w = w\<lparr>wd_load := record_action verb app (wd_load w)\<rparr>"

definition last_action :: "string \<Rightarrow> ('s, 'w, 'b) load_state \<Rightarrow> string option" where
  "last_action app st = map_option snd (List.find (\<lambda>(a, v). a = app) (rev (ld_actions st)))"

text \<open>\<^verbatim>\<open>docker_run_command\<close> with \<^verbatim>\<open>json_output=False\<close>, in the run directory of \<open>app\<close>.\<close>

definition docker_run_command ::
    "('s, 'w, 'b, 'd) run_env \<Rightarrow> string \<Rightarrow> string list \<Rightarrow> bool \<Rightarrow> (string, string) dict \<Rightarrow> nat option
       \<Rightarrow> (('s, 'w, 'b, 'd) world, run_error, int) act" where
  "docker_run_command env app cmd check vars timeout w =
     (case do_compose (re_docker env) (wd_docker w) app (rn_compose (run_of w)) cmd vars timeout of
        (answer, d) \<Rightarrow>
          (case answer of
             TimedOut \<Rightarrow> Inl DockerTimeout
           | Exited code \<Rightarrow> if check \<and> code \<noteq> 0 then Inl (DockerFailed code) else Inr code,
           w\<lparr>wd_docker := d\<rparr>))"

text \<open>\<open>except SomeError: undo(); raise\<close>, for the errors \<open>P\<close> picks.\<close>

definition except_for :: "('e \<Rightarrow> bool) \<Rightarrow> ('w, 'e, 'a) act \<Rightarrow> ('w \<Rightarrow> 'w) \<Rightarrow> ('w, 'e, 'a) act" where
  "except_for P m undo w =
     (case m w of (Inl e, w') \<Rightarrow> (Inl e, if P e then undo w' else w') | r \<Rightarrow> r)"

fun docker_error :: "run_error \<Rightarrow> bool" where
  "docker_error (DockerFailed c) \<longleftrightarrow> True"
| "docker_error e \<longleftrightarrow> False"

fun provider_raised :: "run_error \<Rightarrow> bool" where
  "provider_raised (RoutesRefused e) \<longleftrightarrow> provider_error e"
| "provider_raised e \<longleftrightarrow> False"

text \<open>\<^verbatim>\<open>RunState\<close> and \<^verbatim>\<open>KelsoCtx.run_state\<close> of an app by its own id.\<close>

record run_state =
  rs_compose_exists :: bool
  rs_containers :: "unit_status list"

definition rs_running_count :: "run_state \<Rightarrow> nat" where
  "rs_running_count s = length (List.filter us_running (rs_containers s))"

definition run_state_of ::
    "('s, 'w, 'b, 'd) run_env \<Rightarrow> string \<Rightarrow> ('s, 'w, 'b, 'd) world \<Rightarrow> run_error + run_state" where
  "run_state_of env app w =
     (let cs = do_containers (re_docker env) (wd_docker w) app
      in if rn_exists (run_of w) \<or> cs \<noteq> [] \<or> re_traced env (ld_ctx (wd_load w))
         then Inr \<lparr>rs_compose_exists = rn_compose (run_of w) \<noteq> None, rs_containers = cs\<rparr>
         else Inl NoState)"

text \<open>\<open>except ValueError: 0\<close>.\<close>

definition running_now :: "('s, 'w, 'b, 'd) run_env \<Rightarrow> string \<Rightarrow> ('s, 'w, 'b, 'd) world \<Rightarrow> nat" where
  "running_now env app w =
     (case run_state_of env app w of Inl e \<Rightarrow> 0 | Inr s \<Rightarrow> rs_running_count s)"

definition is_loaded_now :: "('s, 'w, 'b, 'd) world \<Rightarrow> bool" where
  "is_loaded_now w \<longleftrightarrow> rn_bundle (run_of w) \<noteq> None"

definition require_loaded_spec ::
    "('s, 'w, 'b, 'd) run_env \<Rightarrow> string \<Rightarrow> ('s, 'w, 'b, 'd) world \<Rightarrow> run_error + app_spec" where
  "require_loaded_spec env app w =
     (case loaded_spec (re_load env) app (run_of w) of
        Inl e \<Rightarrow> Inl (LoadFailed e) | Inr None \<Rightarrow> Inl NotLoadedYet | Inr (Some s) \<Rightarrow> Inr s)"

record start_args =
  sa_app :: string
  sa_bundle :: string
  sa_sets :: "(string \<times> string) list"
  sa_binds :: "(string \<times> string) list"
  sa_bound :: "string option"
  sa_version_change :: bool

text \<open>The arguments of a load with what it asks docker and the file system as it begins.\<close>

definition load_args_of ::
    "('s, 'w, 'b, 'd) run_env \<Rightarrow> start_args \<Rightarrow> ('s, 'w, 'b, 'd) world \<Rightarrow> load_args" where
  "load_args_of env a w =
     \<lparr>la_app = sa_app a, la_bundle = sa_bundle a, la_sets = sa_sets a, la_binds = sa_binds a,
      la_bound = sa_bound a, la_version_change = sa_version_change a, la_running = running_now env (sa_app a) w,
      la_config_exists = re_config_exists env (ld_ctx (wd_load w)),
      la_has_data = re_has_data env (ld_ctx (wd_load w)), la_now = re_now env\<rparr>"

definition load_app ::
    "('s, 'w, 'b, 'd) run_env \<Rightarrow> start_args \<Rightarrow> (('s, 'w, 'b, 'd) world, run_error, load_result) act" where
  "load_app env a w = in_load (load (re_load env) (load_args_of env a w)) w"

section \<open>Starting\<close>

text \<open>
  What a start works with: a new load when it was given settings or nothing is loaded, else the
  loaded copy, its routes derived again when what they are made from changed.
\<close>

definition rederive_routes ::
    "('s, 'w, 'b, 'd) run_env \<Rightarrow> string \<Rightarrow> app_spec \<Rightarrow> (('s, 'w, 'b, 'd) world, run_error, load_result) act" where
  "rederive_routes env app spec =
     bindA (update (\<lambda>w. w\<lparr>wd_load := unpublish (re_load env) app (wd_load w)\<rparr>)) (\<lambda>_.
     bindA (in_load (materialize spec)) (\<lambda>(data, dropped).
       ret \<lparr>lo_spec = spec, lo_run_data = data, lo_dropped = []\<rparr>))"

definition start_data ::
    "('s, 'w, 'b, 'd) run_env \<Rightarrow> start_args \<Rightarrow> (('s, 'w, 'b, 'd) world, run_error, load_result) act" where
  "start_data env a =
     bindA (askA (\<lambda>w. Inr (sa_sets a \<noteq> [] \<or> sa_binds a \<noteq> [] \<or> \<not> is_loaded_now w))) (\<lambda>anew.
       if anew then load_app env (a\<lparr>sa_version_change := False\<rparr>)
       else bindA (askA (require_loaded_spec env (sa_app a))) (\<lambda>spec.
            bindA (in_load (askA (\<lambda>st. lift_load (re_pending env (ld_ctx st))))) (\<lambda>pending.
              if pc_routes pending then rederive_routes env (sa_app a) spec
              else bindA (in_load (askA (\<lambda>st. lift_layout (load_run_data spec (ld_ctx st))))) (\<lambda>data.
                   ret \<lparr>lo_spec = spec, lo_run_data = data, lo_dropped = []\<rparr>))))"

definition on_providers ::
    "('w, route_error, unit) act \<Rightarrow> (('s, 'w, 'b, 'd) world, run_error, unit) act" where
  "on_providers m w =
     (case m (ld_providers (wd_load w)) of
        (r, p) \<Rightarrow> (case r of Inl e \<Rightarrow> Inl (RoutesRefused e) | Inr u \<Rightarrow> Inr (),
          w\<lparr>wd_load := (wd_load w)\<lparr>ld_providers := p\<rparr>\<rparr>))"

definition preflight ::
    "('s, 'w, 'b, 'd) run_env \<Rightarrow> app_run_data \<Rightarrow> (('s, 'w, 'b, 'd) world, run_error, unit) act" where
  "preflight env data w =
     on_providers (preflight_app_routes (en_ops (re_load env)) (rx_config (ld_ctx (wd_load w))) data) w"

definition register ::
    "('s, 'w, 'b, 'd) run_env \<Rightarrow> app_run_data \<Rightarrow> (('s, 'w, 'b, 'd) world, run_error, unit) act" where
  "register env data w =
     on_providers (register_app_routes (en_ops (re_load env)) (rx_config (ld_ctx (wd_load w))) data) w"

definition start ::
    "('s, 'w, 'b, 'd) run_env \<Rightarrow> start_args \<Rightarrow> (('s, 'w, 'b, 'd) world, run_error, load_result) act" where
  "start env a =
     bindA (start_data env a) (\<lambda>res.
     let data = lo_run_data res; failed = recorded ''start-failed'' (sa_app a)
     in bindA (askA (\<lambda>w. if start_blockers data \<noteq> [] then Inl (CannotStart (start_blockers data))
                        else if rn_compose (run_of w) = None then Inl NotLoadedYet else Inr ())) (\<lambda>_.
        bindA (except_for provider_raised (preflight env data) failed) (\<lambda>_.
        bindA (in_load (link_host_volumes (lo_spec res) data)) (\<lambda>_.
        bindA (except_for docker_error (docker_run_command env (sa_app a) [''compose'', ''up'', ''-d''] True (config_env data) None) failed) (\<lambda>_.
        bindA (except_for provider_raised (register env data) failed) (\<lambda>_.
        bindA (in_load (on_app (\<lambda>ops cr k s. set_meta ops s ''started_at'' (JStr (re_now env))))) (\<lambda>_.
        bindA (update (recorded ''started'' (sa_app a))) (\<lambda>_. ret res))))))))"

section \<open>Stopping\<close>

text \<open>
  \<^verbatim>\<open>down_env\<close>: the placeholders \<open>${__KELSO_CONFIG_..}\<close> of a text, in order, each of the regular
  expression's matches starting after the one before.
\<close>

definition KELSO_CONFIG_REF :: string where "KELSO_CONFIG_REF = ''${'' @ KELSO_CONFIG_ENV_PREFIX @ ''_''"

function config_refs :: "string \<Rightarrow> string list" where
  "config_refs s =
     (case s of
        [] \<Rightarrow> []
      | c # cs \<Rightarrow>
          if starts_with s KELSO_CONFIG_REF then
            (let rest = drop (length KELSO_CONFIG_REF) s;
                 name = takeWhile (\<lambda>c. c \<noteq> CHR ''}'') rest
             in if name \<noteq> [] \<and> name \<noteq> rest
                then (KELSO_CONFIG_ENV_PREFIX @ ''_'' @ name) # config_refs (drop (Suc (length name)) rest)
                else config_refs cs)
          else config_refs cs)"
  by pat_completeness auto
termination by (relation "measure length") auto

declare config_refs.simps [simp del]

definition down_env :: "string \<Rightarrow> (string, string) dict" where
  "down_env text = dict_merge [] (List.map (\<lambda>name. (name, [])) (config_refs text))"

definition compose_text :: "('s, 'w, 'b, 'd) run_env \<Rightarrow> ('s, 'w, 'b, 'd) world \<Rightarrow> string" where
  "compose_text env w = (case rn_compose (run_of w) of None \<Rightarrow> [] | Some JNull \<Rightarrow> [] | Some j \<Rightarrow> re_yaml env j)"

definition stop ::
    "('s, 'w, 'b, 'd) run_env \<Rightarrow> string \<Rightarrow> string \<Rightarrow> (('s, 'w, 'b, 'd) world, run_error, unit) act" where
  "stop env app action =
     bindA (askA (run_state_of env app)) (\<lambda>s.
       if \<not> rs_compose_exists s
       then raise (if rs_containers s \<noteq> [] then OrphanContainers (List.map us_container_id (rs_containers s)) else NotLoadedYet)
       else bindA (askA (\<lambda>w. Inr (down_env (compose_text env w)))) (\<lambda>vars.
            bindA (except_for docker_error (docker_run_command env app [''compose'', ''down''] True vars None) (recorded ''stop-failed'' app)) (\<lambda>_.
            bindA (update (\<lambda>w. w\<lparr>wd_load := on_run unlink_host_volumes (wd_load w)\<rparr>)) (\<lambda>_.
              update (recorded action app)))))"

definition STOPPED_ACTION :: string where "STOPPED_ACTION = ''stopped''"

section \<open>Restarting and reloading\<close>

definition run_copy :: "'s run_ctx \<Rightarrow> string \<Rightarrow> start_args" where
  "run_copy ctx app =
     \<lparr>sa_app = app, sa_bundle = app_run_path (rx_config ctx) app, sa_sets = [], sa_binds = [], sa_bound = None,
      sa_version_change = False\<rparr>"

definition start_copy ::
    "('s, 'w, 'b, 'd) run_env \<Rightarrow> string \<Rightarrow> (('s, 'w, 'b, 'd) world, run_error, load_result) act" where
  "start_copy env app w = start env (run_copy (ld_ctx (wd_load w)) app) w"

definition restart ::
    "('s, 'w, 'b, 'd) run_env \<Rightarrow> string \<Rightarrow> (('s, 'w, 'b, 'd) world, run_error, load_result) act" where
  "restart env app =
     bindA (askA (\<lambda>w. if is_loaded_now w then run_state_of env app w else Inl NotLoadedYet)) (\<lambda>s.
     bindA (whenA (rs_running_count s > 0) (stop env app STOPPED_ACTION)) (\<lambda>_.
       start_copy env app))"

definition reload_app ::
    "('s, 'w, 'b, 'd) run_env \<Rightarrow> start_args \<Rightarrow> (('s, 'w, 'b, 'd) world, run_error, load_result \<times> bool) act" where
  "reload_app env a =
     bindA (askA (\<lambda>w. Inr (running_now env (sa_app a) w > 0))) (\<lambda>running.
     bindA (in_load (askA (\<lambda>st. check_same_version (re_load env) (sa_app a) (sa_bundle a) (ld_run st)))) (\<lambda>_.
     bindA (whenA running (stop env (sa_app a) STOPPED_ACTION)) (\<lambda>_.
     bindA (load_app env (a\<lparr>sa_sets := [], sa_binds := [], sa_version_change := False\<rparr>)) (\<lambda>res.
     bindA (if running then bindA (start_copy env (sa_app a)) (\<lambda>_. ret ()) else ret ()) (\<lambda>_.
       ret (res, running))))))"

section \<open>Commands\<close>

definition WATCH_SECONDS :: nat where "WATCH_SECONDS = 5 * 60"

text \<open>\<^verbatim>\<open>compose_env\<close>: a spec or a layout that does not read gives no environment.\<close>

definition compose_env ::
    "('s, 'w, 'b, 'd) run_env \<Rightarrow> string \<Rightarrow> ('s, 'w, 'b, 'd) world \<Rightarrow> (string, string) dict" where
  "compose_env env app w =
     (case require_loaded_spec env app w of
        Inl e \<Rightarrow> []
      | Inr spec \<Rightarrow> (case load_run_data spec (ld_ctx (wd_load w)) of Inl e \<Rightarrow> [] | Inr data \<Rightarrow> config_env data))"

definition logs ::
    "('s, 'w, 'b, 'd) run_env \<Rightarrow> string \<Rightarrow> string list \<Rightarrow> (('s, 'w, 'b, 'd) world, run_error, int) act" where
  "logs env app extra =
     bindA (askA (run_state_of env app)) (\<lambda>s.
       if \<not> rs_compose_exists s then raise NotLoadedYet
       else bindA (askA (\<lambda>w. Inr (compose_env env app w))) (\<lambda>vars.
         docker_run_command env app ([''compose'', ''logs''] @ extra) True vars None))"

text \<open>\<open>finally\<close>: the undoing is done whether the work raised or not.\<close>

definition finally_do :: "('w, 'e, 'a) act \<Rightarrow> ('w \<Rightarrow> 'w) \<Rightarrow> ('w, 'e, 'a) act" where
  "finally_do m undo w = (case m w of (r, w') \<Rightarrow> (r, undo w'))"

definition one_off ::
    "('s, 'w, 'b, 'd) run_env \<Rightarrow> string \<Rightarrow> app_spec \<Rightarrow> string \<Rightarrow> string list \<Rightarrow> (string, string) dict \<Rightarrow> bool
       \<Rightarrow> (('s, 'w, 'b, 'd) world, run_error, int) act" where
  "one_off env app spec unit argv vars was_stopped =
     (let cmd = docker_run_command env app ([''compose'', ''run'', ''--rm'', ''--no-deps'', unit] @ argv) False vars (Some WATCH_SECONDS)
      in if was_stopped
         then bindA (in_load (askA (\<lambda>st. lift_layout (load_run_data spec (ld_ctx st))))) (\<lambda>data.
              bindA (in_load (link_host_volumes spec data)) (\<lambda>_.
                finally_do cmd (\<lambda>w. w\<lparr>wd_load := on_run unlink_host_volumes (wd_load w)\<rparr>)))
         else cmd)"

definition detach_on_timeout :: "string \<Rightarrow> ('w, run_error, 'a) act \<Rightarrow> ('w, run_error, 'a) act" where
  "detach_on_timeout name m w =
     (case m w of (Inl DockerTimeout, w') \<Rightarrow> (Inl (StillRunningDetached name), w') | r \<Rightarrow> r)"

definition run_command ::
    "('s, 'w, 'b, 'd) run_env \<Rightarrow> string \<Rightarrow> string \<Rightarrow> string list \<Rightarrow> (('s, 'w, 'b, 'd) world, run_error, int) act" where
  "run_command env app name args =
     bindA (askA (run_state_of env app)) (\<lambda>s.
       if \<not> rs_compose_exists s then raise NotLoadedYet
       else bindA (askA (require_loaded_spec env app)) (\<lambda>spec.
         case map_of (sp_commands spec) name of
           None \<Rightarrow> raise (UnknownCommand name (sort (keys (sp_commands spec))))
         | Some entry \<Rightarrow>
             bindA (in_load (askA (\<lambda>st. lift_layout (lookup (cmd_run_unit entry) (sp_run_units spec))))) (\<lambda>unit.
             let argv = command_argv unit entry args;
                 running = List.map us_run_unit (List.filter us_running (rs_containers s))
             in bindA (askA (\<lambda>w. Inr (compose_env env app w))) (\<lambda>vars.
                detach_on_timeout name
                  (if cmd_run_unit entry \<in> set running
                   then docker_run_command env app ([''compose'', ''exec'', cmd_run_unit entry] @ argv) False vars (Some WATCH_SECONDS)
                   else one_off env app spec (cmd_run_unit entry) argv vars (rs_running_count s = 0))))))"

section \<open>What each step keeps\<close>

lemma except_for_E:
  assumes "except_for P m undo w = (r, w')"
  obtains (raised) e w1 where "m w = (Inl e, w1)" "r = Inl e" "w' = (if P e then undo w1 else w1)"
    | (returned) x where "m w = (Inr x, w')" "r = Inr x"
  using assms by (auto simp: except_for_def split: prod.splits sum.splits)

definition same_docker :: "('s, 'w, 'b, 'd) world \<Rightarrow> ('s, 'w, 'b, 'd) world \<Rightarrow> bool" where
  "same_docker w w' \<longleftrightarrow> wd_docker w' = wd_docker w"

lemma same_docker_order: "reflp same_docker" "transp same_docker"
  by (auto simp: same_docker_def intro!: reflpI transpI)

lemma in_load_docker: "keeps same_docker (in_load m)"
  by (simp add: keeps_def in_load_def same_docker_def split: prod.split)

lemma update_docker: "(\<And>w. wd_docker (f w) = wd_docker w) \<Longrightarrow> keeps same_docker (update f)"
  by (simp add: keeps_def same_docker_def)

lemmas docker_frame = keeps_bindA [OF _ _ same_docker_order(2)] keeps_askA [OF same_docker_order(1)]
  keeps_ret [OF same_docker_order(1)] in_load_docker update_docker

lemma start_data_docker: "keeps same_docker (start_data env a)"
proof -
  have "keeps same_docker (load_app env b)" for b
    by (simp add: keeps_def load_app_def in_load_def same_docker_def split: prod.split)
  then show ?thesis
    unfolding start_data_def rederive_routes_def
    by (auto intro!: docker_frame split: prod.split)
qed

text \<open>Reading what to start with raises nothing docker or a provider raises.\<close>

fun about_loading :: "run_error \<Rightarrow> bool" where
  "about_loading (LoadFailed e) \<longleftrightarrow> True"
| "about_loading NotLoadedYet \<longleftrightarrow> True"
| "about_loading e \<longleftrightarrow> False"

lemma in_load_raises: "in_load m w = (Inl e, w') \<Longrightarrow> about_loading e"
  by (auto simp: in_load_def split: prod.splits sum.splits)

lemma require_loaded_spec_raises: "require_loaded_spec env app w = Inl e \<Longrightarrow> about_loading e"
  by (auto simp: require_loaded_spec_def split: sum.splits option.splits)

lemma start_data_raises:
  assumes "start_data env a w = (Inl e, w')"
  shows "about_loading e"
  using assms unfolding start_data_def
proof (cases rule: bindA_E)
  case (went_on anew w1)
  show ?thesis
  proof (cases anew)
    case True
    with went_on(2) show ?thesis by (auto simp: load_app_def dest: in_load_raises)
  next
    case False
    with went_on(2) show ?thesis
      unfolding rederive_routes_def
      by (auto elim!: bindA_E split: if_splits prod.splits dest: in_load_raises require_loaded_spec_raises)
  qed
qed (simp add: askA_def)

lemma last_action_recorded [simp]: "last_action app (wd_load (recorded verb app w)) = Some verb"
  by (simp add: last_action_def recorded_def record_action_def)

lemma recorded_parts [simp]:
  "wd_docker (recorded verb app w) = wd_docker w" "run_of (recorded verb app w) = run_of w"
  "ld_ctx (wd_load (recorded verb app w)) = ld_ctx (wd_load w)"
  "ld_providers (wd_load (recorded verb app w)) = ld_providers (wd_load w)"
  by (simp_all add: recorded_def run_of_def record_action_def)

lemma docker_run_command_raises:
  "docker_run_command env app cmd check vars timeout w = (Inl e, w') \<Longrightarrow> e \<in> range DockerFailed \<union> {DockerTimeout}"
  by (auto simp: docker_run_command_def split: prod.splits docker_answer.splits if_splits)

lemma docker_run_command_checked:
  assumes "docker_run_command env app cmd True vars timeout w = (Inr code, w')"
  shows "\<exists>d. do_compose (re_docker env) (wd_docker w) app (rn_compose (run_of w)) cmd vars timeout = (Exited 0, d) \<and>
    w' = w\<lparr>wd_docker := d\<rparr>"
  using assms by (auto simp: docker_run_command_def split: prod.splits docker_answer.splits if_splits)

lemma docker_run_command_frame: "docker_run_command env app cmd check vars timeout w = (r, w') \<Longrightarrow> wd_load w' = wd_load w"
  by (auto simp: docker_run_command_def split: prod.splits)

lemma on_providers_frame:
  assumes "on_providers m w = (r, w')"
  shows "w' = w\<lparr>wd_load := (wd_load w)\<lparr>ld_providers := ld_providers (wd_load w')\<rparr>\<rparr>" and "r = Inl e \<Longrightarrow> e \<in> range RoutesRefused"
    and "r = Inr u \<Longrightarrow> m (ld_providers (wd_load w)) = (Inr (), ld_providers (wd_load w'))"
  using assms by (auto simp: on_providers_def split: prod.splits sum.splits)

lemma register_frame: "register env data w = (r, w') \<Longrightarrow> wd_docker w' = wd_docker w \<and> run_of w' = run_of w \<and>
    ld_ctx (wd_load w') = ld_ctx (wd_load w)"
  unfolding register_def by (auto simp: on_providers_def run_of_def split: prod.splits)

lemma register_raises: "register env data w = (Inl e, w') \<Longrightarrow> e \<in> range RoutesRefused"
  unfolding register_def by (rule on_providers_frame(2) [OF _ refl])

lemma register_returns: "register env data w = (Inr u, w') \<Longrightarrow>
    register_app_routes (en_ops (re_load env)) (rx_config (ld_ctx (wd_load w))) data (ld_providers (wd_load w))
      = (Inr (), ld_providers (wd_load w'))"
  unfolding register_def by (rule on_providers_frame(3) [OF _ refl])

lemma preflight_frame: "preflight env data w = (r, w') \<Longrightarrow> wd_docker w' = wd_docker w \<and> run_of w' = run_of w \<and>
    ld_ctx (wd_load w') = ld_ctx (wd_load w)"
  unfolding preflight_def by (auto simp: on_providers_def run_of_def split: prod.splits)

lemma preflight_raises: "preflight env data w = (Inl e, w') \<Longrightarrow> e \<in> range RoutesRefused"
  unfolding preflight_def by (rule on_providers_frame(2) [OF _ refl])

text \<open>What is left to do once it is known what to start with.\<close>

definition bring_up ::
    "('s, 'w, 'b, 'd) run_env \<Rightarrow> string \<Rightarrow> load_result \<Rightarrow> (('s, 'w, 'b, 'd) world, run_error, load_result) act" where
  "bring_up env app res =
     (let data = lo_run_data res; failed = recorded ''start-failed'' app
      in bindA (except_for provider_raised (preflight env data) failed) (\<lambda>_.
        bindA (in_load (link_host_volumes (lo_spec res) data)) (\<lambda>_.
        bindA (except_for docker_error (docker_run_command env app [''compose'', ''up'', ''-d''] True (config_env data) None) failed) (\<lambda>_.
        bindA (except_for provider_raised (register env data) failed) (\<lambda>_.
        bindA (in_load (on_app (\<lambda>ops cr k s. set_meta ops s ''started_at'' (JStr (re_now env))))) (\<lambda>_.
        bindA (update (recorded ''started'' app)) (\<lambda>_. ret res)))))))"

lemma start_bring_up:
  "start env a = bindA (start_data env a) (\<lambda>res.
     bindA (askA (\<lambda>w. if start_blockers (lo_run_data res) \<noteq> [] then Inl (CannotStart (start_blockers (lo_run_data res)))
                        else if rn_compose (run_of w) = None then Inl NotLoadedYet else Inr ()))
       (\<lambda>_. bring_up env (sa_app a) res))"
  by (simp only: start_def bring_up_def Let_def)

text \<open>Linking host volumes rebuilds \<^verbatim>\<open>volumes/host\<close> and nothing else.\<close>

definition host_links :: "((string \<times> string) \<times> string) list \<Rightarrow> ((string \<times> string) \<times> string) list" where
  "host_links ls = List.filter (\<lambda>l. fst (fst l) = ''host'') ls"

definition other_links :: "((string \<times> string) \<times> string) list \<Rightarrow> ((string \<times> string) \<times> string) list" where
  "other_links ls = List.filter (\<lambda>l. fst (fst l) \<noteq> ''host'') ls"

lemma links_append [simp]:
  "host_links (xs @ ys) = host_links xs @ host_links ys" "other_links (xs @ ys) = other_links xs @ other_links ys"
  by (simp_all add: host_links_def other_links_def)

lemma unlink_links: "unlink_host_volumes rd = rd\<lparr>rn_links := other_links (rn_links rd)\<rparr>"
proof -
  have "(\<lambda>((kind, name :: string), target :: string). kind \<noteq> ''host'') = (\<lambda>l. fst (fst l) \<noteq> ''host'')" by (simp add: fun_eq_iff)
  then show ?thesis unfolding unlink_host_volumes_def other_links_def by simp
qed

lemma unlinked [simp]:
  "rn_links (unlink_host_volumes rd) = other_links (rn_links rd)"
  "host_links (other_links ls) = []" "other_links (other_links ls) = other_links ls"
  by (simp_all add: unlink_links host_links_def other_links_def)

definition only_host_links :: "('s, 'w, 'b) load_state \<Rightarrow> ('s, 'w, 'b) load_state \<Rightarrow> bool" where
  "only_host_links st st' \<longleftrightarrow>
     (\<exists>ls. st' = on_run (\<lambda>rd. rd\<lparr>rn_links := ls\<rparr>) st \<and> other_links ls = other_links (rn_links (ld_run st)))"

lemma only_host_linksI:
  "st' = on_run (\<lambda>rd. rd\<lparr>rn_links := ls\<rparr>) st \<Longrightarrow> other_links ls = other_links (rn_links (ld_run st)) \<Longrightarrow> only_host_links st st'"
  by (auto simp: only_host_links_def)

lemma only_host_links_refl: "only_host_links st st"
  by (rule only_host_linksI [where ls = "rn_links (ld_run st)"]) (simp_all add: on_run_def)

lemma only_host_links_trans:
  assumes "only_host_links a b" and "only_host_links b c"
  shows "only_host_links a c"
proof -
  obtain l1 where "b = on_run (\<lambda>rd. rd\<lparr>rn_links := l1\<rparr>) a" "other_links l1 = other_links (rn_links (ld_run a))"
    using assms(1) unfolding only_host_links_def by blast
  moreover obtain l2 where "c = on_run (\<lambda>rd. rd\<lparr>rn_links := l2\<rparr>) b" "other_links l2 = other_links (rn_links (ld_run b))"
    using assms(2) unfolding only_host_links_def by blast
  ultimately show ?thesis by (auto simp: on_run_def intro: only_host_linksI [where ls = l2])
qed

lemma only_host_links_order: "reflp only_host_links" "transp only_host_links"
  by (rule reflpI, rule only_host_links_refl) (rule transpI, rule only_host_links_trans)

lemma link_host_volumes_frame: "keeps only_host_links (link_host_volumes spec data)"
proof -
  have one: "keeps only_host_links (whenA (av_kind v = HostKind)
      (update (on_run (\<lambda>rd. rd\<lparr>rn_links := rn_links rd @ [((kind_name (av_kind v), av_name v), target)]\<rparr>))))" for v target
    by (cases "av_kind v = HostKind")
      (auto simp: keeps_def kind_name.simps other_links_def on_run_def intro: only_host_links_refl
        intro!: only_host_linksI)
  have "keeps only_host_links (update (on_run unlink_host_volumes))"
    unfolding keeps_def
    by (simp add: only_host_linksI [where ls = "other_links (rn_links (ld_run w))" for w] on_run_def unlink_links)
  then show ?thesis
    unfolding link_host_volumes_def
    by (auto intro!: keeps_bindA [OF _ _ only_host_links_order(2)] keeps_eachA [OF _ only_host_links_order] one
        split: option.split) (auto simp: keeps_def intro: only_host_links_refl)
qed

lemma run_of_docker [simp]: "run_of (w\<lparr>wd_docker := d\<rparr>) = run_of w"
  by (simp add: run_of_def)

lemma in_load_E:
  assumes "in_load m w = (r, w')"
  obtains (raised) e st where "m (wd_load w) = (Inl e, st)" "r = Inl (LoadFailed e)" "w' = w\<lparr>wd_load := st\<rparr>"
    | (returned) x st where "m (wd_load w) = (Inr x, st)" "r = Inr x" "w' = w\<lparr>wd_load := st\<rparr>"
  using assms by (auto simp: in_load_def split: prod.splits sum.splits)

lemma link_step:
  assumes "in_load (link_host_volumes spec data) w = (r, w')"
  shows "wd_docker w' = wd_docker w" and "rn_compose (run_of w') = rn_compose (run_of w)"
    and "rn_bundle (run_of w') = rn_bundle (run_of w)" and "ld_ctx (wd_load w') = ld_ctx (wd_load w)"
    and "ld_providers (wd_load w') = ld_providers (wd_load w)" and "ld_actions (wd_load w') = ld_actions (wd_load w)"
    and "other_links (rn_links (run_of w')) = other_links (rn_links (run_of w))"
proof -
  obtain r1 st where l: "link_host_volumes spec data (wd_load w) = (r1, st)" "w' = w\<lparr>wd_load := st\<rparr>"
    using assms by (auto simp: in_load_def split: prod.splits)
  from keepsD [OF link_host_volumes_frame l(1)] obtain ls where
    "st = on_run (\<lambda>rd. rd\<lparr>rn_links := ls\<rparr>) (wd_load w)" "other_links ls = other_links (rn_links (ld_run (wd_load w)))"
    unfolding only_host_links_def by blast
  with l(2) show "wd_docker w' = wd_docker w" "rn_compose (run_of w') = rn_compose (run_of w)"
    "rn_bundle (run_of w') = rn_bundle (run_of w)" "ld_ctx (wd_load w') = ld_ctx (wd_load w)"
    "ld_providers (wd_load w') = ld_providers (wd_load w)" "ld_actions (wd_load w') = ld_actions (wd_load w)"
    "other_links (rn_links (run_of w')) = other_links (rn_links (run_of w))"
    by (simp_all add: run_of_def on_run_def)
qed

lemma on_app_step:
  assumes "in_load (on_app f) w = (r, w')"
  shows "wd_docker w' = wd_docker w" and "run_of w' = run_of w" and "ld_providers (wd_load w') = ld_providers (wd_load w)"
    and "ld_actions (wd_load w') = ld_actions (wd_load w)" and "r = Inl e \<Longrightarrow> \<exists>x. e = LoadFailed (LoadStore x)"
  using assms by (auto simp: in_load_def on_app_def upd_ctx_def run_of_def split: prod.splits sum.splits)

definition UP :: "string list" where "UP = [''compose'', ''up'', ''-d'']"

definition came_up :: "('s, 'w, 'b, 'd) run_env \<Rightarrow> string \<Rightarrow> load_result \<Rightarrow> 'd \<Rightarrow> ('s, 'w, 'b, 'd) world \<Rightarrow> bool" where
  "came_up env app res d w' \<longleftrightarrow>
     do_compose (re_docker env) d app (rn_compose (run_of w')) UP (config_env (lo_run_data res)) None
       = (Exited 0, wd_docker w') \<and>
     (\<exists>p cfg. register_app_routes (en_ops (re_load env)) cfg (lo_run_data res) p = (Inr (), ld_providers (wd_load w'))) \<and>
     last_action app (wd_load w') = Some ''started''"

lemma bring_up_outcome:
  assumes "bring_up env app res w = (r, w')"
  shows "case r of
      Inr x \<Rightarrow> x = res \<and> came_up env app res (wd_docker w) w'
    | Inl e \<Rightarrow>
        (docker_error e \<or> provider_raised e \<longrightarrow> last_action app (wd_load w') = Some ''start-failed'') \<and>
        (wd_docker w' \<noteq> wd_docker w \<longrightarrow> docker_error e \<or> e = DockerTimeout \<or> e \<in> range RoutesRefused \<or> about_loading e) \<and>
        (about_loading e \<or> e \<in> range DockerFailed \<union> range RoutesRefused \<union> {DockerTimeout})"
  using assms unfolding bring_up_def Let_def
proof (cases rule: bindA_E)
  case (raised e)
  from raised(1) show ?thesis
    by (cases rule: except_for_E) (auto simp: raised(2) dest: preflight_raises preflight_frame)
next
  case (went_on u w1)
  have w1: "wd_docker w1 = wd_docker w" using went_on(1)
    by (cases rule: except_for_E) (auto dest: preflight_frame)
  from went_on(2) show ?thesis
  proof (cases rule: bindA_E)
    case (raised e)
    from in_load_raises [OF raised(1)] show ?thesis
      by (cases e) (auto simp: raised(2) link_step(1) [OF raised(1)] w1)
  next
    case (went_on u w2)
    note linked = link_step [OF went_on(1)]
    from went_on(2) show ?thesis
    proof (cases rule: bindA_E)
      case (raised e)
      from raised(1) show ?thesis
        by (cases rule: except_for_E) (auto simp: raised(2) dest!: docker_run_command_raises)
    next
      case (went_on code w3)
      from went_on(1) have "docker_run_command env app [''compose'', ''up'', ''-d''] True (config_env (lo_run_data res)) None w2 = (Inr code, w3)"
        by (cases rule: except_for_E) auto
      from docker_run_command_checked [OF this] obtain d where
        up: "do_compose (re_docker env) (wd_docker w) app (rn_compose (run_of w2)) UP (config_env (lo_run_data res)) None = (Exited 0, d)"
          "w3 = w2\<lparr>wd_docker := d\<rparr>" using linked(1) w1 by (auto simp: UP_def)
      from went_on(2) show ?thesis
      proof (cases rule: bindA_E)
        case (raised e)
        from raised(1) show ?thesis
          by (cases rule: except_for_E) (auto simp: raised(2) dest!: register_raises)
      next
        case (went_on u w4)
        from went_on(1) have reg: "register env (lo_run_data res) w3 = (Inr u, w4)"
          by (cases rule: except_for_E) auto
        from went_on(2) show ?thesis
        proof (cases rule: bindA_E)
          case (raised e)
          from on_app_step(5) [OF raised(1)] show ?thesis by (auto simp: raised(2))
        next
          case (went_on u w5)
          note meta = on_app_step(1-4) [OF went_on(1)]
          from went_on(2) have "r = Inr res" "w' = recorded ''started'' app w5" by (simp_all add: bindA_def)
          with up meta register_frame [OF reg] register_returns [OF reg] show ?thesis
            by (auto simp: came_up_def)
        qed
      qed
    qed
  qed
qed

definition same_bundle :: "('s, 'w, 'b, 'd) world \<Rightarrow> ('s, 'w, 'b, 'd) world \<Rightarrow> bool" where
  "same_bundle w w' \<longleftrightarrow> rn_bundle (run_of w') = rn_bundle (run_of w)"

lemma same_bundle_order: "reflp same_bundle" "transp same_bundle"
  by (auto simp: same_bundle_def intro!: reflpI transpI)

lemma in_load_bundle: "keeps same_copies m \<Longrightarrow> keeps same_bundle (in_load m)"
  by (auto simp: keeps_def in_load_def same_bundle_def same_copies_def run_of_def split: prod.split)
    (metis snd_conv)

lemma bring_up_bundle: "keeps same_bundle (bring_up env app res)"
proof -
  have run: "keeps same_bundle (docker_run_command env app cmd c v t)" for cmd c v t
    unfolding keeps_def same_bundle_def run_of_def by (metis docker_run_command_frame prod.collapse)
  have exc: "keeps same_bundle (except_for P m (recorded verb app))" if "keeps same_bundle m" for P verb and m :: "(_, _, 'e) act"
    using that by (auto simp: keeps_def except_for_def same_bundle_def split: prod.split sum.split)
      (metis snd_conv)+
  have reg: "keeps same_bundle (register env d)" for d
    unfolding keeps_def same_bundle_def by (metis register_frame prod.collapse)
  have pre: "keeps same_bundle (preflight env d)" for d
    unfolding keeps_def same_bundle_def by (metis preflight_frame prod.collapse)
  have link: "keeps same_bundle (in_load (link_host_volumes spec d))" for spec d
    unfolding keeps_def same_bundle_def by (metis link_step(3) prod.collapse)
  show ?thesis
    unfolding bring_up_def Let_def
    by (intro keeps_bindA [OF _ _ same_bundle_order(2)] exc run reg pre link in_load_bundle copies
        keeps_askA [OF same_bundle_order(1)] keeps_ret [OF same_bundle_order(1)])
      (simp add: keeps_def same_bundle_def)
qed

lemma bring_up_compose:
  assumes "bring_up env app res w = (r, w')"
  shows "rn_compose (run_of w') = rn_compose (run_of w)"
proof -
  let ?R = "\<lambda>w w'. rn_compose (run_of w') = rn_compose (run_of w)"
  have R: "reflp ?R" "transp ?R" by (auto intro!: reflpI transpI)
  have run: "keeps ?R (docker_run_command env app cmd c v t)" for cmd c v t
    unfolding keeps_def run_of_def by (metis docker_run_command_frame prod.collapse)
  have exc: "keeps ?R (except_for P m (recorded verb app))" if "keeps ?R m" for P verb and m :: "(_, _, 'e) act"
    using that by (auto simp: keeps_def except_for_def split: prod.split sum.split) (metis snd_conv)+
  have reg: "keeps ?R (register env d)" for d
    unfolding keeps_def by (metis register_frame prod.collapse)
  have pre: "keeps ?R (preflight env d)" for d
    unfolding keeps_def by (metis preflight_frame prod.collapse)
  have link: "keeps ?R (in_load (link_host_volumes spec d))" for spec d
    unfolding keeps_def by (metis link_step(2) prod.collapse)
  have meta: "keeps ?R (in_load (on_app f))" for f
    unfolding keeps_def by (metis on_app_step(2) prod.collapse)
  have "keeps ?R (bring_up env app res)"
    unfolding bring_up_def Let_def
    by (intro keeps_bindA [OF _ _ R(2)] exc run reg pre link meta keeps_askA [OF R(1)] keeps_ret [OF R(1)])
      (simp add: keeps_def)
  from keepsD [OF this assms] show ?thesis .
qed

lemma start_data_bundle:
  assumes "start_data env a w = (r, w')" and "sa_sets a = []" "sa_binds a = []" "is_loaded_now w"
  shows "same_bundle w w'"
proof -
  have "keeps same_bundle (rederive_routes env (sa_app a) spec)" for spec
    unfolding rederive_routes_def
    by (auto intro!: keeps_bindA [OF _ _ same_bundle_order(2)] in_load_bundle copies_materialize
        keeps_ret [OF same_bundle_order(1)] split: prod.split)
      (simp add: keeps_def same_bundle_def unpublish_def run_of_def)
  moreover have "keeps same_bundle (in_load (askA f))" for f :: "_ \<Rightarrow> load_error + 'x"
    by (rule in_load_bundle) (rule copies_intros)
  ultimately have k: "keeps same_bundle (bindA (askA (require_loaded_spec env (sa_app a))) (\<lambda>spec.
            bindA (in_load (askA (\<lambda>st. lift_load (re_pending env (ld_ctx st))))) (\<lambda>pending.
              if pc_routes pending then rederive_routes env (sa_app a) spec
              else bindA (in_load (askA (\<lambda>st. lift_layout (load_run_data spec (ld_ctx st))))) (\<lambda>data.
                   ret \<lparr>lo_spec = spec, lo_run_data = data, lo_dropped = []\<rparr>))))"
    by (auto intro!: keeps_bindA [OF _ _ same_bundle_order(2)] in_load_bundle copies_intros(2)
        keeps_ret [OF same_bundle_order(1)] keeps_askA [OF same_bundle_order(1)])
  show ?thesis
    by (rule keepsD [OF k]) (use assms in \<open>simp add: start_data_def bindA_def [of "askA _"]\<close>)
qed

text \<open>C16: what a start leaves behind says what happened. One that returns had nothing in its way, brought the
  containers up from the compose file of the run directory with the app's config in the environment,
  registered every route, and is the last action of the app; one that docker or a route provider
  stopped is recorded as failed; one refused for what is missing touched no container. A start
  that was given nothing new keeps the loaded copy.\<close>

theorem start_says_what_happened:
  assumes "start env a w = (r, w')"
  shows "(case r of
      Inr res \<Rightarrow> start_blockers (lo_run_data res) = [] \<and> rn_compose (run_of w') \<noteq> None \<and>
        came_up env (sa_app a) res (wd_docker w) w'
    | Inl e \<Rightarrow>
        (docker_error e \<or> provider_raised e \<longrightarrow> last_action (sa_app a) (wd_load w') = Some ''start-failed'') \<and>
        (\<forall>is. e = CannotStart is \<longrightarrow> is \<noteq> [] \<and> wd_docker w' = wd_docker w)) \<and>
    (sa_sets a = [] \<and> sa_binds a = [] \<and> is_loaded_now w \<longrightarrow> rn_bundle (run_of w') = rn_bundle (run_of w))"
  using assms unfolding start_bring_up
proof (cases rule: bindA_E)
  case (raised e)
  with start_data_raises [OF raised(1)] keepsD [OF start_data_docker raised(1)] start_data_bundle [OF raised(1)]
  show ?thesis by (cases e) (auto simp: same_bundle_def)
next
  case (went_on res w1)
  note d = keepsD [OF start_data_docker went_on(1), unfolded same_docker_def]
  note b = start_data_bundle [OF went_on(1), unfolded same_bundle_def]
  from went_on(2) show ?thesis
  proof (cases rule: bindA_E)
    case (raised e)
    with d b show ?thesis by (auto split: if_splits)
  next
    case (went_on u w2)
    then have ok: "w2 = w1" "start_blockers (lo_run_data res) = []" "rn_compose (run_of w1) \<noteq> None"
      by (auto split: if_splits)
    note up = bring_up_outcome [OF went_on(2)]
    have "rn_bundle (run_of w') = rn_bundle (run_of w1)"
      using keepsD [OF bring_up_bundle went_on(2)] ok(1) by (simp add: same_bundle_def)
    moreover have "rn_compose (run_of w') \<noteq> None" if "r = Inr res"
      using that bring_up_compose [OF went_on(2)] ok by simp
    ultimately show ?thesis using up ok d b by (cases r) (auto simp: about_loading.simps)
  qed
qed

text \<open>The demonstration app, loaded, on a docker whose state lists the containers that are up.\<close>

definition demo_docker :: "unit_status list docker_ops" where
  "demo_docker = \<lparr>do_containers = (\<lambda>d app. List.filter (\<lambda>c. us_app_id c = app) d),
     do_compose = (\<lambda>d app file cmd vars timeout.
       if cmd = UP then (Exited 0, d @ [\<lparr>us_app_id = app, us_run_unit = ''main'', us_container_id = ''c1'',
                          us_name = ''main-1'', us_state = ''running'', us_status = ''Up 1 second''\<rparr>])
       else if cmd = [''compose'', ''down''] then (Exited 0, List.filter (\<lambda>c. us_app_id c \<noteq> app) d)
       else (Exited 1, d))\<rparr>"

definition demo_run_env :: "((string, json) dict, string \<Rightarrow> noop_provider, string, unit_status list) run_env" where
  "demo_run_env = \<lparr>re_load = \<lparr>en_open = (\<lambda>p. Inl (NotValidBundle p)), en_manifest = (\<lambda>b. Inr (demo_manifest ''/var/db'')),
       en_rand = id, en_ops = noop_ops, en_same_file = (=)\<rparr>,
     re_docker = demo_docker, re_traced = (\<lambda>c. True), re_config_exists = (\<lambda>c. True), re_has_data = (\<lambda>c. True),
     re_pending = (\<lambda>c. Inr \<lparr>pc_config = False, pc_routes = False\<rparr>), re_yaml = (\<lambda>j. ''services: {}''),
     re_now = ''2026-01-01T00:00:00Z''\<rparr>"

definition demo_world :: "unit_status list \<Rightarrow> ((string, json) dict, string \<Rightarrow> noop_provider, string, unit_status list) world" where
  "demo_world d = \<lparr>wd_load = demo_load_state\<lparr>ld_run := (ld_run demo_load_state)\<lparr>rn_compose := Some (JObj [])\<rparr>\<rparr>, wd_docker = d\<rparr>"

definition demo_start :: start_args where
  "demo_start = \<lparr>sa_app = ''org.demo'', sa_bundle = ''/k/var/run/org.demo'', sa_sets = [], sa_binds = [], sa_bound = None,
     sa_version_change = False\<rparr>"

lemma demo_loaded_spec: "require_loaded_spec demo_run_env ''org.demo'' (demo_world d) = Inr demo_spec"
  by (simp add: require_loaded_spec_def loaded_spec_def run_of_def demo_world_def demo_load_state_def spec_of_def
      demo_run_env_def spec_from_manifest_def demo_manifest_accepted demo_spec_build)

lemma load_volume_link_name: "load_volume_link ctx app rp binds (n, v) = Inr (Some (m, l), is) \<Longrightarrow> m = n"
  by (auto simp: load_volume_link_def Let_def andthen_Inr split: if_splits sum.splits option.splits)

lemma volume_links_declared:
  assumes "load_run_data spec ctx = Inr d" and "(n, l) \<in> set (rd_volume_links d)"
  shows "map_of (sp_volumes spec) n \<noteq> None"
proof -
  obtain issues where "load_volume_links ctx spec = Inr (rd_volume_links d, issues)"
    by (rule load_run_data_parts [OF assms(1)])
  then obtain binds found where
    f: "traverse (load_volume_link ctx (sp_app spec) (path_join (run_root (rx_config ctx)) (sp_app spec)) binds) (sp_volumes spec) = Inr found"
       "rd_volume_links d = List.map_filter fst found"
    by (auto simp: load_volume_links_def andthen_Inr)
  from assms(2) f(2) obtain x where x: "x \<in> set found" "fst x = Some (n, l)"
    by (auto simp: List.map_filter_def)
  from traverse_Inr_set [OF f(1) x(1)] obtain m v where "(m, v) \<in> set (sp_volumes spec)"
    "load_volume_link ctx (sp_app spec) (path_join (run_root (rx_config ctx)) (sp_app spec)) binds (m, v) = Inr x"
    by auto
  with x(2) have "(n, v) \<in> set (sp_volumes spec)" by (metis load_volume_link_name prod.collapse)
  then show ?thesis by (metis fst_conv image_eqI map_of_eq_None_iff)
qed

text \<open>The links a start makes.\<close>

definition host_links_of :: "app_spec \<Rightarrow> (string, volume_link) dict \<Rightarrow> ((string \<times> string) \<times> string) list" where
  "host_links_of spec links = List.map_filter (\<lambda>(n, l). case map_of (sp_volumes spec) n of
      None \<Rightarrow> None
    | Some v \<Rightarrow> if av_kind v = HostKind then Some ((''host'', av_name v), vl_target l) else None) links"

lemma link_each:
  assumes "\<forall>(n, l) \<in> set links. map_of (sp_volumes spec) n \<noteq> None"
  shows "eachA (\<lambda>(name, l). case map_of (sp_volumes spec) name of
           None \<Rightarrow> raise (LoadLayout (NotLaidOut name))
         | Some v \<Rightarrow> whenA (av_kind v = HostKind)
             (update (on_run (\<lambda>rd. rd\<lparr>rn_links := rn_links rd @ [((kind_name (av_kind v), av_name v), vl_target l)]\<rparr>)))) links st
    = (Inr (), on_run (\<lambda>rd. rd\<lparr>rn_links := rn_links rd @ host_links_of spec links\<rparr>) st)"
  using assms
proof (induction links arbitrary: st)
  case Nil
  then show ?case by (simp add: host_links_of_def map_filter_simps on_run_def)
next
  case (Cons a links)
  obtain n l v where a: "a = (n, l)" and v: "map_of (sp_volumes spec) n = Some v" using Cons.prems by (cases a) auto
  from Cons show ?case
    by (cases "av_kind v = HostKind") (simp_all add: bindA_def a v host_links_of_def map_filter_simps on_run_def)
qed

lemma link_host_volumes_result:
  assumes "\<forall>(n, l) \<in> set (rd_volume_links data). map_of (sp_volumes spec) n \<noteq> None"
  shows "link_host_volumes spec data st =
    (Inr (), on_run (\<lambda>rd. rd\<lparr>rn_links := other_links (rn_links rd) @ host_links_of spec (rd_volume_links data)\<rparr>) st)"
  using link_each [OF assms, of "on_run unlink_host_volumes st"]
  by (simp add: link_host_volumes_def bindA_def on_run_def unlink_links)

lemma bindA_then: "m w = (Inr x, w1) \<Longrightarrow> f x w1 = R \<Longrightarrow> bindA m f w = R"
  by (simp add: bindA_def)

lemma demo_start_runs:
  "\<exists>res w'. start demo_run_env demo_start (demo_world []) = (Inr res, w') \<and> wd_docker w' \<noteq> []"
proof -
  obtain d where d: "load_run_data demo_spec demo_ctx = Inr d" "rd_issues d = []" "rd_routes d = [(''web'', demo_route)]"
    using demo_run_data by blast
  let ?w = "demo_world []" and ?res = "\<lparr>lo_spec = demo_spec, lo_run_data = d, lo_dropped = []\<rparr>"
  have ctx: "ld_ctx (wd_load ?w) = demo_ctx" by (simp add: demo_world_def demo_load_state_def)
  have data: "start_data demo_run_env demo_start ?w = (Inr ?res, ?w)"
    using demo_loaded_spec [of "[]"] d(1)
    by (simp add: start_data_def bindA_def demo_start_def is_loaded_now_def run_of_def demo_world_def demo_load_state_def
        in_load_def demo_run_env_def lift_load_def lift_layout_def)
  have none: "assigned_routes d = []"
    by (simp add: assigned_routes_def d(3) published_tags_def demo_route_def)
  have links: "\<forall>(n, l) \<in> set (rd_volume_links d). map_of (sp_volumes demo_spec) n \<noteq> None"
    using volume_links_declared [OF d(1)] by auto
  let ?L = "other_links (rn_links (run_of ?w)) @ host_links_of demo_spec (rd_volume_links d)"
  let ?w1 = "?w\<lparr>wd_load := on_run (\<lambda>rd. rd\<lparr>rn_links := ?L\<rparr>) (wd_load ?w)\<rparr>"
  have link: "in_load (link_host_volumes demo_spec d) ?w = (Inr (), ?w1)"
    by (simp add: in_load_def link_host_volumes_result [OF links] run_of_def on_run_def)
  have pre: "except_for provider_raised (preflight demo_run_env d) f ?w = (Inr (), ?w)" for f
    by (simp add: except_for_def preflight_def preflight_app_routes_def none on_providers_def demo_world_def demo_load_state_def)
  let ?w2 = "?w1\<lparr>wd_docker := snd (do_compose demo_docker [] ''org.demo'' None UP [] None)\<rparr>"
  have up: "except_for docker_error (docker_run_command demo_run_env ''org.demo'' [''compose'', ''up'', ''-d''] True (config_env d) None) f ?w1 = (Inr 0, ?w2)" for f
    by (simp add: except_for_def docker_run_command_def demo_run_env_def demo_docker_def UP_def demo_world_def)
  have reg: "except_for provider_raised (register demo_run_env d) f ?w2 = (Inr (), ?w2)" for f
    by (simp add: except_for_def register_def register_app_routes_def none on_providers_def demo_world_def demo_load_state_def)
  have meta: "\<exists>w3. in_load (on_app (\<lambda>ops cr k s. set_meta ops s ''started_at'' (JStr (re_now demo_run_env)))) ?w2 = (Inr (), w3) \<and> wd_docker w3 = wd_docker ?w2"
    by (simp add: in_load_def on_app_def set_meta_def demo_world_def demo_load_state_def demo_ctx_def memory_store_def on_run_def)
  then obtain w3 where w3: "in_load (on_app (\<lambda>ops cr k s. set_meta ops s ''started_at'' (JStr (re_now demo_run_env)))) ?w2 = (Inr (), w3)"
      "wd_docker w3 = wd_docker ?w2" by blast
  have "bring_up demo_run_env ''org.demo'' ?res ?w = (Inr ?res, recorded ''started'' ''org.demo'' w3)"
    unfolding bring_up_def Let_def load_result.select_convs
    by (rule bindA_then, rule pre, rule bindA_then, rule link, rule bindA_then, rule up, rule bindA_then, rule reg,
        rule bindA_then, rule w3(1)) (simp add: bindA_def)
  then have "start demo_run_env demo_start ?w = (Inr ?res, recorded ''started'' ''org.demo'' w3)"
    unfolding start_bring_up bindA_Inr [where m = "start_data demo_run_env demo_start", OF data] load_result.select_convs
    using d(2) by (simp add: bindA_def [of "askA _"] demo_start_def start_blockers_def run_of_def)
      (simp add: demo_world_def)
  then show ?thesis using w3(2) by (simp add: demo_docker_def)
qed

theorem start_says_what_happened_witness:
  "\<exists>res w'. start demo_run_env demo_start (demo_world []) = (Inr res, w') \<and>
    came_up demo_run_env ''org.demo'' res [] w' \<and> rn_bundle (run_of w') = Some ''v1''"
proof -
  obtain res w' where s: "start demo_run_env demo_start (demo_world []) = (Inr res, w')" using demo_start_runs by blast
  from start_says_what_happened [OF s] s show ?thesis
    by (auto simp: demo_start_def demo_world_def is_loaded_now_def run_of_def demo_load_state_def)
qed

definition DOWN :: "string list" where "DOWN = [''compose'', ''down'']"

text \<open>What stopping leaves alone: the stores, what providers hold, the loaded copy and the managed links.\<close>

definition only_stopped :: "('s, 'w, 'b, 'd) world \<Rightarrow> ('s, 'w, 'b, 'd) world \<Rightarrow> bool" where
  "only_stopped w w' \<longleftrightarrow> ld_ctx (wd_load w') = ld_ctx (wd_load w) \<and> ld_providers (wd_load w') = ld_providers (wd_load w) \<and>
     rn_bundle (run_of w') = rn_bundle (run_of w) \<and> rn_compose (run_of w') = rn_compose (run_of w) \<and>
     other_links (rn_links (run_of w')) = other_links (rn_links (run_of w))"

text \<open>C17: stopping an app runs \<^verbatim>\<open>compose down\<close> and drops the links to host volumes; its routes stay published, and its
  copy, its stores and its other links stay as they are, whatever docker answers. A stop docker
  refuses keeps the host links and is recorded as failed; one refused before leaves everything.\<close>

theorem stop_keeps_routes_and_copy:
  assumes "stop env app action w = (r, w')"
  shows "only_stopped w w' \<and>
    (case r of
       Inr u \<Rightarrow> host_links (rn_links (run_of w')) = [] \<and> last_action app (wd_load w') = Some action \<and>
         (\<exists>vars. do_compose (re_docker env) (wd_docker w) app (rn_compose (run_of w)) DOWN vars None = (Exited 0, wd_docker w'))
     | Inl e \<Rightarrow> run_of w' = run_of w \<and> (docker_error e \<longrightarrow> last_action app (wd_load w') = Some ''stop-failed'') \<and>
         (\<not> docker_error e \<and> e \<noteq> DockerTimeout \<longrightarrow> w' = w))"
  using assms unfolding stop_def
proof (cases rule: bindA_E)
  case (raised e)
  then show ?thesis by (auto simp: only_stopped_def run_state_of_def Let_def split: if_splits)
next
  case (went_on s w1)
  then have w1: "w1 = w" by simp
  show ?thesis
  proof (cases "rs_compose_exists s")
    case False
    with went_on w1 show ?thesis by (auto simp: only_stopped_def split: if_splits)
  next
    case True
    let ?vars = "down_env (compose_text env w)"
    let ?down = "docker_run_command env app [''compose'', ''down''] True ?vars None"
    from went_on(2) True w1 have "bindA (except_for docker_error ?down (recorded ''stop-failed'' app)) (\<lambda>_.
         bindA (update (\<lambda>w. w\<lparr>wd_load := on_run unlink_host_volumes (wd_load w)\<rparr>)) (\<lambda>_. update (recorded action app))) w = (r, w')"
      by (simp add: bindA_def [of "askA _"])
    then show ?thesis
    proof (cases rule: bindA_E)
      case (raised e)
      from raised(1) show ?thesis
      proof (cases rule: except_for_E)
        case (raised e' w2)
        with docker_run_command_frame [OF raised(1)] docker_run_command_raises [OF raised(1)] \<open>r = Inl e\<close>
        show ?thesis by (auto simp: only_stopped_def run_of_def recorded_def record_action_def last_action_def)
      qed simp
    next
      case (went_on code w2)
      from went_on(1) have "?down w = (Inr code, w2)" by (cases rule: except_for_E) auto
      from docker_run_command_checked [OF this] obtain d where
        d: "do_compose (re_docker env) (wd_docker w) app (rn_compose (run_of w)) DOWN ?vars None = (Exited 0, d)" "w2 = w\<lparr>wd_docker := d\<rparr>"
        by (auto simp: DOWN_def)
      from went_on(2) have "r = Inr ()" "w' = recorded action app (w2\<lparr>wd_load := on_run unlink_host_volumes (wd_load w2)\<rparr>)"
        by (simp_all add: bindA_def)
      moreover have "run_of (w2\<lparr>wd_load := on_run unlink_host_volumes (wd_load w2)\<rparr>) = unlink_host_volumes (run_of w)"
        by (simp add: run_of_def on_run_def d(2))
      ultimately show ?thesis using d by (auto simp: only_stopped_def on_run_def unlink_links)
    qed
  qed
qed

definition demo_container :: unit_status where
  "demo_container = \<lparr>us_app_id = ''org.demo'', us_run_unit = ''main'', us_container_id = ''c0'', us_name = ''main-1'',
     us_state = ''running'', us_status = ''Up 2 hours''\<rparr>"

lemma demo_stop:
  assumes "d \<noteq> []" and "\<forall>c \<in> set d. us_app_id c = ''org.demo''"
  shows "\<exists>w'. stop demo_run_env ''org.demo'' STOPPED_ACTION (demo_world d) = (Inr (), w') \<and> wd_docker w' = []"
  using assms
  by (simp add: stop_def bindA_def run_state_of_def demo_run_env_def demo_docker_def demo_world_def run_of_def demo_load_state_def
      Let_def except_for_def docker_run_command_def UP_def filter_empty_conv recorded_def record_action_def)

theorem stop_keeps_routes_and_copy_witness:
  "\<exists>w'. stop demo_run_env ''org.demo'' STOPPED_ACTION (demo_world [demo_container]) = (Inr (), w') \<and> wd_docker w' = [] \<and>
    last_action ''org.demo'' (wd_load w') = Some STOPPED_ACTION \<and> rn_bundle (run_of w') = Some ''v1''"
proof -
  obtain w' where s: "stop demo_run_env ''org.demo'' STOPPED_ACTION (demo_world [demo_container]) = (Inr (), w')" "wd_docker w' = []"
    using demo_stop [of "[demo_container]"] by (auto simp: demo_container_def)
  from stop_keeps_routes_and_copy [OF s(1)] s show ?thesis
    by (auto simp: only_stopped_def demo_world_def run_of_def demo_load_state_def)
qed

lemma docker_run_command_unchecked:
  "docker_run_command env app cmd False vars timeout w = (r, w') \<Longrightarrow>
    (r = Inl DockerTimeout \<or> r \<in> range Inr) \<and> wd_load w' = wd_load w"
  by (auto simp: docker_run_command_def split: prod.splits docker_answer.splits)

lemma unlinked_or_same:
  "host_links (rn_links rd) = [] \<Longrightarrow> unlink_host_volumes rd = rd"
  by (simp add: unlink_links host_links_def other_links_def filter_empty_conv)

lemma one_off_leaves:
  assumes "one_off env app spec unit argv vars was_stopped w = (r, w')"
  shows "(r = Inl DockerTimeout \<or> r \<in> range Inr \<or> r \<in> range (\<lambda>e. Inl (LoadFailed e))) \<and>
    (wd_load w' = wd_load w \<or> was_stopped \<and> wd_load w' = on_run unlink_host_volumes (wd_load w))"
proof (cases was_stopped)
  case False
  with assms docker_run_command_unchecked show ?thesis by (fastforce simp: one_off_def Let_def)
next
  case True
  let ?cmd = "docker_run_command env app ([''compose'', ''run'', ''--rm'', ''--no-deps'', unit] @ argv) False vars (Some WATCH_SECONDS)"
  from assms True have "bindA (in_load (askA (\<lambda>st. lift_layout (load_run_data spec (ld_ctx st))))) (\<lambda>data.
              bindA (in_load (link_host_volumes spec data)) (\<lambda>_.
                finally_do ?cmd (\<lambda>w. w\<lparr>wd_load := on_run unlink_host_volumes (wd_load w)\<rparr>))) w = (r, w')"
    by (simp add: one_off_def Let_def)
  then show ?thesis
  proof (cases rule: bindA_E)
    case (raised e)
    from raised(1) show ?thesis by (cases rule: in_load_E) (auto simp: raised(2))
  next
    case (went_on data w1)
    from went_on(1) have d: "load_run_data spec (ld_ctx (wd_load w)) = Inr data" "w1 = w"
      by (auto elim!: in_load_E simp: lift_layout_def split: sum.splits)
    have "\<forall>(n, l) \<in> set (rd_volume_links data). map_of (sp_volumes spec) n \<noteq> None"
      using volume_links_declared [OF d(1)] by auto
    note linked = link_host_volumes_result [OF this, of "wd_load w"]
    from went_on(2) obtain w2 where
      w2: "w2 = w\<lparr>wd_load := on_run (\<lambda>rd. rd\<lparr>rn_links := other_links (rn_links rd) @ host_links_of spec (rd_volume_links data)\<rparr>) (wd_load w)\<rparr>"
        "finally_do ?cmd (\<lambda>w. w\<lparr>wd_load := on_run unlink_host_volumes (wd_load w)\<rparr>) w2 = (r, w')"
      by (auto simp: bindA_def in_load_def linked d(2))
    have none: "other_links (host_links_of spec ls) = []" for ls
      by (auto simp: host_links_of_def other_links_def List.map_filter_def filter_empty_conv split: option.splits if_splits)
    obtain w3 where w3: "?cmd w2 = (r, w3)" "w' = w3\<lparr>wd_load := on_run unlink_host_volumes (wd_load w3)\<rparr>"
      using w2(2) by (auto simp: finally_do_def split: prod.splits)
    with docker_run_command_unchecked [OF w3(1)] show ?thesis
      by (auto simp: w2(1) on_run_def unlink_links none True)
  qed
qed

lemma run_command_leaves:
  assumes "run_command env app name args w = (r, w')"
  shows "(wd_load w' = wd_load w \<or>
      running_now env app w = 0 \<and> wd_load w' = on_run unlink_host_volumes (wd_load w)) \<and>
    r \<noteq> Inl DockerTimeout \<and> r \<notin> range (\<lambda>c. Inl (DockerFailed c))"
proof (cases "run_state_of env app w")
  case (Inl e)
  with assms show ?thesis by (auto simp: run_command_def bindA_def run_state_of_def Let_def split: if_splits)
next
  case (Inr s)
  have running: "running_now env app w = rs_running_count s" by (simp add: running_now_def Inr)
  show ?thesis
  proof (cases "require_loaded_spec env app w")
    case (Inl e)
    with assms Inr require_loaded_spec_raises [OF Inl] show ?thesis
      by (cases "rs_compose_exists s") (auto simp: run_command_def bindA_def)
  next
    case spec: (Inr spec)
    show ?thesis
    proof (cases "\<exists>entry unit. rs_compose_exists s \<and> map_of (sp_commands spec) name = Some entry \<and>
        lookup (cmd_run_unit entry) (sp_run_units spec) = Inr unit")
      case False
      with assms Inr spec show ?thesis
        by (cases "rs_compose_exists s"; cases "map_of (sp_commands spec) name")
          (auto simp: run_command_def bindA_def in_load_def lift_layout_def split: sum.splits)
    next
      case True
      then obtain entry unit where e: "rs_compose_exists s" "map_of (sp_commands spec) name = Some entry"
        "lookup (cmd_run_unit entry) (sp_run_units spec) = Inr unit" by blast
      let ?m = "if cmd_run_unit entry \<in> set (List.map us_run_unit (List.filter us_running (rs_containers s)))
        then docker_run_command env app ([''compose'', ''exec'', cmd_run_unit entry] @ command_argv unit entry args) False
               (compose_env env app w) (Some WATCH_SECONDS)
        else one_off env app spec (cmd_run_unit entry) (command_argv unit entry args) (compose_env env app w) (rs_running_count s = 0)"
      obtain r1 where m: "?m w = (r1, w')" and r: "r = (if r1 = Inl DockerTimeout then Inl (StillRunningDetached name) else r1)"
        using assms Inr spec e
        by (auto simp: run_command_def bindA_def in_load_def lift_layout_def Let_def detach_on_timeout_def
            split: prod.splits sum.splits run_error.splits if_splits)
      have "(r1 = Inl DockerTimeout \<or> r1 \<in> range Inr \<or> r1 \<in> range (\<lambda>e. Inl (LoadFailed e))) \<and>
          (wd_load w' = wd_load w \<or> rs_running_count s = 0 \<and> wd_load w' = on_run unlink_host_volumes (wd_load w))"
        using m docker_run_command_unchecked one_off_leaves by (fastforce split: if_splits)
      then show ?thesis unfolding running r by auto
    qed
  qed
qed

text \<open>Running a command of an app leaves everything kelso holds of it as it was -- its stores, routes,
  actions, copy and links -- whatever the command does and however it ends: the host links made for a
  one-off command of a stopped app are gone again. Its exit code is passed on, and a command
  that is still running after the watch is detached from, never reported as failed.\<close>

lemma command_leaves_the_app_alone:
  assumes "run_command env app name args w = (r, w')"
  shows "(wd_load w' = wd_load w \<or>
      running_now env app w = 0 \<and> wd_load w' = on_run unlink_host_volumes (wd_load w)) \<and>
    (host_links (rn_links (run_of w)) = [] \<longrightarrow> wd_load w' = wd_load w) \<and>
    r \<noteq> Inl DockerTimeout \<and> r \<notin> range (\<lambda>c. Inl (DockerFailed c))"
proof -
  have "on_run unlink_host_volumes (wd_load w) = wd_load w" if "host_links (rn_links (run_of w)) = []"
    using unlinked_or_same [OF that] by (simp add: on_run_def run_of_def)
  with run_command_leaves [OF assms] show ?thesis by metis
qed

lemma demo_commands: "sp_commands demo_spec = [(''backup'', \<lparr>cmd_name = ''backup'', cmd_cmd = ''dump'', cmd_run_unit = ''main'', cmd_desc = []\<rparr>)]"
proof -
  have "sp_commands s = List.map (\<lambda>(name, c).
      (name, \<lparr>cmd_name = name, cmd_cmd = ce_cmd c, cmd_run_unit = ce_run_unit c, cmd_desc = ce_desc c\<rparr>)) (m_commands m)"
    if "build_spec m app = Inr s" for s m app
    using that by (auto simp: build_spec_def andthen_Inr)
  from this [OF demo_spec_build] show ?thesis by (simp add: demo_manifest_def)
qed

lemma demo_unit: "\<exists>u. lookup ''main'' (sp_run_units demo_spec) = Inr u"
proof -
  obtain e where e: "m_run (demo_manifest ''/var/db'') = [(''main'', e)]" by (simp add: demo_manifest_def)
  have one: "\<exists>y. ys = [y] \<and> f x = Inr y" if "traverse f [x] = Inr ys" for f x ys
    using that by (auto split: sum.splits)
  obtain x where "sp_run_units demo_spec = [x]"
    "resolve_run_unit (demo_manifest ''/var/db'') ''org.demo'' (build_volumes (demo_manifest ''/var/db'')) (''main'', e) = Inr x"
    using one [OF demo_spec_parts(5) [unfolded e]] by blast
  then show ?thesis by (auto simp: resolve_run_unit_def andthen_Inr lookup_def)
qed

lemma demo_run_command:
  "\<exists>w'. run_command demo_run_env ''org.demo'' ''backup'' [] (demo_world []) = (Inr 1, w')"
proof -
  obtain u where u: "lookup ''main'' (sp_run_units demo_spec) = Inr u" using demo_unit by blast
  obtain d where d: "load_run_data demo_spec demo_ctx = Inr d" using demo_run_data by blast
  have links: "\<forall>(n, l) \<in> set (rd_volume_links d). map_of (sp_volumes demo_spec) n \<noteq> None"
    using volume_links_declared [OF d] by auto
  have state: "run_state_of demo_run_env ''org.demo'' (demo_world []) = Inr \<lparr>rs_compose_exists = True, rs_containers = []\<rparr>"
    by (simp add: run_state_of_def demo_run_env_def demo_docker_def demo_world_def run_of_def demo_load_state_def)
  have one: "\<exists>w'. one_off demo_run_env ''org.demo'' demo_spec ''main'' argv vars True (demo_world []) = (Inr 1, w')" for argv vars
    by (simp add: one_off_def Let_def bindA_def in_load_def demo_world_def demo_load_state_def lift_layout_def d
        link_host_volumes_result [OF links] finally_do_def docker_run_command_def demo_run_env_def demo_docker_def UP_def on_run_def)
  let ?vars = "compose_env demo_run_env ''org.demo'' (demo_world [])"
    and ?argv = "command_argv u \<lparr>cmd_name = ''backup'', cmd_cmd = ''dump'', cmd_run_unit = ''main'', cmd_desc = []\<rparr> []"
  obtain w' where w': "one_off demo_run_env ''org.demo'' demo_spec ''main'' ?argv ?vars True (demo_world []) = (Inr 1, w')"
    using one by blast
  have "detach_on_timeout ''backup'' (one_off demo_run_env ''org.demo'' demo_spec ''main'' ?argv ?vars True) (demo_world []) = (Inr 1, w')"
    unfolding detach_on_timeout_def w' by simp
  then show ?thesis
    by (simp add: run_command_def bindA_def state demo_loaded_spec demo_commands in_load_def lift_layout_def u Let_def
        rs_running_count_def)
qed

lemma command_leaves_the_app_alone_witness:
  "\<exists>w'. run_command demo_run_env ''org.demo'' ''backup'' [] (demo_world []) = (Inr 1, w') \<and>
    wd_load w' = wd_load (demo_world [])"
proof -
  obtain w' where c: "run_command demo_run_env ''org.demo'' ''backup'' [] (demo_world []) = (Inr 1, w')"
    using demo_run_command by blast
  from command_leaves_the_app_alone [OF c] c show ?thesis
    by (simp add: demo_world_def run_of_def demo_load_state_def host_links_def)
qed

lemma start_returns:
  assumes "start env a w = (Inr res, w')"
  shows "last_action (sa_app a) (wd_load w') = Some ''started''"
  using assms unfolding start_bring_up
  by (auto elim!: bindA_E simp: came_up_def dest!: bring_up_outcome split: if_splits)

lemma load_app_docker: "load_app env a w = (r, w') \<Longrightarrow> wd_docker w' = wd_docker w"
  by (auto simp: load_app_def in_load_def split: prod.splits)


lemma demo_refused_bundle: "check_same_version (re_load demo_run_env) ''org.demo'' p rd = Inr ()"
  by (simp add: check_same_version_def demo_run_env_def)


text \<open>
  A bundle that does not open passes the check, so a reload of a running app from it stops the
  app, fails to load, and leaves it stopped.
\<close>

lemma broken_reload_leaves_the_app_stopped:
  "\<exists>e w'. reload_app demo_run_env demo_start (demo_world [demo_container]) = (Inl e, w') \<and> wd_docker w' = [] \<and>
    last_action ''org.demo'' (wd_load w') = Some STOPPED_ACTION"
proof -
  obtain w1 where stop: "stop demo_run_env ''org.demo'' STOPPED_ACTION (demo_world [demo_container]) = (Inr (), w1)" "wd_docker w1 = []"
    using demo_stop [of "[demo_container]"] by (auto simp: demo_container_def)
  have last: "last_action ''org.demo'' (wd_load w1) = Some STOPPED_ACTION"
    using stop(1) by (auto simp: stop_def elim!: bindA_E split: if_splits)
  have run: "running_now demo_run_env ''org.demo'' (demo_world [demo_container]) = 1"
    by (simp add: running_now_def run_state_of_def demo_run_env_def demo_docker_def demo_world_def demo_container_def
        rs_running_count_def us_running_def str_lower_def run_of_def demo_load_state_def is_upper_def)
  let ?a = "demo_start\<lparr>sa_sets := [], sa_binds := [], sa_version_change := False\<rparr>"
  have "running_now demo_run_env ''org.demo'' w1 = 0"
    by (simp add: running_now_def run_state_of_def demo_run_env_def demo_docker_def stop(2) rs_running_count_def)
  then have "load_preconditions (load_args_of demo_run_env ?a w1) = Inr ()"
    by (simp add: load_preconditions_def load_args_of_def demo_start_def) (simp add: demo_run_env_def)
  then obtain st where load: "load (re_load demo_run_env) (load_args_of demo_run_env ?a w1) (wd_load w1) = (Inl (NotValidBundle ''/k/var/run/org.demo''), st)"
      "ld_actions st = ld_actions (wd_load w1)"
    by (simp add: load_def bindA_def stage_incoming_def on_error_def load_incoming_def load_args_of_def demo_start_def on_run_def)
      (simp add: demo_run_env_def on_run_def)
  then have "load_app demo_run_env ?a w1 = (Inl (LoadFailed (NotValidBundle ''/k/var/run/org.demo'')), w1\<lparr>wd_load := st\<rparr>)"
    by (simp add: load_app_def in_load_def)
  then have "reload_app demo_run_env demo_start (demo_world [demo_container]) =
      (Inl (LoadFailed (NotValidBundle ''/k/var/run/org.demo'')), w1\<lparr>wd_load := st\<rparr>)"
    using stop(1) run by (simp add: reload_app_def bindA_def in_load_def demo_refused_bundle demo_start_def)
  then show ?thesis using stop(2) last load(2) by (simp add: last_action_def)
qed



end
