(* ===== verification/Updown.thy ===== *)
theory Updown
  imports Run
begin

text \<open>
  \<^verbatim>\<open>kelso/lib/lifecycle/updown.py\<close>: bringing the whole box up or down, one start group at a time, and
  waiting until a group is ready. A box holds the store and the run directory of
  every app, and what they share.
\<close>

section \<open>The box\<close>

record ('s, 'w, 'b, 'd) box =
  bx_ids :: "string list"
  bx_app :: "string \<Rightarrow> 's"
  bx_run :: "string \<Rightarrow> 'b run_dir"
  bx_world :: "('s, 'w, 'b, 'd) world"

text \<open>One app's view of the box, and the box after something was done to that app.\<close>

definition focus :: "string \<Rightarrow> ('s, 'w, 'b, 'd) box \<Rightarrow> ('s, 'w, 'b, 'd) world" where
  "focus app bx =
     (let w = bx_world bx; st = wd_load w
      in w\<lparr>wd_load := st\<lparr>ld_ctx := (ld_ctx st)\<lparr>rx_app := bx_app bx app\<rparr>, ld_run := bx_run bx app\<rparr>\<rparr>)"

definition refocus :: "string \<Rightarrow> ('s, 'w, 'b, 'd) world \<Rightarrow> ('s, 'w, 'b, 'd) box \<Rightarrow> ('s, 'w, 'b, 'd) box" where
  "refocus app w bx =
     bx\<lparr>bx_app := (bx_app bx)(app := rx_app (ld_ctx (wd_load w))), bx_run := (bx_run bx)(app := run_of w),
        bx_world := w\<rparr>"

text \<open>What each app's operations ask of the machine, which locks another process holds.\<close>

type_synonym ('s, 'w, 'b, 'd) envs = "string \<Rightarrow> ('s, 'w, 'b, 'd) run_env"

definition last_done :: "string \<Rightarrow> ('s, 'w, 'b, 'd) box \<Rightarrow> string option" where
  "last_done app bx = last_action app (wd_load (bx_world bx))"

definition containers_of :: "('s, 'w, 'b, 'd) envs \<Rightarrow> string \<Rightarrow> ('s, 'w, 'b, 'd) box \<Rightarrow> nat" where
  "containers_of envs app bx = running_now (envs app) app (focus app bx)"

definition loaded_ids :: "('s, 'w, 'b, 'd) box \<Rightarrow> string list" where
  "loaded_ids bx = List.filter (\<lambda>app. rn_bundle (bx_run bx app) \<noteq> None) (bx_ids bx)"

section \<open>The start groups\<close>

datatype order_error = OrderUnread layout_error | OrderNotInt string

definition start_order :: "('s, 'w, 'b, 'd) envs \<Rightarrow> ('s, 'w, 'b, 'd) box \<Rightarrow> string \<Rightarrow> order_error + int" where
  "start_order envs bx app =
     (let w = focus app bx;
          spec = (case loaded_spec (re_load (envs app)) app (run_of w) of Inl e \<Rightarrow> None | Inr s \<Rightarrow> s)
      in case ctx_app_option (ld_ctx (wd_load w)) spec app ''start_order'' of
           Inl e \<Rightarrow> Inl (OrderUnread e)
         | Inr raw \<Rightarrow> (case py_int raw of None \<Rightarrow> Inl (OrderNotInt raw) | Some n \<Rightarrow> Inr n))"

definition start_groups ::
    "('s, 'w, 'b, 'd) envs \<Rightarrow> ('s, 'w, 'b, 'd) box \<Rightarrow> int list \<Rightarrow> order_error + (int \<times> string list) list" where
  "start_groups envs bx which =
     andthen (traverse (\<lambda>app. andthen (start_order envs bx app) (\<lambda>n. Inr (n, app))) (sort (remdups (loaded_ids bx)))) (\<lambda>orders.
       Inr (sort_key fst (foldl (\<lambda>d (k, v). group_add k v d) [] (List.filter (\<lambda>(n, app). n \<in> set which) orders))))"

definition KELSOD_GROUPS :: "int list" where "KELSOD_GROUPS = [0]"
definition BOX_GROUPS :: "int list" where "BOX_GROUPS = [1, 2, 3, 4, 5, 6, 7, 8, 9]"
definition DOWN_ACTION :: string where "DOWN_ACTION = ''down''"

section \<open>Waiting until a group is ready\<close>

text \<open>Times are milliseconds since the wait began.\<close>

definition SETTLE :: nat where "SETTLE = 10 * 1000"
definition DEFAULT_WAIT :: nat where "DEFAULT_WAIT = 60 * 1000"

definition unit_ready :: "bool \<Rightarrow> unit_status \<Rightarrow> bool" where
  "unit_ready settled u \<longleftrightarrow>
     (if us_state u = ''running'' then us_health u = ''healthy'' \<or> (us_health u = [] \<and> settled) else us_finished u)"

definition app_ready :: "bool \<Rightarrow> unit_status list \<Rightarrow> bool" where
  "app_ready settled units \<longleftrightarrow> units \<noteq> [] \<and> list_all (unit_ready settled) units"

text \<open>One turn of the polling loop: the clock before docker answers, its answer, the clock after.\<close>

record poll =
  po_before :: nat
  po_units :: "(string, unit_status list) dict"
  po_after :: nat

definition units_of :: "(string, unit_status list) dict \<Rightarrow> string \<Rightarrow> unit_status list" where
  "units_of units app = (case map_of units app of None \<Rightarrow> [] | Some us \<Rightarrow> us)"

definition pending_at :: "poll \<Rightarrow> string list \<Rightarrow> string list" where
  "pending_at p apps = List.filter (\<lambda>app. \<not> app_ready (SETTLE \<le> po_before p) (units_of (po_units p) app)) apps"

partial_function (option) wait_ready :: "(nat \<Rightarrow> poll) \<Rightarrow> string list \<Rightarrow> nat \<Rightarrow> nat \<Rightarrow> string list option" where
  "wait_ready polls apps wait n =
     (let pending = pending_at (polls n) apps
      in if pending = [] \<or> wait \<le> po_after (polls n) then Some pending
         else wait_ready polls apps wait (Suc n))"

section \<open>Up\<close>

text \<open>The errors \<open>except (ValueError, RuntimeError)\<close> catches: not the type, key and index errors.\<close>

fun foreseen_store :: "store_error \<Rightarrow> bool" where
  "foreseen_store WrongType \<longleftrightarrow> False"
| "foreseen_store (MissingField k) \<longleftrightarrow> False"
| "foreseen_store InvalidToken \<longleftrightarrow> False"
| "foreseen_store e \<longleftrightarrow> True"

fun foreseen_layout :: "layout_error \<Rightarrow> bool" where
  "foreseen_layout (StoreFailed e) \<longleftrightarrow> foreseen_store e"
| "foreseen_layout e \<longleftrightarrow> False"

fun foreseen :: "run_error \<Rightarrow> bool" where
  "foreseen (LoadFailed (LoadStore e)) \<longleftrightarrow> foreseen_store e"
| "foreseen (LoadFailed (LoadLayout e)) \<longleftrightarrow> foreseen_layout e"
| "foreseen (RoutesRefused (LayoutFailed e)) \<longleftrightarrow> foreseen_layout e"
| "foreseen e \<longleftrightarrow> True"

datatype up_outcome = LeftStopped | LeftAlone | AlreadyUp | StartedNow | LockHeld | Refused run_error

definition up_app ::
    "('s, 'w, 'b, 'd) envs \<Rightarrow> (string \<Rightarrow> bool) \<Rightarrow> bool \<Rightarrow> string \<Rightarrow> ('s, 'w, 'b, 'd) box \<Rightarrow> up_outcome \<times> ('s, 'w, 'b, 'd) box" where
  "up_app envs held resume app bx =
     (let last = last_done app bx
      in if last = Some STOPPED_ACTION then (LeftStopped, bx)
         else if resume \<and> last \<noteq> Some ''started'' then (LeftAlone, bx)
         else if held app then (LockHeld, bx)
         else (case run_state_of (envs app) app (focus app bx) of
                 Inl e \<Rightarrow> (Refused e, bx)
               | Inr s \<Rightarrow>
                   if rs_running_count s > 0 then (AlreadyUp, bx)
                   else (case start_copy (envs app) app (focus app bx) of
                           (Inl e, w) \<Rightarrow> (Refused e, refocus app w bx)
                         | (Inr res, w) \<Rightarrow> (StartedNow, refocus app w bx))))"

fun caught :: "up_outcome \<Rightarrow> bool" where
  "caught (Refused e) \<longleftrightarrow> foreseen e"
| "caught out \<longleftrightarrow> True"

text \<open>A group: what happened to each app, and whether the loop got to its end.\<close>

fun up_group ::
    "('s, 'w, 'b, 'd) envs \<Rightarrow> (string \<Rightarrow> bool) \<Rightarrow> bool \<Rightarrow> string list \<Rightarrow> ('s, 'w, 'b, 'd) box
       \<Rightarrow> (string \<times> up_outcome) list \<times> bool \<times> ('s, 'w, 'b, 'd) box" where
  "up_group envs held resume [] bx = ([], True, bx)"
| "up_group envs held resume (app # apps) bx =
     (case up_app envs held resume app bx of (out, bx1) \<Rightarrow>
        if \<not> caught out then ([(app, out)], False, bx1)
        else (case up_group envs held resume apps bx1 of (log, ok, bx2) \<Rightarrow> ((app, out) # log, ok, bx2)))"

definition waiting :: "(string \<times> up_outcome) list \<Rightarrow> string list" where
  "waiting log = List.map fst (List.filter (\<lambda>(app, out). out \<in> {AlreadyUp, StartedNow}) log)"

text \<open>
  \<^verbatim>\<open>_up\<close>: the log, the apps that were not ready in time, whether it ended, and the box. \<open>polls\<close>
  is what the wait after each group sees; without a wait nothing is polled.
\<close>

fun up_groups ::
    "('s, 'w, 'b, 'd) envs \<Rightarrow> (string \<Rightarrow> bool) \<Rightarrow> (int \<Rightarrow> nat \<Rightarrow> poll) \<Rightarrow> nat option \<Rightarrow> bool \<Rightarrow> (int \<times> string list) list
       \<Rightarrow> ('s, 'w, 'b, 'd) box \<Rightarrow> ((string \<times> up_outcome) list \<times> string list \<times> bool \<times> ('s, 'w, 'b, 'd) box) option" where
  "up_groups envs held polls wait resume [] bx = Some ([], [], True, bx)"
| "up_groups envs held polls wait resume ((order, apps) # groups) bx =
     (case up_group envs held resume apps bx of (log, ok, bx1) \<Rightarrow>
        if \<not> ok then Some (log, [], False, bx1)
        else (case (case wait of None \<Rightarrow> Some [] | Some t \<Rightarrow> wait_ready (polls order) (waiting log) t 0) of
                None \<Rightarrow> None
              | Some late \<Rightarrow>
                  (case up_groups envs held polls wait resume groups bx1 of
                     None \<Rightarrow> None
                   | Some (log', late', ok', bx2) \<Rightarrow> Some (log @ log', late @ late', ok', bx2))))"

definition up_which ::
    "('s, 'w, 'b, 'd) envs \<Rightarrow> (string \<Rightarrow> bool) \<Rightarrow> (int \<Rightarrow> nat \<Rightarrow> poll) \<Rightarrow> int list \<Rightarrow> nat option \<Rightarrow> bool \<Rightarrow> ('s, 'w, 'b, 'd) box
       \<Rightarrow> (order_error + (string \<times> up_outcome) list \<times> string list \<times> bool \<times> ('s, 'w, 'b, 'd) box) option" where
  "up_which envs held polls which wait resume bx =
     (case start_groups envs bx which of
        Inl e \<Rightarrow> Some (Inl e)
      | Inr groups \<Rightarrow> map_option Inr (up_groups envs held polls wait resume groups bx))"

definition up where "up envs held polls wait resume = up_which envs held polls BOX_GROUPS (Some wait) resume"

definition start_kelsod_group where
  "start_kelsod_group envs held polls = up_which envs held polls KELSOD_GROUPS None False"

section \<open>Down\<close>

datatype down_outcome = StoppedNow | DownLockHeld | DownRefused run_error

definition down_app ::
    "('s, 'w, 'b, 'd) envs \<Rightarrow> (string \<Rightarrow> bool) \<Rightarrow> string \<Rightarrow> ('s, 'w, 'b, 'd) box \<Rightarrow> down_outcome \<times> ('s, 'w, 'b, 'd) box" where
  "down_app envs held app bx =
     (if held app then (DownLockHeld, bx)
      else (case stop (envs app) app DOWN_ACTION (focus app bx) of
              (Inl e, w) \<Rightarrow> (DownRefused e, refocus app w bx)
            | (Inr u, w) \<Rightarrow> (StoppedNow, refocus app w bx)))"

fun down_caught :: "down_outcome \<Rightarrow> bool" where
  "down_caught (DownRefused e) \<longleftrightarrow> foreseen e"
| "down_caught out \<longleftrightarrow> True"

fun down_group ::
    "('s, 'w, 'b, 'd) envs \<Rightarrow> (string \<Rightarrow> bool) \<Rightarrow> string list \<Rightarrow> ('s, 'w, 'b, 'd) box
       \<Rightarrow> (string \<times> down_outcome) list \<times> bool \<times> ('s, 'w, 'b, 'd) box" where
  "down_group envs held [] bx = ([], True, bx)"
| "down_group envs held (app # apps) bx =
     (case down_app envs held app bx of (out, bx1) \<Rightarrow>
        if \<not> down_caught out then ([(app, out)], False, bx1)
        else (case down_group envs held apps bx1 of (log, ok, bx2) \<Rightarrow> ((app, out) # log, ok, bx2)))"

text \<open>Which apps of a group run is asked when its turn comes.\<close>

fun down_groups ::
    "('s, 'w, 'b, 'd) envs \<Rightarrow> (string \<Rightarrow> bool) \<Rightarrow> (int \<times> string list) list \<Rightarrow> ('s, 'w, 'b, 'd) box
       \<Rightarrow> (string \<times> down_outcome) list \<times> bool \<times> ('s, 'w, 'b, 'd) box" where
  "down_groups envs held [] bx = ([], True, bx)"
| "down_groups envs held ((order, apps) # groups) bx =
     (case down_group envs held (List.filter (\<lambda>app. containers_of envs app bx > 0) apps) bx of (log, ok, bx1) \<Rightarrow>
        if \<not> ok then (log, False, bx1)
        else (case down_groups envs held groups bx1 of (log', ok', bx2) \<Rightarrow> (log @ log', ok', bx2)))"

definition down_which ::
    "('s, 'w, 'b, 'd) envs \<Rightarrow> (string \<Rightarrow> bool) \<Rightarrow> int list \<Rightarrow> ('s, 'w, 'b, 'd) box
       \<Rightarrow> order_error + (string \<times> down_outcome) list \<times> bool \<times> ('s, 'w, 'b, 'd) box" where
  "down_which envs held which bx =
     andthen (start_groups envs bx which) (\<lambda>groups. Inr (down_groups envs held (rev groups) bx))"

definition down where "down envs held = down_which envs held BOX_GROUPS"
definition stop_kelsod_group where "stop_kelsod_group envs held = down_which envs held KELSOD_GROUPS"

section \<open>The wait ends\<close>

lemma wait_ready_steps:
  assumes "\<forall>m < k. pending_at (polls (n + m)) apps \<noteq> [] \<and> po_after (polls (n + m)) < wait"
  shows "wait_ready polls apps wait n = wait_ready polls apps wait (n + k)"
  using assms
proof (induction k)
  case (Suc k)
  then have "wait_ready polls apps wait n = wait_ready polls apps wait (n + k)" by simp
  also have "\<dots> = wait_ready polls apps wait (n + Suc k)"
    using Suc.prems [rule_format, of k] by (subst wait_ready.simps) (simp add: Let_def)
  finally show ?case .
qed simp

lemma clock_grows:
  assumes "\<forall>n. po_after (polls n) + 1000 \<le> po_after (polls (Suc n))"
  shows "po_after (polls 0) + n * 1000 \<le> po_after (polls n)"
proof (induction n)
  case (Suc n)
  with assms [rule_format, of n] show ?case by simp
qed simp

text \<open>C19: the wait for a group ends: with a clock that advances by the second each turn sleeps, it asks docker at
  most once a second of the time it is given and once more. It answers with what was
  not ready at its last look -- nothing as soon as everything is -- and gives up on nothing sooner than the
  time it was given.\<close>

theorem wait_ready_returns:
  assumes "\<forall>n. po_after (polls n) + 1000 \<le> po_after (polls (Suc n))"
  shows "\<exists>n \<le> wait div 1000 + 1. wait_ready polls apps wait 0 = Some (pending_at (polls n) apps) \<and>
    (pending_at (polls n) apps = [] \<or> wait \<le> po_after (polls n)) \<and>
    (\<forall>m < n. pending_at (polls m) apps \<noteq> [] \<and> po_after (polls m) < wait)"
proof -
  let ?over = "\<lambda>n. pending_at (polls n) apps = [] \<or> wait \<le> po_after (polls n)"
  have "wait < Suc (wait div 1000) * 1000"
    using div_mult_mod_eq [of wait 1000] mod_less_divisor [of 1000 wait] by simp
  also have "\<dots> \<le> po_after (polls (Suc (wait div 1000)))"
    using clock_grows [OF assms, of "Suc (wait div 1000)"] by linarith
  finally have last: "?over (Suc (wait div 1000))" by simp
  define n where "n = (LEAST n. ?over n)"
  have n: "?over n" "\<forall>m < n. \<not> ?over m" "n \<le> Suc (wait div 1000)"
    unfolding n_def using LeastI [of ?over, OF last] not_less_Least [of _ ?over] Least_le [of ?over, OF last] by blast+
  then have "wait_ready polls apps wait 0 = wait_ready polls apps wait n"
    using wait_ready_steps [of n polls 0 apps wait] by (simp add: not_le)
  also have "\<dots> = Some (pending_at (polls n) apps)"
    using n(1) by (subst wait_ready.simps) (simp add: Let_def)
  finally show ?thesis using n by (intro exI [of _ n]) (simp add: not_le)
qed

definition demo_polls :: "nat \<Rightarrow> poll" where
  "demo_polls n = \<lparr>po_before = n * 1000,
     po_units = [(''org.demo'', [demo_container])], po_after = n * 1000 + 100\<rparr>"

theorem wait_ready_returns_witness:
  "wait_ready demo_polls [''org.demo''] DEFAULT_WAIT 0 = Some []"
proof -
  have "us_health demo_container = []"
    by code_simp
  then have pend: "pending_at (demo_polls n) [''org.demo''] = (if n < 10 then [''org.demo''] else [])" for n
    by (auto simp: pending_at_def demo_polls_def SETTLE_def units_of_def app_ready_def unit_ready_def demo_container_def)
  have "\<forall>n. po_after (demo_polls n) + 1000 \<le> po_after (demo_polls (Suc n))" by (simp add: demo_polls_def)
  from wait_ready_returns [OF this, of DEFAULT_WAIT "[''org.demo'']"] obtain n where
    n: "wait_ready demo_polls [''org.demo''] DEFAULT_WAIT 0 = Some (pending_at (demo_polls n) [''org.demo''])"
      "pending_at (demo_polls n) [''org.demo''] = [] \<or> DEFAULT_WAIT \<le> po_after (demo_polls n)" by blast
  have "po_after (demo_polls n) = n * 1000 + 100" by (simp add: demo_polls_def)
  with n(2) have "\<not> n < 10" by (auto simp: pend DEFAULT_WAIT_def split: if_splits)
  with n(1) show ?thesis by (simp add: pend)
qed

section \<open>Whose action is recorded\<close>

definition acts_for :: "string \<Rightarrow> ('s, 'w, 'b) load_state \<Rightarrow> ('s, 'w, 'b) load_state \<Rightarrow> bool" where
  "acts_for app st st' \<longleftrightarrow> (\<forall>other. other \<noteq> app \<longrightarrow> last_action other st' = last_action other st)"

lemma acts_for_order: "reflp (acts_for app)" "transp (acts_for app)"
  by (auto simp: acts_for_def intro!: reflpI transpI)

lemma acts_for_same: "ld_actions st' = ld_actions st \<Longrightarrow> acts_for app st st'"
  by (simp add: acts_for_def last_action_def)

lemma acts_for_record: "acts_for app st (record_action verb app st)"
  by (simp add: acts_for_def last_action_def record_action_def)

named_theorems acts

lemmas acts_intros = keeps_bindA [OF _ _ acts_for_order(2)] keeps_askA [OF acts_for_order(1)]
  keeps_ret [OF acts_for_order(1)] keeps_eachA [OF _ acts_for_order]

lemma acts_raise [acts]: "keeps (acts_for app) (raise e)"
  by (simp add: keeps_def acts_for_def)

lemma acts_on_app [acts]: "keeps (acts_for app) (on_app f)"
  by (simp add: keeps_def on_app_def upd_ctx_def acts_for_same split: sum.split)

lemma acts_on_db [acts]: "keeps (acts_for app) (on_db f)"
  by (simp add: keeps_def on_db_def upd_ctx_def acts_for_same split: sum.split)

lemma acts_update [acts]: "(\<And>st. acts_for app st (f st)) \<Longrightarrow> keeps (acts_for app) (update f)"
  by (simp add: keeps_def)

lemma acts_on_error [acts]:
  assumes "keeps (acts_for app) m" "\<And>st. acts_for app st (f st)"
  shows "keeps (acts_for app) (on_error m f)"
  unfolding keeps_def
proof
  fix w
  obtain r w' where m: "m w = (r, w')" by (cases "m w")
  with assms(1) have "acts_for app w w'" by (rule keepsD)
  with m assms(2) [of w'] show "acts_for app w (snd (on_error m f w))"
    by (cases r) (auto simp: on_error_def acts_for_def)
qed

lemma acts_whenA [acts]: "keeps (acts_for app) m \<Longrightarrow> keeps (acts_for app) (whenA b m)"
  using acts_intros(3) by (cases b) simp_all

lemma acts_materialize: "keeps (acts_for app) (materialize spec)"
  unfolding materialize_def clear_and_reallocate_ports_def allocate_route_def rebuild_volume_links_def
    rebuild_link_def rebuild_kelso_dirs_def write_compose_def ask_app_def
  by (auto intro!: acts_intros acts split: option.split list.split prod.split
      simp: acts_for_same on_run_def upd_ctx_def)

lemma acts_after_commit: "keeps (acts_for (la_app a)) (after_commit env a was_loaded spec)"
  unfolding after_commit_def apply_arguments_def apply_config_sets_def apply_config_set_def
    bind_host_volume_def generate_missing_config_def generate_config_def apply_default_route_assignments_def
    default_assignment_def ask_app_def
  by (auto intro!: acts_intros acts acts_materialize acts_for_record
      split: option.split list.split prod.split sum.split simp: acts_for_same unpublish_def)

lemma acts_load: "keeps (acts_for (la_app a)) (load env a)"
  unfolding load_def stage_incoming_def load_incoming_def
  by (auto intro!: acts_intros acts acts_after_commit split: prod.split simp: acts_for_same on_run_def)

definition acts_on :: "string \<Rightarrow> ('s, 'w, 'b, 'd) world \<Rightarrow> ('s, 'w, 'b, 'd) world \<Rightarrow> bool" where
  "acts_on app w w' \<longleftrightarrow> acts_for app (wd_load w) (wd_load w')"

lemma acts_on_order: "reflp (acts_on app)" "transp (acts_on app)"
  by (auto simp: acts_on_def acts_for_def intro!: reflpI transpI)

lemma acts_in_load: "keeps (acts_for app) m \<Longrightarrow> keeps (acts_on app) (in_load m)"
  by (auto simp: keeps_def in_load_def acts_on_def split: prod.split) (metis snd_conv)

lemma acts_recorded: "acts_on app w (recorded verb app w)"
  by (simp add: acts_on_def recorded_def acts_for_record)

lemma acts_docker: "keeps (acts_on app) (docker_run_command env a cmd c v t)"
  unfolding keeps_def acts_on_def acts_for_def by (metis docker_run_command_frame prod.collapse)

lemma acts_register: "keeps (acts_on app) (register env d)"
  by (auto simp: keeps_def register_def on_providers_def acts_on_def acts_for_same split: prod.split)

lemma acts_preflight: "keeps (acts_on app) (preflight env d)"
  by (auto simp: keeps_def preflight_def on_providers_def acts_on_def acts_for_same split: prod.split)

lemma acts_except:
  assumes "keeps (acts_on app) m"
  shows "keeps (acts_on app) (except_for P m (recorded verb app))"
  unfolding keeps_def
proof
  fix w
  obtain r w' where m: "m w = (r, w')" by (cases "m w")
  with assms have "acts_on app w w'" by (rule keepsD)
  with m acts_recorded [of app w' verb] show "acts_on app w (snd (except_for P m (recorded verb app) w))"
    by (cases r) (auto simp: except_for_def acts_on_def acts_for_def)
qed

lemma acts_link: "keeps (acts_for app) (link_host_volumes spec d)"
  unfolding link_host_volumes_def
  by (auto intro!: acts_intros acts split: option.split prod.split simp: acts_for_same on_run_def)

lemmas acts_on_intros = keeps_bindA [OF _ _ acts_on_order(2)] keeps_askA [OF acts_on_order(1)]
  keeps_ret [OF acts_on_order(1)] acts_in_load acts_except acts_docker acts_register acts_preflight acts_link acts_materialize

lemma acts_update_world: "(\<And>w. acts_on app w (f w)) \<Longrightarrow> keeps (acts_on app) (update f)"
  by (simp add: keeps_def)

lemma acts_load_app: "keeps (acts_on (sa_app a)) (load_app env a)"
  unfolding keeps_def
proof
  fix w
  have la: "la_app (load_args_of env a w) = sa_app a" by (simp add: load_args_of_def)
  show "acts_on (sa_app a) w (snd (load_app env a w))"
    unfolding load_app_def using acts_in_load [OF acts_load, of "load_args_of env a w"]
    unfolding keeps_def la by blast
qed

lemma acts_raise_world: "keeps (acts_on app) (raise e)"
  by (simp add: keeps_def acts_on_def acts_for_def)

lemma acts_start: "keeps (acts_on (sa_app a)) (start env a)"
proof -
  have load: "keeps (acts_on (sa_app a)) (load_app env (a\<lparr>sa_version_change := False\<rparr>))"
    using acts_load_app [of "a\<lparr>sa_version_change := False\<rparr>" env] by simp
  have "keeps (acts_on (sa_app a)) (start_data env a)"
    unfolding start_data_def rederive_routes_def
    by (auto intro!: acts_on_intros load acts_update_world acts_intros split: prod.split)
      (simp add: acts_on_def unpublish_def acts_for_same)
  moreover have "keeps (acts_on (sa_app a)) (bring_up env (sa_app a) res)" for res
    unfolding bring_up_def Let_def
    by (intro acts_on_intros acts acts_update_world acts_recorded)
  ultimately show ?thesis
    unfolding start_bring_up by (intro acts_on_intros)
qed

lemma acts_stop: "keeps (acts_on app) (stop env app action)"
  unfolding stop_def
  by (auto intro!: acts_on_intros acts_raise_world acts_update_world acts_recorded)
    (simp_all add: acts_on_def on_run_def acts_for_same)

lemma last_done_refocus [simp]: "last_done other (refocus app w bx) = last_action other (wd_load w)"
  by (simp add: last_done_def refocus_def)

lemma last_action_focus [simp]: "last_action other (wd_load (focus app bx)) = last_done other bx"
  by (simp add: last_done_def focus_def Let_def last_action_def)

section \<open>The groups and their order\<close>

lemma start_groups_spec:
  assumes "start_groups envs bx which = Inr groups"
  shows "sorted (List.map fst groups)" and "distinct (List.map fst groups)"
    and "(n, apps) \<in> set groups \<longleftrightarrow> n \<in> set which \<and> apps \<noteq> [] \<and>
      apps = List.filter (\<lambda>app. start_order envs bx app = Inr n) (sort (remdups (loaded_ids bx)))"
proof -
  let ?ids = "sort (remdups (loaded_ids bx))"
  from assms obtain orders where
    t: "traverse (\<lambda>app. andthen (start_order envs bx app) (\<lambda>n. Inr (n, app))) ?ids = Inr orders"
    and g: "groups = sort_key fst (foldl (\<lambda>d (k, v). group_add k v d) [] (List.filter (\<lambda>(n, app). n \<in> set which) orders))"
    by (auto simp: start_groups_def andthen_Inr)
  let ?d = "foldl (\<lambda>d (k, v). group_add k v d) [] (List.filter (\<lambda>(n, app). n \<in> set which) orders)"
  from traverse_Inr_list_all2 [OF t] have "list_all2 (\<lambda>app y. start_order envs bx app = Inr (fst y) \<and> snd y = app) ?ids orders"
    by (rule list_all2_mono) (auto simp: andthen_Inr)
  then have vals: "values_of k (List.filter (\<lambda>(n, app). n \<in> set which) orders) =
      (if k \<in> set which then List.filter (\<lambda>app. start_order envs bx app = Inr k) ?ids else [])" for k
    by (induction rule: list_all2_induct) (auto simp: values_of_def)
  show "sorted (List.map fst groups)" by (simp add: g)
  have dk: "distinct (keys ?d)" by (rule distinct_groups)
  then show "distinct (List.map fst groups)"
    by (simp add: g distinct_map distinct_sort)
  have "(n, apps) \<in> set groups \<longleftrightarrow> map_of ?d n = Some apps"
    using dk by (simp add: g)
  then show "(n, apps) \<in> set groups \<longleftrightarrow> n \<in> set which \<and> apps \<noteq> [] \<and>
      apps = List.filter (\<lambda>app. start_order envs bx app = Inr n) ?ids"
    by (auto simp: map_of_groups vals)
qed

lemma groups_distinct:
  assumes "start_groups envs bx which = Inr groups"
  shows "distinct (concat (List.map snd groups))"
proof -
  note spec = start_groups_spec [OF assms]
  have "distinct (concat (List.map snd gs))" if "set gs \<subseteq> set groups" "distinct (List.map fst gs)" for gs
    using that
  proof (induction gs)
    case (Cons g gs)
    obtain n apps where g: "g = (n, apps)" by (cases g)
    have apps: "apps = List.filter (\<lambda>app. start_order envs bx app = Inr n) (sort (remdups (loaded_ids bx)))"
      using Cons.prems(1) spec(3) g by auto
    have "app \<notin> set apps'" if "(m, apps') \<in> set gs" "app \<in> set apps" for m apps' app
    proof -
      have "(m, apps') \<in> set groups" "m \<noteq> n" using Cons.prems that(1) g by (auto simp: image_iff)
      with that(2) apps spec(3) show ?thesis by auto
    qed
    then have "set apps \<inter> set (concat (List.map snd gs)) = {}" by fastforce
    moreover have "distinct apps" unfolding apps by simp
    ultimately show ?case using Cons by (auto simp: g)
  qed simp
  then show ?thesis using spec(2) by blast
qed

section \<open>What up does\<close>

definition fits :: "bool \<Rightarrow> string option \<Rightarrow> up_outcome \<Rightarrow> bool" where
  "fits resume was out \<longleftrightarrow> (out = LeftStopped \<longleftrightarrow> was = Some STOPPED_ACTION) \<and>
     (out = LeftAlone \<longleftrightarrow> resume \<and> was \<noteq> Some STOPPED_ACTION \<and> was \<noteq> Some ''started'')"

lemma start_copy_others:
  assumes "start_copy env app w = (r, w')" and "other \<noteq> app"
  shows "last_action other (wd_load w') = last_action other (wd_load w)"
  using keepsD [OF acts_start assms(1) [unfolded start_copy_def]] assms(2)
  by (simp add: acts_on_def acts_for_def run_copy_def)

lemma start_copy_returns:
  "start_copy env app w = (Inr res, w') \<Longrightarrow> last_action app (wd_load w') = Some ''started''"
  using start_returns unfolding start_copy_def run_copy_def by fastforce

lemma up_app_does:
  assumes "up_app envs held resume app bx = (out, bx')"
  shows "fits resume (last_done app bx) out \<and> (\<forall>other. other \<noteq> app \<longrightarrow> last_done other bx' = last_done other bx) \<and>
    (out \<in> {LeftStopped, LeftAlone, AlreadyUp, LockHeld} \<longrightarrow> bx' = bx) \<and>
    (out = StartedNow \<longrightarrow> last_done app bx' = Some ''started'')"
  using assms unfolding up_app_def Let_def
  by (auto simp: fits_def STOPPED_ACTION_def start_copy_others start_copy_returns
      split: if_splits sum.splits prod.splits)

lemma up_group_does:
  assumes "up_group envs held resume apps bx = (log, ok, bx')" and "distinct apps"
  shows "List.map fst log = take (length log) apps \<and> (ok \<longrightarrow> length log = length apps) \<and>
    (ok \<longleftrightarrow> list_all (\<lambda>(app, out). caught out) log) \<and>
    (\<forall>(app, out) \<in> set log. fits resume (last_done app bx) out) \<and>
    (\<forall>other. other \<notin> set apps \<longrightarrow> last_done other bx' = last_done other bx)"
  using assms
proof (induction apps arbitrary: bx log ok bx')
  case (Cons app apps)
  obtain out bx1 where one: "up_app envs held resume app bx = (out, bx1)" by (cases "up_app envs held resume app bx")
  note does = up_app_does [OF one]
  show ?case
  proof (cases "caught out")
    case False
    with Cons.prems one does show ?thesis by auto
  next
    case True
    obtain log2 ok2 bx2 where rest: "up_group envs held resume apps bx1 = (log2, ok2, bx2)"
      by (cases "up_group envs held resume apps bx1")
    with Cons.prems True one have eq: "log = (app, out) # log2" "ok = ok2" "bx' = bx2" by simp_all
    from Cons.IH [OF rest] Cons.prems(2) have IH: "List.map fst log2 = take (length log2) apps" "ok2 \<longrightarrow> length log2 = length apps"
      "ok2 \<longleftrightarrow> list_all (\<lambda>(app, out). caught out) log2"
      "\<forall>(app, out) \<in> set log2. fits resume (last_done app bx1) out"
      "\<forall>other. other \<notin> set apps \<longrightarrow> last_done other bx2 = last_done other bx1" by auto
    have "last_done a bx1 = last_done a bx" if "(a, o') \<in> set log2" for a o'
    proof -
      from that have "a \<in> set apps" using IH(1) by (metis in_set_takeD list.set_map image_eqI fst_conv)
      with Cons.prems(2) does show ?thesis by auto
    qed
    with IH does show ?thesis using True by (auto simp: eq)
  qed
qed simp

lemma up_groups_does:
  assumes "up_groups envs held polls wait resume groups bx = Some (log, late, ok, bx')"
    and "distinct (concat (List.map snd groups))"
  shows "List.map fst log = take (length log) (concat (List.map snd groups)) \<and>
    (ok \<longrightarrow> length log = length (concat (List.map snd groups))) \<and>
    (ok \<longleftrightarrow> list_all (\<lambda>(app, out). caught out) log) \<and>
    (\<forall>(app, out) \<in> set log. fits resume (last_done app bx) out)"
  using assms
proof (induction groups arbitrary: bx log late ok bx')
  case (Cons g groups)
  obtain order apps where g: "g = (order, apps)" by (cases g)
  obtain log1 ok1 bx1 where one: "up_group envs held resume apps bx = (log1, ok1, bx1)"
    by (cases "up_group envs held resume apps bx")
  have dist: "distinct apps" "distinct (concat (List.map snd groups))"
      "set apps \<inter> set (concat (List.map snd groups)) = {}"
    using Cons.prems(2) by (auto simp: g)
  note does = up_group_does [OF one dist(1)]
  show ?case
  proof (cases ok1)
    case False
    then have "log = log1" "\<not> ok" using Cons.prems(1) by (simp_all add: g one)
    moreover have "length log1 \<le> length apps" using does by (metis length_map length_take min.cobounded1)
    ultimately show ?thesis using does False by (auto simp: g)
  next
    case True
    with Cons.prems(1) obtain log2 late2 bx2 where
      rest: "up_groups envs held polls wait resume groups bx1 = Some (log2, late2, ok, bx2)" and log: "log = log1 @ log2"
      by (auto simp: g one split: option.splits)
    from Cons.IH [OF rest dist(2)] have IH:
      "List.map fst log2 = take (length log2) (concat (List.map snd groups))"
      "ok \<longrightarrow> length log2 = length (concat (List.map snd groups))"
      "ok \<longleftrightarrow> list_all (\<lambda>(app, out). caught out) log2"
      "\<forall>(app, out) \<in> set log2. fits resume (last_done app bx1) out" by auto
    have "last_done a bx1 = last_done a bx" if "(a, out) \<in> set log2" for a out
    proof -
      from that have "a \<in> set (concat (List.map snd groups))" using IH(1) by (metis in_set_takeD list.set_map image_eqI fst_conv)
      with dist(3) does show ?thesis by blast
    qed
    then have fits2: "\<forall>(app, out) \<in> set log2. fits resume (last_done app bx) out" using IH(4) by fastforce
    have all1: "List.map fst log1 = apps" "length log1 = length apps" using does True by auto
    have "list_all (\<lambda>(app, out). caught out) log1" using does True by blast
    then show ?thesis using does IH(1-3) fits2 all1 by (auto simp: log g)
  qed
qed simp

text \<open>Which of two apps is taken first.\<close>

definition goes_first :: "('s, 'w, 'b, 'd) envs \<Rightarrow> ('s, 'w, 'b, 'd) box \<Rightarrow> string \<Rightarrow> string \<Rightarrow> bool" where
  "goes_first envs bx a b \<longleftrightarrow>
     (\<forall>m n. start_order envs bx a = Inr m \<longrightarrow> start_order envs bx b = Inr n \<longrightarrow> m < n \<or> m = n \<and> a \<le> b)"

lemma groups_in_order:
  assumes "start_groups envs bx which = Inr groups"
  shows "sorted_wrt (goes_first envs bx) (concat (List.map snd groups))"
proof -
  note spec = start_groups_spec [OF assms]
  have "sorted_wrt (goes_first envs bx) (concat (List.map snd gs))"
    if "set gs \<subseteq> set groups" "sorted (List.map fst gs)" "distinct (List.map fst gs)" for gs
    using that
  proof (induction gs)
    case (Cons g gs)
    obtain n apps where g: "g = (n, apps)" by (cases g)
    have apps: "apps = List.filter (\<lambda>app. start_order envs bx app = Inr n) (sort (remdups (loaded_ids bx)))"
      using Cons.prems(1) spec(3) g by auto
    have "sorted apps" unfolding apps by (rule sorted_wrt_filter) simp
    then have "sorted_wrt (goes_first envs bx) apps"
      by (rule sorted_wrt_mono_rel [rotated]) (auto simp: apps goes_first_def)
    moreover have "goes_first envs bx a b" if "a \<in> set apps" "b \<in> set (concat (List.map snd gs))" for a b
    proof -
      from that(2) obtain m bs where m: "(m, bs) \<in> set gs" "b \<in> set bs" by auto
      then have "start_order envs bx b = Inr m" using Cons.prems(1) spec(3) by auto
      moreover have "n < m" using Cons.prems(2,3) m(1) g by (force simp: image_iff order.strict_iff_order)
      ultimately show ?thesis using that(1) by (auto simp: goes_first_def apps)
    qed
    ultimately show ?case using Cons by (auto simp: g sorted_wrt_append)
  qed simp
  then show ?thesis using spec(1,2) by blast
qed

lemma groups_members:
  assumes "start_groups envs bx which = Inr groups"
  shows "app \<in> set (concat (List.map snd groups)) \<longleftrightarrow>
    app \<in> set (loaded_ids bx) \<and> (\<exists>n \<in> set which. start_order envs bx app = Inr n)"
proof
  note spec = start_groups_spec [OF assms]
  {
    assume "app \<in> set (concat (List.map snd groups))"
    then obtain n apps where g: "(n, apps) \<in> set groups" "app \<in> set apps" by auto
    then have "n \<in> set which" "apps = List.filter (\<lambda>app. start_order envs bx app = Inr n) (sort (remdups (loaded_ids bx)))"
      using spec(3) [of n apps] by simp_all
    with g(2) show "app \<in> set (loaded_ids bx) \<and> (\<exists>n \<in> set which. start_order envs bx app = Inr n)" by auto
  }
  assume "app \<in> set (loaded_ids bx) \<and> (\<exists>n \<in> set which. start_order envs bx app = Inr n)"
  then obtain n where n: "app \<in> set (loaded_ids bx)" "start_order envs bx app = Inr n" "n \<in> set which" by auto
  let ?apps = "List.filter (\<lambda>app. start_order envs bx app = Inr n) (sort (remdups (loaded_ids bx)))"
  from n have mem: "app \<in> set ?apps" by simp
  then have "?apps \<noteq> []" by fastforce
  with n(3) spec(3) [of n ?apps] have "(n, ?apps) \<in> set groups" by blast
  then have in_groups: "a \<in> set ?apps \<Longrightarrow> a \<in> set (concat (List.map snd groups))" for a
    by (simp only: set_concat set_map) (rule UN_I, rule imageI, assumption, simp only: snd_conv)
  from mem show "app \<in> set (concat (List.map snd groups))" by (rule in_groups)
qed

text \<open>C20: bringing the box up takes each loaded app of start groups 1 to 9 in its turn: in ascending order of its
  start order, by name within a group, once. An app that was stopped on purpose is left
  stopped, a resume leaves alone whatever was not running before, and no other app is left out
  for these reasons. The loop goes on past every error it foresees, and ends at one it does not.\<close>

theorem up_takes_each_app_in_turn:
  assumes "up envs held polls wait resume bx = Some (Inr (log, late, ok, bx'))"
  shows "\<exists>turns. List.map fst log = take (length log) turns \<and> (ok \<longrightarrow> List.map fst log = turns) \<and>
    (ok \<longleftrightarrow> list_all (\<lambda>(app, out). caught out) log) \<and>
    distinct turns \<and> sorted_wrt (goes_first envs bx) turns \<and>
    (\<forall>app. app \<in> set turns \<longleftrightarrow> app \<in> set (loaded_ids bx) \<and> (\<exists>n \<in> {1..9}. start_order envs bx app = Inr n)) \<and>
    (\<forall>(app, out) \<in> set log.
       (out = LeftStopped \<longleftrightarrow> last_done app bx = Some ''stopped'') \<and>
       (out = LeftAlone \<longleftrightarrow> resume \<and> last_done app bx \<noteq> Some ''stopped'' \<and> last_done app bx \<noteq> Some ''started''))"
proof -
  from assms obtain groups where g: "start_groups envs bx BOX_GROUPS = Inr groups"
    and u: "up_groups envs held polls (Some wait) resume groups bx = Some (log, late, ok, bx')"
    by (auto simp: up_def up_which_def split: sum.splits)
  have box: "set BOX_GROUPS = {1..9}" by (auto simp: BOX_GROUPS_def)
  note facts = up_groups_does [OF u groups_distinct [OF g]] groups_distinct [OF g] groups_in_order [OF g]
    groups_members [OF g, unfolded box]
  moreover from facts(1) have "ok \<longrightarrow> List.map fst log = concat (List.map snd groups)" by (metis take_all order_refl)
  ultimately show ?thesis
    unfolding fits_def STOPPED_ACTION_def by (intro exI [of _ "concat (List.map snd groups)"] conjI allI) blast+
qed

lemma distinct_concat_rev: "distinct (concat (rev xss)) \<longleftrightarrow> distinct (concat xss)"
  by (induction xss) auto

section \<open>What down does\<close>

lemma stop_others:
  assumes "stop env app action w = (r, w')" and "other \<noteq> app"
  shows "last_action other (wd_load w') = last_action other (wd_load w)"
  using keepsD [OF acts_stop assms(1)] assms(2) by (simp add: acts_on_def acts_for_def)

lemma stop_records: "stop env app action w = (Inr u, w') \<Longrightarrow> last_action app (wd_load w') = Some action"
  by (auto simp: stop_def elim!: bindA_E split: if_splits)

lemma down_app_does:
  assumes "down_app envs held app bx = (out, bx')"
  shows "(\<forall>other. other \<noteq> app \<longrightarrow> last_done other bx' = last_done other bx) \<and>
    (out = StoppedNow \<longrightarrow> last_done app bx' = Some DOWN_ACTION)"
  using assms unfolding down_app_def
  by (auto simp: stop_others stop_records split: if_splits sum.splits prod.splits)

lemma down_group_does:
  assumes "down_group envs held apps bx = (log, ok, bx')" and "distinct apps"
  shows "List.map fst log = take (length log) apps \<and> (ok \<longrightarrow> length log = length apps) \<and>
    (\<forall>other. other \<notin> set apps \<longrightarrow> last_done other bx' = last_done other bx) \<and>
    (\<forall>app. (app, StoppedNow) \<in> set log \<longrightarrow> last_done app bx' = Some DOWN_ACTION)"
  using assms
proof (induction apps arbitrary: bx log ok bx')
  case (Cons app apps)
  obtain out bx1 where one: "down_app envs held app bx = (out, bx1)" by (cases "down_app envs held app bx")
  note does = down_app_does [OF one]
  show ?case
  proof (cases "down_caught out")
    case False
    with Cons.prems one does show ?thesis by auto
  next
    case True
    obtain log2 ok2 bx2 where rest: "down_group envs held apps bx1 = (log2, ok2, bx2)"
      by (cases "down_group envs held apps bx1")
    with Cons.prems True one have eq: "log = (app, out) # log2" "ok = ok2" "bx' = bx2" by simp_all
    have IH: "List.map fst log2 = take (length log2) apps" "ok2 \<longrightarrow> length log2 = length apps"
      "\<forall>other. other \<notin> set apps \<longrightarrow> last_done other bx2 = last_done other bx1"
      "\<forall>app. (app, StoppedNow) \<in> set log2 \<longrightarrow> last_done app bx2 = Some DOWN_ACTION"
      using Cons.IH [OF rest] Cons.prems(2) by auto
    have "app \<notin> set apps" using Cons.prems(2) by simp
    with IH does show ?thesis by (auto simp: eq)
  qed
qed simp

lemma down_groups_does:
  assumes "down_groups envs held groups bx = (log, ok, bx')" and "distinct (concat (List.map snd groups))"
  shows "(\<forall>app. (app, StoppedNow) \<in> set log \<longrightarrow> last_done app bx' = Some DOWN_ACTION) \<and>
    fst ` set log \<subseteq> set (concat (List.map snd groups)) \<and>
    (\<forall>other. other \<notin> set (concat (List.map snd groups)) \<longrightarrow> last_done other bx' = last_done other bx)"
  using assms
proof (induction groups arbitrary: bx log ok bx')
  case (Cons g groups)
  obtain order apps where g: "g = (order, apps)" by (cases g)
  let ?running = "List.filter (\<lambda>app. containers_of envs app bx > 0) apps"
  obtain log1 ok1 bx1 where one: "down_group envs held ?running bx = (log1, ok1, bx1)"
    by (cases "down_group envs held ?running bx")
  have dist: "distinct ?running" "distinct (concat (List.map snd groups))"
      "set apps \<inter> set (concat (List.map snd groups)) = {}"
    using Cons.prems(2) by (auto simp: g)
  note does = down_group_does [OF one dist(1)]
  then have in1: "fst ` set log1 \<subseteq> set apps" by (metis filter_is_subset list.set_map set_take_subset subset_trans)
  have other1: "last_done other bx1 = last_done other bx" if "other \<notin> set apps" for other
    using does that by auto
  show ?case
  proof (cases ok1)
    case False
    with Cons.prems(1) have "log = log1" "bx' = bx1" by (simp_all add: g one)
    with does in1 other1 show ?thesis by (auto simp: g)
  next
    case True
    obtain log2 ok2 bx2 where rest: "down_groups envs held groups bx1 = (log2, ok2, bx2)"
      by (cases "down_groups envs held groups bx1")
    with Cons.prems(1) True have eq: "log = log1 @ log2" "bx' = bx2" by (simp_all add: g one)
    note IH = Cons.IH [OF rest dist(2)]
    have "last_done app bx2 = Some DOWN_ACTION" if "(app, StoppedNow) \<in> set log1" for app
    proof -
      have "app \<in> set apps" using in1 that by force
      then have "last_done app bx2 = last_done app bx1" using IH dist(3) by blast
      with does that show ?thesis by simp
    qed
    with IH in1 other1 show ?thesis by (auto simp: eq g)
  qed
qed simp

text \<open>C21: what \<^verbatim>\<open>down\<close> stopped, the \<^verbatim>\<open>up\<close> after it does not pass over: it was not stopped on purpose. A daemon
  that resumes in between does, as it was not running.\<close>

theorem up_brings_back_what_down_stopped:
  assumes "down envs held bx = Inr (log, ok, bx1)" and "(app, StoppedNow) \<in> set log"
    and "up envs held' polls wait resume bx1 = Some (Inr (log2, late, ok2, bx2))" and "(app, out) \<in> set log2"
  shows "out \<noteq> LeftStopped \<and> (out = LeftAlone \<longleftrightarrow> resume)"
proof -
  from assms(1) obtain groups where "start_groups envs bx BOX_GROUPS = Inr groups"
    and d: "down_groups envs held (rev groups) bx = (log, ok, bx1)"
    by (auto simp: down_def down_which_def andthen_Inr)
  then have "distinct (concat (List.map snd (rev groups)))"
    unfolding rev_map [symmetric] distinct_concat_rev by (rule_tac groups_distinct)
  from down_groups_does [OF d this] assms(2) have last: "last_done app bx1 = Some DOWN_ACTION" by blast
  from assms(3) obtain groups2 where g2: "start_groups envs bx1 BOX_GROUPS = Inr groups2"
    and u: "up_groups envs held' polls (Some wait) resume groups2 bx1 = Some (log2, late, ok2, bx2)"
    by (auto simp: up_def up_which_def split: sum.splits)
  from up_groups_does [OF u groups_distinct [OF g2]] assms(4) have "fits resume (last_done app bx1) out" by fastforce
  then show ?thesis unfolding last by (simp add: fits_def DOWN_ACTION_def STOPPED_ACTION_def)
qed

section \<open>A box with the demonstration app\<close>

definition demo_box ::
    "unit_status list \<Rightarrow> (string \<times> string) list
       \<Rightarrow> ((string, json) dict, string \<Rightarrow> noop_provider, string, unit_status list) box" where
  "demo_box d acts = \<lparr>bx_ids = [''org.demo''], bx_app = (\<lambda>app. []), bx_run = (\<lambda>app. run_of (demo_world d)),
     bx_world = (demo_world d)\<lparr>wd_load := (wd_load (demo_world d))\<lparr>ld_actions := acts\<rparr>\<rparr>\<rparr>"

lemma demo_start_order_value:
  assumes "loaded_spec (re_load demo_run_env) ''org.demo'' (run_of (focus ''org.demo'' bx)) = Inr (Some demo_spec)"
    and "rx_ops (ld_ctx (wd_load (focus ''org.demo'' bx))) = memory_store"
    and "map_of (rx_app (ld_ctx (wd_load (focus ''org.demo'' bx)))) ''config/start_order'' = None"
  shows "start_order (\<lambda>app. demo_run_env) bx ''org.demo'' = Inr 6"
proof -
  have "get_config (rx_ops (ld_ctx (wd_load (focus ''org.demo'' bx)))) cr (rx_app (ld_ctx (wd_load (focus ''org.demo'' bx)))) ''start_order'' = Inr None" for cr
    using assms(2,3) by (simp add: get_config_def memory_store_def config_key_def)
  then have "ctx_app_option (ld_ctx (wd_load (focus ''org.demo'' bx))) (Some demo_spec) ''org.demo'' ''start_order'' = Inr ''6''"
    by (simp add: ctx_app_option_def stored_pair_def lift_store_def lookup_def demo_spec_parts(3) build_config_def
        demo_manifest_def declared_config_def dict_merge_def APP_OPTIONS_def set_default_def)
  then show ?thesis
    by (simp add: start_order_def assms(1) py_int_def str_isdigit_def is_digit_def nat_of_str_def digit_val_def)
qed

lemma demo_box_groups: "start_groups (\<lambda>app. demo_run_env) (demo_box d acts) BOX_GROUPS = Inr [(6, [''org.demo''])]"
proof -
  have "loaded_spec (re_load demo_run_env) ''org.demo'' (run_of (focus ''org.demo'' (demo_box d acts))) = Inr (Some demo_spec)"
    using demo_loaded_spec [of d]
    by (auto simp: require_loaded_spec_def focus_def demo_box_def Let_def run_of_def split: sum.splits option.splits)
  then have "start_order (\<lambda>app. demo_run_env) (demo_box d acts) ''org.demo'' = Inr 6"
    by (rule demo_start_order_value)
      (simp_all add: focus_def demo_box_def Let_def demo_world_def demo_load_state_def demo_ctx_def)
  moreover have "loaded_ids (demo_box d acts) = [''org.demo'']"
    by (simp add: loaded_ids_def demo_box_def demo_world_def run_of_def demo_load_state_def)
  ultimately show ?thesis by (simp add: start_groups_def group_add_def BOX_GROUPS_def)
qed

text \<open>With no time to wait, a group is looked at once.\<close>

lemma no_wait: "wait_ready polls apps 0 n = Some (pending_at (polls n) apps)"
  by (subst wait_ready.simps) (simp add: Let_def)

lemma up_one_group:
  assumes "start_groups envs bx BOX_GROUPS = Inr [(n, [app])]"
  shows "\<exists>log late ok bx'. up envs held polls 0 resume bx = Some (Inr (log, late, ok, bx')) \<and>
    log = [(app, fst (up_app envs held resume app bx))]"
proof -
  obtain out bx1 where "up_app envs held resume app bx = (out, bx1)" by (cases "up_app envs held resume app bx")
  then show ?thesis
    by (cases "caught out") (auto simp: up_def up_which_def assms no_wait)
qed

theorem up_takes_each_app_in_turn_witness:
  "\<exists>late ok bx'. up (\<lambda>app. demo_run_env) (\<lambda>app. False) (\<lambda>order. demo_polls) 0 False (demo_box [] [(''org.demo'', ''stopped'')]) =
      Some (Inr ([(''org.demo'', LeftStopped)], late, ok, bx')) \<and> ok"
proof -
  let ?bx = "demo_box [] [(''org.demo'', ''stopped'')]"
  obtain log late ok bx' where u: "up (\<lambda>app. demo_run_env) (\<lambda>app. False) (\<lambda>order. demo_polls) 0 False ?bx = Some (Inr (log, late, ok, bx'))"
    "log = [(''org.demo'', fst (up_app (\<lambda>app. demo_run_env) (\<lambda>app. False) False ''org.demo'' ?bx))]"
    using up_one_group [OF demo_box_groups] by blast
  have "last_done ''org.demo'' ?bx = Some ''stopped''"
    by (simp add: last_done_def demo_box_def last_action_def)
  with up_takes_each_app_in_turn [OF u(1)] u show ?thesis by auto
qed


lemma demo_groups_of:
  assumes "bx_ids bx = [''org.demo'']" and "rn_bundle (bx_run bx ''org.demo'') = Some ''v1''"
    and "rx_ops (ld_ctx (wd_load (focus ''org.demo'' bx))) = memory_store" and "bx_app bx ''org.demo'' = []"
  shows "start_groups (\<lambda>app. demo_run_env) bx BOX_GROUPS = Inr [(6, [''org.demo''])]"
proof -
  have "loaded_spec (re_load demo_run_env) ''org.demo'' rd = Inr (Some demo_spec)" if "rn_bundle rd = Some ''v1''" for rd
    using that demo_loaded_spec [of "[]"]
    by (auto simp: require_loaded_spec_def run_of_def demo_world_def demo_load_state_def loaded_spec_def split: sum.splits option.splits)
  with assms(2) have "loaded_spec (re_load demo_run_env) ''org.demo'' (run_of (focus ''org.demo'' bx)) = Inr (Some demo_spec)"
    by (simp add: focus_def Let_def run_of_def)
  then have "start_order (\<lambda>app. demo_run_env) bx ''org.demo'' = Inr 6"
    by (rule demo_start_order_value) (use assms in \<open>simp_all add: focus_def Let_def\<close>)
  moreover have "loaded_ids bx = [''org.demo'']" using assms by (simp add: loaded_ids_def)
  ultimately show ?thesis by (simp add: start_groups_def group_add_def BOX_GROUPS_def)
qed

lemma demo_box_down:
  "\<exists>ok bx1. down (\<lambda>app. demo_run_env) (\<lambda>app. False) (demo_box [demo_container] []) = Inr ([(''org.demo'', StoppedNow)], ok, bx1) \<and>
    start_groups (\<lambda>app. demo_run_env) bx1 BOX_GROUPS = Inr [(6, [''org.demo''])]"
proof -
  let ?bx = "demo_box [demo_container] []" and ?env = "demo_run_env"
  have run: "containers_of (\<lambda>app. ?env) ''org.demo'' ?bx > 0"
    by (simp add: containers_of_def running_now_def run_state_of_def demo_run_env_def demo_docker_def focus_def demo_box_def
        demo_world_def Let_def demo_container_def rs_running_count_def us_running_def str_lower_def is_upper_def run_of_def
        demo_load_state_def)
  obtain w where w: "stop ?env ''org.demo'' DOWN_ACTION (focus ''org.demo'' ?bx) = (Inr (), w)"
    "rn_bundle (run_of w) = Some ''v1''" "ld_ctx (wd_load w) = ld_ctx (wd_load (focus ''org.demo'' ?bx))"
    by (simp add: stop_def bindA_def run_state_of_def demo_run_env_def demo_docker_def demo_box_def focus_def demo_world_def
        run_of_def demo_load_state_def Let_def except_for_def docker_run_command_def UP_def recorded_def record_action_def
        on_run_def unlink_links demo_container_def)
  then have d: "down_app (\<lambda>app. ?env) (\<lambda>app. False) ''org.demo'' ?bx = (StoppedNow, refocus ''org.demo'' w ?bx)"
    by (simp add: down_app_def)
  have "start_groups (\<lambda>app. ?env) (refocus ''org.demo'' w ?bx) BOX_GROUPS = Inr [(6, [''org.demo''])]"
    by (rule demo_groups_of)
      (use w in \<open>simp_all add: refocus_def demo_box_def focus_def Let_def demo_world_def demo_load_state_def demo_ctx_def\<close>)
  with d run show ?thesis
    by (auto simp: down_def down_which_def demo_box_groups)
qed

theorem up_brings_back_what_down_stopped_witness:
  "\<exists>ok bx1 out late ok2 bx2.
    down (\<lambda>app. demo_run_env) (\<lambda>app. False) (demo_box [demo_container] []) = Inr ([(''org.demo'', StoppedNow)], ok, bx1) \<and>
    up (\<lambda>app. demo_run_env) (\<lambda>app. False) (\<lambda>order. demo_polls) 0 False bx1 = Some (Inr ([(''org.demo'', out)], late, ok2, bx2)) \<and>
    out \<noteq> LeftStopped \<and> out \<noteq> LeftAlone"
proof -
  obtain ok bx1 where d: "down (\<lambda>app. demo_run_env) (\<lambda>app. False) (demo_box [demo_container] []) = Inr ([(''org.demo'', StoppedNow)], ok, bx1)"
    "start_groups (\<lambda>app. demo_run_env) bx1 BOX_GROUPS = Inr [(6, [''org.demo''])]"
    using demo_box_down by blast
  obtain out late ok2 bx2 where u: "up (\<lambda>app. demo_run_env) (\<lambda>app. False) (\<lambda>order. demo_polls) 0 False bx1 =
      Some (Inr ([(''org.demo'', out)], late, ok2, bx2))"
    using up_one_group [OF d(2)] by blast
  have "out \<noteq> LeftStopped \<and> (out = LeftAlone \<longleftrightarrow> False)"
    by (rule up_brings_back_what_down_stopped [OF d(1) _ u]) simp_all
  with d(1) u show ?thesis by blast
qed

end
