(* ===== verification/Restic.thy ===== *)
theory Restic
  imports Backup Bundle Load
begin

text \<open>
  \<^verbatim>\<open>kelso/lib/restic.py\<close>: the commands kelso gives to restic, when it gives them again, and what it
  reads out of their output. The restic program, in its container, is outside
  \<^verbatim>\<open>src/\<close>: \<open>rv_exec\<close> takes a command line and its mounts (host path, path inside,
  writable) to an exit status and a standard output.
\<close>

datatype restic_error =
    ResticFailed "int option"
  | PathWithColon string
  | BadOutput
  | MissingInOutput string

record 'r restic_env =
  rv_exec :: "string list \<Rightarrow> (string \<times> string \<times> bool) list \<Rightarrow> 'r \<Rightarrow> (int \<times> string) \<times> 'r"
  rv_has_config :: "'r \<Rightarrow> bool"
  rv_repo :: string
  rv_cache :: string
  rv_host :: string
  rv_resolve :: "string \<Rightarrow> string"
  rv_json :: "string \<Rightarrow> json option"
  rv_utc :: "string \<Rightarrow> string option"

definition RESTIC_REPO :: string where "RESTIC_REPO = ''/repo''"
definition RESTIC_CACHE :: string where "RESTIC_CACHE = ''/cache''"
definition RESTIC_TARGET :: string where "RESTIC_TARGET = ''/restore''"
definition LOCKED :: int where "LOCKED = 11"

section \<open>Running a command\<close>

definition restic_mounts :: "'r restic_env \<Rightarrow> (string, string) dict \<Rightarrow> bool \<Rightarrow> (string \<times> string \<times> bool) list" where
  "restic_mounts rv binds writable =
     (rv_resolve rv (rv_repo rv), RESTIC_REPO, True) # (rv_resolve rv (rv_cache rv), RESTIC_CACHE, True)
     # List.map (\<lambda>(host, guest). (rv_resolve rv host, guest, writable)) binds"

definition colon_path :: "(string \<times> string \<times> bool) list \<Rightarrow> string option" where
  "colon_path mounts = List.find (\<lambda>host. CHR '':'' \<in> set host) (List.map fst mounts)"

definition restic_call ::
    "'r restic_env \<Rightarrow> string list \<Rightarrow> (string \<times> string \<times> bool) list \<Rightarrow> ('r, restic_error, int \<times> string) act" where
  "restic_call rv args mounts r = (case rv_exec rv args mounts r of (out, r') \<Rightarrow> (Inr out, r'))"

fun restic_ended :: "int \<times> string \<Rightarrow> ('r, restic_error, string) act" where
  "restic_ended (code, out) = (if code \<noteq> 0 then raise (ResticFailed (Some code)) else ret out)"

text \<open>A command that finds the repository locked is given again once, after \<^verbatim>\<open>unlock\<close>, which is not.\<close>

definition restic_unlock :: "'r restic_env \<Rightarrow> ('r, restic_error, string) act" where
  "restic_unlock rv =
     (let mounts = restic_mounts rv [] False
      in case colon_path mounts of
           Some host \<Rightarrow> raise (PathWithColon host)
         | None \<Rightarrow> bindA (restic_call rv [''unlock''] mounts) restic_ended)"

definition restic_run ::
    "'r restic_env \<Rightarrow> string list \<Rightarrow> (string, string) dict \<Rightarrow> bool \<Rightarrow> ('r, restic_error, string) act" where
  "restic_run rv args binds writable =
     (let mounts = restic_mounts rv binds writable
      in case colon_path mounts of
           Some host \<Rightarrow> raise (PathWithColon host)
         | None \<Rightarrow>
             bindA (restic_call rv args mounts) (\<lambda>(code, out).
               if code = LOCKED \<and> take 1 args \<noteq> [''unlock'']
               then bindA (restic_unlock rv) (\<lambda>_. bindA (restic_call rv args mounts) restic_ended)
               else restic_ended (code, out)))"

section \<open>The commands\<close>

definition restic_init :: "'r restic_env \<Rightarrow> ('r, restic_error, bool) act" where
  "restic_init rv =
     bindA (askA (\<lambda>r. Inr (rv_has_config rv r))) (\<lambda>exists.
       if exists then ret False else bindA (restic_run rv [''init''] [] False) (\<lambda>_. ret True))"

text \<open>The first line that is a summary. Every line before it must be a JSON object.\<close>

fun summary_line :: "'r restic_env \<Rightarrow> string list \<Rightarrow> restic_error + (string, json) dict" where
  "summary_line rv [] = Inl (ResticFailed None)"
| "summary_line rv (l # ls) =
     (case rv_json rv l of
        Some (JObj m) \<Rightarrow> if map_of m ''message_type'' = Some (JStr ''summary'') then Inr m else summary_line rv ls
      | _ \<Rightarrow> Inl BadOutput)"

definition backup_args :: "'r restic_env \<Rightarrow> (string, string) dict \<Rightarrow> (string, string) dict \<Rightarrow> string list" where
  "backup_args rv sources tags =
     [''backup'', ''--json'', ''--host'', rv_host rv]
     @ concat (List.map (\<lambda>(k, v). [''--tag'', k @ ''='' @ v]) tags) @ List.map snd sources"

definition restic_backup ::
    "'r restic_env \<Rightarrow> (string, string) dict \<Rightarrow> (string, string) dict \<Rightarrow> ('r, restic_error, string) act" where
  "restic_backup rv sources tags =
     bindA (restic_run rv (backup_args rv sources tags) sources False) (\<lambda>out.
       askA (\<lambda>r. andthen (summary_line rv (split_lines out)) (\<lambda>m.
         case map_of m ''snapshot_id'' of
           None \<Rightarrow> Inl (MissingInOutput ''snapshot_id'')
         | Some (JStr s) \<Rightarrow> Inr s
         | Some v \<Rightarrow> Inl BadOutput)))"

definition restic_added_by :: "'r restic_env \<Rightarrow> (string, string) dict \<Rightarrow> ('r, restic_error, int) act" where
  "restic_added_by rv sources =
     bindA (restic_run rv ([''backup'', ''--dry-run'', ''--json'', ''--host'', rv_host rv] @ List.map snd sources) sources False) (\<lambda>out.
       askA (\<lambda>r. andthen (summary_line rv (split_lines out)) (\<lambda>m.
         case json_int (case map_of m ''data_added'' of None \<Rightarrow> JInt 0 | Some v \<Rightarrow> v) of
           Inl e \<Rightarrow> Inl BadOutput | Inr n \<Rightarrow> Inr n)))"

definition restic_check :: "'r restic_env \<Rightarrow> ('r, restic_error, unit) act" where
  "restic_check rv = bindA (restic_run rv [''check''] [] False) (\<lambda>_. ret ())"

text \<open>
  \<^verbatim>\<open>_moment\<close> and \<^verbatim>\<open>_timestamp\<close>: a time with nanoseconds is cut to the microsecond before
  \<^verbatim>\<open>fromisoformat\<close> reads it; \<open>rv_utc\<close> is that reading, in UTC and printed to the second.
\<close>

definition restic_moment :: "string \<Rightarrow> string" where
  "restic_moment raw =
     (case partition_on (CHR ''.'') raw of (head, _, rest) \<Rightarrow>
        if rest = [] then concat (List.map (\<lambda>c. if c = CHR ''Z'' then ''+00:00'' else [c]) head)
        else (let digits = takeWhile is_digit rest; offset = drop (length digits) rest;
                  zone = (if offset \<in> {[], ''Z''} then ''+00:00'' else offset)
              in head @ ''.'' @ take 6 digits @ replicate (6 - length digits) (CHR ''0'') @ zone))"

definition restic_timestamp :: "'r restic_env \<Rightarrow> string \<Rightarrow> restic_error + string" where
  "restic_timestamp rv raw = (case rv_utc rv (restic_moment raw) of None \<Rightarrow> Inl BadOutput | Some t \<Rightarrow> Inr t)"

definition restic_tags :: "string list \<Rightarrow> (string, string) dict" where
  "restic_tags raw = dict_merge [] (List.map (\<lambda>t. case partition_on (CHR ''='') t of (k, _, v) \<Rightarrow> (k, v)) raw)"

definition str_items :: "json \<Rightarrow> restic_error + string list" where
  "str_items v =
     (if \<not> truthy v then Inr []
      else case v of
        JArr xs \<Rightarrow> traverse (\<lambda>x. case x of JStr s \<Rightarrow> Inr s | _ \<Rightarrow> Inl BadOutput) xs
      | _ \<Rightarrow> Inl BadOutput)"

definition processed :: "(string, json) dict \<Rightarrow> restic_error + int" where
  "processed m =
     (case map_of m ''summary'' of
        None \<Rightarrow> Inr 0
      | Some v \<Rightarrow>
          if \<not> truthy v then Inr 0
          else case v of
            JObj s \<Rightarrow> (case json_int (case map_of s ''total_bytes_processed'' of None \<Rightarrow> JInt 0 | Some n \<Rightarrow> n) of
              Inl e \<Rightarrow> Inl BadOutput | Inr n \<Rightarrow> Inr n)
          | _ \<Rightarrow> Inl BadOutput)"

definition snapshot_of :: "'r restic_env \<Rightarrow> json \<Rightarrow> restic_error + snapshot" where
  "snapshot_of rv raw =
     (case raw of
        JObj m \<Rightarrow>
          (case (map_of m ''id'', map_of m ''time'') of
             (Some (JStr i), Some (JStr t)) \<Rightarrow>
               andthen (restic_timestamp rv t) (\<lambda>time.
               andthen (str_items (case map_of m ''tags'' of None \<Rightarrow> JNull | Some v \<Rightarrow> v)) (\<lambda>tags.
               andthen (processed m) (\<lambda>size.
                 Inr \<lparr>sn_id = i, sn_time = time, sn_tags = restic_tags tags, sn_size = size\<rparr>)))
           | _ \<Rightarrow> Inl (MissingInOutput ''id''))
      | _ \<Rightarrow> Inl BadOutput)"

definition restic_snapshots :: "'r restic_env \<Rightarrow> (string, string) dict \<Rightarrow> ('r, restic_error, snapshot list) act" where
  "restic_snapshots rv tags =
     bindA (restic_run rv ([''snapshots'', ''--json''] @
        (if tags = [] then [] else [''--tag'', join '','' (List.map (\<lambda>(k, v). k @ ''='' @ v) tags)])) [] False) (\<lambda>out.
       askA (\<lambda>r. case rv_json rv (if out = [] then ''[]'' else out) of
         Some (JArr raws) \<Rightarrow> andthen (traverse (snapshot_of rv) raws) (\<lambda>found. Inr (sort_key sn_time found))
       | _ \<Rightarrow> Inl BadOutput))"

definition restic_restore :: "'r restic_env \<Rightarrow> string \<Rightarrow> string \<Rightarrow> ('r, restic_error, unit) act" where
  "restic_restore rv snap target =
     bindA (restic_run rv [''restore'', snap, ''--target'', RESTIC_TARGET] [(target, RESTIC_TARGET)] True) (\<lambda>_. ret ())"

definition restic_dump :: "'r restic_env \<Rightarrow> string \<Rightarrow> string \<Rightarrow> ('r, restic_error, string) act" where
  "restic_dump rv snap path = restic_run rv [''dump'', snap, path] [] False"

definition restic_forget :: "'r restic_env \<Rightarrow> string list \<Rightarrow> ('r, restic_error, unit) act" where
  "restic_forget rv ids = (if ids = [] then ret () else bindA (restic_run rv (''forget'' # ids) [] False) (\<lambda>_. ret ()))"

definition restic_prune :: "'r restic_env \<Rightarrow> ('r, restic_error, unit) act" where
  "restic_prune rv = bindA (restic_run rv [''prune''] [] False) (\<lambda>_. ret ())"



end
