(* ===== verification/Snapshots.thy ===== *)
theory Snapshots
  imports Restic Updown
begin

text \<open>
  \<^verbatim>\<open>kelso/lib/backup.py\<close>: taking backups. An app is stopped while its data is read and started
  again whatever came of it; a run goes through the apps one by one, backs up kelso's own
  state, and forgets what the keep policy no longer wants. The state of one app's backup is
  the app's world and the restic repository.
\<close>

datatype backup_fail =
    RunRaised run_error
  | ResticRaised restic_error
  | StoreRaised store_error
  | ListingRaised backup_error
  | AppsUnread name_error
  | LockBusy
  | NoSpace int int
  | SameSecond string
  | NoPhrase
  | NoDestination string bool

text \<open>The lock acquisitions of one backup; each gives up after the lock timeout when another process holds it.\<close>

datatype lock_step = AppLock | StopLock | StartLock

record ('s, 'w, 'b, 'd, 'r) backup_env =
  be_run :: "('s, 'w, 'b, 'd) run_env"
  be_restic :: "'r restic_env"
  be_disk :: "('s, 'w, 'b, 'd) world \<Rightarrow> disk"
  be_free :: "'r \<Rightarrow> int"
  be_made :: string
  be_now :: string
  be_held :: "lock_step \<Rightarrow> bool"

section \<open>Steps\<close>

type_synonym ('s, 'w, 'b, 'd, 'r, 'a) backup_act = "(('s, 'w, 'b, 'd) world \<times> 'r, backup_fail, 'a) act"

definition in_world :: "(('s, 'w, 'b, 'd) world, run_error, 'a) act \<Rightarrow> ('s, 'w, 'b, 'd, 'r, 'a) backup_act" where
  "in_world m st =
     (case m (fst st) of (r, w) \<Rightarrow> (case r of Inl e \<Rightarrow> Inl (RunRaised e) | Inr x \<Rightarrow> Inr x, (w, snd st)))"

definition in_repo :: "('r, restic_error, 'a) act \<Rightarrow> ('v \<times> 'r, backup_fail, 'a) act" where
  "in_repo m st =
     (case m (snd st) of (r, q) \<Rightarrow> (case r of Inl e \<Rightarrow> Inl (ResticRaised e) | Inr x \<Rightarrow> Inr x, (fst st, q)))"

definition ask_world :: "(('s, 'w, 'b, 'd) world \<Rightarrow> backup_fail + 'a) \<Rightarrow> ('s, 'w, 'b, 'd, 'r, 'a) backup_act" where
  "ask_world f = askA (\<lambda>st. f (fst st))"

definition stored :: "store_error + 'a \<Rightarrow> backup_fail + 'a" where
  "stored r = (case r of Inl e \<Rightarrow> Inl (StoreRaised e) | Inr x \<Rightarrow> Inr x)"

definition acquire :: "bool \<Rightarrow> ('v, backup_fail, unit) act" where
  "acquire held = (if held then raise LockBusy else ret ())"

section \<open>One app\<close>

text \<open>
  \<^verbatim>\<open>_version\<close>: of the loaded copy, else what the app's store says was loaded last (kelso stores a
  string there).
\<close>

definition app_version ::
    "('s, 'w, 'b, 'd, 'r) backup_env \<Rightarrow> string \<Rightarrow> ('s, 'w, 'b, 'd) world \<Rightarrow> backup_fail + string" where
  "app_version env app w =
     (case loaded_spec (re_load (be_run env)) app (run_of w) of
        Inr (Some spec) \<Rightarrow> Inr (sp_version spec)
      | _ \<Rightarrow>
          let ctx = ld_ctx (wd_load w)
          in if dk_is_file (be_disk env w) (app_config_path (rx_config ctx) app)
             then stored (andthen (get_meta (rx_ops ctx) (rx_app ctx) ''loaded_version'') (\<lambda>v.
                    Inr (case v of JStr s \<Rightarrow> s | _ \<Rightarrow> [])))
             else Inr [])"

definition kelso_id_now :: "string \<Rightarrow> ('s, 'w, 'b, 'd, 'r, string) backup_act" where
  "kelso_id_now made st =
     (let w = fst st; ctx = ld_ctx (wd_load w)
      in case kelso_id (rx_ops ctx) made (rx_db ctx) of
           Inl e \<Rightarrow> (Inl (StoreRaised e), st)
         | Inr (kid, s) \<Rightarrow> (Inr kid, (w\<lparr>wd_load := upd_ctx (rx_db_update (\<lambda>_. s)) (wd_load w)\<rparr>, snd st)))"

definition sources_of :: "('s, 'w, 'b, 'd, 'r) backup_env \<Rightarrow> string \<Rightarrow> ('s, 'w, 'b, 'd) world \<Rightarrow> (string, string) dict" where
  "sources_of env app w = app_sources (be_disk env w) (rx_config (ld_ctx (wd_load w))) app"

definition bulk_of ::
    "('s, 'w, 'b, 'd, 'r) backup_env \<Rightarrow> string \<Rightarrow> ('s, 'w, 'b, 'd) world \<Rightarrow> backup_fail + (string, string) dict" where
  "bulk_of env app w =
     (let ctx = ld_ctx (wd_load w)
      in stored (bulk_sources (be_disk env w) (rx_config ctx) (rx_ops ctx) (rx_app ctx) app))"

definition refuse_without_space ::
    "('s, 'w, 'b, 'd, 'r) backup_env \<Rightarrow> (string, string) dict \<Rightarrow> ('v \<times> 'r, backup_fail, unit) act" where
  "refuse_without_space env sources =
     bindA (in_repo (restic_added_by (be_restic env) sources)) (\<lambda>needed.
       askA (\<lambda>st. let free = be_free env (snd st) in if needed > free then Inl (NoSpace needed free) else Inr ()))"

text \<open>The app is stopped if it runs; whether it did.\<close>

definition stop_to_read ::
    "('s, 'w, 'b, 'd, 'r) backup_env \<Rightarrow> string \<Rightarrow> ('s, 'w, 'b, 'd, 'r, bool) backup_act" where
  "stop_to_read env app =
     bindA (ask_world (\<lambda>w. Inr (is_loaded_now w))) (\<lambda>loaded.
       if \<not> loaded then ret False
       else bindA (acquire (be_held env StopLock)) (\<lambda>_.
            bindA (in_world (askA (run_state_of (be_run env) app))) (\<lambda>s.
              if rs_running_count s > 0
              then bindA (in_world (stop (be_run env) app STOPPED_ACTION)) (\<lambda>_. ret True)
              else ret False)))"

text \<open>\<open>try\<close> ... \<open>finally: start\<close>: an error of the lock or of the start takes the place of what was there.\<close>

definition start_finally ::
    "('s, 'w, 'b, 'd, 'r) backup_env \<Rightarrow> string \<Rightarrow> bool \<Rightarrow> ('s, 'w, 'b, 'd, 'r, 'a) backup_act
       \<Rightarrow> ('s, 'w, 'b, 'd, 'r, 'a) backup_act" where
  "start_finally env app running m st =
     (case m st of (r, st1) \<Rightarrow>
        if \<not> running then (r, st1)
        else (case bindA (acquire (be_held env StartLock)) (\<lambda>_. in_world (start_copy (be_run env) app)) st1 of
                (Inl e, st2) \<Rightarrow> (Inl e, st2)
              | (Inr res, st2) \<Rightarrow> (r, st2)))"

definition backup_tags :: "string \<Rightarrow> string \<Rightarrow> string \<Rightarrow> string \<Rightarrow> string \<Rightarrow> (string, string) dict" where
  "backup_tags kid app version reason run =
     [(''kelso_id'', kid), (''app'', app), (''version'', version), (''reason'', reason), (''run'', run)]"

definition read_data ::
    "('s, 'w, 'b, 'd, 'r) backup_env \<Rightarrow> string \<Rightarrow> (string, string) dict \<Rightarrow> ('s, 'w, 'b, 'd, 'r, string) backup_act" where
  "read_data env app tags =
     bindA (ask_world (\<lambda>w. Inr (sources_of env app w))) (\<lambda>sources.
       in_repo (restic_backup (be_restic env) sources (tags @ [(''part'', DATA)])))"

definition read_bulk ::
    "('s, 'w, 'b, 'd, 'r) backup_env \<Rightarrow> (string, string) dict \<Rightarrow> (string, string) dict
       \<Rightarrow> ('s, 'w, 'b, 'd, 'r, (string, string) dict) backup_act" where
  "read_bulk env bulk tags =
     (if bulk = [] then ret []
      else bindA (in_repo (restic_backup (be_restic env) bulk (tags @ [(''part'', BULK)]))) (\<lambda>snap. ret [(BULK, snap)]))"

definition backup_app ::
    "('s, 'w, 'b, 'd, 'r) backup_env \<Rightarrow> string \<Rightarrow> string \<Rightarrow> string \<Rightarrow> ('s, 'w, 'b, 'd, 'r, backup) backup_act" where
  "backup_app env app reason run =
     bindA (kelso_id_now (be_made env)) (\<lambda>kid.
     bindA (ask_world (app_version env app)) (\<lambda>version.
     let tags = backup_tags kid app version reason run in
     bindA (acquire (be_held env AppLock)) (\<lambda>_.
     bindA (ask_world (bulk_of env app)) (\<lambda>bulk.
     bindA (ask_world (\<lambda>w. Inr (sources_of env app w))) (\<lambda>sources.
     bindA (refuse_without_space env (dict_merge sources bulk)) (\<lambda>_.
     bindA (stop_to_read env app) (\<lambda>running.
     bindA (start_finally env app running (read_data env app tags)) (\<lambda>data.
     bindA (read_bulk env bulk tags) (\<lambda>more.
       ret \<lparr>bu_app = Some app, bu_run = run, bu_time = be_now env, bu_reason = reason, bu_version = version,
             bu_kelso_id = kid, bu_snapshots = (DATA, data) # more, bu_size = 0\<rparr>)))))))))"

section \<open>A stopped app is started again\<close>

lemma in_repo_E:
  assumes "in_repo m st = (r, st')"
  obtains (raised) e q where "m (snd st) = (Inl e, q)" "r = Inl (ResticRaised e)" "st' = (fst st, q)"
    | (returned) x q where "m (snd st) = (Inr x, q)" "r = Inr x" "st' = (fst st, q)"
  using assms by (auto simp: in_repo_def split: prod.splits sum.splits)

lemma in_world_E:
  assumes "in_world m st = (r, st')"
  obtains (raised) e w where "m (fst st) = (Inl e, w)" "r = Inl (RunRaised e)" "st' = (w, snd st)"
    | (returned) x w where "m (fst st) = (Inr x, w)" "r = Inr x" "st' = (w, snd st)"
  using assms by (auto simp: in_world_def split: prod.splits sum.splits)

lemma acquire_E:
  assumes "acquire held st = (r, st')"
  obtains (busy) "held" "r = Inl LockBusy" "st' = st" | (got) "\<not> held" "r = Inr ()" "st' = st"
  using assms by (auto simp: acquire_def split: if_splits)

text \<open>A step that has only to do with the repository, or with nothing.\<close>

definition same_world :: "'v \<times> 'r \<Rightarrow> 'v \<times> 'r \<Rightarrow> bool" where
  "same_world st st' \<longleftrightarrow> fst st' = fst st"

lemma same_world_order: "reflp same_world" "transp same_world"
  by (auto simp: same_world_def intro!: reflpI transpI)

lemma same_world_steps:
  "keeps same_world (in_repo m)" "keeps same_world (askA f)" "keeps same_world (ret x)"
  "keeps same_world (ask_world g)" "keeps same_world (acquire h)"
  by (auto simp: keeps_def same_world_def in_repo_def ask_world_def acquire_def split: prod.splits)

lemmas same_world_intros = keeps_bindA [OF _ _ same_world_order(2)] same_world_steps

lemma refuse_same_world: "keeps same_world (refuse_without_space env sources)"
  unfolding refuse_without_space_def by (intro same_world_intros)

lemma read_data_same_world: "keeps same_world (read_data env app tags)"
  unfolding read_data_def by (intro same_world_intros)

lemma read_bulk_same_world: "keeps same_world (read_bulk env bulk tags)"
  unfolding read_bulk_def by (cases "bulk = []") (auto intro!: same_world_intros)

lemma same_worldD: "keeps same_world m \<Longrightarrow> m st = (r, st') \<Longrightarrow> fst st' = fst st"
  using keepsD unfolding same_world_def by fastforce

text \<open>Kelso's own database may have been given its id; nothing else of the world differs.\<close>

definition only_db :: "('s, 'w, 'b, 'd) world \<Rightarrow> ('s, 'w, 'b, 'd) world \<Rightarrow> bool" where
  "only_db w w' \<longleftrightarrow> (\<exists>s. w' = w\<lparr>wd_load := upd_ctx (rx_db_update (\<lambda>_. s)) (wd_load w)\<rparr>)"

lemma only_db_refl: "only_db w w"
  unfolding only_db_def by (rule exI [of _ "rx_db (ld_ctx (wd_load w))"]) (simp add: upd_ctx_def)

lemma kelso_id_now_only_db: "kelso_id_now made st = (r, st') \<Longrightarrow> only_db (fst st) (fst st') \<and> snd st' = snd st"
  using only_db_refl [of "fst st"] unfolding kelso_id_now_def only_db_def by (fastforce simp: Let_def split: sum.splits prod.splits)

definition was_running :: "('s, 'w, 'b, 'd, 'r) backup_env \<Rightarrow> string \<Rightarrow> ('s, 'w, 'b, 'd) world \<Rightarrow> bool" where
  "was_running env app w \<longleftrightarrow> is_loaded_now w \<and> running_now (be_run env) app w > 0"

lemma stop_to_read_E:
  assumes "stop_to_read env app st = (r, st')"
  obtains (not_run) "\<not> was_running env app (fst st)" "r = Inr False" "st' = st"
    | (refused) e where "r = Inl e" "st' = st"
    | (stop_raised) e w where "was_running env app (fst st)" "stop (be_run env) app STOPPED_ACTION (fst st) = (Inl e, w)"
        "r = Inl (RunRaised e)" "st' = (w, snd st)"
    | (stopped) w where "was_running env app (fst st)" "stop (be_run env) app STOPPED_ACTION (fst st) = (Inr (), w)"
        "r = Inr True" "st' = (w, snd st)"
  using assms unfolding stop_to_read_def ask_world_def
  by (auto simp: was_running_def running_now_def elim!: bindA_E acquire_E in_world_E split: if_splits)

lemma start_finally_E:
  assumes "start_finally env app running m st = (r, st')"
  obtains (idle) "\<not> running" "m st = (r, st')"
    | (busy) st1 r1 where "running" "m st = (r1, st1)" "be_held env StartLock" "r = Inl LockBusy" "st' = st1"
    | (start_raised) st1 r1 e w where "running" "m st = (r1, st1)" "\<not> be_held env StartLock" "start_copy (be_run env) app (fst st1) = (Inl e, w)"
        "r = Inl (RunRaised e)" "st' = (w, snd st1)"
    | (started) st1 res w where "running" "m st = (r, st1)" "\<not> be_held env StartLock" "start_copy (be_run env) app (fst st1) = (Inr res, w)"
        "st' = (w, snd st1)"
  using assms unfolding start_finally_def
  by (auto elim!: bindA_E acquire_E in_world_E split: if_splits prod.splits sum.splits)

lemma bindA_same:
  assumes "keeps same_world m" and "bindA m f st = (r, st')"
  obtains (raised) e where "r = Inl e" "fst st' = fst st"
    | (went_on) x st1 where "f x st1 = (r, st')" "fst st1 = fst st"
  using assms(2) by (cases rule: bindA_E) (use same_worldD [OF assms(1)] raised went_on in auto)

lemma backup_app_stages:
  assumes "backup_app env app reason run (w, q) = (r, st')"
  obtains (early) w0 e where "only_db w w0" "r = Inl e" "fst st' = w0"
    | (stop_raised) w0 q0 e where "only_db w w0" "stop_to_read env app (w0, q0) = (Inl e, st')" "r = Inl e"
    | (read) w0 q0 tags running st1 d st2 where "only_db w w0" "stop_to_read env app (w0, q0) = (Inr running, st1)"
        "start_finally env app running (read_data env app tags) st1 = (d, st2)" "fst st' = fst st2"
        "\<forall>e. d = Inl e \<longrightarrow> r = Inl e"
proof -
  from assms obtain kid st0 where k: "kelso_id_now (be_made env) (w, q) = (kid, st0)"
    by (cases "kelso_id_now (be_made env) (w, q)")
  then have w0: "only_db w (fst st0)" using kelso_id_now_only_db [OF k] by simp
  show ?thesis
  proof (cases kid)
    case (Inl e)
    with assms k w0 show ?thesis by (intro early) (auto simp: backup_app_def bindA_def)
  next
    case (Inr i)
    note early_here = early [OF w0]
    let ?tags = "\<lambda>v. backup_tags i app v reason run"
    let ?read = "\<lambda>v bulk. bindA (stop_to_read env app) (\<lambda>running.
        bindA (start_finally env app running (read_data env app (?tags v))) (\<lambda>data.
        bindA (read_bulk env bulk (?tags v)) (\<lambda>more. ret \<lparr>bu_app = Some app, bu_run = run, bu_time = be_now env,
          bu_reason = reason, bu_version = v, bu_kelso_id = i, bu_snapshots = (DATA, data) # more, bu_size = 0\<rparr>)))"
    from assms k Inr have "bindA (ask_world (app_version env app)) (\<lambda>v.
        bindA (acquire (be_held env AppLock)) (\<lambda>_. bindA (ask_world (bulk_of env app)) (\<lambda>bulk.
        bindA (ask_world (\<lambda>w. Inr (sources_of env app w))) (\<lambda>sources.
        bindA (refuse_without_space env (dict_merge sources bulk)) (\<lambda>_. ?read v bulk))))) st0 = (r, st')"
      by (simp add: backup_app_def Let_def bindA_def)
    then consider (fine) v bulk st1 where "?read v bulk st1 = (r, st')" "fst st1 = fst st0"
      | (raised) e where "r = Inl e" "fst st' = fst st0"
      by (elim bindA_same [OF same_world_steps(4)] bindA_same [OF same_world_steps(5)] bindA_same [OF refuse_same_world])
        auto
    then show ?thesis
    proof cases
      case raised
      then show ?thesis by (rule early_here)
    next
      case fine
      obtain q1 where st1: "st1 = (fst st0, q1)" using fine(2) by (cases st1) simp
      from fine(1) show ?thesis
      proof (cases rule: bindA_E)
        case (raised e)
        with st1 show ?thesis by (intro stop_raised [OF w0, of q1]) simp_all
      next
        case (went_on running st2)
        note stopped = went_on(1) [unfolded st1]
        from went_on(2) show ?thesis
        proof (cases rule: bindA_E)
          case (raised e)
          then show ?thesis by (intro read [OF w0 stopped]) auto
        next
          case (went_on data st3)
          from went_on(2) have "fst st' = fst st3"
            by (elim bindA_same [OF read_bulk_same_world]) simp_all
          with went_on(1) show ?thesis by (intro read [OF w0 stopped]) auto
        qed
      qed
    qed
  qed
qed

text \<open>C22: backing up an app leaves a running app running, whatever restic does: the app is touched only if it was running
  and everything before went well; once it was stopped its loaded copy is started again,
  also when reading its data failed, and a backup that returns has it recorded as started. An error
  of that start is the error of the backup. The one way to leave it
  down without a try is a kelso lock that another process holds for longer than the timeout.\<close>

theorem backup_starts_what_it_stopped:
  assumes "backup_app env app reason run (w, q) = (r, st')"
  shows "\<exists>w0. only_db w w0 \<and>
    (fst st' = w0 \<and> (was_running env app w0 \<longrightarrow> (\<exists>e. r = Inl e)) \<or>
     was_running env app w0 \<and>
     (case stop (be_run env) app STOPPED_ACTION w0 of
        (Inl e, w1) \<Rightarrow> fst st' = w1 \<and> r = Inl (RunRaised e)
      | (Inr u, w1) \<Rightarrow>
          if be_held env StartLock then fst st' = w1 \<and> r = Inl LockBusy
          else (case start_copy (be_run env) app w1 of
                  (Inl e, w2) \<Rightarrow> fst st' = w2 \<and> r = Inl (RunRaised e)
                | (Inr res, w2) \<Rightarrow> fst st' = w2 \<and> last_action app (wd_load w2) = Some ''started'')))"
  using assms
proof (cases rule: backup_app_stages)
  case (early w0 e)
  then show ?thesis by blast
next
  case (stop_raised w0 q0 e)
  from stop_raised(2) show ?thesis
    by (cases rule: stop_to_read_E) (use stop_raised(1,3) in \<open>auto intro!: exI [of _ w0]\<close>)
next
  case (read w0 q0 tags running st1 d st2)
  from read(2) show ?thesis
  proof (cases rule: stop_to_read_E)
    case not_run
    with read(3) have "fst st2 = w0"
      by (cases rule: start_finally_E) (auto dest: same_worldD [OF read_data_same_world])
    with read not_run show ?thesis by (intro exI [of _ w0]) auto
  next
    case (stopped w1)
    have data: "fst stb = w1" if "read_data env app tags st1 = (x, stb)" for x stb
      using same_worldD [OF read_data_same_world that] stopped by simp
    from read(3) show ?thesis
    proof (cases rule: start_finally_E)
      case idle
      with stopped show ?thesis by simp
    next
      case (busy sta ra)
      with data [OF busy(2)] stopped read show ?thesis by (intro exI [of _ w0]) auto
    next
      case (start_raised sta ra e w2)
      with data [OF start_raised(2)] stopped read show ?thesis by (intro exI [of _ w0]) auto
    next
      case (started sta res w2)
      with data [OF started(2)] stopped read start_copy_returns [of "be_run env" app w1 res w2]
      show ?thesis by (intro exI [of _ w0]) auto
    qed
  qed simp_all
qed

section \<open>A run\<close>

text \<open>
  What a run asks of the whole box: each app's backup, the disk, where the links at the top of the root
  point, whether there is a recovery phrase, the ids with a config file, whether
  another process holds the kelso lock for too long, and the text of an error.
\<close>

record ('s, 'w, 'b, 'd, 'r) runs_env =
  vb_app :: "string \<Rightarrow> ('s, 'w, 'b, 'd, 'r) backup_env"
  vb_restic :: "'r restic_env"
  vb_disk :: "('s, 'w, 'b, 'd) box \<Rightarrow> disk"
  vb_readlink :: "string \<Rightarrow> string option"
  vb_same_disk :: bool
  vb_phrase :: bool
  vb_config_ids :: "('s, 'w, 'b, 'd) box \<Rightarrow> string list"
  vb_run_id :: string
  vb_made :: string
  vb_now :: string
  vb_init_held :: bool
  vb_state_held :: bool
  vb_text :: "backup_fail \<Rightarrow> string"

type_synonym ('s, 'w, 'b, 'd, 'r, 'a) runs_act = "(('s, 'w, 'b, 'd) box \<times> 'r, backup_fail, 'a) act"

definition box_ctx :: "('s, 'w, 'b, 'd) box \<Rightarrow> 's run_ctx" where
  "box_ctx bx = ld_ctx (wd_load (bx_world bx))"

definition box_db :: "('s \<Rightarrow> 's) \<Rightarrow> ('s, 'w, 'b, 'd) box \<Rightarrow> ('s, 'w, 'b, 'd) box" where
  "box_db f bx = bx\<lparr>bx_world := (bx_world bx)\<lparr>wd_load := upd_ctx (rx_db_update f) (wd_load (bx_world bx))\<rparr>\<rparr>"

definition at_app :: "string \<Rightarrow> ('s, 'w, 'b, 'd, 'r, 'a) backup_act \<Rightarrow> ('s, 'w, 'b, 'd, 'r, 'a) runs_act" where
  "at_app app m st = (case m (focus app (fst st), snd st) of (r, (w, q)) \<Rightarrow> (r, (refocus app w (fst st), q)))"

definition repository_opens ::
    "bool \<Rightarrow> (string \<Rightarrow> string option) \<Rightarrow> bool \<Rightarrow> disk \<Rightarrow> config \<Rightarrow> backup_fail + unit" where
  "repository_opens phrase readlink same_disk dk cfg =
     (if \<not> phrase then Inl NoPhrase
      else (case destination_problem dk cfg readlink same_disk of
              Some (root, unmounted) \<Rightarrow> Inl (NoDestination root unmounted)
            | None \<Rightarrow> Inr ()))"

definition repository :: "('s, 'w, 'b, 'd, 'r) runs_env \<Rightarrow> ('s, 'w, 'b, 'd, 'r, unit) runs_act" where
  "repository env =
     askA (\<lambda>st. repository_opens (vb_phrase env) (vb_readlink env) (vb_same_disk env) (vb_disk env (fst st)) (rx_config (box_ctx (fst st))))"

definition refuse_same_second :: "'r restic_env \<Rightarrow> string \<Rightarrow> string option \<Rightarrow> ('v \<times> 'r, backup_fail, unit) act" where
  "refuse_same_second rv run app =
     bindA (askA (\<lambda>st. Inr (rv_has_config rv (snd st)))) (\<lambda>exists.
       if \<not> exists then ret ()
       else bindA (in_repo (restic_snapshots rv
              ((''run'', run) # (case app of None \<Rightarrow> [] | Some a \<Rightarrow> [(''app'', a)])))) (\<lambda>snaps.
            if snaps \<noteq> [] then raise (SameSecond run) else ret ()))"

definition create_repository :: "('s, 'w, 'b, 'd, 'r) runs_env \<Rightarrow> ('s, 'w, 'b, 'd, 'r, bool) runs_act" where
  "create_repository env = bindA (acquire (vb_init_held env)) (\<lambda>_. in_repo (restic_init (vb_restic env)))"

record run_result =
  rr_run :: string
  rr_created :: bool
  rr_backed_up :: "string list"
  rr_failed :: "(string \<times> backup_fail) list"

text \<open>Each app in turn: \<open>except Exception\<close> around its backup.\<close>

fun back_up_each ::
    "('s, 'w, 'b, 'd, 'r) runs_env \<Rightarrow> string \<Rightarrow> string list \<Rightarrow> ('s, 'w, 'b, 'd) box \<times> 'r
       \<Rightarrow> (string list \<times> (string \<times> backup_fail) list) \<times> ('s, 'w, 'b, 'd) box \<times> 'r" where
  "back_up_each env reason [] st = (([], []), st)"
| "back_up_each env reason (app # apps) st =
     (case at_app app (backup_app (vb_app env app) app reason (vb_run_id env)) st of (r, st1) \<Rightarrow>
      (case back_up_each env reason apps st1 of ((fine, wrong), st2) \<Rightarrow>
        ((case r of Inl e \<Rightarrow> (fine, (app, e) # wrong) | Inr b \<Rightarrow> (app # fine, wrong)), st2)))"

definition LINKS_FILE :: string where "LINKS_FILE = STATE_ROOT @ ''/links.toml''"

definition links_toml :: "string \<Rightarrow> (string, string) dict \<Rightarrow> string" where
  "links_toml kelso_root links =
     (let quoted = (\<lambda>s. DQ @ s @ DQ)
      in join NL ([''# Where the kelso root'' @ SQ @ ''s links pointed when this backup was taken.'',
           ''# '' @ DQ @ DQ @ '' is a plain directory in the root.'',
           ''kelso_root = '' @ quoted kelso_root, [], ''[links]'']
           @ List.map (\<lambda>(name, target). quoted name @ '' = '' @ quoted target) links) @ NL)"

definition backup_state :: "('s, 'w, 'b, 'd, 'r) runs_env \<Rightarrow> string \<Rightarrow> ('s, 'w, 'b, 'd, 'r, string) runs_act" where
  "backup_state env reason =
     bindA (\<lambda>st. case kelso_id (rx_ops (box_ctx (fst st))) (vb_made env) (rx_db (box_ctx (fst st))) of
         Inl e \<Rightarrow> (Inl (StoreRaised e), st) | Inr (kid, s) \<Rightarrow> (Inr kid, (box_db (\<lambda>_. s) (fst st), snd st))) (\<lambda>kid.
     bindA (acquire (vb_state_held env)) (\<lambda>_.
     bindA (askA (\<lambda>st. stored (state_sources (vb_disk env (fst st)) (rx_config (box_ctx (fst st)))))) (\<lambda>sources.
     bindA (askA (\<lambda>st. Inr (path_joins (temp_root (rx_config (box_ctx (fst st)))) [''backup-state'', ''links.toml'']))) (\<lambda>links.
       in_repo (restic_backup (vb_restic env) (dict_merge sources [(links, LINKS_FILE)])
         [(''kelso_id'', kid), (STATE, ''kelso''), (''reason'', reason), (''run'', vb_run_id env)])))))"

text \<open>What \<^verbatim>\<open>forget_expired\<close> hands to restic: the snapshots of what each owner no longer keeps.\<close>

definition doomed :: "backup list \<Rightarrow> snapshot list \<Rightarrow> backup_keep \<Rightarrow> backup_error + string list" where
  "doomed bs states keep =
     (let owned = foldl (\<lambda>d b. group_add (case bu_app b of None \<Rightarrow> [] | Some a \<Rightarrow> a) b d) [] bs;
          owned' = foldl (\<lambda>d s. group_add [] (state_backup_of s) d) owned states
      in andthen (traverse (\<lambda>(owner, mine). expired mine keep) owned') (\<lambda>gone.
           Inr (concat (List.map (\<lambda>b. List.map snd (bu_snapshots b)) (concat gone)))))"

definition listed :: "backup_error + 'a \<Rightarrow> backup_fail + 'a" where
  "listed r = (case r of Inl e \<Rightarrow> Inl (ListingRaised e) | Inr x \<Rightarrow> Inr x)"

definition forget_expired :: "'r restic_env \<Rightarrow> backup_keep \<Rightarrow> bool \<Rightarrow> ('v \<times> 'r, backup_fail, nat) act" where
  "forget_expired rv keep prune =
     bindA (in_repo (restic_snapshots rv [])) (\<lambda>snaps.
     bindA (askA (\<lambda>st. listed (backups snaps None))) (\<lambda>bs.
     bindA (in_repo (restic_snapshots rv [(STATE, ''kelso'')])) (\<lambda>states.
     bindA (askA (\<lambda>st. listed (doomed bs states keep))) (\<lambda>gone.
     bindA (whenA (gone \<noteq> []) (bindA (in_repo (restic_forget rv gone)) (\<lambda>_.
              whenA prune (in_repo (restic_prune rv))))) (\<lambda>_.
       ret (length gone))))))"

definition delete_backup :: "'r restic_env \<Rightarrow> backup \<Rightarrow> ('v \<times> 'r, backup_fail, unit) act" where
  "delete_backup rv b =
     bindA (in_repo (restic_forget rv (List.map snd (bu_snapshots b)))) (\<lambda>_. in_repo (restic_prune rv))"

text \<open>\<open>except Exception as e\<close>: the error becomes the result, and the run goes on.\<close>

definition noting :: "string \<Rightarrow> ('v, backup_fail, 'a) act \<Rightarrow> 'v \<Rightarrow> (string \<times> backup_fail) list \<times> 'v" where
  "noting label m st = (case m st of (Inl e, st') \<Rightarrow> ([(label, e)], st') | (Inr x, st') \<Rightarrow> ([], st'))"

definition STATE_LABEL :: string where "STATE_LABEL = ''kelso'' @ SQ @ ''s state''"
definition CHECK_LABEL :: string where "CHECK_LABEL = ''repository check''"

definition run_record :: "('s, 'w, 'b, 'd, 'r) runs_env \<Rightarrow> string \<Rightarrow> bool \<Rightarrow> run_result \<Rightarrow> (string, json) dict" where
  "run_record env reason everything res =
     [(''run'', JStr (rr_run res)), (''time'', JStr (vb_now env)), (''reason'', JStr reason),
      (''everything'', JBool everything), (''backed_up'', JArr (List.map JStr (rr_backed_up res))),
      (''failed'', JArr (List.map (\<lambda>(label, e). JStr (label @ '': '' @ vb_text env e)) (rr_failed res)))]"

definition record_run ::
    "('s, 'w, 'b, 'd, 'r) runs_env \<Rightarrow> string \<Rightarrow> bool \<Rightarrow> run_result \<Rightarrow> ('s, 'w, 'b, 'd, 'r, unit) runs_act" where
  "record_run env reason everything res st =
     (case record_backup_run (rx_ops (box_ctx (fst st))) (rx_db (box_ctx (fst st))) (run_record env reason everything res) of
        Inl e \<Rightarrow> (Inl (StoreRaised e), st)
      | Inr s \<Rightarrow> (Inr (), (box_db (\<lambda>_. s) (fst st), snd st)))"

definition run_apps ::
    "('s, 'w, 'b, 'd, 'r) runs_env \<Rightarrow> string list option \<Rightarrow> ('s, 'w, 'b, 'd, 'r, string list) runs_act" where
  "run_apps env apps =
     askA (\<lambda>st. case apps of
         Some as \<Rightarrow> Inr as
       | None \<Rightarrow> (case backed_up_apps (vb_disk env (fst st)) (rx_config (box_ctx (fst st))) (vb_config_ids env (fst st)) of
                   Inl e \<Rightarrow> Inl (AppsUnread e) | Inr as \<Rightarrow> Inr as))"

definition forget_now :: "('s, 'w, 'b, 'd, 'r) runs_env \<Rightarrow> ('s, 'w, 'b, 'd, 'r, nat) runs_act" where
  "forget_now env =
     bindA (askA (\<lambda>st. Inr (be_keep (cfg_backup (rx_config (box_ctx (fst st))))))) (\<lambda>keep.
       forget_expired (vb_restic env) keep True)"

text \<open>The rest of a run, once the apps were gone through.\<close>

definition run_finish ::
    "('s, 'w, 'b, 'd, 'r) runs_env \<Rightarrow> string \<Rightarrow> bool \<Rightarrow> run_result \<Rightarrow> ('s, 'w, 'b, 'd, 'r, run_result) runs_act" where
  "run_finish env reason everything res =
     bindA (whenA everything (record_run env reason everything res)) (\<lambda>_ st2.
       case (if everything then noting STATE_LABEL (backup_state env reason) st2 else ([], st2)) of (state_wrong, st3) \<Rightarrow>
       bindA (forget_now env) (\<lambda>_ st4.
       case noting CHECK_LABEL (in_repo (restic_check (vb_restic env))) st4 of (check_wrong, st5) \<Rightarrow>
       let end = res\<lparr>rr_failed := rr_failed res @ state_wrong @ check_wrong\<rparr>
       in bindA (record_run env reason everything end) (\<lambda>_. ret end) st5) st3)"

definition run_backups ::
    "('s, 'w, 'b, 'd, 'r) runs_env \<Rightarrow> string \<Rightarrow> string list option \<Rightarrow> ('s, 'w, 'b, 'd, 'r, run_result) runs_act" where
  "run_backups env reason apps =
     bindA (repository env) (\<lambda>_.
     bindA (refuse_same_second (vb_restic env) (vb_run_id env) None) (\<lambda>_.
     bindA (create_repository env) (\<lambda>created.
     bindA (run_apps env apps) (\<lambda>todo st.
       case back_up_each env reason todo st of ((fine, wrong), st1) \<Rightarrow>
         run_finish env reason (apps = None)
           \<lparr>rr_run = vb_run_id env, rr_created = created, rr_backed_up = fine, rr_failed = wrong\<rparr> st1))))"

section \<open>What a run leaves of the apps\<close>

text \<open>The actions recorded of other apps stay.\<close>

definition acts_in :: "string \<Rightarrow> ('s, 'w, 'b, 'd) world \<times> 'r \<Rightarrow> ('s, 'w, 'b, 'd) world \<times> 'r \<Rightarrow> bool" where
  "acts_in app st st' \<longleftrightarrow> acts_on app (fst st) (fst st')"

lemma acts_in_order: "reflp (acts_in app)" "transp (acts_in app)"
  by (auto simp: acts_in_def acts_on_def acts_for_def intro!: reflpI transpI)

lemma acts_in_same: "keeps same_world m \<Longrightarrow> keeps (acts_in app) m"
  by (auto simp: keeps_def same_world_def acts_in_def acts_on_def acts_for_def)

lemma acts_in_world: "keeps (acts_on app) m \<Longrightarrow> keeps (acts_in app) (in_world m)"
  unfolding keeps_def acts_in_def in_world_def by (auto split: prod.split) (metis snd_conv)

lemma acts_start_copy: "keeps (acts_on app) (start_copy env app)"
proof -
  have "sa_app (run_copy c app) = app" for c :: "'a run_ctx" by (simp add: run_copy_def)
  then show ?thesis using acts_start unfolding keeps_def start_copy_def by metis
qed

lemma only_db_acts: "only_db w w' \<Longrightarrow> acts_on app w w' \<and> last_action app (wd_load w') = last_action app (wd_load w)"
  by (auto simp: only_db_def acts_on_def acts_for_def last_action_def upd_ctx_def)

lemma acts_kelso_id: "keeps (acts_in app) (kelso_id_now made)"
  unfolding keeps_def acts_in_def
proof
  fix st :: "('a, 'b, 'c, 'd) world \<times> 'e"
  obtain r st' where "kelso_id_now made st = (r, st')" by (cases "kelso_id_now made st")
  with only_db_acts [of "fst st" "fst st'" app] kelso_id_now_only_db [OF this]
  show "acts_on app (fst st) (fst (snd (kelso_id_now made st)))" by simp
qed

lemma acts_stop_to_read: "keeps (acts_in app) (stop_to_read env app)"
  unfolding stop_to_read_def
  by (intro keeps_bindA [OF _ _ acts_in_order(2)] keeps_if acts_in_world acts_stop keeps_askA [OF acts_on_order(1)]
      acts_in_same [OF same_world_steps(3)] acts_in_same [OF same_world_steps(4)] acts_in_same [OF same_world_steps(5)])

lemma acts_start_finally:
  assumes "keeps (acts_in app) m"
  shows "keeps (acts_in app) (start_finally env app running m)"
  unfolding keeps_def
proof
  fix st
  obtain r st' where s: "start_finally env app running m st = (r, st')" by (cases "start_finally env app running m st")
  have step: "acts_in app a (w, snd a)" if "start_copy (be_run env) app (fst a) = (x, w)" for a x w
    using keepsD [OF acts_start_copy that] by (simp add: acts_in_def)
  have trans: "acts_in app a b \<Longrightarrow> acts_in app b c \<Longrightarrow> acts_in app a c" for a b c
    using acts_in_order(2) by (rule transpD)
  from s have "acts_in app st st'"
    by (cases rule: start_finally_E) (auto intro: keepsD [OF assms] trans [OF keepsD [OF assms] step])
  with s show "acts_in app st (snd (start_finally env app running m st))" by simp
qed

lemma acts_backup_app: "keeps (acts_in app) (backup_app env app reason run)"
  unfolding backup_app_def Let_def
  by (intro keeps_bindA [OF _ _ acts_in_order(2)] acts_kelso_id acts_stop_to_read acts_start_finally
      acts_in_same [OF read_data_same_world] acts_in_same [OF read_bulk_same_world] acts_in_same [OF refuse_same_world]
      acts_in_same [OF same_world_steps(3)] acts_in_same [OF same_world_steps(4)] acts_in_same [OF same_world_steps(5)])

lemma backup_returns_started:
  assumes "backup_app env app reason run (w, q) = (Inr b, st')"
  shows "last_action app (wd_load (fst st')) \<in> {last_action app (wd_load w), Some ''started''}"
  using assms
proof (cases rule: backup_app_stages)
  case (read w0 q0 tags running st1 d st2)
  have w0: "last_action app (wd_load w0) = last_action app (wd_load w)" using only_db_acts [OF read(1)] by simp
  from read(2) show ?thesis
  proof (cases rule: stop_to_read_E)
    case not_run
    with read(3) have "fst st2 = w0"
      by (cases rule: start_finally_E) (auto dest: same_worldD [OF read_data_same_world])
    with read(4) w0 show ?thesis by simp
  next
    case (stopped w1)
    from read(3) show ?thesis
    proof (cases rule: start_finally_E)
      case (started sta res w2)
      then have "last_action app (wd_load w2) = Some ''started''" by (elim start_copy_returns)
      with started read(4) show ?thesis by simp
    qed (use read stopped in auto)
  qed simp_all
qed auto

lemma at_app_backup:
  assumes "at_app app (backup_app env app reason run) (bx, q) = (r, (bx', q'))"
  shows "(\<forall>other. other \<noteq> app \<longrightarrow> last_done other bx' = last_done other bx) \<and>
    (\<forall>b. r = Inr b \<longrightarrow> last_done app bx' \<in> {last_done app bx, Some ''started''})"
proof -
  obtain w where b: "backup_app env app reason run (focus app bx, q) = (r, (w, q'))" "bx' = refocus app w bx"
    using assms by (auto simp: at_app_def split: prod.splits)
  have "acts_on app (focus app bx) w"
    using keepsD [OF acts_backup_app b(1)] by (simp add: acts_in_def)
  then show ?thesis
    using backup_returns_started [of env app reason run "focus app bx" q _ "(w, q')"] b by (auto simp: acts_on_def acts_for_def)
qed

lemma back_up_each_does:
  assumes "back_up_each env reason apps (bx, q) = ((fine, wrong), (bx', q'))"
  shows "set apps = set fine \<union> fst ` set wrong \<and>
    (\<forall>app. app \<notin> fst ` set wrong \<longrightarrow> last_done app bx' \<in> {last_done app bx, Some ''started''}) \<and>
    (\<forall>app. app \<notin> set apps \<longrightarrow> last_done app bx' = last_done app bx)"
  using assms
proof (induction apps arbitrary: bx q fine wrong)
  case (Cons app apps)
  obtain r bx1 q1 where one: "at_app app (backup_app (vb_app env app) app reason (vb_run_id env)) (bx, q) = (r, (bx1, q1))"
    by (metis prod.collapse)
  obtain fine1 wrong1 where rest: "back_up_each env reason apps (bx1, q1) = ((fine1, wrong1), (bx', q'))"
    and eq: "(fine, wrong) = (case r of Inl e \<Rightarrow> (fine1, (app, e) # wrong1) | Inr b \<Rightarrow> (app # fine1, wrong1))"
    using Cons.prems one by (auto split: prod.splits)
  note does = at_app_backup [OF one] and IH = Cons.IH [OF rest]
  show ?case
  proof (cases r)
    case (Inl e)
    with eq have fw: "fine = fine1" "wrong = (app, e) # wrong1" by simp_all
    have "last_done a bx1 = last_done a bx" if "a \<noteq> app" for a using does that by blast
    with IH show ?thesis by (auto simp: fw)
  next
    case (Inr b)
    with eq have fw: "fine = app # fine1" "wrong = wrong1" by simp_all
    have other: "last_done a bx1 = last_done a bx" if "a \<noteq> app" for a using does that by blast
    have mine: "last_done app bx1 \<in> {last_done app bx, Some ''started''}" using does Inr by blast
    have "last_done a bx' \<in> {last_done a bx, Some ''started''}" if "a \<notin> fst ` set wrong" for a
      using IH that other [of a] mine by (cases "a = app") (auto simp: fw)
    with IH other show ?thesis by (auto simp: fw)
  qed
qed simp

text \<open>A step of a run that does nothing to the box.\<close>

lemma repository_same: "keeps same_world (repository env)"
  unfolding repository_def by (rule same_world_steps(2))

lemma refuse_second_same: "keeps same_world (refuse_same_second rv run app)"
  unfolding refuse_same_second_def
  by (intro keeps_bindA [OF _ _ same_world_order(2)] keeps_if same_world_steps)
    (simp add: keeps_def same_world_def)

lemma create_same: "keeps same_world (create_repository env)"
  unfolding create_repository_def by (intro same_world_intros)

lemma run_apps_same: "keeps same_world (run_apps env apps)"
  unfolding run_apps_def by (rule same_world_steps(2))

lemma forget_same: "keeps same_world (forget_expired rv keep prune)"
  unfolding forget_expired_def
  by (intro same_world_intros keeps_whenA same_world_order)

lemma last_done_db [simp]: "last_done app (box_db f bx) = last_done app bx"
  by (simp add: last_done_def box_db_def last_action_def upd_ctx_def)

text \<open>What is recorded of no app changes.\<close>

definition same_done :: "('s, 'w, 'b, 'd) box \<times> 'r \<Rightarrow> ('s, 'w, 'b, 'd) box \<times> 'r \<Rightarrow> bool" where
  "same_done st st' \<longleftrightarrow> (\<forall>app. last_done app (fst st') = last_done app (fst st))"

lemma same_done_order: "reflp same_done" "transp same_done"
  by (auto simp: same_done_def intro!: reflpI transpI)

lemma same_done_same: "keeps same_world m \<Longrightarrow> keeps same_done m"
  by (auto simp: keeps_def same_world_def same_done_def)

lemma record_done: "keeps same_done (record_run env reason everything res)"
  by (simp add: keeps_def same_done_def record_run_def split: sum.split)

lemma state_done: "keeps same_done (backup_state env reason)"
  unfolding backup_state_def
  by (intro keeps_bindA [OF _ _ same_done_order(2)] same_done_same [OF same_world_steps(1)]
      same_done_same [OF same_world_steps(2)] same_done_same [OF same_world_steps(5)])
    (simp add: keeps_def same_done_def split: sum.split prod.split)

lemma noting_E:
  assumes "noting label m st = (xs, st')"
  shows "fst ` set xs \<subseteq> {label}" and "keeps same_done m \<Longrightarrow> same_done st st'"
  using assms unfolding noting_def
  by (auto dest: keepsD split: prod.splits sum.splits)

definition recorded_as :: "('s, 'w, 'b, 'd) box \<Rightarrow> (string, json) dict \<Rightarrow> bool" where
  "recorded_as bx run \<longleftrightarrow> (\<exists>s. record_backup_run (rx_ops (box_ctx bx)) s run = Inr (rx_db (box_ctx bx)))"

lemma record_run_records:
  "record_run env reason everything res st = (Inr u, st') \<Longrightarrow> recorded_as (fst st') (run_record env reason everything res)"
  by (auto simp: record_run_def recorded_as_def box_ctx_def box_db_def upd_ctx_def split: sum.splits)

lemma transp_done: "same_done a b \<Longrightarrow> same_done b c \<Longrightarrow> same_done a c"
  using same_done_order(2) by (rule transpD)

lemma forget_done: "keeps same_done (forget_now env)"
  unfolding forget_now_def by (intro same_done_same same_world_intros forget_same)

lemma run_finish_does:
  assumes "run_finish env reason everything res st = (Inr res', st')"
  shows "\<exists>more. res' = res\<lparr>rr_failed := rr_failed res @ more\<rparr> \<and> fst ` set more \<subseteq> {STATE_LABEL, CHECK_LABEL} \<and>
    same_done st st' \<and> recorded_as (fst st') (run_record env reason everything res')"
proof -
  from assms obtain u st2 where 2: "whenA everything (record_run env reason everything res) st = (Inr u, st2)"
    and rest2: "(case (if everything then noting STATE_LABEL (backup_state env reason) st2 else ([], st2)) of (state_wrong, st3) \<Rightarrow>
       bindA (forget_now env) (\<lambda>_ st4.
       case noting CHECK_LABEL (in_repo (restic_check (vb_restic env))) st4 of (check_wrong, st5) \<Rightarrow>
       let end = res\<lparr>rr_failed := rr_failed res @ state_wrong @ check_wrong\<rparr>
       in bindA (record_run env reason everything end) (\<lambda>_. ret end) st5) st3) = (Inr res', st')"
    by (auto simp: run_finish_def bindA_result)
  obtain xs st3 where 3: "(if everything then noting STATE_LABEL (backup_state env reason) st2 else ([], st2)) = (xs, st3)"
    by (cases "if everything then noting STATE_LABEL (backup_state env reason) st2 else ([], st2)")
  from rest2 obtain n st4 where 4: "forget_now env st3 = (Inr n, st4)"
    and rest4: "(case noting CHECK_LABEL (in_repo (restic_check (vb_restic env))) st4 of (check_wrong, st5) \<Rightarrow>
       let end = res\<lparr>rr_failed := rr_failed res @ xs @ check_wrong\<rparr>
       in bindA (record_run env reason everything end) (\<lambda>_. ret end) st5) = (Inr res', st')"
    unfolding 3 prod.case bindA_result by blast
  obtain ys st5 where 5: "noting CHECK_LABEL (in_repo (restic_check (vb_restic env))) st4 = (ys, st5)"
    by (cases "noting CHECK_LABEL (in_repo (restic_check (vb_restic env))) st4")
  from rest4 have 6: "record_run env reason everything res' st5 = (Inr (), st')" "res' = res\<lparr>rr_failed := rr_failed res @ xs @ ys\<rparr>"
    by (auto simp: 5 Let_def bindA_result)
  have "same_done st st2" using keepsD [OF keeps_whenA [OF record_done same_done_order(1)] 2] .
  moreover have "same_done st2 st3"
  proof (cases everything)
    case True
    with 3 have "noting STATE_LABEL (backup_state env reason) st2 = (xs, st3)" by simp
    from noting_E(2) [OF this state_done] show ?thesis .
  qed (use 3 in \<open>simp add: same_done_def\<close>)
  moreover have "same_done st3 st4" using keepsD [OF forget_done 4] .
  moreover have "same_done st4 st5" using noting_E(2) [OF 5] same_done_same [OF same_world_steps(1)] by blast
  moreover have "same_done st5 st'" using keepsD [OF record_done 6(1)] .
  ultimately have "same_done st st'" by (metis transp_done)
  moreover have "fst ` set xs \<subseteq> {STATE_LABEL}" using 3 noting_E(1) by (cases everything) fastforce+
  moreover note noting_E(1) [OF 5] record_run_records [OF 6(1)]
  ultimately show ?thesis using 6(2) by (intro exI [of _ "xs @ ys"]) auto
qed

lemma run_apps_stay: "run_apps env apps st = (Inr todo, st') \<Longrightarrow> st' = st \<and> run_apps env apps st = (Inr todo, st)"
  by (auto simp: run_apps_def)

text \<open>C23: a backup run accounts for every app it was to back up, one that fails not ending it: each is among the backed
  up or among the failed, and the result is what kelso's database is left with as the last run. An app that
  did not fail has as its last action what it had before the run, or that it was started: a run leaves none of them
  stopped on purpose. What is not an app of the run is not touched.\<close>

theorem run_accounts_for_every_app:
  assumes "run_backups env reason apps (bx, q) = (Inr res, (bx', q'))"
  shows "\<exists>todo wrong more.
    (case apps of Some given \<Rightarrow> todo = given
     | None \<Rightarrow> backed_up_apps (vb_disk env bx) (rx_config (box_ctx bx)) (vb_config_ids env bx) = Inr todo) \<and>
    rr_failed res = wrong @ more \<and> fst ` set more \<subseteq> {STATE_LABEL, CHECK_LABEL} \<and>
    set todo = set (rr_backed_up res) \<union> fst ` set wrong \<and>
    (\<forall>app. app \<notin> fst ` set wrong \<longrightarrow> last_done app bx' \<in> {last_done app bx, Some ''started''}) \<and>
    (\<forall>app. app \<notin> set todo \<longrightarrow> last_done app bx' = last_done app bx) \<and>
    recorded_as bx' (run_record env reason (apps = None) res)"
proof -
  from assms obtain created q0 todo where todo: "run_apps env apps (bx, q0) = (Inr todo, (bx, q0))"
    and each: "(case back_up_each env reason todo (bx, q0) of ((fine, wrong), st1) \<Rightarrow>
         run_finish env reason (apps = None)
           \<lparr>rr_run = vb_run_id env, rr_created = created, rr_backed_up = fine, rr_failed = wrong\<rparr> st1) = (Inr res, (bx', q'))"
    unfolding run_backups_def
    by (elim bindA_same [OF repository_same] bindA_same [OF refuse_second_same] bindA_same [OF create_same])
      (auto simp: bindA_result dest: run_apps_stay)
  obtain fine wrong bx1 q1 where apps: "back_up_each env reason todo (bx, q0) = ((fine, wrong), (bx1, q1))"
    by (metis prod.collapse)
  from run_finish_does [OF each [unfolded apps prod.case]] obtain more where m:
    "rr_backed_up res = fine" "rr_failed res = wrong @ more" "fst ` set more \<subseteq> {STATE_LABEL, CHECK_LABEL}"
    "\<forall>app. last_done app bx' = last_done app bx1" "recorded_as bx' (run_record env reason (apps = None) res)"
    by (auto simp: same_done_def)
  have "case apps of Some given \<Rightarrow> todo = given
     | None \<Rightarrow> backed_up_apps (vb_disk env bx) (rx_config (box_ctx bx)) (vb_config_ids env bx) = Inr todo"
    using todo by (auto simp: run_apps_def split: option.splits sum.splits)
  with back_up_each_does [OF apps] m show ?thesis
    by (intro exI [of _ todo] exI [of _ wrong] exI [of _ more]) simp
qed

section \<open>A run too long to record\<close>

text \<open>C24: what a run writes about itself is one value of kelso's database, which holds no value over 2048 characters, and the
  text of what went wrong is not shortened. A full run whose record is longer raises right there: kelso's state is
  not backed up, nothing is forgotten or checked, and the last run on record stays the one before, by which
  the schedule is still due.\<close>

theorem unrecordable_run_stops_short:
  assumes "rx_ops (box_ctx (fst st)) = json_logtab_store fromiso now"
    and "length (dumps (JObj (run_record env reason True res))) > MAX_VAL_LENGTH"
  shows "\<exists>e. run_finish env reason True res st = (Inl (StoreRaised e), st)"
proof -
  have "st_write (rx_ops (box_ctx (fst st))) (rx_db (box_ctx (fst st))) BACKUP_RUN_KEY (JObj (run_record env reason True res)) \<noteq> Inr s" for s
    using js_write_checked [of fromiso now _ BACKUP_RUN_KEY "JObj (run_record env reason True res)" s] assms
    by (auto simp: json_logtab_store_def)
  then obtain e where "record_backup_run (rx_ops (box_ctx (fst st))) (rx_db (box_ctx (fst st))) (run_record env reason True res) = Inl e"
    by (cases "st_write (rx_ops (box_ctx (fst st))) (rx_db (box_ctx (fst st))) BACKUP_RUN_KEY (JObj (run_record env reason True res))")
      (auto simp: record_backup_run_def)
  then show ?thesis
    by (simp add: run_finish_def bindA_def record_run_def)
qed

section \<open>A backup reads back\<close>

lemma update_new: "k \<notin> set (keys d) \<Longrightarrow> AList.update k v d = d @ [(k, v)]"
  by (induction d) auto

lemma dict_merge_append: "distinct (keys a @ keys b) \<Longrightarrow> dict_merge a b = a @ b"
  unfolding dict_merge_def
proof (induction b arbitrary: a)
  case (Cons x b)
  obtain k v where x: "x = (k, v)" by (cases x)
  with Cons.prems have "k \<notin> set (keys a)" by auto
  with Cons.IH [of "a @ [(k, v)]"] Cons.prems show ?case by (simp add: x update_new)
qed simp

lemma restic_tags_printed:
  assumes "distinct (keys tags)" and "\<forall>k \<in> set (keys tags). CHR ''='' \<notin> set k"
  shows "restic_tags (List.map (\<lambda>(k, v). k @ ''='' @ v) tags) = tags"
proof -
  have "List.map (\<lambda>t. case partition_on (CHR ''='') t of (k, _, v) \<Rightarrow> (k, v)) (List.map (\<lambda>(k, v). k @ ''='' @ v) tags) = tags"
    using assms(2) by (induction tags) (auto split: prod.splits)
  then have "restic_tags (List.map (\<lambda>(k, v). k @ ''='' @ v) tags) = dict_merge [] tags"
    unfolding restic_tags_def by (rule arg_cong)
  also have "\<dots> = tags" using assms(1) dict_merge_append [of "[]" tags] by simp
  finally show ?thesis .
qed

text \<open>A snapshot as restic lists it that was taken with the tags of an app's backup.\<close>

definition taken :: "(string, string) dict \<Rightarrow> string \<Rightarrow> string \<times> string \<times> int \<Rightarrow> snapshot" where
  "taken tags part = (\<lambda>(i, time, size). \<lparr>sn_id = i, sn_time = time,
     sn_tags = restic_tags (List.map (\<lambda>(k, v). k @ ''='' @ v) (tags @ [(''part'', part)])), sn_size = size\<rparr>)"

lemma taken_eq:
  "taken (backup_tags kid app version reason run) part (i, time, n) = \<lparr>sn_id = i, sn_time = time,
     sn_tags = [(''kelso_id'', kid), (''app'', app), (''version'', version), (''reason'', reason), (''run'', run), (''part'', part)],
     sn_size = n\<rparr>"
proof -
  let ?t = "[(''kelso_id'', kid), (''app'', app), (''version'', version), (''reason'', reason), (''run'', run), (''part'', part)]"
  have "restic_tags (List.map (\<lambda>(k, v). k @ ''='' @ v) ?t) = ?t"
    by (rule restic_tags_printed) simp_all
  moreover have "backup_tags kid app version reason run @ [(''part'', part)] = ?t" by (simp add: backup_tags_def)
  ultimately show ?thesis unfolding taken_def by (simp only: prod.case)
qed


text \<open>A backup of an app that is not up changes nothing but kelso's own store.\<close>

lemma running_now_count:
  "running_now env app w = length (List.filter us_running (do_containers (re_docker env) (wd_docker w) app))"
  by (simp add: running_now_def run_state_of_def Let_def rs_running_count_def)

lemma only_db_docker: "only_db w w' \<Longrightarrow> wd_docker w' = wd_docker w"
  by (auto simp: only_db_def)

lemma idle_backup_db:
  assumes "backup_app env app reason run (w, q) = (r, st')" and "running_now (be_run env) app w = 0"
  shows "only_db w (fst st')"
proof -
  have idle: "\<not> was_running env app w0" if "only_db w w0" for w0
    using assms(2) only_db_docker [OF that] by (simp add: was_running_def running_now_count)
  from assms(1) show ?thesis
  proof (cases rule: backup_app_stages)
    case (early w0 e)
    then show ?thesis by simp
  next
    case (stop_raised w0 q0 e)
    from stop_raised(2) show ?thesis
      by (cases rule: stop_to_read_E) (use stop_raised(1) idle [OF stop_raised(1)] in auto)
  next
    case (read w0 q0 tags running st1 d st2)
    from read(2) show ?thesis
    proof (cases rule: stop_to_read_E)
      case not_run
      with read(3) have "fst st2 = w0"
        by (cases rule: start_finally_E) (auto dest: same_worldD [OF read_data_same_world])
      with read(1,4) show ?thesis by simp
    qed (use idle [OF read(1)] in auto)
  qed
qed

section \<open>A repository that answers\<close>

text \<open>Restic with an empty repository: every listing is empty, every backup is snapshot \<open>s1\<close>, but for those of \<open>broken\<close>.\<close>

definition demo_restic :: "(string list \<Rightarrow> bool) \<Rightarrow> nat restic_env" where
  "demo_restic broken = \<lparr>rv_exec = (\<lambda>args mounts n. ((if broken args then 1 else 0, if take 1 args = [''snapshots''] then [] else ''done''), Suc n)),
     rv_has_config = (\<lambda>n. n > 0), rv_repo = ''/k/backups'', rv_cache = ''/k/var/temp/restic-cache'', rv_host = ''box'',
     rv_resolve = id,
     rv_json = (\<lambda>l. if l = ''[]'' then Some (JArr [])
                 else Some (JObj [(''message_type'', JStr ''summary''), (''snapshot_id'', JStr ''s1''), (''data_added'', JInt 10)])),
     rv_utc = (\<lambda>t. Some t)\<rparr>"

definition demo_backup_env ::
    "(string list \<Rightarrow> bool) \<Rightarrow> ((string, json) dict, string \<Rightarrow> noop_provider, string, unit_status list, nat) backup_env" where
  "demo_backup_env broken = \<lparr>be_run = demo_run_env, be_restic = demo_restic broken,
     be_disk = (\<lambda>w. \<lparr>dk_is_dir = (\<lambda>p. False), dk_is_file = (\<lambda>p. False), dk_names = (\<lambda>p. [])\<rparr>), be_free = (\<lambda>n. 100),
     be_made = ''0123abcd'', be_now = ''2026-01-01T00:00:00Z'', be_held = (\<lambda>l. False)\<rparr>"

lemma demo_mounts: "colon_path (restic_mounts (demo_restic broken) [] wr) = None"
  by (simp add: restic_mounts_def demo_restic_def colon_path_def RESTIC_REPO_def RESTIC_CACHE_def)

lemma demo_restic_run:
  "restic_run (demo_restic broken) args [] wr n =
     (if broken args then Inl (ResticFailed (Some 1)) else Inr (if take 1 args = [''snapshots''] then [] else ''done''), Suc n)"
  unfolding restic_run_def demo_mounts Let_def option.case
  by (simp add: bindA_def restic_call_def demo_restic_def LOCKED_def)

lemma demo_done: "split_lines ''done'' = [''done'']"
  by (simp add: split_lines.simps(2) is_line_break_def VT_def FF_def)


lemma demo_kelso_id:
  "\<exists>w0. kelso_id_now ''0123abcd'' (demo_world d, n) = (Inr ''0123abcd'', (w0, n)) \<and> only_db (demo_world d) w0"
proof -
  obtain st' where k: "kelso_id_now ''0123abcd'' (demo_world d, n) = (Inr ''0123abcd'', st')"
    by (simp add: kelso_id_now_def Let_def kelso_id_def demo_world_def demo_load_state_def demo_ctx_def memory_store_def KELSO_ID_KEY_def)
  from kelso_id_now_only_db [OF k] k show ?thesis by (cases st') simp
qed

lemma demo_restic_steps:
  "restic_added_by (demo_restic broken) [] n =
     (if broken [''backup'', ''--dry-run'', ''--json'', ''--host'', ''box''] then Inl (ResticFailed (Some 1)) else Inr 10, Suc n)"
  "restic_backup (demo_restic broken) [] tags n =
     (if broken (backup_args (demo_restic broken) [] tags) then Inl (ResticFailed (Some 1)) else Inr ''s1'', Suc n)"
  by (simp_all add: restic_added_by_def restic_backup_def bindA_def demo_restic_run demo_done json_int_def andthen_def backup_args_def)
    (simp_all add: demo_restic_def)

lemma demo_sources:
  "sources_of (demo_backup_env broken) app w = []"
  "bulk_of (demo_backup_env broken) app w = Inr []"
  by (simp_all add: sources_of_def bulk_of_def demo_backup_env_def app_sources_def bulk_sources_def volume_dirs_def Let_def stored_def)

lemma demo_version:
  assumes "only_db (demo_world d) w0"
  shows "app_version (demo_backup_env broken) ''org.demo'' w0 = Inr (sp_version demo_spec)"
proof -
  have "run_of w0 = run_of (demo_world d)" using assms by (auto simp: only_db_def run_of_def upd_ctx_def)
  moreover have "loaded_spec (re_load demo_run_env) ''org.demo'' (run_of (demo_world d)) = Inr (Some demo_spec)"
    using demo_loaded_spec [of d] by (auto simp: require_loaded_spec_def split: sum.splits option.splits)
  ultimately show ?thesis by (simp add: app_version_def demo_backup_env_def)
qed

lemma demo_stop_to_read:
  assumes "only_db (demo_world [demo_container]) w0"
  shows "\<exists>w1. stop demo_run_env ''org.demo'' STOPPED_ACTION w0 = (Inr (), w1) \<and>
    (\<forall>n. stop_to_read (demo_backup_env broken) ''org.demo'' (w0, n) = (Inr True, (w1, n)))"
proof -
  have w0: "is_loaded_now w0" "run_state_of demo_run_env ''org.demo'' w0 = Inr \<lparr>rs_compose_exists = True, rs_containers = [demo_container]\<rparr>"
    using assms
    by (auto simp: only_db_def is_loaded_now_def run_of_def upd_ctx_def demo_world_def demo_load_state_def run_state_of_def
        demo_run_env_def demo_docker_def demo_container_def Let_def)
  have "wd_docker w0 = [demo_container]" using assms by (auto simp: only_db_def demo_world_def)
  then obtain w1 where "stop demo_run_env ''org.demo'' STOPPED_ACTION w0 = (Inr (), w1)"
    unfolding stop_def by (simp add: bindA_def w0(2)) (simp add: demo_run_env_def demo_docker_def
        except_for_def docker_run_command_def UP_def demo_container_def bindA_def)
  with w0 show ?thesis
    by (simp add: stop_to_read_def bindA_def ask_world_def acquire_def demo_backup_env_def in_world_def rs_running_count_def
        demo_container_def us_running_def str_lower_def is_upper_def)
qed

text \<open>Reading the data fails, the app is running: it is stopped and started again.\<close>

theorem backup_starts_what_it_stopped_witness:
  "\<exists>r st' w1 t. backup_app (demo_backup_env (\<lambda>args. take 2 args = [''backup'', ''--json''])) ''org.demo'' MANUAL ''20260101-000000''
       (demo_world [demo_container], 1) = (r, st') \<and>
     (\<exists>e. r = Inl e) \<and> last_action ''org.demo'' (wd_load w1) = Some STOPPED_ACTION \<and>
     start_copy demo_run_env ''org.demo'' w1 = (t, fst st') \<and>
     (\<exists>v. only_db (demo_world [demo_container]) v \<and> (fst st' = v \<or>
        (\<exists>v1 x. stop demo_run_env ''org.demo'' STOPPED_ACTION v = (Inr (), v1) \<and> start_copy demo_run_env ''org.demo'' v1 = (x, fst st'))))"
proof -
  let ?env = "demo_backup_env (\<lambda>args. take 2 args = [''backup'', ''--json''])"
  obtain w0 where w0: "kelso_id_now ''0123abcd'' (demo_world [demo_container], 1::nat) = (Inr ''0123abcd'', (w0, 1))" "only_db (demo_world [demo_container]) w0"
    using demo_kelso_id [of "[demo_container]" "1::nat"] by (elim exE conjE) (rule that)
  obtain w1 where w1: "stop demo_run_env ''org.demo'' STOPPED_ACTION w0 = (Inr (), w1)"
      "\<And>n. stop_to_read ?env ''org.demo'' (w0, n) = (Inr True, (w1, n))"
    using demo_stop_to_read [OF w0(2), of "\<lambda>args. take 2 args = [''backup'', ''--json'']"] by blast
  obtain t w2 where t: "start_copy demo_run_env ''org.demo'' w1 = (t, w2)"
    by (cases "start_copy demo_run_env ''org.demo'' w1")
  have env: "be_made ?env = ''0123abcd''" "be_held ?env l = False" "be_run ?env = demo_run_env" "be_free ?env n = 100"
    "be_restic ?env = demo_restic (\<lambda>args. take 2 args = [''backup'', ''--json''])" for l n
    by (simp_all add: demo_backup_env_def)
  have args: "take 2 (backup_args rv sources tags) = [''backup'', ''--json'']" for rv :: "nat restic_env" and sources tags
    by (simp add: backup_args_def numeral_2_eq_2)
  let ?tags = "backup_tags ''0123abcd'' ''org.demo'' (sp_version demo_spec) MANUAL ''20260101-000000''"
  have space: "refuse_without_space ?env (dict_merge [] []) (w0, Suc 0) = (Inr (), (w0, 2))"
    by (simp add: refuse_without_space_def bindA_def in_repo_def env demo_restic_steps dict_merge_def)
  have "read_data ?env ''org.demo'' ?tags (w1, 2) = (Inl (ResticRaised (ResticFailed (Some 1))), (w1, 3))"
    by (simp add: read_data_def bindA_def ask_world_def demo_sources in_repo_def env demo_restic_steps args)
  then obtain e where restarted: "start_finally ?env ''org.demo'' True (read_data ?env ''org.demo'' ?tags) (w1, 2) = (Inl e, (w2, 3))"
    by (cases t) (simp_all add: start_finally_def bindA_def env acquire_def in_world_def t)
  have b: "backup_app ?env ''org.demo'' MANUAL ''20260101-000000'' (demo_world [demo_container], 1) = (Inl e, (w2, 3))"
    unfolding backup_app_def Let_def env(1)
    apply (rule bindA_then, rule w0(1))
    apply (rule bindA_then, simp add: ask_world_def demo_version [OF w0(2)])
    apply (rule bindA_then, simp add: acquire_def env(2))
    apply (rule bindA_then, simp add: ask_world_def demo_sources)
    apply (rule bindA_then, simp add: ask_world_def demo_sources)
    apply (rule bindA_then, rule space)
    apply (rule bindA_then, rule w1(2))
    apply (rule bindA_Inl, rule restarted)
    done
  have acts: "last_action ''org.demo'' (wd_load w1) = Some STOPPED_ACTION" by (rule stop_records [OF w1(1)])
  have "\<exists>v. only_db (demo_world [demo_container]) v \<and> (w2 = v \<or>
      (\<exists>v1 x. stop demo_run_env ''org.demo'' STOPPED_ACTION v = (Inr (), v1) \<and> start_copy demo_run_env ''org.demo'' v1 = (x, w2)))"
    using backup_starts_what_it_stopped [OF b]
  proof (elim exE conjE disjE, goal_cases)
    case (1 v)
    then show ?case by (intro exI [of _ v]) simp
  next
    case (2 v)
    obtain v1 where v1: "stop demo_run_env ''org.demo'' STOPPED_ACTION v = (Inr (), v1)"
      using demo_stop_to_read [OF 2(1), of "\<lambda>args. take 2 args = [''backup'', ''--json'']"] by blast
    obtain x v2 where v2: "start_copy demo_run_env ''org.demo'' v1 = (x, v2)"
      by (cases "start_copy demo_run_env ''org.demo'' v1")
    have "w2 = v2" using 2(3) by (cases x) (simp_all add: env v1 v2)
    with 2(1) v1 v2 show ?case by blast
  qed
  with b t acts show ?thesis by (intro exI [of _ "Inl e"] exI [of _ "(w2, 3)"] exI [of _ w1] exI [of _ t]) simp
qed

definition demo_runs_env ::
    "((string, json) dict, string \<Rightarrow> noop_provider, string, unit_status list, nat) runs_env" where
  "demo_runs_env = \<lparr>vb_app = (\<lambda>app. demo_backup_env (\<lambda>args. False)), vb_restic = demo_restic (\<lambda>args. False),
     vb_disk = (\<lambda>bx. \<lparr>dk_is_dir = (\<lambda>p. False), dk_is_file = (\<lambda>p. False), dk_names = (\<lambda>p. [])\<rparr>),
     vb_readlink = (\<lambda>p. None), vb_same_disk = False, vb_phrase = True, vb_config_ids = (\<lambda>bx. [''org.demo'']),
     vb_run_id = ''20260101-000000'', vb_made = ''0123abcd'', vb_now = ''2026-01-01T00:00:00Z'', vb_init_held = False,
     vb_state_held = False, vb_text = (\<lambda>e. ''failed'')\<rparr>"

lemma demo_idle_backup:
  "\<exists>b w0. backup_app (demo_backup_env (\<lambda>args. False)) ''org.demo'' reason run (demo_world [], n) = (Inr b, (w0, Suc (Suc n))) \<and>
     only_db (demo_world []) w0"
proof -
  let ?env = "demo_backup_env (\<lambda>args. False)"
  obtain w0 where w0: "kelso_id_now ''0123abcd'' (demo_world [], n) = (Inr ''0123abcd'', (w0, n))" "only_db (demo_world []) w0"
    using demo_kelso_id [of "[]" n] by (elim exE conjE) (rule that)
  have env: "be_made ?env = ''0123abcd''" "be_held ?env l = False" "be_run ?env = demo_run_env" "be_free ?env n = 100"
    "be_restic ?env = demo_restic (\<lambda>args. False)" for l n
    by (simp_all add: demo_backup_env_def)
  have idle: "stop_to_read ?env ''org.demo'' (w0, m) = (Inr False, (w0, m))" for m :: nat
    using w0(2)
    by (auto simp: only_db_def stop_to_read_def bindA_def ask_world_def acquire_def env in_world_def run_state_of_def demo_world_def
        demo_run_env_def demo_docker_def Let_def rs_running_count_def upd_ctx_def)
  have space: "refuse_without_space ?env (dict_merge [] []) (w0, n) = (Inr (), (w0, Suc n))"
    by (simp add: refuse_without_space_def bindA_def in_repo_def env demo_restic_steps dict_merge_def)
  let ?tags = "backup_tags ''0123abcd'' ''org.demo'' (sp_version demo_spec) reason run"
  have "read_data ?env ''org.demo'' ?tags (w0, Suc n) = (Inr ''s1'', (w0, Suc (Suc n)))"
    by (simp add: read_data_def bindA_def ask_world_def demo_sources in_repo_def env demo_restic_steps)
  then have data: "start_finally ?env ''org.demo'' False (read_data ?env ''org.demo'' ?tags) (w0, Suc n) = (Inr ''s1'', (w0, Suc (Suc n)))"
    by (simp add: start_finally_def)
  have "\<exists>b. backup_app ?env ''org.demo'' reason run (demo_world [], n) = (Inr b, (w0, Suc (Suc n)))"
    unfolding backup_app_def Let_def env(1)
    apply (rule exI)
    apply (rule bindA_then, rule w0(1))
    apply (rule bindA_then, simp add: ask_world_def demo_version [OF w0(2)])
    apply (rule bindA_then, simp add: acquire_def env(2))
    apply (rule bindA_then, simp add: ask_world_def demo_sources)
    apply (rule bindA_then, simp add: ask_world_def demo_sources)
    apply (rule bindA_then, rule space)
    apply (rule bindA_then, rule idle)
    apply (rule bindA_then, rule data)
    apply (simp add: read_bulk_def)
    done
  with w0(2) show ?thesis by blast
qed

lemma demo_focus: "focus ''org.demo'' (demo_box [] []) = demo_world []"
  by (simp add: focus_def demo_box_def Let_def demo_world_def run_of_def demo_load_state_def demo_ctx_def)

lemma demo_no_snapshots: "restic_snapshots (demo_restic (\<lambda>args. False)) tags n = (Inr [], Suc n)"
  by (simp add: restic_snapshots_def bindA_def demo_restic_run) (simp add: demo_restic_def andthen_def)

lemma demo_forget: "forget_expired (demo_restic (\<lambda>args. False)) keep prune (bx, n) = (Inr 0, (bx, Suc (Suc n)))"
  by (simp add: forget_expired_def bindA_def in_repo_def demo_no_snapshots listed_def backups_def doomed_def andthen_def)

theorem run_accounts_for_every_app_witness:
  "\<exists>res bx' q'. run_backups demo_runs_env MANUAL (Some [''org.demo'']) (demo_box [] [], 0) = (Inr res, (bx', q')) \<and>
     rr_backed_up res = [''org.demo''] \<and> rr_failed res = [] \<and> last_done ''org.demo'' bx' \<in> {None, Some ''started''} \<and>
     recorded_as bx' (run_record demo_runs_env MANUAL False res)"
proof -
  let ?env = demo_runs_env and ?bx = "demo_box [] []"
  have env: "vb_app ?env a = demo_backup_env (\<lambda>args. False)" "vb_restic ?env = demo_restic (\<lambda>args. False)"
    "vb_run_id ?env = ''20260101-000000''" for a
    by (simp_all add: demo_runs_env_def)
  obtain b w0 where b: "backup_app (demo_backup_env (\<lambda>args. False)) ''org.demo'' MANUAL ''20260101-000000'' (demo_world [], Suc 0) =
      (Inr b, (w0, Suc (Suc (Suc 0))))" "only_db (demo_world []) w0"
    using demo_idle_backup [of MANUAL "''20260101-000000''" "Suc 0"] by (elim exE conjE) (rule that)
  let ?bx1 = "refocus ''org.demo'' w0 ?bx"
  have each: "back_up_each ?env MANUAL [''org.demo''] (?bx, Suc 0) = (([''org.demo''], []), (?bx1, 3))"
    by (simp add: at_app_def env demo_focus b(1))
  let ?res = "\<lparr>rr_run = ''20260101-000000'', rr_created = True, rr_backed_up = [''org.demo''], rr_failed = []\<rparr>"
  have ops: "rx_ops (box_ctx ?bx1) = memory_store"
    using b(2) by (auto simp: only_db_def box_ctx_def refocus_def upd_ctx_def demo_world_def demo_load_state_def demo_ctx_def)
  obtain s where s: "record_backup_run memory_store (rx_db (box_ctx ?bx1)) (run_record ?env MANUAL False ?res) = Inr s"
    by (simp add: record_backup_run_def memory_store_def run_record_def json_field_def)
  have fin: "run_finish ?env MANUAL False ?res (?bx1, 3) = (Inr ?res, (box_db (\<lambda>_. s) ?bx1, 6))"
    by (simp add: run_finish_def bindA_def forget_now_def env demo_forget noting_def in_repo_def restic_check_def demo_restic_run
        record_run_def ops s)
  have has: "rv_has_config (demo_restic broken) n \<longleftrightarrow> n > 0" for broken n by (simp add: demo_restic_def)
  have held: "vb_init_held ?env = False" by (simp add: demo_runs_env_def)
  have 1: "repository ?env (?bx, 0) = (Inr (), (?bx, 0))"
    by (simp add: repository_def repository_opens_def demo_runs_env_def destination_problem_def Let_def)
  have 2: "refuse_same_second (vb_restic ?env) (vb_run_id ?env) None (?bx, 0) = (Inr (), (?bx, 0))"
    by (simp add: refuse_same_second_def bindA_def env has)
  have 3: "create_repository ?env (?bx, 0) = (Inr True, (?bx, Suc 0))"
    by (simp add: create_repository_def bindA_def in_repo_def restic_init_def env demo_restic_run acquire_def held has)
  have r: "run_backups ?env MANUAL (Some [''org.demo'']) (?bx, 0) = (Inr ?res, (box_db (\<lambda>_. s) ?bx1, 6))"
    unfolding run_backups_def
    apply (rule bindA_then, rule 1)
    apply (rule bindA_then, rule 2)
    apply (rule bindA_then, rule 3)
    apply (rule bindA_then, simp add: run_apps_def)
    apply (simp add: each env(3) fin del: back_up_each.simps)
    done
  have "last_done ''org.demo'' ?bx = None" by (simp add: last_done_def demo_box_def last_action_def)
  with run_accounts_for_every_app [OF r] r show ?thesis
    by (intro exI [of _ ?res]) (auto dest!: spec [of _ "''org.demo''"])
qed

section \<open>A machine whose stores are logtabs\<close>

text \<open>One app's backup failed with three thousand characters of standard error.\<close>

definition logtab_ctx :: "json_store run_ctx" where
  "logtab_ctx = \<lparr>rx_config = demo_machine, rx_ops = json_logtab_store demo_clock demo_now, rx_crypto = noop_engine,
     rx_app = demo_store, rx_db = demo_store,
     rx_fs = \<lparr>fs_exists = (\<lambda>p. True), fs_is_mount = (\<lambda>p. True), fs_dangling = (\<lambda>p. None)\<rparr>\<rparr>"

definition logtab_box :: "(json_store, string \<Rightarrow> noop_provider, string, unit_status list) box" where
  "logtab_box = \<lparr>bx_ids = [''org.demo''], bx_app = (\<lambda>app. demo_store), bx_run = (\<lambda>app. run_of (demo_world [])),
     bx_world = \<lparr>wd_load = \<lparr>ld_ctx = logtab_ctx, ld_nonce = 0, ld_run = run_of (demo_world []), ld_providers = demo_providers,
       ld_actions = []\<rparr>, wd_docker = []\<rparr>\<rparr>"

definition logtab_runs_env :: "(json_store, string \<Rightarrow> noop_provider, string, unit_status list, nat) runs_env" where
  "logtab_runs_env = \<lparr>vb_app = (\<lambda>app.
       \<lparr>be_run = \<lparr>re_load = re_load demo_run_env, re_docker = demo_docker, re_traced = (\<lambda>c. True), re_config_exists = (\<lambda>c. True),
          re_has_data = (\<lambda>c. True), re_pending = (\<lambda>c. Inr \<lparr>pc_config = False, pc_routes = False\<rparr>), re_yaml = (\<lambda>j. []),
          re_now = ''2026-01-01T00:00:00Z''\<rparr>,
        be_restic = demo_restic (\<lambda>args. True),
        be_disk = (\<lambda>w. \<lparr>dk_is_dir = (\<lambda>p. False), dk_is_file = (\<lambda>p. False), dk_names = (\<lambda>p. [])\<rparr>), be_free = (\<lambda>n. 100),
        be_made = ''0123abcd'', be_now = ''2026-01-01T00:00:00Z'', be_held = (\<lambda>l. False)\<rparr>),
     vb_restic = demo_restic (\<lambda>args. True),
     vb_disk = (\<lambda>bx. \<lparr>dk_is_dir = (\<lambda>p. False), dk_is_file = (\<lambda>p. False), dk_names = (\<lambda>p. [])\<rparr>),
     vb_readlink = (\<lambda>p. None), vb_same_disk = False, vb_phrase = True, vb_config_ids = (\<lambda>bx. [''org.demo'']),
     vb_run_id = ''20260101-000000'', vb_made = ''0123abcd'', vb_now = ''2026-01-01T00:00:00Z'', vb_init_held = False,
     vb_state_held = False, vb_text = (\<lambda>e. replicate 3000 (CHR ''x''))\<rparr>"

lemma length_esc_char: "1 \<le> length (esc_char c)"
  by (simp add: esc_char_def Let_def split: option.split)

lemma length_json_string: "length s \<le> length (json_string s)"
proof (induction s)
  case (Cons c s)
  with length_esc_char [of c] show ?case by (simp add: json_string_def)
qed simp

lemma length_join: "x \<in> set xs \<Longrightarrow> length x \<le> length (join sep xs)"
  by (induction sep xs rule: join.induct) auto

lemma length_dumps_arr: "v \<in> set vs \<Longrightarrow> length (dumps v) \<le> length (dumps (JArr vs))"
  using length_join [of "dumps v" "List.map dumps vs" "'',''"] by simp

lemma length_dumps_obj: "(k, v) \<in> set ms \<Longrightarrow> length (dumps v) \<le> length (dumps (JObj ms))"
proof -
  assume "(k, v) \<in> set ms"
  then have "json_string k @ '':'' @ dumps v \<in> set (List.map (\<lambda>(k, v). json_string k @ '':'' @ dumps v) ms)" by force
  from length_join [OF this, of "'',''"] show ?thesis by simp
qed

theorem unrecordable_run_stops_short_witness:
  "\<exists>e. run_finish logtab_runs_env SCHEDULED True
       \<lparr>rr_run = ''20260101-000000'', rr_created = False, rr_backed_up = [], rr_failed = [(''org.demo'', ResticRaised (ResticFailed (Some 1)))]\<rparr>
       (logtab_box, 3) = (Inl (StoreRaised e), (logtab_box, 3))"
proof (rule unrecordable_run_stops_short)
  let ?res = "\<lparr>rr_run = ''20260101-000000'', rr_created = False, rr_backed_up = [],
    rr_failed = [(''org.demo'', ResticRaised (ResticFailed (Some 1)))]\<rparr>"
  let ?text = "''org.demo: '' @ replicate 3000 (CHR ''x'')"
  let ?failed = "JArr [JStr ?text]"
  show "rx_ops (box_ctx (fst (logtab_box, 3 :: nat))) = json_logtab_store demo_clock demo_now"
    by (simp add: box_ctx_def logtab_box_def logtab_ctx_def)
  have "(''failed'', ?failed) \<in> set (run_record logtab_runs_env SCHEDULED True ?res)"
    by (simp add: run_record_def logtab_runs_env_def)
  from length_dumps_obj [OF this] length_dumps_arr [of "JStr ?text" "[JStr ?text]"] length_json_string [of ?text]
  have "length ?text \<le> length (dumps (JObj (run_record logtab_runs_env SCHEDULED True ?res)))"
    by simp
  then show "MAX_VAL_LENGTH < length (dumps (JObj (run_record logtab_runs_env SCHEDULED True ?res)))"
    by (simp add: MAX_VAL_LENGTH_def)
qed



end
