(* ===== verification/Removal.thy ===== *)
theory Removal
  imports Jobs Snapshots
begin

text \<open>
  \<^verbatim>\<open>kelso/lib/lifecycle/rm.py\<close>: planning a removal and carrying it out, in the five modes of \<^verbatim>\<open>jobs/remove.py\<close>.
  The volume files of an app are root's, so a throwaway container deletes them (\<^verbatim>\<open>rootfs.py\<close>): it
  sees the paths it is given and no others, and may fail with part of its work done.
\<close>

section \<open>What an app has on disk\<close>

text \<open>
  Besides its run directory: whether its config file is there, and per kind of volume its directory, if
  there is one, with the volumes in it and what each holds.
\<close>

record ('s, 'w, 'b, 'd, 'c) holdings =
  pr_world :: "('s, 'w, 'b, 'd) world"
  pr_config :: bool
  pr_volumes :: "string \<Rightarrow> (string, 'c list) dict option"

datatype removal_error =
    RemovalRun run_error
  | RemovalStore store_error
  | RunningApp nat
  | RootFailed

text \<open>\<open>rm_root\<close>: what a container that fails leaves of the volumes it was given; \<open>None\<close> if it does not.\<close>

record ('s, 'w, 'b, 'd, 'c) rm_env =
  rm_run :: "('s, 'w, 'b, 'd) run_env"
  rm_root :: "(string \<Rightarrow> (string, 'c list) dict option) \<Rightarrow> (string \<Rightarrow> (string, 'c list) dict option) option"

section \<open>The plan\<close>

definition TEMP_KINDS :: "string list" where "TEMP_KINDS = [''temp'', ''logs'']"
definition ALL_KINDS :: "string list" where "ALL_KINDS = [''data'', ''bulk'', ''temp'', ''logs'']"

fun mode_kinds :: "removal_mode \<Rightarrow> string list" where
  "mode_kinds Unload = []"
| "mode_kinds Remove = TEMP_KINDS"
| "mode_kinds ClearTemp = TEMP_KINDS"
| "mode_kinds _ = ALL_KINDS"

fun mode_unloads :: "removal_mode \<Rightarrow> bool" where
  "mode_unloads mode \<longleftrightarrow> mode \<in> {Unload, Remove, Purge}"

fun mode_empties :: "removal_mode \<Rightarrow> bool" where
  "mode_empties mode \<longleftrightarrow> mode \<in> {ClearTemp, ClearData}"

fun mode_action :: "removal_mode \<Rightarrow> string" where
  "mode_action Unload = ''unloaded''"
| "mode_action Remove = ''removed''"
| "mode_action ClearTemp = ''cleared-temp''"
| "mode_action ClearData = ''cleared-data''"
| "mode_action Purge = ''purged''"

record removal_plan =
  rp_app :: string
  rp_mode :: removal_mode
  rp_run :: bool
  rp_config :: bool
  rp_kinds :: "string list"
  rp_hosts :: "string list"
  rp_stop_first :: bool

definition bound_hosts :: "'s run_ctx \<Rightarrow> store_error + string list" where
  "bound_hosts ctx =
     andthen (list_binds (rx_ops ctx) (rx_app ctx)) (\<lambda>binds.
       Inr (List.map_filter (\<lambda>(name, tag). map_option hv_path (map_of (cfg_host_volumes (rx_config ctx)) tag)) binds))"

definition removal_plan ::
    "('s, 'w, 'b, 'd, 'c) rm_env \<Rightarrow> string \<Rightarrow> removal_mode \<Rightarrow> ('s, 'w, 'b, 'd, 'c) holdings \<Rightarrow> removal_error + removal_plan" where
  "removal_plan env app mode pr =
     (case run_state_of (rm_run env) app (pr_world pr) of
        Inl e \<Rightarrow> Inl (RemovalRun e)
      | Inr s \<Rightarrow>
          if rs_containers s \<noteq> [] \<and> \<not> rs_compose_exists s
          then Inl (RemovalRun (OrphanContainers (List.map us_container_id (rs_containers s))))
          else if mode \<noteq> Unload \<and> rs_running_count s > 0 then Inl (RunningApp (rs_running_count s))
          else (case (if pr_config pr then bound_hosts (ld_ctx (wd_load (pr_world pr))) else Inr []) of
                  Inl e \<Rightarrow> Inl (RemovalStore e)
                | Inr hosts \<Rightarrow> Inr
                    \<lparr>rp_app = app, rp_mode = mode, rp_run = mode_unloads mode, rp_config = (mode = Purge \<and> pr_config pr),
                     rp_kinds = List.filter (\<lambda>k. pr_volumes pr k \<noteq> None) (mode_kinds mode), rp_hosts = hosts,
                     rp_stop_first = (mode_unloads mode \<and> rs_compose_exists s \<and> rs_containers s \<noteq> [])\<rparr>))"

section \<open>Carrying it out\<close>

type_synonym ('s, 'w, 'b, 'd, 'c) removal_act = "(('s, 'w, 'b, 'd, 'c) holdings, removal_error, unit) act"

definition on_world :: "(('s, 'w, 'b, 'd) world, run_error, unit) act \<Rightarrow> ('s, 'w, 'b, 'd, 'c) removal_act" where
  "on_world m pr =
     (case m (pr_world pr) of (r, w) \<Rightarrow>
        (case r of Inl e \<Rightarrow> Inl (RemovalRun e) | Inr u \<Rightarrow> Inr u, pr\<lparr>pr_world := w\<rparr>))"

definition world_upd :: "(('s, 'w, 'b) load_state \<Rightarrow> ('s, 'w, 'b) load_state) \<Rightarrow> ('s, 'w, 'b, 'd, 'c) removal_act" where
  "world_upd f = on_world (update (\<lambda>w. w\<lparr>wd_load := f (wd_load w)\<rparr>))"

definition no_run_dir :: "'b run_dir" where
  "no_run_dir = \<lparr>rn_exists = False, rn_incoming = None, rn_outgoing = None, rn_bundle = None, rn_links = [], rn_kelso = [],
     rn_compose = None\<rparr>"

text \<open>A script over the volumes of some kinds, and what there is of the others.\<close>

definition run_as_root ::
    "('s, 'w, 'b, 'd, 'c) rm_env \<Rightarrow> string list \<Rightarrow> ((string, 'c list) dict option \<Rightarrow> (string, 'c list) dict option)
       \<Rightarrow> ('s, 'w, 'b, 'd, 'c) removal_act" where
  "run_as_root env kinds script pr =
     (let v = pr_volumes pr; seen = (\<lambda>k. if k \<in> set kinds then v k else None); within = (\<lambda>v'. \<lambda>k. if k \<in> set kinds then v' k else v k)
      in case rm_root env seen of
           Some v' \<Rightarrow> (Inl RootFailed, pr\<lparr>pr_volumes := within v'\<rparr>)
         | None \<Rightarrow> (Inr (), pr\<lparr>pr_volumes := within (script \<circ> v)\<rparr>))"

definition remove_volumes :: "('s, 'w, 'b, 'd, 'c) rm_env \<Rightarrow> string list \<Rightarrow> ('s, 'w, 'b, 'd, 'c) removal_act" where
  "remove_volumes env kinds pr =
     (let existing = List.filter (\<lambda>k. pr_volumes pr k \<noteq> None) kinds
      in if existing = [] then ret () pr else run_as_root env existing (\<lambda>d. None) pr)"

definition empty_volumes :: "('s, 'w, 'b, 'd, 'c) rm_env \<Rightarrow> string list \<Rightarrow> ('s, 'w, 'b, 'd, 'c) removal_act" where
  "empty_volumes env kinds pr =
     (let holding = List.filter (\<lambda>k. pr_volumes pr k \<notin> {None, Some []}) kinds
      in if holding = [] then ret () pr
         else run_as_root env holding (map_option (List.map (\<lambda>(name, files). (name, [])))) pr)"

definition purge_records :: "string \<Rightarrow> ('s, 'w, 'b, 'd, 'c) removal_act" where
  "purge_records app pr =
     (let w = pr_world pr; ctx = ld_ctx (wd_load w)
      in case purge_app (rx_ops ctx) (rx_db ctx) app of
           Inl e \<Rightarrow> (Inl (RemovalStore e), pr)
         | Inr (had, s) \<Rightarrow> (Inr (), pr\<lparr>pr_world := w\<lparr>wd_load := upd_ctx (rx_db_update (\<lambda>_. s)) (wd_load w)\<rparr>\<rparr>))"

definition rm :: "('s, 'w, 'b, 'd, 'c) rm_env \<Rightarrow> removal_plan \<Rightarrow> ('s, 'w, 'b, 'd, 'c) removal_act" where
  "rm env plan =
     (let app = rp_app plan; load_env = re_load (rm_run env) in
      bindA (whenA (rp_stop_first plan) (on_world (stop (rm_run env) app STOPPED_ACTION))) (\<lambda>_.
      bindA (whenA (rp_run plan) (world_upd (\<lambda>st. st\<lparr>ld_providers := take_down_routes (en_ops load_env) (ld_ctx st) app (ld_providers st)\<rparr>))) (\<lambda>_.
      bindA (whenA (rp_run plan) (world_upd (on_run (\<lambda>rd. no_run_dir)))) (\<lambda>_.
      bindA (whenA (rp_config plan) (update (\<lambda>pr. pr\<lparr>pr_config := False\<rparr>))) (\<lambda>_.
      bindA (if mode_empties (rp_mode plan) then empty_volumes env (rp_kinds plan) else remove_volumes env (rp_kinds plan)) (\<lambda>_.
      bindA (whenA (rp_mode plan = Purge) (purge_records app)) (\<lambda>_.
        world_upd (record_action (mode_action (rp_mode plan)) app))))))))"

section \<open>What a removal leaves\<close>

text \<open>Stopping leaves the stores of kelso as they are.\<close>

definition same_ctx :: "('s, 'w, 'b, 'd) world \<Rightarrow> ('s, 'w, 'b, 'd) world \<Rightarrow> bool" where
  "same_ctx w w' \<longleftrightarrow> ld_ctx (wd_load w') = ld_ctx (wd_load w)"

lemma same_ctx_order: "reflp same_ctx" "transp same_ctx"
  by (auto simp: same_ctx_def intro!: reflpI transpI)

lemma same_ctx_docker: "keeps same_ctx (docker_run_command env a cmd c v t)"
  unfolding keeps_def same_ctx_def by (metis docker_run_command_frame prod.collapse)

lemma same_ctx_except:
  assumes "keeps same_ctx m"
  shows "keeps same_ctx (except_for P m (recorded verb app))"
  using assms unfolding keeps_def same_ctx_def except_for_def recorded_def record_action_def
  by (auto split: prod.split sum.split) (metis snd_conv)+

lemma same_ctx_stop: "keeps same_ctx (stop env app action)"
  unfolding stop_def
  by (intro keeps_bindA [OF _ _ same_ctx_order(2)] keeps_askA [OF same_ctx_order(1)] keeps_if same_ctx_except same_ctx_docker)
    (simp_all add: keeps_def same_ctx_def on_run_def recorded_def record_action_def)

lemma on_world_E:
  assumes "on_world m pr = (r, pr')"
  obtains s w where "m (pr_world pr) = (s, w)" "pr' = pr\<lparr>pr_world := w\<rparr>" "r = Inr () \<longleftrightarrow> s = Inr ()"
  using assms by (auto simp: on_world_def split: prod.splits sum.splits)

lemma world_upd_simp [simp]: "world_upd f pr = (Inr (), pr\<lparr>pr_world := (pr_world pr)\<lparr>wd_load := f (wd_load (pr_world pr))\<rparr>\<rparr>)"
  by (simp add: world_upd_def on_world_def)

text \<open>The world of kelso may change; the volumes, the config file and the stores do not.\<close>

definition keeps_holdings :: "('s, 'w, 'b, 'd, 'c) holdings \<Rightarrow> ('s, 'w, 'b, 'd, 'c) holdings \<Rightarrow> bool" where
  "keeps_holdings pr pr' \<longleftrightarrow> pr_volumes pr' = pr_volumes pr \<and> pr_config pr' = pr_config pr \<and> same_ctx (pr_world pr) (pr_world pr')"

text \<open>Up to the volumes: what a removal has done once the loaded copy is gone.\<close>

definition unload_part :: "('s, 'w, 'b, 'd, 'c) rm_env \<Rightarrow> removal_plan \<Rightarrow> ('s, 'w, 'b, 'd, 'c) removal_act" where
  "unload_part env plan =
     bindA (whenA (rp_stop_first plan) (on_world (stop (rm_run env) (rp_app plan) STOPPED_ACTION))) (\<lambda>_.
     bindA (whenA (rp_run plan) (world_upd (\<lambda>st. st\<lparr>ld_providers :=
        take_down_routes (en_ops (re_load (rm_run env))) (ld_ctx st) (rp_app plan) (ld_providers st)\<rparr>))) (\<lambda>_.
       whenA (rp_run plan) (world_upd (on_run (\<lambda>rd. no_run_dir)))))"

definition volume_part :: "('s, 'w, 'b, 'd, 'c) rm_env \<Rightarrow> removal_plan \<Rightarrow> ('s, 'w, 'b, 'd, 'c) removal_act" where
  "volume_part env plan =
     (if mode_empties (rp_mode plan) then empty_volumes env (rp_kinds plan) else remove_volumes env (rp_kinds plan))"

lemma rm_parts: "rm env plan =
     bindA (unload_part env plan) (\<lambda>_.
     bindA (whenA (rp_config plan) (update (\<lambda>pr. pr\<lparr>pr_config := False\<rparr>))) (\<lambda>_.
     bindA (volume_part env plan) (\<lambda>_.
     bindA (whenA (rp_mode plan = Purge) (purge_records (rp_app plan))) (\<lambda>_.
       world_upd (record_action (mode_action (rp_mode plan)) (rp_app plan))))))"
  by (simp add: rm_def unload_part_def volume_part_def bindA_assoc Let_def)

lemma unload_part_does:
  assumes "unload_part env plan pr = (r, pr')"
  shows "keeps_holdings pr pr'"
    and "r = Inr () \<Longrightarrow> rp_run plan \<Longrightarrow> run_of (pr_world pr') = no_run_dir"
    and "\<not> rp_run plan \<Longrightarrow> \<not> rp_stop_first plan \<Longrightarrow> pr' = pr"
proof -
  from assms have "keeps_holdings pr pr' \<and> (r = Inr () \<longrightarrow> rp_run plan \<longrightarrow> run_of (pr_world pr') = no_run_dir)"
    unfolding unload_part_def
  proof (cases rule: bindA_E)
    case (raised e)
    then show ?thesis
      by (cases "rp_stop_first plan")
        (auto elim!: on_world_E simp: keeps_holdings_def dest: keepsD [OF same_ctx_stop])
  next
    case (went_on u pr1)
    then have "keeps_holdings pr pr1"
      by (cases "rp_stop_first plan")
        (auto elim!: on_world_E simp: keeps_holdings_def same_ctx_def dest: keepsD [OF same_ctx_stop])
    with went_on(2) show ?thesis
      by (cases "rp_run plan") (auto simp: bindA_def keeps_holdings_def same_ctx_def run_of_def on_run_def)
  qed
  then show "keeps_holdings pr pr'" "r = Inr () \<Longrightarrow> rp_run plan \<Longrightarrow> run_of (pr_world pr') = no_run_dir" by blast+
  show "\<not> rp_run plan \<Longrightarrow> \<not> rp_stop_first plan \<Longrightarrow> pr' = pr"
    using assms by (simp add: unload_part_def bindA_def)
qed

lemma run_as_root_does:
  assumes "run_as_root env kinds script pr = (r, pr')"
  shows "pr' = pr\<lparr>pr_volumes := pr_volumes pr'\<rparr> \<and> (\<forall>k. k \<notin> set kinds \<longrightarrow> pr_volumes pr' k = pr_volumes pr k) \<and>
    (r = Inr () \<longrightarrow> (\<forall>k \<in> set kinds. pr_volumes pr' k = script (pr_volumes pr k)))"
  using assms by (auto simp: run_as_root_def Let_def split: option.splits)

lemma volume_part_does:
  assumes "volume_part env plan pr = (r, pr')"
  shows "pr' = pr\<lparr>pr_volumes := pr_volumes pr'\<rparr> \<and> (\<forall>k. k \<notin> set (rp_kinds plan) \<longrightarrow> pr_volumes pr' k = pr_volumes pr k) \<and>
    (r = Inr () \<longrightarrow> (\<forall>k \<in> set (rp_kinds plan). pr_volumes pr' k =
       (if mode_empties (rp_mode plan) then map_option (List.map (\<lambda>(name, files). (name, []))) (pr_volumes pr k) else None)))"
proof (cases "mode_empties (rp_mode plan)")
  case True
  let ?holding = "List.filter (\<lambda>k. pr_volumes pr k \<notin> {None, Some []}) (rp_kinds plan)"
  have stays: "map_option (List.map (\<lambda>(name, files). (name, []))) (pr_volumes pr k) = pr_volumes pr k"
    if "k \<in> set (rp_kinds plan)" "k \<notin> set ?holding" for k
    using that by auto
  from assms True have "empty_volumes env (rp_kinds plan) pr = (r, pr')" by (simp add: volume_part_def)
  then show ?thesis
  proof (cases "?holding = []")
    case none: True
    with \<open>empty_volumes env (rp_kinds plan) pr = (r, pr')\<close> have "r = Inr ()" "pr' = pr" by (simp_all add: empty_volumes_def)
    moreover have "\<forall>k \<in> set (rp_kinds plan). map_option (List.map (\<lambda>(name, files). (name, []))) (pr_volumes pr k) = pr_volumes pr k"
    proof
      fix k assume "k \<in> set (rp_kinds plan)"
      moreover have "k \<notin> set ?holding" by (simp only: none) simp
      ultimately show "map_option (List.map (\<lambda>(name, files). (name, []))) (pr_volumes pr k) = pr_volumes pr k" using stays [of k] by blast
    qed
    ultimately show ?thesis using True by simp
  next
    case False
    with \<open>empty_volumes env (rp_kinds plan) pr = (r, pr')\<close>
    have "run_as_root env ?holding (map_option (List.map (\<lambda>(name, files). (name, [])))) pr = (r, pr')"
      by (simp add: empty_volumes_def)
    note does = run_as_root_does [OF this]
    have "pr_volumes pr' k = map_option (List.map (\<lambda>(name, files). (name, []))) (pr_volumes pr k)"
      if "k \<in> set (rp_kinds plan)" "r = Inr ()" for k
      using does stays [of k] that by (cases "k \<in> set ?holding") auto
    with does True show ?thesis by auto
  qed
next
  case False
  let ?existing = "List.filter (\<lambda>k. pr_volumes pr k \<noteq> None) (rp_kinds plan)"
  from assms False have rem: "remove_volumes env (rp_kinds plan) pr = (r, pr')" by (simp add: volume_part_def)
  show ?thesis
  proof (cases "?existing = []")
    case none: True
    with rem have "r = Inr ()" "pr' = pr" by (simp_all add: remove_volumes_def)
    with none False show ?thesis by (auto simp: filter_empty_conv)
  next
    case some: False
    with rem have "run_as_root env ?existing (\<lambda>d. None) pr = (r, pr')" by (simp add: remove_volumes_def)
    note does = run_as_root_does [OF this]
    have "pr_volumes pr' k = None" if "k \<in> set (rp_kinds plan)" "r = Inr ()" for k
      using does that by (cases "pr_volumes pr k = None") auto
    with does False show ?thesis by auto
  qed
qed

lemma rm_returns:
  assumes "rm env plan pr = (Inr u, pr')"
  obtains pr1 pr3 pr4 where "unload_part env plan pr = (Inr (), pr1)"
    "volume_part env plan (if rp_config plan then pr1\<lparr>pr_config := False\<rparr> else pr1) = (Inr (), pr3)"
    "whenA (rp_mode plan = Purge) (purge_records (rp_app plan)) pr3 = (Inr (), pr4)"
    "pr' = pr4\<lparr>pr_world := (pr_world pr4)\<lparr>wd_load := record_action (mode_action (rp_mode plan)) (rp_app plan) (wd_load (pr_world pr4))\<rparr>\<rparr>"
  using assms unfolding rm_parts
proof (cases rule: bindA_E)
  case one: (went_on x1 pr1)
  from one(2) show ?thesis
  proof (cases rule: bindA_E)
    case two: (went_on x2 pr2)
    then have pr2: "pr2 = (if rp_config plan then pr1\<lparr>pr_config := False\<rparr> else pr1)" by (cases "rp_config plan") simp_all
    from two(2) show ?thesis
    proof (cases rule: bindA_E)
      case three: (went_on x3 pr3)
      from three(2) show ?thesis
      proof (cases rule: bindA_E)
        case four: (went_on x4 pr4)
        from that [of pr1 pr3 pr4] one(1) three(1) four pr2 show ?thesis by simp
      qed simp
    qed simp
  qed simp
qed simp


text \<open>C27: a removal that stops half way has gone no further than its mode reaches: data and bulk volumes are touched when they
  were asked for, the config, the secrets and kelso's record of the routes in a purge only, and nothing but an
  unload is begun on an app that runs. But a purge deletes the config first: one whose container fails leaves
  volumes without the config they were made with.\<close>

theorem removal_reaches_no_further:
  assumes "removal_plan env app mode pr = Inr plan" and "rm env plan pr = (r, pr')"
  shows "(\<forall>kind. kind \<notin> set (mode_kinds mode) \<longrightarrow> pr_volumes pr' kind = pr_volumes pr kind) \<and>
    (mode \<noteq> Purge \<longrightarrow> pr_config pr' = pr_config pr \<and> same_ctx (pr_world pr) (pr_world pr')) \<and>
    (mode \<noteq> Unload \<longrightarrow> running_now (rm_run env) app (pr_world pr) = 0) \<and>
    (mode = Purge \<longrightarrow> r = Inl RootFailed \<longrightarrow> \<not> pr_config pr')"
proof -
  from assms(1) have plan: "rp_app plan = app" "rp_mode plan = mode" "rp_run plan = mode_unloads mode"
    "rp_config plan = (mode = Purge \<and> pr_config pr)" "set (rp_kinds plan) \<subseteq> set (mode_kinds mode)"
    and idle: "mode \<noteq> Unload \<longrightarrow> running_now (rm_run env) app (pr_world pr) = 0"
    by (auto simp: removal_plan_def running_now_def split: sum.splits if_splits)
  define kept where "kept pr1 \<longleftrightarrow> (\<forall>kind. kind \<notin> set (mode_kinds mode) \<longrightarrow> pr_volumes pr1 kind = pr_volumes pr kind) \<and>
    (mode \<noteq> Purge \<longrightarrow> pr_config pr1 = pr_config pr \<and> same_ctx (pr_world pr) (pr_world pr1))"
    for pr1 :: "('a, 'b, 'c, 'd, 'e) holdings"
  have "kept pr' \<and> (mode = Purge \<longrightarrow> r = Inl RootFailed \<longrightarrow> \<not> pr_config pr')"
    using assms(2) unfolding rm_parts
  proof (cases rule: bindA_E)
    case (raised e)
    from unload_part_does(1) [OF raised(1)] have "kept pr'" by (simp add: kept_def keeps_holdings_def)
    moreover have "e \<noteq> RootFailed"
      using raised(1) by (auto simp: unload_part_def bindA_def whenA_def on_world_def split: if_splits prod.splits sum.splits)
    ultimately show ?thesis using raised(2) by simp
  next
    case one: (went_on x1 pr1)
    then have k1: "keeps_holdings pr pr1" by (intro unload_part_does(1))
    from one(2) show ?thesis
    proof (cases rule: bindA_E)
      case (raised e)
      then show ?thesis by (cases "rp_config plan") simp_all
    next
      case two: (went_on x2 pr2)
      then have pr2: "pr2 = (if rp_config plan then pr1\<lparr>pr_config := False\<rparr> else pr1)" by (cases "rp_config plan") simp_all
      then have k2: "kept pr2" "mode = Purge \<longrightarrow> \<not> pr_config pr2"
        using k1 plan(4) by (auto simp: kept_def keeps_holdings_def)
      have volumes: "kept pr3 \<and> (mode = Purge \<longrightarrow> \<not> pr_config pr3)" if "volume_part env plan pr2 = (s, pr3)" for s pr3
      proof -
        from volume_part_does [OF that] obtain vs where vs: "pr3 = pr2\<lparr>pr_volumes := vs\<rparr>"
          "\<forall>k. k \<notin> set (rp_kinds plan) \<longrightarrow> vs k = pr_volumes pr2 k" by (metis holdings.select_convs(3) holdings.surjective holdings.update_convs(3))
        with k2 plan(5) show ?thesis by (auto simp: kept_def)
      qed
      from two(2) show ?thesis
      proof (cases rule: bindA_E)
        case (raised e)
        from volumes [OF raised(1)] show ?thesis by simp
      next
        case three: (went_on x3 pr3)
        have k3: "kept pr3 \<and> (mode = Purge \<longrightarrow> \<not> pr_config pr3)" by (rule volumes [OF three(1)])
        from three(2) show ?thesis
        proof (cases rule: bindA_E)
          case (raised e)
          with k3 plan(2) show ?thesis
            by (cases "mode = Purge") (auto simp: kept_def purge_records_def Let_def split: sum.splits)
        next
          case four: (went_on x4 pr4)
          with k3 plan(1,2) show ?thesis
            by (cases "mode = Purge")
              (auto simp: kept_def purge_records_def Let_def same_ctx_def record_action_def split: sum.splits)
        qed
      qed
    qed
  qed
  with idle show ?thesis by (simp add: kept_def)
qed

section \<open>An app with a database and a cache\<close>

definition demo_rm_env :: "bool \<Rightarrow> ((string, json) dict, string \<Rightarrow> noop_provider, string, unit_status list, string) rm_env" where
  "demo_rm_env broken = \<lparr>rm_run = demo_run_env, rm_root = (\<lambda>seen. if broken then Some seen else None)\<rparr>"

definition demo_holdings :: "((string, json) dict, string \<Rightarrow> noop_provider, string, unit_status list, string) holdings" where
  "demo_holdings = \<lparr>pr_world = demo_world [], pr_config = True,
     pr_volumes = [''data'' \<mapsto> [(''db'', [''rows''])], ''temp'' \<mapsto> [(''cache'', [''page''])]]\<rparr>"

lemma demo_plan:
  "removal_plan (demo_rm_env broken) ''org.demo'' mode demo_holdings = Inr
     \<lparr>rp_app = ''org.demo'', rp_mode = mode, rp_run = mode_unloads mode, rp_config = (mode = Purge),
      rp_kinds = List.filter (\<lambda>k. k \<in> {''data'', ''temp''}) (mode_kinds mode), rp_hosts = [], rp_stop_first = False\<rparr>"
proof -
  have "run_state_of demo_run_env ''org.demo'' (demo_world []) = Inr \<lparr>rs_compose_exists = True, rs_containers = []\<rparr>"
    by (simp add: run_state_of_def demo_run_env_def demo_docker_def demo_world_def run_of_def demo_load_state_def Let_def)
  moreover have "bound_hosts (ld_ctx (wd_load (demo_world []))) = Inr []"
    by (simp add: bound_hosts_def list_binds_def demo_world_def demo_load_state_def demo_ctx_def memory_store_def andthen_def)
  moreover have "(pr_volumes demo_holdings k \<noteq> None) = (k \<in> {''data'', ''temp''})" for k
    by (simp add: demo_holdings_def)
  ultimately show ?thesis
    by (simp add: removal_plan_def demo_rm_env_def rs_running_count_def) (simp add: demo_holdings_def rs_running_count_def)
qed


text \<open>A purge whose container fails: the database is there, the config it was made with is not.\<close>

theorem removal_reaches_no_further_witness:
  "\<exists>plan pr'. removal_plan (demo_rm_env True) ''org.demo'' Purge demo_holdings = Inr plan \<and>
     rm (demo_rm_env True) plan demo_holdings = (Inl RootFailed, pr') \<and>
     \<not> pr_config pr' \<and> pr_volumes pr' ''data'' = Some [(''db'', [''rows''])]"
proof -
  obtain plan where p: "removal_plan (demo_rm_env True) ''org.demo'' Purge demo_holdings = Inr plan"
    using demo_plan by blast
  moreover obtain pr' where r: "rm (demo_rm_env True) plan demo_holdings = (Inl RootFailed, pr')"
      "pr_volumes pr' ''data'' = Some [(''db'', [''rows''])]"
    using p demo_plan [of True Purge]
    by (auto simp: rm_def bindA_def Let_def remove_volumes_def run_as_root_def demo_rm_env_def ALL_KINDS_def demo_holdings_def)
  moreover note removal_reaches_no_further [OF p r(1)]
  ultimately show ?thesis by auto
qed

section \<open>Volumes on disk\<close>

text \<open>
  \<^verbatim>\<open>volumes.py\<close>: every volume directory, whatever declared it, and the removal of the ones no manifest speaks for.
  \<open>specs\<close> is what \<^verbatim>\<open>loaded_spec\<close> gives for an app, \<open>runs\<close> whether an app has a running container.
\<close>

datatype volume_use = InUse | Idle | Unloaded | Orphaned | UnknownUse

record volume_on_disk =
  vd_app :: string
  vd_name :: string
  vd_kind :: string
  vd_path :: string
  vd_use :: volume_use

definition use_of :: "(string \<Rightarrow> load_error + app_spec option) \<Rightarrow> (string \<Rightarrow> bool) \<Rightarrow> (string \<Rightarrow> bool) \<Rightarrow> string \<Rightarrow> string \<Rightarrow> string \<Rightarrow> volume_use" where
  "use_of specs loaded runs app name kind =
     (case specs app of
        Inr (Some spec) \<Rightarrow>
          (case map_of (sp_volumes spec) name of
             None \<Rightarrow> Orphaned
           | Some v \<Rightarrow> if kind_name (av_kind v) \<noteq> kind then Orphaned else if runs app then InUse else Idle)
      | _ \<Rightarrow> if loaded app then UnknownUse else Unloaded)"

definition dirs_in :: "disk \<Rightarrow> string \<Rightarrow> string list" where
  "dirs_in dk root = List.filter (\<lambda>n. dk_is_dir dk (path_join root n)) (sort (dk_names dk root))"

definition volumes_of_app ::
    "disk \<Rightarrow> (string \<Rightarrow> load_error + app_spec option) \<Rightarrow> (string \<Rightarrow> bool) \<Rightarrow> (string \<Rightarrow> bool) \<Rightarrow> string \<Rightarrow> string \<Rightarrow> string
       \<Rightarrow> name_error + volume_on_disk list" where
  "volumes_of_app dk specs loaded runs kind root name =
     andthen (app_id name) (\<lambda>app.
       Inr (List.map (\<lambda>v. \<lparr>vd_app = app, vd_name = v, vd_kind = kind, vd_path = path_joins root [name, v],
                       vd_use = use_of specs loaded runs app v kind\<rparr>) (dirs_in dk (path_join root name))))"

definition volumes_on_disk ::
    "disk \<Rightarrow> config \<Rightarrow> (string \<Rightarrow> load_error + app_spec option) \<Rightarrow> (string \<Rightarrow> bool) \<Rightarrow> (string \<Rightarrow> bool)
       \<Rightarrow> name_error + volume_on_disk list" where
  "volumes_on_disk dk cfg specs loaded runs =
     andthen (traverse (\<lambda>(kind, root).
         if \<not> dk_is_dir dk root then Inr []
         else andthen (traverse (volumes_of_app dk specs loaded runs kind root) (dirs_in dk root)) (\<lambda>vs. Inr (concat vs)))
       (sort_key fst (volume_roots cfg))) (\<lambda>vs. Inr (concat vs))"

datatype orphan_error = OrphansUnread name_error | NotAnOrphan string string

text \<open>The paths a root container is told to remove, each in a container of its own.\<close>

definition remove_orphaned_volume ::
    "disk \<Rightarrow> config \<Rightarrow> (string \<Rightarrow> load_error + app_spec option) \<Rightarrow> (string \<Rightarrow> bool) \<Rightarrow> (string \<Rightarrow> bool) \<Rightarrow> string \<Rightarrow> string
       \<Rightarrow> orphan_error + string list" where
  "remove_orphaned_volume dk cfg specs loaded runs app name =
     (case volumes_on_disk dk cfg specs loaded runs of
        Inl e \<Rightarrow> Inl (OrphansUnread e)
      | Inr found \<Rightarrow>
          let orphans = List.filter (\<lambda>v. vd_app v = app \<and> vd_name v = name \<and> vd_use v = Orphaned) found
          in if orphans = [] then Inl (NotAnOrphan app name) else Inr (List.map vd_path orphans))"

lemma traverse_concat:
  "traverse f xs = Inr yss \<Longrightarrow> y \<in> set (concat yss) \<Longrightarrow> \<exists>x \<in> set xs. \<exists>ys. f x = Inr ys \<and> y \<in> set ys"
proof (induction xs arbitrary: yss)
  case (Cons x xs)
  then obtain ys yss' where e: "f x = Inr ys" "traverse f xs = Inr yss'" "yss = ys # yss'" by (auto split: sum.splits)
  show ?case
  proof (cases "y \<in> set ys")
    case False
    with Cons.prems(2) e(3) have "y \<in> set (concat yss')" by simp
    from Cons.IH [OF e(2) this] show ?thesis by auto
  qed (use e in auto)
qed simp

lemma volumes_on_disk_found:
  assumes "volumes_on_disk dk cfg specs loaded runs = Inr found" and "v \<in> set found"
  shows "\<exists>root. (vd_kind v, root) \<in> set (volume_roots cfg) \<and> vd_path v = path_joins root [vd_app v, vd_name v] \<and>
    vd_use v = use_of specs loaded runs (vd_app v) (vd_name v) (vd_kind v)"
proof -
  from assms obtain vss where t: "traverse (\<lambda>(kind, root).
         if \<not> dk_is_dir dk root then Inr []
         else andthen (traverse (volumes_of_app dk specs loaded runs kind root) (dirs_in dk root)) (\<lambda>vs. Inr (concat vs)))
       (sort_key fst (volume_roots cfg)) = Inr vss" "v \<in> set (concat vss)"
    by (auto simp: volumes_on_disk_def andthen_Inr)
  obtain kind root vs where kr: "(kind, root) \<in> set (volume_roots cfg)" "v \<in> set vs"
    "(if \<not> dk_is_dir dk root then Inr []
      else andthen (traverse (volumes_of_app dk specs loaded runs kind root) (dirs_in dk root)) (\<lambda>vs. Inr (concat vs))) = Inr vs"
    using traverse_concat [OF t] by auto
  then obtain uss where u: "traverse (volumes_of_app dk specs loaded runs kind root) (dirs_in dk root) = Inr uss" "v \<in> set (concat uss)"
    by (auto simp: andthen_Inr split: if_splits)
  obtain name us where "volumes_of_app dk specs loaded runs kind root name = Inr us" "v \<in> set us"
    using traverse_concat [OF u] by auto
  then have "vd_kind v = kind" "vd_path v = path_joins root [vd_app v, vd_name v]"
    "vd_use v = use_of specs loaded runs (vd_app v) (vd_name v) kind"
    by (auto simp: volumes_of_app_def andthen_Inr)
  with kr(1) show ?thesis by auto
qed

text \<open>C28: removing an orphaned volume deletes only volumes of that name of that app, of a kind under which the manifest the app
  is loaded with does not declare it: an app that is not loaded, or whose manifest no longer parses, loses none, and a declared
  volume is refused.\<close>

theorem only_orphans_are_removed:
  assumes "remove_orphaned_volume dk cfg specs loaded runs app name = Inr paths"
  shows "\<exists>spec. specs app = Inr (Some spec) \<and> paths \<noteq> [] \<and>
    (\<forall>path \<in> set paths. \<exists>kind root. (kind, root) \<in> set (volume_roots cfg) \<and> path = path_joins root [app, name] \<and>
       (case map_of (sp_volumes spec) name of None \<Rightarrow> True | Some v \<Rightarrow> kind_name (av_kind v) \<noteq> kind))"
proof -
  from assms obtain found where f: "volumes_on_disk dk cfg specs loaded runs = Inr found"
    and p: "paths = List.map vd_path (List.filter (\<lambda>v. vd_app v = app \<and> vd_name v = name \<and> vd_use v = Orphaned) found)" "paths \<noteq> []"
    by (auto simp: remove_orphaned_volume_def Let_def split: sum.splits if_splits)
  have orphan: "\<exists>root spec. (vd_kind v, root) \<in> set (volume_roots cfg) \<and> vd_path v = path_joins root [app, name] \<and> specs app = Inr (Some spec) \<and>
      (case map_of (sp_volumes spec) name of None \<Rightarrow> True | Some u \<Rightarrow> kind_name (av_kind u) \<noteq> vd_kind v)"
    if "v \<in> set found" "vd_app v = app" "vd_name v = name" "vd_use v = Orphaned" for v
  proof -
    from volumes_on_disk_found [OF f that(1), unfolded that(2-4)] obtain root where
      r: "(vd_kind v, root) \<in> set (volume_roots cfg)" "vd_path v = path_joins root [app, name]" "use_of specs loaded runs app name (vd_kind v) = Orphaned"
      by metis
    then obtain spec where "specs app = Inr (Some spec)" "case map_of (sp_volumes spec) name of None \<Rightarrow> True | Some u \<Rightarrow> kind_name (av_kind u) \<noteq> vd_kind v"
      by (auto simp: use_of_def split: sum.splits option.splits if_splits)
    with r show ?thesis by blast
  qed
  from p obtain v where "v \<in> set found" "vd_app v = app" "vd_name v = name" "vd_use v = Orphaned"
    by (auto simp: filter_empty_conv)
  from orphan [OF this] obtain spec where spec: "specs app = Inr (Some spec)" by blast
  have "\<exists>kind root. (kind, root) \<in> set (volume_roots cfg) \<and> path = path_joins root [app, name] \<and>
       (case map_of (sp_volumes spec) name of None \<Rightarrow> True | Some v \<Rightarrow> kind_name (av_kind v) \<noteq> kind)" if "path \<in> set paths" for path
  proof -
    from that p obtain v where v: "v \<in> set found" "vd_app v = app" "vd_name v = name" "vd_use v = Orphaned" "path = vd_path v" by auto
    from orphan [OF v(1-4)] v(5) spec show ?thesis by auto
  qed
  with spec p(2) show ?thesis by blast
qed

definition demo_volumes_disk :: disk where
  "demo_volumes_disk = \<lparr>dk_is_dir = (\<lambda>p. p \<in> {''/k/volumes/data'', ''/k/volumes/data/org.demo'', ''/k/volumes/data/org.demo/old''}),
     dk_is_file = (\<lambda>p. False),
     dk_names = (\<lambda>p. if p = ''/k/volumes/data'' then [''org.demo''] else if p = ''/k/volumes/data/org.demo'' then [''old''] else [])\<rparr>"

theorem only_orphans_are_removed_witness:
  "remove_orphaned_volume demo_volumes_disk demo_machine (\<lambda>app. Inr (Some (demo_spec\<lparr>sp_volumes := []\<rparr>))) (\<lambda>app. True) (\<lambda>app. False)
     ''org.demo'' ''old'' = Inr [''/k/volumes/data/org.demo/old''] \<and>
   (\<exists>kind root. (kind, root) \<in> set (volume_roots demo_machine) \<and> ''/k/volumes/data/org.demo/old'' = path_joins root [''org.demo'', ''old''])"
   (is "?removed = Inr [?path] \<and> ?there")
proof -
  have roots: "sort_key fst (volume_roots demo_machine) = [(''bulk'', ''/k/volumes/bulk''), (''data'', ''/k/volumes/data''),
      (''logs'', ''/k/volumes/logs''), (''temp'', ''/k/volumes/temp'')]"
    by code_simp
  have id: "is_app_id ''org.demo''" by code_simp
  have gone: "?removed = Inr [?path]"
    by (simp add: remove_orphaned_volume_def volumes_on_disk_def roots demo_volumes_disk_def dirs_in_def volumes_of_app_def
        path_join_def path_joins_def starts_with_def ends_with_def andthen_def use_of_def case_app_id [OF id])
  from only_orphans_are_removed [OF gone] have ?there unfolding list.set by blast
  with gone show ?thesis by blast
qed



end
