(* ===== verification/Update.thy ===== *)
theory Update
  imports Snapshots
begin

text \<open>
  \<^verbatim>\<open>kelso/lib/lifecycle/update.py\<close>: loading the new version of an app from where it was loaded from, with a
  backup of the version it replaces taken first.
\<close>

datatype update_error =
    UpdateRun run_error
  | UpdateStore store_error
  | UpdateBusy
  | UpdateNotLoaded
  | SourceGone "string option"
  | SourceBroken load_error
  | NothingChanged backup_fail
  | LoadAfterStop run_error string "string option"

text \<open>
  What an update asks beside its backup: whether the source is still there, docker's pull, the state of the
  backup destination, the id of the run, and whether another process holds a lock when the update
  wants to set up the repository, or to load.
\<close>

record ('s, 'w, 'b, 'd, 'r) update_env =
  ue_backup :: "('s, 'w, 'b, 'd, 'r) backup_env"
  ue_exists :: "string \<Rightarrow> bool"
  ue_pull :: "string \<Rightarrow> 'd \<Rightarrow> docker_answer \<times> 'd"
  ue_phrase :: bool
  ue_readlink :: "string \<Rightarrow> string option"
  ue_same_disk :: bool
  ue_run_id :: string
  ue_init_held :: bool
  ue_load_held :: bool

record update_result =
  ur_previous :: string
  ur_version :: string
  ur_backup :: "string option"
  ur_was_running :: bool

definition summary :: "string \<Rightarrow> update_result \<Rightarrow> string" where
  "summary app res =
     (let head = (if ur_previous res = ur_version res
            then ''Reloaded '' @ app @ '' at '' @ ur_version res @ '': its source changed without a new version number''
            else ''Updated '' @ app @ '' from '' @ (if ur_previous res = [] then ''an unrecorded version'' else ur_previous res)
              @ '' to '' @ ur_version res);
          backup = (case ur_backup res of Some (c # cs) \<Rightarrow> [''  backup '' @ (c # cs) @ '' holds the version it replaced''] | _ \<Rightarrow> []);
          restarted = (if ur_was_running res then [''Restarted '' @ app] else [])
      in join NL (head # backup @ restarted))"

section \<open>Steps\<close>

type_synonym ('s, 'w, 'b, 'd, 'r, 'a) update_act = "(('s, 'w, 'b, 'd) world \<times> 'r, update_error, 'a) act"

definition upd_world :: "(('s, 'w, 'b, 'd) world, run_error, 'a) act \<Rightarrow> ('s, 'w, 'b, 'd, 'r, 'a) update_act" where
  "upd_world m st = (case m (fst st) of (r, w) \<Rightarrow> (case r of Inl e \<Rightarrow> Inl (UpdateRun e) | Inr x \<Rightarrow> Inr x, (w, snd st)))"

definition upd_lock :: "bool \<Rightarrow> ('v, update_error, unit) act" where
  "upd_lock held = (if held then raise UpdateBusy else ret ())"

text \<open>\<^verbatim>\<open>update_source\<close>; \<^verbatim>\<open>loaded_origin\<close> is what the load recorded, an empty one counting as none.\<close>

definition loaded_origin ::
    "('s, 'w, 'b, 'd, 'r) backup_env \<Rightarrow> string \<Rightarrow> ('s, 'w, 'b, 'd) world \<Rightarrow> store_error + string option" where
  "loaded_origin env app w =
     (let ctx = ld_ctx (wd_load w)
      in if \<not> dk_is_file (be_disk env w) (app_config_path (rx_config ctx) app) then Inr None
         else andthen (get_meta (rx_ops ctx) (rx_app ctx) ''origin'') (\<lambda>v.
           case v of JStr s \<Rightarrow> Inr (if s = [] then None else Some s) | _ \<Rightarrow> if truthy v then Inl WrongType else Inr None))"

definition update_source ::
    "('s, 'w, 'b, 'd, 'r) update_env \<Rightarrow> string \<Rightarrow> ('s, 'w, 'b, 'd) world \<Rightarrow> update_error + string" where
  "update_source env app w =
     (if \<not> is_loaded_now w then Inl UpdateNotLoaded
      else case loaded_origin (ue_backup env) app w of
        Inl e \<Rightarrow> Inl (UpdateStore e)
      | Inr None \<Rightarrow> Inl (SourceGone None)
      | Inr (Some origin) \<Rightarrow> if ue_exists env origin then Inr origin else Inl (SourceGone (Some origin)))"

definition source_spec ::
    "('s, 'w, 'b, 'd, 'r) update_env \<Rightarrow> string \<Rightarrow> string \<Rightarrow> update_error + app_spec" where
  "source_spec env app source =
     (let load_env = re_load (be_run (ue_backup env))
      in case andthen (en_open load_env source) (spec_of load_env app) of
           Inl e \<Rightarrow> Inl (SourceBroken e) | Inr spec \<Rightarrow> Inr spec)"

definition pull_image :: "('s, 'w, 'b, 'd, 'r) update_env \<Rightarrow> string \<Rightarrow> ('s, 'w, 'b, 'd, 'r, unit) update_act" where
  "pull_image env img st =
     (case ue_pull env img (wd_docker (fst st)) of (answer, d) \<Rightarrow>
        (case answer of
           TimedOut \<Rightarrow> Inl (UpdateRun DockerTimeout)
         | Exited code \<Rightarrow> if code \<noteq> 0 then Inl (UpdateRun (DockerFailed code)) else Inr (),
         ((fst st)\<lparr>wd_docker := d\<rparr>, snd st)))"

definition images_of :: "app_spec \<Rightarrow> string list" where
  "images_of spec = sort (remdups (List.map (\<lambda>(name, unit). au_image unit) (sp_run_units spec)))"

definition version_before :: "('s, 'w, 'b, 'd) world \<Rightarrow> update_error + string" where
  "version_before w =
     (let ctx = ld_ctx (wd_load w)
      in case get_meta (rx_ops ctx) (rx_app ctx) ''loaded_version'' of
           Inl e \<Rightarrow> Inl (UpdateStore e)
         | Inr v \<Rightarrow> Inr (case v of JStr s \<Rightarrow> s | _ \<Rightarrow> []))"

definition stop_to_update :: "('s, 'w, 'b, 'd, 'r) update_env \<Rightarrow> string \<Rightarrow> ('s, 'w, 'b, 'd, 'r, bool) update_act" where
  "stop_to_update env app =
     (let run_env = be_run (ue_backup env) in
      bindA (upd_lock (be_held (ue_backup env) StopLock)) (\<lambda>_.
      bindA (upd_world (askA (run_state_of run_env app))) (\<lambda>s.
        if rs_running_count s > 0 then bindA (upd_world (stop run_env app STOPPED_ACTION)) (\<lambda>_. ret True) else ret False)))"

section \<open>The backup first\<close>

definition backup_before ::
    "('s, 'w, 'b, 'd, 'r) update_env \<Rightarrow> string \<Rightarrow> ('s, 'w, 'b, 'd, 'r, string) backup_act" where
  "backup_before env app =
     (let benv = ue_backup env; rv = be_restic benv; run = ue_run_id env in
      bindA (ask_world (\<lambda>w. repository_opens (ue_phrase env) (ue_readlink env) (ue_same_disk env) (be_disk benv w)
         (rx_config (ld_ctx (wd_load w))))) (\<lambda>_.
      bindA (bindA (acquire (ue_init_held env)) (\<lambda>_. in_repo (restic_init rv))) (\<lambda>_.
      bindA (refuse_same_second rv run (Some app)) (\<lambda>_.
      bindA (backup_app benv app UPDATE run) (\<lambda>b.
      bindA (ask_world (\<lambda>w. Inr (be_keep (cfg_backup (rx_config (ld_ctx (wd_load w))))))) (\<lambda>keep.
      bindA (forget_expired rv keep False) (\<lambda>_.
      bindA (in_repo (restic_check rv)) (\<lambda>_. ret (bu_run b)))))))))"

text \<open>\<open>except Exception\<close>: a running app is started again, and an error of that takes the place of the first.\<close>

definition backed_up_before ::
    "('s, 'w, 'b, 'd, 'r) update_env \<Rightarrow> string \<Rightarrow> bool \<Rightarrow> ('s, 'w, 'b, 'd, 'r, string option) update_act" where
  "backed_up_before env app running st =
     (case backup_before env app st of
        (Inr name, st1) \<Rightarrow> (Inr (Some name), st1)
      | (Inl e, st1) \<Rightarrow>
          if \<not> running then (Inl (NothingChanged e), st1)
          else (case bindA (upd_lock (be_held (ue_backup env) StartLock)) (\<lambda>_.
                  upd_world (start_copy (be_run (ue_backup env)) app)) st1 of
                  (Inl e', st2) \<Rightarrow> (Inl e', st2)
                | (Inr res, st2) \<Rightarrow> (Inl (NothingChanged e), st2)))"

section \<open>The update\<close>

definition load_new ::
    "('s, 'w, 'b, 'd, 'r) update_env \<Rightarrow> string \<Rightarrow> string \<Rightarrow> string \<Rightarrow> string option \<Rightarrow> ('s, 'w, 'b, 'd, 'r, load_result) update_act" where
  "load_new env app source previous name st =
     (case load_app (be_run (ue_backup env))
             \<lparr>sa_app = app, sa_bundle = source, sa_sets = [], sa_binds = [], sa_bound = None, sa_version_change = True\<rparr> (fst st) of
        (Inl e, w) \<Rightarrow> (Inl (LoadAfterStop e previous name), (w, snd st))
      | (Inr res, w) \<Rightarrow> (Inr res, (w, snd st)))"

definition update_app ::
    "('s, 'w, 'b, 'd, 'r) update_env \<Rightarrow> bool \<Rightarrow> string \<Rightarrow> ('s, 'w, 'b, 'd, 'r, update_result) update_act" where
  "update_app env backup app =
     bindA (askA (\<lambda>st. update_source env app (fst st))) (\<lambda>source.
     bindA (askA (\<lambda>st. source_spec env app source)) (\<lambda>spec.
     bindA (eachA (pull_image env) (images_of spec)) (\<lambda>_.
     bindA (askA (\<lambda>st. version_before (fst st))) (\<lambda>previous.
     bindA (upd_lock (be_held (ue_backup env) AppLock)) (\<lambda>_.
     bindA (stop_to_update env app) (\<lambda>running.
     bindA (if backup then backed_up_before env app running else ret None) (\<lambda>name.
     bindA (upd_lock (ue_load_held env)) (\<lambda>_.
     bindA (load_new env app source previous name) (\<lambda>_.
     bindA (upd_world (update (recorded ''updated'' app))) (\<lambda>_.
     bindA (if running then bindA (upd_world (start_copy (be_run (ue_backup env)) app)) (\<lambda>_. ret ()) else ret ()) (\<lambda>_.
       ret \<lparr>ur_previous = previous, ur_version = sp_version spec, ur_backup = name, ur_was_running = running\<rparr>)))))))))))"

section \<open>What an update leaves\<close>

definition same_copy_in :: "('s, 'w, 'b, 'd) world \<times> 'r \<Rightarrow> ('s, 'w, 'b, 'd) world \<times> 'r \<Rightarrow> bool" where
  "same_copy_in st st' \<longleftrightarrow> same_bundle (fst st) (fst st')"

lemma same_copy_in_order: "reflp same_copy_in" "transp same_copy_in"
  by (auto simp: same_copy_in_def same_bundle_def intro!: reflpI transpI)

lemma same_copy_same: "keeps same_world m \<Longrightarrow> keeps same_copy_in m"
  by (auto simp: keeps_def same_world_def same_copy_in_def same_bundle_def)

lemma stop_bundle: "keeps same_bundle (stop env app action)"
proof -
  have run: "keeps same_bundle (docker_run_command env app cmd c v t)" for cmd c v t
    unfolding keeps_def same_bundle_def run_of_def by (metis docker_run_command_frame prod.collapse)
  have exc: "keeps same_bundle (except_for P m (recorded verb app))" if "keeps same_bundle m" for P verb and m :: "(_, _, 'e) act"
    using that by (auto simp: keeps_def except_for_def same_bundle_def split: prod.split sum.split) (metis snd_conv)+
  have raises: "keeps same_bundle (raise e)" for e by (simp add: keeps_def same_bundle_def)
  show ?thesis
    unfolding stop_def
    by (intro keeps_bindA [OF _ _ same_bundle_order(2)] keeps_if exc run raises keeps_askA [OF same_bundle_order(1)])
      (simp_all add: keeps_def same_bundle_def on_run_def run_of_def unlink_links recorded_def record_action_def)
qed

lemma start_copy_bundle:
  assumes "start_copy env app w = (r, w')" and "is_loaded_now w"
  shows "same_bundle w w'"
proof -
  let ?a = "run_copy (ld_ctx (wd_load w)) app"
  from assms(1) have "bindA (start_data env ?a) (\<lambda>res.
     bindA (askA (\<lambda>w. if start_blockers (lo_run_data res) \<noteq> [] then Inl (CannotStart (start_blockers (lo_run_data res)))
                        else if rn_compose (run_of w) = None then Inl NotLoadedYet else Inr ()))
       (\<lambda>_. bring_up env (sa_app ?a) res)) w = (r, w')"
    by (simp only: start_copy_def start_bring_up)
  then show ?thesis
  proof (cases rule: bindA_E)
    case (raised e)
    with start_data_bundle [OF raised(1)] assms(2) show ?thesis by (simp add: run_copy_def)
  next
    case (went_on res w1)
    have first: "same_bundle w w1"
      using start_data_bundle [OF went_on(1)] assms(2) by (simp add: run_copy_def)
    have k: "keeps same_bundle (bindA (askA f) (\<lambda>_. bring_up env (sa_app ?a) res))" for f :: "_ \<Rightarrow> run_error + unit"
      by (intro keeps_bindA [OF _ _ same_bundle_order(2)] bring_up_bundle keeps_askA [OF same_bundle_order(1)])
    from keepsD [OF k went_on(2)] have "same_bundle w1 w'" .
    with first show ?thesis using same_bundle_order(2) by (blast dest: transpD)
  qed
qed

lemma backup_app_run: "backup_app env app reason run st = (Inr b, st') \<Longrightarrow> bu_run b = run"
  by (auto simp: backup_app_def Let_def elim!: bindA_E)

lemma same_bundle_loaded: "same_bundle w w' \<Longrightarrow> is_loaded_now w' = is_loaded_now w"
  by (simp add: same_bundle_def is_loaded_now_def)

lemma only_db_bundle: "only_db w w' \<Longrightarrow> same_bundle w w'"
  by (auto simp: only_db_def same_bundle_def run_of_def upd_ctx_def)

lemma backup_app_bundle:
  assumes "backup_app env app reason run (w, q) = (r, st')"
  shows "same_bundle w (fst st')"
  using assms
proof (cases rule: backup_app_stages)
  case (early w0 e)
  then show ?thesis by (simp add: only_db_bundle)
next
  case (stop_raised w0 q0 e)
  from stop_raised(2) show ?thesis
  proof (cases rule: stop_to_read_E)
    case (stop_raised e' w1)
    with keepsD [OF stop_bundle stop_raised(2)] only_db_bundle [OF \<open>only_db w w0\<close>] show ?thesis by (simp add: same_bundle_def)
  qed (use stop_raised only_db_bundle in auto)
next
  case (read w0 q0 tags running st1 d st2)
  note w0 = only_db_bundle [OF read(1)]
  from read(2) show ?thesis
  proof (cases rule: stop_to_read_E)
    case not_run
    with read(3,4) w0 show ?thesis by (elim start_finally_E) (auto dest: same_worldD [OF read_data_same_world])
  next
    case (stopped w1)
    have w1: "same_bundle w w1" using keepsD [OF stop_bundle stopped(2)] w0 by (simp add: same_bundle_def)
    have loaded: "is_loaded_now w1"
      using stopped(1) same_bundle_loaded [OF keepsD [OF stop_bundle stopped(2)]] by (simp add: was_running_def)
    have again: "same_bundle w w2" if "start_copy (be_run env) app w1 = (x, w2)" for x w2
      using start_copy_bundle [OF that loaded] w1 by (simp add: same_bundle_def)
    have data: "fst sta = w1" if "read_data env app tags st1 = (x, sta)" for x sta
      using same_worldD [OF read_data_same_world that] stopped(4) by simp
    from read(3) show ?thesis
    proof (cases rule: start_finally_E)
      case idle
      from data [OF idle(2)] read(4) w1 show ?thesis by simp
    next
      case (busy sta ra)
      from data [OF busy(2)] busy(5) read(4) w1 show ?thesis by simp
    next
      case (start_raised sta ra e w2)
      from data [OF start_raised(2)] start_raised(4,6) read(4) again show ?thesis by simp
    next
      case (started sta res w2)
      from data [OF started(2)] started(4,5) read(4) again show ?thesis by simp
    qed
  qed simp_all
qed

text \<open>Steps before the app is stopped change docker's images at most.\<close>

definition same_load :: "('s, 'w, 'b, 'd) world \<times> 'r \<Rightarrow> ('s, 'w, 'b, 'd) world \<times> 'r \<Rightarrow> bool" where
  "same_load st st' \<longleftrightarrow> wd_load (fst st') = wd_load (fst st)"

lemma same_load_order: "reflp same_load" "transp same_load"
  by (auto simp: same_load_def intro!: reflpI transpI)

lemma same_load_steps:
  "keeps same_load (askA f)" "keeps same_load (upd_lock h)" "keeps same_load (pull_image env img)"
  by (auto simp: keeps_def same_load_def upd_lock_def pull_image_def split: prod.split)

lemma bindA_same_load:
  assumes "keeps same_load m" and "bindA m f st = (r, st')"
  obtains (raised) e st1 where "m st = (Inl e, st1)" "r = Inl e" "st' = st1" "same_load st st1"
    | (went_on) x st1 where "m st = (Inr x, st1)" "f x st1 = (r, st')" "same_load st st1"
  using assms(2) by (cases rule: bindA_E) (use keepsD [OF assms(1)] raised went_on in auto)

lemma pulls_raise: "eachA (pull_image env) imgs st = (Inl e, st1) \<Longrightarrow> e \<in> range UpdateRun"
  by (induction imgs arbitrary: st)
    (auto simp: pull_image_def elim!: bindA_E split: prod.splits docker_answer.splits if_splits)

lemma same_load_facts:
  assumes "same_load st st'"
  shows "run_of (fst st') = run_of (fst st)" "last_action app (wd_load (fst st')) = last_action app (wd_load (fst st))"
    "is_loaded_now (fst st') = is_loaded_now (fst st)"
  using assms by (simp_all add: same_load_def run_of_def is_loaded_now_def)

lemma upd_world_E:
  assumes "upd_world m st = (r, st')"
  obtains (raised) e w where "m (fst st) = (Inl e, w)" "r = Inl (UpdateRun e)" "st' = (w, snd st)"
    | (returned) x w where "m (fst st) = (Inr x, w)" "r = Inr x" "st' = (w, snd st)"
  using assms by (auto simp: upd_world_def split: prod.splits sum.splits)

lemma upd_lock_E:
  assumes "upd_lock held st = (r, st')"
  obtains (busy) "r = Inl UpdateBusy" "st' = st" | (got) "r = Inr ()" "st' = st"
  using assms by (auto simp: upd_lock_def split: if_splits)

lemma stop_to_update_E:
  assumes "stop_to_update env app st = (r, st')"
  obtains (raised) e where "r = Inl e" "e \<in> insert UpdateBusy (range UpdateRun)"
    | (not_run) "r = Inr False" "st' = st" "running_now (be_run (ue_backup env)) app (fst st) = 0"
    | (stopped) w where "r = Inr True" "st' = (w, snd st)" "stop (be_run (ue_backup env)) app STOPPED_ACTION (fst st) = (Inr (), w)"
  using assms unfolding stop_to_update_def Let_def
  by (auto simp: running_now_def elim!: bindA_E upd_lock_E upd_world_E split: if_splits)

text \<open>Up to the stop: early errors, or the app stopped if it ran.\<close>

definition update_after ::
    "('s, 'w, 'b, 'd, 'r) update_env \<Rightarrow> bool \<Rightarrow> string \<Rightarrow> string \<Rightarrow> app_spec \<Rightarrow> string \<Rightarrow> bool \<Rightarrow> ('s, 'w, 'b, 'd, 'r, update_result) update_act" where
  "update_after env backup app source spec previous running =
     bindA (if backup then backed_up_before env app running else ret None) (\<lambda>name.
     bindA (upd_lock (ue_load_held env)) (\<lambda>_.
     bindA (load_new env app source previous name) (\<lambda>_.
     bindA (upd_world (update (recorded ''updated'' app))) (\<lambda>_.
     bindA (if running then bindA (upd_world (start_copy (be_run (ue_backup env)) app)) (\<lambda>_. ret ()) else ret ()) (\<lambda>_.
       ret \<lparr>ur_previous = previous, ur_version = sp_version spec, ur_backup = name, ur_was_running = running\<rparr>)))))"

lemma update_stages:
  assumes "update_app env backup app (w, q) = (r, st')"
  obtains (early) e where "r = Inl e" "e \<notin> range NothingChanged" "\<forall>f p n. e \<noteq> LoadAfterStop f p n"
      "e \<in> {UpdateNotLoaded} \<union> range SourceGone \<union> range SourceBroken \<longrightarrow> st' = (w, q)"
    | (stopped) source spec previous running st1 st2 where "update_source env app w = Inr source" "source_spec env app source = Inr spec"
      "same_load (w, q) st1" "stop_to_update env app st1 = (Inr running, st2)"
      "update_after env backup app source spec previous running st2 = (r, st')"
proof -
  from assms show ?thesis
    unfolding update_app_def update_after_def [symmetric]
  proof (cases rule: bindA_same_load [OF same_load_steps(1), consumes 1, case_names raised went_on])
    case (raised e st1)
    show ?thesis
      by (rule early) (use raised in \<open>auto simp: update_source_def split: if_splits sum.splits option.splits\<close>)
  next
    case source: (went_on source st0)
    then have src: "update_source env app w = Inr source" "st0 = (w, q)" by simp_all
    from source(2) show ?thesis
    proof (cases rule: bindA_same_load [OF same_load_steps(1), consumes 1, case_names raised went_on])
      case (raised e st1)
      show ?thesis
        by (rule early) (use raised src in \<open>auto simp: source_spec_def Let_def split: sum.splits\<close>)
    next
      case spec: (went_on spec st1)
      then have sp: "source_spec env app source = Inr spec" "st1 = (w, q)" using src by simp_all
      have pulls: "keeps same_load (eachA (pull_image env) (images_of spec))"
        by (rule keeps_eachA) (use same_load_steps same_load_order in auto)
      from spec(2) show ?thesis
      proof (cases rule: bindA_same_load [OF pulls, consumes 1, case_names raised went_on])
        case (raised e st1)
        show ?thesis
          by (rule early) (use raised pulls_raise [OF raised(1)] in auto)
      next
        case pulled: (went_on u st2)
        from pulled(2) show ?thesis
        proof (cases rule: bindA_same_load [OF same_load_steps(1), consumes 1, case_names raised went_on])
          case (raised e st3)
          show ?thesis
            by (rule early) (use raised in \<open>auto simp: version_before_def Let_def split: sum.splits\<close>)
        next
          case prev: (went_on previous st3)
          from prev(2) show ?thesis
          proof (cases rule: bindA_same_load [OF same_load_steps(2), consumes 1, case_names raised went_on])
            case (raised e st4)
            then show ?thesis by (intro early) (auto elim!: upd_lock_E)
          next
            case locked: (went_on u2 st4)
            have same: "same_load (w, q) st4"
              using pulled(3) prev(3) locked(3) sp(2) by (simp add: same_load_def)
            from locked(2) show ?thesis
            proof (cases rule: bindA_E)
              case (raised e)
              have "e \<in> insert UpdateBusy (range UpdateRun)"
                using raised(1) by (cases rule: stop_to_update_E) auto
              then show ?thesis by (intro early [OF raised(2)]) auto
            next
              case (went_on running st5)
              show ?thesis by (rule stopped [OF src(1) sp(1) same went_on])
            qed
          qed
        qed
      qed
    qed
  qed
qed

lemma idle_backup_action:
  assumes "backup_app env app reason run (w, q) = (r, st')" and "running_now (be_run env) app w = 0"
  shows "last_action app (wd_load (fst st')) = last_action app (wd_load w)"
  using only_db_acts [OF idle_backup_db [OF assms]] by blast

definition tidy_after :: "('s, 'w, 'b, 'd, 'r) update_env \<Rightarrow> backup \<Rightarrow> ('s, 'w, 'b, 'd, 'r, string) backup_act" where
  "tidy_after env b =
     (let rv = be_restic (ue_backup env) in
      bindA (ask_world (\<lambda>w. Inr (be_keep (cfg_backup (rx_config (ld_ctx (wd_load w))))))) (\<lambda>keep.
      bindA (forget_expired rv keep False) (\<lambda>_.
      bindA (in_repo (restic_check rv)) (\<lambda>_. ret (bu_run b)))))"

lemma tidy_after_E:
  assumes "tidy_after env b st = (r, st')"
  shows "fst st' = fst st" "r = Inr name \<Longrightarrow> name = bu_run b"
  using assms unfolding tidy_after_def Let_def
  by (auto elim!: bindA_same [OF same_world_steps(4)] bindA_same [OF forget_same] bindA_same [OF same_world_steps(1)])

lemma backup_before_does:
  assumes "backup_before env app (w, q) = (r, st')"
  shows "same_bundle w (fst st')" and "r = Inr name \<Longrightarrow> name = ue_run_id env"
    and "running_now (be_run (ue_backup env)) app w = 0 \<Longrightarrow> last_action app (wd_load (fst st')) = last_action app (wd_load w)"
proof -
  let ?idle = "running_now (be_run (ue_backup env)) app w = 0"
  have refl: "same_bundle w w" by (simp add: same_bundle_def)
  have create: "keeps same_world (bindA (acquire h) (\<lambda>_. in_repo m))" for h and m :: "('e, restic_error, bool) act"
    by (intro same_world_intros)
  from assms have "same_bundle w (fst st') \<and> (\<forall>name. r = Inr name \<longrightarrow> name = ue_run_id env) \<and>
    (?idle \<longrightarrow> last_action app (wd_load (fst st')) = last_action app (wd_load w))"
    unfolding backup_before_def Let_def
  proof (elim bindA_same [OF same_world_steps(4)] bindA_same [OF create] bindA_same [OF refuse_second_same], goal_cases)
    case (4 x st0 y st1 z st2)
    then obtain q2 where st2: "st2 = (w, q2)" by (cases st2) simp
    from 4 have "bindA (backup_app (ue_backup env) app UPDATE (ue_run_id env)) (\<lambda>b. tidy_after env b) (w, q2) = (r, st')"
      by (simp add: st2 tidy_after_def Let_def)
    then show ?case
    proof (cases rule: bindA_E)
      case (raised e)
      from backup_app_bundle [OF raised(1)] idle_backup_action [OF raised(1)] raised(2) show ?thesis by simp
    next
      case (went_on b st3)
      from tidy_after_E [OF went_on(2)] backup_app_bundle [OF went_on(1)] idle_backup_action [OF went_on(1)] backup_app_run [OF went_on(1)]
      show ?thesis by simp
    qed
  qed (use refl in simp_all)
  then show "same_bundle w (fst st')" "r = Inr name \<Longrightarrow> name = ue_run_id env"
    "?idle \<Longrightarrow> last_action app (wd_load (fst st')) = last_action app (wd_load w)" by blast+
qed

lemma backed_up_before_does:
  assumes "backed_up_before env app running st = (r, st')" and "is_loaded_now (fst st)"
    and "running \<or> running_now (be_run (ue_backup env)) app (fst st) = 0"
  shows "same_bundle (fst st) (fst st')"
    and "case r of Inr name \<Rightarrow> name = Some (ue_run_id env)
      | Inl (NothingChanged e) \<Rightarrow>
          last_action app (wd_load (fst st')) = (if running then Some ''started'' else last_action app (wd_load (fst st)))
      | Inl e \<Rightarrow> e \<in> insert UpdateBusy (range UpdateRun)"
proof -
  obtain w q where st: "st = (w, q)" by (cases st)
  obtain x st1 where tried: "backup_before env app (w, q) = (x, st1)" by (cases "backup_before env app (w, q)")
  note b = backup_before_does [OF tried]
  have load1: "is_loaded_now (fst st1)" using b(1) assms(2) by (simp add: st same_bundle_loaded)
  have again: "same_bundle w w'" "last_action app (wd_load w') = Some ''started''"
    if "start_copy (be_run (ue_backup env)) app (fst st1) = (Inr res, w')" for res w'
    using start_copy_bundle [OF that load1] b(1) start_copy_returns [OF that] by (simp_all add: same_bundle_def)
  have failed: "same_bundle w w'" if "start_copy (be_run (ue_backup env)) app (fst st1) = (Inl e, w')" for e w'
    using start_copy_bundle [OF that load1] b(1) by (simp add: same_bundle_def)
  have "same_bundle w (fst st') \<and> (case r of Inr name \<Rightarrow> name = Some (ue_run_id env)
      | Inl (NothingChanged e) \<Rightarrow>
          last_action app (wd_load (fst st')) = (if running then Some ''started'' else last_action app (wd_load w))
      | Inl e \<Rightarrow> e \<in> insert UpdateBusy (range UpdateRun))"
  proof (cases x)
    case (Inr name)
    with assms(1) tried b(1,2) show ?thesis by (auto simp: backed_up_before_def st)
  next
    case (Inl e)
    show ?thesis
    proof (cases running)
      case False
      with Inl assms(1,3) tried b(1,3) show ?thesis by (auto simp: backed_up_before_def st)
    next
      case True
      let ?m = "bindA (upd_lock (be_held (ue_backup env) StartLock)) (\<lambda>_. upd_world (start_copy (be_run (ue_backup env)) app))"
      obtain y st2 where y: "?m st1 = (y, st2)" by (cases "?m st1")
      then have "same_bundle w (fst st2) \<and> (case y of Inr res \<Rightarrow> last_action app (wd_load (fst st2)) = Some ''started''
          | Inl e \<Rightarrow> e \<in> insert UpdateBusy (range UpdateRun))"
        using again failed b(1) by (auto elim!: bindA_E upd_lock_E upd_world_E)
      with Inl True assms(1) tried y show ?thesis
        by (auto simp: backed_up_before_def st split: sum.splits update_error.splits)
    qed
  qed
  then show "same_bundle (fst st) (fst st')" "case r of Inr name \<Rightarrow> name = Some (ue_run_id env)
      | Inl (NothingChanged e) \<Rightarrow>
          last_action app (wd_load (fst st')) = (if running then Some ''started'' else last_action app (wd_load (fst st)))
      | Inl e \<Rightarrow> e \<in> insert UpdateBusy (range UpdateRun)"
    unfolding st fst_conv by (rule conjunct1, rule conjunct2)
qed

lemma update_after_does:
  assumes "update_after env backup app source spec previous running (w, q) = (r, st')"
    and "source_spec env app source = Inr spec" and "is_loaded_now w"
    and "running \<or> running_now (be_run (ue_backup env)) app w = 0"
  defines "name \<equiv> if backup then Some (ue_run_id env) else None"
  shows "case r of
      Inr res \<Rightarrow> rn_bundle (run_of (fst st')) \<noteq> None \<and>
        andthen (en_open (re_load (be_run (ue_backup env))) source) (\<lambda>b. Inr b) = Inr (the (rn_bundle (run_of (fst st')))) \<and>
        res = \<lparr>ur_previous = previous, ur_version = sp_version spec, ur_backup = name, ur_was_running = running\<rparr> \<and>
        last_action app (wd_load (fst st')) = Some (if running then ''started'' else ''updated'')
    | Inl e \<Rightarrow> (case e of
          NothingChanged f \<Rightarrow> same_bundle w (fst st') \<and>
            last_action app (wd_load (fst st')) = (if running then Some ''started'' else last_action app (wd_load w))
        | LoadAfterStop f p n \<Rightarrow> n = name
        | _ \<Rightarrow> e \<in> insert UpdateBusy (range UpdateRun))"
proof -
  let ?first = "if backup then backed_up_before env app running else ret None"
  from assms(1) have "bindA ?first (\<lambda>name.
     bindA (upd_lock (ue_load_held env)) (\<lambda>_.
     bindA (load_new env app source previous name) (\<lambda>_.
     bindA (upd_world (update (recorded ''updated'' app))) (\<lambda>_.
     bindA (if running then bindA (upd_world (start_copy (be_run (ue_backup env)) app)) (\<lambda>_. ret ()) else ret ()) (\<lambda>_.
       ret \<lparr>ur_previous = previous, ur_version = sp_version spec, ur_backup = name, ur_was_running = running\<rparr>))))) (w, q) = (r, st')"
    by (simp add: update_after_def)
  then show ?thesis
  proof (cases rule: bindA_E)
    case (raised e)
    from raised(1) have backup: "backed_up_before env app running (w, q) = (Inl e, st')" by (auto split: if_splits)
    from backed_up_before_does [OF backup] assms(3,4) raised(2) show ?thesis
      by (auto split: update_error.splits)
  next
    case (went_on n st1)
    have n: "n = name"
    proof (cases backup)
      case True
      then have "backed_up_before env app running (w, q) = (Inr n, st1)" using went_on(1) by simp
      from backed_up_before_does(2) [OF this] assms(3,4) True show ?thesis by (simp add: name_def)
    qed (use went_on(1) in \<open>simp add: name_def\<close>)
    from went_on(2) show ?thesis
    proof (cases rule: bindA_E)
      case (raised e)
      then show ?thesis by (auto elim: upd_lock_E)
    next
      case locked: (went_on u st2)
      from locked(2) show ?thesis
      proof (cases rule: bindA_E)
        case (raised e)
        then show ?thesis by (auto simp: load_new_def n split: prod.splits sum.splits)
      next
        case loaded: (went_on res st3)
        obtain w1 where load: "load_app (be_run (ue_backup env)) \<lparr>sa_app = app, sa_bundle = source, sa_sets = [], sa_binds = [],
            sa_bound = None, sa_version_change = True\<rparr> (fst st2) = (Inr res, w1)" "st3 = (w1, snd st2)"
          using loaded(1) by (auto simp: load_new_def split: prod.splits sum.splits)
        obtain b where b: "en_open (re_load (be_run (ue_backup env))) source = Inr b" "rn_bundle (run_of w1) = Some b"
          using load(1) load_copies by (fastforce simp: load_app_def in_load_def load_args_of_def run_of_def split: prod.splits sum.splits)
        have rec: "run_of (recorded ''updated'' app w1) = run_of w1"
          "last_action app (wd_load (recorded ''updated'' app w1)) = Some ''updated''"
          by (simp_all add: recorded_def run_of_def record_action_def last_action_def)
        show ?thesis
        proof (cases running)
          case False
          with loaded(2) load(2) rec b show ?thesis
            by (auto simp: upd_world_def n elim!: bindA_E)
        next
          case True
          have "is_loaded_now (recorded ''updated'' app w1)" using rec b by (simp add: is_loaded_now_def)
          from True loaded(2) load(2) start_copy_bundle [OF _ this] start_copy_returns rec b show ?thesis
            by (fastforce simp: upd_world_def n same_bundle_def elim!: bindA_E split: prod.splits sum.splits)
        qed
      qed
    qed
  qed
qed


definition demo_update_env ::
    "((string, json) dict, string \<Rightarrow> noop_provider, string, unit_status list, nat) update_env" where
  "demo_update_env = \<lparr>ue_backup = (demo_backup_env (\<lambda>a. False))
       \<lparr>be_disk := (\<lambda>w. \<lparr>dk_is_dir = (\<lambda>p. False), dk_is_file = (\<lambda>p. True), dk_names = (\<lambda>p. [])\<rparr>)\<rparr>,
     ue_exists = (\<lambda>p. True), ue_pull = (\<lambda>img d. (Exited 0, d)), ue_phrase = True, ue_readlink = (\<lambda>p. None),
     ue_same_disk = False, ue_run_id = ''20260101-000000'', ue_init_held = False, ue_load_held = False\<rparr>"

definition demo_update_world ::
    "((string, json) dict, string \<Rightarrow> noop_provider, string, unit_status list) world" where
  "demo_update_world = (let w = demo_world []; ld = wd_load w in
     w\<lparr>wd_load := ld\<lparr>ld_ctx := (ld_ctx ld)\<lparr>rx_app := [(''meta/origin'', JStr ''/r/gone.klso'')]\<rparr>\<rparr>\<rparr>)"

lemma demo_update_origin: "loaded_origin (ue_backup demo_update_env) ''org.demo'' demo_update_world = Inr (Some ''/r/gone.klso'')"
  by (simp add: loaded_origin_def demo_update_world_def demo_update_env_def demo_world_def demo_load_state_def demo_ctx_def get_meta_def
      memory_store_def Let_def)


end
