(* ===== verification/Restore.thy ===== *)
theory Restore
  imports Removal Update
begin

text \<open>
  \<^verbatim>\<open>kelso/lib/lifecycle/restore.py\<close>: putting an app back as one of its backups holds it. The state is what the
  app has on disk beside the backup repository; what restic writes under the scratch directory is a
  parameter, read once the snapshots of a backup are restored there.
\<close>

datatype restore_error =
    RepoFailed backup_fail
  | NoSuchBackup string "(string \<times> string) list"
  | RestoreWhileRunning nat
  | ScratchStuck bool
  | NoConfigSaved string
  | SavedBroken load_error
  | NotStarted backup_fail
  | VolumesStuck removal_error
  | RekeyFailed store_error
  | NotRebuilt string load_error

text \<open>The tree of one app in a backup: its config table, its loaded copy, and its volumes by kind.\<close>

record ('s, 'b, 'c) saved_tree =
  sv_config :: "'s option"
  sv_bundle :: "'b option"
  sv_volumes :: "string \<Rightarrow> (string, 'c list) dict option"

text \<open>
  \<open>xs_saved\<close> is what restoring a list of snapshots leaves under scratch, \<open>xs_clears\<close> whether the container
  that removes the scratch directory runs, before and after, and \<open>xs_then\<close> the engine of the master key that was current
  at a time, when there was one and it is not today's.
\<close>

record ('s, 'w, 'b, 'd, 'c, 'r) restore_env =
  xs_rm :: "('s, 'w, 'b, 'd, 'c) rm_env"
  xs_backup :: "('s, 'w, 'b, 'd, 'r) backup_env"
  xs_scratch :: string
  xs_saved :: "'r \<Rightarrow> string list \<Rightarrow> ('s, 'b, 'c) saved_tree"
  xs_clears :: "bool \<Rightarrow> bool"
  xs_then :: "string \<Rightarrow> crypto_engine option"
  xs_run_id :: string

record restore_plan =
  rt_app :: string
  rt_backup :: backup
  rt_undo :: bool

type_synonym ('s, 'w, 'b, 'd, 'c, 'r, 'a) restore_act = "(('s, 'w, 'b, 'd, 'c) holdings \<times> 'r, restore_error, 'a) act"

definition with_repo ::
    "(backup_fail \<Rightarrow> restore_error) \<Rightarrow> ('s, 'w, 'b, 'd, 'r, 'a) backup_act \<Rightarrow> ('s, 'w, 'b, 'd, 'c, 'r, 'a) restore_act" where
  "with_repo raised m st =
     (case m (pr_world (fst st), snd st) of
        (r, (w, q)) \<Rightarrow> (case r of Inl e \<Rightarrow> Inl (raised e) | Inr x \<Rightarrow> Inr x, ((fst st)\<lparr>pr_world := w\<rparr>, q)))"

definition as_root :: "('s, 'w, 'b, 'd, 'c) removal_act \<Rightarrow> ('s, 'w, 'b, 'd, 'c, 'r, unit) restore_act" where
  "as_root m st = (case m (fst st) of (r, pr) \<Rightarrow> (case r of Inl e \<Rightarrow> Inl (VolumesStuck e) | Inr u \<Rightarrow> Inr u, (pr, snd st)))"

definition held_upd :: "(('s, 'w, 'b, 'd, 'c) holdings \<Rightarrow> ('s, 'w, 'b, 'd, 'c) holdings) \<Rightarrow> ('s, 'w, 'b, 'd, 'c, 'r, unit) restore_act" where
  "held_upd f = update (\<lambda>st. (f (fst st), snd st))"

definition loads_upd :: "(('s, 'w, 'b) load_state \<Rightarrow> ('s, 'w, 'b) load_state) \<Rightarrow> ('s, 'w, 'b, 'd, 'c, 'r, unit) restore_act" where
  "loads_upd f = held_upd (\<lambda>pr. pr\<lparr>pr_world := (pr_world pr)\<lparr>wd_load := f (wd_load (pr_world pr))\<rparr>\<rparr>)"

section \<open>Finding the backup\<close>

definition app_backups ::
    "('s, 'w, 'b, 'd, 'c, 'r) restore_env \<Rightarrow> string \<Rightarrow> ('s, 'w, 'b, 'd, 'c, 'r, backup list) restore_act" where
  "app_backups env app =
     with_repo RepoFailed
       (bindA (in_repo (restic_snapshots (be_restic (xs_backup env)) [(''app'', app)])) (\<lambda>snaps.
          askA (\<lambda>st. listed (backups snaps (Some app)))))"

definition find_backup ::
    "('s, 'w, 'b, 'd, 'c, 'r) restore_env \<Rightarrow> string \<Rightarrow> string \<Rightarrow> ('s, 'w, 'b, 'd, 'c, 'r, backup) restore_act" where
  "find_backup env app backup_id =
     bindA (app_backups env app) (\<lambda>available.
       case List.find (\<lambda>b. bu_run b = backup_id) available of
         Some b \<Rightarrow> ret b
       | None \<Rightarrow> raise (NoSuchBackup backup_id (List.map (\<lambda>b. (bu_run b, bu_reason b)) (rev available))))"

definition latest_pre_restore :: "backup list \<Rightarrow> backup \<Rightarrow> bool" where
  "latest_pre_restore bs b =
     (let pre = List.filter (\<lambda>b. bu_reason b = PRE_RESTORE) bs in pre \<noteq> [] \<and> bu_run (last pre) = bu_run b)"

definition restore_plan ::
    "('s, 'w, 'b, 'd, 'c, 'r) restore_env \<Rightarrow> string \<Rightarrow> string \<Rightarrow> ('s, 'w, 'b, 'd, 'c, 'r, restore_plan) restore_act" where
  "restore_plan env app backup_id =
     bindA (find_backup env app backup_id) (\<lambda>b.
     bindA (askA (\<lambda>st. let n = running_now (be_run (xs_backup env)) app (pr_world (fst st))
        in if n > 0 then Inl (RestoreWhileRunning n) else Inr ())) (\<lambda>_.
     bindA (app_backups env app) (\<lambda>bs.
       ret \<lparr>rt_app = app, rt_backup = b, rt_undo = latest_pre_restore bs b\<rparr>)))"

section \<open>Putting it back\<close>

definition remove_scratch :: "('s, 'w, 'b, 'd, 'c, 'r) restore_env \<Rightarrow> bool \<Rightarrow> ('v, restore_error, unit) act" where
  "remove_scratch env over = (if xs_clears env over then ret () else raise (ScratchStuck over))"

definition saved_snapshots :: "backup \<Rightarrow> string list" where
  "saved_snapshots b = List.map_filter (\<lambda>part. map_of (bu_snapshots b) part) [DATA, BULK]"

definition put_over :: "(string, 'c list) dict \<Rightarrow> (string, 'c list) dict option \<Rightarrow> (string, 'c list) dict option" where
  "put_over dirs d = Some (List.filter (\<lambda>(n, files). n \<notin> set (keys dirs)) (case d of None \<Rightarrow> [] | Some x \<Rightarrow> x) @ dirs)"

definition replace_volumes ::
    "('s, 'w, 'b, 'd, 'c, 'r) restore_env \<Rightarrow> string \<Rightarrow> (string, 'c list) dict option \<Rightarrow> ('s, 'w, 'b, 'd, 'c, 'r, unit) restore_act" where
  "replace_volumes env kind restored =
     (case restored of
        None \<Rightarrow> ret ()
      | Some dirs \<Rightarrow>
          if dirs = [] then ret ()
          else bindA (held_upd (\<lambda>pr. pr\<lparr>pr_volumes := (pr_volumes pr)(kind := Some (case pr_volumes pr kind of None \<Rightarrow> [] | Some d \<Rightarrow> d))\<rparr>)) (\<lambda>_.
                 as_root (run_as_root (xs_rm env) [kind] (put_over dirs))))"

definition backup_first ::
    "('s, 'w, 'b, 'd, 'c, 'r) restore_env \<Rightarrow> string \<Rightarrow> ('s, 'w, 'b, 'd, 'c, 'r, unit) restore_act" where
  "backup_first env app =
     with_repo NotStarted
       (bindA (refuse_same_second (be_restic (xs_backup env)) (xs_run_id env) (Some app)) (\<lambda>_.
        bindA (backup_app (xs_backup env) app PRE_RESTORE (xs_run_id env)) (\<lambda>pre. ret ())))"

definition put_config ::
    "('s, 'w, 'b, 'd, 'c, 'r) restore_env \<Rightarrow> backup \<Rightarrow> 's \<Rightarrow> ('s, 'w, 'b, 'd, 'c, 'r, unit) restore_act" where
  "put_config env b s =
     bindA (held_upd (\<lambda>pr. pr\<lparr>pr_config := True\<rparr>)) (\<lambda>_.
     bindA (loads_upd (upd_ctx (\<lambda>ctx. ctx\<lparr>rx_app := s\<rparr>))) (\<lambda>_.
       case xs_then env (bu_time b) of
         None \<Rightarrow> ret ()
       | Some old \<Rightarrow>
           bindA (askA (\<lambda>st. let ctx = ld_ctx (wd_load (pr_world (fst st)))
              in case rekey_app_secrets (rx_ops ctx) old (rx_crypto ctx) (rx_app ctx) of
                   Inl e \<Rightarrow> Inl (RekeyFailed e) | Inr (s', n, w, u) \<Rightarrow> Inr s')) (\<lambda>s'.
             loads_upd (upd_ctx (\<lambda>ctx. ctx\<lparr>rx_app := s'\<rparr>)))))"

definition rebuilt ::
    "backup \<Rightarrow> string \<Rightarrow> app_spec \<Rightarrow> ('s, 'w, 'b, 'd, 'c, 'r, app_run_data) restore_act" where
  "rebuilt b app spec st =
     (let pr = fst st; w = pr_world pr in
      case materialize spec (wd_load w) of
        (Inl e, ld) \<Rightarrow> (Inl (NotRebuilt (bu_run b) e), (pr\<lparr>pr_world := w\<lparr>wd_load := record_action ''restore-failed'' app ld\<rparr>\<rparr>, snd st))
      | (Inr (data, dropped), ld) \<Rightarrow> (Inr data, (pr\<lparr>pr_world := w\<lparr>wd_load := ld\<rparr>\<rparr>, snd st)))"

definition put_copy ::
    "backup \<Rightarrow> string \<Rightarrow> ('b \<times> app_spec) option \<Rightarrow> ('s, 'w, 'b, 'd, 'c, 'r, app_run_data option) restore_act" where
  "put_copy b app copy =
     bindA (loads_upd (on_run (\<lambda>rd. no_run_dir))) (\<lambda>_.
       case copy of
         None \<Rightarrow> bindA (loads_upd (record_action ''restored'' app)) (\<lambda>_. ret None)
       | Some (bundle, spec) \<Rightarrow>
           bindA (loads_upd (on_run (\<lambda>rd. no_run_dir\<lparr>rn_exists := True, rn_bundle := Some bundle\<rparr>))) (\<lambda>_.
           bindA (rebuilt b app spec) (\<lambda>data.
           bindA (loads_upd (record_action ''restored'' app)) (\<lambda>_. ret (Some data)))))"

definition saved_copy ::
    "('s, 'w, 'b, 'd, 'c, 'r) restore_env \<Rightarrow> string \<Rightarrow> ('s, 'b, 'c) saved_tree \<Rightarrow> restore_error + ('b \<times> app_spec) option" where
  "saved_copy env app tree =
     (case sv_bundle tree of
        None \<Rightarrow> Inr None
      | Some b \<Rightarrow> (case spec_of (re_load (be_run (xs_backup env))) app b of
          Inl e \<Rightarrow> Inl (SavedBroken e) | Inr spec \<Rightarrow> Inr (Some (b, spec))))"

definition has_state :: "('s, 'w, 'b, 'd, 'c) holdings \<Rightarrow> bool" where
  "has_state pr \<longleftrightarrow> rn_exists (run_of (pr_world pr)) \<or> pr_config pr"

definition restore_from ::
    "('s, 'w, 'b, 'd, 'c, 'r) restore_env \<Rightarrow> bool \<Rightarrow> restore_plan \<Rightarrow> ('s, 'b, 'c) saved_tree
       \<Rightarrow> ('s, 'w, 'b, 'd, 'c, 'r, app_run_data option) restore_act" where
  "restore_from env first plan tree =
     (let app = rt_app plan; b = rt_backup plan in
      case sv_config tree of
        None \<Rightarrow> raise (NoConfigSaved (bu_run b))
      | Some config \<Rightarrow>
          bindA (askA (\<lambda>st. saved_copy env app tree)) (\<lambda>copy.
          bindA (askA (\<lambda>st. Inr (first \<and> has_state (fst st) \<and> \<not> rt_undo plan))) (\<lambda>ahead.
          bindA (whenA ahead (backup_first env app)) (\<lambda>_.
          bindA (replace_volumes env DATA (sv_volumes tree DATA)) (\<lambda>_.
          bindA (replace_volumes env BULK (sv_volumes tree BULK)) (\<lambda>_.
          bindA (put_config env b config) (\<lambda>_.
            put_copy b app copy)))))))"

definition restore ::
    "('s, 'w, 'b, 'd, 'c, 'r) restore_env \<Rightarrow> bool \<Rightarrow> restore_plan \<Rightarrow> ('s, 'w, 'b, 'd, 'c, 'r, app_run_data option) restore_act" where
  "restore env first plan =
     (let snaps = saved_snapshots (rt_backup plan); rv = be_restic (xs_backup env) in
      bindA (remove_scratch env False) (\<lambda>_.
      (\<lambda>st. case bindA (with_repo RepoFailed (eachA (\<lambda>snap. in_repo (restic_restore rv snap (xs_scratch env))) snaps)) (\<lambda>_.
                  bindA (askA (\<lambda>st. Inr (xs_saved env (snd st) snaps))) (restore_from env first plan)) st of
               (r, st') \<Rightarrow> if xs_clears env True then (r, st') else (Inl (ScratchStuck True), st'))))"

section \<open>What a restore leaves\<close>

text \<open>Rebuilding what is derived from the loaded copy leaves the copy, the app's store and the providers as they are.\<close>

definition rederived :: "('s, 'w, 'b) load_state \<Rightarrow> ('s, 'w, 'b) load_state \<Rightarrow> bool" where
  "rederived st st' \<longleftrightarrow> rn_bundle (ld_run st') = rn_bundle (ld_run st) \<and> rx_app (ld_ctx st') = rx_app (ld_ctx st) \<and>
     ld_providers st' = ld_providers st \<and> ld_actions st' = ld_actions st"

lemma rederived_order: "reflp rederived" "transp rederived"
  by (auto simp: rederived_def intro!: reflpI transpI)

lemma rederived_steps:
  "keeps rederived (raise e)" "keeps rederived (on_db f)" "keeps rederived (ret x)" "keeps rederived (askA g)"
  "(\<And>st. rederived st (h st)) \<Longrightarrow> keeps rederived (update h)"
  by (simp_all add: keeps_def on_db_def raise_def ret_def askA_def update_def rederived_def upd_ctx_def split: sum.split)

lemmas rederived_intros = keeps_bindA [OF _ _ rederived_order(2)] keeps_eachA [OF _ rederived_order]
  keeps_whenA [OF _ rederived_order(1)] rederived_steps

lemma rederived_materialize: "keeps rederived (materialize spec)"
  unfolding materialize_def clear_and_reallocate_ports_def allocate_route_def rebuild_volume_links_def
    rebuild_link_def rebuild_kelso_dirs_def write_compose_def ask_app_def
  by (auto intro!: rederived_intros split: option.split list.split prod.split
      simp: rederived_def on_run_def upd_ctx_def)

lemma with_repo_E:
  assumes "with_repo f m st = (r, st')"
  obtains (raised) e w q where "m (pr_world (fst st), snd st) = (Inl e, (w, q))" "r = Inl (f e)" "st' = ((fst st)\<lparr>pr_world := w\<rparr>, q)"
    | (returned) x w q where "m (pr_world (fst st), snd st) = (Inr x, (w, q))" "r = Inr x" "st' = ((fst st)\<lparr>pr_world := w\<rparr>, q)"
  using assms by (auto simp: with_repo_def split: prod.splits sum.splits)

definition put_volumes :: "(string, 'c list) dict option \<Rightarrow> (string, 'c list) dict option \<Rightarrow> (string, 'c list) dict option" where
  "put_volumes restored d = (case restored of None \<Rightarrow> d | Some dirs \<Rightarrow> if dirs = [] then d else put_over dirs d)"

lemma replace_volumes_does:
  assumes "replace_volumes env kind restored (pr, q) = (r, (pr', q'))"
  shows "q' = q \<and> pr_world pr' = pr_world pr \<and> pr_config pr' = pr_config pr \<and>
    (\<forall>k. k \<noteq> kind \<longrightarrow> pr_volumes pr' k = pr_volumes pr k) \<and>
    (case r of Inr u \<Rightarrow> pr_volumes pr' kind = put_volumes restored (pr_volumes pr kind) | Inl e \<Rightarrow> e \<in> range VolumesStuck)"
  using assms
  by (auto simp: replace_volumes_def put_volumes_def put_over_def held_upd_def as_root_def run_as_root_def Let_def bindA_def
      split: option.splits if_splits)

lemma put_config_does:
  assumes "put_config env b s (pr, q) = (r, (pr', q'))"
  shows "q' = q \<and> pr_volumes pr' = pr_volumes pr \<and> pr_config pr' \<and>
    (\<exists>s'. pr_world pr' = (pr_world pr)\<lparr>wd_load := upd_ctx (\<lambda>ctx. ctx\<lparr>rx_app := s'\<rparr>) (wd_load (pr_world pr))\<rparr> \<and>
      (case r of Inl e \<Rightarrow> s' = s \<and> e \<in> range RekeyFailed
       | Inr u \<Rightarrow> (case xs_then env (bu_time b) of None \<Rightarrow> s' = s
           | Some old \<Rightarrow> let ctx = ld_ctx (wd_load (pr_world pr)) in
               \<exists>n w u. rekey_app_secrets (rx_ops ctx) old (rx_crypto ctx) s = Inr (s', n, w, u))))"
  using assms
  by (cases "xs_then env (bu_time b)")
    (auto simp: put_config_def held_upd_def loads_upd_def bindA_def Let_def upd_ctx_def askA_def update_def ret_def
      split: sum.splits prod.splits)

lemma last_recorded: "last_action app (record_action verb app st) = Some verb"
  by (simp add: record_action_def last_action_def)

lemma put_copy_does:
  assumes "put_copy b app copy (pr, q) = (r, (pr', q'))"
  shows "q' = q \<and> pr_volumes pr' = pr_volumes pr \<and> pr_config pr' = pr_config pr \<and>
    wd_docker (pr_world pr') = wd_docker (pr_world pr) \<and>
    ld_providers (wd_load (pr_world pr')) = ld_providers (wd_load (pr_world pr)) \<and>
    rx_app (ld_ctx (wd_load (pr_world pr'))) = rx_app (ld_ctx (wd_load (pr_world pr))) \<and>
    rn_bundle (run_of (pr_world pr')) = map_option fst copy \<and>
    (case r of
       Inr data \<Rightarrow> (data = None \<longleftrightarrow> copy = None) \<and> last_action app (wd_load (pr_world pr')) = Some ''restored'' \<and>
         (copy = None \<longrightarrow> run_of (pr_world pr') = no_run_dir \<and> ld_ctx (wd_load (pr_world pr')) = ld_ctx (wd_load (pr_world pr)))
     | Inl e \<Rightarrow> e \<in> range (NotRebuilt (bu_run b)) \<and> last_action app (wd_load (pr_world pr')) = Some ''restore-failed'')"
proof (cases copy)
  case None
  with assms show ?thesis
    by (auto simp: put_copy_def loads_upd_def held_upd_def bindA_def update_def ret_def run_of_def on_run_def no_run_dir_def
        last_recorded) (simp_all add: record_action_def)
next
  case (Some c)
  obtain bd spec where c: "copy = Some (bd, spec)" using Some by (cases c) simp
  let ?ld = "on_run (\<lambda>rd. no_run_dir\<lparr>rn_exists := True, rn_bundle := Some bd\<rparr>) (on_run (\<lambda>rd. no_run_dir) (wd_load (pr_world pr)))"
  obtain m ld where m: "materialize spec ?ld = (m, ld)" by (cases "materialize spec ?ld")
  have keep: "rn_bundle (ld_run ld) = Some bd" "rx_app (ld_ctx ld) = rx_app (ld_ctx (wd_load (pr_world pr)))"
      "ld_providers ld = ld_providers (wd_load (pr_world pr))"
    using keepsD [OF rederived_materialize m] by (simp_all add: rederived_def on_run_def)
  show ?thesis
  proof (cases m)
    case (Inl e)
    with assms m keep c show ?thesis
      by (auto simp: put_copy_def loads_upd_def held_upd_def bindA_def update_def rebuilt_def run_of_def last_recorded)
        (simp_all add: record_action_def)
  next
    case (Inr x)
    with assms m keep c show ?thesis
      by (cases x, auto simp: put_copy_def loads_upd_def held_upd_def bindA_def update_def ret_def rebuilt_def run_of_def last_recorded,
          simp_all add: record_action_def)
  qed
qed

text \<open>What the holdings of an app are but for kelso's own store: the volumes, the config, the run directory and the app's store.\<close>

definition untouched :: "('s, 'w, 'b, 'd, 'c) holdings \<Rightarrow> ('s, 'w, 'b, 'd, 'c) holdings \<Rightarrow> bool" where
  "untouched pr pr' \<longleftrightarrow> pr_volumes pr' = pr_volumes pr \<and> pr_config pr' = pr_config pr \<and> only_db (pr_world pr) (pr_world pr')"

lemma untouched_refl: "untouched pr pr"
  by (simp add: untouched_def only_db_refl)

lemma only_db_trans: "only_db w w1 \<Longrightarrow> only_db w1 w2 \<Longrightarrow> only_db w w2"
  by (auto simp: only_db_def upd_ctx_def)

lemma only_db_facts:
  assumes "only_db w w'"
  shows "run_of w' = run_of w" "wd_docker w' = wd_docker w" "ld_providers (wd_load w') = ld_providers (wd_load w)"
    "rx_app (ld_ctx (wd_load w')) = rx_app (ld_ctx (wd_load w))" "last_action app (wd_load w') = last_action app (wd_load w)"
    "rx_ops (ld_ctx (wd_load w')) = rx_ops (ld_ctx (wd_load w))" "rx_crypto (ld_ctx (wd_load w')) = rx_crypto (ld_ctx (wd_load w))"
  using assms by (auto simp: only_db_def run_of_def upd_ctx_def last_action_def)

definition pre_backup_taken ::
    "('s, 'w, 'b, 'd, 'c, 'r) restore_env \<Rightarrow> string \<Rightarrow> ('s, 'w, 'b, 'd, 'c) holdings \<Rightarrow> bool" where
  "pre_backup_taken env app pr \<longleftrightarrow> (\<exists>q b w q'. backup_app (xs_backup env) app PRE_RESTORE (xs_run_id env) (pr_world pr, q) = (Inr b, (w, q')))"

lemma backup_first_does:
  assumes "backup_first env app (pr, q) = (r, (pr', q'))" and "running_now (be_run (xs_backup env)) app (pr_world pr) = 0"
  shows "untouched pr pr' \<and> (case r of Inr u \<Rightarrow> pre_backup_taken env app pr | Inl e \<Rightarrow> e \<in> range NotStarted)"
proof -
  let ?m = "bindA (refuse_same_second (be_restic (xs_backup env)) (xs_run_id env) (Some app)) (\<lambda>_.
        bindA (backup_app (xs_backup env) app PRE_RESTORE (xs_run_id env)) (\<lambda>pre. ret ()))"
  obtain x w qx where x: "?m (pr_world pr, q) = (x, (w, qx))" by (cases "?m (pr_world pr, q)") auto
  from x have "only_db (pr_world pr) w \<and> (\<forall>u. x = Inr u \<longrightarrow> pre_backup_taken env app pr)"
  proof (cases rule: bindA_same [OF refuse_second_same, consumes 1, case_names raised went_on])
    case (raised e)
    then show ?thesis using only_db_refl by simp
  next
    case (went_on u st1)
    obtain q1 where st1: "st1 = (pr_world pr, q1)" using went_on(2) by (cases st1) simp
    from went_on(1) show ?thesis unfolding st1
    proof (cases rule: bindA_E)
      case (raised e)
      with idle_backup_db [OF raised(1) assms(2)] show ?thesis by simp
    next
      case (went_on b st2)
      with idle_backup_db [OF went_on(1) assms(2)] show ?thesis by (cases st2) (auto simp: pre_backup_taken_def)
    qed
  qed
  with assms(1) x show ?thesis
    by (auto simp: backup_first_def with_repo_def untouched_def split: sum.splits)
qed

lemma stages_before:
  assumes "bindA m f (pr, q) = (r, (pr', q'))"
  obtains (raised) e pr1 q1 where "m (pr, q) = (Inl e, (pr1, q1))" "r = Inl e" "pr' = pr1" "q' = q1"
    | (went_on) x pr1 q1 where "m (pr, q) = (Inr x, (pr1, q1))" "f x (pr1, q1) = (r, (pr', q'))"
proof -
  obtain y pr1 q1 where "m (pr, q) = (y, (pr1, q1))" by (cases "m (pr, q)") auto
  with assms raised went_on show ?thesis by (cases y) (auto simp: bindA_def)
qed

text \<open>Everything a restore writes, given the tree it reads: what is there when it returns, and how far an error lets it come.\<close>

definition volume_of :: "('s, 'w, 'b, 'd, 'c) holdings \<Rightarrow> string \<Rightarrow> string \<Rightarrow> 'c list option" where
  "volume_of pr kind n = (case pr_volumes pr kind of None \<Rightarrow> None | Some d \<Rightarrow> map_of d n)"

definition saved_volume :: "('s, 'b, 'c) saved_tree \<Rightarrow> string \<Rightarrow> string \<Rightarrow> 'c list option" where
  "saved_volume tree kind n = (if kind \<in> {DATA, BULK} then case sv_volumes tree kind of None \<Rightarrow> None | Some d \<Rightarrow> map_of d n else None)"

definition as_saved ::
    "('s, 'w, 'b, 'd, 'c, 'r) restore_env \<Rightarrow> backup \<Rightarrow> ('s, 'b, 'c) saved_tree \<Rightarrow> ('s, 'w, 'b, 'd, 'c) holdings
       \<Rightarrow> ('s, 'w, 'b, 'd, 'c) holdings \<Rightarrow> bool" where
  "as_saved env b tree pr pr' \<longleftrightarrow>
     (\<forall>kind n. volume_of pr' kind n = (case saved_volume tree kind n of Some files \<Rightarrow> Some files | None \<Rightarrow> volume_of pr kind n)) \<and>
     pr_config pr' \<and> rn_bundle (run_of (pr_world pr')) = sv_bundle tree \<and>
     (case sv_config tree of None \<Rightarrow> False | Some config \<Rightarrow>
        let ctx = ld_ctx (wd_load (pr_world pr)); s = rx_app (ld_ctx (wd_load (pr_world pr')))
        in case xs_then env (bu_time b) of None \<Rightarrow> s = config
           | Some old \<Rightarrow> \<exists>n w u. rekey_app_secrets (rx_ops ctx) old (rx_crypto ctx) config = Inr (s, n, w, u))"

lemma volume_of_put:
  "(case put_volumes restored d of None \<Rightarrow> None | Some x \<Rightarrow> map_of x n) =
   (case (case restored of None \<Rightarrow> None | Some x \<Rightarrow> map_of x n) of
      Some files \<Rightarrow> Some files | None \<Rightarrow> (case d of None \<Rightarrow> None | Some x \<Rightarrow> map_of x n))"
proof -
  have filt: "map_of (List.filter (\<lambda>(m, files). m \<notin> K) old) n = (if n \<in> K then None else map_of old n)" for K and old :: "(string, 'a list) dict"
    by (induction old) auto
  have over: "map_of (List.filter (\<lambda>(m, files). m \<notin> set (keys x)) old @ x) n =
      (case map_of x n of Some files \<Rightarrow> Some files | None \<Rightarrow> map_of old n)" for x old :: "(string, 'a list) dict"
  proof (cases "map_of x n")
    case None
    then have "n \<notin> set (keys x)" by (simp add: map_of_eq_None_iff)
    with None show ?thesis by (simp add: map_add_def filt split: option.split)
  next
    case (Some f)
    then have "n \<in> set (keys x)" by (metis list.set_map map_of_eq_None_iff option.distinct(1))
    with Some show ?thesis by (simp add: map_add_def filt)
  qed
  show ?thesis
    by (cases restored; cases d) (simp_all add: put_volumes_def put_over_def over [unfolded list.set_map] del: map_of_append split: option.split)
qed

lemma data_not_bulk: "DATA \<noteq> BULK" "BULK \<noteq> DATA"
  by (simp_all add: DATA_def BULK_def)

lemma saved_copy_bundle:
  assumes "saved_copy env app tree = r"
  shows "case r of Inr copy \<Rightarrow> map_option fst copy = sv_bundle tree | Inl e \<Rightarrow> e \<in> range SavedBroken"
  using assms by (auto simp: saved_copy_def split: option.splits sum.splits)

definition changes_at_most :: "restore_error \<Rightarrow> ('s, 'w, 'b, 'd, 'c) holdings \<Rightarrow> ('s, 'w, 'b, 'd, 'c) holdings \<Rightarrow> bool" where
  "changes_at_most e pr pr' \<longleftrightarrow>
     (case e of
        VolumesStuck f \<Rightarrow> (\<forall>k. k \<notin> {DATA, BULK} \<longrightarrow> pr_volumes pr' k = pr_volumes pr k) \<and> pr_config pr' = pr_config pr \<and>
          only_db (pr_world pr) (pr_world pr')
      | RekeyFailed f \<Rightarrow> pr_config pr' \<and> run_of (pr_world pr') = run_of (pr_world pr)
      | NotRebuilt i f \<Rightarrow> pr_config pr'
      | _ \<Rightarrow> untouched pr pr')"

text \<open>From the volumes on: what is written, after the backup that came first.\<close>

definition overwrite ::
    "('s, 'w, 'b, 'd, 'c, 'r) restore_env \<Rightarrow> restore_plan \<Rightarrow> ('s, 'b, 'c) saved_tree \<Rightarrow> 's \<Rightarrow> ('b \<times> app_spec) option
       \<Rightarrow> ('s, 'w, 'b, 'd, 'c, 'r, app_run_data option) restore_act" where
  "overwrite env plan tree config copy =
     bindA (replace_volumes env DATA (sv_volumes tree DATA)) (\<lambda>_.
     bindA (replace_volumes env BULK (sv_volumes tree BULK)) (\<lambda>_.
     bindA (put_config env (rt_backup plan) config) (\<lambda>_. put_copy (rt_backup plan) (rt_app plan) copy)))"

lemma overwrite_does:
  assumes "overwrite env plan tree config copy (pr, q) = (r, (pr', q'))"
    and "sv_config tree = Some config" and "map_option fst copy = sv_bundle tree"
  shows "case r of
      Inr data \<Rightarrow> as_saved env (rt_backup plan) tree pr pr' \<and> (data = None \<longleftrightarrow> sv_bundle tree = None) \<and>
        last_action (rt_app plan) (wd_load (pr_world pr')) = Some ''restored''
    | Inl e \<Rightarrow> e \<in> range VolumesStuck \<union> range RekeyFailed \<union> range (NotRebuilt (bu_run (rt_backup plan))) \<and> changes_at_most e pr pr' \<and>
        (e \<in> range (NotRebuilt (bu_run (rt_backup plan))) \<longrightarrow> as_saved env (rt_backup plan) tree pr pr' \<and>
          last_action (rt_app plan) (wd_load (pr_world pr')) = Some ''restore-failed'')"
    and "wd_docker (pr_world pr') = wd_docker (pr_world pr)"
    and "ld_providers (wd_load (pr_world pr')) = ld_providers (wd_load (pr_world pr))"
proof -
  let ?goal = "(case r of
      Inr data \<Rightarrow> as_saved env (rt_backup plan) tree pr pr' \<and> (data = None \<longleftrightarrow> sv_bundle tree = None) \<and>
        last_action (rt_app plan) (wd_load (pr_world pr')) = Some ''restored''
    | Inl e \<Rightarrow> e \<in> range VolumesStuck \<union> range RekeyFailed \<union> range (NotRebuilt (bu_run (rt_backup plan))) \<and> changes_at_most e pr pr' \<and>
        (e \<in> range (NotRebuilt (bu_run (rt_backup plan))) \<longrightarrow> as_saved env (rt_backup plan) tree pr pr' \<and>
          last_action (rt_app plan) (wd_load (pr_world pr')) = Some ''restore-failed'')) \<and>
    wd_docker (pr_world pr') = wd_docker (pr_world pr) \<and>
    ld_providers (wd_load (pr_world pr')) = ld_providers (wd_load (pr_world pr))"
  from assms(1) have ?goal unfolding overwrite_def
  proof (cases rule: stages_before)
    case (raised e pr1 q1)
    with replace_volumes_does [OF raised(1)] show ?thesis
      by (auto simp: changes_at_most_def only_db_refl)
  next
    case (went_on u pr1 q1)
    note d = replace_volumes_does [OF went_on(1)]
    from went_on(2) show ?thesis
    proof (cases rule: stages_before)
      case (raised e pr2 q2)
      with replace_volumes_does [OF raised(1)] d show ?thesis
        by (auto simp: changes_at_most_def only_db_refl)
    next
      case (went_on u2 pr2 q2)
      note b = replace_volumes_does [OF went_on(1)]
      have w2: "pr_world pr2 = pr_world pr" using d b by simp
      have vols: "volume_of pr2 kind n = (case saved_volume tree kind n of Some files \<Rightarrow> Some files | None \<Rightarrow> volume_of pr kind n)" for kind n
        using d b data_not_bulk by (auto simp: volume_of_def saved_volume_def volume_of_put split: option.split)
      from went_on(2) show ?thesis
      proof (cases rule: stages_before)
        case (raised e pr3 q3)
        from put_config_does [OF raised(1)] raised(2,3) w2 show ?thesis
          by (auto simp: changes_at_most_def run_of_def upd_ctx_def)
      next
        case (went_on u3 pr3 q3)
        note c = put_config_does [OF went_on(1)]
        note p = put_copy_does [OF went_on(2)]
        have vols': "volume_of pr' kind n = volume_of pr2 kind n" for kind n using c p by (simp add: volume_of_def)
        have docker: "wd_docker (pr_world pr') = wd_docker (pr_world pr)"
          and providers: "ld_providers (wd_load (pr_world pr')) = ld_providers (wd_load (pr_world pr))"
          using c p w2 by (auto simp: upd_ctx_def)
        have saved: "as_saved env (rt_backup plan) tree pr pr'"
          using c p assms(2,3) w2 unfolding as_saved_def
          by (auto simp: vols vols' upd_ctx_def Let_def split: option.splits)
        show ?thesis
          using p c assms(3) saved docker providers
          by (cases r) (auto simp: changes_at_most_def map_option_is_None)
      qed
    qed
  qed
  then show "case r of
      Inr data \<Rightarrow> as_saved env (rt_backup plan) tree pr pr' \<and> (data = None \<longleftrightarrow> sv_bundle tree = None) \<and>
        last_action (rt_app plan) (wd_load (pr_world pr')) = Some ''restored''
    | Inl e \<Rightarrow> e \<in> range VolumesStuck \<union> range RekeyFailed \<union> range (NotRebuilt (bu_run (rt_backup plan))) \<and> changes_at_most e pr pr' \<and>
        (e \<in> range (NotRebuilt (bu_run (rt_backup plan))) \<longrightarrow> as_saved env (rt_backup plan) tree pr pr' \<and>
          last_action (rt_app plan) (wd_load (pr_world pr')) = Some ''restore-failed'')"
    and "wd_docker (pr_world pr') = wd_docker (pr_world pr)"
    and "ld_providers (wd_load (pr_world pr')) = ld_providers (wd_load (pr_world pr))"
    by simp_all
qed

lemma untouched_then:
  assumes "untouched pr pr1"
  shows "as_saved env b tree pr1 pr' \<Longrightarrow> as_saved env b tree pr pr'" and "changes_at_most e pr1 pr' \<Longrightarrow> changes_at_most e pr pr'"
    and "wd_docker (pr_world pr1) = wd_docker (pr_world pr)"
    and "ld_providers (wd_load (pr_world pr1)) = ld_providers (wd_load (pr_world pr))"
proof -
  have v: "pr_volumes pr1 = pr_volumes pr" "pr_config pr1 = pr_config pr" and db: "only_db (pr_world pr) (pr_world pr1)"
    using assms by (simp_all add: untouched_def)
  note same = only_db_facts [OF db]
  show "as_saved env b tree pr1 pr' \<Longrightarrow> as_saved env b tree pr pr'"
    by (auto simp: as_saved_def volume_of_def v same Let_def split: option.splits)
  show "changes_at_most e pr1 pr' \<Longrightarrow> changes_at_most e pr pr'"
    using only_db_trans [OF db] by (auto simp: changes_at_most_def untouched_def v same split: restore_error.splits)
  show "wd_docker (pr_world pr1) = wd_docker (pr_world pr)"
    "ld_providers (wd_load (pr_world pr1)) = ld_providers (wd_load (pr_world pr))" by (simp_all add: same)
qed

definition overwrote :: "restore_error + 'a \<Rightarrow> bool" where
  "overwrote r \<longleftrightarrow> (case r of Inr x \<Rightarrow> True | Inl (VolumesStuck f) \<Rightarrow> True | Inl (RekeyFailed f) \<Rightarrow> True | Inl (NotRebuilt i f) \<Rightarrow> True | Inl e \<Rightarrow> False)"

lemma restore_from_does:
  assumes "restore_from env first plan tree (pr, q) = (r, (pr', q'))"
    and "running_now (be_run (xs_backup env)) (rt_app plan) (pr_world pr) = 0"
  shows "case r of
      Inr data \<Rightarrow> as_saved env (rt_backup plan) tree pr pr' \<and> (data = None \<longleftrightarrow> sv_bundle tree = None) \<and>
        last_action (rt_app plan) (wd_load (pr_world pr')) = Some ''restored''
    | Inl e \<Rightarrow> (\<forall>over. e \<noteq> ScratchStuck over) \<and> changes_at_most e pr pr' \<and>
        (e \<in> range (NotRebuilt (bu_run (rt_backup plan))) \<longrightarrow> as_saved env (rt_backup plan) tree pr pr' \<and>
          last_action (rt_app plan) (wd_load (pr_world pr')) = Some ''restore-failed'')" (is ?result)
    and "wd_docker (pr_world pr') = wd_docker (pr_world pr)" (is ?docker)
    and "ld_providers (wd_load (pr_world pr')) = ld_providers (wd_load (pr_world pr))" (is ?providers)
    and "overwrote r \<and> first \<and> has_state pr \<and> \<not> rt_undo plan \<Longrightarrow> pre_backup_taken env (rt_app plan) pr"
proof -
  let ?taken = "overwrote r \<and> first \<and> has_state pr \<and> \<not> rt_undo plan \<longrightarrow> pre_backup_taken env (rt_app plan) pr"
  have "?result \<and> ?docker \<and> ?providers \<and> ?taken"
  proof (cases "sv_config tree")
    case None
    with assms(1) show ?thesis
      by (auto simp: restore_from_def Let_def raise_def changes_at_most_def untouched_refl overwrote_def)
  next
    case (Some config)
    have saved: "case saved_copy env (rt_app plan) tree of Inr copy \<Rightarrow> map_option fst copy = sv_bundle tree | Inl e \<Rightarrow> e \<in> range SavedBroken"
      by (rule saved_copy_bundle [OF refl])
    show ?thesis
    proof (cases "saved_copy env (rt_app plan) tree")
      case (Inl e)
      with saved assms(1) Some show ?thesis
        by (auto simp: restore_from_def Let_def bindA_def askA_def changes_at_most_def untouched_refl overwrote_def)
    next
      case (Inr copy)
      let ?ahead = "first \<and> has_state pr \<and> \<not> rt_undo plan"
      from assms(1) have "bindA (whenA ?ahead (backup_first env (rt_app plan))) (\<lambda>_. overwrite env plan tree config copy) (pr, q) = (r, (pr', q'))"
        using Some Inr by (simp add: restore_from_def Let_def bindA_def [of "askA f" for f] askA_def overwrite_def)
      then show ?thesis
      proof (cases rule: stages_before)
        case (raised e pr1 q1)
        then have first: "?ahead" "backup_first env (rt_app plan) (pr, q) = (Inl e, (pr1, q1))"
          by (auto simp: whenA_def ret_def split: if_splits)
        from backup_first_does [OF first(2) assms(2)] raised show ?thesis
          by (auto simp: changes_at_most_def overwrote_def untouched_def only_db_facts)
      next
        case (went_on u pr1 q1)
        have before: "untouched pr pr1" "?ahead \<longrightarrow> pre_backup_taken env (rt_app plan) pr"
        proof -
          have "untouched pr pr1 \<and> (?ahead \<longrightarrow> pre_backup_taken env (rt_app plan) pr)"
          proof (cases ?ahead)
            case True
            then have "backup_first env (rt_app plan) (pr, q) = (Inr u, (pr1, q1))" using went_on(1) by (simp add: whenA_def)
            from backup_first_does [OF this assms(2)] show ?thesis by simp
          next
            case False
            then have "pr1 = pr" using went_on(1) by (auto simp: whenA_def ret_def split: if_splits)
            with False show ?thesis by (auto simp: untouched_refl)
          qed
          then show "untouched pr pr1" "?ahead \<longrightarrow> pre_backup_taken env (rt_app plan) pr" by blast+
        qed
        from Inr saved have "map_option fst copy = sv_bundle tree" by simp
        note does = overwrite_does [OF went_on(2) Some this]
        show ?thesis
          using does untouched_then [OF before(1)] before(2) by (cases r) auto
      qed
    qed
  qed
  then show ?result ?docker ?providers
    and "overwrote r \<and> first \<and> has_state pr \<and> \<not> rt_undo plan \<Longrightarrow> pre_backup_taken env (rt_app plan) pr"
    by blast+
qed

lemma app_backups_same: "app_backups env app (pr, q) = (r, (pr', q')) \<Longrightarrow> pr' = pr"
proof -
  let ?m = "bindA (in_repo (restic_snapshots (be_restic (xs_backup env)) [(''app'', app)])) (\<lambda>snaps. askA (\<lambda>st. listed (backups snaps (Some app))))"
  have k: "keeps same_world ?m" by (intro same_world_intros)
  assume "app_backups env app (pr, q) = (r, (pr', q'))"
  then show "pr' = pr"
    unfolding app_backups_def by (cases rule: with_repo_E) (auto dest: same_worldD [OF k])
qed

lemma restore_plan_does:
  assumes "restore_plan env app i (pr, q) = (Inr plan, (pr', q'))"
  shows "pr' = pr \<and> rt_app plan = app \<and> bu_run (rt_backup plan) = i \<and> running_now (be_run (xs_backup env)) app (pr_world pr) = 0"
proof -
  from assms obtain b pr1 q1 where 1: "find_backup env app i (pr, q) = (Inr b, (pr1, q1))"
    and rest: "bindA (askA (\<lambda>st. let n = running_now (be_run (xs_backup env)) app (pr_world (fst st))
        in if n > 0 then Inl (RestoreWhileRunning n) else Inr ())) (\<lambda>_.
     bindA (app_backups env app) (\<lambda>bs.
       ret \<lparr>rt_app = app, rt_backup = b, rt_undo = latest_pre_restore bs b\<rparr>)) (pr1, q1) = (Inr plan, (pr', q'))"
    unfolding restore_plan_def by (cases rule: stages_before) auto
  from 1 obtain available where "app_backups env app (pr, q) = (Inr available, (pr1, q1))" "List.find (\<lambda>b. bu_run b = i) available = Some b"
    unfolding find_backup_def by (cases rule: stages_before) (auto simp: ret_def raise_def split: option.splits)
  then have b: "pr1 = pr" "bu_run b = i" using app_backups_same by (auto simp: find_Some_iff)
  from rest b show ?thesis
    by (auto simp: bindA_def askA_def Let_def ret_def split: prod.splits sum.splits if_splits dest: app_backups_same)
qed

lemma eachA_in_repo:
  assumes "eachA (\<lambda>x. in_repo (f x)) xs (w, q) = (r, (w', q'))"
  shows "w' = w \<and> (r = Inr () \<longrightarrow> eachA f xs q = (Inr (), q'))"
  using assms
proof (induction xs arbitrary: q)
  case (Cons x xs)
  obtain y q1 where y: "f x q = (y, q1)" by (cases "f x q")
  show ?case
  proof (cases y)
    case (Inl e)
    with Cons.prems y show ?thesis by (auto simp: bindA_def in_repo_def)
  next
    case (Inr u)
    with y have "in_repo (f x) (w, q) = (Inr (), (w, q1))" by (simp add: in_repo_def)
    with Cons.prems have "eachA (\<lambda>x. in_repo (f x)) xs (w, q1) = (r, (w', q'))" by (simp add: bindA_def)
    from Cons.IH [OF this] y Inr show ?thesis by (simp add: bindA_def)
  qed
qed (simp add: ret_def)

text \<open>Every step of a restore together, for whatever plans one.\<close>

lemma restore_does:
  assumes "restore_plan env app i (pr, q) = (Inr plan, (pr0, q0))" and "restore env first plan (pr0, q0) = (r, (pr', q'))"
  shows "(case r of
      Inr data \<Rightarrow> (\<exists>q1. eachA (\<lambda>snap. restic_restore (be_restic (xs_backup env)) snap (xs_scratch env)) (saved_snapshots (rt_backup plan)) q0 = (Inr (), q1) \<and>
        (let tree = xs_saved env q1 (saved_snapshots (rt_backup plan)) in
           as_saved env (rt_backup plan) tree pr pr' \<and> (data = None \<longleftrightarrow> sv_bundle tree = None) \<and>
           last_action app (wd_load (pr_world pr')) = Some ''restored''))
    | Inl e \<Rightarrow> (e \<noteq> ScratchStuck True \<longrightarrow> changes_at_most e pr pr') \<and>
        (e \<in> range (NotRebuilt i) \<longrightarrow> last_action app (wd_load (pr_world pr')) = Some ''restore-failed'')) \<and>
    (overwrote r \<and> first \<and> has_state pr \<and> \<not> rt_undo plan \<longrightarrow> pre_backup_taken env app pr) \<and>
    wd_docker (pr_world pr') = wd_docker (pr_world pr) \<and>
    ld_providers (wd_load (pr_world pr')) = ld_providers (wd_load (pr_world pr))"
proof -
  have plan: "pr0 = pr" "rt_app plan = app" "bu_run (rt_backup plan) = i" "running_now (be_run (xs_backup env)) app (pr_world pr) = 0"
    using restore_plan_does [OF assms(1)] by blast+
  let ?snaps = "saved_snapshots (rt_backup plan)" and ?rv = "be_restic (xs_backup env)"
  let ?body = "bindA (with_repo RepoFailed (eachA (\<lambda>snap. in_repo (restic_restore ?rv snap (xs_scratch env))) ?snaps)) (\<lambda>_.
                  bindA (askA (\<lambda>st. Inr (xs_saved env (snd st) ?snaps))) (restore_from env first plan))"
  have refl: "changes_at_most e pr pr" if "e = RepoFailed f \<or> e = ScratchStuck over" for e f over
    using that by (auto simp: changes_at_most_def untouched_refl)
  show ?thesis
  proof (cases "xs_clears env False")
    case False
    with assms(2) plan refl show ?thesis
      by (auto simp: restore_def Let_def remove_scratch_def bindA_def raise_def overwrote_def)
  next
    case True
    obtain x where x: "?body (pr, q0) = (x, (pr', q'))" "r = (if xs_clears env True then x else Inl (ScratchStuck True))"
      using assms(2) True plan(1)
      by (auto simp: restore_def Let_def remove_scratch_def bindA_def [of "ret ()"] ret_def split: prod.splits if_splits)
    from x(1) show ?thesis
    proof (cases rule: stages_before)
      case (raised e pr1 q1)
      from raised(1) obtain f where "e = RepoFailed f" "pr1 = pr"
        by (cases rule: with_repo_E) (auto dest: eachA_in_repo)
      with raised x(2) refl show ?thesis by (auto simp: overwrote_def)
    next
      case (went_on u pr1 q1)
      from went_on(1) have read: "pr1 = pr" "eachA (\<lambda>snap. restic_restore ?rv snap (xs_scratch env)) ?snaps q0 = (Inr (), q1)"
        by (cases rule: with_repo_E; auto dest!: eachA_in_repo)+
      from went_on(2) have from_tree: "restore_from env first plan (xs_saved env q1 ?snaps) (pr, q1) = (x, (pr', q'))"
        by (simp add: bindA_def askA_def read(1))
      note does = restore_from_does [OF from_tree plan(4) [folded plan(2)], unfolded plan(2,3)]
      show ?thesis
        using does read x(2) by (cases x) (auto simp: Let_def overwrote_def)
    qed
  qed
qed

text \<open>C30: a restore that returns has put back each volume, the config table, re-encrypted where the master key
  changed since, and the loaded copy as the backup holds them, after a backup of what they replace, and
  left the volumes the backup has nothing of; one that fails says how far it came, and before the
  first volume is written nothing but kelso's own store changed. No container and no route is touched,
  so the routes of the copy it replaces stay published, also where the backup is of an app that was not loaded.\<close>

theorem restore_puts_back_what_was_saved:
  assumes "restore_plan env app i (pr, q) = (Inr plan, (pr0, q0))" and "restore env first plan (pr0, q0) = (r, (pr', q'))"
  shows "(case r of
      Inr data \<Rightarrow> (\<exists>q1. eachA (\<lambda>snap. restic_restore (be_restic (xs_backup env)) snap (xs_scratch env)) (saved_snapshots (rt_backup plan)) q0 = (Inr (), q1) \<and>
        (let tree = xs_saved env q1 (saved_snapshots (rt_backup plan)) in
           as_saved env (rt_backup plan) tree pr pr' \<and> (data = None \<longleftrightarrow> sv_bundle tree = None) \<and>
           last_action app (wd_load (pr_world pr')) = Some ''restored''))
    | Inl e \<Rightarrow> (e \<noteq> ScratchStuck True \<longrightarrow> changes_at_most e pr pr') \<and>
        (e \<in> range (NotRebuilt i) \<longrightarrow> last_action app (wd_load (pr_world pr')) = Some ''restore-failed'')) \<and>
    (overwrote r \<and> first \<and> has_state pr \<and> \<not> rt_undo plan \<longrightarrow> pre_backup_taken env app pr) \<and>
    wd_docker (pr_world pr') = wd_docker (pr_world pr) \<and>
    ld_providers (wd_load (pr_world pr')) = ld_providers (wd_load (pr_world pr))"
  by (rule restore_does [OF assms])

section \<open>An old backup of an app that was not loaded\<close>

definition demo_listing :: json where
  "demo_listing = JArr [JObj [(''id'', JStr ''s1''), (''time'', JStr ''2026-01-01T00:00:00Z''),
     (''tags'', JArr [JStr ''app=org.demo'', JStr ''run=20260101-000000'', JStr ''part=data'', JStr ''reason=manual''])]]"

definition demo_stocked :: "nat restic_env" where
  "demo_stocked = (demo_restic (\<lambda>args. False))\<lparr>rv_json := (\<lambda>l. Some demo_listing)\<rparr>"

definition demo_restore_env ::
    "((string, json) dict, string \<Rightarrow> noop_provider, string, unit_status list, string, nat) restore_env" where
  "demo_restore_env = \<lparr>xs_rm = demo_rm_env False, xs_backup = (demo_backup_env (\<lambda>args. False))\<lparr>be_restic := demo_stocked\<rparr>,
     xs_scratch = ''/k/var/temp/restore/org.demo'',
     xs_saved = (\<lambda>q snaps. \<lparr>sv_config = Some [], sv_bundle = None, sv_volumes = [''data'' \<mapsto> [(''db'', [''old rows''])]]\<rparr>),
     xs_clears = (\<lambda>over. True), xs_then = (\<lambda>t. None), xs_run_id = ''20260102-000000''\<rparr>"

definition demo_backup_found :: backup where
  "demo_backup_found = \<lparr>bu_app = Some ''org.demo'', bu_run = ''20260101-000000'', bu_time = restic_moment ''2026-01-01T00:00:00Z'', bu_reason = MANUAL,
     bu_version = [], bu_kelso_id = [], bu_snapshots = [(DATA, ''s1'')], bu_size = 0\<rparr>"

lemma demo_stocked_run:
  assumes "colon_path (restic_mounts demo_stocked binds wr) = None"
  shows "restic_run demo_stocked args binds wr n = (Inr (if take 1 args = [''snapshots''] then [] else ''done''), Suc n)"
  unfolding restic_run_def assms Let_def option.case
  by (simp add: bindA_def restic_call_def demo_stocked_def demo_restic_def LOCKED_def ret_def)

lemma demo_stocked_mounts: "colon_path (restic_mounts demo_stocked [] wr) = None"
  "colon_path (restic_mounts demo_stocked [(''/k/var/temp/restore/org.demo'', RESTIC_TARGET)] wr) = None"
  by (simp_all add: restic_mounts_def demo_stocked_def demo_restic_def colon_path_def RESTIC_REPO_def RESTIC_CACHE_def RESTIC_TARGET_def)

lemma demo_app_backups:
  "app_backups demo_restore_env ''org.demo'' (pr, n) = (Inr [demo_backup_found], (pr, Suc n))"
proof -
  have app: "is_app_id ''org.demo''" by code_simp
  have json: "rv_json demo_stocked l = Some demo_listing" "rv_utc demo_stocked t = Some t" for l t
    by (simp_all add: demo_stocked_def demo_restic_def)
  let ?tags = "[''app=org.demo'', ''run=20260101-000000'', ''part=data'', ''reason=manual'']"
  have tags: "restic_tags ?tags = [(''app'', ''org.demo''), (''run'', ''20260101-000000''), (''part'', ''data''), (''reason'', ''manual'')]"
    by code_simp
  let ?snap = "\<lparr>sn_id = ''s1'', sn_time = restic_moment ''2026-01-01T00:00:00Z'', sn_tags = restic_tags ?tags, sn_size = 0\<rparr>"
  have raws: "demo_listing = JArr [JObj [(''id'', JStr ''s1''), (''time'', JStr ''2026-01-01T00:00:00Z''), (''tags'', JArr (List.map JStr ?tags))]]"
    by (simp add: demo_listing_def)
  have snap: "snapshot_of demo_stocked (JObj [(''id'', JStr ''s1''), (''time'', JStr ''2026-01-01T00:00:00Z''), (''tags'', JArr (List.map JStr ?tags))]) = Inr ?snap"
    by (simp add: snapshot_of_def restic_timestamp_def json str_items_def truthy_def processed_def)
  have "backups [?snap] (Some ''org.demo'') = Inr [demo_backup_found]"
    by (simp add: backups_def with_tags_def add_snapshot_def tags case_app_id app backup_of_def tag_def demo_backup_found_def DATA_def MANUAL_def)
  then show ?thesis
    by (simp add: app_backups_def with_repo_def bindA_def in_repo_def restic_snapshots_def demo_restore_env_def demo_stocked_run
        demo_stocked_mounts askA_def json raws snap listed_def del: list.map)
qed

lemma demo_restore_plan:
  "restore_plan demo_restore_env ''org.demo'' ''20260101-000000'' (demo_holdings, 0) =
     (Inr \<lparr>rt_app = ''org.demo'', rt_backup = demo_backup_found, rt_undo = False\<rparr>, (demo_holdings, 2))"
proof -
  have found: "List.find (\<lambda>b. bu_run b = ''20260101-000000'') [demo_backup_found] = Some demo_backup_found"
    by (simp add: demo_backup_found_def)
  have old: "latest_pre_restore [demo_backup_found] demo_backup_found = False"
    by (simp add: latest_pre_restore_def demo_backup_found_def MANUAL_def PRE_RESTORE_def)
  have idle: "running_now (be_run (xs_backup demo_restore_env)) ''org.demo'' (pr_world demo_holdings) = 0"
    by (simp add: running_now_count demo_restore_env_def demo_backup_env_def demo_run_env_def demo_docker_def demo_holdings_def demo_world_def)
  show ?thesis
    unfolding restore_plan_def find_backup_def bindA_def demo_app_backups prod.case sum.case found option.case ret_def askA_def
    by (simp add: demo_app_backups idle old)
qed

theorem restore_puts_back_what_was_saved_witness:
  "\<exists>plan pr' q'. restore_plan demo_restore_env ''org.demo'' ''20260101-000000'' (demo_holdings, 0) = (Inr plan, (demo_holdings, 2)) \<and>
     restore demo_restore_env False plan (demo_holdings, 2) = (Inr None, (pr', q')) \<and>
     volume_of pr' ''data'' ''db'' = Some [''old rows''] \<and> volume_of pr' ''temp'' ''cache'' = Some [''page''] \<and>
     rn_bundle (run_of (pr_world pr')) = None \<and> ld_providers (wd_load (pr_world pr')) = demo_providers"
proof -
  let ?plan = "\<lparr>rt_app = ''org.demo'', rt_backup = demo_backup_found, rt_undo = False\<rparr>"
  let ?env = demo_restore_env
  have snaps: "saved_snapshots demo_backup_found = [''s1'']"
    by (simp add: saved_snapshots_def demo_backup_found_def List.map_filter_def DATA_def BULK_def)
  have once: "restic_restore (be_restic (xs_backup ?env)) ''s1'' (xs_scratch ?env) n = (Inr (), Suc n)" for n
    by (simp add: restic_restore_def demo_restore_env_def bindA_def demo_stocked_run demo_stocked_mounts ret_def)
  obtain r pr' q' where run: "restore ?env False ?plan (demo_holdings, 2) = (r, (pr', q'))"
    by (cases "restore ?env False ?plan (demo_holdings, 2)") auto
  let ?tree = "\<lparr>sv_config = Some [], sv_bundle = None, sv_volumes = [''data'' \<mapsto> [(''db'', [''old rows''])]]\<rparr>"
  have env: "xs_saved ?env = (\<lambda>q s. ?tree)" "xs_clears ?env = (\<lambda>over. True)" "xs_then ?env = (\<lambda>t. None)"
      "rm_root (xs_rm ?env) = (\<lambda>seen. None)"
    by (simp_all add: demo_restore_env_def demo_rm_env_def)
  have volumes: "\<exists>pr1. replace_volumes ?env kind restored (pr, n) = (Inr (), (pr1, n))" for kind restored pr and n :: nat
    by (auto simp: replace_volumes_def held_upd_def as_root_def run_as_root_def env Let_def bindA_def update_def ret_def split: option.split)
  have config: "\<exists>pr1. put_config ?env b s (pr, n) = (Inr (), (pr1, n))" for b s pr and n :: nat
    by (simp add: put_config_def env held_upd_def loads_upd_def bindA_def update_def ret_def)
  have copy: "\<exists>pr1. put_copy b app None (pr, n) = (Inr None, (pr1, n))" for b app pr and n :: nat
    by (simp add: put_copy_def held_upd_def loads_upd_def bindA_def update_def ret_def)
  obtain pr1 where 1: "replace_volumes ?env DATA (sv_volumes ?tree DATA) (demo_holdings, 3) = (Inr (), (pr1, 3 :: nat))" using volumes by blast
  obtain pr2 where 2: "replace_volumes ?env BULK (sv_volumes ?tree BULK) (pr1, 3) = (Inr (), (pr2, 3 :: nat))" using volumes by blast
  obtain pr3 where 3: "put_config ?env demo_backup_found [] (pr2, 3) = (Inr (), (pr3, 3 :: nat))" using config by blast
  obtain pr4 where 4: "put_copy demo_backup_found ''org.demo'' None (pr3, 3) = (Inr None, (pr4, 3 :: nat))" using copy by blast
  have "restore_from ?env False ?plan ?tree (demo_holdings, 3) = (Inr None, (pr4, 3))"
    using 1 2 3 4 by (simp add: restore_from_def Let_def DATA_def BULK_def saved_copy_def bindA_def askA_def whenA_def ret_def)
  then have "restore ?env False ?plan (demo_holdings, 2) = (Inr None, (pr4, 3))"
    by (simp add: restore_def Let_def remove_scratch_def env snaps bindA_def ret_def with_repo_def in_repo_def once askA_def)
  then have "r = Inr None" using run by simp
  note does = restore_puts_back_what_was_saved [OF demo_restore_plan, of False r pr' q', OF run]
  from \<open>r = Inr None\<close> does have saved: "as_saved ?env demo_backup_found ?tree demo_holdings pr'"
    by (auto simp: snaps Let_def env)
  have "volume_of pr' ''data'' ''db'' = Some [''old rows'']" "volume_of pr' ''temp'' ''cache'' = Some [''page'']"
    "rn_bundle (run_of (pr_world pr')) = None"
    using saved by (auto simp: as_saved_def saved_volume_def volume_of_def demo_restore_env_def demo_holdings_def DATA_def BULK_def)
  moreover have "ld_providers (wd_load (pr_world pr')) = demo_providers"
    using does by (simp add: demo_holdings_def demo_world_def demo_load_state_def)
  ultimately show ?thesis using demo_restore_plan run \<open>r = Inr None\<close> by blast
qed



end
