(* ===== verification/Cron.thy ===== *)
theory Cron
  imports Updown Backup
begin

text \<open>
  \<^verbatim>\<open>kelso/lib/lifecycle/cron.py\<close>: when each app's \<^verbatim>\<open>[cron]\<close> commands run next, and the tick that runs those that
  are due. Instants are of an ordered type \<open>'t\<close>; the host's clock, which reads an instant as a time of day
  and a time of day as an instant, is a parameter, and so are the texts instants are kept as.
\<close>

record 't clock =
  ck_read :: "string \<Rightarrow> 't option"
  ck_text :: "'t \<Rightarrow> string"
  ck_local :: "'t \<Rightarrow> moment"
  ck_back :: "moment \<Rightarrow> 't"

datatype tick_error =
    TickStore store_error
  | BadInstant string
  | TickSchedule cron_error
  | NoSuchUnit string

record 't cron_run =
  ce_app :: string
  ce_name :: string
  ce_command :: string
  ce_args :: string
  ce_schedule :: string
  ce_next :: 't
  ce_runnable :: bool

section \<open>When\<close>

definition cron_instant :: "'t clock \<Rightarrow> string \<Rightarrow> tick_error + 't" where
  "cron_instant ck txt = (case ck_read ck txt of None \<Rightarrow> Inl (BadInstant txt) | Some t \<Rightarrow> Inr t)"

text \<open>The search ends (\<open>Cronexpr.search_total\<close>), so its \<open>None\<close> does not occur.\<close>

definition cron_next :: "'t clock \<Rightarrow> string \<Rightarrow> 't \<Rightarrow> tick_error + 't" where
  "cron_next ck schedule since =
     (case parse_schedule schedule of
        Inl e \<Rightarrow> Inl (TickSchedule e)
      | Inr s \<Rightarrow> (case next_after s (ck_local ck since) of
            Some (Inr m) \<Rightarrow> Inr (ck_back ck m)
          | Some (Inl e) \<Rightarrow> Inl (TickSchedule e)
          | None \<Rightarrow> Inl (TickSchedule NeverMatches)))"

section \<open>What\<close>

text \<open>\<open>log\<close> is the activity log by key; \<open>ids\<close> are the apps kelso observes.\<close>

definition cron_key :: "string \<Rightarrow> string \<Rightarrow> string" where
  "cron_key app name = ''apps/'' @ app @ ''/cron/'' @ name"

definition cron_since ::
    "'t clock \<Rightarrow> (string, string) dict \<Rightarrow> json \<Rightarrow> 't \<Rightarrow> string \<Rightarrow> string \<Rightarrow> tick_error + 't" where
  "cron_since ck log loaded_at now app name =
     (case map_of log (cron_key app name) of
        Some (c # cs) \<Rightarrow> cron_instant ck (c # cs)
      | _ \<Rightarrow> if \<not> truthy loaded_at then Inr now
             else (case loaded_at of JStr s \<Rightarrow> cron_instant ck s | _ \<Rightarrow> Inl (TickStore WrongType)))"

definition app_cron_runs ::
    "('s, 'w, 'b, 'd) envs \<Rightarrow> 't clock \<Rightarrow> (string, string) dict \<Rightarrow> 't \<Rightarrow> ('s, 'w, 'b, 'd) box \<Rightarrow> string
       \<Rightarrow> tick_error + 't cron_run list" where
  "app_cron_runs envs ck log now bx app =
     (let w = focus app bx; ctx = ld_ctx (wd_load w) in
      case loaded_spec (re_load (envs app)) app (run_of w) of
        Inr (Some spec) \<Rightarrow>
          if m_cron (sp_manifest spec) = [] then Inr []
          else
            let up_units = List.map us_run_unit (List.filter us_running (do_containers (re_docker (envs app)) (wd_docker w) app))
            in (case get_meta (rx_ops ctx) (rx_app ctx) ''loaded_at'' of
                  Inl e \<Rightarrow> Inl (TickStore e)
                | Inr loaded_at \<Rightarrow>
                    traverse (\<lambda>(name, entry).
                      andthen (cron_since ck log loaded_at now app name) (\<lambda>since.
                      andthen (cron_next ck (cr_schedule entry) since) (\<lambda>next_at.
                        case map_of (sp_commands spec) (cr_command entry) of
                          None \<Rightarrow> Inl (NoSuchUnit (cr_command entry))
                        | Some cmd \<Rightarrow> Inr \<lparr>ce_app = app, ce_name = name, ce_command = cr_command entry, ce_args = cr_args entry,
                            ce_schedule = cr_schedule entry, ce_next = next_at, ce_runnable = (cmd_run_unit cmd \<in> set up_units)\<rparr>)))
                      (m_cron (sp_manifest spec)))
      | _ \<Rightarrow> Inr [])"

definition run_key :: "'t cron_run \<Rightarrow> 't \<times> string \<times> string" where
  "run_key r = (ce_next r, ce_app r, ce_name r)"

definition cron_runs ::
    "('s, 'w, 'b, 'd) envs \<Rightarrow> ('t :: linorder) clock \<Rightarrow> string list \<Rightarrow> (string, string) dict \<Rightarrow> 't \<Rightarrow> ('s, 'w, 'b, 'd) box
       \<Rightarrow> tick_error + 't cron_run list" where
  "cron_runs envs ck ids log now bx =
     andthen (traverse (app_cron_runs envs ck log now bx) ids) (\<lambda>found. Inr (sort_key run_key (concat found)))"

section \<open>The tick\<close>

datatype cron_outcome = CronLocked | BadArgs lex_error | CommandFailed run_error | CommandExited int

text \<open>\<open>held\<close>: whether another process holds the app's lock or kelso's for too long; \<open>started\<close>: when a job began.\<close>

definition run_cron ::
    "('s, 'w, 'b, 'd) envs \<Rightarrow> 't clock \<Rightarrow> (string \<Rightarrow> bool) \<Rightarrow> ('t cron_run \<Rightarrow> 't) \<Rightarrow> 't cron_run
       \<Rightarrow> (string, string) dict \<times> ('s, 'w, 'b, 'd) box \<Rightarrow> cron_outcome \<times> (string, string) dict \<times> ('s, 'w, 'b, 'd) box" where
  "run_cron envs ck held started job st =
     (let app = ce_app job; log = AList.update (cron_key app (ce_name job)) (ck_text ck (started job)) (fst st)
      in if held app then (CronLocked, st)
         else (case shlex_split (ce_args job) of
                 Inl e \<Rightarrow> (BadArgs e, log, snd st)
               | Inr args \<Rightarrow>
                   (case run_command (envs app) app (ce_command job) args (focus app (snd st)) of
                      (Inl e, w) \<Rightarrow> (CommandFailed e, log, refocus app w (snd st))
                    | (Inr code, w) \<Rightarrow> (CommandExited code, log, refocus app w (snd st)))))"

fun run_crons ::
    "('s, 'w, 'b, 'd) envs \<Rightarrow> 't clock \<Rightarrow> (string \<Rightarrow> bool) \<Rightarrow> ('t cron_run \<Rightarrow> 't) \<Rightarrow> 't cron_run list
       \<Rightarrow> (string, string) dict \<times> ('s, 'w, 'b, 'd) box
       \<Rightarrow> ('t cron_run \<times> cron_outcome) list \<times> (string, string) dict \<times> ('s, 'w, 'b, 'd) box" where
  "run_crons envs ck held started [] st = ([], st)"
| "run_crons envs ck held started (job # jobs) st =
     (case run_cron envs ck held started job st of (out, st1) \<Rightarrow>
        case run_crons envs ck held started jobs st1 of (outs, st2) \<Rightarrow> ((job, out) # outs, st2))"

text \<open>\<open>Inr None\<close> when another tick runs.\<close>

definition tick ::
    "('s, 'w, 'b, 'd) envs \<Rightarrow> ('t :: linorder) clock \<Rightarrow> (string \<Rightarrow> bool) \<Rightarrow> ('t cron_run \<Rightarrow> 't) \<Rightarrow> bool \<Rightarrow> string list \<Rightarrow> 't
       \<Rightarrow> (string, string) dict \<times> ('s, 'w, 'b, 'd) box
       \<Rightarrow> (tick_error + ('t cron_run \<times> cron_outcome) list option) \<times> (string, string) dict \<times> ('s, 'w, 'b, 'd) box" where
  "tick envs ck held started ticking ids now st =
     (if ticking then (Inr None, st)
      else (case cron_runs envs ck ids (fst st) now (snd st) of
              Inl e \<Rightarrow> (Inl e, st)
            | Inr runs \<Rightarrow>
                (case run_crons envs ck held started (List.filter (\<lambda>r. ce_next r \<le> now \<and> ce_runnable r) runs) st of
                   (outs, st') \<Rightarrow> (Inr (Some outs), st'))))"

section \<open>Listings\<close>

lemma cron_next_first:
  assumes "cron_next ck schedule since = Inr t" and "valid_moment (ck_local ck since)"
  obtains s m where "parse_schedule schedule = Inr s" "t = ck_back ck m" "valid_moment m" "ck_local ck since < m" "schedule_matches s m"
    "\<forall>x. valid_moment x \<longrightarrow> ck_local ck since < x \<longrightarrow> x < m \<longrightarrow> \<not> schedule_matches s x"
proof -
  from assms(1) obtain s m where s: "parse_schedule schedule = Inr s" "next_after s (ck_local ck since) = Some (Inr m)" "t = ck_back ck m"
    by (auto simp: cron_next_def split: sum.splits option.splits)
  from next_after_finds [OF assms(2) s(2)] s that show ?thesis by blast
qed

text \<open>Each job of a listing is one its app declares, with the time its schedule gives.\<close>

definition listed_from ::
    "('s, 'w, 'b, 'd) envs \<Rightarrow> 't clock \<Rightarrow> (string, string) dict \<Rightarrow> 't \<Rightarrow> ('s, 'w, 'b, 'd) box \<Rightarrow> 't cron_run \<Rightarrow> bool" where
  "listed_from envs ck log now bx r \<longleftrightarrow>
     (let app = ce_app r; w = focus app bx; ctx = ld_ctx (wd_load w)
      in \<exists>spec entry loaded_at since. loaded_spec (re_load (envs app)) app (run_of w) = Inr (Some spec) \<and>
        (ce_name r, entry) \<in> set (m_cron (sp_manifest spec)) \<and> ce_schedule r = cr_schedule entry \<and>
        ce_command r = cr_command entry \<and> ce_args r = cr_args entry \<and>
        get_meta (rx_ops ctx) (rx_app ctx) ''loaded_at'' = Inr loaded_at \<and>
        cron_since ck log loaded_at now app (ce_name r) = Inr since \<and> cron_next ck (cr_schedule entry) since = Inr (ce_next r))"

lemma app_cron_runs_listed:
  assumes "app_cron_runs envs ck log now bx app = Inr rs" and "r \<in> set rs"
  shows "listed_from envs ck log now bx r \<and> ce_app r = app"
proof -
  let ?w = "focus app bx" and ?ctx = "ld_ctx (wd_load (focus app bx))"
  from assms obtain spec where spec: "loaded_spec (re_load (envs app)) app (run_of ?w) = Inr (Some spec)"
    by (auto simp: app_cron_runs_def Let_def split: sum.splits option.splits)
  let ?up = "List.map us_run_unit (List.filter us_running (do_containers (re_docker (envs app)) (wd_docker ?w) app))"
  from assms spec obtain loaded_at where at: "get_meta (rx_ops ?ctx) (rx_app ?ctx) ''loaded_at'' = Inr loaded_at"
    by (auto simp: app_cron_runs_def Let_def split: sum.splits if_splits)
  let ?row = "\<lambda>(name, entry). andthen (cron_since ck log loaded_at now app name) (\<lambda>since.
        andthen (cron_next ck (cr_schedule entry) since) (\<lambda>next_at.
          case map_of (sp_commands spec) (cr_command entry) of
            None \<Rightarrow> Inl (NoSuchUnit (cr_command entry))
          | Some cmd \<Rightarrow> Inr \<lparr>ce_app = app, ce_name = name, ce_command = cr_command entry, ce_args = cr_args entry,
              ce_schedule = cr_schedule entry, ce_next = next_at, ce_runnable = (cmd_run_unit cmd \<in> set ?up)\<rparr>))"
  have "traverse ?row (m_cron (sp_manifest spec)) = Inr rs"
    using assms(1) by (auto simp: app_cron_runs_def Let_def spec at split: if_splits)
  from traverse_Inr_set [OF this assms(2)] obtain name entry where
    row: "(name, entry) \<in> set (m_cron (sp_manifest spec))" "?row (name, entry) = Inr r" by auto
  from row(2) obtain since next_at where
    "cron_since ck log loaded_at now app name = Inr since" "cron_next ck (cr_schedule entry) since = Inr next_at"
    "ce_app r = app" "ce_name r = name" "ce_command r = cr_command entry" "ce_args r = cr_args entry"
    "ce_schedule r = cr_schedule entry" "ce_next r = next_at"
    by (auto simp: andthen_Inr split: option.splits)
  with row(1) spec at show ?thesis unfolding listed_from_def Let_def by metis
qed

lemma cron_runs_listed:
  assumes "cron_runs envs ck ids log now bx = Inr runs"
  shows "sorted (List.map run_key runs)" and "r \<in> set runs \<Longrightarrow> listed_from envs ck log now bx r \<and> ce_app r \<in> set ids"
proof -
  from assms obtain found where found: "traverse (app_cron_runs envs ck log now bx) ids = Inr found" "runs = sort_key run_key (concat found)"
    by (auto simp: cron_runs_def andthen_Inr)
  show "sorted (List.map run_key runs)" by (simp add: found(2))
  assume "r \<in> set runs"
  then obtain rs where rs: "rs \<in> set found" "r \<in> set rs" by (auto simp: found(2))
  from traverse_Inr_set [OF found(1) rs(1)] obtain app where "app \<in> set ids" "app_cron_runs envs ck log now bx app = Inr rs" by auto
  with app_cron_runs_listed [OF this(2) rs(2)] show "listed_from envs ck log now bx r \<and> ce_app r \<in> set ids" by simp
qed

section \<open>What a tick does\<close>

text \<open>What kelso holds of every app: its store, loaded copy, last action and routes.\<close>

definition same_holding :: "('s, 'w, 'b, 'd) box \<Rightarrow> ('s, 'w, 'b, 'd) box \<Rightarrow> bool" where
  "same_holding bx bx' \<longleftrightarrow> bx_app bx' = bx_app bx \<and> (\<forall>app. rn_bundle (bx_run bx' app) = rn_bundle (bx_run bx app)) \<and>
     ld_actions (wd_load (bx_world bx')) = ld_actions (wd_load (bx_world bx)) \<and>
     ld_providers (wd_load (bx_world bx')) = ld_providers (wd_load (bx_world bx)) \<and>
     rx_db (ld_ctx (wd_load (bx_world bx'))) = rx_db (ld_ctx (wd_load (bx_world bx)))"

lemma run_command_holding:
  assumes "run_command env app name args (focus app bx) = (r, w)"
  shows "same_holding bx (refocus app w bx)"
proof -
  from run_command_leaves [OF assms] have
    "wd_load w = wd_load (focus app bx) \<or> wd_load w = on_run unlink_host_volumes (wd_load (focus app bx))" by blast
  then show ?thesis
    by (auto simp: same_holding_def refocus_def focus_def run_of_def on_run_def unlink_host_volumes_def Let_def)
qed

lemma run_cron_does:
  assumes "run_cron envs ck held started job (log, bx) = (out, (log', bx'))"
  shows "log' = (if out = CronLocked then log
      else AList.update (cron_key (ce_app job) (ce_name job)) (ck_text ck (started job)) log)" and "same_holding bx bx'"
    and "out = CronLocked \<longleftrightarrow> held (ce_app job)"
proof -
  have refl: "same_holding bx bx" by (simp add: same_holding_def)
  have "(log' = (if out = CronLocked then log else AList.update (cron_key (ce_app job) (ce_name job)) (ck_text ck (started job)) log)) \<and>
      same_holding bx bx' \<and> (out = CronLocked \<longleftrightarrow> held (ce_app job))"
    using assms refl
    by (auto simp: run_cron_def Let_def split: if_splits sum.splits prod.splits dest: run_command_holding)
  then show "log' = (if out = CronLocked then log
      else AList.update (cron_key (ce_app job) (ce_name job)) (ck_text ck (started job)) log)" "same_holding bx bx'"
    "out = CronLocked \<longleftrightarrow> held (ce_app job)" by blast+
qed

definition job_key :: "'t cron_run \<Rightarrow> string" where
  "job_key r = cron_key (ce_app r) (ce_name r)"

text \<open>When the last job of a key to be recorded began.\<close>

fun last_start :: "('t cron_run \<Rightarrow> 't) \<Rightarrow> string \<Rightarrow> ('t cron_run \<times> cron_outcome) list \<Rightarrow> 't option" where
  "last_start started key [] = None"
| "last_start started key ((job, out) # outs) =
     (case last_start started key outs of
        Some t \<Rightarrow> Some t
      | None \<Rightarrow> if job_key job = key \<and> out \<noteq> CronLocked then Some (started job) else None)"

lemma run_crons_does:
  assumes "run_crons envs ck held started jobs (log, bx) = (outs, (log', bx'))"
  shows "List.map fst outs = jobs" and "same_holding bx bx'"
    and "\<forall>job out. (job, out) \<in> set outs \<longrightarrow> (out = CronLocked \<longleftrightarrow> held (ce_app job))"
    and "map_of log' key = (case last_start started key outs of Some t \<Rightarrow> Some (ck_text ck t) | None \<Rightarrow> map_of log key)"
proof -
  have "List.map fst outs = jobs \<and> same_holding bx bx' \<and>
    (\<forall>job out. (job, out) \<in> set outs \<longrightarrow> (out = CronLocked \<longleftrightarrow> held (ce_app job))) \<and>
    map_of log' key = (case last_start started key outs of Some t \<Rightarrow> Some (ck_text ck t) | None \<Rightarrow> map_of log key)"
    using assms
  proof (induction jobs arbitrary: log bx outs)
    case Nil
    then show ?case by (simp add: same_holding_def)
  next
    case (Cons job jobs)
    obtain out log1 bx1 where one: "run_cron envs ck held started job (log, bx) = (out, (log1, bx1))"
      by (cases "run_cron envs ck held started job (log, bx)") auto
    obtain outs' where rest: "run_crons envs ck held started jobs (log1, bx1) = (outs', (log', bx'))" "outs = (job, out) # outs'"
      using Cons.prems one by (auto split: prod.splits)
    note does = run_cron_does [OF one] and IH = Cons.IH [OF rest(1)]
    have "same_holding bx bx'" using does(2) IH by (simp add: same_holding_def)
    moreover have "map_of log' key = (case last_start started key outs of Some t \<Rightarrow> Some (ck_text ck t) | None \<Rightarrow> map_of log key)"
      using IH does(1) by (auto simp: rest(2) job_key_def update_conv' split: option.splits)
    ultimately show ?case using IH does(3) rest(2) by auto
  qed
  then show "List.map fst outs = jobs" "same_holding bx bx'"
    "\<forall>job out. (job, out) \<in> set outs \<longrightarrow> (out = CronLocked \<longleftrightarrow> held (ce_app job))"
    "map_of log' key = (case last_start started key outs of Some t \<Rightarrow> Some (ck_text ck t) | None \<Rightarrow> map_of log key)" by simp_all
qed

section \<open>Properties\<close>

text \<open>C31: a tick runs exactly the jobs that are due and whose unit is up, soonest first, each once; each job it
  got the locks for is recorded with the time it began, the others keep what is recorded of them;
  and nothing kelso holds of any app changes, whatever the commands do.\<close>

theorem tick_runs_what_is_due:
  assumes "tick envs ck held started ticking ids now (log, bx) = (Inr (Some outs), (log', bx'))"
  shows "\<exists>runs. cron_runs envs ck ids log now bx = Inr runs \<and>
    List.map fst outs = List.filter (\<lambda>r. ce_next r \<le> now \<and> ce_runnable r) runs \<and>
    sorted (List.map (\<lambda>(job, out). (ce_next job, ce_app job, ce_name job)) outs) \<and> same_holding bx bx' \<and>
    (\<forall>(job, out) \<in> set outs. out = CronLocked \<longleftrightarrow> held (ce_app job)) \<and>
    (\<forall>key. map_of log' key = (case last_start started key outs of Some t \<Rightarrow> Some (ck_text ck t) | None \<Rightarrow> map_of log key))"
proof -
  let ?due = "\<lambda>r. ce_next r \<le> now \<and> ce_runnable r"
  obtain runs where runs: "cron_runs envs ck ids log now bx = Inr runs"
    and ran: "run_crons envs ck held started (List.filter ?due runs) (log, bx) = (outs, (log', bx'))"
    using assms by (auto simp: tick_def split: if_splits sum.splits prod.splits)
  have "sorted (List.map run_key (List.filter ?due runs))"
    by (rule sorted_filter [OF cron_runs_listed(1) [OF runs]])
  then have "sorted (List.map (run_key \<circ> fst) outs)" using run_crons_does(1) [OF ran] by (metis list.map_comp)
  moreover have "List.map (run_key \<circ> fst) outs = List.map (\<lambda>(job, out). (ce_next job, ce_app job, ce_name job)) outs"
    by (auto simp: run_key_def)
  ultimately have "sorted (List.map (\<lambda>(job, out). (ce_next job, ce_app job, ce_name job)) outs)" by (simp only:)
  with runs run_crons_does [OF ran] show ?thesis by (intro exI [of _ runs]) auto
qed

text \<open>C32: once a tick has begun a job, the job is not due again before the next time its schedule names after
  that beginning, however many times were missed before it, provided the host's clock never takes a later time of day back to an
  earlier instant. A clock that is put back breaks that (\<open>repeated_hour_is_due_at_once\<close>).\<close>

theorem begun_job_waits_for_its_next_time:
  assumes "\<And>t m. valid_moment m \<Longrightarrow> ck_local ck t < m \<Longrightarrow> t < ck_back ck m" and "\<And>t. valid_moment (ck_local ck t)"
    and "\<And>t. ck_read ck (ck_text ck t) = Some t \<and> ck_text ck t \<noteq> []"
    and "tick envs ck held started ticking ids now (log, bx) = (Inr (Some outs), (log', bx'))"
    and "last_start started (cron_key (ce_app r) (ce_name r)) outs = Some t"
    and "cron_runs envs' ck ids' log' now' bx'' = Inr runs" and "r \<in> set runs"
  shows "t < ce_next r \<and> (\<exists>s m. parse_schedule (ce_schedule r) = Inr s \<and> ce_next r = ck_back ck m \<and> schedule_matches s m \<and>
    ck_local ck t < m \<and> (\<forall>x. valid_moment x \<longrightarrow> ck_local ck t < x \<longrightarrow> x < m \<longrightarrow> \<not> schedule_matches s x))"
proof -
  obtain jobs where ran: "run_crons envs ck held started jobs (log, bx) = (outs, (log', bx'))"
    using assms(4) by (auto simp: tick_def split: if_splits sum.splits prod.splits)
  have kept: "map_of log' (cron_key (ce_app r) (ce_name r)) = Some (ck_text ck t)"
    using run_crons_does(4) [OF ran] assms(5) by simp
  from cron_runs_listed(2) [OF assms(6,7)] obtain entry :: cron_entry and loaded_at since where
    "ce_schedule r = cr_schedule entry" "cron_since ck log' loaded_at now' (ce_app r) (ce_name r) = Inr since"
    "cron_next ck (cr_schedule entry) since = Inr (ce_next r)"
    unfolding listed_from_def Let_def by blast
  moreover have "cron_since ck log' loaded_at now' (ce_app r) (ce_name r) = Inr t"
    using kept assms(3) [of t] by (auto simp: cron_since_def cron_instant_def split: list.split)
  ultimately have since: "cron_next ck (ce_schedule r) t = Inr (ce_next r)" by simp
  from cron_next_first [OF since assms(2)] assms(1) show ?thesis by metis
qed

section \<open>A job every minute\<close>

definition demo_cron_manifest :: manifest where
  "demo_cron_manifest = (demo_manifest ''/var/db'')\<lparr>m_cron := [(''dump'', \<lparr>cr_schedule = ''* * * * *'', cr_command = ''backup'', cr_args = []\<rparr>)]\<rparr>"

lemma every_minute_next:
  assumes "y + SEARCH_DAYS \<le> MAXYEAR" and "m \<in> {1..12}" and "h < 24" and "mi < 59"
  shows "next_after every_minute (y, m, d, h, mi) = Some (Inr (y, m, d, h, Suc mi))"
proof -
  obtain y' m' d' where l: "add_days SEARCH_DAYS (y, m, d) = Some (y', m', d')" "(y, m, d) < (y', m', d')"
    using add_days_grows [OF assms(1), of m d] by (auto simp: SEARCH_DAYS_def)
  have "search_step every_minute (y, m, d, h, Suc mi) = Found (y, m, d, h, Suc mi)"
    using assms(2-4) by (simp add: every_minute_def)
  moreover have "(y, m, d, h, Suc mi) < (y', m', d', h, Suc mi)" using l(2) by auto
  moreover have "search_limit (y, m, d, h, Suc mi) = Some (y', m', d', h, Suc mi)" using l(1) by simp
  ultimately show ?thesis
    using assms(4) by (simp add: next_after_def search_from.simps)
qed

lemma demo_cron_accepted: "parse_manifest ''org.demo'' demo_cron_manifest = Inr demo_cron_manifest"
proof -
  have "section_problems demo_cron_manifest = []"
    by (simp add: section_eval demo_manifest_def demo_cron_manifest_def)
  moreover have "cron_problem ''* * * * *'' = None"
    using every_minute_next [of 2000 1 0 0 1]
    by (simp add: cron_problem_def parse_every_minute SEARCH_DAYS_def MAXYEAR_def)
  then have "validate_manifest ''org.demo'' demo_cron_manifest = []"
    by (simp add: validate_eval demo_manifest_def demo_cron_manifest_def shlex_split_def emit_word_def)
  ultimately show ?thesis by (simp add: parse_manifest_def)
qed

definition demo_cron_env :: "((string, json) dict, string \<Rightarrow> noop_provider, string, unit_status list) run_env" where
  "demo_cron_env = demo_run_env\<lparr>re_load := (re_load demo_run_env)\<lparr>en_manifest := (\<lambda>b. Inr demo_cron_manifest)\<rparr>\<rparr>"

definition demo_clock_minutes :: "nat clock" where
  "demo_clock_minutes = \<lparr>ck_read = (\<lambda>s. Some (length s - 1)), ck_text = (\<lambda>t. replicate (Suc t) (CHR ''x'')),
     ck_local = (\<lambda>t. if t = 0 then (2026, 2, 28, 5, 0) else if t = 1 then (2026, 2, 28, 5, 1) else (9999, 12, 31, 23, 59)),
     ck_back = (\<lambda>m. if m \<le> (2026, 2, 28, 5, 0) then 0 else if m \<le> (2026, 2, 28, 5, 1) then 1 else 2)\<rparr>"

lemma demo_clock_forward:
  assumes "valid_moment m" and "ck_local demo_clock_minutes t < m"
  shows "t < ck_back demo_clock_minutes m"
proof -
  have top: "m \<le> (9999, 12, 31, 23, 59)"
  proof (cases m)
    case (fields y mo d h mi)
    moreover have "days_in_month y mo \<le> 31" by (simp add: days_in_month_def)
    ultimately show ?thesis using assms(1) by (auto simp: MAXYEAR_def)
  qed
  have later: "\<not> m \<le> (2026, 2, 28, 5, 0)" if "(2026, 2, 28, 5, 1) < m"
    using less_le_trans [OF that, of "(2026, 2, 28, 5, 0)"] by auto
  show ?thesis
  proof (cases "t \<le> 1")
    case True
    with assms(2) later show ?thesis by (auto simp: demo_clock_minutes_def split: if_splits)
  next
    case False
    with assms(2) top show ?thesis by (simp add: demo_clock_minutes_def)
  qed
qed

lemma demo_clock_laws:
  "valid_moment (ck_local demo_clock_minutes t)"
  "ck_read demo_clock_minutes (ck_text demo_clock_minutes t) = Some t \<and> ck_text demo_clock_minutes t \<noteq> []"
  by (auto simp: demo_clock_minutes_def MAXYEAR_def days_in_month_def is_leap_def)

text \<open>An hour that comes twice: minutes 60 to 119 have the times of day of the hour before them, and
  a time of day is read as its first coming. The job that began at 01:05 of the second hour is due at 01:06 of the first.\<close>

lemma repeated_hour_is_due_at_once:
  assumes "ck_local ck t = (2025, 11, 2, 1, nat (t mod 60))" and "ck_back ck (2025, 11, 2, 1, 6) = 6" and "t = 65"
  shows "cron_next ck ''* * * * *'' t = Inr (6 :: int)"
  using every_minute_next [of 2025 11 1 5 2] assms
  by (simp add: cron_next_def parse_every_minute SEARCH_DAYS_def MAXYEAR_def)

definition demo_cron_box ::
    "((string, json) dict, string \<Rightarrow> noop_provider, string, unit_status list) box" where
  "demo_cron_box = (demo_box [demo_container] [])\<lparr>bx_app := (\<lambda>app. [(''meta/loaded_at'', JStr ''x'')])\<rparr>"

lemma demo_cron_spec:
  obtains spec where "spec_from_manifest demo_cron_manifest ''org.demo'' = Inr spec" "sp_manifest spec = demo_cron_manifest"
    "sp_commands spec = [(''backup'', \<lparr>cmd_name = ''backup'', cmd_cmd = ''dump'', cmd_run_unit = ''main'', cmd_desc = []\<rparr>)]"
proof -
  obtain spec where b: "build_spec demo_cron_manifest ''org.demo'' = Inr spec"
    using build_spec_ok [OF demo_cron_accepted] by blast
  have "sp_commands spec = List.map (\<lambda>(name, c).
      (name, \<lparr>cmd_name = name, cmd_cmd = ce_cmd c, cmd_run_unit = ce_run_unit c, cmd_desc = ce_desc c\<rparr>)) (m_commands demo_cron_manifest)"
    using b by (auto simp: build_spec_def andthen_Inr)
  then have "sp_commands spec = [(''backup'', \<lparr>cmd_name = ''backup'', cmd_cmd = ''dump'', cmd_run_unit = ''main'', cmd_desc = []\<rparr>)]"
    by (simp add: demo_cron_manifest_def demo_manifest_def)
  moreover have "spec_from_manifest demo_cron_manifest ''org.demo'' = Inr spec"
    by (simp add: spec_from_manifest_def demo_cron_accepted b)
  ultimately show ?thesis using that build_spec_parts(2) [OF b] by blast
qed

definition demo_job :: "nat \<Rightarrow> nat cron_run" where
  "demo_job t = \<lparr>ce_app = ''org.demo'', ce_name = ''dump'', ce_command = ''backup'', ce_args = [], ce_schedule = ''* * * * *'',
     ce_next = t, ce_runnable = True\<rparr>"

lemma demo_next:
  "cron_next demo_clock_minutes ''* * * * *'' 0 = Inr 1" "cron_next demo_clock_minutes ''* * * * *'' 1 = Inr 2"
  using every_minute_next [of 2026 2 5 0 28] every_minute_next [of 2026 2 5 1 28]
  by (simp_all add: cron_next_def parse_every_minute SEARCH_DAYS_def MAXYEAR_def demo_clock_minutes_def)

lemma demo_cron_runs:
  assumes "map_of log (cron_key ''org.demo'' ''dump'') = (if began then Some ''xx'' else None)"
  shows "cron_runs (\<lambda>app. demo_cron_env) demo_clock_minutes [''org.demo''] log now demo_cron_box =
    Inr [demo_job (if began then 2 else 1)]"
proof -
  obtain spec where spec: "spec_from_manifest demo_cron_manifest ''org.demo'' = Inr spec" "sp_manifest spec = demo_cron_manifest"
    "sp_commands spec = [(''backup'', \<lparr>cmd_name = ''backup'', cmd_cmd = ''dump'', cmd_run_unit = ''main'', cmd_desc = []\<rparr>)]"
    by (rule demo_cron_spec)
  let ?w = "focus ''org.demo'' demo_cron_box"
  have loaded: "loaded_spec (re_load demo_cron_env) ''org.demo'' (run_of ?w) = Inr (Some spec)"
    by (simp add: loaded_spec_def spec_of_def demo_cron_env_def spec(1) focus_def run_of_def demo_cron_box_def demo_box_def
        demo_world_def demo_load_state_def Let_def)
  have at: "get_meta (rx_ops (ld_ctx (wd_load ?w))) (rx_app (ld_ctx (wd_load ?w))) ''loaded_at'' = Inr (JStr ''x'')"
    by (simp add: focus_def demo_cron_box_def demo_box_def demo_world_def demo_load_state_def demo_ctx_def get_meta_def
        memory_store_def Let_def)
  have up_unit: "do_containers (re_docker demo_cron_env) (wd_docker ?w) ''org.demo'' = [demo_container]" "us_running demo_container"
      "us_run_unit demo_container = ''main''"
    by (simp_all add: demo_cron_env_def demo_run_env_def demo_docker_def focus_def demo_cron_box_def demo_box_def demo_world_def
        demo_container_def us_running_def Let_def) code_simp
  have since: "cron_since demo_clock_minutes log (JStr ''x'') now ''org.demo'' ''dump'' = Inr (if began then 1 else 0)"
    using assms by (simp add: cron_since_def cron_instant_def demo_clock_minutes_def truthy_def)
  have "app_cron_runs (\<lambda>app. demo_cron_env) demo_clock_minutes log now demo_cron_box ''org.demo'' = Inr [demo_job (if began then 2 else 1)]"
    using since demo_next
    by (simp add: app_cron_runs_def Let_def loaded at up_unit spec(2,3) demo_cron_manifest_def demo_job_def)
  then show ?thesis by (simp add: cron_runs_def)
qed

lemma demo_tick:
  obtains out log' bx' where "tick (\<lambda>app. demo_cron_env) demo_clock_minutes (\<lambda>app. False) (\<lambda>job. 1) False [''org.demo''] 1 ([], demo_cron_box) =
      (Inr (Some [(demo_job 1, out)]), (log', bx'))" "out \<noteq> CronLocked"
proof -
  obtain out log' bx' where one: "run_cron (\<lambda>app. demo_cron_env) demo_clock_minutes (\<lambda>app. False) (\<lambda>job. 1) (demo_job 1) ([], demo_cron_box) = (out, (log', bx'))"
    by (cases "run_cron (\<lambda>app. demo_cron_env) demo_clock_minutes (\<lambda>app. False) (\<lambda>job. 1) (demo_job 1) ([], demo_cron_box)") auto
  from run_cron_does(3) [OF one] have "out \<noteq> CronLocked" by simp
  moreover have "tick (\<lambda>app. demo_cron_env) demo_clock_minutes (\<lambda>app. False) (\<lambda>job. 1) False [''org.demo''] 1 ([], demo_cron_box) =
      (Inr (Some [(demo_job 1, out)]), (log', bx'))"
    using one demo_cron_runs [of "[]" False 1] by (simp add: tick_def) (simp add: demo_job_def)
  ultimately show ?thesis using that by blast
qed

theorem tick_runs_what_is_due_witness:
  "\<exists>outs log' bx'. tick (\<lambda>app. demo_cron_env) demo_clock_minutes (\<lambda>app. False) (\<lambda>job. 1) False [''org.demo''] 1 ([], demo_cron_box) =
      (Inr (Some outs), (log', bx')) \<and> List.map fst outs = [demo_job 1] \<and>
    map_of log' ''apps/org.demo/cron/dump'' = Some ''xx'' \<and> same_holding demo_cron_box bx'"
proof -
  obtain out log' bx' where t: "tick (\<lambda>app. demo_cron_env) demo_clock_minutes (\<lambda>app. False) (\<lambda>job. 1) False [''org.demo''] 1 ([], demo_cron_box) =
      (Inr (Some [(demo_job 1, out)]), (log', bx'))" "out \<noteq> CronLocked" by (rule demo_tick)
  have started: "last_start (\<lambda>job. 1) ''apps/org.demo/cron/dump'' [(demo_job 1, out)] = Some 1"
    using t(2) by (simp add: job_key_def cron_key_def demo_job_def)
  from tick_runs_what_is_due [OF t(1)] have "same_holding demo_cron_box bx'"
    "map_of log' ''apps/org.demo/cron/dump'' = (case last_start (\<lambda>job. 1) ''apps/org.demo/cron/dump'' [(demo_job 1, out)] of
       Some t \<Rightarrow> Some (ck_text demo_clock_minutes t) | None \<Rightarrow> map_of [] ''apps/org.demo/cron/dump'')" by blast+
  with t(1) started show ?thesis by (auto simp: demo_clock_minutes_def)
qed

theorem begun_job_waits_for_its_next_time_witness:
  "\<exists>outs log' bx'. tick (\<lambda>app. demo_cron_env) demo_clock_minutes (\<lambda>app. False) (\<lambda>job. 1) False [''org.demo''] 1 ([], demo_cron_box) =
      (Inr (Some outs), (log', bx')) \<and>
    cron_runs (\<lambda>app. demo_cron_env) demo_clock_minutes [''org.demo''] log' 1 demo_cron_box = Inr [demo_job 2] \<and> 1 < ce_next (demo_job 2)"
proof -
  obtain out log' bx' where t: "tick (\<lambda>app. demo_cron_env) demo_clock_minutes (\<lambda>app. False) (\<lambda>job. 1) False [''org.demo''] 1 ([], demo_cron_box) =
      (Inr (Some [(demo_job 1, out)]), (log', bx'))" "out \<noteq> CronLocked" by (rule demo_tick)
  let ?r = "demo_job 2"
  have started: "last_start (\<lambda>job. 1) (cron_key (ce_app ?r) (ce_name ?r)) [(demo_job 1, out)] = Some 1"
    using t(2) by (simp add: job_key_def demo_job_def)
  obtain jobs where "run_crons (\<lambda>app. demo_cron_env) demo_clock_minutes (\<lambda>app. False) (\<lambda>job. 1) jobs ([], demo_cron_box) = ([(demo_job 1, out)], (log', bx'))"
    using t(1) by (auto simp: tick_def split: if_splits sum.splits prod.splits)
  from run_crons_does(4) [OF this] started have "map_of log' (cron_key (ce_app ?r) (ce_name ?r)) = Some (ck_text demo_clock_minutes 1)" by simp
  then have listed: "cron_runs (\<lambda>app. demo_cron_env) demo_clock_minutes [''org.demo''] log' 1 demo_cron_box = Inr [?r]"
    using demo_cron_runs [of log' True 1] by (simp add: demo_job_def demo_clock_minutes_def numeral_2_eq_2)
  have "1 < ce_next ?r"
    using begun_job_waits_for_its_next_time [OF demo_clock_forward demo_clock_laws(1) demo_clock_laws(2) t(1) started listed] by simp
  with t(1) listed show ?thesis by blast
qed

end
