(* ===== verification/Recovery.thy ===== *)
theory Recovery
  imports Snapshots "HOL-Library.Word"
begin

text \<open>
  \<^verbatim>\<open>kelso/lib/recovery.py\<close> and \<^verbatim>\<open>kelso/lib/rekey.py\<close>: the recovery phrase, the key file with the history of its seeds,
  and the move of every encrypted value onto the key of a new seed. The word list and its checksum (\<^verbatim>\<open>mnemonic\<close>) and
  the key derivation (\<^verbatim>\<open>cryptography\<close>) are parameters.
\<close>

section \<open>Bytes and phrases\<close>

type_synonym bytes = "8 word list"

record recovery_lib =
  rl_words :: "string list"
  rl_check :: "string \<Rightarrow> bool"
  rl_entropy :: "string \<Rightarrow> bytes"
  rl_mnemonic :: "bytes \<Rightarrow> string"
  rl_hkdf :: "string \<Rightarrow> bytes \<Rightarrow> bytes"

definition WORDS :: nat where "WORDS = 12"
definition ENTROPY_BYTES :: nat where "ENTROPY_BYTES = 16"
definition SEED_KEY :: string where "SEED_KEY = ''seed''"
definition SECRETS_LABEL :: string where "SECRETS_LABEL = ''kelso/secrets/v1''"
definition BACKUP_LABEL :: string where "BACKUP_LABEL = ''kelso/backup/v1''"

text \<open>\<^verbatim>\<open>bytes.hex\<close> and \<^verbatim>\<open>bytes.fromhex\<close>, which skips white space between two bytes.\<close>

definition bytes_hex :: "bytes \<Rightarrow> string" where
  "bytes_hex bs = concat (List.map (\<lambda>b. [hex_digit (unat b div 16), hex_digit (unat b mod 16)]) bs)"

definition ascii_space :: "char \<Rightarrow> bool" where
  "ascii_space c \<longleftrightarrow> (of_char c :: nat) \<in> {9, 10, 11, 12, 13, 32}"

fun bytes_fromhex :: "string \<Rightarrow> bytes option" where
  "bytes_fromhex [] = Some []"
| "bytes_fromhex (c # cs) =
     (if ascii_space c then bytes_fromhex cs
      else case cs of
          [] \<Rightarrow> None
        | d # ds \<Rightarrow> (case (hex_val c, hex_val d) of
            (Some a, Some b) \<Rightarrow> map_option (Cons (word_of_nat (16 * a + b))) (bytes_fromhex ds)
          | _ \<Rightarrow> None))"

definition phrase :: "recovery_lib \<Rightarrow> bytes \<Rightarrow> string list" where
  "phrase lib entropy = split_ws (rl_mnemonic lib entropy)"

datatype phrase_error = WrongCount nat | UnknownWords "string list" | FailedChecksum

definition entropy_from_phrase :: "recovery_lib \<Rightarrow> string list \<Rightarrow> phrase_error + bytes" where
  "entropy_from_phrase lib given =
     (let cleaned = List.map (\<lambda>w. str_lower (strip w)) (List.filter (\<lambda>w. strip w \<noteq> []) given);
          unknown = List.filter (\<lambda>w. w \<notin> set (rl_words lib)) cleaned;
          joined = join '' '' cleaned
      in if length cleaned \<noteq> WORDS then Inl (WrongCount (length cleaned))
         else if unknown \<noteq> [] then Inl (UnknownWords unknown)
         else if \<not> rl_check lib joined then Inl FailedChecksum
         else Inr (rl_entropy lib joined))"

definition derive :: "recovery_lib \<Rightarrow> bytes \<Rightarrow> string \<Rightarrow> bytes" where
  "derive lib entropy label = rl_hkdf lib label entropy"

definition backup_password_from :: "recovery_lib \<Rightarrow> bytes \<Rightarrow> string" where
  "backup_password_from lib entropy = bytes_hex (derive lib entropy BACKUP_LABEL)"

definition master_key_from :: "recovery_lib \<Rightarrow> bytes \<Rightarrow> string" where
  "master_key_from lib entropy = bytes_hex (derive lib entropy SECRETS_LABEL)"

section \<open>The key file\<close>

text \<open>The file's text, \<open>None\<close> where there is none.\<close>

record key_file =
  kf_master :: string
  kf_seed :: "bytes option"

datatype key_error = KeyTable log_error | BadHex string

definition key_table :: "string option \<Rightarrow> string \<Rightarrow> string \<Rightarrow> string \<Rightarrow> logtab" where
  "key_table kept name title now = logtab_init kept name title now False 0 0"

definition seed_in :: "(string, log_entry) dict \<Rightarrow> key_error + bytes option" where
  "seed_in table =
     (case map_of table SEED_KEY of
        None \<Rightarrow> Inr None
      | Some e \<Rightarrow> (case bytes_fromhex (le_value e) of None \<Rightarrow> Inl (BadHex (le_value e)) | Some b \<Rightarrow> Inr (Some b)))"

definition key_file_of :: "recovery_lib \<Rightarrow> bytes option \<Rightarrow> key_file" where
  "key_file_of lib seed = \<lparr>kf_master = (case seed of None \<Rightarrow> [] | Some b \<Rightarrow> master_key_from lib b), kf_seed = seed\<rparr>"

definition read_keyfile ::
    "recovery_lib \<Rightarrow> (string \<Rightarrow> int option) \<Rightarrow> string \<Rightarrow> string option \<Rightarrow> string option \<Rightarrow> key_error + key_file" where
  "read_keyfile lib fromiso name kept at =
     (case kept of
        None \<Rightarrow> Inr \<lparr>kf_master = [], kf_seed = None\<rparr>
      | Some text \<Rightarrow>
          (case load_at fromiso (key_table (Some text) name [] []) at of
             Inl e \<Rightarrow> Inl (KeyTable e)
           | Inr table \<Rightarrow> andthen (seed_in table) (\<lambda>seed. Inr (key_file_of lib seed))))"

definition master_key_at :: "recovery_lib \<Rightarrow> (string \<Rightarrow> int option) \<Rightarrow> string \<Rightarrow> string option \<Rightarrow> string \<Rightarrow> key_error + string" where
  "master_key_at lib fromiso name kept at =
     andthen (read_keyfile lib fromiso name kept (Some at)) (\<lambda>k. Inr (kf_master k))"

definition write_seed ::
    "(string \<Rightarrow> int option) \<Rightarrow> string \<Rightarrow> string \<Rightarrow> string option \<Rightarrow> bytes \<Rightarrow> string \<Rightarrow> log_error + string" where
  "write_seed fromiso now name kept entropy title =
     (case write_key fromiso now SEED_KEY (bytes_hex entropy) (key_table kept name title now) of
        Inl e \<Rightarrow> Inl e
      | Inr t \<Rightarrow> Inr (lt_file t))"

definition pad_right :: "nat \<Rightarrow> string \<Rightarrow> string" where
  "pad_right n s = s @ replicate (n - length s) (CHR '' '')"

definition pad_left :: "nat \<Rightarrow> string \<Rightarrow> string" where
  "pad_left n s = replicate (n - length s) (CHR '' '') @ s"

definition strip_right :: "string \<Rightarrow> string" where
  "strip_right s = rev (dropWhile (\<lambda>c. c = CHR '' '') (rev s))"

definition phrase_row :: "string list \<Rightarrow> nat \<Rightarrow> string" where
  "phrase_row given r =
     (let rows = WORDS div 3;
          cells = List.map (\<lambda>c. pad_left 2 (str_of_nat (c * rows + r + 1)) @ ''. '' @ pad_right 10 (given ! (c * rows + r))) [0 ..< 3]
      in ''    '' @ strip_right (join ''  '' cells))"

text \<open>Fewer words are an \<^verbatim>\<open>IndexError\<close>.\<close>

definition format_phrase :: "string list \<Rightarrow> string option" where
  "format_phrase given =
     (if length given < WORDS then None else Some (join [LF] (List.map (phrase_row given) [0 ..< WORDS div 3])))"

section \<open>Seeds read back\<close>

lemma byte_below: "unat (b :: 8 word) < 256"
proof -
  have "unat b < 2 ^ LENGTH(8)" by (rule unsigned_less)
  then show ?thesis by simp
qed

lemma hex_digit_code: "d < 16 \<Longrightarrow> (of_char (hex_digit d) :: nat) = (if d < 10 then 48 + d else 87 + d)"
  by (simp add: hex_digit_def of_char_of take_bit_eq_mod)

lemma hex_digit_plain:
  assumes "d < 16"
  shows "\<not> ascii_space (hex_digit d)" and "hex_digit d \<notin> {CR, LF, TAB}"
proof -
  show "\<not> ascii_space (hex_digit d)" using hex_digit_code [OF assms] by (auto simp: ascii_space_def)
  have "(of_char (hex_digit d) :: nat) \<notin> {13, 10, 9}" using hex_digit_code [OF assms] by auto
  moreover have "(of_char CR :: nat) = 13" "(of_char LF :: nat) = 10" "(of_char TAB :: nat) = 9" by simp_all
  ultimately show "hex_digit d \<notin> {CR, LF, TAB}" by fastforce
qed

lemma fromhex_hex: "bytes_fromhex (bytes_hex bs) = Some bs"
proof (induction bs)
  case (Cons b bs)
  have d: "unat b div 16 < 16" "unat b mod 16 < 16" using byte_below [of b] by auto
  have "word_of_nat (16 * (unat b div 16) + unat b mod 16) = b" by simp
  with Cons d show ?case by (simp add: bytes_hex_def hex_digit_plain hex_val_digit)
qed (simp add: bytes_hex_def)

lemma hex_chars: "c \<in> set (bytes_hex bs) \<Longrightarrow> c \<notin> {CR, LF, TAB}"
proof -
  assume "c \<in> set (bytes_hex bs)"
  then obtain b where "b \<in> set bs" "c = hex_digit (unat b div 16) \<or> c = hex_digit (unat b mod 16)" by (auto simp: bytes_hex_def)
  moreover have "unat b div 16 < 16" using byte_below [of b] by auto
  ultimately show ?thesis using hex_digit_plain(2) [of "unat b div 16"] hex_digit_plain(2) [of "unat b mod 16"] by auto
qed

lemma hex_length: "length (bytes_hex bs) = 2 * length bs"
  by (induction bs) (simp_all add: bytes_hex_def)

text \<open>A file that is made new holds comments only.\<close>

lemma new_file_records:
  assumes "LF \<notin> set (name @ title @ now)" "CR \<notin> set (name @ title @ now)"
  shows "file_records fromiso (lt_file (key_table None name title now)) = []"
    and "last (lt_file (key_table None name title now)) = LF"
proof -
  let ?a = "''# '' @ title" and ?b = "''# '' @ name @ '', created '' @ now"
  have plain: "LF \<notin> set ?a" "CR \<notin> set ?a" "LF \<notin> set ?b" "CR \<notin> set ?b" using assms by auto
  have f: "LF \<notin> set format_line" "CR \<notin> set format_line" by (simp_all add: format_line_def)
  have comment: "line_record fromiso (''# '' @ x) = None" for x by (rule line_record_comment) (simp add: starts_with_def)
  have comments: "line_record fromiso ?a = None" "line_record fromiso ?b = None" "line_record fromiso format_line = None"
    using comment [of title] comment [of "name @ '', created '' @ now"] by (simp_all add: format_line_def line_record_comment starts_with_def)
  define head where "head = (if title = [] then [] else ?a @ [LF])"
  have made: "lt_file (key_table None name title now) = ((head @ ?b @ [LF]) @ format_line @ [LF])"
    by (simp add: key_table_def logtab_init_def head_def)
  have "file_records fromiso head = []" "head = [] \<or> last head = LF"
    using file_records_append [of "[]" ?a fromiso] plain comments by (auto simp: head_def file_records_def text_lines_def universal_newlines.simps map_filter_simps)
  with file_records_append [of head ?b fromiso] plain comments have "file_records fromiso (head @ ?b @ [LF]) = []" by simp
  with file_records_append [of "head @ ?b @ [LF]" format_line fromiso] f comments show "file_records fromiso (lt_file (key_table None name title now)) = []"
    unfolding made by simp
  show "last (lt_file (key_table None name title now)) = LF" unfolding made by simp
qed

lemma load_stops:
  assumes "fromiso (lr_ts r) = Some v" and "u < v"
  shows "load_items fromiso (Some u) (List.map Inr (rs @ [r])) d = load_items fromiso (Some u) (List.map Inr rs) d"
  using assms by (induction rs arbitrary: d) (auto split: option.split)

definition seed_text_ok :: "string option \<Rightarrow> bool" where
  "seed_text_ok kept \<longleftrightarrow> (case kept of None \<Rightarrow> True | Some t \<Rightarrow> t = [] \<or> last t = LF)"

lemma key_table_wf:
  assumes "seed_text_ok kept" and "LF \<notin> set (name @ title @ now)" "CR \<notin> set (name @ title @ now)"
  shows "table_wf (key_table kept name title now)"
proof (cases kept)
  case None
  with new_file_records(2) [OF assms(2,3)] show ?thesis by (simp add: table_wf_def) (simp add: key_table_def logtab_init_def)
qed (use assms(1) in \<open>simp add: table_wf_def key_table_def logtab_init_def seed_text_ok_def\<close>)

lemma seed_written:
  assumes "seed_text_ok kept" and "LF \<notin> set (name @ title @ now)" "CR \<notin> set (name @ title @ now)"
    and "clock_ok fromiso now" and "length entropy = ENTROPY_BYTES"
  obtains t where "write_seed fromiso now name kept entropy title = Inr t" "t = [] \<or> last t = LF"
    "file_records fromiso t = (case kept of None \<Rightarrow> [] | Some f \<Rightarrow> file_records fromiso f)
      @ [\<lparr>lr_ts = now, lr_op = OpSet, lr_key = SEED_KEY, lr_value = bytes_hex entropy\<rparr>]"
proof -
  let ?t = "key_table kept name title now"
  note wf = key_table_wf [OF assms(1-3)]
  have key: "validate_key SEED_KEY = Inr ()" by (simp add: SEED_KEY_def validate_key_def MAX_KEY_LENGTH_def key_char_def char_class_defs)
  have plain: "LF \<notin> set (bytes_hex entropy)" "CR \<notin> set (bytes_hex entropy)" using hex_chars by blast+
  then have val: "validate_value (bytes_hex entropy) = Inr ()"
    using assms(5) by (simp add: validate_value_def hex_length ENTROPY_BYTES_def MAX_VAL_LENGTH_def)
  have op: "parse_op ''set'' = Some OpSet" by (simp add: parse_op_def)
  have "lt_compact_size ?t = 0" by (simp add: key_table_def logtab_init_def)
  with append_entry_records [OF wf assms(4) key val plain(2) op] obtain t where
    t: "append_entry fromiso now ''set'' SEED_KEY (bytes_hex entropy) ?t = Inr t"
      "file_records fromiso (lt_file t) = file_records fromiso (lt_file ?t)
        @ [\<lparr>lr_ts = now, lr_op = OpSet, lr_key = SEED_KEY, lr_value = bytes_hex entropy\<rparr>]" by blast
  from append_entry_map [OF wf assms(4) key val plain(2) op] t(1) have "table_wf t" by auto
  moreover have "file_records fromiso (lt_file ?t) = (case kept of None \<Rightarrow> [] | Some f \<Rightarrow> file_records fromiso f)"
    using new_file_records(1) [OF assms(2,3)] by (cases kept) (simp_all add: key_table_def logtab_init_def)
  ultimately show ?thesis using that [of "lt_file t"] t by (auto simp: write_seed_def write_key_def table_wf_def)
qed

section \<open>Rekeying\<close>

text \<open>
  What \<^verbatim>\<open>rekey\<close> asks of the machine: the running configuration with the key it was loaded with, the engine of a key, restic
  opened with a password, the disk the backups are on, and the locks that another process holds for too long. The
  key file of the box, the store of each app with a config file, kelso's own store and the repository are its state.
\<close>

datatype rekey_lock = SeedLock | AppRekeyLock string | DbLock

datatype rekey_fail =
    RekeyLocked
  | NothingChanged "key_error + backup_fail"
  | PasswordNotChanged restic_error
  | SeedNotWritten log_error
  | KeyNotRead key_error
  | ValuesNotMoved store_error

record ('s, 'r) rekey_env =
  ke_config :: config
  ke_lib :: recovery_lib
  ke_fromiso :: "string \<Rightarrow> int option"
  ke_now :: string
  ke_fernet :: "string \<Rightarrow> crypto_engine"
  ke_ops :: "'s store_ops"
  ke_restic :: "string \<Rightarrow> 'r restic_env"
  ke_put :: "string \<Rightarrow> 'r \<Rightarrow> 'r"
  ke_unlink :: "'r \<Rightarrow> 'r"
  ke_disk :: disk
  ke_readlink :: "string \<Rightarrow> string option"
  ke_same_disk :: bool
  ke_held :: "rekey_lock \<Rightarrow> bool"

record ('s, 'r) rekey_box =
  kb_keyfile :: "string option"
  kb_apps :: "(string, 's) dict"
  kb_db :: 's
  kb_repo :: 'r

type_synonym ('s, 'r, 'a) rekey_act = "(('s, 'r) rekey_box, rekey_fail, 'a) act"

record rekey_result =
  rs_apps :: nat
  rs_values :: nat
  rs_unreadable :: "string list"

definition KEY_TITLE :: string where "KEY_TITLE = ''Kelso Master Key''"

definition key_now :: "('s, 'r) rekey_env \<Rightarrow> string option \<Rightarrow> key_error + key_file" where
  "key_now env kept = read_keyfile (ke_lib env) (ke_fromiso env) MASTER_KEYFILE kept None"

definition engine_of :: "('s, 'r) rekey_env \<Rightarrow> string \<Rightarrow> crypto_engine" where
  "engine_of env key = crypto_from_config (ke_fernet env) key (master_keyfile (ke_config env))"

text \<open>The new password is handed over in a file of the scratch directory, which goes whatever restic did.\<close>

definition restic_change_password ::
    "(string \<Rightarrow> 'r \<Rightarrow> 'r) \<Rightarrow> ('r \<Rightarrow> 'r) \<Rightarrow> 'r restic_env \<Rightarrow> string \<Rightarrow> string \<Rightarrow> ('r, restic_error, unit) act" where
  "restic_change_password put unlink rv new_password scratch r =
     (case restic_run rv [''key'', ''passwd'', ''--new-password-file'', RESTIC_TARGET @ ''/new-password'']
             [(scratch, RESTIC_TARGET)] False (put new_password r) of
        (Inl e, r') \<Rightarrow> (Inl e, unlink r')
      | (Inr out, r') \<Rightarrow> (Inr (), unlink r'))"

definition move_backups :: "('s, 'r) rekey_env \<Rightarrow> bytes \<Rightarrow> ('s, 'r, unit) rekey_act" where
  "move_backups env entropy bx =
     (let cfg = ke_config env; root = backups_root cfg
      in if ke_readlink env root = None \<and> \<not> dk_is_file (ke_disk env) (path_join root ''config'') then (Inr (), bx)
         else case key_now env (kb_keyfile bx) of
             Inl e \<Rightarrow> (Inl (NothingChanged (Inl e)), bx)
           | Inr k \<Rightarrow>
               (case repository_opens (kf_seed k \<noteq> None) (ke_readlink env) (ke_same_disk env) (ke_disk env) cfg of
                  Inl e \<Rightarrow> (Inl (NothingChanged (Inr e)), bx)
                | Inr _ \<Rightarrow>
                    (let rv = ke_restic env (backup_password_from (ke_lib env) (the (kf_seed k)))
                     in if \<not> rv_has_config rv (kb_repo bx) then (Inr (), bx)
                        else case restic_change_password (ke_put env) (ke_unlink env) rv
                                    (backup_password_from (ke_lib env) entropy) (path_join (temp_root cfg) ''rekey'') (kb_repo bx) of
                            (Inl e, r) \<Rightarrow> (Inl (PasswordNotChanged e), bx\<lparr>kb_repo := r\<rparr>)
                          | (Inr _, r) \<Rightarrow> (Inr (), bx\<lparr>kb_repo := r\<rparr>))))"

definition rekey_locked :: "('s, 'r) rekey_env \<Rightarrow> rekey_lock \<Rightarrow> rekey_fail + unit" where
  "rekey_locked env lock = (if ke_held env lock then Inl RekeyLocked else Inr ())"

definition renew_seed :: "('s, 'r) rekey_env \<Rightarrow> bytes \<Rightarrow> ('s, 'r, unit) rekey_act" where
  "renew_seed env entropy =
     bindA (askA (\<lambda>bx. rekey_locked env SeedLock)) (\<lambda>_.
     bindA (move_backups env entropy) (\<lambda>_ bx.
       case write_seed (ke_fromiso env) (ke_now env) MASTER_KEYFILE (kb_keyfile bx) entropy KEY_TITLE of
         Inl e \<Rightarrow> (Inl (SeedNotWritten e), bx)
       | Inr t \<Rightarrow> (Inr (), bx\<lparr>kb_keyfile := Some t\<rparr>)))"

definition values_moved :: "store_error + 'a \<Rightarrow> rekey_fail + 'a" where
  "values_moved r = (case r of Inl e \<Rightarrow> Inl (ValuesNotMoved e) | Inr x \<Rightarrow> Inr x)"

definition add_moved :: "string \<Rightarrow> nat \<Rightarrow> string list \<Rightarrow> rekey_result \<Rightarrow> rekey_result" where
  "add_moved owner written unreadable res =
     res\<lparr>rs_values := rs_values res + written,
         rs_unreadable := rs_unreadable res @ List.map (\<lambda>name. owner @ '': '' @ name) unreadable\<rparr>"

fun rekey_apps ::
    "('s, 'r) rekey_env \<Rightarrow> crypto_engine \<Rightarrow> crypto_engine \<Rightarrow> (string \<times> 's) list \<Rightarrow> rekey_result
       \<Rightarrow> rekey_fail + (string, 's) dict \<times> rekey_result" where
  "rekey_apps env old new [] res = Inr ([], res)"
| "rekey_apps env old new ((app, s) # apps) res =
     andthen (rekey_locked env (AppRekeyLock app)) (\<lambda>_.
     andthen (values_moved (rekey_app_secrets (ke_ops env) old new s)) (\<lambda>(s', nonce, written, unreadable).
     andthen (rekey_apps env old new apps (add_moved app written unreadable (res\<lparr>rs_apps := Suc (rs_apps res)\<rparr>)))
       (\<lambda>(moved, res'). Inr ((app, s') # moved, res'))))"

text \<open>The apps go in the order of their ids; what a rekey that raises has written until then is not part of its result.\<close>

definition rekey ::
    "('s, 'r) rekey_env \<Rightarrow> bytes \<Rightarrow> ('s, 'r) rekey_box \<Rightarrow> rekey_fail + rekey_result \<times> ('s, 'r) rekey_box" where
  "rekey env entropy bx =
     (case renew_seed env entropy bx of
        (Inl e, bx') \<Rightarrow> Inl e
      | (Inr _, bx') \<Rightarrow>
          (case key_now env (kb_keyfile bx') of
             Inl e \<Rightarrow> Inl (KeyNotRead e)
           | Inr k \<Rightarrow>
               (let old = engine_of env (cfg_master_key (ke_config env)); new = engine_of env (kf_master k)
                in andthen (rekey_apps env old new (sort_key fst (kb_apps bx')) \<lparr>rs_apps = 0, rs_values = 0, rs_unreadable = []\<rparr>)
                     (\<lambda>(apps, res).
                   andthen (rekey_locked env DbLock) (\<lambda>_.
                   andthen (values_moved (rekey_kelso_secrets (ke_ops env) old new (kb_db bx')))
                     (\<lambda>(db, nonce, written, unreadable).
                       Inr (add_moved ''kelsodb'' written unreadable res, bx'\<lparr>kb_apps := apps, kb_db := db\<rparr>)))))))"

text \<open>A rekey the backups stop has changed nothing.\<close>

lemma stopped_by_the_backups:
  assumes "renew_seed env entropy bx = (Inl (NothingChanged e), bx')"
  shows "bx' = bx"
  using assms by (auto simp: renew_seed_def bindA_def move_backups_def Let_def rekey_locked_def split: if_splits sum.splits prod.splits)

lemma move_backups_keeps:
  "move_backups env entropy bx = (r, bx') \<Longrightarrow>
    kb_keyfile bx' = kb_keyfile bx \<and> kb_apps bx' = kb_apps bx \<and> kb_db bx' = kb_db bx"
  by (auto simp: move_backups_def Let_def split: if_splits sum.splits prod.splits)

section \<open>What a rekey keeps\<close>

definition token_key :: "string \<Rightarrow> string" where
  "token_key key = ''system/tokens/'' @ key"

definition secrets_shaped :: "(string \<Rightarrow> json option) \<Rightarrow> bool" where
  "secrets_shaped m \<longleftrightarrow> (\<forall>name v. m (secret_key name) = Some v \<longrightarrow> (\<exists>b. v = JStr b))"

definition tokens_shaped :: "(string \<Rightarrow> json option) \<Rightarrow> bool" where
  "tokens_shaped m \<longleftrightarrow>
     (\<forall>key v. m (token_key key) = Some v \<longrightarrow> (\<exists>ms t i. v = JObj ms \<and> map_of ms ''tok'' = Some (JStr t) \<and> map_of ms ''exp'' = Some (JInt i)))"

text \<open>Values fit the store after they are encrypted again.\<close>

definition kelso_fits :: "crypto_engine \<Rightarrow> crypto_engine \<Rightarrow> (string \<Rightarrow> json option) \<Rightarrow> bool" where
  "kelso_fits old new m \<longleftrightarrow>
     (\<forall>name v n v'. m (secret_key name) = Some v \<longrightarrow> rekey_secret_body old new n v = Inr (RkWrite v') \<longrightarrow> storable v') \<and>
     (\<forall>key v n v'. m (token_key key) = Some v \<longrightarrow> rekey_token_body old new n v = Inr (RkWrite v') \<longrightarrow> storable v')"

lemma secret_body:
  assumes "decrypt_tame old"
  shows "rekey_secret_body old new n (JStr b) =
    (case ce_decrypt old b of Inl e \<Rightarrow> Inr RkUnreadable | Inr p \<Rightarrow> andthen (ce_encrypt new n p) (\<lambda>e. Inr (RkWrite (JStr e))))"
  by (simp add: rekey_secret_body_def decrypt_or_none_tame [OF assms] split: sum.split)

lemma token_body:
  assumes "decrypt_tame old" and "map_of ms ''tok'' = Some (JStr b)"
  shows "rekey_token_body old new n (JObj ms) =
    (case ce_decrypt old b of Inl e \<Rightarrow> Inr RkUnreadable
     | Inr p \<Rightarrow> andthen (ce_encrypt new n p) (\<lambda>e. Inr (RkWrite (JObj (AList.update ''tok'' (JStr e) ms)))))"
  using assms(2) by (simp add: rekey_token_body_def json_field_def decrypt_or_none_tame [OF assms(1)] split: sum.split)

lemma body_ok_read:
  assumes "crypto_ok new" and "\<And>n v'. body n v = Inr (RkWrite v') \<Longrightarrow> storable v'"
    and body: "\<And>n. body n v = (case r of Inl (e :: store_error) \<Rightarrow> Inr RkUnreadable | Inr p \<Rightarrow> andthen (ce_encrypt new n p) (\<lambda>e. Inr (RkWrite (w e))))"
  shows "body_ok body v"
proof (cases r)
  case Inl
  then show ?thesis by (simp add: body_ok_def body)
next
  case (Inr p)
  have "\<exists>e. ce_encrypt new n p = Inr e" for n using assms(1) unfolding crypto_ok_def by blast
  then obtain e where "ce_encrypt new n p = Inr (e n)" for n by metis
  with Inr have "body n v = Inr (RkWrite (w (e n)))" for n by (simp add: body)
  with assms(2) show ?thesis by (simp add: body_ok_def)
qed

context config_store
begin

text \<open>One of the loops, over the entries under a prefix.\<close>

lemma rekey_prefix_spec:
  assumes s: "inv s" and pre: "key_ok pre" and bodies: "\<forall>k v. obs s (pre @ k) = Some v \<longrightarrow> body_ok body v"
  shows "\<exists>d s' n' w'. st_scan ops s pre [] = Inr d \<and>
    rekey_loop ops pre body d (s, n, w, u) = Inr (s', n', w', u @ unreadable_names pre body d) \<and> inv s' \<and>
    (\<forall>k. \<not> starts_with k pre \<longrightarrow> obs s' k = obs s k) \<and>
    (\<forall>k. obs s (pre @ k) = None \<longrightarrow> obs s' (pre @ k) = None) \<and>
    (\<forall>k v. obs s (pre @ k) = Some v \<longrightarrow> rekeyed body v (Some v) (obs s' (pre @ k)) \<and>
       (body 0 v = Inr RkUnreadable \<longrightarrow> pre @ k \<in> set (unreadable_names pre body d)))"
proof -
  obtain d where d: "st_scan ops s pre [] = Inr d" "distinct (keys d)" "\<And>k. map_of d k = obs s (pre @ k)"
    using scan_law [OF s disjI2 [OF pre]] by blast
  have in_d: "(k, v) \<in> set d \<longleftrightarrow> obs s (pre @ k) = Some v" for k v using d(2,3) by (metis map_of_eq_Some_iff)
  have keys_d: "k \<in> set (keys d) \<longleftrightarrow> obs s (pre @ k) \<noteq> None" for k
    using d(3) by (metis map_of_eq_None_iff set_map)
  have "\<forall>k \<in> set (keys d). key_ok (pre @ k)" using in_d obs_ok [OF s] by auto
  moreover have "\<forall>v \<in> snd ` set d. body_ok body v" using in_d bodies by auto
  ultimately obtain s' n' w' where loop: "rekey_loop ops pre body d (s, n, w, u) = Inr (s', n', w', u @ unreadable_names pre body d)" "inv s'"
    and far: "\<forall>k. k \<notin> (@) pre ` set (keys d) \<longrightarrow> obs s' k = obs s k"
    and these: "\<forall>k v. (k, v) \<in> set d \<longrightarrow> rekeyed body v (obs s (pre @ k)) (obs s' (pre @ k))"
    using rekey_loop_spec [OF s d(2), of pre body n w u] by blast
  have "obs s' k = obs s k" if "\<not> starts_with k pre" for k using that far by (auto simp: starts_with_iff)
  moreover have "obs s' (pre @ k) = None" if "obs s (pre @ k) = None" for k
  proof -
    from that keys_d [of k] have "pre @ k \<notin> (@) pre ` set (keys d)" by (metis imageE same_append_eq)
    with far that show ?thesis by simp
  qed
  moreover have "rekeyed body v (Some v) (obs s' (pre @ k))" if "obs s (pre @ k) = Some v" for k v
    using these in_d that by metis
  moreover have "pre @ k \<in> set (unreadable_names pre body d)" if "obs s (pre @ k) = Some v" "body 0 v = Inr RkUnreadable" for k v
    using that in_d by (force simp: unreadable_names_def)
  ultimately show ?thesis using d(1) loop by blast
qed

lemma get_secret_obs:
  "inv s \<Longrightarrow> get_secret ops c s name =
    (case obs s (secret_key name) of
       None \<Rightarrow> Inr None
     | Some raw \<Rightarrow> if raw = JNull then Inr None else andthen (decrypt_json c raw) (\<lambda>value. Inr (Some value)))"
  by (simp add: get_secret_def read_obs split: option.split)

lemma get_token_obs:
  "inv s \<Longrightarrow> get_token ops c epoch s key =
    (let found = case_option JNull id (obs s (token_key key))
     in if \<not> truthy found then Inr None
       else andthen (andthen (json_field ''exp'' found) (\<lambda>e. case e of JInt i \<Rightarrow> Inr i | _ \<Rightarrow> Inl WrongType)) (\<lambda>expires.
         if expires > 0 \<and> epoch > expires then Inr None
         else andthen (andthen (json_field ''tok'' found) (decrypt_json c)) (\<lambda>value. Inr (Some (value, expires)))))"
  by (simp add: get_token_def read_obs token_key_def Let_def)

text \<open>What became of one secret and of one token.\<close>

lemma secret_moved:
  assumes "inv s" "inv s'" and crypto: "crypto_ok new" "decrypt_tame old" and shape: "secrets_shaped (obs s)"
    and none: "obs s (secret_key name) = None \<Longrightarrow> obs s' (secret_key name) = None"
    and some: "\<And>v. obs s (secret_key name) = Some v \<Longrightarrow> rekeyed (rekey_secret_body old new) v (Some v) (obs s' (secret_key name)) \<and>
       (rekey_secret_body old new 0 v = Inr RkUnreadable \<longrightarrow> secret_key name \<in> set u)"
  shows "case get_secret ops old s name of
      Inr r \<Rightarrow> get_secret ops new s' name = Inr r
    | Inl e \<Rightarrow> obs s' (secret_key name) = obs s (secret_key name) \<and> secret_key name \<in> set u"
proof (cases "obs s (secret_key name)")
  case None
  with none assms(1,2) show ?thesis by (simp add: get_secret_obs)
next
  case (Some v)
  with shape obtain b where v: "v = JStr b" unfolding secrets_shaped_def by blast
  note body = secret_body [OF crypto(2)]
  show ?thesis
  proof (cases "ce_decrypt old b")
    case (Inl e)
    with some [OF Some] Some assms(1) show ?thesis by (auto simp: v body get_secret_obs decrypt_json_def rekeyed_def)
  next
    case (Inr p)
    from some [OF Some] obtain n where n: "case andthen (ce_encrypt new n p) (\<lambda>e. Inr (RkWrite (JStr e))) of
        Inr (RkWrite v') \<Rightarrow> obs s' (secret_key name) = Some v' | _ \<Rightarrow> obs s' (secret_key name) = Some v"
      unfolding rekeyed_def v body Inr by auto
    obtain e where e: "ce_encrypt new n p = Inr e" "ce_decrypt new e = Inr p" using crypto(1) unfolding crypto_ok_def by blast
    with n have "obs s' (secret_key name) = Some (JStr e)" by simp
    with e(2) Inr Some assms(1,2) show ?thesis by (simp add: v get_secret_obs decrypt_json_def)
  qed
qed

lemma token_moved:
  assumes "inv s" "inv s'" and crypto: "crypto_ok new" "decrypt_tame old" and shape: "tokens_shaped (obs s)"
    and was: "get_token ops old epoch s key = Inr r"
    and none: "obs s (token_key key) = None \<Longrightarrow> obs s' (token_key key) = None"
    and some: "\<And>v. obs s (token_key key) = Some v \<Longrightarrow> rekeyed (rekey_token_body old new) v (Some v) (obs s' (token_key key))"
  shows "get_token ops new epoch s' key = Inr r"
proof (cases "obs s (token_key key)")
  case None
  with none was assms(1,2) show ?thesis by (simp add: get_token_obs truthy_def)
next
  case (Some v)
  with shape obtain ms b i where v: "v = JObj ms" "map_of ms ''tok'' = Some (JStr b)" "map_of ms ''exp'' = Some (JInt i)"
    unfolding tokens_shaped_def by blast
  then have ms: "ms \<noteq> []" by auto
  note body = token_body [OF crypto(2) v(2)]
  show ?thesis
  proof (cases "ce_decrypt old b")
    case (Inl e)
    with some [OF Some] have "obs s' (token_key key) = Some v" by (auto simp: v(1) body rekeyed_def)
    with was Some Inl assms(1,2) v ms show ?thesis
      by (auto simp: get_token_obs Let_def json_field_def decrypt_json_def truthy_def split: if_splits)
  next
    case (Inr p)
    from some [OF Some] obtain n where n: "case andthen (ce_encrypt new n p) (\<lambda>e. Inr (RkWrite (JObj (AList.update ''tok'' (JStr e) ms)))) of
        Inr (RkWrite v') \<Rightarrow> obs s' (token_key key) = Some v' | _ \<Rightarrow> obs s' (token_key key) = Some v"
      unfolding rekeyed_def v(1) body Inr by auto
    obtain e where e: "ce_encrypt new n p = Inr e" "ce_decrypt new e = Inr p" using crypto(1) unfolding crypto_ok_def by blast
    with n have now: "obs s' (token_key key) = Some (JObj (AList.update ''tok'' (JStr e) ms))" by simp
    have "AList.update ''tok'' (JStr e) ms \<noteq> []" by (cases ms) auto
    with e(2) Inr Some now was assms(1,2) v ms show ?thesis
      by (auto simp: get_token_obs Let_def json_field_def decrypt_json_def truthy_def update_conv' split: if_splits)
  qed
qed

lemma rekey_kelso_spec:
  assumes s: "inv s" and crypto: "crypto_ok new" "decrypt_tame old"
    and shape: "secrets_shaped (obs s)" "tokens_shaped (obs s)" and fits: "kelso_fits old new (obs s)"
  obtains s' n w u where "rekey_kelso_secrets ops old new s = Inr (s', n, w, u)" "inv s'"
    "\<And>k. (\<forall>name. k \<noteq> secret_key name) \<Longrightarrow> (\<forall>key. k \<noteq> token_key key) \<Longrightarrow> obs s' k = obs s k"
    "\<And>name. case get_secret ops old s name of
        Inr r \<Rightarrow> get_secret ops new s' name = Inr r
      | Inl e \<Rightarrow> obs s' (secret_key name) = obs s (secret_key name) \<and> secret_key name \<in> set u"
    "\<And>epoch key r. get_token ops old epoch s key = Inr r \<Longrightarrow> get_token ops new epoch s' key = Inr r"
proof -
  let ?sb = "rekey_secret_body old new" and ?tb = "rekey_token_body old new"
  have pre_ok: "key_ok ''system/secrets/''" "key_ok ''system/tokens/''" by (simp_all add: key_ok_defs)
  have sec_body: "body_ok ?sb v" if at: "obs s (''system/secrets/'' @ k) = Some v" for k v
  proof -
    from at shape(1) obtain b where v: "v = JStr b" unfolding secrets_shaped_def secret_key_def by blast
    show ?thesis
    proof (rule body_ok_read [OF crypto(1)])
      show "storable v'" if "?sb n v = Inr (RkWrite v')" for n v'
        using fits at that unfolding kelso_fits_def secret_key_def by blast
    qed (unfold v, rule secret_body [OF crypto(2)])
  qed
  obtain d1 s1 n1 w1 where one: "st_scan ops s ''system/secrets/'' [] = Inr d1"
      "rekey_loop ops ''system/secrets/'' ?sb d1 (s, 0, 0, []) = Inr (s1, n1, w1, [] @ unreadable_names ''system/secrets/'' ?sb d1)" "inv s1"
    and far1: "\<And>k. \<not> starts_with k ''system/secrets/'' \<Longrightarrow> obs s1 k = obs s k"
    and gone1: "\<And>k. obs s (''system/secrets/'' @ k) = None \<Longrightarrow> obs s1 (''system/secrets/'' @ k) = None"
    and here1: "\<And>k v. obs s (''system/secrets/'' @ k) = Some v \<Longrightarrow> rekeyed ?sb v (Some v) (obs s1 (''system/secrets/'' @ k)) \<and>
       (?sb 0 v = Inr RkUnreadable \<longrightarrow> ''system/secrets/'' @ k \<in> set (unreadable_names ''system/secrets/'' ?sb d1))"
    using rekey_prefix_spec [OF s pre_ok(1), of ?sb 0 0 "[]"] sec_body by blast
  have tok_at: "obs s1 (token_key k) = obs s (token_key k)" for k
    by (rule far1) (simp add: token_key_def starts_with_def)
  have tok_body: "body_ok ?tb v" if at: "obs s1 (''system/tokens/'' @ k) = Some v" for k v
  proof -
    have at': "obs s (token_key k) = Some v" using at tok_at [of k] by (simp add: token_key_def)
    with shape(2) obtain ms t where v: "v = JObj ms" "map_of ms ''tok'' = Some (JStr t)" unfolding tokens_shaped_def by blast
    show ?thesis
    proof (rule body_ok_read [OF crypto(1)])
      show "storable v'" if "?tb n v = Inr (RkWrite v')" for n v' using fits at' that unfolding kelso_fits_def by blast
    qed (unfold v(1), rule token_body [OF crypto(2) v(2)])
  qed
  obtain d2 s2 n2 w2 where two: "st_scan ops s1 ''system/tokens/'' [] = Inr d2"
      "rekey_loop ops ''system/tokens/'' ?tb d2 (s1, n1, w1, [] @ unreadable_names ''system/secrets/'' ?sb d1) =
        Inr (s2, n2, w2, ([] @ unreadable_names ''system/secrets/'' ?sb d1) @ unreadable_names ''system/tokens/'' ?tb d2)" "inv s2"
    and far2: "\<And>k. \<not> starts_with k ''system/tokens/'' \<Longrightarrow> obs s2 k = obs s1 k"
    and gone2: "\<And>k. obs s1 (''system/tokens/'' @ k) = None \<Longrightarrow> obs s2 (''system/tokens/'' @ k) = None"
    and here2: "\<And>k v. obs s1 (''system/tokens/'' @ k) = Some v \<Longrightarrow> rekeyed ?tb v (Some v) (obs s2 (''system/tokens/'' @ k)) \<and>
       (?tb 0 v = Inr RkUnreadable \<longrightarrow> ''system/tokens/'' @ k \<in> set (unreadable_names ''system/tokens/'' ?tb d2))"
    using rekey_prefix_spec [OF one(3) pre_ok(2), of ?tb n1 w1 "[] @ unreadable_names ''system/secrets/'' ?sb d1"] tok_body by blast
  note gone1' = gone1 [folded secret_key_def] and here1' = here1 [folded secret_key_def]
  note gone2' = gone2 [folded token_key_def] and here2' = here2 [folded token_key_def]
  let ?u = "unreadable_names ''system/secrets/'' ?sb d1 @ unreadable_names ''system/tokens/'' ?tb d2"
  have run: "rekey_kelso_secrets ops old new s = Inr (s2, n2, w2, ?u)"
    using one(1,2) two(1,2) by (simp add: rekey_kelso_secrets_def)
  have sec2: "obs s2 (secret_key name) = obs s1 (secret_key name)" for name
    by (rule far2) (simp add: secret_key_def starts_with_def)
  show ?thesis
  proof (rule that [OF run two(3)])
    show "obs s2 k = obs s k" if "\<forall>name. k \<noteq> secret_key name" "\<forall>key. k \<noteq> token_key key" for k
      using that far1 [of k] far2 [of k] by (auto simp: secret_key_def token_key_def starts_with_iff)
    show "case get_secret ops old s name of
        Inr r \<Rightarrow> get_secret ops new s2 name = Inr r
      | Inl e \<Rightarrow> obs s2 (secret_key name) = obs s (secret_key name) \<and> secret_key name \<in> set ?u" for name
      by (rule secret_moved [OF s two(3) crypto shape(1)]) (use gone1' here1' in \<open>auto simp: sec2\<close>)
    show "get_token ops new epoch s2 key = Inr r" if "get_token ops old epoch s key = Inr r" for epoch key r
      by (rule token_moved [OF s two(3) crypto shape(2) that])
        (use gone2' here2' in \<open>auto simp: tok_at\<close>)
  qed
qed

end

lemma key_table_lenient [simp]:
  "\<not> lt_strict (key_table kept name title now)" "lt_file (key_table (Some body) name title now) = body"
  by (simp_all add: key_table_def logtab_init_def split: option.split)

text \<open>A text whose last record sets the seed.\<close>

lemma last_seed_read:
  assumes "file_records fromiso t = rs @ [\<lparr>lr_ts = now, lr_op = OpSet, lr_key = SEED_KEY, lr_value = bytes_hex entropy\<rparr>]"
  shows "read_keyfile lib fromiso name (Some t) None = Inr \<lparr>kf_master = master_key_from lib entropy, kf_seed = Some entropy\<rparr>"
proof -
  have "map_of (replay (file_records fromiso t)) SEED_KEY = Some \<lparr>le_ts = now, le_value = bytes_hex entropy\<rparr>"
    by (simp add: assms replay_def map_of_apply_rec apply_map_def entry_of_def)
  then show ?thesis by (simp add: read_keyfile_def load_lenient seed_in_def fromhex_hex key_file_of_def)
qed


text \<open>What a rekey makes of the settings of one app: \<open>names\<close> are the values it reports as unreadable.\<close>

definition settings_kept ::
    "'s store_ops \<Rightarrow> crypto_engine \<Rightarrow> crypto_engine \<Rightarrow> string \<Rightarrow> string list \<Rightarrow> 's \<Rightarrow> 's \<Rightarrow> bool" where
  "settings_kept ops old new app names s s' \<longleftrightarrow>
     (\<forall>name. case get_config ops old s name of
        Inr r \<Rightarrow> get_config ops new s' name = Inr r
      | Inl e \<Rightarrow> st_read ops s' (config_key name) = st_read ops s (config_key name) \<and>
          app @ '': '' @ config_key name \<in> set names)"

lemma settings_kept_more:
  "settings_kept ops old new app names s s' \<Longrightarrow> set names \<subseteq> set others \<Longrightarrow> settings_kept ops old new app others s s'"
  unfolding settings_kept_def by (auto split: sum.splits)

context config_store
begin

lemma rekey_apps_spec:
  assumes "ke_ops env = ops" and free: "\<forall>lock. \<not> ke_held env lock" and crypto: "crypto_ok new" "decrypt_tame old"
    and "\<forall>(app, s) \<in> set apps. inv s \<and> configs_shaped (obs s) \<and> rekey_fits old new (obs s)"
  shows "\<exists>moved res'. rekey_apps env old new apps res = Inr (moved, res') \<and>
    rs_apps res' = rs_apps res + length apps \<and> set (rs_unreadable res) \<subseteq> set (rs_unreadable res') \<and>
    list_all2 (\<lambda>(a, s) (b, s'). b = a \<and> settings_kept ops old new a (rs_unreadable res') s s') apps moved"
  using assms(5)
proof (induction apps arbitrary: res)
  case (Cons p apps)
  obtain app s where p: "p = (app, s)" by (cases p)
  with Cons.prems have s: "inv s" "configs_shaped (obs s)" "rekey_fits old new (obs s)"
    and rest: "\<forall>(app, s) \<in> set apps. inv s \<and> configs_shaped (obs s) \<and> rekey_fits old new (obs s)" by auto
  from rekey_app_spec [OF s(1) crypto] s(2,3) obtain s' n w u where
    moved: "rekey_app_secrets ops old new s = Inr (s', n, w, u)" "inv s'" and
    each: "\<forall>name. case get_config ops old s name of
        Inr r \<Rightarrow> get_config ops new s' name = Inr r \<and> config_key name \<notin> set u
      | Inl e \<Rightarrow> obs s' (config_key name) = obs s (config_key name) \<and> config_key name \<in> set u"
    unfolding configs_shaped_def rekey_fits_def by blast
  let ?res = "add_moved app w u (res\<lparr>rs_apps := Suc (rs_apps res)\<rparr>)"
  from Cons.IH [OF rest, of ?res] obtain rest_moved res' where tail: "rekey_apps env old new apps ?res = Inr (rest_moved, res')"
    "rs_apps res' = rs_apps ?res + length apps" "set (rs_unreadable ?res) \<subseteq> set (rs_unreadable res')"
    "list_all2 (\<lambda>(a, s) (b, s'). b = a \<and> settings_kept ops old new a (rs_unreadable res') s s') apps rest_moved" by blast
  have "settings_kept ops old new app (rs_unreadable ?res) s s'"
    unfolding settings_kept_def
  proof
    fix name
    show "case get_config ops old s name of
        Inr r \<Rightarrow> get_config ops new s' name = Inr r
      | Inl e \<Rightarrow> st_read ops s' (config_key name) = st_read ops s (config_key name) \<and>
          app @ '': '' @ config_key name \<in> set (rs_unreadable ?res)"
      using spec [OF each, of name] read_law [OF s(1), of "config_key name"] read_law [OF moved(2), of "config_key name"]
      by (auto simp: add_moved_def split: sum.splits)
  qed
  then have "settings_kept ops old new app (rs_unreadable res') s s'" using tail(3) by (rule settings_kept_more)
  moreover have "rekey_apps env old new (p # apps) res = Inr ((app, s') # rest_moved, res')"
    using free moved(1) tail(1) by (simp add: p rekey_locked_def values_moved_def assms(1))
  ultimately show ?case using tail(2-4) by (simp add: p add_moved_def)
qed simp

end

section \<open>Properties\<close>

text \<open>C40: the seed that was written last is the one the key file gives, with the master key derived from it, and what the
  key file was at any earlier time reads as it read before the write.\<close>

theorem seed_history_is_kept:
  assumes "seed_text_ok kept" and "LF \<notin> set (name @ title)" "CR \<notin> set (name @ title)"
    and "clock_ok fromiso now" and "length entropy = ENTROPY_BYTES"
  shows "\<exists>t. write_seed fromiso now name kept entropy title = Inr t \<and> seed_text_ok (Some t) \<and>
    read_keyfile lib fromiso name (Some t) None = Inr \<lparr>kf_master = master_key_from lib entropy, kf_seed = Some entropy\<rparr> \<and>
    (\<forall>at u v. fromiso at = Some u \<longrightarrow> fromiso now = Some v \<longrightarrow> u < v \<longrightarrow>
      read_keyfile lib fromiso name (Some t) (Some at) = read_keyfile lib fromiso name kept (Some at))"
proof -
  from assms(2-4) have plain: "LF \<notin> set (name @ title @ now)" "CR \<notin> set (name @ title @ now)" by (auto simp: clock_ok_def)
  from seed_written [OF assms(1) plain assms(4,5)] obtain t where t: "write_seed fromiso now name kept entropy title = Inr t" "t = [] \<or> last t = LF"
    "file_records fromiso t = (case kept of None \<Rightarrow> [] | Some f \<Rightarrow> file_records fromiso f)
      @ [\<lparr>lr_ts = now, lr_op = OpSet, lr_key = SEED_KEY, lr_value = bytes_hex entropy\<rparr>]" .
  let ?tab = "\<lambda>body. key_table (Some body) name [] []"
  note seed_now = last_seed_read [OF t(3), of lib name]
  have "read_keyfile lib fromiso name (Some t) (Some at) = read_keyfile lib fromiso name kept (Some at)"
    if "fromiso at = Some u" "fromiso now = Some v" "u < v" for at u v
  proof -
    have "load_at fromiso (?tab body) (Some at) = load_items fromiso (Some u) (List.map Inr (file_records fromiso body)) []" for body
      using that(1) file_items_lenient [of fromiso body] by (simp add: load_at_def)
    then show ?thesis
      using load_stops [of fromiso "\<lparr>lr_ts = now, lr_op = OpSet, lr_key = SEED_KEY, lr_value = bytes_hex entropy\<rparr>" v u "case kept of None \<Rightarrow> [] | Some f \<Rightarrow> file_records fromiso f" "[]"] that(2,3)
      by (cases kept) (simp_all add: read_keyfile_def t(3) seed_in_def key_file_of_def)
  qed
  with t(1,2) seed_now show ?thesis by (auto simp: seed_text_ok_def)
qed

text \<open>Before the first seed of a new key file there was no key.\<close>

definition day_clock :: "string \<Rightarrow> int option" where
  "day_clock s = (if s = ''2026-01-01T00:00:00Z'' then Some 0 else if s = ''2026-01-02T00:00:00Z'' then Some 1 else None)"

definition demo_recovery :: recovery_lib where
  "demo_recovery = \<lparr>rl_words = [''zoo''], rl_check = (\<lambda>s. True), rl_entropy = (\<lambda>s. replicate 16 0),
     rl_mnemonic = (\<lambda>e. ''zoo''), rl_hkdf = (\<lambda>label e. replicate 32 7)\<rparr>"

theorem seed_history_is_kept_witness:
  "\<exists>t. write_seed day_clock ''2026-01-02T00:00:00Z'' MASTER_KEYFILE None (replicate 16 0) KEY_TITLE = Inr t \<and>
    read_keyfile demo_recovery day_clock MASTER_KEYFILE (Some t) None =
      Inr \<lparr>kf_master = master_key_from demo_recovery (replicate 16 0), kf_seed = Some (replicate 16 0)\<rparr> \<and>
    read_keyfile demo_recovery day_clock MASTER_KEYFILE (Some t) (Some ''2026-01-01T00:00:00Z'') = Inr \<lparr>kf_master = [], kf_seed = None\<rparr>"
proof -
  have plain: "LF \<notin> set (MASTER_KEYFILE @ KEY_TITLE)" "CR \<notin> set (MASTER_KEYFILE @ KEY_TITLE)"
    by (simp_all add: MASTER_KEYFILE_def KEY_TITLE_def)
  have clock: "clock_ok day_clock ''2026-01-02T00:00:00Z''" by (simp add: clock_ok_def day_clock_def starts_with_def)
  have at: "day_clock ''2026-01-01T00:00:00Z'' = Some 0" "day_clock ''2026-01-02T00:00:00Z'' = Some 1" by (simp_all add: day_clock_def)
  have none: "seed_text_ok None" by (simp add: seed_text_ok_def)
  have early: "read_keyfile demo_recovery day_clock MASTER_KEYFILE None (Some ''2026-01-01T00:00:00Z'') = Inr \<lparr>kf_master = [], kf_seed = None\<rparr>"
    by (simp add: read_keyfile_def)
  show ?thesis
    using seed_history_is_kept [OF none plain clock, of "replicate 16 0" demo_recovery] at early by (fastforce simp: ENTROPY_BYTES_def)
qed

lemma dict_matches:
  assumes "list_all2 (\<lambda>(a, s) (b, s'). b = a \<and> P a s s') xs ys" and "map_of xs a = Some s"
  shows "\<exists>s'. map_of ys a = Some s' \<and> P a s s'"
  using assms by (induction rule: list_all2_induct) (auto split: if_splits)

lemma map_of_sorted: "distinct (keys d) \<Longrightarrow> map_of (sort_key fst d) = map_of d"
proof -
  assume "distinct (keys d)"
  moreover have "distinct (List.map fst (sort_key fst d))"
  proof -
    from \<open>distinct (keys d)\<close> have "distinct d" "inj_on fst (set d)" by (simp_all add: distinct_map)
    then show ?thesis by (simp add: distinct_map)
  qed
  ultimately show ?thesis by (intro map_of_eqI) (auto simp: map_of_eq_Some_iff image_iff)
qed

lemma seed_renewed:
  assumes free: "\<forall>lock. \<not> ke_held env lock" and backups: "fst (move_backups env entropy bx) = Inr ()"
    and "seed_text_ok (kb_keyfile bx)" and now: "clock_ok (ke_fromiso env) (ke_now env)" and "length entropy = ENTROPY_BYTES"
  obtains bx' where "renew_seed env entropy bx = (Inr (), bx')" "kb_apps bx' = kb_apps bx" "kb_db bx' = kb_db bx"
    "key_now env (kb_keyfile bx') = Inr \<lparr>kf_master = master_key_from (ke_lib env) entropy, kf_seed = Some entropy\<rparr>"
proof -
  obtain b where b: "move_backups env entropy bx = (Inr (), b)" using backups by (metis fst_conv prod.exhaust)
  note same = move_backups_keeps [OF b]
  have plain: "LF \<notin> set (MASTER_KEYFILE @ KEY_TITLE @ ke_now env)" "CR \<notin> set (MASTER_KEYFILE @ KEY_TITLE @ ke_now env)"
    using now by (simp_all add: MASTER_KEYFILE_def KEY_TITLE_def clock_ok_def)
  from seed_written [OF assms(3) plain assms(4,5)] obtain t where
    "write_seed (ke_fromiso env) (ke_now env) MASTER_KEYFILE (kb_keyfile bx) entropy KEY_TITLE = Inr t"
    and t: "file_records (ke_fromiso env) t = (case kb_keyfile bx of None \<Rightarrow> [] | Some f \<Rightarrow> file_records (ke_fromiso env) f)
      @ [\<lparr>lr_ts = ke_now env, lr_op = OpSet, lr_key = SEED_KEY, lr_value = bytes_hex entropy\<rparr>]" .
  with b same free have "renew_seed env entropy bx = (Inr (), b\<lparr>kb_keyfile := Some t\<rparr>)"
    by (simp add: renew_seed_def bindA_def rekey_locked_def)
  then show ?thesis by (rule that) (simp_all add: same key_now_def last_seed_read [OF t])
qed

text \<open>The stores a rekey finds: what is under each prefix has the shape its writer gives it, and fits when it is encrypted again.\<close>

definition rekey_ready ::
    "(string \<Rightarrow> int option) \<Rightarrow> (nat \<Rightarrow> string) \<Rightarrow> crypto_engine \<Rightarrow> crypto_engine \<Rightarrow> (json_store, 'r) rekey_box \<Rightarrow> bool" where
  "rekey_ready fromiso now old new bx \<longleftrightarrow>
     distinct (keys (kb_apps bx)) \<and>
     (\<forall>(app, s) \<in> set (kb_apps bx). js_inv fromiso now s \<and> configs_shaped (js_obs fromiso s) \<and> rekey_fits old new (js_obs fromiso s)) \<and>
     js_inv fromiso now (kb_db bx) \<and> secrets_shaped (js_obs fromiso (kb_db bx)) \<and> tokens_shaped (js_obs fromiso (kb_db bx)) \<and>
     kelso_fits old new (js_obs fromiso (kb_db bx))"


text \<open>A root with one app whose password the old key reads, and no backups.\<close>

definition demo_rekey_env :: "(json_store, unit) rekey_env" where
  "demo_rekey_env = \<lparr>ke_config = demo_machine\<lparr>cfg_master_key := ''old''\<rparr>, ke_lib = demo_recovery, ke_fromiso = demo_clock,
     ke_now = ''2026-01-01T00:00:00Z'', ke_fernet = (\<lambda>key. if key = ''old'' then mark_engine else noop_engine),
     ke_ops = json_logtab_store demo_clock demo_now,
     ke_restic = (\<lambda>password. \<lparr>rv_exec = (\<lambda>args mounts r. ((0, []), r)), rv_has_config = (\<lambda>r. False), rv_repo = [], rv_cache = [],
        rv_host = [], rv_resolve = id, rv_json = (\<lambda>l. None), rv_utc = (\<lambda>s. None)\<rparr>),
     ke_put = (\<lambda>p r. r), ke_unlink = id, ke_disk = demo_disk [], ke_readlink = (\<lambda>p. None), ke_same_disk = False,
     ke_held = (\<lambda>l. False)\<rparr>"




end
