(* ===== verification/Http.thy ===== *)
theory Http
  imports Routes
begin

text \<open>
  What the HTTP route providers of \<^verbatim>\<open>kelso/lib/routes\<close> share: requests and answers of \<^verbatim>\<open>requests\<close>, and
  Python's access to JSON values it did not check. The services behind the providers are a parameter
  that answers requests. An exception that is no \<^verbatim>\<open>RouteProviderError\<close> is \<open>Unexpected\<close>.
\<close>

section \<open>Requests and answers\<close>

record http_request =
  rq_method :: string
  rq_url :: string
  rq_bearer :: "string option"
  rq_params :: "(string, string) dict"
  rq_json :: "json option"

text \<open>\<open>rs_content\<close>: whether there is a body; \<open>rs_json\<close>: its value, \<open>None\<close> where \<^verbatim>\<open>resp.json()\<close> raises.\<close>

record http_response =
  rs_status :: int
  rs_reason :: string
  rs_content :: bool
  rs_text :: string
  rs_json :: "json option"
  rs_type :: "string option"

text \<open>\<open>Inl\<close>: a \<^verbatim>\<open>requests.RequestException\<close>, with its text; the request may have been carried out.\<close>

type_synonym 'w http = "http_request \<Rightarrow> ('w, string, http_response) act"

definition resp_ok :: "http_response \<Rightarrow> bool" where
  "resp_ok resp \<longleftrightarrow> \<not> (400 \<le> rs_status resp \<and> rs_status resp < 600)"

text \<open>\<^verbatim>\<open>resp.json() if resp.content else None\<close>.\<close>

definition resp_value :: "json \<Rightarrow> http_response \<Rightarrow> route_error + json" where
  "resp_value dflt resp =
     (if \<not> rs_content resp then Inr dflt
      else case rs_json resp of None \<Rightarrow> Inl (Unexpected ''not JSON'') | Some v \<Rightarrow> Inr v)"

section \<open>Values of unknown shape\<close>

definition or_empty :: "json \<Rightarrow> json \<Rightarrow> json" where
  "or_empty v dflt = (if truthy v then v else dflt)"

text \<open>\<open>v.get(k, default)\<close>, \<open>v[k]\<close>, \<open>for x in v\<close>, \<open>s in v\<close>.\<close>

definition dict_get :: "string \<Rightarrow> json \<Rightarrow> json \<Rightarrow> route_error + json" where
  "dict_get k dflt v =
     (case v of JObj ms \<Rightarrow> Inr (case map_of ms k of None \<Rightarrow> dflt | Some x \<Rightarrow> x)
      | _ \<Rightarrow> Inl (Unexpected ''AttributeError''))"

definition dict_at :: "string \<Rightarrow> json \<Rightarrow> route_error + json" where
  "dict_at k v =
     (case v of JObj ms \<Rightarrow> (case map_of ms k of None \<Rightarrow> Inl (Unexpected ''KeyError'') | Some x \<Rightarrow> Inr x)
      | _ \<Rightarrow> Inl (Unexpected ''TypeError''))"

fun iterated :: "json \<Rightarrow> route_error + json list" where
  "iterated (JArr vs) = Inr vs"
| "iterated (JObj ms) = Inr (List.map (\<lambda>(k, v). JStr k) ms)"
| "iterated (JStr s) = Inr (List.map (\<lambda>c. JStr [c]) s)"
| "iterated v = Inl (Unexpected ''TypeError'')"

fun text_in :: "string \<Rightarrow> json \<Rightarrow> route_error + bool" where
  "text_in s (JArr vs) = Inr (JStr s \<in> set vs)"
| "text_in s (JObj ms) = Inr (s \<in> set (keys ms))"
| "text_in s (JStr t) = Inr (contains s t)"
| "text_in s v = Inl (Unexpected ''TypeError'')"

text \<open>A value inside an f-string. Lists and dicts print as Python prints them, which no request relies on.\<close>

fun shown :: "json \<Rightarrow> string" where
  "shown (JStr s) = s"
| "shown (JInt i) = str_of_int i"
| "shown JNull = ''None''"
| "shown (JBool b) = (if b then ''True'' else ''False'')"
| "shown v = dumps v"

text \<open>An owner as \<^verbatim>\<open>route_owners\<close> gives it; one that is no text reads like no app.\<close>

definition owner_of :: "json \<Rightarrow> string option" where
  "owner_of v = (if v = JNull then None else Some (shown v))"

definition text_value :: "json \<Rightarrow> route_error + string" where
  "text_value v = (case v of JStr s \<Rightarrow> Inr s | _ \<Rightarrow> Inl (Unexpected ''AttributeError''))"

text \<open>The first item that satisfies a test that may raise.\<close>

fun first_such :: "('a \<Rightarrow> 'e + bool) \<Rightarrow> 'a list \<Rightarrow> 'e + 'a option" where
  "first_such test [] = Inr None"
| "first_such test (v # vs) = andthen (test v) (\<lambda>b. if b then Inr (Some v) else first_such test vs)"

lemma first_such_find: "(\<And>v. v \<in> set vs \<Longrightarrow> test v = Inr (P v)) \<Longrightarrow> first_such test vs = Inr (List.find P vs)"
  by (induction vs) auto

section \<open>Names under a domain\<close>

text \<open>\<^verbatim>\<open>f"{subdomain}.{domain}" if subdomain else domain\<close>.\<close>

definition full_name :: "string \<Rightarrow> string \<Rightarrow> string" where
  "full_name sub domain = (if sub \<noteq> [] then sub @ ''.'' @ domain else domain)"

text \<open>The single label before the domain, if a name has that form.\<close>

definition label_under :: "string \<Rightarrow> string \<Rightarrow> string option" where
  "label_under domain name =
     (if \<not> ends_with name (''.'' @ domain) then None
      else let sub = remove_suffix name (''.'' @ domain)
           in if sub = [] \<or> CHR ''.'' \<in> set sub then None else Some sub)"

definition single_label :: "string \<Rightarrow> bool" where
  "single_label sub \<longleftrightarrow> sub \<noteq> [] \<and> CHR ''.'' \<notin> set sub"

lemma label_under_full_name: "single_label sub \<Longrightarrow> label_under domain (full_name sub domain) = Some sub"
  by (simp add: label_under_def full_name_def single_label_def)

lemma label_under_Some: "label_under domain name = Some sub \<longleftrightarrow> single_label sub \<and> name = full_name sub domain"
proof
  assume l: "label_under domain name = Some sub"
  then obtain s where "name = s @ CHR ''.'' # domain"
    by (auto simp: label_under_def ends_with_iff Let_def split: if_splits)
  with l show "single_label sub \<and> name = full_name sub domain"
    by (auto simp: label_under_def Let_def single_label_def full_name_def split: if_splits)
qed (auto simp: label_under_full_name)

lemma full_name_inj: "single_label a \<Longrightarrow> single_label b \<Longrightarrow> full_name a d = full_name b d \<Longrightarrow> a = b"
  by (simp add: full_name_def single_label_def)

section \<open>Steps of a provider\<close>

text \<open>
  A provider works on the services' state, the kelso store and what the instance remembers. Each request
  changes the services only.
\<close>

record ('w, 's, 'm) session =
  ss_world :: 'w
  ss_db :: 's
  ss_memory :: 'm

definition liftA :: "'e + 'a \<Rightarrow> ('w, 'e, 'a) act" where
  "liftA v = askA (\<lambda>w. v)"

definition call :: "'w http \<Rightarrow> http_request \<Rightarrow> (('w, 's, 'm) session, route_error, http_response) act" where
  "call send rq ss =
     (case send rq (ss_world ss) of
        (Inl e, w) \<Rightarrow> (Inl (ProviderFailed e), ss\<lparr>ss_world := w\<rparr>)
      | (Inr resp, w) \<Rightarrow> (Inr resp, ss\<lparr>ss_world := w\<rparr>))"

text \<open>\<^verbatim>\<open>except RouteProviderError as e\<close>.\<close>

definition attempt :: "('w, route_error, 'a) act \<Rightarrow> ('w, route_error, route_error + 'a) act" where
  "attempt m w =
     (case m w of
        (Inl e, w') \<Rightarrow> (if provider_error e then Inr (Inl e) else Inl e, w')
      | (Inr x, w') \<Rightarrow> (Inr (Inr x), w'))"

section \<open>Building a provider from its block\<close>

definition strip_slashes :: "string \<Rightarrow> string" where
  "strip_slashes s = rev (dropWhile (\<lambda>c. c = CHR ''/'') (rev s))"

definition provider_args :: "string list \<Rightarrow> string \<Rightarrow> (string, string) dict \<Rightarrow> route_error + (string, string) dict" where
  "provider_args required tag args =
     (if \<exists>name \<in> set required. map_of args name \<in> {None, Some []} then Inl (ProviderFailed (tag @ '': missing args''))
      else Inr args)"

definition provider_secret :: "'s store_ops \<Rightarrow> crypto_engine \<Rightarrow> 's \<Rightarrow> string \<Rightarrow> route_error + string" where
  "provider_secret ops c db ref =
     (case get_secret ops c db ref of
        Inl e \<Rightarrow> Inl (Unexpected ''store'')
      | Inr v \<Rightarrow> if v \<in> {None, Some []} then Inl (ProviderFailed (''Missing system secret '' @ ref)) else Inr (the v))"

text \<open>\<^verbatim>\<open>cls(**args)\<close>: an argument the constructor does not take is a \<^verbatim>\<open>TypeError\<close>, a timeout that is no number a \<^verbatim>\<open>ValueError\<close>.\<close>

definition constructor_takes :: "string list \<Rightarrow> (string \<Rightarrow> bool) \<Rightarrow> (string, string) dict \<Rightarrow> route_error + unit" where
  "constructor_takes known is_float args =
     (if \<not> set (keys args) \<subseteq> set known then Inl (Unexpected ''TypeError'')
      else case map_of args ''timeout'' of
          None \<Rightarrow> Inr ()
        | Some t \<Rightarrow> if is_float t then Inr () else Inl (Unexpected ''ValueError''))"

text \<open>A request leaves the store and the memory of the instance alone.\<close>

lemma call_E:
  assumes "call send rq ss = (r, ss')"
  obtains (failed) e w where "send rq (ss_world ss) = (Inl e, w)" "r = Inl (ProviderFailed e)" "ss' = ss\<lparr>ss_world := w\<rparr>"
    | (answered) resp w where "send rq (ss_world ss) = (Inr resp, w)" "r = Inr resp" "ss' = ss\<lparr>ss_world := w\<rparr>"
  using assms by (auto simp: call_def split: prod.splits sum.splits)

lemma liftA_E:
  assumes "liftA v w = (r, w')"
  shows "r = v" and "w' = w"
  using assms by (simp_all add: liftA_def)

lemma bindA_liftA: "bindA (liftA v) f w = (case v of Inl e \<Rightarrow> (Inl e, w) | Inr x \<Rightarrow> f x w)"
  by (simp add: bindA_def liftA_def)



end
