(* ===== verification/Hosts.thy ===== *)
theory Hosts
  imports Http
begin

text \<open>
  The names a service publishes and who holds each, for the providers that keep both in one list. The locale
  \<open>host_provider\<close> is what such a provider's operations do to the list; it gives the promise of \<^theory_text>\<open>route_provider\<close>.
\<close>

text \<open>A host of a service as its API lists it, as far as kelso reads it.\<close>

record host_entry =
  he_id :: int
  he_names :: "string list"
  he_app :: "string option"

fun texts :: "json list \<Rightarrow> string list option" where
  "texts [] = Some []"
| "texts (JStr s # vs) = map_option (Cons s) (texts vs)"
| "texts (v # vs) = None"

lemma texts_Some: "texts vs = Some ns \<longleftrightarrow> vs = List.map JStr ns"
proof (induction vs arbitrary: ns)
  case (Cons v vs)
  then show ?case by (cases v; cases ns) auto
qed auto

lemma str_of_int_inj: "str_of_int i = str_of_int j \<longleftrightarrow> i = j"
proof
  have d: "hd (str_of_nat n) \<noteq> CHR ''-''" "str_of_nat n \<noteq> []" for n
    using str_of_nat_isdigit [of n] by (cases "str_of_nat n"; auto simp: str_isdigit_def is_digit_def)+
  have v: "str_of_nat m = str_of_nat n \<Longrightarrow> m = n" for m n by (metis nat_of_str_of_nat)
  have no: "str_of_nat m \<noteq> CHR ''-'' # t" for m t using d(1) [of m] by auto
  assume "str_of_int i = str_of_int j"
  then show "i = j" using no no [symmetric]
    by (auto simp: str_of_int_def eq_nat_nat_iff dest!: v split: if_splits)
qed simp

section \<open>Lists of hosts\<close>

definition tidy_hosts :: "host_entry list \<Rightarrow> bool" where
  "tidy_hosts hs \<longleftrightarrow> distinct (List.map he_id hs) \<and> distinct (concat (List.map he_names hs)) \<and>
     (\<forall>h \<in> set hs. he_app h \<noteq> None \<longrightarrow> (\<exists>n. he_names h = [n]))"

definition host_at :: "host_entry list \<Rightarrow> string \<Rightarrow> host_entry option" where
  "host_at hs name = List.find (\<lambda>h. name \<in> set (he_names h)) hs"

lemma find_unique:
  assumes "\<And>x. x \<in> set xs \<Longrightarrow> P x \<Longrightarrow> x = y" and "y \<in> set xs" and "P y"
  shows "List.find P xs = Some y"
proof (cases "List.find P xs")
  case None
  with assms(2,3) show ?thesis by (auto simp: find_None_iff)
next
  case (Some x)
  then have "x \<in> set xs" "P x" by (auto simp: find_Some_iff)
  with assms(1) Some show ?thesis by simp
qed

lemma concat_unique:
  "distinct (concat (List.map f xs)) \<Longrightarrow> x \<in> set xs \<Longrightarrow> y \<in> set xs \<Longrightarrow> a \<in> set (f x) \<Longrightarrow> a \<in> set (f y) \<Longrightarrow> x = y"
proof (induction xs)
  case (Cons z zs)
  have apart: "set (f z) \<inter> \<Union> (set ` f ` set zs) = {}" using Cons.prems(1) by simp
  show ?case
  proof (cases "x = z \<or> y = z")
    case True
    with Cons.prems(2-5) apart show ?thesis by auto
  next
    case False
    with Cons.prems have "x \<in> set zs" "y \<in> set zs" by simp_all
    with Cons.IH Cons.prems(1,4,5) show ?thesis by simp
  qed
qed simp

lemma host_at_iff:
  assumes "tidy_hosts hs"
  shows "host_at hs name = Some h \<longleftrightarrow> h \<in> set hs \<and> name \<in> set (he_names h)"
proof
  assume "host_at hs name = Some h"
  then show "h \<in> set hs \<and> name \<in> set (he_names h)" by (auto simp: host_at_def find_Some_iff)
next
  assume h: "h \<in> set hs \<and> name \<in> set (he_names h)"
  have one: "x = h" if "x \<in> set hs" "name \<in> set (he_names x)" for x
    by (rule concat_unique [of he_names hs x h name]) (use that h assms in \<open>simp_all add: tidy_hosts_def\<close>)
  show "host_at hs name = Some h" unfolding host_at_def by (rule find_unique) (use one h in auto)
qed

lemma host_at_None: "host_at hs name = None \<longleftrightarrow> (\<forall>h \<in> set hs. name \<notin> set (he_names h))"
  by (auto simp: host_at_def find_None_iff)

lemma map_option_eqI: "(\<And>x. a = Some x \<longleftrightarrow> b = Some x) \<Longrightarrow> a = b"
  by (cases a; cases b) auto

lemma host_added:
  assumes "tidy_hosts hs" and "host_at hs name = None" and "i \<notin> set (List.map he_id hs)"
  shows "tidy_hosts (hs @ [\<lparr>he_id = i, he_names = [name], he_app = Some a\<rparr>])"
    and "host_at (hs @ [\<lparr>he_id = i, he_names = [name], he_app = Some a\<rparr>]) n =
      (if n = name then Some \<lparr>he_id = i, he_names = [name], he_app = Some a\<rparr> else host_at hs n)"
proof -
  show t: "tidy_hosts (hs @ [\<lparr>he_id = i, he_names = [name], he_app = Some a\<rparr>])"
    using assms by (auto simp: tidy_hosts_def host_at_None)
  show "host_at (hs @ [\<lparr>he_id = i, he_names = [name], he_app = Some a\<rparr>]) n =
      (if n = name then Some \<lparr>he_id = i, he_names = [name], he_app = Some a\<rparr> else host_at hs n)"
    by (rule map_option_eqI) (use assms(2) in \<open>auto simp: host_at_iff [OF t] host_at_iff [OF assms(1)] host_at_None\<close>)
qed

lemma host_replaced:
  assumes "tidy_hosts hs" and "host_at hs name = Some h" and "he_app h = Some a"
  shows "List.map (\<lambda>x. if he_id x = he_id h then \<lparr>he_id = he_id h, he_names = [name], he_app = Some a\<rparr> else x) hs = hs"
proof (rule map_idI)
  from assms(1,2) have h: "h \<in> set hs" "name \<in> set (he_names h)" by (simp_all add: host_at_iff)
  with assms(1,3) obtain n where "he_names h = [n]" unfolding tidy_hosts_def by blast
  with h(2) have same: "\<lparr>he_id = he_id h, he_names = [name], he_app = Some a\<rparr> = h" using assms(3) by simp
  fix x assume "x \<in> set hs"
  with h(1) assms(1) have "he_id x = he_id h \<longrightarrow> x = h" unfolding tidy_hosts_def by (auto dest: inj_onD simp: distinct_map)
  with same show "(if he_id x = he_id h then \<lparr>he_id = he_id h, he_names = [name], he_app = Some a\<rparr> else x) = x" by metis
qed

lemma host_removed:
  assumes "tidy_hosts hs" and "host_at hs name = Some h" and "he_app h \<noteq> None"
  shows "tidy_hosts (List.filter (\<lambda>x. he_id x \<noteq> he_id h) hs)"
    and "host_at (List.filter (\<lambda>x. he_id x \<noteq> he_id h) hs) n = (if n = name then None else host_at hs n)"
proof -
  let ?hs = "List.filter (\<lambda>x. he_id x \<noteq> he_id h) hs"
  from assms(1,2) have h: "h \<in> set hs" "name \<in> set (he_names h)" by (simp_all add: host_at_iff)
  with assms(1,3) obtain n' where "he_names h = [n']" unfolding tidy_hosts_def by blast
  with h(2) have names: "he_names h = [name]" by simp
  have others: "x \<in> set hs \<Longrightarrow> he_id x = he_id h \<longleftrightarrow> x = h" for x
    using assms(1) h(1) unfolding tidy_hosts_def by (auto dest: inj_onD simp: distinct_map)
  have only: "x \<in> set hs \<Longrightarrow> name \<in> set (he_names x) \<longleftrightarrow> x = h" for x
    using assms(1) h host_at_iff [OF assms(1), of name] by (metis assms(2) option.inject)
  have "distinct (concat (List.map he_names hs)) \<Longrightarrow> distinct (concat (List.map he_names (List.filter P hs)))" for P
    by (induction hs) auto
  then show t: "tidy_hosts ?hs" using assms(1) by (auto simp: tidy_hosts_def distinct_map_filter)
  show "host_at ?hs n = (if n = name then None else host_at hs n)"
    by (rule map_option_eqI) (use h names others only in \<open>auto simp: host_at_iff [OF t] host_at_iff [OF assms(1)]\<close>)
qed

text \<open>The first label a list of hosts has for a name.\<close>

definition labels_of :: "string \<Rightarrow> host_entry \<Rightarrow> (string \<times> string option) list" where
  "labels_of domain h = List.map (\<lambda>sub. (sub, he_app h)) (List.map_filter (label_under domain) (he_names h))"

lemma label_list_distinct: "distinct names \<Longrightarrow> distinct (List.map_filter (label_under domain) names)"
proof (induction names)
  case (Cons n ns)
  have "sub \<notin> set (List.map_filter (label_under domain) ns)" if "label_under domain n = Some sub" for sub
    using Cons.prems that by (auto simp: map_filter_def label_under_Some label_under_full_name)
  with Cons show ?case by (auto simp: map_filter_simps split: option.split)
qed (simp add: map_filter_simps)

lemma labels_keys: "List.map fst (concat (List.map (labels_of domain) hs)) = List.map_filter (label_under domain) (concat (List.map he_names hs))"
  by (induction hs) (simp_all add: labels_of_def map_filter_simps, simp add: map_filter_def)

lemma labels_lookup:
  "map_of (concat (List.map (labels_of domain) hs)) sub =
     (if single_label sub then map_option he_app (host_at hs (full_name sub domain)) else None)"
proof (induction hs)
  case (Cons h hs)
  have "map_of (labels_of domain h) sub = (if single_label sub \<and> full_name sub domain \<in> set (he_names h) then Some (he_app h) else None)"
    unfolding labels_of_def
  proof (induction "he_names h" arbitrary: h)
    case (Cons n ns)
    from Cons.hyps(1) [of "h\<lparr>he_names := ns\<rparr>"] Cons.hyps(2) [symmetric] show ?case
      by (auto simp: map_filter_simps label_under_Some label_under_full_name dest: full_name_inj split: option.splits)
  qed (simp add: map_filter_simps)
  with Cons show ?case by (auto simp: host_at_def map_add_def split: option.splits)
qed (simp add: host_at_def)

section \<open>The promise\<close>

text \<open>Who holds a name under the provider's domain.\<close>

definition name_owner ::
    "('st \<Rightarrow> host_entry list) \<Rightarrow> string \<Rightarrow> string \<Rightarrow> 'st \<Rightarrow> string \<Rightarrow> string \<Rightarrow> string option option" where
  "name_owner hosts tag domain st t sub =
     (if t = tag \<and> single_label sub then map_option he_app (host_at (hosts st) (full_name sub domain)) else None)"

definition provider_names :: "string \<Rightarrow> string \<Rightarrow> string \<Rightarrow> string \<Rightarrow> string \<Rightarrow> bool" where
  "provider_names tag domain t sub d \<longleftrightarrow> (t = tag \<longrightarrow> single_label sub \<and> d = domain)"

text \<open>A registration changes nothing, finds the app's own host as it was, or adds one; a removal takes one.\<close>

definition host_registered :: "string \<Rightarrow> string \<Rightarrow> bool \<Rightarrow> host_entry list \<Rightarrow> host_entry list \<Rightarrow> bool" where
  "host_registered app name failed hs hs' \<longleftrightarrow>
     (failed \<and> hs' = hs) \<or>
     (\<exists>h. host_at hs name = Some h \<and> he_app h = Some app \<and> hs' = hs) \<or>
     (host_at hs name = None \<and> (\<exists>i. i \<notin> set (List.map he_id hs) \<and> hs' = hs @ [\<lparr>he_id = i, he_names = [name], he_app = Some app\<rparr>]))"

definition host_unregistered :: "string \<Rightarrow> bool \<Rightarrow> host_entry list \<Rightarrow> host_entry list \<Rightarrow> bool" where
  "host_unregistered name failed hs hs' \<longleftrightarrow>
     (hs' = hs \<and> (failed \<or> host_at hs name = None)) \<or>
     (\<exists>h. host_at hs name = Some h \<and> hs' = List.filter (\<lambda>x. he_id x \<noteq> he_id h) hs)"

locale host_provider =
  fixes ops :: "'st provider_ops"
    and tag domain :: string
    and hosts :: "'st \<Rightarrow> host_entry list"
  assumes other_tag: "t \<noteq> tag \<Longrightarrow> po_owners ops t = raise (NoProvider t)"
      "t \<noteq> tag \<Longrightarrow> po_register ops t app port sub d sch = raise (NoProvider t)"
      "t \<noteq> tag \<Longrightarrow> po_unregister ops t sub d = raise (NoProvider t)"
    and owners_ok: "tidy_hosts (hosts st) \<Longrightarrow> po_owners ops tag st = (r, st') \<Longrightarrow>
      hosts st' = hosts st \<and> (\<forall>d. r = Inr d \<longrightarrow> map_of d = map_of (concat (List.map (labels_of domain) (hosts st))))"
    and register_ok: "tidy_hosts (hosts st) \<Longrightarrow> single_label sub \<Longrightarrow> po_register ops tag app port sub domain sch st = (u, st') \<Longrightarrow>
      host_registered app (full_name sub domain) (isl u) (hosts st) (hosts st')"
    and unregister_ok: "tidy_hosts (hosts st) \<Longrightarrow> single_label sub \<Longrightarrow> po_unregister ops tag sub domain st = (u, st') \<Longrightarrow>
      host_unregistered (full_name sub domain) (isl u) (hosts st) (hosts st')"

lemma registered_owner:
  assumes "tidy_hosts hs" and "single_label sub" and "host_registered app (full_name sub domain) failed hs hs'"
    and "hosts st = hs" and "hosts st' = hs'"
  shows "tidy_hosts hs'" and "(t, s) \<noteq> (tag, sub) \<Longrightarrow> name_owner hosts tag domain st' t s = name_owner hosts tag domain st t s"
    and "name_owner hosts tag domain st tag sub \<notin> {None, Some (Some app)} \<Longrightarrow>
      failed \<and> name_owner hosts tag domain st' tag sub = name_owner hosts tag domain st tag sub"
    and "\<not> failed \<Longrightarrow> name_owner hosts tag domain st' tag sub = Some (Some app)"
proof -
  have "tidy_hosts hs' \<and> ((t, s) \<noteq> (tag, sub) \<longrightarrow> name_owner hosts tag domain st' t s = name_owner hosts tag domain st t s) \<and>
      (name_owner hosts tag domain st tag sub \<notin> {None, Some (Some app)} \<longrightarrow>
        failed \<and> name_owner hosts tag domain st' tag sub = name_owner hosts tag domain st tag sub) \<and>
      (\<not> failed \<longrightarrow> name_owner hosts tag domain st' tag sub = Some (Some app))"
  proof (cases "hs' = hs")
    case True
    from assms(3) True have "failed \<or> (\<exists>h. host_at hs (full_name sub domain) = Some h \<and> he_app h = Some app)"
      by (auto simp: host_registered_def)
    with True assms show ?thesis by (auto simp: name_owner_def)
  next
    case False
    with assms(3) obtain i where added: "host_at hs (full_name sub domain) = None" "i \<notin> set (List.map he_id hs)"
      "hs' = hs @ [\<lparr>he_id = i, he_names = [full_name sub domain], he_app = Some app\<rparr>]" by (auto simp: host_registered_def)
    note after = host_added [OF assms(1) added(1,2), of app, folded added(3)]
    have "name_owner hosts tag domain st' t s = (if (t, s) = (tag, sub) then Some (Some app) else name_owner hosts tag domain st t s)" for t s
      using assms(2) by (auto simp: name_owner_def assms(4,5) after(2) dest: full_name_inj)
    moreover have "name_owner hosts tag domain st tag sub = None" by (simp add: name_owner_def assms(4) added(1))
    ultimately show ?thesis using after(1) by simp
  qed
  then show "tidy_hosts hs'" "(t, s) \<noteq> (tag, sub) \<Longrightarrow> name_owner hosts tag domain st' t s = name_owner hosts tag domain st t s"
    "name_owner hosts tag domain st tag sub \<notin> {None, Some (Some app)} \<Longrightarrow>
      failed \<and> name_owner hosts tag domain st' tag sub = name_owner hosts tag domain st tag sub"
    "\<not> failed \<Longrightarrow> name_owner hosts tag domain st' tag sub = Some (Some app)" by blast+
qed

lemma unregistered_owner:
  assumes "tidy_hosts hs" and "single_label sub" and "host_unregistered (full_name sub domain) failed hs hs'"
    and "hosts st = hs" and "hosts st' = hs'" and "name_owner hosts tag domain st tag sub \<noteq> Some None"
  shows "tidy_hosts hs'" and "(t, s) \<noteq> (tag, sub) \<Longrightarrow> name_owner hosts tag domain st' t s = name_owner hosts tag domain st t s"
    and "name_owner hosts tag domain st' tag sub \<in> {None, name_owner hosts tag domain st tag sub}"
    and "\<not> failed \<Longrightarrow> name_owner hosts tag domain st' tag sub = None"
proof -
  have "tidy_hosts hs' \<and> ((t, s) \<noteq> (tag, sub) \<longrightarrow> name_owner hosts tag domain st' t s = name_owner hosts tag domain st t s) \<and>
      name_owner hosts tag domain st' tag sub \<in> {None, name_owner hosts tag domain st tag sub} \<and>
      (\<not> failed \<longrightarrow> name_owner hosts tag domain st' tag sub = None)"
  proof (cases "\<exists>h. host_at hs (full_name sub domain) = Some h \<and> hs' = List.filter (\<lambda>x. he_id x \<noteq> he_id h) hs")
    case True
    then obtain h where removed: "host_at hs (full_name sub domain) = Some h" "hs' = List.filter (\<lambda>x. he_id x \<noteq> he_id h) hs" by blast
    have "he_app h \<noteq> None" using assms(2,4,6) removed(1) by (simp add: name_owner_def)
    note after = host_removed [OF assms(1) removed(1) this, folded removed(2)]
    have "name_owner hosts tag domain st' t s = (if (t, s) = (tag, sub) then None else name_owner hosts tag domain st t s)" for t s
      using assms(2) by (simp add: name_owner_def assms(4,5) after(2)) (blast dest: full_name_inj)
    with after(1) show ?thesis by simp
  next
    case False
    with assms(3) have "hs' = hs" "failed \<or> host_at hs (full_name sub domain) = None" by (auto simp: host_unregistered_def)
    with assms show ?thesis by (auto simp: name_owner_def)
  qed
  then show "tidy_hosts hs'" "(t, s) \<noteq> (tag, sub) \<Longrightarrow> name_owner hosts tag domain st' t s = name_owner hosts tag domain st t s"
    "name_owner hosts tag domain st' tag sub \<in> {None, name_owner hosts tag domain st tag sub}"
    "\<not> failed \<Longrightarrow> name_owner hosts tag domain st' tag sub = None" by blast+
qed

definition tidy_state :: "('st \<Rightarrow> host_entry list) \<Rightarrow> 'st \<Rightarrow> bool" where
  "tidy_state hosts st \<longleftrightarrow> tidy_hosts (hosts st)"

lemma labels_rule: "map_of (concat (List.map (labels_of domain) (hosts st))) = name_owner hosts tag domain st tag"
  by (rule ext) (simp add: labels_lookup name_owner_def)

sublocale host_provider \<subseteq> names: route_provider ops "tidy_state hosts" "name_owner hosts tag domain" "provider_names tag domain"
proof
  fix w w' :: 'st and t r
  assume i: "tidy_state hosts w" and run: "po_owners ops t w = (r, w')"
  show "tidy_state hosts w' \<and> name_owner hosts tag domain w' = name_owner hosts tag domain w \<and>
      (\<forall>d. r = Inr d \<longrightarrow> map_of d = name_owner hosts tag domain w t)"
  proof (cases "t = tag")
    case False
    with run other_tag(1) [OF False] i show ?thesis by auto
  next
    case True
    from owners_ok [OF i [unfolded tidy_state_def] run [unfolded True]] labels_rule [of domain hosts w tag] i
    show ?thesis by (auto simp: tidy_state_def True name_owner_def fun_eq_iff)
  qed
next
  fix w w' :: 'st and t sub d app port sch u
  assume i: "tidy_state hosts w" and n: "provider_names tag domain t sub d" and run: "po_register ops t app port sub d sch w = (u, w')"
  show "tidy_state hosts w' \<and> (\<forall>t' s. (t', s) \<noteq> (t, sub) \<longrightarrow> name_owner hosts tag domain w' t' s = name_owner hosts tag domain w t' s) \<and>
      (name_owner hosts tag domain w t sub \<notin> {None, Some (Some app)} \<longrightarrow>
        isl u \<and> name_owner hosts tag domain w' t sub = name_owner hosts tag domain w t sub) \<and>
      (\<not> isl u \<longrightarrow> name_owner hosts tag domain w' t sub = Some (Some app))"
  proof (cases "t = tag")
    case False
    with run other_tag(2) [OF False] i show ?thesis by auto
  next
    case True
    with n have sub: "single_label sub" "d = domain" by (simp_all add: provider_names_def)
    note tidy = i [unfolded tidy_state_def]
    note owner = registered_owner [OF tidy sub(1) register_ok [OF tidy sub(1) run [unfolded True sub(2)]], of hosts w w', OF refl refl]
    show ?thesis unfolding True tidy_state_def using owner by blast
  qed
next
  fix w w' :: 'st and t sub d u
  assume i: "tidy_state hosts w" and n: "provider_names tag domain t sub d" and own: "name_owner hosts tag domain w t sub \<noteq> Some None"
    and run: "po_unregister ops t sub d w = (u, w')"
  show "tidy_state hosts w' \<and> (\<forall>t' s. (t', s) \<noteq> (t, sub) \<longrightarrow> name_owner hosts tag domain w' t' s = name_owner hosts tag domain w t' s) \<and>
      name_owner hosts tag domain w' t sub \<in> {None, name_owner hosts tag domain w t sub} \<and>
      (\<not> isl u \<longrightarrow> name_owner hosts tag domain w' t sub = None)"
  proof (cases "t = tag")
    case False
    with run other_tag(3) [OF False] i show ?thesis by auto
  next
    case True
    with n have sub: "single_label sub" "d = domain" by (simp_all add: provider_names_def)
    note tidy = i [unfolded tidy_state_def]
    note owner = unregistered_owner [OF tidy sub(1) unregister_ok [OF tidy sub(1) run [unfolded True sub(2)]], of hosts w w', OF refl refl own [unfolded True]]
    show ?thesis unfolding True tidy_state_def using owner by blast
  qed
qed

context host_provider
begin

lemma promise: "route_provider ops (tidy_state hosts) (name_owner hosts tag domain) (provider_names tag domain)"
  by (rule names.route_provider_axioms)

text \<open>The promise for one name, written out.\<close>

lemma promise_for_name:
  assumes "tidy_hosts (hosts st)" and "single_label sub"
  shows "(\<forall>r st'. po_owners ops tag st = (r, st') \<longrightarrow>
      tidy_hosts (hosts st') \<and> name_owner hosts tag domain st' = name_owner hosts tag domain st \<and>
      (\<forall>d. r = Inr d \<longrightarrow> map_of d = name_owner hosts tag domain st tag)) \<and>
    (\<forall>u st'. po_register ops tag app port sub domain sch st = (u, st') \<longrightarrow>
      tidy_hosts (hosts st') \<and> (\<forall>s. s \<noteq> sub \<longrightarrow> name_owner hosts tag domain st' tag s = name_owner hosts tag domain st tag s) \<and>
      (name_owner hosts tag domain st tag sub \<notin> {None, Some (Some app)} \<longrightarrow>
        isl u \<and> name_owner hosts tag domain st' tag sub = name_owner hosts tag domain st tag sub) \<and>
      (u = Inr () \<longrightarrow> name_owner hosts tag domain st' tag sub = Some (Some app))) \<and>
    (\<forall>u st'. po_unregister ops tag sub domain st = (u, st') \<and> name_owner hosts tag domain st tag sub \<noteq> Some None \<longrightarrow>
      tidy_hosts (hosts st') \<and> (\<forall>s. s \<noteq> sub \<longrightarrow> name_owner hosts tag domain st' tag s = name_owner hosts tag domain st tag s) \<and>
      name_owner hosts tag domain st' tag sub \<in> {None, name_owner hosts tag domain st tag sub} \<and>
      (u = Inr () \<longrightarrow> name_owner hosts tag domain st' tag sub = None))"
proof (intro conjI; intro allI impI; (elim conjE)?)
  have i: "tidy_state hosts st" by (simp add: tidy_state_def assms(1))
  have n: "provider_names tag domain tag sub domain" by (simp add: provider_names_def assms(2))
  show "tidy_hosts (hosts st') \<and> name_owner hosts tag domain st' = name_owner hosts tag domain st \<and>
      (\<forall>d. r = Inr d \<longrightarrow> map_of d = name_owner hosts tag domain st tag)" if "po_owners ops tag st = (r, st')" for r st'
    using names.owners_law [OF i that] by (simp add: tidy_state_def)
  show "tidy_hosts (hosts st') \<and> (\<forall>s. s \<noteq> sub \<longrightarrow> name_owner hosts tag domain st' tag s = name_owner hosts tag domain st tag s) \<and>
      (name_owner hosts tag domain st tag sub \<notin> {None, Some (Some app)} \<longrightarrow>
        isl u \<and> name_owner hosts tag domain st' tag sub = name_owner hosts tag domain st tag sub) \<and>
      (u = Inr () \<longrightarrow> name_owner hosts tag domain st' tag sub = Some (Some app))"
    if "po_register ops tag app port sub domain sch st = (u, st')" for u st'
    using names.register_law [OF i n that] unfolding tidy_state_def by (metis Pair_inject sum.disc(2))
  show "tidy_hosts (hosts st') \<and> (\<forall>s. s \<noteq> sub \<longrightarrow> name_owner hosts tag domain st' tag s = name_owner hosts tag domain st tag s) \<and>
      name_owner hosts tag domain st' tag sub \<in> {None, name_owner hosts tag domain st tag sub} \<and>
      (u = Inr () \<longrightarrow> name_owner hosts tag domain st' tag sub = None)"
    if "po_unregister ops tag sub domain st = (u, st')" "name_owner hosts tag domain st tag sub \<noteq> Some None" for u st'
    using names.unregister_law [OF i n that(2,1)] unfolding tidy_state_def by (metis Pair_inject sum.disc(2))
qed

end

section \<open>Answers of a server\<close>

definition answer :: "int \<Rightarrow> json \<Rightarrow> http_response" where
  "answer status v = \<lparr>rs_status = status, rs_reason = [], rs_content = True, rs_text = [], rs_json = Some v, rs_type = None\<rparr>"

definition fresh_id :: "host_entry list \<Rightarrow> int" where
  "fresh_id hs = 1 + foldr (\<lambda>h m. max (he_id h) m) hs 0"

lemma fresh_id_fresh: "fresh_id hs \<notin> set (List.map he_id hs)"
proof -
  have "h \<in> set hs \<Longrightarrow> he_id h \<le> foldr (\<lambda>h m. max (he_id h) m) hs 0" for h by (induction hs) auto
  then show ?thesis by (force simp: fresh_id_def)
qed



end
