(* ===== verification/Npm.thy ===== *)
theory Npm
  imports Hosts
begin

text \<open>
  \<^verbatim>\<open>kelso/lib/routes/npm.py\<close>: routes as proxy hosts of Nginx Proxy Manager. The locale \<open>npm_service\<close> states what
  the code relies on in NPM's API; under it the provider keeps the promise of \<^theory_text>\<open>route_provider\<close>.
\<close>

section \<open>An instance\<close>

record ('w, 's) npm_env =
  ne_send :: "'w http"
  ne_now :: "'w \<Rightarrow> int"
  ne_instant :: "string \<Rightarrow> int option"
  ne_is_float :: "string \<Rightarrow> bool"
  ne_store :: "'s store_ops"
  ne_cipher :: crypto_engine
  ne_nonce :: "'w \<Rightarrow> nat"

record npm =
  nm_endpoint :: string
  nm_email :: string
  nm_password :: string
  nm_domain :: string
  nm_address :: string

text \<open>The token the instance holds and when it expires, in seconds.\<close>

type_synonym ('w, 's) npm_session = "('w, 's, string option \<times> int) session"

type_synonym ('w, 's, 'a) npm_act = "(('w, 's) npm_session, route_error, 'a) act"

definition NPM_REQUIRED :: "string list" where
  "NPM_REQUIRED = [''endpoint'', ''email'', ''password_secret'']"

definition TOKEN_REFRESH_LEEWAY :: int where "TOKEN_REFRESH_LEEWAY = 60"
definition NPM_TOKEN_KEY :: string where "NPM_TOKEN_KEY = ''npm_token''"

definition npm_from_config ::
    "('w, 's) npm_env \<Rightarrow> string \<Rightarrow> route_provider_entry \<Rightarrow> string \<Rightarrow> 'w \<times> 's \<Rightarrow> route_error + npm \<times> ('w, 's) npm_session" where
  "npm_from_config env tag conf address st =
     (case st of (w, db) \<Rightarrow>
       andthen (provider_args NPM_REQUIRED tag (rp_args conf)) (\<lambda>args.
       andthen (provider_secret (ne_store env) (ne_cipher env) db (the (map_of args ''password_secret''))) (\<lambda>password.
       andthen (case get_token (ne_store env) (ne_cipher env) (ne_now env w) db NPM_TOKEN_KEY of
                  Inl e \<Rightarrow> Inl (Unexpected ''store'') | Inr v \<Rightarrow> Inr v) (\<lambda>stored.
       andthen (constructor_takes [''endpoint'', ''email'', ''timeout''] (ne_is_float env) (AList.delete ''password_secret'' args)) (\<lambda>_.
         Inr (\<lparr>nm_endpoint = strip_slashes (the (map_of args ''endpoint'')), nm_email = the (map_of args ''email''),
                nm_password = password, nm_domain = rp_domain conf, nm_address = address\<rparr>,
              \<lparr>ss_world = w, ss_db = db, ss_memory = (map_option fst stored, case stored of None \<Rightarrow> 0 | Some (t, x) \<Rightarrow> x)\<rparr>))))))"

section \<open>Tokens\<close>

definition npm_cache_token :: "('w, 's) npm_env \<Rightarrow> ('w, 's, unit) npm_act" where
  "npm_cache_token env ss =
     (case set_token (ne_store env) (ne_cipher env) (ne_nonce env (ss_world ss)) (ss_db ss) NPM_TOKEN_KEY
             (case fst (ss_memory ss) of None \<Rightarrow> ''None'' | Some t \<Rightarrow> t) (snd (ss_memory ss)) of
        Inl e \<Rightarrow> (Inl (Unexpected ''store''), ss)
      | Inr db \<Rightarrow> (Inr (), ss\<lparr>ss_db := db\<rparr>))"

definition npm_log_in :: "('w, 's) npm_env \<Rightarrow> npm \<Rightarrow> ('w, 's, string) npm_act" where
  "npm_log_in env p =
     (if nm_email p = [] \<or> nm_password p = [] then raise (ProviderFailed ''NPM email and password are required to authenticate'')
      else
        bindA (call (ne_send env) \<lparr>rq_method = ''POST'', rq_url = nm_endpoint p @ ''/api/tokens'', rq_bearer = None, rq_params = [],
            rq_json = Some (JObj [(''identity'', JStr (nm_email p)), (''secret'', JStr (nm_password p))])\<rparr>) (\<lambda>resp.
        if rs_status resp = 401 then raise (ProviderFailed ''NPM rejected the credentials (401)'')
        else if \<not> resp_ok resp then raise (Unexpected ''HTTPError'')
        else bindA (liftA (case rs_json resp of None \<Rightarrow> Inl (Unexpected ''not JSON'') | Some v \<Rightarrow> Inr v)) (\<lambda>data.
        bindA (liftA (dict_get ''requires_2fa'' JNull data)) (\<lambda>twofa.
        if truthy twofa then raise (ProviderFailed ''2FA'')
        else bindA (liftA (dict_at ''token'' data)) (\<lambda>token.
        bindA (update (\<lambda>ss. ss\<lparr>ss_memory := (Some (shown token), snd (ss_memory ss))\<rparr>)) (\<lambda>_.
        bindA (liftA (andthen (dict_at ''expires'' data) (\<lambda>v. andthen (text_value v) (\<lambda>t.
            case ne_instant env t of None \<Rightarrow> Inl (Unexpected ''ValueError'') | Some i \<Rightarrow> Inr i)))) (\<lambda>expire.
        bindA (update (\<lambda>ss. ss\<lparr>ss_memory := (fst (ss_memory ss), expire)\<rparr>)) (\<lambda>_.
        bindA (npm_cache_token env) (\<lambda>_. ret (shown token))))))))))"

definition npm_fetch_token :: "('w, 's) npm_env \<Rightarrow> npm \<Rightarrow> ('w, 's, string) npm_act" where
  "npm_fetch_token env p ss =
     (case ss_memory ss of
        (Some (c # cs), expire) \<Rightarrow>
          if expire - TOKEN_REFRESH_LEEWAY > ne_now env (ss_world ss) then (Inr (c # cs), ss) else npm_log_in env p ss
      | _ \<Rightarrow> npm_log_in env p ss)"

definition npm_request :: "('w, 's) npm_env \<Rightarrow> npm \<Rightarrow> string \<Rightarrow> string \<Rightarrow> json option \<Rightarrow> ('w, 's, json) npm_act" where
  "npm_request env p verb path body =
     bindA (npm_fetch_token env p) (\<lambda>token.
     bindA (call (ne_send env) \<lparr>rq_method = verb, rq_url = nm_endpoint p @ path, rq_bearer = Some token, rq_params = [],
         rq_json = body\<rparr>) (\<lambda>resp.
     if \<not> resp_ok resp then raise (ProviderFailed (''NPM '' @ verb @ '' '' @ path @ '' returned '' @ str_of_int (rs_status resp)))
     else liftA (resp_value JNull resp)))"

section \<open>Certificates and proxy hosts\<close>

definition names_field :: "json \<Rightarrow> route_error + json" where
  "names_field v = dict_get ''domain_names'' (JArr []) v"

text \<open>\<open>JNull\<close> when no certificate covers the domain.\<close>

definition npm_wildcard_certificate_id :: "('w, 's) npm_env \<Rightarrow> npm \<Rightarrow> ('w, 's, json) npm_act" where
  "npm_wildcard_certificate_id env p =
     bindA (npm_request env p ''GET'' ''/api/nginx/certificates'' None) (\<lambda>v. liftA (
       andthen (iterated (or_empty v (JArr []))) (\<lambda>certs.
       andthen (first_such (\<lambda>cert. andthen (names_field cert) (text_in (''*.'' @ nm_domain p))) certs) (\<lambda>found.
         case found of None \<Rightarrow> Inr JNull | Some cert \<Rightarrow> dict_at ''id'' cert))))"

definition HOSTS :: string where "HOSTS = ''/api/nginx/proxy-hosts''"

definition npm_hosts :: "('w, 's) npm_env \<Rightarrow> npm \<Rightarrow> ('w, 's, json list) npm_act" where
  "npm_hosts env p = bindA (npm_request env p ''GET'' HOSTS None) (\<lambda>v. liftA (iterated (or_empty v (JArr []))))"

definition npm_find_proxy_host :: "('w, 's) npm_env \<Rightarrow> npm \<Rightarrow> string \<Rightarrow> ('w, 's, json option) npm_act" where
  "npm_find_proxy_host env p name =
     bindA (npm_hosts env p) (\<lambda>hosts. liftA (first_such (\<lambda>h. andthen (names_field h) (text_in name)) hosts))"

definition npm_host_owner :: "json \<Rightarrow> route_error + json" where
  "npm_host_owner h = andthen (dict_get ''meta'' JNull h) (\<lambda>meta. dict_get ''kelso_app'' JNull (or_empty meta (JObj [])))"

section \<open>The provider's operations\<close>

definition npm_payload :: "npm \<Rightarrow> string \<Rightarrow> string \<Rightarrow> int \<Rightarrow> string \<Rightarrow> json \<Rightarrow> json" where
  "npm_payload p app name port sch cert = JObj [
     (''domain_names'', JArr [JStr name]), (''forward_scheme'', JStr sch), (''forward_host'', JStr (nm_address p)),
     (''forward_port'', JInt port), (''access_list_id'', JInt 0), (''certificate_id'', cert), (''ssl_forced'', JBool True),
     (''http2_support'', JBool True), (''hsts_enabled'', JBool False), (''hsts_subdomains'', JBool False),
     (''block_exploits'', JBool True), (''caching_enabled'', JBool False), (''allow_websocket_upgrade'', JBool True),
     (''advanced_config'', JStr []), (''locations'', JArr []), (''meta'', JObj [(''kelso_app'', JStr app)])]"

definition npm_register ::
    "('w, 's) npm_env \<Rightarrow> string \<Rightarrow> int \<Rightarrow> string \<Rightarrow> string \<Rightarrow> string \<Rightarrow> npm \<Rightarrow> ('w, 's, unit) npm_act" where
  "npm_register env app port sub domain sch p =
     (let name = full_name sub domain
      in bindA (npm_wildcard_certificate_id env p) (\<lambda>cert.
         if cert = JNull then raise (ProviderFailed (''NPM has no wildcard certificate; refusing to publish '' @ name))
         else bindA (npm_find_proxy_host env p name) (\<lambda>existing.
         case existing of
           Some h \<Rightarrow>
             bindA (liftA (npm_host_owner h)) (\<lambda>owner.
             if owner \<noteq> JStr app then raise (ForeignRoute name (owner_of owner))
             else bindA (liftA (dict_at ''id'' h)) (\<lambda>i.
               bindA (npm_request env p ''PUT'' (HOSTS @ ''/'' @ shown i) (Some (npm_payload p app name port sch cert))) (\<lambda>_. ret ())))
         | None \<Rightarrow> bindA (npm_request env p ''POST'' HOSTS (Some (npm_payload p app name port sch cert))) (\<lambda>_. ret ()))))"

definition npm_unregister :: "('w, 's) npm_env \<Rightarrow> string \<Rightarrow> string \<Rightarrow> npm \<Rightarrow> ('w, 's, unit) npm_act" where
  "npm_unregister env sub domain p =
     bindA (npm_find_proxy_host env p (full_name sub domain)) (\<lambda>existing.
       case existing of
         None \<Rightarrow> ret ()
       | Some h \<Rightarrow> bindA (liftA (dict_at ''id'' h)) (\<lambda>i.
           bindA (npm_request env p ''DELETE'' (HOSTS @ ''/'' @ shown i) None) (\<lambda>_. ret ())))"

definition npm_labels :: "npm \<Rightarrow> json \<Rightarrow> route_error + (string \<times> json) list" where
  "npm_labels p h =
     andthen (names_field h) (\<lambda>v. andthen (iterated v) (\<lambda>names.
     andthen (traverse text_value names) (\<lambda>ts. Inr (List.map (\<lambda>sub. (sub, h)) (List.map_filter (label_under (nm_domain p)) ts)))))"

definition npm_kelso_proxy_hosts :: "('w, 's) npm_env \<Rightarrow> npm \<Rightarrow> ('w, 's, (string \<times> json) list) npm_act" where
  "npm_kelso_proxy_hosts env p =
     bindA (npm_hosts env p) (\<lambda>hosts. liftA (andthen (traverse (npm_labels p) hosts) (\<lambda>found. Inr (concat found))))"

definition npm_list_routes :: "('w, 's) npm_env \<Rightarrow> npm \<Rightarrow> ('w, 's, (string \<times> string) list) npm_act" where
  "npm_list_routes env p =
     bindA (npm_kelso_proxy_hosts env p) (\<lambda>found. liftA (traverse (\<lambda>(sub, h).
       andthen (dict_get ''forward_host'' (JStr ''?'') h) (\<lambda>host.
       andthen (dict_get ''forward_port'' (JStr ''?'') h) (\<lambda>port.
         Inr (sub, shown host @ '':'' @ shown port)))) found))"

definition npm_route_owners :: "('w, 's) npm_env \<Rightarrow> npm \<Rightarrow> ('w, 's, (string, string option) dict) npm_act" where
  "npm_route_owners env p =
     bindA (npm_kelso_proxy_hosts env p) (\<lambda>found. liftA (
       andthen (traverse (\<lambda>(sub, h). andthen (npm_host_owner h) (\<lambda>owner. Inr (sub, owner_of owner))) found) (\<lambda>owners.
         Inr (dict_merge [] owners))))"

datatype npm_problem = NpmSays route_error | NoWildcard string | NoCertificates route_error

definition npm_validate :: "('w, 's) npm_env \<Rightarrow> npm \<Rightarrow> ('w, 's, npm_problem list) npm_act" where
  "npm_validate env p =
     bindA (attempt (npm_fetch_token env p)) (\<lambda>r.
       case r of
         Inl e \<Rightarrow> ret [NpmSays e]
       | Inr token \<Rightarrow>
           bindA (attempt (npm_wildcard_certificate_id env p)) (\<lambda>c.
             case c of
               Inl e \<Rightarrow> ret [NoCertificates e]
             | Inr cert \<Rightarrow> ret (if cert = JNull then [NoWildcard (nm_domain p)] else [])))"

text \<open>Each operation of the interface builds the provider anew, as \<^verbatim>\<open>get_route_provider\<close> does.\<close>

definition npm_with ::
    "('w, 's) npm_env \<Rightarrow> string \<Rightarrow> route_provider_entry \<Rightarrow> string \<Rightarrow> (npm \<Rightarrow> ('w, 's, 'a) npm_act)
       \<Rightarrow> ('w \<times> 's, route_error, 'a) act" where
  "npm_with env tag conf address f st =
     (case npm_from_config env tag conf address st of
        Inl e \<Rightarrow> (Inl e, st)
      | Inr (p, ss) \<Rightarrow> (case f p ss of (r, ss') \<Rightarrow> (r, (ss_world ss', ss_db ss'))))"

definition npm_ops :: "('w, 's) npm_env \<Rightarrow> string \<Rightarrow> route_provider_entry \<Rightarrow> string \<Rightarrow> ('w \<times> 's) provider_ops" where
  "npm_ops env tag conf address =
     \<lparr>po_get = (\<lambda>t st. if t \<noteq> tag then Inl (NoProvider t)
        else andthen (npm_from_config env tag conf address st) (\<lambda>_. Inr ())),
      po_owners = (\<lambda>t. if t \<noteq> tag then raise (NoProvider t) else npm_with env tag conf address (npm_route_owners env)),
      po_register = (\<lambda>t app port sub domain sch. if t \<noteq> tag then raise (NoProvider t)
        else npm_with env tag conf address (npm_register env app port sub domain sch)),
      po_unregister = (\<lambda>t sub domain. if t \<noteq> tag then raise (NoProvider t)
        else npm_with env tag conf address (npm_unregister env sub domain))\<rparr>"

section \<open>What NPM promises\<close>

definition host_of :: "json \<Rightarrow> host_entry option" where
  "host_of v =
     (case v of
        JObj ms \<Rightarrow>
          (case (map_of ms ''id'', map_of ms ''domain_names'', npm_host_owner v) of
             (Some (JInt i), Some (JArr ns), Inr owner) \<Rightarrow>
               (case texts ns of
                  None \<Rightarrow> None
                | Some names \<Rightarrow>
                    (case owner of
                       JNull \<Rightarrow> Some \<lparr>he_id = i, he_names = names, he_app = None\<rparr>
                     | JStr a \<Rightarrow> Some \<lparr>he_id = i, he_names = names, he_app = Some a\<rparr>
                     | _ \<Rightarrow> None))
           | _ \<Rightarrow> None)
      | _ \<Rightarrow> None)"

text \<open>The host a body describes, under an id.\<close>

definition body_host :: "int \<Rightarrow> json \<Rightarrow> host_entry option" where
  "body_host i v = (case v of JObj ms \<Rightarrow> host_of (JObj ((''id'', JInt i) # ms)) | _ \<Rightarrow> None)"

definition host_url :: "string \<Rightarrow> int \<Rightarrow> string" where
  "host_url ep i = ep @ HOSTS @ ''/'' @ str_of_int i"

text \<open>What a request that is carried out makes of the hosts.\<close>

definition npm_change :: "string \<Rightarrow> http_request \<Rightarrow> host_entry list \<Rightarrow> host_entry list \<Rightarrow> bool" where
  "npm_change ep rq hs hs' \<longleftrightarrow>
     (rq_method rq = ''POST'' \<and> rq_url rq = ep @ HOSTS \<and>
        (\<exists>v h. rq_json rq = Some v \<and> body_host (he_id h) v = Some h \<and> he_id h \<notin> set (List.map he_id hs) \<and> hs' = hs @ [h])) \<or>
     (rq_method rq = ''PUT'' \<and>
        (\<exists>v h h'. h \<in> set hs \<and> rq_url rq = host_url ep (he_id h) \<and> rq_json rq = Some v \<and> body_host (he_id h) v = Some h' \<and>
           hs' = List.map (\<lambda>x. if he_id x = he_id h then h' else x) hs)) \<or>
     (rq_method rq = ''DELETE'' \<and>
        (\<exists>h. h \<in> set hs \<and> rq_url rq = host_url ep (he_id h) \<and> hs' = List.filter (\<lambda>x. he_id x \<noteq> he_id h) hs))"

definition npm_endpoint :: "route_provider_entry \<Rightarrow> string" where
  "npm_endpoint conf = strip_slashes (the (map_of (rp_args conf) ''endpoint''))"

text \<open>
  NPM's API: a request changes the hosts as it says or, where it fails or is of another kind, not at
  all; one that fails on the way may have been carried out; a list holds every host.
\<close>

locale npm_service =
  fixes env :: "('w, 's) npm_env"
    and tag :: string
    and conf :: route_provider_entry
    and address :: string
    and hosts :: "'w \<Rightarrow> host_entry list"
  assumes sends: "ne_send env rq w = (r, w') \<Longrightarrow> hosts w' = hosts w \<or> npm_change (npm_endpoint conf) rq (hosts w) (hosts w')"
    and changes: "ne_send env rq w = (Inr resp, w') \<Longrightarrow> resp_ok resp \<Longrightarrow> rq_method rq \<in> {''POST'', ''PUT'', ''DELETE''} \<Longrightarrow>
      starts_with (rq_url rq) (npm_endpoint conf @ HOSTS) \<Longrightarrow> npm_change (npm_endpoint conf) rq (hosts w) (hosts w')"
    and lists: "ne_send env rq w = (Inr resp, w') \<Longrightarrow> resp_ok resp \<Longrightarrow> rq_method rq = ''GET'' \<Longrightarrow>
      rq_url rq = npm_endpoint conf @ HOSTS \<Longrightarrow>
      rs_content resp \<and> (\<exists>l. rs_json resp = Some (JArr l) \<and> List.map host_of l = List.map Some (hosts w))"

section \<open>Reading what NPM lists\<close>

lemma host_of_reads:
  assumes "host_of v = Some h"
  shows "names_field v = Inr (JArr (List.map JStr (he_names h)))" and "dict_at ''id'' v = Inr (JInt (he_id h))"
    and "npm_host_owner v = Inr (case he_app h of None \<Rightarrow> JNull | Some a \<Rightarrow> JStr a)"
  using assms by (auto simp: host_of_def texts_Some names_field_def dict_get_def dict_at_def
      split: json.splits option.splits sum.splits)

lemma body_host_payload [simp]:
  "body_host i (npm_payload p app name port sch cert) = Some \<lparr>he_id = i, he_names = [name], he_app = Some app\<rparr>"
  by (simp add: body_host_def npm_payload_def host_of_def npm_host_owner_def dict_get_def or_empty_def truthy_def)

lemma owners_read:
  assumes "List.map host_of l = List.map Some hs"
  shows "\<exists>found. traverse (npm_labels p) l = Inr found \<and>
    traverse (\<lambda>(sub, h). andthen (npm_host_owner h) (\<lambda>owner. Inr (sub, owner_of owner))) (concat found)
      = Inr (concat (List.map (labels_of (nm_domain p)) hs))"
proof -
  let ?h = "\<lambda>v. the (host_of v)"
  have hs: "hs = List.map ?h l" using assms by (metis (no_types, lifting) list.map_comp comp_def list.map_cong option.sel list.map_ident)
  have reads: "host_of v = Some (?h v)" if "v \<in> set l" for v
  proof -
    have "host_of v \<in> set (List.map Some hs)" unfolding assms [symmetric] using that by simp
    then show ?thesis by auto
  qed
  let ?g = "\<lambda>v. List.map (\<lambda>sub. (sub, v)) (List.map_filter (label_under (nm_domain p)) (he_names (?h v)))"
  have "traverse text_value (List.map JStr ns) = Inr ns" for ns
    by (induction ns) (simp_all add: text_value_def)
  then have labels: "npm_labels p v = Inr (?g v)" if "v \<in> set l" for v
    by (simp add: npm_labels_def host_of_reads(1) [OF reads [OF that]])
  have own: "npm_host_owner v = Inr (case he_app (?h v) of None \<Rightarrow> JNull | Some a \<Rightarrow> JStr a)" if "v \<in> set l" for v
    by (rule host_of_reads(3) [OF reads [OF that]])
  have "traverse (\<lambda>(sub, h). andthen (npm_host_owner h) (\<lambda>owner. Inr (sub, owner_of owner))) (concat (List.map ?g l))
      = Inr (List.map (\<lambda>(sub, v). (sub, he_app (?h v))) (concat (List.map ?g l)))"
    by (rule traverse_total) (auto simp: own owner_of_def split: option.split)
  moreover have "List.map (\<lambda>(sub, v). (sub, he_app (?h v))) (concat (List.map ?g l)) = concat (List.map (labels_of (nm_domain p)) hs)"
    by (simp add: hs map_concat labels_of_def comp_def)
  moreover have "traverse (npm_labels p) l = Inr (List.map ?g l)" by (rule traverse_total) (rule labels)
  ultimately show ?thesis by simp
qed

lemma first_such_host:
  assumes "List.map host_of l = List.map Some hs"
  shows "\<exists>x. first_such (\<lambda>h. andthen (names_field h) (text_in name)) l = Inr x \<and>
    (case host_at hs name of None \<Rightarrow> x = None | Some h \<Rightarrow> \<exists>v. x = Some v \<and> host_of v = Some h)"
  using assms
proof (induction l arbitrary: hs)
  case (Cons v l)
  then obtain h hs' where hs: "hs = h # hs'" "host_of v = Some h" "List.map host_of l = List.map Some hs'" by (cases hs) auto
  have "andthen (names_field v) (text_in name) = Inr (name \<in> set (he_names h))"
    by (auto simp: host_of_reads(1) [OF hs(2)])
  with Cons.IH [OF hs(3)] hs(1,2) show ?case by (auto simp: host_at_def)
qed (simp add: host_at_def)

section \<open>The provider keeps the promise\<close>

context npm_service
begin

abbreviation "ep \<equiv> npm_endpoint conf"

lemma call_hosts:
  assumes "call (ne_send env) rq ss = (r, ss')"
  shows "hosts (ss_world ss') = hosts (ss_world ss) \<or> npm_change ep rq (hosts (ss_world ss)) (hosts (ss_world ss'))"
  using assms by (cases rule: call_E) (auto dest: sends)

lemma log_in_hosts:
  assumes "npm_log_in env p ss = (r, ss')" and "nm_endpoint p = ep"
  shows "hosts (ss_world ss') = hosts (ss_world ss)"
proof (cases "nm_email p = [] \<or> nm_password p = []")
  case True
  with assms show ?thesis by (simp add: npm_log_in_def)
next
  case False
  let ?rq = "\<lparr>rq_method = ''POST'', rq_url = nm_endpoint p @ ''/api/tokens'', rq_bearer = None, rq_params = [],
            rq_json = Some (JObj [(''identity'', JStr (nm_email p)), (''secret'', JStr (nm_password p))])\<rparr>"
  obtain r1 ss1 where c: "call (ne_send env) ?rq ss = (r1, ss1)" by (cases "call (ne_send env) ?rq ss")
  have "\<not> npm_change ep ?rq hs hs'" for hs hs'
    by (simp add: npm_change_def assms(2) HOSTS_def)
  with call_hosts [OF c] have same: "hosts (ss_world ss1) = hosts (ss_world ss)" by simp
  have "ss_world (snd (npm_cache_token env s)) = ss_world s" for s
    by (simp add: npm_cache_token_def split: sum.split)
  then have cache: "npm_cache_token env s = (x, s') \<Longrightarrow> ss_world s' = ss_world s" for s x s' by (metis snd_conv)
  from False assms(1) have "ss_world ss' = ss_world ss1"
    by (auto simp: npm_log_in_def bindA_def c liftA_def dest: cache split: sum.splits if_splits prod.splits)
  with same show ?thesis by simp
qed

lemma fetch_token_hosts:
  assumes "npm_fetch_token env p ss = (r, ss')" and "nm_endpoint p = ep"
  shows "hosts (ss_world ss') = hosts (ss_world ss)"
  using assms log_in_hosts by (auto simp: npm_fetch_token_def split: prod.splits option.splits list.splits if_splits)

text \<open>What a request of an instance does to the hosts, and what an answer says of them.\<close>

lemma request_hosts:
  assumes "npm_request env p verb path body ss = (r, ss')" and "nm_endpoint p = ep"
  obtains rq where "rq_method rq = verb" "rq_url rq = ep @ path" "rq_json rq = body"
    "hosts (ss_world ss') = hosts (ss_world ss) \<or> npm_change ep rq (hosts (ss_world ss)) (hosts (ss_world ss'))"
    "\<not> isl r \<Longrightarrow> verb \<in> {''POST'', ''PUT'', ''DELETE''} \<Longrightarrow> starts_with path HOSTS \<Longrightarrow>
       npm_change ep rq (hosts (ss_world ss)) (hosts (ss_world ss'))"
    "\<And>v. r = Inr v \<Longrightarrow> verb = ''GET'' \<Longrightarrow> path = HOSTS \<Longrightarrow>
       \<exists>l. v = JArr l \<and> List.map host_of l = List.map Some (hosts (ss_world ss))"
  using assms(1) unfolding npm_request_def
proof (cases rule: bindA_E)
  case (raised e)
  from that [of "\<lparr>rq_method = verb, rq_url = ep @ path, rq_bearer = None, rq_params = [], rq_json = body\<rparr>"]
    fetch_token_hosts [OF raised(1) assms(2)] raised(2) show ?thesis by simp
next
  case (went_on token ss1)
  note same = fetch_token_hosts [OF went_on(1) assms(2)]
  let ?rq = "\<lparr>rq_method = verb, rq_url = ep @ path, rq_bearer = Some token, rq_params = [], rq_json = body\<rparr>"
  from went_on(2) obtain r2 where c: "call (ne_send env) ?rq ss1 = (r2, ss')"
    and r: "r = (case r2 of Inl e \<Rightarrow> Inl e | Inr resp \<Rightarrow> if \<not> resp_ok resp
        then Inl (ProviderFailed (''NPM '' @ verb @ '' '' @ path @ '' returned '' @ str_of_int (rs_status resp)))
        else resp_value JNull resp)"
    by (auto simp: bindA_def assms(2) liftA_def split: prod.splits sum.splits if_splits)
  from c show ?thesis
  proof (cases rule: call_E)
    case (failed e w)
    with that [of ?rq] call_hosts [OF c] r same show ?thesis by simp
  next
    case (answered resp w)
    show ?thesis
    proof (rule that [of ?rq])
      show "hosts (ss_world ss') = hosts (ss_world ss) \<or> npm_change ep ?rq (hosts (ss_world ss)) (hosts (ss_world ss'))"
        using call_hosts [OF c] same by simp
      assume "\<not> isl r"
      then have ok: "resp_ok resp" using r answered(2) by (auto split: if_splits)
      assume "verb \<in> {''POST'', ''PUT'', ''DELETE''}" "starts_with path HOSTS"
      with changes [OF answered(1) ok] show "npm_change ep ?rq (hosts (ss_world ss)) (hosts (ss_world ss'))"
        by (auto simp: answered(3) same starts_with_iff)
    next
      fix v assume v: "r = Inr v" and get: "verb = ''GET''" "path = HOSTS"
      then have ok: "resp_ok resp" "resp_value JNull resp = Inr v" using r answered(2) by (auto split: if_splits)
      from lists [OF answered(1) ok(1)] get ok(2) same show "\<exists>l. v = JArr l \<and> List.map host_of l = List.map Some (hosts (ss_world ss))"
        by (auto simp: resp_value_def)
    qed simp_all
  qed
qed

lemma get_hosts:
  assumes "npm_request env p ''GET'' path None ss = (r, ss')" and "nm_endpoint p = ep"
  shows "hosts (ss_world ss') = hosts (ss_world ss)"
  using assms by (rule request_hosts) (auto simp: npm_change_def)

lemma hosts_listed:
  assumes "npm_hosts env p ss = (r, ss')" and "nm_endpoint p = ep"
  shows "hosts (ss_world ss') = hosts (ss_world ss)" and "r = Inr l \<Longrightarrow> List.map host_of l = List.map Some (hosts (ss_world ss))"
proof -
  obtain r1 ss1 where g: "npm_request env p ''GET'' HOSTS None ss = (r1, ss1)"
    by (cases "npm_request env p ''GET'' HOSTS None ss")
  with assms(1) have "ss' = ss1" by (auto simp: npm_hosts_def bindA_def liftA_def split: sum.splits)
  with get_hosts [OF g assms(2)] show "hosts (ss_world ss') = hosts (ss_world ss)" by simp
  assume "r = Inr l"
  with assms(1) g obtain v where v: "r1 = Inr v" "iterated (or_empty v (JArr [])) = Inr l"
    by (auto simp: npm_hosts_def bindA_def liftA_def split: sum.splits)
  from request_hosts [OF g assms(2)] v(1) obtain vs where "v = JArr vs" "List.map host_of vs = List.map Some (hosts (ss_world ss))" by blast
  with v(2) show "List.map host_of l = List.map Some (hosts (ss_world ss))" by (auto simp: or_empty_def truthy_def split: if_splits)
qed

lemma found_host:
  assumes "npm_find_proxy_host env p name ss = (r, ss')" and "nm_endpoint p = ep"
  shows "hosts (ss_world ss') = hosts (ss_world ss)"
    and "r = Inr x \<Longrightarrow> (case host_at (hosts (ss_world ss)) name of None \<Rightarrow> x = None | Some h \<Rightarrow> \<exists>v. x = Some v \<and> host_of v = Some h)"
proof -
  obtain r1 ss1 where g: "npm_hosts env p ss = (r1, ss1)" by (cases "npm_hosts env p ss")
  with assms(1) have "ss' = ss1" by (auto simp: npm_find_proxy_host_def bindA_def liftA_def split: sum.splits)
  with hosts_listed(1) [OF g assms(2)] show "hosts (ss_world ss') = hosts (ss_world ss)" by simp
  assume "r = Inr x"
  with assms(1) g obtain l where l: "r1 = Inr l" "first_such (\<lambda>h. andthen (names_field h) (text_in name)) l = Inr x"
    by (auto simp: npm_find_proxy_host_def bindA_def liftA_def split: sum.splits)
  from first_such_host [OF hosts_listed(2) [OF g assms(2) l(1)], of name] l(2)
  show "(case host_at (hosts (ss_world ss)) name of None \<Rightarrow> x = None | Some h \<Rightarrow> \<exists>v. x = Some v \<and> host_of v = Some h)" by auto
qed

end

lemma npm_with_E:
  assumes "npm_with env tag conf address f st = (r, st')"
  obtains (not_built) e where "r = Inl e" "st' = st"
    | (built) p ss ss' where "npm_from_config env tag conf address st = Inr (p, ss)" "f p ss = (r, ss')"
      "st' = (ss_world ss', ss_db ss')"
  using assms by (auto simp: npm_with_def split: sum.splits prod.splits)

lemma npm_from_config_parts:
  assumes "npm_from_config env tag conf address st = Inr (p, ss)"
  shows "nm_endpoint p = npm_endpoint conf" and "nm_domain p = rp_domain conf" and "ss_world ss = fst st"
  using assms by (auto simp: npm_from_config_def npm_endpoint_def provider_args_def andthen_Inr split: prod.splits if_splits)

context npm_service
begin

lemma route_owners_right:
  assumes "npm_route_owners env p ss = (r, ss')" and "nm_endpoint p = ep" and "tidy_hosts (hosts (ss_world ss))"
  shows "hosts (ss_world ss') = hosts (ss_world ss)"
    and "r = Inr d \<Longrightarrow> map_of d = map_of (concat (List.map (labels_of (nm_domain p)) (hosts (ss_world ss))))"
proof -
  let ?hs = "hosts (ss_world ss)"
  obtain r1 ss1 where g: "npm_hosts env p ss = (r1, ss1)" by (cases "npm_hosts env p ss")
  with assms(1) have "ss' = ss1"
    by (auto simp: npm_route_owners_def npm_kelso_proxy_hosts_def bindA_def liftA_def split: sum.splits)
  with hosts_listed(1) [OF g assms(2)] show "hosts (ss_world ss') = ?hs" by simp
  assume d: "r = Inr d"
  with assms(1) g obtain l where l: "r1 = Inr l"
    by (auto simp: npm_route_owners_def npm_kelso_proxy_hosts_def bindA_def liftA_def split: sum.splits)
  from owners_read [OF hosts_listed(2) [OF g assms(2) l], of p] obtain found where
    found: "traverse (npm_labels p) l = Inr found"
      "traverse (\<lambda>(sub, h). andthen (npm_host_owner h) (\<lambda>owner. Inr (sub, owner_of owner))) (concat found)
        = Inr (concat (List.map (labels_of (nm_domain p)) ?hs))" by blast
  with assms(1) g l d have "d = dict_merge [] (concat (List.map (labels_of (nm_domain p)) ?hs))"
    by (auto simp: npm_route_owners_def npm_kelso_proxy_hosts_def bindA_def liftA_def)
  moreover have "distinct (keys (concat (List.map (labels_of (nm_domain p)) ?hs)))"
    unfolding labels_keys by (rule label_list_distinct) (use assms(3) in \<open>simp add: tidy_hosts_def\<close>)
  then have "map_of (rev (concat (List.map (labels_of (nm_domain p)) ?hs))) = map_of (concat (List.map (labels_of (nm_domain p)) ?hs))"
    by (rule map_of_rev_distinct)
  ultimately show "map_of d = map_of (concat (List.map (labels_of (nm_domain p)) ?hs))"
    by (simp add: map_of_dict_merge)
qed

text \<open>Registering adds a host, finds the app's own as it was, or changes nothing.\<close>

lemma register_right:
  assumes "npm_register env app port sub domain sch p ss = (r, ss')" and "nm_endpoint p = ep"
    and "tidy_hosts (hosts (ss_world ss))"
  shows "host_registered app (full_name sub domain) (isl r) (hosts (ss_world ss)) (hosts (ss_world ss'))"
proof -
  let ?hs = "hosts (ss_world ss)" and ?name = "full_name sub domain"
  obtain r1 ss1 where c: "npm_wildcard_certificate_id env p ss = (r1, ss1)" by (cases "npm_wildcard_certificate_id env p ss")
  obtain r0 ss0 where g0: "npm_request env p ''GET'' ''/api/nginx/certificates'' None ss = (r0, ss0)"
    by (cases "npm_request env p ''GET'' ''/api/nginx/certificates'' None ss")
  with c have "ss1 = ss0" by (auto simp: npm_wildcard_certificate_id_def bindA_def liftA_def split: sum.splits)
  with get_hosts [OF g0 assms(2)] have same1: "hosts (ss_world ss1) = ?hs" by simp
  show ?thesis
  proof (cases "\<exists>cert. r1 = Inr cert \<and> cert \<noteq> JNull")
    case False
    with assms(1) c same1 show ?thesis
      by (auto simp: npm_register_def host_registered_def Let_def bindA_def split: sum.splits if_splits)
  next
    case True
    then obtain cert where cert: "r1 = Inr cert" "cert \<noteq> JNull" by blast
    obtain r2 ss2 where f: "npm_find_proxy_host env p ?name ss1 = (r2, ss2)" by (cases "npm_find_proxy_host env p ?name ss1")
    note found = found_host [OF f assms(2), unfolded same1]
    let ?body = "npm_payload p app ?name port sch cert"
    show ?thesis
    proof (cases r2)
      case (Inl e)
      with assms(1) c cert f found(1) show ?thesis by (auto simp: npm_register_def host_registered_def Let_def bindA_def)
    next
      case (Inr existing)
      show ?thesis
      proof (cases "host_at ?hs ?name")
        case None
        with found(2) [OF Inr] have "existing = None" by simp
        obtain r3 where post: "npm_request env p ''POST'' HOSTS (Some ?body) ss2 = (r3, ss')" "isl r \<longleftrightarrow> isl r3"
          using assms(1) c cert f Inr \<open>existing = None\<close>
          by (auto simp: npm_register_def host_registered_def Let_def bindA_def split: prod.splits sum.splits)
        from post(1) assms(2) show ?thesis
        proof (rule request_hosts)
          fix rq assume rq: "rq_method rq = ''POST''" "rq_json rq = Some ?body"
            and or: "hosts (ss_world ss') = hosts (ss_world ss2) \<or> npm_change ep rq (hosts (ss_world ss2)) (hosts (ss_world ss'))"
            and must: "\<not> isl r3 \<Longrightarrow> ''POST'' \<in> {''POST'', ''PUT'', ''DELETE''} \<Longrightarrow> starts_with HOSTS HOSTS \<Longrightarrow>
              npm_change ep rq (hosts (ss_world ss2)) (hosts (ss_world ss'))"
          have "npm_change ep rq ?hs hs' \<Longrightarrow> \<exists>i. i \<notin> set (List.map he_id ?hs) \<and> hs' = ?hs @ [\<lparr>he_id = i, he_names = [?name], he_app = Some app\<rparr>]" for hs'
            using rq by (auto simp: npm_change_def)
          with or must post(2) None show ?thesis unfolding found(1) host_registered_def Let_def by (cases "isl r3") auto
        qed
      next
        case (Some h)
        with found(2) [OF Inr] obtain v where v: "existing = Some v" "host_of v = Some h" by auto
        note reads = host_of_reads [OF v(2)]
        show ?thesis
        proof (cases "he_app h = Some app")
          case False
          then have "(case he_app h of None \<Rightarrow> JNull | Some a \<Rightarrow> JStr a) \<noteq> JStr app" by (cases "he_app h") auto
          with assms(1) c cert f Inr v(1) reads found(1) show ?thesis
            by (auto simp: npm_register_def host_registered_def Let_def bindA_def liftA_def)
        next
          case True
          obtain r3 where put: "npm_request env p ''PUT'' (HOSTS @ ''/'' @ str_of_int (he_id h)) (Some ?body) ss2 = (r3, ss')"
            using assms(1) c cert f Inr v(1) reads True
            by (auto simp: npm_register_def host_registered_def Let_def bindA_def liftA_def split: prod.splits sum.splits)
          from put assms(2) show ?thesis
          proof (rule request_hosts)
            fix rq assume rq: "rq_method rq = ''PUT''" "rq_json rq = Some ?body" "rq_url rq = ep @ HOSTS @ ''/'' @ str_of_int (he_id h)"
              and or: "hosts (ss_world ss') = hosts (ss_world ss2) \<or> npm_change ep rq (hosts (ss_world ss2)) (hosts (ss_world ss'))"
            have again: "List.map (\<lambda>x. if he_id x = k then \<lparr>he_id = k, he_names = [?name], he_app = Some app\<rparr> else x) ?hs = ?hs"
              if "he_id h = k" for k using host_replaced [OF assms(3) Some True] unfolding that .
            have "npm_change ep rq ?hs hs' \<Longrightarrow> hs' = ?hs" for hs'
              using rq by (auto simp: npm_change_def host_url_def str_of_int_inj again)
            with or have "hosts (ss_world ss') = ?hs" unfolding found(1) by blast
            with Some True show ?thesis by (simp add: host_registered_def)
          qed
        qed
      qed
    qed
  qed
qed

lemma unregister_right:
  assumes "npm_unregister env sub domain p ss = (r, ss')" and "nm_endpoint p = ep"
    and "tidy_hosts (hosts (ss_world ss))"
  shows "host_unregistered (full_name sub domain) (isl r) (hosts (ss_world ss)) (hosts (ss_world ss'))"
proof -
  let ?hs = "hosts (ss_world ss)" and ?name = "full_name sub domain"
  obtain r2 ss2 where f: "npm_find_proxy_host env p ?name ss = (r2, ss2)" by (cases "npm_find_proxy_host env p ?name ss")
  note found = found_host [OF f assms(2)]
  show ?thesis
  proof (cases r2)
    case (Inl e)
    with assms(1) f found(1) show ?thesis by (auto simp: npm_unregister_def bindA_def host_unregistered_def Let_def)
  next
    case (Inr existing)
    show ?thesis
    proof (cases "host_at ?hs ?name")
      case None
      with found(2) [OF Inr] assms(1) f Inr found(1) show ?thesis by (simp add: npm_unregister_def bindA_def host_unregistered_def)
    next
      case (Some h)
      with found(2) [OF Inr] obtain v where v: "existing = Some v" "host_of v = Some h" by auto
      obtain r3 where del: "npm_request env p ''DELETE'' (HOSTS @ ''/'' @ str_of_int (he_id h)) None ss2 = (r3, ss')" "isl r \<longleftrightarrow> isl r3"
        using assms(1) f Inr v(1) host_of_reads(2) [OF v(2)]
        by (auto simp: npm_unregister_def bindA_def liftA_def split: prod.splits sum.splits)
      from del(1) assms(2) show ?thesis
      proof (rule request_hosts)
        fix rq assume rq: "rq_method rq = ''DELETE''" "rq_url rq = ep @ HOSTS @ ''/'' @ str_of_int (he_id h)"
          and or: "hosts (ss_world ss') = hosts (ss_world ss2) \<or> npm_change ep rq (hosts (ss_world ss2)) (hosts (ss_world ss'))"
          and must: "\<not> isl r3 \<Longrightarrow> ''DELETE'' \<in> {''POST'', ''PUT'', ''DELETE''} \<Longrightarrow> starts_with (HOSTS @ ''/'' @ str_of_int (he_id h)) HOSTS \<Longrightarrow>
            npm_change ep rq (hosts (ss_world ss2)) (hosts (ss_world ss'))"
        have "npm_change ep rq ?hs hs' \<Longrightarrow> hs' = List.filter (\<lambda>x. he_id x \<noteq> he_id h) ?hs" for hs'
          using rq by (auto simp: npm_change_def host_url_def str_of_int_inj)
        with or must del(2) Some show ?thesis unfolding found(1) host_unregistered_def Let_def by (cases "isl r3") auto
      qed
    qed
  qed
qed

end

text \<open>
  The token is kept under one key for every provider of this kind: an instance built for any block
  takes up a token another block's server gave and sends it to its own server.
\<close>

lemma token_of_one_server_is_sent_to_another:
  assumes "npm_from_config env tag conf address st = Inr (p, ss)"
    and "get_token (ne_store env) (ne_cipher env) (ne_now env (fst st)) (snd st) NPM_TOKEN_KEY = Inr (Some (c # cs, expire))"
    and "expire - TOKEN_REFRESH_LEEWAY > ne_now env (fst st)"
  shows "npm_request env p verb path body ss =
    bindA (call (ne_send env) \<lparr>rq_method = verb, rq_url = npm_endpoint conf @ path, rq_bearer = Some (c # cs), rq_params = [], rq_json = body\<rparr>)
      (\<lambda>resp. if \<not> resp_ok resp then raise (ProviderFailed (''NPM '' @ verb @ '' '' @ path @ '' returned '' @ str_of_int (rs_status resp)))
        else liftA (resp_value JNull resp)) ss"
proof -
  from assms(1,2) have "ss_memory ss = (Some (c # cs), expire)" "ss_world ss = fst st"
    by (auto simp: npm_from_config_def andthen_Inr split: prod.splits if_splits)
  then have "npm_fetch_token env p ss = (Inr (c # cs), ss)" using assms(3) by (simp add: npm_fetch_token_def)
  then show ?thesis by (simp add: npm_request_def bindA_Inr npm_from_config_parts(1) [OF assms(1)])
qed

sublocale npm_service \<subseteq> npm: host_provider "npm_ops env tag conf address" tag "rp_domain conf" "\<lambda>st. hosts (fst st)"
proof
  fix t app port sub d sch
  assume "t \<noteq> tag"
  then show "po_owners (npm_ops env tag conf address) t = raise (NoProvider t)"
    "po_register (npm_ops env tag conf address) t app port sub d sch = raise (NoProvider t)"
    "po_unregister (npm_ops env tag conf address) t sub d = raise (NoProvider t)" by (simp_all add: npm_ops_def)
next
  fix st st' :: "'w \<times> 's" and r
  assume tidy: "tidy_hosts (hosts (fst st))" and "po_owners (npm_ops env tag conf address) tag st = (r, st')"
  then have "npm_with env tag conf address (npm_route_owners env) st = (r, st')" by (simp add: npm_ops_def)
  then show "hosts (fst st') = hosts (fst st) \<and>
      (\<forall>d. r = Inr d \<longrightarrow> map_of d = map_of (concat (List.map (labels_of (rp_domain conf)) (hosts (fst st)))))"
  proof (cases rule: npm_with_E)
    case (built p ss ss')
    note parts = npm_from_config_parts [OF built(1)]
    from route_owners_right [OF built(2) parts(1)] tidy show ?thesis by (simp add: built(3) parts)
  qed simp
next
  fix st st' :: "'w \<times> 's" and u sub app port sch
  assume tidy: "tidy_hosts (hosts (fst st))"
    and "po_register (npm_ops env tag conf address) tag app port sub (rp_domain conf) sch st = (u, st')"
  then have "npm_with env tag conf address (npm_register env app port sub (rp_domain conf) sch) st = (u, st')" by (simp add: npm_ops_def)
  then show "host_registered app (full_name sub (rp_domain conf)) (isl u) (hosts (fst st)) (hosts (fst st'))"
  proof (cases rule: npm_with_E)
    case (built p ss ss')
    note parts = npm_from_config_parts [OF built(1)]
    from register_right [OF built(2) parts(1)] tidy show ?thesis by (simp add: built(3) parts)
  qed (simp add: host_registered_def)
next
  fix st st' :: "'w \<times> 's" and u sub
  assume tidy: "tidy_hosts (hosts (fst st))"
    and "po_unregister (npm_ops env tag conf address) tag sub (rp_domain conf) st = (u, st')"
  then have "npm_with env tag conf address (npm_unregister env sub (rp_domain conf)) st = (u, st')" by (simp add: npm_ops_def)
  then show "host_unregistered (full_name sub (rp_domain conf)) (isl u) (hosts (fst st)) (hosts (fst st'))"
  proof (cases rule: npm_with_E)
    case (built p ss ss')
    note parts = npm_from_config_parts [OF built(1)]
    from unregister_right [OF built(2) parts(1)] tidy show ?thesis by (simp add: built(3) parts)
  qed (simp add: host_unregistered_def)
qed

context npm_service
begin

lemma provider: "host_provider (npm_ops env tag conf address) tag (rp_domain conf) (\<lambda>st. hosts (fst st))"
  by (rule npm.host_provider_axioms)

end

section \<open>Properties\<close>

text \<open>C33: the Nginx Proxy Manager provider keeps the promise the lifecycle relies on, whether requests fail on the way
  or not: who holds which name is read as the service has it; a registration touches no name but
  its own, refuses one that another holds and, when it returns, has made the name the app's; a
  removal of a name kelso's apps hold touches no other. The hypotheses are NPM's documented API.\<close>

theorem npm_keeps_the_promise:
  assumes "npm_service env conf hosts" and "tidy_hosts (hosts (fst st))"
    and "single_label sub" and "owner = name_owner (\<lambda>st. hosts (fst st)) tag (rp_domain conf)"
  shows "(\<forall>r st'. po_owners (npm_ops env tag conf address) tag st = (r, st') \<longrightarrow>
      tidy_hosts (hosts (fst st')) \<and> owner st' = owner st \<and> (\<forall>d. r = Inr d \<longrightarrow> map_of d = owner st tag)) \<and>
    (\<forall>u st'. po_register (npm_ops env tag conf address) tag app port sub (rp_domain conf) sch st = (u, st') \<longrightarrow>
      tidy_hosts (hosts (fst st')) \<and> (\<forall>s. s \<noteq> sub \<longrightarrow> owner st' tag s = owner st tag s) \<and>
      (owner st tag sub \<notin> {None, Some (Some app)} \<longrightarrow> isl u \<and> owner st' tag sub = owner st tag sub) \<and>
      (u = Inr () \<longrightarrow> owner st' tag sub = Some (Some app))) \<and>
    (\<forall>u st'. po_unregister (npm_ops env tag conf address) tag sub (rp_domain conf) st = (u, st') \<and> owner st tag sub \<noteq> Some None \<longrightarrow>
      tidy_hosts (hosts (fst st')) \<and> (\<forall>s. s \<noteq> sub \<longrightarrow> owner st' tag s = owner st tag s) \<and>
      owner st' tag sub \<in> {None, owner st tag sub} \<and> (u = Inr () \<longrightarrow> owner st' tag sub = None))"
  unfolding assms(4) by (rule host_provider.promise_for_name [OF npm_service.provider [OF assms(1)] assms(2,3)])

section \<open>A server\<close>

definition host_json :: "host_entry \<Rightarrow> json" where
  "host_json h = JObj [(''id'', JInt (he_id h)), (''domain_names'', JArr (List.map JStr (he_names h))),
     (''meta'', JObj (case he_app h of None \<Rightarrow> [] | Some a \<Rightarrow> [(''kelso_app'', JStr a)]))]"

definition demo_npm_target :: "string \<Rightarrow> http_request \<Rightarrow> host_entry list \<Rightarrow> host_entry option" where
  "demo_npm_target ep rq hs = List.find (\<lambda>h. rq_url rq = host_url ep (he_id h)) hs"

definition demo_npm_post :: "json option \<Rightarrow> host_entry list \<Rightarrow> host_entry list option" where
  "demo_npm_post body hs =
     (case body of None \<Rightarrow> None | Some v \<Rightarrow> map_option (\<lambda>h. hs @ [h]) (body_host (fresh_id hs) v))"

definition demo_npm_put :: "host_entry option \<Rightarrow> json option \<Rightarrow> host_entry list \<Rightarrow> host_entry list option" where
  "demo_npm_put target body hs =
     (case (target, body) of
        (Some h, Some v) \<Rightarrow> map_option (\<lambda>h'. List.map (\<lambda>x. if he_id x = he_id h then h' else x) hs) (body_host (he_id h) v)
      | _ \<Rightarrow> None)"

definition demo_npm_delete :: "host_entry option \<Rightarrow> host_entry list \<Rightarrow> host_entry list option" where
  "demo_npm_delete target hs = map_option (\<lambda>h. List.filter (\<lambda>x. he_id x \<noteq> he_id h) hs) target"

definition demo_npm_send :: "string \<Rightarrow> host_entry list http" where
  "demo_npm_send ep rq hs =
     (if rq_method rq = ''GET'' then
        (if rq_url rq = ep @ HOSTS then (Inr (answer 200 (JArr (List.map host_json hs))), hs)
         else (Inr (answer 200 (JArr [JObj [(''id'', JInt 1), (''domain_names'', JArr [JStr ''*.example.org''])]])), hs))
      else if rq_method rq = ''POST'' \<and> rq_url rq = ep @ ''/api/tokens'' then
        (Inr (answer 200 (JObj [(''token'', JStr ''t0k''), (''expires'', JStr ''soon'')])), hs)
      else
        (case (if rq_method rq = ''POST'' \<and> rq_url rq = ep @ HOSTS then demo_npm_post (rq_json rq) hs
               else if rq_method rq = ''PUT'' then demo_npm_put (demo_npm_target ep rq hs) (rq_json rq) hs
               else if rq_method rq = ''DELETE'' then demo_npm_delete (demo_npm_target ep rq hs) hs else None) of
           None \<Rightarrow> (Inr (answer 404 JNull), hs)
         | Some hs' \<Rightarrow> (Inr (answer 200 JNull), hs')))"

definition demo_npm_conf :: route_provider_entry where
  "demo_npm_conf = \<lparr>rp_kind = NginxProxyManager, rp_domain = ''example.org'',
     rp_args = [(''endpoint'', ''http://npm:81/''), (''email'', ''me@example.org''), (''password_secret'', ''npm'')]\<rparr>"

definition demo_npm_env :: "(host_entry list, (string, json) dict) npm_env" where
  "demo_npm_env = \<lparr>ne_send = demo_npm_send ''http://npm:81'', ne_now = (\<lambda>w. 0), ne_instant = (\<lambda>t. Some 3600),
     ne_is_float = (\<lambda>t. True), ne_store = memory_store, ne_cipher = noop_engine, ne_nonce = (\<lambda>w. 0)\<rparr>"

lemma demo_npm_endpoint: "npm_endpoint demo_npm_conf = ''http://npm:81''"
  by (simp add: npm_endpoint_def demo_npm_conf_def strip_slashes_def)

lemma body_host_id: "body_host i v = Some h \<Longrightarrow> he_id h = i"
  by (auto simp: body_host_def host_of_def split: json.splits option.splits sum.splits)

lemma host_of_host_json: "host_of (host_json h) = Some h"
proof -
  have "texts (List.map JStr ns) = Some ns" for ns by (simp add: texts_Some)
  then show ?thesis
    by (cases "he_app h") (simp_all add: host_of_def host_json_def npm_host_owner_def dict_get_def or_empty_def truthy_def)
qed

lemma demo_npm_writes:
  "rq_method rq = ''POST'' \<Longrightarrow> rq_url rq = ep @ HOSTS \<Longrightarrow> demo_npm_post (rq_json rq) hs = Some hs' \<Longrightarrow> npm_change ep rq hs hs'"
  "rq_method rq = ''PUT'' \<Longrightarrow> demo_npm_put (demo_npm_target ep rq hs) (rq_json rq) hs = Some hs' \<Longrightarrow> npm_change ep rq hs hs'"
  "rq_method rq = ''DELETE'' \<Longrightarrow> demo_npm_delete (demo_npm_target ep rq hs) hs = Some hs' \<Longrightarrow> npm_change ep rq hs hs'"
proof -
  have target: "h \<in> set hs \<and> rq_url rq = host_url ep (he_id h)" if "demo_npm_target ep rq hs = Some h" for h
    using that by (auto simp: demo_npm_target_def find_Some_iff)
  show "npm_change ep rq hs hs'" if "rq_method rq = ''POST''" "rq_url rq = ep @ HOSTS" "demo_npm_post (rq_json rq) hs = Some hs'"
  proof -
    from that(3) obtain v h where "rq_json rq = Some v" "body_host (fresh_id hs) v = Some h" "hs' = hs @ [h]"
      by (auto simp: demo_npm_post_def split: option.splits)
    moreover from this(2) have "he_id h = fresh_id hs" by (rule body_host_id)
    ultimately show ?thesis using that(1,2) fresh_id_fresh [of hs] unfolding npm_change_def by metis
  qed
  show "npm_change ep rq hs hs'" if "rq_method rq = ''PUT''" "demo_npm_put (demo_npm_target ep rq hs) (rq_json rq) hs = Some hs'"
  proof -
    from that(2) obtain h v h' where "demo_npm_target ep rq hs = Some h" "rq_json rq = Some v" "body_host (he_id h) v = Some h'"
        "hs' = List.map (\<lambda>x. if he_id x = he_id h then h' else x) hs"
      by (auto simp: demo_npm_put_def split: option.splits)
    with that(1) target show ?thesis unfolding npm_change_def by blast
  qed
  show "npm_change ep rq hs hs'" if "rq_method rq = ''DELETE''" "demo_npm_delete (demo_npm_target ep rq hs) hs = Some hs'"
  proof -
    from that(2) obtain h where "demo_npm_target ep rq hs = Some h" "hs' = List.filter (\<lambda>x. he_id x \<noteq> he_id h) hs"
      by (auto simp: demo_npm_delete_def)
    with that(1) target show ?thesis unfolding npm_change_def by blast
  qed
qed

lemma demo_npm_step:
  assumes "demo_npm_send ep rq hs = (r, hs')"
  shows "(hs' = hs \<and> (rq_method rq = ''GET'' \<or> r = Inr (answer 404 JNull) \<or> rq_url rq = ep @ ''/api/tokens'')) \<or> npm_change ep rq hs hs'"
  using assms demo_npm_writes [of rq ep hs hs'] by (auto simp: demo_npm_send_def split: if_splits option.splits)

interpretation demo_npm: npm_service demo_npm_env tag demo_npm_conf address id for tag address
proof
  fix rq :: http_request and w w' :: "host_entry list" and r
  assume "ne_send demo_npm_env rq w = (r, w')"
  with demo_npm_step [of "''http://npm:81''" rq w r w'] show "id w' = id w \<or> npm_change (npm_endpoint demo_npm_conf) rq (id w) (id w')"
    by (simp add: demo_npm_env_def demo_npm_endpoint) blast
next
  fix rq :: http_request and w w' :: "host_entry list" and resp
  assume "ne_send demo_npm_env rq w = (Inr resp, w')" "resp_ok resp" "rq_method rq \<in> {''POST'', ''PUT'', ''DELETE''}"
    "starts_with (rq_url rq) (npm_endpoint demo_npm_conf @ HOSTS)"
  with demo_npm_step [of "''http://npm:81''" rq w "Inr resp" w'] show "npm_change (npm_endpoint demo_npm_conf) rq (id w) (id w')"
    by (auto simp: demo_npm_env_def demo_npm_endpoint resp_ok_def answer_def starts_with_iff HOSTS_def)
next
  fix rq :: http_request and w w' :: "host_entry list" and resp
  assume "ne_send demo_npm_env rq w = (Inr resp, w')" "rq_method rq = ''GET''" "rq_url rq = npm_endpoint demo_npm_conf @ HOSTS"
  then show "rs_content resp \<and> (\<exists>l. rs_json resp = Some (JArr l) \<and> List.map host_of l = List.map Some (id w))"
    by (auto simp: demo_npm_env_def demo_npm_send_def demo_npm_endpoint answer_def host_of_host_json comp_def)
qed

definition demo_npm_state :: "host_entry list \<times> (string, json) dict" where
  "demo_npm_state = ([\<lparr>he_id = 7, he_names = [''blog.example.org''], he_app = Some ''org.blog''\<rparr>],
     [(''system/secrets/npm'', JStr ''pw'')])"

lemma demo_npm_tidy: "tidy_hosts (id (fst demo_npm_state))"
  by (simp add: tidy_hosts_def demo_npm_state_def)

text \<open>The blog of another app is refused and left alone; a free name is given and taken back.\<close>

theorem npm_keeps_the_promise_witness:
  "\<exists>u st'. po_register (npm_ops demo_npm_env ''home'' demo_npm_conf ''10.0.0.2'') ''home'' ''org.demo'' 8080 ''blog'' ''example.org'' ''http''
      demo_npm_state = (u, st') \<and> isl u \<and>
    name_owner fst ''home'' ''example.org'' st' ''home'' ''blog'' = Some (Some ''org.blog'')"
proof -
  let ?ops = "npm_ops demo_npm_env ''home'' demo_npm_conf ''10.0.0.2''"
  obtain u st' where run: "po_register ?ops ''home'' ''org.demo'' 8080 ''blog'' (rp_domain demo_npm_conf) ''http'' demo_npm_state = (u, st')"
    by (metis prod.exhaust)
  have own: "name_owner (\<lambda>st. id (fst st)) ''home'' (rp_domain demo_npm_conf) demo_npm_state ''home'' ''blog'' = Some (Some ''org.blog'')"
    by (simp add: name_owner_def demo_npm_state_def demo_npm_conf_def host_at_def full_name_def single_label_def)
  have label: "single_label ''blog''" by (simp add: single_label_def)
  note kept = npm_keeps_the_promise [OF demo_npm.npm_service_axioms, OF demo_npm_tidy, OF label, OF refl, of "''home''" "''10.0.0.2''" "''org.demo''" 8080 "''http''"]
  from conjunct1 [OF conjunct2 [OF kept], rule_format, OF run] own have "isl u \<and> name_owner (\<lambda>st. id (fst st)) ''home'' (rp_domain demo_npm_conf) st' ''home'' ''blog'' = Some (Some ''org.blog'')"
    by simp
  with run show ?thesis by (simp add: demo_npm_conf_def)
qed



end
