(* ===== verification/Pangolin.thy ===== *)
theory Pangolin
  imports Hosts
begin

text \<open>
  \<^verbatim>\<open>kelso/lib/routes/pangolin.py\<close>: routes as public HTTP resources of Pangolin. The locale \<open>pangolin_service\<close> states
  what the code relies on in its integration API; under it the provider is a \<open>host_provider\<close>. Error texts are
  shortened to what they name.
\<close>

section \<open>An instance\<close>

record ('w, 's) pangolin_env =
  pe_send :: "'w http"
  pe_is_float :: "string \<Rightarrow> bool"
  pe_store :: "'s store_ops"
  pe_cipher :: crypto_engine

record pangolin =
  pg_endpoint :: string
  pg_key :: string
  pg_org :: string
  pg_site :: string
  pg_domain :: string
  pg_address :: string
  pg_policy :: "string option"

text \<open>What the instance looked up: the site's id and the policy's.\<close>

type_synonym ('w, 's) pangolin_session = "('w, 's, int option \<times> int option) session"

type_synonym ('w, 's, 'a) pangolin_act = "(('w, 's) pangolin_session, route_error, 'a) act"

definition PANGOLIN_REQUIRED :: "string list" where
  "PANGOLIN_REQUIRED = [''endpoint'', ''org_id'', ''site'', ''api_key_secret'']"

definition API_PREFIX :: string where "API_PREFIX = ''/v1''"
definition NAME_PREFIX :: string where "NAME_PREFIX = ''kelso:''"

definition https_endpoint :: "string \<Rightarrow> route_error + string" where
  "https_endpoint endpoint =
     (let e = strip_slashes endpoint
      in if starts_with (str_lower e) ''https://'' then Inr e else Inl (ProviderFailed (e @ '' is not https'')))"

definition pangolin_from_config ::
    "('w, 's) pangolin_env \<Rightarrow> string \<Rightarrow> route_provider_entry \<Rightarrow> string \<Rightarrow> 'w \<times> 's \<Rightarrow> route_error + pangolin \<times> ('w, 's) pangolin_session" where
  "pangolin_from_config env tag conf address st =
     (case st of (w, db) \<Rightarrow>
       andthen (provider_args PANGOLIN_REQUIRED tag (rp_args conf)) (\<lambda>args.
       andthen (provider_secret (pe_store env) (pe_cipher env) db (the (map_of args ''api_key_secret''))) (\<lambda>key.
       let given = AList.delete ''api_key_secret'' args; known = [''endpoint'', ''org_id'', ''site'', ''shared_policy'', ''timeout'']
       in andthen (constructor_takes known (\<lambda>t. True) given) (\<lambda>_.
          andthen (https_endpoint (the (map_of args ''endpoint''))) (\<lambda>endpoint.
          andthen (constructor_takes known (pe_is_float env) given) (\<lambda>_.
            Inr (\<lparr>pg_endpoint = endpoint, pg_key = key, pg_org = the (map_of args ''org_id''), pg_site = the (map_of args ''site''),
                   pg_domain = rp_domain conf, pg_address = address,
                   pg_policy = (case map_of args ''shared_policy'' of Some (c # cs) \<Rightarrow> Some (c # cs) | _ \<Rightarrow> None)\<rparr>,
                 \<lparr>ss_world = w, ss_db = db, ss_memory = (None, None)\<rparr>)))))))"

section \<open>Requests\<close>

definition pangolin_failure :: "string \<Rightarrow> string \<Rightarrow> http_response \<Rightarrow> string \<Rightarrow> route_error" where
  "pangolin_failure verb path resp action =
     (case rs_json resp of
        None \<Rightarrow> ProviderFailed (''Pangolin '' @ verb @ '' '' @ path @ '' returned '' @ str_of_int (rs_status resp) @ '' as '' @
          (case rs_type resp of None \<Rightarrow> ''an unknown content type'' | Some t \<Rightarrow> t) @ '' rather than JSON'')
      | Some body \<Rightarrow>
          (case dict_get ''message'' JNull (or_empty body (JObj [])) of
             Inl e \<Rightarrow> e
           | Inr m \<Rightarrow>
               let why = str_of_int (rs_status resp) @ '': '' @ shown (or_empty m (JStr (rs_reason resp)))
               in if rs_status resp = 403
                  then ProviderFailed (''Pangolin refused '' @ verb @ '' '' @ path @ '' ('' @ why @ ''); the API key is missing the '' @ action @ '' permission'')
                  else if rs_status resp = 401 then ProviderFailed (''Pangolin rejected the API key ('' @ why @ '')'')
                  else ProviderFailed (''Pangolin '' @ verb @ '' '' @ path @ '' returned '' @ why)))"

definition pangolin_answer :: "string \<Rightarrow> string \<Rightarrow> string \<Rightarrow> http_response \<Rightarrow> route_error + json" where
  "pangolin_answer verb path action resp =
     (if \<not> resp_ok resp then Inl (pangolin_failure verb path resp action)
      else andthen (resp_value (JObj []) resp) (\<lambda>body.
        Inr (case body of JObj ms \<Rightarrow> (case map_of ms ''data'' of None \<Rightarrow> JNull | Some v \<Rightarrow> v) | _ \<Rightarrow> body)))"

definition pangolin_request ::
    "('w, 's) pangolin_env \<Rightarrow> pangolin \<Rightarrow> string \<Rightarrow> string \<Rightarrow> string \<Rightarrow> (string, string) dict \<Rightarrow> json option \<Rightarrow> ('w, 's, json) pangolin_act" where
  "pangolin_request env p verb path action params body =
     (if pg_key p = [] then raise (ProviderFailed ''A Pangolin API key is required to authenticate'')
      else bindA (call (pe_send env) \<lparr>rq_method = verb, rq_url = pg_endpoint p @ API_PREFIX @ path, rq_bearer = Some (pg_key p),
          rq_params = params, rq_json = body\<rparr>) (\<lambda>resp.
        liftA (pangolin_answer verb path action resp)))"

text \<open>\<^verbatim>\<open>int(v)\<close> of an id: a number, or a text of digits.\<close>

fun as_int :: "json \<Rightarrow> route_error + int" where
  "as_int (JInt i) = Inr i"
| "as_int (JBool b) = Inr (if b then 1 else 0)"
| "as_int (JStr s) = (if str_isdigit s then Inr (int (nat_of_str s)) else Inl (Unexpected ''ValueError''))"
| "as_int v = Inl (Unexpected ''TypeError'')"

text \<open>The list under a key of an answer that is a dict or nothing.\<close>

definition listed_under :: "string \<Rightarrow> json \<Rightarrow> route_error + json list" where
  "listed_under k v = andthen (dict_get k (JArr []) (or_empty v (JObj []))) iterated"

section \<open>Site, policy and domain\<close>

definition pangolin_site_id :: "('w, 's) pangolin_env \<Rightarrow> pangolin \<Rightarrow> ('w, 's, int) pangolin_act" where
  "pangolin_site_id env p ss =
     (case fst (ss_memory ss) of
        Some i \<Rightarrow> (Inr i, ss)
      | None \<Rightarrow>
          bindA (pangolin_request env p ''GET'' (''/org/'' @ pg_org p @ ''/site/'' @ pg_site p) ''getSite'' [] None) (\<lambda>v.
          bindA (liftA (dict_get ''siteId'' JNull (or_empty v (JObj [])))) (\<lambda>site.
          if site = JNull then raise (ProviderFailed (''Pangolin org '' @ pg_org p @ '' has no site '' @ pg_site p))
          else bindA (liftA (as_int site)) (\<lambda>i.
            bindA (update (\<lambda>ss. ss\<lparr>ss_memory := (Some i, snd (ss_memory ss))\<rparr>)) (\<lambda>_. ret i)))) ss)"

definition pangolin_policy_id :: "('w, 's) pangolin_env \<Rightarrow> pangolin \<Rightarrow> ('w, 's, int option) pangolin_act" where
  "pangolin_policy_id env p ss =
     (case pg_policy p of
        None \<Rightarrow> (Inr None, ss)
      | Some policy \<Rightarrow>
          (case snd (ss_memory ss) of
             Some i \<Rightarrow> (Inr (Some i), ss)
           | None \<Rightarrow>
               bindA (pangolin_request env p ''GET'' (''/org/'' @ pg_org p @ ''/public-resource-policies'') ''listResourcePolicies''
                   [(''pageSize'', ''1000'')] None) (\<lambda>v.
               bindA (liftA (andthen (listed_under ''policies'' v) (first_such (\<lambda>x. andthen (dict_get ''niceId'' JNull x) (\<lambda>n. Inr (n = JStr policy)))))) (\<lambda>found.
               case found of
                 None \<Rightarrow> raise (ProviderFailed (''Pangolin org '' @ pg_org p @ '' has no shared policy '' @ policy))
               | Some x \<Rightarrow> bindA (liftA (andthen (dict_at ''resourcePolicyId'' x) as_int)) (\<lambda>i.
                   bindA (update (\<lambda>ss. ss\<lparr>ss_memory := (fst (ss_memory ss), Some i)\<rparr>)) (\<lambda>_. ret (Some i))))) ss))"

definition pangolin_apply_policy :: "('w, 's) pangolin_env \<Rightarrow> pangolin \<Rightarrow> json \<Rightarrow> ('w, 's, unit) pangolin_act" where
  "pangolin_apply_policy env p resource =
     bindA (pangolin_policy_id env p) (\<lambda>policy.
       case policy of
         None \<Rightarrow> ret ()
       | Some i \<Rightarrow> bindA (liftA (dict_at ''resourceId'' resource)) (\<lambda>rid.
           bindA (pangolin_request env p ''POST'' (''/public-resource/'' @ shown rid) ''updateResource'' []
             (Some (JObj [(''resourcePolicyId'', JInt i)]))) (\<lambda>_. ret ())))"

definition pangolin_domain :: "('w, 's) pangolin_env \<Rightarrow> pangolin \<Rightarrow> ('w, 's, json option) pangolin_act" where
  "pangolin_domain env p =
     bindA (pangolin_request env p ''GET'' (''/org/'' @ pg_org p @ ''/domains'') ''listOrgDomains'' [] None) (\<lambda>v.
       liftA (andthen (listed_under ''domains'' v) (first_such (\<lambda>d. andthen (dict_get ''baseDomain'' JNull d) (\<lambda>b. Inr (b = JStr (pg_domain p)))))))"

definition pangolin_domain_id :: "('w, 's) pangolin_env \<Rightarrow> pangolin \<Rightarrow> ('w, 's, json) pangolin_act" where
  "pangolin_domain_id env p =
     bindA (pangolin_domain env p) (\<lambda>d.
       case d of
         None \<Rightarrow> raise (ProviderFailed (''Pangolin org '' @ pg_org p @ '' has no domain '' @ pg_domain p))
       | Some v \<Rightarrow> liftA (dict_at ''domainId'' v))"

section \<open>Resources\<close>

definition pangolin_resources :: "('w, 's) pangolin_env \<Rightarrow> pangolin \<Rightarrow> ('w, 's, json list) pangolin_act" where
  "pangolin_resources env p =
     bindA (pangolin_request env p ''GET'' (''/org/'' @ pg_org p @ ''/public-resources'') ''listResources'' [(''pageSize'', ''1000'')] None) (\<lambda>v.
       liftA (listed_under ''resources'' v))"

definition pangolin_find_resource :: "('w, 's) pangolin_env \<Rightarrow> pangolin \<Rightarrow> string \<Rightarrow> ('w, 's, json option) pangolin_act" where
  "pangolin_find_resource env p name =
     bindA (pangolin_resources env p) (\<lambda>rs.
       liftA (first_such (\<lambda>r. andthen (dict_get ''fullDomain'' JNull r) (\<lambda>d. Inr (d = JStr name))) rs))"

text \<open>Who owns a resource is in its name.\<close>

definition named_owner :: "string \<Rightarrow> string option" where
  "named_owner name = (if starts_with name NAME_PREFIX then Some (remove_prefix name NAME_PREFIX) else None)"

definition pangolin_owner :: "json \<Rightarrow> route_error + string option" where
  "pangolin_owner r =
     andthen (dict_get ''name'' JNull r) (\<lambda>n. andthen (text_value (or_empty n (JStr []))) (\<lambda>name. Inr (named_owner name)))"

definition pangolin_targets :: "('w, 's) pangolin_env \<Rightarrow> pangolin \<Rightarrow> json \<Rightarrow> ('w, 's, json list) pangolin_act" where
  "pangolin_targets env p resource =
     bindA (liftA (dict_get ''targets'' JNull resource)) (\<lambda>embedded.
       if embedded \<noteq> JNull then liftA (iterated embedded)
       else bindA (liftA (dict_at ''resourceId'' resource)) (\<lambda>rid.
         bindA (pangolin_request env p ''GET'' (''/public-resource/'' @ shown rid @ ''/targets'') ''listTargets'' [] None) (\<lambda>v.
           liftA (listed_under ''targets'' v))))"

definition pangolin_set_target :: "('w, 's) pangolin_env \<Rightarrow> pangolin \<Rightarrow> json \<Rightarrow> int \<Rightarrow> string \<Rightarrow> ('w, 's, unit) pangolin_act" where
  "pangolin_set_target env p resource port sch =
     bindA (liftA (dict_at ''resourceId'' resource)) (\<lambda>rid.
     bindA (pangolin_targets env p resource) (\<lambda>targets.
     bindA (eachA (\<lambda>t. bindA (liftA (dict_at ''targetId'' t)) (\<lambda>i.
        bindA (pangolin_request env p ''DELETE'' (''/target/'' @ shown i) ''deleteTarget'' [] None) (\<lambda>_. ret ()))) targets) (\<lambda>_.
     bindA (pangolin_site_id env p) (\<lambda>site.
     bindA (pangolin_request env p ''PUT'' (''/public-resource/'' @ shown rid @ ''/target'') ''createTarget'' []
        (Some (JObj [(''siteId'', JInt site), (''ip'', JStr (pg_address p)), (''port'', JInt port), (''method'', JStr sch),
           (''mode'', JStr ''http''), (''enabled'', JBool True)]))) (\<lambda>_. ret ())))))"

section \<open>The provider's operations\<close>

datatype pangolin_problem = PangolinSays route_error | NoDomain string | NotVerified string | SiteUnusable route_error | PolicyUnusable route_error

definition pangolin_validate :: "('w, 's) pangolin_env \<Rightarrow> pangolin \<Rightarrow> ('w, 's, pangolin_problem list) pangolin_act" where
  "pangolin_validate env p =
     bindA (attempt (pangolin_domain env p)) (\<lambda>r.
       case r of
         Inl e \<Rightarrow> ret [PangolinSays e]
       | Inr domain \<Rightarrow>
           bindA (liftA (case domain of
               None \<Rightarrow> Inr [NoDomain (pg_domain p)]
             | Some d \<Rightarrow> andthen (dict_get ''verified'' (JBool True) d) (\<lambda>v. Inr (if truthy v then [] else [NotVerified (pg_domain p)])))) (\<lambda>a.
           bindA (attempt (bindA (pangolin_site_id env p) (\<lambda>i.
               pangolin_request env p ''GET'' (''/site/'' @ str_of_int i) ''getSite'' [] None))) (\<lambda>site.
           bindA (if pg_policy p = None then ret (Inr None) else attempt (pangolin_policy_id env p)) (\<lambda>policy.
             ret (a @ (case site of Inl e \<Rightarrow> [SiteUnusable e] | Inr v \<Rightarrow> []) @
                  (case policy of Inl e \<Rightarrow> [PolicyUnusable e] | Inr v \<Rightarrow> []))))))"

definition pangolin_create ::
    "('w, 's) pangolin_env \<Rightarrow> pangolin \<Rightarrow> string \<Rightarrow> string \<Rightarrow> string \<Rightarrow> ('w, 's, json) pangolin_act" where
  "pangolin_create env p app sub name =
     bindA (pangolin_domain_id env p) (\<lambda>did.
     bindA (pangolin_request env p ''PUT'' (''/org/'' @ pg_org p @ ''/public-resource'') ''createResource'' []
        (Some (JObj [(''name'', JStr (NAME_PREFIX @ app)), (''subdomain'', JStr sub), (''domainId'', did), (''mode'', JStr ''http'')]))) (\<lambda>r.
     if \<not> truthy r then raise (ProviderFailed (''Pangolin did not return a resource id when creating '' @ name))
     else bindA (liftA (text_in ''resourceId'' r)) (\<lambda>has.
       if \<not> has then raise (ProviderFailed (''Pangolin did not return a resource id when creating '' @ name))
       else liftA (case r of JObj ms \<Rightarrow> Inr (JObj (AList.update ''targets'' (JArr []) ms)) | _ \<Rightarrow> Inl (Unexpected ''TypeError'')))))"

definition pangolin_register ::
    "('w, 's) pangolin_env \<Rightarrow> string \<Rightarrow> int \<Rightarrow> string \<Rightarrow> string \<Rightarrow> string \<Rightarrow> pangolin \<Rightarrow> ('w, 's, unit) pangolin_act" where
  "pangolin_register env app port sub domain sch p =
     (let name = full_name sub domain
      in bindA (pangolin_policy_id env p) (\<lambda>_.
         bindA (pangolin_find_resource env p name) (\<lambda>existing.
         bindA (case existing of
             Some r \<Rightarrow> bindA (liftA (pangolin_owner r)) (\<lambda>owner.
               if owner \<noteq> Some app then raise (ForeignRoute name owner) else ret r)
           | None \<Rightarrow> pangolin_create env p app sub name) (\<lambda>resource.
         bindA (pangolin_set_target env p resource port sch) (\<lambda>_.
           pangolin_apply_policy env p resource)))))"

definition pangolin_unregister :: "('w, 's) pangolin_env \<Rightarrow> string \<Rightarrow> string \<Rightarrow> pangolin \<Rightarrow> ('w, 's, unit) pangolin_act" where
  "pangolin_unregister env sub domain p =
     bindA (pangolin_find_resource env p (full_name sub domain)) (\<lambda>existing.
       case existing of
         None \<Rightarrow> ret ()
       | Some r \<Rightarrow> bindA (liftA (dict_at ''resourceId'' r)) (\<lambda>rid.
           bindA (pangolin_request env p ''DELETE'' (''/public-resource/'' @ shown rid) ''deleteResource'' [] None) (\<lambda>_. ret ())))"

definition pangolin_label :: "pangolin \<Rightarrow> json \<Rightarrow> route_error + (string \<times> json) list" where
  "pangolin_label p r =
     andthen (dict_get ''fullDomain'' JNull r) (\<lambda>d. andthen (text_value (or_empty d (JStr []))) (\<lambda>name.
       Inr (case label_under (pg_domain p) name of None \<Rightarrow> [] | Some sub \<Rightarrow> [(sub, r)])))"

definition pangolin_kelso_resources :: "('w, 's) pangolin_env \<Rightarrow> pangolin \<Rightarrow> ('w, 's, (string \<times> json) list) pangolin_act" where
  "pangolin_kelso_resources env p =
     bindA (pangolin_resources env p) (\<lambda>rs. liftA (andthen (traverse (pangolin_label p) rs) (\<lambda>found. Inr (concat found))))"

fun pangolin_dests ::
    "('w, 's) pangolin_env \<Rightarrow> pangolin \<Rightarrow> (string \<times> json) list \<Rightarrow> ('w, 's, (string \<times> string) list) pangolin_act" where
  "pangolin_dests env p [] = ret []"
| "pangolin_dests env p ((sub, r) # rs) =
     bindA (pangolin_targets env p r) (\<lambda>targets.
     bindA (liftA (case targets of
         [] \<Rightarrow> Inr ''(no target)''
       | t # ts \<Rightarrow> andthen (dict_get ''ip'' (JStr ''?'') t) (\<lambda>ip. andthen (dict_get ''port'' (JStr ''?'') t) (\<lambda>port.
           Inr (shown ip @ '':'' @ shown port))))) (\<lambda>dest.
     bindA (pangolin_dests env p rs) (\<lambda>rest. ret ((sub, dest) # rest))))"

definition pangolin_list_routes :: "('w, 's) pangolin_env \<Rightarrow> pangolin \<Rightarrow> ('w, 's, (string \<times> string) list) pangolin_act" where
  "pangolin_list_routes env p = bindA (pangolin_kelso_resources env p) (pangolin_dests env p)"

definition pangolin_route_owners :: "('w, 's) pangolin_env \<Rightarrow> pangolin \<Rightarrow> ('w, 's, (string, string option) dict) pangolin_act" where
  "pangolin_route_owners env p =
     bindA (pangolin_kelso_resources env p) (\<lambda>found. liftA (
       andthen (traverse (\<lambda>(sub, r). andthen (pangolin_owner r) (\<lambda>owner. Inr (sub, owner))) found) (\<lambda>owners.
         Inr (dict_merge [] owners))))"

definition pangolin_with ::
    "('w, 's) pangolin_env \<Rightarrow> string \<Rightarrow> route_provider_entry \<Rightarrow> string \<Rightarrow> (pangolin \<Rightarrow> ('w, 's, 'a) pangolin_act)
       \<Rightarrow> ('w \<times> 's, route_error, 'a) act" where
  "pangolin_with env tag conf address f st =
     (case pangolin_from_config env tag conf address st of
        Inl e \<Rightarrow> (Inl e, st)
      | Inr (p, ss) \<Rightarrow> (case f p ss of (r, ss') \<Rightarrow> (r, (ss_world ss', ss_db ss'))))"

definition pangolin_ops :: "('w, 's) pangolin_env \<Rightarrow> string \<Rightarrow> route_provider_entry \<Rightarrow> string \<Rightarrow> ('w \<times> 's) provider_ops" where
  "pangolin_ops env tag conf address =
     \<lparr>po_get = (\<lambda>t st. if t \<noteq> tag then Inl (NoProvider t)
        else andthen (pangolin_from_config env tag conf address st) (\<lambda>_. Inr ())),
      po_owners = (\<lambda>t. if t \<noteq> tag then raise (NoProvider t) else pangolin_with env tag conf address (pangolin_route_owners env)),
      po_register = (\<lambda>t app port sub domain sch. if t \<noteq> tag then raise (NoProvider t)
        else pangolin_with env tag conf address (pangolin_register env app port sub domain sch)),
      po_unregister = (\<lambda>t sub domain. if t \<noteq> tag then raise (NoProvider t)
        else pangolin_with env tag conf address (pangolin_unregister env sub domain))\<rparr>"

section \<open>What Pangolin promises\<close>

text \<open>A resource as its API lists it, as far as kelso reads it; one without a domain publishes no name.\<close>

definition resource_of :: "json \<Rightarrow> host_entry option" where
  "resource_of v =
     (case v of
        JObj ms \<Rightarrow>
          (case (map_of ms ''resourceId'', dict_get ''fullDomain'' JNull v, pangolin_owner v) of
             (Some (JInt i), Inr d, Inr owner) \<Rightarrow>
               (case d of
                  JNull \<Rightarrow> Some \<lparr>he_id = i, he_names = [], he_app = owner\<rparr>
                | JStr [] \<Rightarrow> Some \<lparr>he_id = i, he_names = [], he_app = owner\<rparr>
                | JStr (c # cs) \<Rightarrow> Some \<lparr>he_id = i, he_names = [c # cs], he_app = owner\<rparr>
                | _ \<Rightarrow> None)
           | _ \<Rightarrow> None)
      | _ \<Rightarrow> None)"

definition pangolin_endpoint :: "route_provider_entry \<Rightarrow> string" where
  "pangolin_endpoint conf = strip_slashes (the (map_of (rp_args conf) ''endpoint'')) @ API_PREFIX"

definition pangolin_org :: "route_provider_entry \<Rightarrow> string" where
  "pangolin_org conf = the (map_of (rp_args conf) ''org_id'')"

definition resource_url :: "string \<Rightarrow> int \<Rightarrow> string" where
  "resource_url ep i = ep @ ''/public-resource/'' @ str_of_int i"

text \<open>What a request that is carried out makes of the resources; \<open>zone\<close> is the base domain of a domain's id.\<close>

definition pangolin_change :: "string \<Rightarrow> string \<Rightarrow> (json \<Rightarrow> string) \<Rightarrow> http_request \<Rightarrow> host_entry list \<Rightarrow> host_entry list \<Rightarrow> bool" where
  "pangolin_change ep org zone rq hs hs' \<longleftrightarrow>
     (rq_method rq = ''PUT'' \<and> rq_url rq = ep @ ''/org/'' @ org @ ''/public-resource'' \<and>
        (\<exists>ms sub did name i. rq_json rq = Some (JObj ms) \<and> map_of ms ''subdomain'' = Some (JStr sub) \<and>
           map_of ms ''domainId'' = Some did \<and> map_of ms ''name'' = Some (JStr name) \<and> i \<notin> set (List.map he_id hs) \<and>
           hs' = hs @ [\<lparr>he_id = i, he_names = [full_name sub (zone did)], he_app = named_owner name\<rparr>])) \<or>
     (rq_method rq = ''DELETE'' \<and>
        (\<exists>h. h \<in> set hs \<and> rq_url rq = resource_url ep (he_id h) \<and> hs' = List.filter (\<lambda>x. he_id x \<noteq> he_id h) hs))"

text \<open>
  Pangolin's API: a request changes the resources as it says or, where it fails or is of another kind, not at
  all; one that fails on the way may have been carried out. A list asked for with \<^verbatim>\<open>pageSize=1000\<close> holds every resource
  of an org that has no more.
\<close>

locale pangolin_service =
  fixes env :: "('w, 's) pangolin_env"
    and tag :: string
    and conf :: route_provider_entry
    and address :: string
    and hosts :: "'w \<Rightarrow> host_entry list"
    and zone :: "json \<Rightarrow> string"
  assumes sends: "pe_send env rq w = (r, w') \<Longrightarrow> hosts w' = hosts w \<or>
      pangolin_change (pangolin_endpoint conf) (pangolin_org conf) zone rq (hosts w) (hosts w')"
    and creates: "pe_send env rq w = (Inr resp, w') \<Longrightarrow> resp_ok resp \<Longrightarrow> rq_method rq = ''PUT'' \<Longrightarrow>
      rq_url rq = pangolin_endpoint conf @ ''/org/'' @ pangolin_org conf @ ''/public-resource'' \<Longrightarrow>
      pangolin_change (pangolin_endpoint conf) (pangolin_org conf) zone rq (hosts w) (hosts w')"
    and deletes: "pe_send env rq w = (Inr resp, w') \<Longrightarrow> resp_ok resp \<Longrightarrow> rq_method rq = ''DELETE'' \<Longrightarrow>
      starts_with (rq_url rq) (pangolin_endpoint conf @ ''/public-resource/'') \<Longrightarrow>
      pangolin_change (pangolin_endpoint conf) (pangolin_org conf) zone rq (hosts w) (hosts w')"
    and few: "length (hosts w) \<le> 1000"
    and lists: "pe_send env rq w = (Inr resp, w') \<Longrightarrow> resp_ok resp \<Longrightarrow> rq_method rq = ''GET'' \<Longrightarrow>
      rq_url rq = pangolin_endpoint conf @ ''/org/'' @ pangolin_org conf @ ''/public-resources'' \<Longrightarrow>
      rq_params rq = [(''pageSize'', ''1000'')] \<Longrightarrow> length (hosts w) \<le> 1000 \<Longrightarrow>
      rs_content resp \<and> (\<exists>l. rs_json resp = Some (JObj [(''data'', JObj [(''resources'', JArr l)])]) \<and>
        List.map resource_of l = List.map Some (hosts w))"
    and zones: "pe_send env rq w = (Inr resp, w') \<Longrightarrow> rq_method rq = ''GET'' \<Longrightarrow>
      rq_url rq = pangolin_endpoint conf @ ''/org/'' @ pangolin_org conf @ ''/domains'' \<Longrightarrow>
      pangolin_answer verb path action resp = Inr v \<Longrightarrow> listed_under ''domains'' v = Inr l \<Longrightarrow> d \<in> set l \<Longrightarrow>
      dict_get ''baseDomain'' JNull d = Inr (JStr b) \<Longrightarrow> dict_at ''domainId'' d = Inr did \<Longrightarrow> zone did = b"

section \<open>Reading what Pangolin lists\<close>

lemma resource_of_reads:
  assumes "resource_of v = Some h"
  shows "pangolin_owner v = Inr (he_app h)" and "dict_at ''resourceId'' v = Inr (JInt (he_id h))"
    and "\<exists>d. dict_get ''fullDomain'' JNull v = Inr d \<and> (d \<in> {JNull, JStr []} \<and> he_names h = [] \<or> (\<exists>s. s \<noteq> [] \<and> d = JStr s \<and> he_names h = [s]))"
  using assms by (auto simp: resource_of_def dict_at_def split: json.splits option.splits sum.splits list.splits)

lemma resource_label:
  assumes "resource_of v = Some h"
  shows "\<exists>found. pangolin_label p v = Inr found \<and>
    traverse (\<lambda>(sub, r). andthen (pangolin_owner r) (\<lambda>owner. Inr (sub, owner))) found = Inr (labels_of (pg_domain p) h)"
proof -
  from resource_of_reads(3) [OF assms] obtain d where d: "dict_get ''fullDomain'' JNull v = Inr d"
    "d \<in> {JNull, JStr []} \<and> he_names h = [] \<or> (\<exists>s. s \<noteq> [] \<and> d = JStr s \<and> he_names h = [s])" by blast
  have none: "label_under (pg_domain p) [] = None" by (simp add: label_under_def ends_with_def)
  from d(2) show ?thesis
    by (elim disjE conjE exE)
      (auto simp: pangolin_label_def d(1) or_empty_def truthy_def text_value_def labels_of_def map_filter_simps none
        resource_of_reads(1) [OF assms] split: option.split)
qed

lemma traverse_append: "traverse f (xs @ ys) = andthen (traverse f xs) (\<lambda>a. andthen (traverse f ys) (\<lambda>b. Inr (a @ b)))"
  by (induction xs) (auto simp: andthen_def split: sum.split)

lemma resources_owned:
  assumes "List.map resource_of l = List.map Some hs"
  shows "\<exists>found. traverse (pangolin_label p) l = Inr found \<and>
    traverse (\<lambda>(sub, r). andthen (pangolin_owner r) (\<lambda>owner. Inr (sub, owner))) (concat found)
      = Inr (concat (List.map (labels_of (pg_domain p)) hs))"
  using assms
proof (induction l arbitrary: hs)
  case (Cons v l)
  then obtain h hs' where hs: "hs = h # hs'" "resource_of v = Some h" "List.map resource_of l = List.map Some hs'" by (cases hs) auto
  from Cons.IH [OF hs(3)] resource_label [OF hs(2), of p] show ?case by (auto simp: hs(1) traverse_append)
qed simp

lemma first_such_resource:
  assumes "List.map resource_of l = List.map Some hs" and "name \<noteq> []"
  shows "\<exists>x. first_such (\<lambda>r. andthen (dict_get ''fullDomain'' JNull r) (\<lambda>d. Inr (d = JStr name))) l = Inr x \<and>
    (case host_at hs name of None \<Rightarrow> x = None | Some h \<Rightarrow> \<exists>v. x = Some v \<and> resource_of v = Some h)"
  using assms(1)
proof (induction l arbitrary: hs)
  case (Cons v l)
  then obtain h hs' where hs: "hs = h # hs'" "resource_of v = Some h" "List.map resource_of l = List.map Some hs'" by (cases hs) auto
  have "andthen (dict_get ''fullDomain'' JNull v) (\<lambda>d. Inr (d = JStr name)) = (Inr (name \<in> set (he_names h)) :: route_error + bool)"
    using resource_of_reads(3) [OF hs(2)] assms(2) by auto
  with Cons.IH [OF hs(3)] hs(1,2) show ?case by (auto simp: host_at_def)
qed (simp add: host_at_def)

section \<open>The provider keeps the promise\<close>

text \<open>Requests that never touch the list of resources.\<close>

definition quiet_request :: "string \<Rightarrow> string \<Rightarrow> bool" where
  "quiet_request verb path \<longleftrightarrow> verb \<notin> {''PUT'', ''DELETE''} \<or> starts_with path ''/target/'' \<or>
     (verb = ''PUT'' \<and> starts_with path ''/public-resource/'')"

lemma pangolin_from_config_parts:
  assumes "pangolin_from_config env tag conf address st = Inr (p, ss)"
  shows "pg_endpoint p @ API_PREFIX = pangolin_endpoint conf" and "pg_org p = pangolin_org conf"
    and "pg_domain p = rp_domain conf" and "ss_world ss = fst st"
  using assms by (auto simp: pangolin_from_config_def pangolin_endpoint_def pangolin_org_def provider_args_def
      https_endpoint_def Let_def andthen_Inr split: prod.splits if_splits)

lemma pangolin_with_E:
  assumes "pangolin_with env tag conf address f st = (r, st')"
  obtains (not_built) e where "r = Inl e" "st' = st"
    | (built) p ss ss' where "pangolin_from_config env tag conf address st = Inr (p, ss)" "f p ss = (r, ss')"
      "st' = (ss_world ss', ss_db ss')"
  using assms by (auto simp: pangolin_with_def split: sum.splits prod.splits)

context pangolin_service
begin

abbreviation "ep \<equiv> pangolin_endpoint conf"
abbreviation "org \<equiv> pangolin_org conf"

definition same_hosts :: "('w, 's) pangolin_session \<Rightarrow> ('w, 's) pangolin_session \<Rightarrow> bool" where
  "same_hosts ss ss' \<longleftrightarrow> hosts (ss_world ss') = hosts (ss_world ss)"

lemma same_hosts_order: "reflp same_hosts" "transp same_hosts"
  by (auto simp: same_hosts_def intro!: reflpI transpI)

lemma request_E:
  assumes "pangolin_request env p verb path action params body ss = (r, ss')" and "pg_endpoint p @ API_PREFIX = ep"
  obtains (refused) "isl r" "ss' = ss"
    | (failed) rq e w where "rq_method rq = verb" "rq_url rq = ep @ path" "rq_json rq = body" "rq_params rq = params"
        "pe_send env rq (ss_world ss) = (Inl e, w)" "isl r" "ss' = ss\<lparr>ss_world := w\<rparr>"
    | (answered) rq resp w where "rq_method rq = verb" "rq_url rq = ep @ path" "rq_json rq = body" "rq_params rq = params"
        "pe_send env rq (ss_world ss) = (Inr resp, w)" "r = pangolin_answer verb path action resp" "ss' = ss\<lparr>ss_world := w\<rparr>"
proof (cases "pg_key p = []")
  case True
  with assms(1) that(1) show ?thesis by (auto simp: pangolin_request_def)
next
  case False
  let ?rq = "\<lparr>rq_method = verb, rq_url = ep @ path, rq_bearer = Some (pg_key p), rq_params = params, rq_json = body\<rparr>"
  obtain r1 ss1 where c: "call (pe_send env) ?rq ss = (r1, ss1)" by (cases "call (pe_send env) ?rq ss")
  have r: "r = (case r1 of Inl e \<Rightarrow> Inl e | Inr resp \<Rightarrow> pangolin_answer verb path action resp)" "ss' = ss1"
    using False assms by (auto simp: pangolin_request_def bindA_def c liftA_def append_assoc [symmetric] simp del: append_assoc split: sum.splits)
  from c show ?thesis
  proof (cases rule: call_E)
    case (failed e w)
    with that(2) [of ?rq] r show ?thesis by simp
  next
    case (answered resp w)
    with that(3) [of ?rq] r show ?thesis by simp
  qed
qed

lemma request_changes:
  assumes "pangolin_request env p verb path action params body ss = (r, ss')" and "pg_endpoint p @ API_PREFIX = ep"
  shows "hosts (ss_world ss') = hosts (ss_world ss) \<or>
    (\<exists>rq. rq_method rq = verb \<and> rq_url rq = ep @ path \<and> rq_json rq = body \<and>
       pangolin_change ep org zone rq (hosts (ss_world ss)) (hosts (ss_world ss')))"
  using assms by (rule request_E) (auto dest: sends)

lemma quiet_keeps:
  assumes "quiet_request verb path" and "pg_endpoint p @ API_PREFIX = ep"
  shows "keeps same_hosts (pangolin_request env p verb path action params body)"
  unfolding keeps_def
proof
  fix ss
  obtain r ss' where run: "pangolin_request env p verb path action params body ss = (r, ss')" by (metis prod.exhaust)
  have "\<not> pangolin_change ep org zone rq hs hs'" if "rq_method rq = verb" "rq_url rq = ep @ path" for rq hs hs'
    using assms(1) that by (auto simp: pangolin_change_def quiet_request_def resource_url_def starts_with_iff)
  with request_changes [OF run assms(2)] run show "same_hosts ss (snd (pangolin_request env p verb path action params body ss))"
    by (auto simp: same_hosts_def)
qed

lemma keeps_liftA: "keeps same_hosts (liftA v)"
  by (simp add: keeps_def liftA_def same_hosts_def)

lemma keeps_raise: "keeps same_hosts (raise e)"
  by (simp add: keeps_def same_hosts_def)

lemma keeps_memory: "keeps same_hosts (update (\<lambda>ss. ss\<lparr>ss_memory := f ss\<rparr>))"
  by (simp add: keeps_def same_hosts_def)

lemmas quiet_intros = keeps_bindA [OF _ _ same_hosts_order(2)] keeps_ret [OF same_hosts_order(1)]
  keeps_eachA [OF _ same_hosts_order] keeps_liftA keeps_raise keeps_memory quiet_keeps

lemma quiet_steps:
  assumes "pg_endpoint p @ API_PREFIX = ep"
  shows "keeps same_hosts (pangolin_site_id env p)" and "keeps same_hosts (pangolin_policy_id env p)"
    and "keeps same_hosts (pangolin_resources env p)" and "keeps same_hosts (pangolin_domain env p)"
proof -
  have q: "quiet_request ''GET'' path" for path by (simp add: quiet_request_def)
  note get = quiet_keeps [OF q assms]
  have "same_hosts ss (snd (pangolin_site_id env p ss))" for ss
  proof (cases "fst (ss_memory ss)")
    case None
    have "keeps same_hosts (bindA (pangolin_request env p ''GET'' (''/org/'' @ pg_org p @ ''/site/'' @ pg_site p) ''getSite'' [] None) (\<lambda>v.
          bindA (liftA (dict_get ''siteId'' JNull (or_empty v (JObj [])))) (\<lambda>site.
          if site = JNull then raise (ProviderFailed (''Pangolin org '' @ pg_org p @ '' has no site '' @ pg_site p))
          else bindA (liftA (as_int site)) (\<lambda>i.
            bindA (update (\<lambda>ss. ss\<lparr>ss_memory := (Some i, snd (ss_memory ss))\<rparr>)) (\<lambda>_. ret i)))))"
      by (intro quiet_intros get keeps_if)
    with None show ?thesis unfolding pangolin_site_id_def keeps_def by simp
  qed (simp add: pangolin_site_id_def same_hosts_def)
  then show "keeps same_hosts (pangolin_site_id env p)" by (simp add: keeps_def)
  have "same_hosts ss (snd (pangolin_policy_id env p ss))" for ss
  proof (cases "pg_policy p = None \<or> snd (ss_memory ss) \<noteq> None")
    case False
    then obtain policy where policy: "pg_policy p = Some policy" "snd (ss_memory ss) = None" by auto
    have "keeps same_hosts (bindA (pangolin_request env p ''GET'' (''/org/'' @ pg_org p @ ''/public-resource-policies'') ''listResourcePolicies''
                   [(''pageSize'', ''1000'')] None) (\<lambda>v.
               bindA (liftA (andthen (listed_under ''policies'' v) (first_such (\<lambda>x. andthen (dict_get ''niceId'' JNull x) (\<lambda>n. Inr (n = JStr policy)))))) (\<lambda>found.
               case found of
                 None \<Rightarrow> raise (ProviderFailed (''Pangolin org '' @ pg_org p @ '' has no shared policy '' @ policy))
               | Some x \<Rightarrow> bindA (liftA (andthen (dict_at ''resourcePolicyId'' x) as_int)) (\<lambda>i.
                   bindA (update (\<lambda>ss. ss\<lparr>ss_memory := (fst (ss_memory ss), Some i)\<rparr>)) (\<lambda>_. ret (Some i))))))"
      by (intro quiet_intros get) (auto split: option.split intro!: quiet_intros)
    then show ?thesis unfolding pangolin_policy_id_def keeps_def by (simp add: policy)
  qed (auto simp: pangolin_policy_id_def same_hosts_def split: option.splits)
  then show "keeps same_hosts (pangolin_policy_id env p)" by (simp add: keeps_def)
  show "keeps same_hosts (pangolin_resources env p)" unfolding pangolin_resources_def by (intro quiet_intros get)
  show "keeps same_hosts (pangolin_domain env p)" unfolding pangolin_domain_def by (intro quiet_intros get)
qed

lemma quiet_rest:
  assumes "pg_endpoint p @ API_PREFIX = ep"
  shows "keeps same_hosts (pangolin_set_target env p resource port sch)" and "keeps same_hosts (pangolin_apply_policy env p resource)"
    and "keeps same_hosts (pangolin_domain_id env p)" and "keeps same_hosts (pangolin_find_resource env p name)"
    and "keeps same_hosts (pangolin_kelso_resources env p)"
proof -
  have q: "quiet_request ''GET'' path" "quiet_request ''POST'' path" "quiet_request ''DELETE'' (''/target/'' @ path)"
    "quiet_request ''PUT'' (''/public-resource/'' @ path)" for path by (simp_all add: quiet_request_def starts_with_def)
  note request = q [THEN quiet_keeps, OF assms]
  have targets: "keeps same_hosts (pangolin_targets env p resource)"
    unfolding pangolin_targets_def by (intro quiet_intros request keeps_if)
  show "keeps same_hosts (pangolin_set_target env p resource port sch)"
    unfolding pangolin_set_target_def by (intro quiet_intros request targets quiet_steps(1) [OF assms])
  have "keeps same_hosts (case policy of None \<Rightarrow> ret () | Some i \<Rightarrow> bindA (liftA (dict_at ''resourceId'' resource)) (\<lambda>rid.
           bindA (pangolin_request env p ''POST'' (''/public-resource/'' @ shown rid) ''updateResource'' []
             (Some (JObj [(''resourcePolicyId'', JInt i)]))) (\<lambda>_. ret ())))" for policy
    by (cases policy) (auto intro!: quiet_intros request)
  then show "keeps same_hosts (pangolin_apply_policy env p resource)"
    unfolding pangolin_apply_policy_def by (intro quiet_intros quiet_steps(2) [OF assms])
  have "keeps same_hosts (case d of None \<Rightarrow> raise e | Some v \<Rightarrow> liftA (dict_at ''domainId'' v))" for d e
    by (cases d) (auto intro!: quiet_intros)
  then show "keeps same_hosts (pangolin_domain_id env p)"
    unfolding pangolin_domain_id_def by (intro quiet_intros quiet_steps(4) [OF assms])
  show "keeps same_hosts (pangolin_find_resource env p name)"
    unfolding pangolin_find_resource_def by (intro quiet_intros quiet_steps(3) [OF assms])
  show "keeps same_hosts (pangolin_kelso_resources env p)"
    unfolding pangolin_kelso_resources_def by (intro quiet_intros quiet_steps(3) [OF assms])
qed

end

section \<open>The operations on the resources\<close>

context pangolin_service
begin

lemma run_keeps: "keeps same_hosts m \<Longrightarrow> m ss = (r, ss') \<Longrightarrow> hosts (ss_world ss') = hosts (ss_world ss)"
  by (drule keepsD, assumption) (simp add: same_hosts_def)

lemma resources_listed:
  assumes "pangolin_resources env p ss = (Inr l, ss')" and "pg_endpoint p @ API_PREFIX = ep" and "pg_org p = org"
  shows "List.map resource_of l = List.map Some (hosts (ss_world ss))"
proof -
  let ?path = "''/org/'' @ pg_org p @ ''/public-resources''"
  from assms(1) obtain v where g: "pangolin_request env p ''GET'' ?path ''listResources'' [(''pageSize'', ''1000'')] None ss = (Inr v, ss')"
    and l: "listed_under ''resources'' v = Inr l"
    by (auto simp: pangolin_resources_def bindA_result liftA_def)
  from g assms(2) show ?thesis
  proof (rule request_E)
    fix rq resp w
    assume rq: "rq_method rq = ''GET''" "rq_url rq = ep @ ?path" "rq_params rq = [(''pageSize'', ''1000'')]"
      and sent: "pe_send env rq (ss_world ss) = (Inr resp, w)" and ans: "Inr v = pangolin_answer ''GET'' ?path ''listResources'' resp"
    have ok: "resp_ok resp" using ans by (auto simp: pangolin_answer_def split: if_splits)
    from lists [OF sent ok rq(1) _ rq(3) few] rq(2) assms(3) obtain l' where
      "rs_content resp" "rs_json resp = Some (JObj [(''data'', JObj [(''resources'', JArr l')])])"
      "List.map resource_of l' = List.map Some (hosts (ss_world ss))" by auto
    with ans ok l show ?thesis
      by (auto simp: pangolin_answer_def resp_value_def listed_under_def or_empty_def truthy_def dict_get_def split: if_splits)
  qed auto
qed

lemma found_resource:
  assumes "pangolin_find_resource env p name ss = (Inr x, ss')" and "pg_endpoint p @ API_PREFIX = ep" and "pg_org p = org"
    and "name \<noteq> []"
  shows "case host_at (hosts (ss_world ss)) name of None \<Rightarrow> x = None | Some h \<Rightarrow> \<exists>v. x = Some v \<and> resource_of v = Some h"
proof -
  from assms(1) obtain l where l: "pangolin_resources env p ss = (Inr l, ss')"
    "first_such (\<lambda>r. andthen (dict_get ''fullDomain'' JNull r) (\<lambda>d. Inr (d = JStr name))) l = (Inr x :: route_error + json option)"
    by (auto simp: pangolin_find_resource_def bindA_result liftA_def)
  from first_such_resource [OF resources_listed [OF l(1) assms(2,3)] assms(4)] l(2) show ?thesis by auto
qed

lemma route_owners_right:
  assumes "pangolin_route_owners env p ss = (r, ss')" and "pg_endpoint p @ API_PREFIX = ep" and "pg_org p = org"
    and "tidy_hosts (hosts (ss_world ss))"
  shows "hosts (ss_world ss') = hosts (ss_world ss)"
    and "r = Inr d \<Longrightarrow> map_of d = map_of (concat (List.map (labels_of (pg_domain p)) (hosts (ss_world ss))))"
proof -
  let ?labels = "concat (List.map (labels_of (pg_domain p)) (hosts (ss_world ss)))"
  have "keeps same_hosts (pangolin_route_owners env p)"
    unfolding pangolin_route_owners_def by (intro quiet_intros quiet_rest [OF assms(2)])
  from run_keeps [OF this assms(1)] show "hosts (ss_world ss') = hosts (ss_world ss)" .
  assume "r = Inr d"
  with assms(1) obtain l found where l: "pangolin_resources env p ss = (Inr l, ss')" "traverse (pangolin_label p) l = Inr found"
    and d: "andthen (traverse (\<lambda>(sub, r). andthen (pangolin_owner r) (\<lambda>owner. Inr (sub, owner))) (concat found)) (\<lambda>owners.
         Inr (dict_merge [] owners)) = Inr d"
    by (auto simp: pangolin_route_owners_def pangolin_kelso_resources_def bindA_result liftA_def andthen_Inr)
  from resources_owned [OF resources_listed [OF l(1) assms(2,3)], of p] l(2) d have "d = dict_merge [] ?labels" by auto
  moreover have "distinct (keys ?labels)"
    unfolding labels_keys by (rule label_list_distinct) (use assms(4) in \<open>simp add: tidy_hosts_def\<close>)
  then have "map_of (rev ?labels) = map_of ?labels" by (rule map_of_rev_distinct)
  ultimately show "map_of d = map_of ?labels" by (simp add: map_of_dict_merge)
qed

lemma zone_of_domain:
  assumes "pangolin_domain_id env p ss = (Inr did, ss')" and "pg_endpoint p @ API_PREFIX = ep" and "pg_org p = org"
  shows "zone did = pg_domain p"
proof -
  let ?path = "''/org/'' @ pg_org p @ ''/domains''"
  let ?test = "\<lambda>d. andthen (dict_get ''baseDomain'' JNull d) (\<lambda>b. Inr (b = JStr (pg_domain p)))"
  from assms(1) obtain d v l where g: "pangolin_request env p ''GET'' ?path ''listOrgDomains'' [] None ss = (Inr v, ss')"
    and l: "listed_under ''domains'' v = Inr l" and d: "first_such ?test l = Inr (Some d)" and did: "dict_at ''domainId'' d = Inr did"
    by (auto simp: pangolin_domain_id_def pangolin_domain_def bindA_result liftA_def andthen_Inr split: option.splits)
  have "d \<in> set l \<and> ?test d = Inr True" using d by (induction l) (auto simp: andthen_Inr split: if_splits)
  then have in_l: "d \<in> set l" and base: "dict_get ''baseDomain'' JNull d = Inr (JStr (pg_domain p))" by (auto simp: andthen_Inr)
  from g assms(2) show ?thesis
  proof (rule request_E)
    fix rq resp w
    assume "rq_method rq = ''GET''" "rq_url rq = ep @ ?path" "pe_send env rq (ss_world ss) = (Inr resp, w)"
      "Inr v = pangolin_answer ''GET'' ?path ''listOrgDomains'' resp"
    with zones [of rq "ss_world ss" resp w] l in_l base did show "zone did = pg_domain p" by (metis assms(3))
  qed auto
qed

end

lemma named_owner_kelso: "named_owner (NAME_PREFIX @ app) = Some app"
  by (simp add: named_owner_def starts_with_def)

context pangolin_service
begin

text \<open>Creating a resource adds one or, where it fails, may change nothing.\<close>

lemma create_right:
  assumes "pangolin_create env p app sub name ss = (r, ss')" and "pg_endpoint p @ API_PREFIX = ep" and "pg_org p = org"
  shows "(isl r \<and> hosts (ss_world ss') = hosts (ss_world ss)) \<or> (\<exists>i. i \<notin> set (List.map he_id (hosts (ss_world ss))) \<and>
    hosts (ss_world ss') = hosts (ss_world ss) @ [\<lparr>he_id = i, he_names = [full_name sub (pg_domain p)], he_app = Some app\<rparr>])"
  using assms(1) unfolding pangolin_create_def
proof (cases rule: bindA_E)
  case (raised e)
  with run_keeps [OF quiet_rest(3) [OF assms(2)] raised(1)] show ?thesis by simp
next
  case (went_on did ss1)
  note same = run_keeps [OF quiet_rest(3) [OF assms(2)] went_on(1)]
  note zone = zone_of_domain [OF went_on(1) assms(2,3)]
  let ?body = "JObj [(''name'', JStr (NAME_PREFIX @ app)), (''subdomain'', JStr sub), (''domainId'', did), (''mode'', JStr ''http'')]"
  let ?path = "''/org/'' @ pg_org p @ ''/public-resource''"
  obtain r2 where put: "pangolin_request env p ''PUT'' ?path ''createResource'' [] (Some ?body) ss1 = (r2, ss')" "\<not> isl r \<longrightarrow> \<not> isl r2"
    using went_on(2) by (auto simp: bindA_def liftA_def split: prod.splits sum.splits if_splits)
  have change: "\<exists>i. i \<notin> set (List.map he_id hs) \<and> hs' = hs @ [\<lparr>he_id = i, he_names = [full_name sub (pg_domain p)], he_app = Some app\<rparr>]"
    if "pangolin_change ep org zone rq hs hs'" "rq_method rq = ''PUT''" "rq_json rq = Some ?body" for rq hs hs'
    using that by (auto simp: pangolin_change_def zone named_owner_kelso simp del: append_Cons)
  from put(1) assms(2) show ?thesis
  proof (rule request_E)
    assume "isl r2" "ss' = ss1"
    with same put(2) show ?thesis by auto
  next
    fix rq e w
    assume "rq_method rq = ''PUT''" "rq_json rq = Some ?body" "pe_send env rq (ss_world ss1) = (Inl e, w)" "isl r2" "ss' = ss1\<lparr>ss_world := w\<rparr>"
    with sends [of rq "ss_world ss1" "Inl e" w] change [of rq] put(2) same show ?thesis by auto
  next
    fix rq resp w
    assume rq: "rq_method rq = ''PUT''" "rq_json rq = Some ?body" "rq_url rq = ep @ ?path"
      and sent: "pe_send env rq (ss_world ss1) = (Inr resp, w)" and r2: "r2 = pangolin_answer ''PUT'' ?path ''createResource'' resp"
      and ss': "ss' = ss1\<lparr>ss_world := w\<rparr>"
    show ?thesis
    proof (cases "resp_ok resp")
      case True
      from change [OF creates [OF sent True rq(1)] rq(1,2)] rq(3) assms(3) ss' same show ?thesis by auto
    next
      case False
      then have "isl r2" by (simp add: r2 pangolin_answer_def)
      with sends [OF sent] change [OF _ rq(1,2)] put(2) ss' same show ?thesis by auto
    qed
  qed
qed

lemma register_right:
  assumes "pangolin_register env app port sub domain sch p ss = (r, ss')" and "pg_endpoint p @ API_PREFIX = ep" and "pg_org p = org"
    and "pg_domain p = domain" and "single_label sub"
  shows "host_registered app (full_name sub domain) (isl r) (hosts (ss_world ss)) (hosts (ss_world ss'))"
proof -
  let ?hs = "hosts (ss_world ss)" and ?name = "full_name sub domain"
  let ?rest = "\<lambda>resource. bindA (pangolin_set_target env p resource port sch) (\<lambda>_. pangolin_apply_policy env p resource)"
  have rest: "keeps same_hosts (?rest resource)" for resource by (intro quiet_intros quiet_rest [OF assms(2)])
  have ne: "?name \<noteq> []" using assms(5) by (simp add: full_name_def single_label_def)
  have failed: "isl r \<and> hosts (ss_world ss') = ?hs \<Longrightarrow> ?thesis" by (simp add: host_registered_def)
  from assms(1) show ?thesis unfolding pangolin_register_def Let_def
  proof (cases rule: bindA_E)
    case (raised e)
    with run_keeps [OF quiet_steps(2) [OF assms(2)] raised(1)] failed show ?thesis by simp
  next
    case (went_on policy ss1)
    note same1 = run_keeps [OF quiet_steps(2) [OF assms(2)] went_on(1)]
    from went_on(2) show ?thesis
    proof (cases rule: bindA_E)
      case (raised e)
      with run_keeps [OF quiet_rest(4) [OF assms(2)] raised(1)] same1 failed show ?thesis by simp
    next
      case (went_on existing ss2)
      note same2 = run_keeps [OF quiet_rest(4) [OF assms(2)] went_on(1), unfolded same1]
      note found = found_resource [OF went_on(1) assms(2,3) ne, unfolded same1]
      show ?thesis
      proof (cases existing)
        case None
        with found have free: "host_at ?hs ?name = None" by (auto split: option.splits)
        obtain r3 ss3 where c: "pangolin_create env p app sub ?name ss2 = (r3, ss3)" by (cases "pangolin_create env p app sub ?name ss2")
        have after: "hosts (ss_world ss') = hosts (ss_world ss3) \<and> (isl r3 \<longrightarrow> isl r)"
        proof (cases r3)
          case (Inr resource)
          with went_on(2) None c have "?rest resource ss3 = (r, ss')" by (simp add: bindA_Inr)
          from run_keeps [OF rest this] Inr show ?thesis by simp
        qed (use went_on(2) None c in \<open>auto simp: bindA_Inl\<close>)
        from create_right [OF c assms(2,3)] free after show ?thesis
          unfolding same2 assms(4) by (auto simp: host_registered_def)
      next
        case (Some v)
        with found obtain h where h: "host_at ?hs ?name = Some h" "resource_of v = Some h" by (auto split: option.splits)
        show ?thesis
        proof (cases "he_app h = Some app")
          case True
          with went_on(2) Some have "?rest v ss2 = (r, ss')"
            by (simp add: bindA_def liftA_def resource_of_reads(1) [OF h(2)])
          from run_keeps [OF rest this] same2 h(1) True show ?thesis by (simp add: host_registered_def)
        next
          case False
          with went_on(2) Some same2 failed show ?thesis
            by (auto simp: bindA_def liftA_def resource_of_reads(1) [OF h(2)])
        qed
      qed
    qed
  qed
qed

lemma unregister_right:
  assumes "pangolin_unregister env sub domain p ss = (r, ss')" and "pg_endpoint p @ API_PREFIX = ep" and "pg_org p = org"
    and "single_label sub"
  shows "host_unregistered (full_name sub domain) (isl r) (hosts (ss_world ss)) (hosts (ss_world ss'))"
proof -
  let ?hs = "hosts (ss_world ss)" and ?name = "full_name sub domain"
  have ne: "?name \<noteq> []" using assms(4) by (simp add: full_name_def single_label_def)
  from assms(1) show ?thesis unfolding pangolin_unregister_def
  proof (cases rule: bindA_E)
    case (raised e)
    with run_keeps [OF quiet_rest(4) [OF assms(2)] raised(1)] show ?thesis by (simp add: host_unregistered_def)
  next
    case (went_on existing ss2)
    note same2 = run_keeps [OF quiet_rest(4) [OF assms(2)] went_on(1)]
    note found = found_resource [OF went_on(1) assms(2,3) ne]
    show ?thesis
    proof (cases existing)
      case None
      with found went_on(2) same2 show ?thesis by (auto simp: host_unregistered_def split: option.splits)
    next
      case (Some v)
      with found obtain h where h: "host_at ?hs ?name = Some h" "resource_of v = Some h" by (auto split: option.splits)
      let ?path = "''/public-resource/'' @ str_of_int (he_id h)"
      obtain r3 where del: "pangolin_request env p ''DELETE'' ?path ''deleteResource'' [] None ss2 = (r3, ss')" "isl r \<longleftrightarrow> isl r3"
        using went_on(2) Some resource_of_reads(2) [OF h(2)]
        by (auto simp: bindA_def liftA_def split: prod.splits sum.splits)
      have change: "hs' = List.filter (\<lambda>x. he_id x \<noteq> he_id h) hs"
        if "pangolin_change ep org zone rq hs hs'" "rq_method rq = ''DELETE''" "rq_url rq = ep @ ?path" for rq hs hs'
        using that by (auto simp: pangolin_change_def resource_url_def str_of_int_inj)
      from del(1) assms(2) show ?thesis
      proof (rule request_E)
        assume "isl r3" "ss' = ss2"
        with del(2) same2 show ?thesis by (simp add: host_unregistered_def)
      next
        fix rq e w
        assume "rq_method rq = ''DELETE''" "rq_url rq = ep @ ?path" "pe_send env rq (ss_world ss2) = (Inl e, w)" "isl r3" "ss' = ss2\<lparr>ss_world := w\<rparr>"
        with sends [of rq "ss_world ss2" "Inl e" w] change [of rq] del(2) same2 h(1) show ?thesis by (auto simp: host_unregistered_def)
      next
        fix rq resp w
        assume rq: "rq_method rq = ''DELETE''" "rq_url rq = ep @ ?path" and sent: "pe_send env rq (ss_world ss2) = (Inr resp, w)"
          and r3: "r3 = pangolin_answer ''DELETE'' ?path ''deleteResource'' resp" and ss': "ss' = ss2\<lparr>ss_world := w\<rparr>"
        show ?thesis
        proof (cases "resp_ok resp")
          case True
          have "starts_with (rq_url rq) (ep @ ''/public-resource/'')" by (simp add: rq(2) starts_with_iff)
          from change [OF deletes [OF sent True rq(1) this] rq] ss' same2 h(1) show ?thesis by (auto simp: host_unregistered_def)
        next
          case False
          then have "isl r3" by (simp add: r3 pangolin_answer_def)
          with sends [OF sent] change [OF _ rq] del(2) ss' same2 h(1) show ?thesis by (auto simp: host_unregistered_def)
        qed
      qed
    qed
  qed
qed

end

sublocale pangolin_service \<subseteq> pangolin: host_provider "pangolin_ops env tag conf address" tag "rp_domain conf" "\<lambda>st. hosts (fst st)"
proof
  fix t app port sub d sch
  assume "t \<noteq> tag"
  then show "po_owners (pangolin_ops env tag conf address) t = raise (NoProvider t)"
    "po_register (pangolin_ops env tag conf address) t app port sub d sch = raise (NoProvider t)"
    "po_unregister (pangolin_ops env tag conf address) t sub d = raise (NoProvider t)" by (simp_all add: pangolin_ops_def)
next
  fix st st' :: "'w \<times> 's" and r
  assume tidy: "tidy_hosts (hosts (fst st))" and "po_owners (pangolin_ops env tag conf address) tag st = (r, st')"
  then have "pangolin_with env tag conf address (pangolin_route_owners env) st = (r, st')" by (simp add: pangolin_ops_def)
  then show "hosts (fst st') = hosts (fst st) \<and>
      (\<forall>d. r = Inr d \<longrightarrow> map_of d = map_of (concat (List.map (labels_of (rp_domain conf)) (hosts (fst st)))))"
  proof (cases rule: pangolin_with_E)
    case (built p ss ss')
    note parts = pangolin_from_config_parts [OF built(1)]
    from route_owners_right [OF built(2) parts(1,2)] tidy show ?thesis by (simp add: built(3) parts)
  qed simp
next
  fix st st' :: "'w \<times> 's" and u sub app port sch
  assume label: "single_label sub"
    and "po_register (pangolin_ops env tag conf address) tag app port sub (rp_domain conf) sch st = (u, st')"
  then have "pangolin_with env tag conf address (pangolin_register env app port sub (rp_domain conf) sch) st = (u, st')" by (simp add: pangolin_ops_def)
  then show "host_registered app (full_name sub (rp_domain conf)) (isl u) (hosts (fst st)) (hosts (fst st'))"
  proof (cases rule: pangolin_with_E)
    case (built p ss ss')
    note parts = pangolin_from_config_parts [OF built(1)]
    from register_right [OF built(2) parts(1-3) label] show ?thesis by (simp add: built(3) parts)
  qed (simp add: host_registered_def)
next
  fix st st' :: "'w \<times> 's" and u sub
  assume label: "single_label sub"
    and "po_unregister (pangolin_ops env tag conf address) tag sub (rp_domain conf) st = (u, st')"
  then have "pangolin_with env tag conf address (pangolin_unregister env sub (rp_domain conf)) st = (u, st')" by (simp add: pangolin_ops_def)
  then show "host_unregistered (full_name sub (rp_domain conf)) (isl u) (hosts (fst st)) (hosts (fst st'))"
  proof (cases rule: pangolin_with_E)
    case (built p ss ss')
    note parts = pangolin_from_config_parts [OF built(1)]
    from unregister_right [OF built(2) parts(1,2) label] show ?thesis by (simp add: built(3) parts)
  qed (simp add: host_unregistered_def)
qed

context pangolin_service
begin

lemma provider: "host_provider (pangolin_ops env tag conf address) tag (rp_domain conf) (\<lambda>st. hosts (fst st))"
  by (rule pangolin.host_provider_axioms)

end

section \<open>Properties\<close>

text \<open>C34: the Pangolin provider keeps the promise the lifecycle relies on, whether requests fail on the way or not:
  who holds which name is read as the service has it; a registration touches no name but its own, refuses
  one that another holds and, when it returns, has made the name the app's; a removal of a name kelso's apps hold
  touches no other. The hypotheses are Pangolin's documented API, for an org of at most 1000 resources.\<close>

theorem pangolin_keeps_the_promise:
  assumes "pangolin_service env conf hosts zone" and "tidy_hosts (hosts (fst st))"
    and "single_label sub" and "owner = name_owner (\<lambda>st. hosts (fst st)) tag (rp_domain conf)"
  shows "(\<forall>r st'. po_owners (pangolin_ops env tag conf address) tag st = (r, st') \<longrightarrow>
      tidy_hosts (hosts (fst st')) \<and> owner st' = owner st \<and> (\<forall>d. r = Inr d \<longrightarrow> map_of d = owner st tag)) \<and>
    (\<forall>u st'. po_register (pangolin_ops env tag conf address) tag app port sub (rp_domain conf) sch st = (u, st') \<longrightarrow>
      tidy_hosts (hosts (fst st')) \<and> (\<forall>s. s \<noteq> sub \<longrightarrow> owner st' tag s = owner st tag s) \<and>
      (owner st tag sub \<notin> {None, Some (Some app)} \<longrightarrow> isl u \<and> owner st' tag sub = owner st tag sub) \<and>
      (u = Inr () \<longrightarrow> owner st' tag sub = Some (Some app))) \<and>
    (\<forall>u st'. po_unregister (pangolin_ops env tag conf address) tag sub (rp_domain conf) st = (u, st') \<and> owner st tag sub \<noteq> Some None \<longrightarrow>
      tidy_hosts (hosts (fst st')) \<and> (\<forall>s. s \<noteq> sub \<longrightarrow> owner st' tag s = owner st tag s) \<and>
      owner st' tag sub \<in> {None, owner st tag sub} \<and> (u = Inr () \<longrightarrow> owner st' tag sub = None))"
  unfolding assms(4) by (rule host_provider.promise_for_name [OF pangolin_service.provider [OF assms(1)] assms(2,3)])

section \<open>A server\<close>

text \<open>It holds at most 1000 resources, each with one domain or none.\<close>

definition demo_org :: "host_entry list \<Rightarrow> host_entry list" where
  "demo_org w = (if length w \<le> 1000 \<and> (\<forall>h \<in> set w. he_names h = [] \<or> (\<exists>n. he_names h = [n] \<and> n \<noteq> [])) then w else [])"

definition resource_json :: "host_entry \<Rightarrow> json" where
  "resource_json h = JObj [(''resourceId'', JInt (he_id h)),
     (''name'', JStr (case he_app h of None \<Rightarrow> ''theirs'' | Some a \<Rightarrow> NAME_PREFIX @ a)),
     (''fullDomain'', case he_names h of [] \<Rightarrow> JNull | n # ns \<Rightarrow> JStr n)]"

definition demo_created :: "json option \<Rightarrow> host_entry list \<Rightarrow> host_entry option" where
  "demo_created body hs =
     (case body of
        Some (JObj ms) \<Rightarrow>
          (case (map_of ms ''subdomain'', map_of ms ''domainId'', map_of ms ''name'') of
             (Some (JStr sub), Some did, Some (JStr name)) \<Rightarrow>
               if length hs < 1000 then Some \<lparr>he_id = fresh_id hs, he_names = [full_name sub ''example.org''], he_app = named_owner name\<rparr>
               else None
           | _ \<Rightarrow> None)
      | _ \<Rightarrow> None)"

definition envelope :: "json \<Rightarrow> http_response" where
  "envelope v = answer 200 (JObj [(''data'', v)])"

definition demo_pangolin_send :: "string \<Rightarrow> host_entry list http" where
  "demo_pangolin_send ep rq w =
     (let hs = demo_org w
      in if rq_method rq = ''GET'' \<and> rq_url rq = ep @ ''/org/acme/public-resources''
         then (Inr (envelope (JObj [(''resources'', JArr (List.map resource_json hs))])), hs)
         else if rq_method rq = ''GET'' \<and> rq_url rq = ep @ ''/org/acme/domains''
         then (Inr (envelope (JObj [(''domains'', JArr [JObj [(''domainId'', JStr ''d1''), (''baseDomain'', JStr ''example.org'')]])])), hs)
         else if rq_method rq = ''PUT'' \<and> rq_url rq = ep @ ''/org/acme/public-resource''
         then (case demo_created (rq_json rq) hs of
             None \<Rightarrow> (Inr (answer 400 JNull), hs)
           | Some h \<Rightarrow> (Inr (envelope (JObj [(''resourceId'', JInt (he_id h))])), hs @ [h]))
         else if rq_method rq = ''DELETE'' \<and> starts_with (rq_url rq) (ep @ ''/public-resource/'')
         then (case List.find (\<lambda>h. rq_url rq = resource_url ep (he_id h)) hs of
             None \<Rightarrow> (Inr (answer 404 JNull), hs)
           | Some h \<Rightarrow> (Inr (envelope JNull), List.filter (\<lambda>x. he_id x \<noteq> he_id h) hs))
         else (Inr (envelope (JObj [(''siteId'', JInt 4)])), hs))"

definition demo_pangolin_conf :: route_provider_entry where
  "demo_pangolin_conf = \<lparr>rp_kind = Pangolin, rp_domain = ''example.org'',
     rp_args = [(''endpoint'', ''https://api.example.net/''), (''org_id'', ''acme''), (''site'', ''home''), (''api_key_secret'', ''pangolin'')]\<rparr>"

definition demo_pangolin_env :: "(host_entry list, (string, json) dict) pangolin_env" where
  "demo_pangolin_env = \<lparr>pe_send = demo_pangolin_send ''https://api.example.net/v1'', pe_is_float = (\<lambda>t. True),
     pe_store = memory_store, pe_cipher = noop_engine\<rparr>"

lemma demo_pangolin_endpoint:
  "pangolin_endpoint demo_pangolin_conf = ''https://api.example.net/v1''" "pangolin_org demo_pangolin_conf = ''acme''"
  by (simp_all add: pangolin_endpoint_def pangolin_org_def demo_pangolin_conf_def strip_slashes_def API_PREFIX_def)

lemma demo_org_one: "h \<in> set (demo_org w) \<Longrightarrow> he_names h = [] \<or> (\<exists>n. he_names h = [n] \<and> n \<noteq> [])"
  by (auto simp: demo_org_def split: if_splits)

lemma demo_org_few: "length (demo_org w) \<le> 1000"
  by (simp add: demo_org_def)

lemma demo_org_again: "demo_org (demo_org w) = demo_org w"
  using demo_org_one [of _ w] demo_org_few [of w] by (auto simp: demo_org_def [of "demo_org w"])

lemma demo_org_filter: "demo_org (List.filter P (demo_org w)) = List.filter P (demo_org w)"
  using demo_org_one [of _ w] le_trans [OF length_filter_le demo_org_few]
  by (auto simp: demo_org_def [of "List.filter P (demo_org w)"])

lemma demo_org_created:
  assumes "demo_created body (demo_org w) = Some h"
  shows "demo_org (demo_org w @ [h]) = demo_org w @ [h]"
proof -
  from assms have "length (demo_org w) < 1000" "\<exists>n. he_names h = [n] \<and> n \<noteq> []"
    by (auto simp: demo_created_def full_name_def split: option.splits json.splits if_splits)
  with demo_org_one [of _ w] show ?thesis by (auto simp: demo_org_def [of "demo_org w @ [h]"])
qed

lemma resource_of_json:
  assumes "h \<in> set (demo_org w)"
  shows "resource_of (resource_json h) = Some h"
proof -
  have "named_owner ''theirs'' = None" by (simp add: named_owner_def starts_with_def NAME_PREFIX_def)
  with demo_org_one [OF assms] named_owner_kelso show ?thesis
    by (cases h; cases "he_app h")
      (auto simp: resource_of_def resource_json_def pangolin_owner_def dict_get_def or_empty_def truthy_def text_value_def NAME_PREFIX_def
        split: list.splits)
qed

lemma demo_pangolin_step:
  assumes "demo_pangolin_send ep rq w = (r, w')" and "zone = (\<lambda>did. ''example.org'')"
  shows "(demo_org w' = demo_org w \<and> (\<forall>resp. r = Inr resp \<and> resp_ok resp \<longrightarrow>
      \<not> (rq_method rq = ''PUT'' \<and> rq_url rq = ep @ ''/org/acme/public-resource'') \<and>
      \<not> (rq_method rq = ''DELETE'' \<and> starts_with (rq_url rq) (ep @ ''/public-resource/'')))) \<or>
    pangolin_change ep ''acme'' zone rq (demo_org w) (demo_org w')"
proof (cases "rq_method rq = ''PUT'' \<and> rq_url rq = ep @ ''/org/acme/public-resource''")
  case True
  show ?thesis
  proof (cases "demo_created (rq_json rq) (demo_org w)")
    case None
    with assms(1) True show ?thesis
      by (auto simp: demo_pangolin_send_def demo_org_again resp_ok_def answer_def Let_def split: if_splits)
  next
    case (Some h)
    with assms(1) True have "w' = demo_org w @ [h]" by (auto simp: demo_pangolin_send_def Let_def split: if_splits)
    with demo_org_created [OF Some] have "demo_org w' = demo_org w @ [h]" by simp
    with Some True fresh_id_fresh [of "demo_org w"] show ?thesis
      by (auto simp: pangolin_change_def demo_created_def assms(2) split: option.splits json.splits if_splits)
  qed
next
  case False
  show ?thesis
  proof (cases "rq_method rq = ''DELETE'' \<and> starts_with (rq_url rq) (ep @ ''/public-resource/'')")
    case True
    show ?thesis
    proof (cases "List.find (\<lambda>h. rq_url rq = resource_url ep (he_id h)) (demo_org w)")
      case None
      with assms(1) True show ?thesis
        by (auto simp: demo_pangolin_send_def demo_org_again resp_ok_def answer_def Let_def split: if_splits)
    next
      case (Some h)
      with assms(1) True have "w' = List.filter (\<lambda>x. he_id x \<noteq> he_id h) (demo_org w)"
        by (auto simp: demo_pangolin_send_def Let_def split: if_splits)
      then have "demo_org w' = List.filter (\<lambda>x. he_id x \<noteq> he_id h) (demo_org w)" by (simp add: demo_org_filter)
      moreover have "h \<in> set (demo_org w)" "rq_url rq = resource_url ep (he_id h)" using Some by (auto simp: find_Some_iff)
      ultimately show ?thesis using True unfolding pangolin_change_def by blast
    qed
  next
    case no_delete: False
    from assms(1) False no_delete have "w' = demo_org w" by (auto simp: demo_pangolin_send_def Let_def split: if_splits)
    with False no_delete show ?thesis by (simp add: demo_org_again)
  qed
qed

interpretation demo_pangolin: pangolin_service demo_pangolin_env tag demo_pangolin_conf address demo_org "\<lambda>did. ''example.org''"
  for tag address
proof
  fix rq :: http_request and w w' :: "host_entry list" and r
  assume "pe_send demo_pangolin_env rq w = (r, w')"
  with demo_pangolin_step [of "''https://api.example.net/v1''" rq w r w'] show "demo_org w' = demo_org w \<or>
      pangolin_change (pangolin_endpoint demo_pangolin_conf) (pangolin_org demo_pangolin_conf) (\<lambda>did. ''example.org'') rq (demo_org w) (demo_org w')"
    unfolding demo_pangolin_endpoint by (simp add: demo_pangolin_env_def) blast
next
  fix rq :: http_request and w w' :: "host_entry list" and resp
  assume "pe_send demo_pangolin_env rq w = (Inr resp, w')" "resp_ok resp" "rq_method rq = ''PUT''"
    "rq_url rq = pangolin_endpoint demo_pangolin_conf @ ''/org/'' @ pangolin_org demo_pangolin_conf @ ''/public-resource''"
  with demo_pangolin_step [of "''https://api.example.net/v1''" rq w "Inr resp" w' "\<lambda>did. ''example.org''"] show
    "pangolin_change (pangolin_endpoint demo_pangolin_conf) (pangolin_org demo_pangolin_conf) (\<lambda>did. ''example.org'') rq (demo_org w) (demo_org w')"
    unfolding demo_pangolin_endpoint by (auto simp: demo_pangolin_env_def)
next
  fix rq :: http_request and w w' :: "host_entry list" and resp
  assume "pe_send demo_pangolin_env rq w = (Inr resp, w')" "resp_ok resp" "rq_method rq = ''DELETE''"
    "starts_with (rq_url rq) (pangolin_endpoint demo_pangolin_conf @ ''/public-resource/'')"
  with demo_pangolin_step [of "''https://api.example.net/v1''" rq w "Inr resp" w' "\<lambda>did. ''example.org''"] show
    "pangolin_change (pangolin_endpoint demo_pangolin_conf) (pangolin_org demo_pangolin_conf) (\<lambda>did. ''example.org'') rq (demo_org w) (demo_org w')"
    unfolding demo_pangolin_endpoint by (auto simp: demo_pangolin_env_def)
next
  fix w show "length (demo_org w) \<le> 1000" by (rule demo_org_few)
next
  fix rq :: http_request and w w' :: "host_entry list" and resp
  assume "pe_send demo_pangolin_env rq w = (Inr resp, w')" "rq_method rq = ''GET''"
    "rq_url rq = pangolin_endpoint demo_pangolin_conf @ ''/org/'' @ pangolin_org demo_pangolin_conf @ ''/public-resources''"
  then have "resp = envelope (JObj [(''resources'', JArr (List.map resource_json (demo_org w)))])"
    by (auto simp: demo_pangolin_env_def demo_pangolin_endpoint demo_pangolin_send_def Let_def)
  then show "rs_content resp \<and> (\<exists>l. rs_json resp = Some (JObj [(''data'', JObj [(''resources'', JArr l)])]) \<and>
        List.map resource_of l = List.map Some (demo_org w))"
    by (simp add: envelope_def answer_def resource_of_json)
next
  fix rq :: http_request and w w' :: "host_entry list" and resp verb path action v l d b and did :: json
  assume "pe_send demo_pangolin_env rq w = (Inr resp, w')" "rq_method rq = ''GET''"
    "rq_url rq = pangolin_endpoint demo_pangolin_conf @ ''/org/'' @ pangolin_org demo_pangolin_conf @ ''/domains''"
    and read: "pangolin_answer verb path action resp = Inr v" "listed_under ''domains'' v = Inr l" "d \<in> set l"
      "dict_get ''baseDomain'' JNull d = Inr (JStr b)"
  then have "resp = envelope (JObj [(''domains'', JArr [JObj [(''domainId'', JStr ''d1''), (''baseDomain'', JStr ''example.org'')]])])"
    by (simp add: demo_pangolin_env_def demo_pangolin_endpoint demo_pangolin_send_def Let_def)
  with read show "''example.org'' = b"
    by (auto simp: envelope_def answer_def pangolin_answer_def resp_ok_def resp_value_def listed_under_def or_empty_def truthy_def dict_get_def)
qed

definition demo_pangolin_state :: "host_entry list \<times> (string, json) dict" where
  "demo_pangolin_state = ([\<lparr>he_id = 7, he_names = [''blog.example.org''], he_app = Some ''org.blog''\<rparr>],
     [(''system/secrets/pangolin'', JStr ''key'')])"

lemma demo_pangolin_tidy: "tidy_hosts (demo_org (fst demo_pangolin_state))"
  by (simp add: tidy_hosts_def demo_pangolin_state_def demo_org_def)

text \<open>The blog of another app is refused and left alone.\<close>

theorem pangolin_keeps_the_promise_witness:
  "\<exists>u st'. po_register (pangolin_ops demo_pangolin_env ''home'' demo_pangolin_conf ''10.0.0.2'') ''home'' ''org.demo'' 8080 ''blog'' ''example.org'' ''http''
      demo_pangolin_state = (u, st') \<and> isl u \<and>
    name_owner (\<lambda>st. demo_org (fst st)) ''home'' ''example.org'' st' ''home'' ''blog'' = Some (Some ''org.blog'')"
proof -
  let ?ops = "pangolin_ops demo_pangolin_env ''home'' demo_pangolin_conf ''10.0.0.2''"
  obtain u st' where run: "po_register ?ops ''home'' ''org.demo'' 8080 ''blog'' (rp_domain demo_pangolin_conf) ''http'' demo_pangolin_state = (u, st')"
    by (metis prod.exhaust)
  have own: "name_owner (\<lambda>st. demo_org (fst st)) ''home'' (rp_domain demo_pangolin_conf) demo_pangolin_state ''home'' ''blog'' = Some (Some ''org.blog'')"
    by (simp add: name_owner_def demo_pangolin_state_def demo_pangolin_conf_def demo_org_def host_at_def full_name_def single_label_def)
  have label: "single_label ''blog''" by (simp add: single_label_def)
  note kept = pangolin_keeps_the_promise [OF demo_pangolin.pangolin_service_axioms, OF demo_pangolin_tidy, OF label, OF refl, of "''home''" "''10.0.0.2''" "''org.demo''" 8080 "''http''"]
  from conjunct1 [OF conjunct2 [OF kept], rule_format, OF run] own have "isl u \<and> name_owner (\<lambda>st. demo_org (fst st)) ''home'' (rp_domain demo_pangolin_conf) st' ''home'' ''blog'' = Some (Some ''org.blog'')"
    by simp
  with run show ?thesis by (simp add: demo_pangolin_conf_def)
qed

end
