(* ===== verification/Cloudflare.thy ===== *)
theory Cloudflare
  imports Hosts
begin

text \<open>
  \<^verbatim>\<open>kelso/lib/routes/cloudflare.py\<close>: a route is an ingress rule of a tunnel's configuration and a CNAME record in the
  zone, whose comment says which app owns it. The locale \<open>cloudflare_service\<close> states what the code relies on in
  Cloudflare's API. Error texts are shortened to what they name.
\<close>

section \<open>An instance\<close>

record ('w, 's) cloudflare_env =
  cv_send :: "'w http"
  cv_is_float :: "string \<Rightarrow> bool"
  cv_store :: "'s store_ops"
  cv_cipher :: crypto_engine

record cloudflare =
  cl_account :: string
  cl_tunnel :: string
  cl_token :: string
  cl_domain :: string
  cl_address :: string

text \<open>What the instance looked up or was given: the zone's id.\<close>

type_synonym ('w, 's) cloudflare_session = "('w, 's, string option) session"

type_synonym ('w, 's, 'a) cloudflare_act = "(('w, 's) cloudflare_session, route_error, 'a) act"

definition LOOPBACK_ADDRESSES :: "string list" where
  "LOOPBACK_ADDRESSES = [''localhost'', ''127.0.0.1'', ''::1'', ''0.0.0.0'']"

definition CLOUDFLARE_REQUIRED :: "string list" where
  "CLOUDFLARE_REQUIRED = [''account_id'', ''tunnel_id'', ''api_token_secret'']"

definition API_BASE :: string where "API_BASE = ''https://api.cloudflare.com/client/v4''"
definition COMMENT_PREFIX :: string where "COMMENT_PREFIX = ''kelso:''"
definition CATCH_ALL :: json where "CATCH_ALL = JObj [(''service'', JStr ''http_status:404'')]"

definition cloudflare_from_config ::
    "('w, 's) cloudflare_env \<Rightarrow> string \<Rightarrow> route_provider_entry \<Rightarrow> string \<Rightarrow> 'w \<times> 's \<Rightarrow> route_error + cloudflare \<times> ('w, 's) cloudflare_session" where
  "cloudflare_from_config env tag conf address st =
     (case st of (w, db) \<Rightarrow>
       andthen (provider_args CLOUDFLARE_REQUIRED tag (rp_args conf)) (\<lambda>args.
       andthen (provider_secret (cv_store env) (cv_cipher env) db (the (map_of args ''api_token_secret''))) (\<lambda>token.
       andthen (constructor_takes [''account_id'', ''tunnel_id'', ''zone_id'', ''timeout''] (cv_is_float env) (AList.delete ''api_token_secret'' args)) (\<lambda>_.
         Inr (\<lparr>cl_account = the (map_of args ''account_id''), cl_tunnel = the (map_of args ''tunnel_id''), cl_token = token,
                cl_domain = rp_domain conf, cl_address = address\<rparr>,
              \<lparr>ss_world = w, ss_db = db, ss_memory = (case map_of args ''zone_id'' of Some (c # cs) \<Rightarrow> Some (c # cs) | _ \<Rightarrow> None)\<rparr>)))))"

section \<open>Requests\<close>

definition failure_detail :: "json \<Rightarrow> route_error + string" where
  "failure_detail body =
     andthen (dict_get ''errors'' JNull (or_empty body (JObj []))) (\<lambda>errors.
     andthen (iterated (or_empty errors (JArr []))) (\<lambda>es.
     andthen (traverse (\<lambda>e. andthen (dict_get ''code'' (JStr ''?'') e) (\<lambda>code. andthen (dict_get ''message'' (JStr []) e) (\<lambda>m.
       Inr (strip (shown code @ '': '' @ shown m))))) es) (\<lambda>parts. Inr (join ''; '' parts))))"

definition cloudflare_failure :: "cloudflare \<Rightarrow> string \<Rightarrow> string \<Rightarrow> http_response \<Rightarrow> route_error" where
  "cloudflare_failure c verb path resp =
     (case rs_json resp of
        None \<Rightarrow> ProviderFailed (''Cloudflare '' @ verb @ '' '' @ path @ '' returned '' @ str_of_int (rs_status resp) @ '': '' @ rs_reason resp)
      | Some body \<Rightarrow>
          (case failure_detail body of
             Inl e \<Rightarrow> e
           | Inr detail \<Rightarrow>
               if rs_status resp \<in> {401, 403}
               then ProviderFailed (''Cloudflare refused '' @ verb @ '' '' @ path @ '' ('' @ str_of_int (rs_status resp) @ '': '' @ detail
                 @ ''). The API token needs Account > Cloudflare Tunnel: Edit and Zone > DNS: Edit on '' @ cl_domain c)
               else ProviderFailed (''Cloudflare '' @ verb @ '' '' @ path @ '' returned '' @ str_of_int (rs_status resp) @ '': '' @ detail)))"

text \<open>The envelope of an answer: refused, unless it is no dict, where \<^verbatim>\<open>success\<close> is false.\<close>

definition cloudflare_answer :: "cloudflare \<Rightarrow> string \<Rightarrow> string \<Rightarrow> http_response \<Rightarrow> route_error + json" where
  "cloudflare_answer c verb path resp =
     (if \<not> resp_ok resp then Inl (cloudflare_failure c verb path resp)
      else andthen (resp_value (JObj []) resp) (\<lambda>body.
        case body of
          JObj ms \<Rightarrow> (if \<not> truthy (case map_of ms ''success'' of None \<Rightarrow> JBool True | Some v \<Rightarrow> v)
            then Inl (cloudflare_failure c verb path resp)
            else Inr (case map_of ms ''result'' of None \<Rightarrow> JNull | Some v \<Rightarrow> v))
        | _ \<Rightarrow> Inr body))"

definition cloudflare_request ::
    "('w, 's) cloudflare_env \<Rightarrow> cloudflare \<Rightarrow> string \<Rightarrow> string \<Rightarrow> (string, string) dict \<Rightarrow> json option \<Rightarrow> ('w, 's, json) cloudflare_act" where
  "cloudflare_request env c verb path params body =
     (if cl_token c = [] then raise (ProviderFailed ''A Cloudflare API token is required to authenticate'')
      else bindA (call (cv_send env) \<lparr>rq_method = verb, rq_url = API_BASE @ path, rq_bearer = Some (cl_token c), rq_params = params, rq_json = body\<rparr>) (\<lambda>resp.
        liftA (cloudflare_answer c verb path resp)))"

text \<open>\<^verbatim>\<open>v[0]\<close>.\<close>

definition at_0 :: "json \<Rightarrow> route_error + json" where
  "at_0 v =
     (case v of
        JArr (x # xs) \<Rightarrow> Inr x
      | JStr (ch # s) \<Rightarrow> Inr (JStr [ch])
      | _ \<Rightarrow> Inl (Unexpected ''no first item''))"

section \<open>Zone, tunnel and DNS\<close>

definition cloudflare_zone_id :: "('w, 's) cloudflare_env \<Rightarrow> cloudflare \<Rightarrow> ('w, 's, string) cloudflare_act" where
  "cloudflare_zone_id env c ss =
     (case ss_memory ss of
        Some z \<Rightarrow> (Inr z, ss)
      | None \<Rightarrow>
          bindA (cloudflare_request env c ''GET'' ''/zones'' [(''name'', cl_domain c)] None) (\<lambda>v.
          if \<not> truthy v then raise (ProviderFailed (''Cloudflare has no zone '' @ cl_domain c @ '' on this account''))
          else bindA (liftA (andthen (at_0 v) (dict_at ''id''))) (\<lambda>i.
            bindA (update (\<lambda>ss. ss\<lparr>ss_memory := Some (shown i)\<rparr>)) (\<lambda>_. ret (shown i)))) ss)"

definition configuration_path :: "cloudflare \<Rightarrow> string" where
  "configuration_path c = ''/accounts/'' @ cl_account c @ ''/cfd_tunnel/'' @ cl_tunnel c @ ''/configurations''"

definition cloudflare_config :: "('w, 's) cloudflare_env \<Rightarrow> cloudflare \<Rightarrow> ('w, 's, json) cloudflare_act" where
  "cloudflare_config env c =
     bindA (cloudflare_request env c ''GET'' (configuration_path c) [] None) (\<lambda>v.
       liftA (andthen (dict_get ''config'' JNull (or_empty v (JObj []))) (\<lambda>g. Inr (or_empty g (JObj [])))))"

definition cloudflare_put_config :: "('w, 's) cloudflare_env \<Rightarrow> cloudflare \<Rightarrow> json \<Rightarrow> ('w, 's, unit) cloudflare_act" where
  "cloudflare_put_config env c config =
     bindA (cloudflare_request env c ''PUT'' (configuration_path c) [] (Some (JObj [(''config'', config)]))) (\<lambda>_. ret ())"

text \<open>The rules that have a hostname; the catch-all, which has none, is put back on a write.\<close>

definition rule_host :: "json \<Rightarrow> route_error + json" where
  "rule_host rule = dict_get ''hostname'' JNull rule"

fun having :: "('a \<Rightarrow> 'e + bool) \<Rightarrow> 'a list \<Rightarrow> 'e + 'a list" where
  "having test [] = Inr []"
| "having test (v # vs) = andthen (test v) (\<lambda>b. andthen (having test vs) (\<lambda>r. Inr (if b then v # r else r)))"

definition cloudflare_rules :: "json \<Rightarrow> route_error + json list" where
  "cloudflare_rules config =
     andthen (dict_get ''ingress'' JNull config) (\<lambda>i. andthen (iterated (or_empty i (JArr []))) (\<lambda>rules.
       having (\<lambda>rule. andthen (rule_host rule) (\<lambda>h. Inr (truthy h))) rules))"

definition with_ingress :: "json \<Rightarrow> json list \<Rightarrow> route_error + json" where
  "with_ingress config rules =
     (case config of
        JObj ms \<Rightarrow> Inr (JObj (AList.update ''ingress'' (JArr (rules @ [CATCH_ALL])) ms))
      | _ \<Rightarrow> Inl (Unexpected ''TypeError''))"

definition cloudflare_write_rules :: "('w, 's) cloudflare_env \<Rightarrow> cloudflare \<Rightarrow> json \<Rightarrow> json list \<Rightarrow> ('w, 's, unit) cloudflare_act" where
  "cloudflare_write_rules env c config rules =
     bindA (liftA (with_ingress config rules)) (cloudflare_put_config env c)"

definition other_rules :: "string \<Rightarrow> json list \<Rightarrow> route_error + json list" where
  "other_rules hostname = having (\<lambda>rule. andthen (rule_host rule) (\<lambda>h. Inr (h \<noteq> JStr hostname)))"

definition cloudflare_dns_record :: "('w, 's) cloudflare_env \<Rightarrow> cloudflare \<Rightarrow> string \<Rightarrow> ('w, 's, json option) cloudflare_act" where
  "cloudflare_dns_record env c hostname =
     bindA (cloudflare_zone_id env c) (\<lambda>zone.
     bindA (cloudflare_request env c ''GET'' (''/zones/'' @ zone @ ''/dns_records'') [(''name'', hostname)] None) (\<lambda>v.
       if truthy v then liftA (andthen (at_0 v) (\<lambda>r. Inr (Some r))) else ret None))"

definition commented_owner :: "string \<Rightarrow> string option" where
  "commented_owner comment = (if starts_with comment COMMENT_PREFIX then Some (remove_prefix comment COMMENT_PREFIX) else None)"

definition dns_owner :: "json \<Rightarrow> route_error + string option" where
  "dns_owner r =
     andthen (dict_get ''comment'' JNull r) (\<lambda>v. andthen (text_value (or_empty v (JStr []))) (\<lambda>comment. Inr (commented_owner comment)))"

definition dns_payload :: "cloudflare \<Rightarrow> string \<Rightarrow> string \<Rightarrow> json" where
  "dns_payload c app hostname =
     JObj [(''type'', JStr ''CNAME''), (''name'', JStr hostname), (''content'', JStr (cl_tunnel c @ ''.cfargotunnel.com'')),
       (''proxied'', JBool True), (''comment'', JStr (COMMENT_PREFIX @ app))]"

definition cloudflare_upsert_dns ::
    "('w, 's) cloudflare_env \<Rightarrow> cloudflare \<Rightarrow> string \<Rightarrow> string \<Rightarrow> json option \<Rightarrow> ('w, 's, unit) cloudflare_act" where
  "cloudflare_upsert_dns env c app hostname existing =
     bindA (cloudflare_zone_id env c) (\<lambda>zone.
     let new = bindA (cloudflare_request env c ''POST'' (''/zones/'' @ zone @ ''/dns_records'') [] (Some (dns_payload c app hostname))) (\<lambda>_. ret ())
     in case existing of
          None \<Rightarrow> new
        | Some r \<Rightarrow> if \<not> truthy r then new
            else bindA (liftA (dict_at ''id'' r)) (\<lambda>i.
              bindA (cloudflare_request env c ''PUT'' (''/zones/'' @ zone @ ''/dns_records/'' @ shown i) [] (Some (dns_payload c app hostname))) (\<lambda>_. ret ())))"

section \<open>The provider's operations\<close>

definition cloudflare_register ::
    "('w, 's) cloudflare_env \<Rightarrow> string \<Rightarrow> int \<Rightarrow> string \<Rightarrow> string \<Rightarrow> string \<Rightarrow> cloudflare \<Rightarrow> ('w, 's, unit) cloudflare_act" where
  "cloudflare_register env app port sub domain sch c =
     (let hostname = full_name sub domain
      in bindA (cloudflare_dns_record env c hostname) (\<lambda>existing.
         bindA (case existing of
             None \<Rightarrow> ret ()
           | Some r \<Rightarrow> bindA (liftA (dns_owner r)) (\<lambda>owner. if owner \<noteq> Some app then raise (ForeignRoute hostname owner) else ret ())) (\<lambda>_.
         bindA (cloudflare_config env c) (\<lambda>config.
         bindA (liftA (andthen (cloudflare_rules config) (other_rules hostname))) (\<lambda>rules.
         bindA (cloudflare_write_rules env c config (rules @ [JObj [(''hostname'', JStr hostname),
             (''service'', JStr (sch @ ''://'' @ cl_address c @ '':'' @ str_of_int port))]])) (\<lambda>_.
           cloudflare_upsert_dns env c app hostname existing))))))"

definition cloudflare_unregister :: "('w, 's) cloudflare_env \<Rightarrow> string \<Rightarrow> string \<Rightarrow> cloudflare \<Rightarrow> ('w, 's, unit) cloudflare_act" where
  "cloudflare_unregister env sub domain c =
     (let hostname = full_name sub domain
      in bindA (cloudflare_config env c) (\<lambda>config.
         bindA (liftA (cloudflare_rules config)) (\<lambda>rules.
         bindA (liftA (other_rules hostname rules)) (\<lambda>remaining.
         bindA (whenA (length remaining \<noteq> length rules) (cloudflare_write_rules env c config remaining)) (\<lambda>_.
         bindA (cloudflare_dns_record env c hostname) (\<lambda>existing.
           case existing of
             None \<Rightarrow> ret ()
           | Some r \<Rightarrow> bindA (liftA (dns_owner r)) (\<lambda>owner.
               if owner = None then ret ()
               else bindA (cloudflare_zone_id env c) (\<lambda>zone. bindA (liftA (dict_at ''id'' r)) (\<lambda>i.
                 bindA (cloudflare_request env c ''DELETE'' (''/zones/'' @ zone @ ''/dns_records/'' @ shown i) [] None) (\<lambda>_. ret ()))))))))))"

definition kelso_rule :: "cloudflare \<Rightarrow> json \<Rightarrow> route_error + (string \<times> json) list" where
  "kelso_rule c rule =
     andthen (rule_host rule) (\<lambda>h. andthen (text_value (or_empty h (JStr []))) (\<lambda>hostname.
       Inr (case label_under (cl_domain c) hostname of None \<Rightarrow> [] | Some sub \<Rightarrow> [(sub, rule)])))"

definition cloudflare_kelso_rules :: "('w, 's) cloudflare_env \<Rightarrow> cloudflare \<Rightarrow> ('w, 's, (string \<times> json) list) cloudflare_act" where
  "cloudflare_kelso_rules env c =
     bindA (cloudflare_config env c) (\<lambda>config.
       liftA (andthen (cloudflare_rules config) (\<lambda>rules. andthen (traverse (kelso_rule c) rules) (\<lambda>found. Inr (concat found)))))"

definition cloudflare_list_routes :: "('w, 's) cloudflare_env \<Rightarrow> cloudflare \<Rightarrow> ('w, 's, (string \<times> string) list) cloudflare_act" where
  "cloudflare_list_routes env c =
     bindA (cloudflare_kelso_rules env c) (\<lambda>found. liftA (traverse (\<lambda>(sub, rule).
       andthen (dict_get ''service'' JNull rule) (\<lambda>s. Inr (sub, shown (or_empty s (JStr ''(no service)''))))) found))"

fun cloudflare_owners_of :: "('w, 's) cloudflare_env \<Rightarrow> cloudflare \<Rightarrow> string list \<Rightarrow> ('w, 's, (string \<times> string option) list) cloudflare_act" where
  "cloudflare_owners_of env c [] = ret []"
| "cloudflare_owners_of env c (sub # subs) =
     bindA (cloudflare_dns_record env c (sub @ ''.'' @ cl_domain c)) (\<lambda>existing.
     bindA (case existing of Some r \<Rightarrow> if truthy r then liftA (dns_owner r) else ret None | None \<Rightarrow> ret None) (\<lambda>owner.
     bindA (cloudflare_owners_of env c subs) (\<lambda>rest. ret ((sub, owner) # rest))))"

definition cloudflare_route_owners :: "('w, 's) cloudflare_env \<Rightarrow> cloudflare \<Rightarrow> ('w, 's, (string, string option) dict) cloudflare_act" where
  "cloudflare_route_owners env c =
     bindA (cloudflare_kelso_rules env c) (\<lambda>found.
     bindA (cloudflare_owners_of env c (List.map fst found)) (\<lambda>owners. ret (dict_merge [] owners)))"

datatype cloudflare_problem =
    CloudflareSays route_error
  | TunnelDeleted string
  | TunnelNotConnected string string
  | TunnelLocallyManaged string
  | TunnelUnusable string route_error
  | AddressUnset
  | AddressLoopback string

definition tunnel_problems :: "cloudflare \<Rightarrow> json \<Rightarrow> route_error + cloudflare_problem list" where
  "tunnel_problems c v =
     (let tunnel = or_empty v (JObj [])
      in andthen (dict_get ''status'' JNull tunnel) (\<lambda>s.
         let status = str_lower (shown (or_empty s (JStr [])))
         in andthen (dict_get ''deleted_at'' JNull tunnel) (\<lambda>deleted.
            andthen (dict_get ''connections'' JNull tunnel) (\<lambda>connections.
            andthen (dict_get ''remote_config'' JNull tunnel) (\<lambda>remote.
              Inr ((if truthy deleted then [TunnelDeleted (cl_tunnel c)]
                    else if status \<in> {''down'', ''inactive''} \<or> (status = [] \<and> \<not> truthy connections)
                    then [TunnelNotConnected (cl_tunnel c) (if status = [] then ''not connected'' else status)] else [])
                   @ (if remote = JBool False then [TunnelLocallyManaged (cl_tunnel c)] else [])))))))"

definition address_problems :: "cloudflare \<Rightarrow> cloudflare_problem list" where
  "address_problems c =
     (if cl_address c = [] then [AddressUnset]
      else if cl_address c \<in> set LOOPBACK_ADDRESSES then [AddressLoopback (cl_address c)] else [])"

definition cloudflare_validate :: "('w, 's) cloudflare_env \<Rightarrow> cloudflare \<Rightarrow> ('w, 's, cloudflare_problem list) cloudflare_act" where
  "cloudflare_validate env c =
     bindA (attempt (cloudflare_request env c ''GET'' ''/user/tokens/verify'' [] None)) (\<lambda>r.
       case r of
         Inl e \<Rightarrow> ret [CloudflareSays e]
       | Inr u \<Rightarrow>
           bindA (attempt (cloudflare_zone_id env c)) (\<lambda>zone.
           bindA (attempt (bindA (cloudflare_request env c ''GET'' (''/accounts/'' @ cl_account c @ ''/cfd_tunnel/'' @ cl_tunnel c) [] None) (\<lambda>v.
               liftA (tunnel_problems c v)))) (\<lambda>tunnel.
             ret ((case zone of Inl e \<Rightarrow> [CloudflareSays e] | Inr z \<Rightarrow> [])
               @ (case tunnel of Inl e \<Rightarrow> [TunnelUnusable (cl_tunnel c) e] | Inr ps \<Rightarrow> ps)
               @ address_problems c))))"

definition cloudflare_with ::
    "('w, 's) cloudflare_env \<Rightarrow> string \<Rightarrow> route_provider_entry \<Rightarrow> string \<Rightarrow> (cloudflare \<Rightarrow> ('w, 's, 'a) cloudflare_act)
       \<Rightarrow> ('w \<times> 's, route_error, 'a) act" where
  "cloudflare_with env tag conf address f st =
     (case cloudflare_from_config env tag conf address st of
        Inl e \<Rightarrow> (Inl e, st)
      | Inr (c, ss) \<Rightarrow> (case f c ss of (r, ss') \<Rightarrow> (r, (ss_world ss', ss_db ss'))))"

definition cloudflare_ops :: "('w, 's) cloudflare_env \<Rightarrow> string \<Rightarrow> route_provider_entry \<Rightarrow> string \<Rightarrow> ('w \<times> 's) provider_ops" where
  "cloudflare_ops env tag conf address =
     \<lparr>po_get = (\<lambda>t st. if t \<noteq> tag then Inl (NoProvider t)
        else andthen (cloudflare_from_config env tag conf address st) (\<lambda>_. Inr ())),
      po_owners = (\<lambda>t. if t \<noteq> tag then raise (NoProvider t) else cloudflare_with env tag conf address (cloudflare_route_owners env)),
      po_register = (\<lambda>t app port sub domain sch. if t \<noteq> tag then raise (NoProvider t)
        else cloudflare_with env tag conf address (cloudflare_register env app port sub domain sch)),
      po_unregister = (\<lambda>t sub domain. if t \<noteq> tag then raise (NoProvider t)
        else cloudflare_with env tag conf address (cloudflare_unregister env sub domain))\<rparr>"

section \<open>What Cloudflare promises\<close>

text \<open>A DNS record as its API lists it, as far as kelso reads it.\<close>

record dns_entry =
  dn_id :: string
  dn_name :: string
  dn_app :: "string option"

definition dns_of :: "json \<Rightarrow> dns_entry option" where
  "dns_of v =
     (case v of
        JObj ms \<Rightarrow>
          (case (map_of ms ''id'', map_of ms ''name'', dns_owner v) of
             (Some (JStr i), Some (JStr n), Inr app) \<Rightarrow> Some \<lparr>dn_id = i, dn_name = n, dn_app = app\<rparr>
           | _ \<Rightarrow> None)
      | _ \<Rightarrow> None)"

text \<open>A tunnel's configuration: rules with a hostname, and rules without.\<close>

definition hosted :: "json \<Rightarrow> bool" where
  "hosted rule \<longleftrightarrow> (\<exists>h. h \<noteq> [] \<and> rule_host rule = Inr (JStr h))"

definition tunnel_ok :: "json \<Rightarrow> bool" where
  "tunnel_ok g \<longleftrightarrow> (\<exists>ms. g = JObj ms \<and>
     (\<exists>rules. map_of ms ''ingress'' \<in> {None, Some JNull, Some (JArr rules)} \<and>
        (\<forall>rule \<in> set rules. hosted rule \<or> rule_host rule \<in> {Inr JNull, Inr (JStr [])})))"

definition rules_of :: "json \<Rightarrow> json list" where
  "rules_of g = (case cloudflare_rules g of Inl e \<Rightarrow> [] | Inr rules \<Rightarrow> rules)"

definition rules_not_for :: "string \<Rightarrow> json \<Rightarrow> json list" where
  "rules_not_for h g = List.filter (\<lambda>rule. rule_host rule \<noteq> Inr (JStr h)) (rules_of g)"

definition settings_of :: "json \<Rightarrow> string \<Rightarrow> json option" where
  "settings_of g k = (case g of JObj ms \<Rightarrow> if k = ''ingress'' then None else map_of ms k | _ \<Rightarrow> None)"

definition configuration_url :: "route_provider_entry \<Rightarrow> string" where
  "configuration_url conf = API_BASE @ ''/accounts/'' @ the (map_of (rp_args conf) ''account_id'') @ ''/cfd_tunnel/''
     @ the (map_of (rp_args conf) ''tunnel_id'') @ ''/configurations''"

definition records_url :: "string \<Rightarrow> string" where
  "records_url zone = API_BASE @ ''/zones/'' @ zone @ ''/dns_records''"

definition body_entry :: "json option \<Rightarrow> string \<Rightarrow> dns_entry option" where
  "body_entry body i =
     (case body of
        Some (JObj ms) \<Rightarrow>
          (case (map_of ms ''name'', map_of ms ''comment'') of
             (Some (JStr n), Some (JStr comment)) \<Rightarrow> Some \<lparr>dn_id = i, dn_name = n, dn_app = commented_owner comment\<rparr>
           | _ \<Rightarrow> None)
      | _ \<Rightarrow> None)"

text \<open>What a request that is carried out makes of the configuration and the records.\<close>

definition cloudflare_change :: "string \<Rightarrow> string \<Rightarrow> http_request \<Rightarrow> json \<times> dns_entry list \<Rightarrow> json \<times> dns_entry list \<Rightarrow> bool" where
  "cloudflare_change url zone rq st st' \<longleftrightarrow>
     (rq_method rq = ''PUT'' \<and> rq_url rq = url \<and> rq_json rq = Some (JObj [(''config'', fst st')]) \<and> snd st' = snd st) \<or>
     (rq_method rq = ''POST'' \<and> rq_url rq = records_url zone \<and> fst st' = fst st \<and>
        (\<exists>i d. i \<notin> set (List.map dn_id (snd st)) \<and> body_entry (rq_json rq) i = Some d \<and> snd st' = snd st @ [d])) \<or>
     (rq_method rq = ''PUT'' \<and> fst st' = fst st \<and>
        (\<exists>i d. rq_url rq = records_url zone @ ''/'' @ i \<and> i \<in> set (List.map dn_id (snd st)) \<and> body_entry (rq_json rq) i = Some d \<and>
           snd st' = List.map (\<lambda>x. if dn_id x = i then d else x) (snd st))) \<or>
     (rq_method rq = ''DELETE'' \<and> fst st' = fst st \<and>
        (\<exists>i. rq_url rq = records_url zone @ ''/'' @ i \<and> snd st' = List.filter (\<lambda>x. dn_id x \<noteq> i) (snd st)))"

text \<open>
  Cloudflare's API: a request changes the configuration and the records as it says or, where it fails or is of another
  kind, not at all; one that fails on the way may have been carried out. A list asked for by name holds the records of
  that name.
\<close>

locale cloudflare_service =
  fixes env :: "('w, 's) cloudflare_env"
    and conf :: route_provider_entry
    and zone :: string
    and tun :: "'w \<Rightarrow> json"
    and dns :: "'w \<Rightarrow> dns_entry list"
  assumes sends: "cv_send env rq w = (r, w') \<Longrightarrow> (tun w', dns w') = (tun w, dns w) \<or>
      cloudflare_change (configuration_url conf) zone rq (tun w, dns w) (tun w', dns w')"
    and carries_out: "cv_send env rq w = (Inr resp, w') \<Longrightarrow> cloudflare_answer c verb path resp = Inr v \<Longrightarrow> rq_method rq \<noteq> ''GET'' \<Longrightarrow>
      rq_url rq = configuration_url conf \<or> rq_url rq = records_url zone \<or> starts_with (rq_url rq) (records_url zone @ ''/'') \<Longrightarrow>
      cloudflare_change (configuration_url conf) zone rq (tun w, dns w) (tun w', dns w')"
    and configures: "cv_send env rq w = (Inr resp, w') \<Longrightarrow> cloudflare_answer c verb path resp = Inr v \<Longrightarrow> rq_method rq = ''GET'' \<Longrightarrow>
      rq_url rq = configuration_url conf \<Longrightarrow> dict_get ''config'' JNull v = Inr (tun w)"
    and lists: "cv_send env rq w = (Inr resp, w') \<Longrightarrow> cloudflare_answer c verb path resp = Inr v \<Longrightarrow> rq_method rq = ''GET'' \<Longrightarrow>
      rq_url rq = records_url zone \<Longrightarrow> rq_params rq = [(''name'', h)] \<Longrightarrow>
      \<exists>l. v = JArr l \<and> List.map dns_of l = List.map Some (List.filter (\<lambda>d. dn_name d = h) (dns w))"
    and zones: "cv_send env rq w = (Inr resp, w') \<Longrightarrow> cloudflare_answer c verb path resp = Inr v \<Longrightarrow> rq_method rq = ''GET'' \<Longrightarrow>
      rq_url rq = API_BASE @ ''/zones'' \<Longrightarrow> rq_params rq = [(''name'', rp_domain conf)] \<Longrightarrow> truthy v \<Longrightarrow>
      andthen (at_0 v) (dict_at ''id'') = Inr (JStr zone)"
    and given_zone: "map_of (rp_args conf) ''zone_id'' \<in> {None, Some [], Some zone}"

section \<open>Rules of a configuration\<close>

lemma having_filter: "(\<And>v. v \<in> set vs \<Longrightarrow> test v = Inr (P v)) \<Longrightarrow> having test vs = Inr (List.filter P vs)"
  by (induction vs) auto

lemma hosted_truthy: "hosted rule \<Longrightarrow> andthen (rule_host rule) (\<lambda>h. Inr (truthy h)) = (Inr True :: route_error + bool)"
  by (auto simp: hosted_def truthy_def)

lemma tunnel_rules:
  assumes "tunnel_ok g"
  shows "cloudflare_rules g = Inr (rules_of g)" and "\<forall>rule \<in> set (rules_of g). hosted rule"
proof -
  from assms obtain ms rules where g: "g = JObj ms" "map_of ms ''ingress'' \<in> {None, Some JNull, Some (JArr rules)}"
    "\<forall>rule \<in> set rules. hosted rule \<or> rule_host rule \<in> {Inr JNull, Inr (JStr [])}"
    unfolding tunnel_ok_def by blast
  have read: "andthen (rule_host rule) (\<lambda>h. Inr (truthy h)) = (Inr (hosted rule) :: route_error + bool)" if "rule \<in> set rules" for rule
  proof (cases "hosted rule")
    case True
    then show ?thesis by (simp add: hosted_truthy)
  next
    case False
    with g(3) that show ?thesis by (auto simp: truthy_def)
  qed
  have all: "having (\<lambda>rule. andthen (rule_host rule) (\<lambda>h. Inr (truthy h))) rules = Inr (List.filter hosted rules)"
    by (rule having_filter) (rule read)
  have "\<exists>l. cloudflare_rules g = Inr l \<and> (\<forall>rule \<in> set l. hosted rule)"
  proof (cases "map_of ms ''ingress'' = Some (JArr rules) \<and> rules \<noteq> []")
    case True
    with g all show ?thesis by (simp add: cloudflare_rules_def dict_get_def or_empty_def truthy_def)
  next
    case False
    with g(1,2) show ?thesis by (auto simp: cloudflare_rules_def dict_get_def or_empty_def truthy_def split: option.splits)
  qed
  then show "cloudflare_rules g = Inr (rules_of g)" "\<forall>rule \<in> set (rules_of g). hosted rule"
    by (auto simp: rules_of_def)
qed

lemma other_rules_filter:
  assumes "\<forall>rule \<in> set rules. hosted rule"
  shows "other_rules h rules = Inr (List.filter (\<lambda>rule. rule_host rule \<noteq> Inr (JStr h)) rules)"
  unfolding other_rules_def by (rule having_filter) (use assms in \<open>auto simp: hosted_def\<close>)

lemma ingress_written:
  assumes "tunnel_ok g" and "\<forall>rule \<in> set rules. hosted rule"
  obtains g' where "with_ingress g rules = Inr g'" "tunnel_ok g'" "rules_of g' = rules" "settings_of g' = settings_of g"
proof -
  from assms(1) obtain ms where g: "g = JObj ms" unfolding tunnel_ok_def by blast
  let ?g' = "JObj (AList.update ''ingress'' (JArr (rules @ [CATCH_ALL])) ms)"
  have last: "rule_host CATCH_ALL = Inr JNull" by (simp add: rule_host_def CATCH_ALL_def dict_get_def)
  have ok: "tunnel_ok ?g'" unfolding tunnel_ok_def
    by (rule exI, rule conjI, rule refl, rule exI [of _ "rules @ [CATCH_ALL]"]) (use assms(2) last in auto)
  have hosts: "having (\<lambda>rule. andthen (rule_host rule) (\<lambda>h. Inr (truthy h))) (rules @ [CATCH_ALL]) =
      (Inr (List.filter hosted (rules @ [CATCH_ALL])) :: route_error + json list)"
  proof (rule having_filter)
    fix rule assume "rule \<in> set (rules @ [CATCH_ALL])"
    with assms(2) have "hosted rule \<or> rule = CATCH_ALL" by auto
    then show "andthen (rule_host rule) (\<lambda>h. Inr (truthy h)) = (Inr (hosted rule) :: route_error + bool)"
    proof
      assume "rule = CATCH_ALL"
      then show ?thesis using last by (simp add: hosted_def truthy_def)
    qed (simp add: hosted_truthy)
  qed
  have "rules_of ?g' = List.filter hosted (rules @ [CATCH_ALL])"
    using hosts by (simp add: rules_of_def cloudflare_rules_def dict_get_def or_empty_def truthy_def)
  moreover have "List.filter hosted (rules @ [CATCH_ALL]) = rules"
    using assms(2) last by (auto simp: hosted_def)
  moreover have "settings_of ?g' = settings_of g" by (rule ext) (simp add: settings_of_def g)
  ultimately show ?thesis using that [of ?g'] ok by (simp add: with_ingress_def g)
qed

section \<open>The steps under the promise\<close>

definition record_at :: "dns_entry list \<Rightarrow> string \<Rightarrow> dns_entry option" where
  "record_at ds h = List.find (\<lambda>d. dn_name d = h) ds"

lemma url_parts:
  "configuration_url conf \<noteq> records_url zone" "configuration_url conf \<noteq> records_url zone @ ''/'' @ i" "records_url zone \<noteq> records_url zone @ ''/'' @ i"
  by (simp_all add: configuration_url_def records_url_def)

lemma commented_owner_kelso: "commented_owner (COMMENT_PREFIX @ app) = Some app"
  by (simp add: commented_owner_def)

lemma dns_of_reads:
  assumes "dns_of v = Some d"
  shows "dns_owner v = Inr (dn_app d)" and "dict_at ''id'' v = Inr (JStr (dn_id d))" and "truthy v"
  using assms by (auto simp: dns_of_def dict_at_def truthy_def split: json.splits option.splits sum.splits)

lemma first_listed:
  assumes "List.map dns_of l = List.map Some (List.filter (\<lambda>d. dn_name d = h) ds)"
  shows "case record_at ds h of None \<Rightarrow> l = [] | Some d \<Rightarrow> \<exists>v rest. l = v # rest \<and> dns_of v = Some d"
proof (cases l)
  case Nil
  with assms have "\<forall>d \<in> set ds. dn_name d \<noteq> h" by (auto simp: filter_empty_conv)
  then have "record_at ds h = None" by (auto simp: record_at_def find_None_iff)
  with Nil show ?thesis by simp
next
  case (Cons v rest)
  with assms obtain d ds' where first: "List.filter (\<lambda>d. dn_name d = h) ds = d # ds'" "dns_of v = Some d"
    by (cases "List.filter (\<lambda>d. dn_name d = h) ds") auto
  have "record_at ds h = Some d" using first(1) unfolding record_at_def
    by (induction ds) (auto split: if_splits)
  with Cons first(2) show ?thesis by simp
qed

context cloudflare_service
begin

definition built :: "cloudflare \<Rightarrow> bool" where
  "built c \<longleftrightarrow> API_BASE @ configuration_path c = configuration_url conf \<and> cl_domain c = rp_domain conf"

definition mem_ok :: "('w, 's) cloudflare_session \<Rightarrow> bool" where
  "mem_ok ss \<longleftrightarrow> ss_memory ss \<in> {None, Some zone}"

definition same :: "('w, 's) cloudflare_session \<Rightarrow> ('w, 's) cloudflare_session \<Rightarrow> bool" where
  "same ss ss' \<longleftrightarrow> tun (ss_world ss') = tun (ss_world ss) \<and> dns (ss_world ss') = dns (ss_world ss) \<and> ss_db ss' = ss_db ss"

lemma request_E:
  assumes "cloudflare_request env c verb path params body ss = (r, ss')"
  obtains (refused) "isl r" "ss' = ss"
    | (failed) rq e w where "rq_method rq = verb" "rq_url rq = API_BASE @ path" "rq_json rq = body"
        "cv_send env rq (ss_world ss) = (Inl e, w)" "isl r" "ss' = ss\<lparr>ss_world := w\<rparr>"
    | (answered) rq resp w where "rq_method rq = verb" "rq_url rq = API_BASE @ path" "rq_json rq = body" "rq_params rq = params"
        "cv_send env rq (ss_world ss) = (Inr resp, w)" "r = cloudflare_answer c verb path resp" "ss' = ss\<lparr>ss_world := w\<rparr>"
proof (cases "cl_token c = []")
  case True
  with assms that(1) show ?thesis by (auto simp: cloudflare_request_def)
next
  case False
  let ?rq = "\<lparr>rq_method = verb, rq_url = API_BASE @ path, rq_bearer = Some (cl_token c), rq_params = params, rq_json = body\<rparr>"
  obtain r1 ss1 where c: "call (cv_send env) ?rq ss = (r1, ss1)" by (cases "call (cv_send env) ?rq ss")
  have r: "r = (case r1 of Inl e \<Rightarrow> Inl e | Inr resp \<Rightarrow> cloudflare_answer c verb path resp)" "ss' = ss1"
    using False assms by (auto simp: cloudflare_request_def bindA_def c liftA_def split: sum.splits)
  from c show ?thesis
  proof (cases rule: call_E)
    case (failed e w)
    with that(2) [of ?rq] r show ?thesis by simp
  next
    case (answered resp w)
    with that(3) [of ?rq] r show ?thesis by simp
  qed
qed

lemma request_kept: "cloudflare_request env c verb path params body ss = (r, ss') \<Longrightarrow> ss_db ss' = ss_db ss \<and> ss_memory ss' = ss_memory ss"
  by (erule request_E) auto

lemma request_changes:
  assumes "cloudflare_request env c verb path params body ss = (r, ss')"
  obtains (same) "same ss ss'"
    | (changed) rq where "rq_method rq = verb" "rq_url rq = API_BASE @ path" "rq_json rq = body"
        "cloudflare_change (configuration_url conf) zone rq (tun (ss_world ss), dns (ss_world ss)) (tun (ss_world ss'), dns (ss_world ss'))"
  using assms
proof (cases rule: request_E)
  case refused
  with that(1) show ?thesis by (simp add: same_def)
next
  case (failed rq e w)
  with sends [OF failed(4)] that show ?thesis by (fastforce simp: same_def)
next
  case (answered rq resp w)
  with sends [OF answered(5)] that show ?thesis by (fastforce simp: same_def)
qed

lemma get_same:
  assumes "cloudflare_request env c ''GET'' path params body ss = (r, ss')"
  shows "same ss ss'" and "ss_memory ss' = ss_memory ss"
proof -
  show "ss_memory ss' = ss_memory ss" using request_kept [OF assms] by simp
  from assms show "same ss ss'"
    by (cases rule: request_changes) (auto simp: cloudflare_change_def)
qed

lemma same_refl: "same ss ss" and same_trans: "same a b \<Longrightarrow> same b d \<Longrightarrow> same a d"
  by (auto simp: same_def)

lemma zone_known:
  assumes "cloudflare_zone_id env c ss = (r, ss')" and "built c" and "mem_ok ss"
  shows "same ss ss'" and "mem_ok ss'" and "r = Inr z \<Longrightarrow> z = zone"
proof -
  have "same ss ss' \<and> mem_ok ss' \<and> (\<forall>z. r = Inr z \<longrightarrow> z = zone)"
  proof (cases "ss_memory ss")
    case (Some y)
    with assms show ?thesis by (auto simp: cloudflare_zone_id_def mem_ok_def same_refl)
  next
    case None
    obtain r1 ss1 where g: "cloudflare_request env c ''GET'' ''/zones'' [(''name'', cl_domain c)] None ss = (r1, ss1)" by (metis prod.exhaust)
    from g have s1: "same ss ss1" "mem_ok ss1" using get_same [OF g] assms(3) by (simp_all add: mem_ok_def)
    show ?thesis
    proof (cases "\<exists>v. r1 = Inr v \<and> truthy v")
      case False
      with assms(1) None g s1 show ?thesis
        by (auto simp: cloudflare_zone_id_def bindA_def split: sum.splits if_splits)
    next
      case True
      then obtain v where v: "r1 = Inr v" "truthy v" by blast
      from g have "andthen (at_0 v) (dict_at ''id'') = Inr (JStr zone)"
        by (cases rule: request_E) (use v assms(2) in \<open>auto simp: built_def dest!: zones\<close>)
      with assms(1) None g v s1 show ?thesis
        by (auto simp: cloudflare_zone_id_def bindA_def liftA_def mem_ok_def same_def)
    qed
  qed
  then show "same ss ss'" "mem_ok ss'" "r = Inr z \<Longrightarrow> z = zone" by blast+
qed

lemma config_read:
  assumes "cloudflare_config env c ss = (r, ss')" and "built c" and "tunnel_ok (tun (ss_world ss))"
  shows "same ss ss'" and "ss_memory ss' = ss_memory ss" and "r = Inr g \<Longrightarrow> g = tun (ss_world ss)"
proof -
  obtain r1 ss1 where q: "cloudflare_request env c ''GET'' (configuration_path c) [] None ss = (r1, ss1)" by (metis prod.exhaust)
  have ss': "ss' = ss1" using assms(1) q by (auto simp: cloudflare_config_def bindA_def liftA_def split: sum.splits)
  with get_same [OF q] show "same ss ss'" "ss_memory ss' = ss_memory ss" by simp_all
  assume r: "r = Inr g"
  from assms(1) q r obtain v where v: "r1 = Inr v" by (cases r1) (auto simp: cloudflare_config_def bindA_def)
  from q have "dict_get ''config'' JNull v = Inr (tun (ss_world ss))"
    by (cases rule: request_E) (use v assms(2) in \<open>auto simp: built_def dest!: configures\<close>)
  moreover from assms(3) obtain ms where "tun (ss_world ss) = JObj ms" unfolding tunnel_ok_def by blast
  ultimately show "g = tun (ss_world ss)" using assms(1) q r v
    by (cases v) (auto simp: cloudflare_config_def bindA_def liftA_def or_empty_def truthy_def dict_get_def split: option.splits if_splits)
qed

lemma record_read:
  assumes "cloudflare_dns_record env c h ss = (r, ss')" and "built c" and "mem_ok ss"
  shows "same ss ss'" and "mem_ok ss'" and "r = Inr x \<Longrightarrow> (case record_at (dns (ss_world ss)) h of None \<Rightarrow> x = None
    | Some d \<Rightarrow> \<exists>v. x = Some v \<and> dns_of v = Some d)"
proof -
  have "same ss ss' \<and> mem_ok ss' \<and> (\<forall>x. r = Inr x \<longrightarrow> (case record_at (dns (ss_world ss)) h of None \<Rightarrow> x = None
    | Some d \<Rightarrow> \<exists>v. x = Some v \<and> dns_of v = Some d))"
    using assms(1) unfolding cloudflare_dns_record_def
  proof (cases rule: bindA_E)
    case (raised e)
    with zone_known [OF raised(1) assms(2,3)] show ?thesis by simp
  next
    case (went_on z ss1)
    note z = zone_known [OF went_on(1) assms(2,3)]
    from went_on(2) show ?thesis
    proof (cases rule: bindA_E)
      case (raised e)
      with get_same [OF raised(1)] z show ?thesis by (auto simp: mem_ok_def intro: same_trans)
    next
      case (went_on v ss2)
      from get_same [OF went_on(1)] z have s: "same ss ss2" "mem_ok ss2" by (auto simp: mem_ok_def intro: same_trans)
      from z(3) have "z = zone" by simp
      from went_on(1) have "\<exists>l. v = JArr l \<and> List.map dns_of l = List.map Some (List.filter (\<lambda>d. dn_name d = h) (dns (ss_world ss1)))"
      proof (cases rule: request_E)
        case (answered rq resp w)
        with lists [OF answered(5) answered(6) [symmetric] answered(1)] \<open>z = zone\<close> show ?thesis by (simp add: records_url_def)
      qed simp_all
      then obtain l where l: "v = JArr l" "List.map dns_of l = List.map Some (List.filter (\<lambda>d. dn_name d = h) (dns (ss_world ss)))"
        using z(1) by (auto simp: same_def)
      from went_on(2) l(1) have "ss' = ss2" "\<forall>x. r = Inr x \<longrightarrow> (case l of [] \<Rightarrow> x = None | y # ys \<Rightarrow> x = Some y)"
        by (auto simp: liftA_def at_0_def truthy_def split: list.splits if_splits)
      with first_listed [OF l(2)] s show ?thesis by (auto split: option.splits)
    qed
  qed
  then show "same ss ss'" "mem_ok ss'" "r = Inr x \<Longrightarrow> (case record_at (dns (ss_world ss)) h of None \<Rightarrow> x = None
    | Some d \<Rightarrow> \<exists>v. x = Some v \<and> dns_of v = Some d)" by blast+
qed

end

definition app_rule :: "string \<Rightarrow> string \<Rightarrow> json" where
  "app_rule h service = JObj [(''hostname'', JStr h), (''service'', JStr service)]"

lemma app_rule_hosted: "h \<noteq> [] \<Longrightarrow> hosted (app_rule h service)" "rule_host (app_rule h service) = Inr (JStr h)"
  by (simp_all add: hosted_def rule_host_def app_rule_def dict_get_def)

text \<open>\<open>g\<close> became \<open>g'\<close>, or was left as it was where the step failed; its settings and the rules of other names stay.\<close>

definition rules_set :: "string \<Rightarrow> json list \<Rightarrow> bool \<Rightarrow> json \<Rightarrow> json \<Rightarrow> bool" where
  "rules_set h mine failed g g' \<longleftrightarrow>
     tunnel_ok g' \<and> settings_of g' = settings_of g \<and> rules_not_for h g' = rules_not_for h g \<and>
     ((failed \<and> g' = g) \<or> rules_of g' = rules_not_for h g @ mine)"

definition record_set :: "string \<Rightarrow> string \<Rightarrow> bool \<Rightarrow> dns_entry list \<Rightarrow> dns_entry list \<Rightarrow> bool" where
  "record_set h app failed ds ds' \<longleftrightarrow>
     (case record_at ds h of
        Some d \<Rightarrow> ds' = ds
      | None \<Rightarrow> (failed \<and> ds' = ds) \<or> (\<exists>i. i \<notin> set (List.map dn_id ds) \<and> ds' = ds @ [\<lparr>dn_id = i, dn_name = h, dn_app = Some app\<rparr>]))"

definition record_dropped :: "string \<Rightarrow> bool \<Rightarrow> dns_entry list \<Rightarrow> dns_entry list \<Rightarrow> bool" where
  "record_dropped h failed ds ds' \<longleftrightarrow>
     (failed \<and> ds' = ds) \<or>
     (case record_at ds h of
        Some d \<Rightarrow> ds' = (if dn_app d = None then ds else List.filter (\<lambda>x. dn_id x \<noteq> dn_id d) ds)
      | None \<Rightarrow> ds' = ds)"

lemma dns_payload_entry: "body_entry (Some (dns_payload c app h)) i = Some \<lparr>dn_id = i, dn_name = h, dn_app = Some app\<rparr>"
  by (simp add: body_entry_def dns_payload_def commented_owner_kelso)

lemma record_at_in: "record_at ds h = Some d \<Longrightarrow> d \<in> set ds \<and> dn_name d = h"
  by (auto simp: record_at_def find_Some_iff)

context cloudflare_service
begin

lemma rules_written:
  assumes "cloudflare_write_rules env c (tun (ss_world ss)) (rules_not_for h (tun (ss_world ss)) @ mine) ss = (r, ss')"
    and "built c" and "tunnel_ok (tun (ss_world ss))" and "\<forall>rule \<in> set mine. hosted rule \<and> rule_host rule = Inr (JStr h)"
  shows "rules_set h mine (isl r) (tun (ss_world ss)) (tun (ss_world ss'))" and "dns (ss_world ss') = dns (ss_world ss)"
    and "ss_db ss' = ss_db ss" and "ss_memory ss' = ss_memory ss"
proof -
  let ?g = "tun (ss_world ss)" and ?rules = "rules_not_for h (tun (ss_world ss)) @ mine"
  have "\<forall>rule \<in> set ?rules. hosted rule" using tunnel_rules(2) [OF assms(3)] assms(4) by (auto simp: rules_not_for_def)
  from ingress_written [OF assms(3) this] obtain g' where g': "with_ingress ?g ?rules = Inr g'" "tunnel_ok g'" "rules_of g' = ?rules"
    "settings_of g' = settings_of ?g" .
  have others: "rules_not_for h g' = rules_not_for h ?g" using assms(4) by (auto simp: rules_not_for_def g'(3))
  obtain r1 ss1 where q: "cloudflare_request env c ''PUT'' (configuration_path c) [] (Some (JObj [(''config'', g')])) ss = (r1, ss1)" by (metis prod.exhaust)
  from assms(1) g'(1) q have r: "isl r = isl r1" "ss' = ss1"
    by (auto simp: cloudflare_write_rules_def cloudflare_put_config_def bindA_def liftA_def split: sum.splits)
  show "ss_db ss' = ss_db ss" "ss_memory ss' = ss_memory ss" using request_kept [OF q] r(2) by simp_all
  have set: "(isl r1 \<and> tun (ss_world ss1) = ?g \<or> tun (ss_world ss1) = g') \<and> dns (ss_world ss1) = dns (ss_world ss)"
    using q
  proof (cases rule: request_E)
    case (answered rq resp w)
    have url: "rq_url rq = configuration_url conf" using answered(2) assms(2) by (simp add: built_def)
    have put: "cloudflare_change (configuration_url conf) zone rq (?g, dns (ss_world ss)) (tun w, dns w) \<Longrightarrow> tun w = g' \<and> dns w = dns (ss_world ss)"
      using answered(1,3) url url_parts by (auto simp: cloudflare_change_def)
    show ?thesis
    proof (cases r1)
      case (Inl e)
      with sends [OF answered(5)] put answered(7) show ?thesis by auto
    next
      case (Inr v)
      with carries_out [OF answered(5), of c "''PUT''" "configuration_path c" v] answered(1,6) url put answered(7) show ?thesis by simp
    qed
  next
    case (failed rq e w)
    have "rq_url rq = configuration_url conf" using failed(2) assms(2) by (simp add: built_def)
    with sends [OF failed(4)] failed url_parts show ?thesis by (auto simp: cloudflare_change_def)
  qed (simp add: same_refl)
  with r(2) show "dns (ss_world ss') = dns (ss_world ss)" by simp
  from set r g' others assms(3) show "rules_set h mine (isl r) ?g (tun (ss_world ss'))"
    by (auto simp: rules_set_def)
qed

lemma record_upserted:
  assumes "cloudflare_upsert_dns env c app h x ss = (r, ss')" and "built c" and "mem_ok ss" and "distinct (List.map dn_id (dns (ss_world ss)))"
    and "case record_at (dns (ss_world ss)) h of None \<Rightarrow> x = None | Some d \<Rightarrow> dn_app d = Some app \<and> (\<exists>v. x = Some v \<and> dns_of v = Some d)"
  shows "record_set h app (isl r) (dns (ss_world ss)) (dns (ss_world ss'))" and "tun (ss_world ss') = tun (ss_world ss)" and "ss_db ss' = ss_db ss"
proof -
  let ?ds = "dns (ss_world ss)"
  have "record_set h app (isl r) ?ds (dns (ss_world ss')) \<and> tun (ss_world ss') = tun (ss_world ss) \<and> ss_db ss' = ss_db ss"
    using assms(1) unfolding cloudflare_upsert_dns_def Let_def
  proof (cases rule: bindA_E)
    case (raised e)
    with zone_known(1) [OF raised(1) assms(2,3)] show ?thesis by (auto simp: same_def record_set_def split: option.split)
  next
    case (went_on z ss1)
    have z: "same ss ss1" "z = zone" using zone_known [OF went_on(1) assms(2,3)] by simp_all
    then have ds1: "dns (ss_world ss1) = ?ds" "tun (ss_world ss1) = tun (ss_world ss)" "ss_db ss1 = ss_db ss" by (simp_all add: same_def)
    show ?thesis
    proof (cases "record_at ?ds h")
      case None
      with assms(5) have x: "x = None" by simp
      obtain r1 ss2 where q: "cloudflare_request env c ''POST'' (''/zones/'' @ z @ ''/dns_records'') [] (Some (dns_payload c app h)) ss1 = (r1, ss2)" by (metis prod.exhaust)
      from went_on(2) q x have r: "isl r = isl r1" "ss' = ss2" by (auto simp: bindA_def split: sum.splits)
      have url: "API_BASE @ ''/zones/'' @ z @ ''/dns_records'' = records_url zone" by (simp add: records_url_def z(2))
      have post: "\<exists>i. i \<notin> set (List.map dn_id ?ds) \<and> dns w = ?ds @ [\<lparr>dn_id = i, dn_name = h, dn_app = Some app\<rparr>] \<and> tun w = tun (ss_world ss)"
        if "cloudflare_change (configuration_url conf) zone rq (tun (ss_world ss1), dns (ss_world ss1)) (tun w, dns w)"
          "rq_method rq = ''POST''" "rq_json rq = Some (dns_payload c app h)" for rq w
        using that ds1 by (auto simp: cloudflare_change_def dns_payload_entry)
      from q have "(isl r1 \<and> dns (ss_world ss2) = ?ds \<or> (\<exists>i. i \<notin> set (List.map dn_id ?ds) \<and> dns (ss_world ss2) = ?ds @ [\<lparr>dn_id = i, dn_name = h, dn_app = Some app\<rparr>])) \<and>
          tun (ss_world ss2) = tun (ss_world ss)"
      proof (cases rule: request_E)
        case refused
        with ds1 show ?thesis by simp
      next
        case (failed rq e w)
        with sends [OF failed(4)] post [OF _ failed(1,3), of w] ds1 show ?thesis by auto
      next
        case (answered rq resp w)
        show ?thesis
        proof (cases r1)
          case (Inl e)
          with sends [OF answered(5)] post [OF _ answered(1,3), of w] ds1 answered(7) show ?thesis by auto
        next
          case (Inr v)
          have "cloudflare_change (configuration_url conf) zone rq (tun (ss_world ss1), dns (ss_world ss1)) (tun w, dns w)"
            by (rule carries_out [OF answered(5), of c "''POST''" "''/zones/'' @ z @ ''/dns_records''" v])
              (use answered(1,2,6) Inr url in simp_all)
          from post [OF this answered(1,3)] answered(7) show ?thesis by auto
        qed
      qed
      with None r ds1(3) request_kept [OF q] show ?thesis by (auto simp: record_set_def)
    next
      case (Some d)
      with assms(5) obtain v where v: "x = Some v" "dns_of v = Some d" "dn_app d = Some app" by auto
      obtain r1 ss2 where q: "cloudflare_request env c ''PUT'' (''/zones/'' @ z @ ''/dns_records/'' @ dn_id d) [] (Some (dns_payload c app h)) ss1 = (r1, ss2)" by (metis prod.exhaust)
      from went_on(2) q v dns_of_reads [OF v(2)] have r: "ss' = ss2" by (auto simp: bindA_def liftA_def split: sum.splits)
      have url: "API_BASE @ ''/zones/'' @ z @ ''/dns_records/'' @ dn_id d = records_url zone @ ''/'' @ dn_id d" by (simp add: records_url_def z(2))
      have here: "d \<in> set ?ds" "dn_name d = h" using record_at_in [OF Some] by simp_all
      have same_d: "d = \<lparr>dn_id = dn_id d, dn_name = h, dn_app = Some app\<rparr>" using here(2) v(3) by simp
      have mapped: "List.map (\<lambda>y. if dn_id y = dn_id d then \<lparr>dn_id = dn_id d, dn_name = h, dn_app = Some app\<rparr> else y) ?ds = ?ds"
        unfolding same_d [symmetric] by (rule map_idI) (use assms(4) here(1) in \<open>auto simp: distinct_map dest: inj_onD\<close>)
      from q have "dns (ss_world ss2) = ?ds \<and> tun (ss_world ss2) = tun (ss_world ss)"
      proof (cases rule: request_changes)
        case same
        with ds1 show ?thesis by (simp add: same_def)
      next
        case (changed rq)
        have at: "rq_url rq = records_url zone @ ''/'' @ dn_id d" by (simp only: changed(2) url)
        from changed(4) show ?thesis
          unfolding cloudflare_change_def at changed(1,3) using url_parts(2) [of conf zone "dn_id d"] ds1 mapped
          by (auto simp: dns_payload_entry)
      qed
      with Some r ds1(3) request_kept [OF q] show ?thesis by (auto simp: record_set_def)
    qed
  qed
  then show "record_set h app (isl r) ?ds (dns (ss_world ss'))" "tun (ss_world ss') = tun (ss_world ss)" "ss_db ss' = ss_db ss" by blast+
qed

end

definition cloudflare_registered ::
    "string \<Rightarrow> string \<Rightarrow> string \<Rightarrow> bool \<Rightarrow> json \<times> dns_entry list \<Rightarrow> json \<times> dns_entry list \<Rightarrow> bool" where
  "cloudflare_registered app h service failed st st' \<longleftrightarrow>
     (failed \<and> st' = st) \<or>
     ((\<forall>d. record_at (snd st) h = Some d \<longrightarrow> dn_app d = Some app) \<and>
      (\<exists>broke. rules_set h [app_rule h service] broke (fst st) (fst st') \<and> (broke \<longrightarrow> failed \<and> snd st' = snd st)) \<and>
      record_set h app failed (snd st) (snd st'))"

definition cloudflare_unregistered :: "string \<Rightarrow> bool \<Rightarrow> json \<times> dns_entry list \<Rightarrow> json \<times> dns_entry list \<Rightarrow> bool" where
  "cloudflare_unregistered h failed st st' \<longleftrightarrow>
     (failed \<and> st' = st) \<or>
     (\<exists>broke. rules_set h [] broke (fst st) (fst st') \<and> (broke \<longrightarrow> failed)) \<and> record_dropped h failed (snd st) (snd st')"

lemma bindA_pass: "bindA m f ss = (r, ss') \<Longrightarrow> m ss = (Inr x, ss1) \<Longrightarrow> f x ss1 = (r, ss')"
  by (simp add: bindA_def)

context cloudflare_service
begin

abbreviation view :: "('w, 's) cloudflare_session \<Rightarrow> json \<times> dns_entry list" where
  "view ss \<equiv> (tun (ss_world ss), dns (ss_world ss))"

lemma same_view: "same ss ss' \<longleftrightarrow> view ss' = view ss \<and> ss_db ss' = ss_db ss"
  by (simp add: same_def)

lemma register_does:
  assumes "cloudflare_register env app port sub domain sch c ss = (r, ss')" and "built c" and "mem_ok ss"
    and "tunnel_ok (tun (ss_world ss))" and "distinct (List.map dn_id (dns (ss_world ss)))" and "full_name sub domain \<noteq> []"
  shows "cloudflare_registered app (full_name sub domain) (sch @ ''://'' @ cl_address c @ '':'' @ str_of_int port) (isl r) (view ss) (view ss')"
    and "ss_db ss' = ss_db ss"
proof -
  let ?h = "full_name sub domain" and ?service = "sch @ ''://'' @ cl_address c @ '':'' @ str_of_int port"
  have "cloudflare_registered app ?h ?service (isl r) (view ss) (view ss') \<and> ss_db ss' = ss_db ss"
    using assms(1) unfolding cloudflare_register_def Let_def
  proof (cases rule: bindA_E)
    case (raised e)
    with record_read [OF raised(1) assms(2,3)] show ?thesis by (simp add: same_view cloudflare_registered_def)
  next
    case (went_on x ss1)
    note found = record_read [OF went_on(1) assms(2,3)]
    from went_on(2) show ?thesis
    proof (cases rule: bindA_E)
      case (raised e)
      then have "ss' = ss1" by (auto simp: bindA_liftA split: option.splits sum.splits if_splits)
      with raised(2) found(1) show ?thesis by (simp add: same_view cloudflare_registered_def)
    next
      case (went_on u ss2)
      have ss2: "ss2 = ss1" and mine: "\<forall>v. x = Some v \<longrightarrow> dns_owner v = Inr (Some app)"
        using went_on(1) by (auto simp: bindA_liftA split: option.splits sum.splits if_splits)
      from found(3) [OF refl] mine have own: "\<forall>d. record_at (dns (ss_world ss)) ?h = Some d \<longrightarrow> dn_app d = Some app"
        by (auto dest!: dns_of_reads(1))
      from went_on(2) [unfolded ss2] show ?thesis
      proof (cases rule: bindA_E)
        case (raised e)
        have ok1: "tunnel_ok (tun (ss_world ss1))" using assms(4) found(1) by (simp add: same_def)
        from config_read [OF raised(1) assms(2) ok1] found(1) raised(2) show ?thesis by (simp add: same_view cloudflare_registered_def)
      next
        case (went_on g ss3)
        have ok1: "tunnel_ok (tun (ss_world ss1))" using assms(4) found(1) by (simp add: same_def)
        note read = config_read [OF went_on(1) assms(2) ok1]
        have s3: "same ss ss3" "mem_ok ss3" using read(1,2) found(1,2) by (auto simp: mem_ok_def intro: same_trans)
        have g: "g = tun (ss_world ss3)" using read(1) read(3) [OF refl] by (simp add: same_def)
        have ok3: "tunnel_ok (tun (ss_world ss3))" using assms(4) s3(1) by (simp add: same_def)
        have others: "andthen (cloudflare_rules g) (other_rules ?h) = Inr (rules_not_for ?h g)"
          using tunnel_rules [OF ok3] other_rules_filter [of "rules_of g" ?h] by (simp add: g rules_not_for_def)
        from went_on(2) have rest: "bindA (cloudflare_write_rules env c g (rules_not_for ?h g @ [app_rule ?h ?service]))
            (\<lambda>_. cloudflare_upsert_dns env c app ?h x) ss3 = (r, ss')"
          by (simp add: bindA_liftA others app_rule_def)
        have hosts: "\<forall>rule \<in> set [app_rule ?h ?service]. hosted rule \<and> rule_host rule = Inr (JStr ?h)"
          using app_rule_hosted (1) [OF assms(6), of ?service] app_rule_hosted(2) [of ?h ?service] by simp
        from rest show ?thesis
        proof (cases rule: bindA_E)
          case (raised e)
          from rules_written [OF raised(1) [unfolded g] assms(2) ok3 hosts] own s3(1) raised(2)
          show ?thesis by (auto simp: cloudflare_registered_def same_view record_set_def split: option.split)
        next
          case (went_on u ss4)
          note wrote = rules_written [OF went_on(1) [unfolded g] assms(2) ok3]
          have x: "case record_at (dns (ss_world ss4)) ?h of None \<Rightarrow> x = None | Some d \<Rightarrow> dn_app d = Some app \<and> (\<exists>v. x = Some v \<and> dns_of v = Some d)"
            using found(3) [OF refl] own wrote(2) [OF hosts] s3(1) by (auto simp: same_def split: option.splits)
          have "mem_ok ss4" "distinct (List.map dn_id (dns (ss_world ss4)))"
            using wrote(2,4) [OF hosts] s3 assms(5) by (simp_all add: mem_ok_def same_def)
          from record_upserted [OF went_on(2) assms(2) this x] wrote [OF hosts] s3(1) own show ?thesis
            by (auto simp: cloudflare_registered_def same_view)
        qed
      qed
    qed
  qed
  then show "cloudflare_registered app ?h ?service (isl r) (view ss) (view ss')" "ss_db ss' = ss_db ss" by blast+
qed

lemma record_deleted:
  assumes "cloudflare_request env c ''DELETE'' (''/zones/'' @ zone @ ''/dns_records/'' @ dn_id d) [] None ss = (r, ss')"
    and "record_at (dns (ss_world ss)) h = Some d" and "dn_app d \<noteq> None"
  shows "record_dropped h (isl r) (dns (ss_world ss)) (dns (ss_world ss'))" and "tun (ss_world ss') = tun (ss_world ss)"
proof -
  have url: "API_BASE @ ''/zones/'' @ zone @ ''/dns_records/'' @ dn_id d = records_url zone @ ''/'' @ dn_id d" by (simp add: records_url_def)
  have gone: "tun w = tun (ss_world ss) \<and> record_dropped h b (dns (ss_world ss)) (dns w)"
    if "cloudflare_change (configuration_url conf) zone rq (view ss) (tun w, dns w)" "rq_method rq = ''DELETE''"
      "rq_url rq = API_BASE @ ''/zones/'' @ zone @ ''/dns_records/'' @ dn_id d" for rq w b
    using that(1) unfolding cloudflare_change_def that(2,3) url using assms(2,3) by (auto simp: record_dropped_def)
  have keep: "record_dropped h True (dns (ss_world ss)) (dns (ss_world ss))" by (simp add: record_dropped_def)
  have "tun (ss_world ss') = tun (ss_world ss) \<and> record_dropped h (isl r) (dns (ss_world ss)) (dns (ss_world ss'))"
    using assms(1)
  proof (cases rule: request_E)
    case refused
    then show ?thesis by (simp add: record_dropped_def)
  next
    case (failed rq e w)
    with sends [OF failed(4)] gone [OF _ failed(1,2), of w True] keep show ?thesis by auto
  next
    case (answered rq resp w)
    show ?thesis
    proof (cases r)
      case (Inl e)
      with sends [OF answered(5)] gone [OF _ answered(1,2), of w True] answered(7) keep show ?thesis by auto
    next
      case (Inr v)
      have accepted: "cloudflare_answer c ''DELETE'' (''/zones/'' @ zone @ ''/dns_records/'' @ dn_id d) resp = Inr v"
        by (simp only: answered(6) [symmetric] Inr)
      have "rq_url rq = (records_url zone @ ''/'') @ dn_id d" by (simp only: answered(2) url append_assoc)
      then have "starts_with (rq_url rq) (records_url zone @ ''/'')" by (simp only: starts_with_append)
      with carries_out [OF answered(5) accepted] answered(1)
      have "cloudflare_change (configuration_url conf) zone rq (view ss) (tun w, dns w)" by simp
      from gone [OF this answered(1,2)] answered(7) show ?thesis by simp
    qed
  qed
  then show "record_dropped h (isl r) (dns (ss_world ss)) (dns (ss_world ss'))" "tun (ss_world ss') = tun (ss_world ss)" by blast+
qed

end

lemma filter_same_length: "length (List.filter P xs) = length xs \<Longrightarrow> List.filter P xs = xs"
proof (induction xs)
  case (Cons x xs)
  show ?case
  proof (cases "P x")
    case False
    with Cons.prems length_filter_le [of P xs] show ?thesis by (metis Suc_n_not_le_n filter.simps(2) length_Cons)
  qed (use Cons in simp)
qed simp

lemma dropped_kept: "record_dropped h True ds ds"
  by (simp add: record_dropped_def)

lemma bindA_liftA_Inr: "bindA (liftA (Inr x)) f = f x"
  by (rule ext) (simp add: bindA_liftA)

context cloudflare_service
begin

lemma unregister_does:
  assumes "cloudflare_unregister env sub domain c ss = (r, ss')" and "built c" and "mem_ok ss" and "tunnel_ok (tun (ss_world ss))"
  shows "cloudflare_unregistered (full_name sub domain) (isl r) (view ss) (view ss')" and "ss_db ss' = ss_db ss"
proof -
  let ?h = "full_name sub domain"
  let ?finish = "bindA (cloudflare_dns_record env c ?h) (\<lambda>existing.
           case existing of
             None \<Rightarrow> ret ()
           | Some r \<Rightarrow> bindA (liftA (dns_owner r)) (\<lambda>owner.
               if owner = None then ret ()
               else bindA (cloudflare_zone_id env c) (\<lambda>zone. bindA (liftA (dict_at ''id'' r)) (\<lambda>i.
                 bindA (cloudflare_request env c ''DELETE'' (''/zones/'' @ zone @ ''/dns_records/'' @ shown i) [] None) (\<lambda>_. ret ())))))"
  have finish: "record_dropped ?h (isl r) (dns (ss_world s1)) (dns (ss_world ss')) \<and> tun (ss_world ss') = tun (ss_world s1) \<and> ss_db ss' = ss_db s1"
    if "?finish s1 = (r, ss')" "mem_ok s1" for s1
    using that(1)
  proof (cases rule: bindA_E)
    case (raised e)
    with record_read(1) [OF raised(1) assms(2) that(2)] show ?thesis by (simp add: same_def dropped_kept)
  next
    case (went_on x s2)
    note found = record_read [OF went_on(1) assms(2) that(2)]
    show ?thesis
    proof (cases "record_at (dns (ss_world s1)) ?h")
      case None
      with found(3) [OF refl] went_on(2) found(1) show ?thesis by (auto simp: same_def record_dropped_def)
    next
      case (Some d)
      with found(3) [OF refl] obtain v where v: "x = Some v" "dns_of v = Some d" by auto
      show ?thesis
      proof (cases "dn_app d = None")
        case True
        with went_on(2) v dns_of_reads(1) [OF v(2)] Some found(1) show ?thesis by (auto simp: bindA_liftA same_def record_dropped_def)
      next
        case False
        from went_on(2) v dns_of_reads [OF v(2)] False have "bindA (cloudflare_zone_id env c) (\<lambda>zone.
            bindA (cloudflare_request env c ''DELETE'' (''/zones/'' @ zone @ ''/dns_records/'' @ dn_id d) [] None) (\<lambda>_. ret ())) s2 = (r, ss')"
          by (simp add: bindA_liftA_Inr)
        then show ?thesis
        proof (cases rule: bindA_E)
          case (raised e)
          with zone_known(1) [OF raised(1) assms(2) found(2)] found(1) show ?thesis by (simp add: same_def dropped_kept)
        next
          case (went_on z s3)
          note zone = zone_known [OF went_on(1) assms(2) found(2)]
          obtain r1 s4 where q: "cloudflare_request env c ''DELETE'' (''/zones/'' @ z @ ''/dns_records/'' @ dn_id d) [] None s3 = (r1, s4)" by (metis prod.exhaust)
          from went_on(2) q have r: "isl r = isl r1" "ss' = s4" by (auto simp: bindA_def split: sum.splits)
          have s3: "dns (ss_world s3) = dns (ss_world s1)" "tun (ss_world s3) = tun (ss_world s1)" "ss_db s3 = ss_db s1"
            using zone(1) found(1) by (simp_all add: same_def)
          from record_deleted [of c d s3 r1 s4 ?h] q zone(3) [OF refl] Some False s3 r request_kept [OF q] show ?thesis by simp
        qed
      qed
    qed
  qed
  have "cloudflare_unregistered ?h (isl r) (view ss) (view ss') \<and> ss_db ss' = ss_db ss"
    using assms(1) unfolding cloudflare_unregister_def Let_def
  proof (cases rule: bindA_E)
    case (raised e)
    with config_read(1) [OF raised(1) assms(2,4)] show ?thesis by (simp add: same_view cloudflare_unregistered_def)
  next
    case (went_on g s1)
    note read = config_read [OF went_on(1) assms(2,4)]
    have g: "g = tun (ss_world s1)" using read(1) read(3) [OF refl] by (simp add: same_def)
    have ok1: "tunnel_ok (tun (ss_world s1))" "mem_ok s1" using read(1,2) assms(3,4) by (simp_all add: same_def mem_ok_def)
    let ?rest = "rules_not_for ?h g"
    have others: "cloudflare_rules g = Inr (rules_of g)" "other_rules ?h (rules_of g) = Inr ?rest"
      using tunnel_rules [OF ok1(1)] other_rules_filter [of "rules_of g" ?h] by (simp_all add: g rules_not_for_def)
    from went_on(2) have "bindA (whenA (length ?rest \<noteq> length (rules_of g)) (cloudflare_write_rules env c g ?rest)) (\<lambda>_. ?finish) s1 = (r, ss')"
      by (simp add: bindA_liftA others)
    then show ?thesis
    proof (cases rule: bindA_E)
      case (raised e)
      then have "cloudflare_write_rules env c g (?rest @ []) s1 = (Inl e, ss')" by (simp add: whenA_def split: if_splits)
      from rules_written [OF this [unfolded g] assms(2) ok1(1)] raised(2) read(1) show ?thesis
        by (auto simp: cloudflare_unregistered_def same_view dropped_kept rules_set_def)
    next
      case (went_on u s2)
      have wrote: "rules_set ?h [] False (tun (ss_world s1)) (tun (ss_world s2)) \<and> dns (ss_world s2) = dns (ss_world s1) \<and> ss_db s2 = ss_db s1 \<and> mem_ok s2"
      proof (cases "length ?rest = length (rules_of g)")
        case True
        then have "?rest = rules_of g" unfolding rules_not_for_def by (rule filter_same_length)
        with went_on(1) True ok1 show ?thesis by (auto simp: whenA_def rules_set_def g)
      next
        case False
        with went_on(1) have "cloudflare_write_rules env c g (?rest @ []) s1 = (Inr (), s2)" by (simp add: whenA_def)
        from rules_written [OF this [unfolded g] assms(2) ok1(1)] ok1(2) show ?thesis by (simp add: mem_ok_def)
      qed
      then have "mem_ok s2" by simp
      note dropped = finish [OF went_on(2) this]
      have "rules_set ?h [] False (tun (ss_world ss)) (tun (ss_world ss'))" "ss_db ss' = ss_db ss"
        "record_dropped ?h (isl r) (dns (ss_world ss)) (dns (ss_world ss'))"
        using dropped wrote read(1) by (simp_all add: same_def)
      then show ?thesis unfolding cloudflare_unregistered_def fst_conv snd_conv by blast
    qed
  qed
  then show "cloudflare_unregistered ?h (isl r) (view ss) (view ss')" "ss_db ss' = ss_db ss" by blast+
qed

text \<open>Who holds each name: the app of its record, nobody where a rule has no record.\<close>

lemma owners_of_read:
  assumes "cloudflare_owners_of env c subs ss = (r, ss')" and "built c" and "mem_ok ss"
  shows "same ss ss'" and "r = Inr owners \<Longrightarrow> owners = List.map (\<lambda>sub. (sub,
    case record_at (dns (ss_world ss)) (sub @ ''.'' @ rp_domain conf) of None \<Rightarrow> None | Some d \<Rightarrow> dn_app d)) subs"
proof -
  have "same ss ss' \<and> (\<forall>owners. r = Inr owners \<longrightarrow> owners = List.map (\<lambda>sub. (sub,
    case record_at (dns (ss_world ss)) (sub @ ''.'' @ rp_domain conf) of None \<Rightarrow> None | Some d \<Rightarrow> dn_app d)) subs)"
    using assms(1,3)
  proof (induction subs arbitrary: ss r ss')
    case (Cons sub subs)
    let ?h = "sub @ ''.'' @ rp_domain conf"
    from Cons.prems(1) have run: "bindA (cloudflare_dns_record env c ?h) (\<lambda>existing.
        bindA (case existing of Some r \<Rightarrow> if truthy r then liftA (dns_owner r) else ret None | None \<Rightarrow> ret None) (\<lambda>owner.
        bindA (cloudflare_owners_of env c subs) (\<lambda>rest. ret ((sub, owner) # rest)))) ss = (r, ss')"
      using assms(2) by (simp add: built_def)
    then show ?case
    proof (cases rule: bindA_E)
      case (raised e)
      with record_read(1) [OF raised(1) assms(2) Cons.prems(2)] show ?thesis by simp
    next
      case (went_on x s1)
      note found = record_read [OF went_on(1) assms(2) Cons.prems(2)]
      let ?owner = "case record_at (dns (ss_world ss)) ?h of None \<Rightarrow> None | Some d \<Rightarrow> dn_app d"
      have "(case x of Some r \<Rightarrow> if truthy r then liftA (dns_owner r) else ret None | None \<Rightarrow> ret None) s1 = (Inr ?owner, s1)"
        using found(3) [OF refl] by (auto simp: liftA_def dns_of_reads split: option.splits)
      with went_on(2) have rest: "bindA (cloudflare_owners_of env c subs) (\<lambda>rest. ret ((sub, ?owner) # rest)) s1 = (r, ss')"
        by (simp add: bindA_def)
      obtain r1 s2 where q: "cloudflare_owners_of env c subs s1 = (r1, s2)" by (metis prod.exhaust)
      from Cons.IH [OF q found(2)] rest q found(1) show ?thesis
        by (cases r1) (auto simp: bindA_def same_def)
    qed
  qed (simp add: same_refl)
  then show "same ss ss'" "r = Inr owners \<Longrightarrow> owners = List.map (\<lambda>sub. (sub,
    case record_at (dns (ss_world ss)) (sub @ ''.'' @ rp_domain conf) of None \<Rightarrow> None | Some d \<Rightarrow> dn_app d)) subs" by blast+
qed

end

section \<open>The provider's names\<close>

lemma cloudflare_from_config_parts:
  assumes "cloudflare_from_config env tag conf address st = Inr (c, ss)"
  shows "cl_account c = the (map_of (rp_args conf) ''account_id'')" and "cl_tunnel c = the (map_of (rp_args conf) ''tunnel_id'')"
    and "cl_domain c = rp_domain conf" and "cl_address c = address" and "ss_world ss = fst st" and "ss_db ss = snd st"
    and "ss_memory ss = (case map_of (rp_args conf) ''zone_id'' of Some (x # xs) \<Rightarrow> Some (x # xs) | _ \<Rightarrow> None)"
  using assms by (auto simp: cloudflare_from_config_def andthen_Inr provider_args_def split: prod.splits if_splits)

lemma cloudflare_with_E:
  assumes "cloudflare_with env tag conf address f st = (r, st')"
  obtains (unbuilt) "isl r" "st' = st"
    | (ran) c ss ss' where "cloudflare_from_config env tag conf address st = Inr (c, ss)" "f c ss = (r, ss')" "st' = (ss_world ss', ss_db ss')"
  using assms by (auto simp: cloudflare_with_def split: sum.splits prod.splits)

lemma other_records:
  assumes "distinct (List.map dn_id ds)" and "record_at ds h = Some d" and "n \<noteq> h"
  shows "List.filter (\<lambda>x. dn_name x = n) (List.filter (\<lambda>x. dn_id x \<noteq> dn_id d) ds) = List.filter (\<lambda>x. dn_name x = n) ds"
proof -
  have "dn_id x \<noteq> dn_id d" if "x \<in> set ds" "dn_name x = n" for x
    using record_at_in [OF assms(2)] that assms(1,3) by (auto simp: distinct_map dest: inj_onD)
  then show ?thesis by (auto intro: filter_cong)
qed

lemma record_at_append: "record_at (ds @ es) h = (case record_at ds h of None \<Rightarrow> record_at es h | Some d \<Rightarrow> Some d)"
  by (induction ds) (simp_all add: record_at_def)

lemma labels_found:
  assumes "\<forall>rule \<in> set rules. hosted rule"
  obtains found where "traverse (kelso_rule c) rules = Inr found"
    "set (List.map fst (concat found)) = {sub. single_label sub \<and> (\<exists>rule \<in> set rules. rule_host rule = Inr (JStr (full_name sub (cl_domain c))))}"
proof -
  have "\<exists>found. traverse (kelso_rule c) rules = Inr found \<and> set (List.map fst (concat found)) =
      {sub. single_label sub \<and> (\<exists>rule \<in> set rules. rule_host rule = Inr (JStr (full_name sub (cl_domain c))))}"
    using assms
  proof (induction rules)
    case (Cons rule rules)
    from Cons obtain found where found: "traverse (kelso_rule c) rules = Inr found" "set (List.map fst (concat found)) =
      {sub. single_label sub \<and> (\<exists>rule \<in> set rules. rule_host rule = Inr (JStr (full_name sub (cl_domain c))))}" by auto
    from Cons.prems obtain h where h: "h \<noteq> []" "rule_host rule = Inr (JStr h)" by (auto simp: hosted_def)
    then have "kelso_rule c rule = Inr (case label_under (cl_domain c) h of None \<Rightarrow> [] | Some sub \<Rightarrow> [(sub, rule)])"
      by (simp add: kelso_rule_def or_empty_def truthy_def text_value_def)
    with found h show ?case
      by (auto simp: label_under_Some label_under_full_name dest: full_name_inj split: option.splits)
  qed simp
  with that show ?thesis by blast
qed

context cloudflare_service
begin

lemma built_session:
  assumes "cloudflare_from_config env tag conf address st = Inr (c, ss)"
  shows "built c" and "mem_ok ss" and "view ss = (tun (fst st), dns (fst st))" and "ss_db ss = snd st" and "cl_address c = address"
proof -
  note parts = cloudflare_from_config_parts [OF assms]
  show "built c" using parts(1-3) by (simp add: built_def configuration_path_def configuration_url_def)
  show "mem_ok ss" using parts(7) given_zone by (auto simp: mem_ok_def split: option.splits list.splits)
  show "view ss = (tun (fst st), dns (fst st))" "ss_db ss = snd st" "cl_address c = address" using parts(4-6) by simp_all
qed

lemma kelso_rules_read:
  assumes "cloudflare_kelso_rules env c ss = (r, ss')" and "built c" and "tunnel_ok (tun (ss_world ss))"
  shows "same ss ss'" and "ss_memory ss' = ss_memory ss" and "r = Inr found \<Longrightarrow> set (List.map fst found) =
    {sub. single_label sub \<and> (\<exists>rule \<in> set (rules_of (tun (ss_world ss))). rule_host rule = Inr (JStr (full_name sub (rp_domain conf))))}"
proof -
  obtain r1 ss1 where q: "cloudflare_config env c ss = (r1, ss1)" by (metis prod.exhaust)
  note read = config_read [OF q assms(2,3)]
  have ss': "ss' = ss1" using assms(1) q by (auto simp: cloudflare_kelso_rules_def bindA_def liftA_def split: sum.splits)
  show "same ss ss'" "ss_memory ss' = ss_memory ss" using read(1,2) ss' by simp_all
  assume r: "r = Inr found"
  with assms(1) q obtain g where g: "r1 = Inr g" by (cases r1) (auto simp: cloudflare_kelso_rules_def bindA_def)
  note rules = tunnel_rules [OF assms(3)]
  from labels_found [OF rules(2), of c] obtain parts where "traverse (kelso_rule c) (rules_of (tun (ss_world ss))) = Inr parts"
    "set (List.map fst (concat parts)) = {sub. single_label sub \<and> (\<exists>rule \<in> set (rules_of (tun (ss_world ss))). rule_host rule = Inr (JStr (full_name sub (cl_domain c))))}" .
  with assms(1,2) q r g read(3) [OF g] rules(1) show "set (List.map fst found) =
    {sub. single_label sub \<and> (\<exists>rule \<in> set (rules_of (tun (ss_world ss))). rule_host rule = Inr (JStr (full_name sub (rp_domain conf))))}"
    by (auto simp: cloudflare_kelso_rules_def bindA_def liftA_def built_def)
qed

text \<open>The owners listed: for each name a rule routes, the app of its record; nobody where it has none.\<close>

lemma owners_listed:
  assumes "po_owners (cloudflare_ops env tag conf address) tag (w, db) = (r, st')" and "tunnel_ok (tun w)"
  shows "(tun (fst st'), dns (fst st')) = (tun w, dns w)" and "r = Inr owners \<Longrightarrow> map_of owners sub =
    (if single_label sub \<and> (\<exists>rule \<in> set (rules_of (tun w)). rule_host rule = Inr (JStr (full_name sub (rp_domain conf))))
     then Some (case record_at (dns w) (full_name sub (rp_domain conf)) of None \<Rightarrow> None | Some d \<Rightarrow> dn_app d) else None)"
proof -
  let ?own = "\<lambda>sub. case record_at (dns w) (sub @ ''.'' @ rp_domain conf) of None \<Rightarrow> None | Some d \<Rightarrow> dn_app d"
  have "(tun (fst st'), dns (fst st')) = (tun w, dns w) \<and> (\<forall>owners. r = Inr owners \<longrightarrow> (\<exists>subs.
      map_of owners = map_of (List.map (\<lambda>sub. (sub, ?own sub)) subs) \<and>
      set subs = {sub. single_label sub \<and> (\<exists>rule \<in> set (rules_of (tun w)). rule_host rule = Inr (JStr (full_name sub (rp_domain conf))))}))"
  proof -
    from assms(1) have "cloudflare_with env tag conf address (cloudflare_route_owners env) (w, db) = (r, st')" by (simp add: cloudflare_ops_def)
    then show ?thesis
    proof (cases rule: cloudflare_with_E)
      case (ran c ss ss')
      note b = built_session [OF ran(1)]
      have ok: "tunnel_ok (tun (ss_world ss))" using b(3) assms(2) by simp
      from ran(2) show ?thesis unfolding cloudflare_route_owners_def
      proof (cases rule: bindA_E)
        case (raised e)
        with kelso_rules_read(1) [OF raised(1) b(1) ok] b(3) ran(3) show ?thesis by (simp add: same_def)
      next
        case (went_on found s1)
        note rules = kelso_rules_read [OF went_on(1) b(1) ok]
        have s1: "mem_ok s1" "dns (ss_world s1) = dns w" "tun (ss_world s1) = tun w" using rules(1,2) b(2,3) by (simp_all add: mem_ok_def same_def)
        from went_on(2) show ?thesis
        proof (cases rule: bindA_E)
          case (raised e)
          with owners_of_read(1) [OF raised(1) b(1) s1(1)] s1(2,3) ran(3) show ?thesis by (simp add: same_def)
        next
          case (went_on own s2)
          note o = owners_of_read [OF went_on(1) b(1) s1(1)]
          let ?subs = "List.map fst found"
          have own: "own = List.map (\<lambda>sub. (sub, ?own sub)) ?subs" using o(2) [OF refl] s1(2) by simp
          have eq: "map_of (dict_merge [] own) = map_of (List.map (\<lambda>sub. (sub, ?own sub)) (rev ?subs))"
            by (simp add: map_of_dict_merge own rev_map)
          show ?thesis
          proof (intro conjI allI impI)
            show "(tun (fst st'), dns (fst st')) = (tun w, dns w)" using went_on(2) o(1) s1(2,3) ran(3) by (simp add: same_def)
            fix owners assume "r = Inr owners"
            with went_on(2) have "owners = dict_merge [] own" by simp
            with eq rules(3) [OF refl] b(3) show "\<exists>subs. map_of owners = map_of (List.map (\<lambda>sub. (sub, ?own sub)) subs) \<and>
              set subs = {sub. single_label sub \<and> (\<exists>rule \<in> set (rules_of (tun w)). rule_host rule = Inr (JStr (full_name sub (rp_domain conf))))}"
              by (intro exI [of _ "rev ?subs"]) simp
          qed
        qed
      qed
    qed auto
  qed
  note both = this
  from both show "(tun (fst st'), dns (fst st')) = (tun w, dns w)" by blast
  assume "r = Inr owners"
  with both obtain subs where subs: "map_of owners = map_of (List.map (\<lambda>sub. (sub, ?own sub)) subs)"
    "set subs = {sub. single_label sub \<and> (\<exists>rule \<in> set (rules_of (tun w)). rule_host rule = Inr (JStr (full_name sub (rp_domain conf))))}" by blast
  then show "map_of owners sub =
    (if single_label sub \<and> (\<exists>rule \<in> set (rules_of (tun w)). rule_host rule = Inr (JStr (full_name sub (rp_domain conf))))
     then Some (case record_at (dns w) (full_name sub (rp_domain conf)) of None \<Rightarrow> None | Some d \<Rightarrow> dn_app d) else None)"
    by (auto simp: map_of_map_restrict restrict_map_def full_name_def single_label_def)
qed

end

section \<open>A service that keeps them\<close>

definition cloudflare_ok :: "json \<Rightarrow> http_response" where
  "cloudflare_ok v = answer 200 (JObj [(''success'', JBool True), (''result'', v)])"

definition record_json :: "dns_entry \<Rightarrow> json" where
  "record_json d = JObj [(''id'', JStr (dn_id d)), (''name'', JStr (dn_name d)),
     (''comment'', case dn_app d of None \<Rightarrow> JNull | Some app \<Rightarrow> JStr (COMMENT_PREFIX @ app))]"

definition fresh_text :: "dns_entry list \<Rightarrow> string" where
  "fresh_text ds = CHR ''x'' # concat (List.map dn_id ds)"

definition demo_cloudflare_write :: "string \<Rightarrow> string \<Rightarrow> http_request \<Rightarrow> json \<times> dns_entry list \<Rightarrow> (json \<times> dns_entry list) option" where
  "demo_cloudflare_write cu ru rq st =
     (if rq_method rq = ''PUT'' \<and> rq_url rq = cu
      then (case rq_json rq of Some (JObj [(k, g)]) \<Rightarrow> if k = ''config'' then Some (g, snd st) else None | _ \<Rightarrow> None)
      else if rq_method rq = ''POST'' \<and> rq_url rq = ru
      then (case body_entry (rq_json rq) (fresh_text (snd st)) of None \<Rightarrow> None | Some d \<Rightarrow> Some (fst st, snd st @ [d]))
      else if rq_method rq = ''PUT'' \<and> starts_with (rq_url rq) (ru @ ''/'')
      then (let i = remove_prefix (rq_url rq) (ru @ ''/'')
        in if i \<notin> set (List.map dn_id (snd st)) then None
           else case body_entry (rq_json rq) i of None \<Rightarrow> None | Some d \<Rightarrow> Some (fst st, List.map (\<lambda>x. if dn_id x = i then d else x) (snd st)))
      else if rq_method rq = ''DELETE'' \<and> starts_with (rq_url rq) (ru @ ''/'')
      then Some (fst st, List.filter (\<lambda>x. dn_id x \<noteq> remove_prefix (rq_url rq) (ru @ ''/'')) (snd st))
      else None)"

definition demo_cloudflare_send :: "string \<Rightarrow> string \<Rightarrow> string \<Rightarrow> (json \<times> dns_entry list) http" where
  "demo_cloudflare_send cu zone domain rq st =
     (if rq_method rq \<noteq> ''GET''
      then (case demo_cloudflare_write cu (records_url zone) rq st of
          None \<Rightarrow> (Inr (answer 404 JNull), st)
        | Some st' \<Rightarrow> (Inr (cloudflare_ok JNull), st'))
      else if rq_url rq = cu then (Inr (cloudflare_ok (JObj [(''config'', fst st)])), st)
      else if rq_url rq = records_url zone
      then (Inr (cloudflare_ok (JArr (List.map record_json (List.filter (\<lambda>d. rq_params rq = [(''name'', dn_name d)]) (snd st))))), st)
      else if rq_url rq = API_BASE @ ''/zones'' \<and> rq_params rq = [(''name'', domain)]
      then (Inr (cloudflare_ok (JArr [JObj [(''id'', JStr zone)]])), st)
      else (Inr (answer 404 JNull), st))"

definition demo_cloudflare_conf :: route_provider_entry where
  "demo_cloudflare_conf = \<lparr>rp_kind = CloudflareTunnel, rp_domain = ''example.org'',
     rp_args = [(''account_id'', ''acme''), (''tunnel_id'', ''t1''), (''api_token_secret'', ''cloudflare'')]\<rparr>"

definition demo_cloudflare_env :: "(json \<times> dns_entry list, (string, json) dict) cloudflare_env" where
  "demo_cloudflare_env = \<lparr>cv_send = demo_cloudflare_send (configuration_url demo_cloudflare_conf) ''z1'' ''example.org'',
     cv_is_float = (\<lambda>t. True), cv_store = memory_store, cv_cipher = noop_engine\<rparr>"

lemma fresh_text_fresh: "fresh_text ds \<notin> set (List.map dn_id ds)"
proof
  assume "fresh_text ds \<in> set (List.map dn_id ds)"
  then obtain d where "d \<in> set ds" "dn_id d = fresh_text ds" by auto
  moreover have "d \<in> set ds \<Longrightarrow> length (dn_id d) \<le> length (concat (List.map dn_id ds))" for d
    by (induction ds) auto
  ultimately show False by (fastforce simp: fresh_text_def)
qed

lemma dns_of_record_json: "dns_of (record_json d) = Some d"
  by (cases "dn_app d") (simp_all add: dns_of_def record_json_def dns_owner_def dict_get_def or_empty_def truthy_def text_value_def
      commented_owner_kelso, simp_all add: commented_owner_def COMMENT_PREFIX_def starts_with_def)

lemma not_found: "cloudflare_answer c verb path (answer 404 JNull) \<noteq> Inr v"
  by (simp add: cloudflare_answer_def resp_ok_def answer_def)

lemma ok_result: "cloudflare_answer c verb path (cloudflare_ok x) = Inr v \<longleftrightarrow> v = x"
  by (auto simp: cloudflare_answer_def resp_ok_def answer_def cloudflare_ok_def resp_value_def truthy_def)

lemma demo_write_changes:
  assumes "demo_cloudflare_write cu (records_url zone) rq st = Some st'"
  shows "cloudflare_change cu zone rq st st'"
proof -
  have "remove_prefix (u @ CHR ''/'' # r) (u @ ''/'') = r" for u r :: string
    using remove_prefix_append [of "u @ ''/''" r] by simp
  with assms fresh_text_fresh [of "snd st"] show ?thesis
    by (auto simp: demo_cloudflare_write_def cloudflare_change_def starts_with_iff Let_def split: if_splits option.splits json.splits list.splits prod.splits)
qed

lemma demo_cloudflare_step:
  assumes "demo_cloudflare_send cu zone domain rq st = (r, st')"
  shows "st' = st \<or> cloudflare_change cu zone rq st st'"
    and "r = Inr resp \<Longrightarrow> cloudflare_answer c verb path resp = Inr v \<Longrightarrow> rq_method rq \<noteq> ''GET'' \<Longrightarrow> cloudflare_change cu zone rq st st'"
  using assms not_found [of c verb path v]
  by (auto simp: demo_cloudflare_send_def dest: demo_write_changes split: if_splits option.splits)

interpretation demo_cloudflare: cloudflare_service demo_cloudflare_env demo_cloudflare_conf "''z1''" fst snd
proof
  let ?cu = "configuration_url demo_cloudflare_conf"
  have send: "cv_send demo_cloudflare_env = demo_cloudflare_send ?cu ''z1'' ''example.org''" by (simp add: demo_cloudflare_env_def)
  fix rq :: http_request and w w' :: "json \<times> dns_entry list" and r
  assume "cv_send demo_cloudflare_env rq w = (r, w')"
  with demo_cloudflare_step(1) [of ?cu "''z1''" "''example.org''" rq w r w'] show
    "(fst w', snd w') = (fst w, snd w) \<or> cloudflare_change ?cu ''z1'' rq (fst w, snd w) (fst w', snd w')"
    unfolding send by simp
next
  fix rq :: http_request and w w' :: "json \<times> dns_entry list" and resp c verb path v
  assume "cv_send demo_cloudflare_env rq w = (Inr resp, w')" "cloudflare_answer c verb path resp = Inr v" "rq_method rq \<noteq> ''GET''"
  with demo_cloudflare_step(2) [of "configuration_url demo_cloudflare_conf" "''z1''" "''example.org''" rq w "Inr resp" w' resp c verb path v] show
    "cloudflare_change (configuration_url demo_cloudflare_conf) ''z1'' rq (fst w, snd w) (fst w', snd w')"
    by (simp add: demo_cloudflare_env_def)
next
  fix rq :: http_request and w w' :: "json \<times> dns_entry list" and resp c verb path v
  assume "cv_send demo_cloudflare_env rq w = (Inr resp, w')" "cloudflare_answer c verb path resp = Inr v" "rq_method rq = ''GET''"
    "rq_url rq = configuration_url demo_cloudflare_conf"
  then show "dict_get ''config'' JNull v = Inr (fst w)"
    by (auto simp: demo_cloudflare_env_def demo_cloudflare_send_def ok_result dict_get_def)
next
  fix rq :: http_request and w w' :: "json \<times> dns_entry list" and resp c verb path v h
  assume "cv_send demo_cloudflare_env rq w = (Inr resp, w')" "cloudflare_answer c verb path resp = Inr v" "rq_method rq = ''GET''"
    "rq_url rq = records_url ''z1''" "rq_params rq = [(''name'', h)]"
  then show "\<exists>l. v = JArr l \<and> List.map dns_of l = List.map Some (List.filter (\<lambda>d. dn_name d = h) (snd w))"
    using url_parts(1) [of demo_cloudflare_conf "''z1''"]
    by (auto simp: demo_cloudflare_env_def demo_cloudflare_send_def ok_result dns_of_record_json eq_commute [of h])
next
  fix rq :: http_request and w w' :: "json \<times> dns_entry list" and resp c verb path v
  assume "cv_send demo_cloudflare_env rq w = (Inr resp, w')" "cloudflare_answer c verb path resp = Inr v" "rq_method rq = ''GET''"
    "rq_url rq = API_BASE @ ''/zones''" "rq_params rq = [(''name'', rp_domain demo_cloudflare_conf)]"
  moreover have "API_BASE @ ''/zones'' \<noteq> configuration_url demo_cloudflare_conf" "API_BASE @ ''/zones'' \<noteq> records_url ''z1''"
    by (simp_all add: configuration_url_def records_url_def)
  ultimately show "andthen (at_0 v) (dict_at ''id'') = Inr (JStr ''z1'')"
    by (auto simp: demo_cloudflare_env_def demo_cloudflare_send_def demo_cloudflare_conf_def ok_result at_0_def dict_at_def)
next
  show "map_of (rp_args demo_cloudflare_conf) ''zone_id'' \<in> {None, Some [], Some ''z1''}" by (simp add: demo_cloudflare_conf_def)
qed

section \<open>Properties\<close>

lemma registered_parts:
  assumes "cloudflare_registered app h service failed (g, ds) (g', ds')" and "tunnel_ok g"
  shows "record_at ds h = Some d \<Longrightarrow> dn_app d \<noteq> Some app \<Longrightarrow> failed \<and> g' = g \<and> ds' = ds"
    and "tunnel_ok g'" and "settings_of g' = settings_of g" and "rules_not_for h g' = rules_not_for h g"
    and "n \<noteq> h \<Longrightarrow> List.filter (\<lambda>d. dn_name d = n) ds' = List.filter (\<lambda>d. dn_name d = n) ds"
    and "\<not> failed \<Longrightarrow> rules_of g' = rules_not_for h g @ [app_rule h service]"
    and "\<not> failed \<Longrightarrow> \<exists>d. record_at ds' h = Some d \<and> dn_app d = Some app"
proof -
  show "record_at ds h = Some d \<Longrightarrow> dn_app d \<noteq> Some app \<Longrightarrow> failed \<and> g' = g \<and> ds' = ds"
    using assms(1) by (auto simp: cloudflare_registered_def)
  show "tunnel_ok g'" "settings_of g' = settings_of g" "rules_not_for h g' = rules_not_for h g"
    "\<not> failed \<Longrightarrow> rules_of g' = rules_not_for h g @ [app_rule h service]"
    using assms by (auto simp: cloudflare_registered_def rules_set_def)
  have set: "ds' = ds \<or> record_set h app failed ds ds'" using assms(1) by (auto simp: cloudflare_registered_def)
  then show "n \<noteq> h \<Longrightarrow> List.filter (\<lambda>d. dn_name d = n) ds' = List.filter (\<lambda>d. dn_name d = n) ds"
    by (auto simp: record_set_def split: option.splits)
  assume "\<not> failed"
  with assms(1) have own: "\<forall>d. record_at ds h = Some d \<longrightarrow> dn_app d = Some app" and "record_set h app False ds ds'"
    by (auto simp: cloudflare_registered_def)
  then show "\<exists>d. record_at ds' h = Some d \<and> dn_app d = Some app"
    by (cases "record_at ds h") (auto simp: record_set_def record_at_append, simp add: record_at_def)
qed

text \<open>C37: registering a route leaves the rules and the records of every other name, the tunnel's settings and the
  kelso store as they were, whether it succeeds or not; a name whose record is not this app's is refused and
  left alone; a success leaves one rule for the name, to the app's address and port, and its record the app's.\<close>

theorem cloudflare_registers_one_name:
  assumes "cloudflare_service env conf zone tun dns" and "tunnel_ok (tun w)" and "distinct (List.map dn_id (dns w))"
    and "h = full_name sub domain" and "h \<noteq> []"
    and "po_register (cloudflare_ops env tag conf address) tag app port sub domain sch (w, db) = (u, (w', db'))"
  shows "(\<forall>d. record_at (dns w) h = Some d \<and> dn_app d \<noteq> Some app \<longrightarrow> isl u \<and> tun w' = tun w \<and> dns w' = dns w) \<and>
    tunnel_ok (tun w') \<and> settings_of (tun w') = settings_of (tun w) \<and> rules_not_for h (tun w') = rules_not_for h (tun w) \<and>
    (\<forall>n. n \<noteq> h \<longrightarrow> List.filter (\<lambda>d. dn_name d = n) (dns w') = List.filter (\<lambda>d. dn_name d = n) (dns w)) \<and> db' = db \<and>
    (\<not> isl u \<longrightarrow> rules_of (tun w') = rules_not_for h (tun w) @ [app_rule h (sch @ ''://'' @ address @ '':'' @ str_of_int port)] \<and>
       (\<exists>d. record_at (dns w') h = Some d \<and> dn_app d = Some app))"
proof -
  from assms(6) have "cloudflare_with env tag conf address (cloudflare_register env app port sub domain sch) (w, db) = (u, (w', db'))"
    by (simp add: cloudflare_ops_def)
  then show ?thesis
  proof (cases rule: cloudflare_with_E)
    case unbuilt
    with assms(2) show ?thesis by simp
  next
    case (ran c ss ss')
    note b = cloudflare_service.built_session [OF assms(1) ran(1)]
    have ok: "tunnel_ok (tun (ss_world ss))" "distinct (List.map dn_id (dns (ss_world ss)))" "full_name sub domain \<noteq> []"
      using b(3) assms(2-5) by simp_all
    note did = cloudflare_service.register_does [OF assms(1) ran(2) b(1,2) ok]
    have st': "ss_world ss' = w'" "db' = db" using ran(3) did(2) b(4) by simp_all
    have "cloudflare_registered app h (sch @ ''://'' @ address @ '':'' @ str_of_int port) (isl u) (tun w, dns w) (tun w', dns w')"
      using did(1) b(3,5) st'(1) assms(4) by simp
    note parts = registered_parts [OF this assms(2)]
    from parts st'(2) show ?thesis by blast
  qed
qed

text \<open>Removing a route leaves the rules and the records of every other name, the tunnel's settings and the kelso
  store as they were; a success leaves no rule for the name, and takes its record away where a kelso app owns it.\<close>

lemma cloudflare_unregisters_one_name:
  assumes "cloudflare_service env conf zone tun dns" and "tunnel_ok (tun w)" and "distinct (List.map dn_id (dns w))"
    and "h = full_name sub domain"
    and "po_unregister (cloudflare_ops env tag conf address) tag sub domain (w, db) = (u, (w', db'))"
  shows "tunnel_ok (tun w') \<and> settings_of (tun w') = settings_of (tun w) \<and> rules_not_for h (tun w') = rules_not_for h (tun w) \<and>
    (\<forall>n. n \<noteq> h \<longrightarrow> List.filter (\<lambda>d. dn_name d = n) (dns w') = List.filter (\<lambda>d. dn_name d = n) (dns w)) \<and> db' = db \<and>
    (\<forall>d. record_at (dns w) h = Some d \<and> dn_app d = None \<longrightarrow> dns w' = dns w) \<and>
    (\<not> isl u \<longrightarrow> rules_of (tun w') = rules_not_for h (tun w) \<and>
       (\<forall>d. record_at (dns w) h = Some d \<and> dn_app d \<noteq> None \<longrightarrow> d \<notin> set (dns w')))"
proof -
  from assms(5) have "cloudflare_with env tag conf address (cloudflare_unregister env sub domain) (w, db) = (u, (w', db'))"
    by (simp add: cloudflare_ops_def)
  then show ?thesis
  proof (cases rule: cloudflare_with_E)
    case unbuilt
    with assms(2) show ?thesis by simp
  next
    case (ran c ss ss')
    note b = cloudflare_service.built_session [OF assms(1) ran(1)]
    have ok: "tunnel_ok (tun (ss_world ss))" using b(3) assms(2) by simp
    note did = cloudflare_service.unregister_does [OF assms(1) ran(2) b(1,2) ok]
    have st': "ss_world ss' = w'" "db' = db" using ran(3) did(2) b(4) by simp_all
    have un: "cloudflare_unregistered h (isl u) (tun w, dns w) (tun w', dns w')" using did(1) b(3) st'(1) assms(4) by simp
    then have rules: "tunnel_ok (tun w')" "settings_of (tun w') = settings_of (tun w)" "rules_not_for h (tun w') = rules_not_for h (tun w)"
      "\<not> isl u \<Longrightarrow> rules_of (tun w') = rules_not_for h (tun w)"
      using assms(2) by (auto simp: cloudflare_unregistered_def rules_set_def)
    have dropped: "record_dropped h (isl u) (dns w) (dns w')" using un dropped_kept by (auto simp: cloudflare_unregistered_def)
    have others: "List.filter (\<lambda>d. dn_name d = n) (dns w') = List.filter (\<lambda>d. dn_name d = n) (dns w)" if "n \<noteq> h" for n
      using dropped other_records [OF assms(3) _ that] by (auto simp: record_dropped_def split: option.splits if_splits)
    have mine: "\<forall>d. record_at (dns w) h = Some d \<and> dn_app d = None \<longrightarrow> dns w' = dns w"
      "\<not> isl u \<Longrightarrow> \<forall>d. record_at (dns w) h = Some d \<and> dn_app d \<noteq> None \<longrightarrow> d \<notin> set (dns w')"
      using dropped by (auto simp: record_dropped_def)
    from rules others mine st'(2) show ?thesis by blast
  qed
qed

definition demo_cloudflare_world :: "json \<times> dns_entry list" where
  "demo_cloudflare_world = (JObj [(''ingress'', JArr [app_rule ''wiki.example.org'' ''http://10.0.0.2:8080'', CATCH_ALL])],
     [\<lparr>dn_id = ''r1'', dn_name = ''blog.example.org'', dn_app = None\<rparr>, \<lparr>dn_id = ''r2'', dn_name = ''wiki.example.org'', dn_app = Some ''org.wiki''\<rparr>])"

lemma demo_cloudflare_world_ok: "tunnel_ok (fst demo_cloudflare_world)" "distinct (List.map dn_id (snd demo_cloudflare_world))"
proof -
  have "\<forall>rule \<in> set [app_rule ''wiki.example.org'' ''http://10.0.0.2:8080'', CATCH_ALL]. hosted rule \<or> rule_host rule \<in> {Inr JNull, Inr (JStr [])}"
    by (simp add: app_rule_hosted rule_host_def CATCH_ALL_def dict_get_def)
  then show "tunnel_ok (fst demo_cloudflare_world)" unfolding tunnel_ok_def demo_cloudflare_world_def fst_conv
    by (intro exI [of _ "[(''ingress'', JArr [app_rule ''wiki.example.org'' ''http://10.0.0.2:8080'', CATCH_ALL])]"] conjI refl
        exI [of _ "[app_rule ''wiki.example.org'' ''http://10.0.0.2:8080'', CATCH_ALL]"]) simp_all
qed (simp add: demo_cloudflare_world_def)

text \<open>The blog's record is not kelso's: the route is refused, and nothing changes.\<close>

theorem cloudflare_registers_one_name_witness:
  "\<exists>u db'. po_register (cloudflare_ops demo_cloudflare_env ''home'' demo_cloudflare_conf ''10.0.0.2'') ''home'' ''org.demo'' 8081 ''blog'' ''example.org'' ''http''
      (demo_cloudflare_world, [(''system/secrets/cloudflare'', JStr ''key'')]) = (u, (demo_cloudflare_world, db')) \<and> isl u"
proof -
  let ?ops = "cloudflare_ops demo_cloudflare_env ''home'' demo_cloudflare_conf ''10.0.0.2''" and ?db = "[(''system/secrets/cloudflare'', JStr ''key'')]"
  obtain u w' db' where run: "po_register ?ops ''home'' ''org.demo'' 8081 ''blog'' ''example.org'' ''http'' (demo_cloudflare_world, ?db) = (u, (w', db'))"
    by (metis prod.exhaust)
  have "\<exists>d. record_at (snd demo_cloudflare_world) (full_name ''blog'' ''example.org'') = Some d \<and> dn_app d \<noteq> Some ''org.demo''"
    by (simp add: demo_cloudflare_world_def record_at_def full_name_def)
  moreover have "full_name ''blog'' ''example.org'' \<noteq> []" by (simp add: full_name_def)
  note cloudflare_registers_one_name [OF demo_cloudflare.cloudflare_service_axioms demo_cloudflare_world_ok refl this run]
  ultimately have "isl u \<and> fst w' = fst demo_cloudflare_world \<and> snd w' = snd demo_cloudflare_world" by blast
  then show ?thesis using run by (metis prod.expand)
qed

text \<open>Removing the wiki leaves the blog's record and drops the wiki's rule, where it succeeds.\<close>

lemma cloudflare_unregisters_one_name_witness:
  "\<exists>u w' db'. po_unregister (cloudflare_ops demo_cloudflare_env ''home'' demo_cloudflare_conf ''10.0.0.2'') ''home'' ''wiki'' ''example.org''
      (demo_cloudflare_world, [(''system/secrets/cloudflare'', JStr ''key'')]) = (u, (w', db')) \<and>
    List.filter (\<lambda>d. dn_name d = ''blog.example.org'') (snd w') = [\<lparr>dn_id = ''r1'', dn_name = ''blog.example.org'', dn_app = None\<rparr>] \<and>
    (\<not> isl u \<longrightarrow> rules_of (fst w') = [])"
proof -
  let ?ops = "cloudflare_ops demo_cloudflare_env ''home'' demo_cloudflare_conf ''10.0.0.2''" and ?db = "[(''system/secrets/cloudflare'', JStr ''key'')]"
  let ?h = "full_name ''wiki'' ''example.org''"
  obtain u w' db' where run: "po_unregister ?ops ''home'' ''wiki'' ''example.org'' (demo_cloudflare_world, ?db) = (u, (w', db'))"
    by (metis prod.exhaust)
  have h: "''blog.example.org'' \<noteq> ?h" by (simp add: full_name_def)
  have rules: "rules_not_for ?h (fst demo_cloudflare_world) = []"
    by (simp add: rules_not_for_def rules_of_def cloudflare_rules_def demo_cloudflare_world_def dict_get_def or_empty_def truthy_def
        app_rule_hosted(2) rule_host_def CATCH_ALL_def full_name_def app_rule_def)
  have blog: "List.filter (\<lambda>d. dn_name d = ''blog.example.org'') (snd demo_cloudflare_world) = [\<lparr>dn_id = ''r1'', dn_name = ''blog.example.org'', dn_app = None\<rparr>]"
    by (simp add: demo_cloudflare_world_def)
  note did = cloudflare_unregisters_one_name [OF demo_cloudflare.cloudflare_service_axioms demo_cloudflare_world_ok refl run]
  from did have "\<forall>n. n \<noteq> ?h \<longrightarrow> List.filter (\<lambda>d. dn_name d = n) (snd w') = List.filter (\<lambda>d. dn_name d = n) (snd demo_cloudflare_world)" by blast
  from this [rule_format, OF h] have "List.filter (\<lambda>d. dn_name d = ''blog.example.org'') (snd w') = [\<lparr>dn_id = ''r1'', dn_name = ''blog.example.org'', dn_app = None\<rparr>]"
    unfolding blog .
  moreover from did have "\<not> isl u \<longrightarrow> rules_of (fst w') = []" unfolding rules by blast
  ultimately show ?thesis using run by blast
qed

text \<open>A registration whose rule was written and whose record was not: the name is listed, owned by nobody, which
  kelso takes for another's from then on.\<close>

lemma rule_without_record_reads_foreign:
  assumes "cloudflare_service env conf zone tun dns" and "tunnel_ok (tun w)" and "single_label sub"
    and "app_rule (full_name sub (rp_domain conf)) service \<in> set (rules_of (tun w))" and "record_at (dns w) (full_name sub (rp_domain conf)) = None"
    and "po_owners (cloudflare_ops env tag conf address) tag (w, db) = (Inr owners, st')"
  shows "map_of owners sub = Some None"
  using cloudflare_service.owners_listed(2) [OF assms(1,6,2) refl, of sub] assms(3-5) app_rule_hosted(2) by auto

end
