(* ===== verification/Providers.thy ===== *)
theory Providers
  imports Npm Pangolin Cloudflare
begin

text \<open>
  \<^verbatim>\<open>kelso/lib/routes/__init__.py\<close>: the provider of each tag, built from its block in config.toml for each use, and the
  interface of \<open>route_provider\<close> for all of them together. Each tag has a server of its own.
\<close>

section \<open>The provider of a tag\<close>

record ('w, 's) servers =
  sv_npm :: "('w, 's) npm_env"
  sv_pangolin :: "('w, 's) pangolin_env"
  sv_cloudflare :: "('w, 's) cloudflare_env"

type_synonym ('w, 's) served = "(string \<Rightarrow> 'w) \<times> 's"

text \<open>A \<^verbatim>\<open>NoopRouteProvider\<close> made anew: what it records is gone with it.\<close>

definition new_noop :: noop_provider where
  "new_noop = \<lparr>np_routes = [], np_owners = []\<rparr>"

definition passing_ops :: "'st provider_ops" where
  "passing_ops =
     \<lparr>po_get = (\<lambda>t st. Inr ()),
      po_owners = (\<lambda>t. ret (noop_route_owners new_noop)),
      po_register = (\<lambda>t app port sub domain sch. liftA (andthen (noop_register new_noop app port sub domain) (\<lambda>p. Inr ()))),
      po_unregister = (\<lambda>t sub domain. ret ())\<rparr>"

definition no_provider_ops :: "'st provider_ops" where
  "no_provider_ops =
     \<lparr>po_get = (\<lambda>t st. Inl (NoProvider t)), po_owners = (\<lambda>t. raise (NoProvider t)),
      po_register = (\<lambda>t app port sub domain sch. raise (NoProvider t)), po_unregister = (\<lambda>t sub domain. raise (NoProvider t))\<rparr>"

fun provider_of_kind ::
    "('w, 's) servers \<Rightarrow> string \<Rightarrow> route_provider_entry \<Rightarrow> string \<Rightarrow> provider_kind \<Rightarrow> ('w \<times> 's) provider_ops" where
  "provider_of_kind env tag conf address NginxProxyManager = npm_ops (sv_npm env) tag conf address"
| "provider_of_kind env tag conf address Pangolin = pangolin_ops (sv_pangolin env) tag conf address"
| "provider_of_kind env tag conf address CloudflareTunnel = cloudflare_ops (sv_cloudflare env) tag conf address"
| "provider_of_kind env tag conf address NoopProvider = passing_ops"

definition get_route_provider :: "('w, 's) servers \<Rightarrow> config \<Rightarrow> string \<Rightarrow> ('w \<times> 's) provider_ops" where
  "get_route_provider env cfg tag =
     (if tag = NONE_ROUTE_PROVIDER_TAG then passing_ops
      else case map_of (cfg_route_providers cfg) tag of
          None \<Rightarrow> no_provider_ops
        | Some conf \<Rightarrow> provider_of_kind env tag conf (cfg_kelso_address cfg) (rp_kind conf))"

text \<open>A step at the server of a tag, on the kelso store all of them share.\<close>

definition at_tag :: "string \<Rightarrow> ('w \<times> 's, 'e, 'a) act \<Rightarrow> (('w, 's) served, 'e, 'a) act" where
  "at_tag tag m st = (case m (fst st tag, snd st) of (r, (w, db)) \<Rightarrow> (r, ((fst st)(tag := w), db)))"

definition box_providers :: "('w, 's) servers \<Rightarrow> config \<Rightarrow> ('w, 's) served provider_ops" where
  "box_providers env cfg =
     \<lparr>po_get = (\<lambda>t st. po_get (get_route_provider env cfg t) t (fst st t, snd st)),
      po_owners = (\<lambda>t. at_tag t (po_owners (get_route_provider env cfg t) t)),
      po_register = (\<lambda>t app port sub domain sch. at_tag t (po_register (get_route_provider env cfg t) t app port sub domain sch)),
      po_unregister = (\<lambda>t sub domain. at_tag t (po_unregister (get_route_provider env cfg t) t sub domain))\<rparr>"

section \<open>All providers keep the promise\<close>

text \<open>What each server holds, by its tag: the hosts it lists, or a tunnel's configuration and the records of a zone.\<close>

record 'w server_views =
  vw_hosts :: "string \<Rightarrow> 'w \<Rightarrow> host_entry list"
  vw_tunnel :: "string \<Rightarrow> 'w \<Rightarrow> json"
  vw_records :: "string \<Rightarrow> 'w \<Rightarrow> dns_entry list"

definition lists_hosts :: "provider_kind \<Rightarrow> bool" where
  "lists_hosts k \<longleftrightarrow> k \<in> {NginxProxyManager, Pangolin}"

text \<open>Who holds a name at the provider of a tag, as a rule routes it where that is a tunnel.\<close>

definition server_owner :: "'w server_views \<Rightarrow> string \<Rightarrow> route_provider_entry \<Rightarrow> 'w \<Rightarrow> string \<Rightarrow> string option option" where
  "server_owner vw tag conf w sub =
     (let h = full_name sub (rp_domain conf)
      in if \<not> single_label sub then None
         else if lists_hosts (rp_kind conf) then map_option he_app (host_at (vw_hosts vw tag w) h)
         else if rp_kind conf = CloudflareTunnel \<and> (\<exists>rule \<in> set (rules_of (vw_tunnel vw tag w)). rule_host rule = Inr (JStr h))
         then Some (case record_at (vw_records vw tag w) h of None \<Rightarrow> None | Some d \<Rightarrow> dn_app d)
         else None)"

definition configured :: "config \<Rightarrow> string \<Rightarrow> route_provider_entry option" where
  "configured cfg tag = (if tag = NONE_ROUTE_PROVIDER_TAG then None else map_of (cfg_route_providers cfg) tag)"

definition box_owner :: "config \<Rightarrow> 'w server_views \<Rightarrow> ('w, 's) served \<Rightarrow> string \<Rightarrow> string \<Rightarrow> string option option" where
  "box_owner cfg vw st tag sub =
     (case configured cfg tag of None \<Rightarrow> None | Some conf \<Rightarrow> server_owner vw tag conf (fst st tag) sub)"

definition server_ok :: "'w server_views \<Rightarrow> string \<Rightarrow> route_provider_entry \<Rightarrow> 'w \<Rightarrow> bool" where
  "server_ok vw tag conf w \<longleftrightarrow>
     (lists_hosts (rp_kind conf) \<longrightarrow> tidy_hosts (vw_hosts vw tag w)) \<and>
     (rp_kind conf = CloudflareTunnel \<longrightarrow> tunnel_ok (vw_tunnel vw tag w))"

definition servers_ok :: "config \<Rightarrow> 'w server_views \<Rightarrow> ('w, 's) served \<Rightarrow> bool" where
  "servers_ok cfg vw st \<longleftrightarrow> (\<forall>tag conf. configured cfg tag = Some conf \<longrightarrow> server_ok vw tag conf (fst st tag))"

text \<open>The names kept apart: one label under the domain of a provider that lists its hosts.\<close>

definition hosted_names :: "config \<Rightarrow> string \<Rightarrow> string \<Rightarrow> string \<Rightarrow> bool" where
  "hosted_names cfg tag sub d \<longleftrightarrow>
     (\<exists>conf. configured cfg tag = Some conf \<and> lists_hosts (rp_kind conf) \<and> single_label sub \<and> d = rp_domain conf)"

text \<open>What the servers behind the configured tags promise.\<close>

definition servers_promise :: "('w, 's) servers \<Rightarrow> config \<Rightarrow> 'w server_views \<Rightarrow> bool" where
  "servers_promise env cfg vw \<longleftrightarrow>
     (\<forall>tag conf. configured cfg tag = Some conf \<longrightarrow>
        (case rp_kind conf of
           NginxProxyManager \<Rightarrow> npm_service (sv_npm env) conf (vw_hosts vw tag)
         | Pangolin \<Rightarrow> (\<exists>zone. pangolin_service (sv_pangolin env) conf (vw_hosts vw tag) zone)
         | CloudflareTunnel \<Rightarrow> (\<exists>zone. cloudflare_service (sv_cloudflare env) conf zone (vw_tunnel vw tag) (vw_records vw tag))
         | NoopProvider \<Rightarrow> True))"

lemma at_tag_E:
  assumes "at_tag tag m st = (r, st')"
  obtains w db where "m (fst st tag, snd st) = (r, (w, db))" "st' = ((fst st)(tag := w), db)"
  using assms by (auto simp: at_tag_def split: prod.splits)

lemma provider_found: "configured cfg tag = Some conf \<Longrightarrow>
    get_route_provider env cfg tag = provider_of_kind env tag conf (cfg_kelso_address cfg) (rp_kind conf)"
  by (simp add: configured_def get_route_provider_def split: if_splits)

lemma host_server:
  assumes "servers_promise env cfg vw" and "configured cfg tag = Some conf" and "lists_hosts (rp_kind conf)"
  shows "route_provider (get_route_provider env cfg tag) (tidy_state (\<lambda>st. vw_hosts vw tag (fst st)))
    (name_owner (\<lambda>st. vw_hosts vw tag (fst st)) tag (rp_domain conf)) (provider_names tag (rp_domain conf))"
proof -
  have "host_provider (get_route_provider env cfg tag) tag (rp_domain conf) (\<lambda>st. vw_hosts vw tag (fst st))"
  proof (cases "rp_kind conf")
    case NginxProxyManager
    with assms have "npm_service (sv_npm env) conf (vw_hosts vw tag)" unfolding servers_promise_def by fastforce
    from npm_service.provider [OF this] NginxProxyManager show ?thesis by (simp add: provider_found [OF assms(2)])
  next
    case Pangolin
    with assms obtain zone where "pangolin_service (sv_pangolin env) conf (vw_hosts vw tag) zone" unfolding servers_promise_def by fastforce
    from pangolin_service.provider [OF this] Pangolin show ?thesis by (simp add: provider_found [OF assms(2)])
  qed (use assms(3) in \<open>simp_all add: lists_hosts_def\<close>)
  then show ?thesis by (rule host_provider.promise)
qed

lemma host_server_owner:
  assumes "lists_hosts (rp_kind conf)"
  shows "name_owner (\<lambda>st. vw_hosts vw tag (fst st)) tag (rp_domain conf) st tag = server_owner vw tag conf (fst st)"
  using assms by (auto simp: name_owner_def server_owner_def fun_eq_iff)

lemma servers_stay:
  assumes "servers_ok cfg vw st" and "\<And>conf. configured cfg tag = Some conf \<Longrightarrow> server_ok vw tag conf w"
  shows "servers_ok cfg vw ((fst st)(tag := w), db)"
  using assms by (simp add: servers_ok_def)

lemma owner_elsewhere: "t \<noteq> tag \<Longrightarrow> box_owner cfg vw ((fst st)(tag := w), db) t s = box_owner cfg vw st t s"
  by (simp add: box_owner_def split: option.split)

lemma passing_owners: "po_owners passing_ops tag st = (Inr [], st)"
  by (simp add: passing_ops_def noop_route_owners_def new_noop_def)

lemma owners_at_server:
  assumes "servers_promise env cfg vw" and "servers_ok cfg vw st"
    and run: "po_owners (get_route_provider env cfg tag) tag (fst st tag, snd st) = (r, (w, db))"
  shows "configured cfg tag = Some conf \<Longrightarrow> server_ok vw tag conf w \<and> server_owner vw tag conf w = server_owner vw tag conf (fst st tag)"
    and "r = Inr d \<Longrightarrow> map_of d = (case configured cfg tag of None \<Rightarrow> Map.empty | Some conf \<Rightarrow> server_owner vw tag conf (fst st tag))"
proof -
  have "(\<forall>conf. configured cfg tag = Some conf \<longrightarrow> server_ok vw tag conf w \<and> server_owner vw tag conf w = server_owner vw tag conf (fst st tag)) \<and>
      (\<forall>d. r = Inr d \<longrightarrow> map_of d = (case configured cfg tag of None \<Rightarrow> Map.empty | Some conf \<Rightarrow> server_owner vw tag conf (fst st tag)))"
  proof (cases "configured cfg tag")
    case None
    with run show ?thesis
      by (auto simp: configured_def get_route_provider_def passing_owners no_provider_ops_def split: if_splits)
  next
    case (Some conf)
    with assms(2) have ok: "server_ok vw tag conf (fst st tag)" by (simp add: servers_ok_def)
    show ?thesis
    proof (cases "lists_hosts (rp_kind conf)")
      case True
      have "tidy_state (\<lambda>st. vw_hosts vw tag (fst st)) (fst st tag, snd st)" using ok True by (simp add: tidy_state_def server_ok_def)
      from route_provider.owners_law [OF host_server [OF assms(1) Some True] this run] True Some show ?thesis
        by (auto simp: tidy_state_def server_ok_def lists_hosts_def host_server_owner [OF True, symmetric, of vw tag "(w, db)", simplified]
            host_server_owner [OF True, symmetric, of vw tag "(fst st tag, snd st)", simplified])
    next
      case False
      show ?thesis
      proof (cases "rp_kind conf")
        case CloudflareTunnel
        with assms(1) Some obtain zone where s: "cloudflare_service (sv_cloudflare env) conf zone (vw_tunnel vw tag) (vw_records vw tag)"
          unfolding servers_promise_def by fastforce
        from run CloudflareTunnel have q: "po_owners (cloudflare_ops (sv_cloudflare env) tag conf (cfg_kelso_address cfg)) tag (fst st tag, snd st) = (r, (w, db))"
          by (simp add: provider_found [OF Some])
        have tunnel: "tunnel_ok (vw_tunnel vw tag (fst st tag))" using ok CloudflareTunnel by (simp add: server_ok_def)
        note listed = cloudflare_service.owners_listed [OF s q tunnel]
        have "server_owner vw tag conf w = server_owner vw tag conf (fst st tag)" using listed(1) by (simp add: server_owner_def fun_eq_iff CloudflareTunnel lists_hosts_def Let_def cong: if_cong)
        moreover have "server_ok vw tag conf w" using listed(1) ok by (simp add: server_ok_def CloudflareTunnel lists_hosts_def)
        moreover have "map_of d = server_owner vw tag conf (fst st tag)" if "r = Inr d" for d
          by (rule ext) (simp add: listed(2) [OF that] server_owner_def CloudflareTunnel lists_hosts_def Let_def cong: if_cong)
        ultimately show ?thesis using Some by simp
      next
        case NoopProvider
        with run Some have "r = Inr []" "w = fst st tag" by (simp_all add: provider_found passing_owners)
        with Some ok NoopProvider show ?thesis by (auto simp: server_owner_def lists_hosts_def fun_eq_iff Let_def cong: if_cong)
      qed (use False in \<open>simp_all add: lists_hosts_def\<close>)
    qed
  qed
  then show "configured cfg tag = Some conf \<Longrightarrow> server_ok vw tag conf w \<and> server_owner vw tag conf w = server_owner vw tag conf (fst st tag)"
    "r = Inr d \<Longrightarrow> map_of d = (case configured cfg tag of None \<Rightarrow> Map.empty | Some conf \<Rightarrow> server_owner vw tag conf (fst st tag))" by blast+
qed

lemma box_promise:
  assumes "servers_promise env cfg vw"
  shows "route_provider (box_providers env cfg) (servers_ok cfg vw) (box_owner cfg vw) (hosted_names cfg)"
proof
  fix st st' :: "('a, 'b) served" and tag r
  assume ok: "servers_ok cfg vw st" and run: "po_owners (box_providers env cfg) tag st = (r, st')"
  from run obtain w db where q: "po_owners (get_route_provider env cfg tag) tag (fst st tag, snd st) = (r, (w, db))" "st' = ((fst st)(tag := w), db)"
    by (auto simp: box_providers_def elim: at_tag_E)
  note owners = owners_at_server [OF assms ok q(1)]
  have "box_owner cfg vw st' t s = box_owner cfg vw st t s" for t s
  proof (cases "t = tag")
    case True
    with owners(1) show ?thesis by (simp add: q(2) box_owner_def split: option.split)
  qed (simp add: q(2) owner_elsewhere)
  moreover have "servers_ok cfg vw st'" unfolding q(2) by (rule servers_stay [OF ok]) (use owners(1) in simp)
  moreover have "map_of d = box_owner cfg vw st tag" if "r = Inr d" for d
    using owners(2) [OF that] by (simp add: box_owner_def fun_eq_iff split: option.split)
  ultimately show "servers_ok cfg vw st' \<and> box_owner cfg vw st' = box_owner cfg vw st \<and> (\<forall>d. r = Inr d \<longrightarrow> map_of d = box_owner cfg vw st tag)"
    by (simp add: fun_eq_iff)
next
  fix st st' :: "('a, 'b) served" and tag sub domain app port sch u
  assume ok: "servers_ok cfg vw st" and named: "hosted_names cfg tag sub domain"
    and run: "po_register (box_providers env cfg) tag app port sub domain sch st = (u, st')"
  from run obtain w db where q: "po_register (get_route_provider env cfg tag) tag app port sub domain sch (fst st tag, snd st) = (u, (w, db))"
    "st' = ((fst st)(tag := w), db)" by (auto simp: box_providers_def elim: at_tag_E)
  from named obtain conf where conf: "configured cfg tag = Some conf" "lists_hosts (rp_kind conf)" "single_label sub" "domain = rp_domain conf"
    unfolding hosted_names_def by blast
  note owner = host_server_owner [OF conf(2), of vw tag]
  have "tidy_state (\<lambda>st. vw_hosts vw tag (fst st)) (fst st tag, snd st)" using ok conf(1,2) by (simp add: tidy_state_def servers_ok_def server_ok_def)
  note law = route_provider.register_law [OF host_server [OF assms conf(1,2)] this _ q(1), unfolded provider_names_def]
  have frame: "server_owner vw tag conf w s = server_owner vw tag conf (fst st tag) s" if "s \<noteq> sub" for s
  proof -
    have "name_owner (\<lambda>st. vw_hosts vw tag (fst st)) tag (rp_domain conf) (w, db) tag s =
        name_owner (\<lambda>st. vw_hosts vw tag (fst st)) tag (rp_domain conf) (fst st tag, snd st) tag s"
      using law conf(3,4) that by simp
    then show ?thesis unfolding owner by simp
  qed
  have law': "tidy_hosts (vw_hosts vw tag w) \<and> (\<forall>s. s \<noteq> sub \<longrightarrow> server_owner vw tag conf w s = server_owner vw tag conf (fst st tag) s) \<and>
      (server_owner vw tag conf (fst st tag) sub \<notin> {None, Some (Some app)} \<longrightarrow> isl u \<and> server_owner vw tag conf w sub = server_owner vw tag conf (fst st tag) sub) \<and>
      (\<not> isl u \<longrightarrow> server_owner vw tag conf w sub = Some (Some app))"
    using law conf(3,4) frame owner [of "(w, db)"] owner [of "(fst st tag, snd st)"] by (simp add: tidy_state_def)
  have here: "box_owner cfg vw st' tag s = server_owner vw tag conf w s" "box_owner cfg vw st tag s = server_owner vw tag conf (fst st tag) s" for s
    by (simp_all add: box_owner_def conf(1) q(2))
  have "servers_ok cfg vw st'" unfolding q(2) by (rule servers_stay [OF ok]) (use law' conf in \<open>auto simp: server_ok_def lists_hosts_def\<close>)
  moreover have "box_owner cfg vw st' t s = box_owner cfg vw st t s" if "(t, s) \<noteq> (tag, sub)" for t s
    using that law' here owner_elsewhere [of t tag cfg vw st w db s] by (cases "t = tag") (auto simp: q(2))
  ultimately show "servers_ok cfg vw st' \<and> (\<forall>t s. (t, s) \<noteq> (tag, sub) \<longrightarrow> box_owner cfg vw st' t s = box_owner cfg vw st t s) \<and>
      (box_owner cfg vw st tag sub \<notin> {None, Some (Some app)} \<longrightarrow> isl u \<and> box_owner cfg vw st' tag sub = box_owner cfg vw st tag sub) \<and>
      (\<not> isl u \<longrightarrow> box_owner cfg vw st' tag sub = Some (Some app))"
    using law' here by simp
next
  fix st st' :: "('a, 'b) served" and tag sub domain u
  assume ok: "servers_ok cfg vw st" and named: "hosted_names cfg tag sub domain" and own: "box_owner cfg vw st tag sub \<noteq> Some None"
    and run: "po_unregister (box_providers env cfg) tag sub domain st = (u, st')"
  from run obtain w db where q: "po_unregister (get_route_provider env cfg tag) tag sub domain (fst st tag, snd st) = (u, (w, db))"
    "st' = ((fst st)(tag := w), db)" by (auto simp: box_providers_def elim: at_tag_E)
  from named obtain conf where conf: "configured cfg tag = Some conf" "lists_hosts (rp_kind conf)" "single_label sub" "domain = rp_domain conf"
    unfolding hosted_names_def by blast
  have here: "box_owner cfg vw st' tag s = server_owner vw tag conf w s" "box_owner cfg vw st tag s = server_owner vw tag conf (fst st tag) s" for s
    by (simp_all add: box_owner_def conf(1) q(2))
  note owner = host_server_owner [OF conf(2), of vw tag]
  have "tidy_state (\<lambda>st. vw_hosts vw tag (fst st)) (fst st tag, snd st)" using ok conf(1,2) by (simp add: tidy_state_def servers_ok_def server_ok_def)
  note law = route_provider.unregister_law [OF host_server [OF assms conf(1,2)] this _ _ q(1), unfolded provider_names_def]
  have frame: "server_owner vw tag conf w s = server_owner vw tag conf (fst st tag) s" if "s \<noteq> sub" for s
  proof -
    have "name_owner (\<lambda>st. vw_hosts vw tag (fst st)) tag (rp_domain conf) (w, db) tag s =
        name_owner (\<lambda>st. vw_hosts vw tag (fst st)) tag (rp_domain conf) (fst st tag, snd st) tag s"
      using law conf(3,4) that own here(2) owner [of "(fst st tag, snd st)"] by simp
    then show ?thesis unfolding owner by simp
  qed
  have law': "tidy_hosts (vw_hosts vw tag w) \<and> (\<forall>s. s \<noteq> sub \<longrightarrow> server_owner vw tag conf w s = server_owner vw tag conf (fst st tag) s) \<and>
      server_owner vw tag conf w sub \<in> {None, server_owner vw tag conf (fst st tag) sub} \<and> (\<not> isl u \<longrightarrow> server_owner vw tag conf w sub = None)"
    using law conf(3,4) frame owner [of "(w, db)"] owner [of "(fst st tag, snd st)"] own here(2) by (simp add: tidy_state_def)
  have "servers_ok cfg vw st'" unfolding q(2) by (rule servers_stay [OF ok]) (use law' conf in \<open>auto simp: server_ok_def lists_hosts_def\<close>)
  moreover have "box_owner cfg vw st' t s = box_owner cfg vw st t s" if "(t, s) \<noteq> (tag, sub)" for t s
    using that law' here owner_elsewhere [of t tag cfg vw st w db s] by (cases "t = tag") (auto simp: q(2))
  ultimately show "servers_ok cfg vw st' \<and> (\<forall>t s. (t, s) \<noteq> (tag, sub) \<longrightarrow> box_owner cfg vw st' t s = box_owner cfg vw st t s) \<and>
      box_owner cfg vw st' tag sub \<in> {None, box_owner cfg vw st tag sub} \<and> (\<not> isl u \<longrightarrow> box_owner cfg vw st' tag sub = None)"
    using law' here by simp
qed

section \<open>Properties\<close>


definition demo_servers :: "(host_entry list, (string, json) dict) servers" where
  "demo_servers =
     \<lparr>sv_npm = demo_npm_env,
      sv_pangolin = demo_pangolin_env,
      sv_cloudflare = \<lparr>cv_send = (\<lambda>rq w. (Inl ''down'', w)), cv_is_float = (\<lambda>t. True), cv_store = memory_store, cv_cipher = noop_engine\<rparr>\<rparr>"

definition demo_views :: "host_entry list server_views" where
  "demo_views = \<lparr>vw_hosts = (\<lambda>tag. if tag = ''lan'' then id else demo_org), vw_tunnel = (\<lambda>tag w. JNull), vw_records = (\<lambda>tag w. [])\<rparr>"

definition demo_served_config :: config where
  "demo_served_config = demo_machine\<lparr>cfg_route_providers := [(''home'', demo_pangolin_conf), (''lan'', demo_npm_conf)]\<rparr>"

definition demo_served :: "(host_entry list, (string, json) dict) served" where
  "demo_served = (\<lambda>tag. fst demo_pangolin_state, snd demo_pangolin_state)"

lemma demo_configured: "configured demo_served_config tag =
    (if tag = ''home'' then Some demo_pangolin_conf else if tag = ''lan'' then Some demo_npm_conf else None)"
  by (simp add: configured_def demo_served_config_def NONE_ROUTE_PROVIDER_TAG_def)

lemma demo_kinds: "rp_kind demo_pangolin_conf = Pangolin" "rp_kind demo_npm_conf = NginxProxyManager" "rp_domain demo_pangolin_conf = ''example.org''"
  by (simp_all add: demo_pangolin_conf_def demo_npm_conf_def)

lemma demo_servers_ok: "servers_promise demo_servers demo_served_config demo_views" "servers_ok demo_served_config demo_views demo_served"
proof -
  have "pangolin_service demo_pangolin_env demo_pangolin_conf demo_org (\<lambda>did. ''example.org'')" by (rule demo_pangolin.pangolin_service_axioms)
  with demo_npm.npm_service_axioms show "servers_promise demo_servers demo_served_config demo_views"
    by (auto simp: servers_promise_def demo_configured demo_servers_def demo_views_def demo_kinds split: if_splits)
  show "servers_ok demo_served_config demo_views demo_served"
    using demo_pangolin_tidy
    by (auto simp: servers_ok_def server_ok_def demo_configured demo_views_def demo_served_def demo_kinds tidy_hosts_def demo_pangolin_state_def split: if_splits)
qed




end
