(* ===== verification/Activity.thy ===== *)
theory Activity
  imports Kelso Cronexpr Effects
begin

text \<open>
  \<^verbatim>\<open>kelso/lib/activity.py\<close>: what runs of kelso's own work leave behind, a file each under one directory and a
  row each in the activity table. The directory is a dict of names; texts are UTF-8 bytes. What a block prints is the
  value it returns, put at the end of the file it was opened on. The echo to a terminal is not modelled.
\<close>

section \<open>Times\<close>

record utc =
  ut_moment :: moment
  ut_second :: nat
  ut_micro :: nat

definition pad2 :: "nat \<Rightarrow> string" where
  "pad2 n = (if n < 10 then CHR ''0'' # str_of_nat n else str_of_nat n)"

definition pad4 :: "nat \<Rightarrow> string" where
  "pad4 n = replicate (4 - length (str_of_nat n)) (CHR ''0'') @ str_of_nat n"

text \<open>\<^verbatim>\<open>strftime("%Y-%m-%dT%H%M%SZ")\<close> and \<^verbatim>\<open>isoformat(timespec="seconds")\<close> of an aware UTC time.\<close>

definition utc_stamp :: "utc \<Rightarrow> string" where
  "utc_stamp t = (case ut_moment t of (y, m, d, h, mi) \<Rightarrow>
     pad4 y @ ''-'' @ pad2 m @ ''-'' @ pad2 d @ ''T'' @ pad2 h @ pad2 mi @ pad2 (ut_second t) @ ''Z'')"

definition utc_iso :: "utc \<Rightarrow> string" where
  "utc_iso t = (case ut_moment t of (y, m, d, h, mi) \<Rightarrow>
     pad4 y @ ''-'' @ pad2 m @ ''-'' @ pad2 d @ ''T'' @ pad2 h @ '':'' @ pad2 mi @ '':'' @ pad2 (ut_second t) @ ''+00:00'')"

definition utc_micros :: "utc \<Rightarrow> int" where
  "utc_micros t = (case ut_moment t of (y, m, d, h, mi) \<Rightarrow>
     int (((ordinal (y, m, d) * 24 + h) * 60 + mi) * 60 + ut_second t) * 1000000 + int (ut_micro t))"

section \<open>The directory and the table\<close>

record act_disk =
  ad_files :: "(string, string) dict"
  ad_log :: logtab
  ad_running :: "string option"

text \<open>\<open>ae_logged\<close>: the clock of the table at a write; \<open>ae_seconds\<close>: milliseconds as seconds with one decimal;
  \<open>ae_elsewhere\<close>: whether a path that is no plain name leads to a file.\<close>

record act_env =
  ae_fromiso :: "string \<Rightarrow> int option"
  ae_logged :: "act_disk \<Rightarrow> string"
  ae_seconds :: "int \<Rightarrow> string"
  ae_elsewhere :: "string \<Rightarrow> bool"

definition KEEP_RUNS :: nat where "KEEP_RUNS = 50"
definition KELSO_DIR :: string where "KELSO_DIR = ''kelso''"

definition index_key :: "string option \<Rightarrow> string" where
  "index_key app = (case app of None \<Rightarrow> KELSO_DIR @ ''/run'' | Some a \<Rightarrow> ''apps/'' @ a @ ''/run'')"

text \<open>\<^verbatim>\<open>while path.exists()\<close>.\<close>

definition counted :: "string \<Rightarrow> nat \<Rightarrow> string" where
  "counted stem n = stem @ ''-'' @ str_of_nat n @ ''.log''"

lemma counted_inj: "counted stem m = counted stem n \<Longrightarrow> m = n"
proof -
  assume "counted stem m = counted stem n"
  then have "str_of_nat m = str_of_nat n" by (simp add: counted_def)
  then show "m = n" by (metis nat_of_str_of_nat)
qed

function free_counter :: "string list \<Rightarrow> string \<Rightarrow> nat \<Rightarrow> nat" where
  "free_counter taken stem n = (if counted stem n \<in> set taken then free_counter taken stem (n + 1) else n)"
  by auto
termination
proof (relation "measure (\<lambda>(taken, stem, n). card {k. n \<le> k \<and> counted stem k \<in> set taken})")
  fix taken stem n
  assume taken: "counted stem n \<in> set taken"
  have "finite (counted stem -` set taken)" by (rule finite_vimageI) (auto simp: inj_def dest: counted_inj)
  then have "finite {k. n \<le> k \<and> counted stem k \<in> set taken}" by (rule rev_finite_subset) auto
  moreover have "n \<in> {k. n \<le> k \<and> counted stem k \<in> set taken} - {k. n + 1 \<le> k \<and> counted stem k \<in> set taken}"
    using taken by simp
  then have "{k. n + 1 \<le> k \<and> counted stem k \<in> set taken} \<subset> {k. n \<le> k \<and> counted stem k \<in> set taken}"
    by (intro psubsetI subsetI) (simp, metis DiffE)
  ultimately have "card {k. n + 1 \<le> k \<and> counted stem k \<in> set taken} < card {k. n \<le> k \<and> counted stem k \<in> set taken}"
    by (rule psubset_card_mono)
  then show "((taken, stem, n + 1), taken, stem, n) \<in> measure (\<lambda>(taken, stem, n). card {k. n \<le> k \<and> counted stem k \<in> set taken})"
    by simp
qed simp

declare free_counter.simps [simp del]

definition run_file :: "string list \<Rightarrow> utc \<Rightarrow> string \<Rightarrow> string option \<Rightarrow> string" where
  "run_file taken started verb app =
     (let stem = utc_stamp started @ ''.'' @ (case app of None \<Rightarrow> [] | Some a \<Rightarrow> a @ ''.'') @ verb
      in if stem @ ''.log'' \<notin> set taken then stem @ ''.log'' else counted stem (free_counter taken stem 2))"

definition run_header :: "string \<Rightarrow> string option \<Rightarrow> utc \<Rightarrow> (string, string) dict \<Rightarrow> string" where
  "run_header verb app started args =
     (let arg_text = join '' '' (List.map (\<lambda>(k, v). k @ ''='' @ v) (sort_key id args))
      in join [LF] ([''# kelso '' @ verb @ (case app of None \<Rightarrow> [] | Some a \<Rightarrow> '' '' @ a), ''# started '' @ utc_iso started]
           @ (if arg_text = [] then [] else [''# args: '' @ arg_text])) @ [LF, LF])"

definition MIDDLE_DOT :: string where "MIDDLE_DOT = [CHR 0xC2, CHR 0xB7]"
definition EM_DASH :: string where "EM_DASH = [CHR 0xE2, CHR 0x80, CHR 0x94]"

definition run_trailer :: "act_env \<Rightarrow> string \<Rightarrow> utc \<Rightarrow> int \<Rightarrow> string" where
  "run_trailer env status finished ms =
     ''# '' @ EM_DASH @ '' '' @ status @ '' '' @ MIDDLE_DOT @ '' finished '' @ utc_iso finished @ '' '' @ MIDDLE_DOT @ '' ''
       @ ae_seconds env ms @ ''s'' @ [LF]"

text \<open>\<^verbatim>\<open>open(path, "a")\<close> makes a file that is gone anew; a handle opened before writes to the file it was opened on.\<close>

definition append_file :: "string \<Rightarrow> string \<Rightarrow> act_disk \<Rightarrow> act_disk" where
  "append_file name text d =
     d\<lparr>ad_files := AList.update name ((case map_of (ad_files d) name of None \<Rightarrow> [] | Some t \<Rightarrow> t) @ text) (ad_files d)\<rparr>"

definition append_open :: "string \<Rightarrow> string \<Rightarrow> act_disk \<Rightarrow> act_disk" where
  "append_open name text d = (if map_of (ad_files d) name = None then d else append_file name text d)"

definition begin_run :: "string \<Rightarrow> (string, string) dict \<Rightarrow> string option \<Rightarrow> utc \<Rightarrow> act_disk \<Rightarrow> string \<times> act_disk" where
  "begin_run verb args app started d =
     (let name = run_file (keys (ad_files d)) started verb app
      in (name, d\<lparr>ad_files := AList.update name (run_header verb app started args) (ad_files d)\<rparr>))"

definition prune :: "act_disk \<Rightarrow> act_disk" where
  "prune d =
     (let names = sort_key id (List.filter (\<lambda>n. path_suffix n = ''.log'') (keys (ad_files d)));
          stale = take (length names - KEEP_RUNS) names
      in d\<lparr>ad_files := List.filter (\<lambda>(n, t). n \<notin> set stale) (ad_files d)\<rparr>)"

definition run_ms :: "utc \<Rightarrow> utc \<Rightarrow> int" where
  "run_ms started finished = max 0 ((utc_micros finished - utc_micros started) div 1000)"

definition run_row :: "string \<Rightarrow> (string, string) dict \<Rightarrow> string \<Rightarrow> int \<Rightarrow> string \<Rightarrow> string \<Rightarrow> json" where
  "run_row verb args status ms relpath by = JObj [
     (''verb'', JStr verb), (''args'', JObj (List.map (\<lambda>(k, v). (k, JStr v)) args)), (''status'', JStr status), (''ms'', JInt ms),
     (''log'', JStr relpath), (''started_by'', JStr by)]"

definition finish_run ::
    "act_env \<Rightarrow> string \<Rightarrow> string \<Rightarrow> string option \<Rightarrow> string \<Rightarrow> utc \<Rightarrow> utc \<Rightarrow> string \<Rightarrow> (string, string) dict
       \<Rightarrow> (act_disk, log_error, unit) act" where
  "finish_run env relpath verb app status started finished by args =
     (let ms = run_ms started finished
      in bindA (update (append_file relpath (run_trailer env status finished ms))) (\<lambda>_.
         bindA (\<lambda>d. case write_key (ae_fromiso env) (ae_logged env d) (index_key app) (dumps (run_row verb args status ms relpath by)) (ad_log d) of
             Inl e \<Rightarrow> (Inl e, d) | Inr t \<Rightarrow> (Inr (), d\<lparr>ad_log := t\<rparr>)) (\<lambda>_.
         update prune)))"

definition record_run ::
    "act_env \<Rightarrow> string \<Rightarrow> (string, string) dict \<Rightarrow> string option \<Rightarrow> string \<Rightarrow> utc \<Rightarrow> utc \<Rightarrow> string \<Rightarrow> string
       \<Rightarrow> (act_disk, log_error, string) act" where
  "record_run env verb args app status started finished output by d =
     (case begin_run verb args app started d of (relpath, d1) \<Rightarrow>
        bindA (whenA (output \<noteq> []) (update (append_file relpath (if ends_with output [LF] then output else output @ [LF])))) (\<lambda>_.
        bindA (finish_run env relpath verb app status started finished by args) (\<lambda>_. ret relpath)) d1)"

section \<open>An activity\<close>

text \<open>What ends a block: \<open>RunKnown\<close> is a \<^verbatim>\<open>ValueError\<close> or \<^verbatim>\<open>RuntimeError\<close>.\<close>

datatype run_raise = RunKnown string | RunExit "int option" | RunOther string string | RunDetached string

definition OK_STATUS :: string where "OK_STATUS = ''ok''"
definition ERROR_STATUS :: string where "ERROR_STATUS = ''error''"
definition DETACHED_STATUS :: string where "DETACHED_STATUS = ''detached''"

definition DETACH_NOTE :: string where
  "DETACH_NOTE = [LF] @ ''[kelso] detaching from running activity after 5 minutes'' @ [LF]"

definition succeeded :: "run_raise + unit \<Rightarrow> bool" where
  "succeeded r \<longleftrightarrow> r \<in> {Inr (), Inl (RunExit None), Inl (RunExit (Some 0))}"

definition was_detached :: "run_raise + unit \<Rightarrow> bool" where
  "was_detached r \<longleftrightarrow> (\<exists>m. r = Inl (RunDetached m))"

fun describe :: "run_raise \<Rightarrow> string" where
  "describe (RunKnown m) = m"
| "describe (RunExit code) = ''exited with status '' @ (case code of None \<Rightarrow> ''None'' | Some i \<Rightarrow> str_of_int i)"
| "describe (RunOther kind m) = kind @ '': '' @ m"
| "describe (RunDetached m) = m"

definition run_status :: "run_raise + unit \<Rightarrow> string" where
  "run_status r = (if was_detached r then DETACHED_STATUS else if succeeded r then OK_STATUS else ERROR_STATUS)"

definition closing_note :: "run_raise + unit \<Rightarrow> string" where
  "closing_note r =
     (if was_detached r then DETACH_NOTE
      else if succeeded r then []
      else case r of Inl e \<Rightarrow> ''Error: '' @ describe e @ [LF] | Inr u \<Rightarrow> [])"

definition as_app_id :: "string option \<Rightarrow> string option" where
  "as_app_id app = (case app of Some (c # cs) \<Rightarrow> (if is_app_id (c # cs) then app else None) | _ \<Rightarrow> None)"

text \<open>
  \<^verbatim>\<open>with Activity(...): block\<close>. A failure to record is logged only; the block's own exception goes on, except a
  detachment.
\<close>

definition with_activity ::
    "act_env \<Rightarrow> string \<Rightarrow> string option \<Rightarrow> (string, string) dict \<Rightarrow> string \<Rightarrow> utc \<Rightarrow> utc
       \<Rightarrow> (string \<Rightarrow> act_disk \<Rightarrow> string \<times> (run_raise + unit) \<times> act_disk) \<Rightarrow> (act_disk, run_raise, unit) act" where
  "with_activity env verb app args by started finished block d =
     (case ad_running d of
        Some other \<Rightarrow> (Inl (RunKnown (verb @ '' cannot record an activity inside '' @ other @ [CHR 0x27] @ ''s'')), d)
      | None \<Rightarrow>
          (case begin_run verb args (as_app_id app) started d of (relpath, d1) \<Rightarrow>
             (case block relpath (d1\<lparr>ad_running := Some verb\<rparr>) of (output, r, d2) \<Rightarrow>
                let d3 = append_open relpath (output @ closing_note r) (d2\<lparr>ad_running := None\<rparr>)
                in (if was_detached r then Inr () else r,
                    snd (finish_run env relpath verb (as_app_id app) (run_status r) started finished by args d3)))))"

section \<open>Reading the runs back\<close>

record run_entry =
  re_ts :: string
  re_app :: "string option"
  re_verb :: json
  re_args :: json
  re_status :: json
  re_ms :: json
  re_log :: json
  re_by :: json
  re_available :: bool

datatype activity_error = BadApp string | TableUnreadable log_error | RowNotDict | LogNotText | NoRunLog string

text \<open>\<^verbatim>\<open>(root / relpath).is_file()\<close>.\<close>

definition is_run_file :: "act_env \<Rightarrow> act_disk \<Rightarrow> string \<Rightarrow> bool" where
  "is_run_file env d relpath =
     (if CHR ''/'' \<in> set relpath \<or> relpath \<in> {''.'', ''..''} then ae_elsewhere env relpath
      else map_of (ad_files d) relpath \<noteq> None)"

definition available :: "act_env \<Rightarrow> act_disk \<Rightarrow> json \<Rightarrow> activity_error + bool" where
  "available env d v =
     (if \<not> truthy v then Inr False
      else case v of JStr s \<Rightarrow> Inr (is_run_file env d s) | _ \<Rightarrow> Inl LogNotText)"

definition entry_from ::
    "act_env \<Rightarrow> act_disk \<Rightarrow> string \<Rightarrow> log_entry \<Rightarrow> (string, json) dict \<Rightarrow> activity_error + run_entry" where
  "entry_from env d key entry ms =
     (let get = (\<lambda>k dflt. case map_of ms k of None \<Rightarrow> dflt | Some v \<Rightarrow> v); relpath = get ''log'' (JStr [])
      in andthen (available env d relpath) (\<lambda>there.
         Inr \<lparr>re_ts = le_ts entry,
              re_app = (if key = index_key None then None else Some (remove_suffix (remove_prefix key ''apps/'') ''/run'')),
              re_verb = get ''verb'' (JStr []), re_args = get ''args'' (JObj []), re_status = get ''status'' (JStr []),
              re_ms = get ''ms'' JNull, re_log = relpath, re_by = get ''started_by'' (JStr []), re_available = there\<rparr>))"

text \<open>The rows a record of the table gives: none where it is passed over.\<close>

definition run_entries ::
    "act_env \<Rightarrow> act_disk \<Rightarrow> string option \<Rightarrow> string option \<Rightarrow> string \<times> log_entry \<Rightarrow> activity_error + run_entry list" where
  "run_entries env d key verb rec =
     (case rec of (record_key, entry) \<Rightarrow>
        if key \<noteq> None \<and> key \<noteq> Some record_key then Inr []
        else case loads (le_value entry) of
            None \<Rightarrow> Inr []
          | Some (JObj ms) \<Rightarrow>
              if verb \<noteq> None \<and> map_of ms ''verb'' \<noteq> map_option JStr verb then Inr []
              else andthen (entry_from env d record_key entry ms) (\<lambda>e. Inr [e])
          | Some v \<Rightarrow> Inl RowNotDict)"

definition list_runs ::
    "act_env \<Rightarrow> string option \<Rightarrow> string option \<Rightarrow> int \<Rightarrow> act_disk \<Rightarrow> activity_error + run_entry list" where
  "list_runs env app verb limit d =
     andthen (case app of
         None \<Rightarrow> Inr None
       | Some a \<Rightarrow> if a = [] then Inr None else if a = KELSO_DIR then Inr (Some (index_key None))
           else (case app_id a of Inl e \<Rightarrow> Inl (BadApp a) | Inr i \<Rightarrow> Inr (Some (index_key (Some i))))) (\<lambda>key.
     andthen (case history (ae_fromiso env) (ad_log d) [] ''/run'' of Inl e \<Rightarrow> Inl (TableUnreadable e) | Inr rs \<Rightarrow> Inr rs) (\<lambda>rs.
     andthen (traverse (run_entries env d key verb) rs) (\<lambda>rows.
       Inr (take (nat limit) (rev (concat rows))))))"

definition run_filename :: "string \<Rightarrow> bool" where
  "run_filename name \<longleftrightarrow>
     ends_with name ''.log'' \<and>
     (case remove_suffix name ''.log'' of
        [] \<Rightarrow> False
      | c # cs \<Rightarrow> is_alnum c \<and> list_all (\<lambda>c. is_alnum c \<or> c \<in> set ''_.-'') cs)"

definition read_run_log :: "string \<Rightarrow> act_disk \<Rightarrow> activity_error + string" where
  "read_run_log name d =
     (if \<not> run_filename name then Inl (NoRunLog name)
      else case map_of (ad_files d) name of None \<Rightarrow> Inl (NoRunLog name) | Some t \<Rightarrow> Inr (universal_newlines t))"

section \<open>Names\<close>

lemma free_counter_free: "counted stem (free_counter taken stem n) \<notin> set taken"
proof (induction taken stem n rule: free_counter.induct)
  case (1 taken stem n)
  then show ?case by (cases "counted stem n \<in> set taken") (subst free_counter.simps, simp)+
qed

lemma run_file_fresh: "run_file taken started verb app \<notin> set taken"
  by (simp add: run_file_def Let_def free_counter_free)

definition name_char :: "char \<Rightarrow> bool" where
  "name_char c \<longleftrightarrow> is_alnum c \<or> c \<in> set ''_.-''"

lemma digits_name_chars: "list_all name_char (str_of_nat n)" "\<exists>c cs. str_of_nat n = c # cs \<and> is_digit c"
  using str_of_nat_isdigit [of n] by (cases "str_of_nat n"; auto simp: str_isdigit_def name_char_def is_alnum_def list_all_iff)+

lemma pad_name_chars: "list_all name_char (pad2 n)" "list_all name_char (pad4 n)" "\<exists>c cs. pad4 n = c # cs \<and> is_alnum c"
proof -
  show "list_all name_char (pad2 n)" "list_all name_char (pad4 n)"
    using digits_name_chars(1) by (auto simp: pad2_def pad4_def list_all_append list_all_iff name_char_def is_alnum_def is_digit_def)
  show "\<exists>c cs. pad4 n = c # cs \<and> is_alnum c"
    using digits_name_chars(2) [of n] by (cases "4 - length (str_of_nat n)") (auto simp: pad4_def is_alnum_def is_digit_def)
qed

lemma app_id_name_chars:
  assumes "is_app_id a"
  shows "list_all name_char a"
proof -
  have "list_all name_char p" if "p \<in> set (split_on (CHR ''.'') a)" for p
    using assms that by (auto simp: is_app_id_def list_all_iff is_identifier_def ident_char_def name_char_def)
  then have "\<forall>c \<in> set (join ''.'' (split_on (CHR ''.'') a)). name_char c"
    using set_join [of "''.''" "split_on (CHR ''.'') a"] by (auto simp: list_all_iff name_char_def)
  then show ?thesis by (simp add: join_split_on list_all_iff)
qed

lemma stamped_filename:
  assumes "list_all name_char rest"
  shows "run_filename (utc_stamp t @ rest @ ''.log'')"
proof -
  obtain y m d h mi where moment: "ut_moment t = (y, m, d, h, mi)" by (metis prod_cases5)
  from pad_name_chars(3) [of y] obtain c cs where c: "pad4 y = c # cs" "is_alnum c" by blast
  let ?stem = "utc_stamp t @ rest"
  have "list_all name_char (utc_stamp t)"
    using pad_name_chars(1,2) by (simp add: utc_stamp_def moment) (simp add: name_char_def char_class_defs)
  with assms have "list_all name_char ?stem" by simp
  moreover obtain cs' where "?stem = c # cs'" by (simp add: utc_stamp_def moment c(1))
  ultimately have stem: "?stem = c # cs'" "list_all name_char cs'" by auto
  have "remove_suffix (?stem @ ''.log'') ''.log'' = ?stem" by (rule remove_suffix_append)
  moreover have "ends_with (?stem @ ''.log'') ''.log''" by (rule ends_with_append)
  ultimately have "run_filename (?stem @ ''.log'')"
    unfolding run_filename_def using stem c(2) by (auto simp: list_all_iff name_char_def)
  then show ?thesis by simp
qed

text \<open>A file made for a run has a name the log can be read by.\<close>

lemma run_file_name:
  assumes "list_all name_char verb" and "case app of None \<Rightarrow> True | Some a \<Rightarrow> is_app_id a"
  shows "run_filename (run_file taken started verb app)"
proof -
  let ?mid = "CHR ''.'' # (case app of None \<Rightarrow> [] | Some a \<Rightarrow> a @ ''.'') @ verb"
  have mid: "list_all name_char ?mid"
    using assms app_id_name_chars by (cases app) (auto simp: list_all_append name_char_def)
  have counter: "list_all name_char (?mid @ ''-'' @ str_of_nat n)" for n
    using mid digits_name_chars(1) [of n] by (simp add: name_char_def)
  from stamped_filename [OF mid, of started] stamped_filename [OF counter, of started]
  show ?thesis by (simp add: run_file_def Let_def counted_def)
qed

text \<open>Within a second the order of the names is not the order of the runs: the second run of a verb sorts first.\<close>

lemma second_run_sorts_first: "stem @ ''-2.log'' < stem @ ''.log''"
  by (induction stem) simp_all

section \<open>Pruning\<close>

definition log_names :: "act_disk \<Rightarrow> string list" where
  "log_names d = List.filter (\<lambda>n. path_suffix n = ''.log'') (keys (ad_files d))"

lemma keys_filter_key: "keys (List.filter (\<lambda>(n, t). P n) f) = List.filter P (keys f)"
  by (induction f) auto

lemma prune_parts:
  assumes "distinct (keys (ad_files d))" and "stale = take (length (log_names d) - KEEP_RUNS) (sort_key id (log_names d))"
  shows "ad_files (prune d) = List.filter (\<lambda>(n, t). n \<notin> set stale) (ad_files d)"
    and "log_names (prune d) = List.filter (\<lambda>n. n \<notin> set stale) (log_names d)"
    and "ad_log (prune d) = ad_log d" and "ad_running (prune d) = ad_running d"
proof -
  show files: "ad_files (prune d) = List.filter (\<lambda>(n, t). n \<notin> set stale) (ad_files d)"
    by (simp add: prune_def Let_def assms(2) log_names_def)
  show "log_names (prune d) = List.filter (\<lambda>n. n \<notin> set stale) (log_names d)"
    unfolding log_names_def files keys_filter_key by (metis (no_types, lifting) conj_commute filter_cong filter_filter)
qed (simp_all add: prune_def Let_def)

text \<open>Of the log files at most 50 stay, no one that stays is before one that goes; every other file stays as it was.\<close>

lemma pruned:
  assumes "distinct (keys (ad_files d))"
  shows "length (log_names (prune d)) = min KEEP_RUNS (length (log_names d))"
    and "m \<in> set (log_names d) - set (log_names (prune d)) \<Longrightarrow> n \<in> set (log_names (prune d)) \<Longrightarrow> m < n"
    and "map_of (ad_files (prune d)) n =
      (if n \<in> set (log_names d) \<and> n \<notin> set (log_names (prune d)) then None else map_of (ad_files d) n)"
proof -
  let ?names = "log_names d" and ?k = "length (log_names d) - KEEP_RUNS"
  let ?sorted = "sort_key id ?names"
  let ?stale = "take ?k ?sorted"
  note parts = prune_parts [OF assms refl]
  have dist: "distinct ?names" using assms by (simp add: log_names_def)
  have sorted: "sorted ?sorted" "distinct ?sorted" "set ?sorted = set ?names" "length ?sorted = length ?names"
    using dist sorted_sort_key [of id ?names] by simp_all
  have "set ?stale \<subseteq> set ?names" using set_take_subset [of ?k ?sorted] sorted(3) by simp
  have "length (log_names (prune d)) = card (set ?names - set ?stale)"
    unfolding parts(2) using dist by (metis distinct_card distinct_filter set_diff_eq set_filter)
  also have "\<dots> = length ?names - ?k"
    using \<open>set ?stale \<subseteq> set ?names\<close> dist sorted(2,4)
    by (simp add: card_Diff_subset distinct_card distinct_take)
  finally show "length (log_names (prune d)) = min KEEP_RUNS (length ?names)" by simp
  have apart: "m < n" if "m \<in> set ?stale" "n \<in> set ?names" "n \<notin> set ?stale" for m n
  proof -
    have n: "n \<in> set (drop ?k ?sorted)" using that(2,3) sorted(3) by (metis Un_iff append_take_drop_id set_append)
    have "sorted (?stale @ drop ?k ?sorted)" using sorted(1) by simp
    with that(1) n have "m \<le> n" by (metis sorted_append)
    with that(1,3) show ?thesis by (metis order_le_less)
  qed
  show "m < n" if "m \<in> set ?names - set (log_names (prune d))" "n \<in> set (log_names (prune d))"
    using that apart unfolding parts(2) by auto
  have "map_of (ad_files (prune d)) n = (if n \<in> set ?stale then None else map_of (ad_files d) n)"
    unfolding parts(1) by (simp add: map_of_filter_key)
  then show "map_of (ad_files (prune d)) n =
      (if n \<in> set ?names \<and> n \<notin> set (log_names (prune d)) then None else map_of (ad_files d) n)"
    using \<open>set ?stale \<subseteq> set ?names\<close> unfolding parts(2) by auto
qed

section \<open>The table after a row\<close>

lemma compact_records_last:
  assumes "0 < h"
  shows "\<exists>rs. compact_records h (old @ [r]) = rs @ [r] \<and> set rs \<subseteq> set (old @ [r])"
proof -
  let ?k = "length (old @ [r]) - h"
  have "drop ?k (old @ [r]) = drop ?k old @ [r]" using assms by simp
  then have "compact_records h (old @ [r]) = (compact_backfill (old @ [r]) (drop ?k old @ [r]) @ drop ?k old) @ [r]"
    by (simp only: compact_records_def Let_def append_assoc)
  moreover have "set (compact_backfill (old @ [r]) (drop ?k old @ [r]) @ drop ?k old) \<subseteq> set (old @ [r])"
    using set_compact_backfill [of "old @ [r]" "drop ?k old @ [r]"] set_drop_subset [of ?k old] by auto
  ultimately show ?thesis by blast
qed

text \<open>Whatever is compacted away, the row just written is the last one.\<close>

lemma write_key_last:
  assumes "table_wf t" "clock_ok fromiso now" "validate_key key = Inr u" "validate_value val = Inr v" "CR \<notin> set val"
    and "0 < lt_compact_history t" and "r = \<lparr>lr_ts = now, lr_op = OpSet, lr_key = key, lr_value = val\<rparr>"
  shows "\<exists>t' rs. write_key fromiso now key val t = Inr t' \<and> table_wf t' \<and> lt_compact_history t' = lt_compact_history t \<and>
    file_records fromiso (lt_file t') = rs @ [r] \<and> set rs \<subseteq> insert r (set (file_records fromiso (lt_file t)))"
proof -
  let ?old = "file_records fromiso (lt_file t)"
  let ?t = "t\<lparr>lt_file := lt_file t @ render_rec r @ [LF]\<rparr>"
  have ok: "rec_ok fromiso r" unfolding assms(7) using assms(1-5) by (intro entry_rec_ok)
  have wf: "table_wf ?t" using assms(1) by (auto simp: table_wf_def)
  have old: "file_records fromiso (lt_file ?t) = ?old @ [r]"
    using ok assms(1) by (simp add: file_records_append rec_ok_def table_wf_def)
  have "\<not> lt_strict ?t" using wf by (simp add: table_wf_def)
  then have items: "items_records (file_items (lt_strict ?t) fromiso (lt_file ?t)) = Inr (?old @ [r])"
    by (simp only: file_items_lenient items_records_Inr old)
  have w: "write_key fromiso now key val t = maybe_compact fromiso now ?t"
    using assms(3,4) by (simp add: write_key_def append_entry_def write_entry_def validate_operation_def parse_op_def render_rec_def assms(7))
  show ?thesis
  proof (cases "lt_compact_size ?t > 0 \<and> length (lt_file ?t) > lt_compact_size ?t \<and> \<not> int (length (?old @ [r])) < lt_compact_history t")
    case False
    then have "maybe_compact fromiso now ?t = Inr ?t"
      using assms(6) unfolding maybe_compact_def compact_def items by auto
    with w wf old show ?thesis by auto
  next
    case True
    let ?all = "compact_records (nat (lt_compact_history t)) (?old @ [r])"
    have c: "maybe_compact fromiso now ?t = Inr (?t\<lparr>lt_file := compacted_text now ?all\<rparr>)"
      using True assms(6) unfolding maybe_compact_def compact_def items by auto
    have "\<forall>r \<in> set ?all. rec_ok fromiso r"
      using file_records_ok [of _ fromiso "lt_file ?t"] set_compact_records [of "nat (lt_compact_history t)" "?old @ [r]"]
      unfolding old by blast
    then have "file_records fromiso (compacted_text now ?all) = ?all"
      using assms(2) by (intro file_records_compacted) (auto simp: clock_ok_def)
    moreover obtain rs where "?all = rs @ [r]" "set rs \<subseteq> set (?old @ [r])"
      using compact_records_last [of "nat (lt_compact_history t)" ?old r] assms(6) by auto
    ultimately show ?thesis using w c wf by (auto simp: table_wf_def)
  qed
qed

section \<open>A recorded run\<close>

text \<open>A row \<open>list_runs\<close> can read, or passes over.\<close>

definition row_ok :: "log_rec \<Rightarrow> bool" where
  "row_ok r \<longleftrightarrow> lr_op r = OpSet \<and> ends_with (lr_key r) ''/run'' \<longrightarrow>
     (case loads (lr_value r) of
        None \<Rightarrow> True
      | Some (JObj ms) \<Rightarrow> (case map_of ms ''log'' of None \<Rightarrow> True | Some v \<Rightarrow> \<not> truthy v \<or> (\<exists>s. v = JStr s))
      | Some v \<Rightarrow> False)"

definition table_ok :: "act_env \<Rightarrow> act_disk \<Rightarrow> bool" where
  "table_ok env d \<longleftrightarrow> table_wf (ad_log d) \<and> 0 < lt_compact_history (ad_log d) \<and>
     (\<forall>r \<in> set (file_records (ae_fromiso env) (lt_file (ad_log d))). row_ok r)"

lemma row_ok_read:
  assumes "row_ok r" and "lr_op r = OpSet" and "ends_with (lr_key r) ''/run''"
  shows "\<exists>es. run_entries env d None None (lr_key r, entry_of r) = Inr es"
proof (cases "loads (lr_value r)")
  case None
  then show ?thesis by (simp add: run_entries_def entry_of_def)
next
  case (Some v)
  with assms obtain ms where v: "v = JObj ms" by (cases v) (simp_all add: row_ok_def)
  let ?log = "case map_of ms ''log'' of None \<Rightarrow> JStr [] | Some v \<Rightarrow> v"
  have "\<not> truthy ?log \<or> (\<exists>s. ?log = JStr s)" using assms Some v by (cases "map_of ms ''log''") (simp_all add: row_ok_def)
  then have "\<exists>b. available env d ?log = Inr b" by (elim disjE exE; simp only: available_def) auto
  then obtain b where "available env d ?log = Inr b" by blast
  then show ?thesis by (simp add: run_entries_def entry_of_def Some v entry_from_def Let_def)
qed

lemma list_runs_newest:
  assumes "table_wf (ad_log d)" and "file_records (ae_fromiso env) (lt_file (ad_log d)) = rs @ [r]"
    and "\<forall>r \<in> set rs. row_ok r" and "lr_op r = OpSet" and "ends_with (lr_key r) ''/run''"
    and "run_entries env d None None (lr_key r, entry_of r) = Inr [e]" and "0 < limit"
  shows "\<exists>rest. list_runs env None None limit d = Inr (e # rest)"
proof -
  let ?listed = "\<lambda>rs. [(lr_key r, entry_of r). r \<leftarrow> rs, lr_op r = OpSet \<and> starts_with (lr_key r) [] \<and> ends_with (lr_key r) ''/run'']"
  have "\<not> lt_strict (ad_log d)" using assms(1) by (simp add: table_wf_def)
  then have items: "items_records (file_items (lt_strict (ad_log d)) (ae_fromiso env) (lt_file (ad_log d))) = Inr (rs @ [r])"
    by (simp only: file_items_lenient items_records_Inr assms(2))
  have h: "history (ae_fromiso env) (ad_log d) [] ''/run'' = Inr (?listed (rs @ [r]))"
    unfolding history_def items
    by (simp add: validate_key_def MAX_KEY_LENGTH_def key_char_def char_class_defs)
  have "\<exists>rows. traverse (run_entries env d None None) (?listed rs) = Inr rows"
    by (rule traverse_exists) (use assms(3) row_ok_read in fastforce)
  then obtain rows where "traverse (run_entries env d None None) (?listed rs) = Inr rows" by blast
  moreover have "?listed (rs @ [r]) = ?listed rs @ [(lr_key r, entry_of r)]" using assms(4,5) by simp
  moreover have "traverse (run_entries env d None None) (xs @ [x]) =
      andthen (traverse (run_entries env d None None) xs) (\<lambda>a. andthen (run_entries env d None None x) (\<lambda>b. Inr (a @ [b])))" for xs x
    by (induction xs) (auto simp: andthen_def split: sum.split)
  ultimately have "traverse (run_entries env d None None) (?listed (rs @ [r])) = Inr (rows @ [[e]])" using assms(6) by simp
  then show ?thesis using h assms(7) by (cases "nat limit") (simp_all add: list_runs_def)
qed

definition recorded_entry ::
    "string \<Rightarrow> (string, string) dict \<Rightarrow> string option \<Rightarrow> string \<Rightarrow> int \<Rightarrow> string \<Rightarrow> string \<Rightarrow> string \<Rightarrow> bool \<Rightarrow> run_entry" where
  "recorded_entry verb args app status ms relpath by ts there =
     \<lparr>re_ts = ts, re_app = app, re_verb = JStr verb, re_args = JObj (List.map (\<lambda>(k, v). (k, JStr v)) args), re_status = JStr status,
      re_ms = JInt ms, re_log = JStr relpath, re_by = JStr by, re_available = there\<rparr>"

lemma run_row_ok: "distinct (keys args) \<Longrightarrow> json_ok (run_row verb args status ms relpath by)"
  by (auto simp: run_row_def list_all_iff comp_def case_prod_beta)

lemma run_filename_plain:
  assumes "run_filename name"
  shows "CHR ''/'' \<notin> set name" and "name \<notin> {[], ''.'', ''..''}"
proof -
  let ?stem = "remove_suffix name ''.log''"
  have name: "name = ?stem @ ''.log''" using assms by (auto simp: run_filename_def ends_with_iff)
  from assms obtain c cs where stem: "?stem = c # cs" "is_alnum c" "list_all (\<lambda>c. is_alnum c \<or> c \<in> set ''_.-'') cs"
    by (auto simp: run_filename_def split: list.splits)
  then have "CHR ''/'' \<notin> set ?stem" by (auto simp: list_all_iff char_class_defs)
  then show "CHR ''/'' \<notin> set name" by (subst name) simp
  show "name \<notin> {[], ''.'', ''..''}" by (subst name) (auto simp: stem(1))
qed

lemma run_row_entries:
  assumes "distinct (keys args)" and "run_filename relpath" and "case app of None \<Rightarrow> True | Some a \<Rightarrow> is_app_id a"
  shows "run_entries env d None None (index_key app, \<lparr>le_ts = ts, le_value = dumps (run_row verb args status ms relpath by)\<rparr>) =
    Inr [recorded_entry verb args app status ms relpath by ts (map_of (ad_files d) relpath \<noteq> None)]"
proof -
  have loaded: "loads (dumps (run_row verb args status ms relpath by)) = Some (run_row verb args status ms relpath by)"
    by (rule loads_dumps) (rule run_row_ok [OF assms(1)])
  have app: "(if index_key app = index_key None then None else Some (remove_suffix (remove_prefix (index_key app) ''apps/'') ''/run'')) = app"
  proof (cases app)
    case (Some a)
    have "remove_prefix (''apps/'' @ a @ ''/run'') ''apps/'' = a @ ''/run''" by (rule remove_prefix_append)
    moreover have "remove_suffix (a @ ''/run'') ''/run'' = a" by (rule remove_suffix_append)
    ultimately show ?thesis by (simp add: Some index_key_def KELSO_DIR_def)
  qed simp
  have there: "available env d (JStr relpath) = Inr (map_of (ad_files d) relpath \<noteq> None)"
    using run_filename_plain [OF assms(2)] by (auto simp: available_def truthy_def is_run_file_def)
  show ?thesis
    unfolding run_entries_def prod.case log_entry.simps loaded
    by (simp add: run_row_def entry_from_def Let_def there app recorded_entry_def)
qed

lemma as_app_id_ok: "case as_app_id app of None \<Rightarrow> True | Some a \<Rightarrow> is_app_id a"
  by (auto simp: as_app_id_def split: option.splits list.splits)

lemma index_key_run: "ends_with (index_key app) ''/run''"
proof (cases app)
  case None
  then show ?thesis by (simp add: index_key_def KELSO_DIR_def ends_with_def)
next
  case (Some a)
  have "ends_with ((''apps/'' @ a) @ ''/run'') ''/run''" by (rule ends_with_append)
  with Some show ?thesis by (simp add: index_key_def)
qed

text \<open>Closing a run puts its row last in the table and its trailer last in its file, then prunes.\<close>

lemma finish_run_does:
  assumes "table_ok env d" and "\<forall>d. clock_ok (ae_fromiso env) (ae_logged env d)" and "distinct (keys args)" and "run_filename relpath"
    and "case app of None \<Rightarrow> True | Some a \<Rightarrow> is_app_id a" and "validate_key (index_key app) = Inr ()"
    and "length (dumps (run_row verb args status (run_ms started finished) relpath by)) \<le> MAX_VAL_LENGTH" and "0 < limit"
  shows "\<exists>d' ts rest. finish_run env relpath verb app status started finished by args d = (Inr (), d') \<and> table_ok env d' \<and>
    ad_running d' = ad_running d \<and>
    ad_files d' = ad_files (prune (append_file relpath (run_trailer env status finished (run_ms started finished)) d)) \<and>
    list_runs env None None limit d' = Inr (recorded_entry verb args app status (run_ms started finished) relpath by ts
      (map_of (ad_files d') relpath \<noteq> None) # rest)"
proof -
  let ?ms = "run_ms started finished"
  let ?row = "run_row verb args status ?ms relpath by"
  let ?d1 = "append_file relpath (run_trailer env status finished ?ms) d"
  let ?ts = "ae_logged env ?d1"
  let ?r = "\<lparr>lr_ts = ?ts, lr_op = OpSet, lr_key = index_key app, lr_value = dumps ?row\<rparr>"
  have log1: "ad_log ?d1 = ad_log d" "ad_running ?d1 = ad_running d" by (simp_all add: append_file_def)
  have plain: "LF \<notin> set (dumps ?row)" "CR \<notin> set (dumps ?row)"
    using printable_plain [OF printable_dumps, of ?row] by simp_all
  then have val: "validate_value (dumps ?row) = Inr ()" using assms(7) by (simp add: validate_value_def)
  from assms(1) have wf: "table_wf (ad_log d)" "0 < lt_compact_history (ad_log d)" by (simp_all add: table_ok_def)
  from write_key_last [OF wf(1) assms(2) [rule_format] assms(6) val plain(2) wf(2) refl, of ?d1] obtain t rs where
    t: "write_key (ae_fromiso env) ?ts (index_key app) (dumps ?row) (ad_log d) = Inr t" "table_wf t"
      "lt_compact_history t = lt_compact_history (ad_log d)" "file_records (ae_fromiso env) (lt_file t) = rs @ [?r]"
      "set rs \<subseteq> insert ?r (set (file_records (ae_fromiso env) (lt_file (ad_log d))))" by blast
  let ?d' = "prune (?d1\<lparr>ad_log := t\<rparr>)"
  have parts: "ad_log ?d' = t" "ad_running ?d' = ad_running d" "ad_files ?d' = ad_files (prune ?d1)"
    by (simp_all add: prune_def Let_def log1)
  have run: "finish_run env relpath verb app status started finished by args d = (Inr (), ?d')"
    by (simp add: finish_run_def Let_def bindA_def log1 t(1))
  have loaded: "loads (dumps ?row) = Some ?row" by (rule loads_dumps) (rule run_row_ok [OF assms(3)])
  have "row_ok ?r" unfolding row_ok_def log_rec.simps loaded by (simp add: run_row_def)
  then have rows: "\<forall>r \<in> set rs. row_ok r" "table_ok env ?d'"
    using assms(1) t(2-5) wf(2) parts(1) by (auto simp: table_ok_def)
  have entry: "run_entries env ?d' None None (lr_key ?r, entry_of ?r) =
      Inr [recorded_entry verb args app status ?ms relpath by ?ts (map_of (ad_files ?d') relpath \<noteq> None)]"
    using run_row_entries [OF assms(3,4,5)] by (simp add: entry_of_def)
  have suffix: "ends_with (lr_key ?r) ''/run''" by (simp add: index_key_run)
  have "table_wf (ad_log ?d')" "file_records (ae_fromiso env) (lt_file (ad_log ?d')) = rs @ [?r]" using t(2,4) parts(1) by simp_all
  from list_runs_newest [OF this rows(1) _ suffix entry assms(8)] run rows(2) parts(2,3) show ?thesis by auto
qed

section \<open>Properties\<close>


section \<open>A run\<close>

definition demo_start_time :: utc where "demo_start_time = \<lparr>ut_moment = (2026, 3, 1, 8, 30), ut_second = 5, ut_micro = 250000\<rparr>"
definition demo_end_time :: utc where "demo_end_time = \<lparr>ut_moment = (2026, 3, 1, 8, 31), ut_second = 0, ut_micro = 0\<rparr>"

definition demo_act_env :: act_env where
  "demo_act_env = \<lparr>ae_fromiso = demo_clock, ae_logged = (\<lambda>d. ''2026-03-01T08:31:00Z''), ae_seconds = str_of_int, ae_elsewhere = (\<lambda>p. False)\<rparr>"

definition demo_act_disk :: act_disk where
  "demo_act_disk = \<lparr>ad_files = [], ad_log = logtab_init None ''activity.logtab'' [] ''2026-01-01T00:00:00Z'' False 10485760 2000, ad_running = None\<rparr>"

definition demo_block :: "string \<Rightarrow> act_disk \<Rightarrow> string \<times> (run_raise + unit) \<times> act_disk" where
  "demo_block name d = (''pulling'', Inl (RunKnown ''no such image''), d)"

lemma demo_act_times: "run_ms demo_start_time demo_end_time = 54750"
  by (simp add: run_ms_def utc_micros_def demo_start_time_def demo_end_time_def)

lemma demo_table_ok: "table_ok demo_act_env demo_act_disk"
proof -
  let ?lines = "[''# activity.logtab, created 2026-01-01T00:00:00Z'', format_line]"
  have plain: "\<forall>l \<in> set ?lines. LF \<notin> set l \<and> CR \<notin> set l" by (simp add: format_line_def)
  have content: "lt_file (ad_log demo_act_disk) = join [LF] ?lines @ [LF]"
    by (simp add: demo_act_disk_def logtab_init_def)
  have "CR \<notin> set (join [LF] ?lines @ [LF])" using plain set_join [of "[LF]" ?lines] by auto
  then have newlines: "universal_newlines (join [LF] ?lines @ [LF]) = join [LF] ?lines @ [LF]" by (rule universal_newlines_id)
  have lines: "text_lines (join [LF] ?lines @ [LF]) = ?lines" by (rule text_lines_join) (use plain in simp_all)
  have "file_records demo_clock (lt_file (ad_log demo_act_disk)) = []"
    unfolding file_records_def content newlines lines by (simp add: map_filter_simps line_record_comment starts_with_def format_line_def)
  moreover have "table_wf (ad_log demo_act_disk) \<and> 0 < lt_compact_history (ad_log demo_act_disk)"
    by (simp add: table_wf_def demo_act_disk_def logtab_init_def)
  ultimately show ?thesis by (simp add: table_ok_def demo_act_env_def)
qed


text \<open>
  Pruning does not spare a run that is under way: with 50 later files beside it, its file goes, and what it prints
  from then on is lost; the file its end makes holds the trailer alone.
\<close>

lemma running_file_is_pruned:
  assumes "distinct (keys (ad_files d))" and "name \<in> set (log_names d)" and "KEEP_RUNS \<le> length (List.filter (\<lambda>n. name < n) (log_names d))"
  shows "append_open name text (prune d) = prune d" and "map_of (ad_files (append_file name trailer (prune d))) name = Some trailer"
proof -
  let ?later = "List.filter (\<lambda>n. name < n) (log_names d)" and ?kept = "log_names (prune d)"
  have dist: "distinct (log_names d)" "distinct ?kept"
    using assms(1) by (simp_all add: log_names_def prune_def Let_def distinct_keys_filter)
  have "name \<notin> set ?kept"
  proof
    assume kept: "name \<in> set ?kept"
    have "set ?later \<subseteq> set ?kept" using pruned(2) [OF assms(1), of _ name] kept by (auto dest: order_less_asym)
    then have "insert name (set ?later) \<subseteq> set ?kept" using kept by simp
    then have "card (insert name (set ?later)) \<le> length ?kept" by (metis List.finite_set card_mono dist(2) distinct_card)
    moreover have "card (insert name (set ?later)) = Suc (card (set ?later))" by (rule card_insert_disjoint) auto
    moreover have "card (set ?later) = length ?later" using dist(1) by (intro distinct_card) simp
    ultimately show False using pruned(1) [OF assms(1)] assms(3) by simp
  qed
  then have "map_of (ad_files (prune d)) name = None" using pruned(3) [OF assms(1), of name] assms(2) by simp
  then show "append_open name text (prune d) = prune d" "map_of (ad_files (append_file name trailer (prune d))) name = Some trailer"
    by (simp_all add: append_open_def append_file_def)
qed



end
