(* ===== verification/ConfigFlow.thy ===== *)
theory ConfigFlow
  imports Load ConfigEdit Pangolin Npm Cloudflare
begin

text \<open>
  \<^verbatim>\<open>kelso/lib/configflow\<close>: what has to be configured, as fields with the values they hold, and what an answer to
  them changes: an app's \<^verbatim>\<open>[config]\<close>, binds, routes and backups, or a route provider's block and secret.
\<close>

section \<open>Fields and requests\<close>

record config_field =
  fd_name :: string
  fd_value :: "string option"
  fd_default :: "string option"
  fd_secret :: bool
  fd_secret_set :: bool
  fd_desc :: string
  fd_section :: string
  fd_required :: bool
  fd_choices :: "string list option"
  fd_multi :: bool
  fd_empty :: "string option"
  fd_primary_desc :: string

text \<open>The defaults of \<^verbatim>\<open>ConfigField\<close>.\<close>

definition plain_field :: "string \<Rightarrow> string \<Rightarrow> config_field" where
  "plain_field name desc =
     \<lparr>fd_name = name, fd_value = None, fd_default = None, fd_secret = False, fd_secret_set = False, fd_desc = desc,
      fd_section = ''config'', fd_required = True, fd_choices = None, fd_multi = False, fd_empty = None, fd_primary_desc = []\<rparr>"

definition picked :: "config_field \<Rightarrow> string \<Rightarrow> string list" where
  "picked f value =
     (if \<not> fd_multi f then [value] else if fd_empty f = Some value then []
      else List.map strip (split_on (CHR '','') value))"

definition is_set :: "config_field \<Rightarrow> bool" where
  "is_set f \<longleftrightarrow> (if fd_secret f then fd_secret_set f else fd_value f \<noteq> None)"

definition display :: "config_field \<Rightarrow> string" where
  "display f =
     (if fd_secret f then (if fd_secret_set f then ''(set)'' else ''(not set)'')
      else case fd_value f of
          Some v \<Rightarrow> v
        | None \<Rightarrow> (case fd_default f of
              Some d \<Rightarrow> d @ '' (default)''
            | None \<Rightarrow> if fd_required f then ''(required)'' else ''(unset)''))"

record config_request =
  fq_title :: string
  fq_fields :: "config_field list"
  fq_note :: string
  fq_config_title :: string

definition request_groups :: "config_request \<Rightarrow> (string \<times> config_field list) list" where
  "request_groups r =
     List.filter (\<lambda>(title, fields). fields \<noteq> [])
       (List.map (\<lambda>(section, title). (title, List.filter (\<lambda>f. fd_section f = section) (fq_fields r)))
         [(''config'', fq_config_title r), (''advanced'', ''Advanced config''), (''option'', ''App options'')])"

definition request_field :: "config_request \<Rightarrow> string \<Rightarrow> config_field option" where
  "request_field r name = List.find (\<lambda>f. fd_name f = name) (fq_fields r)"

definition request_missing :: "config_request \<Rightarrow> string list" where
  "request_missing r =
     List.map fd_name (List.filter (\<lambda>f. fd_required f \<and> \<not> is_set f \<and> fd_default f = None) (fq_fields r))"

datatype answer_problem = NoField string | EmptyAnswer string | BadChoice string "string list"

definition answer_problems :: "config_request \<Rightarrow> string \<times> string \<Rightarrow> answer_problem list" where
  "answer_problems r nv =
     (case nv of (name, value) \<Rightarrow>
        case request_field r name of
          None \<Rightarrow> [NoField name]
        | Some f \<Rightarrow>
            if value = [] then [EmptyAnswer name]
            else (case fd_choices f of
                None \<Rightarrow> []
              | Some known \<Rightarrow> if set (picked f value) \<subseteq> set known then [] else [BadChoice name known]))"

definition request_validate :: "config_request \<Rightarrow> (string, string) dict \<Rightarrow> answer_problem list" where
  "request_validate r values = concat (List.map (answer_problems r) values)"

datatype flow_error =
    Unapplicable "answer_problem list"
  | FlowStore store_error
  | FlowLoad load_error
  | FlowEdit edit_error
  | NeedsDomain string
  | BuiltInProvider string
  | KindDiffers string string
  | NeedsKind string
  | UnknownKind string "string list"

definition request_response :: "config_request \<Rightarrow> (string, string) dict \<Rightarrow> flow_error + (string, string) dict" where
  "request_response r values =
     (case request_validate r values of [] \<Rightarrow> Inr values | ps \<Rightarrow> Inl (Unapplicable ps))"

section \<open>An app's request\<close>

definition VOLUME_PREFIX :: string where "VOLUME_PREFIX = ''volume.''"
definition ROUTE_PREFIX :: string where "ROUTE_PREFIX = ''route.''"
definition BACKUP_PREFIX :: string where "BACKUP_PREFIX = ''backup.''"
definition BACKUP_CHOICES :: "string list" where "BACKUP_CHOICES = [''on'', ''off'']"

fun section_text :: "config_section \<Rightarrow> string" where
  "section_text ConfigSection = ''config''"
| "section_text AdvancedSection = ''advanced''"
| "section_text OptionSection = ''option''"

text \<open>A stored value as the field shows it; kelso writes texts only.\<close>

definition stored_text :: "json \<Rightarrow> string option" where
  "stored_text v = (case v of JNull \<Rightarrow> None | JStr s \<Rightarrow> Some s | _ \<Rightarrow> Some (dumps v))"

definition config_field_of :: "string \<Rightarrow> app_config \<Rightarrow> (json \<times> json) option \<Rightarrow> config_field" where
  "config_field_of name c stored =
     (plain_field name (ac_desc c))
       \<lparr>fd_value := (if ac_secret c then None else case stored of None \<Rightarrow> None | Some (s, v) \<Rightarrow> stored_text v),
        fd_default := (if has_default c then ac_default c else None),
        fd_secret := ac_secret c,
        fd_secret_set := (case stored of None \<Rightarrow> False | Some (s, v) \<Rightarrow> truthy s \<and> v \<noteq> JNull),
        fd_section := section_text (ac_section c),
        fd_required := \<not> (ac_secret c \<and> ac_default c \<noteq> None)\<rparr>"

definition config_fields :: "app_spec \<Rightarrow> 's run_ctx \<Rightarrow> store_error + config_field list" where
  "config_fields spec ctx =
     traverse (\<lambda>(name, c). andthen (get_config (rx_ops ctx) (rx_crypto ctx) (rx_app ctx) name) (\<lambda>stored.
       Inr (config_field_of name c stored))) (sp_config spec)"

definition bind_field :: "string list \<Rightarrow> (string, string) dict \<Rightarrow> string \<times> app_volume \<Rightarrow> config_field" where
  "bind_field tags binds nv =
     (case nv of (name, v) \<Rightarrow>
        (plain_field (VOLUME_PREFIX @ name) (if av_desc v \<noteq> [] then av_desc v else ''Host volume that holds '' @ name))
          \<lparr>fd_value := map_of binds name, fd_choices := Some (sort tags)\<rparr>)"

definition bind_fields :: "app_spec \<Rightarrow> 's run_ctx \<Rightarrow> store_error + config_field list" where
  "bind_fields spec ctx =
     andthen (list_binds (rx_ops ctx) (rx_app ctx)) (\<lambda>binds.
       Inr (List.map (bind_field (keys (cfg_host_volumes (rx_config ctx))) binds)
         (List.filter (\<lambda>(name, v). av_kind v = HostKind) (sp_volumes spec))))"

definition primary_route_desc :: "string \<Rightarrow> string" where
  "primary_route_desc route =
     ''Primary route: passed to the app as ${routes.'' @ route @ ''}'' @
     (if route = PRIMARY_ROUTE_NAME then '' and ${klso.domain}'' else [])"

definition route_field :: "string list \<Rightarrow> (string, string list) dict \<Rightarrow> string \<times> app_route \<Rightarrow> config_field" where
  "route_field tags assigned nr =
     (case nr of (name, r) \<Rightarrow>
        (plain_field (ROUTE_PREFIX @ name)
            (if ar_desc r \<noteq> [] then ar_desc r else ''Route providers that publish '' @ name @ ''; the first gives its URL''))
          \<lparr>fd_value := map_option format_route_providers (map_of assigned name), fd_required := False,
           fd_choices := Some (List.filter (\<lambda>t. t \<noteq> NONE_ROUTE_PROVIDER_TAG) (sort tags)), fd_multi := True,
           fd_empty := Some NONE_ROUTE_PROVIDER_TAG, fd_primary_desc := primary_route_desc name\<rparr>)"

definition route_fields :: "app_spec \<Rightarrow> 's run_ctx \<Rightarrow> store_error + config_field list" where
  "route_fields spec ctx =
     andthen (list_route_assignments (rx_ops ctx) (rx_app ctx)) (\<lambda>assigned.
       Inr (List.map (route_field (keys (cfg_route_providers (rx_config ctx))) assigned) (sp_routes spec)))"

definition backup_field :: "string list \<Rightarrow> string \<times> app_volume \<Rightarrow> config_field" where
  "backup_field on nv =
     (case nv of (name, v) \<Rightarrow>
        (plain_field (BACKUP_PREFIX @ name) (''Back up '' @ name @ (if av_desc v \<noteq> [] then '': '' @ av_desc v else [])))
          \<lparr>fd_value := Some (if name \<in> set on then ''on'' else ''off''), fd_required := False, fd_choices := Some BACKUP_CHOICES\<rparr>)"

definition backup_fields :: "app_spec \<Rightarrow> 's run_ctx \<Rightarrow> store_error + config_field list" where
  "backup_fields spec ctx =
     andthen (backed_up_bulk (rx_ops ctx) (rx_app ctx)) (\<lambda>on.
       Inr (List.map (backup_field on) (List.filter (\<lambda>(name, v). av_kind v = BulkKind) (sp_volumes spec))))"

definition app_config_request :: "app_spec \<Rightarrow> 's run_ctx \<Rightarrow> store_error + config_request" where
  "app_config_request spec ctx =
     andthen (config_fields spec ctx) (\<lambda>a. andthen (bind_fields spec ctx) (\<lambda>b.
     andthen (route_fields spec ctx) (\<lambda>c. andthen (backup_fields spec ctx) (\<lambda>d.
       Inr \<lparr>fq_title = sp_app spec, fq_fields = a @ b @ c @ d, fq_note = as_description (m_app (sp_manifest spec)), fq_config_title = ''App config''\<rparr>))))"

section \<open>Applying an answer to an app\<close>

definition flow_load :: "(('s, 'w, 'b) load_state, load_error, 'a) act \<Rightarrow> (('s, 'w, 'b) load_state, flow_error, 'a) act" where
  "flow_load m st = (case m st of (Inl e, st') \<Rightarrow> (Inl (FlowLoad e), st') | (Inr x, st') \<Rightarrow> (Inr x, st'))"

definition apply_answer :: "app_spec \<Rightarrow> string \<times> string \<Rightarrow> (('s, 'w, 'b) load_state, load_error, unit) act" where
  "apply_answer spec nv =
     (case nv of (name, value) \<Rightarrow>
        if starts_with name VOLUME_PREFIX then bind_host_volume spec (remove_prefix name VOLUME_PREFIX, value)
        else if starts_with name ROUTE_PREFIX then bindA (assign_route spec (remove_prefix name ROUTE_PREFIX) value) (\<lambda>_. ret ())
        else if starts_with name BACKUP_PREFIX
        then on_app (\<lambda>ops cr k s. set_backup_bulk ops s (remove_prefix name BACKUP_PREFIX) (value = ''on''))
        else ret ())"

definition changed_answers :: "config_request \<Rightarrow> (string, string) dict \<Rightarrow> (string, string) dict" where
  "changed_answers r values =
     List.filter (\<lambda>(name, value). case request_field r name of None \<Rightarrow> True | Some f \<Rightarrow> fd_value f \<noteq> Some value) values"

definition apply_app_config ::
    "app_spec \<Rightarrow> (string, string) dict \<Rightarrow> (('s, 'w, 'b) load_state, flow_error, string list) act" where
  "apply_app_config spec values =
     bindA (askA (\<lambda>st. case app_config_request spec (ld_ctx st) of Inl e \<Rightarrow> Inl (FlowStore e) | Inr r \<Rightarrow> Inr r)) (\<lambda>r.
     bindA (askA (\<lambda>st. request_response r values)) (\<lambda>_.
     let changed = changed_answers r values; sets = List.filter (\<lambda>(n, v). CHR ''.'' \<notin> set n) changed
     in bindA (whenA (sets \<noteq> []) (flow_load (apply_config_sets spec sets))) (\<lambda>_.
        bindA (flow_load (eachA (apply_answer spec) changed)) (\<lambda>_. ret (keys changed)))))"

section \<open>Route providers\<close>

text \<open>The class of each kind: its name in config.toml, the args it needs, the fields it asks for.\<close>

fun kind_text :: "provider_kind \<Rightarrow> string" where
  "kind_text NginxProxyManager = ''nginx_proxy_manager''"
| "kind_text CloudflareTunnel = ''cloudflare_tunnel''"
| "kind_text Pangolin = ''pangolin''"
| "kind_text NoopProvider = ''noop''"

fun required_args :: "provider_kind \<Rightarrow> string list" where
  "required_args NginxProxyManager = NPM_REQUIRED"
| "required_args CloudflareTunnel = CLOUDFLARE_REQUIRED"
| "required_args Pangolin = PANGOLIN_REQUIRED"
| "required_args NoopProvider = []"

fun provider_fields :: "provider_kind \<Rightarrow> config_field list" where
  "provider_fields NginxProxyManager =
     [plain_field ''endpoint'' ''NPM's admin URL, e.g. http://npm-host:81'', plain_field ''email'' ''Login for the NPM admin account'',
      (plain_field ''password'' ''Password for that account'')\<lparr>fd_secret := True\<rparr>]"
| "provider_fields CloudflareTunnel =
     [plain_field ''account_id'' ''Account id from the dashboard URL'', plain_field ''tunnel_id'' ''Tunnel id from Zero Trust > Networks'',
      (plain_field ''api_token'' ''Token with Cloudflare Tunnel: Edit and DNS: Edit'')\<lparr>fd_secret := True\<rparr>,
      (plain_field ''zone_id'' ''Only needed when the token cannot list zones'')\<lparr>fd_required := False, fd_section := ''advanced''\<rparr>]"
| "provider_fields Pangolin =
     [plain_field ''endpoint'' ''Integration API URL; must be https'', plain_field ''org_id'' ''Org name from the dashboard URL'',
      plain_field ''site'' ''Site name that can reach kelso'', (plain_field ''api_key'' ''Integration API key'')\<lparr>fd_secret := True\<rparr>,
      (plain_field ''shared_policy'' ''Resource policy to attach to every route'')\<lparr>fd_required := False, fd_section := ''advanced''\<rparr>]"
| "provider_fields NoopProvider = []"

definition all_kinds :: "provider_kind list" where
  "all_kinds = [NginxProxyManager, CloudflareTunnel, Pangolin, NoopProvider]"

definition kind_named :: "string \<Rightarrow> provider_kind option" where
  "kind_named name = List.find (\<lambda>k. kind_text k = name) all_kinds"

definition DOMAIN_FIELD :: config_field where
  "DOMAIN_FIELD = plain_field ''domain'' ''Domain routes are published under, e.g. example.com''"

definition ADDRESS_FIELD :: config_field where
  "ADDRESS_FIELD = plain_field ''kelso_address'' ''LAN address this host is reachable at, e.g. 10.0.0.5''"

definition secret_ref :: "string \<Rightarrow> string \<Rightarrow> string" where
  "secret_ref tag name = ''route_provider.'' @ tag @ ''.'' @ name"

definition configurable_kinds :: "string list" where
  "configurable_kinds = sort (List.filter (\<lambda>k. k \<noteq> ''noop'') (List.map kind_text all_kinds))"

definition resolve_route_provider :: "string \<Rightarrow> config \<Rightarrow> string \<Rightarrow> flow_error + provider_kind" where
  "resolve_route_provider tag cfg kind =
     (if tag = NONE_ROUTE_PROVIDER_TAG then Inl (BuiltInProvider tag)
      else let existing = map_of (cfg_route_providers cfg) tag
        in case existing of
            Some e \<Rightarrow> (if kind \<noteq> [] \<and> kind \<noteq> kind_text (rp_kind e) then Inl (KindDiffers tag kind)
              else if rp_kind e = NoopProvider then Inl (UnknownKind ''noop'' configurable_kinds) else Inr (rp_kind e))
          | None \<Rightarrow> if kind = [] then Inl (NeedsKind tag)
              else (case kind_named kind of
                  None \<Rightarrow> Inl (UnknownKind kind configurable_kinds)
                | Some k \<Rightarrow> if kind \<notin> set configurable_kinds then Inl (UnknownKind kind configurable_kinds) else Inr k))"

definition provider_field_value :: "config \<Rightarrow> route_provider_entry option \<Rightarrow> config_field \<Rightarrow> string option" where
  "provider_field_value cfg existing f =
     (if fd_name f = ''domain'' then map_option rp_domain existing
      else if fd_name f = ''kelso_address'' then (if cfg_kelso_address cfg = [] then None else Some (cfg_kelso_address cfg))
      else if fd_secret f then None
      else case existing of None \<Rightarrow> None | Some e \<Rightarrow> map_of (rp_args e) (fd_name f))"

definition provider_field ::
    "'s store_ops \<Rightarrow> crypto_engine \<Rightarrow> 's \<Rightarrow> config \<Rightarrow> string \<Rightarrow> config_field \<Rightarrow> store_error + config_field" where
  "provider_field ops cr db cfg tag f =
     andthen (if fd_secret f then get_secret ops cr db (secret_ref tag (fd_name f)) else Inr None) (\<lambda>stored.
       Inr ((plain_field (fd_name f) (fd_desc f))
         \<lparr>fd_value := provider_field_value cfg (map_of (cfg_route_providers cfg) tag) f, fd_default := fd_default f,
          fd_secret := fd_secret f, fd_secret_set := (stored \<notin> {None, Some []}), fd_section := fd_section f, fd_required := fd_required f\<rparr>))"

definition route_provider_config_request ::
    "'s store_ops \<Rightarrow> crypto_engine \<Rightarrow> 's \<Rightarrow> config \<Rightarrow> string \<Rightarrow> provider_kind \<Rightarrow> store_error + config_request" where
  "route_provider_config_request ops cr db cfg tag kind =
     andthen (traverse (provider_field ops cr db cfg tag) (DOMAIN_FIELD # ADDRESS_FIELD # provider_fields kind)) (\<lambda>fields.
       Inr \<lparr>fq_title = ''route provider '' @ tag @ '' ('' @ kind_text kind @ '')'', fq_fields = fields,
            fq_note = ''Check it afterwards with `kelso route check '' @ tag @ ''`'', fq_config_title = ''Configuration''\<rparr>)"

text \<open>What an answer changes: config.toml and the kelso store.\<close>

record 's provider_state =
  pv_doc :: document
  pv_db :: 's
  pv_nonce :: nat

definition edit_doc_with ::
    "(document \<Rightarrow> edit_error + document) \<Rightarrow> ('s provider_state, flow_error, unit) act" where
  "edit_doc_with f st = (case f (pv_doc st) of Inl e \<Rightarrow> (Inl (FlowEdit e), st) | Inr d \<Rightarrow> (Inr (), st\<lparr>pv_doc := d\<rparr>))"

definition store_secret :: "'s store_ops \<Rightarrow> crypto_engine \<Rightarrow> string \<Rightarrow> string \<Rightarrow> ('s provider_state, flow_error, unit) act" where
  "store_secret ops cr ref value st =
     (case set_secret ops cr (pv_nonce st) (pv_db st) ref value of
        Inl e \<Rightarrow> (Inl (FlowStore e), st)
      | Inr db \<Rightarrow> (Inr (), st\<lparr>pv_db := db, pv_nonce := Suc (pv_nonce st)\<rparr>))"

fun answer_fields ::
    "'s store_ops \<Rightarrow> crypto_engine \<Rightarrow> string \<Rightarrow> (string, string) dict \<Rightarrow> config_field list \<Rightarrow> (string, string) dict
       \<Rightarrow> ('s provider_state, flow_error, (string, string) dict \<times> string list) act" where
  "answer_fields ops cr tag values [] args = ret (args, [])"
| "answer_fields ops cr tag values (f # fs) args =
     (if map_of values (fd_name f) \<in> {None, Some []} \<or> fd_name f \<in> {''domain'', ''kelso_address''}
      then answer_fields ops cr tag values fs args
      else let value = the (map_of values (fd_name f))
        in bindA (if fd_secret f
             then bindA (store_secret ops cr (secret_ref tag (fd_name f)) value) (\<lambda>_.
               ret (AList.update (fd_name f @ ''_secret'') (secret_ref tag (fd_name f)) args))
             else ret (AList.update (fd_name f) value args)) (\<lambda>args.
           bindA (answer_fields ops cr tag values fs args) (\<lambda>(args, written). ret (args, fd_name f # written))))"

definition apply_route_provider_config ::
    "(document \<Rightarrow> bool) \<Rightarrow> 's store_ops \<Rightarrow> crypto_engine \<Rightarrow> config \<Rightarrow> string \<Rightarrow> provider_kind \<Rightarrow> (string, string) dict
       \<Rightarrow> ('s provider_state, flow_error, string list) act" where
  "apply_route_provider_config loads_ok ops cr cfg tag kind values =
     bindA (askA (\<lambda>st. case route_provider_config_request ops cr (pv_db st) cfg tag kind of
         Inl e \<Rightarrow> Inl (FlowStore e) | Inr r \<Rightarrow> Inr r)) (\<lambda>r.
     bindA (askA (\<lambda>st. request_response r values)) (\<lambda>_.
     let existing = map_of (cfg_route_providers cfg) tag;
         domain = (case map_of values ''domain'' of Some (c # cs) \<Rightarrow> c # cs | _ \<Rightarrow> (case existing of None \<Rightarrow> [] | Some e \<Rightarrow> rp_domain e));
         address = (case map_of values ''kelso_address'' of None \<Rightarrow> [] | Some a \<Rightarrow> a);
         moved = (address \<noteq> [] \<and> address \<noteq> cfg_kelso_address cfg)
     in if domain = [] then raise (NeedsDomain tag)
        else bindA (whenA moved (edit_doc_with (set_kelso_address loads_ok address))) (\<lambda>_.
          bindA (answer_fields ops cr tag values (fq_fields r) (case existing of None \<Rightarrow> [] | Some e \<Rightarrow> rp_args e)) (\<lambda>(args, written).
          bindA (edit_doc_with (set_route_provider loads_ok tag (kind_text kind) domain args)) (\<lambda>_.
            ret ((if moved then [''kelso_address''] else []) @ written
              @ (if map_of values ''domain'' \<in> {None, Some []} then [] else [''domain''])))))))"

section \<open>A block that was answered in full\<close>

context config_store
begin

lemma set_secret_reads_back:
  assumes "set_secret ops c n s name value = Inr s'" and "inv s" and "crypto_ok c"
  shows "inv s'" and "get_secret ops c s' name = Inr (Some value)"
proof -
  obtain b where b: "ce_encrypt c n value = Inr b" "ce_decrypt c b = Inr value"
    using assms(3) unfolding crypto_ok_def by blast
  with assms(1) have w: "st_write ops s (secret_key name) (JStr b) = Inr s'" by (simp add: set_secret_def)
  from write_checked [OF w] have ok: "key_ok (secret_key name)" "storable (JStr b)" by (simp_all add: storable_def)
  from write_law [OF assms(2) ok] w have s': "inv s'" "obs s' = (obs s)(secret_key name \<mapsto> JStr b)" by auto
  then show "inv s'" "get_secret ops c s' name = Inr (Some value)"
    using b by (simp_all add: get_secret_def read_obs decrypt_json_def)
qed

end

text \<open>The key of the args a field fills, and what an answer puts there.\<close>

definition arg_key :: "config_field \<Rightarrow> string" where
  "arg_key f = (if fd_secret f then fd_name f @ ''_secret'' else fd_name f)"

definition answered :: "(string, string) dict \<Rightarrow> config_field \<Rightarrow> bool" where
  "answered values f \<longleftrightarrow> map_of values (fd_name f) \<notin> {None, Some []} \<and> fd_name f \<notin> {''domain'', ''kelso_address''}"

definition arg_value :: "string \<Rightarrow> (string, string) dict \<Rightarrow> config_field \<Rightarrow> string" where
  "arg_value tag values f = (if fd_secret f then secret_ref tag (fd_name f) else the (map_of values (fd_name f)))"

lemma answer_fields_Cons:
  assumes "answer_fields ops cr tag values (f # fs) args st = (Inr (args', written), st')"
  obtains (skipped) "\<not> answered values f" "answer_fields ops cr tag values fs args st = (Inr (args', written), st')"
    | (taken) st1 w where "answered values f" "written = fd_name f # w"
        "if fd_secret f then \<exists>db. set_secret ops cr (pv_nonce st) (pv_db st) (secret_ref tag (fd_name f)) (the (map_of values (fd_name f))) = Inr db \<and>
            st1 = st\<lparr>pv_db := db, pv_nonce := Suc (pv_nonce st)\<rparr> else st1 = st"
        "answer_fields ops cr tag values fs (AList.update (arg_key f) (arg_value tag values f) args) st1 = (Inr (args', w), st')"
proof (cases "answered values f")
  case False
  with assms that(1) show ?thesis by (auto simp: answered_def)
next
  case True
  then have no: "\<not> (map_of values (fd_name f) \<in> {None, Some []} \<or> fd_name f \<in> {''domain'', ''kelso_address''})"
    by (auto simp: answered_def)
  show ?thesis
  proof (cases "fd_secret f")
    case False
    with assms no obtain w where "written = fd_name f # w"
      "answer_fields ops cr tag values fs (AList.update (arg_key f) (arg_value tag values f) args) st = (Inr (args', w), st')"
      by (auto simp: Let_def bindA_result arg_key_def arg_value_def)
    with that(2) [OF True] False show ?thesis by simp
  next
    case secret: True
    with assms no obtain st1 w where "store_secret ops cr (secret_ref tag (fd_name f)) (the (map_of values (fd_name f))) st = (Inr (), st1)"
      "written = fd_name f # w"
      "answer_fields ops cr tag values fs (AList.update (arg_key f) (arg_value tag values f) args) st1 = (Inr (args', w), st')"
      by (auto simp: Let_def bindA_result arg_key_def arg_value_def)
    with that(2) [OF True] secret show ?thesis by (auto simp: store_secret_def split: sum.splits)
  qed
qed

lemma answered_args:
  assumes "answer_fields ops cr tag values fs args st = (Inr (args', written), st')" and "distinct (List.map arg_key fs)"
  shows "\<forall>f \<in> set fs. map_of args' (arg_key f) = (if answered values f then Some (arg_value tag values f) else map_of args (arg_key f))"
    and "\<forall>k. k \<notin> set (List.map arg_key fs) \<longrightarrow> map_of args' k = map_of args k"
proof -
  have "(\<forall>f \<in> set fs. map_of args' (arg_key f) = (if answered values f then Some (arg_value tag values f) else map_of args (arg_key f))) \<and>
    (\<forall>k. k \<notin> set (List.map arg_key fs) \<longrightarrow> map_of args' k = map_of args k)"
    using assms
  proof (induction fs arbitrary: args st written)
    case (Cons f fs)
    from Cons.prems(2) have dist: "distinct (List.map arg_key fs)" "arg_key f \<notin> set (List.map arg_key fs)" by simp_all
    from Cons.prems(1) show ?case
    proof (cases rule: answer_fields_Cons)
      case skipped
      from Cons.IH [OF skipped(2) dist(1)] skipped(1) dist(2) show ?thesis by auto
    next
      case (taken st1 w)
      have "arg_key g \<noteq> arg_key f" if "g \<in> set fs" for g
        using imageI [OF that, of arg_key] dist(2) by (auto simp: image_iff)
      with Cons.IH [OF taken(4) dist(1)] taken(1) dist(2) show ?thesis by auto
    qed
  qed simp
  then show "\<forall>f \<in> set fs. map_of args' (arg_key f) = (if answered values f then Some (arg_value tag values f) else map_of args (arg_key f))"
    "\<forall>k. k \<notin> set (List.map arg_key fs) \<longrightarrow> map_of args' k = map_of args k" by blast+
qed

lemma no_secret_answered:
  assumes "answer_fields ops cr tag values fs args st = (Inr (args', written), st')" and "\<forall>f \<in> set fs. fd_secret f \<longrightarrow> \<not> answered values f"
  shows "st' = st"
  using assms
proof (induction fs arbitrary: args written)
  case (Cons f fs)
  from Cons.prems(1) show ?case
  proof (cases rule: answer_fields_Cons)
    case skipped
    from Cons.IH [OF skipped(2)] Cons.prems(2) show ?thesis by simp
  next
    case (taken st1 w)
    with Cons.prems(2) have "st1 = st" by (auto split: if_splits)
    with Cons.IH taken(4) Cons.prems(2) show ?thesis by simp
  qed
qed simp

context config_store
begin

lemma answered_secrets:
  assumes "answer_fields ops cr tag values fs args st = (Inr (args', written), st')" and "distinct (List.map arg_key fs)"
    and "inv (pv_db st)" and "crypto_ok cr" and "\<forall>f \<in> set fs. \<forall>g \<in> set fs. fd_secret f \<and> fd_secret g \<longrightarrow> f = g"
  shows "inv (pv_db st')" and "f \<in> set fs \<Longrightarrow> fd_secret f \<Longrightarrow> answered values f \<Longrightarrow>
    get_secret ops cr (pv_db st') (secret_ref tag (fd_name f)) = Inr (map_of values (fd_name f))"
proof -
  have "inv (pv_db st') \<and> (\<forall>f \<in> set fs. fd_secret f \<and> answered values f \<longrightarrow>
      get_secret ops cr (pv_db st') (secret_ref tag (fd_name f)) = Inr (map_of values (fd_name f)))"
    using assms(1-3,5)
  proof (induction fs arbitrary: args st written)
    case (Cons f fs)
    from Cons.prems(2) have dist: "distinct (List.map arg_key fs)" "f \<notin> set fs" by auto
    from Cons.prems(1) show ?case
    proof (cases rule: answer_fields_Cons)
      case skipped
      from Cons.IH [OF skipped(2) dist(1) Cons.prems(3)] Cons.prems(4) skipped(1) show ?thesis by simp
    next
      case (taken st1 w)
      show ?thesis
      proof (cases "fd_secret f")
        case False
        with taken(3) have "st1 = st" by simp
        with Cons.IH [OF taken(4) dist(1)] Cons.prems(3,4) False show ?thesis by simp
      next
        case True
        with taken(3) obtain db where set: "set_secret ops cr (pv_nonce st) (pv_db st) (secret_ref tag (fd_name f)) (the (map_of values (fd_name f))) = Inr db"
          and st1: "pv_db st1 = db" by auto
        note reads = set_secret_reads_back [OF set Cons.prems(3) assms(4)]
        have none: "\<forall>g \<in> set fs. \<not> fd_secret g" using Cons.prems(4) True dist(2) by auto
        then have "st' = st1" using no_secret_answered [OF taken(4)] by blast
        moreover have "map_of values (fd_name f) = Some (the (map_of values (fd_name f)))" using taken(1) by (auto simp: answered_def)
        ultimately show ?thesis using reads st1 none by auto
      qed
    qed
  qed simp
  then show "inv (pv_db st')" "f \<in> set fs \<Longrightarrow> fd_secret f \<Longrightarrow> answered values f \<Longrightarrow>
    get_secret ops cr (pv_db st') (secret_ref tag (fd_name f)) = Inr (map_of values (fd_name f))" by blast+
qed

end

definition shape :: "config_field \<Rightarrow> string \<times> bool" where
  "shape f = (fd_name f, fd_secret f)"

lemma shape_determines: "shape f = shape g \<Longrightarrow> arg_key f = arg_key g \<and> answered values f = answered values g \<and>
    arg_value tag values f = arg_value tag values g \<and> fd_secret f = fd_secret g \<and> fd_name f = fd_name g"
  by (simp add: shape_def arg_key_def answered_def arg_value_def)

lemma request_shapes:
  assumes "route_provider_config_request ops cr db cfg tag kind = Inr r"
  shows "List.map shape (fq_fields r) = List.map shape (DOMAIN_FIELD # ADDRESS_FIELD # provider_fields kind)"
proof -
  from assms have "traverse (provider_field ops cr db cfg tag) (DOMAIN_FIELD # ADDRESS_FIELD # provider_fields kind) = Inr (fq_fields r)"
    unfolding route_provider_config_request_def andthen_Inr by auto
  moreover have one: "provider_field ops cr db cfg tag f = Inr g \<Longrightarrow> shape g = shape f" for f g
    unfolding provider_field_def andthen_Inr by (auto simp: shape_def plain_field_def)
  have "traverse (provider_field ops cr db cfg tag) fs = Inr gs \<Longrightarrow> List.map shape gs = List.map shape fs" for fs gs
    by (induction fs arbitrary: gs) (auto dest: one split: sum.splits)
  ultimately show ?thesis by blast
qed

lemmas field_defs = DOMAIN_FIELD_def ADDRESS_FIELD_def plain_field_def arg_key_def shape_def

lemma kind_keys: "distinct (List.map arg_key (DOMAIN_FIELD # ADDRESS_FIELD # provider_fields kind))"
  by (cases kind) (simp_all add: field_defs)

lemma kind_secrets:
  "List.map shape (List.filter fd_secret (DOMAIN_FIELD # ADDRESS_FIELD # provider_fields kind)) =
    (case kind of NginxProxyManager \<Rightarrow> [(''password'', True)] | CloudflareTunnel \<Rightarrow> [(''api_token'', True)]
      | Pangolin \<Rightarrow> [(''api_key'', True)] | NoopProvider \<Rightarrow> [])"
  by (cases kind) (simp_all add: field_defs)

lemma one_secret:
  assumes "f \<in> set (DOMAIN_FIELD # ADDRESS_FIELD # provider_fields kind)" "g \<in> set (DOMAIN_FIELD # ADDRESS_FIELD # provider_fields kind)"
    "fd_secret f" "fd_secret g"
  shows "shape f = shape g"
proof -
  let ?secrets = "List.map shape (List.filter fd_secret (DOMAIN_FIELD # ADDRESS_FIELD # provider_fields kind))"
  have "shape f \<in> set ?secrets" "shape g \<in> set ?secrets" using assms by auto
  then show ?thesis unfolding kind_secrets by (cases kind) simp_all
qed

lemma kind_required:
  "required_args kind = List.map arg_key (List.filter fd_required (provider_fields kind))"
  by (cases kind) (simp_all add: field_defs NPM_REQUIRED_def PANGOLIN_REQUIRED_def CLOUDFLARE_REQUIRED_def)

lemma kind_secret_required: "f \<in> set (provider_fields kind) \<Longrightarrow> fd_secret f \<Longrightarrow> fd_required f"
  by (cases kind) (auto simp: field_defs)

lemma arg_key_shape: "arg_key = (\<lambda>(name, secret). if secret then name @ ''_secret'' else name) \<circ> shape"
  by (rule ext) (simp add: shape_def arg_key_def)

lemma map_arg_key_shapes: "List.map shape fs = List.map shape gs \<Longrightarrow> List.map arg_key fs = List.map arg_key gs"
  unfolding arg_key_shape list.map_comp [symmetric] by (rule arg_cong)

lemma of_shape: "List.map shape fs = List.map shape gs \<Longrightarrow> g \<in> set gs \<Longrightarrow> \<exists>f \<in> set fs. shape f = shape g"
  by (metis (no_types, lifting) image_iff list.set_map)

text \<open>The steps of an answer that was applied.\<close>

lemma applied_parts:
  assumes "apply_route_provider_config loads_ok ops cr cfg tag kind values st = (Inr written, st')"
  obtains (applied) r domain st1 args w st2 where "route_provider_config_request ops cr (pv_db st) cfg tag kind = Inr r" "domain \<noteq> []"
    "pv_db st1 = pv_db st"
    "answer_fields ops cr tag values (fq_fields r) (case map_of (cfg_route_providers cfg) tag of None \<Rightarrow> [] | Some e \<Rightarrow> rp_args e) st1 = (Inr (args, w), st2)"
    "set_route_provider loads_ok tag (kind_text kind) domain args (pv_doc st2) = Inr (pv_doc st')" "pv_db st' = pv_db st2"
proof -
  let ?domain = "case map_of values ''domain'' of Some (c # cs) \<Rightarrow> c # cs | _ \<Rightarrow> (case map_of (cfg_route_providers cfg) tag of None \<Rightarrow> [] | Some e \<Rightarrow> rp_domain e)"
  let ?address = "case map_of values ''kelso_address'' of None \<Rightarrow> [] | Some a \<Rightarrow> a"
  have same: "edit_doc_with f s = (Inr u, s') \<Longrightarrow> pv_db s' = pv_db s \<and> f (pv_doc s) = Inr (pv_doc s')" for f s s' u
    by (auto simp: edit_doc_with_def split: sum.splits)
  have maybe: "whenA b (edit_doc_with f) s = (Inr u, s') \<Longrightarrow> pv_db s' = pv_db s" for b f s s' u
    by (cases b) (auto dest: same)
  from assms have "?domain \<noteq> []"
    by (auto simp: apply_route_provider_config_def bindA_result Let_def split: if_splits)
  with assms obtain r st1 args w st2 where
    parts: "route_provider_config_request ops cr (pv_db st) cfg tag kind = Inr r"
      "whenA (?address \<noteq> [] \<and> ?address \<noteq> cfg_kelso_address cfg) (edit_doc_with (set_kelso_address loads_ok ?address)) st = (Inr (), st1)"
      "answer_fields ops cr tag values (fq_fields r) (case map_of (cfg_route_providers cfg) tag of None \<Rightarrow> [] | Some e \<Rightarrow> rp_args e) st1 = (Inr (args, w), st2)"
      "edit_doc_with (set_route_provider loads_ok tag (kind_text kind) ?domain args) st2 = (Inr (), st')"
    by (auto simp: apply_route_provider_config_def bindA_result Let_def split: sum.splits)
  from maybe [OF parts(2)] have "pv_db st1 = pv_db st" .
  with that [OF parts(1) \<open>?domain \<noteq> []\<close> _ parts(3)] same [OF parts(4)] show ?thesis by blast
qed

definition provider_block :: "provider_kind \<Rightarrow> string \<Rightarrow> (string, string) dict \<Rightarrow> json" where
  "provider_block kind domain args =
     JObj ([(''kind'', JStr (kind_text kind)), (''domain'', JStr domain)]
       @ (if args = [] then [] else [(''args'', JObj (List.map (\<lambda>(k, v). (k, JStr v)) args))]))"

lemma block_written:
  assumes "set_route_provider loads_ok tag (kind_text kind) domain args d = Inr d'"
  shows "map_of (doc_table ''route_provider'' d') tag = Some (provider_block kind domain args)"
proof -
  from assms have "d' = set_in_table ''route_provider'' tag (provider_block kind domain args) d"
    by (auto simp: set_route_provider_def provider_block_def edit_config_def andthen_Inr split: if_splits)
  then show ?thesis by (simp add: set_in_table_def doc_table_def)
qed

section \<open>A secret the block does not name\<close>

text \<open>A block that was removed leaves its secret in the kelso store. Added again, the request shows the secret as
  set and does not miss it; answered without it, the block written names no secret, and its provider is refused.\<close>

lemma stored_secret_not_missing:
  assumes "route_provider_config_request ops cr db cfg tag kind = Inr r" and "f \<in> set (provider_fields kind)" and "fd_secret f"
    and "get_secret ops cr db (secret_ref tag (fd_name f)) = Inr (Some v)" and "v \<noteq> []"
  shows "fd_name f \<notin> set (request_missing r)"
proof -
  from assms(1) have fields: "traverse (provider_field ops cr db cfg tag) (DOMAIN_FIELD # ADDRESS_FIELD # provider_fields kind) = Inr (fq_fields r)"
    unfolding route_provider_config_request_def andthen_Inr by auto
  have made: "traverse (provider_field ops cr db cfg tag) fs = Inr gs \<Longrightarrow> g \<in> set gs \<Longrightarrow> \<exists>h \<in> set fs. provider_field ops cr db cfg tag h = Inr g" for fs gs g
    by (induction fs arbitrary: gs) (auto split: sum.splits)
  have "is_set g" if g: "g \<in> set (fq_fields r)" "fd_name g = fd_name f" for g
  proof -
    from made [OF fields g(1)] obtain h where h: "h \<in> set (DOMAIN_FIELD # ADDRESS_FIELD # provider_fields kind)" "provider_field ops cr db cfg tag h = Inr g" by blast
    from h(2) have name: "fd_name h = fd_name g" by (auto simp: provider_field_def andthen_Inr plain_field_def)
    with h(1) assms(2,3) g(2) have "fd_secret h" by (cases kind) (auto simp: field_defs)
    with h(2) name g(2) assms(4,5) show ?thesis
      by (auto simp: provider_field_def andthen_Inr plain_field_def is_set_def)
  qed
  then show ?thesis by (auto simp: request_missing_def)
qed

lemma unnamed_secret_refused:
  assumes "apply_route_provider_config loads_ok ops cr cfg tag kind values st = (Inr written, st')"
    and "map_of (cfg_route_providers cfg) tag = None" and f: "f \<in> set (provider_fields kind)" "fd_secret f" "\<not> answered values f"
  shows "\<exists>domain args. map_of (doc_table ''route_provider'' (pv_doc st')) tag = Some (provider_block kind domain args) \<and>
    isl (provider_args (required_args kind) tag args)"
  using assms(1)
proof (cases rule: applied_parts)
  case (applied r domain st1 args w st2)
  note shapes = request_shapes [OF applied(1)]
  have dist: "distinct (List.map arg_key (fq_fields r))" unfolding map_arg_key_shapes [OF shapes] by (rule kind_keys)
  from of_shape [OF shapes, of f] f(1) obtain g where g: "g \<in> set (fq_fields r)" "shape g = shape f" by auto
  have "map_of args (arg_key f) = None"
    using answered_args(1) [OF applied(4) dist] g(1) shape_determines [OF g(2), of "values" tag] f(3) assms(2) by auto
  moreover have "arg_key f \<in> set (required_args kind)" unfolding kind_required using f kind_secret_required [OF f(1,2)] by simp
  ultimately have "isl (provider_args (required_args kind) tag args)" by (auto simp: provider_args_def filter_empty_conv split: list.splits)
  then show ?thesis using block_written [OF applied(5)] by blast
qed

section \<open>Properties\<close>

text \<open>C36: a route provider's request that was answered in full (each required field answered, or already in the
  block, a secret with a value under the name the block has for it) leaves a block its provider can be built from:
  it has every arg the provider requires, and the secret it names can be read.\<close>

theorem answered_block_is_complete:
  assumes "config_store ops ok obs" and "ok (pv_db st)" and "crypto_ok cr"
    and "apply_route_provider_config loads_ok ops cr cfg tag kind values st = (Inr written, st')"
    and "given = (case map_of (cfg_route_providers cfg) tag of None \<Rightarrow> [] | Some e \<Rightarrow> rp_args e)"
    and "\<forall>f \<in> set (provider_fields kind). fd_required f \<and> \<not> answered values f \<longrightarrow>
      (\<exists>w. w \<noteq> [] \<and> map_of given (arg_key f) = Some w \<and>
        (fd_secret f \<longrightarrow> (\<exists>v. v \<noteq> [] \<and> get_secret ops cr (pv_db st) w = Inr (Some v))))"
  shows "\<exists>domain args. domain \<noteq> [] \<and>
    map_of (doc_table ''route_provider'' (pv_doc st')) tag = Some (provider_block kind domain args) \<and>
    provider_args (required_args kind) tag args = Inr args \<and>
    (\<forall>f \<in> set (provider_fields kind). fd_secret f \<longrightarrow>
      (\<exists>v. v \<noteq> [] \<and> provider_secret ops cr (pv_db st') (the (map_of args (arg_key f))) = Inr v))"
  using assms(4)
proof (cases rule: applied_parts)
  case (applied r domain st1 args w st2)
  let ?fs = "DOMAIN_FIELD # ADDRESS_FIELD # provider_fields kind"
  note shapes = request_shapes [OF applied(1)]
  have dist: "distinct (List.map arg_key (fq_fields r))" unfolding map_arg_key_shapes [OF shapes] by (rule kind_keys)
  have args_of: "map_of args (arg_key f) = (if answered values f then Some (arg_value tag values f) else map_of given (arg_key f))"
    if "f \<in> set (provider_fields kind)" for f
  proof -
    from of_shape [OF shapes, of f] that obtain g where "g \<in> set (fq_fields r)" "shape g = shape f" by auto
    with answered_args(1) [OF applied(4) dist] shape_determines [of g f "values" tag] show ?thesis
      by (auto simp: assms(5))
  qed
  have filled: "\<exists>v. v \<noteq> [] \<and> map_of args (arg_key f) = Some v" if f: "f \<in> set (provider_fields kind)" "fd_required f" for f
  proof (cases "answered values f")
    case True
    then have "arg_value tag values f \<noteq> []" by (auto simp: arg_value_def answered_def secret_ref_def)
    with True show ?thesis by (simp add: args_of [OF f(1)])
  next
    case False
    with assms(6) f show ?thesis by (auto simp: args_of [OF f(1)])
  qed
  note block = block_written [OF applied(5)]
  have complete: "provider_args (required_args kind) tag args = Inr args"
  proof -
    have "map_of args name \<notin> {None, Some []}" if "name \<in> set (required_args kind)" for name
    proof -
      from that obtain f where "f \<in> set (provider_fields kind)" "fd_required f" "name = arg_key f" unfolding kind_required by auto
      with filled [of f] show ?thesis by auto
    qed
    then show ?thesis by (auto simp: provider_args_def)
  qed
  have secret: "\<exists>v. v \<noteq> [] \<and> provider_secret ops cr (pv_db st') (the (map_of args (arg_key f))) = Inr v"
    if f: "f \<in> set (provider_fields kind)" "fd_secret f" for f
  proof -
    from of_shape [OF shapes, of f] f(1) obtain g where g: "g \<in> set (fq_fields r)" "shape g = shape f" by auto
    note same = shape_determines [OF g(2), of "values" tag]
    have "shape g = shape h" if gh: "g \<in> set (fq_fields r)" "h \<in> set (fq_fields r)" "fd_secret g" "fd_secret h" for g h
    proof -
      from of_shape [OF shapes [symmetric] gh(1)] obtain g' where g': "g' \<in> set ?fs" "shape g' = shape g" by blast
      from of_shape [OF shapes [symmetric] gh(2)] obtain h' where h': "h' \<in> set ?fs" "shape h' = shape h" by blast
      have "fd_secret g'" "fd_secret h'" using g'(2) h'(2) gh(3,4) by (simp_all add: shape_def)
      from one_secret [OF g'(1) h'(1) this] g'(2) h'(2) show ?thesis by simp
    qed
    moreover have "g = h" if "g \<in> set (fq_fields r)" "h \<in> set (fq_fields r)" "shape g = shape h" for g h
    proof -
      from that(3) have "arg_key g = arg_key h" by (simp add: shape_def arg_key_def)
      with that(1,2) dist show ?thesis unfolding distinct_map by (blast dest: inj_onD)
    qed
    ultimately have one: "\<forall>g \<in> set (fq_fields r). \<forall>h \<in> set (fq_fields r). fd_secret g \<and> fd_secret h \<longrightarrow> g = h" by blast
    have inv1: "ok (pv_db st1)" using assms(2) applied(3) by simp
    show ?thesis
    proof (cases "answered values f")
      case True
      then obtain v where v: "map_of values (fd_name f) = Some v" "v \<noteq> []" by (auto simp: answered_def)
      from config_store.answered_secrets(2) [OF assms(1) applied(4) dist inv1 assms(3) one g(1)] True same f(2) v applied(6)
      have "get_secret ops cr (pv_db st') (secret_ref tag (fd_name f)) = Inr (Some v)" by simp
      with True v(2) f(2) show ?thesis by (simp add: args_of [OF f(1)] arg_value_def provider_secret_def)
    next
      case False
      have "\<forall>h \<in> set (fq_fields r). fd_secret h \<longrightarrow> \<not> answered values h"
        using one g(1) same f(2) False by metis
      from no_secret_answered [OF applied(4) this] have "pv_db st' = pv_db st" using applied(3,6) by simp
      with assms(6) [rule_format, OF f(1)] kind_secret_required [OF f] False f(2) show ?thesis
        by (auto simp: args_of [OF f(1)] provider_secret_def)
    qed
  qed
  from applied(2) block complete secret show ?thesis by blast
qed

text \<open>A new Nginx Proxy Manager, answered in full.\<close>

definition demo_answers :: "(string, string) dict" where
  "demo_answers = [(''domain'', ''example.org''), (''kelso_address'', ''10.0.0.2''), (''endpoint'', ''http://npm:81''),
     (''email'', ''me@x.org''), (''password'', ''hunter2'')]"

definition demo_flow_config :: config where
  "demo_flow_config = demo_machine\<lparr>cfg_route_providers := [], cfg_kelso_address := []\<rparr>"

definition demo_flow_state :: "json_store provider_state" where
  "demo_flow_state = \<lparr>pv_doc = [], pv_db = demo_store, pv_nonce = 0\<rparr>"

lemma demo_flow_applies:
  obtains st' where "apply_route_provider_config (\<lambda>d. True) (json_logtab_store demo_clock demo_now) noop_engine demo_flow_config ''home''
    NginxProxyManager demo_answers demo_flow_state = (Inr [''kelso_address'', ''endpoint'', ''email'', ''password'', ''domain''], st')"
proof -
  let ?ops = "json_logtab_store demo_clock demo_now"
  have unset: "get_secret ?ops noop_engine demo_store name = Inr None" for name
    using js.read_obs [OF demo_store_inv] by (simp add: get_secret_def js_obs_def demo_store_map)
  have "key_ok (secret_key (secret_ref ''home'' ''password''))" by code_simp
  moreover have "storable (JStr b)" if "ce_encrypt noop_engine n ''hunter2'' = Inr b" for n b
    using that by (auto simp: noop_engine_def storable_def MAX_VAL_LENGTH_def json_string_def esc_char_def esc_letter_def Let_def)
  ultimately obtain db where "set_secret ?ops noop_engine 0 demo_store (secret_ref ''home'' ''password'') ''hunter2'' = Inr db"
    using js.set_then_get_secret [OF demo_store_inv _ noop_engine_ok(1)] by blast
  moreover have "check_name ''home'' = Inr ()" by code_simp
  ultimately show ?thesis
    using that by (simp add: apply_route_provider_config_def route_provider_config_request_def provider_field_def provider_field_value_def
        plain_field_def DOMAIN_FIELD_def ADDRESS_FIELD_def unset demo_flow_state_def demo_answers_def demo_flow_config_def bindA_def askA_def
        request_response_def request_validate_def answer_problems_def request_field_def whenA_def Let_def edit_doc_with_def store_secret_def
        set_kelso_address_def ensure_def edit_config_def set_route_provider_def ret_def)
qed

theorem answered_block_is_complete_witness:
  "\<exists>st' domain args v. apply_route_provider_config (\<lambda>d. True) (json_logtab_store demo_clock demo_now) noop_engine demo_flow_config ''home''
      NginxProxyManager demo_answers demo_flow_state = (Inr [''kelso_address'', ''endpoint'', ''email'', ''password'', ''domain''], st') \<and>
    map_of (doc_table ''route_provider'' (pv_doc st')) ''home'' = Some (provider_block NginxProxyManager domain args) \<and>
    provider_args NPM_REQUIRED ''home'' args = Inr args \<and> v \<noteq> [] \<and>
    provider_secret (json_logtab_store demo_clock demo_now) noop_engine (pv_db st') (the (map_of args ''password_secret'')) = Inr v"
proof -
  obtain st' where applied: "apply_route_provider_config (\<lambda>d. True) (json_logtab_store demo_clock demo_now) noop_engine demo_flow_config ''home''
      NginxProxyManager demo_answers demo_flow_state = (Inr [''kelso_address'', ''endpoint'', ''email'', ''password'', ''domain''], st')"
    using demo_flow_applies by blast
  have ok: "js_inv demo_clock demo_now (pv_db demo_flow_state)" by (simp add: demo_flow_state_def demo_store_inv)
  have "\<forall>f \<in> set (provider_fields NginxProxyManager). answered demo_answers f"
    by (simp add: plain_field_def answered_def demo_answers_def)
  with answered_block_is_complete [OF js.config_store_axioms ok noop_engine_ok(1) applied refl] show ?thesis
    using applied by (auto simp: plain_field_def arg_key_def)
qed



end
