(* ===== verification/Spec2Isabelle.thy ===== *)
theory Spec2Isabelle
  imports Logtab Cronexpr Identifiers Json Store Observations Config ConfigEdit Template Manifest Spec RunLayout Routes Kelso Secrets Load Ports Jobs Bundle Backup Run Updown Restic Snapshots Removal Update Restore Cron Recovery Npm Pangolin Cloudflare Providers Activity ConfigFlow
begin

text \<open>
  Kelso loads apps described by a manifest, turns each into a docker compose project and runs, backs up,
  updates, restores and removes it. This development models the logic of the Python package \<^verbatim>\<open>src/kelso\<close>;
  every theory names the source file it translates.

  \<^bold>\<open>Parts and theories.\<close>

  \<^item> Vocabulary. \<^verbatim>\<open>Prelude\<close>: Python strings as lists of characters, dicts as association lists in insertion order,
    errors as sums (\<open>andthen\<close>, \<open>traverse\<close>). \<^verbatim>\<open>Effects\<close>: operations that raise
    and keep what they changed until then (\<open>act\<close>, \<open>bindA\<close>), the form every operation with a state has.
  \<^item> Names and texts. \<^verbatim>\<open>Identifiers\<close> (\<^verbatim>\<open>lib/util.py\<close>, \<^verbatim>\<open>lib/apps.py\<close>, \<^verbatim>\<open>lib/options.py\<close>, GitHub URLs of \<^verbatim>\<open>lib/repo.py\<close>),
    \<^verbatim>\<open>Template\<close> (placeholders and Python's \<^verbatim>\<open>shlex\<close>), \<^verbatim>\<open>Cronexpr\<close> (\<^verbatim>\<open>lib/cronexpr.py\<close> with the calendar it uses).
  \<^item> What is stored. \<^verbatim>\<open>Logtab\<close> (\<^verbatim>\<open>lib/logtab.py\<close>: the append-only text file under every store), \<^verbatim>\<open>Json\<close>
    (\<^verbatim>\<open>json.dumps\<close> and \<^verbatim>\<open>json.loads\<close> for stored values), \<^verbatim>\<open>Store\<close> (\<^verbatim>\<open>lib/store.py\<close>, \<^verbatim>\<open>lib/crypto.py\<close>: what kelso keeps of
    itself and of each app, and the rekeying of one store), \<^verbatim>\<open>Secrets\<close> (\<^verbatim>\<open>lib/secrets.py\<close>), \<^verbatim>\<open>Recovery\<close>
    (\<^verbatim>\<open>lib/recovery.py\<close>, \<^verbatim>\<open>lib/rekey.py\<close>: the key file with the history of its seeds, and the move of every value to the
    key of a new one), \<^verbatim>\<open>Activity\<close> (\<^verbatim>\<open>lib/activity.py\<close>: what was done, when, and with what outcome).
  \<^item> What is described. \<^verbatim>\<open>Config\<close> and \<^verbatim>\<open>ConfigEdit\<close> (\<^verbatim>\<open>lib/config.py\<close>, \<^verbatim>\<open>lib/config_edit.py\<close>: the machine), \<^verbatim>\<open>Manifest\<close>
    (\<^verbatim>\<open>lib/manifest.py\<close>, \<^verbatim>\<open>lib/connections.py\<close>), \<^verbatim>\<open>Spec\<close> (\<^verbatim>\<open>lib/spec.py\<close>), \<^verbatim>\<open>RunLayout\<close> (\<^verbatim>\<open>lib/run_layout.py\<close>: what an app is
    given on this machine, and its compose file), \<^verbatim>\<open>Bundle\<close> (\<^verbatim>\<open>lib/bundle.py\<close>), \<^verbatim>\<open>Kelso\<close> (\<^verbatim>\<open>lib/kelso.py\<close>: the catalog
    and how a query names an app), \<^verbatim>\<open>Observations\<close> (\<^verbatim>\<open>lib/observations.py\<close>, \<^verbatim>\<open>lib/docker.py\<close>), \<^verbatim>\<open>ConfigFlow\<close>
    (\<^verbatim>\<open>lib/configflow/\<close>: what an operator is asked for, and what the answers leave).
  \<^item> What is done. \<^verbatim>\<open>Routes\<close> (\<^verbatim>\<open>lib/lifecycle/routes.py\<close>, \<^verbatim>\<open>lib/routes/base.py\<close>), \<^verbatim>\<open>Load\<close> and \<^verbatim>\<open>Ports\<close>
    (\<^verbatim>\<open>lib/lifecycle/load.py\<close>), \<^verbatim>\<open>Run\<close> (\<^verbatim>\<open>run.py\<close>), \<^verbatim>\<open>Updown\<close> (\<^verbatim>\<open>updown.py\<close>), \<^verbatim>\<open>Cron\<close> (\<^verbatim>\<open>cron.py\<close>), \<^verbatim>\<open>Restic\<close>
    (\<^verbatim>\<open>lib/restic.py\<close>), \<^verbatim>\<open>Backup\<close> and \<^verbatim>\<open>Snapshots\<close> (\<^verbatim>\<open>lib/backup.py\<close>), \<^verbatim>\<open>Removal\<close> (\<^verbatim>\<open>rm.py\<close>, \<^verbatim>\<open>volumes.py\<close>, \<^verbatim>\<open>rootfs.py\<close>),
    \<^verbatim>\<open>Update\<close> (\<^verbatim>\<open>update.py\<close>), \<^verbatim>\<open>Restore\<close> (\<^verbatim>\<open>restore.py\<close>), \<^verbatim>\<open>Jobs\<close> (\<^verbatim>\<open>jobs/job.py\<close>, \<^verbatim>\<open>jobs/runner.py\<close>: verbs asked for
    over the wire and the queue they wait in).
  \<^item> Where routes are published. \<^verbatim>\<open>Http\<close> (requests, answers and the JSON read out of them), \<^verbatim>\<open>Hosts\<close> (domains and the
    hosts of a listing), \<^verbatim>\<open>Npm\<close>, \<^verbatim>\<open>Pangolin\<close> and \<^verbatim>\<open>Cloudflare\<close> (\<^verbatim>\<open>lib/routes/npm.py\<close>, \<^verbatim>\<open>pangolin.py\<close>, \<^verbatim>\<open>cloudflare.py\<close>: one
    request after the other, each of which may fail and leaves what the earlier ones did), \<^verbatim>\<open>Providers\<close>
    (\<^verbatim>\<open>lib/routes/__init__.py\<close>: the provider behind each configured tag).

  \<^bold>\<open>State.\<close> The stores are texts of \<^verbatim>\<open>Logtab\<close> behind the record \<open>store_ops\<close>. A load works on \<open>load_state\<close> (stores, the run
  directory, the services behind the routes, the last actions); a start on \<open>world\<close>, which adds docker; a removal or a
  restore on a record that adds the volumes; what goes over several apps on \<open>box\<close>, which has a run directory per app.
  \<^verbatim>\<open>focus\<close> and \<^verbatim>\<open>refocus\<close> (theory \<^verbatim>\<open>Updown\<close>) take one app's world out of the box and put it back.

  \<^bold>\<open>Parameters.\<close> Docker, restic, git, the cipher, the random source, the clock, the TOML reader and the HTTP services are
  arguments of the definitions that use them: records of functions that answer, with failure among the answers. Where a
  property relies on what such a service documents, the service is a locale or a named hypothesis, with an instance that
  satisfies it.

  \<^bold>\<open>Interfaces.\<close> Each is a locale, interpreted on the definitions that provide it: \<open>config_store\<close> (on the text-level
  table), \<open>route_provider\<close> (on the noop provider, and through \<open>host_provider\<close> on Nginx Proxy Manager and Pangolin), and
  what the services answer: \<open>npm_service\<close>, \<open>pangolin_service\<close> and \<open>cloudflare_service\<close>, each on a service that keeps its hosts.
  \<^verbatim>\<open>Providers\<close> joins them: behind whatever tags are configured, publishing an app takes no name another app holds.

  \<^bold>\<open>Lemma groups.\<close> Refinement of a finite map by the text of a table; round trips of stored values; the search for the
  next time a schedule matches, with termination; closure of accepted manifests and configs; what each operation of the
  lifecycle leaves when it returns and when it raises half way, and that it reaches no other app; what a provider's
  requests leave of the names of others; that a rekey loses no value and keeps the keys of older backups.

  \<^bold>\<open>Bounds and fuel.\<close> The JSON reader has fuel twice the length of the text, enough for every dumped value
  (\<open>loads (dumps j) = Some j\<close>). The search for the next time is a \<^theory_text>\<open>partial_function\<close> bounded by \<open>SEARCH_DAYS\<close>; it is shown
  to return. Waiting for health polls a bounded number of times by its deadline. Everything else is structural recursion.

  \<^bold>\<open>Not modelled.\<close> Text shown to an operator (\<^verbatim>\<open>receipt.py\<close>, \<^verbatim>\<open>views.py\<close>, the command line, the daemon's HTTP server), the
  installation of a service and of the box (\<^verbatim>\<open>service.py\<close>, \<^verbatim>\<open>cli/init.py\<close>), the rebuilding of a root from its backups
  (\<^verbatim>\<open>recover.py\<close>), the conveniences of \<^verbatim>\<open>cleanup.py\<close>, \<^verbatim>\<open>edit.py\<close>, \<^verbatim>\<open>dev.py\<close> and \<^verbatim>\<open>console.py\<close>, and the checks of a host
  (\<^verbatim>\<open>doctor.py\<close>): each is a sequence of calls of the host or formatting over the operations modelled here. Locks are modelled as refusals of an
  operation, not as interleavings: while an app's lock is held every other operation on it is refused.
\<close>

end
